(* ===== verification/Prelude.thy ===== *)
theory Prelude
  imports Main "HOL-Library.Word" "HOL-Library.Code_Target_Nat"
begin

text \<open>
  Shared vocabulary of the development: the result type in which a Python \<open>raise\<close> is a value,
  its sequencing operator, loops that stop at the first error, and the generic facts about lists
  and integers that the component theories use.
\<close>

unbundle bit_operations_syntax

type_synonym byte = "8 word"
type_synonym bytes = "8 word list"

named_theorems result_simps \<open>how the result type computes\<close>
named_theorems guards \<open>definitions of validation guards, unfolded to read off what a success implies\<close>

section \<open>Results: an error or a value\<close>

text \<open>\<open>Inl e\<close> is a raised exception, \<open>Inr x\<close> a returned value.\<close>

definition rbind :: "'e + 'a \<Rightarrow> ('a \<Rightarrow> 'e + 'b) \<Rightarrow> 'e + 'b" where
  "rbind m f = (case m of Inl e \<Rightarrow> Inl e | Inr x \<Rightarrow> f x)"

text \<open>\<open>raise_if c e\<close> is the guard \<open>if c: raise e\<close>.\<close>

definition raise_if :: "bool \<Rightarrow> 'e \<Rightarrow> 'e + unit" where
  "raise_if c e = (if c then Inl e else Inr ())"

definition of_option :: "'e \<Rightarrow> 'a option \<Rightarrow> 'e + 'a" where
  "of_option e o' = (case o' of None \<Rightarrow> Inl e | Some x \<Rightarrow> Inr x)"

text \<open>\<open>except r f\<close> is \<open>try: r; except E as e: raise f(e)\<close>.\<close>

definition except :: "'e + 'a \<Rightarrow> ('e \<Rightarrow> 'f) \<Rightarrow> 'f + 'a" where
  "except r f = (case r of Inl e \<Rightarrow> Inl (f e) | Inr x \<Rightarrow> Inr x)"

lemma rbind_simps [simp, result_simps]:
  "rbind (Inl e) f = Inl e"
  "rbind (Inr x) f = f x"
  by (simp_all add: rbind_def)

lemma rbind_cong [fundef_cong]:
  assumes "m = m'" and "\<And>x. m' = Inr x \<Longrightarrow> f x = f' x"
  shows "rbind m f = rbind m' f'"
  using assms by (cases m') simp_all

lemma rbind_Inr_iff: "rbind m f = Inr y \<longleftrightarrow> (\<exists>x. m = Inr x \<and> f x = Inr y)"
  by (cases m) simp_all

lemma rbind_Inl_iff: "rbind m f = Inl e \<longleftrightarrow> m = Inl e \<or> (\<exists>x. m = Inr x \<and> f x = Inl e)"
  by (cases m) simp_all

lemma rbind_InrE [elim!]:
  assumes "rbind m f = Inr y"
  obtains x where "m = Inr x" and "f x = Inr y"
  using assms by (auto simp: rbind_Inr_iff)

lemma rbind_assoc: "rbind (rbind m f) g = rbind m (\<lambda>x. rbind (f x) g)"
  by (cases m) simp_all

lemma raise_if_simps [simp, result_simps]:
  "raise_if True e = Inl e"
  "raise_if False e = Inr ()"
  by (simp_all add: raise_if_def)

lemma raise_if_Inr_iff [simp]: "raise_if c e = Inr u \<longleftrightarrow> \<not> c"
  by (simp add: raise_if_def)

lemma raise_if_Inl_iff [simp]: "raise_if c e = Inl e' \<longleftrightarrow> c \<and> e' = e"
  by (auto simp: raise_if_def)

lemma rbind_raise_if: "rbind (raise_if c e) f = (if c then Inl e else f ())"
  by (simp add: raise_if_def)

lemma guard_Inr: "rbind (raise_if c e) f = Inr y \<longleftrightarrow> \<not> c \<and> f () = Inr y"
  by (simp add: rbind_raise_if)

lemma of_option_simps [simp, result_simps]:
  "of_option e None = Inl e"
  "of_option e (Some x) = Inr x"
  by (simp_all add: of_option_def)

lemma of_option_Inr_iff [simp]: "of_option e o' = Inr x \<longleftrightarrow> o' = Some x"
  by (cases o') simp_all

lemma except_simps [simp, result_simps]:
  "except (Inl e) f = Inl (f e)"
  "except (Inr x) f = Inr x"
  by (simp_all add: except_def)

lemma except_Inr_iff [simp]: "except r f = Inr x \<longleftrightarrow> r = Inr x"
  by (cases r) simp_all

section \<open>Loops that stop at the first error\<close>

fun mapM_r :: "('a \<Rightarrow> 'e + 'b) \<Rightarrow> 'a list \<Rightarrow> 'e + 'b list" where
  "mapM_r f [] = Inr []"
| "mapM_r f (x # xs) = rbind (f x) (\<lambda>y. rbind (mapM_r f xs) (\<lambda>ys. Inr (y # ys)))"

fun foldM_r :: "('s \<Rightarrow> 'a \<Rightarrow> 'e + 's) \<Rightarrow> 's \<Rightarrow> 'a list \<Rightarrow> 'e + 's" where
  "foldM_r f s [] = Inr s"
| "foldM_r f s (x # xs) = rbind (f s x) (\<lambda>s'. foldM_r f s' xs)"

lemma mapM_r_Inr_iff:
  "mapM_r f xs = Inr ys \<longleftrightarrow> list_all2 (\<lambda>x y. f x = Inr y) xs ys"
proof (induction xs arbitrary: ys)
  case Nil
  then show ?case by auto
next
  case (Cons x xs)
  then show ?case by (cases ys) (auto simp: rbind_Inr_iff)
qed

lemma mapM_r_length: "mapM_r f xs = Inr ys \<Longrightarrow> length ys = length xs"
  by (auto simp: mapM_r_Inr_iff dest: list_all2_lengthD)

lemma mapM_r_memberD:
  assumes "mapM_r f xs = Inr ys" and "y \<in> set ys"
  obtains x where "x \<in> set xs" and "f x = Inr y"
  using assms
proof (induction xs arbitrary: ys thesis)
  case Nil
  then show ?case by simp
next
  case (Cons x xs)
  from Cons.prems(2) obtain z zs where z: "f x = Inr z" "mapM_r f xs = Inr zs" "ys = z # zs"
    by auto
  show ?case
  proof (cases "y = z")
    case True
    with z Cons.prems(1) [of x] show ?thesis by simp
  next
    case False
    with z Cons.prems(3) have "y \<in> set zs" by simp
    from Cons.IH [OF _ z(2) this] Cons.prems(1) show ?thesis by auto
  qed
qed

lemma mapM_r_cong [fundef_cong]:
  assumes "xs = ys" and "\<And>x. x \<in> set ys \<Longrightarrow> f x = g x"
  shows "mapM_r f xs = mapM_r g ys"
  unfolding assms(1) using assms(2) by (induction ys) (auto intro!: rbind_cong)

lemma foldM_r_append:
  "foldM_r f s (xs @ ys) = rbind (foldM_r f s xs) (\<lambda>s'. foldM_r f s' ys)"
  by (induction xs arbitrary: s) (auto simp: rbind_assoc)

lemma foldM_r_invariant:
  assumes "foldM_r f s xs = Inr s'" and "P s"
    and "\<And>s x s'. P s \<Longrightarrow> x \<in> set xs \<Longrightarrow> f s x = Inr s' \<Longrightarrow> P s'"
  shows "P s'"
  using assms
proof (induction xs arbitrary: s)
  case Nil
  then show ?case by simp
next
  case (Cons x xs)
  from Cons.prems(1) obtain t where t: "f s x = Inr t" "foldM_r f t xs = Inr s'"
    by auto
  have "P t"
    by (rule Cons.prems(3) [OF Cons.prems(2) _ t(1)]) simp
  show ?case
  proof (rule Cons.IH [OF t(2) \<open>P t\<close>])
    fix u x' u'
    assume "P u" and "x' \<in> set xs" and "f u x' = Inr u'"
    then show "P u'" using Cons.prems(3) [of u x' u'] by simp
  qed
qed

section \<open>Lists\<close>

text \<open>\<open>xs[start:stop]\<close> for \<open>0 \<le> start \<le> stop\<close>.\<close>

definition slice :: "nat \<Rightarrow> nat \<Rightarrow> 'a list \<Rightarrow> 'a list" where
  "slice start n xs = take n (drop start xs)"

lemma length_slice: "start + n \<le> length xs \<Longrightarrow> length (slice start n xs) = n"
  by (simp add: slice_def)

lemma slice_append_exact [simp]: "slice (length xs) (length ys) (xs @ ys @ zs) = ys"
  by (simp add: slice_def)

lemma slice_slice:
  "start' + n' \<le> n \<Longrightarrow> slice start' n' (slice start n xs) = slice (start + start') n' xs"
  by (simp add: slice_def drop_take min_absorb1 add.commute)

lemma slice_concat:
  "slice start a xs @ slice (start + a) b xs = slice start (a + b) xs"
  by (simp add: slice_def take_add add.commute)

section \<open>Powers of two and alignment on Python integers\<close>

lemma int_and_not_mask: "(a::int) AND NOT (mask k) = push_bit k (drop_bit k a)"
  by (rule bit_eqI) (auto simp: bit_simps)

lemma int_and_minus_power2: "(a::int) AND - (2 ^ k) = a div 2 ^ k * 2 ^ k"
  by (simp add: minus_exp_eq_not_mask int_and_not_mask push_bit_eq_mult drop_bit_eq_div)

text \<open>The guard \<open>a & (a - 1)\<close> of the code is zero exactly for the powers of two.\<close>

lemma power2_and_pred: "(2 ^ k :: int) AND (2 ^ k - 1) = 0"
proof -
  have "(2 ^ k :: int) AND (2 ^ k - 1) = take_bit k (2 ^ k)"
    by (simp only: take_bit_eq_mask mask_eq_exp_minus_1)
  then show ?thesis by (simp add: take_bit_eq_mod)
qed

lemma and_pred_power2:
  assumes "0 < (a::int)" and "a AND (a - 1) = 0"
  shows "\<exists>k. a = 2 ^ k"
  using assms
proof (induction "nat a" arbitrary: a rule: less_induct)
  case less
  show ?case
  proof (cases "a = 1")
    case True
    then show ?thesis by (intro exI [of _ 0]) simp
  next
    case False
    have even: "even a"
    proof (rule ccontr)
      assume "odd a"
      then obtain b where b: "a = 2 * b + 1" by (rule oddE)
      with less.prems False have "0 < b" by linarith
      have "a AND (a - 1) = 2 * b"
        unfolding b by (subst and_rec) simp
      with less.prems(2) \<open>0 < b\<close> show False by simp
    qed
    then obtain b where b: "a = 2 * b" by (rule evenE)
    have "(2 * b) AND (2 * b - 1) = 2 * (b AND (b - 1))"
    proof -
      have "(2 * b - 1) div 2 = b - 1" by simp
      then show ?thesis by (subst and_rec) simp
    qed
    with less.prems b have "b AND (b - 1) = 0" "0 < b" by auto
    moreover have "nat b < nat a" using b \<open>0 < b\<close> by simp
    ultimately obtain k where "b = 2 ^ k" using less.hyps by blast
    with b show ?thesis by (intro exI [of _ "Suc k"]) simp
  qed
qed

end
