(* ===== verification/PyText.thy ===== *)
theory PyText
  imports Prelude
begin

text \<open>
  Python text and its UTF-8 codec. A Python \<open>str\<close> is a list of code points, \<open>bytes\<close> a list of
  8-bit words. \<open>encode_utf8\<close> is \<open>s.encode("utf-8")\<close> (\<open>None\<close> where Python raises
  \<open>UnicodeEncodeError\<close>, that is on a surrogate) and \<open>decode_utf8\<close> is \<open>b.decode("utf-8")\<close> in strict
  mode (\<open>None\<close> where Python raises \<open>UnicodeDecodeError\<close>): no overlong form, no surrogate, nothing
  above U+10FFFF, no truncated sequence. The lemmas show that the two are inverse.
\<close>

type_synonym pystr = "nat list"

text \<open>A string literal of the source, all ASCII.\<close>

definition lit :: "string \<Rightarrow> pystr" where
  "lit s = map of_char s"

lemma lit_simps: "lit [] = []" "lit (c # cs) = of_char c # lit cs"
  by (simp_all add: lit_def)

definition is_surrogate :: "nat \<Rightarrow> bool" where
  "is_surrogate c \<longleftrightarrow> 0xD800 \<le> c \<and> c \<le> 0xDFFF"

text \<open>What a Python \<open>str\<close> can hold, and which of it UTF-8 can encode.\<close>

definition is_code_point :: "nat \<Rightarrow> bool" where
  "is_code_point c \<longleftrightarrow> c \<le> 0x10FFFF"

definition is_scalar_value :: "nat \<Rightarrow> bool" where
  "is_scalar_value c \<longleftrightarrow> is_code_point c \<and> \<not> is_surrogate c"

section \<open>Encoding\<close>

definition utf8_char :: "nat \<Rightarrow> nat list" where
  "utf8_char c =
     (if c < 0x80 then [c]
      else if c < 0x800 then [0xC0 + c div 64, 0x80 + c mod 64]
      else if c < 0x10000 then
        [0xE0 + c div 4096, 0x80 + c div 64 mod 64, 0x80 + c mod 64]
      else [0xF0 + c div 262144, 0x80 + c div 4096 mod 64,
            0x80 + c div 64 mod 64, 0x80 + c mod 64])"

definition encode_utf8 :: "pystr \<Rightarrow> bytes option" where
  "encode_utf8 s =
     (if list_all is_scalar_value s then Some (map of_nat (concat (map utf8_char s))) else None)"

section \<open>Decoding\<close>

definition is_cont :: "nat \<Rightarrow> bool" where
  "is_cont b \<longleftrightarrow> 0x80 \<le> b \<and> b < 0xC0"

fun decode_utf8_nat :: "nat list \<Rightarrow> pystr option" where
  "decode_utf8_nat [] = Some []"
| "decode_utf8_nat (b # bs) =
     (if b < 0x80 then map_option ((#) b) (decode_utf8_nat bs)
      else if 0xC2 \<le> b \<and> b \<le> 0xDF then
        (case bs of
           c1 # rest \<Rightarrow>
             (if is_cont c1
              then map_option ((#) ((b - 0xC0) * 64 + (c1 - 0x80))) (decode_utf8_nat rest)
              else None)
         | [] \<Rightarrow> None)
      else if 0xE0 \<le> b \<and> b \<le> 0xEF then
        (case bs of
           c1 # c2 # rest \<Rightarrow>
             (let c = (b - 0xE0) * 4096 + (c1 - 0x80) * 64 + (c2 - 0x80) in
              if is_cont c1 \<and> is_cont c2 \<and> 0x800 \<le> c \<and> \<not> is_surrogate c
              then map_option ((#) c) (decode_utf8_nat rest)
              else None)
         | _ \<Rightarrow> None)
      else if 0xF0 \<le> b \<and> b \<le> 0xF4 then
        (case bs of
           c1 # c2 # c3 # rest \<Rightarrow>
             (let c = (b - 0xF0) * 262144 + (c1 - 0x80) * 4096 + (c2 - 0x80) * 64 + (c3 - 0x80) in
              if is_cont c1 \<and> is_cont c2 \<and> is_cont c3 \<and> 0x10000 \<le> c \<and> is_code_point c
              then map_option ((#) c) (decode_utf8_nat rest)
              else None)
         | _ \<Rightarrow> None)
      else None)"

definition decode_utf8 :: "bytes \<Rightarrow> pystr option" where
  "decode_utf8 bs = decode_utf8_nat (map unat bs)"

section \<open>The two are inverse\<close>

lemma utf8_char_bytes: "is_code_point c \<Longrightarrow> b \<in> set (utf8_char c) \<Longrightarrow> b < 256"
  by (auto simp: utf8_char_def is_code_point_def split: if_splits)

lemma utf8_char_nonempty [simp]: "utf8_char c \<noteq> []"
  by (simp add: utf8_char_def)

lemma base64_digits:
  "c div 64 * 64 + c mod 64 = (c::nat)"
  "c div 4096 * 4096 + c div 64 mod 64 * 64 + c mod 64 = c"
  "c div 262144 * 262144 + c div 4096 mod 64 * 4096 + c div 64 mod 64 * 64 + c mod 64 = c"
proof -
  have 1: "c div 64 * 64 + c mod 64 = c" for c :: nat by simp
  have q: "c div 4096 = c div 64 div 64" "c div 262144 = c div 64 div 64 div 64"
    by (simp_all add: div_mult2_eq [symmetric])
  show "c div 64 * 64 + c mod 64 = c" by simp
  show two: "c div 4096 * 4096 + c div 64 mod 64 * 64 + c mod 64 = c"
    unfolding q using 1 [of c] 1 [of "c div 64"] by linarith
  show "c div 262144 * 262144 + c div 4096 mod 64 * 4096 + c div 64 mod 64 * 64 + c mod 64 = c"
    unfolding q using 1 [of c] 1 [of "c div 64"] 1 [of "c div 64 div 64"] by linarith
qed

lemma decode_utf8_char:
  assumes "is_scalar_value c"
  shows "decode_utf8_nat (utf8_char c @ bs) = map_option ((#) c) (decode_utf8_nat bs)"
proof -
  consider (one) "c < 0x80" | (two) "0x80 \<le> c" "c < 0x800" | (three) "0x800 \<le> c" "c < 0x10000"
    | (four) "0x10000 \<le> c" "c \<le> 0x10FFFF"
    using assms by (fastforce simp: is_scalar_value_def is_code_point_def)
  then show ?thesis
  proof cases
    case one
    then show ?thesis by (simp add: utf8_char_def)
  next
    case two
    define q r where "q = c div 64" and "r = c mod 64"
    have "2 \<le> q" "q \<le> 0x1F" "r < 64"
      using two div_le_mono [of 128 c 64] div_le_mono [of c 2047 64] by (simp_all add: q_def r_def)
    moreover have "q * 64 + r = c" unfolding q_def r_def by (rule base64_digits(1))
    moreover have "utf8_char c = [0xC0 + q, 0x80 + r]"
      using two by (simp add: utf8_char_def q_def r_def)
    ultimately show ?thesis by (simp add: is_cont_def)
  next
    case three
    define p q r where "p = c div 4096" and "q = c div 64 mod 64" and "r = c mod 64"
    have "p \<le> 0xF" using three div_le_mono [of c 65535 4096] by (simp add: p_def)
    moreover have "q < 64" "r < 64" by (simp_all add: q_def r_def)
    moreover have "p * 4096 + q * 64 + r = c"
      unfolding p_def q_def r_def by (rule base64_digits(2))
    moreover have "utf8_char c = [0xE0 + p, 0x80 + q, 0x80 + r]"
      using three by (simp add: utf8_char_def p_def q_def r_def)
    ultimately show ?thesis
      using three assms by (simp add: is_cont_def is_scalar_value_def Let_def)
  next
    case four
    define n p q r where "n = c div 262144" and "p = c div 4096 mod 64"
      and "q = c div 64 mod 64" and "r = c mod 64"
    have "n \<le> 4" using four div_le_mono [of c 1114111 262144] by (simp add: n_def)
    moreover have "p < 64" "q < 64" "r < 64" by (simp_all add: p_def q_def r_def)
    moreover have "n * 262144 + p * 4096 + q * 64 + r = c"
      unfolding n_def p_def q_def r_def by (rule base64_digits(3))
    moreover have "utf8_char c = [0xF0 + n, 0x80 + p, 0x80 + q, 0x80 + r]"
      using four by (simp add: utf8_char_def n_def p_def q_def r_def)
    ultimately show ?thesis
      using four assms by (simp add: is_cont_def is_scalar_value_def Let_def)
  qed
qed

lemma decode_utf8_nat_encode:
  "list_all is_scalar_value s \<Longrightarrow> decode_utf8_nat (concat (map utf8_char s)) = Some s"
  by (induction s) (simp_all add: decode_utf8_char)

theorem decode_encode_utf8:
  assumes "encode_utf8 s = Some bs"
  shows "decode_utf8 bs = Some s"
proof -
  from assms have sc: "list_all is_scalar_value s"
    and bs: "bs = map of_nat (concat (map utf8_char s))"
    by (auto simp: encode_utf8_def split: if_splits)
  have "map unat bs = concat (map utf8_char s)"
  proof -
    have "\<forall>b \<in> set (concat (map utf8_char s)). unat (of_nat b :: byte) = b"
    proof
      fix b assume "b \<in> set (concat (map utf8_char s))"
      then obtain c where "c \<in> set s" "b \<in> set (utf8_char c)" by auto
      with sc have "b < 256"
        using utf8_char_bytes [of c b] by (auto simp: list_all_iff is_scalar_value_def)
      then show "unat (of_nat b :: byte) = b"
        by (simp add: unat_of_nat)
    qed
    then show ?thesis unfolding bs map_map by (intro map_idI) auto
  qed
  with sc show ?thesis by (simp add: decode_utf8_def decode_utf8_nat_encode)
qed

end
