(* ===== verification/PyFloat.thy ===== *)
theory PyFloat
  imports Prelude
begin

text \<open>
  Python floats and the \<open>struct\<close> formats of a float. A Python float is an IEEE binary64, kept as its
  64-bit pattern (a \<open>nat\<close> below \<open>2 ^ 64\<close>): packing it with \<open>d\<close> writes the pattern, with \<open>f\<close> rounds it to
  binary32 (half to even) and raises \<open>OverflowError\<close> when a finite value rounds to infinity;
  unpacking \<open>f\<close> widens. An \<open>int\<close> given to a float format is converted to binary64 first. The one
  thing not modelled is the hardware's quieting of a signalling NaN while widening.
\<close>

section \<open>Magnitudes\<close>

fun bitlen :: "nat \<Rightarrow> nat" where
  "bitlen n = (if n = 0 then 0 else Suc (bitlen (n div 2)))"

declare bitlen.simps [simp del]

text \<open>\<open>n / 2 ^ k\<close> rounded to the nearest integer, ties to even.\<close>

definition round_ne :: "nat \<Rightarrow> nat \<Rightarrow> nat" where
  "round_ne n k =
     (let q = n div 2 ^ k; r = 2 * (n mod 2 ^ k) in
      if 2 ^ k < r \<or> (r = 2 ^ k \<and> odd q) then q + 1 else q)"

text \<open>
  The magnitude bits of \<open>n * 2 ^ x\<close> in the format with \<open>M\<close> fraction bits and bias \<open>B\<close>: \<open>e\<close> is the
  exponent of the result (clamped for subnormals), \<open>s\<close> how many bits of \<open>n\<close> lie below its last place.
  Adding the scaled significand to the exponent field lets the implicit bit and a rounding carry
  move into the exponent.
\<close>

definition ieee_pack :: "nat \<Rightarrow> int \<Rightarrow> nat \<Rightarrow> int \<Rightarrow> nat" where
  "ieee_pack M B n x =
     (if n = 0 then 0
      else let e = max (int (bitlen n) - 1 + x) (1 - B);
               s = e - int M - x;
               q = (if s \<le> 0 then n * 2 ^ nat (- s) else round_ne n (nat s))
           in q + nat (e - (1 - B)) * 2 ^ M)"

definition ieee_mant :: "nat \<Rightarrow> nat \<Rightarrow> nat \<Rightarrow> nat" where
  "ieee_mant M e m = (if e = 0 then m else m + 2 ^ M)"

definition ieee_exp :: "nat \<Rightarrow> int \<Rightarrow> nat \<Rightarrow> int" where
  "ieee_exp M B e = int (max e 1) - B - int M"

section \<open>The conversions \<open>struct\<close> performs\<close>

definition f32_to_f64 :: "nat \<Rightarrow> nat" where
  "f32_to_f64 b =
     (let s = b div 2 ^ 31; e = b div 2 ^ 23 mod 2 ^ 8; m = b mod 2 ^ 23 in
      s * 2 ^ 63 +
      (if e = 255 then 2047 * 2 ^ 52 + m * 2 ^ 29
       else ieee_pack 52 1023 (ieee_mant 23 e m) (ieee_exp 23 127 e)))"

definition f64_to_f32 :: "nat \<Rightarrow> nat option" where
  "f64_to_f32 b =
     (let s = b div 2 ^ 63; e = b div 2 ^ 52 mod 2 ^ 11; m = b mod 2 ^ 52 in
      if e = 2047 then
        Some (s * 2 ^ 31 + 255 * 2 ^ 23 + (if m = 0 then 0 else (m div 2 ^ 29) OR 2 ^ 22))
      else
        (let r = ieee_pack 23 127 (ieee_mant 52 e m) (ieee_exp 52 1023 e) in
         if 255 * 2 ^ 23 \<le> r then None else Some (s * 2 ^ 31 + r)))"

definition int_to_f64 :: "int \<Rightarrow> nat option" where
  "int_to_f64 i =
     (let r = ieee_pack 52 1023 (nat \<bar>i\<bar>) 0 in
      if 2047 * 2 ^ 52 \<le> r then None else Some ((if i < 0 then 2 ^ 63 else 0) + r))"

definition f32_is_nan :: "nat \<Rightarrow> bool" where
  "f32_is_nan b \<longleftrightarrow> b div 2 ^ 23 mod 2 ^ 8 = 255 \<and> b mod 2 ^ 23 \<noteq> 0"

section \<open>Narrowing undoes widening\<close>

lemma bitlen_bounds: "0 < n \<Longrightarrow> 0 < bitlen n \<and> 2 ^ (bitlen n - 1) \<le> n \<and> n < 2 ^ bitlen n"
proof (induction n rule: bitlen.induct)
  case (1 n)
  show ?case
  proof (cases "n div 2 = 0")
    case True
    with 1(2) have "n = 1" by auto
    then show ?thesis by (simp add: bitlen.simps)
  next
    case False
    with 1 have IH: "0 < bitlen (n div 2)" "2 ^ (bitlen (n div 2) - 1) \<le> n div 2"
        "n div 2 < 2 ^ bitlen (n div 2)" by auto
    from IH(1) obtain l where l: "bitlen (n div 2) = Suc l" by (cases "bitlen (n div 2)") auto
    have "bitlen n = Suc (Suc l)" using 1(2) l by (subst bitlen.simps) simp
    with IH l show ?thesis by auto
  qed
qed

lemma bitlen_unique:
  assumes "2 ^ l \<le> n" and "n < 2 ^ Suc l"
  shows "bitlen n = Suc l"
proof -
  have "(0::nat) < 2 ^ l" by simp
  with assms(1) have "0 < n" by linarith
  note b = bitlen_bounds [OF this]
  have "(2::nat) ^ l < 2 ^ bitlen n" "(2::nat) ^ (bitlen n - 1) < 2 ^ Suc l"
    using b assms by linarith+
  then have "l < bitlen n" "bitlen n - 1 < Suc l" by (simp_all only: power_strict_increasing_iff)
  then show ?thesis by linarith
qed

lemma bitlen_shift: "0 < n \<Longrightarrow> bitlen (n * 2 ^ k) = bitlen n + k"
proof -
  assume n: "0 < n"
  note b = bitlen_bounds [OF n]
  obtain l where l: "bitlen n = Suc l" using b by (cases "bitlen n") auto
  have "bitlen (n * 2 ^ k) = Suc (l + k)"
    using b l by (intro bitlen_unique) (simp_all add: power_add)
  with l show ?thesis by simp
qed

lemma round_ne_exact: "round_ne (n * 2 ^ k) k = n"
  by (simp add: round_ne_def Let_def)

lemma round_ne_shift: "round_ne (n * 2 ^ k) (j + k) = round_ne n j"
proof -
  have "n * 2 ^ k div 2 ^ (j + k) = n div 2 ^ j" "n * 2 ^ k mod 2 ^ (j + k) = n mod 2 ^ j * 2 ^ k"
    by (simp_all add: power_add mult_mod_left)
  then show ?thesis by (simp add: round_ne_def Let_def power_add mult.commute [of 2])
qed

lemma ieee_pack_shift: "ieee_pack M B (n * 2 ^ k) (x - int k) = ieee_pack M B n x"
proof (cases "n = 0")
  case False
  define e where "e = max (int (bitlen n) - 1 + x) (1 - B)"
  define s where "s = e - int M - x"
  have q: "(if s + int k \<le> 0 then n * 2 ^ k * 2 ^ nat (- (s + int k)) else round_ne (n * 2 ^ k) (nat (s + int k)))
      = (if s \<le> 0 then n * 2 ^ nat (- s) else round_ne n (nat s))"
  proof (cases "s \<le> 0")
    case True
    show ?thesis
    proof (cases "s + int k \<le> 0")
      case True
      then have "k + nat (- (s + int k)) = nat (- s)" by linarith
      then have "n * 2 ^ k * 2 ^ nat (- (s + int k)) = n * 2 ^ nat (- s)"
        by (simp add: mult.assoc flip: power_add)
      with True show ?thesis by simp
    next
      case False
      then have "k = nat (- s) + nat (s + int k)" using \<open>s \<le> 0\<close> by linarith
      then have sh: "n * 2 ^ k = (n * 2 ^ nat (- s)) * 2 ^ nat (s + int k)"
        by (metis power_add mult.assoc)
      have "round_ne (n * 2 ^ k) (nat (s + int k)) = n * 2 ^ nat (- s)"
        by (subst sh) (rule round_ne_exact)
      with False \<open>s \<le> 0\<close> show ?thesis by simp
    qed
  next
    case False
    then have "nat (s + int k) = nat s + k" by linarith
    with False show ?thesis by (simp add: round_ne_shift)
  qed
  have e': "max (int (bitlen (n * 2 ^ k)) - 1 + (x - int k)) (1 - B) = e"
    using False by (simp add: e_def bitlen_shift)
  have s': "e - int M - (x - int k) = s + int k" by (simp add: s_def)
  have nz: "n * 2 ^ k \<noteq> 0" using False by simp
  show ?thesis
    unfolding ieee_pack_def Let_def e' s' if_not_P [OF False] if_not_P [OF nz] q
    by (simp only: e_def s_def)
qed (simp add: ieee_pack_def)

lemma ieee_pack_id:
  assumes "m < 2 ^ M"
  shows "ieee_pack M B (ieee_mant M e m) (ieee_exp M B e) = e * 2 ^ M + m"
proof (cases "e = 0")
  case e0: True
  show ?thesis
  proof (cases "m = 0")
    case False
    then obtain l where l: "bitlen m = Suc l"
      using bitlen_bounds [of m] by (cases "bitlen m") auto
    with False bitlen_bounds [of m] have "2 ^ l \<le> m" by auto
    then have "(2::nat) ^ l < 2 ^ M" using assms by (rule le_less_trans)
    then have "l < M" by (simp only: power_strict_increasing_iff)
    with e0 False l show ?thesis
      by (simp add: ieee_pack_def ieee_mant_def ieee_exp_def Let_def max_def)
  qed (simp add: e0 ieee_pack_def ieee_mant_def)
next
  case False
  then obtain e' where e': "e = Suc e'" by (cases e) auto
  have "bitlen (m + 2 ^ M) = Suc M" using assms by (intro bitlen_unique) simp_all
  with e' show ?thesis
    by (simp add: ieee_pack_def ieee_mant_def ieee_exp_def Let_def max_def algebra_simps)
qed

text \<open>A binary32 significand widened: exact, so the result is the same number shifted.\<close>

lemma widen_exact:
  assumes n: "0 < n" "n < 2 ^ 24" and x: "- 149 \<le> x" "x \<le> 104"
  obtains e m k where "ieee_pack 52 1023 n x = e * 2 ^ 52 + m" "m < 2 ^ 52" "0 < e" "e < 2047"
    "ieee_mant 52 e m = n * 2 ^ k" "ieee_exp 52 1023 e = x - int k"
proof -
  obtain l where l: "bitlen n = Suc l" using bitlen_bounds [OF n(1)] by (cases "bitlen n") auto
  have nl: "2 ^ l \<le> n" "n < 2 * 2 ^ l" using bitlen_bounds [OF n(1)] l by simp_all
  then have "(2::nat) ^ l < 2 ^ 24" using n(2) by linarith
  then have l24: "l < 24" by (simp only: power_strict_increasing_iff)
  define k where "k = 52 - l"
  have k: "l + k = 52" using l24 by (simp add: k_def)
  have pow: "(2::nat) ^ l * 2 ^ k = 2 ^ 52" using k by (metis power_add)
  have "2 ^ l * 2 ^ k \<le> n * 2 ^ k" "n * 2 ^ k < 2 * 2 ^ l * 2 ^ k" using nl by simp_all
  with pow have nk: "2 ^ 52 \<le> n * 2 ^ k" "n * 2 ^ k < 2 * 2 ^ 52" by (simp_all add: mult.assoc)
  define e where "e = nat (int l + x + 1023)"
  define m where "m = n * 2 ^ k - 2 ^ 52"
  have e: "int e = int l + x + 1023" "0 < e" "e < 2047" using x l24 by (auto simp: e_def)
  have mx: "max (int l + x) (- 1022) = int l + x" using x by simp
  have s: "int l + x - 52 - x = - int k" using k by linarith
  have ee: "nat (int l + x + 1022) = e - 1" using e by linarith
  have "ieee_pack 52 1023 n x = n * 2 ^ k + (e - 1) * 2 ^ 52"
    using n(1) l mx s ee by (simp add: ieee_pack_def Let_def)
  also have "\<dots> = e * 2 ^ 52 + m"
    using nk(1) e(2) by (cases e) (simp_all add: m_def)
  finally have p: "ieee_pack 52 1023 n x = e * 2 ^ 52 + m" .
  show ?thesis
  proof (rule that [OF p])
    show "m < 2 ^ 52" using nk by (simp add: m_def)
    show "ieee_mant 52 e m = n * 2 ^ k" using nk(1) e(2) by (simp add: ieee_mant_def m_def)
    show "ieee_exp 52 1023 e = x - int k" using e k by (simp add: ieee_exp_def)
  qed (use e in auto)
qed

lemma split_sign_exp_frac:
  assumes "m < 2 ^ M" and "e < 2 ^ w"
  shows "(s * 2 ^ (M + w) + (e * 2 ^ M + m)) div 2 ^ (M + w) = s"
    and "(s * 2 ^ (M + w) + (e * 2 ^ M + m)) div 2 ^ M mod 2 ^ w = e"
    and "(s * 2 ^ (M + w) + (e * 2 ^ M + m)) mod 2 ^ M = (m::nat)"
proof -
  have em: "e * 2 ^ M + m < 2 ^ (M + w)"
  proof -
    have "e * 2 ^ M + m < Suc e * 2 ^ M" using assms(1) by simp
    also have "\<dots> \<le> 2 ^ w * 2 ^ M" using assms(2) by (intro mult_le_mono1) simp
    finally show ?thesis by (simp add: power_add mult.commute)
  qed
  then show "(s * 2 ^ (M + w) + (e * 2 ^ M + m)) div 2 ^ (M + w) = s" by simp
  have eq: "s * 2 ^ (M + w) + (e * 2 ^ M + m) = (s * 2 ^ w + e) * 2 ^ M + m"
    by (simp add: power_add algebra_simps)
  show "(s * 2 ^ (M + w) + (e * 2 ^ M + m)) div 2 ^ M mod 2 ^ w = e"
    unfolding eq using assms by simp
  show "(s * 2 ^ (M + w) + (e * 2 ^ M + m)) mod 2 ^ M = m"
    unfolding eq using assms by simp
qed

lemma f64_fields:
  assumes "m < 2 ^ 52" and "e < 2048"
  shows "(s * 2 ^ 63 + (e * 2 ^ 52 + m)) div 2 ^ 63 = s"
    and "(s * 2 ^ 63 + (e * 2 ^ 52 + m)) div 2 ^ 52 mod 2 ^ 11 = e"
    and "(s * 2 ^ 63 + (e * 2 ^ 52 + m)) mod 2 ^ 52 = (m::nat)"
proof -
  have h: "(52::nat) + 11 = 63" by simp
  have "e < 2 ^ 11" using assms(2) by simp
  note f = split_sign_exp_frac [OF assms(1) this, of s, unfolded h]
  show "(s * 2 ^ 63 + (e * 2 ^ 52 + m)) div 2 ^ 63 = s" by (rule f)
  show "(s * 2 ^ 63 + (e * 2 ^ 52 + m)) div 2 ^ 52 mod 2 ^ 11 = e" by (rule f)
  show "(s * 2 ^ 63 + (e * 2 ^ 52 + m)) mod 2 ^ 52 = m" by (rule f)
qed

theorem f32_roundtrip:
  assumes b: "b < 2 ^ 32" and fin: "\<not> f32_is_nan b"
  shows "f64_to_f32 (f32_to_f64 b) = Some b"
proof -
  define s e m where "s = b div 2 ^ 31" and "e = b div 2 ^ 23 mod 2 ^ 8" and "m = b mod 2 ^ 23"
  have m: "m < 2 ^ 23" and e: "e < 256" by (simp_all add: m_def e_def)
  have bsem: "b = s * 2 ^ 31 + (e * 2 ^ 23 + m)"
  proof -
    have "b = b div 2 ^ 23 * 2 ^ 23 + m" unfolding m_def by (metis div_mult_mod_eq)
    moreover have "b div 2 ^ 23 = b div 2 ^ 23 div 2 ^ 8 * 2 ^ 8 + e"
      unfolding e_def by (metis div_mult_mod_eq)
    moreover have "b div 2 ^ 23 div 2 ^ 8 = s"
      unfolding s_def by (simp add: div_mult2_eq [symmetric])
    ultimately show ?thesis by simp
  qed
  have w: "f32_to_f64 b = s * 2 ^ 63 +
      (if e = 255 then 2047 * 2 ^ 52 + m * 2 ^ 29
       else ieee_pack 52 1023 (ieee_mant 23 e m) (ieee_exp 23 127 e))"
    by (simp only: f32_to_f64_def Let_def s_def e_def m_def)
  show ?thesis
  proof (cases "e = 255")
    case True
    then have "m = 0" using fin by (simp only: f32_is_nan_def e_def m_def) blast
    with True have w: "f32_to_f64 b = s * 2 ^ 63 + (2047 * 2 ^ 52 + 0)" using w by simp
    show ?thesis
      unfolding f64_to_f32_def w Let_def
      by (subst f64_fields | simp)+ (simp add: bsem True \<open>m = 0\<close>)
  next
    case False
    define n x where "n = ieee_mant 23 e m" and "x = ieee_exp 23 127 e"
    have bits: "ieee_pack 23 127 n x = e * 2 ^ 23 + m"
      unfolding n_def x_def by (rule ieee_pack_id [OF m])
    have small: "e * 2 ^ 23 + m < 255 * 2 ^ 23"
      using m e False by (simp add: less_eq_Suc_le)
    show ?thesis
    proof (cases "n = 0")
      case True
      then have "e = 0" "m = 0" by (simp_all add: n_def ieee_mant_def split: if_splits)
      with w have w: "f32_to_f64 b = s * 2 ^ 63 + (0 * 2 ^ 52 + 0)"
        by (simp add: ieee_mant_def ieee_pack_def)
      show ?thesis
        unfolding f64_to_f32_def w Let_def
        by (subst f64_fields | simp)+
          (simp add: bsem \<open>e = 0\<close> \<open>m = 0\<close> ieee_pack_def ieee_mant_def)
    next
      case n0: False
      have "0 < n" "n < 2 ^ 24" "- 149 \<le> x" "x \<le> 104"
        using n0 m e False by (auto simp: n_def x_def ieee_mant_def ieee_exp_def split: if_splits)
      then obtain e' m' k where p: "ieee_pack 52 1023 n x = e' * 2 ^ 52 + m'"
        and m': "m' < 2 ^ 52" and e': "0 < e'" "e' < 2047"
        and mant: "ieee_mant 52 e' m' = n * 2 ^ k" and ex: "ieee_exp 52 1023 e' = x - int k"
        by (rule widen_exact)
      have w: "f32_to_f64 b = s * 2 ^ 63 + (e' * 2 ^ 52 + m')"
        using w False p by (simp add: n_def x_def)
      have "e' < 2048" using e' by simp
      note f = f64_fields [OF m' this, of s]
      have r: "ieee_pack 23 127 (ieee_mant 52 e' m') (ieee_exp 52 1023 e') = e * 2 ^ 23 + m"
        unfolding mant ex ieee_pack_shift by (rule bits)
      show ?thesis
        unfolding f64_to_f32_def w f Let_def r using e'(2) small by (simp add: bsem)
    qed
  qed
qed

end
