(* ===== verification/GgufQuant.thy ===== *)
theory GgufQuant
  imports Prelude "HOL-Library.List_Lexorder" "HOL-Library.Char_ord"
begin

text \<open>
  \<open>adapters/gguf/quantization.py\<close>: the pinned block layouts of the GGML storage types, the size and
  axis-edit arithmetic over them, the tensor-alignment contract, the block-count records and the
  exact-type codec registry. Python ints are \<open>int\<close>; a \<open>dict\<close> is a partial function.
\<close>

section \<open>Types\<close>

datatype ggml_type =
    F32 | F16 | BF16 | Q4_0 | Q4_1 | Q5_0 | Q5_1 | Q8_0 | Q2_K | Q3_K | Q4_K | Q5_K | Q6_K | Q8_K
  | IQ2_XXS | IQ2_XS | IQ3_XXS | IQ1_S | IQ4_NL | IQ3_S | IQ2_S | IQ4_XS | IQ1_M

text \<open>The \<open>StrEnum\<close> value of each member.\<close>

fun ggml_value :: "ggml_type \<Rightarrow> string" where
  "ggml_value F32 = ''F32''" | "ggml_value F16 = ''F16''" | "ggml_value BF16 = ''BF16''"
| "ggml_value Q4_0 = ''Q4_0''" | "ggml_value Q4_1 = ''Q4_1''" | "ggml_value Q5_0 = ''Q5_0''"
| "ggml_value Q5_1 = ''Q5_1''" | "ggml_value Q8_0 = ''Q8_0''" | "ggml_value Q2_K = ''Q2_K''"
| "ggml_value Q3_K = ''Q3_K''" | "ggml_value Q4_K = ''Q4_K''" | "ggml_value Q5_K = ''Q5_K''"
| "ggml_value Q6_K = ''Q6_K''" | "ggml_value Q8_K = ''Q8_K''" | "ggml_value IQ2_XXS = ''IQ2_XXS''"
| "ggml_value IQ2_XS = ''IQ2_XS''" | "ggml_value IQ3_XXS = ''IQ3_XXS''"
| "ggml_value IQ1_S = ''IQ1_S''" | "ggml_value IQ4_NL = ''IQ4_NL''" | "ggml_value IQ3_S = ''IQ3_S''"
| "ggml_value IQ2_S = ''IQ2_S''" | "ggml_value IQ4_XS = ''IQ4_XS''" | "ggml_value IQ1_M = ''IQ1_M''"

lemma ggml_value_inject: "ggml_value a = ggml_value b \<longleftrightarrow> a = b"
  by (cases a; cases b) simp_all

text \<open>The registry lists types by value, so the type is ordered by its value.\<close>

instantiation ggml_type :: linorder
begin
definition less_eq_ggml_type :: "ggml_type \<Rightarrow> ggml_type \<Rightarrow> bool" where
  "a \<le> b \<longleftrightarrow> ggml_value a \<le> ggml_value b"
definition less_ggml_type :: "ggml_type \<Rightarrow> ggml_type \<Rightarrow> bool" where
  "a < b \<longleftrightarrow> ggml_value a < ggml_value b"
instance
proof
  fix a b c :: ggml_type
  show "a < b \<longleftrightarrow> a \<le> b \<and> \<not> b \<le> a"
    unfolding less_eq_ggml_type_def less_ggml_type_def by (rule less_le_not_le)
  show "a \<le> b \<Longrightarrow> b \<le> a \<Longrightarrow> a = b"
    by (simp add: less_eq_ggml_type_def ggml_value_inject [symmetric])
qed (auto simp: less_eq_ggml_type_def)
end

datatype quant_family = DENSE | LEGACY | Q8 | K_QUANT | IQ

datatype byte_order = LITTLE | BIG

datatype axis_edit_mode = BLOCK_VALUES | WHOLE_SLICES

text \<open>The exceptions of the module, with the built-in ones its code can let through.\<close>

datatype codec_error =
    ValueErr string
  | CodecContract string
  | UnsupportedCodec string
  | KeyErr ggml_type

section \<open>Block layouts\<close>

record block_field =
  bf_name :: string
  bf_offset :: int
  bf_size :: int

definition block_field_init :: "block_field \<Rightarrow> codec_error + block_field" where
  "block_field_init f =
     rbind (raise_if (bf_name f = [] \<or> bf_offset f < 0 \<or> bf_size f \<le> 0)
              (ValueErr ''block fields require a name, non-negative offset, and positive size''))
       (\<lambda>_. Inr f)"

record codec_layout =
  quant_type :: ggml_type
  family :: quant_family
  block_size :: int
  type_size :: int
  block_fields :: "block_field list"
  layout_version :: int

text \<open>The loop of \<open>CodecLayout.__post_init__\<close>: every field starts where the last one ended.\<close>

fun contiguous_end :: "int \<Rightarrow> block_field list \<Rightarrow> codec_error + int" where
  "contiguous_end expected [] = Inr expected"
| "contiguous_end expected (f # fs) =
     rbind (raise_if (bf_offset f \<noteq> expected) (ValueErr ''field is not contiguous''))
       (\<lambda>_. contiguous_end (expected + bf_size f) fs)"

definition codec_layout_init :: "codec_layout \<Rightarrow> codec_error + codec_layout" where
  "codec_layout_init L =
     rbind (raise_if (block_size L \<le> 0 \<or> type_size L \<le> 0 \<or> layout_version L \<le> 0)
              (ValueErr ''codec block, type, and layout versions must be positive''))
       (\<lambda>_. rbind (contiguous_end 0 (block_fields L))
         (\<lambda>end. rbind (raise_if (end \<noteq> type_size L) (ValueErr ''fields do not occupy type_size''))
           (\<lambda>_. Inr L)))"

definition encoded_size :: "codec_layout \<Rightarrow> int \<Rightarrow> codec_error + int" where
  "encoded_size L element_count =
     rbind (raise_if (element_count < 0 \<or> element_count mod block_size L \<noteq> 0)
              (CodecContract ''element count must be a non-negative multiple of the block size''))
       (\<lambda>_. Inr (element_count div block_size L * type_size L))"

text \<open>\<open>_fields(*parts)\<close>: offsets accumulate over the parts.\<close>

fun fields_from :: "int \<Rightarrow> (string \<times> int) list \<Rightarrow> block_field list" where
  "fields_from offset [] = []"
| "fields_from offset ((name, n) # parts) =
     \<lparr>bf_name = name, bf_offset = offset, bf_size = n\<rparr> # fields_from (offset + n) parts"

definition fields_of :: "(string \<times> int) list \<Rightarrow> codec_error + block_field list" where
  "fields_of parts = mapM_r block_field_init (fields_from 0 parts)"

definition mk_layout ::
  "ggml_type \<Rightarrow> quant_family \<Rightarrow> int \<Rightarrow> int \<Rightarrow> (string \<times> int) list \<Rightarrow> codec_layout" where
  "mk_layout t f b n parts =
     \<lparr>quant_type = t, family = f, block_size = b, type_size = n, block_fields = fields_from 0 parts,
      layout_version = 1\<rparr>"

fun QUANT_LAYOUTS :: "ggml_type \<Rightarrow> codec_layout option" where
  "QUANT_LAYOUTS F32 = Some (mk_layout F32 DENSE 1 4 [(''value'', 4)])"
| "QUANT_LAYOUTS F16 = Some (mk_layout F16 DENSE 1 2 [(''value'', 2)])"
| "QUANT_LAYOUTS BF16 = Some (mk_layout BF16 DENSE 1 2 [(''value'', 2)])"
| "QUANT_LAYOUTS Q8_0 =
     Some (mk_layout Q8_0 Q8 32 34 [(''delta_f16'', 2), (''quants_i8'', 32)])"
| "QUANT_LAYOUTS Q5_0 =
     Some (mk_layout Q5_0 LEGACY 32 22 [(''delta_f16'', 2), (''high_bits'', 4), (''quants_u4'', 16)])"
| "QUANT_LAYOUTS Q2_K =
     Some (mk_layout Q2_K K_QUANT 256 84
             [(''scales_mins_u4'', 16), (''quants_u2'', 64), (''delta_min_f16x2'', 4)])"
| "QUANT_LAYOUTS Q3_K =
     Some (mk_layout Q3_K K_QUANT 256 110
             [(''high_mask'', 32), (''quants_u2'', 64), (''scales_i6'', 12), (''delta_f16'', 2)])"
| "QUANT_LAYOUTS Q4_K =
     Some (mk_layout Q4_K K_QUANT 256 144
             [(''delta_min_f16x2'', 4), (''scales_mins_u6'', 12), (''quants_u4'', 128)])"
| "QUANT_LAYOUTS Q5_K =
     Some (mk_layout Q5_K K_QUANT 256 176
             [(''delta_min_f16x2'', 4), (''scales_mins_u6'', 12), (''high_bits'', 32),
              (''quants_u4'', 128)])"
| "QUANT_LAYOUTS Q6_K =
     Some (mk_layout Q6_K K_QUANT 256 210
             [(''low_bits'', 128), (''high_bits'', 64), (''scales_i8'', 16), (''delta_f16'', 2)])"
| "QUANT_LAYOUTS Q8_K =
     Some (mk_layout Q8_K K_QUANT 256 292
             [(''delta_f32'', 4), (''quants_i8'', 256), (''block_sums_i16'', 32)])"
| "QUANT_LAYOUTS IQ2_XXS =
     Some (mk_layout IQ2_XXS IQ 256 66 [(''delta_f16'', 2), (''grid_sign_indexes'', 64)])"
| "QUANT_LAYOUTS IQ2_XS =
     Some (mk_layout IQ2_XS IQ 256 74
             [(''delta_f16'', 2), (''grid_sign_indexes'', 64), (''scales_u4'', 8)])"
| "QUANT_LAYOUTS IQ3_XXS =
     Some (mk_layout IQ3_XXS IQ 256 98 [(''delta_f16'', 2), (''grid_sign_indexes'', 96)])"
| "QUANT_LAYOUTS IQ1_S =
     Some (mk_layout IQ1_S IQ 256 50
             [(''delta_f16'', 2), (''grid_indexes'', 32), (''high_bits_scales'', 16)])"
| "QUANT_LAYOUTS IQ4_NL =
     Some (mk_layout IQ4_NL IQ 32 18 [(''delta_f16'', 2), (''nonlinear_indexes'', 16)])"
| "QUANT_LAYOUTS IQ3_S =
     Some (mk_layout IQ3_S IQ 256 110
             [(''delta_f16'', 2), (''grid_indexes'', 64), (''high_bits'', 8), (''signs'', 32),
              (''scales_u4'', 4)])"
| "QUANT_LAYOUTS IQ2_S =
     Some (mk_layout IQ2_S IQ 256 82
             [(''delta_f16'', 2), (''grid_indexes'', 64), (''high_bits'', 8), (''scales'', 8)])"
| "QUANT_LAYOUTS IQ4_XS =
     Some (mk_layout IQ4_XS IQ 256 136
             [(''delta_f16'', 2), (''scales_high'', 2), (''scales_low'', 4),
              (''nonlinear_indexes'', 128)])"
| "QUANT_LAYOUTS IQ1_M =
     Some (mk_layout IQ1_M IQ 256 56 [(''grid_indexes'', 32), (''high_bits'', 16), (''scales'', 8)])"
| "QUANT_LAYOUTS _ = None"

fun LEGACY_STORAGE_LAYOUTS :: "ggml_type \<Rightarrow> codec_layout option" where
  "LEGACY_STORAGE_LAYOUTS Q4_0 =
     Some (mk_layout Q4_0 LEGACY 32 18 [(''delta_f16'', 2), (''quants_u4'', 16)])"
| "LEGACY_STORAGE_LAYOUTS Q4_1 =
     Some (mk_layout Q4_1 LEGACY 32 20 [(''delta_min_f16x2'', 4), (''quants_u4'', 16)])"
| "LEGACY_STORAGE_LAYOUTS Q5_1 =
     Some (mk_layout Q5_1 LEGACY 32 24
             [(''delta_min_f16x2'', 4), (''high_bits'', 4), (''quants_u4'', 16)])"
| "LEGACY_STORAGE_LAYOUTS _ = None"

text \<open>\<open>GGUF_STORAGE_LAYOUTS = {**QUANT_LAYOUTS, **LEGACY_STORAGE_LAYOUTS}\<close>: the later dict wins.\<close>

definition GGUF_STORAGE_LAYOUTS :: "ggml_type \<Rightarrow> codec_layout option" where
  "GGUF_STORAGE_LAYOUTS = QUANT_LAYOUTS ++ LEGACY_STORAGE_LAYOUTS"

section \<open>Alignment and axis edits\<close>

record alignment_constraint =
  container_alignment :: int
  tensor_offset :: int

definition bad_alignment :: "int \<Rightarrow> bool" where
  "bad_alignment a \<longleftrightarrow> a < 8 \<or> 2 ^ 20 < a \<or> a AND (a - 1) \<noteq> 0"

definition validate_tensor_alignment :: "int \<Rightarrow> int \<Rightarrow> codec_error + alignment_constraint" where
  "validate_tensor_alignment offset alignment =
     rbind (raise_if (bad_alignment alignment)
              (CodecContract ''container alignment must be a power of two from 8 through 1048576''))
       (\<lambda>_. rbind (raise_if (offset < 0 \<or> offset mod alignment \<noteq> 0)
                     (CodecContract ''tensor offset is not aligned''))
         (\<lambda>_. Inr \<lparr>container_alignment = alignment, tensor_offset = offset\<rparr>))"

record axis_edit =
  ae_axis :: int
  ae_mode :: axis_edit_mode
  ae_granularity :: int
  ae_shape :: "int list"
  ae_row_bytes :: int
  ae_tensor_bytes :: int

definition axis_edit_init :: "axis_edit \<Rightarrow> codec_error + axis_edit" where
  "axis_edit_init c =
     rbind (raise_if (ae_axis c < 0 \<or> ae_granularity c \<le> 0 \<or> ae_row_bytes c \<le> 0
                      \<or> ae_tensor_bytes c \<le> 0)
              (ValueErr ''axis, edit granularity, and encoded sizes must be valid''))
       (\<lambda>_. Inr c)"

definition MAX_SIGNED_OFFSET :: int where
  "MAX_SIGNED_OFFSET = 2 ^ 63 - 1"

definition plan_axis_edit_in ::
  "(ggml_type \<Rightarrow> codec_layout option) \<Rightarrow> ggml_type \<Rightarrow> int list \<Rightarrow> int
     \<Rightarrow> codec_error + axis_edit" where
  "plan_axis_edit_in layouts t shape axis =
     rbind (of_option (KeyErr t) (layouts t)) (\<lambda>L.
     rbind (raise_if (shape = [] \<or> list_ex (\<lambda>d. d \<le> 0) shape)
              (CodecContract ''GGUF tensor dimensions must be positive'')) (\<lambda>_.
     rbind (raise_if (axis < 0 \<or> int (length shape) \<le> axis)
              (CodecContract ''edit axis is outside rank'')) (\<lambda>_.
     rbind (raise_if (hd shape mod block_size L \<noteq> 0)
              (CodecContract ''contiguous dimension must be divisible by block size'')) (\<lambda>_.
     rbind (encoded_size L (hd shape)) (\<lambda>row_bytes.
     let tensor_bytes = row_bytes * prod_list (tl shape) in
     rbind (raise_if (2 ^ 63 - 1 < tensor_bytes)
              (CodecContract ''encoded tensor size exceeds the supported signed 64-bit range'')) (\<lambda>_.
     axis_edit_init
       \<lparr>ae_axis = axis,
        ae_mode = (if axis = 0 then BLOCK_VALUES else WHOLE_SLICES),
        ae_granularity = (if axis = 0 then block_size L else 1),
        ae_shape = shape, ae_row_bytes = row_bytes, ae_tensor_bytes = tensor_bytes\<rparr>))))))"

definition plan_axis_edit :: "ggml_type \<Rightarrow> int list \<Rightarrow> int \<Rightarrow> codec_error + axis_edit" where
  "plan_axis_edit = plan_axis_edit_in QUANT_LAYOUTS"

definition plan_storage_axis_edit :: "ggml_type \<Rightarrow> int list \<Rightarrow> int \<Rightarrow> codec_error + axis_edit" where
  "plan_storage_axis_edit = plan_axis_edit_in GGUF_STORAGE_LAYOUTS"

definition plan_supported_axes :: "ggml_type \<Rightarrow> int list \<Rightarrow> codec_error + axis_edit list" where
  "plan_supported_axes t shape =
     rbind (raise_if (shape = []) (CodecContract ''GGUF tensor dimensions must be positive''))
       (\<lambda>_. mapM_r (\<lambda>axis. plan_axis_edit t shape (int axis)) [0..<length shape])"

section \<open>Records of block operations\<close>

record block_operation =
  bo_blocks :: int
  bo_elements :: int
  bo_bytes :: int

definition block_operation_init :: "block_operation \<Rightarrow> codec_error + block_operation" where
  "block_operation_init b =
     rbind (raise_if (bo_blocks b < 0 \<or> bo_elements b < 0 \<or> bo_bytes b < 0)
              (ValueErr ''block operation counts must be non-negative''))
       (\<lambda>_. Inr b)"

record block_validation =
  bv_valid :: bool
  bv_blocks :: int
  bv_reason :: string

definition block_validation_init :: "block_validation \<Rightarrow> codec_error + block_validation" where
  "block_validation_init v =
     rbind (raise_if (bv_blocks v < 0 \<or> bv_reason v = [])
              (ValueErr ''block validation requires a non-negative count and reason''))
       (\<lambda>_. Inr v)"

definition require_valid :: "block_validation \<Rightarrow> codec_error + unit" where
  "require_valid v = raise_if (\<not> bv_valid v) (CodecContract (bv_reason v))"

section \<open>The exact-type codec registry\<close>

record codec_identity =
  ci_type :: ggml_type
  ci_implementation :: string
  ci_version :: string
  ci_revision :: string

definition codec_identity_init :: "codec_identity \<Rightarrow> codec_error + codec_identity" where
  "codec_identity_init i =
     rbind (raise_if (ci_implementation i = [] \<or> ci_version i = [] \<or> ci_revision i = [])
              (ValueErr ''codec implementation, version, and upstream revision are required''))
       (\<lambda>_. Inr i)"

text \<open>A codec is known to the registry by its identity and layout; its code is the field \<open>codec_impl\<close>.\<close>

record 'c codec =
  codec_identity :: codec_identity
  codec_layout :: codec_layout
  codec_impl :: 'c

type_synonym 'c registry = "ggml_type \<Rightarrow> 'c codec option"

definition empty_registry :: "'c registry" where
  "empty_registry = Map.empty"

definition register :: "'c registry \<Rightarrow> 'c codec \<Rightarrow> codec_error + 'c registry" where
  "register r c =
     (let t = ci_type (codec_identity c) in
      rbind (raise_if (quant_type (codec_layout c) \<noteq> t)
               (CodecContract ''codec identity and layout quantization types disagree'')) (\<lambda>_.
      rbind (of_option (KeyErr t) (QUANT_LAYOUTS t)) (\<lambda>L.
      rbind (raise_if (codec_layout c \<noteq> L)
               (CodecContract ''codec layout does not match pinned layout'')) (\<lambda>_.
      rbind (raise_if (r t \<noteq> None) (CodecContract ''codec already registered'')) (\<lambda>_.
      Inr (r(t \<mapsto> c)))))))"

definition resolve :: "'c registry \<Rightarrow> ggml_type \<Rightarrow> codec_error + 'c codec" where
  "resolve r t = of_option (UnsupportedCodec ''no exact codec registered'') (r t)"

text \<open>Every member of the enumeration, for the registry's listing.\<close>

definition all_ggml_types :: "ggml_type list" where
  "all_ggml_types =
     [F32, F16, BF16, Q4_0, Q4_1, Q5_0, Q5_1, Q8_0, Q2_K, Q3_K, Q4_K, Q5_K, Q6_K, Q8_K,
      IQ2_XXS, IQ2_XS, IQ3_XXS, IQ1_S, IQ4_NL, IQ3_S, IQ2_S, IQ4_XS, IQ1_M]"

definition supported_types :: "'c registry \<Rightarrow> ggml_type list" where
  "supported_types r = sort (filter (\<lambda>t. r t \<noteq> None) all_ggml_types)"

section \<open>The layouts\<close>

lemma contiguous_fields_from:
  "contiguous_end off (fields_from off parts) = Inr (off + sum_list (map snd parts))"
  by (induction off parts rule: fields_from.induct) simp_all

text \<open>What the pinned tables have in common, checked entry by entry.\<close>

lemma storage_layout_cases:
  "GGUF_STORAGE_LAYOUTS t = Some L \<Longrightarrow>
     quant_type L = t \<and> 0 < block_size L \<and> 0 < type_size L \<and> codec_layout_init L = Inr L"
  by (cases t) (auto simp: GGUF_STORAGE_LAYOUTS_def map_add_def mk_layout_def codec_layout_init_def
      contiguous_fields_from simp del: fields_from.simps contiguous_end.simps)

lemma storage_layout_total: "\<exists>L. GGUF_STORAGE_LAYOUTS t = Some L"
  by (cases t) (auto simp: GGUF_STORAGE_LAYOUTS_def map_add_def)

lemma quant_layout_storage: "QUANT_LAYOUTS t = Some L \<Longrightarrow> GGUF_STORAGE_LAYOUTS t = Some L"
  by (cases t) (auto simp: GGUF_STORAGE_LAYOUTS_def map_add_def)

lemma layout_positive:
  assumes "GGUF_STORAGE_LAYOUTS t = Some L"
  shows "0 < block_size L" and "0 < type_size L"
  using storage_layout_cases [OF assms] by simp_all

text \<open>
  Every one of the 23 storage types has a pinned layout; the layout is filed under its own
  type, and it passes the validation of \<open>CodecLayout.__post_init__\<close> and each of its fields that of
  \<open>BlockField.__post_init__\<close>: importing the module raises nothing and no lookup in
  \<open>GGUF_STORAGE_LAYOUTS\<close> can fail.
\<close>
theorem pinned_layouts_valid:
  "\<exists>L. GGUF_STORAGE_LAYOUTS t = Some L \<and> quant_type L = t \<and> codec_layout_init L = Inr L
       \<and> mapM_r block_field_init (block_fields L) = Inr (block_fields L)"
  by (cases t) (simp_all add: GGUF_STORAGE_LAYOUTS_def map_add_def mk_layout_def codec_layout_init_def
      block_field_init_def)

section \<open>Sizes\<close>

lemma encoded_size_Inr:
  "encoded_size L n = Inr m \<longleftrightarrow>
     0 \<le> n \<and> n mod block_size L = 0 \<and> m = n div block_size L * type_size L"
  by (auto simp: encoded_size_def rbind_Inr_iff)

lemma encoded_size_nonneg:
  "encoded_size L n = Inr m \<Longrightarrow> 0 < block_size L \<Longrightarrow> 0 < type_size L \<Longrightarrow> 0 \<le> m"
  by (auto simp: encoded_size_Inr pos_imp_zdiv_nonneg_iff)

lemma encoded_size_positive:
  assumes "encoded_size L n = Inr m" and "0 < block_size L" and "0 < type_size L" and "0 < n"
  shows "0 < m"
proof -
  from assms have "block_size L dvd n" and m: "m = n div block_size L * type_size L"
    by (auto simp: encoded_size_Inr)
  then have "0 < n div block_size L"
    using assms(2,4) by (metis dvd_div_mult_self mult_zero_left zdiv_eq_0_iff
        pos_imp_zdiv_pos_iff zdvd_imp_le)
  with m assms(3) show ?thesis by simp
qed

lemma prod_list_positive: "list_all (\<lambda>d. 0 < d) ds \<Longrightarrow> 0 < prod_list (ds :: int list)"
  by (induction ds) simp_all

lemma not_list_ex_nonpos: "\<not> list_ex (\<lambda>d. d \<le> (0::int)) ds \<longleftrightarrow> list_all (\<lambda>d. 0 < d) ds"
  by (induction ds) auto

text \<open>
  A planned axis edit describes the tensor exactly: its byte total is the encoded size of all
  the elements of the shape, its granularity divides the edited axis, and every size is positive and
  within the signed 64-bit range.
\<close>
theorem plan_axis_edit_exact:
  assumes "plan_storage_axis_edit t shape axis = Inr e"
  shows "\<exists>L. GGUF_STORAGE_LAYOUTS t = Some L
      \<and> encoded_size L (prod_list shape) = Inr (ae_tensor_bytes e)
      \<and> encoded_size L (hd shape) = Inr (ae_row_bytes e)
      \<and> ae_granularity e dvd shape ! nat axis
      \<and> 0 < ae_granularity e \<and> 0 < ae_row_bytes e \<and> ae_row_bytes e \<le> ae_tensor_bytes e
      \<and> ae_tensor_bytes e \<le> MAX_SIGNED_OFFSET"
proof -
  from assms obtain L rb where L: "GGUF_STORAGE_LAYOUTS t = Some L"
    and shape: "shape \<noteq> []" "list_all (\<lambda>d. 0 < d) shape"
    and axis: "0 \<le> axis" "axis < int (length shape)"
    and hd0: "hd shape mod block_size L = 0"
    and rb: "encoded_size L (hd shape) = Inr rb"
    and max: "rb * prod_list (tl shape) \<le> 2 ^ 63 - 1"
    and e: "e = \<lparr>ae_axis = axis, ae_mode = (if axis = 0 then BLOCK_VALUES else WHOLE_SLICES),
        ae_granularity = (if axis = 0 then block_size L else 1),
        ae_shape = shape, ae_row_bytes = rb, ae_tensor_bytes = rb * prod_list (tl shape)\<rparr>"
    by (auto simp: plan_storage_axis_edit_def plan_axis_edit_in_def axis_edit_init_def Let_def
        not_list_ex_nonpos not_less not_le)
  obtain d ds where ds: "shape = d # ds" using shape(1) by (cases shape) auto
  have pos: "0 < block_size L" "0 < type_size L" using layout_positive [OF L] by simp_all
  have "0 < d" "0 < prod_list ds" using shape(2) ds prod_list_positive by auto
  have rbv: "rb = d div block_size L * type_size L" using rb ds by (simp add: encoded_size_Inr)
  have "0 < rb" using encoded_size_positive [OF rb pos] \<open>0 < d\<close> ds by simp
  have "encoded_size L (prod_list shape) = Inr (rb * prod_list ds)"
    using hd0 ds \<open>0 < d\<close> \<open>0 < prod_list ds\<close> rbv
    by (auto simp: encoded_size_Inr div_mult_swap mult_ac)
  moreover have "rb * 1 \<le> rb * prod_list ds"
    using \<open>0 < rb\<close> \<open>0 < prod_list ds\<close> by (intro mult_left_mono) auto
  moreover have "(if axis = 0 then block_size L else 1) dvd shape ! nat axis"
    using hd0 ds by auto
  ultimately show ?thesis
    using L rb max pos(1) \<open>0 < rb\<close> ds by (auto simp: e MAX_SIGNED_OFFSET_def)
qed

theorem plan_axis_edit_exact_witness:
  "\<exists>e. plan_storage_axis_edit Q4_0 [64, 3] 0 = Inr e \<and> ae_tensor_bytes e = 108
      \<and> ae_granularity e dvd 64"
proof -
  let ?e = "\<lparr>ae_axis = 0, ae_mode = BLOCK_VALUES, ae_granularity = 32, ae_shape = [64, 3],
    ae_row_bytes = 36, ae_tensor_bytes = 108\<rparr>"
  have h: "plan_storage_axis_edit Q4_0 [64, 3] 0 = Inr ?e"
    by (simp add: plan_storage_axis_edit_def plan_axis_edit_in_def GGUF_STORAGE_LAYOUTS_def
        map_add_def mk_layout_def encoded_size_def axis_edit_init_def Let_def)
  from plan_axis_edit_exact [OF h] have "ae_granularity ?e dvd [64, 3] ! nat 0" by blast
  with h show ?thesis by simp
qed

text \<open>The contract of container alignments: the bit test accepts exactly the powers of two.\<close>

lemma bad_alignment_iff: "\<not> bad_alignment a \<longleftrightarrow> (\<exists>k. 3 \<le> k \<and> k \<le> 20 \<and> a = 2 ^ k)"
proof
  assume "\<not> bad_alignment a"
  then have a: "8 \<le> a" "a \<le> 2 ^ 20" "a AND (a - 1) = 0" by (auto simp: bad_alignment_def)
  then obtain k where k: "a = 2 ^ k" using and_pred_power2 [of a] by auto
  have "(2::int) ^ 3 \<le> 2 ^ k" using a(1) k by simp
  then have "3 \<le> k" by (simp only: power_increasing_iff)
  moreover have "k \<le> 20" using a(2) k by (simp only: power_increasing_iff)
  ultimately show "\<exists>k. 3 \<le> k \<and> k \<le> 20 \<and> a = 2 ^ k" using k by blast
next
  assume "\<exists>k. 3 \<le> k \<and> k \<le> 20 \<and> a = 2 ^ k"
  then obtain k where k: "3 \<le> k" "k \<le> 20" "a = 2 ^ k" by blast
  have "(2::int) ^ 3 \<le> 2 ^ k" "(2::int) ^ k \<le> 2 ^ 20" using k(1,2) by (simp_all only: power_increasing_iff)
  with k(3) show "\<not> bad_alignment a" using power2_and_pred [of k] by (simp add: bad_alignment_def)
qed

section \<open>The registry contract\<close>

text \<open>
  What a client of \<open>CodecRegistry\<close> relies on: a registered codec is found again under its exact
  type, a registration changes no other type and never replaces a codec.
\<close>

locale exact_registry =
  fixes empty :: "'r"
    and reg :: "'r \<Rightarrow> 'v \<Rightarrow> 'e + 'r"
    and res :: "'r \<Rightarrow> 'k \<Rightarrow> 'e + 'v"
    and key :: "'v \<Rightarrow> 'k"
    and fits :: "'v \<Rightarrow> bool"
  assumes res_empty: "\<exists>e. res empty k = Inl e"
    and reg_fits: "reg r v = Inr r' \<Longrightarrow> fits v"
    and reg_fresh: "reg r v = Inr r' \<Longrightarrow> \<exists>e. res r (key v) = Inl e"
    and res_reg: "reg r v = Inr r' \<Longrightarrow> res r' k = (if k = key v then Inr v else res r k)"
begin

lemma registered_kept:
  assumes "reg r v = Inr r'" and "res r k = Inr w"
  shows "res r' k = Inr w"
  using assms reg_fresh [OF assms(1)] by (auto simp: res_reg)

lemma folded_resolves:
  assumes "foldM_r reg r vs = Inr r'" and "res r' k = Inr v"
  shows "res r k = Inr v \<or> (v \<in> set vs \<and> key v = k \<and> fits v)"
  using assms
proof (induction vs arbitrary: r)
  case Nil
  then show ?case by simp
next
  case (Cons w vs)
  from Cons.prems(1) obtain s where s: "reg r w = Inr s" "foldM_r reg s vs = Inr r'" by auto
  from Cons.IH [OF s(2) Cons.prems(2)] show ?case
    using res_reg [OF s(1), of k] reg_fits [OF s(1)] by (auto split: if_splits)
qed

lemma folded_keeps:
  assumes "foldM_r reg r vs = Inr r'" and "res r k = Inr w"
  shows "res r' k = Inr w"
  using assms by (induction vs arbitrary: r) (auto dest: registered_kept)

lemma folded_all_resolve:
  assumes "foldM_r reg r vs = Inr r'" and "v \<in> set vs"
  shows "res r' (key v) = Inr v"
  using assms
proof (induction vs arbitrary: r)
  case Nil
  then show ?case by simp
next
  case (Cons w vs)
  from Cons.prems(1) obtain s where s: "reg r w = Inr s" "foldM_r reg s vs = Inr r'" by auto
  show ?case
  proof (cases "v = w")
    case True
    then have "res s (key v) = Inr v" using res_reg [OF s(1)] by simp
    with s(2) show ?thesis by (rule folded_keeps)
  next
    case False
    with Cons.prems(2) s(2) show ?thesis using Cons.IH by simp
  qed
qed

end

definition exact_codec :: "'c codec \<Rightarrow> bool" where
  "exact_codec c \<longleftrightarrow> quant_type (codec_layout c) = ci_type (codec_identity c)
      \<and> QUANT_LAYOUTS (ci_type (codec_identity c)) = Some (codec_layout c)"

lemma register_Inr:
  "register r c = Inr r' \<longleftrightarrow>
     exact_codec c \<and> r (ci_type (codec_identity c)) = None
     \<and> r' = r(ci_type (codec_identity c) \<mapsto> c)"
  by (auto simp: register_def exact_codec_def Let_def rbind_Inr_iff)

interpretation codecs: exact_registry empty_registry register resolve
  "\<lambda>c. ci_type (codec_identity c)" exact_codec
  by unfold_locales (auto simp: resolve_def empty_registry_def register_Inr of_option_def
      split: option.splits)

text \<open>
  The codec registry has no fallback: after any sequence of registrations from the empty
  registry, a type resolves to a codec exactly when that codec was registered, under its own type and
  with the pinned layout of that type.
\<close>
theorem registry_exact:
  assumes "foldM_r register empty_registry cs = Inr r"
  shows "(resolve r t = Inr c \<longleftrightarrow> c \<in> set cs \<and> ci_type (codec_identity c) = t)
    \<and> (resolve r t = Inr c \<longrightarrow> QUANT_LAYOUTS t = Some (codec_layout c))"
proof -
  obtain e where e: "resolve (empty_registry :: 'a registry) t = Inl e"
    using codecs.res_empty by blast
  have iff: "resolve r t = Inr c \<longleftrightarrow> c \<in> set cs \<and> ci_type (codec_identity c) = t"
    using codecs.folded_resolves [OF assms, of t c] codecs.folded_all_resolve [OF assms, of c] e
    by auto
  moreover have "QUANT_LAYOUTS t = Some (codec_layout c)" if r: "resolve r t = Inr c"
    using codecs.folded_resolves [OF assms r] e by (auto simp: exact_codec_def)
  ultimately show ?thesis by blast
qed

definition q8_0_codec :: "unit codec" where
  "q8_0_codec =
     \<lparr>codec_identity = \<lparr>ci_type = Q8_0, ci_implementation = ''modelsurgeon.struct'',
        ci_version = ''1'', ci_revision = ''r''\<rparr>,
      codec_layout = the (QUANT_LAYOUTS Q8_0), codec_impl = ()\<rparr>"

theorem registry_exact_witness:
  "\<exists>r. foldM_r register empty_registry [q8_0_codec] = Inr r \<and> resolve r Q8_0 = Inr q8_0_codec
      \<and> resolve r Q4_0 \<noteq> Inr q8_0_codec"
proof -
  have h: "foldM_r register empty_registry [q8_0_codec] = Inr [Q8_0 \<mapsto> q8_0_codec]"
    by (simp add: register_def q8_0_codec_def empty_registry_def mk_layout_def Let_def)
  have t: "ci_type (codec_identity q8_0_codec) = Q8_0" by (simp add: q8_0_codec_def)
  show ?thesis
    using h t registry_exact [OF h, of Q8_0 q8_0_codec] registry_exact [OF h, of Q4_0 q8_0_codec]
    by auto
qed

end
