(* ===== verification/PyStruct.thy ===== *)
theory PyStruct
  imports PyFloat GgufQuant
begin

text \<open>
  The part of Python's \<open>struct\<close> the GGUF code uses: the fixed-size integer and float formats in an
  explicit byte order. \<open>struct_pack\<close> is \<open>struct.pack(prefix + code, value)\<close>, with \<open>None\<close> for
  \<open>struct.error\<close>, \<open>TypeError\<close> or \<open>OverflowError\<close>; \<open>struct_unpack\<close> reads the bytes of one value back.
\<close>

datatype struct_code = Code_B | Code_b | Code_H | Code_h | Code_I | Code_i | Code_Q | Code_q
  | Code_f | Code_d

text \<open>A Python scalar of GGUF metadata; a float is its binary64 pattern.\<close>

datatype pyval = PInt int | PFloat nat | PBool bool | PStr "nat list"

fun calcsize :: "struct_code \<Rightarrow> nat" where
  "calcsize Code_B = 1" | "calcsize Code_b = 1" | "calcsize Code_H = 2" | "calcsize Code_h = 2"
| "calcsize Code_I = 4" | "calcsize Code_i = 4" | "calcsize Code_Q = 8" | "calcsize Code_q = 8"
| "calcsize Code_f = 4" | "calcsize Code_d = 8"

fun code_signed :: "struct_code \<Rightarrow> bool" where
  "code_signed Code_b = True" | "code_signed Code_h = True" | "code_signed Code_i = True"
| "code_signed Code_q = True" | "code_signed _ = False"

section \<open>Bytes of a natural number\<close>

fun to_le :: "nat \<Rightarrow> nat \<Rightarrow> bytes" where
  "to_le 0 n = []"
| "to_le (Suc k) n = of_nat (n mod 256) # to_le k (n div 256)"

fun of_le :: "bytes \<Rightarrow> nat" where
  "of_le [] = 0"
| "of_le (b # bs) = unat b + 256 * of_le bs"

definition to_bytes :: "byte_order \<Rightarrow> nat \<Rightarrow> nat \<Rightarrow> bytes" where
  "to_bytes bo k n = (if bo = LITTLE then to_le k n else rev (to_le k n))"

definition of_bytes :: "byte_order \<Rightarrow> bytes \<Rightarrow> nat" where
  "of_bytes bo bs = of_le (if bo = LITTLE then bs else rev bs)"

lemma length_to_le [simp]: "length (to_le k n) = k"
  by (induction k n rule: to_le.induct) simp_all

lemma length_to_bytes [simp]: "length (to_bytes bo k n) = k"
  by (simp add: to_bytes_def)

lemma of_le_to_le: "of_le (to_le k n) = n mod 256 ^ k"
proof (induction k n rule: to_le.induct)
  case (2 k n)
  have "unat (of_nat (n mod 256) :: byte) = n mod 256" by (simp add: unat_of_nat)
  with 2 show ?case by (simp add: mod_mult2_eq)
qed simp

lemma of_bytes_to_bytes: "n < 256 ^ k \<Longrightarrow> of_bytes bo (to_bytes bo k n) = n"
  by (simp add: of_bytes_def to_bytes_def of_le_to_le)

lemma of_le_bound: "of_le bs < 256 ^ length bs"
proof (induction bs)
  case (Cons b bs)
  have "unat b < 2 ^ LENGTH(8)" by (rule unsigned_less)
  with Cons show ?case by simp
qed simp

lemma of_bytes_bound: "of_bytes bo bs < 256 ^ length bs"
  using of_le_bound [of bs] of_le_bound [of "rev bs"] by (simp add: of_bytes_def)

section \<open>Two's complement\<close>

definition to_unsigned :: "nat \<Rightarrow> int \<Rightarrow> nat" where
  "to_unsigned k i = nat (i mod 256 ^ k)"

definition to_signed :: "nat \<Rightarrow> nat \<Rightarrow> int" where
  "to_signed k n = (if 2 * n < 256 ^ k then int n else int n - 256 ^ k)"

lemma to_signed_unsigned:
  assumes "- (256 ^ k) \<le> 2 * i" and "2 * i < 256 ^ k"
  shows "to_signed k (to_unsigned k i) = i"
proof (cases "0 \<le> i")
  case True
  then have m: "i mod 256 ^ k = i" using assms by simp
  have "int (2 * nat i) < int (256 ^ k)" using True assms by simp
  then have "2 * nat i < 256 ^ k" by (simp only: of_nat_less_iff)
  with True m show ?thesis by (simp add: to_signed_def to_unsigned_def)
next
  case False
  have m: "i mod 256 ^ k = i + 256 ^ k"
    using False assms mod_pos_pos_trivial [of "i + 256 ^ k" "256 ^ k"] by simp
  have "int (256 ^ k) \<le> int (2 * nat (i + 256 ^ k))" using assms by simp
  then have "256 ^ k \<le> 2 * nat (i + 256 ^ k)" by (simp only: of_nat_le_iff)
  with assms m show ?thesis by (simp add: to_signed_def to_unsigned_def)
qed

section \<open>Packing and unpacking one value\<close>

definition int_range :: "struct_code \<Rightarrow> int \<Rightarrow> bool" where
  "int_range c i \<longleftrightarrow>
     (if code_signed c then - (256 ^ calcsize c) \<le> 2 * i \<and> 2 * i < 256 ^ calcsize c
      else 0 \<le> i \<and> i < 256 ^ calcsize c)"

text \<open>The unsigned pattern of a value in a format; a float format accepts an int (converted first),
  an int format accepts neither float nor string.\<close>

fun float_bits :: "pyval \<Rightarrow> nat option" where
  "float_bits (PFloat b) = Some b"
| "float_bits (PInt i) = int_to_f64 i"
| "float_bits (PBool b) = int_to_f64 (if b then 1 else 0)"
| "float_bits (PStr s) = None"

fun int_value :: "pyval \<Rightarrow> int option" where
  "int_value (PInt i) = Some i"
| "int_value (PBool b) = Some (if b then 1 else 0)"
| "int_value _ = None"

definition pack_pattern :: "struct_code \<Rightarrow> pyval \<Rightarrow> nat option" where
  "pack_pattern c v =
     (case c of
        Code_f \<Rightarrow> Option.bind (float_bits v) f64_to_f32
      | Code_d \<Rightarrow> float_bits v
      | _ \<Rightarrow> Option.bind (int_value v)
               (\<lambda>i. if int_range c i then Some (to_unsigned (calcsize c) i) else None))"

definition struct_pack :: "byte_order \<Rightarrow> struct_code \<Rightarrow> pyval \<Rightarrow> bytes option" where
  "struct_pack bo c v = map_option (to_bytes bo (calcsize c)) (pack_pattern c v)"

definition unpack_pattern :: "struct_code \<Rightarrow> nat \<Rightarrow> pyval" where
  "unpack_pattern c n =
     (case c of
        Code_f \<Rightarrow> PFloat (f32_to_f64 n)
      | Code_d \<Rightarrow> PFloat n
      | _ \<Rightarrow> PInt (if code_signed c then to_signed (calcsize c) n else int n))"

definition struct_unpack :: "byte_order \<Rightarrow> struct_code \<Rightarrow> bytes \<Rightarrow> pyval" where
  "struct_unpack bo c bs = unpack_pattern c (of_bytes bo bs)"

text \<open>Packing an unsigned count, as the writer does for lengths and offsets.\<close>

definition pack_uint :: "byte_order \<Rightarrow> struct_code \<Rightarrow> int \<Rightarrow> bytes" where
  "pack_uint bo c i = to_bytes bo (calcsize c) (nat i)"

lemma length_pack_uint [simp]: "length (pack_uint bo c i) = calcsize c"
  by (simp add: pack_uint_def)

lemma length_struct_pack: "struct_pack bo c v = Some bs \<Longrightarrow> length bs = calcsize c"
  by (auto simp: struct_pack_def)

definition is_int_code :: "struct_code \<Rightarrow> bool" where
  "is_int_code c \<longleftrightarrow> c \<noteq> Code_f \<and> c \<noteq> Code_d"

lemma struct_unpack_pack_int:
  assumes "is_int_code c" and "struct_pack bo c (PInt i) = Some bs"
  shows "struct_unpack bo c bs = PInt i"
proof -
  have r: "int_range c i" and bs: "bs = to_bytes bo (calcsize c) (to_unsigned (calcsize c) i)"
    using assms by (cases c; auto simp: is_int_code_def struct_pack_def pack_pattern_def split: if_splits)+
  have lt: "to_unsigned (calcsize c) i < 256 ^ calcsize c"
  proof -
    have "i mod 256 ^ calcsize c < 256 ^ calcsize c" by simp
    then show ?thesis by (simp add: to_unsigned_def nat_less_iff)
  qed
  have "(if code_signed c then to_signed (calcsize c) (to_unsigned (calcsize c) i)
      else int (to_unsigned (calcsize c) i)) = i"
    using r by (auto simp: int_range_def to_signed_unsigned) (simp add: to_unsigned_def)
  then show ?thesis
    using assms(1) of_bytes_to_bytes [OF lt, of bo]
    by (cases c) (simp_all add: is_int_code_def struct_unpack_def unpack_pattern_def bs)
qed

lemma struct_unpack_uint:
  assumes "is_int_code c" and "\<not> code_signed c" and "0 \<le> i" and "i < 256 ^ calcsize c"
  shows "struct_unpack bo c (pack_uint bo c i) = PInt i"
proof -
  have "nat i < 256 ^ calcsize c" using assms(3,4) by (simp add: nat_less_iff)
  from of_bytes_to_bytes [OF this, of bo] assms show ?thesis
    by (cases c) (simp_all add: is_int_code_def struct_unpack_def unpack_pattern_def pack_uint_def)
qed

lemma struct_unpack_pack_f64:
  assumes "b < 2 ^ 64"
  shows "\<exists>bs. struct_pack bo Code_d (PFloat b) = Some bs \<and> struct_unpack bo Code_d bs = PFloat b"
proof -
  have "b < 256 ^ calcsize Code_d" using assms by simp
  from of_bytes_to_bytes [OF this, of bo] show ?thesis
    by (simp add: struct_pack_def pack_pattern_def struct_unpack_def unpack_pattern_def)
qed

text \<open>A float that is exactly a non-NaN binary32 survives the \<open>f\<close> format.\<close>

lemma struct_unpack_pack_f32:
  assumes "b < 2 ^ 32" and "\<not> f32_is_nan b"
  shows "\<exists>bs. struct_pack bo Code_f (PFloat (f32_to_f64 b)) = Some bs
      \<and> struct_unpack bo Code_f bs = PFloat (f32_to_f64 b)"
proof -
  have "b < 256 ^ calcsize Code_f" using assms(1) by simp
  from of_bytes_to_bytes [OF this, of bo] f32_roundtrip [OF assms] show ?thesis
    by (simp add: struct_pack_def pack_pattern_def struct_unpack_def unpack_pattern_def)
qed

end
