(* ===== verification/GgufContainer.thy ===== *)
theory GgufContainer
  imports PyText PyStruct "HOL-Library.Product_Lexorder"
begin

text \<open>
  \<open>adapters/gguf/container.py\<close>: the bounded, read-only GGUF v2/v3 parser. A file is its list of bytes;
  the \<open>_Cursor\<close> is a record that every read returns advanced; every \<open>raise\<close> is a value of
  \<open>gguf_error\<close>. Offsets and sizes the parser reads are unsigned, so the cursor holds a \<open>nat\<close>; the
  arithmetic that can leave the signed 64-bit range is on \<open>int\<close>, with the code's range tests.
\<close>

section \<open>Types\<close>

datatype gguf_error =
    CorruptGGUF string
  | UnsupportedGGUFVersion
  | UnsupportedGGUFType string
  | GGUFResourceLimit string
  | LimitsError
  | MmapClosed

definition DEFAULT_ALIGNMENT :: int where
  "DEFAULT_ALIGNMENT = 32"

fun GGML_TYPE_IDS :: "nat \<Rightarrow> ggml_type option" where
  "GGML_TYPE_IDS n =
     map_of [(0, F32), (1, F16), (2, Q4_0), (3, Q4_1), (6, Q5_0), (7, Q5_1), (8, Q8_0), (10, Q2_K),
       (11, Q3_K), (12, Q4_K), (13, Q5_K), (14, Q6_K), (15, Q8_K), (16, IQ2_XXS), (17, IQ2_XS),
       (18, IQ3_XXS), (19, IQ1_S), (20, IQ4_NL), (21, IQ3_S), (22, IQ2_S), (23, IQ4_XS),
       (29, IQ1_M), (30, BF16)] n"

datatype value_type =
    VT_UINT8 | VT_INT8 | VT_UINT16 | VT_INT16 | VT_UINT32 | VT_INT32 | VT_FLOAT32 | VT_BOOL
  | VT_STRING | VT_ARRAY | VT_UINT64 | VT_INT64 | VT_FLOAT64

fun value_type_id :: "value_type \<Rightarrow> nat" where
  "value_type_id VT_UINT8 = 0" | "value_type_id VT_INT8 = 1" | "value_type_id VT_UINT16 = 2"
| "value_type_id VT_INT16 = 3" | "value_type_id VT_UINT32 = 4" | "value_type_id VT_INT32 = 5"
| "value_type_id VT_FLOAT32 = 6" | "value_type_id VT_BOOL = 7" | "value_type_id VT_STRING = 8"
| "value_type_id VT_ARRAY = 9" | "value_type_id VT_UINT64 = 10" | "value_type_id VT_INT64 = 11"
| "value_type_id VT_FLOAT64 = 12"

definition all_value_types :: "value_type list" where
  "all_value_types = [VT_UINT8, VT_INT8, VT_UINT16, VT_INT16, VT_UINT32, VT_INT32, VT_FLOAT32,
     VT_BOOL, VT_STRING, VT_ARRAY, VT_UINT64, VT_INT64, VT_FLOAT64]"

datatype gguf_value = Scalar pyval | Tuple "pyval list"

record parser_limits =
  max_metadata_entries :: int
  max_tensors :: int
  max_dimensions :: int
  max_key_bytes :: int
  max_string_bytes :: int
  max_array_elements :: int

definition default_limits :: parser_limits where
  "default_limits = \<lparr>max_metadata_entries = 1000000, max_tensors = 1000000, max_dimensions = 8,
     max_key_bytes = 65536, max_string_bytes = 16 * 1024 * 1024, max_array_elements = 1000000\<rparr>"

definition parser_limits_init :: "parser_limits \<Rightarrow> gguf_error + parser_limits" where
  "parser_limits_init l =
     rbind (raise_if (list_ex (\<lambda>v. v \<le> 0)
              [max_metadata_entries l, max_tensors l, max_dimensions l, max_key_bytes l,
               max_string_bytes l, max_array_elements l]) LimitsError)
       (\<lambda>_. Inr l)"

record metadata_entry =
  me_key :: pystr
  me_type :: value_type
  me_value :: gguf_value
  me_offset :: nat
  me_size :: nat
  me_element :: "value_type option"

record tensor_descriptor =
  td_name :: pystr
  td_dimensions :: "int list"
  td_type_id :: nat
  td_quant :: ggml_type
  td_relative :: int
  td_offset :: int
  td_bytes :: int
  td_desc_offset :: nat
  td_desc_size :: nat

definition data_end :: "tensor_descriptor \<Rightarrow> int" where
  "data_end t = td_offset t + td_bytes t"

record gguf_container =
  gc_file_size :: nat
  gc_version :: nat
  gc_byte_order :: byte_order
  gc_alignment :: int
  gc_data_offset :: int
  gc_metadata :: "metadata_entry list"
  gc_tensors :: "tensor_descriptor list"

text \<open>\<open>next((e for e in entries if ...), None)\<close> is \<open>find\<close>.\<close>

definition find_entry :: "metadata_entry list \<Rightarrow> pystr \<Rightarrow> metadata_entry option" where
  "find_entry es key = find (\<lambda>e. me_key e = key) es"

definition container_metadata_entry :: "gguf_container \<Rightarrow> pystr \<Rightarrow> metadata_entry option" where
  "container_metadata_entry c key = find_entry (gc_metadata c) key"

definition container_tensor :: "gguf_container \<Rightarrow> pystr \<Rightarrow> tensor_descriptor option" where
  "container_tensor c name = find (\<lambda>t. td_name t = name) (gc_tensors c)"

section \<open>The cursor\<close>

record cursor =
  cur_map :: bytes
  cur_order :: byte_order
  cur_limits :: parser_limits
  cur_off :: nat

definition cur_require :: "cursor \<Rightarrow> nat \<Rightarrow> gguf_error + unit" where
  "cur_require c n =
     raise_if (int (length (cur_map c)) - int n < int (cur_off c)) (CorruptGGUF ''exceeds file size'')"

definition cur_unpack :: "struct_code \<Rightarrow> cursor \<Rightarrow> gguf_error + pyval \<times> cursor" where
  "cur_unpack code c =
     (let n = calcsize code in
      rbind (cur_require c n) (\<lambda>_.
      Inr (struct_unpack (cur_order c) code (slice (cur_off c) n (cur_map c)),
           c\<lparr>cur_off := cur_off c + n\<rparr>)))"

text \<open>\<open>int(cursor.unpack(...))\<close> at an unsigned format.\<close>

definition py_nat :: "pyval \<Rightarrow> nat" where
  "py_nat v = (case v of PInt i \<Rightarrow> nat i | _ \<Rightarrow> 0)"

definition cur_uint :: "struct_code \<Rightarrow> cursor \<Rightarrow> gguf_error + nat \<times> cursor" where
  "cur_uint code c = rbind (cur_unpack code c) (\<lambda>(v, c'). Inr (py_nat v, c'))"

definition cur_string :: "int \<Rightarrow> cursor \<Rightarrow> gguf_error + pystr \<times> cursor" where
  "cur_string maximum c =
     rbind (cur_uint Code_Q c) (\<lambda>(n, c).
     rbind (raise_if (maximum < int n) (GGUFResourceLimit ''string length'')) (\<lambda>_.
     rbind (cur_require c n) (\<lambda>_.
     rbind (of_option (CorruptGGUF ''not valid UTF-8'')
              (decode_utf8 (slice (cur_off c) n (cur_map c)))) (\<lambda>s.
     Inr (s, c\<lparr>cur_off := cur_off c + n\<rparr>)))))"

text \<open>A read repeated \<open>n\<close> times, as the parser's comprehensions over \<open>range(n)\<close> do.\<close>

fun read_many :: "(cursor \<Rightarrow> gguf_error + 'a \<times> cursor) \<Rightarrow> nat \<Rightarrow> cursor \<Rightarrow> gguf_error + 'a list \<times> cursor"
where
  "read_many f 0 c = Inr ([], c)"
| "read_many f (Suc n) c =
     rbind (f c) (\<lambda>(x, c). rbind (read_many f n c) (\<lambda>(xs, c). Inr (x # xs, c)))"

section \<open>Metadata values\<close>

fun SCALAR_CODES :: "value_type \<Rightarrow> struct_code option" where
  "SCALAR_CODES VT_UINT8 = Some Code_B" | "SCALAR_CODES VT_INT8 = Some Code_b"
| "SCALAR_CODES VT_UINT16 = Some Code_H" | "SCALAR_CODES VT_INT16 = Some Code_h"
| "SCALAR_CODES VT_UINT32 = Some Code_I" | "SCALAR_CODES VT_INT32 = Some Code_i"
| "SCALAR_CODES VT_FLOAT32 = Some Code_f" | "SCALAR_CODES VT_BOOL = Some Code_B"
| "SCALAR_CODES VT_UINT64 = Some Code_Q" | "SCALAR_CODES VT_INT64 = Some Code_q"
| "SCALAR_CODES VT_FLOAT64 = Some Code_d" | "SCALAR_CODES _ = None"

definition value_type_of :: "nat \<Rightarrow> string \<Rightarrow> gguf_error + value_type" where
  "value_type_of raw label =
     of_option (UnsupportedGGUFType label) (find (\<lambda>t. value_type_id t = raw) all_value_types)"

definition read_scalar :: "value_type \<Rightarrow> cursor \<Rightarrow> gguf_error + pyval \<times> cursor" where
  "read_scalar vt c =
     (if vt = VT_STRING then
        rbind (cur_string (max_string_bytes (cur_limits c)) c) (\<lambda>(s, c). Inr (PStr s, c))
      else
        rbind (of_option (UnsupportedGGUFType ''scalar'') (SCALAR_CODES vt)) (\<lambda>code.
        rbind (cur_unpack code c) (\<lambda>(v, c).
        if vt = VT_BOOL then
          rbind (raise_if (v \<noteq> PInt 0 \<and> v \<noteq> PInt 1) (CorruptGGUF ''bool'')) (\<lambda>_.
          Inr (PBool (v = PInt 1), c))
        else Inr (v, c))))"

definition read_value ::
  "value_type \<Rightarrow> cursor \<Rightarrow> gguf_error + (gguf_value \<times> value_type option) \<times> cursor" where
  "read_value vt c =
     (if vt \<noteq> VT_ARRAY then rbind (read_scalar vt c) (\<lambda>(v, c). Inr ((Scalar v, None), c))
      else
        rbind (cur_uint Code_I c) (\<lambda>(raw, c).
        rbind (value_type_of raw ''array'') (\<lambda>et.
        rbind (raise_if (et = VT_ARRAY) (UnsupportedGGUFType ''nested array'')) (\<lambda>_.
        rbind (cur_uint Code_Q c) (\<lambda>(n, c).
        rbind (raise_if (max_array_elements (cur_limits c) < int n) (GGUFResourceLimit ''array length''))
          (\<lambda>_.
        rbind (read_many (read_scalar et) n c) (\<lambda>(vs, c). Inr ((Tuple vs, Some et), c))))))))"

section \<open>Sizes and alignment\<close>

definition align_offset :: "int \<Rightarrow> int \<Rightarrow> gguf_error + int" where
  "align_offset offset alignment =
     rbind (raise_if (offset < 0 \<or> alignment \<le> 0 \<or> MAX_SIGNED_OFFSET - (alignment - 1) < offset)
              (CorruptGGUF ''alignment arithmetic exceeds signed 64-bit range''))
       (\<lambda>_. Inr ((offset + alignment - 1) AND (- alignment)))"

text \<open>The layout lookup cannot fail (\<open>pinned_layouts_valid\<close>).\<close>

definition storage_layout :: "ggml_type \<Rightarrow> codec_layout" where
  "storage_layout t = the (GGUF_STORAGE_LAYOUTS t)"

definition gguf_tensor_byte_size :: "ggml_type \<Rightarrow> int list \<Rightarrow> gguf_error + int" where
  "gguf_tensor_byte_size t dims =
     (let L = storage_layout t in
      rbind (raise_if (dims = [] \<or> list_ex (\<lambda>d. d \<le> 0) dims)
               (CorruptGGUF ''tensor dimensions must be positive'')) (\<lambda>_.
      rbind (raise_if (hd dims mod block_size L \<noteq> 0)
               (CorruptGGUF ''contiguous dimension is not divisible by block size'')) (\<lambda>_.
      let elements = prod_list dims in
      rbind (raise_if (MAX_SIGNED_OFFSET < elements) (CorruptGGUF ''tensor element count'')) (\<lambda>_.
      rbind (except (encoded_size L elements) (\<lambda>_. CorruptGGUF ''codec contract'')) (\<lambda>n.
      rbind (raise_if (MAX_SIGNED_OFFSET < n) (CorruptGGUF ''tensor byte size'')) (\<lambda>_.
      Inr n))))))"

section \<open>The header, metadata and descriptor loops\<close>

definition parse_header :: "bytes \<Rightarrow> gguf_error + nat \<times> byte_order" where
  "parse_header file =
     rbind (raise_if (length file < 24) (CorruptGGUF ''shorter than the header'')) (\<lambda>_.
     rbind (raise_if (take 4 file \<noteq> map (of_nat \<circ> of_char) ''GGUF'') (CorruptGGUF ''magic'')) (\<lambda>_.
     let raw = slice 4 4 file in
     if raw = pack_uint LITTLE Code_I 2 then Inr (2, LITTLE)
     else if raw = pack_uint LITTLE Code_I 3 then Inr (3, LITTLE)
     else if raw = pack_uint BIG Code_I 3 then Inr (3, BIG)
     else Inl UnsupportedGGUFVersion))"

definition parse_entry :: "metadata_entry list \<Rightarrow> cursor \<Rightarrow> gguf_error + metadata_entry \<times> cursor" where
  "parse_entry seen c =
     rbind (cur_string (max_key_bytes (cur_limits c)) c) (\<lambda>(key, c1).
     rbind (raise_if (key \<in> me_key ` set seen) (CorruptGGUF ''duplicate metadata key'')) (\<lambda>_.
     rbind (cur_uint Code_I c1) (\<lambda>(raw, c2).
     rbind (value_type_of raw ''metadata'') (\<lambda>vt.
     rbind (read_value vt c2) (\<lambda>((v, et), c3).
     Inr (\<lparr>me_key = key, me_type = vt, me_value = v, me_offset = cur_off c,
           me_size = cur_off c3 - cur_off c, me_element = et\<rparr>, c3))))))"

text \<open>\<open>seen\<close> holds the entries read so far, whose keys are the set \<open>metadata_keys\<close> of the code.\<close>

fun parse_metadata ::
  "nat \<Rightarrow> metadata_entry list \<Rightarrow> cursor \<Rightarrow> gguf_error + metadata_entry list \<times> cursor" where
  "parse_metadata 0 seen c = Inr (seen, c)"
| "parse_metadata (Suc n) seen c =
     rbind (parse_entry seen c) (\<lambda>(e, c). parse_metadata n (seen @ [e]) c)"

record raw_descriptor =
  rd_name :: pystr
  rd_dimensions :: "int list"
  rd_type_id :: nat
  rd_relative :: int
  rd_offset :: nat
  rd_size :: nat

definition parse_descriptor ::
  "raw_descriptor list \<Rightarrow> cursor \<Rightarrow> gguf_error + raw_descriptor \<times> cursor" where
  "parse_descriptor seen c =
     rbind (cur_string (max_key_bytes (cur_limits c)) c) (\<lambda>(name, c1).
     rbind (raise_if (name \<in> rd_name ` set seen) (CorruptGGUF ''duplicate tensor name'')) (\<lambda>_.
     rbind (cur_uint Code_I c1) (\<lambda>(rank, c2).
     rbind (raise_if (\<not> (1 \<le> int rank \<and> int rank \<le> max_dimensions (cur_limits c)))
              (GGUFResourceLimit ''dimension count'')) (\<lambda>_.
     rbind (read_many (cur_uint Code_Q) rank c2) (\<lambda>(dims, c3).
     rbind (cur_uint Code_I c3) (\<lambda>(type_id, c4).
     rbind (cur_uint Code_Q c4) (\<lambda>(relative, c5).
     Inr (\<lparr>rd_name = name, rd_dimensions = map int dims, rd_type_id = type_id,
           rd_relative = int relative, rd_offset = cur_off c,
           rd_size = cur_off c5 - cur_off c\<rparr>, c5))))))))"

fun parse_descriptors ::
  "nat \<Rightarrow> raw_descriptor list \<Rightarrow> cursor \<Rightarrow> gguf_error + raw_descriptor list \<times> cursor" where
  "parse_descriptors 0 seen c = Inr (seen, c)"
| "parse_descriptors (Suc n) seen c =
     rbind (parse_descriptor seen c) (\<lambda>(d, c). parse_descriptors n (seen @ [d]) c)"

definition parse_alignment :: "metadata_entry list \<Rightarrow> gguf_error + int" where
  "parse_alignment metadata =
     rbind (case find_entry metadata (lit ''general.alignment'') of
              None \<Rightarrow> Inr DEFAULT_ALIGNMENT
            | Some e \<Rightarrow>
                rbind (raise_if (me_type e \<noteq> VT_UINT32)
                         (CorruptGGUF ''general.alignment must have UINT32 type'')) (\<lambda>_.
                case me_value e of
                  Scalar (PInt i) \<Rightarrow> Inr i
                | _ \<Rightarrow> Inl (CorruptGGUF ''general.alignment must contain an integer''))) (\<lambda>alignment.
     rbind (raise_if (bad_alignment alignment)
              (CorruptGGUF ''general.alignment must be a power of two'')) (\<lambda>_.
     Inr alignment))"

definition place_tensor ::
  "nat \<Rightarrow> int \<Rightarrow> int \<Rightarrow> raw_descriptor \<Rightarrow> gguf_error + tensor_descriptor" where
  "place_tensor file_size alignment data_offset d =
     rbind (of_option (UnsupportedGGUFType ''tensor'') (GGML_TYPE_IDS (rd_type_id d))) (\<lambda>t.
     rbind (raise_if (MAX_SIGNED_OFFSET - data_offset < rd_relative d)
              (CorruptGGUF ''offset overflows signed 64-bit range'')) (\<lambda>_.
     rbind (raise_if (rd_relative d mod alignment \<noteq> 0)
              (CorruptGGUF ''relative offset is not aligned'')) (\<lambda>_.
     rbind (gguf_tensor_byte_size t (rd_dimensions d)) (\<lambda>byte_size.
     let absolute = data_offset + rd_relative d in
     rbind (raise_if (int file_size - byte_size < absolute)
              (CorruptGGUF ''byte range exceeds file size'')) (\<lambda>_.
     Inr \<lparr>td_name = rd_name d, td_dimensions = rd_dimensions d, td_type_id = rd_type_id d,
          td_quant = t, td_relative = rd_relative d, td_offset = absolute, td_bytes = byte_size,
          td_desc_offset = rd_offset d, td_desc_size = rd_size d\<rparr>)))))"

fun check_no_overlap :: "tensor_descriptor list \<Rightarrow> gguf_error + unit" where
  "check_no_overlap (previous # current # ts) =
     rbind (raise_if (td_offset current < data_end previous)
              (CorruptGGUF ''tensor byte ranges overlap'')) (\<lambda>_. check_no_overlap (current # ts))"
| "check_no_overlap _ = Inr ()"

definition is_quantized :: "tensor_descriptor \<Rightarrow> bool" where
  "is_quantized t \<longleftrightarrow> family (storage_layout (td_quant t)) \<noteq> DENSE"

definition check_quantization_version ::
  "metadata_entry list \<Rightarrow> tensor_descriptor list \<Rightarrow> gguf_error + unit" where
  "check_quantization_version metadata ts =
     raise_if (list_ex is_quantized ts
         \<and> (case find_entry metadata (lit ''general.quantization_version'') of
              None \<Rightarrow> True | Some e \<Rightarrow> me_type e \<noteq> VT_UINT32))
       (CorruptGGUF ''quantized tensors require UINT32 general.quantization_version'')"

text \<open>\<open>MemoryMappedGGUF._parse\<close>.\<close>

definition parse_gguf :: "parser_limits \<Rightarrow> bytes \<Rightarrow> gguf_error + gguf_container" where
  "parse_gguf limits file =
     rbind (parse_header file) (\<lambda>(version, bo).
     rbind (cur_uint Code_Q \<lparr>cur_map = file, cur_order = bo, cur_limits = limits, cur_off = 8\<rparr>)
       (\<lambda>(tensor_count, c).
     rbind (cur_uint Code_Q c) (\<lambda>(metadata_count, c).
     rbind (raise_if (max_tensors limits < int tensor_count) (GGUFResourceLimit ''tensor count'')) (\<lambda>_.
     rbind (raise_if (max_metadata_entries limits < int metadata_count)
              (GGUFResourceLimit ''metadata count'')) (\<lambda>_.
     rbind (parse_metadata metadata_count [] c) (\<lambda>(metadata, c).
     rbind (parse_descriptors tensor_count [] c) (\<lambda>(raw, c).
     rbind (parse_alignment metadata) (\<lambda>alignment.
     rbind (align_offset (int (cur_off c)) alignment) (\<lambda>data_offset.
     rbind (raise_if (int (length file) < data_offset)
              (CorruptGGUF ''tensor-data base is outside the file'')) (\<lambda>_.
     rbind (mapM_r (place_tensor (length file) alignment data_offset) raw) (\<lambda>ts.
     rbind (check_no_overlap (sort_key (\<lambda>t. (td_offset t, td_name t)) ts)) (\<lambda>_.
     rbind (check_quantization_version metadata ts) (\<lambda>_.
     Inr \<lparr>gc_file_size = length file, gc_version = version, gc_byte_order = bo,
          gc_alignment = alignment, gc_data_offset = data_offset, gc_metadata = metadata,
          gc_tensors = ts\<rparr>)))))))))))))"

section \<open>The mapping\<close>

record mapped_gguf =
  mm_bytes :: bytes
  mm_closed :: bool
  mm_container :: gguf_container

text \<open>\<open>MemoryMappedGGUF.__init__\<close>: an empty file is refused before it is mapped.\<close>

definition open_gguf :: "parser_limits \<Rightarrow> bytes \<Rightarrow> gguf_error + mapped_gguf" where
  "open_gguf limits file =
     rbind (raise_if (file = []) (CorruptGGUF ''file is empty'')) (\<lambda>_.
     rbind (parse_gguf limits file) (\<lambda>c.
     Inr \<lparr>mm_bytes = file, mm_closed = False, mm_container = c\<rparr>))"

definition close_gguf :: "mapped_gguf \<Rightarrow> mapped_gguf" where
  "close_gguf m = m\<lparr>mm_closed := True\<rparr>"

definition raw_bytes :: "mapped_gguf \<Rightarrow> int \<Rightarrow> int \<Rightarrow> int \<Rightarrow> gguf_error + bytes" where
  "raw_bytes m max_bytes offset n =
     rbind (raise_if (max_bytes \<le> 0 \<or> n < 0 \<or> max_bytes < n)
              (GGUFResourceLimit ''byte span exceeds configured call limit'')) (\<lambda>_.
     rbind (raise_if (0 \<le> offset \<and> mm_closed m) MmapClosed) (\<lambda>_.
     rbind (raise_if (offset < 0 \<or> int (length (mm_bytes m)) - n < offset)
              (CorruptGGUF ''byte span is outside the file'')) (\<lambda>_.
     Inr (slice (nat offset) (nat n) (mm_bytes m)))))"

section \<open>What a successful parse guarantees\<close>

lemma cur_require_Inr: "cur_require c n = Inr u \<longleftrightarrow> cur_off c + n \<le> length (cur_map c)"
  by (auto simp: cur_require_def)

lemma align_offset_Inr:
  assumes "\<not> bad_alignment a" and "align_offset off a = Inr d"
  shows "off \<le> d \<and> d mod a = 0 \<and> d < off + a"
proof -
  obtain k where k: "a = 2 ^ k" using assms(1) by (auto simp: bad_alignment_iff)
  from assms(2) have d: "d = (off + a - 1) div a * a"
    unfolding align_offset_def k int_and_minus_power2 by auto
  have "0 < a" using k by simp
  define r where "r = (off + a - 1) mod a"
  have "d + r = off + a - 1" unfolding d r_def by (rule div_mult_mod_eq)
  moreover have "r < a" "0 \<le> r" using \<open>0 < a\<close> by (simp_all add: r_def)
  moreover have "d mod a = 0" by (simp add: d)
  ultimately show ?thesis by auto
qed

lemma storage_layout_pos: "0 < block_size (storage_layout t)" "0 < type_size (storage_layout t)"
proof -
  obtain L where "GGUF_STORAGE_LAYOUTS t = Some L" using storage_layout_total by blast
  then show "0 < block_size (storage_layout t)" "0 < type_size (storage_layout t)"
    using layout_positive by (auto simp: storage_layout_def)
qed

lemma gguf_tensor_byte_size_Inr:
  assumes "gguf_tensor_byte_size t dims = Inr n"
  shows "dims \<noteq> [] \<and> list_all (\<lambda>d. 0 < d) dims
    \<and> encoded_size (storage_layout t) (prod_list dims) = Inr n
    \<and> 0 < n \<and> n \<le> MAX_SIGNED_OFFSET \<and> prod_list dims \<le> MAX_SIGNED_OFFSET"
proof -
  from assms have d: "dims \<noteq> []" "list_all (\<lambda>d. 0 < d) dims"
    and e: "encoded_size (storage_layout t) (prod_list dims) = Inr n"
    and n: "n \<le> MAX_SIGNED_OFFSET" and el: "prod_list dims \<le> MAX_SIGNED_OFFSET"
    by (auto simp: gguf_tensor_byte_size_def Let_def not_list_ex_nonpos not_less)
  have "0 < n"
    using encoded_size_positive [OF e storage_layout_pos] prod_list_positive [OF d(2)] by simp
  with d e n el show ?thesis by simp
qed

lemma place_tensor_Inr:
  assumes "place_tensor fsz a base d = Inr t"
  shows "td_name t = rd_name d \<and> td_dimensions t = rd_dimensions d
    \<and> td_offset t = base + rd_relative d \<and> rd_relative d mod a = 0
    \<and> data_end t \<le> int fsz \<and> GGML_TYPE_IDS (td_type_id t) = Some (td_quant t)
    \<and> gguf_tensor_byte_size (td_quant t) (td_dimensions t) = Inr (td_bytes t)"
  using assms
  by (auto simp: place_tensor_def Let_def data_end_def not_less simp del: GGML_TYPE_IDS.simps)

lemma parse_metadata_distinct:
  assumes "parse_metadata n seen c = Inr (es, c')" and "distinct (map me_key seen)"
  shows "distinct (map me_key es) \<and> length es = length seen + n"
  using assms
proof (induction n arbitrary: seen c)
  case (Suc n)
  from Suc.prems(1) obtain e c1 where e: "parse_entry seen c = Inr (e, c1)"
    "parse_metadata n (seen @ [e]) c1 = Inr (es, c')" by auto
  from e(1) have "me_key e \<notin> me_key ` set seen" by (auto simp: parse_entry_def)
  with Suc.prems(2) have "distinct (map me_key (seen @ [e]))" by auto
  from Suc.IH [OF e(2) this] show ?case by simp
qed simp

lemma parse_descriptors_distinct:
  assumes "parse_descriptors n seen c = Inr (ds, c')" and "distinct (map rd_name seen)"
    and "\<forall>d \<in> set seen. 0 \<le> rd_relative d"
  shows "distinct (map rd_name ds) \<and> length ds = length seen + n \<and> (\<forall>d \<in> set ds. 0 \<le> rd_relative d)"
  using assms
proof (induction n arbitrary: seen c)
  case (Suc n)
  from Suc.prems(1) obtain e c1 where e: "parse_descriptor seen c = Inr (e, c1)"
    "parse_descriptors n (seen @ [e]) c1 = Inr (ds, c')" by auto
  from e(1) have "rd_name e \<notin> rd_name ` set seen" "0 \<le> rd_relative e"
    by (auto simp: parse_descriptor_def)
  with Suc.prems(2,3) have "distinct (map rd_name (seen @ [e]))"
    "\<forall>d \<in> set (seen @ [e]). 0 \<le> rd_relative d" by auto
  from Suc.IH [OF e(2) this] show ?case by simp
qed simp

text \<open>Adjacent ranges of the sorted list do not overlap, so no two ranges do.\<close>

lemma check_no_overlap_head:
  assumes "check_no_overlap (t # ts) = Inr u" and "\<forall>x \<in> set (t # ts). 0 < td_bytes x"
  shows "\<forall>x \<in> set ts. data_end t \<le> td_offset x"
  using assms
proof (induction ts arbitrary: t)
  case (Cons v ts)
  from Cons.prems(1) have 1: "data_end t \<le> td_offset v" and rest: "check_no_overlap (v # ts) = Inr u"
    by (auto simp: not_less)
  from Cons.prems(2) have "td_offset v < data_end v" by (simp add: data_end_def)
  with 1 Cons.IH [OF rest] Cons.prems(2) show ?case by fastforce
qed simp

lemma check_no_overlap_pairwise:
  assumes "check_no_overlap ts = Inr u" and "\<forall>x \<in> set ts. 0 < td_bytes x"
    and "t \<in> set ts" and "v \<in> set ts" and "t \<noteq> v"
  shows "data_end t \<le> td_offset v \<or> data_end v \<le> td_offset t"
  using assms
proof (induction ts)
  case (Cons w ts)
  have rest: "check_no_overlap ts = Inr u"
    using Cons.prems(1) by (cases ts) auto
  show ?case
    using Cons.IH [OF rest] Cons.prems(2-5) check_no_overlap_head [OF Cons.prems(1,2)] by auto
qed simp

lemma parse_alignment_Inr: "parse_alignment es = Inr a \<Longrightarrow> \<not> bad_alignment a"
  by (auto simp: parse_alignment_def)

lemma parse_gguf_steps:
  assumes "parse_gguf limits file = Inr c"
  obtains ver bo tc c1 mc c2 c3 raw c4 where
    "parse_header file = Inr (ver, bo)"
    "cur_uint Code_Q \<lparr>cur_map = file, cur_order = bo, cur_limits = limits, cur_off = 8\<rparr> = Inr (tc, c1)"
    "cur_uint Code_Q c1 = Inr (mc, c2)"
    "int tc \<le> max_tensors limits" "int mc \<le> max_metadata_entries limits"
    "parse_metadata mc [] c2 = Inr (gc_metadata c, c3)"
    "parse_descriptors tc [] c3 = Inr (raw, c4)"
    "parse_alignment (gc_metadata c) = Inr (gc_alignment c)"
    "align_offset (int (cur_off c4)) (gc_alignment c) = Inr (gc_data_offset c)"
    "gc_data_offset c \<le> int (length file)"
    "mapM_r (place_tensor (length file) (gc_alignment c) (gc_data_offset c)) raw = Inr (gc_tensors c)"
    "check_no_overlap (sort_key (\<lambda>t. (td_offset t, td_name t)) (gc_tensors c)) = Inr ()"
    "check_quantization_version (gc_metadata c) (gc_tensors c) = Inr ()"
    "gc_file_size c = length file"
  using assms by (auto simp: parse_gguf_def not_less)

lemma parse_gguf_tensor:
  assumes p: "parse_gguf limits file = Inr c" and t: "t \<in> set (gc_tensors c)"
  shows "gc_data_offset c \<le> td_offset t \<and> data_end t \<le> int (length file)
    \<and> td_offset t mod gc_alignment c = 0 \<and> 0 < td_bytes t
    \<and> gguf_tensor_byte_size (td_quant t) (td_dimensions t) = Inr (td_bytes t)"
  using p
proof (rule parse_gguf_steps)
  fix tc c3 raw c4
  assume raw: "parse_descriptors tc [] c3 = Inr (raw, c4)"
    and al: "parse_alignment (gc_metadata c) = Inr (gc_alignment c)"
    and base: "align_offset (int (cur_off c4)) (gc_alignment c) = Inr (gc_data_offset c)"
    and ts: "mapM_r (place_tensor (length file) (gc_alignment c) (gc_data_offset c)) raw
      = Inr (gc_tensors c)"
  obtain d where d: "d \<in> set raw"
    and pl: "place_tensor (length file) (gc_alignment c) (gc_data_offset c) d = Inr t"
    by (rule mapM_r_memberD [OF ts t])
  note pl = place_tensor_Inr [OF pl]
  have "0 \<le> rd_relative d" using parse_descriptors_distinct [OF raw] d by simp
  moreover have "gc_data_offset c mod gc_alignment c = 0"
    using align_offset_Inr [OF parse_alignment_Inr [OF al] base] by simp
  ultimately show ?thesis
    using pl gguf_tensor_byte_size_Inr [of "td_quant t" "td_dimensions t" "td_bytes t"]
    by (auto simp: mod_add_eq simp flip: mod_add_eq [of "gc_data_offset c"])
qed

text \<open>
  C40. A file the parser accepts is memory-safe to read: every tensor's byte range lies inside the
  file, past the descriptors and on the declared alignment, has the size its type and shape
  determine, and no two tensors share a byte; keys and names are unique and the alignment is a
  power of two between 8 and 2^20.
\<close>
theorem parsed_tensors_safe:
  assumes "parse_gguf limits file = Inr c"
  shows "(\<forall>t \<in> set (gc_tensors c).
        gc_data_offset c \<le> td_offset t \<and> data_end t \<le> int (length file)
      \<and> td_offset t mod gc_alignment c = 0 \<and> 0 < td_bytes t
      \<and> gguf_tensor_byte_size (td_quant t) (td_dimensions t) = Inr (td_bytes t))
    \<and> (\<forall>t \<in> set (gc_tensors c). \<forall>u \<in> set (gc_tensors c). t \<noteq> u \<longrightarrow>
        data_end t \<le> td_offset u \<or> data_end u \<le> td_offset t)
    \<and> distinct (map td_name (gc_tensors c)) \<and> distinct (map me_key (gc_metadata c))
    \<and> (\<exists>k. 3 \<le> k \<and> k \<le> 20 \<and> gc_alignment c = 2 ^ k)
    \<and> int (length (gc_tensors c)) \<le> max_tensors limits
    \<and> int (length (gc_metadata c)) \<le> max_metadata_entries limits"
  using assms
proof (rule parse_gguf_steps)
  fix tc mc c2 c3 raw c4
  assume md: "parse_metadata mc [] c2 = Inr (gc_metadata c, c3)"
    and raw: "parse_descriptors tc [] c3 = Inr (raw, c4)"
    and lim: "int tc \<le> max_tensors limits" "int mc \<le> max_metadata_entries limits"
    and al: "parse_alignment (gc_metadata c) = Inr (gc_alignment c)"
    and ts: "mapM_r (place_tensor (length file) (gc_alignment c) (gc_data_offset c)) raw
      = Inr (gc_tensors c)"
    and no: "check_no_overlap (sort_key (\<lambda>t. (td_offset t, td_name t)) (gc_tensors c)) = Inr ()"
  have names: "map td_name (gc_tensors c) = map rd_name raw"
    using ts by (auto simp: mapM_r_Inr_iff list_all2_conv_all_nth dest!: place_tensor_Inr
        intro!: nth_equalityI)
  have pos: "\<forall>t \<in> set (gc_tensors c). 0 < td_bytes t"
    using parse_gguf_tensor [OF assms] by blast
  have "\<forall>t \<in> set (gc_tensors c). \<forall>u \<in> set (gc_tensors c). t \<noteq> u \<longrightarrow>
      data_end t \<le> td_offset u \<or> data_end u \<le> td_offset t"
    using check_no_overlap_pairwise [OF no] pos by simp
  moreover have "distinct (map td_name (gc_tensors c))" "length (gc_tensors c) = tc"
    using parse_descriptors_distinct [OF raw] names mapM_r_length [OF ts] by simp_all
  moreover have "distinct (map me_key (gc_metadata c))" "length (gc_metadata c) = mc"
    using parse_metadata_distinct [OF md] by simp_all
  ultimately show ?thesis
    using parse_gguf_tensor [OF assms] parse_alignment_Inr [OF al] lim
    by (simp add: bad_alignment_iff)
qed

end
