(* ===== verification/GgufWriter.thy ===== *)
theory GgufWriter
  imports GgufContainer
begin

text \<open>
  The planning half of \<open>adapters/gguf/writer.py\<close>: encoding of metadata and descriptors and the
  computation of every offset before a byte of payload is read. The streaming and publication half
  is in the theory \<open>GgufPublish\<close>; that what is planned here is what the parser reads back is proved in
  \<open>GgufRoundtrip\<close>.
\<close>

datatype write_error = GGUFWrite string

record write_metadata =
  wm_key :: pystr
  wm_type :: value_type
  wm_value :: gguf_value
  wm_element :: "value_type option"

record write_tensor =
  wt_name :: pystr
  wt_dimensions :: "int list"
  wt_type_id :: int
  wt_chunks :: "bytes list"

record planned_tensor =
  pt_name :: pystr
  pt_relative :: int
  pt_offset :: int
  pt_bytes :: int

record output_layout =
  ol_version :: int
  ol_byte_order :: byte_order
  ol_alignment :: int
  ol_data_offset :: int
  ol_total :: int
  ol_header :: bytes
  ol_tensors :: "planned_tensor list"

definition writer_align :: "int \<Rightarrow> int \<Rightarrow> int" where
  "writer_align v alignment = (v + alignment - 1) AND (- alignment)"

definition write_string :: "byte_order \<Rightarrow> pystr \<Rightarrow> write_error + bytes" where
  "write_string bo s =
     rbind (raise_if (s = []) (GGUFWrite ''names and metadata keys cannot be empty'')) (\<lambda>_.
     rbind (of_option (GGUFWrite ''strings must be valid UTF-8'') (encode_utf8 s)) (\<lambda>encoded.
     Inr (pack_uint bo Code_Q (int (length encoded)) @ encoded)))"

definition write_scalar :: "byte_order \<Rightarrow> value_type \<Rightarrow> pyval \<Rightarrow> write_error + bytes" where
  "write_scalar bo vt v =
     (if vt = VT_STRING then
        (case v of PStr s \<Rightarrow> write_string bo s
         | _ \<Rightarrow> Inl (GGUFWrite ''STRING metadata requires a string''))
      else
        rbind (of_option (GGUFWrite ''unsupported scalar metadata type'') (SCALAR_CODES vt)) (\<lambda>code.
        rbind (if vt = VT_BOOL then
                 (case v of PBool b \<Rightarrow> Inr (PInt (if b then 1 else 0))
                  | _ \<Rightarrow> Inl (GGUFWrite ''BOOL metadata requires a bool''))
               else
                 (case v of
                    PBool _ \<Rightarrow> Inl (GGUFWrite ''requires a numeric value'')
                  | PStr _ \<Rightarrow> Inl (GGUFWrite ''requires a numeric value'')
                  | _ \<Rightarrow> Inr v)) (\<lambda>v.
        of_option (GGUFWrite ''value is outside representation'') (struct_pack bo code v))))"

definition write_metadata_entry :: "byte_order \<Rightarrow> write_metadata \<Rightarrow> write_error + bytes" where
  "write_metadata_entry bo e =
     rbind (write_string bo (wm_key e)) (\<lambda>key.
     let typ = pack_uint bo Code_I (int (value_type_id (wm_type e))) in
     if wm_type e = VT_ARRAY then
       (case wm_element e of
          None \<Rightarrow> Inl (GGUFWrite ''ARRAY metadata requires a non-array element type'')
        | Some et \<Rightarrow>
            rbind (raise_if (et = VT_ARRAY)
                     (GGUFWrite ''ARRAY metadata requires a non-array element type'')) (\<lambda>_.
            (case wm_value e of
               Scalar _ \<Rightarrow> Inl (GGUFWrite ''ARRAY metadata requires an immutable tuple'')
             | Tuple vs \<Rightarrow>
                 rbind (mapM_r (write_scalar bo et) vs) (\<lambda>encoded.
                 Inr (key @ typ @ pack_uint bo Code_I (int (value_type_id et))
                      @ pack_uint bo Code_Q (int (length vs)) @ concat encoded)))))
     else
       (case (wm_element e, wm_value e) of
          (None, Scalar v) \<Rightarrow>
            rbind (write_scalar bo (wm_type e) v) (\<lambda>encoded. Inr (key @ typ @ encoded))
        | _ \<Rightarrow> Inl (GGUFWrite ''scalar metadata cannot declare array elements'')))"

text \<open>Python's \<open>value == alignment\<close>: a bool or a float can equal an int.\<close>

definition py_eq_int :: "gguf_value \<Rightarrow> int \<Rightarrow> bool" where
  "py_eq_int v i =
     (case v of
        Scalar (PInt j) \<Rightarrow> j = i
      | Scalar (PBool b) \<Rightarrow> (if b then 1 else 0) = i
      | Scalar (PFloat b) \<Rightarrow> int_to_f64 i = Some b
      | _ \<Rightarrow> False)"

definition validated_metadata ::
  "write_metadata list \<Rightarrow> int \<Rightarrow> write_error + write_metadata list" where
  "validated_metadata metadata alignment =
     rbind (raise_if (\<not> distinct (map wm_key metadata))
              (GGUFWrite ''metadata keys must be unique'')) (\<lambda>_.
     case find (\<lambda>e. wm_key e = lit ''general.alignment'') metadata of
       None \<Rightarrow>
         Inr (metadata @ [\<lparr>wm_key = lit ''general.alignment'', wm_type = VT_UINT32,
                           wm_value = Scalar (PInt alignment), wm_element = None\<rparr>])
     | Some e \<Rightarrow>
         rbind (raise_if (wm_type e \<noteq> VT_UINT32 \<or> \<not> py_eq_int (wm_value e) alignment)
                  (GGUFWrite ''general.alignment must match the writer alignment'')) (\<lambda>_.
         Inr metadata))"

definition GGML_TYPE_IDS_get :: "int \<Rightarrow> ggml_type option" where
  "GGML_TYPE_IDS_get i = (if i < 0 then None else GGML_TYPE_IDS (nat i))"

text \<open>The first loop over the tensors: each is aligned after the one before it.\<close>

fun plan_offsets ::
  "int \<Rightarrow> int \<Rightarrow> write_tensor list \<Rightarrow> write_error + (write_tensor \<times> int \<times> int) list \<times> int" where
  "plan_offsets alignment relative [] = Inr ([], relative)"
| "plan_offsets alignment relative (t # ts) =
     rbind (of_option (GGUFWrite ''unsupported ggml type id'') (GGML_TYPE_IDS_get (wt_type_id t))) (\<lambda>q.
     rbind (except (gguf_tensor_byte_size q (wt_dimensions t)) (\<lambda>_. GGUFWrite ''tensor size'')) (\<lambda>n.
     let relative = writer_align relative alignment in
     rbind (plan_offsets alignment (relative + n) ts) (\<lambda>(rest, end).
     Inr ((t, relative, n) # rest, end))))"

text \<open>The second loop: one descriptor.\<close>

definition write_descriptor :: "byte_order \<Rightarrow> write_tensor \<times> int \<times> int \<Rightarrow> write_error + bytes" where
  "write_descriptor bo p =
     (case p of (t, offset, _) \<Rightarrow>
        rbind (write_string bo (wt_name t)) (\<lambda>name.
        Inr (name @ pack_uint bo Code_I (int (length (wt_dimensions t)))
             @ concat (map (pack_uint bo Code_Q) (wt_dimensions t))
             @ pack_uint bo Code_I (wt_type_id t) @ pack_uint bo Code_Q offset)))"

definition MAGIC :: bytes where
  "MAGIC = map (of_nat \<circ> of_char) ''GGUF''"

definition plan_gguf_output ::
  "write_metadata list \<Rightarrow> write_tensor list \<Rightarrow> int \<Rightarrow> byte_order \<Rightarrow> int
     \<Rightarrow> write_error + output_layout" where
  "plan_gguf_output metadata tensors version bo alignment =
     rbind (raise_if ((version \<noteq> 2 \<and> version \<noteq> 3) \<or> (version = 2 \<and> bo = BIG))
              (GGUFWrite ''v2 is little-endian; v3 supports either byte order'')) (\<lambda>_.
     rbind (raise_if (bad_alignment alignment)
              (GGUFWrite ''alignment must be a power of two from 8 through 1048576'')) (\<lambda>_.
     rbind (raise_if (\<not> distinct (map wt_name tensors))
              (GGUFWrite ''tensor names must be unique'')) (\<lambda>_.
     rbind (validated_metadata metadata alignment) (\<lambda>entries.
     rbind (mapM_r (write_metadata_entry bo) entries) (\<lambda>encoded.
     rbind (plan_offsets alignment 0 tensors) (\<lambda>(raw, relative).
     rbind (mapM_r (write_descriptor bo) raw) (\<lambda>descriptors.
     let header = MAGIC @ pack_uint bo Code_I version @ pack_uint bo Code_Q (int (length tensors))
                  @ pack_uint bo Code_Q (int (length entries)) @ concat encoded @ concat descriptors;
         data_offset = writer_align (int (length header)) alignment
     in Inr \<lparr>ol_version = version, ol_byte_order = bo, ol_alignment = alignment,
             ol_data_offset = data_offset,
             ol_total = (if tensors \<noteq> [] then data_offset + relative else data_offset),
             ol_header = header,
             ol_tensors = map (\<lambda>(t, relative_offset, n).
                \<lparr>pt_name = wt_name t, pt_relative = relative_offset,
                 pt_offset = data_offset + relative_offset, pt_bytes = n\<rparr>) raw\<rparr>)))))))"

section \<open>Facts about the plan\<close>

lemma writer_align_props:
  assumes "\<not> bad_alignment a"
  shows "v \<le> writer_align v a" and "writer_align v a mod a = 0" and "writer_align v a < v + a"
proof -
  obtain k where k: "a = 2 ^ k" using assms by (auto simp: bad_alignment_iff)
  have d: "writer_align v a = (v + a - 1) div a * a"
    unfolding writer_align_def k int_and_minus_power2 ..
  have "0 < a" using k by simp
  define r where "r = (v + a - 1) mod a"
  have "writer_align v a + r = v + a - 1" unfolding d r_def by (rule div_mult_mod_eq)
  moreover have "r < a" "0 \<le> r" using \<open>0 < a\<close> by (simp_all add: r_def)
  ultimately show "v \<le> writer_align v a" "writer_align v a < v + a" by auto
  show "writer_align v a mod a = 0" by (simp add: d)
qed

text \<open>What the planning loop guarantees of its list: aligned, increasing, contiguous up to padding.\<close>

fun planned_from :: "int \<Rightarrow> int \<Rightarrow> (write_tensor \<times> int \<times> int) list \<Rightarrow> int \<Rightarrow> bool" where
  "planned_from a relative [] end \<longleftrightarrow> end = relative"
| "planned_from a relative ((t, off, n) # rest) end \<longleftrightarrow>
     off = writer_align relative a \<and>
     (\<exists>q. GGML_TYPE_IDS_get (wt_type_id t) = Some q \<and> gguf_tensor_byte_size q (wt_dimensions t) = Inr n) \<and>
     planned_from a (off + n) rest end"

lemma plan_offsets_planned:
  "plan_offsets a relative ts = Inr (raw, end) \<Longrightarrow>
     planned_from a relative raw end \<and> map fst raw = ts"
  by (induction a relative ts arbitrary: raw "end" rule: plan_offsets.induct) (auto simp: Let_def)

lemma planned_from_bounds:
  assumes "planned_from a relative raw end" and "\<not> bad_alignment a"
  shows "relative \<le> end \<and> (\<forall>(t, off, n) \<in> set raw. relative \<le> off \<and> off mod a = 0 \<and> 0 < n \<and> off + n \<le> end)"
  using assms
proof (induction a relative raw "end" rule: planned_from.induct)
  case (2 a relative t off n rest "end")
  then have off: "relative \<le> off" "off mod a = 0"
    using writer_align_props [of a relative] by auto
  from 2(2) have "0 < n" by (auto dest: gguf_tensor_byte_size_Inr)
  moreover have "off + n \<le> end \<and> (\<forall>(t', off', n') \<in> set rest.
      off + n \<le> off' \<and> off' mod a = 0 \<and> 0 < n' \<and> off' + n' \<le> end)"
    using 2 by auto
  ultimately show ?case using off by fastforce
qed simp

end
