(* ===== verification/GgufRoundtrip.thy ===== *)
theory GgufRoundtrip
  imports GgufWriter
begin

text \<open>
  What the writer plans is what the parser reads back. The contract between an encoder of the writer
  and the reader of the parser for the same item is the locale \<open>cursor_codec\<close>; its interpretations are
  the scalars, the strings and the unsigned counts of the format, and the list law proved once in the
  locale serves metadata arrays and tensor dimensions alike.
\<close>

section \<open>A reader positioned in a file\<close>

definition cursor_at :: "byte_order \<Rightarrow> parser_limits \<Rightarrow> bytes \<Rightarrow> bytes \<Rightarrow> cursor" where
  "cursor_at bo lim pre rest =
     \<lparr>cur_map = pre @ rest, cur_order = bo, cur_limits = lim, cur_off = length pre\<rparr>"

definition reads ::
  "(cursor \<Rightarrow> gguf_error + 'a \<times> cursor) \<Rightarrow> byte_order \<Rightarrow> parser_limits \<Rightarrow> bytes \<Rightarrow> 'a \<Rightarrow> bool" where
  "reads rd bo lim enc v \<longleftrightarrow>
     (\<forall>pre post. rd (cursor_at bo lim pre (enc @ post)) = Inr (v, cursor_at bo lim (pre @ enc) post))"

lemma readsD: "reads rd bo lim enc v \<Longrightarrow>
    rd (cursor_at bo lim pre (enc @ post)) = Inr (v, cursor_at bo lim (pre @ enc) post)"
  by (simp add: reads_def)

lemma cur_off_at [simp]: "cur_off (cursor_at bo lim pre rest) = length pre"
  and cur_limits_at [simp]: "cur_limits (cursor_at bo lim pre rest) = lim"
  and cur_map_at [simp]: "cur_map (cursor_at bo lim pre rest) = pre @ rest"
  and cur_order_at [simp]: "cur_order (cursor_at bo lim pre rest) = bo"
  by (simp_all add: cursor_at_def)

lemma cursor_at_advance:
  "cursor_at bo lim pre (enc @ post)\<lparr>cur_off := length pre + length enc\<rparr> = cursor_at bo lim (pre @ enc) post"
  by (simp add: cursor_at_def)

lemma reads_unpack:
  assumes "length enc = calcsize code"
  shows "reads (cur_unpack code) bo lim enc (struct_unpack bo code enc)"
proof -
  have "slice (length pre) (calcsize code) (pre @ enc @ post) = enc" for pre post
    using assms slice_append_exact [of pre enc post] by simp
  then show ?thesis
    using assms cursor_at_advance [where bo = bo and lim = lim and enc = enc]
    by (simp add: reads_def cur_unpack_def cur_require_def Let_def)
qed

lemma reads_uint:
  assumes "is_int_code code" and "\<not> code_signed code" and "0 \<le> i" and "i < 256 ^ calcsize code"
  shows "reads (cur_uint code) bo lim (pack_uint bo code i) (nat i)"
  using readsD [OF reads_unpack [of "pack_uint bo code i" code bo lim]] struct_unpack_uint [OF assms, of bo]
  by (simp add: reads_def cur_uint_def py_nat_def)

lemmas reads_u32 = reads_uint [of Code_I, simplified is_int_code_def calcsize.simps code_signed.simps, simplified]
lemmas reads_u64 = reads_uint [of Code_Q, simplified is_int_code_def calcsize.simps code_signed.simps, simplified]

section \<open>The codec contract\<close>

locale cursor_codec =
  fixes rd :: "cursor \<Rightarrow> gguf_error + 'a \<times> cursor"
    and enc :: "'a \<Rightarrow> 'e + bytes"
    and ok :: "'a \<Rightarrow> bool"
    and bo :: byte_order
    and lim :: parser_limits
  assumes reads_encoded: "enc v = Inr bs \<Longrightarrow> ok v \<Longrightarrow> reads rd bo lim bs v"
begin

lemma reads_many:
  "mapM_r enc vs = Inr bss \<Longrightarrow> list_all ok vs \<Longrightarrow>
     reads (read_many rd (length vs)) bo lim (concat bss) vs"
proof (induction vs arbitrary: bss)
  case Nil
  then show ?case by (simp add: reads_def)
next
  case (Cons v vs)
  then obtain b bs where b: "enc v = Inr b" "mapM_r enc vs = Inr bs" "bss = b # bs" by auto
  have "reads rd bo lim b v" using reads_encoded [OF b(1)] Cons.prems(2) by simp
  note h = readsD [OF this]
  have "reads (read_many rd (length vs)) bo lim (concat bs) vs"
    using Cons.IH [OF b(2)] Cons.prems(2) by simp
  note t = readsD [OF this]
  show ?case by (simp add: reads_def b(3) h t)
qed

end

section \<open>Strings\<close>

definition string_fits :: "int \<Rightarrow> pystr \<Rightarrow> bool" where
  "string_fits maximum s \<longleftrightarrow>
     (case encode_utf8 s of None \<Rightarrow> False
      | Some e \<Rightarrow> int (length e) \<le> maximum \<and> int (length e) < 2 ^ 64)"

lemma reads_string:
  assumes "write_string bo s = Inr bs" and "string_fits maximum s"
  shows "reads (cur_string maximum) bo lim bs s"
proof -
  from assms obtain e where e: "encode_utf8 s = Some e" "int (length e) \<le> maximum"
    "int (length e) < 2 ^ 64" and bs: "bs = pack_uint bo Code_Q (int (length e)) @ e"
    by (auto simp: write_string_def string_fits_def split: option.splits)
  have "reads (cur_uint Code_Q) bo lim (pack_uint bo Code_Q (int (length e))) (length e)"
    using reads_u64 [of "int (length e)" bo lim] e(3) by simp
  note u = readsD [OF this]
  have sl: "slice (length pre + 8) (length e) (pre @ pack_uint bo Code_Q (int (length e)) @ e @ post) = e"
    for pre post
    using slice_append_exact [of "pre @ pack_uint bo Code_Q (int (length e))" e post] by simp
  show ?thesis
    unfolding reads_def bs
  proof (intro allI)
    fix pre post
    have adv: "cursor_at bo lim (pre @ pack_uint bo Code_Q (int (length e))) (e @ post)
        \<lparr>cur_off := length pre + 8 + length e\<rparr>
      = cursor_at bo lim (pre @ pack_uint bo Code_Q (int (length e)) @ e) post"
      using cursor_at_advance [where bo = bo and lim = lim and enc = e and post = post
          and pre = "pre @ pack_uint bo Code_Q (int (length e))"] by simp
    show "cur_string maximum (cursor_at bo lim pre ((pack_uint bo Code_Q (int (length e)) @ e) @ post))
      = Inr (s, cursor_at bo lim (pre @ pack_uint bo Code_Q (int (length e)) @ e) post)"
      using e(2) decode_encode_utf8 [OF e(1)]
      by (simp add: cur_string_def u cur_require_def sl adv)
  qed
qed

interpretation string_codec: cursor_codec "cur_string maximum" "write_string bo"
  "string_fits maximum" bo lim for maximum bo lim
  by unfold_locales (rule reads_string)

text \<open>Unsigned 64-bit counts, as in tensor dimensions.\<close>

interpretation u64_codec: cursor_codec "cur_uint Code_Q" "\<lambda>n. Inr (pack_uint bo Code_Q (int n))"
  "\<lambda>n. int n < 2 ^ 64" bo lim for bo lim
  by unfold_locales (use reads_u64 [of "int _" bo lim] in auto)

section \<open>Scalars\<close>

text \<open>
  The values a type reads back unchanged: an integer type holds a Python int (the writer also packs an
  int or float that the format accepts, but reads back the stored value), a FLOAT32 a float that is
  exactly a binary32.
\<close>

definition scalar_fits :: "parser_limits \<Rightarrow> value_type \<Rightarrow> pyval \<Rightarrow> bool" where
  "scalar_fits lim vt v =
     (case v of
        PStr s \<Rightarrow> vt = VT_STRING \<and> string_fits (max_string_bytes lim) s
      | PBool b \<Rightarrow> vt = VT_BOOL
      | PInt i \<Rightarrow> vt \<notin> {VT_STRING, VT_BOOL, VT_FLOAT32, VT_FLOAT64, VT_ARRAY}
      | PFloat b \<Rightarrow>
          (vt = VT_FLOAT64 \<and> b < 2 ^ 64) \<or>
          (vt = VT_FLOAT32 \<and> (case f64_to_f32 b of None \<Rightarrow> False
             | Some c \<Rightarrow> c < 2 ^ 32 \<and> f32_to_f64 c = b)))"

lemma reads_scalar:
  assumes w: "write_scalar bo vt v = Inr bs" and ok: "scalar_fits lim vt v"
  shows "reads (read_scalar vt) bo lim bs v"
proof (cases v)
  case (PStr s)
  with ok have vt: "vt = VT_STRING" and f: "string_fits (max_string_bytes lim) s"
    by (simp_all add: scalar_fits_def)
  from w PStr vt have "write_string bo s = Inr bs" by (simp add: write_scalar_def)
  from readsD [OF reads_string [OF this f]] show ?thesis
    by (simp add: reads_def read_scalar_def vt PStr)
next
  case (PBool b)
  with ok have vt: "vt = VT_BOOL" by (simp add: scalar_fits_def)
  let ?i = "if b then 1 else 0 :: int"
  from w PBool vt have p: "struct_pack bo Code_B (PInt ?i) = Some bs" by (simp add: write_scalar_def)
  have "struct_unpack bo Code_B bs = PInt ?i"
    by (rule struct_unpack_pack_int [OF _ p]) (simp add: is_int_code_def)
  with readsD [OF reads_unpack [OF length_struct_pack [OF p], of bo lim]] show ?thesis
    by (simp add: reads_def read_scalar_def vt PBool split: if_splits)
next
  case (PInt i)
  with ok have vt: "vt \<noteq> VT_STRING" "vt \<noteq> VT_BOOL" "vt \<noteq> VT_FLOAT32" "vt \<noteq> VT_FLOAT64" "vt \<noteq> VT_ARRAY"
    by (auto simp: scalar_fits_def)
  then obtain code where code: "SCALAR_CODES vt = Some code" "is_int_code code"
    by (cases vt) (simp_all add: is_int_code_def)
  from w PInt vt code have p: "struct_pack bo code (PInt i) = Some bs" by (simp add: write_scalar_def)
  from readsD [OF reads_unpack [OF length_struct_pack [OF p], of bo lim]]
    struct_unpack_pack_int [OF code(2) p]
  show ?thesis by (simp add: reads_def read_scalar_def vt code PInt)
next
  case (PFloat b)
  with ok consider "vt = VT_FLOAT64" "b < 2 ^ 64"
    | c where "vt = VT_FLOAT32" "f64_to_f32 b = Some c" "c < 2 ^ 32" "f32_to_f64 c = b"
    by (auto simp: scalar_fits_def split: option.splits)
  then obtain code where code: "SCALAR_CODES vt = Some code" "vt \<noteq> VT_STRING" "vt \<noteq> VT_BOOL"
    and u: "\<And>bs. struct_pack bo code (PFloat b) = Some bs \<Longrightarrow> struct_unpack bo code bs = PFloat b"
  proof cases
    case 1
    then show ?thesis using struct_unpack_pack_f64 [of b bo] by (intro that [of Code_d]) auto
  next
    case (2 c)
    then have "c < 256 ^ calcsize Code_f" by simp
    with 2 show ?thesis using of_bytes_to_bytes [of c 4 bo]
      by (intro that [of Code_f])
        (auto simp: struct_pack_def pack_pattern_def struct_unpack_def unpack_pattern_def)
  qed
  from w PFloat code have p: "struct_pack bo code (PFloat b) = Some bs" by (simp add: write_scalar_def)
  from readsD [OF reads_unpack [OF length_struct_pack [OF p], of bo lim]] u [OF p]
  show ?thesis by (simp add: reads_def read_scalar_def code PFloat)
qed

interpretation scalar_codec: cursor_codec "read_scalar vt" "write_scalar bo vt" "scalar_fits lim vt"
  bo lim for vt bo lim
  by unfold_locales (rule reads_scalar)

section \<open>Metadata entries\<close>

definition entry_fits :: "parser_limits \<Rightarrow> write_metadata \<Rightarrow> bool" where
  "entry_fits lim e \<longleftrightarrow>
     string_fits (max_key_bytes lim) (wm_key e) \<and>
     (case wm_value e of
        Scalar v \<Rightarrow> scalar_fits lim (wm_type e) v
      | Tuple vs \<Rightarrow>
          int (length vs) \<le> max_array_elements lim \<and> int (length vs) < 2 ^ 64 \<and>
          (case wm_element e of None \<Rightarrow> False | Some et \<Rightarrow> list_all (scalar_fits lim et) vs))"

lemma value_type_of_id: "value_type_of (value_type_id vt) label = Inr vt"
  by (cases vt) (simp_all add: value_type_of_def all_value_types_def)

lemma reads_type_id:
  "reads (cur_uint Code_I) bo lim (pack_uint bo Code_I (int (value_type_id vt))) (value_type_id vt)"
proof -
  have "int (value_type_id vt) < 4294967296" by (cases vt) simp_all
  then show ?thesis using reads_u32 [of "int (value_type_id vt)" bo lim] by simp
qed

text \<open>The value part of an entry, with the element type an array declares before its length.\<close>

lemma reads_value_scalar:
  assumes "write_scalar bo vt v = Inr bs" and "scalar_fits lim vt v" and "vt \<noteq> VT_ARRAY"
  shows "reads (read_value vt) bo lim bs (Scalar v, None)"
  using readsD [OF reads_scalar [OF assms(1,2)]] assms(3) by (simp add: reads_def read_value_def)

lemma reads_value_array:
  assumes "mapM_r (write_scalar bo et) vs = Inr bss" and "list_all (scalar_fits lim et) vs"
    and "et \<noteq> VT_ARRAY" and "int (length vs) \<le> max_array_elements lim" and "int (length vs) < 2 ^ 64"
  shows "reads (read_value VT_ARRAY) bo lim
     (pack_uint bo Code_I (int (value_type_id et)) @ pack_uint bo Code_Q (int (length vs)) @ concat bss)
     (Tuple vs, Some et)"
proof -
  note t = readsD [OF reads_type_id [of bo lim et]]
  have "reads (cur_uint Code_Q) bo lim (pack_uint bo Code_Q (int (length vs))) (length vs)"
    using reads_u64 [of "int (length vs)" bo lim] assms(5) by simp
  note n = readsD [OF this]
  note vs = readsD [OF scalar_codec.reads_many [OF assms(1,2)]]
  show ?thesis
    using assms(3,4) by (simp add: reads_def read_value_def t n vs value_type_of_id)
qed

definition entry_view :: "write_metadata \<Rightarrow> pystr \<times> value_type \<times> gguf_value \<times> value_type option" where
  "entry_view e = (wm_key e, wm_type e, wm_value e, wm_element e)"

definition parsed_view :: "metadata_entry \<Rightarrow> pystr \<times> value_type \<times> gguf_value \<times> value_type option" where
  "parsed_view e = (me_key e, me_type e, me_value e, me_element e)"

lemma parse_written_entry:
  assumes w: "write_metadata_entry bo e = Inr bs" and fits: "entry_fits lim e"
    and fresh: "wm_key e \<notin> me_key ` set seen"
  shows "\<exists>m. parse_entry seen (cursor_at bo lim pre (bs @ post)) = Inr (m, cursor_at bo lim (pre @ bs) post)
      \<and> parsed_view m = entry_view e"
proof -
  from w obtain key where key: "write_string bo (wm_key e) = Inr key"
    by (auto simp: write_metadata_entry_def)
  from fits have kf: "string_fits (max_key_bytes lim) (wm_key e)" by (simp add: entry_fits_def)
  note k = readsD [OF reads_string [OF key kf]]
  note t = readsD [OF reads_type_id]
  have "\<exists>body. bs = key @ pack_uint bo Code_I (int (value_type_id (wm_type e))) @ body
      \<and> reads (read_value (wm_type e)) bo lim body (wm_value e, wm_element e)"
  proof (cases "wm_type e = VT_ARRAY")
    case True
    with w key obtain et vs bss where et: "wm_element e = Some et" "et \<noteq> VT_ARRAY"
      and vs: "wm_value e = Tuple vs" "mapM_r (write_scalar bo et) vs = Inr bss"
      and bs: "bs = key @ pack_uint bo Code_I (int (value_type_id (wm_type e)))
        @ pack_uint bo Code_I (int (value_type_id et)) @ pack_uint bo Code_Q (int (length vs)) @ concat bss"
      by (auto simp: write_metadata_entry_def Let_def split: option.splits gguf_value.splits)
    with fits have "list_all (scalar_fits lim et) vs" "int (length vs) \<le> max_array_elements lim"
      "int (length vs) < 2 ^ 64" by (simp_all add: entry_fits_def)
    from reads_value_array [OF vs(2) this(1) et(2) this(2,3)] bs et(1) vs(1) True show ?thesis by auto
  next
    case False
    with w key obtain v b where v: "wm_element e = None" "wm_value e = Scalar v"
      "write_scalar bo (wm_type e) v = Inr b"
      and bs: "bs = key @ pack_uint bo Code_I (int (value_type_id (wm_type e))) @ b"
      by (auto simp: write_metadata_entry_def Let_def split: option.splits gguf_value.splits)
    with fits have "scalar_fits lim (wm_type e) v" by (simp add: entry_fits_def)
    from reads_value_scalar [OF v(3) this False] bs v show ?thesis by auto
  qed
  then obtain body where bs: "bs = key @ pack_uint bo Code_I (int (value_type_id (wm_type e))) @ body"
    and body: "reads (read_value (wm_type e)) bo lim body (wm_value e, wm_element e)" by blast
  note b = readsD [OF body]
  show ?thesis
    using fresh by (simp add: parse_entry_def bs k t b value_type_of_id parsed_view_def entry_view_def)
qed

lemma parse_written_metadata:
  assumes "mapM_r (write_metadata_entry bo) es = Inr bss" and "list_all (entry_fits lim) es"
    and "distinct (map wm_key es)" and "wm_key ` set es \<inter> me_key ` set seen = {}"
  shows "\<exists>ms. parse_metadata (length es) seen (cursor_at bo lim pre (concat bss @ post))
        = Inr (seen @ ms, cursor_at bo lim (pre @ concat bss) post)
      \<and> map parsed_view ms = map entry_view es"
  using assms
proof (induction es arbitrary: bss seen pre)
  case Nil
  then show ?case by simp
next
  case (Cons e es)
  from Cons.prems(1) obtain b bs where b: "write_metadata_entry bo e = Inr b"
    "mapM_r (write_metadata_entry bo) es = Inr bs" "bss = b # bs" by auto
  from Cons.prems have "entry_fits lim e" "wm_key e \<notin> me_key ` set seen" by auto
  from parse_written_entry [OF b(1) this, of pre "concat bs @ post"] obtain m where
    m: "parse_entry seen (cursor_at bo lim pre (b @ concat bs @ post))
        = Inr (m, cursor_at bo lim (pre @ b) (concat bs @ post))"
    and view: "parsed_view m = entry_view e" by blast
  have key: "me_key m = wm_key e" using view by (simp add: parsed_view_def entry_view_def)
  have "wm_key ` set es \<inter> me_key ` set (seen @ [m]) = {}"
    using Cons.prems(3,4) key by auto
  from Cons.IH [OF b(2) _ _ this, of "pre @ b"] Cons.prems(2,3) obtain ms where
    "parse_metadata (length es) (seen @ [m]) (cursor_at bo lim (pre @ b) (concat bs @ post))
        = Inr ((seen @ [m]) @ ms, cursor_at bo lim ((pre @ b) @ concat bs) post)"
    "map parsed_view ms = map entry_view es" by auto
  with m view show ?case
    by (intro exI [of _ "m # ms"]) (simp add: b(3))
qed

section \<open>Tensor descriptors\<close>

definition tensor_fits :: "parser_limits \<Rightarrow> write_tensor \<Rightarrow> bool" where
  "tensor_fits lim t \<longleftrightarrow>
     string_fits (max_key_bytes lim) (wt_name t) \<and> int (length (wt_dimensions t)) \<le> max_dimensions lim
     \<and> int (length (wt_dimensions t)) < 2 ^ 32"

definition raw_view :: "raw_descriptor \<Rightarrow> pystr \<times> int list \<times> int \<times> int" where
  "raw_view d = (rd_name d, rd_dimensions d, int (rd_type_id d), rd_relative d)"

lemma dimension_bound:
  assumes "list_all (\<lambda>d. 0 < d) ds" and "d \<in> set ds"
  shows "d \<le> prod_list (ds :: int list)"
  using assms
proof (induction ds)
  case (Cons x xs)
  then have p: "0 < x" "0 < prod_list xs" by (simp_all add: prod_list_positive)
  have "x * 1 \<le> x * prod_list xs" "1 * prod_list xs \<le> x * prod_list xs"
    using p by (auto intro: mult_left_mono mult_right_mono)
  with Cons p show ?case by (auto intro: order_trans)
qed simp

lemma GGML_TYPE_IDS_get_bound:
  assumes "GGML_TYPE_IDS_get i = Some q"
  shows "0 \<le> i \<and> i < 4294967296 \<and> GGML_TYPE_IDS (nat i) = Some q"
proof -
  from assms have i: "0 \<le> i" "GGML_TYPE_IDS (nat i) = Some q"
    by (auto simp: GGML_TYPE_IDS_get_def simp del: GGML_TYPE_IDS.simps split: if_splits)
  then have "nat i < 31" by (auto split: if_splits)
  with i show ?thesis by simp
qed

lemma parse_written_descriptor:
  assumes w: "write_descriptor bo (t, off, n) = Inr bs" and fits: "tensor_fits lim t"
    and size: "gguf_tensor_byte_size q (wt_dimensions t) = Inr n"
    and id: "GGML_TYPE_IDS_get (wt_type_id t) = Some q"
    and off: "0 \<le> off" "off < 2 ^ 64"
    and fresh: "wt_name t \<notin> rd_name ` set seen"
  shows "\<exists>d. parse_descriptor seen (cursor_at bo lim pre (bs @ post)) = Inr (d, cursor_at bo lim (pre @ bs) post)
      \<and> raw_view d = (wt_name t, wt_dimensions t, wt_type_id t, off)"
proof -
  let ?dims = "wt_dimensions t"
  from w obtain name where name: "write_string bo (wt_name t) = Inr name"
    and bs: "bs = name @ pack_uint bo Code_I (int (length ?dims)) @ concat (map (pack_uint bo Code_Q) ?dims)
        @ pack_uint bo Code_I (wt_type_id t) @ pack_uint bo Code_Q off"
    by (auto simp: write_descriptor_def)
  from fits have nf: "string_fits (max_key_bytes lim) (wt_name t)"
    and rank: "int (length ?dims) \<le> max_dimensions lim" "int (length ?dims) < 4294967296"
    by (simp_all add: tensor_fits_def)
  have dims: "?dims \<noteq> []" "list_all (\<lambda>d. 0 < d) ?dims" "prod_list ?dims \<le> MAX_SIGNED_OFFSET"
    using gguf_tensor_byte_size_Inr [OF size] by simp_all
  then have small: "\<forall>d \<in> set ?dims. 0 < d \<and> d < 2 ^ 64"
    using dimension_bound [OF dims(2)] by (fastforce simp: list_all_iff MAX_SIGNED_OFFSET_def)
  have packed: "map (\<lambda>d. pack_uint bo Code_Q (int d)) (map nat ?dims) = map (pack_uint bo Code_Q) ?dims"
    and ints: "map int (map nat ?dims) = ?dims"
    using small by (auto simp: o_def intro!: map_idI)
  have "mapM_r (\<lambda>n. Inr (pack_uint bo Code_Q (int n)) :: unit + bytes) (map nat ?dims)
      = Inr (map (\<lambda>d. pack_uint bo Code_Q (int d)) (map nat ?dims))"
    by (simp only: mapM_r_Inr_iff) (simp add: list_all2_conv_all_nth)
  moreover have "list_all (\<lambda>n. int n < 2 ^ 64) (map nat ?dims)"
    using small by (fastforce simp: list_all_iff)
  ultimately have "reads (read_many (cur_uint Code_Q) (length (map nat ?dims))) bo lim
      (concat (map (\<lambda>d. pack_uint bo Code_Q (int d)) (map nat ?dims))) (map nat ?dims)"
    by (rule u64_codec.reads_many)
  then have "reads (read_many (cur_uint Code_Q) (length ?dims)) bo lim (concat (map (pack_uint bo Code_Q) ?dims))
      (map nat ?dims)"
    unfolding packed by simp
  note d = readsD [OF this]
  note k = readsD [OF reads_string [OF name nf]]
  have "reads (cur_uint Code_I) bo lim (pack_uint bo Code_I (int (length ?dims))) (length ?dims)"
    using reads_u32 [of "int (length ?dims)" bo lim] rank(2) by simp
  note r = readsD [OF this]
  note idb = GGML_TYPE_IDS_get_bound [OF id]
  have "reads (cur_uint Code_I) bo lim (pack_uint bo Code_I (wt_type_id t)) (nat (wt_type_id t))"
    using reads_u32 [of "wt_type_id t" bo lim] idb by simp
  note i = readsD [OF this]
  have "reads (cur_uint Code_Q) bo lim (pack_uint bo Code_Q off) (nat off)"
    using reads_u64 [of off bo lim] off by simp
  note o' = readsD [OF this]
  have one: "1 \<le> length ?dims" using dims(1) by (simp add: Suc_le_eq)
  show ?thesis
    using fresh rank(1) one idb off(1) ints
    by (simp add: parse_descriptor_def bs k r d i o' raw_view_def)
qed

lemma parse_written_descriptors:
  assumes "mapM_r (write_descriptor bo) raw = Inr bss" and "planned_from al rel raw end"
    and "\<not> bad_alignment al" and "0 \<le> rel" and "end < 2 ^ 64"
    and "list_all (tensor_fits lim) (map fst raw)" and "distinct (map (wt_name \<circ> fst) raw)"
    and "(wt_name \<circ> fst) ` set raw \<inter> rd_name ` set seen = {}"
  shows "\<exists>ds. parse_descriptors (length raw) seen (cursor_at bo lim pre (concat bss @ post))
        = Inr (seen @ ds, cursor_at bo lim (pre @ concat bss) post)
      \<and> map raw_view ds = map (\<lambda>(t, off, n). (wt_name t, wt_dimensions t, wt_type_id t, off)) raw"
  using assms
proof (induction raw arbitrary: bss seen pre rel)
  case Nil
  then show ?case by simp
next
  case (Cons p raw)
  obtain t off n where p: "p = (t, off, n)" by (cases p)
  from Cons.prems(1) obtain b bs where b: "write_descriptor bo (t, off, n) = Inr b"
    "mapM_r (write_descriptor bo) raw = Inr bs" "bss = b # bs" by (auto simp: p)
  from Cons.prems(2) obtain q where q: "GGML_TYPE_IDS_get (wt_type_id t) = Some q"
      "gguf_tensor_byte_size q (wt_dimensions t) = Inr n" and rest: "planned_from al (off + n) raw end"
    by (auto simp: p)
  have bnd: "rel \<le> off" "0 < n" "off + n \<le> end"
    using planned_from_bounds [OF Cons.prems(2,3)] by (auto simp: p)
  have fits: "tensor_fits lim t" and fresh: "wt_name t \<notin> rd_name ` set seen"
    using Cons.prems(6,8) by (auto simp: p)
  have "0 \<le> off" "off < 2 ^ 64" using bnd Cons.prems(4,5) by auto
  from parse_written_descriptor [OF b(1) fits q(2,1) this fresh, of pre "concat bs @ post"]
  obtain d where d: "parse_descriptor seen (cursor_at bo lim pre (b @ concat bs @ post))
        = Inr (d, cursor_at bo lim (pre @ b) (concat bs @ post))"
    and view: "raw_view d = (wt_name t, wt_dimensions t, wt_type_id t, off)" by blast
  have "rd_name d = wt_name t" using view by (simp add: raw_view_def)
  then have dis: "(wt_name \<circ> fst) ` set raw \<inter> rd_name ` set (seen @ [d]) = {}"
    using Cons.prems(7,8) by (auto simp: p)
  have "0 \<le> off + n" using \<open>0 \<le> off\<close> bnd(2) by simp
  from Cons.IH [OF b(2) rest Cons.prems(3) this Cons.prems(5) _ _ dis, of "pre @ b"] Cons.prems(6,7)
  obtain ds where
    "parse_descriptors (length raw) (seen @ [d]) (cursor_at bo lim (pre @ b) (concat bs @ post))
        = Inr ((seen @ [d]) @ ds, cursor_at bo lim ((pre @ b) @ concat bs) post)"
    "map raw_view ds = map (\<lambda>(t, off, n). (wt_name t, wt_dimensions t, wt_type_id t, off)) raw"
    by auto
  with d view show ?case by (intro exI [of _ "d # ds"]) (simp add: b(3) p)
qed

section \<open>The whole file\<close>

lemma parse_written_header:
  assumes "(version = 2 \<or> version = 3) \<and> \<not> (version = 2 \<and> bo = BIG)"
    and "16 \<le> length rest"
  shows "parse_header (MAGIC @ pack_uint bo Code_I version @ rest) = Inr (nat version, bo)"
proof -
  have m: "length MAGIC = 4" by (simp add: MAGIC_def)
  have s: "slice 4 4 (MAGIC @ pack_uint b Code_I v @ rest) = pack_uint b Code_I v" for b v
    using slice_append_exact [of MAGIC "pack_uint b Code_I v" rest] by (simp add: m)
  have d: "pack_uint LITTLE Code_I 2 \<noteq> pack_uint LITTLE Code_I 3"
    "pack_uint BIG Code_I 3 \<noteq> pack_uint LITTLE Code_I 2"
    "pack_uint BIG Code_I 3 \<noteq> pack_uint LITTLE Code_I 3"
    by code_simp+
  show ?thesis
    using assms d by (cases bo) (auto simp: parse_header_def s m Let_def rbind_raise_if MAGIC_def [symmetric, simplified])
qed

definition zeros :: "int \<Rightarrow> bytes" where
  "zeros n = replicate (nat n) 0"

text \<open>The written file: header, padding up to the data offset, then the tensor data region.\<close>

definition written_file :: "output_layout \<Rightarrow> bytes \<Rightarrow> bytes" where
  "written_file L body = ol_header L @ zeros (ol_data_offset L - int (length (ol_header L))) @ body"

definition quantization_declared :: "write_metadata list \<Rightarrow> write_tensor list \<Rightarrow> bool" where
  "quantization_declared es ts \<longleftrightarrow>
     list_all (\<lambda>t. case GGML_TYPE_IDS_get (wt_type_id t) of None \<Rightarrow> True
        | Some q \<Rightarrow> family (storage_layout q) = DENSE) ts
     \<or> (case find (\<lambda>e. wm_key e = lit ''general.quantization_version'') es of
          None \<Rightarrow> False | Some e \<Rightarrow> wm_type e = VT_UINT32)"

lemma find_by_view:
  assumes "map parsed_view ms = map entry_view es"
  shows "map_option parsed_view (find_entry ms k) = map_option entry_view (find (\<lambda>e. wm_key e = k) es)"
  using assms
proof (induction ms arbitrary: es)
  case Nil
  then show ?case by (simp add: find_entry_def)
next
  case (Cons m ms)
  then obtain e es' where es: "es = e # es'" "parsed_view m = entry_view e"
    "map parsed_view ms = map entry_view es'" by (cases es) auto
  have "me_key m = wm_key e" using es(2) by (simp add: parsed_view_def entry_view_def)
  with Cons.IH [OF es(3)] es show ?case by (simp add: find_entry_def)
qed

lemma parse_written_alignment:
  assumes v: "validated_metadata md al = Inr es" and views: "map parsed_view ms = map entry_view es"
    and fits: "list_all (entry_fits lim) es" and al: "\<not> bad_alignment al"
  shows "parse_alignment ms = Inr al"
proof -
  have "\<exists>e. find (\<lambda>e. wm_key e = lit ''general.alignment'') es = Some e
      \<and> wm_type e = VT_UINT32 \<and> py_eq_int (wm_value e) al"
  proof (cases "find (\<lambda>e. wm_key e = lit ''general.alignment'') md")
    case None
    with v have es: "es = md @ [\<lparr>wm_key = lit ''general.alignment'', wm_type = VT_UINT32,
        wm_value = Scalar (PInt al), wm_element = None\<rparr>]"
      by (auto simp: validated_metadata_def)
    have "find (\<lambda>e. wm_key e = lit ''general.alignment'') (md @ [x]) = Some x"
      if "wm_key x = lit ''general.alignment''" for x
      using None that by (induction md) (auto split: if_splits)
    then show ?thesis by (simp add: es py_eq_int_def)
  next
    case (Some e)
    with v show ?thesis by (auto simp: validated_metadata_def)
  qed
  then obtain e where e: "find (\<lambda>e. wm_key e = lit ''general.alignment'') es = Some e"
    "wm_type e = VT_UINT32" "py_eq_int (wm_value e) al" by blast
  then have "e \<in> set es" by (auto simp: find_Some_iff)
  with fits have "entry_fits lim e" by (simp add: list_all_iff)
  have "wm_value e = Scalar (PInt al)"
  proof (cases "wm_value e")
    case (Scalar v)
    with \<open>entry_fits lim e\<close> e(2,3) show ?thesis
      by (cases v) (auto simp: entry_fits_def scalar_fits_def py_eq_int_def)
  qed (use e(3) in \<open>simp add: py_eq_int_def\<close>)
  moreover obtain m where "find_entry ms (lit ''general.alignment'') = Some m" "parsed_view m = entry_view e"
    using find_by_view [OF views, of "lit ''general.alignment''"] e(1) by auto
  ultimately show ?thesis
    using e(2) al by (auto simp: parse_alignment_def parsed_view_def entry_view_def)
qed

text \<open>Placing the descriptors that were planned.\<close>

definition placed_view :: "tensor_descriptor \<Rightarrow> pystr \<times> int list \<times> int \<times> int \<times> int \<times> int" where
  "placed_view t = (td_name t, td_dimensions t, int (td_type_id t), td_relative t, td_offset t, td_bytes t)"

definition planned_view :: "int \<Rightarrow> write_tensor \<times> int \<times> int
    \<Rightarrow> pystr \<times> int list \<times> int \<times> int \<times> int \<times> int" where
  "planned_view base p =
     (case p of (t, off, n) \<Rightarrow> (wt_name t, wt_dimensions t, wt_type_id t, off, base + off, n))"

lemma place_planned:
  assumes "planned_from al rel raw end" and "\<not> bad_alignment al" and "0 \<le> rel"
    and "map raw_view ds = map (\<lambda>(t, off, n). (wt_name t, wt_dimensions t, wt_type_id t, off)) raw"
    and "0 \<le> base" and "base + end \<le> MAX_SIGNED_OFFSET" and "base + end \<le> int fsz"
  shows "\<exists>ts. mapM_r (place_tensor fsz al base) ds = Inr ts
      \<and> map placed_view ts = map (planned_view base) raw
      \<and> check_no_overlap ts = Inr () \<and> sorted (map (\<lambda>t. (td_offset t, td_name t)) ts)
      \<and> (\<forall>t \<in> set ts. base + rel \<le> td_offset t)
      \<and> (\<forall>t \<in> set ts. \<exists>w \<in> set (map fst raw). GGML_TYPE_IDS_get (wt_type_id w) = Some (td_quant t))"
  using assms
proof (induction raw arbitrary: rel ds)
  case Nil
  then show ?case by simp
next
  case (Cons p raw)
  obtain t off n where p: "p = (t, off, n)" by (cases p)
  from Cons.prems(1) obtain q where q: "GGML_TYPE_IDS_get (wt_type_id t) = Some q"
      "gguf_tensor_byte_size q (wt_dimensions t) = Inr n" and rest: "planned_from al (off + n) raw end"
    by (auto simp: p)
  have bnd: "rel \<le> off" "off mod al = 0" "0 < n" "off + n \<le> end"
    using planned_from_bounds [OF Cons.prems(1,2)] by (auto simp: p)
  from Cons.prems(4) obtain d ds' where ds: "ds = d # ds'"
    and d: "raw_view d = (wt_name t, wt_dimensions t, wt_type_id t, off)"
    and ds': "map raw_view ds' = map (\<lambda>(t, off, n). (wt_name t, wt_dimensions t, wt_type_id t, off)) raw"
    by (auto simp: p)
  have "rd_type_id d = nat (wt_type_id t)" using d by (auto simp: raw_view_def)
  then have id: "GGML_TYPE_IDS (rd_type_id d) = Some q"
    using GGML_TYPE_IDS_get_bound [OF q(1)] by (simp del: GGML_TYPE_IDS.simps)
  obtain x where x: "place_tensor fsz al base d = Inr x" "placed_view x = planned_view base (t, off, n)"
      "td_quant x = q"
    using id d q(2) bnd Cons.prems(3,5,6,7)
    by (auto simp: place_tensor_def raw_view_def Let_def placed_view_def planned_view_def raise_if_def
        simp del: GGML_TYPE_IDS.simps)
  have xo: "td_offset x = base + off" "td_bytes x = n"
    using x(2) by (simp_all add: placed_view_def planned_view_def)
  have "0 \<le> off + n" using bnd Cons.prems(3) by simp
  from Cons.IH [OF rest Cons.prems(2) this ds' Cons.prems(5,6,7)] obtain ts where
    ts: "mapM_r (place_tensor fsz al base) ds' = Inr ts" "map placed_view ts = map (planned_view base) raw"
      "check_no_overlap ts = Inr ()" "sorted (map (\<lambda>t. (td_offset t, td_name t)) ts)"
      "\<forall>t \<in> set ts. base + (off + n) \<le> td_offset t"
      "\<forall>t \<in> set ts. \<exists>w \<in> set (map fst raw). GGML_TYPE_IDS_get (wt_type_id w) = Some (td_quant t)"
    by blast
  have "check_no_overlap (x # ts) = Inr ()"
    using ts(3,5) xo by (cases ts) (auto simp: data_end_def)
  moreover have "sorted (map (\<lambda>t. (td_offset t, td_name t)) (x # ts))"
    using ts(4,5) xo bnd(3) by (auto simp: less_eq_prod_def)
  moreover have "\<forall>t \<in> set (x # ts). base + rel \<le> td_offset t"
    using ts(5) xo bnd by fastforce
  moreover have "\<forall>t \<in> set (x # ts). \<exists>w \<in> set (map fst ((t', off', n') # raw)).
      GGML_TYPE_IDS_get (wt_type_id w) = Some (td_quant t)" if "(t', off', n') = p" for t' off' n'
    using ts(6) x(3) q(1) that p by auto
  ultimately show ?case
    using ts(1,2) x(1,2) ds p by (intro exI [of _ "x # ts"]) simp
qed

lemma bad_alignment_pos: "\<not> bad_alignment a \<Longrightarrow> 8 \<le> a \<and> a \<le> 1048576"
  by (simp add: bad_alignment_def)

lemma align_offset_writer:
  assumes "\<not> bad_alignment al" and "0 \<le> v" and "v \<le> MAX_SIGNED_OFFSET - al"
  shows "align_offset v al = Inr (writer_align v al)"
  using assms bad_alignment_pos [OF assms(1)] by (simp add: align_offset_def writer_align_def raise_if_def)

text \<open>The limits the parser is opened with, on the entries and tensors of the plan.\<close>

definition plan_fits :: "parser_limits \<Rightarrow> write_metadata list \<Rightarrow> write_tensor list \<Rightarrow> bool" where
  "plan_fits lim es ts \<longleftrightarrow>
     int (length ts) \<le> max_tensors lim \<and> int (length ts) < 2 ^ 64
     \<and> int (length es) \<le> max_metadata_entries lim \<and> int (length es) < 2 ^ 64
     \<and> list_all (entry_fits lim) es \<and> list_all (tensor_fits lim) ts"

lemma validated_distinct:
  assumes "validated_metadata md al = Inr es"
  shows "distinct (map wm_key es)"
  using assms by (fastforce simp: validated_metadata_def find_None_iff split: option.splits)

lemma parse_written_file:
  assumes plan: "plan_gguf_output md ts version bo al = Inr L"
    and es: "validated_metadata md al = Inr es"
    and fits: "plan_fits lim es ts"
    and quant: "quantization_declared es ts"
    and body: "int (length body) = ol_total L - ol_data_offset L"
    and total: "ol_total L + al \<le> MAX_SIGNED_OFFSET"
  shows "\<exists>c raw. parse_gguf lim (written_file L body) = Inr c
    \<and> gc_version c = nat version \<and> gc_byte_order c = bo \<and> gc_alignment c = al
    \<and> gc_data_offset c = ol_data_offset L \<and> int (gc_file_size c) = ol_total L
    \<and> map parsed_view (gc_metadata c) = map entry_view es
    \<and> plan_offsets al 0 ts = Inr raw
    \<and> map placed_view (gc_tensors c) = map (planned_view (ol_data_offset L)) (fst raw)"
proof -
  from plan es obtain encoded raw rel descs where
    ver: "(version = 2 \<or> version = 3) \<and> \<not> (version = 2 \<and> bo = BIG)"
    and al: "\<not> bad_alignment al" and names: "distinct (map wt_name ts)"
    and enc: "mapM_r (write_metadata_entry bo) es = Inr encoded"
    and offs: "plan_offsets al 0 ts = Inr (raw, rel)"
    and dsc: "mapM_r (write_descriptor bo) raw = Inr descs"
    and L: "ol_header L = MAGIC @ pack_uint bo Code_I version @ pack_uint bo Code_Q (int (length ts))
        @ pack_uint bo Code_Q (int (length es)) @ concat encoded @ concat descs"
      "ol_data_offset L = writer_align (int (length (ol_header L))) al"
      "ol_total L = (if ts \<noteq> [] then ol_data_offset L + rel else ol_data_offset L)"
    by (auto simp: plan_gguf_output_def Let_def)
  define base where "base = ol_data_offset L"
  have raw: "planned_from al 0 raw rel" "map fst raw = ts" using plan_offsets_planned [OF offs] by simp_all
  then have len: "length raw = length ts" using length_map [of fst raw] by simp
  have rel: "0 \<le> rel" using planned_from_bounds [OF raw(1) al] by simp
  have total': "ol_total L = base + rel"
    using L(3) raw by (auto simp: base_def)
  have base: "int (length (ol_header L)) \<le> base" using writer_align_props(1) [OF al] L(2) by (simp add: base_def)
  have max: "base + rel + al \<le> MAX_SIGNED_OFFSET" using total total' by simp
  have al8: "8 \<le> al" using bad_alignment_pos [OF al] by simp
  let ?file = "written_file L body"
  let ?pre = "MAGIC @ pack_uint bo Code_I version"
  let ?tail = "zeros (base - int (length (ol_header L))) @ body"
  have flen: "int (length ?file) = base + rel"
    using base body total' by (simp add: written_file_def zeros_def base_def)
  have split_file: "?file = ?pre @ pack_uint bo Code_Q (int (length ts)) @ pack_uint bo Code_Q (int (length es))
      @ concat encoded @ concat descs @ ?tail"
    by (simp add: written_file_def L(1) base_def)
  have hdr: "parse_header ?file = Inr (nat version, bo)"
    using parse_written_header [OF ver, of "pack_uint bo Code_Q (int (length ts))
        @ pack_uint bo Code_Q (int (length es)) @ concat encoded @ concat descs @ ?tail"]
    by (simp add: split_file)
  have lims: "int (length ts) \<le> max_tensors lim" "int (length ts) < 18446744073709551616"
    "int (length es) \<le> max_metadata_entries lim" "int (length es) < 18446744073709551616"
    "list_all (entry_fits lim) es" "list_all (tensor_fits lim) ts"
    using fits by (simp_all add: plan_fits_def)
  have "length ?pre = 8" by (simp add: MAGIC_def)
  then have start: "\<lparr>cur_map = ?file, cur_order = bo, cur_limits = lim, cur_off = 8\<rparr>
      = cursor_at bo lim ?pre (pack_uint bo Code_Q (int (length ts))
          @ pack_uint bo Code_Q (int (length es)) @ concat encoded @ concat descs @ ?tail)"
    by (simp add: cursor_at_def split_file)
  have tc: "reads (cur_uint Code_Q) bo lim (pack_uint bo Code_Q (int (length ts))) (length ts)"
    using reads_u64 [of "int (length ts)" bo lim] lims(2) by simp
  have mc: "reads (cur_uint Code_Q) bo lim (pack_uint bo Code_Q (int (length es))) (length es)"
    using reads_u64 [of "int (length es)" bo lim] lims(4) by simp
  let ?pre2 = "?pre @ pack_uint bo Code_Q (int (length ts)) @ pack_uint bo Code_Q (int (length es))"
  obtain ms where ms: "parse_metadata (length es) [] (cursor_at bo lim ?pre2 (concat encoded @ concat descs @ ?tail))
      = Inr (ms, cursor_at bo lim (?pre2 @ concat encoded) (concat descs @ ?tail))"
    "map parsed_view ms = map entry_view es"
    using parse_written_metadata [OF enc lims(5) validated_distinct [OF es], of "[]" ?pre2 "concat descs @ ?tail"]
    by auto
  have "rel < 2 ^ 64" using max base al8 by (auto simp: MAX_SIGNED_OFFSET_def)
  moreover have "list_all (tensor_fits lim) (map fst raw)" "distinct (map (wt_name \<circ> fst) raw)"
    using lims(6) names raw(2) by (simp_all flip: map_map)
  ultimately obtain ds where
    ds: "parse_descriptors (length ts) [] (cursor_at bo lim (?pre2 @ concat encoded) (concat descs @ ?tail))
        = Inr (ds, cursor_at bo lim ((?pre2 @ concat encoded) @ concat descs) ?tail)"
      "map raw_view ds = map (\<lambda>(t, off, n). (wt_name t, wt_dimensions t, wt_type_id t, off)) raw"
    using parse_written_descriptors [OF dsc raw(1) al order_refl, of lim "[]" "?pre2 @ concat encoded" ?tail] len
    by auto
  have align: "parse_alignment ms = Inr al" by (rule parse_written_alignment [OF es ms(2) lims(5) al])
  have hoff: "length ((?pre2 @ concat encoded) @ concat descs) = length (ol_header L)" by (simp add: L(1))
  have aoff: "align_offset (int (length (ol_header L))) al = Inr base"
    unfolding base_def L(2) using max base rel
    by (intro align_offset_writer [OF al]) (simp_all flip: L(2) base_def)
  have "0 \<le> base" using base by linarith
  moreover have "base + rel \<le> MAX_SIGNED_OFFSET" "base + rel \<le> int (length ?file)" using max al8 flen by auto
  ultimately obtain tds where tds: "mapM_r (place_tensor (length ?file) al base) ds = Inr tds"
      "map placed_view tds = map (planned_view base) raw" "check_no_overlap tds = Inr ()"
      "sorted (map (\<lambda>t. (td_offset t, td_name t)) tds)"
      "\<forall>t \<in> set tds. \<exists>w \<in> set ts. GGML_TYPE_IDS_get (wt_type_id w) = Some (td_quant t)"
    using place_planned [OF raw(1) al order_refl ds(2), of base "length ?file"] raw(2) by auto
  have quant': "check_quantization_version ms tds = Inr ()"
  proof (cases "list_ex is_quantized tds")
    case True
    then obtain t where t: "t \<in> set tds" "is_quantized t" by (auto simp: list_ex_iff)
    with tds(5) obtain w where "w \<in> set ts" "GGML_TYPE_IDS_get (wt_type_id w) = Some (td_quant t)" by blast
    with t(2) quant obtain e where
      "find (\<lambda>e. wm_key e = lit ''general.quantization_version'') es = Some e" "wm_type e = VT_UINT32"
      by (auto simp: quantization_declared_def list_all_iff is_quantized_def split: option.splits)
    with find_by_view [OF ms(2), of "lit ''general.quantization_version''"] show ?thesis
      by (auto simp: check_quantization_version_def parsed_view_def entry_view_def)
  qed (simp add: check_quantization_version_def)
  let ?c = "\<lparr>gc_file_size = length ?file, gc_version = nat version, gc_byte_order = bo,
          gc_alignment = al, gc_data_offset = base, gc_metadata = ms, gc_tensors = tds\<rparr>"
  define p1 p2 p3 p4 where "p1 = ?pre @ pack_uint bo Code_Q (int (length ts))" and "p2 = ?pre2"
    and "p3 = ?pre2 @ concat encoded" and "p4 = (?pre2 @ concat encoded) @ concat descs"
  define r3 r2 r1 r0 where "r3 = concat descs @ ?tail" and "r2 = concat encoded @ concat descs @ ?tail"
    and "r1 = pack_uint bo Code_Q (int (length es)) @ concat encoded @ concat descs @ ?tail"
    and "r0 = pack_uint bo Code_Q (int (length ts)) @ r1"
  have s0: "\<lparr>cur_map = ?file, cur_order = bo, cur_limits = lim, cur_off = 8\<rparr> = cursor_at bo lim ?pre r0"
    unfolding r0_def r1_def by (rule start)
  have s1: "cur_uint Code_Q (cursor_at bo lim ?pre r0) = Inr (length ts, cursor_at bo lim p1 r1)"
    unfolding r0_def p1_def using readsD [OF tc, of ?pre r1] by simp
  have s2: "cur_uint Code_Q (cursor_at bo lim p1 r1) = Inr (length es, cursor_at bo lim p2 r2)"
    unfolding r1_def r2_def p1_def p2_def
    using readsD [OF mc, of "?pre @ pack_uint bo Code_Q (int (length ts))"] by simp
  have s3: "parse_metadata (length es) [] (cursor_at bo lim p2 r2) = Inr (ms, cursor_at bo lim p3 r3)"
    unfolding p2_def p3_def r2_def r3_def by (rule ms(1))
  have s4: "parse_descriptors (length ts) [] (cursor_at bo lim p3 r3) = Inr (ds, cursor_at bo lim p4 ?tail)"
    unfolding p3_def p4_def r3_def by (rule ds(1))
  have hoff: "length p4 = length (ol_header L)" unfolding p4_def by (rule hoff)
  have "parse_gguf lim ?file = Inr ?c"
    using lims(1,3) flen rel
    by (simp add: parse_gguf_def hdr s0 s1 s2 s3 s4 align hoff aoff tds(1,3) quant'
        sort_key_id_if_sorted [OF tds(4)] del: append_assoc)
  then show ?thesis
    using tds(2) ms(2) offs flen total' by (intro exI [of _ ?c] exI [of _ "(raw, rel)"]) (simp add: base_def)
qed


section \<open>A concrete file\<close>

definition demo_metadata :: "write_metadata list" where
  "demo_metadata =
     [\<lparr>wm_key = lit ''general.quantization_version'', wm_type = VT_UINT32, wm_value = Scalar (PInt 2),
       wm_element = None\<rparr>,
      \<lparr>wm_key = lit ''tokens'', wm_type = VT_ARRAY,
       wm_value = Tuple [PStr (lit ''a''), PStr [233, 8364]], wm_element = Some VT_STRING\<rparr>]"

definition demo_tensors :: "write_tensor list" where
  "demo_tensors =
     [\<lparr>wt_name = lit ''w'', wt_dimensions = [32, 2], wt_type_id = 8, wt_chunks = [zeros 40, zeros 28]\<rparr>,
      \<lparr>wt_name = lit ''b'', wt_dimensions = [3], wt_type_id = 0, wt_chunks = [zeros 12]\<rparr>]"

lemma demo_plan:
  "\<exists>L. plan_gguf_output demo_metadata demo_tensors 3 LITTLE 32 = Inr L
     \<and> ol_total L = 364 \<and> ol_data_offset L = 256
     \<and> map pt_offset (ol_tensors L) = [256, 352] \<and> map pt_bytes (ol_tensors L) = [68, 12]"
proof -
  have "case plan_gguf_output demo_metadata demo_tensors 3 LITTLE 32 of Inl _ \<Rightarrow> False
    | Inr L \<Rightarrow> ol_total L = 364 \<and> ol_data_offset L = 256
     \<and> map pt_offset (ol_tensors L) = [256, 352] \<and> map pt_bytes (ol_tensors L) = [68, 12]"
    by code_simp
  then show ?thesis by (auto split: sum.splits)
qed

lemma demo_fits:
  "\<exists>es. validated_metadata demo_metadata 32 = Inr es \<and> plan_fits default_limits es demo_tensors
     \<and> quantization_declared es demo_tensors"
proof -
  have "case validated_metadata demo_metadata 32 of Inl _ \<Rightarrow> False
    | Inr es \<Rightarrow> plan_fits default_limits es demo_tensors \<and> quantization_declared es demo_tensors"
    by code_simp
  then show ?thesis by (auto split: sum.splits)
qed


theorem parsed_tensors_safe_witness:
  "\<exists>L c. plan_gguf_output demo_metadata demo_tensors 3 LITTLE 32 = Inr L
     \<and> parse_gguf default_limits (written_file L (zeros 108)) = Inr c
     \<and> distinct (map td_name (gc_tensors c)) \<and> gc_data_offset c = 256"
proof -
  obtain L where L: "plan_gguf_output demo_metadata demo_tensors 3 LITTLE 32 = Inr L"
    "ol_total L = 364" "ol_data_offset L = 256" using demo_plan by blast
  obtain es where es: "validated_metadata demo_metadata 32 = Inr es"
    "plan_fits default_limits es demo_tensors" "quantization_declared es demo_tensors"
    using demo_fits by blast
  have "int (length (zeros 108)) = ol_total L - ol_data_offset L"
    "ol_total L + 32 \<le> MAX_SIGNED_OFFSET"
    using L by (simp_all add: zeros_def MAX_SIGNED_OFFSET_def)
  from parse_written_file [OF L(1) es this] L obtain c where
    c: "parse_gguf default_limits (written_file L (zeros 108)) = Inr c" "gc_data_offset c = 256" by auto
  from parsed_tensors_safe [OF c(1)] c L show ?thesis by blast
qed

end
