(* ===== verification/GgufDisk.thy ===== *)
theory GgufDisk
  imports Prelude "HOL-Library.List_Lexorder" "HOL-Library.Char_ord" "HOL-Library.Product_Lexorder"
begin

text \<open>
  \<open>adapters/gguf/disk.py\<close>: the disk preflight of the GGUF writers. A resolved path is the list of its
  components (\<open>[]\<close> is the root); which paths exist and what the operating system reports of a file
  system are the arguments \<open>ex\<close> and \<open>probe\<close> of the operations that ask for them.
\<close>

type_synonym path = "string list"

datatype disk_error = DiskValueError string | GGUFDiskSpaceError string

definition check_bytes :: "bool \<Rightarrow> int \<Rightarrow> disk_error + unit" where
  "check_bytes positive v = raise_if (v < (if positive then 1 else 0)) (DiskValueError ''byte count'')"

record disk_estimate =
  de_output :: int
  de_scratch :: int
  de_alignment :: int
  de_margin :: int

definition disk_estimate_init :: "disk_estimate \<Rightarrow> disk_error + disk_estimate" where
  "disk_estimate_init e =
     rbind (check_bytes False (de_output e)) (\<lambda>_.
     rbind (check_bytes False (de_scratch e)) (\<lambda>_.
     rbind (check_bytes True (de_alignment e)) (\<lambda>_.
     rbind (check_bytes False (de_margin e)) (\<lambda>_.
     rbind (raise_if (de_alignment e AND (de_alignment e - 1) \<noteq> 0)
              (DiskValueError ''alignment must be a power of two'')) (\<lambda>_.
     Inr e)))))"

definition aligned_output_bytes :: "disk_estimate \<Rightarrow> int" where
  "aligned_output_bytes e =
     (let mask = de_alignment e - 1 in (de_output e + mask) AND NOT mask)"

definition alignment_padding_bytes :: "disk_estimate \<Rightarrow> int" where
  "alignment_padding_bytes e = aligned_output_bytes e - de_output e"

record disk_probe =
  dp_device :: string
  dp_free :: int

definition disk_probe_init :: "disk_probe \<Rightarrow> disk_error + disk_probe" where
  "disk_probe_init p =
     rbind (raise_if (dp_device p = []) (DiskValueError ''disk device identity cannot be empty'')) (\<lambda>_.
     rbind (check_bytes False (dp_free p)) (\<lambda>_. Inr p))"

record fs_requirement =
  fr_device :: string
  fr_path :: path
  fr_required :: int
  fr_free :: int

record disk_plan =
  pl_output :: path
  pl_scratch :: path
  pl_estimate :: disk_estimate
  pl_filesystems :: "fs_requirement list"

definition path_parent :: "path \<Rightarrow> path" where
  "path_parent p = butlast p"

text \<open>The \<open>while not candidate.exists()\<close> loop: it climbs one component per turn.\<close>

function existing_path :: "(path \<Rightarrow> bool) \<Rightarrow> path \<Rightarrow> disk_error + path" where
  "existing_path ex p =
     (if ex p then Inr p
      else if path_parent p = p then Inl (GGUFDiskSpaceError ''no existing parent for disk target'')
      else existing_path ex (path_parent p))"
  by pat_completeness auto
termination
proof (relation "measure (\<lambda>(ex, p). length p)")
  fix ex :: "path \<Rightarrow> bool" and p
  assume "path_parent p \<noteq> p"
  then show "((ex, path_parent p), (ex, p)) \<in> measure (\<lambda>(ex, p). length p)"
    by (cases p) (simp_all add: path_parent_def)
qed simp

declare existing_path.simps [simp del]

text \<open>The dictionary \<open>grouped\<close>, from device to (path, required, free), in insertion order.\<close>

type_synonym grouped = "(string \<times> path \<times> int \<times> int) list"

definition group_target :: "grouped \<Rightarrow> path \<Rightarrow> int \<Rightarrow> disk_probe \<Rightarrow> grouped" where
  "group_target g p required disk =
     (case map_of g (dp_device disk) of
        Some (first_path, existing_required, existing_free) \<Rightarrow>
          map (\<lambda>(d, x). if d = dp_device disk
                 then (d, first_path, existing_required + required, min existing_free (dp_free disk))
                 else (d, x)) g
      | None \<Rightarrow> g @ [(dp_device disk, p, required, dp_free disk)])"

definition requirements ::
  "(path \<Rightarrow> bool) \<Rightarrow> (path \<Rightarrow> disk_error + disk_probe) \<Rightarrow> path \<Rightarrow> path \<Rightarrow> int \<Rightarrow> int \<Rightarrow> int
     \<Rightarrow> disk_error + fs_requirement list" where
  "requirements ex probe output scratch output_bytes scratch_bytes margin =
     rbind (foldM_r (\<lambda>g (p, required).
              rbind (existing_path ex p) (\<lambda>e.
              rbind (probe e) (\<lambda>disk. Inr (group_target g p required disk)))) []
              [(path_parent output, output_bytes), (scratch, scratch_bytes)]) (\<lambda>g.
     Inr (map (\<lambda>(d, p, required, free).
                \<lparr>fr_device = d, fr_path = p, fr_required = required + margin, fr_free = free\<rparr>)
              (sort_key fst g)))"

definition assert_capacity :: "fs_requirement list \<Rightarrow> disk_error + unit" where
  "assert_capacity rs =
     raise_if (list_ex (\<lambda>r. fr_free r < fr_required r) rs)
       (GGUFDiskSpaceError ''insufficient GGUF output/scratch space'')"

definition preflight_gguf_disk ::
  "(path \<Rightarrow> bool) \<Rightarrow> (path \<Rightarrow> disk_error + disk_probe) \<Rightarrow> path \<Rightarrow> path \<Rightarrow> disk_estimate
     \<Rightarrow> disk_error + disk_plan" where
  "preflight_gguf_disk ex probe output scratch e =
     rbind (requirements ex probe output scratch (aligned_output_bytes e) (de_scratch e) (de_margin e))
       (\<lambda>rs. rbind (assert_capacity rs) (\<lambda>_.
     Inr \<lparr>pl_output = output, pl_scratch = scratch, pl_estimate = e, pl_filesystems = rs\<rparr>))"

definition monitor_gguf_disk ::
  "(path \<Rightarrow> bool) \<Rightarrow> (path \<Rightarrow> disk_error + disk_probe) \<Rightarrow> disk_plan \<Rightarrow> int \<Rightarrow> int
     \<Rightarrow> disk_error + fs_requirement list" where
  "monitor_gguf_disk ex probe plan output_remaining scratch_remaining =
     rbind (check_bytes False output_remaining) (\<lambda>_.
     rbind (check_bytes False scratch_remaining) (\<lambda>_.
     rbind (requirements ex probe (pl_output plan) (pl_scratch plan) output_remaining scratch_remaining
              (de_margin (pl_estimate plan))) (\<lambda>rs.
     rbind (assert_capacity rs) (\<lambda>_. Inr rs))))"

section \<open>Lemmas\<close>

lemma existing_path_Inr:
  "existing_path ex p = Inr q \<Longrightarrow> ex q \<and> (\<exists>k. q = take k p)"
proof (induction ex p rule: existing_path.induct)
  case (1 ex p)
  show ?case
  proof (cases "ex p")
    case True
    with 1(2) show ?thesis by (auto simp: existing_path.simps [of ex p] intro: exI [of _ "length p"])
  next
    case False
    with 1(2) have ne: "path_parent p \<noteq> p" and "existing_path ex (path_parent p) = Inr q"
      by (auto simp: existing_path.simps [of ex p] split: if_splits)
    with 1(1) [OF False ne] obtain k where "ex q" "q = take k (path_parent p)" by blast
    then show ?thesis by (auto simp: path_parent_def butlast_conv_take min_def)
  qed
qed

lemma aligned_output_exact:
  assumes "disk_estimate_init e = Inr e'"
  shows "de_output e \<le> aligned_output_bytes e
    \<and> aligned_output_bytes e < de_output e + de_alignment e
    \<and> aligned_output_bytes e mod de_alignment e = 0"
proof -
  from assms have a: "0 < de_alignment e" "de_alignment e AND (de_alignment e - 1) = 0"
    by (auto simp: disk_estimate_init_def check_bytes_def)
  from and_pred_power2 [OF a] obtain k where k: "de_alignment e = 2 ^ k" by blast
  have "NOT ((2::int) ^ k - 1) = - (2 ^ k)" by (simp add: not_int_def)
  then have d: "aligned_output_bytes e = (de_output e + 2 ^ k - 1) div 2 ^ k * 2 ^ k"
    by (simp add: aligned_output_bytes_def k int_and_minus_power2 algebra_simps)
  define r where "r = (de_output e + 2 ^ k - 1) mod 2 ^ k"
  have "aligned_output_bytes e + r = de_output e + 2 ^ k - 1"
    unfolding d r_def by (rule div_mult_mod_eq)
  moreover have "0 \<le> r" "r < 2 ^ k" by (simp_all add: r_def)
  moreover have "aligned_output_bytes e mod 2 ^ k = 0" by (simp add: d)
  ultimately show ?thesis unfolding k by auto
qed

text \<open>
  A successful preflight leaves room for everything on every file system: when output and
  scratch are on one device the sum of both needs and the margin fits in what the device reported
  free, and on two devices each need fits with the margin on its own.
\<close>
theorem preflight_capacity:
  assumes "preflight_gguf_disk ex probe output scratch e = Inr plan"
  shows "\<exists>p q d1 d2. existing_path ex (path_parent output) = Inr p \<and> existing_path ex scratch = Inr q
    \<and> probe p = Inr d1 \<and> probe q = Inr d2
    \<and> (if dp_device d1 = dp_device d2
       then aligned_output_bytes e + de_scratch e + de_margin e \<le> min (dp_free d1) (dp_free d2)
       else aligned_output_bytes e + de_margin e \<le> dp_free d1 \<and> de_scratch e + de_margin e \<le> dp_free d2)"
proof -
  let ?g = "\<lambda>d1 d2. group_target (group_target [] (path_parent output) (aligned_output_bytes e) d1)
      scratch (de_scratch e) d2"
  from assms obtain p q d1 d2 where e: "existing_path ex (path_parent output) = Inr p"
      "existing_path ex scratch = Inr q" "probe p = Inr d1" "probe q = Inr d2"
    and cap: "assert_capacity (map (\<lambda>(d, p, required, free).
        \<lparr>fr_device = d, fr_path = p, fr_required = required + de_margin e, fr_free = free\<rparr>)
        (sort_key fst (?g d1 d2))) = Inr ()"
    by (auto simp: preflight_gguf_disk_def requirements_def)
  have "if dp_device d1 = dp_device d2
       then aligned_output_bytes e + de_scratch e + de_margin e \<le> min (dp_free d1) (dp_free d2)
       else aligned_output_bytes e + de_margin e \<le> dp_free d1 \<and> de_scratch e + de_margin e \<le> dp_free d2"
    using cap by (auto simp: group_target_def assert_capacity_def not_less split: if_splits)
  with e show ?thesis by blast
qed

theorem preflight_capacity_witness:
  "\<exists>plan. preflight_gguf_disk (\<lambda>p. p = []) (\<lambda>_. Inr \<lparr>dp_device = ''d'', dp_free = 100\<rparr>)
      [''out'', ''m.gguf''] [''tmp''] \<lparr>de_output = 33, de_scratch = 10, de_alignment = 32, de_margin = 5\<rparr>
      = Inr plan \<and> (64 + 10 + 5 :: int) \<le> 100"
proof -
  let ?e = "\<lparr>de_output = 33, de_scratch = 10, de_alignment = 32, de_margin = 5\<rparr>"
  let ?pf = "preflight_gguf_disk (\<lambda>p. p = []) (\<lambda>_. Inr \<lparr>dp_device = ''d'', dp_free = 100\<rparr>)
      [''out'', ''m.gguf''] [''tmp''] ?e"
  have a: "aligned_output_bytes ?e = 64" by (simp add: aligned_output_bytes_def)
  have "\<exists>plan. ?pf = Inr plan"
    by (simp add: preflight_gguf_disk_def requirements_def a existing_path.simps path_parent_def
        group_target_def assert_capacity_def)
  then obtain plan where plan: "?pf = Inr plan" by blast
  from preflight_capacity [OF plan] a have "(64 + 10 + 5 :: int) \<le> 100" by auto
  with plan show ?thesis by blast
qed

end
