(* ===== verification/GgufReader.thy ===== *)
theory GgufReader
  imports GgufContainer
begin

text \<open>
  \<open>adapters/gguf/tensor_reader.py\<close> and \<open>adapters/gguf/direct_copy.py\<close>: tensor handles over a parsed
  container, bounded reads of their payload, the block-wise chunk iterator and the byte-for-byte copy
  source of the writer. The iterator is modelled by the list of all chunks it yields.
\<close>

datatype read_error =
    TensorReadError
  | UnknownTensor
  | StaleHandle
  | TensorBounds
  | ReadLimit
  | ReadLimitsValue
  | ZeroDivision
  | MappingError gguf_error

section \<open>Handles and the index\<close>

text \<open>The string \<open>gguf:path:size:version:data_offset\<close> is kept as the tuple of its parts.\<close>

type_synonym source_key = "pystr \<times> nat \<times> nat \<times> int"

record tensor_handle =
  th_source :: source_key
  th_ordinal :: int
  th_name :: pystr
  th_dimensions :: "int list"
  th_quant :: ggml_type
  th_bytes :: int
  th_block_bytes :: int
  th_block_values :: int

definition handle_block_count :: "tensor_handle \<Rightarrow> read_error + int" where
  "handle_block_count h =
     (if th_block_bytes h = 0 then Inl ZeroDivision else Inr (th_bytes h div th_block_bytes h))"

record tensor_index =
  ix_source :: source_key
  ix_tensors :: "tensor_handle list"
  ix_by_name :: "pystr \<Rightarrow> tensor_handle option"

definition index_tensor :: "tensor_index \<Rightarrow> pystr \<Rightarrow> read_error + tensor_handle" where
  "index_tensor ix name = of_option UnknownTensor (ix_by_name ix name)"

definition source_key_of :: "pystr \<Rightarrow> gguf_container \<Rightarrow> source_key" where
  "source_key_of path c = (path, gc_file_size c, gc_version c, gc_data_offset c)"

definition handle_of :: "source_key \<Rightarrow> nat \<Rightarrow> tensor_descriptor \<Rightarrow> tensor_handle" where
  "handle_of key ordinal t =
     \<lparr>th_source = key, th_ordinal = int ordinal, th_name = td_name t,
      th_dimensions = td_dimensions t, th_quant = td_quant t, th_bytes = td_bytes t,
      th_block_bytes = type_size (storage_layout (td_quant t)),
      th_block_values = block_size (storage_layout (td_quant t))\<rparr>"

definition build_tensor_index :: "pystr \<Rightarrow> gguf_container \<Rightarrow> tensor_index" where
  "build_tensor_index path c =
     (let key = source_key_of path c;
          handles = map (\<lambda>(ordinal, t). handle_of key ordinal t) (enumerate 0 (gc_tensors c))
      in \<lparr>ix_source = key, ix_tensors = handles,
          ix_by_name = foldl (\<lambda>m h. m(th_name h \<mapsto> h)) Map.empty handles\<rparr>)"

record tensor_chunk =
  tc_handle :: tensor_handle
  tc_block_offset :: int
  tc_block_count :: int
  tc_byte_offset :: int
  tc_element_offset :: int
  tc_data :: bytes

section \<open>The reader\<close>

record tensor_reader =
  tr_source :: mapped_gguf
  tr_max_chunk :: int
  tr_index :: tensor_index

definition tensor_reader_init :: "pystr \<Rightarrow> mapped_gguf \<Rightarrow> int \<Rightarrow> read_error + tensor_reader" where
  "tensor_reader_init path m max_chunk =
     rbind (raise_if (max_chunk \<le> 0) ReadLimitsValue) (\<lambda>_.
     Inr \<lparr>tr_source = m, tr_max_chunk = max_chunk,
          tr_index = build_tensor_index path (mm_container m)\<rparr>)"

definition reader_descriptor :: "tensor_reader \<Rightarrow> tensor_handle \<Rightarrow> read_error + tensor_descriptor" where
  "reader_descriptor r h =
     rbind (raise_if (th_source h \<noteq> ix_source (tr_index r)) StaleHandle) (\<lambda>_.
     rbind (raise_if (th_ordinal h < 0 \<or> int (length (ix_tensors (tr_index r))) \<le> th_ordinal h)
              StaleHandle) (\<lambda>_.
     rbind (raise_if (h \<noteq> ix_tensors (tr_index r) ! nat (th_ordinal h)) StaleHandle) (\<lambda>_.
     Inr (gc_tensors (mm_container (tr_source r)) ! nat (th_ordinal h)))))"

definition read_bytes :: "tensor_reader \<Rightarrow> tensor_handle \<Rightarrow> int \<Rightarrow> int \<Rightarrow> read_error + bytes" where
  "read_bytes r h offset n =
     rbind (reader_descriptor r h) (\<lambda>d.
     rbind (raise_if (mm_closed (tr_source r)) TensorReadError) (\<lambda>_.
     rbind (raise_if (n < 0 \<or> tr_max_chunk r < n) ReadLimit) (\<lambda>_.
     rbind (raise_if (offset < 0 \<or> td_bytes d - n < offset) TensorBounds) (\<lambda>_.
     except (raw_bytes (tr_source r) (tr_max_chunk r) (td_offset d + offset) n) MappingError))))"

definition read_blocks :: "tensor_reader \<Rightarrow> tensor_handle \<Rightarrow> int \<Rightarrow> int \<Rightarrow> read_error + tensor_chunk" where
  "read_blocks r h block_offset block_count =
     rbind (raise_if (block_offset < 0 \<or> block_count < 0) TensorBounds) (\<lambda>_.
     rbind (handle_block_count h) (\<lambda>blocks.
     rbind (raise_if (blocks - block_count < block_offset) TensorBounds) (\<lambda>_.
     let byte_offset = block_offset * th_block_bytes h; byte_count = block_count * th_block_bytes h in
     rbind (read_bytes r h byte_offset byte_count) (\<lambda>data.
     Inr \<lparr>tc_handle = h, tc_block_offset = block_offset, tc_block_count = block_count,
          tc_byte_offset = byte_offset, tc_element_offset = block_offset * th_block_values h,
          tc_data = data\<rparr>))))"

text \<open>The loop of \<open>iter_chunks\<close>; its caller has refused \<open>per_chunk = 0\<close>.\<close>

function chunks_from :: "tensor_reader \<Rightarrow> tensor_handle \<Rightarrow> int \<Rightarrow> int \<Rightarrow> int \<Rightarrow> read_error + tensor_chunk list"
where
  "chunks_from r h per_chunk blocks offset =
     (if offset < blocks \<and> per_chunk \<noteq> 0 then
        (let count = min per_chunk (blocks - offset) in
         rbind (read_blocks r h offset count) (\<lambda>chunk.
         rbind (chunks_from r h per_chunk blocks (offset + count)) (\<lambda>rest.
         Inr (chunk # rest))))
      else Inr [])"
  by pat_completeness auto
termination
proof (relation "measure (\<lambda>(r, h, per_chunk, blocks, offset). nat (blocks - offset))", simp)
  fix r h per_chunk blocks offset count chunk
  assume c: "offset < blocks \<and> per_chunk \<noteq> (0::int)" and n: "count = min per_chunk (blocks - offset)"
    and rd: "read_blocks r h offset count = Inr chunk"
  from rd have "0 \<le> count" by (auto simp: read_blocks_def)
  with c n have "0 < count" by auto
  with c show "((r, h, per_chunk, blocks, offset + count), (r, h, per_chunk, blocks, offset))
      \<in> measure (\<lambda>(r, h, per_chunk, blocks, offset). nat (blocks - offset))" by auto
qed

declare chunks_from.simps [simp del]

definition iter_chunks :: "tensor_reader \<Rightarrow> tensor_handle \<Rightarrow> int option \<Rightarrow> read_error + tensor_chunk list"
where
  "iter_chunks r h max_chunk_bytes =
     (let chunk_limit = (case max_chunk_bytes of None \<Rightarrow> tr_max_chunk r | Some n \<Rightarrow> n) in
      rbind (raise_if (chunk_limit \<le> 0 \<or> tr_max_chunk r < chunk_limit) ReadLimit) (\<lambda>_.
      rbind (raise_if (th_block_bytes h = 0) ZeroDivision) (\<lambda>_.
      let per_chunk = chunk_limit div th_block_bytes h in
      rbind (raise_if (per_chunk = 0) ReadLimit) (\<lambda>_.
      rbind (handle_block_count h) (\<lambda>blocks. chunks_from r h per_chunk blocks 0)))))"

section \<open>The copy source\<close>

record tensor_copy =
  cp_reader :: tensor_reader
  cp_handle :: tensor_handle
  cp_max_chunk :: int

definition copy_unchanged_gguf_tensor ::
  "tensor_reader \<Rightarrow> tensor_handle \<Rightarrow> int \<Rightarrow> read_error + tensor_copy" where
  "copy_unchanged_gguf_tensor r h max_chunk =
     rbind (reader_descriptor r h) (\<lambda>_.
     rbind (raise_if (max_chunk < th_block_bytes h \<or> tr_max_chunk r < max_chunk) ReadLimit) (\<lambda>_.
     Inr \<lparr>cp_reader = r, cp_handle = h, cp_max_chunk = max_chunk\<rparr>))"

definition peak_payload_buffer_bytes :: "tensor_copy \<Rightarrow> int" where
  "peak_payload_buffer_bytes c =
     cp_max_chunk c div th_block_bytes (cp_handle c) * th_block_bytes (cp_handle c)"

definition copy_chunks :: "tensor_copy \<Rightarrow> read_error + bytes list" where
  "copy_chunks c =
     rbind (iter_chunks (cp_reader c) (cp_handle c) (Some (cp_max_chunk c)))
       (\<lambda>chunks. Inr (map tc_data chunks))"

section \<open>Bounded readers\<close>

text \<open>
  The contract every layer of reading keeps: a read succeeds exactly for a span inside the content and
  below the limit, and returns that span. It is interpreted on the mapping's \<open>raw_bytes\<close> and, one
  layer up, on the reader's \<open>read_bytes\<close>.
\<close>

locale bounded_reader =
  fixes rd :: "'s \<Rightarrow> int \<Rightarrow> int \<Rightarrow> 'e + bytes"
    and content :: "'s \<Rightarrow> bytes"
    and limit :: "'s \<Rightarrow> int"
    and good :: "'s \<Rightarrow> bool"
  assumes limit_pos: "good s \<Longrightarrow> 0 < limit s"
    and rd_iff: "good s \<Longrightarrow> rd s off n = Inr bs \<longleftrightarrow>
      0 \<le> off \<and> 0 \<le> n \<and> n \<le> limit s \<and> off + n \<le> int (length (content s))
      \<and> bs = slice (nat off) (nat n) (content s)"
begin

lemma rd_length: "good s \<Longrightarrow> rd s off n = Inr bs \<Longrightarrow> int (length bs) = n"
  by (auto simp: rd_iff slice_def)

lemma rd_total:
  "good s \<Longrightarrow> 0 \<le> off \<Longrightarrow> 0 \<le> n \<Longrightarrow> n \<le> limit s \<Longrightarrow> off + n \<le> int (length (content s)) \<Longrightarrow>
     rd s off n = Inr (slice (nat off) (nat n) (content s))"
  by (simp add: rd_iff)

lemma rd_join:
  assumes "good s" and "rd s off a = Inr xs" and "rd s (off + a) b = Inr ys"
  shows "xs @ ys = slice (nat off) (nat (a + b)) (content s)"
  using assms slice_concat [of "nat off" "nat a" "content s" "nat b"]
  by (auto simp: rd_iff nat_add_distrib)

end

definition mapping_good :: "mapped_gguf \<times> int \<Rightarrow> bool" where
  "mapping_good s \<longleftrightarrow> \<not> mm_closed (fst s) \<and> 0 < snd s"

interpretation mapping: bounded_reader "\<lambda>(m, max_bytes). raw_bytes m max_bytes"
  "\<lambda>s. mm_bytes (fst s)" snd mapping_good
  by unfold_locales (auto simp: mapping_good_def raw_bytes_def rbind_Inr_iff not_less not_le)

text \<open>The payload of a handle, and the readers whose index and mapping belong together.\<close>

definition payload :: "tensor_reader \<times> tensor_handle \<Rightarrow> bytes" where
  "payload s = (let t = gc_tensors (mm_container (tr_source (fst s))) ! nat (th_ordinal (snd s)) in
     slice (nat (td_offset t)) (nat (td_bytes t)) (mm_bytes (tr_source (fst s))))"

definition reader_good :: "tensor_reader \<times> tensor_handle \<Rightarrow> bool" where
  "reader_good s \<longleftrightarrow>
     \<not> mm_closed (tr_source (fst s)) \<and> 0 < tr_max_chunk (fst s)
     \<and> (\<exists>path limits. tr_index (fst s) = build_tensor_index path (mm_container (tr_source (fst s)))
         \<and> parse_gguf limits (mm_bytes (tr_source (fst s))) = Inr (mm_container (tr_source (fst s))))
     \<and> snd s \<in> set (ix_tensors (tr_index (fst s)))"

lemma index_nth:
  "i < length (gc_tensors c) \<Longrightarrow>
     ix_tensors (build_tensor_index path c) ! i = handle_of (source_key_of path c) i (gc_tensors c ! i)"
  by (simp add: build_tensor_index_def Let_def nth_enumerate_eq)

lemma index_length: "length (ix_tensors (build_tensor_index path c)) = length (gc_tensors c)"
  by (simp add: build_tensor_index_def Let_def)

lemma reader_good_descriptor:
  assumes "reader_good (r, h)"
  shows "\<exists>d. reader_descriptor r h = Inr d \<and> d \<in> set (gc_tensors (mm_container (tr_source r)))
    \<and> payload (r, h) = slice (nat (td_offset d)) (nat (td_bytes d)) (mm_bytes (tr_source r))
    \<and> 0 \<le> td_offset d \<and> 0 < td_bytes d
    \<and> td_offset d + td_bytes d \<le> int (length (mm_bytes (tr_source r)))
    \<and> th_bytes h = td_bytes d \<and> th_name h = td_name d \<and> th_dimensions h = td_dimensions d
    \<and> th_quant h = td_quant d
    \<and> th_block_bytes h = type_size (storage_layout (td_quant d))
    \<and> gguf_tensor_byte_size (td_quant d) (td_dimensions d) = Inr (td_bytes d)"
proof -
  let ?c = "mm_container (tr_source r)"
  from assms obtain path limits where ix: "tr_index r = build_tensor_index path ?c"
    and p: "parse_gguf limits (mm_bytes (tr_source r)) = Inr ?c"
    and h: "h \<in> set (ix_tensors (tr_index r))" by (auto simp: reader_good_def)
  from h obtain i where i: "i < length (gc_tensors ?c)"
    and hi: "h = handle_of (source_key_of path ?c) i (gc_tensors ?c ! i)"
    by (auto simp: in_set_conv_nth index_length index_nth ix)
  let ?d = "gc_tensors ?c ! i"
  have d: "?d \<in> set (gc_tensors ?c)" using i by simp
  have "ix_source (build_tensor_index path ?c) = source_key_of path ?c"
    by (simp add: build_tensor_index_def Let_def)
  then have "reader_descriptor r h = Inr ?d"
    using i by (simp add: reader_descriptor_def hi ix handle_of_def index_length index_nth raise_if_def)
  moreover have "0 \<le> gc_data_offset ?c"
    using p by (rule parse_gguf_steps) (auto dest!: align_offset_Inr [OF parse_alignment_Inr])
  ultimately show ?thesis
    using d parse_gguf_tensor [OF p d] hi
    by (intro exI [of _ ?d]) (auto simp: payload_def handle_of_def data_end_def Let_def)
qed

interpretation tensor_bytes: bounded_reader "\<lambda>(r, h). read_bytes r h" payload
  "\<lambda>s. tr_max_chunk (fst s)" reader_good
proof
  fix s :: "tensor_reader \<times> tensor_handle" and off n bs
  assume good: "reader_good s"
  then show "0 < tr_max_chunk (fst s)" by (simp add: reader_good_def)
  obtain r h where s: "s = (r, h)" by (cases s)
  from reader_good_descriptor [of r h] good s obtain d where d: "reader_descriptor r h = Inr d"
    "payload (r, h) = slice (nat (td_offset d)) (nat (td_bytes d)) (mm_bytes (tr_source r))"
    "0 \<le> td_offset d" "0 < td_bytes d"
    "td_offset d + td_bytes d \<le> int (length (mm_bytes (tr_source r)))" by blast
  have len: "int (length (payload (r, h))) = td_bytes d"
    using d by (simp add: length_slice)
  have mg: "mapping_good (tr_source r, tr_max_chunk r)"
    using good s by (simp add: mapping_good_def reader_good_def)
  have raw: "raw_bytes (tr_source r) (tr_max_chunk r) (td_offset d + off) n = Inr bs \<longleftrightarrow>
      bs = slice (nat off) (nat n) (payload (r, h))"
    if "0 \<le> off" "0 \<le> n" "n \<le> tr_max_chunk r" "off + n \<le> td_bytes d"
    using mapping.rd_iff [OF mg, of "td_offset d + off" n bs] that d
      slice_slice [of "nat off" "nat n" "nat (td_bytes d)" "nat (td_offset d)" "mm_bytes (tr_source r)"]
    by (simp add: nat_add_distrib)
  show "(case s of (r, h) \<Rightarrow> read_bytes r h) off n = Inr bs \<longleftrightarrow>
      0 \<le> off \<and> 0 \<le> n \<and> n \<le> tr_max_chunk (fst s) \<and> off + n \<le> int (length (payload s))
      \<and> bs = slice (nat off) (nat n) (payload s)"
    using good s raw len by (auto simp: read_bytes_def d(1) rbind_raise_if reader_good_def not_less)
qed

section \<open>Chunks cover the payload\<close>

lemma reader_good_blocks:
  assumes "reader_good (r, h)"
  shows "0 < th_block_bytes h \<and> th_bytes h = int (length (payload (r, h)))
    \<and> th_bytes h mod th_block_bytes h = 0"
proof -
  from reader_good_descriptor [OF assms] obtain d :: tensor_descriptor where
    d: "payload (r, h) = slice (nat (td_offset d)) (nat (td_bytes d)) (mm_bytes (tr_source r))"
    "0 \<le> td_offset d" "0 < td_bytes d"
    "td_offset d + td_bytes d \<le> int (length (mm_bytes (tr_source r)))"
    "th_bytes h = td_bytes d" "th_block_bytes h = type_size (storage_layout (td_quant d))"
    "gguf_tensor_byte_size (td_quant d) (td_dimensions d) = Inr (td_bytes d)"
    by blast
  from gguf_tensor_byte_size_Inr [OF d(7)]
  have "encoded_size (storage_layout (td_quant d)) (prod_list (td_dimensions d)) = Inr (td_bytes d)"
    by simp
  then have "td_bytes d mod type_size (storage_layout (td_quant d)) = 0"
    by (auto simp: encoded_size_def rbind_Inr_iff dest!: sym [of _ "td_bytes d"])
  with d storage_layout_pos [of "td_quant d"] show ?thesis by (simp add: length_slice)
qed

lemma read_blocks_good:
  assumes g: "reader_good (r, h)" and o: "0 \<le> off" "0 \<le> n" "off + n \<le> th_bytes h div th_block_bytes h"
    and lim: "n * th_block_bytes h \<le> tr_max_chunk r"
  shows "read_blocks r h off n = Inr \<lparr>tc_handle = h, tc_block_offset = off, tc_block_count = n,
    tc_byte_offset = off * th_block_bytes h, tc_element_offset = off * th_block_values h,
    tc_data = slice (nat (off * th_block_bytes h)) (nat (n * th_block_bytes h)) (payload (r, h))\<rparr>"
proof -
  let ?bb = "th_block_bytes h"
  note b = reader_good_blocks [OF g]
  then have pos: "0 < ?bb" and len: "th_bytes h div ?bb * ?bb = int (length (payload (r, h)))"
    using div_mult_mod_eq [of "th_bytes h" ?bb] by auto
  have "(off + n) * ?bb \<le> th_bytes h div ?bb * ?bb" using o(3) pos by (intro mult_right_mono) auto
  then have "off * ?bb + n * ?bb \<le> int (length (payload (r, h)))" using len by (simp add: distrib_right)
  moreover have "0 \<le> off * ?bb" "0 \<le> n * ?bb" using o pos by auto
  ultimately have "read_bytes r h (off * ?bb) (n * ?bb)
      = Inr (slice (nat (off * ?bb)) (nat (n * ?bb)) (payload (r, h)))"
    using tensor_bytes.rd_total [OF g, of "off * ?bb" "n * ?bb"] lim by simp
  with o pos show ?thesis
    by (simp add: read_blocks_def handle_block_count_def rbind_def raise_if_def Let_def)
qed

definition chunk_shape :: "tensor_reader \<Rightarrow> tensor_handle \<Rightarrow> int \<Rightarrow> tensor_chunk \<Rightarrow> bool" where
  "chunk_shape r h per_chunk c \<longleftrightarrow>
     0 < tc_block_count c \<and> tc_block_count c \<le> per_chunk
     \<and> tc_byte_offset c = tc_block_offset c * th_block_bytes h
     \<and> tc_element_offset c = tc_block_offset c * th_block_values h
     \<and> int (length (tc_data c)) = tc_block_count c * th_block_bytes h
     \<and> read_bytes r h (tc_byte_offset c) (int (length (tc_data c))) = Inr (tc_data c)"

lemma chunks_from_good:
  assumes g: "reader_good (r, h)" and pc: "0 < pc" "pc * th_block_bytes h \<le> tr_max_chunk r"
    and o: "0 \<le> off" "off \<le> th_bytes h div th_block_bytes h"
  shows "\<exists>cs. chunks_from r h pc (th_bytes h div th_block_bytes h) off = Inr cs
    \<and> concat (map tc_data cs) = drop (nat (off * th_block_bytes h)) (payload (r, h))
    \<and> list_all (chunk_shape r h pc) cs"
  using o
proof (induction "nat (th_bytes h div th_block_bytes h - off)" arbitrary: off rule: less_induct)
  case less
  let ?bb = "th_block_bytes h" and ?n = "th_bytes h div th_block_bytes h"
  note b = reader_good_blocks [OF g]
  then have pos: "0 < ?bb" and len: "?n * ?bb = int (length (payload (r, h)))"
    using div_mult_mod_eq [of "th_bytes h" ?bb] by auto
  show ?case
  proof (cases "off < ?n")
    case False
    with less.prems have "off = ?n" by simp
    moreover have "chunks_from r h pc ?n ?n = Inr []" by (subst chunks_from.simps) simp
    ultimately show ?thesis using len by simp
  next
    case True
    define k where "k = min pc (?n - off)"
    have k: "0 < k" "off + k \<le> ?n" "k \<le> pc" using True pc by (auto simp: k_def)
    have kb: "k * ?bb \<le> tr_max_chunk r"
      using mult_right_mono [OF k(3), of ?bb] pc(2) pos by linarith
    have rb: "read_blocks r h off k = Inr \<lparr>tc_handle = h, tc_block_offset = off, tc_block_count = k,
        tc_byte_offset = off * ?bb, tc_element_offset = off * th_block_values h,
        tc_data = slice (nat (off * ?bb)) (nat (k * ?bb)) (payload (r, h))\<rparr>" (is "_ = Inr ?c")
      using read_blocks_good [OF g] less.prems k kb by simp
    obtain cs where cs: "chunks_from r h pc ?n (off + k) = Inr cs"
      "concat (map tc_data cs) = drop (nat ((off + k) * ?bb)) (payload (r, h))"
      "list_all (chunk_shape r h pc) cs"
      using less.hyps [of "off + k"] less.prems k True by auto
    have bound: "off * ?bb + k * ?bb \<le> int (length (payload (r, h)))"
      using mult_right_mono [OF k(2), of ?bb] pos len by (simp add: distrib_right)
    have nn: "0 \<le> off * ?bb" "0 \<le> k * ?bb" using less.prems k pos by auto
    have rd: "read_bytes r h (off * ?bb) (k * ?bb)
        = Inr (slice (nat (off * ?bb)) (nat (k * ?bb)) (payload (r, h)))"
      using tensor_bytes.rd_total [OF g, of "off * ?bb" "k * ?bb"] bound nn kb by simp
    have lenc: "length (tc_data ?c) = nat (k * ?bb)"
      using bound nn by (simp add: length_slice nat_add_distrib [symmetric] del: nat_add_distrib)
    have "chunk_shape r h pc ?c"
      using rd lenc nn k by (simp add: chunk_shape_def)
    moreover have "drop (nat (off * ?bb)) (payload (r, h))
        = tc_data ?c @ drop (nat ((off + k) * ?bb)) (payload (r, h))"
      using nn by (simp add: slice_def distrib_right nat_add_distrib add.commute
          drop_drop [symmetric] del: drop_drop)
    ultimately show ?thesis
      using rb cs True pc by (simp add: chunks_from.simps [of r h pc ?n off] k_def [symmetric] Let_def
          rbind_def)
  qed
qed

lemma iter_chunks_good:
  assumes g: "reader_good (r, h)" and lim: "th_block_bytes h \<le> limit" "limit \<le> tr_max_chunk r"
  shows "\<exists>cs. iter_chunks r h (Some limit) = Inr cs
    \<and> concat (map tc_data cs) = payload (r, h)
    \<and> list_all (chunk_shape r h (limit div th_block_bytes h)) cs"
proof -
  have pos: "0 < th_block_bytes h" using reader_good_blocks [OF g] by simp
  then have "0 < limit div th_block_bytes h" using lim by (simp add: pos_imp_zdiv_pos_iff)
  moreover have "limit div th_block_bytes h * th_block_bytes h \<le> tr_max_chunk r"
    using lim pos by (metis div_mult_mod_eq le_add_same_cancel1 order_trans pos_mod_sign)
  moreover have "0 \<le> th_bytes h div th_block_bytes h"
    using reader_good_blocks [OF g] by (simp add: pos_imp_zdiv_nonneg_iff)
  ultimately show ?thesis
    using chunks_from_good [OF g, of "limit div th_block_bytes h" 0] pos lim
    by (simp add: iter_chunks_def Let_def handle_block_count_def rbind_def raise_if_def not_less)
qed

text \<open>
  For a handle of an open reader, the chunk iterator never fails for a limit between one block
  and the reader's maximum; its chunks are whole blocks, none is empty or above the limit, each is
  exactly what a direct read of its byte span returns, and together they are the tensor's payload,
  every byte once and in order.
\<close>
theorem chunks_cover_payload:
  assumes "reader_good (r, h)" and "th_block_bytes h \<le> limit" and "limit \<le> tr_max_chunk r"
  shows "\<exists>cs. iter_chunks r h (Some limit) = Inr cs
    \<and> concat (map tc_data cs) = payload (r, h)
    \<and> (\<forall>c \<in> set cs. chunk_shape r h (limit div th_block_bytes h) c
        \<and> tc_data c \<noteq> [] \<and> int (length (tc_data c)) \<le> limit)"
proof -
  have pos: "0 < th_block_bytes h" using reader_good_blocks [OF assms(1)] by simp
  obtain cs where cs: "iter_chunks r h (Some limit) = Inr cs" "concat (map tc_data cs) = payload (r, h)"
    "list_all (chunk_shape r h (limit div th_block_bytes h)) cs"
    using iter_chunks_good [OF assms] by blast
  have "tc_data c \<noteq> [] \<and> int (length (tc_data c)) \<le> limit"
    if "chunk_shape r h (limit div th_block_bytes h) c" for c
  proof -
    from that have c: "0 < tc_block_count c" "tc_block_count c \<le> limit div th_block_bytes h"
      "int (length (tc_data c)) = tc_block_count c * th_block_bytes h" by (auto simp: chunk_shape_def)
    have "tc_block_count c * th_block_bytes h \<le> limit div th_block_bytes h * th_block_bytes h"
      using c pos by (intro mult_right_mono) auto
    also have "\<dots> \<le> limit"
      using pos by (metis div_mult_mod_eq le_add_same_cancel1 pos_mod_sign)
    finally have "int (length (tc_data c)) \<le> limit" using c(3) by simp
    moreover have "0 < int (length (tc_data c))" using c pos by simp
    ultimately show ?thesis by auto
  qed
  with cs show ?thesis by (auto simp: list_all_iff)
qed

definition tiny_file :: bytes where
  "tiny_file = [71,71,85,70, 3,0,0,0, 1,0,0,0,0,0,0,0, 0,0,0,0,0,0,0,0,
     1,0,0,0,0,0,0,0, 97, 1,0,0,0, 4,0,0,0,0,0,0,0, 0,0,0,0, 0,0,0,0,0,0,0,0]
     @ replicate 7 0 @ [1,2,3,4,5,6,7,8,9,10,11,12,13,14,15,16]"

definition tiny_reader :: "tensor_reader option" where
  "tiny_reader = (case parse_gguf default_limits tiny_file of Inl _ \<Rightarrow> None
     | Inr c \<Rightarrow> (case tensor_reader_init [97] \<lparr>mm_bytes = tiny_file, mm_closed = False,
          mm_container = c\<rparr> 8 of Inl _ \<Rightarrow> None | Inr r \<Rightarrow> Some r))"

lemma tiny_reader_good:
  "\<exists>r h. tiny_reader = Some r \<and> reader_good (r, h) \<and> th_block_bytes h = 4 \<and> tr_max_chunk r = 8"
proof -
  have "case parse_gguf default_limits tiny_file of Inl _ \<Rightarrow> False
    | Inr c \<Rightarrow> map (\<lambda>t. type_size (storage_layout (td_quant t))) (gc_tensors c) = [4]"
    by code_simp
  then obtain c t where c: "parse_gguf default_limits tiny_file = Inr c" "gc_tensors c = [t]"
    "type_size (storage_layout (td_quant t)) = 4"
    by (auto split: sum.splits)
  let ?r = "\<lparr>tr_source = \<lparr>mm_bytes = tiny_file, mm_closed = False, mm_container = c\<rparr>,
    tr_max_chunk = 8, tr_index = build_tensor_index [97] c\<rparr>"
  have "reader_good (?r, handle_of (source_key_of [97] c) 0 t)"
    using c by (auto simp: reader_good_def build_tensor_index_def Let_def)
  then show ?thesis
    using c by (intro exI [of _ ?r] exI [of _ "handle_of (source_key_of [97] c) 0 t"])
      (simp add: tiny_reader_def tensor_reader_init_def raise_if_def rbind_def handle_of_def)
qed

theorem chunks_cover_payload_witness:
  "\<exists>r h cs. tiny_reader = Some r \<and> iter_chunks r h (Some 7) = Inr cs
     \<and> concat (map tc_data cs) = payload (r, h)"
proof -
  obtain r h where r: "tiny_reader = Some r" "reader_good (r, h)" "th_block_bytes h = 4"
    "tr_max_chunk r = 8" using tiny_reader_good by blast
  then show ?thesis using chunks_cover_payload [of r h 7] by auto
qed

section \<open>Copies and stale handles\<close>

text \<open>
  Copying an unchanged tensor: for a handle of an open reader, the copy is accepted exactly when
  its buffer limit holds one block and stays within the reader's; its stream then is the source
  payload byte for byte, no piece larger than the peak buffer it reports, which is within the limit.
\<close>
theorem copy_is_byte_exact:
  assumes "reader_good (r, h)"
  shows "case copy_unchanged_gguf_tensor r h limit of
      Inl e \<Rightarrow> e = ReadLimit \<and> (limit < th_block_bytes h \<or> tr_max_chunk r < limit)
    | Inr cp \<Rightarrow> (\<exists>pieces. copy_chunks cp = Inr pieces \<and> concat pieces = payload (r, h)
        \<and> int (length (concat pieces)) = th_bytes h
        \<and> (\<forall>p \<in> set pieces. int (length p) \<le> peak_payload_buffer_bytes cp)
        \<and> peak_payload_buffer_bytes cp \<le> limit)"
proof (cases "limit < th_block_bytes h \<or> tr_max_chunk r < limit")
  case True
  with reader_good_descriptor [OF assms] show ?thesis
    by (auto simp: copy_unchanged_gguf_tensor_def rbind_def raise_if_def)
next
  case False
  note b = reader_good_blocks [OF assms]
  from reader_good_descriptor [OF assms] False
  have cp: "copy_unchanged_gguf_tensor r h limit
      = Inr \<lparr>cp_reader = r, cp_handle = h, cp_max_chunk = limit\<rparr>" (is "_ = Inr ?cp")
    by (auto simp: copy_unchanged_gguf_tensor_def rbind_def raise_if_def)
  obtain cs where cs: "iter_chunks r h (Some limit) = Inr cs" "concat (map tc_data cs) = payload (r, h)"
    "list_all (chunk_shape r h (limit div th_block_bytes h)) cs"
    using iter_chunks_good [OF assms, of limit] False by (auto simp: not_less)
  have "int (length (tc_data c)) \<le> peak_payload_buffer_bytes ?cp" if "c \<in> set cs" for c
    using that cs(3) b by (auto simp: list_all_iff chunk_shape_def peak_payload_buffer_bytes_def
        intro!: mult_right_mono)
  moreover have "peak_payload_buffer_bytes ?cp \<le> limit"
    using b by (simp add: peak_payload_buffer_bytes_def)
      (metis div_mult_mod_eq le_add_same_cancel1 pos_mod_sign)
  ultimately show ?thesis
    using cp cs b by (auto simp: copy_chunks_def rbind_def)
qed

theorem copy_is_byte_exact_witness:
  "\<exists>r h pieces cp. tiny_reader = Some r \<and> copy_unchanged_gguf_tensor r h 8 = Inr cp
     \<and> copy_chunks cp = Inr pieces \<and> concat pieces = payload (r, h)"
proof -
  obtain r h where r: "tiny_reader = Some r" "reader_good (r, h)" "th_block_bytes h = 4"
    "tr_max_chunk r = 8" using tiny_reader_good by blast
  then show ?thesis
    using copy_is_byte_exact [of r h 8] by (auto split: sum.splits)
qed

lemma handle_accepted_iff:
  assumes "tr_index r = build_tensor_index path (mm_container (tr_source r))"
  shows "reader_descriptor r h = Inr d \<longleftrightarrow>
    (\<exists>i < length (gc_tensors (mm_container (tr_source r))).
       h = handle_of (source_key_of path (mm_container (tr_source r))) i
             (gc_tensors (mm_container (tr_source r)) ! i)
       \<and> d = gc_tensors (mm_container (tr_source r)) ! i)" (is "?l \<longleftrightarrow> ?r")
proof
  let ?c = "mm_container (tr_source r)"
  assume ?l
  then have o: "0 \<le> th_ordinal h" "th_ordinal h < int (length (gc_tensors ?c))"
    and e: "h = ix_tensors (tr_index r) ! nat (th_ordinal h)"
    and d: "d = gc_tensors ?c ! nat (th_ordinal h)"
    using assms by (auto simp: reader_descriptor_def rbind_Inr_iff index_length not_less)
  have lt: "nat (th_ordinal h) < length (gc_tensors ?c)" using o by linarith
  have "h = handle_of (source_key_of path ?c) (nat (th_ordinal h)) (gc_tensors ?c ! nat (th_ordinal h))"
    using e assms index_nth [OF lt, of path] by simp
  with lt d show ?r by (intro exI [of _ "nat (th_ordinal h)"]) simp
next
  let ?c = "mm_container (tr_source r)"
  have src: "ix_source (build_tensor_index path ?c) = source_key_of path ?c"
    by (simp add: build_tensor_index_def Let_def)
  assume ?r
  then show ?l
    using src by (auto simp: reader_descriptor_def assms handle_of_def index_length index_nth raise_if_def)
qed

end
