(* ===== verification/PySha256.thy ===== *)
theory PySha256
  imports PyText
begin

text \<open>
  \<open>hashlib.sha256\<close>: a digest object is the sequence of bytes fed to it so far, \<open>update\<close> appends, and
  \<open>hexdigest\<close> hashes the whole sequence (FIPS 180-4) and prints 64 lowercase hexadecimal digits.
\<close>

type_synonym word32 = "32 word"

definition K256 :: "word32 list" where
  "K256 = [
    0x428a2f98, 0x71374491, 0xb5c0fbcf, 0xe9b5dba5, 0x3956c25b, 0x59f111f1, 0x923f82a4, 0xab1c5ed5,
    0xd807aa98, 0x12835b01, 0x243185be, 0x550c7dc3, 0x72be5d74, 0x80deb1fe, 0x9bdc06a7, 0xc19bf174,
    0xe49b69c1, 0xefbe4786, 0x0fc19dc6, 0x240ca1cc, 0x2de92c6f, 0x4a7484aa, 0x5cb0a9dc, 0x76f988da,
    0x983e5152, 0xa831c66d, 0xb00327c8, 0xbf597fc7, 0xc6e00bf3, 0xd5a79147, 0x06ca6351, 0x14292967,
    0x27b70a85, 0x2e1b2138, 0x4d2c6dfc, 0x53380d13, 0x650a7354, 0x766a0abb, 0x81c2c92e, 0x92722c85,
    0xa2bfe8a1, 0xa81a664b, 0xc24b8b70, 0xc76c51a3, 0xd192e819, 0xd6990624, 0xf40e3585, 0x106aa070,
    0x19a4c116, 0x1e376c08, 0x2748774c, 0x34b0bcb5, 0x391c0cb3, 0x4ed8aa4a, 0x5b9cca4f, 0x682e6ff3,
    0x748f82ee, 0x78a5636f, 0x84c87814, 0x8cc70208, 0x90befffa, 0xa4506ceb, 0xbef9a3f7, 0xc67178f2]"

definition H256 :: "word32 list" where
  "H256 = [0x6a09e667, 0xbb67ae85, 0x3c6ef372, 0xa54ff53a, 0x510e527f, 0x9b05688c, 0x1f83d9ab, 0x5be0cd19]"

definition big_sigma0 :: "word32 \<Rightarrow> word32" where
  "big_sigma0 x = word_rotr 2 x XOR word_rotr 13 x XOR word_rotr 22 x"

definition big_sigma1 :: "word32 \<Rightarrow> word32" where
  "big_sigma1 x = word_rotr 6 x XOR word_rotr 11 x XOR word_rotr 25 x"

definition small_sigma0 :: "word32 \<Rightarrow> word32" where
  "small_sigma0 x = word_rotr 7 x XOR word_rotr 18 x XOR drop_bit 3 x"

definition small_sigma1 :: "word32 \<Rightarrow> word32" where
  "small_sigma1 x = word_rotr 17 x XOR word_rotr 19 x XOR drop_bit 10 x"

definition sha_ch :: "word32 \<Rightarrow> word32 \<Rightarrow> word32 \<Rightarrow> word32" where
  "sha_ch x y z = (x AND y) XOR ((NOT x) AND z)"

definition sha_maj :: "word32 \<Rightarrow> word32 \<Rightarrow> word32 \<Rightarrow> word32" where
  "sha_maj x y z = (x AND y) XOR (x AND z) XOR (y AND z)"

definition be32 :: "bytes \<Rightarrow> word32" where
  "be32 bs = foldl (\<lambda>w b. push_bit 8 w OR ucast b) 0 bs"

definition be_bytes :: "nat \<Rightarrow> nat \<Rightarrow> bytes" where
  "be_bytes n v = map (\<lambda>i. of_nat (v div 256 ^ i mod 256)) (rev [0..<n])"

definition sha_pad :: "bytes \<Rightarrow> bytes" where
  "sha_pad m = m @ 0x80 # replicate ((119 - length m mod 64) mod 64) 0 @ be_bytes 8 (8 * length m)"

text \<open>The schedule is kept newest word first.\<close>

definition next_word :: "word32 list \<Rightarrow> word32" where
  "next_word ws = small_sigma1 (ws ! 1) + ws ! 6 + small_sigma0 (ws ! 14) + ws ! 15"

definition schedule :: "word32 list \<Rightarrow> word32 list" where
  "schedule ws = rev (((\<lambda>us. next_word us # us) ^^ 48) (rev ws))"

fun sha_round :: "word32 \<Rightarrow> word32 \<Rightarrow> word32 list \<Rightarrow> word32 list" where
  "sha_round k w [a, b, c, d, e, f, g, h] =
     (let t1 = h + big_sigma1 e + sha_ch e f g + k + w; t2 = big_sigma0 a + sha_maj a b c
      in [t1 + t2, a, b, c, d + t1, e, f, g])"
| "sha_round k w hs = hs"

fun sha_rounds :: "word32 list \<Rightarrow> word32 list \<Rightarrow> word32 list \<Rightarrow> word32 list" where
  "sha_rounds (k # ks) (w # ws) hs = sha_rounds ks ws (sha_round k w hs)"
| "sha_rounds _ _ hs = hs"

fun words_of :: "bytes \<Rightarrow> word32 list" where
  "words_of (a # b # c # d # bs) = be32 [a, b, c, d] # words_of bs"
| "words_of _ = []"

definition sha_block :: "word32 list \<Rightarrow> bytes \<Rightarrow> word32 list" where
  "sha_block hs blk = map2 (+) hs (sha_rounds K256 (schedule (words_of blk)) hs)"

function sha_blocks :: "word32 list \<Rightarrow> bytes \<Rightarrow> word32 list" where
  "sha_blocks hs m = (if m = [] then hs else sha_blocks (sha_block hs (take 64 m)) (drop 64 m))"
  by pat_completeness auto
termination by (relation "measure (\<lambda>(hs, m). length m)") auto

declare sha_blocks.simps [simp del]

definition sha256 :: "bytes \<Rightarrow> word32 list" where
  "sha256 m = sha_blocks H256 (sha_pad m)"

definition hex_digit :: "nat \<Rightarrow> nat" where
  "hex_digit d = (if d < 10 then 48 + d else 87 + d)"

definition hex8 :: "word32 \<Rightarrow> pystr" where
  "hex8 w = map (\<lambda>i. hex_digit (unat w div 16 ^ i mod 16)) (rev [0..<8])"

definition hexdigest :: "bytes \<Rightarrow> pystr" where
  "hexdigest m = concat (map hex8 (sha256 m))"

text \<open>\<open>re.fullmatch("[0-9a-f]{64}", s)\<close>.\<close>

definition is_hex64 :: "pystr \<Rightarrow> bool" where
  "is_hex64 s \<longleftrightarrow> length s = 64 \<and> list_all (\<lambda>c. 48 \<le> c \<and> c \<le> 57 \<or> 97 \<le> c \<and> c \<le> 102) s"

lemma length_sha_round: "length (sha_round k w hs) = length hs"
  by (induction k w hs rule: sha_round.induct) (simp_all add: Let_def)

lemma length_sha_rounds: "length (sha_rounds ks ws hs) = length hs"
  by (induction ks ws hs rule: sha_rounds.induct) (simp_all add: length_sha_round)

lemma length_sha_blocks: "length (sha_blocks hs m) = length hs"
  by (induction hs m rule: sha_blocks.induct)
    (subst sha_blocks.simps, simp add: sha_block_def length_sha_rounds)

lemma length_sha256: "length (sha256 m) = 8"
  by (simp add: sha256_def length_sha_blocks H256_def)

lemma hex_digit_range: "d < 16 \<Longrightarrow> 48 \<le> hex_digit d \<and> hex_digit d \<le> 57 \<or> 97 \<le> hex_digit d \<and> hex_digit d \<le> 102"
  by (auto simp: hex_digit_def)

lemma list_all_hex8: "list_all (\<lambda>c. 48 \<le> c \<and> c \<le> 57 \<or> 97 \<le> c \<and> c \<le> 102) (hex8 w)"
  using hex_digit_range by (simp add: hex8_def list_all_iff del: upt_Suc)

lemma hexdigest_is_hex64: "is_hex64 (hexdigest m)"
proof -
  have "length (concat (map hex8 ws)) = 8 * length ws" for ws
    by (induction ws) (simp_all add: hex8_def del: upt_Suc)
  moreover have "list_all (\<lambda>c. 48 \<le> c \<and> c \<le> 57 \<or> 97 \<le> c \<and> c \<le> 102) (concat (map hex8 ws))" for ws
    by (induction ws) (simp_all add: list_all_hex8)
  ultimately show ?thesis by (simp add: is_hex64_def hexdigest_def length_sha256)
qed

end
