(* ===== verification/PyFiles.thy ===== *)
theory PyFiles
  imports PySha256 GgufDisk GgufContainer
begin

text \<open>
  Files as the output writers use them. A world holds the files and a schedule of faults, one per
  operation: an operation may succeed, raise \<open>OSError\<close>, or be the last thing the process does
  (\<open>Kills\<close>). A faulting append may have stored any prefix of its data; a kill at a rename, link or
  unlink may come before or after its effect. Actions keep the world when they fail.
\<close>

section \<open>Actions\<close>

datatype io_error =
    IoWrite string
  | IoResume string
  | IoParse gguf_error
  | IoDisk disk_error
  | IoValue
  | IoExists
  | IoMissing
  | IoOS
  | IoKilled

type_synonym ('w, 'a) act = "'w \<Rightarrow> 'w \<times> (io_error + 'a)"

definition act_return :: "'a \<Rightarrow> ('w, 'a) act" where
  "act_return x w = (w, Inr x)"

definition act_lift :: "io_error + 'a \<Rightarrow> ('w, 'a) act" where
  "act_lift r w = (w, r)"

definition act_bind :: "('w, 'a) act \<Rightarrow> ('a \<Rightarrow> ('w, 'b) act) \<Rightarrow> ('w, 'b) act" where
  "act_bind m k w = (case m w of (w', Inl e) \<Rightarrow> (w', Inl e) | (w', Inr x) \<Rightarrow> k x w')"

text \<open>\<open>try: m; except BaseException: cleanup; raise\<close>. A killed process runs no handler.\<close>

definition act_cleanup :: "('w, 'a) act \<Rightarrow> ('w, unit) act \<Rightarrow> ('w, 'a) act" where
  "act_cleanup m cleanup w =
     (case m w of
        (w', Inr x) \<Rightarrow> (w', Inr x)
      | (w', Inl e) \<Rightarrow>
          if e = IoKilled then (w', Inl e)
          else (case cleanup w' of (w'', Inl e') \<Rightarrow> (w'', Inl e') | (w'', Inr _) \<Rightarrow> (w'', Inl e)))"

lemma act_bind_Inr:
  "act_bind m k w = (w', Inr y) \<longleftrightarrow> (\<exists>w1 x. m w = (w1, Inr x) \<and> k x w1 = (w', Inr y))"
  by (auto simp: act_bind_def split: prod.splits sum.splits)

lemma act_bind_return [simp]: "act_bind (act_return x) k = k x"
  by (rule ext) (simp add: act_bind_def act_return_def)

lemma act_lift_Inr [simp]: "act_lift r w = (w', Inr x) \<longleftrightarrow> w' = w \<and> r = Inr x"
  by (auto simp: act_lift_def)

lemma act_return_Inr [simp]: "act_return y w = (w', Inr x) \<longleftrightarrow> w' = w \<and> x = y"
  by (auto simp: act_return_def)

text \<open>A relation between the worlds before and after that every outcome of an action satisfies.\<close>

definition keeps :: "('w \<Rightarrow> 'w \<Rightarrow> bool) \<Rightarrow> ('w, 'a) act \<Rightarrow> bool" where
  "keeps R m \<longleftrightarrow> (\<forall>w. R w (fst (m w)))"

lemma keeps_lift: "(\<And>w. R w w) \<Longrightarrow> keeps R (act_lift r)"
  by (simp add: keeps_def act_lift_def)

lemma keeps_return: "(\<And>w. R w w) \<Longrightarrow> keeps R (act_return r)"
  by (simp add: keeps_def act_return_def)

lemma keeps_bind:
  assumes "\<And>u v w. R u v \<Longrightarrow> R v w \<Longrightarrow> R u w" and "keeps R m" and "\<And>x. keeps R (k x)"
  shows "keeps R (act_bind m k)"
  unfolding keeps_def
proof
  fix w
  obtain w1 r where m: "m w = (w1, r)" by (cases "m w")
  have 1: "R w w1" using assms(2) m unfolding keeps_def by (metis fst_conv)
  have "R w1 (fst (k x w1))" for x using assms(3) unfolding keeps_def by blast
  with 1 show "R w (fst (act_bind m k w))"
    using assms(1) m by (cases r) (auto simp: act_bind_def)
qed

section \<open>Files\<close>

text \<open>A file holds bytes, a JSON document of type \<open>'d\<close>, or the torn remains of writing one.\<close>

datatype 'd content = Data bytes | Doc 'd | Torn_doc

datatype fault = Fine | Raises nat | Kills nat

record 'd world =
  wd_files :: "path \<Rightarrow> 'd content option"
  wd_clock :: nat
  wd_faults :: "nat \<Rightarrow> fault"

definition tick :: "'d world \<Rightarrow> 'd world" where
  "tick w = w\<lparr>wd_clock := Suc (wd_clock w)\<rparr>"

definition fs_op ::
  "((path \<Rightarrow> 'd content option) \<Rightarrow> io_error + (path \<Rightarrow> 'd content option))
     \<Rightarrow> (nat \<Rightarrow> (path \<Rightarrow> 'd content option) \<Rightarrow> (path \<Rightarrow> 'd content option))
     \<Rightarrow> (nat \<Rightarrow> (path \<Rightarrow> 'd content option) \<Rightarrow> (path \<Rightarrow> 'd content option))
     \<Rightarrow> ('d world, unit) act" where
  "fs_op effect raised killed w =
     (case wd_faults w (wd_clock w) of
        Fine \<Rightarrow> (case effect (wd_files w) of
            Inl e \<Rightarrow> (tick w, Inl e)
          | Inr f \<Rightarrow> ((tick w)\<lparr>wd_files := f\<rparr>, Inr ()))
      | Raises n \<Rightarrow> ((tick w)\<lparr>wd_files := raised n (wd_files w)\<rparr>, Inl IoOS)
      | Kills n \<Rightarrow> ((tick w)\<lparr>wd_files := killed n (wd_files w)\<rparr>, Inl IoKilled))"

text \<open>An operation of the directory: it happens or it does not.\<close>

definition atomic_op ::
  "((path \<Rightarrow> 'd content option) \<Rightarrow> io_error + (path \<Rightarrow> 'd content option)) \<Rightarrow> ('d world, unit) act" where
  "atomic_op effect =
     fs_op effect (\<lambda>_ f. f)
       (\<lambda>n f. if n = 0 then f else (case effect f of Inl _ \<Rightarrow> f | Inr f' \<Rightarrow> f'))"

definition fs_create :: "path \<Rightarrow> ('d world, unit) act" where
  "fs_create p = atomic_op (\<lambda>f. if f p \<noteq> None then Inl IoExists else Inr (f(p \<mapsto> Data [])))"

definition append_data :: "path \<Rightarrow> bytes \<Rightarrow> (path \<Rightarrow> 'd content option) \<Rightarrow> (path \<Rightarrow> 'd content option)" where
  "append_data p data f = (case f p of Some (Data c) \<Rightarrow> f(p \<mapsto> Data (c @ data)) | _ \<Rightarrow> f)"

definition fs_append :: "path \<Rightarrow> bytes \<Rightarrow> ('d world, unit) act" where
  "fs_append p data =
     fs_op (\<lambda>f. Inr (append_data p data f))
       (\<lambda>n. append_data p (take n data)) (\<lambda>n. append_data p (take n data))"

definition fs_truncate :: "path \<Rightarrow> nat \<Rightarrow> ('d world, unit) act" where
  "fs_truncate p n =
     atomic_op (\<lambda>f. Inr (case f p of Some (Data c) \<Rightarrow> f(p \<mapsto> Data (take n c)) | _ \<Rightarrow> f))"

definition fs_sync :: "('d world, unit) act" where
  "fs_sync = atomic_op Inr"

definition fs_write_doc :: "path \<Rightarrow> 'd \<Rightarrow> ('d world, unit) act" where
  "fs_write_doc p d =
     fs_op (\<lambda>f. Inr (f(p \<mapsto> Doc d))) (\<lambda>_ f. f(p \<mapsto> Torn_doc)) (\<lambda>_ f. f(p \<mapsto> Torn_doc))"

definition fs_replace :: "path \<Rightarrow> path \<Rightarrow> ('d world, unit) act" where
  "fs_replace src dst =
     atomic_op (\<lambda>f. case f src of None \<Rightarrow> Inl IoMissing | Some c \<Rightarrow> Inr (f(src := None, dst \<mapsto> c)))"

definition fs_link :: "path \<Rightarrow> path \<Rightarrow> ('d world, unit) act" where
  "fs_link src dst =
     atomic_op (\<lambda>f. if f dst \<noteq> None then Inl IoExists
       else (case f src of None \<Rightarrow> Inl IoMissing | Some c \<Rightarrow> Inr (f(dst \<mapsto> c))))"

definition fs_unlink :: "path \<Rightarrow> ('d world, unit) act" where
  "fs_unlink p = atomic_op (\<lambda>f. if f p = None then Inl IoMissing else Inr (f(p := None)))"

text \<open>\<open>unlink(missing_ok=True)\<close>.\<close>

definition fs_discard :: "path \<Rightarrow> ('d world, unit) act" where
  "fs_discard p = atomic_op (\<lambda>f. Inr (f(p := None)))"

section \<open>What an operation touches\<close>

definition only :: "path set \<Rightarrow> 'd world \<Rightarrow> 'd world \<Rightarrow> bool" where
  "only P w w' \<longleftrightarrow> (\<forall>q. q \<notin> P \<longrightarrow> wd_files w' q = wd_files w q) \<and> wd_faults w' = wd_faults w
     \<and> wd_clock w \<le> wd_clock w'"

lemma only_refl [simp]: "only P w w"
  by (simp add: only_def)

lemma only_trans: "only P u v \<Longrightarrow> only P v w \<Longrightarrow> only P u w"
  by (simp add: only_def)

lemma only_files: "only P w w' \<Longrightarrow> q \<notin> P \<Longrightarrow> wd_files w' q = wd_files w q"
  by (simp add: only_def)

lemma only_mono: "only P w w' \<Longrightarrow> P \<subseteq> Q \<Longrightarrow> only Q w w'"
  by (auto simp: only_def)

lemma keeps_only_bind:
  "keeps (only P) m \<Longrightarrow> (\<And>x. keeps (only P) (k x)) \<Longrightarrow> keeps (only P) (act_bind m k)"
  by (rule keeps_bind) (auto intro: only_trans)

lemma keeps_only_lift: "keeps (only P) (act_lift r)"
  by (simp add: keeps_lift)

lemma keeps_only_return: "keeps (only P) (act_return r)"
  by (simp add: keeps_return)

lemma keeps_onlyD: "keeps (only P) m \<Longrightarrow> m w = (w', r) \<Longrightarrow> only P w w'"
  unfolding keeps_def by (metis fst_conv)

lemma fs_op_only:
  assumes "\<And>f f' q. effect f = Inr f' \<Longrightarrow> q \<notin> P \<Longrightarrow> f' q = f q"
    and "\<And>n f q. q \<notin> P \<Longrightarrow> raised n f q = f q" and "\<And>n f q. q \<notin> P \<Longrightarrow> killed n f q = f q"
  shows "keeps (only P) (fs_op effect raised killed)"
  using assms by (auto simp: keeps_def only_def fs_op_def tick_def split: fault.splits sum.splits)

lemma atomic_op_only:
  "(\<And>f f' q. effect f = Inr f' \<Longrightarrow> q \<notin> P \<Longrightarrow> f' q = f q) \<Longrightarrow> keeps (only P) (atomic_op effect)"
  unfolding atomic_op_def by (rule fs_op_only) (auto split: sum.splits)

lemma append_data_other: "p \<in> P \<Longrightarrow> q \<notin> P \<Longrightarrow> append_data p data f q = f q"
  by (auto simp: append_data_def split: option.splits content.splits)

lemma op_only [intro]:
  "p \<in> P \<Longrightarrow> keeps (only P) (fs_create p)"
  "p \<in> P \<Longrightarrow> keeps (only P) (fs_append p data)"
  "p \<in> P \<Longrightarrow> keeps (only P) (fs_truncate p n)"
  "keeps (only P) fs_sync"
  "p \<in> P \<Longrightarrow> keeps (only P) (fs_write_doc p d)"
  "src \<in> P \<Longrightarrow> p \<in> P \<Longrightarrow> keeps (only P) (fs_replace src p)"
  "p \<in> P \<Longrightarrow> keeps (only P) (fs_link src p)"
  "p \<in> P \<Longrightarrow> keeps (only P) (fs_unlink p)"
  "p \<in> P \<Longrightarrow> keeps (only P) (fs_discard p)"
  unfolding fs_create_def fs_append_def fs_truncate_def fs_sync_def fs_write_doc_def fs_replace_def
    fs_link_def fs_unlink_def fs_discard_def
  by (rule atomic_op_only fs_op_only;
      auto split: option.splits content.splits if_splits simp: append_data_other)+

lemmas keeps_only_intros = keeps_only_bind keeps_only_lift keeps_only_return op_only

section \<open>What a success means\<close>

lemma fs_op_Inr:
  "fs_op effect raised killed w = (w', Inr u) \<Longrightarrow>
     effect (wd_files w) = Inr (wd_files w') \<and> wd_clock w' = Suc (wd_clock w)
     \<and> wd_faults w' = wd_faults w \<and> wd_faults w (wd_clock w) = Fine"
  by (auto simp: fs_op_def tick_def split: fault.splits sum.splits)

lemma fs_create_Inr:
  "fs_create p w = (w', Inr u) \<Longrightarrow> wd_files w p = None \<and> wd_files w' = (wd_files w)(p \<mapsto> Data [])"
  unfolding fs_create_def atomic_op_def by (drule fs_op_Inr) (auto split: if_splits)

lemma fs_append_Inr:
  "fs_append p data w = (w', Inr u) \<Longrightarrow> wd_files w' = append_data p data (wd_files w)"
  unfolding fs_append_def by (drule fs_op_Inr) auto

lemma fs_sync_Inr: "fs_sync w = (w', Inr u) \<Longrightarrow> wd_files w' = wd_files w"
  unfolding fs_sync_def atomic_op_def by (drule fs_op_Inr) auto

lemma fs_link_Inr:
  "fs_link src dst w = (w', Inr u) \<Longrightarrow>
     wd_files w dst = None \<and> (\<exists>c. wd_files w src = Some c \<and> wd_files w' = (wd_files w)(dst \<mapsto> c))"
  unfolding fs_link_def atomic_op_def by (drule fs_op_Inr) (auto split: if_splits option.splits)

lemma fs_unlink_Inr:
  "fs_unlink p w = (w', Inr u) \<Longrightarrow> wd_files w p \<noteq> None \<and> wd_files w' = (wd_files w)(p := None)"
  unfolding fs_unlink_def atomic_op_def by (drule fs_op_Inr) (auto split: if_splits)

lemma fs_discard_Inr:
  "fs_discard p w = (w', Inr u) \<Longrightarrow> wd_files w' = (wd_files w)(p := None)"
  unfolding fs_discard_def atomic_op_def by (drule fs_op_Inr) auto

text \<open>Every outcome of a link leaves the destination alone or equal to the source.\<close>

lemma fs_link_cases:
  assumes "fs_link src dst w = (w', r)"
  shows "wd_files w' = wd_files w
    \<or> wd_files w dst = None \<and> (\<exists>c. wd_files w src = Some c \<and> wd_files w' = (wd_files w)(dst \<mapsto> c))"
  using assms
  by (auto simp: fs_link_def atomic_op_def fs_op_def tick_def split: fault.splits if_splits option.splits)

text \<open>A world in which nothing faults from now on.\<close>

definition calm :: "'d world \<Rightarrow> bool" where
  "calm w \<longleftrightarrow> (\<forall>i \<ge> wd_clock w. wd_faults w i = Fine)"

lemma calm_only: "only P w w' \<Longrightarrow> calm w \<Longrightarrow> calm w'"
  by (auto simp: calm_def only_def)

lemma calm_fs_op:
  "calm w \<Longrightarrow> fs_op effect raised killed w =
     (case effect (wd_files w) of Inl e \<Rightarrow> (tick w, Inl e) | Inr f \<Rightarrow> ((tick w)\<lparr>wd_files := f\<rparr>, Inr ()))"
  by (simp add: calm_def fs_op_def)

lemma calm_tick [simp]: "calm w \<Longrightarrow> calm ((tick w)\<lparr>wd_files := f\<rparr>)" "calm w \<Longrightarrow> calm (tick w)"
  by (auto simp: calm_def tick_def)

end
