(* ===== verification/GgufPublish.thy ===== *)
theory GgufPublish
  imports PyFiles GgufRoundtrip
begin

text \<open>
  The publishing half of \<open>adapters/gguf/writer.py\<close>: \<open>write_gguf_transactionally\<close> streams the planned
  file to a staging name, hashes it on the way, parses it back and links it into place. It runs over
  the worlds of PyFiles, so every call may fault or be the process's last. What another process may
  put at the destination meanwhile is the field \<open>pe_racer\<close>.
\<close>

record write_result =
  wr_path :: path
  wr_size :: int
  wr_sha :: pystr
  wr_tensors :: "planned_tensor list"
  wr_tensor_sha :: "(pystr \<times> pystr) list"

text \<open>
  What the writer asks its surroundings: directories and their file systems (for the disk monitor),
  the random token of the staging name, the default limits of \<open>open_gguf\<close> apart.
\<close>

record 'd publish_env =
  pe_exists :: "path \<Rightarrow> bool"
  pe_probe :: "path \<Rightarrow> disk_error + disk_probe"
  pe_token :: string
  pe_racer :: "'d content option"

section \<open>Streaming\<close>

text \<open>\<open>_write(stream, digest, data)\<close>; a digest object is the bytes it has been fed.\<close>

definition stream_write :: "path \<Rightarrow> bytes \<Rightarrow> bytes \<Rightarrow> ('d world, bytes) act" where
  "stream_write p digest data =
     act_bind (fs_append p data) (\<lambda>_. act_return (digest @ data))"

text \<open>The loop \<open>for chunk in tensor.chunks\<close>.\<close>

fun write_chunks ::
  "(string \<Rightarrow> io_error) \<Rightarrow> path \<Rightarrow> int \<Rightarrow> bytes list \<Rightarrow> int \<Rightarrow> bytes \<Rightarrow> bytes
     \<Rightarrow> ('d world, int \<times> bytes \<times> bytes) act" where
  "write_chunks err p limit [] written digest tensor_digest =
     act_return (written, digest, tensor_digest)"
| "write_chunks err p limit (chunk # chunks) written digest tensor_digest =
     act_bind (act_lift (raise_if (limit - int (length chunk) < written)
                 (err ''supplied too many bytes''))) (\<lambda>_.
     act_bind (stream_write p digest chunk) (\<lambda>digest.
     write_chunks err p limit chunks (written + int (length chunk)) digest (tensor_digest @ chunk)))"

definition write_padding :: "path \<Rightarrow> int \<Rightarrow> int \<Rightarrow> bytes \<Rightarrow> ('d world, int \<times> bytes) act" where
  "write_padding p padding cursor digest =
     (if padding = 0 then act_return (cursor, digest)
      else act_bind (act_lift (raise_if (padding < 0) IoValue)) (\<lambda>_.
           act_bind (stream_write p digest (zeros padding)) (\<lambda>digest.
           act_return (cursor + padding, digest))))"

definition write_one_tensor ::
  "(string \<Rightarrow> io_error) \<Rightarrow> path \<Rightarrow> write_tensor \<Rightarrow> planned_tensor \<Rightarrow> int \<Rightarrow> bytes
     \<Rightarrow> ('d world, int \<times> bytes \<times> bytes) act" where
  "write_one_tensor err p t planned cursor digest =
     act_bind (write_padding p (pt_offset planned - cursor) cursor digest) (\<lambda>(cursor, digest).
     act_bind (write_chunks err p (pt_bytes planned) (wt_chunks t) 0 digest [])
       (\<lambda>(written, digest, tensor_digest).
     act_bind (act_lift (raise_if (written \<noteq> pt_bytes planned) (err ''supplied bytes''))) (\<lambda>_.
     act_return (cursor + written, digest, tensor_digest))))"

text \<open>The loop over \<open>zip(tensors, layout.tensors, strict=True)\<close>.\<close>

fun write_tensors ::
  "path \<Rightarrow> write_tensor list \<Rightarrow> planned_tensor list \<Rightarrow> int \<Rightarrow> bytes \<Rightarrow> (pystr \<times> pystr) list
     \<Rightarrow> ('d world, int \<times> bytes \<times> (pystr \<times> pystr) list) act" where
  "write_tensors p (t # ts) (q # qs) cursor digest digests =
     act_bind (write_one_tensor IoWrite p t q cursor digest) (\<lambda>(cursor, digest, tensor_digest).
     write_tensors p ts qs cursor digest (digests @ [(wt_name t, hexdigest tensor_digest)]))"
| "write_tensors p [] [] cursor digest digests = act_return (cursor, digest, digests)"
| "write_tensors p _ _ cursor digest digests = act_lift (Inl IoValue)"

text \<open>\<open>with open_gguf(staging) as validation\<close>.\<close>

definition staged_container :: "path \<Rightarrow> ('d world, gguf_container) act" where
  "staged_container p w =
     (w, case wd_files w p of
           Some (Data c) \<Rightarrow>
             (case open_gguf default_limits c of Inl e \<Rightarrow> Inl (IoParse e) | Inr m \<Rightarrow> Inr (mm_container m))
         | _ \<Rightarrow> Inl (IoParse (CorruptGGUF ''could not safely read GGUF input'')))"

definition staged_mismatch :: "output_layout \<Rightarrow> gguf_container \<Rightarrow> bool" where
  "staged_mismatch L c \<longleftrightarrow>
     int (gc_file_size c) \<noteq> ol_total L
     \<or> map (\<lambda>t. (td_name t, td_offset t, td_bytes t)) (gc_tensors c)
       \<noteq> map (\<lambda>t. (pt_name t, pt_offset t, pt_bytes t)) (ol_tensors L)"

definition validate_staged :: "path \<Rightarrow> output_layout \<Rightarrow> ('d world, unit) act" where
  "validate_staged p L =
     act_bind (staged_container p) (\<lambda>c.
     act_lift (raise_if (staged_mismatch L c) (IoWrite ''staged GGUF failed validation'')))"

text \<open>Another process creates the destination, if it does at all, before the link.\<close>

definition others_create :: "path \<Rightarrow> 'd content option \<Rightarrow> ('d world, unit) act" where
  "others_create p c w =
     (if c \<noteq> None \<and> wd_files w p = None then (w\<lparr>wd_files := (wd_files w)(p := c)\<rparr>, Inr ())
      else (w, Inr ()))"

definition publish_link :: "(string \<Rightarrow> io_error) \<Rightarrow> path \<Rightarrow> path \<Rightarrow> ('d world, unit) act" where
  "publish_link err staging output w =
     (case fs_link staging output w of
        (w', Inl e) \<Rightarrow> (w', Inl (if e = IoExists then err ''destination appeared'' else e))
      | (w', Inr u) \<Rightarrow> (w', Inr u))"

section \<open>The transaction\<close>

definition staging_path :: "string \<Rightarrow> path \<Rightarrow> path" where
  "staging_path token output =
     butlast output @ [''.'' @ last output @ ''.modelsurgeon-'' @ token @ ''.tmp'']"

definition write_staged ::
  "'d publish_env \<Rightarrow> path \<Rightarrow> path \<Rightarrow> output_layout \<Rightarrow> write_tensor list
     \<Rightarrow> ('d world, bytes \<times> (pystr \<times> pystr) list) act" where
  "write_staged env staging output L tensors =
     act_bind (fs_create staging) (\<lambda>_.
     act_bind (stream_write staging [] (ol_header L)) (\<lambda>digest.
     act_bind (act_lift (raise_if (ol_data_offset L < int (length (ol_header L))) IoValue)) (\<lambda>_.
     act_bind (stream_write staging digest (zeros (ol_data_offset L - int (length (ol_header L))))) (\<lambda>digest.
     act_bind (write_tensors staging tensors (ol_tensors L) (ol_data_offset L) digest [])
       (\<lambda>(cursor, digest, digests).
     act_bind (act_lift (raise_if (cursor \<noteq> ol_total L)
                 (IoWrite ''written size does not match the planned layout''))) (\<lambda>_.
     act_bind fs_sync (\<lambda>_.
     act_bind (validate_staged staging L) (\<lambda>_.
     act_return (digest, digests)))))))))"

definition publish_staged :: "'d publish_env \<Rightarrow> path \<Rightarrow> path \<Rightarrow> ('d world, unit) act" where
  "publish_staged env staging output =
     act_bind (others_create output (pe_racer env)) (\<lambda>_.
     act_bind (publish_link IoWrite staging output) (\<lambda>_.
     act_bind (fs_unlink staging) (\<lambda>_.
     fs_sync)))"

text \<open>The checks before the staging file exists; they read the world and change nothing.\<close>

definition write_plan ::
  "'d publish_env \<Rightarrow> path \<Rightarrow> write_metadata list \<Rightarrow> write_tensor list \<Rightarrow> disk_plan \<Rightarrow> int
     \<Rightarrow> byte_order \<Rightarrow> int \<Rightarrow> 'd world \<Rightarrow> io_error + output_layout" where
  "write_plan env output metadata tensors plan version bo alignment w =
     rbind (raise_if (output \<noteq> pl_output plan)
              (IoWrite ''disk plan output does not match writer destination'')) (\<lambda>_.
     rbind (raise_if (wd_files w output \<noteq> None) (IoWrite ''GGUF destination already exists'')) (\<lambda>_.
     rbind (except (plan_gguf_output metadata tensors version bo alignment)
              (\<lambda>e. case e of GGUFWrite m \<Rightarrow> IoWrite m)) (\<lambda>L.
     rbind (raise_if (aligned_output_bytes (pl_estimate plan) < ol_total L)
              (IoWrite ''planned GGUF size exceeds the disk preflight estimate'')) (\<lambda>_.
     rbind (except (monitor_gguf_disk (pe_exists env) (pe_probe env) plan (ol_total L)
                      (de_scratch (pl_estimate plan))) IoDisk) (\<lambda>_.
     rbind (raise_if (output = []) IoValue) (\<lambda>_. Inr L))))))"

definition transaction_body ::
  "'d publish_env \<Rightarrow> path \<Rightarrow> path \<Rightarrow> output_layout \<Rightarrow> write_tensor list
     \<Rightarrow> ('d world, bytes \<times> (pystr \<times> pystr) list) act" where
  "transaction_body env S out L ts =
     act_bind (write_staged env S out L ts) (\<lambda>(digest, digests).
     act_bind (publish_staged env S out) (\<lambda>_. act_return (digest, digests)))"

definition transaction_result ::
  "path \<Rightarrow> output_layout \<Rightarrow> bytes \<times> (pystr \<times> pystr) list \<Rightarrow> write_result" where
  "transaction_result out L x =
     \<lparr>wr_path = out, wr_size = ol_total L, wr_sha = hexdigest (fst x),
      wr_tensors = ol_tensors L, wr_tensor_sha = snd x\<rparr>"

definition write_gguf_transactionally ::
  "'d publish_env \<Rightarrow> path \<Rightarrow> write_metadata list \<Rightarrow> write_tensor list \<Rightarrow> disk_plan \<Rightarrow> int
     \<Rightarrow> byte_order \<Rightarrow> int \<Rightarrow> ('d world, write_result) act" where
  "write_gguf_transactionally env output metadata tensors plan version bo alignment w =
     (case write_plan env output metadata tensors plan version bo alignment w of
        Inl e \<Rightarrow> (w, Inl e)
      | Inr L \<Rightarrow>
          let staging = staging_path (pe_token env) output in
          act_bind (act_cleanup (transaction_body env staging output L tensors) (fs_discard staging))
            (\<lambda>x. act_return (transaction_result output L x)) w)"

section \<open>What the stream holds\<close>

text \<open>The data region from \<open>cursor\<close> on: for each tensor its padding and its chunks.\<close>

fun body_from :: "int \<Rightarrow> (write_tensor \<times> planned_tensor) list \<Rightarrow> bytes" where
  "body_from cursor [] = []"
| "body_from cursor ((t, q) # rest) =
     zeros (pt_offset q - cursor) @ concat (wt_chunks t) @ body_from (pt_offset q + pt_bytes q) rest"

definition tensor_digests :: "write_tensor list \<Rightarrow> (pystr \<times> pystr) list" where
  "tensor_digests ts = map (\<lambda>t. (wt_name t, hexdigest (concat (wt_chunks t)))) ts"

text \<open>The tensors supply the planned sizes and the offsets never run backwards.\<close>

fun sizes_match :: "int \<Rightarrow> (write_tensor \<times> planned_tensor) list \<Rightarrow> int \<Rightarrow> bool" where
  "sizes_match cursor [] end \<longleftrightarrow> cursor = end"
| "sizes_match cursor ((t, q) # rest) end \<longleftrightarrow>
     cursor \<le> pt_offset q \<and> int (length (concat (wt_chunks t))) = pt_bytes q
     \<and> sizes_match (pt_offset q + pt_bytes q) rest end"

lemma length_zeros: "0 \<le> n \<Longrightarrow> int (length (zeros n)) = n"
  by (simp add: zeros_def)

lemma sizes_match_length:
  "sizes_match cursor tqs end \<Longrightarrow> int (length (body_from cursor tqs)) = end - cursor"
  by (induction cursor tqs "end" rule: sizes_match.induct) (auto simp: length_zeros)

definition streams :: "path \<Rightarrow> bytes \<Rightarrow> 'd world \<Rightarrow> bool" where
  "streams p c w \<longleftrightarrow> wd_files w p = Some (Data c)"

lemma stream_write_Inr:
  assumes "stream_write p c data w = (w', Inr d)" and "streams p c w"
  shows "streams p (c @ data) w' \<and> d = c @ data"
  using assms unfolding stream_write_def streams_def
  by (auto simp: act_bind_Inr append_data_def dest!: fs_append_Inr)

lemma write_chunks_Inr:
  assumes "write_chunks err p limit chunks written c td w = (w', Inr (n, d, td'))" and "streams p c w"
  shows "streams p (c @ concat chunks) w' \<and> d = c @ concat chunks \<and> td' = td @ concat chunks
    \<and> n = written + int (length (concat chunks))"
  using assms
proof (induction chunks arbitrary: written c td w)
  case (Cons chunk chunks)
  then obtain w1 d1 where 1: "stream_write p c chunk w = (w1, Inr d1)"
    and 2: "write_chunks err p limit chunks (written + int (length chunk)) d1 (td @ chunk) w1
      = (w', Inr (n, d, td'))"
    by (auto simp: act_bind_Inr)
  from stream_write_Inr [OF 1 Cons.prems(2)] have "streams p (c @ chunk) w1" "d1 = c @ chunk" by auto
  then show ?case using Cons.IH [of "written + int (length chunk)" "c @ chunk" "td @ chunk" w1] 2 by simp
qed simp

lemma write_padding_Inr:
  assumes "write_padding p n cursor c w = (w', Inr (cursor', d))" and "streams p c w"
  shows "streams p (c @ zeros n) w' \<and> d = c @ zeros n \<and> cursor' = cursor + n \<and> 0 \<le> n"
  using assms stream_write_Inr [of p c "zeros n" w]
  by (auto simp: write_padding_def act_bind_Inr zeros_def split: if_splits)

lemma write_one_tensor_Inr:
  assumes "write_one_tensor err p t q cursor c w = (w', Inr (cursor', d, td))" and "streams p c w"
  shows "d = c @ body_from cursor [(t, q)] \<and> streams p d w' \<and> td = concat (wt_chunks t)
    \<and> sizes_match cursor [(t, q)] cursor'"
proof -
  from assms(1) obtain w1 x d1 where
    1: "write_padding p (pt_offset q - cursor) cursor c w = (w1, Inr (x, d1))"
    and rest: "act_bind (write_chunks err p (pt_bytes q) (wt_chunks t) 0 d1 [])
      (\<lambda>(written, digest, tensor_digest).
        act_bind (act_lift (raise_if (written \<noteq> pt_bytes q) (err ''supplied bytes'')))
          (\<lambda>_. act_return (x + written, digest, tensor_digest))) w1 = (w', Inr (cursor', d, td))"
    by (auto simp: write_one_tensor_def act_bind_Inr)
  from write_padding_Inr [OF 1 assms(2)]
  have p: "streams p d1 w1" "d1 = c @ zeros (pt_offset q - cursor)" "cursor \<le> pt_offset q"
    "x = pt_offset q" by auto
  from rest have 2: "write_chunks err p (pt_bytes q) (wt_chunks t) 0 d1 [] w1 = (w', Inr (pt_bytes q, d, td))"
    and 3: "cursor' = x + pt_bytes q"
    by (auto simp: act_bind_Inr)
  from write_chunks_Inr [OF 2 p(1)] p 3 show ?thesis by auto
qed

lemma body_from_Cons: "body_from c (tq # rest) = body_from c [tq] @ body_from (pt_offset (snd tq) + pt_bytes (snd tq)) rest"
  by (cases tq) simp

lemma write_tensors_Inr:
  assumes "write_tensors p ts qs cursor c ds w = (w', Inr (cursor', d, ds'))" and "streams p c w"
  shows "length ts = length qs \<and> d = c @ body_from cursor (zip ts qs) \<and> streams p d w'
    \<and> sizes_match cursor (zip ts qs) cursor' \<and> ds' = ds @ tensor_digests ts"
  using assms
proof (induction p ts qs cursor c ds arbitrary: w rule: write_tensors.induct)
  case (1 p t ts q qs cursor c ds)
  from 1(2) obtain w1 cu d1 td where
    a: "write_one_tensor IoWrite p t q cursor c w = (w1, Inr (cu, d1, td))"
    and b: "write_tensors p ts qs cu d1 (ds @ [(wt_name t, hexdigest td)]) w1 = (w', Inr (cursor', d, ds'))"
    by (auto simp: act_bind_Inr)
  from write_one_tensor_Inr [OF a 1(3)]
  have c: "d1 = c @ body_from cursor [(t, q)]" "streams p d1 w1" "td = concat (wt_chunks t)"
    "sizes_match cursor [(t, q)] cu" by auto
  have "length ts = length qs \<and> d = d1 @ body_from cu (zip ts qs) \<and> streams p d w'
    \<and> sizes_match cu (zip ts qs) cursor' \<and> ds' = (ds @ [(wt_name t, hexdigest td)]) @ tensor_digests ts"
    by (rule 1(1) [OF b c(2)])
  with c show ?case by (auto simp: tensor_digests_def)
qed (simp_all add: tensor_digests_def)

section \<open>What the transaction touches\<close>

lemma stream_write_only: "p \<in> P \<Longrightarrow> keeps (only P) (stream_write p c data)"
  unfolding stream_write_def by (intro keeps_only_intros)

lemma write_chunks_only: "p \<in> P \<Longrightarrow> keeps (only P) (write_chunks err p limit chunks n c td)"
  by (induction chunks arbitrary: n c td)
    (auto intro!: keeps_only_bind keeps_only_lift keeps_only_return stream_write_only)

lemma write_padding_only: "p \<in> P \<Longrightarrow> keeps (only P) (write_padding p n cursor c)"
  unfolding write_padding_def
  by (auto intro!: keeps_only_bind keeps_only_lift keeps_only_return stream_write_only)

lemma write_one_tensor_only: "p \<in> P \<Longrightarrow> keeps (only P) (write_one_tensor err p t q cursor c)"
  unfolding write_one_tensor_def
  by (auto intro!: keeps_only_bind keeps_only_lift keeps_only_return write_padding_only write_chunks_only)

lemma write_tensors_only: "p \<in> P \<Longrightarrow> keeps (only P) (write_tensors p ts qs cursor c ds)"
  by (induction p ts qs cursor c ds rule: write_tensors.induct)
    (auto intro!: keeps_only_bind keeps_only_lift keeps_only_return write_one_tensor_only)

lemma validate_staged_only: "keeps (only P) (validate_staged p L)"
proof -
  have "keeps (only P) (staged_container p)" by (simp add: keeps_def staged_container_def)
  then show ?thesis unfolding validate_staged_def by (intro keeps_only_bind keeps_only_lift)
qed

lemma write_staged_only: "S \<in> P \<Longrightarrow> keeps (only P) (write_staged env S out L ts)"
  unfolding write_staged_def
  by (auto intro!: keeps_only_bind keeps_only_lift keeps_only_return op_only stream_write_only
      write_tensors_only validate_staged_only)

lemma publish_link_only: "out \<in> P \<Longrightarrow> keeps (only P) (publish_link err S out)"
proof -
  assume out: "out \<in> P"
  have "fst (publish_link err S out w) = fst (fs_link S out w)" for w :: "'a world"
    by (simp add: publish_link_def split: prod.splits sum.splits)
  then show ?thesis using op_only(7) [OF out, of S] by (simp add: keeps_def)
qed

lemma others_create_only: "out \<in> P \<Longrightarrow> keeps (only P) (others_create out c)"
  by (auto simp: keeps_def others_create_def only_def)

lemma publish_staged_only: "S \<in> P \<Longrightarrow> out \<in> P \<Longrightarrow> keeps (only P) (publish_staged env S out)"
  unfolding publish_staged_def
  by (auto intro!: keeps_only_bind op_only publish_link_only others_create_only)

section \<open>What a staged file is\<close>

definition complete_file :: "output_layout \<Rightarrow> write_tensor list \<Rightarrow> bytes" where
  "complete_file L ts = written_file L (body_from (ol_data_offset L) (zip ts (ol_tensors L)))"

text \<open>The file has the planned bytes and parses to the planned offsets.\<close>

definition valid_output :: "output_layout \<Rightarrow> write_tensor list \<Rightarrow> bool" where
  "valid_output L ts \<longleftrightarrow>
     sizes_match (ol_data_offset L) (zip ts (ol_tensors L)) (ol_total L)
     \<and> int (length (complete_file L ts)) = ol_total L
     \<and> (\<exists>c. parse_gguf default_limits (complete_file L ts) = Inr c \<and> \<not> staged_mismatch L c)"

lemma validate_staged_Inr:
  assumes "validate_staged p L w = (w', Inr u)" and "streams p c w"
  shows "w' = w \<and> (\<exists>gc. parse_gguf default_limits c = Inr gc \<and> \<not> staged_mismatch L gc)"
  using assms
  by (auto simp: validate_staged_def act_bind_Inr staged_container_def streams_def open_gguf_def
      rbind_raise_if split: sum.splits if_splits)

lemma write_staged_Inr:
  assumes "write_staged env S out L ts w = (w', Inr (d, ds))"
  shows "d = complete_file L ts \<and> streams S d w' \<and> ds = tensor_digests ts \<and> valid_output L ts
    \<and> length ts = length (ol_tensors L)"
proof -
  let ?pad = "zeros (ol_data_offset L - int (length (ol_header L)))"
  from assms obtain w1 w2 d2 w3 d3 w4 cu d4 ds4 w5 where
    1: "fs_create S w = (w1, Inr ())"
    and 2: "stream_write S [] (ol_header L) w1 = (w2, Inr d2)"
    and le: "int (length (ol_header L)) \<le> ol_data_offset L"
    and 3: "stream_write S d2 ?pad w2 = (w3, Inr d3)"
    and 4: "write_tensors S ts (ol_tensors L) (ol_data_offset L) d3 [] w3 = (w4, Inr (ol_total L, d4, ds4))"
    and 5: "fs_sync w4 = (w5, Inr ())"
    and 6: "validate_staged S L w5 = (w', Inr ())" and e: "d = d4" "ds = ds4"
    by (auto simp: write_staged_def act_bind_Inr)
  have s1: "streams S [] w1" using fs_create_Inr [OF 1] by (simp add: streams_def)
  from stream_write_Inr [OF 2 s1] have s2: "streams S (ol_header L) w2" "d2 = ol_header L" by auto
  from stream_write_Inr [of S d2 ?pad w2] 3 s2
  have s3: "streams S d3 w3" "d3 = ol_header L @ ?pad" by auto
  from write_tensors_Inr [OF 4 s3(1)] s3(2)
  have s4: "d4 = complete_file L ts" "streams S d4 w4" "length ts = length (ol_tensors L)"
    "sizes_match (ol_data_offset L) (zip ts (ol_tensors L)) (ol_total L)" "ds4 = tensor_digests ts"
    by (auto simp: complete_file_def written_file_def)
  have "int (length (complete_file L ts)) = ol_total L"
    using sizes_match_length [OF s4(4)] le by (simp add: complete_file_def written_file_def length_zeros)
  moreover have s5: "streams S d4 w5" using fs_sync_Inr [OF 5] s4(2) by (simp add: streams_def)
  ultimately show ?thesis
    using validate_staged_Inr [OF 6 s5] s4 s5 e by (auto simp: valid_output_def)
qed

lemma staging_path_neq: "out \<noteq> [] \<Longrightarrow> staging_path token out \<noteq> out"
proof
  assume "out \<noteq> []" and "staging_path token out = out"
  then have "last (staging_path token out) = last out" by simp
  then have "length (last (staging_path token out)) = length (last out)" by simp
  then show False by (simp add: staging_path_def)
qed

lemma write_plan_Inr:
  "write_plan env out md ts plan ver bo al w = Inr L \<Longrightarrow>
     out \<noteq> [] \<and> wd_files w out = None \<and> plan_gguf_output md ts ver bo al = Inr L"
  by (auto simp: write_plan_def rbind_raise_if rbind_Inr_iff split: if_splits)

text \<open>Every outcome of publishing a staged file.\<close>

lemma publish_staged_cases:
  assumes "publish_staged env S out w = (w', r)" and "S \<noteq> out" and "streams S c w"
  shows "wd_files w' out = wd_files w out
    \<or> wd_files w out = None \<and> (wd_files w' out = pe_racer env
        \<or> pe_racer env = None \<and> wd_files w' out = Some (Data c))"
    and "r = Inr u \<Longrightarrow> wd_files w' out = Some (Data c) \<and> wd_files w' S = None"
proof -
  define w1 where "w1 = fst (others_create out (pe_racer env) w)"
  then have o: "others_create out (pe_racer env) w = (w1, Inr ())"
    and w1: "wd_files w1 out = (if wd_files w out = None then pe_racer env else wd_files w out)"
    "wd_files w1 S = Some (Data c)"
    using assms(2,3) by (auto simp: others_create_def streams_def split: if_splits)
  obtain w2 r2 where l: "fs_link S out w1 = (w2, r2)" by (cases "fs_link S out w1")
  have w2: "wd_files w2 out = wd_files w1 out
      \<or> wd_files w1 out = None \<and> wd_files w2 out = Some (Data c)"
    using fs_link_cases [OF l] w1(2) by auto
  have k: "keeps (only {S}) (act_bind (fs_unlink S) (\<lambda>_. fs_sync))"
    by (auto intro!: keeps_only_bind op_only)
  have eq: "publish_staged env S out w = (case r2 of
      Inl e \<Rightarrow> (w2, Inl (if e = IoExists then IoWrite ''destination appeared'' else e))
    | Inr u \<Rightarrow> act_bind (fs_unlink S) (\<lambda>_. fs_sync) w2)"
    by (simp add: publish_staged_def act_bind_def o publish_link_def l split: sum.splits)
  have out: "wd_files w' out = wd_files w2 out"
    using eq assms(1,2) keeps_onlyD [OF k, of w2 w' r] by (auto simp: only_def split: sum.splits)
  show "wd_files w' out = wd_files w out
    \<or> wd_files w out = None \<and> (wd_files w' out = pe_racer env
        \<or> pe_racer env = None \<and> wd_files w' out = Some (Data c))"
    using out w1 w2 by (auto split: if_splits)
  assume r: "r = Inr u"
  then obtain u2 where r2: "r2 = Inr u2" and b: "act_bind (fs_unlink S) (\<lambda>_. fs_sync) w2 = (w', Inr u)"
    using eq assms(1) by (cases r2) auto
  from b obtain w3 where "fs_unlink S w2 = (w3, Inr ())" "fs_sync w3 = (w', Inr u)"
    by (auto simp: act_bind_Inr)
  then have "wd_files w' S = None" using fs_unlink_Inr fs_sync_Inr by fastforce
  moreover have "wd_files w2 out = Some (Data c)"
    using fs_link_Inr [OF l [unfolded r2]] w1(2) by auto
  ultimately show "wd_files w' out = Some (Data c) \<and> wd_files w' S = None" using out by simp
qed

section \<open>Atomic publication\<close>

lemma act_cleanup_then:
  assumes "act_bind (act_cleanup m c) (\<lambda>x. act_return (f x)) w = (w', r)" and "m w = (w1, r1)"
  shows "case r1 of
      Inr x \<Rightarrow> w' = w1 \<and> r = Inr (f x)
    | Inl e \<Rightarrow> if e = IoKilled then w' = w1 \<and> r = Inl e
        else \<exists>rc. c w1 = (w', rc) \<and> r = (case rc of Inl e' \<Rightarrow> Inl e' | Inr _ \<Rightarrow> Inl e)"
  using assms
  by (cases "c w1") (auto simp: act_bind_def act_cleanup_def act_return_def split: sum.splits if_splits)

lemma transaction_steps:
  assumes "write_gguf_transactionally env out md ts plan ver bo al w = (w', r)"
    and "write_plan env out md ts plan ver bo al w = Inr L" and "S = staging_path (pe_token env) out"
    and "transaction_body env S out L ts w = (w1, r1)"
  shows "case r1 of
      Inr x \<Rightarrow> w' = w1 \<and> r = Inr (transaction_result out L x)
    | Inl e \<Rightarrow> if e = IoKilled then w' = w1 \<and> r = Inl e
        else \<exists>rc. fs_discard S w1 = (w', rc) \<and> r = (case rc of Inl e' \<Rightarrow> Inl e' | Inr _ \<Rightarrow> Inl e)"
  using assms(1) act_cleanup_then [where m = "transaction_body env S out L ts" and c = "fs_discard S"
      and f = "transaction_result out L" and w = w, OF _ assms(4)]
  by (simp add: write_gguf_transactionally_def assms(2,3) Let_def)

lemma transaction_body_only: "keeps (only {S, out}) (transaction_body env S out L ts)"
  unfolding transaction_body_def
  by (auto intro!: keeps_only_bind keeps_only_return write_staged_only publish_staged_only)

lemma transaction_body_cases:
  assumes "transaction_body env S out L ts w = (w1, r1)" and neq: "S \<noteq> out"
  shows "only {S, out} w w1"
    and "wd_files w1 out = wd_files w out
       \<or> wd_files w out = None \<and> (wd_files w1 out = pe_racer env
           \<or> wd_files w1 out = Some (Data (complete_file L ts)) \<and> valid_output L ts)"
    and "r1 = Inr (d, ds) \<Longrightarrow> wd_files w1 out = Some (Data (complete_file L ts)) \<and> valid_output L ts
       \<and> wd_files w1 S = None \<and> d = complete_file L ts \<and> ds = tensor_digests ts"
proof -
  show "only {S, out} w w1"
    by (rule keeps_onlyD [OF transaction_body_only assms(1)])
  obtain ws rs where ws: "write_staged env S out L ts w = (ws, rs)"
    by (cases "write_staged env S out L ts w")
  have ws_out: "wd_files ws out = wd_files w out"
    using keeps_onlyD [OF write_staged_only [of S "{S}"] ws] neq by (simp add: only_def)
  have "(wd_files w1 out = wd_files w out
       \<or> wd_files w out = None \<and> (wd_files w1 out = pe_racer env
           \<or> wd_files w1 out = Some (Data (complete_file L ts)) \<and> valid_output L ts))
    \<and> (r1 = Inr (d, ds) \<longrightarrow> wd_files w1 out = Some (Data (complete_file L ts)) \<and> valid_output L ts
       \<and> wd_files w1 S = None \<and> d = complete_file L ts \<and> ds = tensor_digests ts)"
  proof (cases rs)
    case (Inl e)
    then show ?thesis using assms(1) ws ws_out by (auto simp: transaction_body_def act_bind_def)
  next
    case (Inr dd)
    obtain d' ds' where dd: "dd = (d', ds')" by (cases dd)
    from write_staged_Inr [OF ws [unfolded Inr dd]]
    have st: "d' = complete_file L ts" "streams S d' ws" "ds' = tensor_digests ts" "valid_output L ts"
      by auto
    obtain wp rp where wp: "publish_staged env S out ws = (wp, rp)"
      by (cases "publish_staged env S out ws")
    have w1: "w1 = wp" and r1: "case rp of Inl e \<Rightarrow> r1 = Inl e | Inr _ \<Rightarrow> r1 = Inr (d', ds')"
      using assms(1) ws wp Inr dd
      by (auto simp: transaction_body_def act_bind_def act_return_def split: sum.splits)
    note c = publish_staged_cases [OF wp neq st(2)]
    show ?thesis
      using c(1) c(2) st r1 unfolding w1 ws_out by (cases rp) auto
  qed
  then show "wd_files w1 out = wd_files w out
       \<or> wd_files w out = None \<and> (wd_files w1 out = pe_racer env
           \<or> wd_files w1 out = Some (Data (complete_file L ts)) \<and> valid_output L ts)"
    and "r1 = Inr (d, ds) \<Longrightarrow> wd_files w1 out = Some (Data (complete_file L ts)) \<and> valid_output L ts
       \<and> wd_files w1 S = None \<and> d = complete_file L ts \<and> ds = tensor_digests ts"
    by blast+
qed

lemma fs_discard_cases:
  assumes "fs_discard S w = (w', rc)"
  shows "only {S} w w' \<and> (wd_files w' S = None
    \<or> wd_faults w (wd_clock w' - 1) \<noteq> Fine)"
  using assms
  by (auto simp: fs_discard_def atomic_op_def fs_op_def tick_def only_def split: fault.splits if_splits)

definition published :: "output_layout \<Rightarrow> write_tensor list \<Rightarrow> path \<Rightarrow> 'd world \<Rightarrow> bool" where
  "published L ts out w \<longleftrightarrow>
     wd_files w out = Some (Data (complete_file L ts)) \<and> valid_output L ts"

text \<open>
  C5. Publication is atomic under any schedule of faults and kills: no file but the destination and
  the staging name is touched; the destination is left as it was, or was absent and now is what a
  racing process put there, or holds the complete file, which has the planned size and parses back
  to the planned tensors; it is never overwritten and never partial. A success means the complete
  file is there, the staging file is gone, and the result carries the file's size and SHA-256 and
  each tensor's; after an error that is not a kill the staging file is gone unless removing it failed.
\<close>
theorem publication_atomic:
  assumes "write_gguf_transactionally env out md ts plan ver bo al w = (w', r)"
    and "S = staging_path (pe_token env) out" and "wd_files w S = None"
  shows "(\<forall>q. q \<noteq> out \<and> q \<noteq> S \<longrightarrow> wd_files w' q = wd_files w q)
    \<and> (wd_files w' out = wd_files w out
       \<or> wd_files w out = None \<and> (wd_files w' out = pe_racer env
           \<or> (\<exists>L. plan_gguf_output md ts ver bo al = Inr L \<and> published L ts out w')))
    \<and> (case r of
         Inr res \<Rightarrow> wd_files w' S = None \<and> (\<exists>L. plan_gguf_output md ts ver bo al = Inr L
           \<and> published L ts out w' \<and> wr_path res = out
           \<and> wr_size res = int (length (complete_file L ts))
           \<and> wr_sha res = hexdigest (complete_file L ts) \<and> wr_tensors res = ol_tensors L
           \<and> wr_tensor_sha res = tensor_digests ts)
       | Inl e \<Rightarrow> e = IoKilled \<or> wd_files w' S = None \<or> wd_faults w (wd_clock w' - 1) \<noteq> Fine)"
proof (cases "write_plan env out md ts plan ver bo al w")
  case (Inl e)
  then show ?thesis using assms by (auto simp: write_gguf_transactionally_def)
next
  case (Inr L)
  note plan = write_plan_Inr [OF Inr]
  have neq: "S \<noteq> out" unfolding assms(2) using plan by (intro staging_path_neq) simp
  obtain w1 r1 where body: "transaction_body env S out L ts w = (w1, r1)"
    by (cases "transaction_body env S out L ts w")
  note steps = transaction_steps [OF assms(1) Inr assms(2) body]
  note cases = transaction_body_cases [OF body neq]
  have f: "wd_faults w1 = wd_faults w" using cases(1) by (simp add: only_def)
  have tail: "only {S} w1 w' \<and> (case r of
      Inr res \<Rightarrow> \<exists>d ds. r1 = Inr (d, ds) \<and> w' = w1 \<and> res = transaction_result out L (d, ds)
    | Inl e \<Rightarrow> e = IoKilled \<or> wd_files w' S = None \<or> wd_faults w (wd_clock w' - 1) \<noteq> Fine)"
  proof (cases r1)
    case r1: (Inl e)
    show ?thesis
    proof (cases "e = IoKilled")
      case False
      then obtain rc where rc: "fs_discard S w1 = (w', rc)"
        "r = (case rc of Inl e' \<Rightarrow> Inl e' | Inr _ \<Rightarrow> Inl e)" using steps r1 by auto
      with fs_discard_cases [OF rc(1)] f show ?thesis by (auto split: sum.splits)
    qed (use steps r1 in auto)
  qed (use steps in auto)
  have frame: "\<forall>q. q \<noteq> out \<and> q \<noteq> S \<longrightarrow> wd_files w' q = wd_files w q"
    using cases(1) tail by (simp add: only_def)
  have out': "wd_files w' out = wd_files w1 out" using tail neq by (simp add: only_def)
  show ?thesis
  proof (intro conjI)
    show "wd_files w' out = wd_files w out
       \<or> wd_files w out = None \<and> (wd_files w' out = pe_racer env
           \<or> (\<exists>L. plan_gguf_output md ts ver bo al = Inr L \<and> published L ts out w'))"
      using cases(2) plan out' by (auto simp: published_def)
    show "case r of
         Inr res \<Rightarrow> wd_files w' S = None \<and> (\<exists>L. plan_gguf_output md ts ver bo al = Inr L
           \<and> published L ts out w' \<and> wr_path res = out
           \<and> wr_size res = int (length (complete_file L ts))
           \<and> wr_sha res = hexdigest (complete_file L ts) \<and> wr_tensors res = ol_tensors L
           \<and> wr_tensor_sha res = tensor_digests ts)
       | Inl e \<Rightarrow> e = IoKilled \<or> wd_files w' S = None \<or> wd_faults w (wd_clock w' - 1) \<noteq> Fine"
    proof (cases r)
      case (Inr res)
      then obtain d ds where x: "r1 = Inr (d, ds)" "w' = w1" "res = transaction_result out L (d, ds)"
        using tail by auto
      from cases(3) [OF x(1)] Inr x plan show ?thesis
        by (simp add: published_def transaction_result_def valid_output_def)
    qed (use tail in auto)
  qed (rule frame)
qed

section \<open>Without faults the transaction succeeds\<close>

lemma stream_write_calm:
  assumes "calm w" and "streams p c w"
  shows "\<exists>w'. stream_write p c data w = (w', Inr (c @ data)) \<and> calm w' \<and> streams p (c @ data) w'"
  using assms
  by (simp add: stream_write_def act_bind_def fs_append_def calm_fs_op act_return_def streams_def
      append_data_def tick_def calm_def)

lemma write_chunks_calm:
  assumes "calm w" and "streams p c w" and "n + int (length (concat chunks)) \<le> limit"
  shows "\<exists>w'. write_chunks err p limit chunks n c td w
      = (w', Inr (n + int (length (concat chunks)), c @ concat chunks, td @ concat chunks))
    \<and> calm w' \<and> streams p (c @ concat chunks) w'"
  using assms
proof (induction chunks arbitrary: n c td w)
  case (Cons chunk chunks)
  obtain w1 where 1: "stream_write p c chunk w = (w1, Inr (c @ chunk))" "calm w1" "streams p (c @ chunk) w1"
    using stream_write_calm [OF Cons.prems(1,2)] by blast
  have "\<not> limit - int (length chunk) < n" using Cons.prems(3) by simp
  then show ?case
    using Cons.IH [OF 1(2,3), of "n + int (length chunk)" "td @ chunk"] Cons.prems(3) 1(1)
    by (simp add: act_bind_def act_lift_def raise_if_def add.assoc)
qed (simp add: act_return_def)

lemma write_padding_calm:
  assumes "calm w" and "streams p c w" and "0 \<le> n"
  shows "\<exists>w'. write_padding p n cursor c w = (w', Inr (cursor + n, c @ zeros n))
    \<and> calm w' \<and> streams p (c @ zeros n) w'"
proof -
  obtain w1 where 1: "stream_write p c (zeros n) w = (w1, Inr (c @ zeros n))" "calm w1"
    "streams p (c @ zeros n) w1"
    using stream_write_calm [OF assms(1,2)] by blast
  show ?thesis
    using assms 1 by (auto simp: write_padding_def act_bind_def act_lift_def raise_if_def act_return_def zeros_def)
qed

lemma write_one_tensor_calm:
  assumes "calm w" and "streams p c w" and "sizes_match cursor [(t, q)] end"
  shows "\<exists>w'. write_one_tensor err p t q cursor c w
      = (w', Inr (end, c @ body_from cursor [(t, q)], concat (wt_chunks t)))
    \<and> calm w' \<and> streams p (c @ body_from cursor [(t, q)]) w'"
proof -
  from assms(3) have q: "0 \<le> pt_offset q - cursor" "int (length (concat (wt_chunks t))) = pt_bytes q"
    "pt_offset q + pt_bytes q = end" by auto
  obtain w1 where 1: "write_padding p (pt_offset q - cursor) cursor c w
      = (w1, Inr (pt_offset q, c @ zeros (pt_offset q - cursor)))" "calm w1"
    "streams p (c @ zeros (pt_offset q - cursor)) w1"
    using write_padding_calm [OF assms(1,2) q(1), of cursor] by auto
  from write_chunks_calm [OF 1(2,3), of 0 "wt_chunks t" "pt_bytes q" err "[]"] q(2)
  obtain w2 where 2: "write_chunks err p (pt_bytes q) (wt_chunks t) 0 (c @ zeros (pt_offset q - cursor)) [] w1
      = (w2, Inr (pt_bytes q, (c @ zeros (pt_offset q - cursor)) @ concat (wt_chunks t), concat (wt_chunks t)))"
    "calm w2" "streams p ((c @ zeros (pt_offset q - cursor)) @ concat (wt_chunks t)) w2" by auto
  show ?thesis
    using 1 2 q(3) by (simp add: write_one_tensor_def act_bind_def act_lift_def raise_if_def act_return_def)
qed

lemma write_tensors_calm:
  assumes "calm w" and "streams p c w" and "length ts = length qs"
    and "sizes_match cursor (zip ts qs) end"
  shows "\<exists>w'. write_tensors p ts qs cursor c ds w
      = (w', Inr (end, c @ body_from cursor (zip ts qs), ds @ tensor_digests ts))
    \<and> calm w' \<and> streams p (c @ body_from cursor (zip ts qs)) w'"
  using assms
proof (induction ts arbitrary: qs cursor c ds w)
  case Nil
  then show ?case by (simp add: act_return_def tensor_digests_def)
next
  case (Cons t ts)
  then obtain q qs' where qs: "qs = q # qs'" by (cases qs) auto
  let ?c = "c @ body_from cursor [(t, q)]"
  have sm: "sizes_match cursor [(t, q)] (pt_offset q + pt_bytes q)"
    "sizes_match (pt_offset q + pt_bytes q) (zip ts qs') end" using Cons.prems(4) qs by auto
  obtain w1 where 1: "write_one_tensor IoWrite p t q cursor c w
      = (w1, Inr (pt_offset q + pt_bytes q, ?c, concat (wt_chunks t)))" "calm w1" "streams p ?c w1"
    using write_one_tensor_calm [OF Cons.prems(1,2) sm(1)] by blast
  have len: "length ts = length qs'" using Cons.prems(3) qs by simp
  show ?case
    using Cons.IH [OF 1(2,3) len sm(2), of "ds @ [(wt_name t, hexdigest (concat (wt_chunks t)))]"] 1(1)
    by (simp add: qs act_bind_def tensor_digests_def)
qed

lemma write_staged_calm:
  assumes "calm w" and "wd_files w S = None" and "valid_output L ts"
    and "length ts = length (ol_tensors L)" and "int (length (ol_header L)) \<le> ol_data_offset L"
  shows "\<exists>w'. write_staged env S out L ts w = (w', Inr (complete_file L ts, tensor_digests ts))
    \<and> calm w' \<and> streams S (complete_file L ts) w'"
proof -
  let ?pad = "zeros (ol_data_offset L - int (length (ol_header L)))"
  from assms(3) have sm: "sizes_match (ol_data_offset L) (zip ts (ol_tensors L)) (ol_total L)"
    and ok: "\<exists>c. parse_gguf default_limits (complete_file L ts) = Inr c \<and> \<not> staged_mismatch L c"
    by (auto simp: valid_output_def)
  obtain w1 where 1: "fs_create S w = (w1, Inr ())" "calm w1" "streams S [] w1"
    using assms(1,2) by (simp add: fs_create_def atomic_op_def calm_fs_op streams_def)
  obtain w2 where 2: "stream_write S [] (ol_header L) w1 = (w2, Inr (ol_header L))" "calm w2"
    "streams S (ol_header L) w2" using stream_write_calm [OF 1(2,3)] by fastforce
  obtain w3 where 3: "stream_write S (ol_header L) ?pad w2 = (w3, Inr (ol_header L @ ?pad))" "calm w3"
    "streams S (ol_header L @ ?pad) w3" using stream_write_calm [OF 2(2,3)] by blast
  have full: "(ol_header L @ ?pad) @ body_from (ol_data_offset L) (zip ts (ol_tensors L)) = complete_file L ts"
    by (simp add: complete_file_def written_file_def)
  obtain w4 where 4: "write_tensors S ts (ol_tensors L) (ol_data_offset L) (ol_header L @ ?pad) [] w3
      = (w4, Inr (ol_total L, complete_file L ts, tensor_digests ts))" "calm w4"
    "streams S (complete_file L ts) w4"
    using write_tensors_calm [OF 3(2,3) assms(4) sm, of "[]"] unfolding full by auto
  obtain w5 where 5: "fs_sync w4 = (w5, Inr ())" "calm w5" "streams S (complete_file L ts) w5"
    using 4(2,3) by (simp add: fs_sync_def atomic_op_def calm_fs_op streams_def)
  have "complete_file L ts \<noteq> []" using ok by (auto simp: parse_gguf_def parse_header_def rbind_raise_if)
  then have 6: "validate_staged S L w5 = (w5, Inr ())"
    using ok 5(3) by (auto simp: validate_staged_def act_bind_def staged_container_def streams_def
        open_gguf_def rbind_raise_if act_lift_def raise_if_def)
  show ?thesis
    using 1 2 3 4 5 6 assms(5) full
    by (simp add: write_staged_def act_bind_def act_lift_def raise_if_def act_return_def)
qed

lemma publish_staged_calm:
  assumes "calm w" and "streams S c w" and "wd_files w out = None" and "pe_racer env = None" and "S \<noteq> out"
  shows "\<exists>w'. publish_staged env S out w = (w', Inr ())"
  using assms
  by (simp add: publish_staged_def act_bind_def others_create_def publish_link_def fs_link_def
      atomic_op_def calm_fs_op streams_def fs_unlink_def fs_sync_def)

definition chunks_fit :: "output_layout \<Rightarrow> write_tensor list \<Rightarrow> bool" where
  "chunks_fit L ts \<longleftrightarrow>
     list_all2 (\<lambda>t q. int (length (concat (wt_chunks t))) = pt_bytes q) ts (ol_tensors L)"

lemma planned_sizes:
  assumes "planned_from al rel raw end" and "\<not> bad_alignment al"
    and "list_all2 (\<lambda>t q. int (length (concat (wt_chunks t))) = pt_bytes q) (map fst raw)
      (map (\<lambda>(t, off, n). \<lparr>pt_name = wt_name t, pt_relative = off, pt_offset = base + off, pt_bytes = n\<rparr>) raw)"
  shows "sizes_match (base + rel) (zip (map fst raw)
      (map (\<lambda>(t, off, n). \<lparr>pt_name = wt_name t, pt_relative = off, pt_offset = base + off, pt_bytes = n\<rparr>) raw))
      (base + end)"
  using assms
proof (induction al rel raw "end" rule: planned_from.induct)
  case (2 a relative t off n rest "end")
  then show ?case using writer_align_props(1) [of a relative] by (auto simp: add.assoc)
qed simp

lemma planned_output_valid:
  assumes plan: "plan_gguf_output md ts ver bo al = Inr L"
    and es: "validated_metadata md al = Inr es" and fits: "plan_fits default_limits es ts"
    and quant: "quantization_declared es ts" and chunks: "chunks_fit L ts"
    and ttl: "ol_total L + al \<le> MAX_SIGNED_OFFSET"
  shows "valid_output L ts \<and> length ts = length (ol_tensors L)
    \<and> int (length (ol_header L)) \<le> ol_data_offset L"
proof -
  from plan obtain raw rel where al: "\<not> bad_alignment al" and offs: "plan_offsets al 0 ts = Inr (raw, rel)"
    and L: "ol_data_offset L = writer_align (int (length (ol_header L))) al"
      "ol_total L = (if ts \<noteq> [] then ol_data_offset L + rel else ol_data_offset L)"
      "ol_tensors L = map (\<lambda>(t, off, n). \<lparr>pt_name = wt_name t, pt_relative = off,
         pt_offset = ol_data_offset L + off, pt_bytes = n\<rparr>) raw"
    by (auto simp: plan_gguf_output_def Let_def)
  note raw = plan_offsets_planned [OF offs]
  have len: "length ts = length (ol_tensors L)" using raw L(3) by (auto simp: list_all2_lengthD)
  have hd: "int (length (ol_header L)) \<le> ol_data_offset L"
    using writer_align_props(1) [OF al] L(1) by simp
  have "planned_from al 0 raw rel" and ts: "ts = map fst raw" using raw by auto
  then have "sizes_match (ol_data_offset L + 0) (zip ts (ol_tensors L)) (ol_data_offset L + rel)"
    using chunks unfolding L(3) chunks_fit_def ts by (intro planned_sizes) (use al in auto)
  moreover have "ts = [] \<Longrightarrow> rel = 0" using offs by simp
  ultimately have sm: "sizes_match (ol_data_offset L) (zip ts (ol_tensors L)) (ol_total L)"
    using L(2) by auto
  have body: "int (length (body_from (ol_data_offset L) (zip ts (ol_tensors L))))
      = ol_total L - ol_data_offset L"
    by (rule sizes_match_length [OF sm])
  from parse_written_file [OF plan es fits quant body ttl] offs obtain c where
    c: "parse_gguf default_limits (complete_file L ts) = Inr c" "int (gc_file_size c) = ol_total L"
    "map placed_view (gc_tensors c) = map (planned_view (ol_data_offset L)) raw"
    unfolding complete_file_def by auto
  have "map (\<lambda>t. (td_name t, td_offset t, td_bytes t)) (gc_tensors c)
      = map (\<lambda>(a, _, _, _, b, n). (a, b, n)) (map placed_view (gc_tensors c))"
    by (simp add: placed_view_def)
  also have "\<dots> = map (\<lambda>t. (pt_name t, pt_offset t, pt_bytes t)) (ol_tensors L)"
    unfolding c(3) L(3) by (auto simp: planned_view_def)
  finally have "\<not> staged_mismatch L c" using c(2) by (simp add: staged_mismatch_def)
  moreover have "int (length (complete_file L ts)) = ol_total L"
    using body hd by (simp add: complete_file_def written_file_def length_zeros)
  ultimately show ?thesis using sm c(1) len hd by (auto simp: valid_output_def)
qed

text \<open>
  C6. Without faults and without a competitor at the destination, a transaction whose checks pass and
  whose tensors supply the planned number of bytes succeeds: it publishes the complete file and
  returns its size and digest.
\<close>
theorem publication_succeeds:
  assumes "write_plan env out md ts plan ver bo al w = Inr L"
    and "validated_metadata md al = Inr es" and "plan_fits default_limits es ts"
    and "quantization_declared es ts" and "chunks_fit L ts"
    and "ol_total L + al \<le> MAX_SIGNED_OFFSET"
    and "calm w" and "pe_racer env = None" and "wd_files w (staging_path (pe_token env) out) = None"
  shows "\<exists>w'. write_gguf_transactionally env out md ts plan ver bo al w
      = (w', Inr \<lparr>wr_path = out, wr_size = ol_total L, wr_sha = hexdigest (complete_file L ts),
          wr_tensors = ol_tensors L, wr_tensor_sha = tensor_digests ts\<rparr>)
    \<and> wd_files w' out = Some (Data (complete_file L ts))"
proof -
  let ?S = "staging_path (pe_token env) out"
  note plan = write_plan_Inr [OF assms(1)]
  have neq: "?S \<noteq> out" using plan by (intro staging_path_neq) simp
  from planned_output_valid [OF _ assms(2-6)] plan
  have v: "valid_output L ts" "length ts = length (ol_tensors L)"
    "int (length (ol_header L)) \<le> ol_data_offset L" by auto
  obtain w1 where 1: "write_staged env ?S out L ts w = (w1, Inr (complete_file L ts, tensor_digests ts))"
    "calm w1" "streams ?S (complete_file L ts) w1"
    using write_staged_calm [OF assms(7,9) v] by blast
  have o1: "wd_files w1 out = None"
    using keeps_onlyD [OF write_staged_only [of ?S "{?S}"] 1(1)] neq plan by (simp add: only_def)
  obtain w2 where 2: "publish_staged env ?S out w1 = (w2, Inr ())"
    using publish_staged_calm [OF 1(2,3) o1 assms(8) neq] by blast
  have b: "transaction_body env ?S out L ts w = (w2, Inr (complete_file L ts, tensor_digests ts))"
    using 1 2 by (simp add: transaction_body_def act_bind_def act_return_def)
  have "wd_files w2 out = Some (Data (complete_file L ts))"
    using transaction_body_cases(3) [OF b neq] by simp
  then show ?thesis
    using b by (simp add: write_gguf_transactionally_def assms(1) Let_def act_bind_def act_cleanup_def
        act_return_def transaction_result_def)
qed

section \<open>A concrete transaction\<close>

definition demo_estimate :: disk_estimate where
  "demo_estimate = \<lparr>de_output = 400, de_scratch = 0, de_alignment = 32, de_margin = 16\<rparr>"

definition demo_disk :: disk_plan where
  "demo_disk = \<lparr>pl_output = [''out'', ''m.gguf''], pl_scratch = [''tmp''], pl_estimate = demo_estimate,
     pl_filesystems = []\<rparr>"

definition demo_env :: "unit content option \<Rightarrow> unit publish_env" where
  "demo_env racer = \<lparr>pe_exists = (\<lambda>p. p = []), pe_probe = (\<lambda>_. Inr \<lparr>dp_device = ''d'', dp_free = 10000\<rparr>),
     pe_token = ''00'', pe_racer = racer\<rparr>"

definition demo_world :: "(nat \<Rightarrow> fault) \<Rightarrow> unit world" where
  "demo_world fs = \<lparr>wd_files = (\<lambda>_. None), wd_clock = 0, wd_faults = fs\<rparr>"

lemma demo_write_plan:
  "\<exists>L. write_plan (demo_env racer) [''out'', ''m.gguf''] demo_metadata demo_tensors demo_disk 3 LITTLE 32
      (demo_world fs) = Inr L \<and> plan_gguf_output demo_metadata demo_tensors 3 LITTLE 32 = Inr L
    \<and> ol_total L = 364 \<and> chunks_fit L demo_tensors"
proof -
  obtain L where L: "plan_gguf_output demo_metadata demo_tensors 3 LITTLE 32 = Inr L" "ol_total L = 364"
    "map pt_bytes (ol_tensors L) = [68, 12]" using demo_plan by (elim exE conjE) (rule that)
  have "case monitor_gguf_disk (pe_exists (demo_env None)) (pe_probe (demo_env None)) demo_disk 364 0 of
      Inl _ \<Rightarrow> False | Inr _ \<Rightarrow> True"
    by code_simp
  then obtain rs where m: "monitor_gguf_disk (pe_exists (demo_env racer)) (pe_probe (demo_env racer))
      demo_disk 364 0 = Inr rs" by (auto simp: demo_env_def split: sum.splits)
  have a: "aligned_output_bytes (pl_estimate demo_disk) = 416" by code_simp
  obtain q1 q2 where q: "ol_tensors L = [q1, q2]" "pt_bytes q1 = 68" "pt_bytes q2 = 12"
    using L(3) by auto
  have "chunks_fit L demo_tensors" by (simp add: chunks_fit_def q demo_tensors_def zeros_def)
  moreover have "write_plan (demo_env racer) [''out'', ''m.gguf''] demo_metadata demo_tensors demo_disk 3
      LITTLE 32 (demo_world fs) = Inr L"
    using L a m by (simp add: write_plan_def demo_disk_def demo_world_def demo_estimate_def)
  ultimately show ?thesis using L by blast
qed

theorem publication_succeeds_witness:
  "\<exists>L w'. write_gguf_transactionally (demo_env None) [''out'', ''m.gguf''] demo_metadata demo_tensors
      demo_disk 3 LITTLE 32 (demo_world (\<lambda>_. Fine))
      = (w', Inr \<lparr>wr_path = [''out'', ''m.gguf''], wr_size = 364,
          wr_sha = hexdigest (complete_file L demo_tensors), wr_tensors = ol_tensors L,
          wr_tensor_sha = tensor_digests demo_tensors\<rparr>)
    \<and> wd_files w' [''out'', ''m.gguf''] = Some (Data (complete_file L demo_tensors))"
proof -
  obtain L where L: "write_plan (demo_env None) [''out'', ''m.gguf''] demo_metadata demo_tensors demo_disk 3
      LITTLE 32 (demo_world (\<lambda>_. Fine)) = Inr L" "ol_total L = 364" "chunks_fit L demo_tensors"
    using demo_write_plan [of None "\<lambda>_. Fine"] by blast
  obtain es where es: "validated_metadata demo_metadata 32 = Inr es"
    "plan_fits default_limits es demo_tensors" "quantization_declared es demo_tensors"
    using demo_fits by blast
  have "ol_total L + 32 \<le> MAX_SIGNED_OFFSET" using L by (simp add: MAX_SIGNED_OFFSET_def)
  from publication_succeeds [OF L(1) es L(3) this] L(2) show ?thesis
    by (auto simp: calm_def demo_world_def demo_env_def)
qed

theorem publication_atomic_witness:
  "\<exists>w' r. write_gguf_transactionally (demo_env (Some (Data [1]))) [''out'', ''m.gguf''] demo_metadata
      demo_tensors demo_disk 3 LITTLE 32 (demo_world (\<lambda>i. if i = 5 then Kills 0 else Fine)) = (w', r)
    \<and> (\<forall>q. q \<noteq> [''out'', ''m.gguf''] \<and> q \<noteq> staging_path ''00'' [''out'', ''m.gguf'']
         \<longrightarrow> wd_files w' q = None)"
proof -
  let ?w = "demo_world (\<lambda>i. if i = 5 then Kills 0 else Fine)"
  obtain w' r where run: "write_gguf_transactionally (demo_env (Some (Data [1]))) [''out'', ''m.gguf'']
      demo_metadata demo_tensors demo_disk 3 LITTLE 32 ?w = (w', r)"
    by (cases "write_gguf_transactionally (demo_env (Some (Data [1]))) [''out'', ''m.gguf''] demo_metadata
      demo_tensors demo_disk 3 LITTLE 32 ?w")
  have "\<forall>q. q \<noteq> [''out'', ''m.gguf''] \<and> q \<noteq> staging_path ''00'' [''out'', ''m.gguf'']
      \<longrightarrow> wd_files w' q = wd_files ?w q"
    by (rule publication_atomic [OF run, THEN conjunct1]) (simp_all add: demo_env_def demo_world_def)
  then have "\<forall>q. q \<noteq> [''out'', ''m.gguf''] \<and> q \<noteq> staging_path ''00'' [''out'', ''m.gguf'']
      \<longrightarrow> wd_files w' q = None"
    by (simp add: demo_world_def)
  with run show ?thesis by blast
qed

end
