(* ===== verification/PyJson.thy ===== *)
theory PyJson
  imports PyText PyStruct
begin

text \<open>
  Values of \<open>json.loads\<close>: objects are association lists with the keys in order, floats their binary64
  pattern. Documents written with \<open>json.dumps\<close> are kept as these values, since reading a dumped value
  gives it back.
\<close>

datatype json =
    JNull
  | JBool bool
  | JInt int
  | JFloat nat
  | JStr pystr
  | JList "json list"
  | JObj "(pystr \<times> json) list"

text \<open>\<open>isinstance(v, int) and not isinstance(v, bool)\<close>.\<close>

fun json_int :: "json \<Rightarrow> int option" where
  "json_int (JInt i) = Some i"
| "json_int _ = None"

fun json_str :: "json \<Rightarrow> pystr option" where
  "json_str (JStr s) = Some s"
| "json_str _ = None"

fun json_list :: "json \<Rightarrow> json list option" where
  "json_list (JList xs) = Some xs"
| "json_list _ = None"

fun json_obj :: "json \<Rightarrow> (pystr \<times> json) list option" where
  "json_obj (JObj kvs) = Some kvs"
| "json_obj _ = None"

definition json_keys :: "(pystr \<times> json) list \<Rightarrow> pystr set" where
  "json_keys kvs = fst ` set kvs"

definition json_get :: "(pystr \<times> json) list \<Rightarrow> pystr \<Rightarrow> json" where
  "json_get kvs k = (case map_of kvs k of Some v \<Rightarrow> v | None \<Rightarrow> JNull)"

text \<open>Python's \<open>v == i\<close> for an integer \<open>i\<close>: booleans and floats compare by value.\<close>

definition json_eq_int :: "json \<Rightarrow> int \<Rightarrow> bool" where
  "json_eq_int v i =
     (case v of
        JInt j \<Rightarrow> j = i
      | JBool b \<Rightarrow> (if b then 1 else 0) = i
      | JFloat b \<Rightarrow> int_to_f64 i = Some b
      | _ \<Rightarrow> False)"

end
