(* ===== verification/GgufResume.thy ===== *)
theory GgufResume
  imports GgufPublish PyJson
begin

text \<open>
  \<open>adapters/gguf/resume.py\<close>: resumable output. A run stages the file, and after every tensor commits a
  manifest with the number of bytes, their digest and the finished tensors; a later run validates the
  manifest against its own plan, checks the digest of the committed bytes, drops the rest and goes on.
\<close>

type_synonym rworld = "json world"

section \<open>The manifest\<close>

record resume_tensor =
  rt_name :: pystr
  rt_end :: int
  rt_sha :: pystr

record resume_manifest =
  rm_input :: pystr
  rm_plan :: pystr
  rm_committed :: int
  rm_sha :: pystr
  rm_completed :: "resume_tensor list"

definition GGUF_RESUME_SCHEMA_VERSION :: int where
  "GGUF_RESUME_SCHEMA_VERSION = 1"

definition tensor_record :: "resume_tensor \<Rightarrow> json" where
  "tensor_record t =
     JObj [(lit ''name'', JStr (rt_name t)), (lit ''end_offset'', JInt (rt_end t)),
           (lit ''sha256'', JStr (rt_sha t))]"

definition to_record :: "resume_manifest \<Rightarrow> json" where
  "to_record m =
     JObj [(lit ''schema_version'', JInt GGUF_RESUME_SCHEMA_VERSION),
           (lit ''input_sha256'', JStr (rm_input m)),
           (lit ''plan_sha256'', JStr (rm_plan m)),
           (lit ''committed_bytes'', JInt (rm_committed m)),
           (lit ''committed_sha256'', JStr (rm_sha m)),
           (lit ''completed_tensors'', JList (map tensor_record (rm_completed m)))]"

definition is_digest :: "json \<Rightarrow> bool" where
  "is_digest v = (case json_str v of Some s \<Rightarrow> is_hex64 s | None \<Rightarrow> False)"

definition the_str :: "json \<Rightarrow> pystr" where
  "the_str v = (case json_str v of Some s \<Rightarrow> s | None \<Rightarrow> [])"

definition parse_resume_tensor :: "json \<Rightarrow> io_error + resume_tensor" where
  "parse_resume_tensor raw =
     rbind (of_option (IoResume ''resume tensor fields do not match schema'') (json_obj raw)) (\<lambda>kvs.
     rbind (raise_if (json_keys kvs \<noteq> {lit ''name'', lit ''end_offset'', lit ''sha256''})
              (IoResume ''resume tensor fields do not match schema'')) (\<lambda>_.
     rbind (of_option (IoResume ''resume tensor contains invalid field types'')
              (json_str (json_get kvs (lit ''name'')))) (\<lambda>name.
     rbind (of_option (IoResume ''resume tensor contains invalid field types'')
              (json_int (json_get kvs (lit ''end_offset'')))) (\<lambda>end.
     rbind (raise_if (\<not> is_digest (json_get kvs (lit ''sha256'')))
              (IoResume ''resume tensor contains invalid field types'')) (\<lambda>_.
     Inr \<lparr>rt_name = name, rt_end = end, rt_sha = the_str (json_get kvs (lit ''sha256''))\<rparr>)))))"

definition parse_manifest :: "json \<Rightarrow> io_error + resume_manifest" where
  "parse_manifest record =
     rbind (of_option (IoResume ''resume manifest fields do not match schema'') (json_obj record)) (\<lambda>kvs.
     rbind (raise_if (json_keys kvs \<noteq>
                {lit ''schema_version'', lit ''input_sha256'', lit ''plan_sha256'',
                 lit ''committed_bytes'', lit ''committed_sha256'', lit ''completed_tensors''})
              (IoResume ''resume manifest fields do not match schema'')) (\<lambda>_.
     rbind (raise_if (\<not> json_eq_int (json_get kvs (lit ''schema_version'')) GGUF_RESUME_SCHEMA_VERSION)
              (IoResume ''unsupported GGUF resume manifest schema'')) (\<lambda>_.
     rbind (raise_if (\<not> is_digest (json_get kvs (lit ''input_sha256''))
                \<or> \<not> is_digest (json_get kvs (lit ''plan_sha256''))
                \<or> \<not> is_digest (json_get kvs (lit ''committed_sha256'')))
              (IoResume ''resume manifest contains invalid field types'')) (\<lambda>_.
     rbind (of_option (IoResume ''resume manifest contains invalid field types'')
              (json_int (json_get kvs (lit ''committed_bytes'')))) (\<lambda>committed.
     rbind (raise_if (committed < 0) (IoResume ''resume manifest contains invalid field types'')) (\<lambda>_.
     rbind (of_option (IoResume ''resume manifest contains invalid field types'')
              (json_list (json_get kvs (lit ''completed_tensors'')))) (\<lambda>completed.
     rbind (mapM_r parse_resume_tensor completed) (\<lambda>tensors.
     Inr \<lparr>rm_input = the_str (json_get kvs (lit ''input_sha256'')),
          rm_plan = the_str (json_get kvs (lit ''plan_sha256'')), rm_committed = committed,
          rm_sha = the_str (json_get kvs (lit ''committed_sha256'')), rm_completed = tensors\<rparr>))))))))"

definition validate_manifest_layout ::
  "resume_manifest \<Rightarrow> pystr list \<Rightarrow> int list \<Rightarrow> int \<Rightarrow> io_error + unit" where
  "validate_manifest_layout m names ends data_offset =
     (let completed = rm_completed m in
      rbind (raise_if (length names < length completed
                 \<or> map rt_name completed \<noteq> take (length completed) names)
               (IoResume ''completed tensors do not match the current output plan'')) (\<lambda>_.
      rbind (raise_if (map rt_end completed \<noteq> take (length completed) ends)
               (IoResume ''committed tensor offsets do not match the current output plan'')) (\<lambda>_.
      raise_if (rm_committed m \<noteq> (if completed \<noteq> [] then rt_end (last completed) else data_offset))
        (IoResume ''committed byte count is not a tensor boundary''))))"

section \<open>Paths, commits and digests\<close>

definition resume_staging :: "path \<Rightarrow> path" where
  "resume_staging out = butlast out @ [''.'' @ last out @ ''.modelsurgeon.resume'']"

definition resume_manifest_path :: "path \<Rightarrow> path" where
  "resume_manifest_path out = butlast out @ [''.'' @ last out @ ''.modelsurgeon.resume.json'']"

definition resume_temporary :: "path \<Rightarrow> path" where
  "resume_temporary out = butlast out @ [''.'' @ last out @ ''.modelsurgeon.resume.json.tmp'']"

definition commit_manifest :: "path \<Rightarrow> path \<Rightarrow> resume_manifest \<Rightarrow> (rworld, unit) act" where
  "commit_manifest p temporary m =
     act_bind (fs_write_doc temporary (to_record m)) (\<lambda>_. fs_replace temporary p)"

definition plan_digest :: "bytes \<Rightarrow> int \<Rightarrow> pystr" where
  "plan_digest header total_bytes = hexdigest (header @ pack_uint LITTLE Code_Q total_bytes)"

text \<open>\<open>_hash_prefix\<close>: the digest object that has read the first \<open>n\<close> bytes, in pieces of 1 MiB.\<close>

definition hash_prefix :: "bytes \<Rightarrow> int \<Rightarrow> io_error + bytes" where
  "hash_prefix c n =
     rbind (raise_if (int (length c) < n)
              (IoResume ''staged output is shorter than its committed range'')) (\<lambda>_.
     Inr (take (nat n) c))"

section \<open>A run\<close>

record resume_job =
  rj_output :: path
  rj_tensors :: "write_tensor list"
  rj_layout :: output_layout
  rj_input :: pystr

definition job_plan :: "resume_job \<Rightarrow> pystr" where
  "job_plan j = plan_digest (ol_header (rj_layout j)) (ol_total (rj_layout j))"

text \<open>A first run: stage the header and its padding, commit an empty manifest.\<close>

definition start_staging :: "resume_job \<Rightarrow> (rworld, resume_manifest \<times> bytes) act" where
  "start_staging j =
     (let S = resume_staging (rj_output j); L = rj_layout j in
      act_bind (fs_create S) (\<lambda>_.
      act_bind (stream_write S [] (ol_header L)) (\<lambda>digest.
      act_bind (act_lift (raise_if (ol_data_offset L < int (length (ol_header L))) IoValue)) (\<lambda>_.
      act_bind (stream_write S digest (zeros (ol_data_offset L - int (length (ol_header L))))) (\<lambda>digest.
      act_bind fs_sync (\<lambda>_.
      let m = \<lparr>rm_input = rj_input j, rm_plan = job_plan j, rm_committed = ol_data_offset L,
               rm_sha = hexdigest digest, rm_completed = []\<rparr> in
      act_bind (commit_manifest (resume_manifest_path (rj_output j)) (resume_temporary (rj_output j)) m)
        (\<lambda>_. act_return (m, digest))))))))"

definition read_manifest :: "path \<Rightarrow> (rworld, resume_manifest) act" where
  "read_manifest p w =
     (w, case wd_files w p of
           Some (Doc d) \<Rightarrow> parse_manifest d
         | _ \<Rightarrow> Inl (IoResume ''resume manifest cannot be read''))"

definition read_staged :: "path \<Rightarrow> (rworld, bytes) act" where
  "read_staged p w =
     (w, case wd_files w p of Some (Data c) \<Rightarrow> Inr c | _ \<Rightarrow> Inl IoOS)"

definition reopen_staging :: "resume_job \<Rightarrow> (rworld, resume_manifest \<times> bytes) act" where
  "reopen_staging j =
     (let S = resume_staging (rj_output j); L = rj_layout j in
      act_bind (read_manifest (resume_manifest_path (rj_output j))) (\<lambda>m.
      act_bind (act_lift (raise_if (rm_input m \<noteq> rj_input j \<or> rm_plan m \<noteq> job_plan j)
                  (IoResume ''changed input or output plan invalidates resume''))) (\<lambda>_.
      act_bind (act_lift (validate_manifest_layout m (map pt_name (ol_tensors L))
                  (map (\<lambda>q. pt_offset q + pt_bytes q) (ol_tensors L)) (ol_data_offset L))) (\<lambda>_.
      act_bind (read_staged S) (\<lambda>c.
      act_bind (act_lift (raise_if (int (length c) < rm_committed m)
                  (IoResume ''staged output is shorter than its committed range''))) (\<lambda>_.
      act_bind (act_lift (hash_prefix c (rm_committed m))) (\<lambda>digest.
      act_bind (act_lift (raise_if (hexdigest digest \<noteq> rm_sha m)
                  (IoResume ''staged output committed checksum mismatch''))) (\<lambda>_.
      act_bind (fs_truncate S (nat (rm_committed m))) (\<lambda>_.
      act_return (m, digest))))))))))"

text \<open>
  The loop over the tensors that are left. \<open>checkpoint_hook\<close>, after a commit, can only return or
  fail; it is the last \<open>fs_sync\<close>.
\<close>

fun resume_tensors ::
  "resume_job \<Rightarrow> (write_tensor \<times> planned_tensor) list \<Rightarrow> resume_manifest \<Rightarrow> bytes
     \<Rightarrow> (rworld, resume_manifest) act" where
  "resume_tensors j [] m digest = act_return m"
| "resume_tensors j ((t, q) # rest) m digest =
     act_bind (write_one_tensor IoResume (resume_staging (rj_output j)) t q (rm_committed m) digest)
       (\<lambda>(cursor, digest, tensor_digest).
     act_bind fs_sync (\<lambda>_.
     let m = \<lparr>rm_input = rj_input j, rm_plan = job_plan j, rm_committed = cursor,
              rm_sha = hexdigest digest,
              rm_completed = rm_completed m
                @ [\<lparr>rt_name = wt_name t, rt_end = cursor, rt_sha = hexdigest tensor_digest\<rparr>]\<rparr> in
     act_bind (commit_manifest (resume_manifest_path (rj_output j)) (resume_temporary (rj_output j)) m) (\<lambda>_.
     act_bind fs_sync (\<lambda>_.
     resume_tensors j rest m digest))))"

definition finish_resume :: "json content option \<Rightarrow> resume_job \<Rightarrow> resume_manifest
    \<Rightarrow> (rworld, write_result) act" where
  "finish_resume racer j m =
     (let S = resume_staging (rj_output j); L = rj_layout j in
      act_bind (act_lift (raise_if (rm_committed m \<noteq> ol_total L)
                  (IoResume ''completed output does not match planned size''))) (\<lambda>_.
      act_bind (staged_container S) (\<lambda>c.
      act_bind (act_lift (raise_if (int (gc_file_size c) \<noteq> ol_total L)
                  (IoResume ''staged GGUF failed final size validation''))) (\<lambda>_.
      act_bind (others_create (rj_output j) racer) (\<lambda>_.
      act_bind (publish_link IoResume S (rj_output j)) (\<lambda>_.
      act_bind (fs_unlink S) (\<lambda>_.
      act_bind (fs_unlink (resume_manifest_path (rj_output j))) (\<lambda>_.
      act_return \<lparr>wr_path = rj_output j, wr_size = ol_total L, wr_sha = rm_sha m,
        wr_tensors = ol_tensors L,
        wr_tensor_sha = map (\<lambda>t. (rt_name t, rt_sha t)) (rm_completed m)\<rparr>))))))))"

definition resume_body :: "json publish_env \<Rightarrow> disk_plan \<Rightarrow> resume_job \<Rightarrow> (rworld, write_result) act" where
  "resume_body env plan j =
     (let out = rj_output j; L = rj_layout j in
      act_bind (\<lambda>w. if wd_files w (resume_temporary out) \<noteq> None
                 then fs_unlink (resume_temporary out) w else (w, Inr ())) (\<lambda>_.
      act_bind (\<lambda>w. (w, raise_if ((wd_files w (resume_staging out) \<noteq> None)
                   \<noteq> (wd_files w (resume_manifest_path out) \<noteq> None))
                 (IoResume ''staged output and resume manifest are incomplete''))) (\<lambda>_.
      act_bind (\<lambda>w. if wd_files w (resume_staging out) = None then start_staging j w
                 else reopen_staging j w) (\<lambda>(m, digest).
      act_bind (act_lift (except (monitor_gguf_disk (pe_exists env) (pe_probe env) plan
                  (ol_total L - rm_committed m) (de_scratch (pl_estimate plan))) IoDisk)) (\<lambda>_.
      act_bind (resume_tensors j (drop (length (rm_completed m)) (zip (rj_tensors j) (ol_tensors L)))
                  m digest) (\<lambda>m.
      finish_resume (pe_racer env) j m))))))"

definition resume_plan ::
  "path \<Rightarrow> write_metadata list \<Rightarrow> write_tensor list \<Rightarrow> disk_plan \<Rightarrow> pystr \<Rightarrow> int \<Rightarrow> byte_order \<Rightarrow> int
     \<Rightarrow> rworld \<Rightarrow> io_error + resume_job" where
  "resume_plan output metadata tensors plan input version bo alignment w =
     rbind (raise_if (\<not> is_hex64 input) (IoResume ''input identity must be lowercase SHA-256'')) (\<lambda>_.
     rbind (raise_if (output \<noteq> pl_output plan)
              (IoResume ''disk plan output does not match writer destination'')) (\<lambda>_.
     rbind (raise_if (wd_files w output \<noteq> None) (IoResume ''GGUF destination already exists'')) (\<lambda>_.
     rbind (except (plan_gguf_output metadata tensors version bo alignment)
              (\<lambda>e. case e of GGUFWrite m \<Rightarrow> IoWrite m)) (\<lambda>L.
     rbind (raise_if (aligned_output_bytes (pl_estimate plan) < ol_total L)
              (IoResume ''planned GGUF size exceeds the disk preflight estimate'')) (\<lambda>_.
     rbind (raise_if (2 ^ 64 \<le> ol_total L \<or> output = []) IoValue) (\<lambda>_.
     Inr \<lparr>rj_output = output, rj_tensors = tensors, rj_layout = L, rj_input = input\<rparr>))))))"

definition write_gguf_resumably ::
  "json publish_env \<Rightarrow> path \<Rightarrow> write_metadata list \<Rightarrow> write_tensor list \<Rightarrow> disk_plan \<Rightarrow> pystr \<Rightarrow> int
     \<Rightarrow> byte_order \<Rightarrow> int \<Rightarrow> (rworld, write_result) act" where
  "write_gguf_resumably env output metadata tensors plan input version bo alignment w =
     (case resume_plan output metadata tensors plan input version bo alignment w of
        Inl e \<Rightarrow> (w, Inl e)
      | Inr j \<Rightarrow> resume_body env plan j w)"

definition discard_resumable_gguf :: "path \<Rightarrow> (rworld, unit) act" where
  "discard_resumable_gguf output =
     act_bind (fs_discard (resume_staging output)) (\<lambda>_.
     act_bind (fs_discard (resume_manifest_path output)) (\<lambda>_.
     fs_discard (resume_temporary output)))"

section \<open>Manifests read back\<close>

definition manifest_valid :: "resume_manifest \<Rightarrow> bool" where
  "manifest_valid m \<longleftrightarrow> is_hex64 (rm_input m) \<and> is_hex64 (rm_plan m) \<and> is_hex64 (rm_sha m)
     \<and> 0 \<le> rm_committed m \<and> list_all (\<lambda>t. is_hex64 (rt_sha t)) (rm_completed m)"

lemma parse_tensor_record: "is_hex64 (rt_sha t) \<Longrightarrow> parse_resume_tensor (tensor_record t) = Inr t"
  by (simp add: parse_resume_tensor_def tensor_record_def json_keys_def json_get_def lit_simps
      is_digest_def the_str_def rbind_raise_if insert_commute)

lemma parse_tensor_records:
  "list_all (\<lambda>t. is_hex64 (rt_sha t)) ts \<Longrightarrow> mapM_r parse_resume_tensor (map tensor_record ts) = Inr ts"
  by (induction ts) (simp_all add: parse_tensor_record)

lemma manifest_roundtrip:
  assumes "manifest_valid m"
  shows "parse_manifest (to_record m) = Inr m"
proof -
  have keys: "{lit ''schema_version'', lit ''input_sha256'', lit ''plan_sha256'',
      lit ''committed_bytes'', lit ''committed_sha256'', lit ''completed_tensors''}
    = json_keys [(lit ''schema_version'', JInt GGUF_RESUME_SCHEMA_VERSION),
           (lit ''input_sha256'', JStr (rm_input m)), (lit ''plan_sha256'', JStr (rm_plan m)),
           (lit ''committed_bytes'', JInt (rm_committed m)), (lit ''committed_sha256'', JStr (rm_sha m)),
           (lit ''completed_tensors'', JList (map tensor_record (rm_completed m)))]"
    by (simp add: json_keys_def)
  show ?thesis
    using assms unfolding parse_manifest_def keys to_record_def
    by (simp add: json_get_def lit_simps json_eq_int_def is_digest_def the_str_def rbind_raise_if
        manifest_valid_def parse_tensor_records)
qed

section \<open>Paths are different\<close>

lemma resume_paths_distinct:
  assumes "out \<noteq> []"
  shows "distinct [out, resume_staging out, resume_manifest_path out, resume_temporary out]"
proof -
  have len: "length (last (butlast out @ [x])) = length x" for x :: string by simp
  have "x \<noteq> y" if "length (last x) \<noteq> length (last y)" for x y :: path using that by auto
  then show ?thesis
    by (simp add: resume_staging_def resume_manifest_path_def resume_temporary_def)
qed

section \<open>Checkpoints\<close>

definition job_pairs :: "resume_job \<Rightarrow> (write_tensor \<times> planned_tensor) list" where
  "job_pairs j = zip (rj_tensors j) (ol_tensors (rj_layout j))"

definition boundary :: "resume_job \<Rightarrow> nat \<Rightarrow> int" where
  "boundary j k = (if k = 0 then ol_data_offset (rj_layout j)
     else pt_offset (snd (job_pairs j ! (k - 1))) + pt_bytes (snd (job_pairs j ! (k - 1))))"

text \<open>The first \<open>k\<close> tensors' worth of the complete file.\<close>

definition job_prefix :: "resume_job \<Rightarrow> nat \<Rightarrow> bytes" where
  "job_prefix j k =
     written_file (rj_layout j) (body_from (ol_data_offset (rj_layout j)) (take k (job_pairs j)))"

definition pair_record :: "write_tensor \<times> planned_tensor \<Rightarrow> resume_tensor" where
  "pair_record p = \<lparr>rt_name = wt_name (fst p), rt_end = pt_offset (snd p) + pt_bytes (snd p),
     rt_sha = hexdigest (concat (wt_chunks (fst p)))\<rparr>"

definition checkpoint :: "resume_job \<Rightarrow> nat \<Rightarrow> resume_manifest" where
  "checkpoint j k = \<lparr>rm_input = rj_input j, rm_plan = job_plan j, rm_committed = boundary j k,
     rm_sha = hexdigest (job_prefix j k), rm_completed = map pair_record (take k (job_pairs j))\<rparr>"

text \<open>What a checkpoint at \<open>k\<close> presumes of the job: the first \<open>k\<close> tensors supplied the planned sizes.\<close>

definition reached :: "resume_job \<Rightarrow> nat \<Rightarrow> bool" where
  "reached j k \<longleftrightarrow> k \<le> length (job_pairs j)
     \<and> sizes_match (ol_data_offset (rj_layout j)) (take k (job_pairs j)) (boundary j k)"

definition job_ok :: "resume_job \<Rightarrow> bool" where
  "job_ok j \<longleftrightarrow> rj_output j \<noteq> [] \<and> is_hex64 (rj_input j)
     \<and> map pt_name (ol_tensors (rj_layout j)) = map wt_name (rj_tensors j)
     \<and> int (length (ol_header (rj_layout j))) \<le> ol_data_offset (rj_layout j)"

lemma body_from_append:
  "sizes_match c xs e \<Longrightarrow> body_from c (xs @ ys) = body_from c xs @ body_from e ys"
  by (induction c xs e rule: sizes_match.induct) auto

lemma sizes_match_append:
  "sizes_match c (xs @ ys) e \<longleftrightarrow> (\<exists>m. sizes_match c xs m \<and> sizes_match m ys e)"
  by (induction xs arbitrary: c) auto

lemma reached_length:
  assumes "job_ok j" and "reached j k"
  shows "int (length (job_prefix j k)) = boundary j k" "0 \<le> boundary j k"
proof -
  have "int (length (body_from (ol_data_offset (rj_layout j)) (take k (job_pairs j))))
      = boundary j k - ol_data_offset (rj_layout j)"
    using assms(2) sizes_match_length by (auto simp: reached_def)
  moreover have "0 \<le> int (length (body_from (ol_data_offset (rj_layout j)) (take k (job_pairs j))))"
    by (rule of_nat_0_le_iff)
  moreover have "0 \<le> ol_data_offset (rj_layout j)"
    using assms(1) by (simp add: job_ok_def)
  ultimately show "int (length (job_prefix j k)) = boundary j k" "0 \<le> boundary j k"
    using assms(1) by (auto simp: job_prefix_def written_file_def job_ok_def length_zeros)
qed

lemma boundary_Suc:
  "k < length (job_pairs j) \<Longrightarrow> job_pairs j ! k = (t, q) \<Longrightarrow> boundary j (Suc k) = pt_offset q + pt_bytes q"
  by (simp add: boundary_def)

lemma prefix_Suc:
  assumes "reached j k" and "k < length (job_pairs j)" and "job_pairs j ! k = (t, q)"
  shows "job_prefix j (Suc k) = job_prefix j k @ body_from (boundary j k) [(t, q)]"
  using assms
  by (simp add: job_prefix_def written_file_def take_Suc_conv_app_nth reached_def body_from_append)

lemma reached_Suc:
  assumes "reached j k" and "k < length (job_pairs j)" and "job_pairs j ! k = (t, q)"
    and "sizes_match (boundary j k) [(t, q)] e"
  shows "reached j (Suc k)"
  using assms
  by (auto simp: reached_def take_Suc_conv_app_nth sizes_match_append boundary_Suc)

lemma checkpoint_valid:
  "job_ok j \<Longrightarrow> reached j k \<Longrightarrow> manifest_valid (checkpoint j k)"
  using reached_length by (auto simp: manifest_valid_def checkpoint_def job_ok_def hexdigest_is_hex64
      job_plan_def plan_digest_def list_all_iff pair_record_def)

lemma checkpoint_layout:
  assumes "job_ok j" and "reached j k"
  shows "validate_manifest_layout (checkpoint j k) (map pt_name (ol_tensors (rj_layout j)))
    (map (\<lambda>q. pt_offset q + pt_bytes q) (ol_tensors (rj_layout j))) (ol_data_offset (rj_layout j)) = Inr ()"
proof -
  let ?ts = "rj_tensors j" and ?qs = "ol_tensors (rj_layout j)"
  have len: "length ?ts = length ?qs" using assms(1) by (auto simp: job_ok_def dest: map_eq_imp_length_eq)
  have k: "k \<le> length ?qs" using assms(2) len by (simp add: reached_def job_pairs_def)
  have nm: "map pt_name ?qs = map wt_name ?ts" using assms(1) by (simp add: job_ok_def)
  have names: "map rt_name (rm_completed (checkpoint j k)) = take k (map pt_name ?qs)"
    unfolding nm by (rule nth_equalityI)
      (use k len in \<open>auto simp: checkpoint_def job_pairs_def pair_record_def\<close>)
  have ends: "map rt_end (rm_completed (checkpoint j k)) = take k (map (\<lambda>q. pt_offset q + pt_bytes q) ?qs)"
    by (rule nth_equalityI) (use k len in \<open>auto simp: checkpoint_def job_pairs_def pair_record_def\<close>)
  have l: "length (rm_completed (checkpoint j k)) = k"
    using k len by (simp add: checkpoint_def job_pairs_def)
  have last: "rm_committed (checkpoint j k) = (if rm_completed (checkpoint j k) \<noteq> []
      then rt_end (last (rm_completed (checkpoint j k))) else ol_data_offset (rj_layout j))"
    using k len l by (cases k) (auto simp: checkpoint_def boundary_def pair_record_def last_map
        take_Suc_conv_app_nth job_pairs_def)
  show ?thesis
    using names ends l k last by (simp add: validate_manifest_layout_def Let_def rbind_raise_if)
qed

end
