(* ===== verification/GgufRecovery.thy ===== *)
theory GgufRecovery
  imports GgufResume
begin

text \<open>
  Crash safety of the resumable writer: whatever faults and kills interrupt its runs and discards, the
  files on disk stay in one of four states, the destination is absent or complete, and a run without
  faults from a resumable state publishes the same bytes as an uninterrupted one.
\<close>

lemma act_bind_run: "m w = (w1, Inr x) \<Longrightarrow> act_bind m k w = k x w1"
  by (simp add: act_bind_def)

section \<open>The states on disk\<close>

abbreviation staging_of :: "resume_job \<Rightarrow> path" where
  "staging_of j \<equiv> resume_staging (rj_output j)"

abbreviation manifest_of :: "resume_job \<Rightarrow> path" where
  "manifest_of j \<equiv> resume_manifest_path (rj_output j)"

abbreviation temporary_of :: "resume_job \<Rightarrow> path" where
  "temporary_of j \<equiv> resume_temporary (rj_output j)"

text \<open>The manifest is the checkpoint \<open>k\<close> and the staged bytes are \<open>d\<close>.\<close>

definition held :: "resume_job \<Rightarrow> nat \<Rightarrow> bytes \<Rightarrow> rworld \<Rightarrow> bool" where
  "held j k d w \<longleftrightarrow> wd_files w (rj_output j) = None
     \<and> wd_files w (manifest_of j) = Some (Doc (to_record (checkpoint j k)))
     \<and> wd_files w (staging_of j) = Some (Data d)"

definition clean :: "resume_job \<Rightarrow> rworld \<Rightarrow> bool" where
  "clean j w \<longleftrightarrow> wd_files w (rj_output j) = None \<and> wd_files w (staging_of j) = None
     \<and> wd_files w (manifest_of j) = None"

definition resumable :: "resume_job \<Rightarrow> rworld \<Rightarrow> bool" where
  "resumable j w \<longleftrightarrow> (\<exists>k x. reached j k \<and> held j k (job_prefix j k @ x) w)"

text \<open>Staged bytes without a manifest or a manifest without bytes: only a discard helps.\<close>

definition incomplete :: "resume_job \<Rightarrow> rworld \<Rightarrow> bool" where
  "incomplete j w \<longleftrightarrow> wd_files w (rj_output j) = None
     \<and> (wd_files w (staging_of j) \<noteq> None) \<noteq> (wd_files w (manifest_of j) \<noteq> None)"

definition finished :: "resume_job \<Rightarrow> rworld \<Rightarrow> bool" where
  "finished j w \<longleftrightarrow> wd_files w (rj_output j) = Some (Data (complete_file (rj_layout j) (rj_tensors j)))
     \<and> (\<exists>c. parse_gguf default_limits (complete_file (rj_layout j) (rj_tensors j)) = Inr c
         \<and> int (gc_file_size c) = ol_total (rj_layout j))"

definition safe :: "resume_job \<Rightarrow> rworld \<Rightarrow> bool" where
  "safe j w \<longleftrightarrow> clean j w \<or> resumable j w \<or> incomplete j w \<or> finished j w"

lemma job_paths:
  "job_ok j \<Longrightarrow> distinct [rj_output j, staging_of j, manifest_of j, temporary_of j]"
  using resume_paths_distinct unfolding job_ok_def by blast

lemma paths_neq [simp]:
  assumes "job_ok j"
  shows "staging_of j \<noteq> rj_output j" "manifest_of j \<noteq> rj_output j" "temporary_of j \<noteq> rj_output j"
    "rj_output j \<noteq> staging_of j" "rj_output j \<noteq> manifest_of j" "rj_output j \<noteq> temporary_of j"
    "staging_of j \<noteq> manifest_of j" "staging_of j \<noteq> temporary_of j" "manifest_of j \<noteq> staging_of j"
    "manifest_of j \<noteq> temporary_of j" "temporary_of j \<noteq> staging_of j" "temporary_of j \<noteq> manifest_of j"
  using job_paths [OF assms] by auto

section \<open>Writing only extends the staged bytes\<close>

definition grows :: "path \<Rightarrow> 'd world \<Rightarrow> 'd world \<Rightarrow> bool" where
  "grows p w w' \<longleftrightarrow> only {p} w w' \<and> (\<forall>d. streams p d w \<longrightarrow> (\<exists>x. streams p (d @ x) w'))"

lemma grows_refl: "grows p w w"
  by (auto simp: grows_def intro: exI [of _ "[]"])

lemma grows_trans: "grows p u v \<Longrightarrow> grows p v w \<Longrightarrow> grows p u w"
  unfolding grows_def by (metis append_assoc only_trans)

lemma keeps_grows_bind:
  "keeps (grows p) m \<Longrightarrow> (\<And>x. keeps (grows p) (k x)) \<Longrightarrow> keeps (grows p) (act_bind m k)"
  by (rule keeps_bind) (auto intro: grows_trans)

lemma keeps_grows_lift: "keeps (grows p) (act_lift r)"
  by (simp add: keeps_lift grows_refl)

lemma keeps_grows_return: "keeps (grows p) (act_return r)"
  by (simp add: keeps_return grows_refl)

lemma append_grows: "keeps (grows p) (fs_append p data)"
  using op_only(2) [of p "{p}" data]
  by (auto simp: keeps_def grows_def streams_def fs_append_def fs_op_def tick_def append_data_def
      split: fault.splits)

lemma sync_grows: "keeps (grows p) fs_sync"
  by (auto simp: keeps_def grows_def only_def streams_def fs_sync_def atomic_op_def fs_op_def tick_def
      split: fault.splits intro: exI [of _ "[]"])

lemma stream_write_grows: "keeps (grows p) (stream_write p c data)"
  unfolding stream_write_def by (intro keeps_grows_bind append_grows keeps_grows_return)

lemma write_chunks_grows: "keeps (grows p) (write_chunks err p limit chunks n c td)"
  by (induction chunks arbitrary: n c td)
    (auto intro!: keeps_grows_bind keeps_grows_lift keeps_grows_return stream_write_grows)

lemma write_one_tensor_grows: "keeps (grows p) (write_one_tensor err p t q cursor c)"
  unfolding write_one_tensor_def write_padding_def
  by (auto intro!: keeps_grows_bind keeps_grows_lift keeps_grows_return stream_write_grows
      write_chunks_grows)

lemma keeps_growsD: "keeps (grows p) m \<Longrightarrow> m w = (w', r) \<Longrightarrow> grows p w w'"
  unfolding keeps_def by (metis fst_conv)

lemma held_grows:
  assumes "job_ok j" and "held j k d w" and "grows (staging_of j) w w'"
  shows "\<exists>x. held j k (d @ x) w'"
  using assms by (auto simp: held_def grows_def only_def streams_def)

lemma held_only_temporary:
  "job_ok j \<Longrightarrow> held j k d w \<Longrightarrow> only {temporary_of j} w w' \<Longrightarrow> held j k d w'"
  by (simp add: held_def only_def)

lemma resumableI: "reached j k \<Longrightarrow> held j k (job_prefix j k @ x) w \<Longrightarrow> resumable j w"
  by (auto simp: resumable_def)

lemma resumable_exact: "reached j k \<Longrightarrow> held j k (job_prefix j k) w \<Longrightarrow> resumable j w"
  using resumableI [of j k "[]" w] by simp

section \<open>Commits\<close>

lemma write_doc_cases:
  assumes "fs_write_doc p d w = (w', r)"
  shows "only {p} w w' \<and> (r = Inr () \<longrightarrow> wd_files w' p = Some (Doc d))"
  using assms by (auto simp: fs_write_doc_def fs_op_def tick_def only_def split: fault.splits)

lemma replace_cases:
  assumes "fs_replace src dst w = (w', r)" and "wd_files w src = Some c" and "src \<noteq> dst"
  shows "only {src, dst} w w' \<and> (r = Inr () \<longrightarrow> wd_files w' dst = Some c)
    \<and> (wd_files w' dst = wd_files w dst \<or> wd_files w' dst = Some c)"
  using assms
  by (auto simp: fs_replace_def atomic_op_def fs_op_def tick_def only_def split: fault.splits if_splits)

lemma commit_cases:
  assumes "commit_manifest p tmp m w = (w', r)" and "tmp \<noteq> p"
  shows "only {tmp, p} w w' \<and> (r = Inr () \<longrightarrow> wd_files w' p = Some (Doc (to_record m)))
    \<and> (wd_files w' p = wd_files w p \<or> wd_files w' p = Some (Doc (to_record m)))"
proof -
  obtain w1 r1 where 1: "fs_write_doc tmp (to_record m) w = (w1, r1)"
    by (cases "fs_write_doc tmp (to_record m) w")
  note a = write_doc_cases [OF 1]
  show ?thesis
  proof (cases r1)
    case (Inl e)
    then show ?thesis using assms 1 a by (auto simp: commit_manifest_def act_bind_def only_def)
  next
    case (Inr u)
    then have "fs_replace tmp p w1 = (w', r)" using assms(1) 1 by (simp add: commit_manifest_def act_bind_def)
    moreover have "wd_files w1 tmp = Some (Doc (to_record m))" using a Inr by simp
    ultimately show ?thesis
      using replace_cases [of tmp p w1 w' r "Doc (to_record m)"] a assms(2)
      by (auto simp: only_def)
  qed
qed

lemma held_commit:
  assumes ok: "job_ok j" and k: "reached j k" "reached j k'" and h: "held j k (job_prefix j k') w"
    and ext: "\<exists>x. job_prefix j k' = job_prefix j k @ x"
    and run: "commit_manifest (manifest_of j) (temporary_of j) (checkpoint j k') w = (w', r)"
  shows "case r of Inl _ \<Rightarrow> resumable j w' | Inr _ \<Rightarrow> held j k' (job_prefix j k') w'"
proof -
  note c = commit_cases [OF run]
  then have o: "only {temporary_of j, manifest_of j} w w'" using ok by simp
  have rest: "wd_files w' (rj_output j) = None" "wd_files w' (staging_of j) = Some (Data (job_prefix j k'))"
    using o h ok by (auto simp: held_def only_def)
  have "wd_files w' (manifest_of j) = Some (Doc (to_record (checkpoint j k)))
    \<or> wd_files w' (manifest_of j) = Some (Doc (to_record (checkpoint j k')))"
    using c ok h by (auto simp: held_def)
  then have "resumable j w'"
    using rest ext k resumableI [of j k] resumable_exact [of j k'] by (auto simp: held_def)
  moreover have "r = Inr () \<Longrightarrow> held j k' (job_prefix j k') w'"
    using c ok rest by (simp add: held_def)
  ultimately show ?thesis by (cases r) auto
qed

section \<open>The loop over the tensors\<close>

lemma resume_tensors_safe:
  assumes "job_ok j" and "reached j k" and "held j k (job_prefix j k) w"
    and "resume_tensors j (drop k (job_pairs j)) (checkpoint j k) (job_prefix j k) w = (w', r)"
  shows "case r of
      Inl _ \<Rightarrow> resumable j w'
    | Inr m \<Rightarrow> (let n = length (job_pairs j) in
        reached j n \<and> m = checkpoint j n \<and> held j n (job_prefix j n) w')"
  using assms(2-)
proof (induction "length (job_pairs j) - k" arbitrary: k w)
  case 0
  then have "k = length (job_pairs j)" by (simp add: reached_def)
  with 0 show ?case by (auto simp: act_return_def Let_def)
next
  case (Suc i)
  let ?S = "staging_of j"
  have k: "k < length (job_pairs j)" using Suc.hyps(2) by simp
  obtain t q where tq: "job_pairs j ! k = (t, q)" by (cases "job_pairs j ! k")
  have dr: "drop k (job_pairs j) = (t, q) # drop (Suc k) (job_pairs j)"
    using Cons_nth_drop_Suc [OF k] tq by simp
  obtain w1 r1 where 1: "write_one_tensor IoResume ?S t q (boundary j k) (job_prefix j k) w = (w1, r1)"
    by (cases "write_one_tensor IoResume ?S t q (boundary j k) (job_prefix j k) w")
  have rc: "rm_committed (checkpoint j k) = boundary j k" by (simp add: checkpoint_def)
  have run: "resume_tensors j ((t, q) # drop (Suc k) (job_pairs j)) (checkpoint j k) (job_prefix j k) w = (w', r)"
    using Suc.prems(3) by (simp add: dr)
  have g1: "\<exists>x. held j k (job_prefix j k @ x) w1"
    by (rule held_grows [OF assms(1) Suc.prems(2) keeps_growsD [OF write_one_tensor_grows 1]])
  show ?case
  proof (cases r1)
    case (Inl e)
    then have "w' = w1 \<and> r = Inl e" using run 1 by (simp add: act_bind_def checkpoint_def)
    then show ?thesis using g1 Suc.prems(1) by (auto simp: resumable_def)
  next
    case (Inr x)
    obtain cu d td where x: "x = (cu, d, td)" by (cases x)
    have s: "streams ?S (job_prefix j k) w" using Suc.prems(2) by (simp add: held_def streams_def)
    note one = write_one_tensor_Inr [OF 1 [unfolded Inr x] s]
    have rk: "reached j (Suc k)"
      using reached_Suc [OF Suc.prems(1) k tq] one by blast
    have d: "d = job_prefix j (Suc k)" using prefix_Suc [OF Suc.prems(1) k tq] one by simp
    have cu: "cu = boundary j (Suc k)" using one boundary_Suc [OF k tq] by auto
    have h1: "held j k (job_prefix j (Suc k)) w1"
      using g1 one d by (auto simp: held_def streams_def)
    obtain w2 r2 where 2: "fs_sync w1 = (w2, r2)" by (cases "fs_sync w1")
    obtain y where y: "held j k (job_prefix j (Suc k) @ y) w2"
      using held_grows [OF assms(1) h1 keeps_growsD [OF sync_grows 2]] by blast
    have ext: "\<exists>x. job_prefix j (Suc k) = job_prefix j k @ x"
      using prefix_Suc [OF Suc.prems(1) k tq] by blast
    obtain z where "job_prefix j (Suc k) = job_prefix j k @ z" using ext ..
    then have res2: "resumable j w2" using y resumableI [OF Suc.prems(1), of "z @ y" w2] by simp
    have m: "\<lparr>rm_input = rj_input j, rm_plan = job_plan j, rm_committed = cu, rm_sha = hexdigest d,
        rm_completed = rm_completed (checkpoint j k)
          @ [\<lparr>rt_name = wt_name t, rt_end = cu, rt_sha = hexdigest td\<rparr>]\<rparr> = checkpoint j (Suc k)"
      using k tq one boundary_Suc [OF k tq]
      by (simp add: checkpoint_def cu d take_Suc_conv_app_nth pair_record_def)
    show ?thesis
    proof (cases r2)
      case (Inl e)
      then show ?thesis using run 1 Inr x 2 res2 by (auto simp: act_bind_def checkpoint_def)
    next
      case r2: (Inr u)
      have h2: "held j k (job_prefix j (Suc k)) w2"
        using h1 fs_sync_Inr [of w1 w2 u] 2 r2 by (simp add: held_def)
      obtain w3 r3 where 3: "commit_manifest (manifest_of j) (temporary_of j) (checkpoint j (Suc k)) w2 = (w3, r3)"
        by (cases "commit_manifest (manifest_of j) (temporary_of j) (checkpoint j (Suc k)) w2")
      note hc = held_commit [OF assms(1) Suc.prems(1) rk h2 ext 3]
      have run3: "act_bind (commit_manifest (manifest_of j) (temporary_of j) (checkpoint j (Suc k)))
          (\<lambda>_. act_bind fs_sync (\<lambda>_. resume_tensors j (drop (Suc k) (job_pairs j)) (checkpoint j (Suc k)) d)) w2
          = (w', r)"
        using run m by (simp add: rc act_bind_run 1 [unfolded Inr x] 2 [unfolded r2] Let_def)
      show ?thesis
      proof (cases r3)
        case (Inl e)
        then show ?thesis using run3 3 hc by (auto simp: act_bind_def)
      next
        case r3: (Inr u3)
        obtain w4 r4 where 4: "fs_sync w3 = (w4, r4)" by (cases "fs_sync w3")
        have h3: "held j (Suc k) (job_prefix j (Suc k)) w3" using hc r3 by simp
        show ?thesis
        proof (cases r4)
          case (Inl e)
          then show ?thesis
            using run3 3 r3 4 resumableI [OF rk]
              held_grows [OF assms(1) h3 keeps_growsD [OF sync_grows 4]]
            by (auto simp: act_bind_def)
        next
          case (Inr u4)
          have h4: "held j (Suc k) (job_prefix j (Suc k)) w4"
            using h3 fs_sync_Inr [of w3 w4 u4] 4 Inr by (simp add: held_def)
          have "resume_tensors j (drop (Suc k) (job_pairs j)) (checkpoint j (Suc k)) (job_prefix j (Suc k)) w4
              = (w', r)"
            using run3 3 r3 4 Inr d by (simp add: act_bind_def)
          then show ?thesis using Suc.hyps(1) [of "Suc k" w4] Suc.hyps(2) rk h4 by simp
        qed
      qed
    qed
  qed
qed

section \<open>Opening and closing a run\<close>

lemma job_prefix_0: "job_prefix j 0 = ol_header (rj_layout j)
    @ zeros (ol_data_offset (rj_layout j) - int (length (ol_header (rj_layout j))))"
  by (simp add: job_prefix_def written_file_def)

lemma reached_0: "reached j 0"
  by (simp add: reached_def boundary_def)

lemma job_prefix_all:
  "length (rj_tensors j) = length (ol_tensors (rj_layout j)) \<Longrightarrow>
     job_prefix j (length (job_pairs j)) = complete_file (rj_layout j) (rj_tensors j)"
  by (simp add: job_prefix_def complete_file_def job_pairs_def)

lemma checkpoint_0: "checkpoint j 0 = \<lparr>rm_input = rj_input j, rm_plan = job_plan j,
    rm_committed = ol_data_offset (rj_layout j), rm_sha = hexdigest (job_prefix j 0), rm_completed = []\<rparr>"
  by (simp add: checkpoint_def boundary_def)

text \<open>The first half of \<open>start_staging\<close>, up to its commit.\<close>

definition stage_header :: "resume_job \<Rightarrow> (rworld, bytes) act" where
  "stage_header j =
     (let S = staging_of j; L = rj_layout j in
      act_bind (stream_write S [] (ol_header L)) (\<lambda>digest.
      act_bind (act_lift (raise_if (ol_data_offset L < int (length (ol_header L))) IoValue)) (\<lambda>_.
      act_bind (stream_write S digest (zeros (ol_data_offset L - int (length (ol_header L))))) (\<lambda>digest.
      act_bind fs_sync (\<lambda>_. act_return digest)))))"

lemma act_bind_assoc: "act_bind (act_bind m f) g = act_bind m (\<lambda>x. act_bind (f x) g)"
  by (rule ext) (auto simp: act_bind_def split: prod.splits sum.splits)

lemma start_staging_eq:
  "start_staging j = act_bind (fs_create (staging_of j)) (\<lambda>_. act_bind (stage_header j) (\<lambda>digest.
     let m = \<lparr>rm_input = rj_input j, rm_plan = job_plan j,
              rm_committed = ol_data_offset (rj_layout j), rm_sha = hexdigest digest, rm_completed = []\<rparr> in
     act_bind (commit_manifest (manifest_of j) (temporary_of j) m) (\<lambda>_. act_return (m, digest))))"
  by (simp add: start_staging_def stage_header_def Let_def act_bind_assoc)

lemma stage_header_grows: "keeps (grows (staging_of j)) (stage_header j)"
  unfolding stage_header_def Let_def
  by (intro keeps_grows_bind stream_write_grows keeps_grows_lift sync_grows keeps_grows_return)

lemma stage_header_Inr:
  assumes "stage_header j w = (w', Inr d)" and "streams (staging_of j) [] w"
  shows "d = job_prefix j 0 \<and> streams (staging_of j) d w'"
proof -
  let ?S = "staging_of j" and ?L = "rj_layout j"
  let ?pad = "zeros (ol_data_offset ?L - int (length (ol_header ?L)))"
  from assms(1) obtain w1 d1 w2 where 1: "stream_write ?S [] (ol_header ?L) w = (w1, Inr d1)"
    and 2: "stream_write ?S d1 ?pad w1 = (w2, Inr d)" and 3: "fs_sync w2 = (w', Inr ())"
    by (auto simp: stage_header_def Let_def act_bind_Inr)
  from stream_write_Inr [OF 1 assms(2)] have "streams ?S (ol_header ?L) w1" "d1 = ol_header ?L" by auto
  with stream_write_Inr [OF 2] fs_sync_Inr [OF 3] show ?thesis
    by (auto simp: streams_def job_prefix_0)
qed

lemma create_cases:
  assumes "fs_create p w = (w', r)" and "wd_files w p = None"
  shows "only {p} w w' \<and> (if r = Inr () then streams p [] w'
    else wd_files w' p = None \<or> streams p [] w')"
  using assms
  by (auto simp: fs_create_def atomic_op_def fs_op_def tick_def only_def streams_def split: fault.splits if_splits)

lemma start_staging_safe:
  assumes ok: "job_ok j" and "clean j w" and run: "start_staging j w = (w', r)"
  shows "case r of Inl _ \<Rightarrow> clean j w' \<or> incomplete j w' \<or> resumable j w'
    | Inr (m, d) \<Rightarrow> m = checkpoint j 0 \<and> d = job_prefix j 0 \<and> held j 0 (job_prefix j 0) w'"
proof -
  let ?S = "staging_of j"
  obtain w1 r1 where 1: "fs_create ?S w = (w1, r1)" by (cases "fs_create ?S w")
  note c = create_cases [OF 1]
  have base: "wd_files w ?S = None" "wd_files w (rj_output j) = None" "wd_files w (manifest_of j) = None"
    using assms(2) by (simp_all add: clean_def)
  show ?thesis
  proof (cases r1)
    case (Inl e)
    then have "w' = w1 \<and> r = Inl e" using run 1 by (simp add: start_staging_eq act_bind_def)
    then show ?thesis
      using c base ok Inl by (auto simp: clean_def incomplete_def only_def streams_def)
  next
    case (Inr u)
    have s1: "streams ?S [] w1" using c base Inr by simp
    have b1: "wd_files w1 (rj_output j) = None" "wd_files w1 (manifest_of j) = None"
      using c base ok by (auto simp: only_def)
    obtain w2 r2 where 2: "stage_header j w1 = (w2, r2)" by (cases "stage_header j w1")
    have g: "grows ?S w1 w2" by (rule keeps_growsD [OF stage_header_grows 2])
    then have b2: "wd_files w2 (rj_output j) = None" "wd_files w2 (manifest_of j) = None"
      and s2: "\<exists>x. streams ?S x w2"
      using b1 ok s1 by (auto simp: grows_def only_def)
    have inc: "incomplete j w2" using b2 s2 by (auto simp: incomplete_def streams_def)
    show ?thesis
    proof (cases r2)
      case (Inl e)
      then have "w' = w2 \<and> r = Inl e"
        using run 1 \<open>r1 = Inr u\<close> 2 by (simp add: start_staging_eq act_bind_def)
      then show ?thesis using inc by simp
    next
      case r2: (Inr d)
      from stage_header_Inr [OF 2 [unfolded r2] s1]
      have d: "d = job_prefix j 0" "streams ?S d w2" by auto
      obtain w3 r3 where 3: "commit_manifest (manifest_of j) (temporary_of j) (checkpoint j 0) w2 = (w3, r3)"
        by (cases "commit_manifest (manifest_of j) (temporary_of j) (checkpoint j 0) w2")
      have eq: "w' = w3 \<and> (case r3 of Inl e \<Rightarrow> r = Inl e | Inr _ \<Rightarrow> r = Inr (checkpoint j 0, d))"
        using run 1 Inr 2 r2 3 unfolding start_staging_eq checkpoint_0
        by (auto simp: act_bind_def d Let_def act_return_def split: sum.splits)
      have cc: "only {temporary_of j, manifest_of j} w2 w3"
        "r3 = Inr () \<longrightarrow> wd_files w3 (manifest_of j) = Some (Doc (to_record (checkpoint j 0)))"
        "wd_files w3 (manifest_of j) = None \<or> wd_files w3 (manifest_of j) = Some (Doc (to_record (checkpoint j 0)))"
        using commit_cases [OF 3] ok b2 by auto
      have b3: "wd_files w3 (rj_output j) = None" "streams ?S (job_prefix j 0) w3"
        using cc(1) b2 d ok by (auto simp: only_def streams_def)
      have "incomplete j w3 \<or> held j 0 (job_prefix j 0) w3"
        using cc(3) b3 by (auto simp: incomplete_def held_def streams_def)
      moreover have "r3 = Inr () \<Longrightarrow> held j 0 (job_prefix j 0) w3"
        using cc(2) b3 by (auto simp: held_def streams_def)
      ultimately show ?thesis
        using eq d resumable_exact [OF reached_0] by (cases r3) auto
    qed
  qed
qed

lemma truncate_cases:
  assumes "fs_truncate p n w = (w', r)" and "streams p c w"
  shows "only {p} w w' \<and> (if r = Inr () then streams p (take n c) w'
    else streams p c w' \<or> streams p (take n c) w')"
  using assms
  by (auto simp: fs_truncate_def atomic_op_def fs_op_def tick_def only_def streams_def split: fault.splits if_splits)

lemma reopen_staging_safe:
  assumes ok: "job_ok j" and k: "reached j k" and h: "held j k (job_prefix j k @ x) w"
    and run: "reopen_staging j w = (w', r)"
  shows "case r of Inl _ \<Rightarrow> resumable j w'
    | Inr (m, d) \<Rightarrow> m = checkpoint j k \<and> d = job_prefix j k \<and> held j k (job_prefix j k) w'"
proof -
  let ?S = "staging_of j" and ?m = "checkpoint j k"
  note len = reached_length [OF ok k]
  have rm: "read_manifest (manifest_of j) w = (w, Inr ?m)"
    using h manifest_roundtrip [OF checkpoint_valid [OF ok k]] by (simp add: read_manifest_def held_def)
  have id: "rm_input ?m = rj_input j" "rm_plan ?m = job_plan j" "rm_committed ?m = boundary j k"
    "rm_sha ?m = hexdigest (job_prefix j k)" by (simp_all add: checkpoint_def)
  have rs: "read_staged ?S w = (w, Inr (job_prefix j k @ x))"
    using h by (simp add: read_staged_def held_def)
  have hp: "hash_prefix (job_prefix j k @ x) (boundary j k) = Inr (job_prefix j k)"
    using len by (simp add: hash_prefix_def rbind_raise_if)
  obtain w1 r1 where t: "fs_truncate ?S (nat (boundary j k)) w = (w1, r1)"
    by (cases "fs_truncate ?S (nat (boundary j k)) w")
  have eq: "w' = w1 \<and> (case r1 of Inl e \<Rightarrow> r = Inl e | Inr _ \<Rightarrow> r = Inr (?m, job_prefix j k))"
    using run rm rs hp t len checkpoint_layout [OF ok k]
    by (auto simp: reopen_staging_def Let_def act_bind_def act_lift_def id raise_if_def act_return_def
        split: sum.splits)
  have s: "streams ?S (job_prefix j k @ x) w" using h by (simp add: held_def streams_def)
  have tk: "take (nat (boundary j k)) (job_prefix j k @ x) = job_prefix j k"
    using len by (metis nat_int append_eq_conv_conj)
  note tc = truncate_cases [OF t s, unfolded tk]
  then have "held j k (job_prefix j k) w1 \<or> held j k (job_prefix j k @ x) w1"
    and "r1 = Inr () \<Longrightarrow> held j k (job_prefix j k) w1"
    using h ok by (auto simp: held_def only_def streams_def split: if_splits)
  then show ?thesis
    using eq resumable_exact [OF k, of w1] resumableI [OF k, of x w1] by (cases r1) auto
qed

text \<open>The end of a run: every outcome leaves a resumable or a published file.\<close>

definition expected_result :: "resume_job \<Rightarrow> write_result" where
  "expected_result j = \<lparr>wr_path = rj_output j, wr_size = ol_total (rj_layout j),
     wr_sha = hexdigest (complete_file (rj_layout j) (rj_tensors j)),
     wr_tensors = ol_tensors (rj_layout j), wr_tensor_sha = tensor_digests (rj_tensors j)\<rparr>"

lemma tensor_digests_pairs:
  "length (rj_tensors j) = length (ol_tensors (rj_layout j)) \<Longrightarrow>
     map (\<lambda>t. (rt_name t, rt_sha t)) (map pair_record (job_pairs j)) = tensor_digests (rj_tensors j)"
  by (rule nth_equalityI) (simp_all add: job_pairs_def pair_record_def tensor_digests_def)

lemma finished_only:
  "job_ok j \<Longrightarrow> finished j w \<Longrightarrow> only P w w' \<Longrightarrow> rj_output j \<notin> P \<Longrightarrow> finished j w'"
  by (simp add: finished_def only_def)

lemma finish_resume_safe:
  assumes ok: "job_ok j" and len: "length (rj_tensors j) = length (ol_tensors (rj_layout j))"
    and n: "n = length (job_pairs j)" "reached j n" and h: "held j n (job_prefix j n) w"
    and run: "finish_resume None j (checkpoint j n) w = (w', r)"
  shows "(resumable j w' \<or> finished j w')
    \<and> (\<forall>res. r = Inr res \<longrightarrow> finished j w' \<and> res = expected_result j
         \<and> wd_files w' (staging_of j) = None \<and> wd_files w' (manifest_of j) = None)"
proof -
  let ?S = "staging_of j" and ?L = "rj_layout j" and ?out = "rj_output j"
  let ?full = "complete_file ?L (rj_tensors j)"
  have pre: "job_prefix j n = ?full" using job_prefix_all [OF len] n(1) by simp
  have rs: "resumable j w" using resumable_exact n(2) h by blast
  have cm: "rm_committed (checkpoint j n) = boundary j n" by (simp add: checkpoint_def)
  show ?thesis
  proof (cases "boundary j n = ol_total ?L
      \<and> (\<exists>c. staged_container ?S w = (w, Inr c) \<and> int (gc_file_size c) = ol_total ?L)")
    case False
    then have "w' = w \<and> (\<exists>e. r = Inl e)"
      using run cm
      by (auto simp: finish_resume_def Let_def act_bind_def act_lift_def raise_if_def staged_container_def
          split: sum.splits option.splits content.splits if_splits)
    then show ?thesis using rs by auto
  next
    case True
    then obtain c where b: "boundary j n = ol_total ?L" and c: "staged_container ?S w = (w, Inr c)"
      "int (gc_file_size c) = ol_total ?L" by blast
    have parse: "parse_gguf default_limits ?full = Inr c"
      using c(1) h pre by (auto simp: staged_container_def held_def open_gguf_def rbind_raise_if
          split: sum.splits if_splits)
    obtain w1 r1 where 1: "fs_link ?S ?out w = (w1, r1)" by (cases "fs_link ?S ?out w")
    obtain w2 r2 where 2: "act_bind (fs_unlink ?S) (\<lambda>_. act_bind (fs_unlink (manifest_of j))
        (\<lambda>_. act_return (expected_result j))) w1 = (w2, r2)"
      by (cases "act_bind (fs_unlink ?S) (\<lambda>_. act_bind (fs_unlink (manifest_of j))
        (\<lambda>_. act_return (expected_result j))) w1")
    have res: "\<lparr>wr_path = ?out, wr_size = ol_total ?L, wr_sha = rm_sha (checkpoint j n),
        wr_tensors = ol_tensors ?L,
        wr_tensor_sha = map (\<lambda>t. (rt_name t, rt_sha t)) (rm_completed (checkpoint j n))\<rparr> = expected_result j"
      using tensor_digests_pairs [OF len] n(1) by (simp add: expected_result_def checkpoint_def pre [unfolded n(1)])
    have eq: "(case r1 of Inl e \<Rightarrow> w' = w1 \<and> (\<exists>e. r = Inl e) | Inr _ \<Rightarrow> w' = w2 \<and> r = r2)"
      using run cm b c 1 2 res
      by (auto simp: finish_resume_def Let_def act_bind_run act_lift_def raise_if_def others_create_def
          publish_link_def act_bind_def [of "publish_link _ _ _"] act_bind_def [of "act_lift _"]
          act_bind_def [of "staged_container _"] act_bind_def [of "others_create _ _"] split: sum.splits)
    have out: "wd_files w ?out = None" "wd_files w ?S = Some (Data ?full)"
      using h pre by (simp_all add: held_def)
    have fin: "finished j v" if "wd_files v ?out = Some (Data ?full)" for v
      using that parse c(2) by (auto simp: finished_def)
    from fs_link_cases [OF 1] out have lc: "wd_files w1 = wd_files w
        \<or> wd_files w1 = (wd_files w)(?out \<mapsto> Data ?full)" by auto
    have w1: "resumable j w1 \<or> finished j w1"
      using lc rs fin [of w1] by (auto simp: resumable_def held_def)
    show ?thesis
    proof (cases r1)
      case (Inl e)
      then show ?thesis using eq w1 by auto
    next
      case (Inr u)
      have f1: "finished j w1" using fs_link_Inr 1 Inr fin out by fastforce
      have k: "keeps (only {?S, manifest_of j}) (act_bind (fs_unlink ?S) (\<lambda>_. act_bind (fs_unlink (manifest_of j))
        (\<lambda>_. act_return (expected_result j))))"
        by (auto intro!: keeps_only_bind keeps_only_return op_only)
      have f2: "finished j w2" using finished_only [OF ok f1 keeps_onlyD [OF k 2]] ok by simp
      have "r2 = Inr res \<Longrightarrow> res = expected_result j \<and> wd_files w2 ?S = None
          \<and> wd_files w2 (manifest_of j) = None" for res
        using 2 ok by (auto simp: act_bind_Inr dest!: fs_unlink_Inr)
      then show ?thesis using eq Inr f2 by auto
    qed
  qed
qed

section \<open>A whole run\<close>

definition drop_temporary :: "resume_job \<Rightarrow> (rworld, unit) act" where
  "drop_temporary j w =
     (if wd_files w (temporary_of j) \<noteq> None then fs_unlink (temporary_of j) w else (w, Inr ()))"

definition check_complete :: "resume_job \<Rightarrow> (rworld, unit) act" where
  "check_complete j w =
     (w, raise_if ((wd_files w (staging_of j) \<noteq> None) \<noteq> (wd_files w (manifest_of j) \<noteq> None))
           (IoResume ''staged output and resume manifest are incomplete''))"

definition open_staging :: "resume_job \<Rightarrow> (rworld, resume_manifest \<times> bytes) act" where
  "open_staging j w =
     (if wd_files w (staging_of j) = None then start_staging j w else reopen_staging j w)"

definition check_disk :: "json publish_env \<Rightarrow> disk_plan \<Rightarrow> resume_job \<Rightarrow> resume_manifest
    \<Rightarrow> io_error + fs_requirement list" where
  "check_disk env plan j m =
     except (monitor_gguf_disk (pe_exists env) (pe_probe env) plan
       (ol_total (rj_layout j) - rm_committed m) (de_scratch (pl_estimate plan))) IoDisk"

lemma resume_body_eq:
  "resume_body env plan j =
     act_bind (drop_temporary j) (\<lambda>_. act_bind (check_complete j) (\<lambda>_. act_bind (open_staging j)
       (\<lambda>(m, digest). act_bind (act_lift (check_disk env plan j m)) (\<lambda>_.
         act_bind (resume_tensors j (drop (length (rm_completed m)) (job_pairs j)) m digest) (\<lambda>m.
         finish_resume (pe_racer env) j m)))))"
  unfolding resume_body_def Let_def drop_temporary_def [abs_def] check_complete_def [abs_def]
    open_staging_def [abs_def] check_disk_def job_pairs_def ..

lemma drop_temporary_only: "keeps (only {temporary_of j}) (drop_temporary j)"
proof -
  have "keeps (only {temporary_of j}) (fs_unlink (temporary_of j) :: (rworld, unit) act)"
    by (rule op_only(8)) simp
  then show ?thesis by (simp add: keeps_def drop_temporary_def)
qed

lemma states_only_temporary:
  assumes "job_ok j" and "only {temporary_of j} w w'"
  shows "clean j w \<Longrightarrow> clean j w'" and "resumable j w \<Longrightarrow> resumable j w'"
    and "incomplete j w \<Longrightarrow> incomplete j w'"
  using assms held_only_temporary [OF assms(1) _ assms(2)]
  by (auto simp: clean_def resumable_def incomplete_def only_def)

lemma act_bind_Inl: "m w = (w1, Inl e) \<Longrightarrow> act_bind m k w = (w1, Inl e)"
  by (simp add: act_bind_def)

lemma resumable_not_clean: "resumable j w \<Longrightarrow> wd_files w (staging_of j) \<noteq> None \<and> wd_files w (manifest_of j) \<noteq> None"
  by (auto simp: resumable_def held_def)

text \<open>After opening, the run holds some checkpoint exactly.\<close>

lemma open_staging_safe:
  assumes ok: "job_ok j" and st: "clean j w \<or> resumable j w" and run: "open_staging j w = (w', r)"
  shows "case r of Inl _ \<Rightarrow> clean j w' \<or> incomplete j w' \<or> resumable j w'
    | Inr (m, d) \<Rightarrow> (\<exists>k. reached j k \<and> m = checkpoint j k \<and> d = job_prefix j k \<and> held j k d w')"
  using st
proof
  assume c: "clean j w"
  then have "start_staging j w = (w', r)" using run by (simp add: open_staging_def clean_def)
  from start_staging_safe [OF ok c this] reached_0 show ?thesis
    by (auto split: sum.splits prod.splits)
next
  assume r: "resumable j w"
  then have re: "reopen_staging j w = (w', r)"
    using run resumable_not_clean by (simp add: open_staging_def)
  obtain k x where k: "reached j k" "held j k (job_prefix j k @ x) w" using r by (auto simp: resumable_def)
  from reopen_staging_safe [OF ok k re] k(1) show ?thesis
    by (auto split: sum.splits prod.splits)
qed

lemma checkpoint_length: "reached j k \<Longrightarrow> length (rm_completed (checkpoint j k)) = k"
  by (simp add: checkpoint_def reached_def)

lemma resume_body_safe:
  assumes ok: "job_ok j" and len: "length (rj_tensors j) = length (ol_tensors (rj_layout j))"
    and racer: "pe_racer env = None"
    and st: "clean j w \<or> resumable j w \<or> incomplete j w"
    and run: "resume_body env plan j w = (w', r)"
  shows "safe j w' \<and> (\<forall>res. r = Inr res \<longrightarrow> finished j w' \<and> res = expected_result j
    \<and> wd_files w' (staging_of j) = None \<and> wd_files w' (manifest_of j) = None)"
proof -
  obtain w1 r1 where 1: "drop_temporary j w = (w1, r1)" by (cases "drop_temporary j w")
  have st1: "clean j w1 \<or> resumable j w1 \<or> incomplete j w1"
    using states_only_temporary [OF ok keeps_onlyD [OF drop_temporary_only 1]] st by blast
  show ?thesis
  proof (cases "r1 = Inr () \<and> check_complete j w1 = (w1, Inr ())")
    case False
    have "w' = w1 \<and> (\<exists>e. r = Inl e)"
    proof (cases r1)
      case (Inl e)
      then show ?thesis using run 1 by (auto simp: resume_body_eq act_bind_Inl)
    next
      case (Inr u)
      then obtain e where "check_complete j w1 = (w1, Inl e)"
        using False by (cases "snd (check_complete j w1)") (auto simp: check_complete_def raise_if_def)
      then show ?thesis using run 1 Inr by (auto simp: resume_body_eq act_bind_run act_bind_Inl)
    qed
    then show ?thesis using st1 by (auto simp: safe_def)
  next
    case True
    then have st2: "clean j w1 \<or> resumable j w1"
      using st1 by (auto simp: check_complete_def incomplete_def)
    obtain w2 r2 where 2: "open_staging j w1 = (w2, r2)" by (cases "open_staging j w1")
    note o = open_staging_safe [OF ok st2 2]
    show ?thesis
    proof (cases r2)
      case (Inl e)
      then have "w' = w2 \<and> r = Inl e"
        using run 1 True 2 by (simp add: resume_body_eq act_bind_run act_bind_Inl)
      then show ?thesis using o Inl by (auto simp: safe_def)
    next
      case (Inr md)
      obtain k where k: "reached j k" "md = (checkpoint j k, job_prefix j k)" "held j k (job_prefix j k) w2"
        using o Inr by (auto split: prod.splits)
      have run2: "act_bind (act_lift (check_disk env plan j (checkpoint j k))) (\<lambda>_.
          act_bind (resume_tensors j (drop k (job_pairs j)) (checkpoint j k) (job_prefix j k)) (\<lambda>m.
          finish_resume None j m)) w2 = (w', r)"
        using run 1 True 2 Inr k racer checkpoint_length [OF k(1)]
        by (simp add: resume_body_eq act_bind_run)
      show ?thesis
      proof (cases "check_disk env plan j (checkpoint j k)")
        case (Inl e)
        then have "w' = w2 \<and> r = Inl e" using run2 by (simp add: act_bind_def act_lift_def)
        then show ?thesis using resumable_exact [OF k(1,3)] by (simp add: safe_def)
      next
        case (Inr rs)
        obtain w3 r3 where 3: "resume_tensors j (drop k (job_pairs j)) (checkpoint j k) (job_prefix j k) w2
            = (w3, r3)"
          by (cases "resume_tensors j (drop k (job_pairs j)) (checkpoint j k) (job_prefix j k) w2")
        note t = resume_tensors_safe [OF ok k(1,3) 3]
        show ?thesis
        proof (cases r3)
          case (Inl e)
          then have "w' = w3 \<and> r = Inl e" using run2 Inr 3 by (simp add: act_bind_def act_lift_def)
          then show ?thesis using t Inl by (simp add: safe_def)
        next
          case r3: (Inr m)
          then have "finish_resume None j (checkpoint j (length (job_pairs j))) w3 = (w', r)"
            using run2 Inr 3 t by (simp add: act_bind_def act_lift_def Let_def)
          from finish_resume_safe [OF ok len refl _ _ this] t r3 show ?thesis
            by (simp add: Let_def safe_def) blast
        qed
      qed
    qed
  qed
qed

lemma discard_safe:
  assumes ok: "job_ok j" and st: "safe j w"
    and run: "discard_resumable_gguf (rj_output j) w = (w', r)"
  shows "safe j w'"
proof (cases "finished j w")
  case True
  have "keeps (only {staging_of j, manifest_of j, temporary_of j}) (discard_resumable_gguf (rj_output j))"
    unfolding discard_resumable_gguf_def by (auto intro!: keeps_only_bind op_only)
  from finished_only [OF ok True keeps_onlyD [OF this run]] ok show ?thesis by (simp add: safe_def)
next
  case False
  then have out: "wd_files w (rj_output j) = None"
    and st': "clean j w \<or> resumable j w \<or> incomplete j w"
    using st by (auto simp: safe_def clean_def resumable_def incomplete_def held_def)
  let ?S = "staging_of j" and ?M = "manifest_of j" and ?T = "temporary_of j"
  have disc: "only {p} v v' \<and> (rr = Inr () \<longrightarrow> wd_files v' p = None)
      \<and> (wd_files v' p = None \<or> wd_files v' p = wd_files v p)"
    if "fs_discard p v = (v', rr)" for p rr and v v' :: rworld
    using that by (auto simp: fs_discard_def atomic_op_def fs_op_def tick_def only_def split: fault.splits if_splits)
  obtain w1 r1 where 1: "fs_discard ?S w = (w1, r1)" by (cases "fs_discard ?S w")
  note d1 = disc [OF 1]
  have q1: "wd_files w1 (rj_output j) = None" "wd_files w1 ?M = wd_files w ?M"
    using d1 out ok by (auto simp: only_def)
  show ?thesis
  proof (cases r1)
    case (Inl e)
    then have w': "w' = w1" using run 1 by (simp add: discard_resumable_gguf_def act_bind_def)
    show ?thesis
    proof (cases "wd_files w1 ?S = wd_files w ?S")
      case True
      then have "wd_files w1 = wd_files w" using d1 unfolding only_def by (metis ext singletonD)
      then show ?thesis using st w' by (simp add: safe_def clean_def resumable_def held_def incomplete_def finished_def)
    next
      case False
      then show ?thesis using d1 q1 w' by (cases "wd_files w ?M") (auto simp: safe_def clean_def incomplete_def)
    qed
  next
    case (Inr u)
    have s1: "wd_files w1 ?S = None" using d1 Inr by simp
    have e: "clean j v \<or> incomplete j v"
      if "wd_files v (rj_output j) = None" "wd_files v ?S = None" for v
      using that by (auto simp: clean_def incomplete_def)
    have k: "keeps (only {?M, ?T}) (act_bind (fs_discard ?M) (\<lambda>_. fs_discard ?T))"
      by (auto intro!: keeps_only_bind op_only)
    have "act_bind (fs_discard ?M) (\<lambda>_. fs_discard ?T) w1 = (w', r)"
      using run 1 Inr by (simp add: discard_resumable_gguf_def act_bind_def)
    from keeps_onlyD [OF k this] ok s1 q1 e [of w'] show ?thesis by (auto simp: safe_def only_def)
  qed
qed

section \<open>A run without faults completes\<close>

lemma sizes_match_end:
  "sizes_match c xs e \<Longrightarrow> e = (if xs = [] then c else pt_offset (snd (last xs)) + pt_bytes (snd (last xs)))"
  by (induction c xs e rule: sizes_match.induct) auto

lemma valid_job_reached:
  assumes "valid_output (rj_layout j) (rj_tensors j)"
  shows "reached j (length (job_pairs j)) \<and> boundary j (length (job_pairs j)) = ol_total (rj_layout j)"
proof -
  let ?n = "length (job_pairs j)"
  have sm: "sizes_match (ol_data_offset (rj_layout j)) (job_pairs j) (ol_total (rj_layout j))"
    using assms by (simp add: valid_output_def job_pairs_def)
  have "boundary j ?n = ol_total (rj_layout j)"
  proof (cases "job_pairs j = []")
    case True
    then show ?thesis using sm by (simp add: boundary_def)
  next
    case False
    then show ?thesis using sizes_match_end [OF sm] by (simp add: boundary_def last_conv_nth)
  qed
  then show ?thesis using sm by (simp add: reached_def)
qed

lemma sizes_match_nth:
  assumes "reached j k" and "reached j n" and "k < n" and "job_pairs j ! k = (t, q)"
  shows "sizes_match (boundary j k) [(t, q)] (boundary j (Suc k)) \<and> reached j (Suc k)"
proof -
  have k: "k < length (job_pairs j)" using assms(2,3) by (simp add: reached_def)
  have "take n (job_pairs j) = take k (job_pairs j) @ (t, q) # drop (Suc k) (take n (job_pairs j))"
    using id_take_nth_drop [of k "take n (job_pairs j)"] assms k by (simp add: reached_def min_def)
  then have "sizes_match (ol_data_offset (rj_layout j))
      (take k (job_pairs j) @ (t, q) # drop (Suc k) (take n (job_pairs j))) (boundary j n)"
    using assms(2) by (simp add: reached_def)
  then obtain m where m: "sizes_match (ol_data_offset (rj_layout j)) (take k (job_pairs j)) m"
    "sizes_match m ((t, q) # drop (Suc k) (take n (job_pairs j))) (boundary j n)"
    unfolding sizes_match_append by blast
  have "m = boundary j k"
    using sizes_match_end [OF m(1)] sizes_match_end [of _ "take k (job_pairs j)" "boundary j k"] assms(1)
    unfolding reached_def by metis
  then have s: "sizes_match (boundary j k) [(t, q)] (pt_offset q + pt_bytes q)" using m(2) by simp
  then show ?thesis
    using reached_Suc [OF assms(1) k assms(4) s] boundary_Suc [OF k assms(4)] by simp
qed

lemma commit_calm:
  assumes "calm w" and "tmp \<noteq> p"
  shows "\<exists>w'. commit_manifest p tmp m w = (w', Inr ()) \<and> calm w'"
  using assms by (simp add: commit_manifest_def act_bind_def fs_write_doc_def calm_fs_op fs_replace_def
      atomic_op_def)

lemma sync_calm: "calm w \<Longrightarrow> \<exists>w'. fs_sync w = (w', Inr ()) \<and> calm w'"
  by (simp add: fs_sync_def atomic_op_def calm_fs_op)

lemma calm_keeps: "keeps (only P) m \<Longrightarrow> calm w \<Longrightarrow> m w = (w', r) \<Longrightarrow> calm w'"
  using calm_only keeps_onlyD by blast

lemma resume_tensors_calm:
  assumes ok: "job_ok j" and n: "n = length (job_pairs j)" "reached j n"
    and "reached j k" and "calm w" and "held j k (job_prefix j k) w"
  shows "\<exists>w' m. resume_tensors j (drop k (job_pairs j)) (checkpoint j k) (job_prefix j k) w = (w', Inr m)
    \<and> calm w'"
  using assms(4-)
proof (induction "n - k" arbitrary: k w)
  case 0
  then have "k = length (job_pairs j)" using n by (simp add: reached_def)
  with 0 show ?case by (simp add: act_return_def)
next
  case (Suc i)
  have k: "k < n" using Suc.hyps(2) by simp
  then have k': "k < length (job_pairs j)" using n by simp
  obtain t q where tq: "job_pairs j ! k = (t, q)" by (cases "job_pairs j ! k")
  have dr: "drop k (job_pairs j) = (t, q) # drop (Suc k) (job_pairs j)"
    using Cons_nth_drop_Suc [OF k'] tq by simp
  note sm = sizes_match_nth [OF Suc.prems(1) n(2) k tq]
  have s: "streams (staging_of j) (job_prefix j k) w"
    using Suc.prems(3) by (simp add: held_def streams_def)
  obtain w1 where 1: "write_one_tensor IoResume (staging_of j) t q (boundary j k) (job_prefix j k) w
      = (w1, Inr (boundary j (Suc k), job_prefix j (Suc k), concat (wt_chunks t)))" "calm w1"
    "streams (staging_of j) (job_prefix j (Suc k)) w1"
    using write_one_tensor_calm [OF Suc.prems(2) s conjunct1 [OF sm], of IoResume]
      prefix_Suc [OF Suc.prems(1) k' tq] by auto
  obtain w2 where 2: "fs_sync w1 = (w2, Inr ())" "calm w2" using sync_calm [OF 1(2)] by blast
  have m: "\<lparr>rm_input = rj_input j, rm_plan = job_plan j, rm_committed = boundary j (Suc k),
      rm_sha = hexdigest (job_prefix j (Suc k)), rm_completed = rm_completed (checkpoint j k)
        @ [\<lparr>rt_name = wt_name t, rt_end = boundary j (Suc k), rt_sha = hexdigest (concat (wt_chunks t))\<rparr>]\<rparr>
    = checkpoint j (Suc k)"
    using k' tq boundary_Suc [OF k' tq]
    by (simp add: checkpoint_def take_Suc_conv_app_nth pair_record_def)
  obtain w3 where 3: "commit_manifest (manifest_of j) (temporary_of j) (checkpoint j (Suc k)) w2 = (w3, Inr ())"
    "calm w3" using commit_calm [OF 2(2) paths_neq(12) [OF ok]] by blast
  obtain w4 where 4: "fs_sync w3 = (w4, Inr ())" "calm w4" using sync_calm [OF 3(2)] by blast
  have h1: "held j k (job_prefix j (Suc k)) w1"
    using held_grows [OF ok Suc.prems(3) keeps_growsD [OF write_one_tensor_grows 1(1)]] 1(3)
    by (auto simp: held_def streams_def)
  then have h2: "held j k (job_prefix j (Suc k)) w2" using fs_sync_Inr [OF 2(1)] by (simp add: held_def)
  have "\<exists>x. job_prefix j (Suc k) = job_prefix j k @ x" using prefix_Suc [OF Suc.prems(1) k' tq] by blast
  from held_commit [OF ok Suc.prems(1) conjunct2 [OF sm] h2 this 3(1)]
  have h4: "held j (Suc k) (job_prefix j (Suc k)) w4" using fs_sync_Inr [OF 4(1)] by (simp add: held_def)
  have rc: "rm_committed (checkpoint j k) = boundary j k" by (simp add: checkpoint_def)
  have "resume_tensors j (drop k (job_pairs j)) (checkpoint j k) (job_prefix j k) w
      = resume_tensors j (drop (Suc k) (job_pairs j)) (checkpoint j (Suc k)) (job_prefix j (Suc k)) w4"
    using m by (simp add: dr rc act_bind_run 1(1) 2(1) 3(1) 4(1) Let_def)
  then show ?case using Suc.hyps(1) [of "Suc k" w4] Suc.hyps(2) sm 4(2) h4 by simp
qed

lemma start_staging_calm:
  assumes ok: "job_ok j" and "clean j w" and "calm w"
  shows "\<exists>w' m. start_staging j w = (w', Inr m) \<and> calm w'"
proof -
  let ?S = "staging_of j" and ?L = "rj_layout j"
  let ?pad = "zeros (ol_data_offset ?L - int (length (ol_header ?L)))"
  obtain w1 where 1: "fs_create ?S w = (w1, Inr ())" "calm w1" "streams ?S [] w1"
    using assms(2,3) by (simp add: fs_create_def atomic_op_def calm_fs_op streams_def clean_def)
  obtain w2 where 2: "stream_write ?S [] (ol_header ?L) w1 = (w2, Inr (ol_header ?L))" "calm w2"
    "streams ?S (ol_header ?L) w2" using stream_write_calm [OF 1(2,3)] by fastforce
  obtain w3 where 3: "stream_write ?S (ol_header ?L) ?pad w2 = (w3, Inr (ol_header ?L @ ?pad))" "calm w3"
    using stream_write_calm [OF 2(2,3)] by blast
  obtain w4 where 4: "fs_sync w3 = (w4, Inr ())" "calm w4" using sync_calm [OF 3(2)] by blast
  have nb: "\<not> ol_data_offset ?L < int (length (ol_header ?L))" using ok by (simp add: job_ok_def)
  have c: "\<exists>w'. commit_manifest (manifest_of j) (temporary_of j) m w4 = (w', Inr ()) \<and> calm w'" for m
    by (rule commit_calm [OF 4(2)]) (simp add: ok)
  show ?thesis
    using c nb by (simp add: start_staging_def Let_def act_bind_run 1(1) 2(1) 3(1) 4(1) act_lift_def)
      (metis (no_types, lifting) act_bind_run act_return_def)
qed

lemma reopen_staging_calm:
  assumes ok: "job_ok j" and "resumable j w" and "calm w"
  shows "\<exists>w' m. reopen_staging j w = (w', Inr m) \<and> calm w'"
proof -
  obtain k x where k: "reached j k" and h: "held j k (job_prefix j k @ x) w"
    using assms(2) by (auto simp: resumable_def)
  note len = reached_length [OF ok k]
  have rm: "read_manifest (manifest_of j) w = (w, Inr (checkpoint j k))"
    using h manifest_roundtrip [OF checkpoint_valid [OF ok k]] by (simp add: read_manifest_def held_def)
  have id: "rm_input (checkpoint j k) = rj_input j" "rm_plan (checkpoint j k) = job_plan j"
    "rm_committed (checkpoint j k) = boundary j k" "rm_sha (checkpoint j k) = hexdigest (job_prefix j k)"
    by (simp_all add: checkpoint_def)
  have rs: "read_staged (staging_of j) w = (w, Inr (job_prefix j k @ x))"
    using h by (simp add: read_staged_def held_def)
  have hp: "hash_prefix (job_prefix j k @ x) (boundary j k) = Inr (job_prefix j k)"
    using len by (simp add: hash_prefix_def rbind_raise_if)
  obtain w1 where t: "fs_truncate (staging_of j) (nat (boundary j k)) w = (w1, Inr ())" "calm w1"
    using assms(3) by (simp add: fs_truncate_def atomic_op_def calm_fs_op)
  show ?thesis
    using rm rs hp t len checkpoint_layout [OF ok k]
    by (simp add: reopen_staging_def Let_def act_bind_run act_lift_def id act_return_def)
qed

text \<open>The disk monitor passes at every checkpoint a run can start from.\<close>

definition disk_allows :: "json publish_env \<Rightarrow> disk_plan \<Rightarrow> resume_job \<Rightarrow> bool" where
  "disk_allows env plan j \<longleftrightarrow>
     list_all (\<lambda>k. case check_disk env plan j (checkpoint j k) of Inl _ \<Rightarrow> False | Inr _ \<Rightarrow> True)
       [0..<Suc (length (job_pairs j))]"

lemma resume_body_completes:
  assumes ok: "job_ok j" and len: "length (rj_tensors j) = length (ol_tensors (rj_layout j))"
    and valid: "valid_output (rj_layout j) (rj_tensors j)" and racer: "pe_racer env = None"
    and disk: "disk_allows env plan j" and c: "calm w" and st: "clean j w \<or> resumable j w"
  shows "\<exists>w'. resume_body env plan j w = (w', Inr (expected_result j)) \<and> finished j w'"
proof -
  note v = valid_job_reached [OF valid]
  have "\<exists>w1. drop_temporary j w = (w1, Inr ()) \<and> calm w1"
    using c by (cases "wd_files w (temporary_of j)")
      (simp_all add: drop_temporary_def fs_unlink_def atomic_op_def calm_fs_op)
  then obtain w1 where 1: "drop_temporary j w = (w1, Inr ())" "calm w1" by blast
  have st1: "clean j w1 \<or> resumable j w1"
    using states_only_temporary [OF ok keeps_onlyD [OF drop_temporary_only 1(1)]] st by blast
  then have chk: "check_complete j w1 = (w1, Inr ())"
    using resumable_not_clean by (auto simp: check_complete_def clean_def raise_if_def)
  obtain w2 md where 2: "open_staging j w1 = (w2, Inr md)" "calm w2"
    using st1 start_staging_calm [OF ok _ 1(2)] reopen_staging_calm [OF ok _ 1(2)] resumable_not_clean
    unfolding open_staging_def clean_def by (metis (no_types, lifting))
  from open_staging_safe [OF ok st1 2(1)] obtain k where
    k: "reached j k" "md = (checkpoint j k, job_prefix j k)" "held j k (job_prefix j k) w2"
    by (auto split: prod.splits)
  have "k \<in> set [0..<Suc (length (job_pairs j))]" using k(1) by (auto simp: reached_def)
  then have "case check_disk env plan j (checkpoint j k) of Inl _ \<Rightarrow> False | Inr _ \<Rightarrow> True"
    using disk unfolding disk_allows_def list_all_iff by blast
  then obtain rs where disk': "check_disk env plan j (checkpoint j k) = Inr rs" by (auto split: sum.splits)
  obtain w3 m where 3: "resume_tensors j (drop k (job_pairs j)) (checkpoint j k) (job_prefix j k) w2 = (w3, Inr m)"
    "calm w3" using resume_tensors_calm [OF ok refl conjunct1 [OF v] k(1) 2(2) k(3)] by blast
  from resume_tensors_safe [OF ok k(1,3) 3(1)]
  have m: "m = checkpoint j (length (job_pairs j))"
    "held j (length (job_pairs j)) (job_prefix j (length (job_pairs j))) w3" by (simp_all add: Let_def)
  obtain gc where gc: "parse_gguf default_limits (complete_file (rj_layout j) (rj_tensors j)) = Inr gc"
    "\<not> staged_mismatch (rj_layout j) gc" using valid by (auto simp: valid_output_def)
  have "complete_file (rj_layout j) (rj_tensors j) \<noteq> []"
    using gc(1) by (auto simp: parse_gguf_def parse_header_def rbind_raise_if)
  then have sc: "staged_container (staging_of j) w3 = (w3, Inr gc)" "int (gc_file_size gc) = ol_total (rj_layout j)"
    using gc m(2) job_prefix_all [OF len]
    by (simp_all add: staged_container_def held_def open_gguf_def rbind_raise_if staged_mismatch_def)
  have "\<exists>w' x. finish_resume None j m w3 = (w', Inr x)"
    using sc m ok 3(2) v
    by (simp add: finish_resume_def Let_def act_bind_run act_bind_def act_lift_def others_create_def publish_link_def
        fs_link_def atomic_op_def calm_fs_op fs_unlink_def held_def checkpoint_def act_return_def)
  then obtain w' x where fin: "finish_resume None j m w3 = (w', Inr x)" by blast
  have "resume_body env plan j w = (w', Inr x)"
    using fin racer checkpoint_length [OF k(1)] disk'
    by (simp add: resume_body_eq act_bind_run 1(1) chk 2(1) k(2) 3(1) act_lift_def)
  moreover from finish_resume_safe [OF ok len refl conjunct1 [OF v] m(2) fin [unfolded m(1)]]
  have "x = expected_result j" "finished j w'" by blast+
  ultimately show ?thesis by blast
qed

section \<open>Histories of interrupted runs\<close>

lemma plan_shape:
  assumes "plan_gguf_output md ts ver bo al = Inr L"
  shows "map pt_name (ol_tensors L) = map wt_name ts" and "length ts = length (ol_tensors L)"
    and "int (length (ol_header L)) \<le> ol_data_offset L"
proof -
  from assms obtain raw rel where al: "\<not> bad_alignment al" and offs: "plan_offsets al 0 ts = Inr (raw, rel)"
    and L: "ol_data_offset L = writer_align (int (length (ol_header L))) al"
      "ol_tensors L = map (\<lambda>(t, off, n). \<lparr>pt_name = wt_name t, pt_relative = off,
         pt_offset = ol_data_offset L + off, pt_bytes = n\<rparr>) raw"
    by (auto simp: plan_gguf_output_def Let_def)
  have ts: "map fst raw = ts" using plan_offsets_planned [OF offs] by simp
  show "map pt_name (ol_tensors L) = map wt_name ts" unfolding L(2) ts [symmetric] by auto
  show "length ts = length (ol_tensors L)" unfolding L(2) ts [symmetric] by simp
  show "int (length (ol_header L)) \<le> ol_data_offset L" using writer_align_props(1) [OF al] L(1) by simp
qed

lemma resume_plan_Inr:
  assumes "resume_plan out md ts plan input ver bo al w = Inr j"
  shows "wd_files w out = None" and "rj_output j = out" and "rj_tensors j = ts"
    and "plan_gguf_output md ts ver bo al = Inr (rj_layout j)" and "job_ok j"
    and "length (rj_tensors j) = length (ol_tensors (rj_layout j))"
    and "wd_files w2 out = None \<Longrightarrow> resume_plan out md ts plan input ver bo al w2 = Inr j"
proof -
  from assms obtain L where p: "is_hex64 input" "out = pl_output plan" "wd_files w out = None"
    "plan_gguf_output md ts ver bo al = Inr L" "\<not> aligned_output_bytes (pl_estimate plan) < ol_total L"
    "\<not> (2 ^ 64 \<le> ol_total L \<or> out = [])"
    and j: "j = \<lparr>rj_output = out, rj_tensors = ts, rj_layout = L, rj_input = input\<rparr>"
    unfolding resume_plan_def by (auto simp: rbind_raise_if rbind_Inr_iff split: if_splits)
  show "wd_files w out = None" "rj_output j = out" "rj_tensors j = ts"
    "plan_gguf_output md ts ver bo al = Inr (rj_layout j)" using p j by simp_all
  show "job_ok j" using p j plan_shape [OF p(4)] by (simp add: job_ok_def)
  show "length (rj_tensors j) = length (ol_tensors (rj_layout j))"
    using j plan_shape(2) [OF p(4)] by simp
  show "resume_plan out md ts plan input ver bo al w2 = Inr j" if "wd_files w2 out = None"
    using p j that unfolding resume_plan_def by (simp add: rbind_raise_if)
qed

text \<open>
  From a directory without the three files: any number of runs, each with its own faults and kills,
  and of discards likewise.
\<close>

inductive resume_history :: "(rworld, write_result) act \<Rightarrow> path \<Rightarrow> rworld \<Rightarrow> bool"
  for run :: "(rworld, write_result) act" and out :: path
where
  fresh: "wd_files w out = None \<Longrightarrow> wd_files w (resume_staging out) = None
    \<Longrightarrow> wd_files w (resume_manifest_path out) = None \<Longrightarrow> resume_history run out w"
| attempt: "resume_history run out w \<Longrightarrow> run (w\<lparr>wd_clock := 0, wd_faults := f\<rparr>) = (w', r)
    \<Longrightarrow> resume_history run out w'"
| discard: "resume_history run out w
    \<Longrightarrow> discard_resumable_gguf out (w\<lparr>wd_clock := 0, wd_faults := f\<rparr>) = (w', r)
    \<Longrightarrow> resume_history run out w'"

lemma safe_files: "wd_files w' = wd_files w \<Longrightarrow> safe j w' = safe j w"
  by (simp add: safe_def clean_def resumable_def incomplete_def finished_def held_def)

lemma run_safe:
  assumes "resume_plan out md ts plan input ver bo al w0 = Inr j" and "pe_racer env = None"
    and "safe j w" and "write_gguf_resumably env out md ts plan input ver bo al w = (w', r)"
  shows "safe j w'"
proof (cases "wd_files w out = None")
  case True
  note job = resume_plan_Inr [OF assms(1)]
  from job(7) [OF True] have rp: "resume_plan out md ts plan input ver bo al w = Inr j" .
  have "clean j w \<or> resumable j w \<or> incomplete j w"
    using assms(3) True job(2) by (auto simp: safe_def finished_def)
  from resume_body_safe [OF job(5,6) assms(2) this] rp assms(4) show ?thesis
    by (simp add: write_gguf_resumably_def)
next
  case False
  then have "\<exists>e. resume_plan out md ts plan input ver bo al w = Inl e"
    by (cases "resume_plan out md ts plan input ver bo al w") (auto dest: resume_plan_Inr(1))
  then show ?thesis using assms(3,4) by (auto simp: write_gguf_resumably_def)
qed

lemma history_safe:
  assumes "resume_history (write_gguf_resumably env out md ts plan input ver bo al) out w"
    and "resume_plan out md ts plan input ver bo al w0 = Inr j" and "pe_racer env = None"
  shows "safe j w"
  using assms(1)
proof (induction rule: resume_history.induct)
  case (fresh w)
  then show ?case using resume_plan_Inr(2) [OF assms(2)] by (simp add: safe_def clean_def)
next
  case (attempt w f w' r)
  have "safe j (w\<lparr>wd_clock := 0, wd_faults := f\<rparr>)" using attempt.IH by (subst safe_files [of _ w]) simp_all
  from run_safe [OF assms(2,3) this attempt.hyps(2)] show ?case .
next
  case (discard w f w' r)
  have "safe j (w\<lparr>wd_clock := 0, wd_faults := f\<rparr>)" using discard.IH by (subst safe_files [of _ w]) simp_all
  from discard_safe [OF resume_plan_Inr(5) [OF assms(2)] this] discard.hyps(2)
  show ?case using resume_plan_Inr(2) [OF assms(2)] by simp
qed

lemma history_no_plan:
  assumes "resume_history (write_gguf_resumably env out md ts plan input ver bo al) out w"
    and "\<And>w0. \<exists>e. resume_plan out md ts plan input ver bo al w0 = Inl e" and "out \<noteq> []"
  shows "wd_files w out = None"
  using assms(1)
proof (induction rule: resume_history.induct)
  case (attempt w f w' r)
  obtain e where "resume_plan out md ts plan input ver bo al (w\<lparr>wd_clock := 0, wd_faults := f\<rparr>) = Inl e"
    using assms(2) by blast
  then show ?case using attempt by (auto simp: write_gguf_resumably_def)
next
  case (discard w f w' r)
  have "keeps (only {resume_staging out, resume_manifest_path out, resume_temporary out})
      (discard_resumable_gguf out)"
    unfolding discard_resumable_gguf_def by (auto intro!: keeps_only_bind op_only)
  from keeps_onlyD [OF this discard.hyps(2)] discard.IH resume_paths_distinct [OF assms(3)]
  show ?case by (auto simp: only_def)
qed

text \<open>
  C1. Crash safety: after any history of runs and discards, each interrupted by arbitrary I/O errors
  and kills, the destination is absent or holds the complete planned file, which parses and has the
  planned size. A torn, short or mixed file is never published.
\<close>
theorem resume_never_publishes_partial:
  assumes "resume_history (write_gguf_resumably env out md ts plan input ver bo al) out w"
    and "pe_racer env = None" and "out \<noteq> []"
  shows "wd_files w out = None
    \<or> (\<exists>L c. plan_gguf_output md ts ver bo al = Inr L \<and> wd_files w out = Some (Data (complete_file L ts))
        \<and> parse_gguf default_limits (complete_file L ts) = Inr c \<and> int (gc_file_size c) = ol_total L)"
proof (cases "\<exists>w0 j. resume_plan out md ts plan input ver bo al w0 = Inr j")
  case False
  then have "\<exists>e. resume_plan out md ts plan input ver bo al w0 = Inl e" for w0
    by (cases "resume_plan out md ts plan input ver bo al w0") auto
  from history_no_plan [OF assms(1) this assms(3)] show ?thesis by simp
next
  case True
  then obtain w0 j where rp: "resume_plan out md ts plan input ver bo al w0 = Inr j" by blast
  have "safe j w" by (rule history_safe [OF assms(1) rp assms(2)])
  then show ?thesis
    using resume_plan_Inr(2,3,4) [OF rp]
    by (auto simp: safe_def clean_def resumable_def held_def incomplete_def finished_def)
qed


section \<open>A concrete history\<close>

definition demo_input :: pystr where
  "demo_input = replicate 64 97"

definition demo_resume_env :: "json publish_env" where
  "demo_resume_env = \<lparr>pe_exists = (\<lambda>p. p = []), pe_probe = (\<lambda>_. Inr \<lparr>dp_device = ''d'', dp_free = 10000\<rparr>),
     pe_token = ''00'', pe_racer = None\<rparr>"

definition empty_world :: rworld where
  "empty_world = \<lparr>wd_files = (\<lambda>_. None), wd_clock = 0, wd_faults = (\<lambda>_. Fine)\<rparr>"

abbreviation demo_run :: "(rworld, write_result) act" where
  "demo_run \<equiv> write_gguf_resumably demo_resume_env [''out'', ''m.gguf''] demo_metadata demo_tensors demo_disk
     demo_input 3 LITTLE 32"

lemma demo_history_fresh: "resume_history run [''out'', ''m.gguf''] empty_world"
  by (rule resume_history.fresh) (simp_all add: empty_world_def)

lemma demo_resume_plan:
  "\<exists>j. resume_plan [''out'', ''m.gguf''] demo_metadata demo_tensors demo_disk demo_input 3 LITTLE 32
      empty_world = Inr j \<and> rj_tensors j = demo_tensors \<and> ol_total (rj_layout j) = 364
     \<and> ol_data_offset (rj_layout j) = 256
     \<and> map pt_offset (ol_tensors (rj_layout j)) = [256, 352]
     \<and> map pt_bytes (ol_tensors (rj_layout j)) = [68, 12]"
proof -
  obtain L where L: "plan_gguf_output demo_metadata demo_tensors 3 LITTLE 32 = Inr L" "ol_total L = 364"
    "ol_data_offset L = 256" "map pt_offset (ol_tensors L) = [256, 352]"
    "map pt_bytes (ol_tensors L) = [68, 12]" using demo_plan by (elim exE conjE) (rule that)
  have a: "aligned_output_bytes (pl_estimate demo_disk) = 416" by code_simp
  have h: "is_hex64 demo_input" by (simp add: demo_input_def is_hex64_def list_all_iff)
  have "resume_plan [''out'', ''m.gguf''] demo_metadata demo_tensors demo_disk demo_input 3 LITTLE 32 empty_world
    = Inr \<lparr>rj_output = [''out'', ''m.gguf''], rj_tensors = demo_tensors, rj_layout = L, rj_input = demo_input\<rparr>"
    using L(1,2) a h by (simp add: resume_plan_def demo_disk_def empty_world_def demo_estimate_def)
  then show ?thesis using L by simp
qed

lemma demo_monitor:
  assumes "n = 108 \<or> n = 40 \<or> n = 0"
  shows "case monitor_gguf_disk (pe_exists demo_resume_env) (pe_probe demo_resume_env) demo_disk n 0 of
    Inl _ \<Rightarrow> False | Inr _ \<Rightarrow> True"
proof -
  have "case monitor_gguf_disk (pe_exists demo_resume_env) (pe_probe demo_resume_env) demo_disk 108 0 of
      Inl _ \<Rightarrow> False | Inr _ \<Rightarrow> True" by code_simp
  moreover have "case monitor_gguf_disk (pe_exists demo_resume_env) (pe_probe demo_resume_env) demo_disk 40 0 of
      Inl _ \<Rightarrow> False | Inr _ \<Rightarrow> True" by code_simp
  moreover have "case monitor_gguf_disk (pe_exists demo_resume_env) (pe_probe demo_resume_env) demo_disk 0 0 of
      Inl _ \<Rightarrow> False | Inr _ \<Rightarrow> True" by code_simp
  ultimately show ?thesis using assms by blast
qed


theorem resume_never_publishes_partial_witness:
  "\<exists>w' r. demo_run (empty_world\<lparr>wd_clock := 0, wd_faults := \<lambda>i. if i = 9 then Kills 3 else Fine\<rparr>) = (w', r)
     \<and> (wd_files w' [''out'', ''m.gguf''] = None
        \<or> (\<exists>L. wd_files w' [''out'', ''m.gguf''] = Some (Data (complete_file L demo_tensors))))"
proof -
  let ?w = "empty_world\<lparr>wd_clock := 0, wd_faults := \<lambda>i. if i = 9 then Kills 3 else Fine\<rparr>"
  obtain w' r where run: "demo_run ?w = (w', r)" by (cases "demo_run ?w")
  have h: "resume_history demo_run [''out'', ''m.gguf''] w'"
    using demo_history_fresh run by (rule resume_history.attempt)
  have "pe_racer demo_resume_env = None" by (simp add: demo_resume_env_def)
  from resume_never_publishes_partial [OF h this] run show ?thesis by blast
qed

end
