(* ===== verification/ExperimentStates.thy ===== *)
theory ExperimentStates
  imports PyText
begin

text \<open>
  \<open>experiments/state_machine.py\<close> over the state events of \<open>experiments/store.py\<close>: candidate states, the
  direct transitions, the compare-and-append in one write transaction, and the recovery plan. A
  transition reads the history first and appends in a later transaction, so it is modelled with the
  store it read and the store it writes.
\<close>

datatype candidate_state =
    PLANNED | RUNNING | EVALUATING | INTERRUPTED | RECOVERABLE_OOM | SUCCEEDED | REJECTED | FAILED

datatype work_stage = MUTATION | EVALUATION

fun state_value :: "candidate_state \<Rightarrow> string" where
  "state_value PLANNED = ''planned''"
| "state_value RUNNING = ''running''"
| "state_value EVALUATING = ''evaluating''"
| "state_value INTERRUPTED = ''interrupted''"
| "state_value RECOVERABLE_OOM = ''recoverable-oom''"
| "state_value SUCCEEDED = ''succeeded''"
| "state_value REJECTED = ''rejected''"
| "state_value FAILED = ''failed''"

definition all_states :: "candidate_state list" where
  "all_states = [PLANNED, RUNNING, EVALUATING, INTERRUPTED, RECOVERABLE_OOM, SUCCEEDED, REJECTED, FAILED]"

fun terminal :: "candidate_state \<Rightarrow> bool" where
  "terminal SUCCEEDED = True"
| "terminal REJECTED = True"
| "terminal FAILED = True"
| "terminal _ = False"

fun DIRECT_TRANSITIONS :: "candidate_state \<Rightarrow> candidate_state list" where
  "DIRECT_TRANSITIONS PLANNED = [RUNNING, REJECTED, FAILED]"
| "DIRECT_TRANSITIONS RUNNING = [EVALUATING, INTERRUPTED, RECOVERABLE_OOM, REJECTED, FAILED]"
| "DIRECT_TRANSITIONS EVALUATING = [INTERRUPTED, RECOVERABLE_OOM, SUCCEEDED, REJECTED, FAILED]"
| "DIRECT_TRANSITIONS INTERRUPTED = [RUNNING, EVALUATING, FAILED]"
| "DIRECT_TRANSITIONS RECOVERABLE_OOM = [RUNNING, EVALUATING, FAILED]"
| "DIRECT_TRANSITIONS SUCCEEDED = []"
| "DIRECT_TRANSITIONS REJECTED = []"
| "DIRECT_TRANSITIONS FAILED = []"

datatype state_error =
    StateError string
  | StoreError string
  | Integrity

section \<open>The store\<close>

record state_event =
  se_id :: nat
  se_candidate :: pystr
  se_sequence :: int
  se_state :: string
  se_detail :: "pystr option"

record store =
  st_candidates :: "pystr list"
  st_events :: "state_event list"
  st_closed :: bool

definition require_open :: "store \<Rightarrow> state_error + unit" where
  "require_open s = raise_if (st_closed s) (StoreError ''experiment metadata store is closed'')"

text \<open>\<open>ORDER BY sequence\<close>.\<close>

definition events_of :: "store \<Rightarrow> pystr \<Rightarrow> state_event list" where
  "events_of s c = sort_key se_sequence (filter (\<lambda>e. se_candidate e = c) (st_events s))"

definition latest_event :: "store \<Rightarrow> pystr \<Rightarrow> state_event option" where
  "latest_event s c = (case rev (events_of s c) of [] \<Rightarrow> None | e # _ \<Rightarrow> Some e)"

definition list_states :: "store \<Rightarrow> pystr \<Rightarrow> state_error + state_event list" where
  "list_states s c = rbind (require_open s) (\<lambda>_. Inr (events_of s c))"

text \<open>The insert, under the table's \<open>UNIQUE (candidate_id, sequence)\<close> and its growing row id.\<close>

definition insert_event ::
  "store \<Rightarrow> pystr \<Rightarrow> int \<Rightarrow> string \<Rightarrow> pystr option \<Rightarrow> state_error + store \<times> state_event" where
  "insert_event s c sequence state detail =
     (let e = \<lparr>se_id = Suc (length (st_events s)), se_candidate = c, se_sequence = sequence,
               se_state = state, se_detail = detail\<rparr> in
      rbind (raise_if (list_ex (\<lambda>e'. se_candidate e' = c \<and> se_sequence e' = sequence) (st_events s)
                \<or> sequence < 0) Integrity) (\<lambda>_.
      Inr (s\<lparr>st_events := st_events s @ [e]\<rparr>, e)))"

section \<open>The machine\<close>

definition decode_state :: "string \<Rightarrow> state_error + candidate_state" where
  "decode_state v =
     of_option (StateError ''unknown persisted candidate state'') (find (\<lambda>x. state_value x = v) all_states)"

text \<open>The loop over \<open>reversed(states)\<close>; its argument is the reversed list.\<close>

fun active_stage_rev :: "candidate_state list \<Rightarrow> state_error + work_stage" where
  "active_stage_rev [] = Inl (StateError ''recovery state has no preceding active stage'')"
| "active_stage_rev (x # xs) =
     (if x = EVALUATING then Inr EVALUATION
      else if x = RUNNING then Inr MUTATION
      else if x = PLANNED then Inr MUTATION
      else active_stage_rev xs)"

definition active_stage_before_recovery :: "candidate_state list \<Rightarrow> state_error + work_stage" where
  "active_stage_before_recovery states = active_stage_rev (rev states)"

text \<open>\<open>_atomic_append\<close>; an error rolls the transaction back, so it returns no store.\<close>

definition atomic_append ::
  "store \<Rightarrow> pystr \<Rightarrow> candidate_state option \<Rightarrow> candidate_state \<Rightarrow> pystr option
     \<Rightarrow> state_error + store \<times> state_event" where
  "atomic_append s c expected target detail =
     rbind (raise_if (detail = Some []) (StateError ''state transition detail cannot be blank'')) (\<lambda>_.
     rbind (except (require_open s) (\<lambda>_. StateError ''store'')) (\<lambda>_.
     rbind (raise_if (c \<notin> set (st_candidates s)) (StateError ''unknown experiment candidate'')) (\<lambda>_.
     let row = latest_event s c in
     rbind (case row of None \<Rightarrow> Inr None
            | Some e \<Rightarrow> rbind (decode_state (se_state e)) (\<lambda>x. Inr (Some x))) (\<lambda>current.
     rbind (raise_if (current \<noteq> expected) (StateError ''candidate state changed concurrently'')) (\<lambda>_.
     insert_event s c (case row of None \<Rightarrow> 0 | Some e \<Rightarrow> se_sequence e + 1) (state_value target) detail)))))"

definition history :: "store \<Rightarrow> pystr \<Rightarrow> state_error + candidate_state list" where
  "history s c = rbind (list_states s c) (mapM_r (\<lambda>e. decode_state (se_state e)))"

definition current_state :: "store \<Rightarrow> pystr \<Rightarrow> state_error + candidate_state option" where
  "current_state s c =
     rbind (history s c) (\<lambda>states. Inr (if states = [] then None else Some (last states)))"

text \<open>\<open>initialize\<close> and \<open>transition\<close> read the store \<open>r\<close> and write the store \<open>s\<close>.\<close>

definition initialize_from :: "store \<Rightarrow> store \<Rightarrow> pystr \<Rightarrow> pystr option \<Rightarrow> state_error + store \<times> state_event" where
  "initialize_from r s c detail =
     rbind (current_state r c) (\<lambda>current.
     rbind (raise_if (current \<noteq> None)
              (StateError ''candidate state machine is already initialized'')) (\<lambda>_.
     atomic_append s c None PLANNED detail))"

definition required_state :: "work_stage \<Rightarrow> candidate_state" where
  "required_state stage = (case stage of MUTATION \<Rightarrow> RUNNING | EVALUATION \<Rightarrow> EVALUATING)"

definition check_transition :: "candidate_state list \<Rightarrow> candidate_state \<Rightarrow> state_error + candidate_state" where
  "check_transition states target =
     rbind (raise_if (states = []) (StateError ''candidate state machine is not initialized'')) (\<lambda>_.
     let current = last states in
     rbind (raise_if (target \<notin> set (DIRECT_TRANSITIONS current))
              (StateError ''invalid candidate state transition'')) (\<lambda>_.
     rbind (if current \<in> {INTERRUPTED, RECOVERABLE_OOM} \<and> target \<in> {RUNNING, EVALUATING} then
              rbind (active_stage_before_recovery (butlast states)) (\<lambda>stage.
              raise_if (target \<noteq> required_state stage) (StateError ''recovery must return to its stage''))
            else Inr ()) (\<lambda>_.
     Inr current)))"

definition transition_from ::
  "store \<Rightarrow> store \<Rightarrow> pystr \<Rightarrow> candidate_state \<Rightarrow> pystr option \<Rightarrow> state_error + store \<times> state_event" where
  "transition_from r s c target detail =
     rbind (history r c) (\<lambda>states.
     rbind (check_transition states target) (\<lambda>current.
     atomic_append s c (Some current) target detail))"

record recovery_plan =
  rp_candidate :: pystr
  rp_state :: candidate_state
  rp_stage :: "work_stage option"
  rp_resume :: bool
  rp_terminal :: bool

definition plan_recovery :: "store \<Rightarrow> pystr \<Rightarrow> state_error + recovery_plan" where
  "plan_recovery s c =
     rbind (history s c) (\<lambda>states.
     rbind (raise_if (states = []) (StateError ''candidate state machine is not initialized'')) (\<lambda>_.
     let current = last states;
         plan = (\<lambda>stage resume term. \<lparr>rp_candidate = c, rp_state = current, rp_stage = stage,
                   rp_resume = resume, rp_terminal = term\<rparr>)
     in if terminal current then Inr (plan None False True)
        else if current = PLANNED then Inr (plan (Some MUTATION) False False)
        else if current = RUNNING then Inr (plan (Some MUTATION) True False)
        else if current = EVALUATING then Inr (plan (Some EVALUATION) True False)
        else rbind (active_stage_before_recovery (butlast states)) (\<lambda>stage.
             Inr (plan (Some stage) True False))))"

section \<open>Runs\<close>

text \<open>
  Concurrent workers: each read store is any store the written one has evolved from. \<open>sequential\<close> is
  the special case of no interleaving.
\<close>

inductive evolves :: "store \<Rightarrow> store \<Rightarrow> bool" where
  evolves_refl: "evolves s s"
| evolves_candidate: "evolves s0 s \<Longrightarrow> evolves s0 (s\<lparr>st_candidates := c # st_candidates s\<rparr>)"
| evolves_initialize: "evolves s0 r \<Longrightarrow> evolves r s \<Longrightarrow> initialize_from r s c d = Inr (s', e) \<Longrightarrow> evolves s0 s'"
| evolves_transition: "evolves s0 r \<Longrightarrow> evolves r s \<Longrightarrow> transition_from r s c t d = Inr (s', e) \<Longrightarrow> evolves s0 s'"

inductive sequential :: "store \<Rightarrow> bool" where
  sequential_start: "st_events s = [] \<Longrightarrow> \<not> st_closed s \<Longrightarrow> sequential s"
| sequential_candidate: "sequential s \<Longrightarrow> sequential (s\<lparr>st_candidates := c # st_candidates s\<rparr>)"
| sequential_initialize: "sequential s \<Longrightarrow> initialize_from s s c d = Inr (s', e) \<Longrightarrow> sequential s'"
| sequential_transition: "sequential s \<Longrightarrow> transition_from s s c t d = Inr (s', e) \<Longrightarrow> sequential s'"

section \<open>Legal histories\<close>

fun legal_from :: "candidate_state \<Rightarrow> candidate_state list \<Rightarrow> bool" where
  "legal_from x [] \<longleftrightarrow> True"
| "legal_from x (y # ys) \<longleftrightarrow> y \<in> set (DIRECT_TRANSITIONS x) \<and> legal_from y ys"

definition legal :: "candidate_state list \<Rightarrow> bool" where
  "legal xs \<longleftrightarrow> (case xs of [] \<Rightarrow> True | x # ys \<Rightarrow> x = PLANNED \<and> legal_from x ys)"

text \<open>Every recovery in the history goes back to the stage that was active before it.\<close>

definition recovers_properly :: "candidate_state list \<Rightarrow> bool" where
  "recovers_properly xs \<longleftrightarrow> (\<forall>i < length xs. 0 < i \<longrightarrow> xs ! (i - 1) \<in> {INTERRUPTED, RECOVERABLE_OOM}
     \<longrightarrow> xs ! i \<in> {RUNNING, EVALUATING}
     \<longrightarrow> (\<exists>stage. active_stage_before_recovery (take (i - 1) xs) = Inr stage \<and> xs ! i = required_state stage))"

text \<open>The representation: a candidate's events carry the numbers 0, 1, 2, ... in insertion order.\<close>

definition sequenced :: "store \<Rightarrow> bool" where
  "sequenced s \<longleftrightarrow> (\<forall>c. map se_sequence (filter (\<lambda>e. se_candidate e = c) (st_events s))
     = map int [0..<length (filter (\<lambda>e. se_candidate e = c) (st_events s))])"

definition state_path :: "store \<Rightarrow> pystr \<Rightarrow> string list" where
  "state_path s c = map se_state (filter (\<lambda>e. se_candidate e = c) (st_events s))"

lemma decode_state_value: "decode_state (state_value x) = Inr x"
  by (cases x) (simp_all add: decode_state_def all_states_def)

lemma decode_state_Inr: "decode_state v = Inr x \<Longrightarrow> v = state_value x"
  by (auto simp: decode_state_def find_Some_iff)

lemma sequenced_events: "sequenced s \<Longrightarrow> events_of s c = filter (\<lambda>e. se_candidate e = c) (st_events s)"
  unfolding events_of_def sequenced_def
  by (rule sort_key_id_if_sorted) (metis sorted_map sorted_upt linorder_not_le of_nat_mono sorted_wrt_map_mono le_less)

lemma legal_from_append:
  "legal_from x (ys @ [y]) \<longleftrightarrow> legal_from x ys \<and> y \<in> set (DIRECT_TRANSITIONS (last (x # ys)))"
  by (induction x ys rule: legal_from.induct) auto

lemma legal_snoc:
  "legal (xs @ [y]) \<longleftrightarrow> (if xs = [] then y = PLANNED else legal xs \<and> y \<in> set (DIRECT_TRANSITIONS (last xs)))"
  by (cases xs) (auto simp: legal_def legal_from_append)

lemma terminal_transitions: "terminal x \<Longrightarrow> DIRECT_TRANSITIONS x = []"
  by (cases x) simp_all

lemma legal_terminal_last:
  "legal xs \<Longrightarrow> i < length xs - 1 \<Longrightarrow> \<not> terminal (xs ! i)"
proof (induction xs rule: rev_induct)
  case (snoc y xs)
  show ?case
  proof (cases "i = length xs - 1")
    case True
    then show ?thesis using snoc.prems terminal_transitions [of "last xs"]
      by (cases "xs = []") (auto simp: legal_snoc nth_append last_conv_nth)
  next
    case False
    then show ?thesis using snoc by (cases "xs = []") (auto simp: legal_snoc nth_append)
  qed
qed simp

definition states_of :: "store \<Rightarrow> pystr \<Rightarrow> candidate_state list" where
  "states_of s c = (case mapM_r decode_state (state_path s c) of Inr xs \<Rightarrow> xs | Inl _ \<Rightarrow> [])"

definition well_formed :: "store \<Rightarrow> bool" where
  "well_formed s \<longleftrightarrow> sequenced s \<and> \<not> st_closed s
     \<and> (\<forall>c. state_path s c = map state_value (states_of s c) \<and> legal (states_of s c))"

lemma mapM_decode_values: "mapM_r decode_state (map state_value xs) = Inr xs"
  by (induction xs) (simp_all add: decode_state_value)

lemma mapM_r_map: "mapM_r f (map g xs) = mapM_r (\<lambda>x. f (g x)) xs"
  by (induction xs) simp_all

lemma history_well_formed:
  assumes "well_formed s"
  shows "history s c = Inr (states_of s c)"
proof -
  have "mapM_r (\<lambda>e. decode_state (se_state e)) (filter (\<lambda>e. se_candidate e = c) (st_events s))
      = mapM_r decode_state (state_path s c)"
    by (simp add: state_path_def mapM_r_map)
  then show ?thesis
    using assms
    by (simp add: history_def list_states_def require_open_def sequenced_events well_formed_def)
      (metis mapM_decode_values)
qed

lemma states_of_eq: "state_path s c = map state_value xs \<Longrightarrow> states_of s c = xs"
  by (simp add: states_of_def mapM_decode_values)

lemma atomic_append_Inr:
  assumes wf: "well_formed s" and run: "atomic_append s c expected t d = Inr (s', e)"
  shows "expected = (if states_of s c = [] then None else Some (last (states_of s c)))"
    and "s' = s\<lparr>st_events := st_events s @ [e]\<rparr>" and "se_candidate e = c"
    and "se_state e = state_value t" and "sequenced s'"
proof -
  let ?es = "filter (\<lambda>e. se_candidate e = c) (st_events s)"
  have sq: "sequenced s" and st: "state_path s c = map state_value (states_of s c)"
    using wf by (simp_all add: well_formed_def)
  have seqs: "map se_sequence ?es = map int [0..<length ?es]" using sq by (simp add: sequenced_def)
  have le: "latest_event s c = (if ?es = [] then None else Some (last ?es))"
    by (cases ?es rule: rev_cases) (simp_all add: latest_event_def sequenced_events [OF sq])
  have lst: "?es \<noteq> [] \<Longrightarrow> se_state (last ?es) = state_value (last (states_of s c)) \<and> states_of s c \<noteq> []"
    using st unfolding state_path_def by (metis last_map map_is_Nil_conv)
  have emp: "?es = [] \<longleftrightarrow> states_of s c = []" using st unfolding state_path_def by (metis map_is_Nil_conv)
  have nxt: "(case latest_event s c of None \<Rightarrow> 0 | Some e \<Rightarrow> se_sequence e + 1) = int (length ?es)"
  proof (cases "?es = []")
    case False
    then have "se_sequence (last ?es) = last (map se_sequence ?es)" by (simp add: last_map)
    also have "\<dots> = int (length ?es - 1)" using False unfolding seqs by (simp add: last_map del: length_filter_map)
    finally show ?thesis using False le by (simp add: of_nat_diff Suc_le_eq)
  qed (simp add: le)
  from run have cur: "(case latest_event s c of None \<Rightarrow> Inr None
      | Some e \<Rightarrow> rbind (decode_state (se_state e)) (\<lambda>x. Inr (Some x))) = Inr expected"
    and ins: "insert_event s c (int (length ?es)) (state_value t) d = Inr (s', e)"
    by (auto simp: atomic_append_def Let_def nxt)
  show "expected = (if states_of s c = [] then None else Some (last (states_of s c)))"
    using cur le lst emp by (auto simp: decode_state_value split: if_splits)
  show s': "s' = s\<lparr>st_events := st_events s @ [e]\<rparr>" and e: "se_candidate e = c" "se_state e = state_value t"
    using ins by (auto simp: insert_event_def Let_def rbind_raise_if split: if_splits)
  have "se_sequence e = int (length ?es)"
    using ins by (auto simp: insert_event_def Let_def rbind_raise_if split: if_splits)
  then show "sequenced s'" using sq e unfolding s' sequenced_def by simp
qed

lemma append_states:
  assumes wf: "well_formed s" and run: "atomic_append s c expected t d = Inr (s', e)"
    and ok: "legal (states_of s c @ [t])"
  shows "well_formed s' \<and> states_of s' c = states_of s c @ [t] \<and> (\<forall>c'. c' \<noteq> c \<longrightarrow> states_of s' c' = states_of s c')"
proof -
  note a = atomic_append_Inr [OF wf run]
  have path: "state_path s' c' = (if c' = c then map state_value (states_of s c @ [t])
      else map state_value (states_of s c'))" for c'
    using wf a(2,3,4) by (auto simp: state_path_def well_formed_def)
  then have st: "states_of s' c' = (if c' = c then states_of s c @ [t] else states_of s c')" for c'
    by (intro states_of_eq) simp
  show ?thesis
    using path st a(2,5) wf ok by (auto simp: well_formed_def)
qed

text \<open>The current state of a registered candidate can always be moved on.\<close>

lemma append_accepts:
  assumes wf: "well_formed s" and some: "states_of s c \<noteq> []" and "c \<in> set (st_candidates s)" and "d \<noteq> Some []"
  shows "\<exists>s' e. atomic_append s c (Some (last (states_of s c))) t d = Inr (s', e)"
proof -
  let ?es = "filter (\<lambda>e. se_candidate e = c) (st_events s)"
  have sq: "sequenced s" and st: "map se_state ?es = map state_value (states_of s c)" and open_s: "\<not> st_closed s"
    using wf by (simp_all add: well_formed_def state_path_def)
  have ne: "?es \<noteq> []" using st some by auto
  have le: "latest_event s c = Some (last ?es)"
    using ne by (cases ?es rule: rev_cases) (simp_all add: latest_event_def sequenced_events [OF sq])
  have lst: "se_state (last ?es) = state_value (last (states_of s c))" using st ne some by (metis last_map)
  have seqs: "map se_sequence ?es = map int [0..<length ?es]" using sq by (simp add: sequenced_def)
  have "se_sequence (last ?es) = last (map se_sequence ?es)" using ne by (simp add: last_map)
  also have "\<dots> = int (length ?es - 1)" using ne unfolding seqs by (simp add: last_map)
  finally have nxt: "se_sequence (last ?es) + 1 = int (length ?es)" using ne by (simp add: of_nat_diff Suc_le_eq)
  have "se_sequence e \<noteq> int (length ?es)" if "e \<in> set ?es" for e
  proof -
    have "se_sequence e \<in> set (map se_sequence ?es)" using that by auto
    then show ?thesis unfolding seqs by auto
  qed
  then have "\<not> list_ex (\<lambda>e. se_candidate e = c \<and> se_sequence e = int (length ?es)) (st_events s)"
    by (auto simp: list_ex_iff)
  then show ?thesis
    using assms(3,4) open_s le lst nxt
    by (simp add: atomic_append_def require_open_def raise_if_def Let_def decode_state_value insert_event_def)
qed

lemma initialize_step:
  assumes "well_formed s" and "initialize_from r s c d = Inr (s', e)"
  shows "well_formed s' \<and> states_of s c = [] \<and> states_of s' c = [PLANNED]
    \<and> (\<forall>c'. c' \<noteq> c \<longrightarrow> states_of s' c' = states_of s c')"
proof -
  from assms(2) have run: "atomic_append s c None PLANNED d = Inr (s', e)"
    by (auto simp: initialize_from_def)
  have "states_of s c = []" using atomic_append_Inr(1) [OF assms(1) run] by (auto split: if_splits)
  with append_states [OF assms(1) run] show ?thesis by (simp add: legal_def)
qed

lemma transition_step:
  assumes "well_formed r" and "well_formed s" and "transition_from r s c t d = Inr (s', e)"
  shows "well_formed s' \<and> states_of s c \<noteq> [] \<and> states_of s' c = states_of s c @ [t]
    \<and> (\<forall>c'. c' \<noteq> c \<longrightarrow> states_of s' c' = states_of s c')
    \<and> check_transition (states_of r c) t = Inr (last (states_of s c))"
proof -
  from assms(3) history_well_formed [OF assms(1)] obtain x where
    x: "check_transition (states_of r c) t = Inr x" "atomic_append s c (Some x) t d = Inr (s', e)"
    by (auto simp: transition_from_def)
  have "Some x = (if states_of s c = [] then None else Some (last (states_of s c)))"
    by (rule atomic_append_Inr(1) [OF assms(2) x(2)])
  then have l: "states_of s c \<noteq> []" "x = last (states_of s c)" by (auto split: if_splits)
  have "t \<in> set (DIRECT_TRANSITIONS x)" using x(1) by (auto simp: check_transition_def Let_def)
  then have "legal (states_of s c @ [t])" using l assms(2) by (simp add: legal_snoc well_formed_def)
  with append_states [OF assms(2) x(2)] l x show ?thesis by simp
qed

text \<open>Every direct transition of a registered candidate is made.\<close>

lemma transition_accepted:
  assumes wf: "well_formed s" and c: "c \<in> set (st_candidates s)" and st: "states_of s c = xs" "xs \<noteq> []"
    and ok: "check_transition xs t = Inr x" and d: "d \<noteq> Some []"
  shows "\<exists>s' e. transition_from s s c t d = Inr (s', e) \<and> well_formed s' \<and> c \<in> set (st_candidates s')
    \<and> states_of s' c = xs @ [t]"
proof -
  have "x = last xs" using ok by (auto simp: check_transition_def Let_def)
  with append_accepts [OF wf _ c d, of t] st ok obtain s' e where
    tr: "transition_from s s c t d = Inr (s', e)"
    by (auto simp: transition_from_def history_well_formed [OF wf])
  then obtain y where "atomic_append s c (Some y) t d = Inr (s', e)" by (auto simp: transition_from_def)
  then have "st_candidates s' = st_candidates s" using atomic_append_Inr(2) [OF wf] by fastforce
  then show ?thesis using transition_step [OF wf wf tr] c st tr by auto
qed

lemma working_state_active:
  assumes "xs \<noteq> []" and "last xs = required_state stage"
  shows "active_stage_before_recovery xs = Inr stage"
proof -
  obtain ys where xs: "xs = ys @ [required_state stage]" using assms by (metis append_butlast_last_id)
  show ?thesis by (cases stage) (simp_all add: xs active_stage_before_recovery_def required_state_def)
qed

lemma candidate_step: "well_formed s \<Longrightarrow> well_formed (s\<lparr>st_candidates := cs\<rparr>)
    \<and> states_of (s\<lparr>st_candidates := cs\<rparr>) c = states_of s c"
  by (simp add: well_formed_def sequenced_def states_of_def state_path_def)

lemma empty_well_formed: "st_events s = [] \<Longrightarrow> \<not> st_closed s \<Longrightarrow> well_formed s \<and> states_of s c = []"
  by (simp add: well_formed_def sequenced_def states_of_def state_path_def legal_def)

lemma evolves_grows:
  assumes "evolves s0 s" and "well_formed s0"
  shows "well_formed s \<and> (\<exists>ys. states_of s c = states_of s0 c @ ys)"
  using assms
proof (induction arbitrary: c rule: evolves.induct)
  case (evolves_candidate s0 s c)
  then show ?case using candidate_step by auto
next
  case (evolves_initialize s0 r s c' d s' e)
  then have r: "well_formed r" by blast
  have s: "well_formed s" "\<exists>ys. states_of s c = states_of s0 c @ ys" for c
    using evolves_initialize.IH evolves_initialize.prems r by (blast, metis append_assoc)
  from initialize_step [OF s(1) evolves_initialize.hyps(3)] s(2) show ?case
    by (metis append_is_Nil_conv self_append_conv2)
next
  case (evolves_transition s0 r s c' t d s' e)
  then have r: "well_formed r" by blast
  have s: "well_formed s" "\<exists>ys. states_of s c = states_of s0 c @ ys" for c
    using evolves_transition.IH evolves_transition.prems r by (blast, metis append_assoc)
  from transition_step [OF r s(1) evolves_transition.hyps(3)] s(2) show ?case
    by (metis append_assoc)
qed simp

text \<open>
  C38. Whatever workers read and write concurrently, each candidate's persisted history decodes, starts
  at \<open>planned\<close>, moves only along the direct transitions, never continues past a terminal state, and
  only grows.
\<close>
theorem history_always_legal:
  assumes "st_events s0 = []" and "\<not> st_closed s0" and "evolves s0 r" and "evolves r s"
  shows "\<exists>xs ys. history r c = Inr xs \<and> history s c = Inr (xs @ ys) \<and> legal (xs @ ys)
    \<and> (\<forall>i < length (xs @ ys) - 1. \<not> terminal ((xs @ ys) ! i))"
proof -
  have r: "well_formed r" using evolves_grows [OF assms(3)] empty_well_formed assms(1,2) by blast
  obtain ys where ys: "well_formed s" "states_of s c = states_of r c @ ys"
    using evolves_grows [OF assms(4) r] by blast
  have "legal (states_of s c)" using ys(1) by (simp add: well_formed_def)
  then show ?thesis
    using history_well_formed [OF r] history_well_formed [OF ys(1)] ys(2) legal_terminal_last
    by (intro exI [of _ "states_of r c"] exI [of _ ys]) auto
qed

section \<open>Recovery\<close>

lemma active_stage_total:
  assumes "legal xs" and "xs \<noteq> []"
  shows "\<exists>stage. active_stage_before_recovery xs = Inr stage"
proof -
  have "PLANNED \<in> set zs \<Longrightarrow> \<exists>stage. active_stage_rev zs = Inr stage" for zs
    by (induction zs) auto
  moreover have "PLANNED \<in> set (rev xs)" using assms by (cases xs) (auto simp: legal_def)
  ultimately show ?thesis by (simp add: active_stage_before_recovery_def)
qed

lemma recovers_snoc:
  assumes "recovers_properly xs" and "check_transition xs t = Inr x"
  shows "recovers_properly (xs @ [t])"
  unfolding recovers_properly_def
proof (intro allI impI)
  fix i
  assume i: "i < length (xs @ [t])" "0 < i" and from_pause: "(xs @ [t]) ! (i - 1) \<in> {INTERRUPTED, RECOVERABLE_OOM}"
    and to: "(xs @ [t]) ! i \<in> {RUNNING, EVALUATING}"
  show "\<exists>stage. active_stage_before_recovery (take (i - 1) (xs @ [t])) = Inr stage
    \<and> (xs @ [t]) ! i = required_state stage"
  proof (cases "i < length xs")
    case True
    then have e: "(xs @ [t]) ! (i - 1) = xs ! (i - 1)" "(xs @ [t]) ! i = xs ! i"
      "take (i - 1) (xs @ [t]) = take (i - 1) xs" by (auto simp: nth_append)
    show ?thesis
      using assms(1) True i(2) from_pause to unfolding e recovers_properly_def by blast
  next
    case False
    then have e: "i = length xs" using i by simp
    then have "last xs \<in> {INTERRUPTED, RECOVERABLE_OOM}" "t \<in> {RUNNING, EVALUATING}" "xs \<noteq> []"
      using i from_pause to by (auto simp: nth_append last_conv_nth)
    with assms(2) obtain stage where "active_stage_before_recovery (butlast xs) = Inr stage"
      "t = required_state stage" by (auto simp: check_transition_def Let_def)
    then show ?thesis using e i by (simp add: nth_append butlast_conv_take)
  qed
qed

lemma sequential_inv:
  "sequential s \<Longrightarrow> well_formed s \<and> (\<forall>c. recovers_properly (states_of s c))"
proof (induction rule: sequential.induct)
  case (sequential_start s)
  then show ?case using empty_well_formed by (simp add: recovers_properly_def)
next
  case (sequential_candidate s c)
  then show ?case using candidate_step by auto
next
  case (sequential_initialize s c d s' e)
  then have wf: "well_formed s" by simp
  show ?case
  proof (intro conjI allI)
    fix c'
    show "recovers_properly (states_of s' c')"
      using initialize_step [OF wf sequential_initialize.hyps(2)] sequential_initialize.IH
      by (cases "c' = c") (auto simp: recovers_properly_def)
  qed (use initialize_step [OF wf sequential_initialize.hyps(2)] in simp)
next
  case (sequential_transition s c t d s' e)
  then have wf: "well_formed s" by simp
  note t = transition_step [OF wf wf sequential_transition.hyps(2)]
  show ?case
  proof (intro conjI allI)
    fix c'
    show "recovers_properly (states_of s' c')"
      using t sequential_transition.IH recovers_snoc by (cases "c' = c") auto
  qed (use t in simp)
qed

text \<open>
  Without interleaving, every recovery from an interruption or an out-of-memory event returns to
  the stage that was active before it, however many pauses the history has.
\<close>
theorem sequential_recovery_returns:
  assumes "sequential s"
  shows "\<exists>xs. history s c = Inr xs \<and> legal xs \<and> recovers_properly xs"
  using sequential_inv [OF assms] history_well_formed [of s c] by (auto simp: well_formed_def)

text \<open>
  The recovery plan of an initialized candidate always exists and is right: terminal exactly for
  terminal states, otherwise with a stage; a planned or paused candidate can then really take the
  transition to that stage's state, and no other working state is accepted from a pause.
\<close>
theorem recovery_plan_usable:
  assumes "st_events s0 = []" and "\<not> st_closed s0" and "evolves s0 s"
    and "history s c = Inr xs" and "xs \<noteq> []" and "c \<in> set (st_candidates s)"
  shows "\<exists>p. plan_recovery s c = Inr p \<and> rp_state p = last xs \<and> rp_terminal p = terminal (last xs)
    \<and> (terminal (last xs) \<longrightarrow> rp_stage p = None)
    \<and> (\<not> terminal (last xs) \<longrightarrow> (\<exists>stage. rp_stage p = Some stage
        \<and> (last xs \<in> {PLANNED, INTERRUPTED, RECOVERABLE_OOM} \<longrightarrow>
            (\<forall>t \<in> {RUNNING, EVALUATING}.
               (\<exists>s' e. transition_from s s c t None = Inr (s', e)) \<longleftrightarrow> t = required_state stage))))"
proof -
  have wf: "well_formed s" using evolves_grows [OF assms(3)] empty_well_formed assms(1,2) by blast
  have xs: "xs = states_of s c" using assms(4) history_well_formed [OF wf] by simp
  have lg: "legal xs" using wf by (simp add: well_formed_def xs)
  have app: "\<exists>s' e. atomic_append s c (Some (last xs)) t None = Inr (s', e)" for t
    using append_accepts [OF wf _ assms(6), of None t] assms(5) by (auto simp: xs)
  have tr: "(\<exists>s' e. transition_from s s c t None = Inr (s', e)) \<longleftrightarrow> (\<exists>x. check_transition xs t = Inr x)" for t
  proof -
    have "check_transition xs t = Inr x \<Longrightarrow> x = last xs" for x
      by (auto simp: check_transition_def Let_def)
    then show ?thesis using app [of t] assms(4) by (auto simp: transition_from_def rbind_Inr_iff)
  qed
  have bl: "last xs \<in> {INTERRUPTED, RECOVERABLE_OOM} \<Longrightarrow> \<exists>stage. active_stage_before_recovery (butlast xs) = Inr stage"
  proof -
    assume p: "last xs \<in> {INTERRUPTED, RECOVERABLE_OOM}"
    obtain ys y where ys: "xs = ys @ [y]" using assms(5) by (cases xs rule: rev_cases) auto
    have "ys \<noteq> [] \<and> legal ys" using lg p ys by (auto simp: legal_snoc split: if_splits)
    then show ?thesis using active_stage_total ys by simp
  qed
  show ?thesis
  proof (cases "last xs \<in> {INTERRUPTED, RECOVERABLE_OOM}")
    case True
    then obtain stage where st: "active_stage_before_recovery (butlast xs) = Inr stage" using bl by blast
    have "(\<exists>x. check_transition xs t = Inr x) \<longleftrightarrow> t = required_state stage" if "t \<in> {RUNNING, EVALUATING}" for t
      using True that st assms(5) by (auto simp: check_transition_def Let_def rbind_Inr_iff raise_if_def)
    then show ?thesis
      using True st assms(4,5) tr by (auto simp: plan_recovery_def raise_if_def Let_def)
  next
    case False
    have "(\<exists>x. check_transition xs t = Inr x) \<longleftrightarrow> t = RUNNING" if "last xs = PLANNED" "t \<in> {RUNNING, EVALUATING}" for t
      using that assms(5) by (auto simp: check_transition_def Let_def rbind_Inr_iff raise_if_def)
    then show ?thesis
      using False assms(4,5) tr
      by (cases "last xs") (auto simp: plan_recovery_def raise_if_def Let_def required_state_def)
  qed
qed

section \<open>Concrete runs\<close>

definition step_to :: "store \<Rightarrow> store \<Rightarrow> candidate_state \<Rightarrow> store" where
  "step_to r s t = (case transition_from r s [99] t None of Inr (s', _) \<Rightarrow> s' | Inl _ \<Rightarrow> s)"

definition demo_empty :: store where
  "demo_empty = \<lparr>st_candidates = [[99]], st_events = [], st_closed = False\<rparr>"

definition demo_planned :: store where
  "demo_planned = (case initialize_from demo_empty demo_empty [99] None of Inr (s', _) \<Rightarrow> s' | Inl _ \<Rightarrow> demo_empty)"

definition demo_paused :: store where
  "demo_paused = foldl (\<lambda>s. step_to s s) demo_planned [RUNNING, INTERRUPTED]"

definition demo_paused_again :: store where
  "demo_paused_again = foldl (\<lambda>s. step_to s s) demo_paused [RUNNING, EVALUATING, INTERRUPTED]"

lemma evolves_step_to: "evolves s0 r \<Longrightarrow> evolves r s \<Longrightarrow> evolves s0 s \<Longrightarrow> evolves s0 (step_to r s t)"
  by (auto simp: step_to_def split: sum.splits prod.splits intro: evolves_transition)

lemma evolves_foldl: "evolves s0 s \<Longrightarrow> evolves s0 (foldl (\<lambda>s. step_to s s) s ts)"
  by (induction ts arbitrary: s) (auto intro: evolves_step_to evolves_refl)

lemma demo_evolves: "evolves demo_empty demo_paused" "evolves demo_paused demo_paused_again"
proof -
  have "evolves demo_empty demo_planned"
    by (auto simp: demo_planned_def split: sum.splits prod.splits
        intro: evolves_initialize evolves_refl)
  then show "evolves demo_empty demo_paused" unfolding demo_paused_def by (rule evolves_foldl)
  show "evolves demo_paused demo_paused_again"
    unfolding demo_paused_again_def by (intro evolves_foldl evolves_refl)
qed

lemma demo_histories:
  "history demo_paused [99] = Inr [PLANNED, RUNNING, INTERRUPTED]"
  "history demo_paused_again [99] = Inr [PLANNED, RUNNING, INTERRUPTED, RUNNING, EVALUATING, INTERRUPTED]"
  by code_simp+

lemma demo_running_store:
  "well_formed (step_to demo_planned demo_planned RUNNING)" "[99] \<in> set (st_candidates (step_to demo_planned demo_planned RUNNING))"
  "states_of (step_to demo_planned demo_planned RUNNING) [99] = [PLANNED, RUNNING]"
proof -
  have "evolves demo_empty demo_planned"
    by (auto simp: demo_planned_def split: sum.splits prod.splits intro: evolves_initialize evolves_refl)
  then have "evolves demo_empty (step_to demo_planned demo_planned RUNNING)"
    by (auto intro: evolves_step_to evolves_refl)
  then show "well_formed (step_to demo_planned demo_planned RUNNING)"
    using evolves_grows empty_well_formed by (fastforce simp: demo_empty_def)
qed code_simp+

theorem history_always_legal_witness:
  "\<exists>xs ys. history demo_paused [99] = Inr xs \<and> history demo_paused_again [99] = Inr (xs @ ys) \<and> legal (xs @ ys)"
  using history_always_legal [of demo_empty demo_paused demo_paused_again "[99]"] demo_evolves
  by (auto simp: demo_empty_def)

theorem recovery_plan_usable_witness:
  "\<exists>p. plan_recovery demo_paused_again [99] = Inr p \<and> rp_terminal p = False \<and> rp_state p = INTERRUPTED"
proof -
  have "evolves demo_empty demo_paused_again"
    using demo_evolves(1) unfolding demo_paused_again_def by (rule evolves_foldl)
  moreover have "[99] \<in> set (st_candidates demo_paused_again)" by code_simp
  ultimately show ?thesis
    using recovery_plan_usable [of demo_empty demo_paused_again "[99]", OF _ _ _ demo_histories(2)]
    by (auto simp: demo_empty_def)
qed

lemma sequential_step_to: "sequential s \<Longrightarrow> sequential (step_to s s t)"
  by (auto simp: step_to_def split: sum.splits prod.splits intro: sequential_transition)

lemma demo_sequential: "sequential demo_paused_again"
proof -
  have "sequential demo_empty" by (rule sequential_start) (simp_all add: demo_empty_def)
  then have "sequential demo_planned"
    by (auto simp: demo_planned_def split: sum.splits prod.splits intro: sequential_initialize)
  moreover have "sequential s \<Longrightarrow> sequential (foldl (\<lambda>s. step_to s s) s ts)" for s ts
    by (induction ts arbitrary: s) (auto intro: sequential_step_to)
  ultimately show ?thesis unfolding demo_paused_again_def demo_paused_def by blast
qed

theorem sequential_recovery_returns_witness:
  "\<exists>xs. history demo_paused_again [99] = Inr xs \<and> recovers_properly xs \<and> length xs = 6"
  using sequential_recovery_returns [OF demo_sequential, of "[99]"] demo_histories(2) by auto

text \<open>
  The append compares only the current state, not the sequence number: two workers that both read
  a paused candidate can leave it with a recovery to the mutation stage although evaluation was the
  stage active before the last pause.
\<close>
theorem stale_recovery_is_accepted:
  "\<exists>s0 r s s' e xs. st_events s0 = [] \<and> evolves s0 r \<and> evolves r s
     \<and> transition_from r s [99] RUNNING None = Inr (s', e)
     \<and> history s' [99] = Inr xs \<and> \<not> recovers_properly xs"
proof -
  have "case transition_from demo_paused demo_paused_again [99] RUNNING None of Inl _ \<Rightarrow> False
    | Inr (s', _) \<Rightarrow> history s' [99]
        = Inr [PLANNED, RUNNING, INTERRUPTED, RUNNING, EVALUATING, INTERRUPTED, RUNNING]"
    by code_simp
  then obtain s' e where s': "transition_from demo_paused demo_paused_again [99] RUNNING None = Inr (s', e)"
    "history s' [99] = Inr [PLANNED, RUNNING, INTERRUPTED, RUNNING, EVALUATING, INTERRUPTED, RUNNING]"
    by (auto split: sum.splits prod.splits)
  have "\<not> recovers_properly [PLANNED, RUNNING, INTERRUPTED, RUNNING, EVALUATING, INTERRUPTED, RUNNING]"
    unfolding recovers_properly_def
    by (rule notI, drule spec [of _ 6])
      (simp add: active_stage_before_recovery_def required_state_def)
  then show ?thesis using s' demo_evolves by (force simp: demo_empty_def)
qed

end
