(* ===== verification/WorkQueue.thy ===== *)
theory WorkQueue
  imports ExperimentStates
begin

text \<open>
  \<open>experiments/queue.py\<close>: candidate work leases in the metadata database. The lease table is the list
  of its rows with its primary key (the candidate), its \<open>UNIQUE\<close> token and its \<open>CHECK\<close> constraints;
  every operation is one write transaction, so an error leaves the database as it was.
\<close>

record work_lease =
  wl_candidate :: pystr
  wl_attempt :: pystr
  wl_worker :: pystr
  wl_token :: pystr
  wl_generation :: int
  wl_acquired :: int
  wl_heartbeat :: int
  wl_expires :: int
  wl_completed :: "int option"

definition lease_completed :: "work_lease \<Rightarrow> bool" where
  "lease_completed l \<longleftrightarrow> wl_completed l \<noteq> None"

definition lease_expired :: "work_lease \<Rightarrow> int \<Rightarrow> bool" where
  "lease_expired l now \<longleftrightarrow> \<not> lease_completed l \<and> wl_expires l \<le> now"

record lease_db =
  ld_store :: store
  ld_rows :: "work_lease list"

datatype queue_error = LeaseError string | QueueIntegrity

definition validate_identity :: "pystr \<Rightarrow> queue_error + unit" where
  "validate_identity v = raise_if (v = []) (LeaseError ''must be non-empty'')"

definition validate_time :: "int \<Rightarrow> queue_error + unit" where
  "validate_time now = raise_if (now < 0) (LeaseError ''timestamps must be non-negative'')"

text \<open>The queue's only own state: its lease duration.\<close>

definition work_queue_init :: "int \<Rightarrow> queue_error + int" where
  "work_queue_init duration = rbind (raise_if (duration \<le> 0) (LeaseError ''lease duration'')) (\<lambda>_. Inr duration)"

definition row_valid :: "work_lease \<Rightarrow> bool" where
  "row_valid l \<longleftrightarrow> 0 < wl_generation l \<and> 0 \<le> wl_acquired l \<and> wl_acquired l \<le> wl_heartbeat l
     \<and> wl_heartbeat l < wl_expires l
     \<and> (case wl_completed l of None \<Rightarrow> True | Some t \<Rightarrow> wl_heartbeat l \<le> t)"

definition find_row :: "lease_db \<Rightarrow> pystr \<Rightarrow> work_lease option" where
  "find_row s c = find (\<lambda>l. wl_candidate l = c) (ld_rows s)"

definition find_token :: "lease_db \<Rightarrow> pystr \<Rightarrow> work_lease option" where
  "find_token s t = find (\<lambda>l. wl_token l = t) (ld_rows s)"

text \<open>Insert or replace the row of a candidate, under the constraints of the table.\<close>

definition put_row :: "lease_db \<Rightarrow> work_lease \<Rightarrow> queue_error + lease_db" where
  "put_row s l =
     (let others = filter (\<lambda>r. wl_candidate r \<noteq> wl_candidate l) (ld_rows s) in
      rbind (raise_if (wl_token l \<in> wl_token ` set others \<or> \<not> row_valid l) QueueIntegrity) (\<lambda>_.
      Inr (s\<lparr>ld_rows := (if find_row s (wl_candidate l) = None then ld_rows s @ [l]
               else map (\<lambda>r. if wl_candidate r = wl_candidate l then l else r) (ld_rows s))\<rparr>)))"

definition require_db :: "lease_db \<Rightarrow> queue_error + unit" where
  "require_db s = except (require_open (ld_store s)) (\<lambda>_. LeaseError ''store'')"

definition claim ::
  "int \<Rightarrow> lease_db \<Rightarrow> pystr \<Rightarrow> pystr \<Rightarrow> pystr \<Rightarrow> pystr \<Rightarrow> int
     \<Rightarrow> queue_error + lease_db \<times> work_lease option" where
  "claim duration s c attempt worker token now =
     rbind (validate_identity c) (\<lambda>_.
     rbind (validate_identity attempt) (\<lambda>_.
     rbind (validate_identity worker) (\<lambda>_.
     rbind (validate_time now) (\<lambda>_.
     rbind (raise_if (token = []) (LeaseError ''token factory returned an empty token'')) (\<lambda>_.
     rbind (require_db s) (\<lambda>_.
     rbind (raise_if (c \<notin> set (st_candidates (ld_store s)))
              (LeaseError ''unknown experiment candidate'')) (\<lambda>_.
     if (case latest_event (ld_store s) c of None \<Rightarrow> False
         | Some e \<Rightarrow> se_state e \<in> {state_value SUCCEEDED, state_value REJECTED, state_value FAILED})
     then Inr (s, None)
     else
       let lease = (\<lambda>generation. \<lparr>wl_candidate = c, wl_attempt = attempt, wl_worker = worker,
             wl_token = token, wl_generation = generation, wl_acquired = now, wl_heartbeat = now,
             wl_expires = now + duration, wl_completed = None\<rparr>) in
       (case find_row s c of
          Some existing \<Rightarrow>
            if lease_completed existing \<or> now < wl_expires existing then Inr (s, None)
            else
              let l = lease (wl_generation existing + 1) in
              rbind (put_row s l) (\<lambda>s'. Inr (s', Some l))
        | None \<Rightarrow>
            let l = lease 1 in rbind (put_row s l) (\<lambda>s'. Inr (s', Some l))))))))))"

definition heartbeat :: "int \<Rightarrow> lease_db \<Rightarrow> pystr \<Rightarrow> int \<Rightarrow> queue_error + lease_db \<times> work_lease" where
  "heartbeat duration s token now =
     rbind (validate_identity token) (\<lambda>_.
     rbind (validate_time now) (\<lambda>_.
     rbind (require_db s) (\<lambda>_.
     rbind (of_option (LeaseError ''lease is not current'') (find_token s token)) (\<lambda>lease.
     rbind (raise_if (lease_completed lease) (LeaseError ''completed leases cannot heartbeat'')) (\<lambda>_.
     rbind (raise_if (now < wl_heartbeat lease) (LeaseError ''heartbeat timestamp moved backwards'')) (\<lambda>_.
     rbind (raise_if (wl_expires lease \<le> now) (LeaseError ''lease expired before heartbeat'')) (\<lambda>_.
     let l = lease\<lparr>wl_heartbeat := now, wl_expires := now + duration\<rparr> in
     rbind (put_row s l) (\<lambda>s'. Inr (s', l)))))))))"

definition complete :: "lease_db \<Rightarrow> pystr \<Rightarrow> int \<Rightarrow> queue_error + lease_db \<times> work_lease" where
  "complete s token now =
     rbind (validate_identity token) (\<lambda>_.
     rbind (validate_time now) (\<lambda>_.
     rbind (require_db s) (\<lambda>_.
     rbind (of_option (LeaseError ''lease is not current'') (find_token s token)) (\<lambda>lease.
     if lease_completed lease then Inr (s, lease)
     else
       rbind (raise_if (now < wl_heartbeat lease) (LeaseError ''completion timestamp moved backwards'')) (\<lambda>_.
       rbind (raise_if (wl_expires lease \<le> now) (LeaseError ''expired lease cannot complete'')) (\<lambda>_.
       let l = lease\<lparr>wl_completed := Some now\<rparr> in
       rbind (put_row s l) (\<lambda>s'. Inr (s', l))))))))"

definition current_lease :: "lease_db \<Rightarrow> pystr \<Rightarrow> queue_error + work_lease option" where
  "current_lease s c =
     rbind (validate_identity c) (\<lambda>_. rbind (require_db s) (\<lambda>_. Inr (find_row s c)))"

section \<open>Traces\<close>

text \<open>What workers may do to the database, in any order; other writers may change the store.\<close>

datatype queue_op =
    Claim pystr pystr pystr pystr int
  | Heartbeat pystr int
  | Complete pystr int
  | Store_change store

fun queue_step :: "int \<Rightarrow> lease_db \<Rightarrow> queue_op \<Rightarrow> lease_db" where
  "queue_step d s (Claim c a w t now) = (case claim d s c a w t now of Inr (s', _) \<Rightarrow> s' | Inl _ \<Rightarrow> s)"
| "queue_step d s (Heartbeat t now) = (case heartbeat d s t now of Inr (s', _) \<Rightarrow> s' | Inl _ \<Rightarrow> s)"
| "queue_step d s (Complete t now) = (case complete s t now of Inr (s', _) \<Rightarrow> s' | Inl _ \<Rightarrow> s)"
| "queue_step d s (Store_change st) = s\<lparr>ld_store := st\<rparr>"

definition queue_run :: "int \<Rightarrow> lease_db \<Rightarrow> queue_op list \<Rightarrow> lease_db" where
  "queue_run d s ops = foldl (queue_step d) s ops"

fun claims_of :: "queue_op list \<Rightarrow> (pystr \<times> pystr) list" where
  "claims_of [] = []"
| "claims_of (Claim c a w t now # ops) = (c, t) # claims_of ops"
| "claims_of (_ # ops) = claims_of ops"

section \<open>The table's invariant\<close>

definition table_ok :: "lease_db \<Rightarrow> bool" where
  "table_ok s \<longleftrightarrow> distinct (map wl_candidate (ld_rows s)) \<and> distinct (map wl_token (ld_rows s))
     \<and> list_all row_valid (ld_rows s)"

lemma find_row_Some: "table_ok s \<Longrightarrow> find_row s c = Some l \<longleftrightarrow> l \<in> set (ld_rows s) \<and> wl_candidate l = c"
proof -
  have "distinct (map wl_candidate rows) \<Longrightarrow> find (\<lambda>l. wl_candidate l = c) rows = Some l
      \<longleftrightarrow> l \<in> set rows \<and> wl_candidate l = c" for rows
    by (induction rows) (auto simp: image_iff)
  then show "table_ok s \<Longrightarrow> ?thesis" by (simp add: table_ok_def find_row_def)
qed

lemma find_row_None: "find_row s c = None \<longleftrightarrow> c \<notin> wl_candidate ` set (ld_rows s)"
  by (auto simp: find_row_def find_None_iff)

lemma find_token_Some: "table_ok s \<Longrightarrow> find_token s t = Some l \<longleftrightarrow> l \<in> set (ld_rows s) \<and> wl_token l = t"
proof -
  have "distinct (map wl_token rows) \<Longrightarrow> find (\<lambda>l. wl_token l = t) rows = Some l
      \<longleftrightarrow> l \<in> set rows \<and> wl_token l = t" for rows
    by (induction rows) (auto simp: image_iff)
  then show "table_ok s \<Longrightarrow> ?thesis" by (simp add: table_ok_def find_token_def)
qed

lemma find_token_None: "find_token s t = None \<longleftrightarrow> t \<notin> wl_token ` set (ld_rows s)"
  by (auto simp: find_token_def find_None_iff)

text \<open>A row that is put replaces its candidate's row and leaves the others.\<close>

lemma put_row_rows:
  assumes "put_row s l = Inr s'"
  shows "set (ld_rows s') = insert l {r \<in> set (ld_rows s). wl_candidate r \<noteq> wl_candidate l}"
    and "ld_store s' = ld_store s" and "table_ok s \<Longrightarrow> table_ok s'"
proof -
  from assms have tok: "wl_token l \<notin> wl_token ` {r \<in> set (ld_rows s). wl_candidate r \<noteq> wl_candidate l}"
    and val: "row_valid l"
    and s': "s' = s\<lparr>ld_rows := (if find_row s (wl_candidate l) = None then ld_rows s @ [l]
               else map (\<lambda>r. if wl_candidate r = wl_candidate l then l else r) (ld_rows s))\<rparr>"
    by (auto simp: put_row_def Let_def)
  show "set (ld_rows s') = insert l {r \<in> set (ld_rows s). wl_candidate r \<noteq> wl_candidate l}"
    unfolding s' by (auto simp: find_row_None image_iff)
  show "ld_store s' = ld_store s" by (simp add: s')
  assume ok: "table_ok s"
  let ?f = "\<lambda>r. if wl_candidate r = wl_candidate l then l else r"
  have cand: "map wl_candidate (map ?f rows) = map wl_candidate rows" for rows by (induction rows) auto
  have "distinct (map wl_candidate rows) \<Longrightarrow> distinct (map wl_token rows) \<Longrightarrow>
      wl_token l \<notin> wl_token ` {r \<in> set rows. wl_candidate r \<noteq> wl_candidate l} \<Longrightarrow>
      distinct (map wl_token (map ?f rows))" for rows
  proof (induction rows)
    case (Cons r rows)
    have same: "wl_candidate r = wl_candidate l \<Longrightarrow> map ?f rows = rows"
      using Cons.prems(1) by (intro map_idI) (auto simp: image_iff)
    then show ?case using Cons by (auto simp: image_iff)
  qed simp
  then have upd: "distinct (map wl_token (map ?f (ld_rows s)))" using ok tok by (simp add: table_ok_def)
  show "table_ok s'"
  proof (cases "find_row s (wl_candidate l) = None")
    case True
    then have c: "wl_candidate l \<notin> wl_candidate ` set (ld_rows s)" by (simp add: find_row_None)
    then have "{r \<in> set (ld_rows s). wl_candidate r \<noteq> wl_candidate l} = set (ld_rows s)"
      by (auto simp: image_iff)
    then show ?thesis using ok tok val c True by (simp add: s' table_ok_def)
  next
    case False
    have "list_all row_valid (map ?f (ld_rows s))" using ok val by (auto simp: table_ok_def list_all_iff)
    moreover have "ld_rows s' = map ?f (ld_rows s)" using False by (simp add: s')
    ultimately show ?thesis using ok upd cand [of "ld_rows s"] unfolding table_ok_def by (simp only: simp_thms)
  qed
qed

text \<open>What each operation can do to the table: nothing, or put one row.\<close>

lemma claim_cases:
  assumes "claim d s c a w t now = Inr (s', r)"
  shows "case r of
      None \<Rightarrow> s' = s
    | Some l \<Rightarrow> put_row s l = Inr s' \<and> wl_candidate l = c \<and> wl_token l = t \<and> wl_worker l = w
        \<and> wl_attempt l = a \<and> wl_acquired l = now \<and> wl_heartbeat l = now \<and> wl_expires l = now + d
        \<and> wl_completed l = None
        \<and> (case find_row s c of
             None \<Rightarrow> wl_generation l = 1
           | Some old \<Rightarrow> \<not> lease_completed old \<and> wl_expires old \<le> now
               \<and> wl_generation l = wl_generation old + 1)"
  using assms
  by (auto simp: claim_def Let_def not_less split: if_splits option.splits)

lemma heartbeat_cases:
  assumes "heartbeat d s t now = Inr (s', l)" and "table_ok s"
  shows "\<exists>old \<in> set (ld_rows s). wl_token old = t \<and> \<not> lease_completed old \<and> wl_heartbeat old \<le> now
    \<and> now < wl_expires old \<and> l = old\<lparr>wl_heartbeat := now, wl_expires := now + d\<rparr> \<and> put_row s l = Inr s'"
  using assms by (auto simp: heartbeat_def Let_def find_token_Some not_less not_le)

lemma complete_cases:
  assumes "complete s t now = Inr (s', l)" and "table_ok s"
  shows "(l \<in> set (ld_rows s) \<and> wl_token l = t \<and> lease_completed l \<and> s' = s)
    \<or> (\<exists>old \<in> set (ld_rows s). wl_token old = t \<and> \<not> lease_completed old \<and> wl_heartbeat old \<le> now
        \<and> now < wl_expires old \<and> l = old\<lparr>wl_completed := Some now\<rparr> \<and> put_row s l = Inr s')"
proof -
  from assms(1) [unfolded complete_def Let_def] assms(2)
  obtain old where old: "old \<in> set (ld_rows s)" "wl_token old = t"
    and r: "(if lease_completed old then Inr (s, old)
      else rbind (raise_if (now < wl_heartbeat old) (LeaseError ''completion timestamp moved backwards'')) (\<lambda>_.
       rbind (raise_if (wl_expires old \<le> now) (LeaseError ''expired lease cannot complete'')) (\<lambda>_.
       rbind (put_row s (old\<lparr>wl_completed := Some now\<rparr>)) (\<lambda>s'. Inr (s', old\<lparr>wl_completed := Some now\<rparr>)))))
      = Inr (s', l)"
    by (auto simp: find_token_Some)
  show ?thesis
  proof (cases "lease_completed old")
    case True
    then show ?thesis using old r by simp
  next
    case False
    then show ?thesis using old r by (intro disjI2 bexI [of _ old]) auto
  qed
qed

lemma step_table_ok: "table_ok s \<Longrightarrow> table_ok (queue_step d s op)"
proof (cases op)
  case (Claim c a w t now)
  assume ok: "table_ok s"
  show ?thesis
  proof (cases "claim d s c a w t now")
    case (Inr x)
    obtain s' r where x: "x = (s', r)" by (cases x)
    from claim_cases [of d s c a w t now s' r] show ?thesis
      using ok put_row_rows(3) Inr x by (cases r) (auto simp: Claim)
  qed (simp add: Claim ok)
next
  case (Heartbeat t now)
  then show "table_ok s \<Longrightarrow> ?thesis"
    using put_row_rows(3) by (auto split: sum.splits dest!: heartbeat_cases)
next
  case (Complete t now)
  then show "table_ok s \<Longrightarrow> ?thesis"
    using put_row_rows(3) by (auto split: sum.splits dest!: complete_cases)
next
  case (Store_change st)
  then show "table_ok s \<Longrightarrow> ?thesis" by (simp add: table_ok_def)
qed

lemma run_table_ok: "table_ok s \<Longrightarrow> table_ok (queue_run d s ops)"
  unfolding queue_run_def by (induction ops arbitrary: s) (auto intro: step_table_ok)

lemma queue_run_simps [simp]:
  "queue_run d s [] = s"
  "queue_run d s (op # ops) = queue_run d (queue_step d s op) ops"
  "queue_run d s (xs @ ys) = queue_run d (queue_run d s xs) ys"
  by (simp_all add: queue_run_def)

text \<open>Rows come from claims: a step adds no candidate and token pair but its own claim's.\<close>

lemma step_pairs:
  assumes "table_ok s"
  shows "(\<lambda>l. (wl_candidate l, wl_token l)) ` set (ld_rows (queue_step d s op))
    \<subseteq> (\<lambda>l. (wl_candidate l, wl_token l)) ` set (ld_rows s) \<union> set (claims_of [op])"
proof (cases op)
  case (Claim c a w t now)
  show ?thesis
  proof (cases "claim d s c a w t now")
    case (Inr x)
    obtain s' r where x: "x = (s', r)" by (cases x)
    show ?thesis
      using claim_cases [of d s c a w t now s' r] put_row_rows(1) [of s _ s'] Inr x
      by (cases r) (auto simp: Claim)
  qed (auto simp: Claim)
next
  case (Heartbeat t now)
  show ?thesis
  proof (cases "heartbeat d s t now")
    case (Inr x)
    obtain s' l where x: "x = (s', l)" by (cases x)
    from heartbeat_cases [OF Inr [unfolded x] assms] obtain old where
      "old \<in> set (ld_rows s)" "l = old\<lparr>wl_heartbeat := now, wl_expires := now + d\<rparr>" "put_row s l = Inr s'" by blast
    then show ?thesis using put_row_rows(1) [of s l s'] Inr x by (auto simp: Heartbeat)
  qed (auto simp: Heartbeat)
next
  case (Complete t now)
  show ?thesis
  proof (cases "complete s t now")
    case (Inr x)
    obtain s' l where x: "x = (s', l)" by (cases x)
    from complete_cases [OF Inr [unfolded x] assms] show ?thesis
    proof (elim disjE bexE)
      fix old
      assume "old \<in> set (ld_rows s)" and "wl_token old = t \<and> \<not> lease_completed old \<and> wl_heartbeat old \<le> now
        \<and> now < wl_expires old \<and> l = old\<lparr>wl_completed := Some now\<rparr> \<and> put_row s l = Inr s'"
      then show ?thesis using put_row_rows(1) [of s l s'] Inr x by (auto simp: Complete)
    qed (use Inr x Complete in auto)
  qed (auto simp: Complete)
qed auto

lemma run_pairs:
  assumes "table_ok s"
  shows "(\<lambda>l. (wl_candidate l, wl_token l)) ` set (ld_rows (queue_run d s ops))
    \<subseteq> (\<lambda>l. (wl_candidate l, wl_token l)) ` set (ld_rows s) \<union> set (claims_of ops)"
  using assms
proof (induction ops arbitrary: s)
  case (Cons op ops)
  have "set (claims_of (op # ops)) = set (claims_of [op]) \<union> set (claims_of ops)" by (cases op) auto
  then show ?case
    using Cons.IH [OF step_table_ok [OF Cons.prems, of d op]] step_pairs [OF Cons.prems, of d op]
    unfolding queue_run_simps by blast
qed simp

lemma claims_of_append [simp]: "claims_of (xs @ ys) = claims_of xs @ claims_of ys"
  by (induction xs rule: claims_of.induct) auto

lemma tokens_fresh:
  assumes "table_ok s" and "t \<notin> wl_token ` set (ld_rows s)" and "t \<notin> snd ` set (claims_of ops)"
  shows "t \<notin> wl_token ` set (ld_rows (queue_run d s ops))"
  using run_pairs [OF assms(1), of d ops] assms(2,3) by force

lemma token_gone:
  assumes "table_ok s" and "t \<notin> wl_token ` set (ld_rows s)"
  shows "\<exists>e. heartbeat d s t now = Inl e" and "\<exists>e. complete s t now = Inl e"
proof -
  have "\<not> (\<exists>x. heartbeat d s t now = Inr x)" "\<not> (\<exists>x. complete s t now = Inr x)"
    using heartbeat_cases [OF _ assms(1)] complete_cases [OF _ assms(1)] assms(2) by fastforce+
  then show "\<exists>e. heartbeat d s t now = Inl e" "\<exists>e. complete s t now = Inl e"
    by (cases "heartbeat d s t now"; cases "complete s t now"; blast)+
qed

text \<open>
  C39. Fencing: once a candidate has been claimed anew, the earlier worker's token is dead for good: in
  any later state, whatever happened in between, neither its heartbeat nor its completion succeeds.
  Tokens are only assumed never to be issued twice.
\<close>
theorem stale_worker_fenced:
  assumes "ld_rows s0 = []" and "distinct (map snd (claims_of (ops1 @ [Claim c a w t now] @ ops2
      @ [Claim c a' w' t' now'] @ ops3)))"
    and "s1 = queue_run d s0 (ops1 @ [Claim c a w t now] @ ops2)"
    and "claim d s1 c a' w' t' now' = Inr (s2, Some l')"
  shows "\<exists>e e'. heartbeat d (queue_run d s2 ops3) t tm = Inl e
    \<and> complete (queue_run d s2 ops3) t tm = Inl e'"
proof -
  have ok0: "table_ok s0" using assms(1) by (simp add: table_ok_def)
  have ok1: "table_ok s1" unfolding assms(3) by (rule run_table_ok [OF ok0])
  note cl = claim_cases [OF assms(4)]
  then have put: "put_row s1 l' = Inr s2" "wl_candidate l' = c" "wl_token l' = t'" by auto
  have ok2: "table_ok s2" by (rule put_row_rows(3) [OF put(1) ok1])
  have pairs: "(wl_candidate r, wl_token r) \<in> set (claims_of (ops1 @ [Claim c a w t now] @ ops2))"
    if "r \<in> set (ld_rows s1)" for r
    using run_pairs [OF ok0, of d "ops1 @ [Claim c a w t now] @ ops2"] that assms(1,3) by auto
  have uniq: "c2 = c" if "(c2, t) \<in> set (claims_of (ops1 @ [Claim c a w t now] @ ops2))" for c2
    using that assms(2) by (force simp: image_iff)
  have "t \<noteq> t'" using assms(2) by auto
  have "wl_token r \<noteq> t" if "r \<in> set (ld_rows s2)" for r
  proof
    assume t: "wl_token r = t"
    have "r \<noteq> l'" using t put(3) \<open>t \<noteq> t'\<close> by auto
    then have r: "r \<in> set (ld_rows s1)" "wl_candidate r \<noteq> c"
      using that put_row_rows(1) [OF put(1)] put(2) by auto
    from pairs [OF r(1)] uniq t r(2) show False by auto
  qed
  then have "t \<notin> wl_token ` set (ld_rows s2)" by auto
  moreover have "t \<notin> snd ` set (claims_of ops3)" using assms(2) by auto
  ultimately have "t \<notin> wl_token ` set (ld_rows (queue_run d s2 ops3))"
    by (rule tokens_fresh [OF ok2])
  from token_gone [OF run_table_ok [OF ok2] this] show ?thesis by blast
qed

text \<open>A completed row survives every step.\<close>

lemma completed_row_stays:
  assumes ok: "table_ok s" and l: "l \<in> set (ld_rows s)" "lease_completed l"
  shows "l \<in> set (ld_rows (queue_step d s op))"
proof (cases op)
  case (Claim c a w t now)
  show ?thesis
  proof (cases "claim d s c a w t now")
    case (Inr x)
    obtain s' r where x: "x = (s', r)" by (cases x)
    show ?thesis
    proof (cases r)
      case None
      then show ?thesis using claim_cases [OF Inr [unfolded x]] Inr x l by (simp add: Claim)
    next
      case (Some n)
      note cl = claim_cases [OF Inr [unfolded x Some]]
      have "wl_candidate l \<noteq> c"
      proof
        assume "wl_candidate l = c"
        then have "find_row s c = Some l" using l find_row_Some [OF ok] by simp
        then show False using cl l(2) by simp
      qed
      then show ?thesis using cl put_row_rows(1) [of s n s'] Inr x l by (auto simp: Claim)
    qed
  qed (simp add: Claim l)
next
  case (Heartbeat t now)
  show ?thesis
  proof (cases "heartbeat d s t now")
    case (Inr x)
    obtain s' n where x: "x = (s', n)" by (cases x)
    from heartbeat_cases [OF Inr [unfolded x] ok] obtain old where
      o: "old \<in> set (ld_rows s)" "\<not> lease_completed old" "put_row s n = Inr s'"
      "wl_candidate n = wl_candidate old" by auto
    have "wl_candidate l \<noteq> wl_candidate old"
      using find_row_Some [OF ok, of "wl_candidate l" l] find_row_Some [OF ok, of "wl_candidate l" old] o l by auto
    then show ?thesis using put_row_rows(1) [OF o(3)] o(4) Inr x l by (auto simp: Heartbeat)
  qed (simp add: Heartbeat l)
next
  case (Complete t now)
  show ?thesis
  proof (cases "complete s t now")
    case (Inr x)
    obtain s' n where x: "x = (s', n)" by (cases x)
    from complete_cases [OF Inr [unfolded x] ok] show ?thesis
    proof
      assume "\<exists>old \<in> set (ld_rows s). wl_token old = t \<and> \<not> lease_completed old \<and> wl_heartbeat old \<le> now
        \<and> now < wl_expires old \<and> n = old\<lparr>wl_completed := Some now\<rparr> \<and> put_row s n = Inr s'"
      then obtain old where o: "old \<in> set (ld_rows s)" "\<not> lease_completed old" "put_row s n = Inr s'"
        "wl_candidate n = wl_candidate old" by auto
      have "wl_candidate l \<noteq> wl_candidate old"
        using find_row_Some [OF ok, of "wl_candidate l" l] find_row_Some [OF ok, of "wl_candidate l" old] o l by auto
      then show ?thesis using put_row_rows(1) [OF o(3)] o(4) Inr x l by (auto simp: Complete)
    qed (use Inr x l Complete in simp)
  qed (simp add: Complete l)
qed (simp add: l)

lemma completed_row_run:
  "table_ok s \<Longrightarrow> l \<in> set (ld_rows s) \<Longrightarrow> lease_completed l \<Longrightarrow> l \<in> set (ld_rows (queue_run d s ops))"
  by (induction ops arbitrary: s) (auto intro: completed_row_stays step_table_ok)

text \<open>
  Completion is final: after a worker completed a candidate, no sequence of operations lets any
  worker claim it again, its row never changes, and repeating the completion returns the same lease.
\<close>
theorem completion_is_final:
  assumes "table_ok s" and "complete s t now = Inr (s', l)"
    and "claim d (queue_run d s' ops) (wl_candidate l) a w t' now' = Inr (s'', r)"
    and "t \<noteq> []" and "0 \<le> now2" and "\<not> st_closed (ld_store (queue_run d s' ops))"
  shows "lease_completed l \<and> r = None \<and> s'' = queue_run d s' ops
    \<and> find_row s'' (wl_candidate l) = Some l
    \<and> complete s'' t now2 = Inr (s'', l)"
proof -
  note c = complete_cases [OF assms(2,1)]
  have ok': "table_ok s'" using c assms(1) put_row_rows(3) by blast
  have l: "l \<in> set (ld_rows s')" "lease_completed l" "wl_token l = t"
    using c put_row_rows(1) [of s l s'] by (auto simp: lease_completed_def)
  let ?s = "queue_run d s' ops"
  have ok: "table_ok ?s" by (rule run_table_ok [OF ok'])
  have row: "l \<in> set (ld_rows ?s)" by (rule completed_row_run [OF ok' l(1,2)])
  have fr: "find_row ?s (wl_candidate l) = Some l" using row find_row_Some [OF ok] by simp
  have r: "r = None"
  proof (cases r)
    case (Some n)
    then show ?thesis using claim_cases [OF assms(3)] fr l(2) by simp
  qed
  then have s'': "s'' = ?s" using claim_cases [OF assms(3)] by simp
  have "find_token ?s t = Some l" using row l(3) find_token_Some [OF ok] by simp
  then have "complete ?s t now2 = Inr (?s, l)"
    using assms(4-6) l(2) by (simp add: complete_def validate_identity_def validate_time_def raise_if_def
        require_db_def require_open_def)
  then show ?thesis using r s'' fr l(2) by simp
qed

text \<open>
  Claims are granted exactly when they may be: for a known candidate in no terminal state, with
  valid arguments and an unused token, a claim returns a lease if the candidate has no row or an
  uncompleted row that has expired by the claim's time, and nothing otherwise; the lease counts one
  generation further and expires after the queue's duration.
\<close>
theorem claim_granted_iff_free:
  assumes "table_ok s" and "0 < d" and "c \<noteq> []" and "a \<noteq> []" and "w \<noteq> []" and "t \<noteq> []" and "0 \<le> now"
    and "\<not> st_closed (ld_store s)" and "c \<in> set (st_candidates (ld_store s))"
    and "t \<notin> wl_token ` set (ld_rows s)"
    and "case latest_event (ld_store s) c of None \<Rightarrow> True
      | Some e \<Rightarrow> se_state e \<notin> {state_value SUCCEEDED, state_value REJECTED, state_value FAILED}"
  shows "\<exists>s' r. claim d s c a w t now = Inr (s', r)
    \<and> (case find_row s c of
         None \<Rightarrow> (\<exists>l. r = Some l \<and> wl_generation l = 1 \<and> wl_expires l = now + d \<and> find_row s' c = Some l)
       | Some old \<Rightarrow>
           if lease_expired old now
           then (\<exists>l. r = Some l \<and> wl_generation l = wl_generation old + 1 \<and> wl_expires l = now + d
                   \<and> find_row s' c = Some l)
           else r = None \<and> s' = s)"
proof -
  have put: "\<exists>s'. put_row s l = Inr s' \<and> find_row s' c = Some l"
    if l: "wl_candidate l = c" "wl_token l = t" "row_valid l" for l
  proof -
    have "wl_token l \<notin> wl_token ` set (filter (\<lambda>r. wl_candidate r \<noteq> wl_candidate l) (ld_rows s))"
      using assms(10) l(2) by auto
    then obtain s' where s': "put_row s l = Inr s'"
      using l(3) by (simp add: put_row_def Let_def raise_if_def)
    have "table_ok s'" by (rule put_row_rows(3) [OF s' assms(1)])
    then show ?thesis using s' put_row_rows(1) [OF s'] l(1) find_row_Some by auto
  qed
  let ?l = "\<lambda>g. \<lparr>wl_candidate = c, wl_attempt = a, wl_worker = w, wl_token = t, wl_generation = g,
    wl_acquired = now, wl_heartbeat = now, wl_expires = now + d, wl_completed = None\<rparr>"
  have nterm: "(case latest_event (ld_store s) c of None \<Rightarrow> False
      | Some e \<Rightarrow> se_state e \<in> {state_value SUCCEEDED, state_value REJECTED, state_value FAILED}) = False"
    using assms(11) by (auto split: option.splits)
  have go: "claim d s c a w t now = (case find_row s c of
      Some existing \<Rightarrow>
        if lease_completed existing \<or> now < wl_expires existing then Inr (s, None)
        else rbind (put_row s (?l (wl_generation existing + 1)))
          (\<lambda>s'. Inr (s', Some (?l (wl_generation existing + 1))))
    | None \<Rightarrow> rbind (put_row s (?l 1)) (\<lambda>s'. Inr (s', Some (?l 1))))"
    unfolding claim_def Let_def nterm
    using assms(3-9) by (simp add: validate_identity_def validate_time_def raise_if_def require_db_def
        require_open_def cong: option.case_cong)
  show ?thesis
  proof (cases "find_row s c")
    case None
    obtain s' where "put_row s (?l 1) = Inr s'" "find_row s' c = Some (?l 1)"
      using put [of "?l 1"] assms(2,7) by (auto simp: row_valid_def)
    then show ?thesis using go None by simp
  next
    case (Some old)
    have g: "0 < wl_generation old"
      using Some find_row_Some [OF assms(1)] assms(1) by (auto simp: table_ok_def list_all_iff row_valid_def)
    show ?thesis
    proof (cases "lease_expired old now")
      case True
      obtain s' where "put_row s (?l (wl_generation old + 1)) = Inr s'"
        "find_row s' c = Some (?l (wl_generation old + 1))"
        using put [of "?l (wl_generation old + 1)"] assms(2,7) g by (auto simp: row_valid_def)
      then show ?thesis using go Some True by (simp add: lease_expired_def not_less)
    next
      case False
      then show ?thesis using go Some by (auto simp: lease_expired_def not_less not_le)
    qed
  qed
qed

section \<open>A concrete queue\<close>

definition demo_db :: lease_db where
  "demo_db = \<lparr>ld_store = \<lparr>st_candidates = [[99]], st_events = [], st_closed = False\<rparr>, ld_rows = []\<rparr>"

definition demo_claimed :: lease_db where
  "demo_claimed = queue_run 10 demo_db ([] @ [Claim [99] [1] [1] [1] 0] @ [Heartbeat [1] 5])"

theorem stale_worker_fenced_witness:
  "\<exists>s2 l' e e'. claim 10 demo_claimed [99] [2] [2] [2] 15 = Inr (s2, Some l') \<and> wl_generation l' = 2
     \<and> heartbeat 10 s2 [1] 16 = Inl e \<and> complete s2 [1] 16 = Inl e'"
proof -
  have "case claim 10 demo_claimed [99] [2] [2] [2] 15 of Inl _ \<Rightarrow> False
    | Inr (s2, r) \<Rightarrow> (case r of None \<Rightarrow> False | Some l \<Rightarrow> wl_generation l = 2)" by code_simp
  then obtain s2 l' where c: "claim 10 demo_claimed [99] [2] [2] [2] 15 = Inr (s2, Some l')" "wl_generation l' = 2"
    by (auto split: sum.splits prod.splits option.splits)
  have "\<exists>e e'. heartbeat 10 (queue_run 10 s2 []) [1] 16 = Inl e \<and> complete (queue_run 10 s2 []) [1] 16 = Inl e'"
    by (rule stale_worker_fenced [OF _ _ demo_claimed_def c(1)]) (simp_all add: demo_db_def)
  with c show ?thesis by auto
qed

lemma demo_claimed_ok: "table_ok demo_claimed"
  unfolding demo_claimed_def by (rule run_table_ok) (simp add: table_ok_def demo_db_def)

theorem completion_is_final_witness:
  "\<exists>s' l. complete demo_claimed [1] 6 = Inr (s', l) \<and> lease_completed l
     \<and> claim 10 s' [99] [2] [2] [2] 100 = Inr (s', None) \<and> complete s' [1] 200 = Inr (s', l)"
proof -
  have "case complete demo_claimed [1] 6 of Inl _ \<Rightarrow> False | Inr (s', l) \<Rightarrow> wl_candidate l = [99]
      \<and> \<not> st_closed (ld_store s')
      \<and> (case claim 10 (queue_run 10 s' []) [99] [2] [2] [2] 100 of Inl _ \<Rightarrow> False | Inr _ \<Rightarrow> True)"
    by code_simp
  then obtain s' l s'' r where c: "complete demo_claimed [1] 6 = Inr (s', l)" "wl_candidate l = [99]"
    "\<not> st_closed (ld_store s')" "claim 10 (queue_run 10 s' []) [99] [2] [2] [2] 100 = Inr (s'', r)"
    by (auto split: sum.splits prod.splits)
  have "lease_completed l \<and> r = None \<and> s'' = queue_run 10 s' []
    \<and> find_row s'' (wl_candidate l) = Some l \<and> complete s'' [1] 200 = Inr (s'', l)"
    by (rule completion_is_final [OF demo_claimed_ok c(1)]) (use c in simp_all)
  with c show ?thesis by auto
qed

theorem claim_granted_iff_free_witness:
  "\<exists>s' l. claim 10 demo_claimed [99] [2] [2] [2] 15 = Inr (s', Some l) \<and> wl_generation l = 2 \<and> wl_expires l = 25"
proof -
  have row: "case find_row demo_claimed [99] of None \<Rightarrow> False
    | Some l \<Rightarrow> wl_generation l = 1 \<and> wl_expires l = 15 \<and> wl_completed l = None" by code_simp
  then obtain old where old: "find_row demo_claimed [99] = Some old" "wl_generation old = 1"
    "lease_expired old 15" by (auto simp: lease_expired_def lease_completed_def split: option.splits)
  have st: "\<not> st_closed (ld_store demo_claimed)" "[99] \<in> set (st_candidates (ld_store demo_claimed))"
    "[2] \<notin> wl_token ` set (ld_rows demo_claimed)" "latest_event (ld_store demo_claimed) [99] = None"
    by code_simp+
  have "\<exists>s' r. claim 10 demo_claimed [99] [2] [2] [2] 15 = Inr (s', r)
    \<and> (case find_row demo_claimed [99] of
         None \<Rightarrow> (\<exists>l. r = Some l \<and> wl_generation l = 1 \<and> wl_expires l = 15 + 10 \<and> find_row s' [99] = Some l)
       | Some old \<Rightarrow> if lease_expired old 15
           then (\<exists>l. r = Some l \<and> wl_generation l = wl_generation old + 1 \<and> wl_expires l = 15 + 10
                   \<and> find_row s' [99] = Some l)
           else r = None \<and> s' = demo_claimed)"
    by (rule claim_granted_iff_free [OF demo_claimed_ok]) (use st in simp_all)
  then show ?thesis using old by auto
qed

end
