(* ===== verification/PyNumerals.thy ===== *)
theory PyNumerals
  imports PyText
begin

text \<open>
  Python's integer text: \<open>str(n)\<close> and \<open>int(s)\<close> in base 10 under the interpreter's limit of 4300
  digits, the base-16 form \<open>int(s, 16)\<close> with its signs, prefixes and underscores, and the whitespace
  and decimal-digit classes of \<open>str.strip\<close> and \<open>int\<close> (Unicode 15).
\<close>

section \<open>Decimal numerals\<close>

definition is_digit :: "nat \<Rightarrow> bool" where
  "is_digit c \<longleftrightarrow> 0x30 \<le> c \<and> c \<le> 0x39"

fun decimal_digits :: "nat \<Rightarrow> pystr" where
  "decimal_digits n = (if n < 10 then [0x30 + n] else decimal_digits (n div 10) @ [0x30 + n mod 10])"

declare decimal_digits.simps [simp del]

definition decimal_value :: "pystr \<Rightarrow> nat" where
  "decimal_value ds = foldl (\<lambda>a d. a * 10 + (d - 0x30)) 0 ds"

definition MAX_STR_DIGITS :: nat where
  "MAX_STR_DIGITS = 4300"

text \<open>\<open>str(n)\<close>: \<open>None\<close> where the digit limit raises \<open>ValueError\<close>.\<close>

definition py_str_int :: "int \<Rightarrow> pystr option" where
  "py_str_int n =
     (let ds = decimal_digits (nat \<bar>n\<bar>) in
      if MAX_STR_DIGITS < length ds then None
      else Some (if n < 0 then 0x2D # ds else ds))"

text \<open>\<open>int(s)\<close> for a string of ASCII digits.\<close>

definition py_int_digits :: "pystr \<Rightarrow> int option" where
  "py_int_digits ds = (if MAX_STR_DIGITS < length ds then None else Some (int (decimal_value ds)))"

text \<open>The canonical numerals: \<open>(0|[1-9][0-9]*)\<close>.\<close>

definition is_numeral :: "pystr \<Rightarrow> bool" where
  "is_numeral ds \<longleftrightarrow> ds \<noteq> [] \<and> list_all is_digit ds \<and> (hd ds = 0x30 \<longrightarrow> ds = [0x30])"

lemma decimal_digits_nonempty [simp]: "decimal_digits n \<noteq> []"
  by (subst decimal_digits.simps) simp

lemma decimal_value_snoc: "decimal_value (ds @ [d]) = decimal_value ds * 10 + (d - 0x30)"
  by (simp add: decimal_value_def)

lemma decimal_value_digits [simp]: "decimal_value (decimal_digits n) = n"
proof (induction n rule: decimal_digits.induct)
  case (1 n)
  then show ?case
    by (subst decimal_digits.simps)
      (auto simp: decimal_value_snoc, simp add: decimal_value_def)
qed

lemma decimal_digits_are_digits: "list_all is_digit (decimal_digits n)"
proof (induction n rule: decimal_digits.induct)
  case (1 n)
  have "is_digit (0x30 + n)" if "n < 10" for n using that by (simp add: is_digit_def)
  with 1 show ?case by (subst decimal_digits.simps) simp
qed

lemma decimal_digits_hd: "0 < n \<Longrightarrow> hd (decimal_digits n) \<noteq> 0x30"
proof (induction n rule: decimal_digits.induct)
  case (1 n)
  show ?case
  proof (cases "n < 10")
    case True
    with 1 show ?thesis by (subst decimal_digits.simps) simp
  next
    case False
    then have "0 < n div 10" by simp
    with 1 False show ?thesis by (subst decimal_digits.simps) simp
  qed
qed

lemma decimal_digits_numeral: "is_numeral (decimal_digits n)"
proof (cases "n = 0")
  case True
  then show ?thesis by (subst decimal_digits.simps) (simp add: is_numeral_def is_digit_def)
next
  case False
  then show ?thesis
    using decimal_digits_hd [of n] decimal_digits_are_digits [of n] by (simp add: is_numeral_def)
qed

lemma is_numeral_snocD:
  assumes "is_numeral (ds @ [d])" and "ds \<noteq> []"
  shows "is_numeral ds" "is_digit d" "ds \<noteq> [0x30]"
  using assms by (auto simp: is_numeral_def)

lemma decimal_value_pos: "is_numeral ds \<Longrightarrow> ds \<noteq> [0x30] \<Longrightarrow> 0 < decimal_value ds"
proof (induction ds rule: rev_induct)
  case Nil
  then show ?case by (simp add: is_numeral_def)
next
  case (snoc d ds)
  show ?case
  proof (cases "ds = []")
    case True
    with snoc.prems show ?thesis by (simp add: is_numeral_def is_digit_def decimal_value_def)
  next
    case False
    with is_numeral_snocD [OF snoc.prems(1)] snoc.IH show ?thesis by (simp add: decimal_value_snoc)
  qed
qed

lemma decimal_digits_value: "is_numeral ds \<Longrightarrow> decimal_digits (decimal_value ds) = ds"
proof (induction ds rule: rev_induct)
  case Nil
  then show ?case by (simp add: is_numeral_def)
next
  case (snoc d ds)
  show ?case
  proof (cases "ds = []")
    case True
    with snoc.prems show ?thesis
      by (subst decimal_digits.simps) (auto simp: is_numeral_def is_digit_def decimal_value_def)
  next
    case False
    note n = is_numeral_snocD [OF snoc.prems False]
    have pos: "0 < decimal_value ds" by (rule decimal_value_pos [OF n(1,3)])
    have "d - 0x30 < 10" using n(2) unfolding is_digit_def by linarith
    then have "(decimal_value ds * 10 + (d - 0x30)) div 10 = decimal_value ds"
      "(decimal_value ds * 10 + (d - 0x30)) mod 10 = d - 0x30" by simp_all
    with pos n snoc.IH show ?thesis
      by (subst decimal_digits.simps) (auto simp: decimal_value_snoc is_digit_def)
  qed
qed

text \<open>Printing and reading are inverse on canonical numerals.\<close>

lemma py_str_int_nonneg:
  "0 \<le> n \<Longrightarrow> py_str_int n = Some ds \<longleftrightarrow> is_numeral ds \<and> py_int_digits ds = Some n"
  by (auto simp: py_str_int_def py_int_digits_def Let_def decimal_digits_numeral decimal_digits_value)

section \<open>Whitespace and \<open>int(s, 16)\<close>\<close>

definition is_py_space :: "nat \<Rightarrow> bool" where
  "is_py_space c \<longleftrightarrow> (0x09 \<le> c \<and> c \<le> 0x0D) \<or> (0x1C \<le> c \<and> c \<le> 0x20) \<or> c = 0x85 \<or> c = 0xA0 \<or> c = 0x1680
     \<or> (0x2000 \<le> c \<and> c \<le> 0x200A) \<or> c = 0x2028 \<or> c = 0x2029 \<or> c = 0x202F \<or> c = 0x205F \<or> c = 0x3000"

text \<open>\<open>not s.strip()\<close>.\<close>

definition is_blank :: "pystr \<Rightarrow> bool" where
  "is_blank s \<longleftrightarrow> list_all is_py_space s"

text \<open>The first code point of every run of ten decimal digits.\<close>

definition DECIMAL_ZEROS :: "nat list" where
  "DECIMAL_ZEROS = [0x30, 0x660, 0x6F0, 0x7C0, 0x966, 0x9E6, 0xA66, 0xAE6, 0xB66, 0xBE6, 0xC66, 0xCE6,
     0xD66, 0xDE6, 0xE50, 0xED0, 0xF20, 0x1040, 0x1090, 0x17E0, 0x1810, 0x1946, 0x19D0, 0x1A80, 0x1A90,
     0x1B50, 0x1BB0, 0x1C40, 0x1C50, 0xA620, 0xA8D0, 0xA900, 0xA9D0, 0xA9F0, 0xAA50, 0xABF0, 0xFF10,
     0x104A0, 0x10D30, 0x11066, 0x110F0, 0x11136, 0x111D0, 0x112F0, 0x11450, 0x114D0, 0x11650, 0x116C0,
     0x11730, 0x118E0, 0x11950, 0x11C50, 0x11D50, 0x11DA0, 0x11F50, 0x16A60, 0x16AC0, 0x16B50, 0x1D7CE,
     0x1D7D8, 0x1D7E2, 0x1D7EC, 0x1D7F6, 0x1E140, 0x1E2F0, 0x1E4F0, 0x1E950, 0x1FBF0]"

definition decimal_digit_of :: "nat \<Rightarrow> nat option" where
  "decimal_digit_of c = map_option (\<lambda>z. c - z) (find (\<lambda>z. z \<le> c \<and> c \<le> z + 9) DECIMAL_ZEROS)"

text \<open>
  What \<open>int\<close> does to a text that is not all ASCII first: whitespace to a blank, decimal digits of any
  script to ASCII ones, anything else that is not ASCII to a question mark.
\<close>

definition to_ascii_digits :: "pystr \<Rightarrow> pystr" where
  "to_ascii_digits s =
     (if list_all (\<lambda>c. c < 128) s then s
      else map (\<lambda>c. if c < 127 then c else if is_py_space c then 0x20
             else case decimal_digit_of c of Some d \<Rightarrow> 0x30 + d | None \<Rightarrow> 0x3F) s)"

definition is_c_space :: "nat \<Rightarrow> bool" where
  "is_c_space c \<longleftrightarrow> (0x09 \<le> c \<and> c \<le> 0x0D) \<or> c = 0x20"

definition hex_value :: "nat \<Rightarrow> nat option" where
  "hex_value c =
     (if 0x30 \<le> c \<and> c \<le> 0x39 then Some (c - 0x30)
      else if 0x41 \<le> c \<and> c \<le> 0x46 then Some (c - 0x41 + 10)
      else if 0x61 \<le> c \<and> c \<le> 0x66 then Some (c - 0x61 + 10) else None)"

text \<open>Digits with single underscores between them; the flag says that a digit must come next.\<close>

fun hex_digits :: "bool \<Rightarrow> nat \<Rightarrow> pystr \<Rightarrow> nat option" where
  "hex_digits need a [] = (if need then None else Some a)"
| "hex_digits need a (c # cs) =
     (if c = 0x5F then (if need then None else hex_digits True a cs)
      else case hex_value c of None \<Rightarrow> None | Some d \<Rightarrow> hex_digits False (a * 16 + d) cs)"

text \<open>The prefix \<open>0x\<close>, with the one underscore allowed after it.\<close>

definition drop_hex_prefix :: "pystr \<Rightarrow> pystr" where
  "drop_hex_prefix s =
     (case s of
        z # x # rest \<Rightarrow>
          if z = 0x30 \<and> x \<in> {0x58, 0x78}
          then (case rest of u # rest' \<Rightarrow> if u = 0x5F then rest' else rest | [] \<Rightarrow> rest) else s
      | _ \<Rightarrow> s)"

definition py_int16 :: "pystr \<Rightarrow> int option" where
  "py_int16 s =
     (let s1 = dropWhile is_c_space (to_ascii_digits s);
          neg = (s1 \<noteq> [] \<and> hd s1 = 0x2D);
          s2 = (if s1 \<noteq> [] \<and> hd s1 \<in> {0x2B, 0x2D} then tl s1 else s1);
          s3 = rev (dropWhile is_c_space (rev s2));
          s4 = drop_hex_prefix s3
      in map_option (\<lambda>n. if neg then - int n else int n) (hex_digits True 0 s4))"

text \<open>Hexadecimal digits alone are always read.\<close>

lemma hex_digits_total:
  "list_all (\<lambda>c. hex_value c \<noteq> None) s \<Longrightarrow> (need \<Longrightarrow> s \<noteq> []) \<Longrightarrow> \<exists>n. hex_digits need a s = Some n"
proof (induction s arbitrary: need a)
  case (Cons c s)
  then have "c \<noteq> 0x5F" by (auto simp: hex_value_def)
  with Cons show ?case by auto
next
  case Nil
  then show ?case by (cases need) auto
qed

lemma hex_value_chars:
  "hex_value c \<noteq> None \<Longrightarrow> c < 127 \<and> \<not> is_c_space c \<and> c \<notin> {0x2B, 0x2D, 0x58, 0x78}"
  by (auto simp: hex_value_def is_c_space_def split: if_splits)

lemma py_int16_hex:
  assumes "list_all (\<lambda>c. hex_value c \<noteq> None) s" and "s \<noteq> []"
  shows "\<exists>n. py_int16 s = Some n"
proof -
  have small: "list_all (\<lambda>c. c < 128) s" and nosp: "\<forall>c \<in> set s. \<not> is_c_space c"
    using assms(1) hex_value_chars by (fastforce simp: list_all_iff)+
  have dw: "dropWhile is_c_space s = s" "dropWhile is_c_space (rev s) = rev s"
    using nosp assms(2) hd_in_set [of s] hd_in_set [of "rev s"] by (auto simp: dropWhile_eq_self_iff)
  have hd: "hd s \<notin> {0x2B, 0x2D}" using assms hex_value_chars [of "hd s"] by (cases s) auto
  obtain n where n: "hex_digits True 0 s = Some n" using hex_digits_total [OF assms(1), of True 0] assms(2) by auto
  have pre: "drop_hex_prefix s = s"
    using assms(1) by (auto simp: drop_hex_prefix_def hex_value_def split: list.splits)
  show ?thesis
    unfolding py_int16_def Let_def to_ascii_digits_def using small dw hd n pre by simp
qed

end
