(* ===== verification/GraphComponentId.thy ===== *)
theory GraphComponentId
  imports PyNumerals PyJson
begin

text \<open>
  \<open>graph/component_id.py\<close>: component identifiers as dotted paths of names and indices, with their
  strict percent-encoded text form. Parsing accepts exactly the printed forms.
\<close>

datatype component_error = ComponentValue string | ComponentType string

section \<open>The remaining direction of UTF-8\<close>

lemma utf8_char_two:
  assumes "0xC2 \<le> b" "b \<le> 0xDF" "is_cont c1"
  shows "utf8_char ((b - 0xC0) * 64 + (c1 - 0x80)) = [b, c1]"
    and "is_scalar_value ((b - 0xC0) * 64 + (c1 - 0x80))"
proof -
  define q r where "q = b - 0xC0" and "r = c1 - 0x80"
  have q: "b = 0xC0 + q" "2 \<le> q" "q \<le> 31" and r: "c1 = 0x80 + r" "r < 64"
    using assms by (auto simp: q_def r_def is_cont_def)
  show "utf8_char ((b - 0xC0) * 64 + (c1 - 0x80)) = [b, c1]"
    using q r by (simp add: utf8_char_def)
  show "is_scalar_value ((b - 0xC0) * 64 + (c1 - 0x80))"
    using q r by (simp add: is_scalar_value_def is_code_point_def is_surrogate_def)
qed

lemma utf8_char_three:
  assumes "0xE0 \<le> b" "b \<le> 0xEF" "is_cont c1" "is_cont c2"
    and "c = (b - 0xE0) * 4096 + (c1 - 0x80) * 64 + (c2 - 0x80)" "0x800 \<le> c" "\<not> is_surrogate c"
  shows "utf8_char c = [b, c1, c2]" and "is_scalar_value c"
proof -
  define p q r where "p = b - 0xE0" and "q = c1 - 0x80" and "r = c2 - 0x80"
  have p: "b = 0xE0 + p" "p \<le> 15" and q: "c1 = 0x80 + q" "q < 64" and r: "c2 = 0x80 + r" "r < 64"
    using assms by (auto simp: p_def q_def r_def is_cont_def)
  have c: "c = p * 4096 + q * 64 + r" using assms(5) p q r by simp
  have "c = r + 64 * (p * 64 + q)" using c by simp
  with r have d: "c div 64 = p * 64 + q" "c mod 64 = r" by (simp_all only: div_mult_self2 mod_mult_self2) simp_all
  have "c div 4096 = c div 64 div 64" by (simp add: div_mult2_eq [symmetric])
  then have "c div 4096 = p" using d q by simp
  moreover have "c div 64 mod 64 = q" using d q by simp
  moreover have "c < 0x10000" using c p q r by simp
  ultimately show "utf8_char c = [b, c1, c2]"
    using assms(6) d p q r by (simp add: utf8_char_def)
  show "is_scalar_value c"
    using assms(7) \<open>c < 0x10000\<close> by (simp add: is_scalar_value_def is_code_point_def)
qed

lemma utf8_char_four:
  assumes "0xF0 \<le> b" "b \<le> 0xF4" "is_cont c1" "is_cont c2" "is_cont c3"
    and "c = (b - 0xF0) * 262144 + (c1 - 0x80) * 4096 + (c2 - 0x80) * 64 + (c3 - 0x80)"
    and "0x10000 \<le> c" "is_code_point c"
  shows "utf8_char c = [b, c1, c2, c3]" and "is_scalar_value c"
proof -
  define n p q r where "n = b - 0xF0" and "p = c1 - 0x80" and "q = c2 - 0x80" and "r = c3 - 0x80"
  have n: "b = 0xF0 + n" and p: "c1 = 0x80 + p" "p < 64" and q: "c2 = 0x80 + q" "q < 64"
    and r: "c3 = 0x80 + r" "r < 64"
    using assms by (auto simp: n_def p_def q_def r_def is_cont_def)
  have c: "c = n * 262144 + p * 4096 + q * 64 + r" using assms(6) n p q r by simp
  have "c = r + 64 * (n * 4096 + p * 64 + q)" using c by simp
  with r have d: "c div 64 = n * 4096 + p * 64 + q" "c mod 64 = r"
    by (simp_all only: div_mult_self2 mod_mult_self2) simp_all
  have dd: "c div 64 div 64 = n * 64 + p" using d q by simp
  have "c div 4096 = c div 64 div 64" "c div 262144 = c div 64 div 64 div 64"
    by (simp_all add: div_mult2_eq [symmetric])
  then have "c div 4096 mod 64 = p" "c div 262144 = n" using dd p by simp_all
  moreover have "c div 64 = q + 64 * (n * 64 + p)" using d by simp
  with q have "c div 64 mod 64 = q" by (simp only: mod_mult_self2) simp
  ultimately show "utf8_char c = [b, c1, c2, c3]"
    using assms(7) d n p q r by (simp add: utf8_char_def)
  show "is_scalar_value c"
    using assms(7,8) by (simp add: is_scalar_value_def is_surrogate_def)
qed

lemma decode_utf8_nat_canonical:
  "decode_utf8_nat bs = Some s \<Longrightarrow> list_all is_scalar_value s \<and> concat (map utf8_char s) = bs"
proof (induction bs arbitrary: s rule: decode_utf8_nat.induct)
  case 1
  then show ?case by simp
next
  case (2 b bs)
  consider (one) "b < 0x80" | (two) "0xC2 \<le> b" "b \<le> 0xDF" | (three) "0xE0 \<le> b" "b \<le> 0xEF"
    | (four) "0xF0 \<le> b" "b \<le> 0xF4" | (bad) "\<not> b < 0x80" "\<not> (0xC2 \<le> b \<and> b \<le> 0xDF)"
      "\<not> (0xE0 \<le> b \<and> b \<le> 0xEF)" "\<not> (0xF0 \<le> b \<and> b \<le> 0xF4)"
    by linarith
  then show ?case
  proof cases
    case one
    with 2 show ?thesis
      by (auto simp: utf8_char_def is_scalar_value_def is_code_point_def is_surrogate_def)
  next
    case two
    with "2.prems" obtain c1 rest s' where r: "bs = c1 # rest" "is_cont c1"
      "decode_utf8_nat rest = Some s'" "s = ((b - 0xC0) * 64 + (c1 - 0x80)) # s'"
      by (auto split: list.splits if_splits)
    have "list_all is_scalar_value s' \<and> concat (map utf8_char s') = rest"
      using "2.IH"(2) two r by auto
    then show ?thesis using r utf8_char_two [OF two r(2)] by simp
  next
    case three
    with "2.prems" obtain c1 c2 rest s' where r: "bs = c1 # c2 # rest" "is_cont c1" "is_cont c2"
      "decode_utf8_nat rest = Some s'"
      and c: "s = ((b - 0xE0) * 4096 + (c1 - 0x80) * 64 + (c2 - 0x80)) # s'"
        "0x800 \<le> (b - 0xE0) * 4096 + (c1 - 0x80) * 64 + (c2 - 0x80)"
        "\<not> is_surrogate ((b - 0xE0) * 4096 + (c1 - 0x80) * 64 + (c2 - 0x80))"
      by (auto split: list.splits if_splits simp: Let_def)
    have "list_all is_scalar_value s' \<and> concat (map utf8_char s') = rest"
      using "2.IH"(3) three r c by (auto simp: Let_def)
    then show ?thesis using r c(1) utf8_char_three [OF three r(2,3) refl c(2,3)] by simp
  next
    case four
    with "2.prems" obtain c1 c2 c3 rest s' where r: "bs = c1 # c2 # c3 # rest" "is_cont c1" "is_cont c2"
      "is_cont c3" "decode_utf8_nat rest = Some s'"
      and c: "s = ((b - 0xF0) * 262144 + (c1 - 0x80) * 4096 + (c2 - 0x80) * 64 + (c3 - 0x80)) # s'"
        "0x10000 \<le> (b - 0xF0) * 262144 + (c1 - 0x80) * 4096 + (c2 - 0x80) * 64 + (c3 - 0x80)"
        "is_code_point ((b - 0xF0) * 262144 + (c1 - 0x80) * 4096 + (c2 - 0x80) * 64 + (c3 - 0x80))"
      by (auto split: list.splits if_splits simp: Let_def)
    have "list_all is_scalar_value s' \<and> concat (map utf8_char s') = rest"
      using "2.IH"(4) four r c by (auto simp: Let_def)
    then show ?thesis using r c(1) utf8_char_four [OF four r(2,3,4) refl c(2,3)] by simp
  next
    case bad
    with "2.prems" show ?thesis by simp
  qed
qed

lemma encode_decode_utf8:
  assumes "decode_utf8 bs = Some s"
  shows "encode_utf8 s = Some bs"
proof -
  from decode_utf8_nat_canonical [OF assms [unfolded decode_utf8_def]]
  have "list_all is_scalar_value s" "concat (map utf8_char s) = map unat bs" by auto
  then show ?thesis by (simp add: encode_utf8_def comp_def)
qed

section \<open>Names\<close>

definition is_name_start :: "nat \<Rightarrow> bool" where
  "is_name_start c \<longleftrightarrow> (0x41 \<le> c \<and> c \<le> 0x5A) \<or> (0x61 \<le> c \<and> c \<le> 0x7A) \<or> c = 0x5F"

text \<open>The characters of simple names after the first, which are also the unreserved bytes.\<close>

definition is_name_char :: "nat \<Rightarrow> bool" where
  "is_name_char c \<longleftrightarrow> is_name_start c \<or> is_digit c \<or> c = 0x2D"

definition is_simple :: "pystr \<Rightarrow> bool" where
  "is_simple s \<longleftrightarrow> s \<noteq> [] \<and> is_name_start (hd s) \<and> list_all is_name_char (tl s)"

text \<open>Unicode category \<open>Cc\<close>.\<close>

definition is_control :: "nat \<Rightarrow> bool" where
  "is_control c \<longleftrightarrow> c \<le> 0x1F \<or> (0x7F \<le> c \<and> c \<le> 0x9F)"

definition validate_name :: "pystr \<Rightarrow> component_error + unit" where
  "validate_name v =
     rbind (raise_if (v = []) (ComponentValue ''component names cannot be empty'')) (\<lambda>_.
     rbind (raise_if (list_ex is_control v)
              (ComponentValue ''component names cannot contain NUL or control characters'')) (\<lambda>_.
     raise_if (encode_utf8 v = None)
       (ComponentValue ''component names must contain valid Unicode scalar values'')))"

definition upper_hex :: "nat \<Rightarrow> nat" where
  "upper_hex d = (if d < 10 then 0x30 + d else 0x41 + (d - 10))"

definition encode_byte :: "nat \<Rightarrow> pystr" where
  "encode_byte b = (if is_name_char b then [b] else [0x25, upper_hex (b div 16), upper_hex (b mod 16)])"

definition encode_name :: "pystr \<Rightarrow> component_error + pystr" where
  "encode_name v =
     (if is_simple v then Inr v
      else rbind (of_option (ComponentValue ''surrogates not allowed'') (encode_utf8 v)) (\<lambda>bs.
           Inr (0x7E # concat (map (\<lambda>b. encode_byte (unat b)) bs))))"

definition is_upper_hex :: "nat \<Rightarrow> bool" where
  "is_upper_hex c \<longleftrightarrow> is_digit c \<or> (0x41 \<le> c \<and> c \<le> 0x46)"

definition upper_hex_value :: "nat \<Rightarrow> nat" where
  "upper_hex_value c = (if c \<le> 0x39 then c - 0x30 else c - 0x41 + 10)"

fun decode_body :: "pystr \<Rightarrow> component_error + bytes" where
  "decode_body [] = Inr []"
| "decode_body (c # cs) =
     (if is_name_char c then rbind (decode_body cs) (\<lambda>bs. Inr (of_nat c # bs))
      else if c \<noteq> 0x25 then Inl (ComponentValue ''escaped component names allow only ...'')
      else (case cs of
              h # l # rest \<Rightarrow>
                rbind (raise_if (\<not> is_upper_hex h \<or> \<not> is_upper_hex l)
                         (ComponentValue ''percent escapes must contain two uppercase digits'')) (\<lambda>_.
                let b = upper_hex_value h * 16 + upper_hex_value l in
                rbind (raise_if (is_name_char b)
                         (ComponentValue ''unreserved bytes must not be percent-encoded'')) (\<lambda>_.
                rbind (decode_body rest) (\<lambda>bs. Inr (of_nat b # bs))))
            | _ \<Rightarrow> Inl (ComponentValue ''incomplete percent escape in component name'')))"

definition decode_escaped_name :: "pystr \<Rightarrow> component_error + pystr" where
  "decode_escaped_name raw =
     rbind (raise_if (tl raw = []) (ComponentValue ''escaped component name cannot be empty'')) (\<lambda>_.
     rbind (decode_body (tl raw)) (\<lambda>decoded.
     rbind (of_option (ComponentValue ''escaped component name is not valid UTF-8'')
              (decode_utf8 decoded)) (\<lambda>v.
     rbind (validate_name v) (\<lambda>_.
     rbind (raise_if (is_simple v) (ComponentValue ''name has a simpler canonical form'')) (\<lambda>_.
     Inr v)))))"

section \<open>Segments and identifiers\<close>

datatype segment = Name pystr | Index int

definition segment_init :: "segment \<Rightarrow> component_error + segment" where
  "segment_init g =
     (case g of
        Index i \<Rightarrow> rbind (raise_if (i < 0) (ComponentValue ''component indices must be non-negative''))
                     (\<lambda>_. Inr g)
      | Name v \<Rightarrow> rbind (validate_name v) (\<lambda>_. Inr g))"

text \<open>An index beyond the interpreter's digit limit cannot be printed.\<close>

definition segment_str :: "segment \<Rightarrow> component_error + pystr" where
  "segment_str g =
     (case g of
        Index i \<Rightarrow> of_option (ComponentValue ''integer string conversion limit'') (py_str_int i)
      | Name v \<Rightarrow> encode_name v)"

datatype component_id = ComponentId (segments: "segment list")

definition component_id_init :: "segment list \<Rightarrow> component_error + component_id" where
  "component_id_init gs =
     rbind (raise_if (gs = []) (ComponentValue ''a component ID cannot be empty'')) (\<lambda>_.
     rbind (raise_if (hd gs \<noteq> Name (lit ''model''))
              (ComponentValue ''a component ID must use the model root'')) (\<lambda>_.
     Inr (ComponentId gs)))"

definition dot :: nat where
  "dot = 0x2E"

text \<open>\<open>s.split(".")\<close> and \<open>".".join(parts)\<close>.\<close>

fun split_dot :: "pystr \<Rightarrow> pystr list" where
  "split_dot [] = [[]]"
| "split_dot (c # cs) =
     (if c = dot then [] # split_dot cs
      else (case split_dot cs of part # parts \<Rightarrow> (c # part) # parts | [] \<Rightarrow> [[c]]))"

fun join_dot :: "pystr list \<Rightarrow> pystr" where
  "join_dot [] = []"
| "join_dot [p] = p"
| "join_dot (p # q # ps) = p @ dot # join_dot (q # ps)"

fun has_double_dot :: "pystr \<Rightarrow> bool" where
  "has_double_dot (a # b # cs) \<longleftrightarrow> a = dot \<and> b = dot \<or> has_double_dot (b # cs)"
| "has_double_dot _ \<longleftrightarrow> False"

definition parse_segment :: "pystr \<Rightarrow> component_error + segment" where
  "parse_segment raw =
     (if is_numeral raw then
        rbind (of_option (ComponentValue ''integer string conversion limit'') (py_int_digits raw)) (\<lambda>i.
        segment_init (Index i))
      else if is_simple raw then segment_init (Name raw)
      else if raw \<noteq> [] \<and> hd raw = 0x7E then
        rbind (decode_escaped_name raw) (\<lambda>v. segment_init (Name v))
      else Inl (ComponentValue ''invalid component segment syntax''))"

definition parse_component_id :: "pystr \<Rightarrow> component_error + component_id" where
  "parse_component_id v =
     rbind (raise_if (v = [] \<or> hd v = dot \<or> last v = dot \<or> has_double_dot v)
              (ComponentValue ''invalid component ID'')) (\<lambda>_.
     rbind (mapM_r (\<lambda>raw. except (parse_segment raw) (\<lambda>_. ComponentValue ''invalid component segment''))
              (split_dot v)) component_id_init)"

definition component_id_str :: "component_id \<Rightarrow> component_error + pystr" where
  "component_id_str i = rbind (mapM_r segment_str (segments i)) (\<lambda>parts. Inr (join_dot parts))"

definition from_module_name :: "pystr \<Rightarrow> component_error + component_id" where
  "from_module_name v =
     (if v = [] then parse_component_id (lit ''model'')
      else if v = lit ''model'' \<or> take 6 v = lit ''model.'' then parse_component_id v
      else parse_component_id (lit ''model.'' @ v))"

definition from_json :: "json \<Rightarrow> component_error + component_id" where
  "from_json v =
     rbind (of_option (ComponentType ''a component ID JSON value must be a string'') (json_str v))
       parse_component_id"

definition to_json :: "component_id \<Rightarrow> component_error + json" where
  "to_json i = rbind (component_id_str i) (\<lambda>s. Inr (JStr s))"

definition parent :: "component_id \<Rightarrow> component_error + component_id option" where
  "parent i =
     (if length (segments i) = 1 then Inr None
      else rbind (component_id_init (butlast (segments i))) (\<lambda>p. Inr (Some p)))"

definition child :: "component_id \<Rightarrow> segment \<Rightarrow> component_error + component_id" where
  "child i v = rbind (segment_init v) (\<lambda>g. component_id_init (segments i @ [g]))"

text \<open>What the constructors guarantee of every identifier.\<close>

definition segment_ok :: "segment \<Rightarrow> bool" where
  "segment_ok g \<longleftrightarrow> segment_init g = Inr g"

definition component_id_ok :: "component_id \<Rightarrow> bool" where
  "component_id_ok i \<longleftrightarrow> component_id_init (segments i) = Inr i \<and> list_all segment_ok (segments i)"

section \<open>Escapes\<close>

lemma upper_hex_roundtrip:
  "d < 16 \<Longrightarrow> is_upper_hex (upper_hex d)" "d < 16 \<Longrightarrow> upper_hex_value (upper_hex d) = d"
  "is_upper_hex c \<Longrightarrow> upper_hex (upper_hex_value c) = c" "is_upper_hex c \<Longrightarrow> upper_hex_value c < 16"
  by (auto simp: upper_hex_def is_upper_hex_def upper_hex_value_def is_digit_def)

lemma percent_not_name [simp]: "\<not> is_name_char 0x25" "\<not> is_name_char dot" "\<not> is_name_char 0x7E"
    "\<not> is_name_start dot"
  by (simp_all add: is_name_char_def is_name_start_def is_digit_def dot_def)

lemma name_char_small: "is_name_char c \<Longrightarrow> c < 128"
  by (auto simp: is_name_char_def is_name_start_def is_digit_def)

lemma decode_body_byte:
  assumes "b < 256"
  shows "decode_body (encode_byte b @ cs) = rbind (decode_body cs) (\<lambda>bs. Inr (of_nat b # bs))"
proof (cases "is_name_char b")
  case True
  then show ?thesis by (simp add: encode_byte_def)
next
  case False
  have "b div 16 < 16" "b mod 16 < 16" using assms by auto
  moreover have "b div 16 * 16 + b mod 16 = b" by simp
  ultimately show ?thesis
    using False by (simp add: encode_byte_def upper_hex_roundtrip Let_def del: of_nat_add of_nat_mult)
qed

lemma byte_bound: "unat (b :: byte) < 256"
  using unsigned_less [of b, where ?'a = nat] by simp

lemma decode_body_encode: "decode_body (concat (map (\<lambda>b. encode_byte (unat b)) bs)) = Inr bs"
proof (induction bs)
  case (Cons b bs)
  from decode_body_byte [OF byte_bound] Cons show ?case by simp
qed simp

lemma decode_body_canonical:
  "decode_body cs = Inr bs \<Longrightarrow> cs = concat (map (\<lambda>b. encode_byte (unat b)) bs)"
proof (induction cs arbitrary: bs rule: decode_body.induct)
  case 1
  then show ?case by simp
next
  case (2 c cs)
  show ?case
  proof (cases "is_name_char c")
    case True
    with "2.prems" obtain bs' where "decode_body cs = Inr bs'" "bs = of_nat c # bs'" by auto
    moreover have "unat (of_nat c :: byte) = c"
      using name_char_small [OF True] by (simp add: unat_of_nat)
    ultimately show ?thesis using "2.IH"(1) True by (simp add: encode_byte_def)
  next
    case False
    with "2.prems" obtain h l rest where cs: "c = 0x25" "cs = h # l # rest"
      by (auto split: if_splits list.splits)
    define b where "b = upper_hex_value h * 16 + upper_hex_value l"
    from "2.prems" False cs obtain bs' where r: "is_upper_hex h" "is_upper_hex l" "\<not> is_name_char b"
      "decode_body rest = Inr bs'" "bs = of_nat b # bs'"
      by (auto simp: Let_def b_def)
    have "b < 256" using upper_hex_roundtrip(4) [OF r(1)] upper_hex_roundtrip(4) [OF r(2)]
      by (simp add: b_def)
    then have "unat (of_nat b :: byte) = b" by (simp add: unat_of_nat)
    moreover have "b div 16 = upper_hex_value h" "b mod 16 = upper_hex_value l"
      using upper_hex_roundtrip(4) [OF r(2)] by (simp_all add: b_def)
    ultimately have "encode_byte (unat (of_nat b :: byte)) = [0x25, h, l]"
      using r(1,2,3) by (simp add: encode_byte_def upper_hex_roundtrip)
    moreover have "rest = concat (map (\<lambda>b. encode_byte (unat b)) bs')"
      using "2.IH"(2) False cs r by (simp add: b_def)
    ultimately show ?thesis using cs r(5) by simp
  qed
qed

section \<open>Segments print and parse exactly\<close>

lemma encode_byte_chars: "b < 256 \<Longrightarrow> encode_byte b \<noteq> [] \<and> dot \<notin> set (encode_byte b)"
proof -
  assume "b < 256"
  then have "b div 16 < 16" "b mod 16 < 16" by auto
  then have "upper_hex (b div 16) \<noteq> dot" "upper_hex (b mod 16) \<noteq> dot"
    by (auto simp: upper_hex_def dot_def)
  then show ?thesis by (auto simp: encode_byte_def) (simp_all add: dot_def)
qed

lemma simple_name_chars: "is_simple v \<Longrightarrow> c \<in> set v \<Longrightarrow> is_name_char c"
  by (cases v) (auto simp: is_simple_def is_name_char_def list_all_iff)

lemma segment_ok_simps:
  "segment_ok (Index i) \<longleftrightarrow> 0 \<le> i"
  "segment_ok (Name v) \<longleftrightarrow> validate_name v = Inr ()"
  by (auto simp: segment_ok_def segment_init_def rbind_raise_if rbind_Inr_iff)

lemma encode_name_not_simple:
  assumes "validate_name v = Inr ()" and "\<not> is_simple v"
  obtains bs where "encode_utf8 v = Some bs" and "bs \<noteq> []"
    and "encode_name v = Inr (0x7E # concat (map (\<lambda>b. encode_byte (unat b)) bs))"
proof -
  from assms(1) obtain bs where bs: "encode_utf8 v = Some bs" "v \<noteq> []"
    by (auto simp: validate_name_def)
  have "bs \<noteq> []"
    using bs by (cases v) (auto simp: encode_utf8_def split: if_splits)
  with bs assms(2) that show ?thesis by (simp add: encode_name_def)
qed

lemma segment_text:
  assumes "segment_ok g" and "segment_str g = Inr raw"
  shows "raw \<noteq> []" and "dot \<notin> set raw"
proof -
  have "raw \<noteq> [] \<and> dot \<notin> set raw"
  proof (cases g)
    case (Index i)
    with assms have "is_numeral raw"
      using py_str_int_nonneg [of i raw] by (simp add: segment_str_def segment_ok_simps)
    then show ?thesis by (auto simp: is_numeral_def list_all_iff is_digit_def dot_def)
  next
    case (Name v)
    show ?thesis
    proof (cases "is_simple v")
      case True
      then have "raw = v" using assms(2) Name by (simp add: segment_str_def encode_name_def)
      then show ?thesis using simple_name_chars [OF True, of dot] True by (auto simp: is_simple_def)
    next
      case False
      have "validate_name v = Inr ()" using assms(1) Name by (simp add: segment_ok_simps)
      then obtain bs where "encode_utf8 v = Some bs" "bs \<noteq> []"
        and bs: "encode_name v = Inr (0x7E # concat (map (\<lambda>b. encode_byte (unat b)) bs))"
        by (rule encode_name_not_simple [OF _ False])
      have "dot \<notin> set (encode_byte (unat b))" for b :: byte
        using encode_byte_chars [OF byte_bound] by simp
      then show ?thesis using bs assms(2) Name by (auto simp: segment_str_def dot_def)
    qed
  qed
  then show "raw \<noteq> []" "dot \<notin> set raw" by auto
qed

lemma parse_segment_canonical:
  assumes "parse_segment raw = Inr g"
  shows "segment_ok g" and "segment_str g = Inr raw"
proof -
  consider (num) "is_numeral raw" | (simple) "\<not> is_numeral raw" "is_simple raw"
    | (esc) "\<not> is_numeral raw" "\<not> is_simple raw" "raw \<noteq> []" "hd raw = 0x7E"
    using assms by (auto simp: parse_segment_def split: if_splits)
  then have "segment_ok g \<and> segment_str g = Inr raw"
  proof cases
    case num
    with assms obtain i where i: "py_int_digits raw = Some i" "0 \<le> i" "g = Index i"
      by (auto simp: parse_segment_def segment_init_def)
    then show ?thesis
      using num py_str_int_nonneg [of i raw] by (simp add: segment_ok_simps segment_str_def)
  next
    case simple
    then show ?thesis using assms
      by (auto simp: parse_segment_def segment_init_def segment_ok_simps segment_str_def encode_name_def)
  next
    case esc
    with assms obtain bs v where v: "decode_body (tl raw) = Inr bs" "decode_utf8 bs = Some v"
      "validate_name v = Inr ()" "\<not> is_simple v" "g = Name v"
      by (auto simp: parse_segment_def segment_init_def decode_escaped_name_def)
    have "encode_name v = Inr raw"
      using v decode_body_canonical [OF v(1)] encode_decode_utf8 [OF v(2)] esc(3,4)
      by (cases raw) (auto simp: encode_name_def)
    with v show ?thesis by (simp add: segment_ok_simps segment_str_def)
  qed
  then show "segment_ok g" "segment_str g = Inr raw" by auto
qed

lemma numeral_hd: "is_numeral raw \<Longrightarrow> is_digit (hd raw)"
  by (cases raw) (auto simp: is_numeral_def)

lemma parse_segment_of_str:
  assumes "segment_ok g" and "segment_str g = Inr raw"
  shows "parse_segment raw = Inr g"
proof (cases g)
  case (Index i)
  then show ?thesis
    using assms py_str_int_nonneg [of i raw]
    by (auto simp: segment_str_def segment_ok_simps parse_segment_def segment_init_def)
next
  case (Name v)
  have ok: "validate_name v = Inr ()" using assms(1) Name by (simp add: segment_ok_simps)
  show ?thesis
  proof (cases "is_simple v")
    case True
    then have "raw = v" using assms(2) Name by (simp add: segment_str_def encode_name_def)
    moreover have "\<not> is_numeral v"
      using True numeral_hd [of v] by (auto simp: is_simple_def is_name_start_def is_digit_def)
    ultimately show ?thesis
      using True ok Name by (simp add: parse_segment_def segment_init_def)
  next
    case False
    obtain bs where bs: "encode_utf8 v = Some bs" "bs \<noteq> []"
      "encode_name v = Inr (0x7E # concat (map (\<lambda>b. encode_byte (unat b)) bs))"
      by (rule encode_name_not_simple [OF ok False])
    have raw: "raw = 0x7E # concat (map (\<lambda>b. encode_byte (unat b)) bs)"
      using bs(3) assms(2) Name by (simp add: segment_str_def)
    have "\<not> is_numeral raw" "\<not> is_simple raw"
      using numeral_hd [of raw] raw by (auto simp: is_simple_def is_name_start_def is_digit_def)
    moreover have "tl raw \<noteq> []"
      using raw bs(2) encode_byte_chars [OF byte_bound [of "hd bs"]] by (cases bs) auto
    moreover have "decode_escaped_name raw = Inr v"
      using \<open>tl raw \<noteq> []\<close> raw ok False decode_body_encode [of bs] decode_encode_utf8 [OF bs(1)]
      by (simp only: decode_escaped_name_def) (simp add: rbind_raise_if)
    ultimately show ?thesis
      using raw ok Name by (simp add: parse_segment_def segment_init_def)
  qed
qed

section \<open>Splitting and joining\<close>

lemma split_dot_nonempty [simp]: "split_dot s \<noteq> []"
  by (induction s) (auto split: list.splits)

lemma join_split [simp]: "join_dot (split_dot s) = s"
proof (induction s)
  case (Cons c cs)
  obtain p ps where "split_dot cs = p # ps" by (cases "split_dot cs") auto
  with Cons show ?case by (cases ps) auto
qed simp

lemma split_no_dot: "dot \<notin> set p \<Longrightarrow> split_dot p = [p]"
  by (induction p) auto

lemma split_append_dot: "dot \<notin> set p \<Longrightarrow> split_dot (p @ dot # s) = p # split_dot s"
  by (induction p) auto

lemma split_join:
  "ps \<noteq> [] \<Longrightarrow> list_all (\<lambda>p. dot \<notin> set p) ps \<Longrightarrow> split_dot (join_dot ps) = ps"
  by (induction ps rule: join_dot.induct) (auto simp: split_no_dot split_append_dot)

text \<open>The three textual checks of \<open>parse\<close> say exactly that no part is empty.\<close>

lemma split_dot_hd: "hd (split_dot s) = [] \<longleftrightarrow> s = [] \<or> hd s = dot"
  by (cases s) (auto split: list.splits)

lemma has_double_dot_Cons:
  "has_double_dot (c # cs) \<longleftrightarrow> cs \<noteq> [] \<and> c = dot \<and> hd cs = dot \<or> has_double_dot cs"
  by (cases cs) auto

lemma split_dot_tl:
  "[] \<in> set (tl (split_dot s)) \<longleftrightarrow> s \<noteq> [] \<and> last s = dot \<or> has_double_dot s"
proof (induction s)
  case (Cons c cs)
  obtain p ps where p: "split_dot cs = p # ps" by (cases "split_dot cs") auto
  then show ?case
    using Cons split_dot_hd [of cs] by (auto simp: has_double_dot_Cons)
qed simp

lemma split_dot_empty_part:
  "[] \<in> set (split_dot s) \<longleftrightarrow> s = [] \<or> hd s = dot \<or> last s = dot \<or> has_double_dot s"
proof -
  obtain p ps where "split_dot s = p # ps" by (cases "split_dot s") auto
  then show ?thesis using split_dot_hd [of s] split_dot_tl [of s] by auto
qed

section \<open>Identifiers print and parse exactly\<close>

lemma component_id_ok_iff:
  "component_id_ok i \<longleftrightarrow> segments i \<noteq> [] \<and> hd (segments i) = Name (lit ''model'')
     \<and> list_all segment_ok (segments i)"
  by (cases i) (auto simp: component_id_ok_def component_id_init_def rbind_raise_if)

lemma parse_segments_exact:
  assumes "[] \<notin> set parts"
  shows "mapM_r (\<lambda>raw. except (parse_segment raw) f) parts = Inr gs
    \<longleftrightarrow> list_all segment_ok gs \<and> mapM_r segment_str gs = Inr parts"
proof -
  have "list_all2 (\<lambda>raw g. parse_segment raw = Inr g) parts gs
      \<longleftrightarrow> list_all2 (\<lambda>raw g. segment_ok g \<and> segment_str g = Inr raw) parts gs"
    by (intro arg_cong [where f = "\<lambda>R. list_all2 R parts gs"] ext)
      (use parse_segment_canonical parse_segment_of_str in blast)
  also have "\<dots> \<longleftrightarrow> list_all segment_ok gs \<and> list_all2 (\<lambda>g raw. segment_str g = Inr raw) gs parts"
    by (auto simp: list_all2_conv_all_nth list_all_length)
  finally show ?thesis by (simp add: mapM_r_Inr_iff)
qed

lemma segment_parts:
  assumes "mapM_r segment_str gs = Inr parts" and "list_all segment_ok gs"
  shows "[] \<notin> set parts" and "list_all (\<lambda>p. dot \<notin> set p) parts"
proof -
  have "p \<noteq> [] \<and> dot \<notin> set p" if "p \<in> set parts" for p
  proof -
    from assms(1) that obtain g where "g \<in> set gs" "segment_str g = Inr p"
      by (rule mapM_r_memberD)
    then show ?thesis using segment_text [of g p] assms(2) by (auto simp: list_all_iff)
  qed
  then show "[] \<notin> set parts" "list_all (\<lambda>p. dot \<notin> set p) parts" by (auto simp: list_all_iff)
qed

lemma parse_component_id_exact:
  "parse_component_id s = Inr i \<longleftrightarrow> component_id_ok i \<and> component_id_str i = Inr s"
proof
  assume parse: "parse_component_id s = Inr i"
  then have ne: "[] \<notin> set (split_dot s)" by (auto simp: parse_component_id_def split_dot_empty_part)
  from parse obtain gs where gs: "list_all segment_ok gs" "mapM_r segment_str gs = Inr (split_dot s)"
    "component_id_init gs = Inr i"
    by (auto simp: parse_component_id_def parse_segments_exact [OF ne])
  then have "i = ComponentId gs" by (auto simp: component_id_init_def)
  with gs show "component_id_ok i \<and> component_id_str i = Inr s"
    by (simp add: component_id_ok_def component_id_str_def)
next
  assume ok: "component_id_ok i \<and> component_id_str i = Inr s"
  then obtain parts where parts: "mapM_r segment_str (segments i) = Inr parts" "s = join_dot parts"
    by (auto simp: component_id_str_def)
  have segs: "list_all segment_ok (segments i)" "segments i \<noteq> []"
    using ok by (auto simp: component_id_ok_iff)
  note p = segment_parts [OF parts(1) segs(1)]
  have "parts \<noteq> []" using parts(1) segs(2) by (auto simp: mapM_r_Inr_iff)
  then have split: "split_dot s = parts" using split_join p(2) parts(2) by simp
  then have "\<not> (s = [] \<or> hd s = dot \<or> last s = dot \<or> has_double_dot s)"
    using p(1) split_dot_empty_part [of s] by simp
  moreover have "mapM_r (\<lambda>raw. except (parse_segment raw)
      (\<lambda>_. ComponentValue ''invalid component segment'')) parts = Inr (segments i)"
    using parts(1) segs(1) by (simp add: parse_segments_exact [OF p(1)])
  ultimately show "parse_component_id s = Inr i"
    using ok split by (simp add: parse_component_id_def component_id_ok_def)
qed

text \<open>
  C34. Canonical text: parsing accepts a text exactly when it is the printed form of a well-formed
  identifier, and returns that identifier. So printing and parsing are inverse, no identifier has two
  spellings and no two identifiers share one.
\<close>
theorem component_ids_canonical:
  "parse_component_id s = Inr i
     \<longleftrightarrow> component_id_init (segments i) = Inr i \<and> list_all (\<lambda>g. segment_init g = Inr g) (segments i)
       \<and> component_id_str i = Inr s"
  unfolding parse_component_id_exact by (auto simp: component_id_ok_def segment_ok_def [abs_def])

lemma component_id_str_inject:
  "component_id_ok i \<Longrightarrow> component_id_ok j \<Longrightarrow> component_id_str i = Inr s \<Longrightarrow> component_id_str j = Inr s
     \<Longrightarrow> i = j"
  using parse_component_id_exact [of s i] parse_component_id_exact [of s j] by simp

lemma child_ok:
  assumes "component_id_ok i" and "child i g = Inr j"
  shows "component_id_ok j" and "parent j = Inr (Some i)"
proof -
  from assms(2) have j: "segment_init g = Inr g" "component_id_init (segments i @ [g]) = Inr j"
    by (auto simp: child_def segment_init_def split: segment.splits)
  then have js: "j = ComponentId (segments i @ [g])" by (auto simp: component_id_init_def)
  show "component_id_ok j"
    using assms(1) j js by (auto simp: component_id_ok_iff segment_ok_def)
  show "parent j = Inr (Some i)"
    using assms(1) js by (cases i) (auto simp: parent_def component_id_ok_def component_id_init_def)
qed

end
