(* ===== verification/GraphRemap.thy ===== *)
theory GraphRemap
  imports GraphComponentId "HOL-Library.List_Lexorder" "HOL-Library.Multiset"
begin

text \<open>
  \<open>graph/remapping.py\<close>: explicit identity mappings of a surgery stage and their composition. Component
  identifiers compare by their printed bytes; an identifier with an index too long to print raises
  wherever it is compared or named.
\<close>

datatype remap_error =
    IdentityRemap string
  | UnknownSource
  | RemovedSource
  | Unprintable

datatype disposition_kind = RETAINED | REMOVED | RENUMBERED | SPLIT | MERGED | SPLIT_MERGED

fun disposition_value :: "disposition_kind \<Rightarrow> string" where
  "disposition_value RETAINED = ''retained''"
| "disposition_value REMOVED = ''removed''"
| "disposition_value RENUMBERED = ''renumbered''"
| "disposition_value SPLIT = ''split''"
| "disposition_value MERGED = ''merged''"
| "disposition_value SPLIT_MERGED = ''split_merged''"

section \<open>Order\<close>

definition printable :: "component_id \<Rightarrow> bool" where
  "printable i \<longleftrightarrow> (case component_id_str i of Inl _ \<Rightarrow> False | Inr _ \<Rightarrow> True)"

definition id_key :: "component_id \<Rightarrow> pystr" where
  "id_key i = (case component_id_str i of Inl _ \<Rightarrow> [] | Inr s \<Rightarrow> s)"

definition id_text :: "component_id \<Rightarrow> remap_error + pystr" where
  "id_text i = except (component_id_str i) (\<lambda>_. Unprintable)"

text \<open>\<open>sorted(xs, key=...)\<close>: with two elements or more, every key is compared.\<close>

definition sorted_by_id :: "('a \<Rightarrow> component_id) \<Rightarrow> 'a list \<Rightarrow> remap_error + 'a list" where
  "sorted_by_id f xs =
     rbind (raise_if (2 \<le> length xs \<and> \<not> list_all (\<lambda>x. printable (f x)) xs) Unprintable) (\<lambda>_.
     Inr (sort_key (\<lambda>x. id_key (f x)) xs))"

section \<open>Mappings\<close>

record identity_mapping =
  im_source :: component_id
  im_targets :: "component_id list"
  im_reason :: pystr

definition identity_mapping_init :: "identity_mapping \<Rightarrow> remap_error + identity_mapping" where
  "identity_mapping_init m =
     rbind (sorted_by_id (\<lambda>t. t) (remdups (im_targets m))) (\<lambda>canonical.
     rbind (raise_if (im_targets m \<noteq> canonical)
              (IdentityRemap ''identity mapping targets must be unique and canonical'')) (\<lambda>_.
     rbind (raise_if (im_reason m = []) (IdentityRemap ''identity mappings require a reason'')) (\<lambda>_.
     Inr m)))"

definition im_removed :: "identity_mapping \<Rightarrow> bool" where
  "im_removed m \<longleftrightarrow> im_targets m = []"

definition mapping_to_record :: "identity_mapping \<Rightarrow> remap_error + (pystr \<times> json) list" where
  "mapping_to_record m =
     rbind (id_text (im_source m)) (\<lambda>source.
     rbind (mapM_r id_text (im_targets m)) (\<lambda>targets.
     Inr [(lit ''source'', JStr source), (lit ''targets'', JList (map JStr targets)),
          (lit ''removed'', JBool (im_removed m)), (lit ''reason'', JStr (im_reason m))]))"

datatype identity_remap = Remap (mappings: "identity_mapping list")

definition identity_remap_init :: "identity_mapping list \<Rightarrow> remap_error + identity_remap" where
  "identity_remap_init ms =
     (let sources = map im_source ms in
      rbind (raise_if (sources = [])
               (IdentityRemap ''identity mapping sources must be non-empty and canonical'')) (\<lambda>_.
      rbind (sorted_by_id (\<lambda>s. s) sources) (\<lambda>canonical.
      rbind (raise_if (sources \<noteq> canonical)
               (IdentityRemap ''identity mapping sources must be non-empty and canonical'')) (\<lambda>_.
      rbind (raise_if (\<not> distinct sources)
               (IdentityRemap ''identity mapping sources must be unique'')) (\<lambda>_.
      Inr (Remap ms))))))"

definition build_remap :: "identity_mapping list \<Rightarrow> remap_error + identity_remap" where
  "build_remap ms = rbind (sorted_by_id im_source ms) identity_remap_init"

definition retained_remap :: "component_id list \<Rightarrow> pystr \<Rightarrow> remap_error + identity_remap" where
  "retained_remap sources reason =
     rbind (mapM_r (\<lambda>s. identity_mapping_init
              \<lparr>im_source = s, im_targets = [s], im_reason = reason\<rparr>) sources) build_remap"

text \<open>\<open>_by_source\<close>: later entries of the comprehension win.\<close>

definition by_source :: "identity_remap \<Rightarrow> component_id \<Rightarrow> identity_mapping option" where
  "by_source r = map_of (rev (map (\<lambda>m. (im_source m, m)) (mappings r)))"

definition count_target :: "(component_id \<Rightarrow> nat) \<Rightarrow> component_id \<Rightarrow> (component_id \<Rightarrow> nat)" where
  "count_target counts t = counts(t := counts t + 1)"

definition target_counts :: "identity_remap \<Rightarrow> component_id \<Rightarrow> nat" where
  "target_counts r = foldl (\<lambda>counts m. foldl count_target counts (im_targets m)) (\<lambda>_. 0) (mappings r)"

definition remap_mapping :: "identity_remap \<Rightarrow> component_id \<Rightarrow> remap_error + identity_mapping" where
  "remap_mapping r s =
     (case by_source r s of
        Some m \<Rightarrow> Inr m
      | None \<Rightarrow> rbind (id_text s) (\<lambda>_. Inl UnknownSource))"

definition remap_resolve :: "identity_remap \<Rightarrow> component_id \<Rightarrow> remap_error + component_id list" where
  "remap_resolve r s =
     rbind (remap_mapping r s) (\<lambda>m.
     if im_removed m then rbind (id_text s) (\<lambda>_. Inl RemovedSource)
     else Inr (im_targets m))"

definition disposition :: "identity_remap \<Rightarrow> component_id \<Rightarrow> remap_error + disposition_kind" where
  "disposition r s =
     rbind (remap_mapping r s) (\<lambda>m.
     if im_removed m then Inr REMOVED
     else
       let merged = list_ex (\<lambda>t. 1 < target_counts r t) (im_targets m) in
       if 1 < length (im_targets m) then Inr (if merged then SPLIT_MERGED else SPLIT)
       else if merged then Inr MERGED
       else if im_targets m = [s] then Inr RETAINED
       else Inr RENUMBERED)"

text \<open>\<open>dict.fromkeys\<close>: first occurrences, in order; and the join of the reasons.\<close>

fun fromkeys :: "'a list \<Rightarrow> 'a list" where
  "fromkeys [] = []"
| "fromkeys (x # xs) = x # fromkeys (filter (\<lambda>y. y \<noteq> x) xs)"

fun join_text :: "pystr \<Rightarrow> pystr list \<Rightarrow> pystr" where
  "join_text sep [] = []"
| "join_text sep [p] = p"
| "join_text sep (p # q # ps) = p @ sep @ join_text sep (q # ps)"

text \<open>The inner loop of \<open>compose\<close>: the targets collected (a set) and the reasons (a list).\<close>

fun follow_targets ::
  "identity_remap \<Rightarrow> component_id list \<Rightarrow> component_id list \<Rightarrow> pystr list
     \<Rightarrow> remap_error + component_id list \<times> pystr list" where
  "follow_targets r2 [] targets reasons = Inr (targets, reasons)"
| "follow_targets r2 (mid # mids) targets reasons =
     (case by_source r2 mid of
        None \<Rightarrow> rbind (id_text mid) (\<lambda>_. Inl UnknownSource)
      | Some following \<Rightarrow>
          follow_targets r2 mids (targets @ im_targets following) (reasons @ [im_reason following]))"

definition compose_mapping :: "identity_remap \<Rightarrow> identity_mapping \<Rightarrow> remap_error + identity_mapping" where
  "compose_mapping r2 m =
     (if im_removed m then Inr m
      else
        rbind (follow_targets r2 (im_targets m) [] [im_reason m]) (\<lambda>(targets, reasons).
        rbind (sorted_by_id (\<lambda>t. t) (remdups targets)) (\<lambda>canonical.
        identity_mapping_init \<lparr>im_source = im_source m, im_targets = canonical,
          im_reason = join_text (lit '' -> '') (fromkeys reasons)\<rparr>)))"

definition compose_remap :: "identity_remap \<Rightarrow> identity_remap \<Rightarrow> remap_error + identity_remap" where
  "compose_remap r1 r2 = rbind (mapM_r (compose_mapping r2) (mappings r1)) build_remap"

definition record_disposition :: "identity_remap \<Rightarrow> identity_mapping \<Rightarrow> disposition_kind" where
  "record_disposition r m =
     (let merged = list_ex (\<lambda>t. 1 < target_counts r t) (im_targets m) in
      if im_removed m then REMOVED
      else if 1 < length (im_targets m) \<and> merged then SPLIT_MERGED
      else if 1 < length (im_targets m) then SPLIT
      else if merged then MERGED
      else if im_targets m = [im_source m] then RETAINED
      else RENUMBERED)"

definition remap_to_record :: "identity_remap \<Rightarrow> remap_error + json" where
  "remap_to_record r =
     rbind (mapM_r (\<lambda>m. rbind (mapping_to_record m) (\<lambda>fields.
              Inr (JObj (fields @ [(lit ''disposition'',
                JStr (lit (disposition_value (record_disposition r m))))])))) (mappings r)) (\<lambda>ms.
     Inr (JObj [(lit ''mappings'', JList ms)]))"

section \<open>Meaning\<close>

text \<open>What the constructors guarantee, and the relation and the domain a remap stands for.\<close>

definition remap_ok :: "identity_remap \<Rightarrow> bool" where
  "remap_ok r \<longleftrightarrow> identity_remap_init (mappings r) = Inr r
     \<and> list_all (\<lambda>m. identity_mapping_init m = Inr m) (mappings r)"

definition remap_printable :: "identity_remap \<Rightarrow> bool" where
  "remap_printable r \<longleftrightarrow>
     list_all (\<lambda>m. printable (im_source m) \<and> list_all printable (im_targets m)) (mappings r)"

definition remap_dom :: "identity_remap \<Rightarrow> component_id set" where
  "remap_dom r = im_source ` set (mappings r)"

definition remap_rel :: "identity_remap \<Rightarrow> (component_id \<times> component_id) set" where
  "remap_rel r = {(im_source m, t) | m t. m \<in> set (mappings r) \<and> t \<in> set (im_targets m)}"

lemma sorted_by_id_Inr:
  assumes "sorted_by_id f xs = Inr ys"
  shows "ys = sort_key (\<lambda>x. id_key (f x)) xs" and "mset ys = mset xs" and "set ys = set xs"
  using assms by (auto simp: sorted_by_id_def)

lemma sorted_by_id_printable:
  "list_all (\<lambda>x. printable (f x)) xs \<Longrightarrow> sorted_by_id f xs = Inr (sort_key (\<lambda>x. id_key (f x)) xs)"
  by (simp add: sorted_by_id_def)

lemma sort_key_idem [simp]: "sort_key k (sort_key k xs) = sort_key k xs"
  by (rule sort_key_id_if_sorted) simp

lemma sorted_by_id_map:
  assumes "sorted_by_id f xs = Inr ys"
  shows "sorted_by_id (\<lambda>s. s) (map f ys) = Inr (map f ys)"
proof -
  note ys = sorted_by_id_Inr [OF assms]
  have "sort_key id_key (map f ys) = map f ys"
    by (rule sort_key_id_if_sorted) (simp add: ys(1) comp_def)
  moreover have "\<not> (2 \<le> length xs \<and> \<not> list_all (\<lambda>x. printable (f x)) xs)"
    using assms by (simp add: sorted_by_id_def rbind_raise_if split: if_splits)
  moreover have "length ys = length xs" using ys(2) by (metis size_mset)
  ultimately show ?thesis using ys(3) by (auto simp: sorted_by_id_def rbind_raise_if list_all_iff)
qed

lemma identity_mapping_init_Inr:
  "identity_mapping_init m = Inr m' \<longleftrightarrow> m' = m \<and> distinct (im_targets m) \<and> im_reason m \<noteq> []
     \<and> sorted_by_id (\<lambda>t. t) (im_targets m) = Inr (im_targets m)"
proof -
  have "distinct (im_targets m)" if "sorted_by_id (\<lambda>t. t) (remdups (im_targets m)) = Inr (im_targets m)"
    using mset_eq_imp_distinct_iff [OF sorted_by_id_Inr(2) [OF that]] by simp
  then show ?thesis
    by (auto simp: identity_mapping_init_def rbind_raise_if rbind_Inr_iff distinct_remdups_id
        split: if_splits)
qed

lemma identity_remap_init_Inr:
  "identity_remap_init ms = Inr r \<longleftrightarrow> r = Remap ms \<and> ms \<noteq> [] \<and> distinct (map im_source ms)
     \<and> sorted_by_id (\<lambda>s. s) (map im_source ms) = Inr (map im_source ms)"
  by (auto simp: identity_remap_init_def Let_def rbind_raise_if rbind_Inr_iff split: if_splits)

lemma remap_ok_iff:
  "remap_ok r \<longleftrightarrow> mappings r \<noteq> [] \<and> distinct (map im_source (mappings r))
     \<and> sorted_by_id (\<lambda>s. s) (map im_source (mappings r)) = Inr (map im_source (mappings r))
     \<and> list_all (\<lambda>m. identity_mapping_init m = Inr m) (mappings r)"
  by (cases r) (auto simp: remap_ok_def identity_remap_init_Inr)

lemma by_source_iff:
  assumes "remap_ok r"
  shows "by_source r s = Some m \<longleftrightarrow> m \<in> set (mappings r) \<and> im_source m = s"
proof -
  have "distinct (map fst (rev (map (\<lambda>m. (im_source m, m)) (mappings r))))"
    using assms by (simp add: remap_ok_iff rev_map [symmetric] comp_def)
  then show ?thesis unfolding by_source_def by (auto simp: map_of_eq_Some_iff)
qed

lemma by_source_None:
  "by_source r s = None \<longleftrightarrow> s \<notin> remap_dom r"
  by (simp add: by_source_def remap_dom_def map_of_eq_None_iff image_image)

lemma remap_rel_by_source:
  "remap_ok r \<Longrightarrow> (s, t) \<in> remap_rel r \<longleftrightarrow> (\<exists>m. by_source r s = Some m \<and> t \<in> set (im_targets m))"
  by (auto simp: by_source_iff remap_rel_def)

lemma build_remap_Inr:
  assumes "build_remap ms = Inr r"
  shows "mset (mappings r) = mset ms" and "distinct (map im_source ms)"
    and "identity_remap_init (mappings r) = Inr r"
proof -
  from assms obtain ys where ys: "sorted_by_id im_source ms = Inr ys" "identity_remap_init ys = Inr r"
    by (auto simp: build_remap_def)
  then have r: "r = Remap ys" "distinct (map im_source ys)" by (simp_all add: identity_remap_init_Inr)
  show m: "mset (mappings r) = mset ms" using sorted_by_id_Inr(2) [OF ys(1)] r by simp
  have "mset (map im_source ms) = mset (map im_source ys)" using m r by simp
  then show "distinct (map im_source ms)" using r(2) mset_eq_imp_distinct_iff by blast
  show "identity_remap_init (mappings r) = Inr r" using ys r by simp
qed

lemma build_remap_total:
  assumes "ms \<noteq> []" and "distinct (map im_source ms)" and "list_all (\<lambda>m. printable (im_source m)) ms"
  shows "\<exists>r. build_remap ms = Inr r"
proof -
  have s: "sorted_by_id im_source ms = Inr (sort_key (\<lambda>m. id_key (im_source m)) ms)"
    by (rule sorted_by_id_printable [OF assms(3)])
  have "mset (map im_source (sort_key (\<lambda>m. id_key (im_source m)) ms)) = mset (map im_source ms)"
    by simp
  then have "distinct (map im_source (sort_key (\<lambda>m. id_key (im_source m)) ms))"
    using assms(2) mset_eq_imp_distinct_iff by blast
  moreover have "sort_key (\<lambda>m. id_key (im_source m)) ms \<noteq> []"
    using assms(1) by (metis mset_sort mset_zero_iff)
  ultimately show ?thesis
    using s sorted_by_id_map [OF s] by (simp add: build_remap_def identity_remap_init_Inr)
qed

section \<open>Composition\<close>

lemma follow_targets_Inr:
  assumes "follow_targets r2 mids ts rs = Inr (ts', rs')"
  shows "set mids \<subseteq> remap_dom r2"
    and "set ts' = set ts \<union> (\<Union>mid \<in> set mids. \<Union>m \<in> {m. by_source r2 mid = Some m}. set (im_targets m))"
  using assms
proof (induction mids arbitrary: ts rs)
  case (Cons mid mids)
  { case 1
    then obtain m where m: "by_source r2 mid = Some m"
      "follow_targets r2 mids (ts @ im_targets m) (rs @ [im_reason m]) = Inr (ts', rs')"
      by (auto split: option.splits)
    have "mid \<in> remap_dom r2" using m(1) by_source_None [of r2 mid] by auto
    then show ?case using Cons.IH(1) [OF m(2)] by simp }
  { case 2
    then obtain m where m: "by_source r2 mid = Some m"
      "follow_targets r2 mids (ts @ im_targets m) (rs @ [im_reason m]) = Inr (ts', rs')"
      by (auto split: option.splits)
    show ?case using Cons.IH(2) [OF m(2)] m(1) by auto }
qed simp_all

lemma follow_targets_total:
  "set mids \<subseteq> remap_dom r2 \<Longrightarrow> \<exists>ts' rs'. follow_targets r2 mids ts rs = Inr (ts', rs @ rs')"
proof (induction mids arbitrary: ts rs)
  case (Cons mid mids)
  then obtain m where m: "by_source r2 mid = Some m"
    using by_source_None [of r2 mid] by (cases "by_source r2 mid") auto
  show ?case using Cons.IH [of "ts @ im_targets m" "rs @ [im_reason m]"] Cons.prems m by auto
qed simp

lemma compose_mapping_Inr:
  assumes "compose_mapping r2 m = Inr m'" and "identity_mapping_init m = Inr m"
  shows "im_source m' = im_source m" and "identity_mapping_init m' = Inr m'"
    and "set (im_targets m) \<subseteq> remap_dom r2"
    and "set (im_targets m')
      = (\<Union>mid \<in> set (im_targets m). \<Union>m2 \<in> {m2. by_source r2 mid = Some m2}. set (im_targets m2))"
proof -
  have "im_source m' = im_source m \<and> identity_mapping_init m' = Inr m'
      \<and> set (im_targets m) \<subseteq> remap_dom r2 \<and> set (im_targets m')
      = (\<Union>mid \<in> set (im_targets m). \<Union>m2 \<in> {m2. by_source r2 mid = Some m2}. set (im_targets m2))"
  proof (cases "im_removed m")
    case True
    with assms show ?thesis by (simp add: compose_mapping_def im_removed_def)
  next
    case False
    with assms(1) obtain ts rs canonical where
      f: "follow_targets r2 (im_targets m) [] [im_reason m] = Inr (ts, rs)"
      and c: "sorted_by_id (\<lambda>t. t) (remdups ts) = Inr canonical"
      and i: "identity_mapping_init \<lparr>im_source = im_source m, im_targets = canonical,
          im_reason = join_text (lit '' -> '') (fromkeys rs)\<rparr> = Inr m'"
      by (auto simp: compose_mapping_def)
    have m': "m' = \<lparr>im_source = im_source m, im_targets = canonical,
          im_reason = join_text (lit '' -> '') (fromkeys rs)\<rparr>"
      using i by (simp add: identity_mapping_init_Inr)
    then show ?thesis
      using i follow_targets_Inr [OF f] sorted_by_id_Inr(3) [OF c] by simp
  qed
  then show "im_source m' = im_source m" "identity_mapping_init m' = Inr m'"
    "set (im_targets m) \<subseteq> remap_dom r2" "set (im_targets m')
      = (\<Union>mid \<in> set (im_targets m). \<Union>m2 \<in> {m2. by_source r2 mid = Some m2}. set (im_targets m2))"
    by blast+
qed

lemma list_all2_partner:
  "list_all2 P xs ys \<Longrightarrow> x \<in> set xs \<Longrightarrow> \<exists>y \<in> set ys. P x y"
  "list_all2 P xs ys \<Longrightarrow> y \<in> set ys \<Longrightarrow> \<exists>x \<in> set xs. P x y"
  by (induction rule: list_all2_induct) auto

lemma compose_remap_Inr:
  assumes "compose_remap r1 r2 = Inr r" and "remap_ok r1"
  shows "remap_ok r"
    and "\<exists>ms. list_all2 (\<lambda>m m'. compose_mapping r2 m = Inr m') (mappings r1) ms \<and> set (mappings r) = set ms"
proof -
  from assms(1) obtain ms where ms: "list_all2 (\<lambda>m m'. compose_mapping r2 m = Inr m') (mappings r1) ms"
    and r: "build_remap ms = Inr r"
    by (auto simp: compose_remap_def mapM_r_Inr_iff)
  note b = build_remap_Inr [OF r]
  have set: "set (mappings r) = set ms" using b(1) mset_eq_setD by blast
  have "identity_mapping_init m' = Inr m'" if m': "m' \<in> set ms" for m'
  proof -
    obtain m where m: "m \<in> set (mappings r1)" "compose_mapping r2 m = Inr m'"
      using list_all2_partner(2) [OF ms m'] by blast
    then show ?thesis using compose_mapping_Inr(2) [OF m(2)] assms(2)
      by (auto simp: remap_ok_iff list_all_iff)
  qed
  then show "remap_ok r" using b(3) set by (auto simp: remap_ok_def list_all_iff)
  show "\<exists>ms. list_all2 (\<lambda>m m'. compose_mapping r2 m = Inr m') (mappings r1) ms \<and> set (mappings r) = set ms"
    using ms set by blast
qed

lemma compose_rel:
  assumes "compose_remap r1 r2 = Inr r" and ok: "remap_ok r1" "remap_ok r2"
  shows "remap_dom r = remap_dom r1" and "remap_rel r = remap_rel r1 O remap_rel r2"
    and "Range (remap_rel r1) \<subseteq> remap_dom r2"
proof -
  obtain ms where ms: "list_all2 (\<lambda>m m'. compose_mapping r2 m = Inr m') (mappings r1) ms"
    "set (mappings r) = set ms"
    using compose_remap_Inr(2) [OF assms(1) ok(1)] by blast
  have fwd: "\<exists>m' \<in> set ms. compose_mapping r2 m = Inr m'" if "m \<in> set (mappings r1)" for m
    by (rule list_all2_partner(1) [OF ms(1) that])
  have bwd: "\<exists>m \<in> set (mappings r1). compose_mapping r2 m = Inr m'" if "m' \<in> set ms" for m'
    by (rule list_all2_partner(2) [OF ms(1) that])
  have init: "identity_mapping_init m = Inr m" if "m \<in> set (mappings r1)" for m
    using that ok(1) by (auto simp: remap_ok_iff list_all_iff)
  note c = compose_mapping_Inr [OF _ init]
  show "remap_dom r = remap_dom r1"
  proof (intro set_eqI iffI)
    fix x assume "x \<in> remap_dom r"
    then obtain m' where m': "m' \<in> set ms" "x = im_source m'" by (auto simp: remap_dom_def ms(2))
    obtain m where m: "m \<in> set (mappings r1)" "compose_mapping r2 m = Inr m'" using bwd [OF m'(1)] by blast
    show "x \<in> remap_dom r1" using c(1) [OF m(2,1)] m(1) m'(2) by (simp add: remap_dom_def)
  next
    fix x assume "x \<in> remap_dom r1"
    then obtain m where m: "m \<in> set (mappings r1)" "x = im_source m" by (auto simp: remap_dom_def)
    obtain m' where m': "m' \<in> set ms" "compose_mapping r2 m = Inr m'" using fwd [OF m(1)] by blast
    have "im_source m' = x" using c(1) [OF m'(2) m(1)] m(2) by simp
    then show "x \<in> remap_dom r" using m'(1) by (auto simp: remap_dom_def ms(2))
  qed
  show "Range (remap_rel r1) \<subseteq> remap_dom r2"
  proof
    fix t assume "t \<in> Range (remap_rel r1)"
    then obtain m where m: "m \<in> set (mappings r1)" "t \<in> set (im_targets m)" by (auto simp: remap_rel_def)
    then obtain m' where "compose_mapping r2 m = Inr m'" using fwd by blast
    from c(3) [OF this m(1)] m(2) show "t \<in> remap_dom r2" by blast
  qed
  have step: "u \<in> set (im_targets m') \<longleftrightarrow> (\<exists>t \<in> set (im_targets m). (t, u) \<in> remap_rel r2)"
    if "m \<in> set (mappings r1)" "compose_mapping r2 m = Inr m'" for m m' u
    unfolding c(4) [OF that(2,1)] using remap_rel_by_source [OF ok(2)] by auto
  show "remap_rel r = remap_rel r1 O remap_rel r2"
  proof (intro set_eqI iffI)
    fix x assume "x \<in> remap_rel r"
    then obtain m' u where x: "x = (im_source m', u)" "m' \<in> set ms" "u \<in> set (im_targets m')"
      by (auto simp: remap_rel_def ms(2))
    obtain m where m: "m \<in> set (mappings r1)" "compose_mapping r2 m = Inr m'" using bwd x(2) by blast
    then obtain t where "t \<in> set (im_targets m)" "(t, u) \<in> remap_rel r2" using step x(3) by blast
    moreover have "im_source m' = im_source m" using c(1) m by blast
    ultimately show "x \<in> remap_rel r1 O remap_rel r2" using m(1) x(1) by (auto simp: remap_rel_def)
  next
    fix x assume "x \<in> remap_rel r1 O remap_rel r2"
    then obtain m t u where x: "x = (im_source m, u)" "m \<in> set (mappings r1)" "t \<in> set (im_targets m)"
      "(t, u) \<in> remap_rel r2"
      unfolding remap_rel_def [of r1] by auto
    obtain m' where m': "m' \<in> set ms" "compose_mapping r2 m = Inr m'" using fwd x(2) by blast
    have "u \<in> set (im_targets m')" "im_source m' = im_source m"
      using step [OF x(2) m'(2)] c(1) [OF m'(2) x(2)] x(3,4) by blast+
    then show "x \<in> remap_rel r"
      using x(1) m'(1) by (auto simp: remap_rel_def ms(2) intro!: exI [of _ m'])
  qed
qed

text \<open>
  C33. Composition refines relational composition: whenever two well-formed remaps compose, the result is
  well-formed, has exactly the sources of the first, sends a source to a target exactly when some
  intermediate component links them, and every intermediate component was explicitly mapped.
\<close>
theorem compose_refines:
  assumes "remap_ok r1" and "remap_ok r2" and "compose_remap r1 r2 = Inr r"
  shows "remap_ok r \<and> remap_dom r = remap_dom r1 \<and> remap_rel r = remap_rel r1 O remap_rel r2
    \<and> Range (remap_rel r1) \<subseteq> remap_dom r2"
  using compose_rel [OF assms(3,1,2)] compose_remap_Inr(1) [OF assms(3,1)] by simp

section \<open>When composition succeeds\<close>

definition remap_ids_ok :: "identity_remap \<Rightarrow> bool" where
  "remap_ids_ok r \<longleftrightarrow> list_all (\<lambda>m. list_all (\<lambda>i. component_id_ok i \<and> printable i)
     (im_source m # im_targets m)) (mappings r)"

lemma fromkeys_set [simp]: "set (fromkeys xs) = set xs"
  by (induction xs rule: fromkeys.induct) auto

lemma join_reasons_nonempty: "r \<noteq> [] \<Longrightarrow> join_text sep (fromkeys (r # rs)) \<noteq> []"
  by (cases "fromkeys (filter (\<lambda>y. y \<noteq> r) rs)") auto

lemma compose_mapping_total:
  assumes "identity_mapping_init m = Inr m" and "set (im_targets m) \<subseteq> remap_dom r2"
    and "remap_ok r2" and "remap_ids_ok r2"
  shows "\<exists>m'. compose_mapping r2 m = Inr m'"
proof (cases "im_removed m")
  case True
  then show ?thesis by (simp add: compose_mapping_def)
next
  case False
  obtain ts rs where f: "follow_targets r2 (im_targets m) [] [im_reason m] = Inr (ts, im_reason m # rs)"
    using follow_targets_total [OF assms(2), of "[]" "[im_reason m]"] by auto
  have "printable t" if "t \<in> set ts" for t
    using that follow_targets_Inr(2) [OF f] assms(4) by_source_iff [OF assms(3)]
    by (auto simp: remap_ids_ok_def list_all_iff)
  then have s: "sorted_by_id (\<lambda>t. t) (remdups ts) = Inr (sort_key id_key (remdups ts))"
    using sorted_by_id_printable [of "\<lambda>t. t" "remdups ts"] by (simp add: list_all_iff)
  have "im_reason m \<noteq> []" using assms(1) by (simp add: identity_mapping_init_Inr)
  then have "\<exists>m'. identity_mapping_init \<lparr>im_source = im_source m, im_targets = sort_key id_key (remdups ts),
      im_reason = join_text (lit '' -> '') (fromkeys (im_reason m # rs))\<rparr> = Inr m'"
    using sorted_by_id_map [OF s] join_reasons_nonempty [of "im_reason m" "lit '' -> ''" rs]
      mset_eq_imp_distinct_iff [OF sorted_by_id_Inr(2) [OF s]]
    by (simp add: identity_mapping_init_Inr del: fromkeys.simps)
  then show ?thesis using False f s by (auto simp: compose_mapping_def simp del: fromkeys.simps)
qed

lemma compose_total:
  assumes ok: "remap_ok r1" "remap_ok r2" and ids: "remap_ids_ok r1" "remap_ids_ok r2"
    and "Range (remap_rel r1) \<subseteq> remap_dom r2"
  shows "\<exists>r. compose_remap r1 r2 = Inr r"
proof -
  have init: "identity_mapping_init m = Inr m" if "m \<in> set (mappings r1)" for m
    using that ok(1) by (auto simp: remap_ok_iff list_all_iff)
  have "\<exists>m'. compose_mapping r2 m = Inr m'" if "m \<in> set (mappings r1)" for m
    by (rule compose_mapping_total [OF init [OF that] _ ok(2) ids(2)])
      (use that assms(5) in \<open>auto simp: remap_rel_def\<close>)
  then obtain f where f: "\<And>m. m \<in> set (mappings r1) \<Longrightarrow> compose_mapping r2 m = Inr (f m)" by metis
  have m: "mapM_r (compose_mapping r2) (mappings r1) = Inr (map f (mappings r1))"
    using f by (auto simp: mapM_r_Inr_iff list_all2_conv_all_nth)
  have src: "im_source (f m) = im_source m" if "m \<in> set (mappings r1)" for m
    using compose_mapping_Inr(1) [OF f [OF that] init [OF that]] .
  then have "map im_source (map f (mappings r1)) = map im_source (mappings r1)" by simp
  then have d: "distinct (map im_source (map f (mappings r1)))" using ok(1) by (simp only: remap_ok_iff)
  have "\<exists>r. build_remap (map f (mappings r1)) = Inr r"
    by (rule build_remap_total [OF _ d]) (use ok(1) ids(1) src in \<open>auto simp: remap_ok_iff remap_ids_ok_def list_all_iff\<close>)
  then show ?thesis using m by (simp add: compose_remap_def)
qed

text \<open>On usable identifiers the relation and the domain determine what a remap answers.\<close>

lemma id_key_inject:
  assumes "component_id_ok i" "printable i" "component_id_ok j" "printable j" "id_key i = id_key j"
  shows "i = j"
  using assms by (auto simp: printable_def id_key_def split: sum.splits intro: component_id_str_inject)

lemma canonical_targets:
  assumes "identity_mapping_init m = Inr m" "identity_mapping_init m' = Inr m'"
    and "set (im_targets m) = set (im_targets m')"
    and "\<forall>t \<in> set (im_targets m). component_id_ok t \<and> printable t"
  shows "im_targets m = im_targets m'"
proof -
  have sorted: "sorted (map id_key (im_targets m))" if "identity_mapping_init m = Inr m" for m
  proof -
    have "im_targets m = sort_key id_key (im_targets m)"
      using that sorted_by_id_Inr(1) [of "\<lambda>t. t" "im_targets m" "im_targets m"]
      by (simp add: identity_mapping_init_Inr)
    then show ?thesis by (metis sorted_sort_key)
  qed
  have inj: "inj_on id_key (set (im_targets m) \<union> set (im_targets m'))"
    using assms(3,4) id_key_inject by (auto intro!: inj_onI)
  have "map id_key (im_targets m) = map id_key (im_targets m')"
    using assms inj sorted by (intro sorted_distinct_set_unique)
      (auto simp: distinct_map identity_mapping_init_Inr inj_on_Un)
  then show ?thesis using inj map_inj_on by blast
qed

lemma resolve_determined:
  assumes ok: "remap_ok r" "remap_ok r'" and ids: "remap_ids_ok r" "remap_ids_ok r'"
    and "remap_dom r = remap_dom r'" and "remap_rel r = remap_rel r'"
  shows "remap_resolve r s = remap_resolve r' s"
proof (cases "s \<in> remap_dom r")
  case False
  then have "by_source r s = None" "by_source r' s = None"
    using assms(5) by (simp_all add: by_source_None)
  then show ?thesis by (simp add: remap_resolve_def remap_mapping_def)
next
  case True
  then obtain m m' where m: "by_source r s = Some m" "by_source r' s = Some m'"
    using assms(5) by_source_None [of r s] by_source_None [of r' s] by auto
  then have mem: "m \<in> set (mappings r)" "m' \<in> set (mappings r')" using by_source_iff ok by auto
  have "set (im_targets m) = set (im_targets m')"
    using remap_rel_by_source [OF ok(1), of s] remap_rel_by_source [OF ok(2), of s] m assms(6) by auto
  then have "im_targets m = im_targets m'"
    using mem ok ids by (intro canonical_targets) (auto simp: remap_ok_iff remap_ids_ok_def list_all_iff)
  then show ?thesis using m by (simp add: remap_resolve_def remap_mapping_def im_removed_def)
qed

lemma compose_ids_ok:
  assumes "compose_remap r1 r2 = Inr r" "remap_ok r1" "remap_ok r2" "remap_ids_ok r1" "remap_ids_ok r2"
  shows "remap_ids_ok r"
proof -
  have "component_id_ok i \<and> printable i" if "m \<in> set (mappings r)" "i \<in> set (im_source m # im_targets m)" for m i
  proof (cases "i = im_source m")
    case True
    then have "i \<in> remap_dom r1" using that(1) compose_rel(1) [OF assms(1-3)] by (auto simp: remap_dom_def)
    then show ?thesis using assms(4) by (auto simp: remap_dom_def remap_ids_ok_def list_all_iff)
  next
    case False
    then have "(im_source m, i) \<in> remap_rel r" using that by (auto simp: remap_rel_def)
    then obtain t where "(t, i) \<in> remap_rel r2" using compose_rel(2) [OF assms(1-3)] by auto
    then show ?thesis using assms(5) by (auto simp: remap_rel_def remap_ids_ok_def list_all_iff)
  qed
  then show ?thesis by (auto simp: remap_ids_ok_def list_all_iff)
qed

text \<open>
  Composition of a sequence may be bracketed from the left: if composing the later stages first and
  then the whole succeeds, composing stage by stage succeeds too, and both remaps answer every
  \<open>resolve\<close> alike, errors included.
\<close>
theorem compose_associative:
  assumes "remap_ok r1" "remap_ok r2" "remap_ok r3"
    and "remap_ids_ok r1" "remap_ids_ok r2" "remap_ids_ok r3"
    and "compose_remap r2 r3 = Inr r23" and "compose_remap r1 r23 = Inr r"
  shows "\<exists>r12 r'. compose_remap r1 r2 = Inr r12 \<and> compose_remap r12 r3 = Inr r'
    \<and> (\<forall>s. remap_resolve r' s = remap_resolve r s)"
proof -
  have ok23: "remap_ok r23" "remap_ids_ok r23" and r23: "remap_dom r23 = remap_dom r2"
    "remap_rel r23 = remap_rel r2 O remap_rel r3" "Range (remap_rel r2) \<subseteq> remap_dom r3"
    using compose_remap_Inr(1) [OF assms(7)] compose_ids_ok [OF assms(7)] compose_rel [OF assms(7)] assms
    by auto
  have okr: "remap_ok r" "remap_ids_ok r" and r: "remap_dom r = remap_dom r1"
    "remap_rel r = remap_rel r1 O remap_rel r23" "Range (remap_rel r1) \<subseteq> remap_dom r23"
    using compose_remap_Inr(1) [OF assms(8)] compose_ids_ok [OF assms(8)] compose_rel [OF assms(8)] assms ok23
    by auto
  obtain r12 where c12: "compose_remap r1 r2 = Inr r12"
    using compose_total [OF assms(1,2,4,5)] r(3) r23(1) by auto
  have ok12: "remap_ok r12" "remap_ids_ok r12" and r12: "remap_dom r12 = remap_dom r1"
    "remap_rel r12 = remap_rel r1 O remap_rel r2"
    using compose_remap_Inr(1) [OF c12] compose_ids_ok [OF c12] compose_rel [OF c12] assms by auto
  have "Range (remap_rel r12) \<subseteq> remap_dom r3" using r12(2) r23(3) by auto
  then obtain r' where c': "compose_remap r12 r3 = Inr r'"
    using compose_total [OF ok12(1) assms(3) ok12(2) assms(6)] by auto
  have ok': "remap_ok r'" "remap_ids_ok r'" and r': "remap_dom r' = remap_dom r12"
    "remap_rel r' = remap_rel r12 O remap_rel r3"
    using compose_remap_Inr(1) [OF c'] compose_ids_ok [OF c'] compose_rel [OF c'] assms ok12 by auto
  have "remap_resolve r' s = remap_resolve r s" for s
    using r r23 r12 r' by (intro resolve_determined ok' okr) (auto simp: O_assoc)
  then show ?thesis using c12 c' by blast
qed

section \<open>Dispositions\<close>

lemma foldl_count_target: "foldl count_target counts ts t = counts t + count_list ts t"
  by (induction ts arbitrary: counts) (auto simp: count_target_def)

lemma foldl_counts:
  "foldl (\<lambda>counts m. foldl count_target counts (im_targets m)) counts ms t
     = counts t + (\<Sum>m \<leftarrow> ms. count_list (im_targets m) t)"
  by (induction ms arbitrary: counts) (auto simp: foldl_count_target)

lemma count_list_distinct: "distinct xs \<Longrightarrow> count_list xs t = (if t \<in> set xs then 1 else 0)"
  by (induction xs) auto

lemma target_counts_ok:
  assumes "remap_ok r"
  shows "target_counts r t = card {m \<in> set (mappings r). t \<in> set (im_targets m)}"
proof -
  have d: "distinct (mappings r)" using assms by (auto simp: remap_ok_iff distinct_map)
  have c: "count_list (im_targets m) t = (if t \<in> set (im_targets m) then 1 else 0)" if "m \<in> set (mappings r)" for m
    using that assms by (auto simp: remap_ok_iff list_all_iff identity_mapping_init_Inr
        count_list_distinct)
  have "target_counts r t = (\<Sum>m \<leftarrow> mappings r. count_list (im_targets m) t)"
    by (simp add: target_counts_def foldl_counts)
  also have "\<dots> = (\<Sum>m \<leftarrow> mappings r. if t \<in> set (im_targets m) then 1 else 0)"
    by (rule arg_cong [where f = sum_list], rule map_cong) (simp_all add: c)
  also have "\<dots> = (\<Sum>m \<in> set (mappings r). if t \<in> set (im_targets m) then 1 else 0)"
    by (rule sum_list_distinct_conv_sum_set [OF d])
  also have "\<dots> = card {m \<in> set (mappings r). t \<in> set (im_targets m)}"
    by (simp add: sum.If_cases Int_def)
  finally show ?thesis .
qed

lemma target_shared:
  assumes "remap_ok r" and "m \<in> set (mappings r)" and "t \<in> set (im_targets m)"
  shows "1 < target_counts r t \<longleftrightarrow> (\<exists>s'. s' \<noteq> im_source m \<and> (s', t) \<in> remap_rel r)"
proof -
  let ?M = "{m \<in> set (mappings r). t \<in> set (im_targets m)}"
  have inj: "m' = m" if "m' \<in> set (mappings r)" "im_source m' = im_source m" for m'
    using that assms(1,2) by (auto simp: remap_ok_iff distinct_map inj_on_def)
  have "1 < card ?M \<longleftrightarrow> (\<exists>m' \<in> ?M. m' \<noteq> m)"
  proof
    assume "1 < card ?M"
    then have "\<not> ?M \<subseteq> {m}" using card_mono [of "{m}" ?M] by auto
    then show "\<exists>m' \<in> ?M. m' \<noteq> m" by blast
  next
    assume "\<exists>m' \<in> ?M. m' \<noteq> m"
    then obtain m' where "{m, m'} \<subseteq> ?M" "m' \<noteq> m" using assms(2,3) by blast
    then show "1 < card ?M" using card_mono [of ?M "{m, m'}"] by auto
  qed
  also have "\<dots> \<longleftrightarrow> (\<exists>s'. s' \<noteq> im_source m \<and> (s', t) \<in> remap_rel r)"
    using inj by (auto simp: remap_rel_def)
  finally show ?thesis by (simp add: target_counts_ok [OF assms(1)])
qed

text \<open>
  A component's disposition says exactly what the remap does to it: removed without targets, split
  with several, merged when another source shares a target, retained when it alone keeps its identity
  and renumbered otherwise; and the exported record reports the same disposition.
\<close>
theorem disposition_exact:
  assumes "remap_ok r" and "by_source r s = Some m"
  shows "disposition r s = Inr (record_disposition r m)
    \<and> record_disposition r m =
        (let shared = (\<exists>s' t. s' \<noteq> s \<and> (s, t) \<in> remap_rel r \<and> (s', t) \<in> remap_rel r) in
         if im_targets m = [] then REMOVED
         else if 1 < length (im_targets m) then if shared then SPLIT_MERGED else SPLIT
         else if shared then MERGED
         else if im_targets m = [s] then RETAINED else RENUMBERED)"
proof -
  have m: "m \<in> set (mappings r)" "im_source m = s" using assms by (auto simp: by_source_iff)
  define shared where "shared = (\<exists>s' t. s' \<noteq> s \<and> (s, t) \<in> remap_rel r \<and> (s', t) \<in> remap_rel r)"
  have e: "list_ex (\<lambda>t. 1 < target_counts r t) (im_targets m) = shared"
    unfolding shared_def using target_shared [OF assms(1) m(1)] m(2) remap_rel_by_source [OF assms(1), of s] assms(2)
    by (auto simp: list_ex_iff)
  show ?thesis
    unfolding shared_def [symmetric] using m(2) assms(2)
    by (cases shared)
      (simp_all add: disposition_def remap_mapping_def record_disposition_def im_removed_def Let_def e [unfolded One_nat_def])
qed

section \<open>Concrete remaps\<close>

definition demo_block :: "int \<Rightarrow> component_id" where
  "demo_block k = ComponentId [Name (lit ''model''), Index k]"

definition demo_mapping :: "int \<Rightarrow> int list \<Rightarrow> identity_mapping" where
  "demo_mapping k ts = \<lparr>im_source = demo_block k, im_targets = map demo_block ts, im_reason = lit ''prune''\<rparr>"

text \<open>Drop block 1 and split block 2; then merge blocks 0 and 1; then rename.\<close>

definition demo_first :: identity_remap where
  "demo_first = Remap [demo_mapping 0 [0], demo_mapping 1 [], demo_mapping 2 [1, 2]]"

definition demo_second :: identity_remap where
  "demo_second = Remap [demo_mapping 0 [0], demo_mapping 1 [0], demo_mapping 2 [1]]"

definition demo_third :: identity_remap where
  "demo_third = Remap [demo_mapping 0 [7], demo_mapping 1 [1]]"

definition demo_first_second :: identity_remap where
  "demo_first_second = Remap [demo_mapping 0 [0], demo_mapping 1 [], demo_mapping 2 [0, 1]]"

lemma demo_remaps_ok: "remap_ok demo_first" "remap_ok demo_second" "remap_ok demo_third"
    "remap_ids_ok demo_first" "remap_ids_ok demo_second" "remap_ids_ok demo_third"
  by code_simp+

lemma demo_composes:
  "compose_remap demo_first demo_second = Inr demo_first_second"
  "case compose_remap demo_second demo_third of Inl _ \<Rightarrow> False
     | Inr r23 \<Rightarrow> (case compose_remap demo_first r23 of Inl _ \<Rightarrow> False
         | Inr r \<Rightarrow> remap_resolve r (demo_block 2) = Inr [demo_block 1, demo_block 7])"
  by code_simp+

theorem compose_refines_witness:
  "remap_dom demo_first_second = remap_dom demo_first
    \<and> remap_rel demo_first_second = remap_rel demo_first O remap_rel demo_second"
  using compose_refines [OF demo_remaps_ok(1,2) demo_composes(1)] by simp

theorem compose_associative_witness:
  "\<exists>r12 r'. compose_remap demo_first demo_second = Inr r12 \<and> compose_remap r12 demo_third = Inr r'
    \<and> remap_resolve r' (demo_block 2) = Inr [demo_block 1, demo_block 7]"
proof -
  obtain r23 r where r: "compose_remap demo_second demo_third = Inr r23"
    "compose_remap demo_first r23 = Inr r" "remap_resolve r (demo_block 2) = Inr [demo_block 1, demo_block 7]"
    using demo_composes(2) by (auto split: sum.splits)
  from compose_associative [OF demo_remaps_ok r(1,2)] r(3) show ?thesis by auto
qed

theorem disposition_exact_witness:
  "disposition demo_second (demo_block 1) = Inr MERGED"
proof -
  have m: "by_source demo_second (demo_block 1) = Some (demo_mapping 1 [0])"
    and d: "record_disposition demo_second (demo_mapping 1 [0]) = MERGED"
    by code_simp+
  from disposition_exact [OF demo_remaps_ok(2) m] d show ?thesis by simp
qed

end
