(* ===== verification/Migrations.thy ===== *)
theory Migrations
  imports GraphRemap PySha256 PyNumerals "HOL-Library.List_Lexorder"
begin

text \<open>
  \<open>experiments/migrations.py\<close>: the ordered, checksummed migrations of the experiment database. The ledger is
  the table \<open>schema_migrations\<close>; the other tables are a state that SQL statements change, and what one
  statement does is a parameter. The runner reads the ledger before it opens the transaction of a migration,
  so its run is a machine whose steps those of other processes interleave with.
\<close>

section \<open>Registry\<close>

record migration =
  mg_version :: int
  mg_name :: pystr
  mg_statements :: "pystr list"

text \<open>The two exceptions of the file, the \<open>UnicodeEncodeError\<close> of a checksum and the errors of SQLite itself.\<close>

datatype migration_error = Migration string | MigrationValue string | MigrationText | MigrationDatabase

definition migration_init :: "migration \<Rightarrow> migration_error + migration" where
  "migration_init m =
     rbind (raise_if (mg_version m \<le> 0 \<or> mg_name m = [] \<or> mg_statements m = [])
              (MigrationValue ''migrations require a positive version, name, and SQL statements'')) (\<lambda>_.
     rbind (raise_if (list_ex is_blank (mg_statements m)) (MigrationValue ''migration SQL statements cannot be blank'')) (\<lambda>_.
     Inr m))"

definition migration_checksum :: "migration \<Rightarrow> migration_error + pystr" where
  "migration_checksum m =
     rbind (of_option (MigrationValue ''Exceeds the limit for integer string conversion'') (py_str_int (mg_version m))) (\<lambda>version.
     rbind (of_option MigrationText (encode_utf8 (join_text [0x0A] (version # mg_name m # mg_statements m)))) (\<lambda>payload.
     Inr (hexdigest payload)))"

record backup_guidance =
  gd_recommended :: bool
  gd_reason :: pystr
  gd_guidance :: pystr

record migration_report =
  mr_start :: int
  mr_end :: int
  mr_applied :: "int list"
  mr_backup :: backup_guidance

definition validate_registry :: "migration list \<Rightarrow> migration_error + unit" where
  "validate_registry ms =
     rbind (raise_if (map mg_version ms \<noteq> map int [1..<length ms + 1])
              (Migration ''migration registry versions must be contiguous from 1'')) (\<lambda>_.
     raise_if (\<not> distinct (map mg_name ms)) (Migration ''migration registry names must be unique''))"

section \<open>The ledger\<close>

type_synonym ledger_row = "int \<times> pystr \<times> pystr"

record 'd migration_db =
  md_ledger :: "ledger_row list option"
  md_tables :: 'd

definition bootstrap :: "'d migration_db \<Rightarrow> 'd migration_db" where
  "bootstrap db = (case md_ledger db of None \<Rightarrow> db\<lparr>md_ledger := Some []\<rparr> | Some _ \<Rightarrow> db)"

definition applied_rows :: "'d migration_db \<Rightarrow> migration_error + ledger_row list" where
  "applied_rows db = rbind (of_option MigrationDatabase (md_ledger db)) (\<lambda>rows. Inr (sort_key fst rows))"

definition check_row :: "migration list \<Rightarrow> ledger_row \<Rightarrow> migration_error + unit" where
  "check_row ms row =
     (let expected = ms ! nat (fst row - 1); mismatch = Migration ''applied migration does not match the registered checksum'' in
      if fst (snd row) \<noteq> mg_name expected then Inl mismatch
      else rbind (migration_checksum expected) (\<lambda>checksum. raise_if (snd (snd row) \<noteq> checksum) mismatch))"

definition validate_applied :: "ledger_row list \<Rightarrow> migration list \<Rightarrow> migration_error + int" where
  "validate_applied rows ms =
     rbind (raise_if (map fst rows \<noteq> map int [1..<length rows + 1])
              (Migration ''applied migration versions contain a gap or invalid order'')) (\<lambda>_.
     rbind (raise_if (length ms < length rows) (Migration ''database schema is newer than this ModelSurgeon build'')) (\<lambda>_.
     rbind (mapM_r (check_row ms) rows) (\<lambda>_. Inr (int (length rows)))))"

definition migration_backup_guidance :: "int \<Rightarrow> int \<Rightarrow> backup_guidance" where
  "migration_backup_guidance start end' =
     (if start = 0 \<or> end' \<le> start then
        \<lparr>gd_recommended = False, gd_reason = lit ''fresh database or no upgrade is required'',
         gd_guidance = lit ''No pre-upgrade backup is required by the migration runner.''\<rparr>
      else
        \<lparr>gd_recommended = True,
         gd_reason = lit ''database will be upgraded from schema '' @ decimal_digits (nat start) @ lit '' to ''
           @ decimal_digits (nat end'),
         gd_guidance = lit ''Create a consistent copy before upgrading, preferably with '' @
           lit ''sqlite3.Connection.backup(), then keep the source database until validation passes.''\<rparr>)"

section \<open>One migration\<close>

text \<open>What a statement does to the tables; \<open>None\<close> is an error of SQLite.\<close>

type_synonym 'd sql = "pystr \<Rightarrow> 'd \<Rightarrow> 'd option"

fun run_statements :: "'d sql \<Rightarrow> pystr list \<Rightarrow> 'd \<Rightarrow> 'd option" where
  "run_statements sql [] d = Some d"
| "run_statements sql (s # ss) d = Option.bind (sql s d) (run_statements sql ss)"

text \<open>
  The transaction of one migration. \<open>ok\<close> is whether the database lets it begin and commit; the primary key of
  the ledger refuses a version that is there already. Every error rolls back.
\<close>

definition migrate_one :: "'d sql \<Rightarrow> bool \<Rightarrow> migration \<Rightarrow> 'd migration_db \<Rightarrow> 'd migration_db \<times> (migration_error + unit)" where
  "migrate_one sql ok m db =
     (case rbind (of_option MigrationDatabase (run_statements sql (mg_statements m) (md_tables db))) (\<lambda>tables.
           rbind (migration_checksum m) (\<lambda>checksum.
           rbind (of_option MigrationDatabase (md_ledger db)) (\<lambda>rows.
           rbind (raise_if (mg_version m \<in> fst ` set rows \<or> \<not> ok) MigrationDatabase) (\<lambda>_.
           Inr \<lparr>md_ledger = Some (rows @ [(mg_version m, mg_name m, checksum)]), md_tables = tables\<rparr>)))) of
        Inl _ \<Rightarrow> (db, Inl (Migration ''migration failed and was rolled back''))
      | Inr db' \<Rightarrow> (db', Inr ()))"

section \<open>The runner\<close>

record migration_call =
  ml_target :: int
  ml_migrations :: "migration list"

text \<open>
  Where a call stands: before it creates the ledger, before it reads it, before the transaction of the next
  migration, and before it reads the ledger again.
\<close>

datatype migration_stage =
    Bootstrapping
  | Planning
  | Applying int "migration list" "int list"
  | Checking int "int list"
  | Finished "migration_error + migration_report"

definition begin_migrations :: "migration_call \<Rightarrow> bool \<Rightarrow> migration_stage" where
  "begin_migrations c idle =
     (case rbind (validate_registry (ml_migrations c)) (\<lambda>_.
           rbind (raise_if (ml_target c < 0 \<or> int (length (ml_migrations c)) < ml_target c)
                    (Migration ''target schema version is outside supported range'')) (\<lambda>_.
           raise_if (\<not> idle) (Migration ''migration runner requires an idle SQLite connection''))) of
        Inl e \<Rightarrow> Finished (Inl e)
      | Inr _ \<Rightarrow> Bootstrapping)"

definition next_stage :: "int \<Rightarrow> migration list \<Rightarrow> int list \<Rightarrow> migration_stage" where
  "next_stage start todo applied = (if todo = [] then Checking start applied else Applying start todo applied)"

fun migration_step ::
  "'d sql \<Rightarrow> migration_call \<Rightarrow> bool \<Rightarrow> 'd migration_db \<times> migration_stage \<Rightarrow> 'd migration_db \<times> migration_stage" where
  "migration_step sql c ok (db, Bootstrapping) =
     (if ok then (bootstrap db, Planning) else (db, Finished (Inl MigrationDatabase)))"
| "migration_step sql c ok (db, Planning) = (db,
    (case rbind (raise_if (\<not> ok) MigrationDatabase) (\<lambda>_.
          rbind (applied_rows db) (\<lambda>rows.
          rbind (validate_applied rows (ml_migrations c)) (\<lambda>start.
          rbind (raise_if (ml_target c < start) (Migration ''schema downgrades are not supported'')) (\<lambda>_. Inr start)))) of
       Inl e \<Rightarrow> Finished (Inl e)
     | Inr start \<Rightarrow> next_stage start (drop (nat start) (take (nat (ml_target c)) (ml_migrations c))) []))"
| "migration_step sql c ok (db, Applying start (m # todo) applied) =
     (case migrate_one sql ok m db of
        (db', Inl e) \<Rightarrow> (db', Finished (Inl e))
      | (db', Inr _) \<Rightarrow> (db', next_stage start todo (applied @ [mg_version m])))"
| "migration_step sql c ok (db, Checking start applied) = (db, Finished (
     rbind (raise_if (\<not> ok) MigrationDatabase) (\<lambda>_.
     rbind (applied_rows db) (\<lambda>rows.
     rbind (validate_applied rows (ml_migrations c)) (\<lambda>end'.
     rbind (raise_if (end' \<noteq> ml_target c) (Migration ''database did not reach the requested schema version'')) (\<lambda>_.
     Inr \<lparr>mr_start = start, mr_end = end', mr_applied = applied,
          mr_backup = migration_backup_guidance start (ml_target c)\<rparr>))))))"
| "migration_step sql c ok (db, stage) = (db, stage)"

text \<open>A call that no other process and no failing database interferes with.\<close>

fun migration_alone ::
  "nat \<Rightarrow> 'd sql \<Rightarrow> migration_call \<Rightarrow> 'd migration_db \<times> migration_stage \<Rightarrow> 'd migration_db \<times> migration_stage" where
  "migration_alone 0 sql c x = x"
| "migration_alone (Suc n) sql c x = migration_alone n sql c (migration_step sql c True x)"

definition apply_experiment_migrations ::
  "'d sql \<Rightarrow> migration_call \<Rightarrow> bool \<Rightarrow> 'd migration_db \<Rightarrow> 'd migration_db \<times> (migration_error + migration_report) option" where
  "apply_experiment_migrations sql c idle db =
     (case migration_alone (length (ml_migrations c) + 3) sql c (db, begin_migrations c idle) of
        (db', Finished r) \<Rightarrow> (db', Some r)
      | (db', _) \<Rightarrow> (db', None))"

text \<open>
  \<open>open_experiment_database\<close>: \<open>sqlite3.connect\<close> gives an idle connection, which is closed when the migrations
  raise. The last branch does not occur, since a call alone always returns.
\<close>

definition open_experiment_database ::
  "'d sql \<Rightarrow> migration_call \<Rightarrow> 'd migration_db \<Rightarrow> 'd migration_db \<times> (migration_error + unit)" where
  "open_experiment_database sql c db =
     (case apply_experiment_migrations sql c True db of
        (db', Some (Inr _)) \<Rightarrow> (db', Inr ())
      | (db', Some (Inl e)) \<Rightarrow> (db', Inl e)
      | (db', None) \<Rightarrow> (db', Inl MigrationDatabase))"

end
