(* ===== verification/MigrationSafety.thy ===== *)
theory MigrationSafety
  imports Migrations
begin

text \<open>
  What the migration runner of \<open>experiments/migrations.py\<close> guarantees: the ledger and the tables agree whatever
  the interleaving of processes and faults, and a call that nobody disturbs upgrades exactly the databases its
  registry recognises.
\<close>

section \<open>Ledgers and registries\<close>

definition ledger_entry :: "migration \<Rightarrow> migration_error + ledger_row" where
  "ledger_entry m = rbind (migration_checksum m) (\<lambda>c. Inr (mg_version m, mg_name m, c))"

definition ledger_of :: "migration list \<Rightarrow> migration_error + ledger_row list" where
  "ledger_of ms = mapM_r ledger_entry ms"

definition run_all :: "'d sql \<Rightarrow> migration list \<Rightarrow> 'd \<Rightarrow> 'd option" where
  "run_all sql ms d = run_statements sql (concat (map mg_statements ms)) d"

lemma ledger_entry_Inr: "ledger_entry m = Inr row \<longleftrightarrow>
    fst row = mg_version m \<and> fst (snd row) = mg_name m \<and> migration_checksum m = Inr (snd (snd row))"
  by (cases row) (auto simp: ledger_entry_def rbind_Inr_iff)

lemma ledger_of_Inr: "ledger_of ms = Inr rows \<longleftrightarrow> list_all2 (\<lambda>m row. ledger_entry m = Inr row) ms rows"
  by (simp add: ledger_of_def mapM_r_Inr_iff)

lemma ledger_of_versions: "ledger_of ms = Inr rows \<Longrightarrow> map fst rows = map mg_version ms"
  unfolding ledger_of_Inr by (induction rule: list_all2_induct) (auto simp: ledger_entry_Inr)

lemma run_statements_append:
  "run_statements sql (xs @ ys) d = Option.bind (run_statements sql xs d) (run_statements sql ys)"
  by (induction xs arbitrary: d) (auto split: Option.bind_split)

lemma run_all_simps [simp]:
  "run_all sql [] d = Some d"
  "run_all sql (m # ms) d = Option.bind (run_statements sql (mg_statements m) d) (run_all sql ms)"
  "run_all sql (ms @ ms') d = Option.bind (run_all sql ms d) (run_all sql ms')"
  by (simp_all add: run_all_def run_statements_append run_all_def [abs_def])

lemma registry_version:
  assumes "validate_registry ms = Inr ()" and "i < length ms"
  shows "mg_version (ms ! i) = int (i + 1)"
proof -
  have "map mg_version ms = map int [1..<length ms + 1]" using assms(1) by (simp add: validate_registry_def guard_Inr)
  then have "map mg_version ms ! i = map int [1..<length ms + 1] ! i" by simp
  with assms(2) show ?thesis by (simp del: upt_Suc)
qed

lemma registry_versions:
  "validate_registry ms = Inr () \<Longrightarrow> k \<le> length ms \<Longrightarrow> map mg_version (take k ms) = map int [1..<k + 1]"
  by (rule nth_equalityI) (simp_all add: registry_version del: upt_Suc)

lemma registry_prefix:
  assumes "validate_registry ms = Inr ()"
  shows "validate_registry (take j ms) = Inr ()"
proof -
  have "distinct (take j (map mg_name ms))" using assms by (intro distinct_take) (simp add: validate_registry_def guard_Inr)
  then show ?thesis
    using registry_versions [OF assms, of "min j (length ms)"]
    by (auto simp: validate_registry_def guard_Inr take_map min_def simp del: upt_Suc split: if_splits)
qed

lemma check_rows:
  assumes "validate_registry ms = Inr ()" and "map fst rows = map int [1..<length rows + 1]" and "length rows \<le> length ms"
  shows "(\<exists>us. mapM_r (check_row ms) rows = Inr us) \<longleftrightarrow> ledger_of (take (length rows) ms) = Inr rows"
proof -
  have fst: "fst (rows ! i) = int (i + 1)" if "i < length rows" for i
    using arg_cong [OF assms(2), of "\<lambda>xs. xs ! i"] that by (simp del: upt_Suc)
  have "check_row ms (rows ! i) = Inr () \<longleftrightarrow> ledger_entry (ms ! i) = Inr (rows ! i)" if "i < length rows" for i
    using fst [OF that] registry_version [OF assms(1), of i] that assms(3)
    by (auto simp: check_row_def Let_def ledger_entry_Inr rbind_Inr_iff)
  then show ?thesis
    using assms(3) by (auto simp: ledger_of_Inr mapM_r_Inr_iff list_all2_conv_all_nth intro!: exI [of _ "replicate (length rows) ()"])
qed

lemma validate_applied_Inr:
  assumes "validate_registry ms = Inr ()"
  shows "validate_applied rows ms = Inr n \<longleftrightarrow>
    n = int (length rows) \<and> length rows \<le> length ms \<and> ledger_of (take (length rows) ms) = Inr rows"
proof -
  have "map fst rows = map int [1..<length rows + 1]"
    if "length rows \<le> length ms" "ledger_of (take (length rows) ms) = Inr rows"
    using ledger_of_versions [OF that(2)] registry_versions [OF assms that(1)] by simp
  with check_rows [OF assms, of rows] show ?thesis
    unfolding validate_applied_def by (auto simp: guard_Inr rbind_Inr_iff simp del: upt_Suc)
qed

section \<open>One call among others\<close>

text \<open>The ledger lists the first \<open>k\<close> migrations and the tables are what they make of \<open>d0\<close>, each run once.\<close>

definition migrated :: "'d sql \<Rightarrow> migration list \<Rightarrow> 'd \<Rightarrow> nat \<Rightarrow> 'd migration_db \<Rightarrow> bool" where
  "migrated sql ms d0 k db \<longleftrightarrow> k \<le> length ms \<and> run_all sql (take k ms) d0 = Some (md_tables db)
     \<and> (case md_ledger db of None \<Rightarrow> k = 0 | Some rows \<Rightarrow> ledger_of (take k ms) = Inr rows)"

lemma migrated_bootstrap: "migrated sql ms d0 k db \<Longrightarrow> migrated sql ms d0 k (bootstrap db)"
  by (auto simp: migrated_def bootstrap_def ledger_of_def split: option.splits)

lemma take_snoc: "k < length ms \<Longrightarrow> take (Suc k) ms = take k ms @ [ms ! k]"
  by (rule take_Suc_conv_app_nth)

lemma ledger_of_snoc: "ledger_of (ms @ [m]) = rbind (ledger_of ms) (\<lambda>rows. rbind (ledger_entry m) (\<lambda>r. Inr (rows @ [r])))"
  by (induction ms) (auto simp: ledger_of_def rbind_assoc cong: rbind_cong)

lemma migrate_one_cases:
  assumes reg: "validate_registry ms = Inr ()" and db: "migrated sql ms d0 k db" and i: "i \<le> k" "i < length ms"
    and run: "migrate_one sql ok (ms ! i) db = (db', r)"
  shows "case r of Inr _ \<Rightarrow> i = k \<and> migrated sql ms d0 (Suc k) db' | Inl _ \<Rightarrow> db' = db"
proof (cases r)
  case (Inl e)
  with run show ?thesis by (auto simp: migrate_one_def split: sum.splits)
next
  case (Inr u)
  with run obtain tables checksum rows where d: "run_statements sql (mg_statements (ms ! i)) (md_tables db) = Some tables"
    "migration_checksum (ms ! i) = Inr checksum" "md_ledger db = Some rows" "mg_version (ms ! i) \<notin> fst ` set rows"
    "db' = \<lparr>md_ledger = Some (rows @ [(mg_version (ms ! i), mg_name (ms ! i), checksum)]), md_tables = tables\<rparr>"
    by (auto simp: migrate_one_def rbind_Inr_iff guard_Inr split: sum.splits)
  have k: "k \<le> length ms" "ledger_of (take k ms) = Inr rows" using db d(3) by (simp_all add: migrated_def)
  have "fst ` set rows = set (map mg_version (take k ms))" using ledger_of_versions [OF k(2)] by (metis set_map)
  moreover have "mg_version (ms ! i) \<in> set (map mg_version (take k ms))" if "i < k"
    using that k(1) by (force simp: in_set_conv_nth)
  ultimately have "i = k" using d(4) i(1) by (cases "i < k") auto
  moreover have "ledger_entry (ms ! i) = Inr (mg_version (ms ! i), mg_name (ms ! i), checksum)" using d(2) by (simp add: ledger_entry_def)
  ultimately show ?thesis using Inr db d k i(2) by (simp add: migrated_def take_snoc ledger_of_snoc)
qed

text \<open>A stage of a call, when the database has reached migration \<open>k\<close>.\<close>

definition applied_between :: "int \<Rightarrow> int \<Rightarrow> int list" where
  "applied_between start end' = map int [nat start + 1..<nat end' + 1]"

fun stage_ok :: "nat \<Rightarrow> migration_call \<Rightarrow> migration_stage \<Rightarrow> bool" where
  "stage_ok k c (Applying start todo applied) \<longleftrightarrow> (\<exists>i \<le> k. todo = drop i (take (nat (ml_target c)) (ml_migrations c))
     \<and> todo \<noteq> [] \<and> 0 \<le> start \<and> start \<le> int i \<and> applied = applied_between start (int i))"
| "stage_ok k c (Checking start applied) \<longleftrightarrow>
     0 \<le> start \<and> start \<le> ml_target c \<and> ml_target c \<le> int k \<and> applied = applied_between start (ml_target c)"
| "stage_ok k c (Finished (Inr r)) \<longleftrightarrow> 0 \<le> mr_start r \<and> mr_start r \<le> ml_target c \<and> mr_end r = ml_target c
     \<and> ml_target c \<le> int k \<and> mr_applied r = applied_between (mr_start r) (ml_target c)"
| "stage_ok k c _ \<longleftrightarrow> True"

lemma stage_ok_mono: "stage_ok k c stage \<Longrightarrow> k \<le> k' \<Longrightarrow> stage_ok k' c stage"
  by (induction k c stage rule: stage_ok.induct) (auto intro: order_trans)

text \<open>A call of a build that knows the first migrations of the registry.\<close>

definition call_ok :: "migration list \<Rightarrow> migration_call \<times> migration_stage \<Rightarrow> bool" where
  "call_ok ms cs \<longleftrightarrow> (\<exists>j. ml_migrations (fst cs) = take j ms)
     \<and> (0 \<le> ml_target (fst cs) \<and> ml_target (fst cs) \<le> int (length (ml_migrations (fst cs))) \<or> (\<exists>e. snd cs = Finished (Inl e)))"

lemma applied_between_snoc: "0 \<le> start \<Longrightarrow> start \<le> int i \<Longrightarrow>
    applied_between start (int i) @ [int (i + 1)] = applied_between start (int (Suc i))"
proof -
  assume "0 \<le> start" and "start \<le> int i"
  then have "nat start + 1 \<le> i + 1" by (simp add: nat_le_iff)
  then have "[nat start + 1..<i + 1 + 1] = [nat start + 1..<i + 1] @ [i + 1]" by (simp add: upt_Suc_append)
  then show ?thesis unfolding applied_between_def nat_int by (simp del: upt_Suc)
qed

lemma next_stage_ok:
  assumes "todo = drop i (take (nat (ml_target c)) (ml_migrations c))" and "i \<le> k" and "int i \<le> ml_target c"
    and "0 \<le> start" and "start \<le> int i" and "applied = applied_between start (int i)"
    and "ml_target c \<le> int (length (ml_migrations c))"
  shows "stage_ok k c (next_stage start todo applied)"
proof (cases "todo = []")
  case True
  then have "int i = ml_target c" using assms by auto
  with True assms show ?thesis by (simp add: next_stage_def)
qed (use assms in \<open>auto simp: next_stage_def\<close>)

lemma migration_step_ok:
  assumes reg: "validate_registry ms = Inr ()" and db: "migrated sql ms d0 k db"
    and c: "call_ok ms (c, stage)" "stage_ok k c stage"
    and step: "migration_step sql c ok (db, stage) = (db', stage')"
  shows "\<exists>k' \<ge> k. migrated sql ms d0 k' db' \<and> call_ok ms (c, stage') \<and> stage_ok k' c stage'"
proof (cases stage)
  case Bootstrapping
  with step db c show ?thesis
    by (intro exI [of _ k]) (auto simp: migrated_bootstrap call_ok_def split: if_splits)
next
  case Planning
  have "stage_ok k c stage' \<and> call_ok ms (c, stage')"
  proof (cases "\<exists>e. stage' = Finished (Inl e)")
    case True
    with c(1) show ?thesis by (auto simp: call_ok_def)
  next
    case False
    with step Planning obtain rows start where r: "applied_rows db = Inr rows" "validate_applied rows (ml_migrations c) = Inr start"
      "start \<le> ml_target c" "stage' = next_stage start (drop (nat start) (take (nat (ml_target c)) (ml_migrations c))) []"
      by (auto simp: not_less split: sum.splits if_splits)
    obtain j where j: "ml_migrations c = take j ms" and t: "ml_target c \<le> int (length (ml_migrations c))"
      using c(1) Planning by (auto simp: call_ok_def)
    have start: "start = int (length rows)"
      using r(2) validate_applied_Inr [OF registry_prefix [OF reg], of rows j start] by (simp add: j)
    obtain rows' where "md_ledger db = Some rows'" "rows = sort_key fst rows'"
      using r(1) by (auto simp: applied_rows_def)
    moreover from this db have "list_all2 (\<lambda>m row. ledger_entry m = Inr row) (take k ms) rows'" "k \<le> length ms"
      by (simp_all add: migrated_def ledger_of_Inr)
    ultimately have "length rows = k" by (auto dest!: list_all2_lengthD)
    with start have "stage_ok k c stage'"
      unfolding r(4) using r(3) t by (intro next_stage_ok) (auto simp: applied_between_def)
    with c(1) Planning show ?thesis by (simp add: call_ok_def)
  qed
  with db step Planning show ?thesis by auto
next
  case (Applying start todo applied)
  with c(2) obtain i where i: "i \<le> k" "todo = drop i (take (nat (ml_target c)) (ml_migrations c))" "todo \<noteq> []"
    "0 \<le> start" "start \<le> int i" "applied = applied_between start (int i)" by auto
  obtain j where j: "ml_migrations c = take j ms" and t: "0 \<le> ml_target c" "ml_target c \<le> int (length (ml_migrations c))"
    using c(1) Applying by (auto simp: call_ok_def)
  have len: "i < nat (ml_target c)" "i < length (take j ms)" using i(2,3) j by auto
  then have todo: "todo = ms ! i # drop (Suc i) (take (nat (ml_target c)) (ml_migrations c))"
    using i(2) j by (simp add: Cons_nth_drop_Suc [symmetric])
  obtain r where r: "migrate_one sql ok (ms ! i) db = (db', r)"
    and stage': "stage' = (case r of Inl e \<Rightarrow> Finished (Inl e)
      | Inr _ \<Rightarrow> next_stage start (drop (Suc i) (take (nat (ml_target c)) (ml_migrations c))) (applied @ [mg_version (ms ! i)]))"
    using step Applying todo by (auto split: prod.splits sum.splits)
  have ims: "i < length ms" using len(2) by simp
  note one = migrate_one_cases [OF reg db i(1) ims r]
  show ?thesis
  proof (cases r)
    case (Inl e)
    with one db c(1) stage' show ?thesis by (intro exI [of _ k]) (auto simp: call_ok_def)
  next
    case (Inr u)
    with one have k: "i = k" "migrated sql ms d0 (Suc k) db'" by simp_all
    have "stage_ok (Suc k) c stage'"
      unfolding stage' Inr sum.case
    proof (rule next_stage_ok [OF refl])
      show "applied @ [mg_version (ms ! i)] = applied_between start (int (Suc i))"
        using applied_between_snoc [OF i(4,5)] registry_version [OF reg ims] i(6) by simp
    qed (use k(1) len(1) t i(4,5) in auto)
    with k(2) c(1) Applying show ?thesis by (intro exI [of _ "Suc k"]) (auto simp: call_ok_def)
  qed
next
  case (Checking start applied)
  with step have "db' = db" by simp
  moreover obtain r where r: "stage' = Finished r" using step Checking by auto
  then have "stage_ok k c stage'" using step Checking c(2) by (cases r) (auto simp: guard_Inr rbind_Inr_iff)
  moreover have "call_ok ms (c, stage')" using c(1) Checking by (simp add: call_ok_def)
  ultimately show ?thesis using db by auto
next
  case (Finished r)
  with step db c show ?thesis by auto
qed

section \<open>Any number of calls\<close>

text \<open>
  \<open>OpenDatabase c idle\<close> starts a call, \<open>Advance n ok\<close> lets the n-th call take its next step, with \<open>ok\<close> whether
  the database serves it; a process that dies takes no further step.
\<close>

datatype migration_event = OpenDatabase migration_call bool | Advance nat bool

record 'd migration_system =
  my_db :: "'d migration_db"
  my_calls :: "(migration_call \<times> migration_stage) list"

fun migration_event_step :: "'d sql \<Rightarrow> 'd migration_system \<Rightarrow> migration_event \<Rightarrow> 'd migration_system" where
  "migration_event_step sql y (OpenDatabase c idle) = y\<lparr>my_calls := my_calls y @ [(c, begin_migrations c idle)]\<rparr>"
| "migration_event_step sql y (Advance n ok) =
     (if n < length (my_calls y) then
        let (c, stage) = my_calls y ! n; (db, stage') = migration_step sql c ok (my_db y, stage) in
        \<lparr>my_db = db, my_calls = (my_calls y)[n := (c, stage')]\<rparr>
      else y)"

definition migration_run :: "'d sql \<Rightarrow> 'd \<Rightarrow> migration_event list \<Rightarrow> 'd migration_system" where
  "migration_run sql d0 es =
     foldl (migration_event_step sql) \<lparr>my_db = \<lparr>md_ledger = None, md_tables = d0\<rparr>, my_calls = []\<rparr> es"

fun known_build :: "migration list \<Rightarrow> migration_event \<Rightarrow> bool" where
  "known_build ms (OpenDatabase c _) \<longleftrightarrow> (\<exists>j. ml_migrations c = take j ms)"
| "known_build ms (Advance _ _) \<longleftrightarrow> True"

definition migration_system_ok :: "'d sql \<Rightarrow> migration list \<Rightarrow> 'd \<Rightarrow> nat \<Rightarrow> 'd migration_system \<Rightarrow> bool" where
  "migration_system_ok sql ms d0 k y \<longleftrightarrow> migrated sql ms d0 k (my_db y)
     \<and> (\<forall>cs \<in> set (my_calls y). call_ok ms cs \<and> stage_ok k (fst cs) (snd cs))"

lemma begin_ok: "\<exists>j. ml_migrations c = take j ms \<Longrightarrow>
    call_ok ms (c, begin_migrations c idle) \<and> stage_ok k c (begin_migrations c idle)"
  by (auto simp: call_ok_def begin_migrations_def not_less guard_Inr rbind_Inr_iff split: sum.splits)

lemma migration_event_ok:
  assumes reg: "validate_registry ms = Inr ()" and y: "migration_system_ok sql ms d0 k y" and e: "known_build ms e"
  shows "\<exists>k' \<ge> k. migration_system_ok sql ms d0 k' (migration_event_step sql y e)"
proof (cases e)
  case (OpenDatabase c idle)
  with y e begin_ok [of c ms idle k] show ?thesis by (intro exI [of _ k]) (auto simp: migration_system_ok_def)
next
  case (Advance n ok)
  show ?thesis
  proof (cases "n < length (my_calls y)")
    case True
    obtain c stage where cs: "my_calls y ! n = (c, stage)" by (cases "my_calls y ! n")
    obtain db stage' where step: "migration_step sql c ok (my_db y, stage) = (db, stage')"
      by (cases "migration_step sql c ok (my_db y, stage)")
    have all: "call_ok ms x \<and> stage_ok k (fst x) (snd x)" if "x \<in> set (my_calls y)" for x
      using y that by (simp add: migration_system_ok_def)
    have "(c, stage) \<in> set (my_calls y)" using cs nth_mem [OF True] by simp
    from all [OF this] have c: "call_ok ms (c, stage)" "stage_ok k c stage" by simp_all
    have db: "migrated sql ms d0 k (my_db y)" using y by (simp add: migration_system_ok_def)
    from migration_step_ok [OF reg db c step] obtain k' where k': "k \<le> k'" "migrated sql ms d0 k' db"
      "call_ok ms (c, stage')" "stage_ok k' c stage'"
      by blast
    have "call_ok ms x \<and> stage_ok k' (fst x) (snd x)" if "x \<in> set ((my_calls y)[n := (c, stage')])" for x
    proof (cases "x = (c, stage')")
      case False
      then have "x \<in> set (my_calls y)" using that set_update_subset_insert [of "my_calls y" n "(c, stage')"] by blast
      then show ?thesis using all stage_ok_mono [OF _ k'(1)] by blast
    qed (use k' in simp)
    with k' Advance True cs step show ?thesis by (auto simp: migration_system_ok_def)
  qed (use y Advance in auto)
qed

lemma migration_events_ok:
  assumes "validate_registry ms = Inr ()" and "migration_system_ok sql ms d0 k y" and "list_all (known_build ms) es"
  shows "\<exists>k' \<ge> k. migration_system_ok sql ms d0 k' (foldl (migration_event_step sql) y es)"
  using assms(2,3)
proof (induction es arbitrary: k y)
  case (Cons e es)
  then have e: "known_build ms e" and es: "list_all (known_build ms) es" by simp_all
  obtain k1 where k1: "k \<le> k1" "migration_system_ok sql ms d0 k1 (migration_event_step sql y e)"
    using migration_event_ok [OF assms(1) Cons.prems(1) e] by blast
  from Cons.IH [OF k1(2) es] k1(1) show ?case by (auto intro: order_trans)
qed auto

text \<open>
  The ledger and the tables never disagree. Whatever the interleaving of any number of processes, of builds
  that know different numbers of the migrations of one registry, with any faults of the database and any
  processes that die: the ledger lists exactly the first migrations with their checksums, the tables are what
  these make of the first state, each run once and in order; the number never goes down; and a call that
  returns reports the migrations it ran itself, and the database has reached its target.
\<close>
theorem ledger_matches_tables:
  assumes reg: "validate_registry ms = Inr ()" and builds: "list_all (known_build ms) (es @ later)"
    and y: "y = migration_run sql d0 es" and z: "z = migration_run sql d0 (es @ later)"
  shows "\<exists>k k'. k \<le> k' \<and> k' \<le> length ms
    \<and> run_all sql (take k ms) d0 = Some (md_tables (my_db y)) \<and> run_all sql (take k' ms) d0 = Some (md_tables (my_db z))
    \<and> (case md_ledger (my_db y) of None \<Rightarrow> k = 0 | Some rows \<Rightarrow> ledger_of (take k ms) = Inr rows)
    \<and> (case md_ledger (my_db z) of None \<Rightarrow> k' = 0 | Some rows \<Rightarrow> ledger_of (take k' ms) = Inr rows)
    \<and> (\<forall>c r. (c, Finished (Inr r)) \<in> set (my_calls y) \<longrightarrow> mr_end r = ml_target c \<and> ml_target c \<le> int k
        \<and> mr_start r \<le> mr_end r \<and> mr_applied r = map int [nat (mr_start r) + 1..<nat (mr_end r) + 1])"
proof -
  let ?y0 = "\<lparr>my_db = \<lparr>md_ledger = None, md_tables = d0\<rparr>, my_calls = []\<rparr>"
  have "migration_system_ok sql ms d0 0 ?y0" by (simp add: migration_system_ok_def migrated_def)
  from migration_events_ok [OF reg this, of es] builds obtain k where k: "migration_system_ok sql ms d0 k y"
    unfolding y migration_run_def by auto
  from migration_events_ok [OF reg this, of later] builds obtain k' where k': "k \<le> k'" "migration_system_ok sql ms d0 k' z"
    unfolding y z migration_run_def by auto
  have "mr_end r = ml_target c \<and> ml_target c \<le> int k \<and> mr_start r \<le> mr_end r
      \<and> mr_applied r = map int [nat (mr_start r) + 1..<nat (mr_end r) + 1]"
    if "(c, Finished (Inr r)) \<in> set (my_calls y)" for c r
    using k that by (fastforce simp: migration_system_ok_def applied_between_def)
  with k k' show ?thesis
    unfolding migration_system_ok_def migrated_def by (intro exI [of _ k'] exI [of _ k]) blast
qed

section \<open>One call alone\<close>

lemma alone_finished [simp]: "migration_alone n sql c (db, Finished r) = (db, Finished r)"
  by (induction n) simp_all

lemma migrate_one_alone:
  assumes "md_ledger db = Some rows" and "mg_version m \<notin> fst ` set rows"
  shows "migrate_one sql True m db = (case (run_statements sql (mg_statements m) (md_tables db), ledger_entry m) of
      (Some tables, Inr row) \<Rightarrow> (\<lparr>md_ledger = Some (rows @ [row]), md_tables = tables\<rparr>, Inr ())
    | _ \<Rightarrow> (db, Inl (Migration ''migration failed and was rolled back'')))"
  using assms by (cases "migration_checksum m")
    (auto simp: migrate_one_def ledger_entry_def split: option.splits)

lemma alone_more:
  assumes "migration_alone n sql c x = (db, Finished r)"
  shows "migration_alone (n + extra) sql c x = (db, Finished r)"
  using assms by (induction n sql c x rule: migration_alone.induct) simp_all

definition checked :: "migration_call \<Rightarrow> int \<Rightarrow> int list \<Rightarrow> 'd migration_db \<Rightarrow> migration_error + migration_report" where
  "checked c start applied db = rbind (applied_rows db) (\<lambda>rows.
     rbind (validate_applied rows (ml_migrations c)) (\<lambda>end'.
     rbind (raise_if (end' \<noteq> ml_target c) (Migration ''database did not reach the requested schema version'')) (\<lambda>_.
     Inr \<lparr>mr_start = start, mr_end = end', mr_applied = applied,
          mr_backup = migration_backup_guidance start (ml_target c)\<rparr>)))"

lemma alone_applies:
  assumes "md_ledger db = Some rows" and "distinct (map fst rows @ map mg_version todo)"
  shows "\<exists>db' r. migration_alone (Suc (length todo)) sql c (db, next_stage start todo applied) = (db', Finished r)
    \<and> (\<forall>report. r = Inr report \<longrightarrow> (\<exists>tables new. run_all sql todo (md_tables db) = Some tables \<and> ledger_of todo = Inr new
         \<and> db' = \<lparr>md_ledger = Some (rows @ new), md_tables = tables\<rparr>))
    \<and> (\<forall>tables new. run_all sql todo (md_tables db) = Some tables \<and> ledger_of todo = Inr new
         \<longrightarrow> r = checked c start (applied @ map mg_version todo) db' \<and> db' = \<lparr>md_ledger = Some (rows @ new), md_tables = tables\<rparr>)"
  using assms
proof (induction todo arbitrary: db rows applied)
  case Nil
  then show ?case by (cases db) (auto simp: next_stage_def checked_def ledger_of_def)
next
  case (Cons m todo)
  have fresh: "mg_version m \<notin> fst ` set rows" using Cons.prems(2) by auto
  note one = migrate_one_alone [OF Cons.prems(1) fresh, of sql]
  show ?case
  proof (cases "\<exists>tables row. run_statements sql (mg_statements m) (md_tables db) = Some tables \<and> ledger_entry m = Inr row")
    case True
    then obtain tables row where d: "run_statements sql (mg_statements m) (md_tables db) = Some tables" "ledger_entry m = Inr row"
      by blast
    let ?db = "\<lparr>md_ledger = Some (rows @ [row]), md_tables = tables\<rparr>"
    have "distinct (map fst (rows @ [row]) @ map mg_version todo)" using Cons.prems(2) d(2) by (auto simp: ledger_entry_Inr)
    from Cons.IH [of ?db, OF _ this, of "applied @ [mg_version m]"] obtain db' r where
      run: "migration_alone (Suc (length todo)) sql c (?db, next_stage start todo (applied @ [mg_version m])) = (db', Finished r)"
      and ok: "\<forall>report. r = Inr report \<longrightarrow> (\<exists>tables' new. run_all sql todo tables = Some tables' \<and> ledger_of todo = Inr new
         \<and> db' = \<lparr>md_ledger = Some ((rows @ [row]) @ new), md_tables = tables'\<rparr>)"
      and done': "\<forall>tables' new. run_all sql todo tables = Some tables' \<and> ledger_of todo = Inr new
         \<longrightarrow> r = checked c start ((applied @ [mg_version m]) @ map mg_version todo) db'
           \<and> db' = \<lparr>md_ledger = Some ((rows @ [row]) @ new), md_tables = tables'\<rparr>"
      by auto
    have "migration_alone (Suc (length (m # todo))) sql c (db, next_stage start (m # todo) applied) = (db', Finished r)"
      using run d one by (simp add: next_stage_def [of _ "m # todo"])
    moreover have "ledger_of (m # todo) = Inr new \<longleftrightarrow> (\<exists>new'. new = row # new' \<and> ledger_of todo = Inr new')" for new
      using d(2) by (auto simp: ledger_of_def rbind_Inr_iff)
    moreover have "run_all sql (m # todo) (md_tables db) = run_all sql todo tables" using d(1) by simp
    ultimately show ?thesis using ok done' by (intro exI [of _ db'] exI [of _ r]) (simp, blast)
  next
    case False
    then have "migrate_one sql True m db = (db, Inl (Migration ''migration failed and was rolled back''))"
      unfolding one by (cases "run_statements sql (mg_statements m) (md_tables db)"; cases "ledger_entry m") auto
    with False show ?thesis by (auto simp: next_stage_def [of _ "m # todo"] ledger_of_def rbind_Inr_iff split: Option.bind_splits)
  qed
qed

definition recognised :: "migration_call \<Rightarrow> ledger_row list \<Rightarrow> nat \<Rightarrow> bool" where
  "recognised c rows k \<longleftrightarrow> k \<le> nat (ml_target c) \<and> ledger_of (take k (ml_migrations c)) = Inr (sort_key fst rows)"

definition planned_upgrade :: "migration_call \<Rightarrow> nat \<Rightarrow> migration list" where
  "planned_upgrade c k = drop k (take (nat (ml_target c)) (ml_migrations c))"

lemma planning_recognises:
  assumes reg: "validate_registry (ml_migrations c) = Inr ()" and t: "0 \<le> ml_target c" "ml_target c \<le> int (length (ml_migrations c))"
    and db: "md_ledger db = Some rows"
  shows "migration_step sql c True (db, Planning) = (db, stage) \<Longrightarrow>
    (if recognised c rows (length rows) then stage = next_stage (int (length rows)) (planned_upgrade c (length rows)) []
     else \<exists>e. stage = Finished (Inl e))"
proof -
  assume step: "migration_step sql c True (db, Planning) = (db, stage)"
  note valid = validate_applied_Inr [OF reg, of "sort_key fst rows"]
  show ?thesis
  proof (cases "validate_applied (sort_key fst rows) (ml_migrations c)")
    case (Inl e)
    then have "\<not> recognised c rows (length rows)"
      using valid [of "int (length rows)"] t by (auto simp: recognised_def nat_le_iff)
    with step Inl db show ?thesis by (auto simp: applied_rows_def)
  next
    case (Inr n)
    with valid have n: "n = int (length rows)" "ledger_of (take (length rows) (ml_migrations c)) = Inr (sort_key fst rows)" by auto
    have "recognised c rows (length rows) \<longleftrightarrow> n \<le> ml_target c" using n t(1) by (auto simp: recognised_def le_nat_iff)
    with step Inr n(1) db show ?thesis by (auto simp: applied_rows_def planned_upgrade_def not_less raise_if_def split: if_splits)
  qed
qed

lemma recognised_length: "recognised c rows k \<Longrightarrow> ml_target c \<le> int (length (ml_migrations c)) \<Longrightarrow> k = length rows"
  by (auto simp: recognised_def ledger_of_Inr dest!: list_all2_lengthD)

lemma planned_upgrade_parts:
  assumes "recognised c rows (length rows)"
  shows "take (nat (ml_target c)) (ml_migrations c) = take (length rows) (ml_migrations c) @ planned_upgrade c (length rows)"
  unfolding planned_upgrade_def using assms by (metis append_take_drop_id min.absorb1 recognised_def take_take)

lemma upgrade_versions:
  assumes reg: "validate_registry (ml_migrations c) = Inr ()" and t: "ml_target c \<le> int (length (ml_migrations c))"
    and old: "recognised c rows (length rows)"
  shows "distinct (map fst rows @ map mg_version (planned_upgrade c (length rows)))"
    and "map mg_version (planned_upgrade c (length rows)) = map int [length rows + 1..<nat (ml_target c) + 1]"
proof -
  let ?ms = "ml_migrations c" and ?k = "length rows" and ?t = "nat (ml_target c)"
  have k: "?k \<le> ?t" "?t \<le> length ?ms" "?k \<le> length ?ms" "ledger_of (take ?k ?ms) = Inr (sort_key fst rows)"
    using old t by (auto simp: recognised_def nat_le_iff)
  have "map mg_version (take ?t ?ms) = map int ([1..<?k + 1] @ [?k + 1..<?t + 1])"
    using registry_versions [OF reg k(2)] k(1) upt_add_eq_append [of 1 "?k + 1" "?t - ?k"] by (simp del: upt_Suc)
  then show todo: "map mg_version (planned_upgrade c ?k) = map int [?k + 1..<?t + 1]"
    using registry_versions [OF reg k(3)] by (simp add: planned_upgrade_parts [OF old] del: upt_Suc)
  have "map fst (sort_key fst rows) = map int [1..<?k + 1]"
    using ledger_of_versions [OF k(4)] registry_versions [OF reg k(3)] by simp
  moreover have "mset (map fst rows) = mset (map fst (sort_key fst rows))" by simp
  ultimately have versions: "mset (map fst rows) = mset (map int [1..<?k + 1])" by metis
  have "distinct (map fst rows)"
    using mset_eq_imp_distinct_iff [OF versions] by (simp add: distinct_map del: upt_Suc)
  moreover have "set (map fst rows) = int ` {1..<?k + 1}" using mset_eq_setD [OF versions] by (simp del: upt_Suc)
  ultimately show "distinct (map fst rows @ map mg_version (planned_upgrade c ?k))"
    unfolding todo by (auto simp: distinct_map simp del: upt_Suc)
qed

lemma upgraded_ledger:
  assumes reg: "validate_registry (ml_migrations c) = Inr ()" and t: "ml_target c \<le> int (length (ml_migrations c))"
    and old: "recognised c rows (length rows)" and new: "ledger_of (planned_upgrade c (length rows)) = Inr new"
  shows "sort_key fst (rows @ new) = sort_key fst rows @ new"
    and "ledger_of (take (nat (ml_target c)) (ml_migrations c)) = Inr (sort_key fst rows @ new)"
proof -
  let ?ms = "ml_migrations c" and ?k = "length rows" and ?t = "nat (ml_target c)"
  have k: "?t \<le> length ?ms" "ledger_of (take ?k ?ms) = Inr (sort_key fst rows)"
    using old t by (auto simp: recognised_def nat_le_iff)
  have "list_all2 (\<lambda>m row. ledger_entry m = Inr row) (take ?k ?ms @ planned_upgrade c ?k) (sort_key fst rows @ new)"
    using k(2) new unfolding ledger_of_Inr by (rule list_all2_appendI)
  then show ledger: "ledger_of (take ?t ?ms) = Inr (sort_key fst rows @ new)"
    by (simp add: planned_upgrade_parts [OF old] ledger_of_Inr)
  have "map fst (sort_key fst rows @ new) = map int [1..<?t + 1]"
    using ledger_of_versions [OF ledger] registry_versions [OF reg k(1)] by simp
  then have sorted: "sorted (map fst (sort_key fst rows @ new))" by (simp add: sorted_map del: upt_Suc map_append)
  have stable: "filter (\<lambda>x. fst a = fst x) (sort_key fst rows) = filter (\<lambda>x. fst a = fst x) rows" for a :: ledger_row
    using sort_key_stable [of fst "fst a" rows] by (simp add: eq_commute)
  show "sort_key fst (rows @ new) = sort_key fst rows @ new"
    by (rule properties_for_sort_key [OF _ _ sorted]) (simp_all add: stable)
qed

lemma upgraded_check:
  assumes reg: "validate_registry (ml_migrations c) = Inr ()" and t: "0 \<le> ml_target c" "ml_target c \<le> int (length (ml_migrations c))"
    and old: "recognised c rows (length rows)" and new: "ledger_of (planned_upgrade c (length rows)) = Inr new"
  shows "checked c start applied \<lparr>md_ledger = Some (rows @ new), md_tables = tables\<rparr>
    = Inr \<lparr>mr_start = start, mr_end = ml_target c, mr_applied = applied, mr_backup = migration_backup_guidance start (ml_target c)\<rparr>"
proof -
  note ledger = upgraded_ledger [OF reg t(2) old new]
  have "length (sort_key fst rows @ new) = nat (ml_target c)"
    using list_all2_lengthD [OF ledger(2) [unfolded ledger_of_Inr]] t(2) by simp
  then have "validate_applied (sort_key fst rows @ new) (ml_migrations c) = Inr (ml_target c)"
    using validate_applied_Inr [OF reg, of "sort_key fst rows @ new" "ml_target c"] ledger(2) t by (simp add: nat_le_iff)
  then show ?thesis by (simp add: checked_def applied_rows_def ledger(1))
qed

definition stored_rows :: "'d migration_db \<Rightarrow> ledger_row list" where
  "stored_rows db = (case md_ledger db of None \<Rightarrow> [] | Some rows \<Rightarrow> rows)"

definition upgraded :: "'d sql \<Rightarrow> migration_call \<Rightarrow> 'd migration_db \<Rightarrow> 'd migration_db \<Rightarrow> migration_report \<Rightarrow> bool" where
  "upgraded sql c db db' report \<longleftrightarrow> (let old = stored_rows db; k = length old in recognised c old k
     \<and> (\<exists>new tables. ledger_of (planned_upgrade c k) = Inr new \<and> run_all sql (planned_upgrade c k) (md_tables db) = Some tables
          \<and> db' = \<lparr>md_ledger = Some (old @ new), md_tables = tables\<rparr>)
     \<and> report = \<lparr>mr_start = int k, mr_end = ml_target c, mr_applied = map int [k + 1..<nat (ml_target c) + 1],
         mr_backup = migration_backup_guidance (int k) (ml_target c)\<rparr>)"

text \<open>
  A call that nobody disturbs always returns, and it succeeds exactly when the ledger, read in the order of
  its versions, lists a first part of the registry with the same names and checksums, no longer than the
  target, and the statements of the remaining migrations up to the target run. Then exactly these were run,
  in order, and recorded, and the report names them.
\<close>
theorem migration_exact:
  assumes reg: "validate_registry (ml_migrations c) = Inr ()"
    and t: "0 \<le> ml_target c" "ml_target c \<le> int (length (ml_migrations c))"
  shows "\<exists>db' r. apply_experiment_migrations sql c True db = (db', Some r)
    \<and> (\<forall>report. r = Inr report \<longleftrightarrow> upgraded sql c db db' report)"
proof -
  define old where "old = stored_rows db"
  let ?db = "db\<lparr>md_ledger := Some old\<rparr>" and ?k = "length old" and ?n = "length (ml_migrations c)"
  have boot: "bootstrap db = ?db" by (cases db) (auto simp: bootstrap_def old_def stored_rows_def split: option.splits)
  have opened: "begin_migrations c True = Bootstrapping" using reg t by (simp add: begin_migrations_def raise_if_def)
  obtain stage where plan: "migration_step sql c True (?db, Planning) = (?db, stage)" by simp
  note planned = planning_recognises [OF reg t _ plan, of old]
  have run: "migration_alone (?n + 3) sql c (db, Bootstrapping) = migration_alone (?n + 1) sql c (?db, stage)"
    using plan by (simp add: boot numeral_3_eq_3 del: migration_step.simps(2))
  show ?thesis
  proof (cases "recognised c old ?k")
    case False
    with planned obtain e where "stage = Finished (Inl e)" by auto
    with False run show ?thesis
      by (auto simp: apply_experiment_migrations_def opened upgraded_def Let_def old_def)
  next
    case True
    let ?todo = "planned_upgrade c ?k"
    have stage: "stage = next_stage (int ?k) ?todo []" using planned True by simp
    have ledger: "md_ledger ?db = Some old" and tables: "md_tables ?db = md_tables db" by simp_all
    note applied = alone_applies [OF ledger upgrade_versions(1) [OF reg t(2) True], of sql c "int ?k" "[]",
        unfolded tables append_Nil, folded stage]
    obtain db' r where all: "migration_alone (Suc (length ?todo)) sql c (?db, stage) = (db', Finished r)"
      and ok: "\<forall>report. r = Inr report \<longrightarrow> (\<exists>tables new. run_all sql ?todo (md_tables db) = Some tables \<and> ledger_of ?todo = Inr new
         \<and> db' = \<lparr>md_ledger = Some (old @ new), md_tables = tables\<rparr>)"
      and done': "\<forall>tables new. run_all sql ?todo (md_tables db) = Some tables \<and> ledger_of ?todo = Inr new
         \<longrightarrow> r = checked c (int ?k) (map mg_version ?todo) db' \<and> db' = \<lparr>md_ledger = Some (old @ new), md_tables = tables\<rparr>"
      using applied by (elim exE conjE) (rule that)
    have "length ?todo \<le> ?n" by (simp add: planned_upgrade_def)
    then have "migration_alone (?n + 1) sql c (?db, stage) = (db', Finished r)"
      using alone_more [OF all, of "?n - length ?todo"] by simp
    then have call: "apply_experiment_migrations sql c True db = (db', Some r)"
      using run by (simp add: apply_experiment_migrations_def opened)
    define report where "report = \<lparr>mr_start = int ?k, mr_end = ml_target c, mr_applied = map int [?k + 1..<nat (ml_target c) + 1],
        mr_backup = migration_backup_guidance (int ?k) (ml_target c)\<rparr>"
    have finished: "r = Inr report \<and> db' = \<lparr>md_ledger = Some (old @ new), md_tables = tables\<rparr>"
      if "run_all sql ?todo (md_tables db) = Some tables" "ledger_of ?todo = Inr new" for tables new
      using done' that upgraded_check [OF reg t True that(2)] upgrade_versions(2) [OF reg t(2) True]
      by (simp add: report_def del: upt_Suc)
    have "r = Inr x \<longleftrightarrow> upgraded sql c db db' x" for x
    proof
      assume r: "r = Inr x"
      from mp [OF spec [OF ok] r] obtain tables new where
        n: "run_all sql ?todo (md_tables db) = Some tables" "ledger_of ?todo = Inr new"
        by (elim exE conjE)
      from finished [OF n] r n True show "upgraded sql c db db' x"
        by (simp add: upgraded_def Let_def old_def [symmetric] report_def)
    next
      assume "upgraded sql c db db' x"
      then obtain tables new where n: "run_all sql ?todo (md_tables db) = Some tables" "ledger_of ?todo = Inr new" "x = report"
        by (auto simp: upgraded_def Let_def old_def [symmetric] report_def)
      from finished [OF n(1,2)] n(3) show "r = Inr x" by simp
    qed
    with call show ?thesis by blast
  qed
qed

section \<open>Two processes that open one new database\<close>

text \<open>
  A migration that another process applied since the ledger was read fails and is rolled back, although the
  database is where the call wanted it.
\<close>

lemma late_migration_refused:
  assumes "validate_registry ms = Inr ()" and "migrated sql ms d0 k db" and "i < k"
  shows "\<exists>e. migrate_one sql ok (ms ! i) db = (db, Inl e)"
proof -
  obtain db' r where run: "migrate_one sql ok (ms ! i) db = (db', r)" by fastforce
  have "i < length ms" using assms(2,3) by (simp add: migrated_def)
  from migrate_one_cases [OF assms(1,2) _ this run] assms(3) run show ?thesis by (cases r) auto
qed

text \<open>Statements that add a name to the tables and refuse one that is there, as \<open>CREATE TABLE\<close> does.\<close>

definition create_table :: "pystr list sql" where
  "create_table s d = (if s \<in> set d then None else Some (d @ [s]))"

definition two_migrations :: "migration list" where
  "two_migrations = [\<lparr>mg_version = 1, mg_name = lit ''runs'', mg_statements = [lit ''inputs'', lit ''runs'']\<rparr>,
     \<lparr>mg_version = 2, mg_name = lit ''leases'', mg_statements = [lit ''leases'']\<rparr>]"

definition opened_twice :: "migration_event list" where
  "opened_twice = [OpenDatabase \<lparr>ml_target = 2, ml_migrations = two_migrations\<rparr> True,
     OpenDatabase \<lparr>ml_target = 1, ml_migrations = take 1 two_migrations\<rparr> True,
     Advance 0 True, Advance 1 True, Advance 1 True, Advance 0 True, Advance 1 True, Advance 0 True]"

lemma checksums_exist: "\<exists>a b. map migration_checksum two_migrations = [Inr a, Inr b]"
proof -
  have "list_all (\<lambda>m. case py_str_int (mg_version m) of None \<Rightarrow> False
      | Some v \<Rightarrow> encode_utf8 (join_text [0x0A] (v # mg_name m # mg_statements m)) \<noteq> None) two_migrations" by code_simp
  then show ?thesis by (auto simp: two_migrations_def migration_checksum_def split: option.splits)
qed

text \<open>The old build, which read the ledger first, applies the first migration; the new build then fails.\<close>

lemma second_opener_fails:
  "md_tables (my_db (migration_run create_table [] opened_twice)) = [lit ''inputs'', lit ''runs'']
   \<and> map snd (my_calls (migration_run create_table [] opened_twice))
     = [Finished (Inl (Migration ''migration failed and was rolled back'')), Checking 0 [1]]"
proof -
  obtain a b where "map migration_checksum two_migrations = [Inr a, Inr b]"
    using checksums_exist by (elim exE) (rule that)
  then have c: "migration_checksum \<lparr>mg_version = 1, mg_name = lit ''runs'', mg_statements = [lit ''inputs'', lit ''runs'']\<rparr> = Inr a"
    by (simp add: two_migrations_def)
  have reg: "validate_registry two_migrations = Inr ()" "validate_registry (take 1 two_migrations) = Inr ()" by code_simp+
  have distinct: "lit ''inputs'' \<noteq> lit ''runs''" by code_simp
  show ?thesis
    using c reg distinct
    by (simp add: migration_run_def opened_twice_def begin_migrations_def two_migrations_def bootstrap_def applied_rows_def
        validate_applied_def next_stage_def migrate_one_def create_table_def raise_if_def Let_def)
qed

end
