(* ===== verification/GraphSchema.thy ===== *)
theory GraphSchema
  imports GraphRemap "HOL-Library.Product_Lexorder"
begin

text \<open>
  \<open>graph/schema.py\<close>: the component graph, its nodes, edges and mutation constraints, what each constructor
  refuses, and \<open>ComponentGraph.build\<close>, which puts the records in canonical order. The lemmas show what a
  constructed graph guarantees and that its order does not depend on the order of the inputs.
\<close>

datatype graph_error = GraphValue string | GraphUnprintable

datatype graph_primitive = PStr pystr | PInt int | PFloat nat | PBool bool | PNone

datatype edge_kind = PARENT | CHILD | CONSUMES | PRODUCES | COUPLED | CONSTRAINED

fun edge_value :: "edge_kind \<Rightarrow> pystr" where
  "edge_value PARENT = lit ''parent''"
| "edge_value CHILD = lit ''child''"
| "edge_value CONSUMES = lit ''consumes''"
| "edge_value PRODUCES = lit ''produces''"
| "edge_value COUPLED = lit ''coupled''"
| "edge_value CONSTRAINED = lit ''constrained''"

datatype constraint_kind = GROUPED_MUTATION | SAME_HIDDEN_SIZE | SAME_HEAD_SET | SHAPE_EQUALITY | CUSTOM

fun constraint_value :: "constraint_kind \<Rightarrow> pystr" where
  "constraint_value GROUPED_MUTATION = lit ''grouped_mutation''"
| "constraint_value SAME_HIDDEN_SIZE = lit ''same_hidden_size''"
| "constraint_value SAME_HEAD_SET = lit ''same_head_set''"
| "constraint_value SHAPE_EQUALITY = lit ''shape_equality''"
| "constraint_value CUSTOM = lit ''custom''"

definition GRAPH_SCHEMA_VERSION :: int where
  "GRAPH_SCHEMA_VERSION = 1"

definition EDGE_SEMANTICS_VERSION :: int where
  "EDGE_SEMANTICS_VERSION = 1"

definition CONSTRAINT_SCHEMA_VERSION :: int where
  "CONSTRAINT_SCHEMA_VERSION = 1"

type_synonym attributes = "(pystr \<times> graph_primitive) list"

definition validate_attributes :: "attributes \<Rightarrow> graph_error + unit" where
  "validate_attributes attrs =
     rbind (raise_if (list_ex (\<lambda>k. k = []) (map fst attrs))
              (GraphValue ''attribute keys must be non-empty'')) (\<lambda>_.
     raise_if (\<not> distinct (map fst attrs)) (GraphValue ''attribute keys must be unique''))"

section \<open>Order of identifiers\<close>

text \<open>\<open>str(i)\<close>, \<open>i < j\<close> and \<open>sorted\<close> over identifiers, with the error of this module.\<close>

definition graph_id_text :: "component_id \<Rightarrow> graph_error + pystr" where
  "graph_id_text i = except (component_id_str i) (\<lambda>_. GraphUnprintable)"

definition id_less :: "component_id \<Rightarrow> component_id \<Rightarrow> graph_error + bool" where
  "id_less i j = rbind (graph_id_text i) (\<lambda>s. rbind (graph_id_text j) (\<lambda>t. Inr (s < t)))"

definition sorted_ids :: "('a \<Rightarrow> component_id) \<Rightarrow> 'a list \<Rightarrow> graph_error + 'a list" where
  "sorted_ids f xs = except (sorted_by_id f xs) (\<lambda>_. GraphUnprintable)"

section \<open>Nodes, edges and constraints\<close>

record graph_node =
  gn_id :: component_id
  gn_kind :: pystr
  gn_attributes :: attributes

definition graph_node_init :: "graph_node \<Rightarrow> graph_error + graph_node" where
  "graph_node_init n =
     rbind (raise_if (gn_kind n = []) (GraphValue ''node kind must be non-empty'')) (\<lambda>_.
     rbind (validate_attributes (gn_attributes n)) (\<lambda>_.
     Inr n))"

fun primitive_json :: "graph_primitive \<Rightarrow> json" where
  "primitive_json (PStr s) = JStr s"
| "primitive_json (PInt i) = JInt i"
| "primitive_json (PFloat f) = JFloat f"
| "primitive_json (PBool b) = JBool b"
| "primitive_json PNone = JNull"

definition attributes_json :: "attributes \<Rightarrow> json" where
  "attributes_json attrs = JObj (map (\<lambda>(k, v). (k, primitive_json v)) attrs)"

definition node_record :: "graph_node \<Rightarrow> graph_error + json" where
  "node_record n =
     rbind (graph_id_text (gn_id n)) (\<lambda>i.
     Inr (JObj [(lit ''component_id'', JStr i), (lit ''kind'', JStr (gn_kind n)),
                (lit ''attributes'', attributes_json (gn_attributes n))]))"

record graph_edge =
  ge_source :: component_id
  ge_target :: component_id
  ge_kind :: edge_kind
  ge_version :: int
  ge_attributes :: attributes

definition parent_of :: "component_id \<Rightarrow> graph_error + component_id option" where
  "parent_of i = except (parent i) (\<lambda>_. GraphValue ''a component ID must use the model root'')"

definition graph_edge_init :: "graph_edge \<Rightarrow> graph_error + graph_edge" where
  "graph_edge_init e =
     rbind (raise_if (ge_version e \<noteq> EDGE_SEMANTICS_VERSION)
              (GraphValue ''unsupported edge semantics version'')) (\<lambda>_.
     rbind (raise_if (ge_source e = ge_target e)
              (GraphValue ''graph edges cannot be self-referential'')) (\<lambda>_.
     rbind (if ge_kind e = PARENT
            then rbind (parent_of (ge_source e)) (\<lambda>p. raise_if (p \<noteq> Some (ge_target e))
                   (GraphValue ''parent edge target must be the canonical parent''))
            else Inr ()) (\<lambda>_.
     rbind (if ge_kind e = CHILD
            then rbind (parent_of (ge_target e)) (\<lambda>p. raise_if (p \<noteq> Some (ge_source e))
                   (GraphValue ''child edge target must be a canonical child''))
            else Inr ()) (\<lambda>_.
     rbind (if ge_kind e = COUPLED
            then rbind (id_less (ge_target e) (ge_source e)) (\<lambda>b. raise_if b
                   (GraphValue ''coupled edges must use canonical endpoint ordering''))
            else Inr ()) (\<lambda>_.
     rbind (validate_attributes (ge_attributes e)) (\<lambda>_.
     Inr e))))))"

definition edge_record :: "graph_edge \<Rightarrow> graph_error + json" where
  "edge_record e =
     rbind (graph_id_text (ge_source e)) (\<lambda>s.
     rbind (graph_id_text (ge_target e)) (\<lambda>t.
     Inr (JObj [(lit ''source'', JStr s), (lit ''target'', JStr t),
                (lit ''kind'', JStr (edge_value (ge_kind e))),
                (lit ''semantics_version'', JInt (ge_version e)),
                (lit ''attributes'', attributes_json (ge_attributes e))])))"

record mutation_constraint =
  mc_id :: pystr
  mc_kind :: constraint_kind
  mc_members :: "component_id list"
  mc_version :: int
  mc_parameters :: attributes

definition mutation_constraint_init :: "mutation_constraint \<Rightarrow> graph_error + mutation_constraint" where
  "mutation_constraint_init c =
     rbind (raise_if (mc_id c = []) (GraphValue ''constraint_id must be non-empty'')) (\<lambda>_.
     rbind (raise_if (mc_version c \<noteq> CONSTRAINT_SCHEMA_VERSION)
              (GraphValue ''unsupported constraint schema version'')) (\<lambda>_.
     rbind (raise_if (mc_members c = [])
              (GraphValue ''mutation constraints require at least one member'')) (\<lambda>_.
     rbind (raise_if (\<not> distinct (mc_members c))
              (GraphValue ''mutation constraint members must be unique'')) (\<lambda>_.
     rbind (sorted_ids (\<lambda>m. m) (mc_members c)) (\<lambda>canonical.
     rbind (raise_if (canonical \<noteq> mc_members c)
              (GraphValue ''mutation constraint members must use canonical ordering'')) (\<lambda>_.
     rbind (validate_attributes (mc_parameters c)) (\<lambda>_.
     Inr c)))))))"

definition constraint_record :: "mutation_constraint \<Rightarrow> graph_error + json" where
  "constraint_record c =
     rbind (mapM_r graph_id_text (mc_members c)) (\<lambda>members.
     Inr (JObj [(lit ''constraint_id'', JStr (mc_id c)), (lit ''kind'', JStr (constraint_value (mc_kind c))),
                (lit ''members'', JList (map JStr members)),
                (lit ''schema_version'', JInt (mc_version c)),
                (lit ''parameters'', attributes_json (mc_parameters c))]))"

section \<open>Graphs\<close>

record component_graph =
  cg_nodes :: "graph_node list"
  cg_edges :: "graph_edge list"
  cg_constraints :: "mutation_constraint list"
  cg_version :: int

definition edge_key :: "graph_edge \<Rightarrow> edge_kind \<times> component_id \<times> component_id" where
  "edge_key e = (ge_kind e, ge_source e, ge_target e)"

text \<open>\<open>dict(edge.attributes).get("constraint_id") in known\<close>.\<close>

definition edge_constraint :: "graph_edge \<Rightarrow> graph_primitive" where
  "edge_constraint e = (case map_of (rev (ge_attributes e)) (lit ''constraint_id'') of
     Some v \<Rightarrow> v | None \<Rightarrow> PNone)"

definition component_graph_init :: "component_graph \<Rightarrow> graph_error + component_graph" where
  "component_graph_init g =
     (let node_ids = map gn_id (cg_nodes g); constraint_ids = map mc_id (cg_constraints g) in
      rbind (raise_if (cg_version g \<noteq> GRAPH_SCHEMA_VERSION)
               (GraphValue ''unsupported graph schema version'')) (\<lambda>_.
      rbind (raise_if (\<not> distinct node_ids)
               (GraphValue ''graph node component IDs must be unique'')) (\<lambda>_.
      rbind (raise_if (\<not> distinct (map edge_key (cg_edges g)))
               (GraphValue ''graph edges must be unique by kind and endpoints'')) (\<lambda>_.
      rbind (raise_if (list_ex (\<lambda>e. ge_source e \<notin> set node_ids \<or> ge_target e \<notin> set node_ids) (cg_edges g))
               (GraphValue ''graph edge endpoints must reference existing nodes'')) (\<lambda>_.
      rbind (raise_if (\<not> distinct constraint_ids) (GraphValue ''constraint IDs must be unique'')) (\<lambda>_.
      rbind (raise_if (list_ex (\<lambda>c. list_ex (\<lambda>m. m \<notin> set node_ids) (mc_members c)) (cg_constraints g))
               (GraphValue ''constraint members must reference existing nodes'')) (\<lambda>_.
      rbind (raise_if (list_ex (\<lambda>e. ge_kind e = CONSTRAINED
                 \<and> edge_constraint e \<notin> set (map PStr constraint_ids)) (cg_edges g))
               (GraphValue ''constrained edges require an existing string constraint_id attribute'')) (\<lambda>_.
      Inr g))))))))"

text \<open>
  Edges sort by the tuple of kind, source and target. A tuple comparison reaches an identifier only
  where the tuples first differ; sorting compares neighbours of the final order, so it raises exactly
  when two edges first differ at an identifier one of which cannot be printed.
\<close>

definition edge_sort_key :: "graph_edge \<Rightarrow> pystr \<times> pystr \<times> pystr" where
  "edge_sort_key e = (edge_value (ge_kind e), id_key (ge_source e), id_key (ge_target e))"

definition comparable_edges :: "graph_edge \<Rightarrow> graph_edge \<Rightarrow> bool" where
  "comparable_edges e f \<longleftrightarrow>
     (if ge_kind e \<noteq> ge_kind f then True
      else if ge_source e \<noteq> ge_source f then printable (ge_source e) \<and> printable (ge_source f)
      else if ge_target e \<noteq> ge_target f then printable (ge_target e) \<and> printable (ge_target f)
      else True)"

definition sorted_edges :: "graph_edge list \<Rightarrow> graph_error + graph_edge list" where
  "sorted_edges es =
     rbind (raise_if (\<not> list_all (\<lambda>e. list_all (comparable_edges e) es) es) GraphUnprintable) (\<lambda>_.
     Inr (sort_key edge_sort_key es))"

definition build_graph ::
  "graph_node list \<Rightarrow> graph_edge list \<Rightarrow> mutation_constraint list \<Rightarrow> graph_error + component_graph" where
  "build_graph nodes edges constraints =
     rbind (sorted_ids gn_id nodes) (\<lambda>ns.
     rbind (sorted_edges edges) (\<lambda>es.
     component_graph_init \<lparr>cg_nodes = ns, cg_edges = es,
       cg_constraints = sort_key mc_id constraints, cg_version = GRAPH_SCHEMA_VERSION\<rparr>))"

definition graph_record :: "component_graph \<Rightarrow> graph_error + json" where
  "graph_record g =
     rbind (mapM_r node_record (cg_nodes g)) (\<lambda>ns.
     rbind (mapM_r edge_record (cg_edges g)) (\<lambda>es.
     rbind (mapM_r constraint_record (cg_constraints g)) (\<lambda>cs.
     Inr (JObj [(lit ''schema_version'', JInt (cg_version g)),
                (lit ''edge_semantics_version'', JInt EDGE_SEMANTICS_VERSION),
                (lit ''constraint_schema_version'', JInt CONSTRAINT_SCHEMA_VERSION),
                (lit ''nodes'', JList ns), (lit ''edges'', JList es), (lit ''constraints'', JList cs)]))))"

section \<open>What a success guarantees\<close>

definition attributes_ok :: "attributes \<Rightarrow> bool" where
  "attributes_ok attrs \<longleftrightarrow> [] \<notin> fst ` set attrs \<and> distinct (map fst attrs)"

lemma validate_attributes_Inr [simp]: "validate_attributes attrs = Inr u \<longleftrightarrow> attributes_ok attrs"
  by (auto simp: validate_attributes_def attributes_ok_def rbind_raise_if list_ex_iff image_iff)

lemma sorted_ids_Inr:
  assumes "sorted_ids f xs = Inr ys"
  shows "ys = sort_key (\<lambda>x. id_key (f x)) xs" and "mset ys = mset xs" and "set ys = set xs"
    and "2 \<le> length xs \<Longrightarrow> list_all (\<lambda>x. printable (f x)) xs"
  using assms by (auto simp: sorted_ids_def sorted_by_id_def)

lemma sorted_ids_iff:
  "sorted_ids f xs = Inr ys \<longleftrightarrow> ys = sort_key (\<lambda>x. id_key (f x)) xs
     \<and> (2 \<le> length xs \<longrightarrow> list_all (\<lambda>x. printable (f x)) xs)"
  by (auto simp: sorted_ids_def sorted_by_id_def rbind_raise_if)

lemma sorted_edges_Inr:
  assumes "sorted_edges es = Inr fs"
  shows "fs = sort_key edge_sort_key es" and "mset fs = mset es" and "set fs = set es"
    and "list_all (\<lambda>e. list_all (comparable_edges e) es) es"
proof -
  from assms show "list_all (\<lambda>e. list_all (comparable_edges e) es) es" and fs: "fs = sort_key edge_sort_key es"
    by (auto simp: sorted_edges_def)
  show "mset fs = mset es" "set fs = set es" by (simp_all add: fs)
qed

lemma graph_node_init_Inr:
  "graph_node_init n = Inr m \<longleftrightarrow> m = n \<and> gn_kind n \<noteq> [] \<and> attributes_ok (gn_attributes n)"
  by (auto simp: graph_node_init_def rbind_raise_if rbind_Inr_iff)

lemma graph_edge_init_Inr:
  "graph_edge_init e = Inr f \<longleftrightarrow> f = e \<and> ge_version e = EDGE_SEMANTICS_VERSION
     \<and> ge_source e \<noteq> ge_target e \<and> attributes_ok (ge_attributes e)
     \<and> (ge_kind e = PARENT \<longrightarrow> parent_of (ge_source e) = Inr (Some (ge_target e)))
     \<and> (ge_kind e = CHILD \<longrightarrow> parent_of (ge_target e) = Inr (Some (ge_source e)))
     \<and> (ge_kind e = COUPLED \<longrightarrow> id_less (ge_target e) (ge_source e) = Inr False)"
  by (auto simp: graph_edge_init_def rbind_raise_if rbind_Inr_iff)

lemma mutation_constraint_init_Inr:
  "mutation_constraint_init c = Inr d \<longleftrightarrow> d = c \<and> mc_id c \<noteq> [] \<and> mc_members c \<noteq> []
     \<and> mc_version c = CONSTRAINT_SCHEMA_VERSION \<and> distinct (mc_members c)
     \<and> sorted_ids (\<lambda>m. m) (mc_members c) = Inr (mc_members c) \<and> attributes_ok (mc_parameters c)"
  by (auto simp: mutation_constraint_init_def rbind_raise_if rbind_Inr_iff)

lemma component_graph_init_Inr:
  "component_graph_init g = Inr h \<longleftrightarrow> h = g \<and> cg_version g = GRAPH_SCHEMA_VERSION
     \<and> distinct (map gn_id (cg_nodes g)) \<and> distinct (map edge_key (cg_edges g))
     \<and> ge_source ` set (cg_edges g) \<subseteq> gn_id ` set (cg_nodes g)
     \<and> ge_target ` set (cg_edges g) \<subseteq> gn_id ` set (cg_nodes g)
     \<and> distinct (map mc_id (cg_constraints g))
     \<and> (\<forall>c \<in> set (cg_constraints g). set (mc_members c) \<subseteq> gn_id ` set (cg_nodes g))
     \<and> (\<forall>e \<in> set (cg_edges g). ge_kind e = CONSTRAINED \<longrightarrow>
          edge_constraint e \<in> PStr ` mc_id ` set (cg_constraints g))"
proof -
  have members: "list_ex (\<lambda>c. list_ex (\<lambda>m. m \<notin> N) (mc_members c)) cs
      \<longleftrightarrow> \<not> (\<forall>c \<in> set cs. set (mc_members c) \<subseteq> N)" for N cs
    by (auto simp: list_ex_iff)
  have ends: "list_ex (\<lambda>e. ge_source e \<notin> N \<or> ge_target e \<notin> N) es
      \<longleftrightarrow> \<not> (ge_source ` set es \<subseteq> N \<and> ge_target ` set es \<subseteq> N)" for N es
    by (auto simp: list_ex_iff)
  show ?thesis
    unfolding component_graph_init_def Let_def members ends
    by (simp add: rbind_raise_if list_ex_iff image_image) blast
qed

section \<open>Canonical order\<close>

text \<open>Sorting by a key that tells the elements apart forgets the order of the input.\<close>

lemma sort_key_unique:
  assumes "mset xs = mset ys" and "inj_on k (set xs)"
  shows "sort_key k xs = sort_key k ys"
proof (rule properties_for_sort_key)
  show "mset (sort_key k ys) = mset xs" using assms(1) by simp
  show "sorted (map k (sort_key k ys))" by simp
  have "set ys = set xs" using assms(1) mset_eq_setD by metis
  fix x assume "x \<in> set (sort_key k ys)"
  then have x: "x \<in> set xs" using \<open>set ys = set xs\<close> by simp
  have only: "filter (\<lambda>y. k x = k y) zs = replicate (count (mset zs) x) x" if "set zs = set xs" for zs
  proof -
    have "filter (\<lambda>y. k x = k y) zs = filter (\<lambda>y. y = x) zs"
      using x that assms(2) by (intro filter_cong) (auto dest: inj_onD)
    also have "\<dots> = replicate (count (mset zs) x) x" by (induction zs) auto
    finally show ?thesis .
  qed
  show "filter (\<lambda>y. k x = k y) (sort_key k ys) = filter (\<lambda>y. k x = k y) xs"
    using only [of "sort_key k ys"] only [of xs] \<open>set ys = set xs\<close> assms(1) by simp
qed

lemma edge_value_inject [simp]: "edge_value a = edge_value b \<longleftrightarrow> a = b"
  by (cases a; cases b) (simp_all add: lit_def)

lemma edge_sort_key_inj:
  assumes "list_all (\<lambda>e. list_all (comparable_edges e) es) es" and "distinct (map edge_key es)"
    and "\<forall>e \<in> set es. component_id_ok (ge_source e) \<and> component_id_ok (ge_target e)"
  shows "inj_on edge_sort_key (set es)"
proof (rule inj_onI)
  fix e f assume e: "e \<in> set es" and f: "f \<in> set es" and k: "edge_sort_key e = edge_sort_key f"
  have c: "comparable_edges e f" using assms(1) e f by (auto simp: list_all_iff)
  have kind: "ge_kind e = ge_kind f" using k by (simp add: edge_sort_key_def)
  have source: "ge_source e = ge_source f"
    using c k kind assms(3) e f id_key_inject [of "ge_source e" "ge_source f"]
    by (auto simp: comparable_edges_def edge_sort_key_def split: if_splits)
  have "ge_target e = ge_target f"
    using c k kind source assms(3) e f id_key_inject [of "ge_target e" "ge_target f"]
    by (auto simp: comparable_edges_def edge_sort_key_def split: if_splits)
  then have "edge_key e = edge_key f" using kind source by (simp add: edge_key_def)
  then show "e = f" using assms(2) e f by (auto simp: distinct_map dest: inj_onD)
qed

lemma sorted_ids_unique:
  assumes "sorted_ids f xs = Inr zs" and "mset xs = mset ys" and "distinct (map f xs)"
    and "\<forall>x \<in> set xs. component_id_ok (f x)"
  shows "sorted_ids f ys = Inr zs"
proof -
  have set: "set ys = set xs" using assms(2) mset_eq_setD by metis
  have len: "length ys = length xs" using assms(2) mset_eq_length by metis
  have "sort_key (\<lambda>x. id_key (f x)) xs = sort_key (\<lambda>x. id_key (f x)) ys"
  proof (cases "2 \<le> length xs")
    case True
    then have p: "\<forall>x \<in> set xs. printable (f x)"
      using sorted_ids_Inr(4) [OF assms(1)] by (simp add: list_all_iff)
    have "x = y" if "x \<in> set xs" "y \<in> set xs" "id_key (f x) = id_key (f y)" for x y
      using that p assms(3,4) id_key_inject [of "f x" "f y"] by (auto simp: distinct_map dest: inj_onD)
    then show ?thesis by (intro sort_key_unique [OF assms(2)] inj_onI)
  next
    case False
    then have "xs = ys"
      using assms(2) len by (cases xs; cases ys) (auto simp: not_le less_Suc_eq numeral_2_eq_2)
    then show ?thesis by simp
  qed
  then show ?thesis using assms(1) set len by (simp add: sorted_ids_iff list_all_iff)
qed

lemma distinct_map_mset: "mset xs = mset ys \<Longrightarrow> distinct (map f ys) \<longleftrightarrow> distinct (map f xs)"
  by (rule mset_eq_imp_distinct_iff) simp

lemma build_graph_Inr:
  assumes "build_graph nodes edges constraints = Inr g"
  shows "sorted_ids gn_id nodes = Inr (cg_nodes g)" and "sorted_edges edges = Inr (cg_edges g)"
    and "cg_constraints g = sort_key mc_id constraints" and "component_graph_init g = Inr g"
    and "set (cg_nodes g) = set nodes" and "set (cg_edges g) = set edges"
    and "set (cg_constraints g) = set constraints"
    and "distinct (map gn_id nodes)" and "distinct (map edge_key edges)" and "distinct (map mc_id constraints)"
proof -
  from assms obtain ns es where r: "sorted_ids gn_id nodes = Inr ns" "sorted_edges edges = Inr es"
    and i: "component_graph_init \<lparr>cg_nodes = ns, cg_edges = es,
       cg_constraints = sort_key mc_id constraints, cg_version = GRAPH_SCHEMA_VERSION\<rparr> = Inr g"
    by (auto simp: build_graph_def)
  have g: "g = \<lparr>cg_nodes = ns, cg_edges = es,
       cg_constraints = sort_key mc_id constraints, cg_version = GRAPH_SCHEMA_VERSION\<rparr>"
    using iffD1 [OF component_graph_init_Inr i] by (rule conjunct1)
  show 1: "sorted_ids gn_id nodes = Inr (cg_nodes g)" and 2: "sorted_edges edges = Inr (cg_edges g)"
    and 3: "cg_constraints g = sort_key mc_id constraints" and 4: "component_graph_init g = Inr g"
    using r i by (simp_all add: g)
  have m: "mset (cg_nodes g) = mset nodes" "mset (cg_edges g) = mset edges"
    "mset (cg_constraints g) = mset constraints"
    using sorted_ids_Inr(2) [OF 1] sorted_edges_Inr(2) [OF 2] 3 by simp_all
  then show "set (cg_nodes g) = set nodes" "set (cg_edges g) = set edges"
    "set (cg_constraints g) = set constraints" by (auto dest: mset_eq_setD)
  note d = distinct_map_mset
  show "distinct (map gn_id nodes)" "distinct (map edge_key edges)" "distinct (map mc_id constraints)"
    using 4 by (simp_all add: component_graph_init_Inr d [OF m(1)] d [OF m(2)] d [OF m(3)])
qed

lemma build_permuted:
  assumes "build_graph nodes edges constraints = Inr g"
    and "list_all (\<lambda>n. component_id_ok (gn_id n)) nodes"
    and m: "mset ns = mset nodes" "mset es = mset edges" "mset cs = mset constraints"
  shows "build_graph ns es cs = Inr g"
proof -
  note b = build_graph_Inr [OF assms(1)]
  have "\<forall>n \<in> set nodes. component_id_ok (gn_id n)" using assms(2) by (simp add: list_all_iff)
  with sorted_ids_unique [OF b(1) m(1) [symmetric] b(8)]
  have 1: "sorted_ids gn_id ns = Inr (cg_nodes g)" by simp
  have comparable: "list_all (\<lambda>e. list_all (comparable_edges e) edges) edges"
    and sorted: "cg_edges g = sort_key edge_sort_key edges"
    using sorted_edges_Inr(1,4) [OF b(2)] by simp_all
  have "\<forall>e \<in> set edges. component_id_ok (ge_source e) \<and> component_id_ok (ge_target e)"
    using b(4,5,6) assms(2) by (auto simp: component_graph_init_Inr list_all_iff)
  from sort_key_unique [OF m(2) [symmetric] edge_sort_key_inj [OF comparable b(9) this]]
  have 2: "sorted_edges es = Inr (cg_edges g)"
    using comparable sorted mset_eq_setD [OF m(2)] by (simp add: sorted_edges_def list_all_iff)
  have "inj_on mc_id (set constraints)" using b(10) by (simp add: distinct_map)
  from sort_key_unique [OF m(3) [symmetric] this] have "sort_key mc_id cs = cg_constraints g" using b(3) by simp
  then show ?thesis using 1 2 b(4) by (cases g) (simp add: build_graph_def component_graph_init_Inr)
qed

lemma build_again:
  assumes "build_graph nodes edges constraints = Inr g"
    and "list_all (\<lambda>n. component_id_ok (gn_id n)) nodes"
  shows "build_graph (cg_nodes g) (cg_edges g) (cg_constraints g) = Inr g"
proof -
  note b = build_graph_Inr [OF assms(1)]
  show ?thesis
    by (rule build_permuted [OF assms sorted_ids_Inr(2) [OF b(1)] sorted_edges_Inr(2) [OF b(2)]]) (simp add: b(3))
qed

text \<open>
  Canonical order: building a graph from the same records in any other order gives the same graph,
  and building a built graph again from its own records gives it back.
\<close>
theorem build_canonical:
  assumes "build_graph nodes edges constraints = Inr g"
    and "list_all (\<lambda>n. component_id_ok (gn_id n)) nodes"
    and "mset nodes' = mset nodes" and "mset edges' = mset edges" and "mset constraints' = mset constraints"
  shows "build_graph nodes' edges' constraints' = Inr g
    \<and> build_graph (cg_nodes g) (cg_edges g) (cg_constraints g) = Inr g"
  using build_permuted [OF assms] build_again [OF assms(1,2)] by blast

text \<open>A root with one child, its edges and a constraint.\<close>

definition demo_root :: component_id where
  "demo_root = ComponentId [Name (lit ''model'')]"

definition demo_child :: component_id where
  "demo_child = ComponentId [Name (lit ''model''), Name (lit ''norm'')]"

definition demo_nodes :: "graph_node list" where
  "demo_nodes = [\<lparr>gn_id = demo_child, gn_kind = lit ''norm'', gn_attributes = [(lit ''eps'', PNone)]\<rparr>,
     \<lparr>gn_id = demo_root, gn_kind = lit ''model'', gn_attributes = []\<rparr>]"

definition demo_edges :: "graph_edge list" where
  "demo_edges = [\<lparr>ge_source = demo_child, ge_target = demo_root, ge_kind = PARENT, ge_version = 1,
       ge_attributes = []\<rparr>,
     \<lparr>ge_source = demo_root, ge_target = demo_child, ge_kind = CHILD, ge_version = 1, ge_attributes = []\<rparr>]"

definition demo_constraints :: "mutation_constraint list" where
  "demo_constraints = [\<lparr>mc_id = lit ''c'', mc_kind = CUSTOM, mc_members = [demo_root],
     mc_version = 1, mc_parameters = []\<rparr>]"

definition demo_graph :: component_graph where
  "demo_graph = \<lparr>cg_nodes = rev demo_nodes, cg_edges = rev demo_edges, cg_constraints = demo_constraints,
     cg_version = 1\<rparr>"

lemma demo_build: "build_graph demo_nodes demo_edges demo_constraints = Inr demo_graph"
  by code_simp

theorem build_canonical_witness:
  "build_graph (rev demo_nodes) (rev demo_edges) demo_constraints = Inr demo_graph"
proof -
  have "list_all (\<lambda>n. component_id_ok (gn_id n)) demo_nodes" by code_simp
  from build_canonical [OF demo_build this, of "rev demo_nodes" "rev demo_edges" demo_constraints]
  show ?thesis by simp
qed

end
