(* ===== verification/GraphCycles.thy ===== *)
theory GraphCycles
  imports Prelude
begin

text \<open>
  The search behind \<open>_cycle_nodes\<close> of \<open>graph/validation.py\<close>, over any type of node: the adjacency
  dictionaries, the first depth-first pass with its explicit stack and finish order, and the second pass,
  which collects components backwards along the edges. The locale holds the correctness argument; it
  needs only that the stack order is a permutation of the successors.
\<close>

section \<open>The adjacency dictionaries\<close>

record 'a digraph =
  dg_keys :: "'a list"
  dg_succ :: "'a \<Rightarrow> 'a list"
  dg_pred :: "'a \<Rightarrow> 'a list"

definition add_once :: "'a \<Rightarrow> 'a list \<Rightarrow> 'a list" where
  "add_once x xs = (if x \<in> set xs then xs else xs @ [x])"

definition empty_digraph :: "'a digraph" where
  "empty_digraph = \<lparr>dg_keys = [], dg_succ = (\<lambda>_. []), dg_pred = (\<lambda>_. [])\<rparr>"

definition link :: "'a digraph \<Rightarrow> 'a \<times> 'a \<Rightarrow> 'a digraph" where
  "link g e =
     (let (source, target) = e in
      \<lparr>dg_keys = add_once target (add_once source (dg_keys g)),
       dg_succ = (dg_succ g)(source := add_once target (dg_succ g source)),
       dg_pred = (dg_pred g)(target := add_once source (dg_pred g target))\<rparr>)"

definition digraph_of :: "('a \<times> 'a) list \<Rightarrow> 'a digraph" where
  "digraph_of es = foldl link empty_digraph es"

section \<open>First pass\<close>

definition successors :: "'a digraph \<Rightarrow> ('a list \<Rightarrow> 'a list) \<Rightarrow> 'a \<Rightarrow> 'a list" where
  "successors g ord n = (if n \<in> set (dg_keys g) then ord (dg_succ g n) else [])"

text \<open>The stack has its top first; an entry is a node and whether it is finishing.\<close>

function finish_loop ::
  "'a digraph \<Rightarrow> ('a list \<Rightarrow> 'a list) \<Rightarrow> 'a list \<Rightarrow> 'a list \<Rightarrow> ('a \<times> bool) list \<Rightarrow> 'a list \<times> 'a list" where
  "finish_loop g ord visited finished [] = (visited, finished)"
| "finish_loop g ord visited finished ((n, finishing) # stack) =
     (if finishing then finish_loop g ord visited (finished @ [n]) stack
      else if n \<in> set visited then finish_loop g ord visited finished stack
      else finish_loop g ord (n # visited) finished
             (map (\<lambda>t. (t, False)) (filter (\<lambda>t. t \<notin> set (n # visited)) (successors g ord n))
                @ (n, True) # stack))"
  by pat_completeness auto

text \<open>Every visit shrinks the unvisited keys; otherwise the entries left to pop and finish shrink.\<close>

termination finish_loop
proof (relation "inv_image (finite_psubset <*lex*> less_than)
    (\<lambda>(g, ord, visited, finished, stack). (set (dg_keys g) - set visited,
       sum_list (map (\<lambda>(n, finishing). if finishing then 1 else 2) stack)))", goal_cases)
  case 1
  show ?case by auto
next
  case (2 g ord visited finished n finishing stack)
  then show ?case by (simp add: finite_psubset_def)
next
  case (3 g ord visited finished n finishing stack)
  then show ?case by (simp add: finite_psubset_def)
next
  case (4 g ord visited finished n finishing stack)
  then show ?case
    by (cases "n \<in> set (dg_keys g)") (auto simp: finite_psubset_def successors_def)
qed

definition finish_from ::
  "'a digraph \<Rightarrow> ('a list \<Rightarrow> 'a list) \<Rightarrow> 'a list \<times> 'a list \<Rightarrow> 'a \<Rightarrow> 'a list \<times> 'a list" where
  "finish_from g ord vf start =
     (let (visited, finished) = vf in
      if start \<in> set visited then (visited, finished)
      else finish_loop g ord visited finished [(start, False)])"

definition finish_order :: "'a digraph \<Rightarrow> ('a list \<Rightarrow> 'a list) \<Rightarrow> 'a list" where
  "finish_order g ord = snd (foldl (finish_from g ord) ([], []) (ord (dg_keys g)))"

section \<open>Second pass\<close>

definition predecessors :: "'a digraph \<Rightarrow> 'a \<Rightarrow> 'a list" where
  "predecessors g n = (if n \<in> set (dg_keys g) then dg_pred g n else [])"

text \<open>The flag of the stack entries is not used here.\<close>

function assign_loop :: "'a digraph \<Rightarrow> 'a list \<Rightarrow> 'a list \<Rightarrow> 'a list \<Rightarrow> 'a list \<times> 'a list" where
  "assign_loop g assigned component [] = (assigned, component)"
| "assign_loop g assigned component (n # stack) =
     (if n \<in> set assigned then assign_loop g assigned component stack
      else assign_loop g (n # assigned) (n # component)
             (rev (filter (\<lambda>m. m \<notin> set (n # assigned)) (predecessors g n)) @ stack))"
  by pat_completeness auto

termination assign_loop
proof (relation "inv_image (finite_psubset <*lex*> less_than)
    (\<lambda>(g, assigned, component, stack). (set (dg_keys g) - set assigned, length stack))", goal_cases)
  case 1
  show ?case by auto
next
  case (2 g assigned component n stack)
  then show ?case by (simp add: finite_psubset_def)
next
  case (3 g assigned component n stack)
  then show ?case
    by (cases "n \<in> set (dg_keys g)") (auto simp: finite_psubset_def predecessors_def)
qed

definition collect :: "'a digraph \<Rightarrow> 'a list \<times> 'a list \<Rightarrow> 'a \<Rightarrow> 'a list \<times> 'a list" where
  "collect g am start =
     (let (assigned, members) = am in
      if start \<in> set assigned then (assigned, members)
      else
        let (assigned', component) = assign_loop g assigned [] [start] in
        (assigned',
         if 1 < length component \<or> list_ex (\<lambda>n. n \<in> set (dg_succ g n)) component
         then members @ component else members))"

definition cycle_members :: "'a digraph \<Rightarrow> ('a list \<Rightarrow> 'a list) \<Rightarrow> 'a list" where
  "cycle_members g ord = snd (foldl (collect g) ([], []) (rev (finish_order g ord)))"

section \<open>The dictionaries hold the edges\<close>

lemma set_add_once [simp]: "set (add_once x xs) = insert x (set xs)"
  by (auto simp: add_once_def)

lemma distinct_add_once [simp]: "distinct (add_once x xs) \<longleftrightarrow> distinct xs"
  by (simp add: add_once_def)

definition dg_edges :: "'a digraph \<Rightarrow> ('a \<times> 'a) set" where
  "dg_edges g = {(a, b). a \<in> set (dg_keys g) \<and> b \<in> set (dg_succ g a)}"

lemma link_holds:
  "set (dg_keys (link g (a, b))) = {a, b} \<union> set (dg_keys g)"
  "set (dg_succ (link g (a, b)) n) = {m. n = a \<and> m = b} \<union> set (dg_succ g n)"
  "set (dg_pred (link g (a, b)) n) = {m. n = b \<and> m = a} \<union> set (dg_pred g n)"
  "distinct (dg_keys (link g (a, b))) \<longleftrightarrow> distinct (dg_keys g)"
  by (auto simp: link_def)

lemma digraph_of_snoc: "digraph_of (es @ [e]) = link (digraph_of es) e"
  by (simp add: digraph_of_def)

lemma digraph_of_holds:
  "set (dg_keys (digraph_of es)) = fst ` set es \<union> snd ` set es"
  "set (dg_succ (digraph_of es) n) = {m. (n, m) \<in> set es}"
  "set (dg_pred (digraph_of es) n) = {m. (m, n) \<in> set es}"
  "distinct (dg_keys (digraph_of es))"
proof (induction es rule: rev_induct)
  case Nil
  { case 1 show ?case by (simp add: digraph_of_def empty_digraph_def) }
  { case 2 show ?case by (simp add: digraph_of_def empty_digraph_def) }
  { case 3 show ?case by (simp add: digraph_of_def empty_digraph_def) }
  { case 4 show ?case by (simp add: digraph_of_def empty_digraph_def) }
next
  case (snoc e es)
  obtain a b where e: "e = (a, b)" by (cases e)
  { case 1 show ?case using snoc.IH(1) by (simp add: digraph_of_snoc e link_holds insert_commute) }
  { case 2 show ?case unfolding digraph_of_snoc e link_holds snoc.IH(2) by auto }
  { case 3 show ?case unfolding digraph_of_snoc e link_holds snoc.IH(3) by auto }
  { case 4 show ?case using snoc.IH(4) by (simp add: digraph_of_snoc e link_holds) }
qed

lemma dg_edges_digraph_of: "dg_edges (digraph_of es) = set es"
  unfolding dg_edges_def digraph_of_holds by force

section \<open>The first pass orders components\<close>

text \<open>
  Up to the moment a node \<open>f\<close> finishes, whatever is left unfinished but reachable from a finished node is
  reached through an unfinished node from which \<open>f\<close> is reachable: a node still open on the stack.
\<close>

definition finish_ok :: "('a \<times> 'a) set \<Rightarrow> 'a list \<Rightarrow> bool" where
  "finish_ok E F \<longleftrightarrow> (\<forall>F1 f F2. F = F1 @ f # F2 \<longrightarrow>
     (\<forall>a \<in> set (F1 @ [f]). \<forall>x. x \<notin> set (F1 @ [f]) \<longrightarrow> (a, x) \<in> E\<^sup>* \<longrightarrow>
        (\<exists>h. h \<notin> set (F1 @ [f]) \<and> (a, h) \<in> E\<^sup>* \<and> (h, f) \<in> E\<^sup>*)))"

definition open_nodes :: "('a \<times> bool) list \<Rightarrow> 'a list" where
  "open_nodes S = map fst (filter snd S)"

definition search_inv :: "('a \<times> 'a) set \<Rightarrow> 'a list \<Rightarrow> 'a list \<Rightarrow> ('a \<times> bool) list \<Rightarrow> bool" where
  "search_inv E V F S \<longleftrightarrow>
     set V = set F \<union> set (open_nodes S) \<and> distinct (F @ open_nodes S)
     \<and> (\<forall>f \<in> set F. E `` {f} \<subseteq> set V)
     \<and> (\<forall>S1 n S2. S = S1 @ (n, True) # S2 \<longrightarrow>
          E `` {n} \<subseteq> set V \<union> fst ` set S1 \<and> (\<forall>m \<in> fst ` set S1. (n, m) \<in> E\<^sup>*))
     \<and> finish_ok E F"

lemma search_invI:
  assumes "set V = set F \<union> set (open_nodes S)" and "distinct (F @ open_nodes S)"
    and "\<forall>f \<in> set F. E `` {f} \<subseteq> set V" and "finish_ok E F"
    and "\<And>S1 n S2. S = S1 @ (n, True) # S2 \<Longrightarrow>
      E `` {n} \<subseteq> set V \<union> fst ` set S1 \<and> (\<forall>m \<in> fst ` set S1. (n, m) \<in> E\<^sup>*)"
  shows "search_inv E V F S"
  unfolding search_inv_def using assms by blast

lemma search_invD:
  assumes "search_inv E V F S"
  shows "set V = set F \<union> set (open_nodes S)" and "distinct (F @ open_nodes S)"
    and "\<forall>f \<in> set F. E `` {f} \<subseteq> set V" and "finish_ok E F"
    and "S = S1 @ (n, True) # S2 \<Longrightarrow> E `` {n} \<subseteq> set V \<union> fst ` set S1"
    and "S = S1 @ (n, True) # S2 \<Longrightarrow> m \<in> fst ` set S1 \<Longrightarrow> (n, m) \<in> E\<^sup>*"
proof -
  note D = assms [unfolded search_inv_def]
  show "set V = set F \<union> set (open_nodes S)" by (rule D [THEN conjunct1])
  show "distinct (F @ open_nodes S)" by (rule D [THEN conjunct2, THEN conjunct1])
  show "\<forall>f \<in> set F. E `` {f} \<subseteq> set V" by (rule D [THEN conjunct2, THEN conjunct2, THEN conjunct1])
  show "finish_ok E F" using D by (elim conjE)
  have "\<forall>S1 n S2. S = S1 @ (n, True) # S2 \<longrightarrow>
      E `` {n} \<subseteq> set V \<union> fst ` set S1 \<and> (\<forall>m \<in> fst ` set S1. (n, m) \<in> E\<^sup>*)"
    using D by (elim conjE)
  note split = this [rule_format]
  show "S = S1 @ (n, True) # S2 \<Longrightarrow> E `` {n} \<subseteq> set V \<union> fst ` set S1"
    by (drule split) (elim conjE)
  show "S = S1 @ (n, True) # S2 \<Longrightarrow> m \<in> fst ` set S1 \<Longrightarrow> (n, m) \<in> E\<^sup>*"
    by (drule split) (elim conjE bspec)
qed

lemma rtrancl_leaves:
  assumes "(a, x) \<in> E\<^sup>*" and "a \<in> A" and "x \<notin> A"
  obtains c h where "c \<in> A" and "h \<notin> A" and "(a, c) \<in> E\<^sup>*" and "(c, h) \<in> E"
proof -
  have "\<exists>c h. c \<in> A \<and> h \<notin> A \<and> (a, c) \<in> E\<^sup>* \<and> (c, h) \<in> E"
    using assms(1,3)
  proof (induction rule: rtrancl_induct)
    case base
    then show ?case using assms(2) by simp
  next
    case (step y z)
    then show ?case by (cases "y \<in> A") auto
  qed
  then show ?thesis using that by blast
qed

lemma open_nodes_simps [simp]:
  "open_nodes [] = []" "open_nodes ((n, True) # S) = n # open_nodes S"
  "open_nodes ((n, False) # S) = open_nodes S"
  "open_nodes (S @ T) = open_nodes S @ open_nodes T"
  "open_nodes (map (\<lambda>t. (t, False)) ts) = []"
  by (simp_all add: open_nodes_def comp_def)

lemma open_nodes_split: "n \<in> set (open_nodes S) \<Longrightarrow> \<exists>S1 S2. S = S1 @ (n, True) # S2"
  by (auto simp: open_nodes_def intro: split_list)

lemma finish_ok_snoc:
  assumes "finish_ok E F"
    and "\<And>a x. a \<in> set (F @ [n]) \<Longrightarrow> x \<notin> set (F @ [n]) \<Longrightarrow> (a, x) \<in> E\<^sup>*
      \<Longrightarrow> \<exists>h. h \<notin> set (F @ [n]) \<and> (a, h) \<in> E\<^sup>* \<and> (h, n) \<in> E\<^sup>*"
  shows "finish_ok E (F @ [n])"
  unfolding finish_ok_def
proof (intro allI impI)
  fix F1 f F2 assume eq: "F @ [n] = F1 @ f # F2"
  show "\<forall>a \<in> set (F1 @ [f]). \<forall>x. x \<notin> set (F1 @ [f]) \<longrightarrow> (a, x) \<in> E\<^sup>* \<longrightarrow>
        (\<exists>h. h \<notin> set (F1 @ [f]) \<and> (a, h) \<in> E\<^sup>* \<and> (h, f) \<in> E\<^sup>*)"
  proof (cases F2 rule: rev_cases)
    case Nil
    then have "F1 = F" "f = n" using eq by auto
    then show ?thesis using assms(2) by blast
  next
    case (snoc F3 m)
    then have "F = F1 @ f # F3" using eq by auto
    then show ?thesis using assms(1) unfolding finish_ok_def by blast
  qed
qed

lemma search_inv_finish:
  assumes inv: "search_inv E V F ((n, True) # S)"
  shows "search_inv E V (F @ [n]) S"
proof (rule search_invI)
  note D = search_invD [OF inv]
  have n: "E `` {n} \<subseteq> set V" using D(5) [of "[]" n S] by simp
  show V: "set V = set (F @ [n]) \<union> set (open_nodes S)" "distinct ((F @ [n]) @ open_nodes S)"
    using D(1,2) by auto
  show "\<forall>f \<in> set (F @ [n]). E `` {f} \<subseteq> set V" using D(3) n by simp
  show "finish_ok E (F @ [n])"
  proof (rule finish_ok_snoc [OF D(4)])
    fix a x assume a: "a \<in> set (F @ [n])" and x: "x \<notin> set (F @ [n])" and ax: "(a, x) \<in> E\<^sup>*"
    obtain c h where h: "c \<in> set (F @ [n])" "h \<notin> set (F @ [n])" "(a, c) \<in> E\<^sup>*" "(c, h) \<in> E"
      by (rule rtrancl_leaves [OF ax a x])
    have "h \<in> set V" using h(1,4) D(3) n by auto
    then have "h \<in> set (open_nodes S)" using V(1) h(2) by auto
    from open_nodes_split [OF this] obtain S1 S2 where "S = S1 @ (h, True) # S2" by (elim exE)
    then have "(h, n) \<in> E\<^sup>*" using D(6) [of "(n, True) # S1" h S2 n] by simp
    moreover have "(a, h) \<in> E\<^sup>*" using h(3,4) by (rule rtrancl_into_rtrancl)
    ultimately show "\<exists>h. h \<notin> set (F @ [n]) \<and> (a, h) \<in> E\<^sup>* \<and> (h, n) \<in> E\<^sup>*" using h(2) by blast
  qed
  fix S1 m S2 assume S: "S = S1 @ (m, True) # S2"
  have "n \<in> set V" using V(1) by simp
  then show "E `` {m} \<subseteq> set V \<union> fst ` set S1 \<and> (\<forall>k \<in> fst ` set S1. (m, k) \<in> E\<^sup>*)"
    using D(5,6) [of "(n, True) # S1" m S2] S by (auto simp: insert_absorb)
qed

lemma search_inv_skip:
  assumes inv: "search_inv E V F ((n, False) # S)" and "n \<in> set V"
  shows "search_inv E V F S"
proof (rule search_invI)
  note D = search_invD [OF inv]
  show "set V = set F \<union> set (open_nodes S)" "distinct (F @ open_nodes S)"
    "\<forall>f \<in> set F. E `` {f} \<subseteq> set V" "finish_ok E F"
    using D(1-4) by simp_all
  fix S1 m S2 assume "S = S1 @ (m, True) # S2"
  then show "E `` {m} \<subseteq> set V \<union> fst ` set S1 \<and> (\<forall>k \<in> fst ` set S1. (m, k) \<in> E\<^sup>*)"
    using D(5,6) [of "(n, False) # S1" m S2] assms(2) by auto
qed

lemma search_inv_visit:
  assumes inv: "search_inv E V F ((n, False) # S)" and "n \<notin> set V" and "set ts = E `` {n} - set (n # V)"
  shows "search_inv E (n # V) F (map (\<lambda>t. (t, False)) ts @ (n, True) # S)"
proof (rule search_invI)
  let ?T = "map (\<lambda>t. (t, False)) ts"
  note D = search_invD [OF inv]
  show "set (n # V) = set F \<union> set (open_nodes (?T @ (n, True) # S))"
    "distinct (F @ open_nodes (?T @ (n, True) # S))"
    using D(1,2) assms(2) by auto
  show "\<forall>f \<in> set F. E `` {f} \<subseteq> set (n # V)" "finish_ok E F" using D(3,4) by auto
  have T: "fst ` set ?T = set ts" by force
  fix S1 m S2 assume S: "?T @ (n, True) # S = S1 @ (m, True) # S2"
  from S obtain us where us: "?T = S1 @ us \<and> us @ (n, True) # S = (m, True) # S2
      \<or> ?T @ us = S1 \<and> (n, True) # S = us @ (m, True) # S2"
    by (auto simp: append_eq_append_conv2)
  have notin: "(m, True) \<notin> set ?T" by auto
  have "S1 = ?T \<and> m = n \<or> (\<exists>U. S1 = ?T @ (n, True) # U \<and> S = U @ (m, True) # S2)"
  proof (cases us)
    case Nil
    then show ?thesis using us by auto
  next
    case (Cons u vs)
    then have "S1 @ us = ?T \<Longrightarrow> (m, True) \<in> set ?T" if "us @ (n, True) # S = (m, True) # S2"
      using that by (metis append_Cons in_set_conv_decomp list.inject)
    then show ?thesis using us notin Cons by auto
  qed
  then consider (top) "S1 = ?T" "m = n" | (deep) U where "S1 = ?T @ (n, True) # U" "S = U @ (m, True) # S2"
    by blast
  then show "E `` {m} \<subseteq> set (n # V) \<union> fst ` set S1 \<and> (\<forall>k \<in> fst ` set S1. (m, k) \<in> E\<^sup>*)"
  proof cases
    case top
    then show ?thesis using assms(3) T by auto
  next
    case deep
    have m: "E `` {m} \<subseteq> set V \<union> insert n (fst ` set U)" "\<forall>k \<in> insert n (fst ` set U). (m, k) \<in> E\<^sup>*"
      using D(5,6) [of "(n, False) # U" m S2] deep(2) by auto
    have "(m, t) \<in> E\<^sup>*" if "t \<in> set ts" for t
      using m(2) assms(3) that by (auto intro: rtrancl_into_rtrancl)
    then show ?thesis using m T deep(1) by auto
  qed
qed

lemma finish_loop_inv:
  assumes "search_inv E V F S" and "finish_loop g ord V F S = (V', F')" and "set V \<union> fst ` set S \<subseteq> K"
    and "\<And>n. set (successors g ord n) = E `` {n}" and "\<And>n. n \<in> K \<Longrightarrow> E `` {n} \<subseteq> K"
  shows "search_inv E V' F' []" and "set V \<union> fst ` set S \<subseteq> set V'" and "set V' \<subseteq> K"
proof -
  have "search_inv E V' F' [] \<and> set V \<union> fst ` set S \<subseteq> set V' \<and> set V' \<subseteq> K"
    using assms
  proof (induction g ord V F S rule: finish_loop.induct)
    case (1 g ord V F)
    then show ?case by simp
  next
    case (2 g ord V F n finishing S)
    let ?ts = "filter (\<lambda>t. t \<notin> set (n # V)) (successors g ord n)"
    note succ = "2.prems"(4,5)
    consider (finishing) finishing | (visited) "\<not> finishing" "n \<in> set V" | (new) "\<not> finishing" "n \<notin> set V"
      by blast
    then show ?case
    proof cases
      case finishing
      have inv: "search_inv E V F ((n, True) # S)" using "2.prems"(1) finishing by simp
      have "n \<in> set V" using search_invD(1) [OF inv] by simp
      moreover have "search_inv E V' F' [] \<and> set V \<union> fst ` set S \<subseteq> set V' \<and> set V' \<subseteq> K"
        by (rule "2.IH"(1) [OF finishing search_inv_finish [OF inv] _ _ succ])
          (use "2.prems"(2,3) finishing in auto)
      ultimately show ?thesis by auto
    next
      case visited
      have inv: "search_inv E V F ((n, False) # S)" using "2.prems"(1) visited by simp
      have "search_inv E V' F' [] \<and> set V \<union> fst ` set S \<subseteq> set V' \<and> set V' \<subseteq> K"
        by (rule "2.IH"(2) [OF visited search_inv_skip [OF inv visited(2)] _ _ succ])
          (use "2.prems"(2,3) visited in auto)
      then show ?thesis using visited(2) by auto
    next
      case new
      have inv: "search_inv E V F ((n, False) # S)" using "2.prems"(1) new by simp
      have ts: "set ?ts = E `` {n} - set (n # V)" using succ(1) by auto
      have "n \<in> K" using "2.prems"(3) by simp
      with succ(2) ts have "set ?ts \<subseteq> K" by auto
      then have "search_inv E V' F' [] \<and> set (n # V) \<union> fst ` set (map (\<lambda>t. (t, False)) ?ts @ (n, True) # S) \<subseteq> set V'
          \<and> set V' \<subseteq> K"
        by (intro "2.IH"(3) [OF new search_inv_visit [OF inv new(2) ts] _ _ succ])
          (use "2.prems"(2,3) new in auto)
      then show ?thesis by auto
    qed
  qed
  then show "search_inv E V' F' []" "set V \<union> fst ` set S \<subseteq> set V'" "set V' \<subseteq> K" by auto
qed

text \<open>The component collected so far reaches \<open>s\<close>, and its predecessors are accounted for.\<close>

definition assign_inv :: "('a \<times> 'a) set \<Rightarrow> 'a \<Rightarrow> 'a set \<Rightarrow> 'a list \<Rightarrow> 'a list \<Rightarrow> 'a list \<Rightarrow> bool" where
  "assign_inv E s A0 A C S \<longleftrightarrow>
     set A = A0 \<union> set C \<and> set C \<inter> A0 = {} \<and> distinct C \<and> set C \<union> set S \<subseteq> {c. (c, s) \<in> E\<^sup>*}
     \<and> E\<inverse> `` set C \<subseteq> set A \<union> set S"

lemma assign_loop_inv:
  assumes "assign_inv E s A0 A C S" and "assign_loop g A C S = (A', C')"
    and "\<And>n. set (predecessors g n) = {m. (m, n) \<in> E}"
  shows "assign_inv E s A0 A' C' []" and "set C \<union> set S \<subseteq> A0 \<union> set C'"
proof -
  have "assign_inv E s A0 A' C' [] \<and> set C \<union> set S \<subseteq> A0 \<union> set C'"
    using assms
  proof (induction g A C S rule: assign_loop.induct)
    case (1 g A C)
    then show ?case by simp
  next
    case (2 g A C n S)
    let ?S = "rev (filter (\<lambda>m. m \<notin> set (n # A)) (predecessors g n)) @ S"
    show ?case
    proof (cases "n \<in> set A")
      case True
      have inv: "assign_inv E s A0 A C S" using "2.prems"(1) True unfolding assign_inv_def by auto
      have "assign_inv E s A0 A' C' [] \<and> set C \<union> set S \<subseteq> A0 \<union> set C'"
        by (rule "2.IH"(1) [OF True inv _ "2.prems"(3)]) (use "2.prems"(2) True in simp)
      moreover have "n \<in> A0 \<union> set C" using "2.prems"(1) True unfolding assign_inv_def by auto
      ultimately show ?thesis by auto
    next
      case False
      have set: "set ?S = {m. (m, n) \<in> E} - set (n # A) \<union> set S" using "2.prems"(3) by auto
      have "(n, s) \<in> E\<^sup>*" using "2.prems"(1) unfolding assign_inv_def by simp
      then have "{m. (m, n) \<in> E} \<subseteq> {c. (c, s) \<in> E\<^sup>*}" by (auto intro: converse_rtrancl_into_rtrancl)
      with set False "2.prems"(1) have inv: "assign_inv E s A0 (n # A) (n # C) ?S"
        unfolding assign_inv_def by auto
      have "assign_inv E s A0 A' C' [] \<and> set (n # C) \<union> set ?S \<subseteq> A0 \<union> set C'"
        by (rule "2.IH"(2) [OF False inv _ "2.prems"(3)]) (use "2.prems"(2) False in simp)
      then show ?thesis by auto
    qed
  qed
  then show "assign_inv E s A0 A' C' []" "set C \<union> set S \<subseteq> A0 \<union> set C'" by auto
qed

section \<open>Strongly connected components\<close>

definition scc_of :: "('a \<times> 'a) set \<Rightarrow> 'a \<Rightarrow> 'a set" where
  "scc_of E x = {y. (x, y) \<in> E\<^sup>* \<and> (y, x) \<in> E\<^sup>*}"

lemma scc_of_refl [simp]: "x \<in> scc_of E x"
  by (simp add: scc_of_def)

lemma scc_of_same: "y \<in> scc_of E x \<Longrightarrow> scc_of E y = scc_of E x"
  by (auto simp: scc_of_def intro: rtrancl_trans)

text \<open>A component without a way back finishes last in the order.\<close>

lemma finish_ok_later:
  assumes ok: "finish_ok E F" and "distinct F" and "set F = K" and "\<And>n. n \<in> K \<Longrightarrow> E `` {n} \<subseteq> K"
    and F: "F = F1 @ x # F2" and "(y, x) \<in> E\<^sup>*" and "(x, y) \<notin> E\<^sup>*" and "scc_of E y \<subseteq> K"
  shows "\<exists>w \<in> scc_of E y. w \<in> set F2"
proof (rule ccontr)
  assume none: "\<not> (\<exists>w \<in> scc_of E y. w \<in> set F2)"
  have "x \<notin> scc_of E y" using assms(7) by (simp add: scc_of_def)
  moreover have "scc_of E y \<subseteq> set F1 \<union> {x} \<union> set F2" using assms(3,8) by (simp add: F)
  ultimately have sub: "scc_of E y \<subseteq> set F1" using none by blast
  have "\<exists>f \<in> set F1. f \<in> scc_of E y"
    by (rule bexI [OF scc_of_refl subsetD [OF sub scc_of_refl]])
  from split_list_last_prop [OF this] obtain G1 w G2 where w: "F1 = G1 @ w # G2" "w \<in> scc_of E y"
    "\<forall>f \<in> set G2. f \<notin> scc_of E y" by blast
  have part: "z \<in> set (G1 @ [w])" if "z \<in> scc_of E y" for z
    using subsetD [OF sub that] w(3) that by (auto simp add: w(1))
  have "y \<in> set (G1 @ [w])" by (rule part) (rule scc_of_refl)
  moreover have "x \<notin> set (G1 @ [w])" using assms(2) by (auto simp add: F w(1))
  moreover have "F = G1 @ w # (G2 @ x # F2)" using F w(1) by simp
  ultimately obtain h where h: "h \<notin> set (G1 @ [w])" "(y, h) \<in> E\<^sup>*" "(h, w) \<in> E\<^sup>*"
    using ok assms(6) unfolding finish_ok_def by blast
  have "(h, y) \<in> E\<^sup>*" using h(3) w(2) by (auto simp: scc_of_def intro: rtrancl_trans)
  with h(2) have "h \<in> scc_of E y" by (simp add: scc_of_def)
  from part [OF this] h(1) show False by contradiction
qed

text \<open>A component collected backwards from a fresh node, past whole components, is its component.\<close>

lemma assign_inv_scc:
  assumes inv: "assign_inv E s A0 A C []" and "s \<in> set C" and "s \<notin> A0"
    and whole: "\<And>x. x \<in> A0 \<Longrightarrow> scc_of E x \<subseteq> A0"
    and later: "\<And>y. (y, s) \<in> E\<^sup>* \<Longrightarrow> (s, y) \<notin> E\<^sup>* \<Longrightarrow> \<exists>w \<in> scc_of E y. w \<in> A0"
  shows "set C = scc_of E s"
proof (intro set_eqI iffI)
  fix y assume y: "y \<in> set C"
  have ys: "(y, s) \<in> E\<^sup>*" and fresh: "y \<notin> A0" using inv y unfolding assign_inv_def by auto
  have "(s, y) \<in> E\<^sup>*"
  proof (rule ccontr)
    assume "(s, y) \<notin> E\<^sup>*"
    then obtain w where w: "w \<in> scc_of E y" "w \<in> A0" using later ys by blast
    have "y \<in> scc_of E w" using scc_of_same [OF w(1)] by simp
    then show False using whole [OF w(2)] fresh by auto
  qed
  then show "y \<in> scc_of E s" using ys by (simp add: scc_of_def)
next
  fix y assume y: "y \<in> scc_of E s"
  then have "(y, s) \<in> E\<^sup>*" "(s, y) \<in> E\<^sup>*" by (simp_all add: scc_of_def)
  then show "y \<in> set C"
  proof (induction rule: converse_rtrancl_induct)
    case base
    then show ?case using assms(2) by simp
  next
    case (step y z)
    have "(s, z) \<in> E\<^sup>*" using step.prems step.hyps(1) by (rule rtrancl_into_rtrancl)
    then have "z \<in> set C" by (rule step.IH)
    then have "y \<in> A0 \<union> set C" using inv step.hyps(1) unfolding assign_inv_def by auto
    moreover have "y \<notin> A0"
    proof
      assume "y \<in> A0"
      have "(y, s) \<in> E\<^sup>*" using step.hyps by (rule converse_rtrancl_into_rtrancl)
      with step.prems have "s \<in> scc_of E y" by (simp add: scc_of_def)
      then show False using whole [OF \<open>y \<in> A0\<close>] assms(3) by auto
    qed
    ultimately show ?case by simp
  qed
qed

text \<open>The test on a component: more than one member, or a member with an edge to itself.\<close>

lemma scc_cycle:
  assumes "set C = scc_of E s" and "distinct C" and "n \<in> set C"
  shows "(n, n) \<in> E\<^sup>+ \<longleftrightarrow> 1 < length C \<or> (\<exists>m \<in> set C. (m, m) \<in> E)"
proof
  assume "(n, n) \<in> E\<^sup>+"
  then obtain m where m: "(n, m) \<in> E" "(m, n) \<in> E\<^sup>*" by (metis tranclD)
  have "m \<in> scc_of E n" using m by (auto simp: scc_of_def)
  then have "m \<in> set C" using assms(1,3) scc_of_same by metis
  show "1 < length C \<or> (\<exists>m \<in> set C. (m, m) \<in> E)"
  proof (cases "m = n")
    case True
    then show ?thesis using m assms(3) by auto
  next
    case False
    have "card {m, n} \<le> card (set C)" using \<open>m \<in> set C\<close> assms(3) by (intro card_mono) auto
    then show ?thesis using False distinct_card [OF assms(2)] by simp
  qed
next
  have C: "set C = scc_of E n" using assms(1,3) scc_of_same by metis
  assume "1 < length C \<or> (\<exists>m \<in> set C. (m, m) \<in> E)"
  then consider (other) m where "m \<in> set C" "m \<noteq> n" | (loop) m where "m \<in> set C" "(m, m) \<in> E"
  proof (elim disjE bexE)
    assume long: "1 < length C" and goal: "\<And>m. m \<in> set C \<Longrightarrow> m \<noteq> n \<Longrightarrow> thesis"
    have "\<not> set C \<subseteq> {n}"
    proof
      assume "set C \<subseteq> {n}"
      then have "card (set C) \<le> 1" using card_mono [of "{n}" "set C"] by simp
      then show False using long distinct_card [OF assms(2)] by simp
    qed
    then show thesis using goal by blast
  qed
  then show "(n, n) \<in> E\<^sup>+"
  proof cases
    case other
    then have "(n, m) \<in> E\<^sup>+" "(m, n) \<in> E\<^sup>*" using C by (auto simp: scc_of_def rtrancl_eq_or_trancl)
    then show ?thesis by (rule trancl_rtrancl_trancl)
  next
    case loop
    then have "(n, m) \<in> E\<^sup>*" "(m, n) \<in> E\<^sup>*" using C by (auto simp: scc_of_def)
    with loop(2) show ?thesis by (meson r_into_trancl rtrancl_trancl_trancl trancl_rtrancl_trancl)
  qed
qed

section \<open>Correctness of both passes\<close>

locale graph_search =
  fixes g :: "'a digraph" and ord :: "'a list \<Rightarrow> 'a list"
  assumes ord_set: "set (ord xs) = set xs"
    and succ_keys: "n \<in> set (dg_keys g) \<Longrightarrow> set (dg_succ g n) \<subseteq> set (dg_keys g)"
    and pred_iff: "n \<in> set (dg_keys g) \<Longrightarrow>
      set (dg_pred g n) = {m. m \<in> set (dg_keys g) \<and> n \<in> set (dg_succ g m)}"
begin

lemma set_successors: "set (successors g ord n) = dg_edges g `` {n}"
  by (auto simp: successors_def ord_set dg_edges_def)

lemma set_predecessors: "set (predecessors g n) = {m. (m, n) \<in> dg_edges g}"
proof (cases "n \<in> set (dg_keys g)")
  case True
  then show ?thesis by (simp add: predecessors_def pred_iff dg_edges_def)
next
  case False
  then show ?thesis using succ_keys by (auto simp: predecessors_def dg_edges_def)
qed

lemma edges_keys: "(a, b) \<in> dg_edges g \<Longrightarrow> a \<in> set (dg_keys g) \<and> b \<in> set (dg_keys g)"
  using succ_keys by (auto simp: dg_edges_def)

lemma finish_from_inv:
  assumes "search_inv (dg_edges g) V F []" and "set V \<subseteq> set (dg_keys g)" and "start \<in> set (dg_keys g)"
    and "finish_from g ord (V, F) start = (V', F')"
  shows "search_inv (dg_edges g) V' F' []" and "insert start (set V) \<subseteq> set V'" and "set V' \<subseteq> set (dg_keys g)"
proof -
  have "search_inv (dg_edges g) V' F' [] \<and> insert start (set V) \<subseteq> set V' \<and> set V' \<subseteq> set (dg_keys g)"
  proof (cases "start \<in> set V")
    case True
    then show ?thesis using assms by (auto simp: finish_from_def)
  next
    case False
    have inv: "search_inv (dg_edges g) V F [(start, False)]"
      using search_invD(1-4) [OF assms(1)] by (intro search_invI) (auto simp: Cons_eq_append_conv)
    have run: "finish_loop g ord V F [(start, False)] = (V', F')"
      using assms(4) False by (simp add: finish_from_def)
    have keys: "set V \<union> fst ` set [(start, False)] \<subseteq> set (dg_keys g)" using assms(2,3) by simp
    have closed: "\<And>n. n \<in> set (dg_keys g) \<Longrightarrow> dg_edges g `` {n} \<subseteq> set (dg_keys g)"
      using edges_keys by auto
    from finish_loop_inv [OF inv run keys set_successors closed] show ?thesis by simp
  qed
  then show "search_inv (dg_edges g) V' F' []" "insert start (set V) \<subseteq> set V'" "set V' \<subseteq> set (dg_keys g)"
    by auto
qed

lemma finish_fold_inv:
  assumes "search_inv (dg_edges g) V F []" and "set V \<subseteq> set (dg_keys g)" and "set starts \<subseteq> set (dg_keys g)"
    and "foldl (finish_from g ord) (V, F) starts = (V', F')"
  shows "search_inv (dg_edges g) V' F' [] \<and> set V \<union> set starts \<subseteq> set V' \<and> set V' \<subseteq> set (dg_keys g)"
  using assms
proof (induction starts arbitrary: V F)
  case (Cons start starts)
  obtain W G where step: "finish_from g ord (V, F) start = (W, G)" by fastforce
  have "start \<in> set (dg_keys g)" using Cons.prems(3) by simp
  note inv = finish_from_inv [OF Cons.prems(1,2) this step]
  have "search_inv (dg_edges g) V' F' [] \<and> set W \<union> set starts \<subseteq> set V' \<and> set V' \<subseteq> set (dg_keys g)"
    using Cons.prems(3,4) step by (intro Cons.IH [OF inv(1,3)]) auto
  then show ?case using inv(2) Cons.prems(3) by auto
qed simp

lemma finish_order_ok:
  shows "finish_ok (dg_edges g) (finish_order g ord)" and "set (finish_order g ord) = set (dg_keys g)"
    and "distinct (finish_order g ord)"
proof -
  obtain V F where fold: "foldl (finish_from g ord) ([], []) (ord (dg_keys g)) = (V, F)" by fastforce
  have "search_inv (dg_edges g) [] [] []" by (simp add: search_inv_def finish_ok_def)
  from finish_fold_inv [OF this _ _ fold]
  have inv: "search_inv (dg_edges g) V F []" "set V = set (dg_keys g)" by (auto simp: ord_set)
  have "finish_order g ord = F" using fold by (simp add: finish_order_def)
  then show "finish_ok (dg_edges g) (finish_order g ord)" "set (finish_order g ord) = set (dg_keys g)"
    "distinct (finish_order g ord)"
    using search_invD(1,2,4) [OF inv(1)] inv(2) by simp_all
qed

lemma scc_keys: "x \<in> set (dg_keys g) \<Longrightarrow> scc_of (dg_edges g) x \<subseteq> set (dg_keys g)"
proof
  fix y assume "x \<in> set (dg_keys g)" and "y \<in> scc_of (dg_edges g) x"
  then have "(x, y) \<in> (dg_edges g)\<^sup>*" by (simp add: scc_of_def)
  then show "y \<in> set (dg_keys g)"
    using \<open>x \<in> set (dg_keys g)\<close> edges_keys by (induction rule: rtrancl_induct) auto
qed

text \<open>After the components of the nodes \<open>seen\<close>, the assigned nodes and the cycle members are theirs.\<close>

definition collect_inv :: "'a list \<Rightarrow> 'a list \<times> 'a list \<Rightarrow> bool" where
  "collect_inv seen am \<longleftrightarrow>
     set (fst am) = (\<Union>x \<in> set seen. scc_of (dg_edges g) x)
     \<and> set (snd am) = {n \<in> set (fst am). (n, n) \<in> (dg_edges g)\<^sup>+} \<and> distinct (snd am)"

lemma collect_step:
  assumes inv: "collect_inv seen am" and order: "rev (finish_order g ord) = seen @ s # rest"
  shows "collect_inv (seen @ [s]) (collect g am s)"
proof (cases "s \<in> set (fst am)")
  case True
  then obtain x where "x \<in> set seen" "s \<in> scc_of (dg_edges g) x" using inv by (auto simp: collect_inv_def)
  then have "scc_of (dg_edges g) s \<subseteq> set (fst am)"
    using scc_of_same [of s "dg_edges g" x] inv by (auto simp: collect_inv_def)
  then show ?thesis using True inv by (cases am) (auto simp: collect_def collect_inv_def)
next
  case False
  let ?E = "dg_edges g" and ?A0 = "set (fst am)"
  obtain A' C where run: "assign_loop g (fst am) [] [s] = (A', C)" by fastforce
  have start: "assign_inv ?E s ?A0 (fst am) [] [s]" by (simp add: assign_inv_def)
  note C = assign_loop_inv [OF start run set_predecessors]
  have whole: "scc_of ?E x \<subseteq> ?A0" if "x \<in> ?A0" for x
  proof -
    have "x \<in> (\<Union>y \<in> set seen. scc_of ?E y)" using that inv by (simp add: collect_inv_def)
    then obtain y where "y \<in> set seen" "x \<in> scc_of ?E y" by (elim UN_E)
    then show ?thesis using scc_of_same [of x ?E y] inv by (auto simp: collect_inv_def)
  qed
  have F: "finish_order g ord = rev rest @ s # rev seen"
    using arg_cong [OF order, of rev] by simp
  have later: "\<exists>w \<in> scc_of ?E y. w \<in> ?A0" if y: "(y, s) \<in> ?E\<^sup>*" "(s, y) \<notin> ?E\<^sup>*" for y
  proof -
    have "y \<in> set (dg_keys g)" using y by (auto elim: converse_rtranclE dest: edges_keys)
    note sub = scc_keys [OF this]
    have closed: "\<And>n. n \<in> set (dg_keys g) \<Longrightarrow> ?E `` {n} \<subseteq> set (dg_keys g)" using edges_keys by auto
    obtain w where w: "w \<in> scc_of ?E y" "w \<in> set (rev seen)"
      using finish_ok_later [OF finish_order_ok(1,3,2) closed F y sub] by blast
    then have "w \<in> ?A0" using inv unfolding collect_inv_def by (auto intro: bexI [of _ w])
    with w(1) show ?thesis by blast
  qed
  have "s \<in> set C" using C(2) False by simp
  note scc = assign_inv_scc [OF C(1) this False whole later]
  have A': "set A' = ?A0 \<union> scc_of ?E s" and C': "distinct C" "set C \<inter> ?A0 = {}"
    using C(1) scc by (auto simp: assign_inv_def)
  have loop: "m \<in> set (dg_succ g m) \<longleftrightarrow> (m, m) \<in> ?E" if "m \<in> set C" for m
  proof -
    have "s \<in> set (finish_order g ord)" by (simp add: F)
    then have "m \<in> set (dg_keys g)" using scc_keys [of s] that finish_order_ok(2) by (auto simp: scc)
    then show ?thesis by (simp add: dg_edges_def)
  qed
  have test: "1 < length C \<or> list_ex (\<lambda>n. n \<in> set (dg_succ g n)) C \<longleftrightarrow> (n, n) \<in> ?E\<^sup>+" if "n \<in> set C" for n
  proof -
    have "list_ex (\<lambda>n. n \<in> set (dg_succ g n)) C \<longleftrightarrow> (\<exists>m \<in> set C. (m, m) \<in> ?E)"
      using loop by (auto simp: list_ex_iff)
    with scc_cycle [OF scc C'(1) that] show ?thesis by simp
  qed
  have members: "set (if 1 < length C \<or> list_ex (\<lambda>n. n \<in> set (dg_succ g n)) C then snd am @ C else snd am)
      = {n \<in> set A'. (n, n) \<in> ?E\<^sup>+}"
    using inv test A' scc unfolding collect_inv_def by auto
  have "collect g am s = (A', if 1 < length C \<or> list_ex (\<lambda>n. n \<in> set (dg_succ g n)) C
      then snd am @ C else snd am)"
    using run False by (cases am) (simp add: collect_def)
  then show ?thesis using members A' inv C' unfolding collect_inv_def by (auto simp: scc)
qed

theorem cycle_members_exact:
  "set (cycle_members g ord) = {n. (n, n) \<in> (dg_edges g)\<^sup>+}" "distinct (cycle_members g ord)"
proof -
  have inv: "rev (finish_order g ord) = seen @ rest
      \<Longrightarrow> collect_inv seen (foldl (collect g) ([], []) seen)" for seen rest
  proof (induction seen arbitrary: rest rule: rev_induct)
    case Nil
    show ?case by (simp add: collect_inv_def)
  next
    case (snoc s seen)
    have order: "rev (finish_order g ord) = seen @ s # rest" using snoc.prems by simp
    from collect_step [OF snoc.IH [OF order] order] show ?case by simp
  qed
  let ?am = "foldl (collect g) ([], []) (rev (finish_order g ord))"
  have am: "collect_inv (rev (finish_order g ord)) ?am" by (rule inv [of _ "[]"]) simp
  have "n \<in> set (fst ?am)" if "(n, n) \<in> (dg_edges g)\<^sup>+" for n
  proof -
    have "n \<in> set (dg_keys g)" using that by (auto dest!: tranclD edges_keys)
    then show ?thesis using am finish_order_ok(2) by (auto simp: collect_inv_def intro: bexI [of _ n])
  qed
  then show "set (cycle_members g ord) = {n. (n, n) \<in> (dg_edges g)\<^sup>+}" "distinct (cycle_members g ord)"
    using am by (auto simp: collect_inv_def cycle_members_def)
qed

end

end
