(* ===== verification/GraphValidation.thy ===== *)
theory GraphValidation
  imports GraphSchema GraphCycles
begin

text \<open>
  \<open>graph/validation.py\<close>: the report of every violated invariant over raw graph records. The text of
  \<open>repr\<close>, which the details quote, is a parameter, since it depends on the interpreter's Unicode tables
  and its float printing. The lemmas show that the cycle search names exactly the nodes on a cycle and that
  a report is empty exactly for consistent records.
\<close>

datatype validation_rule =
    DANGLING_EDGE
  | DANGLING_CONSTRAINT_MEMBER
  | HIERARCHY_CYCLE
  | DATAFLOW_CYCLE
  | MISSING_RECIPROCAL_EDGE
  | INCOMPLETE_COUPLING_CLOSURE
  | UNKNOWN_CONSTRAINT
  | CONSTRAINT_MEMBERSHIP_MISMATCH

fun rule_value :: "validation_rule \<Rightarrow> pystr" where
  "rule_value DANGLING_EDGE = lit ''dangling_edge''"
| "rule_value DANGLING_CONSTRAINT_MEMBER = lit ''dangling_constraint_member''"
| "rule_value HIERARCHY_CYCLE = lit ''hierarchy_cycle''"
| "rule_value DATAFLOW_CYCLE = lit ''dataflow_cycle''"
| "rule_value MISSING_RECIPROCAL_EDGE = lit ''missing_reciprocal_edge''"
| "rule_value INCOMPLETE_COUPLING_CLOSURE = lit ''incomplete_coupling_closure''"
| "rule_value UNKNOWN_CONSTRAINT = lit ''unknown_constraint''"
| "rule_value CONSTRAINT_MEMBERSHIP_MISMATCH = lit ''constraint_membership_mismatch''"

record graph_violation =
  gv_rule :: validation_rule
  gv_nodes :: "component_id list"
  gv_detail :: pystr

definition violation_record :: "graph_violation \<Rightarrow> graph_error + json" where
  "violation_record v =
     rbind (mapM_r graph_id_text (gv_nodes v)) (\<lambda>nodes.
     Inr (JObj [(lit ''rule'', JStr (rule_value (gv_rule v))), (lit ''nodes'', JList (map JStr nodes)),
                (lit ''detail'', JStr (gv_detail v))]))"

definition violation_summary :: "graph_violation \<Rightarrow> graph_error + pystr" where
  "violation_summary v =
     rbind (mapM_r graph_id_text (gv_nodes v)) (\<lambda>nodes.
     Inr (rule_value (gv_rule v) @ lit ''('' @ join_text (lit '', '') nodes @ lit ''): '' @ gv_detail v))"

text \<open>The message of \<open>GraphValidationError\<close>; its \<open>violations\<close> are the argument.\<close>

definition validation_message :: "graph_violation list \<Rightarrow> graph_error + pystr" where
  "validation_message vs =
     rbind (mapM_r violation_summary vs) (\<lambda>ss. Inr (join_text (lit ''; '') ss))"

datatype validation_report = Report (violations: "graph_violation list")

definition report_valid :: "validation_report \<Rightarrow> bool" where
  "report_valid r \<longleftrightarrow> violations r = []"

text \<open>\<open>raise_for_errors\<close>: \<open>Inl\<close> holds the error raised, the message or a failure to print it.\<close>

definition raise_for_errors :: "validation_report \<Rightarrow> (graph_error + pystr \<times> graph_violation list) + unit" where
  "raise_for_errors r =
     (if violations r = [] then Inr ()
      else Inl (rbind (validation_message (violations r)) (\<lambda>m. Inr (m, violations r))))"

definition report_record :: "validation_report \<Rightarrow> graph_error + json" where
  "report_record r =
     rbind (mapM_r violation_record (violations r)) (\<lambda>vs.
     Inr (JObj [(lit ''valid'', JBool (report_valid r)), (lit ''violations'', JList vs)]))"

section \<open>Cycles\<close>

definition kind_pairs :: "graph_edge list \<Rightarrow> edge_kind \<Rightarrow> (component_id \<times> component_id) list" where
  "kind_pairs edges kind = map (\<lambda>e. (ge_source e, ge_target e)) (filter (\<lambda>e. ge_kind e = kind) edges)"

definition cycle_nodes :: "graph_edge list \<Rightarrow> edge_kind \<Rightarrow> graph_error + component_id list" where
  "cycle_nodes edges kind =
     (let g = digraph_of (kind_pairs edges kind) in
      rbind (sorted_ids (\<lambda>i. i) (dg_keys g)) (\<lambda>_.
      sorted_ids (\<lambda>i. i) (cycle_members g (sort_key id_key))))"

fun reciprocal :: "edge_kind \<Rightarrow> edge_kind option" where
  "reciprocal PARENT = Some CHILD"
| "reciprocal CHILD = Some PARENT"
| "reciprocal CONSUMES = Some PRODUCES"
| "reciprocal PRODUCES = Some CONSUMES"
| "reciprocal _ = None"

section \<open>The rules\<close>

text \<open>The first loop: endpoints that are not nodes, and edges without their inverse.\<close>

definition dangling_edge :: "component_id set \<Rightarrow> graph_edge \<Rightarrow> graph_error + graph_violation list" where
  "dangling_edge node_ids e =
     rbind (sorted_ids (\<lambda>i. i)
              (filter (\<lambda>i. i \<notin> node_ids) (remdups [ge_source e, ge_target e]))) (\<lambda>missing.
     Inr (if missing = [] then []
          else [\<lparr>gv_rule = DANGLING_EDGE, gv_nodes = missing,
                 gv_detail = edge_value (ge_kind e) @ lit '' edge references nodes absent from the graph''\<rparr>]))"

definition missing_reciprocal ::
  "(edge_kind \<times> component_id \<times> component_id) set \<Rightarrow> graph_edge \<Rightarrow> graph_error + graph_violation list" where
  "missing_reciprocal edge_keys e =
     (case reciprocal (ge_kind e) of
        None \<Rightarrow> Inr []
      | Some back \<Rightarrow>
          if (back, ge_target e, ge_source e) \<in> edge_keys then Inr []
          else rbind (sorted_ids (\<lambda>i. i) [ge_source e, ge_target e]) (\<lambda>nodes.
            Inr [\<lparr>gv_rule = MISSING_RECIPROCAL_EDGE, gv_nodes = nodes,
                  gv_detail = edge_value (ge_kind e) @ lit '' edge lacks inverse ''
                    @ edge_value back @ lit '' edge''\<rparr>]))"

definition edge_violations ::
  "component_id set \<Rightarrow> (edge_kind \<times> component_id \<times> component_id) set \<Rightarrow> graph_edge
     \<Rightarrow> graph_error + graph_violation list" where
  "edge_violations node_ids edge_keys e =
     rbind (dangling_edge node_ids e) (\<lambda>vs.
     rbind (missing_reciprocal edge_keys e) (\<lambda>ws.
     Inr (vs @ ws)))"

text \<open>\<open>combinations(xs, 2)\<close>, and the second loop: members that are not nodes, and uncoupled pairs.\<close>

fun pairs_of :: "'a list \<Rightarrow> ('a \<times> 'a) list" where
  "pairs_of [] = []"
| "pairs_of (x # xs) = map (Pair x) xs @ pairs_of xs"

definition constrained_by :: "graph_edge list \<Rightarrow> pystr \<Rightarrow> component_id \<Rightarrow> component_id \<Rightarrow> bool" where
  "constrained_by edges cid left right \<longleftrightarrow>
     list_ex (\<lambda>e. ge_kind e = CONSTRAINED \<and> ge_source e = left \<and> ge_target e = right
       \<and> edge_constraint e = PStr cid) edges"

definition uncoupled_pairs ::
  "(graph_primitive \<Rightarrow> pystr) \<Rightarrow> (edge_kind \<times> component_id \<times> component_id) set \<Rightarrow> graph_edge list
     \<Rightarrow> mutation_constraint \<Rightarrow> graph_violation list" where
  "uncoupled_pairs repr edge_keys edges c =
     map (\<lambda>(left, right).
         \<lparr>gv_rule = INCOMPLETE_COUPLING_CLOSURE, gv_nodes = [left, right],
          gv_detail = lit ''constraint '' @ repr (PStr (mc_id c)) @ lit '' lacks coupled/constrained edges''\<rparr>)
       (filter (\<lambda>(left, right). (COUPLED, left, right) \<notin> edge_keys
            \<or> \<not> constrained_by edges (mc_id c) left right)
          (pairs_of (mc_members c)))"

definition constraint_violations ::
  "(graph_primitive \<Rightarrow> pystr) \<Rightarrow> component_id set \<Rightarrow> (edge_kind \<times> component_id \<times> component_id) set
     \<Rightarrow> graph_edge list \<Rightarrow> mutation_constraint \<Rightarrow> graph_error + graph_violation list" where
  "constraint_violations repr node_ids edge_keys edges c =
     rbind (sorted_ids (\<lambda>i. i) (filter (\<lambda>i. i \<notin> node_ids) (remdups (mc_members c)))) (\<lambda>missing.
     Inr ((if missing = [] then []
           else [\<lparr>gv_rule = DANGLING_CONSTRAINT_MEMBER, gv_nodes = missing,
                  gv_detail = lit ''constraint '' @ repr (PStr (mc_id c)) @ lit '' references absent nodes''\<rparr>])
          @ uncoupled_pairs repr edge_keys edges c))"

text \<open>The third loop: constrained edges of no known constraint, or between components outside of it.\<close>

definition constrained_edge_violations ::
  "(graph_primitive \<Rightarrow> pystr) \<Rightarrow> (graph_primitive \<Rightarrow> mutation_constraint option) \<Rightarrow> graph_edge
     \<Rightarrow> graph_error + graph_violation list" where
  "constrained_edge_violations repr constraint_by_id e =
     (if ge_kind e \<noteq> CONSTRAINED then Inr []
      else (case constraint_by_id (edge_constraint e) of
        None \<Rightarrow>
          rbind (sorted_ids (\<lambda>i. i) [ge_source e, ge_target e]) (\<lambda>nodes.
          Inr [\<lparr>gv_rule = UNKNOWN_CONSTRAINT, gv_nodes = nodes,
                gv_detail = lit ''constrained edge references unknown constraint '' @ repr (edge_constraint e)\<rparr>])
      | Some c \<Rightarrow>
          if ge_source e \<notin> set (mc_members c) \<or> ge_target e \<notin> set (mc_members c) then
            rbind (sorted_ids (\<lambda>i. i) [ge_source e, ge_target e]) (\<lambda>nodes.
            Inr [\<lparr>gv_rule = CONSTRAINT_MEMBERSHIP_MISMATCH, gv_nodes = nodes,
                  gv_detail = lit ''edge endpoints are not both members of constraint ''
                    @ repr (edge_constraint e)\<rparr>])
          else Inr []))"

definition cycle_violations ::
  "graph_edge list \<Rightarrow> edge_kind \<times> validation_rule \<Rightarrow> graph_error + graph_violation list" where
  "cycle_violations edges kr =
     (let (kind, rule) = kr in
      rbind (cycle_nodes edges kind) (\<lambda>nodes.
      Inr (if nodes = [] then []
           else [\<lparr>gv_rule = rule, gv_nodes = nodes,
                  gv_detail = edge_value kind @ lit '' edges contain a directed cycle''\<rparr>])))"

text \<open>The final order; its keys print every node of every violation.\<close>

definition sorted_violations :: "graph_violation list \<Rightarrow> graph_error + graph_violation list" where
  "sorted_violations vs =
     rbind (mapM_r (\<lambda>v. mapM_r graph_id_text (gv_nodes v)) vs) (\<lambda>_.
     Inr (sort_key (\<lambda>v. (rule_value (gv_rule v), map id_key (gv_nodes v), gv_detail v)) vs))"

definition constraint_by_id :: "mutation_constraint list \<Rightarrow> graph_primitive \<Rightarrow> mutation_constraint option" where
  "constraint_by_id constraints k =
     (case k of PStr cid \<Rightarrow> map_of (rev (map (\<lambda>c. (mc_id c, c)) constraints)) cid | _ \<Rightarrow> None)"

definition validate_graph_records ::
  "(graph_primitive \<Rightarrow> pystr) \<Rightarrow> graph_node list \<Rightarrow> graph_edge list \<Rightarrow> mutation_constraint list
     \<Rightarrow> graph_error + validation_report" where
  "validate_graph_records repr nodes edges constraints =
     (let node_ids = set (map gn_id nodes); edge_keys = set (map edge_key edges) in
      rbind (mapM_r (edge_violations node_ids edge_keys) edges) (\<lambda>v1.
      rbind (mapM_r (constraint_violations repr node_ids edge_keys edges) constraints) (\<lambda>v2.
      rbind (mapM_r (constrained_edge_violations repr (constraint_by_id constraints)) edges) (\<lambda>v3.
      rbind (mapM_r (cycle_violations edges) [(CHILD, HIERARCHY_CYCLE), (PRODUCES, DATAFLOW_CYCLE)]) (\<lambda>v4.
      rbind (sorted_violations (concat v1 @ concat v2 @ concat v3 @ concat v4)) (\<lambda>ordered.
      Inr (Report ordered)))))))"

definition validate_component_graph ::
  "(graph_primitive \<Rightarrow> pystr) \<Rightarrow> component_graph \<Rightarrow> graph_error + validation_report" where
  "validate_component_graph repr g =
     validate_graph_records repr (cg_nodes g) (cg_edges g) (cg_constraints g)"

section \<open>The cycle search names exactly the nodes on a cycle\<close>

interpretation component_search: graph_search "digraph_of es" "sort_key k"
  for es :: "('a \<times> 'a) list" and k :: "'a \<Rightarrow> 'b :: linorder"
  by unfold_locales (force simp: digraph_of_holds)+

definition edge_rel :: "graph_edge list \<Rightarrow> edge_kind \<Rightarrow> (component_id \<times> component_id) set" where
  "edge_rel edges kind = {(ge_source e, ge_target e) | e. e \<in> set edges \<and> ge_kind e = kind}"

lemma set_kind_pairs: "set (kind_pairs edges kind) = edge_rel edges kind"
  by (auto simp: kind_pairs_def edge_rel_def)

definition edges_printable :: "graph_edge list \<Rightarrow> bool" where
  "edges_printable edges \<longleftrightarrow> list_all (\<lambda>e. printable (ge_source e) \<and> printable (ge_target e)) edges"

lemma sorted_ids_total: "list_all (\<lambda>x. printable (f x)) xs \<Longrightarrow> sorted_ids f xs = Inr (sort_key (\<lambda>x. id_key (f x)) xs)"
  by (simp add: sorted_ids_iff)

lemma cycle_members_kind:
  "set (cycle_members (digraph_of (kind_pairs edges kind)) (sort_key id_key)) = {n. (n, n) \<in> (edge_rel edges kind)\<^sup>+}"
  "distinct (cycle_members (digraph_of (kind_pairs edges kind)) (sort_key id_key))"
  using component_search.cycle_members_exact [of "kind_pairs edges kind" id_key]
  by (simp_all add: dg_edges_digraph_of set_kind_pairs)

lemma cycle_nodes_total:
  assumes "edges_printable edges"
  obtains ns where "cycle_nodes edges kind = Inr ns" and "set ns = {n. (n, n) \<in> (edge_rel edges kind)\<^sup>+}"
    and "distinct ns" and "sorted (map id_key ns)" and "list_all printable ns"
proof -
  let ?g = "digraph_of (kind_pairs edges kind)" and ?m = "cycle_members (digraph_of (kind_pairs edges kind)) (sort_key id_key)"
  have p: "printable a \<and> printable b" if "(a, b) \<in> edge_rel edges kind" for a b
    using that assms by (auto simp: edge_rel_def edges_printable_def list_all_iff)
  have keys: "list_all printable (dg_keys ?g)"
    using p by (auto simp: list_all_iff digraph_of_holds set_kind_pairs)
  have members: "list_all printable ?m"
    using p by (auto simp: list_all_iff cycle_members_kind dest!: tranclD)
  show ?thesis
    using that [of "sort_key id_key ?m"] sorted_ids_total [of "\<lambda>i. i", OF keys]
      sorted_ids_total [of "\<lambda>i. i", OF members] members
    by (simp add: cycle_nodes_def Let_def cycle_members_kind list_all_iff)
qed

text \<open>
  C9. The cycle search: for edges between printable components it terminates without an error and names
  exactly the components that lie on a directed cycle of the given kind, once each, in canonical order.
\<close>
theorem cycle_nodes_exact:
  assumes "edges_printable edges"
  shows "\<exists>ns. cycle_nodes edges kind = Inr ns \<and> set ns = {n. (n, n) \<in> (edge_rel edges kind)\<^sup>+}
    \<and> distinct ns \<and> sorted (map id_key ns)"
  by (rule cycle_nodes_total [OF assms, of kind]) blast

theorem cycle_nodes_exact_witness:
  "\<exists>ns. cycle_nodes demo_edges CHILD = Inr ns \<and> set ns = {n. (n, n) \<in> (edge_rel demo_edges CHILD)\<^sup>+}
    \<and> distinct ns \<and> sorted (map id_key ns)"
proof -
  have "edges_printable demo_edges" by code_simp
  then show ?thesis by (rule cycle_nodes_exact)
qed

section \<open>The report is empty exactly for consistent records\<close>

definition graph_consistent ::
  "graph_node list \<Rightarrow> graph_edge list \<Rightarrow> mutation_constraint list \<Rightarrow> bool" where
  "graph_consistent nodes edges constraints \<longleftrightarrow>
     (\<forall>e \<in> set edges. ge_source e \<in> gn_id ` set nodes \<and> ge_target e \<in> gn_id ` set nodes)
     \<and> (\<forall>e \<in> set edges. \<forall>k. reciprocal (ge_kind e) = Some k \<longrightarrow>
          (k, ge_target e, ge_source e) \<in> edge_key ` set edges)
     \<and> (\<forall>c \<in> set constraints. set (mc_members c) \<subseteq> gn_id ` set nodes)
     \<and> (\<forall>c \<in> set constraints. \<forall>(l, r) \<in> set (pairs_of (mc_members c)).
          (COUPLED, l, r) \<in> edge_key ` set edges \<and> constrained_by edges (mc_id c) l r)
     \<and> (\<forall>e \<in> set edges. ge_kind e = CONSTRAINED \<longrightarrow>
          (\<exists>c. constraint_by_id constraints (edge_constraint e) = Some c
             \<and> ge_source e \<in> set (mc_members c) \<and> ge_target e \<in> set (mc_members c)))
     \<and> acyclic (edge_rel edges CHILD) \<and> acyclic (edge_rel edges PRODUCES)"

lemma sort_key_empty [simp]: "sort_key k xs = [] \<longleftrightarrow> xs = []"
  by (metis length_0_conv length_sort)

text \<open>A rule that raises no error, names printable components only, and is silent exactly when \<open>p\<close>.\<close>

definition settled :: "graph_error + graph_violation list \<Rightarrow> bool \<Rightarrow> bool" where
  "settled r p \<longleftrightarrow> (\<exists>vs. r = Inr vs \<and> (\<forall>v \<in> set vs. list_all printable (gv_nodes v)) \<and> (vs = [] \<longleftrightarrow> p))"

lemma settled_append:
  "settled r p \<Longrightarrow> settled s q \<Longrightarrow> settled (rbind r (\<lambda>vs. rbind s (\<lambda>ws. Inr (vs @ ws)))) (p \<and> q)"
  by (auto simp: settled_def)

lemma settled_mapM:
  "(\<And>x. x \<in> set xs \<Longrightarrow> settled (f x) (p x)) \<Longrightarrow>
     \<exists>vss. mapM_r f xs = Inr vss \<and> settled (Inr (concat vss)) (\<forall>x \<in> set xs. p x)"
proof (induction xs)
  case (Cons x xs)
  then obtain vss where "mapM_r f xs = Inr vss" "settled (Inr (concat vss)) (\<forall>x \<in> set xs. p x)" by auto
  moreover obtain vs where "f x = Inr vs" "settled (Inr vs) (p x)"
    using Cons.prems [of x] by (auto simp: settled_def)
  ultimately show ?case by (intro exI [of _ "vs # vss"]) (auto simp: settled_def)
qed (simp add: settled_def)

lemma settled_sorted:
  assumes "settled (Inr vs) p"
  shows "\<exists>r. sorted_violations vs = Inr r \<and> (r = [] \<longleftrightarrow> p)"
proof -
  have texts: "\<exists>ss. mapM_r graph_id_text ids = Inr ss" if "list_all printable ids" for ids
    using that
  proof (induction ids)
    case (Cons i ids)
    then show ?case by (auto simp: graph_id_text_def printable_def split: sum.splits)
  qed simp
  have "\<exists>sss. mapM_r (\<lambda>v. mapM_r graph_id_text (gv_nodes v)) vs = Inr sss"
    if "\<forall>v \<in> set vs. list_all printable (gv_nodes v)"
    using that
  proof (induction vs)
    case (Cons v vs)
    then show ?case using texts [of "gv_nodes v"] by auto
  qed simp
  then show ?thesis using assms by (auto simp: sorted_violations_def settled_def)
qed

lemma settled_dangling:
  assumes "printable (ge_source e)" and "printable (ge_target e)"
  shows "settled (dangling_edge N e) (ge_source e \<in> N \<and> ge_target e \<in> N)"
proof -
  let ?xs = "filter (\<lambda>i. i \<notin> N) (remdups [ge_source e, ge_target e])"
  have "list_all printable ?xs" using assms by (auto simp: list_all_iff)
  from sorted_ids_total [of "\<lambda>i. i", OF this] this show ?thesis
    unfolding dangling_edge_def settled_def
    by (auto simp: list_all_iff filter_empty_conv simp del: remdups.simps)
qed

lemma settled_reciprocal:
  assumes "printable (ge_source e)" and "printable (ge_target e)"
  shows "settled (missing_reciprocal K e)
    (\<forall>k. reciprocal (ge_kind e) = Some k \<longrightarrow> (k, ge_target e, ge_source e) \<in> K)"
  using sorted_ids_total [of "\<lambda>i. i" "[ge_source e, ge_target e]"] assms
  by (auto simp: missing_reciprocal_def settled_def list_all_iff split: option.splits)

lemma settled_constraint:
  assumes "list_all printable (mc_members c)"
  shows "settled (constraint_violations repr N K edges c) (set (mc_members c) \<subseteq> N
    \<and> (\<forall>(l, r) \<in> set (pairs_of (mc_members c)). (COUPLED, l, r) \<in> K \<and> constrained_by edges (mc_id c) l r))"
proof -
  let ?xs = "filter (\<lambda>i. i \<notin> N) (remdups (mc_members c))"
  have p: "list_all printable ?xs" using assms by (auto simp: list_all_iff)
  have members: "set (pairs_of xs) \<subseteq> set xs \<times> set xs" for xs :: "component_id list" by (induction xs) auto
  have pairs: "\<forall>v \<in> set (uncoupled_pairs repr K edges c). list_all printable (gv_nodes v)"
    using members [of "mc_members c"] assms by (auto simp: uncoupled_pairs_def list_all_iff)
  have empty: "uncoupled_pairs repr K edges c = []
      \<longleftrightarrow> (\<forall>(l, r) \<in> set (pairs_of (mc_members c)). (COUPLED, l, r) \<in> K \<and> constrained_by edges (mc_id c) l r)"
    by (auto simp: uncoupled_pairs_def filter_empty_conv)
  have none: "?xs = [] \<longleftrightarrow> set (mc_members c) \<subseteq> N" by (auto simp: filter_empty_conv)
  show ?thesis
    using sorted_ids_total [of "\<lambda>i. i", OF p] p pairs
    unfolding constraint_violations_def settled_def empty [symmetric] none [symmetric]
    by (auto simp: list_all_iff)
qed

lemma settled_constrained_edge:
  assumes "printable (ge_source e)" and "printable (ge_target e)"
  shows "settled (constrained_edge_violations repr by_id e) (ge_kind e = CONSTRAINED \<longrightarrow>
    (\<exists>c. by_id (edge_constraint e) = Some c \<and> ge_source e \<in> set (mc_members c) \<and> ge_target e \<in> set (mc_members c)))"
  using sorted_ids_total [of "\<lambda>i. i" "[ge_source e, ge_target e]"] assms
  by (auto simp: constrained_edge_violations_def settled_def list_all_iff split: option.splits)

lemma settled_cycles:
  assumes "edges_printable edges"
  shows "settled (cycle_violations edges (kind, rule)) (acyclic (edge_rel edges kind))"
proof (rule cycle_nodes_total [OF assms, of kind])
  fix ns assume ns: "cycle_nodes edges kind = Inr ns" "set ns = {n. (n, n) \<in> (edge_rel edges kind)\<^sup>+}"
    "list_all printable ns"
  have "ns = [] \<longleftrightarrow> acyclic (edge_rel edges kind)"
    unfolding acyclic_def set_empty [symmetric] ns(2) by auto
  then show ?thesis using ns(1,3) by (auto simp: cycle_violations_def settled_def)
qed

lemma validation_total:
  assumes edges: "edges_printable edges" and "list_all (\<lambda>c. list_all printable (mc_members c)) constraints"
  shows "\<exists>r. validate_graph_records repr nodes edges constraints = Inr r
    \<and> (report_valid r \<longleftrightarrow> graph_consistent nodes edges constraints)"
proof -
  let ?N = "set (map gn_id nodes)" and ?K = "set (map edge_key edges)"
  let ?by = "constraint_by_id constraints"
  have p: "printable (ge_source e)" "printable (ge_target e)" if "e \<in> set edges" for e
    using that edges by (auto simp: edges_printable_def list_all_iff)
  define p1 where "p1 = (\<lambda>e :: graph_edge. (ge_source e \<in> ?N \<and> ge_target e \<in> ?N)
       \<and> (\<forall>k. reciprocal (ge_kind e) = Some k \<longrightarrow> (k, ge_target e, ge_source e) \<in> ?K))"
  define p2 where "p2 = (\<lambda>c :: mutation_constraint. set (mc_members c) \<subseteq> ?N
       \<and> (\<forall>(l, r) \<in> set (pairs_of (mc_members c)). (COUPLED, l, r) \<in> ?K \<and> constrained_by edges (mc_id c) l r))"
  define p3 where "p3 = (\<lambda>e :: graph_edge. ge_kind e = CONSTRAINED \<longrightarrow> (\<exists>c. ?by (edge_constraint e) = Some c
       \<and> ge_source e \<in> set (mc_members c) \<and> ge_target e \<in> set (mc_members c)))"
  define p4 where "p4 = (\<lambda>kr :: edge_kind \<times> validation_rule. acyclic (edge_rel edges (fst kr)))"
  define cs where "cs = [(CHILD, HIERARCHY_CYCLE), (PRODUCES, DATAFLOW_CYCLE)]"
  have "settled (edge_violations ?N ?K e) (p1 e)" if "e \<in> set edges" for e
    unfolding edge_violations_def p1_def
    by (intro settled_append settled_dangling settled_reciprocal p that)
  with settled_mapM [of edges "edge_violations ?N ?K" p1] obtain v1 where
    v1: "mapM_r (edge_violations ?N ?K) edges = Inr v1" "settled (Inr (concat v1)) (\<forall>e \<in> set edges. p1 e)" by blast
  have "settled (constraint_violations repr ?N ?K edges c) (p2 c)" if "c \<in> set constraints" for c
    unfolding p2_def using assms(2) that by (intro settled_constraint) (auto simp: list_all_iff)
  with settled_mapM [of constraints "constraint_violations repr ?N ?K edges" p2] obtain v2 where
    v2: "mapM_r (constraint_violations repr ?N ?K edges) constraints = Inr v2"
    "settled (Inr (concat v2)) (\<forall>c \<in> set constraints. p2 c)" by blast
  have "settled (constrained_edge_violations repr ?by e) (p3 e)" if "e \<in> set edges" for e
    unfolding p3_def by (intro settled_constrained_edge p that)
  with settled_mapM [of edges "constrained_edge_violations repr ?by" p3] obtain v3 where
    v3: "mapM_r (constrained_edge_violations repr ?by) edges = Inr v3"
    "settled (Inr (concat v3)) (\<forall>e \<in> set edges. p3 e)" by blast
  have "settled (cycle_violations edges kr) (p4 kr)" for kr
    unfolding p4_def by (cases kr) (simp add: settled_cycles [OF edges])
  with settled_mapM [of cs "cycle_violations edges" p4] obtain v4 where
    v4: "mapM_r (cycle_violations edges) cs = Inr v4" "settled (Inr (concat v4)) (\<forall>kr \<in> set cs. p4 kr)" by blast
  let ?vs = "concat v1 @ concat v2 @ concat v3 @ concat v4"
  have "settled (Inr ?vs) ((\<forall>e \<in> set edges. p1 e) \<and> (\<forall>c \<in> set constraints. p2 c) \<and> (\<forall>e \<in> set edges. p3 e)
      \<and> (\<forall>kr \<in> set cs. p4 kr))"
    using settled_append [OF v1(2) settled_append [OF v2(2) settled_append [OF v3(2) v4(2)]]] by simp
  from settled_sorted [OF this] obtain r where r: "sorted_violations ?vs = Inr r"
    "r = [] \<longleftrightarrow> (\<forall>e \<in> set edges. p1 e) \<and> (\<forall>c \<in> set constraints. p2 c) \<and> (\<forall>e \<in> set edges. p3 e)
      \<and> (\<forall>kr \<in> set cs. p4 kr)" by blast
  have "validate_graph_records repr nodes edges constraints = Inr (Report r)"
    using v1(1) v2(1) v3(1) v4(1) r(1) unfolding cs_def by (simp add: validate_graph_records_def Let_def del: mapM_r.simps)
  moreover have "r = [] \<longleftrightarrow> graph_consistent nodes edges constraints"
    unfolding r(2) p1_def p2_def p3_def p4_def cs_def graph_consistent_def set_map by (simp; blast)
  ultimately show ?thesis by (intro exI [of _ "Report r"]) (simp add: report_valid_def)
qed

text \<open>
  C10. Validation: on printable components the validator returns a report without an error, and the report
  is empty exactly when the records are consistent: endpoints and members exist, every hierarchy and
  dataflow edge has its inverse, every pair of a constraint is coupled and constrained by it, every
  constrained edge joins members of a known constraint, and neither the hierarchy nor the dataflow has a
  cycle.
\<close>
theorem validation_exact:
  assumes "edges_printable edges" and "list_all (\<lambda>c. list_all printable (mc_members c)) constraints"
  shows "\<exists>r. validate_graph_records repr nodes edges constraints = Inr r
    \<and> (report_valid r \<longleftrightarrow> graph_consistent nodes edges constraints)"
  by (rule validation_total [OF assms])

theorem validation_exact_witness:
  "\<exists>r. validate_graph_records (\<lambda>_. []) demo_nodes demo_edges demo_constraints = Inr r
    \<and> (report_valid r \<longleftrightarrow> graph_consistent demo_nodes demo_edges demo_constraints)"
proof -
  have "edges_printable demo_edges" "list_all (\<lambda>c. list_all printable (mc_members c)) demo_constraints"
    by code_simp+
  then show ?thesis by (rule validation_exact)
qed

end
