(* ===== verification/GraphBuilder.thy ===== *)
theory GraphBuilder
  imports GraphValidation
begin

text \<open>
  \<open>graph/builder.py\<close>: the transformer dependency graph built from discovery records. Dictionaries are lists
  in insertion order: nodes by their identifier, edges by kind and endpoints. The lemmas show that a graph
  that is built passes the validation.
\<close>

datatype build_error = GraphBuild string | GraphFailure graph_error

abbreviation lift_graph :: "graph_error + 'a \<Rightarrow> build_error + 'a" where
  "lift_graph r \<equiv> except r GraphFailure"

type_synonym component_record = "component_id \<times> pystr \<times> attributes"

definition ATTENTION_PROJECTIONS :: "pystr list" where
  "ATTENTION_PROJECTIONS = [lit ''q_proj'', lit ''k_proj'', lit ''v_proj'', lit ''o_proj'']"

definition MLP_PROJECTIONS :: "pystr list" where
  "MLP_PROJECTIONS = [lit ''gate_proj'', lit ''up_proj'', lit ''down_proj'']"

text \<open>\<open>id.child(name)\<close>; an error of it is a \<open>ValueError\<close>.\<close>

definition child_of :: "component_id \<Rightarrow> pystr \<Rightarrow> build_error + component_id" where
  "child_of i name = except (child i (Name name)) (\<lambda>_. GraphFailure (GraphValue ''invalid component segment''))"

definition node_in :: "graph_node list \<Rightarrow> component_id \<Rightarrow> bool" where
  "node_in nodes i \<longleftrightarrow> i \<in> set (map gn_id nodes)"

text \<open>An error whose message prints identifiers.\<close>

definition build_failure :: "component_id list \<Rightarrow> string \<Rightarrow> build_error + 'a" where
  "build_failure ids message = rbind (lift_graph (mapM_r graph_id_text ids)) (\<lambda>_. Inl (GraphBuild message))"

section \<open>Projection groups\<close>

definition projection_group ::
  "graph_node list \<Rightarrow> component_id \<Rightarrow> pystr list \<Rightarrow> build_error + component_id list" where
  "projection_group nodes owner names =
     rbind (mapM_r (child_of owner) names) (\<lambda>members.
     let present = filter (node_in nodes) members in
     if present \<noteq> [] \<and> length present \<noteq> length members
     then build_failure (filter (\<lambda>m. \<not> node_in nodes m) members) ''projection group is incomplete''
     else Inr present)"

section \<open>Edges\<close>

definition mk_edge :: "component_id \<Rightarrow> component_id \<Rightarrow> edge_kind \<Rightarrow> attributes \<Rightarrow> graph_edge" where
  "mk_edge source target kind attrs =
     \<lparr>ge_source = source, ge_target = target, ge_kind = kind, ge_version = EDGE_SEMANTICS_VERSION,
      ge_attributes = attrs\<rparr>"

definition add_edge :: "graph_edge list \<Rightarrow> graph_edge \<Rightarrow> build_error + graph_edge list" where
  "add_edge edges e =
     (case find (\<lambda>f. edge_key f = edge_key e) edges of
        Some existing \<Rightarrow>
          if existing \<noteq> e then build_failure [ge_source e, ge_target e] ''conflicting duplicate edge''
          else Inr edges
      | None \<Rightarrow> Inr (edges @ [e]))"

definition constraint_attributes :: "pystr \<Rightarrow> attributes" where
  "constraint_attributes cid = [(lit ''constraint_id'', PStr cid)]"

definition add_constraint_pair ::
  "pystr \<Rightarrow> graph_edge list \<Rightarrow> component_id \<times> component_id \<Rightarrow> build_error + graph_edge list" where
  "add_constraint_pair cid edges pair =
     (let (left, right) = pair in
      rbind (lift_graph (graph_edge_init (mk_edge left right COUPLED []))) (\<lambda>coupled.
      rbind (add_edge edges coupled) (\<lambda>edges.
      rbind (lift_graph (graph_edge_init (mk_edge left right CONSTRAINED (constraint_attributes cid)))) (\<lambda>constrained.
      add_edge edges constrained))))"

definition add_constraint_edges ::
  "component_id list \<Rightarrow> pystr \<Rightarrow> graph_edge list \<Rightarrow> build_error + graph_edge list" where
  "add_constraint_edges members cid edges =
     rbind (lift_graph (sorted_ids (\<lambda>m. m) members)) (\<lambda>ordered.
     foldM_r (add_constraint_pair cid) edges (pairs_of ordered))"

definition add_flow ::
  "graph_edge list \<Rightarrow> component_id \<times> component_id \<Rightarrow> build_error + graph_edge list" where
  "add_flow edges flow =
     (let (upstream, downstream) = flow in
      rbind (lift_graph (graph_edge_init (mk_edge downstream upstream CONSUMES []))) (\<lambda>consumes.
      rbind (lift_graph (graph_edge_init (mk_edge upstream downstream PRODUCES []))) (\<lambda>produces.
      rbind (add_edge edges consumes) (\<lambda>edges.
      add_edge edges produces))))"

section \<open>Layers\<close>

record build_state =
  bs_nodes :: "graph_node list"
  bs_edges :: "graph_edge list"
  bs_constraints :: "mutation_constraint list"

definition add_record :: "graph_node list \<Rightarrow> component_record \<Rightarrow> build_error + graph_node list" where
  "add_record nodes r =
     (let (i, kind, attrs) = r in
      rbind (lift_graph (graph_node_init \<lparr>gn_id = i, gn_kind = kind, gn_attributes = attrs\<rparr>)) (\<lambda>node.
      if node_in nodes i then build_failure [i] ''duplicate component ID'' else Inr (nodes @ [node])))"

definition add_constraint ::
  "component_id \<Rightarrow> string \<Rightarrow> constraint_kind \<Rightarrow> component_id list \<Rightarrow> build_state \<Rightarrow> build_error + build_state" where
  "add_constraint layer suffix kind members st =
     (if members = [] then Inr st
      else
        rbind (lift_graph (graph_id_text layer)) (\<lambda>layer_text.
        let cid = layer_text @ lit suffix in
        rbind (lift_graph (sorted_ids (\<lambda>m. m) members)) (\<lambda>ordered.
        rbind (lift_graph (mutation_constraint_init \<lparr>mc_id = cid, mc_kind = kind, mc_members = ordered,
                 mc_version = CONSTRAINT_SCHEMA_VERSION, mc_parameters = []\<rparr>)) (\<lambda>c.
        rbind (add_constraint_edges members cid (bs_edges st)) (\<lambda>edges.
        Inr (st\<lparr>bs_edges := edges, bs_constraints := bs_constraints st @ [c]\<rparr>))))))"

text \<open>The dataflow of one transformer block, in the order in which its edges are added.\<close>

definition layer_flows ::
  "component_id list \<Rightarrow> component_id list \<Rightarrow> component_id \<Rightarrow> component_id \<Rightarrow> component_id \<Rightarrow> component_id
     \<Rightarrow> build_error + (component_id \<times> component_id) list" where
  "layer_flows attention mlp input_norm post_norm residual_attention residual_mlp =
     (case (attention, mlp) of
        ([q, k, v, out], [gate, up, down]) \<Rightarrow>
          Inr (map (Pair input_norm) [q, k, v] @ map (\<lambda>s. (s, out)) [q, k, v]
             @ [(out, residual_attention), (residual_attention, post_norm)]
             @ map (Pair post_norm) [gate, up] @ map (\<lambda>s. (s, down)) [gate, up] @ [(down, residual_mlp)])
      | _ \<Rightarrow> Inl (GraphFailure (GraphValue ''not enough values to unpack'')))"

definition residual_node :: "component_id \<Rightarrow> graph_node" where
  "residual_node i = \<lparr>gn_id = i, gn_kind = lit ''residual_path'', gn_attributes = []\<rparr>"

definition add_flow_edges ::
  "component_id \<Rightarrow> component_id list \<Rightarrow> component_id list \<Rightarrow> build_state \<Rightarrow> build_error + build_state" where
  "add_flow_edges layer attention mlp st =
     rbind (child_of layer (lit ''input_layernorm'')) (\<lambda>input_norm.
     rbind (child_of layer (lit ''post_attention_layernorm'')) (\<lambda>post_norm.
     let missing = filter (\<lambda>i. \<not> node_in (bs_nodes st) i) [input_norm, post_norm] in
     if missing \<noteq> [] then build_failure missing ''transformer layer norms are incomplete''
     else
       rbind (child_of layer (lit ''residual_attn'')) (\<lambda>residual_attention.
       rbind (child_of layer (lit ''residual_mlp'')) (\<lambda>residual_mlp.
       if node_in (bs_nodes st) residual_attention \<or> node_in (bs_nodes st) residual_mlp
       then Inl (GraphBuild ''synthetic residual component ID collides with discovery'')
       else
         rbind (layer_flows attention mlp input_norm post_norm residual_attention residual_mlp) (\<lambda>flows.
         rbind (foldM_r add_flow (bs_edges st) flows) (\<lambda>edges.
         Inr (st\<lparr>bs_nodes := bs_nodes st @ [residual_node residual_attention, residual_node residual_mlp],
                 bs_edges := edges\<rparr>)))))))"

definition add_layer :: "build_state \<Rightarrow> component_id \<Rightarrow> build_error + build_state" where
  "add_layer st layer =
     rbind (child_of layer (lit ''self_attn'')) (\<lambda>attention.
     rbind (child_of layer (lit ''mlp'')) (\<lambda>mlp.
     rbind (projection_group (bs_nodes st) attention ATTENTION_PROJECTIONS) (\<lambda>attention_members.
     rbind (projection_group (bs_nodes st) mlp MLP_PROJECTIONS) (\<lambda>mlp_members.
     if (attention_members \<noteq> []) \<noteq> (mlp_members \<noteq> [])
     then Inl (GraphBuild ''transformer block must expose both attention and MLP projection groups'')
     else
       rbind (add_constraint layer '':attention-projections:v1'' SAME_HEAD_SET attention_members st) (\<lambda>st.
       rbind (add_constraint layer '':mlp-projections:v1'' SAME_HIDDEN_SIZE mlp_members st) (\<lambda>st.
       if attention_members @ mlp_members = [] then Inr st
       else add_flow_edges layer attention_members mlp_members st))))))"

section \<open>The whole graph\<close>

definition add_hierarchy ::
  "graph_node list \<Rightarrow> graph_edge list \<Rightarrow> component_id \<Rightarrow> build_error + graph_edge list" where
  "add_hierarchy nodes edges i =
     rbind (lift_graph (parent_of i)) (\<lambda>parent.
     case parent of
       None \<Rightarrow> Inr edges
     | Some p \<Rightarrow>
         if \<not> node_in nodes p then build_failure [i, p] ''component has missing parent''
         else
           rbind (lift_graph (graph_edge_init (mk_edge i p PARENT []))) (\<lambda>up.
           rbind (add_edge edges up) (\<lambda>edges.
           rbind (lift_graph (graph_edge_init (mk_edge p i CHILD []))) (\<lambda>down.
           add_edge edges down))))"

definition build_component_graph :: "component_record list \<Rightarrow> build_error + component_graph" where
  "build_component_graph records =
     rbind (foldM_r add_record [] records) (\<lambda>nodes.
     if \<not> node_in nodes (ComponentId [Name (lit ''model'')])
     then Inl (GraphBuild ''discovery records must contain the canonical model root'')
     else
       rbind (lift_graph (sorted_ids (\<lambda>i. i)
                (map gn_id (filter (\<lambda>n. gn_kind n = lit ''transformer_layer'') nodes)))) (\<lambda>layers.
       rbind (foldM_r add_layer \<lparr>bs_nodes = nodes, bs_edges = [], bs_constraints = []\<rparr> layers) (\<lambda>st.
       rbind (lift_graph (sorted_ids (\<lambda>i. i) (map gn_id (bs_nodes st)))) (\<lambda>ids.
       rbind (foldM_r (add_hierarchy (bs_nodes st)) (bs_edges st) ids) (\<lambda>edges.
       lift_graph (build_graph (bs_nodes st) edges (bs_constraints st)))))))"

section \<open>What the steps add\<close>

lemma build_failure_not_Inr [simp]: "build_failure ids m \<noteq> Inr x"
  by (auto simp: build_failure_def)

lemma add_edge_Inr:
  assumes "add_edge edges e = Inr edges'"
  shows "set edges' = insert e (set edges)"
proof (cases "find (\<lambda>f. edge_key f = edge_key e) edges")
  case None
  then show ?thesis using assms by (auto simp: add_edge_def)
next
  case (Some f)
  then have "f \<in> set edges" by (auto simp: find_Some_iff)
  then show ?thesis using assms Some by (auto simp: add_edge_def split: if_splits)
qed

text \<open>Rank of a component by its last name along the dataflow of a block.\<close>

definition last_name :: "component_id \<Rightarrow> pystr" where
  "last_name i = (case last (segments i) of Name n \<Rightarrow> n | Index _ \<Rightarrow> [])"

definition name_rank :: "pystr \<Rightarrow> nat" where
  "name_rank name = (case map_of
     [(lit ''input_layernorm'', 1), (lit ''q_proj'', 2), (lit ''k_proj'', 2), (lit ''v_proj'', 2),
      (lit ''o_proj'', 3), (lit ''residual_attn'', 4), (lit ''post_attention_layernorm'', 5),
      (lit ''gate_proj'', 6), (lit ''up_proj'', 6), (lit ''down_proj'', 7), (lit ''residual_mlp'', 8)]
     name of Some r \<Rightarrow> r | None \<Rightarrow> 0)"

definition flow_rank :: "component_id \<Rightarrow> nat" where
  "flow_rank i = name_rank (last_name i)"

lemma name_rank_simps [simp]:
  "name_rank (lit ''input_layernorm'') = 1" "name_rank (lit ''q_proj'') = 2"
  "name_rank (lit ''k_proj'') = 2" "name_rank (lit ''v_proj'') = 2" "name_rank (lit ''o_proj'') = 3"
  "name_rank (lit ''residual_attn'') = 4" "name_rank (lit ''post_attention_layernorm'') = 5"
  "name_rank (lit ''gate_proj'') = 6" "name_rank (lit ''up_proj'') = 6"
  "name_rank (lit ''down_proj'') = 7" "name_rank (lit ''residual_mlp'') = 8"
  by code_simp+

lemma child_of_Inr:
  assumes "child_of i name = Inr j"
  shows "j = ComponentId (segments i @ [Name name])" and "last_name j = name"
  using assms by (auto simp: child_of_def child_def component_id_init_def segment_init_def last_name_def)

lemma child_rank: "child_of owner name = Inr j \<Longrightarrow> flow_rank j = name_rank name"
  using child_of_Inr(2) by (simp add: flow_rank_def)

text \<open>What every state of the construction satisfies.\<close>

definition built_inv :: "graph_edge set \<Rightarrow> mutation_constraint set \<Rightarrow> bool" where
  "built_inv E C \<longleftrightarrow>
     (\<forall>e \<in> E. graph_edge_init e = Inr e)
     \<and> (\<forall>e \<in> E. \<forall>k. reciprocal (ge_kind e) = Some k \<longrightarrow> (k, ge_target e, ge_source e) \<in> edge_key ` E)
     \<and> (\<forall>e \<in> E. ge_kind e = PRODUCES \<longrightarrow> flow_rank (ge_source e) < flow_rank (ge_target e))
     \<and> (\<forall>e \<in> E. ge_kind e = CONSTRAINED \<longrightarrow> (\<exists>c \<in> C. edge_constraint e = PStr (mc_id c)
          \<and> ge_source e \<in> set (mc_members c) \<and> ge_target e \<in> set (mc_members c)))
     \<and> (\<forall>c \<in> C. 2 \<le> length (mc_members c) \<and> distinct (mc_members c)
          \<and> (\<forall>(l, r) \<in> set (pairs_of (mc_members c)). mk_edge l r COUPLED [] \<in> E
             \<and> mk_edge l r CONSTRAINED (constraint_attributes (mc_id c)) \<in> E))"

lemma built_inv_empty: "built_inv {} {}"
  by (simp add: built_inv_def)

lemma built_inv_grow:
  assumes "built_inv E C" and "\<forall>e \<in> N. graph_edge_init e = Inr e"
    and "\<forall>e \<in> N. \<forall>k. reciprocal (ge_kind e) = Some k \<longrightarrow> (k, ge_target e, ge_source e) \<in> edge_key ` N"
    and "\<forall>e \<in> N. ge_kind e = PRODUCES \<longrightarrow> flow_rank (ge_source e) < flow_rank (ge_target e)"
    and "\<forall>e \<in> N. ge_kind e = CONSTRAINED \<longrightarrow> (\<exists>c \<in> C \<union> D. edge_constraint e = PStr (mc_id c)
          \<and> ge_source e \<in> set (mc_members c) \<and> ge_target e \<in> set (mc_members c))"
    and "\<forall>c \<in> D. 2 \<le> length (mc_members c) \<and> distinct (mc_members c)
          \<and> (\<forall>(l, r) \<in> set (pairs_of (mc_members c)). mk_edge l r COUPLED [] \<in> N
             \<and> mk_edge l r CONSTRAINED (constraint_attributes (mc_id c)) \<in> N)"
  shows "built_inv (E \<union> N) (C \<union> D)"
  unfolding built_inv_def
proof (intro conjI)
  show "\<forall>e \<in> E \<union> N. graph_edge_init e = Inr e"
    "\<forall>e \<in> E \<union> N. ge_kind e = PRODUCES \<longrightarrow> flow_rank (ge_source e) < flow_rank (ge_target e)"
    using assms(1,2,4) unfolding built_inv_def by blast+
  show "\<forall>e \<in> E \<union> N. \<forall>k. reciprocal (ge_kind e) = Some k \<longrightarrow> (k, ge_target e, ge_source e) \<in> edge_key ` (E \<union> N)"
    using assms(1,3) unfolding built_inv_def image_Un by blast
  show "\<forall>e \<in> E \<union> N. ge_kind e = CONSTRAINED \<longrightarrow> (\<exists>c \<in> C \<union> D. edge_constraint e = PStr (mc_id c)
          \<and> ge_source e \<in> set (mc_members c) \<and> ge_target e \<in> set (mc_members c))"
    using assms(1,5) unfolding built_inv_def by blast
  show "\<forall>c \<in> C \<union> D. 2 \<le> length (mc_members c) \<and> distinct (mc_members c)
          \<and> (\<forall>(l, r) \<in> set (pairs_of (mc_members c)). mk_edge l r COUPLED [] \<in> E \<union> N
             \<and> mk_edge l r CONSTRAINED (constraint_attributes (mc_id c)) \<in> E \<union> N)"
    using assms(1,6) unfolding built_inv_def by fast
qed

lemma mk_edge_simps [simp]:
  "ge_source (mk_edge s t k a) = s" "ge_target (mk_edge s t k a) = t" "ge_kind (mk_edge s t k a) = k"
  "ge_attributes (mk_edge s t k a) = a" "edge_key (mk_edge s t k a) = (k, s, t)"
  by (simp_all add: mk_edge_def edge_key_def)

lemma graph_edge_init_same: "graph_edge_init e = Inr f \<Longrightarrow> f = e"
  by (simp add: graph_edge_init_Inr)

lemma lift_graph_edge: "lift_graph (graph_edge_init e) = Inr f \<longleftrightarrow> f = e \<and> graph_edge_init e = Inr e"
  using graph_edge_init_same [of e f] by auto

subsection \<open>Dataflow\<close>

lemma add_flow_inv:
  assumes "add_flow edges (u, d) = Inr edges'" and "built_inv (set edges) C" and "flow_rank u < flow_rank d"
  shows "built_inv (set edges') C"
proof -
  let ?N = "{mk_edge d u CONSUMES [], mk_edge u d PRODUCES []}"
  from assms(1) obtain es where init: "\<forall>e \<in> ?N. graph_edge_init e = Inr e"
    and es: "add_edge edges (mk_edge d u CONSUMES []) = Inr es" "add_edge es (mk_edge u d PRODUCES []) = Inr edges'"
    by (auto simp: add_flow_def lift_graph_edge simp del: except_Inr_iff)
  have "built_inv (set edges \<union> ?N) (C \<union> {})"
    by (rule built_inv_grow [OF assms(2) init]) (use assms(3) in auto)
  moreover have "set edges' = set edges \<union> ?N"
    using add_edge_Inr [OF es(1)] add_edge_Inr [OF es(2)] by auto
  ultimately show ?thesis by simp
qed

lemma add_flows_inv:
  assumes "foldM_r add_flow edges flows = Inr edges'" and "built_inv (set edges) C"
    and "\<forall>(u, d) \<in> set flows. flow_rank u < flow_rank d"
  shows "built_inv (set edges') C"
proof (rule foldM_r_invariant [OF assms(1), where P = "\<lambda>es. built_inv (set es) C"])
  show "built_inv (set edges) C" by (rule assms(2))
  fix es flow es'
  assume "built_inv (set es) C" "flow \<in> set flows" "add_flow es flow = Inr es'"
  then show "built_inv (set es') C" using assms(3) by (cases flow) (auto intro: add_flow_inv)
qed

subsection \<open>Constraints\<close>

definition pair_edges :: "pystr \<Rightarrow> component_id \<times> component_id \<Rightarrow> graph_edge set" where
  "pair_edges cid lr = {mk_edge (fst lr) (snd lr) COUPLED [],
     mk_edge (fst lr) (snd lr) CONSTRAINED (constraint_attributes cid)}"

lemma add_constraint_pair_Inr:
  assumes "add_constraint_pair cid edges p = Inr edges'"
  shows "set edges' = set edges \<union> pair_edges cid p" and "\<forall>e \<in> pair_edges cid p. graph_edge_init e = Inr e"
proof -
  obtain l r where p: "p = (l, r)" by (cases p)
  from assms obtain es where
    init: "graph_edge_init (mk_edge l r COUPLED []) = Inr (mk_edge l r COUPLED [])"
      "graph_edge_init (mk_edge l r CONSTRAINED (constraint_attributes cid))
        = Inr (mk_edge l r CONSTRAINED (constraint_attributes cid))"
    and es: "add_edge edges (mk_edge l r COUPLED []) = Inr es"
      "add_edge es (mk_edge l r CONSTRAINED (constraint_attributes cid)) = Inr edges'"
    by (auto simp: p add_constraint_pair_def lift_graph_edge simp del: except_Inr_iff)
  then show "set edges' = set edges \<union> pair_edges cid p" "\<forall>e \<in> pair_edges cid p. graph_edge_init e = Inr e"
    using add_edge_Inr [OF es(1)] add_edge_Inr [OF es(2)] by (auto simp: p pair_edges_def)
qed

lemma add_constraint_pairs:
  assumes "foldM_r (add_constraint_pair cid) edges pairs = Inr edges'"
  shows "set edges' = set edges \<union> (\<Union>p \<in> set pairs. pair_edges cid p)"
    and "\<forall>e \<in> (\<Union>p \<in> set pairs. pair_edges cid p). graph_edge_init e = Inr e"
proof -
  have "set edges' = set edges \<union> (\<Union>p \<in> set pairs. pair_edges cid p)
      \<and> (\<forall>e \<in> (\<Union>p \<in> set pairs. pair_edges cid p). graph_edge_init e = Inr e)"
    using assms
  proof (induction pairs arbitrary: edges)
    case (Cons p pairs)
    then obtain es where es: "add_constraint_pair cid edges p = Inr es"
      "foldM_r (add_constraint_pair cid) es pairs = Inr edges'" by auto
    show ?case
      using Cons.IH [OF es(2)] add_constraint_pair_Inr [OF es(1)] by auto
  qed simp
  then show "set edges' = set edges \<union> (\<Union>p \<in> set pairs. pair_edges cid p)"
    and "\<forall>e \<in> (\<Union>p \<in> set pairs. pair_edges cid p). graph_edge_init e = Inr e" by auto
qed

lemma pairs_of_members: "(l, r) \<in> set (pairs_of xs) \<Longrightarrow> l \<in> set xs \<and> r \<in> set xs"
  by (induction xs) auto

lemma edge_constraint_mk [simp]: "edge_constraint (mk_edge s t k (constraint_attributes cid)) = PStr cid"
  by (simp add: edge_constraint_def constraint_attributes_def)

lemma add_constraint_inv:
  assumes "add_constraint layer suffix kind members st = Inr st'"
    and "built_inv (set (bs_edges st)) (set (bs_constraints st))" and "length members \<noteq> 1"
  shows "built_inv (set (bs_edges st')) (set (bs_constraints st'))" and "bs_nodes st' = bs_nodes st"
proof -
  have "built_inv (set (bs_edges st')) (set (bs_constraints st')) \<and> bs_nodes st' = bs_nodes st"
  proof (cases "members = []")
    case True
    then show ?thesis using assms by (simp add: add_constraint_def)
  next
    case False
    from assms(1) False obtain t ordered c edges where
      ordered: "sorted_ids (\<lambda>m. m) members = Inr ordered"
      and c: "mutation_constraint_init \<lparr>mc_id = t @ lit suffix, mc_kind = kind, mc_members = ordered,
                 mc_version = CONSTRAINT_SCHEMA_VERSION, mc_parameters = []\<rparr> = Inr c"
      and edges: "add_constraint_edges members (t @ lit suffix) (bs_edges st) = Inr edges"
      and st': "st' = st\<lparr>bs_edges := edges, bs_constraints := bs_constraints st @ [c]\<rparr>"
      by (auto simp: add_constraint_def Let_def)
    have mc: "mc_id c = t @ lit suffix" "mc_members c = ordered" "distinct ordered"
      using c by (auto simp: mutation_constraint_init_Inr)
    have run: "foldM_r (add_constraint_pair (t @ lit suffix)) (bs_edges st) (pairs_of ordered) = Inr edges"
      using edges ordered by (simp add: add_constraint_edges_def)
    note new = add_constraint_pairs [OF run]
    let ?N = "\<Union>p \<in> set (pairs_of ordered). pair_edges (t @ lit suffix) p"
    have "length ordered = length members" using sorted_ids_Inr(2) [OF ordered] by (metis size_mset)
    moreover have "length members \<noteq> 0" using False by simp
    ultimately have "2 \<le> length ordered" using assms(3) by linarith
    moreover have "(\<forall>e \<in> ?N. ge_kind e = CONSTRAINED \<longrightarrow> edge_constraint e = PStr (mc_id c)
        \<and> ge_source e \<in> set (mc_members c) \<and> ge_target e \<in> set (mc_members c))"
      using pairs_of_members [of _ _ ordered] by (auto simp: pair_edges_def mc)
    ultimately have "built_inv (set (bs_edges st) \<union> ?N) (set (bs_constraints st) \<union> {c})"
      by (intro built_inv_grow [OF assms(2) new(2)]) (auto simp: pair_edges_def mc intro!: rev_bexI)
    then show ?thesis using new(1) st' by simp
  qed
  then show "built_inv (set (bs_edges st')) (set (bs_constraints st'))" "bs_nodes st' = bs_nodes st" by auto
qed

subsection \<open>Layers\<close>

lemma projection_group_Inr:
  assumes "projection_group nodes owner names = Inr ms"
  shows "ms = [] \<or> mapM_r (child_of owner) names = Inr ms"
proof -
  from assms obtain members where m: "mapM_r (child_of owner) names = Inr members"
    "ms = filter (node_in nodes) members" "ms = [] \<or> length ms = length members"
    by (auto simp: projection_group_def Let_def split: if_splits)
  have "filter (node_in nodes) members = members" if "length ms = length members"
    using that m(2) length_filter_less [of _ members "node_in nodes"] by (auto simp: filter_id_conv)
  then show ?thesis using m by auto
qed

lemma attention_ranks:
  assumes "mapM_r (child_of owner) ATTENTION_PROJECTIONS = Inr ms"
  obtains q k v out where "ms = [q, k, v, out]" and "flow_rank q = 2" "flow_rank k = 2" "flow_rank v = 2"
    and "flow_rank out = 3"
  using assms by (auto simp: ATTENTION_PROJECTIONS_def dest!: child_rank)

lemma mlp_ranks:
  assumes "mapM_r (child_of owner) MLP_PROJECTIONS = Inr ms"
  obtains gate up down where "ms = [gate, up, down]" and "flow_rank gate = 6" "flow_rank up = 6"
    and "flow_rank down = 7"
  using assms by (auto simp: MLP_PROJECTIONS_def dest!: child_rank)

lemma add_flow_edges_inv:
  assumes "add_flow_edges layer attention mlp st = Inr st'"
    and "built_inv (set (bs_edges st)) C"
    and "mapM_r (child_of a) ATTENTION_PROJECTIONS = Inr attention" and "mapM_r (child_of m) MLP_PROJECTIONS = Inr mlp"
  shows "built_inv (set (bs_edges st')) C" and "set (bs_nodes st) \<subseteq> set (bs_nodes st')"
    and "bs_constraints st' = bs_constraints st"
proof -
  from assms(1) obtain input_norm post_norm r1 r2 flows edges where
    children: "child_of layer (lit ''input_layernorm'') = Inr input_norm"
      "child_of layer (lit ''post_attention_layernorm'') = Inr post_norm"
      "child_of layer (lit ''residual_attn'') = Inr r1" "child_of layer (lit ''residual_mlp'') = Inr r2"
    and flows: "layer_flows attention mlp input_norm post_norm r1 r2 = Inr flows"
    and edges: "foldM_r add_flow (bs_edges st) flows = Inr edges"
    and st': "st' = st\<lparr>bs_nodes := bs_nodes st @ [residual_node r1, residual_node r2], bs_edges := edges\<rparr>"
    by (auto simp: add_flow_edges_def Let_def split: if_splits)
  have ranks: "flow_rank input_norm = 1" "flow_rank post_norm = 5" "flow_rank r1 = 4" "flow_rank r2 = 8"
    using children by (auto dest!: child_rank)
  obtain q k v out where attention: "attention = [q, k, v, out]" and
    ar: "flow_rank q = 2" "flow_rank k = 2" "flow_rank v = 2" "flow_rank out = 3"
    by (rule attention_ranks [OF assms(3)])
  obtain gate up down where mlp: "mlp = [gate, up, down]" and
    mr: "flow_rank gate = 6" "flow_rank up = 6" "flow_rank down = 7"
    by (rule mlp_ranks [OF assms(4)])
  have "\<forall>(u, d) \<in> set flows. flow_rank u < flow_rank d"
    using flows by (auto simp: layer_flows_def attention mlp ranks ar mr)
  with add_flows_inv [OF edges assms(2)] show "built_inv (set (bs_edges st')) C" by (simp add: st')
  show "set (bs_nodes st) \<subseteq> set (bs_nodes st')" "bs_constraints st' = bs_constraints st" by (auto simp: st')
qed

lemma add_layer_inv:
  assumes "add_layer st layer = Inr st'" and "built_inv (set (bs_edges st)) (set (bs_constraints st))"
  shows "built_inv (set (bs_edges st')) (set (bs_constraints st')) \<and> set (bs_nodes st) \<subseteq> set (bs_nodes st')"
proof -
  from assms(1) obtain attention mlp am mm st1 st2 where
    groups: "projection_group (bs_nodes st) attention ATTENTION_PROJECTIONS = Inr am"
      "projection_group (bs_nodes st) mlp MLP_PROJECTIONS = Inr mm"
    and both: "am \<noteq> [] \<longleftrightarrow> mm \<noteq> []"
    and c: "add_constraint layer '':attention-projections:v1'' SAME_HEAD_SET am st = Inr st1"
      "add_constraint layer '':mlp-projections:v1'' SAME_HIDDEN_SIZE mm st1 = Inr st2"
    and flow: "(if am @ mm = [] then Inr st2 else add_flow_edges layer am mm st2) = Inr st'"
    unfolding add_layer_def by (elim rbind_InrE) (simp split: if_splits; elim rbind_InrE; blast)
  have am: "am = [] \<or> mapM_r (child_of attention) ATTENTION_PROJECTIONS = Inr am"
    and mm: "mm = [] \<or> mapM_r (child_of mlp) MLP_PROJECTIONS = Inr mm"
    using groups by (auto dest: projection_group_Inr)
  have len: "length am \<noteq> 1" "length mm \<noteq> 1"
    using am mm by (auto elim!: attention_ranks mlp_ranks)
  note st1 = add_constraint_inv [OF c(1) assms(2) len(1)]
  note st2 = add_constraint_inv [OF c(2) st1(1) len(2)]
  show ?thesis
  proof (cases "am = []")
    case True
    then show ?thesis using flow both st1 st2 by simp
  next
    case False
    then have run: "add_flow_edges layer am mm st2 = Inr st'" using flow by simp
    have "mapM_r (child_of attention) ATTENTION_PROJECTIONS = Inr am"
      "mapM_r (child_of mlp) MLP_PROJECTIONS = Inr mm" using False both am mm by auto
    note f = add_flow_edges_inv [OF run st2(1) this]
    show ?thesis using f st1(2) st2(2) by simp
  qed
qed

subsection \<open>Nodes and hierarchy\<close>

definition record_node :: "component_record \<Rightarrow> graph_node" where
  "record_node r = \<lparr>gn_id = fst r, gn_kind = fst (snd r), gn_attributes = snd (snd r)\<rparr>"

lemma add_records:
  "foldM_r add_record nodes records = Inr nodes' \<Longrightarrow> set nodes' = set nodes \<union> record_node ` set records"
proof (induction records arbitrary: nodes)
  case (Cons r records)
  then obtain ns where ns: "add_record nodes r = Inr ns" "foldM_r add_record ns records = Inr nodes'" by auto
  have "set ns = insert (record_node r) (set nodes)"
    using ns(1) by (cases r) (auto simp: add_record_def record_node_def graph_node_init_Inr split: if_splits)
  then show ?case using Cons.IH [OF ns(2)] by simp
qed simp

definition hierarchy_edges :: "component_id \<Rightarrow> graph_edge set" where
  "hierarchy_edges i = (case parent_of i of
     Inr (Some p) \<Rightarrow> {mk_edge i p PARENT [], mk_edge p i CHILD []} | _ \<Rightarrow> {})"

lemma add_hierarchy_Inr:
  assumes "add_hierarchy nodes edges i = Inr edges'" and "built_inv (set edges) C"
  shows "set edges' = set edges \<union> hierarchy_edges i" and "built_inv (set edges') C"
proof -
  from assms(1) obtain p where p: "parent_of i = Inr p" by (auto simp: add_hierarchy_def)
  have "set edges' = set edges \<union> hierarchy_edges i \<and> built_inv (set edges') C"
  proof (cases p)
    case None
    then show ?thesis using assms p by (simp add: add_hierarchy_def hierarchy_edges_def)
  next
    case (Some q)
    let ?N = "{mk_edge i q PARENT [], mk_edge q i CHILD []}"
    from assms(1) p Some obtain es where init: "\<forall>e \<in> ?N. graph_edge_init e = Inr e"
      and es: "add_edge edges (mk_edge i q PARENT []) = Inr es" "add_edge es (mk_edge q i CHILD []) = Inr edges'"
      by (auto simp: add_hierarchy_def lift_graph_edge simp del: except_Inr_iff split: if_splits)
    have "built_inv (set edges \<union> ?N) (C \<union> {})" by (rule built_inv_grow [OF assms(2) init]) auto
    moreover have "set edges' = set edges \<union> ?N"
      using add_edge_Inr [OF es(1)] add_edge_Inr [OF es(2)] by auto
    ultimately show ?thesis using p Some by (simp add: hierarchy_edges_def)
  qed
  then show "set edges' = set edges \<union> hierarchy_edges i" "built_inv (set edges') C" by auto
qed

lemma add_hierarchies:
  "foldM_r (add_hierarchy nodes) edges ids = Inr edges' \<Longrightarrow> built_inv (set edges) C \<Longrightarrow>
     set edges' = set edges \<union> (\<Union>i \<in> set ids. hierarchy_edges i) \<and> built_inv (set edges') C"
proof (induction ids arbitrary: edges)
  case (Cons i ids)
  then obtain es where es: "add_hierarchy nodes edges i = Inr es"
    "foldM_r (add_hierarchy nodes) es ids = Inr edges'" by auto
  note step = add_hierarchy_Inr [OF es(1) Cons.prems(2)]
  show ?case using Cons.IH [OF es(2) step(2)] step(1) by auto
qed simp

section \<open>A built graph is consistent\<close>

lemma child_edges_acyclic:
  assumes "\<forall>e \<in> set edges. graph_edge_init e = Inr e"
  shows "acyclic (edge_rel edges CHILD)"
proof -
  have "length (segments a) < length (segments b)" if "(a, b) \<in> edge_rel edges CHILD" for a b
  proof -
    have "parent_of b = Inr (Some a)"
      using that assms by (auto simp: edge_rel_def graph_edge_init_Inr)
    then show ?thesis
      by (cases "segments b") (auto simp: parent_of_def parent_def component_id_init_def split: if_splits)
  qed
  then have "acyclic ((edge_rel edges CHILD)\<inverse>)"
    by (intro acyclicI_order [where f = "\<lambda>i. length (segments i)"]) auto
  then show ?thesis by simp
qed

lemma flow_edges_acyclic:
  assumes "\<forall>e \<in> set edges. ge_kind e = PRODUCES \<longrightarrow> flow_rank (ge_source e) < flow_rank (ge_target e)"
  shows "acyclic (edge_rel edges PRODUCES)"
proof -
  have "acyclic ((edge_rel edges PRODUCES)\<inverse>)"
    by (rule acyclicI_order [where f = flow_rank]) (use assms in \<open>auto simp: edge_rel_def\<close>)
  then show ?thesis by simp
qed

lemma constraint_by_id_mem:
  assumes "distinct (map mc_id cs)" and "c \<in> set cs"
  shows "constraint_by_id cs (PStr (mc_id c)) = Some c"
proof -
  have "distinct (map fst (rev (map (\<lambda>c. (mc_id c, c)) cs)))"
    using assms(1) by (simp add: rev_map [symmetric] comp_def)
  then show ?thesis using assms(2) by (simp add: constraint_by_id_def)
qed

lemma built_consistent:
  assumes g: "component_graph_init g = Inr g" and inv: "built_inv (set (cg_edges g)) (set (cg_constraints g))"
  shows "graph_consistent (cg_nodes g) (cg_edges g) (cg_constraints g)"
  unfolding graph_consistent_def
proof (intro conjI)
  have init: "\<forall>e \<in> set (cg_edges g). graph_edge_init e = Inr e" using inv by (simp add: built_inv_def)
  note ok = g [unfolded component_graph_init_Inr]
  show "\<forall>e \<in> set (cg_edges g). ge_source e \<in> gn_id ` set (cg_nodes g) \<and> ge_target e \<in> gn_id ` set (cg_nodes g)"
    using ok by blast
  show "\<forall>c \<in> set (cg_constraints g). set (mc_members c) \<subseteq> gn_id ` set (cg_nodes g)"
    using ok by blast
  show "\<forall>e \<in> set (cg_edges g). \<forall>k. reciprocal (ge_kind e) = Some k \<longrightarrow>
          (k, ge_target e, ge_source e) \<in> edge_key ` set (cg_edges g)"
    using inv by (simp add: built_inv_def)
  show "\<forall>c \<in> set (cg_constraints g). \<forall>(l, r) \<in> set (pairs_of (mc_members c)).
          (COUPLED, l, r) \<in> edge_key ` set (cg_edges g) \<and> constrained_by (cg_edges g) (mc_id c) l r"
  proof (intro ballI, clarify)
    fix c l r assume "c \<in> set (cg_constraints g)" "(l, r) \<in> set (pairs_of (mc_members c))"
    then have e: "mk_edge l r COUPLED [] \<in> set (cg_edges g)"
      "mk_edge l r CONSTRAINED (constraint_attributes (mc_id c)) \<in> set (cg_edges g)"
      using inv by (auto simp: built_inv_def)
    have "(COUPLED, l, r) \<in> edge_key ` set (cg_edges g)"
      using imageI [OF e(1), of edge_key] by simp
    then show "(COUPLED, l, r) \<in> edge_key ` set (cg_edges g) \<and> constrained_by (cg_edges g) (mc_id c) l r"
      using e(2) by (auto simp: constrained_by_def list_ex_iff intro!: bexI [OF _ e(2)])
  qed
  show "\<forall>e \<in> set (cg_edges g). ge_kind e = CONSTRAINED \<longrightarrow>
          (\<exists>c. constraint_by_id (cg_constraints g) (edge_constraint e) = Some c
             \<and> ge_source e \<in> set (mc_members c) \<and> ge_target e \<in> set (mc_members c))"
  proof (intro ballI impI)
    fix e assume "e \<in> set (cg_edges g)" "ge_kind e = CONSTRAINED"
    then obtain c where "c \<in> set (cg_constraints g)" "edge_constraint e = PStr (mc_id c)"
      "ge_source e \<in> set (mc_members c)" "ge_target e \<in> set (mc_members c)"
      using inv unfolding built_inv_def by blast
    then show "\<exists>c. constraint_by_id (cg_constraints g) (edge_constraint e) = Some c
             \<and> ge_source e \<in> set (mc_members c) \<and> ge_target e \<in> set (mc_members c)"
      using constraint_by_id_mem ok by auto
  qed
  show "acyclic (edge_rel (cg_edges g) CHILD)" by (rule child_edges_acyclic [OF init])
  show "acyclic (edge_rel (cg_edges g) PRODUCES)"
    by (rule flow_edges_acyclic) (use inv in \<open>simp add: built_inv_def\<close>)
qed

text \<open>With two nodes or more, a graph was sorted, so all its identifiers print.\<close>

lemma two_nodes:
  assumes "i \<noteq> j" and "i \<in> gn_id ` set ns" and "j \<in> gn_id ` set ns"
  shows "2 \<le> length ns"
proof -
  have "card {i, j} \<le> card (gn_id ` set ns)" using assms(2,3) by (intro card_mono) auto
  also have "\<dots> \<le> card (set ns)" by (rule card_image_le) simp
  also have "\<dots> \<le> length ns" by (rule card_length)
  finally show ?thesis using assms(1) by simp
qed

lemma built_printable:
  assumes build: "build_graph nodes edges constraints = Inr g"
    and inv: "built_inv (set (cg_edges g)) (set (cg_constraints g))"
  shows "edges_printable (cg_edges g)" and "list_all (\<lambda>c. list_all printable (mc_members c)) (cg_constraints g)"
proof -
  note b = build_graph_Inr [OF build]
  note ok = b(4) [unfolded component_graph_init_Inr]
  have p: "printable i" if "i \<noteq> j" "i \<in> gn_id ` set (cg_nodes g)" "j \<in> gn_id ` set (cg_nodes g)" for i j
  proof -
    have "2 \<le> length nodes" using two_nodes [of i j nodes] that b(5) by simp
    then show ?thesis using sorted_ids_Inr(4) [OF b(1)] that(2) b(5) by (auto simp: list_all_iff)
  qed
  show "edges_printable (cg_edges g)"
    unfolding edges_printable_def list_all_iff
  proof
    fix e assume e: "e \<in> set (cg_edges g)"
    then have "ge_source e \<noteq> ge_target e" using inv by (auto simp: built_inv_def graph_edge_init_Inr)
    moreover have "ge_source e \<in> gn_id ` set (cg_nodes g)" "ge_target e \<in> gn_id ` set (cg_nodes g)"
      using ok e by auto
    ultimately show "printable (ge_source e) \<and> printable (ge_target e)" by (metis p)
  qed
  show "list_all (\<lambda>c. list_all printable (mc_members c)) (cg_constraints g)"
    unfolding list_all_iff
  proof (intro ballI)
    fix c m assume c: "c \<in> set (cg_constraints g)" and m: "m \<in> set (mc_members c)"
    then have len: "2 \<le> length (mc_members c)" "distinct (mc_members c)" and
      sub: "set (mc_members c) \<subseteq> gn_id ` set (cg_nodes g)"
      using inv ok by (auto simp: built_inv_def)
    have "\<not> set (mc_members c) \<subseteq> {m}"
      using len distinct_card [OF len(2)] card_mono [of "{m}" "set (mc_members c)"] by auto
    then obtain n where "n \<in> set (mc_members c)" "m \<noteq> n" by auto
    then show "printable m" using p [of m n] m sub by blast
  qed
qed

lemma build_component_graph_Inr:
  assumes "build_component_graph records = Inr g"
  obtains nodes edges constraints where "build_graph nodes edges constraints = Inr g"
    and "built_inv (set edges) (set constraints)" and "record_node ` set records \<subseteq> set nodes"
    and "(\<Union>i \<in> gn_id ` set nodes. hierarchy_edges i) \<subseteq> set edges"
proof -
  from assms obtain ns layers st ids edges where
    ns: "foldM_r add_record [] records = Inr ns"
    and st: "foldM_r add_layer \<lparr>bs_nodes = ns, bs_edges = [], bs_constraints = []\<rparr> layers = Inr st"
    and ids: "sorted_ids (\<lambda>i. i) (map gn_id (bs_nodes st)) = Inr ids"
    and edges: "foldM_r (add_hierarchy (bs_nodes st)) (bs_edges st) ids = Inr edges"
    and g: "build_graph (bs_nodes st) edges (bs_constraints st) = Inr g"
    by (auto simp: build_component_graph_def split: if_splits)
  have inv: "built_inv (set (bs_edges st)) (set (bs_constraints st)) \<and> set ns \<subseteq> set (bs_nodes st)"
  proof (rule foldM_r_invariant [OF st])
    fix s layer s'
    assume s: "built_inv (set (bs_edges s)) (set (bs_constraints s)) \<and> set ns \<subseteq> set (bs_nodes s)"
      and step: "add_layer s layer = Inr s'"
    show "built_inv (set (bs_edges s')) (set (bs_constraints s')) \<and> set ns \<subseteq> set (bs_nodes s')"
      using add_layer_inv [OF step] s by blast
  qed (simp add: built_inv_empty)
  have final: "set edges = set (bs_edges st) \<union> (\<Union>i \<in> set ids. hierarchy_edges i)"
    "built_inv (set edges) (set (bs_constraints st))"
    using add_hierarchies [OF edges, of "set (bs_constraints st)"] inv by auto
  have "set ids = gn_id ` set (bs_nodes st)" using sorted_ids_Inr(3) [OF ids] by simp
  then show ?thesis
    using that [OF g final(2)] final(1) inv add_records [OF ns] by auto
qed

text \<open>
  C7. A graph the builder returns passes the validation of its own module with an empty report. It keeps
  every discovered component as a node, and every node below another has its parent as a node and the
  edges of the hierarchy in both directions.
\<close>
theorem built_graph_valid:
  assumes "build_component_graph records = Inr g"
  shows "(\<exists>r. validate_component_graph repr g = Inr r \<and> report_valid r)
    \<and> record_node ` set records \<subseteq> set (cg_nodes g)
    \<and> (\<forall>n \<in> set (cg_nodes g). \<forall>p. parent_of (gn_id n) = Inr (Some p) \<longrightarrow>
         p \<in> gn_id ` set (cg_nodes g) \<and> mk_edge (gn_id n) p PARENT [] \<in> set (cg_edges g)
         \<and> mk_edge p (gn_id n) CHILD [] \<in> set (cg_edges g))"
proof -
  from assms obtain nodes edges constraints where
    build: "build_graph nodes edges constraints = Inr g" and
    inv: "built_inv (set edges) (set constraints)" and
    nodes: "record_node ` set records \<subseteq> set nodes" and
    tree: "(\<Union>i \<in> gn_id ` set nodes. hierarchy_edges i) \<subseteq> set edges"
    by (rule build_component_graph_Inr)
  note b = build_graph_Inr [OF build]
  have inv: "built_inv (set (cg_edges g)) (set (cg_constraints g))" using inv b(6,7) by simp
  obtain r where "validate_component_graph repr g = Inr r"
    "report_valid r \<longleftrightarrow> graph_consistent (cg_nodes g) (cg_edges g) (cg_constraints g)"
    using validation_total [OF built_printable [OF build inv]] unfolding validate_component_graph_def by blast
  moreover have "p \<in> gn_id ` set (cg_nodes g) \<and> mk_edge (gn_id n) p PARENT [] \<in> set (cg_edges g)
      \<and> mk_edge p (gn_id n) CHILD [] \<in> set (cg_edges g)"
    if n: "n \<in> set (cg_nodes g)" and p: "parent_of (gn_id n) = Inr (Some p)" for n p
  proof -
    have "hierarchy_edges (gn_id n) \<subseteq> set (cg_edges g)" using tree n b(5,6) by auto
    then have e: "mk_edge (gn_id n) p PARENT [] \<in> set (cg_edges g)" "mk_edge p (gn_id n) CHILD [] \<in> set (cg_edges g)"
      using p by (simp_all add: hierarchy_edges_def)
    have "ge_target ` set (cg_edges g) \<subseteq> gn_id ` set (cg_nodes g)"
      using b(4) unfolding component_graph_init_Inr by (elim conjE)
    with imageI [OF e(1), of ge_target] show ?thesis using e by auto
  qed
  ultimately show ?thesis using built_consistent [OF b(4) inv] nodes b(5) by auto
qed

text \<open>A layer without projections under the root.\<close>

definition demo_path :: "segment list \<Rightarrow> component_id" where
  "demo_path gs = ComponentId ([Name (lit ''model''), Index 0] @ gs)"

definition demo_records :: "component_record list" where
  "demo_records =
     [(demo_root, lit ''model'', []), (demo_path [], lit ''transformer_layer'', [(lit ''index'', PInt 0)]),
      (demo_path [Name (lit ''mlp'')], lit ''mlp'', [])]"

lemma demo_records_build:
  "(case build_component_graph demo_records of Inl _ \<Rightarrow> 0 | Inr g \<Rightarrow> length (cg_edges g)) = (4 :: nat)"
  by code_simp

theorem built_graph_valid_witness:
  "\<exists>g r. build_component_graph demo_records = Inr g \<and> validate_component_graph (\<lambda>_. []) g = Inr r \<and> report_valid r"
proof -
  obtain g where g: "build_component_graph demo_records = Inr g"
    using demo_records_build by (auto split: sum.splits)
  from built_graph_valid [OF this, of "\<lambda>_. []"] show ?thesis using g by blast
qed

end
