(* ===== verification/GraphSerialization.thy ===== *)
theory GraphSerialization
  imports GraphSchema
begin

text \<open>
  \<open>graph/serialization.py\<close>: the persisted form of a component graph. A document is the JSON value its text
  stands for; writing sorts the keys of every object. The lemmas show that a dumped graph loads back and
  that only canonical graphs load.
\<close>

datatype serialization_error =
    Serialization string
  | SerializedValue graph_error
  | SerializedId component_error

definition GRAPH_ARTIFACT_SCHEMA_VERSION :: int where
  "GRAPH_ARTIFACT_SCHEMA_VERSION = 1"

record graph_provenance =
  gp_adapter_name :: pystr
  gp_adapter_version :: pystr
  gp_model_revision :: pystr

definition graph_provenance_init :: "graph_provenance \<Rightarrow> graph_error + graph_provenance" where
  "graph_provenance_init p =
     rbind (raise_if (gp_adapter_name p = [] \<or> gp_adapter_version p = [] \<or> gp_model_revision p = [])
              (GraphValue ''adapter name, adapter version, and model revision must be non-empty'')) (\<lambda>_.
     Inr p)"

definition provenance_record :: "graph_provenance \<Rightarrow> json" where
  "provenance_record p =
     JObj [(lit ''adapter_name'', JStr (gp_adapter_name p)),
           (lit ''adapter_version'', JStr (gp_adapter_version p)),
           (lit ''model_revision'', JStr (gp_model_revision p))]"

record persisted_graph =
  pg_graph :: component_graph
  pg_provenance :: graph_provenance
  pg_version :: int

definition persisted_graph_init :: "persisted_graph \<Rightarrow> graph_error + persisted_graph" where
  "persisted_graph_init p =
     rbind (raise_if (pg_version p \<noteq> GRAPH_ARTIFACT_SCHEMA_VERSION)
              (GraphValue ''unsupported graph artifact schema version'')) (\<lambda>_.
     Inr p)"

definition persisted_record :: "persisted_graph \<Rightarrow> graph_error + json" where
  "persisted_record p =
     rbind (graph_record (pg_graph p)) (\<lambda>g.
     Inr (JObj [(lit ''artifact_schema_version'', JInt (pg_version p)),
                (lit ''provenance'', provenance_record (pg_provenance p)), (lit ''graph'', g)]))"

text \<open>The value of the canonical text: every object with its keys in order.\<close>

fun sort_json :: "json \<Rightarrow> json" where
  "sort_json (JList vs) = JList (map sort_json vs)"
| "sort_json (JObj kvs) = JObj (sort_key fst (map (\<lambda>(k, v). (k, sort_json v)) kvs))"
| "sort_json v = v"

definition canonical_json :: "persisted_graph \<Rightarrow> graph_error + json" where
  "canonical_json p = rbind (persisted_record p) (\<lambda>r. Inr (sort_json r))"

section \<open>Reading\<close>

definition js_mapping :: "json \<Rightarrow> serialization_error + (pystr \<times> json) list" where
  "js_mapping v = of_option (Serialization ''must be a JSON object'') (json_obj v)"

definition js_array :: "json \<Rightarrow> serialization_error + json list" where
  "js_array v = of_option (Serialization ''must be a JSON array'') (json_list v)"

definition js_exact_keys :: "(pystr \<times> json) list \<Rightarrow> pystr list \<Rightarrow> serialization_error + unit" where
  "js_exact_keys r expected =
     raise_if (set (map fst r) \<noteq> set expected) (Serialization ''keys do not match schema'')"

definition js_string :: "json \<Rightarrow> serialization_error + pystr" where
  "js_string v =
     (case json_str v of
        None \<Rightarrow> Inl (Serialization ''must be a non-empty string'')
      | Some s \<Rightarrow> if s = [] then Inl (Serialization ''must be a non-empty string'') else Inr s)"

definition js_version :: "json \<Rightarrow> int \<Rightarrow> serialization_error + unit" where
  "js_version v expected = raise_if (json_int v \<noteq> Some expected) (Serialization ''unsupported version'')"

fun json_primitive :: "json \<Rightarrow> graph_primitive option" where
  "json_primitive (JStr s) = Some (PStr s)"
| "json_primitive (JInt i) = Some (PInt i)"
| "json_primitive (JFloat f) = Some (PFloat f)"
| "json_primitive (JBool b) = Some (PBool b)"
| "json_primitive JNull = Some PNone"
| "json_primitive _ = None"

definition js_attributes :: "json \<Rightarrow> serialization_error + attributes" where
  "js_attributes v =
     rbind (js_mapping v) (\<lambda>r.
     mapM_r (\<lambda>(k, item).
         rbind (of_option (Serialization ''must be a primitive value'') (json_primitive item)) (\<lambda>p. Inr (k, p)))
       (sort_key fst r))"

definition js_id :: "json \<Rightarrow> serialization_error + component_id" where
  "js_id v = rbind (js_string v) (\<lambda>s. except (parse_component_id s) SerializedId)"

definition js_node :: "json \<Rightarrow> serialization_error + graph_node" where
  "js_node v =
     rbind (js_mapping v) (\<lambda>r.
     rbind (js_exact_keys r [lit ''component_id'', lit ''kind'', lit ''attributes'']) (\<lambda>_.
     rbind (js_id (json_get r (lit ''component_id''))) (\<lambda>i.
     rbind (js_string (json_get r (lit ''kind''))) (\<lambda>kind.
     rbind (js_attributes (json_get r (lit ''attributes''))) (\<lambda>attrs.
     except (graph_node_init \<lparr>gn_id = i, gn_kind = kind, gn_attributes = attrs\<rparr>) SerializedValue)))))"

definition edge_kind_of :: "pystr \<Rightarrow> edge_kind option" where
  "edge_kind_of s = find (\<lambda>k. edge_value k = s) [PARENT, CHILD, CONSUMES, PRODUCES, COUPLED, CONSTRAINED]"

definition constraint_kind_of :: "pystr \<Rightarrow> constraint_kind option" where
  "constraint_kind_of s = find (\<lambda>k. constraint_value k = s)
     [GROUPED_MUTATION, SAME_HIDDEN_SIZE, SAME_HEAD_SET, SHAPE_EQUALITY, CUSTOM]"

definition js_edge :: "json \<Rightarrow> serialization_error + graph_edge" where
  "js_edge v =
     rbind (js_mapping v) (\<lambda>r.
     rbind (js_exact_keys r [lit ''source'', lit ''target'', lit ''kind'', lit ''semantics_version'',
              lit ''attributes'']) (\<lambda>_.
     rbind (js_version (json_get r (lit ''semantics_version'')) EDGE_SEMANTICS_VERSION) (\<lambda>_.
     rbind (js_string (json_get r (lit ''kind''))) (\<lambda>name.
     rbind (of_option (Serialization ''edge kind is unknown'') (edge_kind_of name)) (\<lambda>kind.
     rbind (js_id (json_get r (lit ''source''))) (\<lambda>source.
     rbind (js_id (json_get r (lit ''target''))) (\<lambda>target.
     rbind (js_attributes (json_get r (lit ''attributes''))) (\<lambda>attrs.
     except (graph_edge_init \<lparr>ge_source = source, ge_target = target, ge_kind = kind,
               ge_version = EDGE_SEMANTICS_VERSION, ge_attributes = attrs\<rparr>) SerializedValue))))))))"

definition js_constraint :: "json \<Rightarrow> serialization_error + mutation_constraint" where
  "js_constraint v =
     rbind (js_mapping v) (\<lambda>r.
     rbind (js_exact_keys r [lit ''constraint_id'', lit ''kind'', lit ''members'', lit ''schema_version'',
              lit ''parameters'']) (\<lambda>_.
     rbind (js_version (json_get r (lit ''schema_version'')) CONSTRAINT_SCHEMA_VERSION) (\<lambda>_.
     rbind (js_string (json_get r (lit ''kind''))) (\<lambda>name.
     rbind (of_option (Serialization ''constraint kind is unknown'') (constraint_kind_of name)) (\<lambda>kind.
     rbind (js_array (json_get r (lit ''members''))) (\<lambda>items.
     rbind (mapM_r js_id items) (\<lambda>members.
     rbind (js_string (json_get r (lit ''constraint_id''))) (\<lambda>cid.
     rbind (js_attributes (json_get r (lit ''parameters''))) (\<lambda>params.
     except (mutation_constraint_init \<lparr>mc_id = cid, mc_kind = kind, mc_members = members,
               mc_version = CONSTRAINT_SCHEMA_VERSION, mc_parameters = params\<rparr>) SerializedValue)))))))))"

definition js_provenance :: "json \<Rightarrow> serialization_error + graph_provenance" where
  "js_provenance v =
     rbind (js_mapping v) (\<lambda>r.
     rbind (js_exact_keys r [lit ''adapter_name'', lit ''adapter_version'', lit ''model_revision'']) (\<lambda>_.
     rbind (js_string (json_get r (lit ''adapter_name''))) (\<lambda>name.
     rbind (js_string (json_get r (lit ''adapter_version''))) (\<lambda>version.
     rbind (js_string (json_get r (lit ''model_revision''))) (\<lambda>revision.
     except (graph_provenance_init \<lparr>gp_adapter_name = name, gp_adapter_version = version,
               gp_model_revision = revision\<rparr>) SerializedValue)))))"

definition js_graph :: "json \<Rightarrow> serialization_error + component_graph" where
  "js_graph v =
     rbind (js_mapping v) (\<lambda>r.
     rbind (js_exact_keys r [lit ''schema_version'', lit ''edge_semantics_version'',
              lit ''constraint_schema_version'', lit ''nodes'', lit ''edges'', lit ''constraints'']) (\<lambda>_.
     rbind (js_version (json_get r (lit ''schema_version'')) GRAPH_SCHEMA_VERSION) (\<lambda>_.
     rbind (js_version (json_get r (lit ''edge_semantics_version'')) EDGE_SEMANTICS_VERSION) (\<lambda>_.
     rbind (js_version (json_get r (lit ''constraint_schema_version'')) CONSTRAINT_SCHEMA_VERSION) (\<lambda>_.
     rbind (rbind (js_array (json_get r (lit ''nodes''))) (mapM_r js_node)) (\<lambda>nodes.
     rbind (rbind (js_array (json_get r (lit ''edges''))) (mapM_r js_edge)) (\<lambda>edges.
     rbind (rbind (js_array (json_get r (lit ''constraints''))) (mapM_r js_constraint)) (\<lambda>constraints.
     rbind (except (component_graph_init \<lparr>cg_nodes = nodes, cg_edges = edges, cg_constraints = constraints,
              cg_version = GRAPH_SCHEMA_VERSION\<rparr>) SerializedValue) (\<lambda>g.
     rbind (except (build_graph nodes edges constraints) SerializedValue) (\<lambda>canonical.
     rbind (except (graph_record g) SerializedValue) (\<lambda>record.
     rbind (except (graph_record canonical) SerializedValue) (\<lambda>canonical_record.
     rbind (raise_if (record \<noteq> canonical_record)
              (Serialization ''graph records are not in canonical ordering'')) (\<lambda>_.
     Inr g)))))))))))))"

text \<open>\<open>loads\<close> is \<open>json.loads\<close>, \<open>None\<close> where it raises.\<close>

definition load_component_graph ::
  "('text \<Rightarrow> json option) \<Rightarrow> 'text \<Rightarrow> serialization_error + persisted_graph" where
  "load_component_graph loads serialized =
     rbind (of_option (Serialization ''graph artifact is not valid UTF-8 JSON'') (loads serialized)) (\<lambda>raw.
     rbind (js_mapping raw) (\<lambda>r.
     rbind (js_exact_keys r [lit ''artifact_schema_version'', lit ''provenance'', lit ''graph'']) (\<lambda>_.
     rbind (js_version (json_get r (lit ''artifact_schema_version'')) GRAPH_ARTIFACT_SCHEMA_VERSION) (\<lambda>_.
     rbind (js_provenance (json_get r (lit ''provenance''))) (\<lambda>provenance.
     rbind (js_graph (json_get r (lit ''graph''))) (\<lambda>g.
     except (persisted_graph_init \<lparr>pg_graph = g, pg_provenance = provenance,
               pg_version = GRAPH_ARTIFACT_SCHEMA_VERSION\<rparr>) SerializedValue))))))"

definition dump_component_graph :: "component_graph \<Rightarrow> graph_provenance \<Rightarrow> graph_error + json" where
  "dump_component_graph g provenance =
     rbind (build_graph (cg_nodes g) (cg_edges g) (cg_constraints g)) (\<lambda>canonical.
     rbind (persisted_graph_init \<lparr>pg_graph = canonical, pg_provenance = provenance,
              pg_version = GRAPH_ARTIFACT_SCHEMA_VERSION\<rparr>) canonical_json)"

section \<open>Sorted objects\<close>

lemma lit_eq_iff [simp]: "lit a = lit b \<longleftrightarrow> a = b"
  by (simp add: lit_def inj_map_eq_map inj_def)

lemma insort_key_map: "insort_key f (g x) (map g xs) = map g (insort_key (\<lambda>y. f (g y)) x xs)"
  by (induction xs) auto

lemma sort_key_map: "sort_key f (map g xs) = map g (sort_key (\<lambda>y. f (g y)) xs)"
  by (induction xs) (simp_all add: insort_key_map)

lemma fst_values [simp]: "fst \<circ> (\<lambda>(k, v). (k, f v)) = fst" "fst (case kv of (k, v) \<Rightarrow> (k, f v)) = fst kv"
  by (auto simp: fun_eq_iff split: prod.splits)

lemma sort_pairs: "sort_key fst (map (\<lambda>(k, v). (k, f v)) kvs) = map (\<lambda>(k, v). (k, f v)) (sort_key fst kvs)"
  by (simp add: sort_key_map)

lemma map_of_same_set:
  assumes "set xs = set ys" and "distinct (map fst xs)" and "distinct (map fst ys)"
  shows "map_of xs = map_of ys"
  using assms map_of_inject_set by blast

lemma distinct_fst_sort [simp]: "distinct (map fst (sort_key k kvs)) \<longleftrightarrow> distinct (map fst kvs)"
  by (rule distinct_map_mset) simp

lemma map_of_sort: "distinct (map fst kvs) \<Longrightarrow> map_of (sort_key k kvs) = map_of kvs"
  by (rule map_of_same_set) simp_all

abbreviation sorted_object :: "(pystr \<times> json) list \<Rightarrow> (pystr \<times> json) list" where
  "sorted_object kvs \<equiv> sort_key fst (map (\<lambda>(k, v). (k, sort_json v)) kvs)"

lemma sorted_object_keys: "set (map fst (sorted_object kvs)) = set (map fst kvs)"
  by force

lemma sorted_object_get:
  assumes "distinct (map fst kvs)" and "map_of kvs k = Some v"
  shows "json_get (sorted_object kvs) k = sort_json v"
proof -
  have "map_of (sorted_object kvs) k = Some (sort_json v)"
    using assms by (subst map_of_sort) (simp_all add: map_of_map del: fst_values(2))
  then show ?thesis by (simp add: json_get_def)
qed

lemma js_exact_keys_sorted: "set (map fst kvs) = set ks \<Longrightarrow> js_exact_keys (sorted_object kvs) ks = Inr ()"
  unfolding js_exact_keys_def sorted_object_keys by simp

lemma js_mapping_sorted [simp]: "js_mapping (sort_json (JObj kvs)) = Inr (sorted_object kvs)"
  by (simp add: js_mapping_def)

section \<open>Every record reads back\<close>

definition normal_attributes :: "attributes \<Rightarrow> attributes" where
  "normal_attributes attrs = sort_key fst attrs"

lemma normal_attributes_ok [simp]: "attributes_ok (normal_attributes attrs) \<longleftrightarrow> attributes_ok attrs"
  by (simp add: attributes_ok_def normal_attributes_def)

lemma sort_primitive [simp]: "sort_json (primitive_json v) = primitive_json v"
  by (cases v) simp_all

lemma json_primitive_json [simp]: "json_primitive (primitive_json v) = Some v"
  by (cases v) simp_all

lemma sort_attributes: "sort_json (attributes_json attrs) = attributes_json (normal_attributes attrs)"
proof -
  have "(\<lambda>(k, v). (k, sort_json v)) \<circ> (\<lambda>(k, v). (k, primitive_json v)) = (\<lambda>(k, v). (k :: pystr, primitive_json v))"
    by (auto simp: fun_eq_iff)
  then show ?thesis by (simp add: attributes_json_def normal_attributes_def sort_pairs)
qed

lemma normal_normal [simp]: "normal_attributes (normal_attributes attrs) = normal_attributes attrs"
  by (simp add: normal_attributes_def)

lemma js_attributes_sorted: "js_attributes (sort_json (attributes_json attrs)) = Inr (normal_attributes attrs)"
proof -
  have read: "mapM_r (\<lambda>(k, item).
         rbind (of_option (Serialization ''must be a primitive value'') (json_primitive item)) (\<lambda>p. Inr (k, p)))
       (map (\<lambda>(k, v). (k, primitive_json v)) as) = Inr as" for as
    by (induction as) auto
  show ?thesis
    unfolding sort_attributes
    by (simp add: js_attributes_def attributes_json_def js_mapping_def sort_pairs normal_attributes_def read)
qed

lemma js_id_text:
  assumes "component_id_ok i" and "graph_id_text i = Inr s"
  shows "js_id (JStr s) = Inr i"
proof -
  have parse: "parse_component_id s = Inr i"
    using assms parse_component_id_exact [of s i] by (simp add: graph_id_text_def)
  have "s \<noteq> []" using parse by (auto simp: parse_component_id_def)
  then show ?thesis using parse by (simp add: js_id_def js_string_def)
qed

lemma js_string_JStr [simp]: "s \<noteq> [] \<Longrightarrow> js_string (JStr s) = Inr s"
  by (simp add: js_string_def)

lemma js_version_JInt [simp]: "js_version (JInt i) j = (if i = j then Inr () else Inl (Serialization ''unsupported version''))"
  by (simp add: js_version_def)

definition normal_node :: "graph_node \<Rightarrow> graph_node" where
  "normal_node n = n\<lparr>gn_attributes := normal_attributes (gn_attributes n)\<rparr>"

definition normal_edge :: "graph_edge \<Rightarrow> graph_edge" where
  "normal_edge e = e\<lparr>ge_attributes := normal_attributes (ge_attributes e)\<rparr>"

definition normal_constraint :: "mutation_constraint \<Rightarrow> mutation_constraint" where
  "normal_constraint c = c\<lparr>mc_parameters := normal_attributes (mc_parameters c)\<rparr>"

lemmas normal_defs = normal_node_def normal_edge_def normal_constraint_def

lemma js_node_record:
  assumes "node_record n = Inr v" and "graph_node_init n = Inr n" and "component_id_ok (gn_id n)"
  shows "js_node (sort_json v) = Inr (normal_node n)"
proof -
  from assms(1) obtain s where s: "graph_id_text (gn_id n) = Inr s" and
    v: "v = JObj [(lit ''component_id'', JStr s), (lit ''kind'', JStr (gn_kind n)),
                (lit ''attributes'', attributes_json (gn_attributes n))]" (is "v = JObj ?kvs")
    by (auto simp: node_record_def)
  have get: "json_get (sorted_object ?kvs) (lit ''component_id'') = sort_json (JStr s)"
    "json_get (sorted_object ?kvs) (lit ''kind'') = sort_json (JStr (gn_kind n))"
    "json_get (sorted_object ?kvs) (lit ''attributes'') = sort_json (attributes_json (gn_attributes n))"
    by (rule sorted_object_get; simp)+
  have keys: "js_exact_keys (sorted_object ?kvs) [lit ''component_id'', lit ''kind'', lit ''attributes''] = Inr ()"
    by (rule js_exact_keys_sorted) simp
  have n: "gn_kind n \<noteq> []" "attributes_ok (gn_attributes n)" using assms(2) by (simp_all add: graph_node_init_Inr)
  then have "graph_node_init \<lparr>gn_id = gn_id n, gn_kind = gn_kind n, gn_attributes = normal_attributes (gn_attributes n)\<rparr>
      = Inr (normal_node n)" by (simp add: graph_node_init_Inr normal_node_def)
  then show ?thesis
    unfolding v js_node_def js_mapping_sorted rbind_simps keys get
    using n js_id_text [OF assms(3) s] by (simp only: sort_json.simps js_string_JStr js_attributes_sorted rbind_simps) simp
qed

lemma edge_kind_of_value [simp]: "edge_kind_of (edge_value k) = Some k"
  by (cases k) (simp_all add: edge_kind_of_def)

lemma constraint_kind_of_value [simp]: "constraint_kind_of (constraint_value k) = Some k"
  by (cases k) (simp_all add: constraint_kind_of_def)

lemma kind_values_nonempty [simp]: "edge_value k \<noteq> []" "constraint_value c \<noteq> []"
  by (cases k; simp add: lit_def) (cases c; simp add: lit_def)

lemma js_edge_record:
  assumes "edge_record e = Inr v" and "graph_edge_init e = Inr e"
    and "component_id_ok (ge_source e)" and "component_id_ok (ge_target e)"
  shows "js_edge (sort_json v) = Inr (normal_edge e)"
proof -
  from assms(1) obtain s t where s: "graph_id_text (ge_source e) = Inr s" and t: "graph_id_text (ge_target e) = Inr t"
    and v: "v = JObj [(lit ''source'', JStr s), (lit ''target'', JStr t),
                (lit ''kind'', JStr (edge_value (ge_kind e))), (lit ''semantics_version'', JInt (ge_version e)),
                (lit ''attributes'', attributes_json (ge_attributes e))]" (is "v = JObj ?kvs")
    by (auto simp: edge_record_def)
  have get: "json_get (sorted_object ?kvs) (lit ''source'') = sort_json (JStr s)"
    "json_get (sorted_object ?kvs) (lit ''target'') = sort_json (JStr t)"
    "json_get (sorted_object ?kvs) (lit ''kind'') = sort_json (JStr (edge_value (ge_kind e)))"
    "json_get (sorted_object ?kvs) (lit ''semantics_version'') = sort_json (JInt (ge_version e))"
    "json_get (sorted_object ?kvs) (lit ''attributes'') = sort_json (attributes_json (ge_attributes e))"
    by (rule sorted_object_get; simp)+
  have keys: "js_exact_keys (sorted_object ?kvs) [lit ''source'', lit ''target'', lit ''kind'',
      lit ''semantics_version'', lit ''attributes''] = Inr ()"
    by (rule js_exact_keys_sorted) simp
  have version: "ge_version e = EDGE_SEMANTICS_VERSION" using assms(2) by (simp add: graph_edge_init_Inr)
  have "graph_edge_init \<lparr>ge_source = ge_source e, ge_target = ge_target e, ge_kind = ge_kind e,
      ge_version = EDGE_SEMANTICS_VERSION, ge_attributes = normal_attributes (ge_attributes e)\<rparr> = Inr (normal_edge e)"
    using assms(2) by (simp add: graph_edge_init_Inr normal_edge_def)
  then show ?thesis
    unfolding v js_edge_def js_mapping_sorted rbind_simps keys get
    using version js_id_text [OF assms(3) s] js_id_text [OF assms(4) t]
    by (simp only: sort_json.simps js_attributes_sorted rbind_simps js_version_JInt if_True
        js_string_JStr [OF kind_values_nonempty(1)] edge_kind_of_value of_option_simps except_simps) simp
qed

lemma mapM_r_read:
  assumes "mapM_r f xs = Inr ys" and "\<And>x y. x \<in> set xs \<Longrightarrow> f x = Inr y \<Longrightarrow> g (h y) = Inr (k x)"
  shows "mapM_r g (map h ys) = Inr (map k xs)"
  using assms
proof (induction xs arbitrary: ys)
  case (Cons x xs)
  then obtain z zs where z: "f x = Inr z" "mapM_r f xs = Inr zs" "ys = z # zs" by auto
  have "mapM_r g (map h zs) = Inr (map k xs)" by (rule Cons.IH [OF z(2)]) (simp add: Cons.prems(2))
  then show ?case using z Cons.prems(2) [of x z] by simp
qed simp

lemma js_constraint_record:
  assumes "constraint_record c = Inr v" and "mutation_constraint_init c = Inr c"
    and "\<And>m. m \<in> set (mc_members c) \<Longrightarrow> component_id_ok m"
  shows "js_constraint (sort_json v) = Inr (normal_constraint c)"
proof -
  from assms(1) obtain ms where ms: "mapM_r graph_id_text (mc_members c) = Inr ms" and
    v: "v = JObj [(lit ''constraint_id'', JStr (mc_id c)), (lit ''kind'', JStr (constraint_value (mc_kind c))),
                (lit ''members'', JList (map JStr ms)), (lit ''schema_version'', JInt (mc_version c)),
                (lit ''parameters'', attributes_json (mc_parameters c))]" (is "v = JObj ?kvs")
    by (auto simp: constraint_record_def)
  have get: "json_get (sorted_object ?kvs) (lit ''constraint_id'') = sort_json (JStr (mc_id c))"
    "json_get (sorted_object ?kvs) (lit ''kind'') = sort_json (JStr (constraint_value (mc_kind c)))"
    "json_get (sorted_object ?kvs) (lit ''members'') = sort_json (JList (map JStr ms))"
    "json_get (sorted_object ?kvs) (lit ''schema_version'') = sort_json (JInt (mc_version c))"
    "json_get (sorted_object ?kvs) (lit ''parameters'') = sort_json (attributes_json (mc_parameters c))"
    by (rule sorted_object_get; simp)+
  have keys: "js_exact_keys (sorted_object ?kvs) [lit ''constraint_id'', lit ''kind'', lit ''members'',
      lit ''schema_version'', lit ''parameters''] = Inr ()"
    by (rule js_exact_keys_sorted) simp
  have members: "mapM_r js_id (map JStr ms) = Inr (map (\<lambda>m. m) (mc_members c))"
    by (rule mapM_r_read [OF ms]) (use assms(3) js_id_text in blast)
  have c: "mc_version c = CONSTRAINT_SCHEMA_VERSION" "mc_id c \<noteq> []"
    using assms(2) by (simp_all add: mutation_constraint_init_Inr)
  have "mutation_constraint_init \<lparr>mc_id = mc_id c, mc_kind = mc_kind c, mc_members = mc_members c,
      mc_version = CONSTRAINT_SCHEMA_VERSION, mc_parameters = normal_attributes (mc_parameters c)\<rparr>
      = Inr (normal_constraint c)"
    using assms(2) by (simp add: mutation_constraint_init_Inr normal_constraint_def)
  then show ?thesis
    unfolding v js_constraint_def js_mapping_sorted rbind_simps keys get
    using c members
    by (simp add: js_array_def comp_def js_attributes_sorted del: mapM_r.simps)
qed

lemma js_provenance_record:
  assumes "graph_provenance_init p = Inr p"
  shows "js_provenance (sort_json (provenance_record p)) = Inr p"
proof -
  let ?kvs = "[(lit ''adapter_name'', JStr (gp_adapter_name p)),
           (lit ''adapter_version'', JStr (gp_adapter_version p)), (lit ''model_revision'', JStr (gp_model_revision p))]"
  have get: "json_get (sorted_object ?kvs) (lit ''adapter_name'') = sort_json (JStr (gp_adapter_name p))"
    "json_get (sorted_object ?kvs) (lit ''adapter_version'') = sort_json (JStr (gp_adapter_version p))"
    "json_get (sorted_object ?kvs) (lit ''model_revision'') = sort_json (JStr (gp_model_revision p))"
    by (rule sorted_object_get; simp)+
  have keys: "js_exact_keys (sorted_object ?kvs) [lit ''adapter_name'', lit ''adapter_version'', lit ''model_revision''] = Inr ()"
    by (rule js_exact_keys_sorted) simp
  have "gp_adapter_name p \<noteq> []" "gp_adapter_version p \<noteq> []" "gp_model_revision p \<noteq> []"
    using assms by (auto simp: graph_provenance_init_def rbind_Inr_iff)
  moreover have "graph_provenance_init \<lparr>gp_adapter_name = gp_adapter_name p, gp_adapter_version = gp_adapter_version p,
      gp_model_revision = gp_model_revision p\<rparr> = Inr p"
    using assms by (cases p) simp
  ultimately show ?thesis
    unfolding js_provenance_def provenance_record_def js_mapping_sorted rbind_simps keys get by simp
qed

definition normal_graph :: "component_graph \<Rightarrow> component_graph" where
  "normal_graph g = g\<lparr>cg_nodes := map normal_node (cg_nodes g), cg_edges := map normal_edge (cg_edges g),
     cg_constraints := map normal_constraint (cg_constraints g)\<rparr>"

text \<open>What the constructors guarantee of the records of a graph.\<close>

definition graph_values_ok :: "component_graph \<Rightarrow> bool" where
  "graph_values_ok g \<longleftrightarrow> list_all (\<lambda>n. graph_node_init n = Inr n \<and> component_id_ok (gn_id n)) (cg_nodes g)
     \<and> list_all (\<lambda>e. graph_edge_init e = Inr e) (cg_edges g)
     \<and> list_all (\<lambda>c. mutation_constraint_init c = Inr c) (cg_constraints g)
     \<and> component_graph_init g = Inr g"

lemma normal_fields [simp]:
  "gn_id (normal_node n) = gn_id n" "gn_kind (normal_node n) = gn_kind n"
  "ge_source (normal_edge e) = ge_source e" "ge_target (normal_edge e) = ge_target e"
  "ge_kind (normal_edge e) = ge_kind e" "ge_version (normal_edge e) = ge_version e"
  "mc_id (normal_constraint c) = mc_id c" "mc_members (normal_constraint c) = mc_members c"
  "edge_key (normal_edge e) = edge_key e" "edge_sort_key (normal_edge e) = edge_sort_key e"
  "comparable_edges (normal_edge e) (normal_edge f) = comparable_edges e f"
  by (simp_all add: normal_defs edge_key_def edge_sort_key_def comparable_edges_def)

lemma normal_edge_constraint:
  assumes "attributes_ok (ge_attributes e)"
  shows "edge_constraint (normal_edge e) = edge_constraint e"
proof -
  have "map_of (rev (sort_key fst (ge_attributes e))) = map_of (rev (ge_attributes e))"
    using assms by (intro map_of_same_set) (simp_all add: attributes_ok_def rev_map [symmetric])
  then show ?thesis by (simp add: edge_constraint_def normal_edge_def normal_attributes_def)
qed

lemma normal_graph_init:
  assumes "graph_values_ok g"
  shows "component_graph_init (normal_graph g) = Inr (normal_graph g)"
proof -
  have "edge_constraint (normal_edge e) = edge_constraint e" if "e \<in> set (cg_edges g)" for e
    using assms that by (intro normal_edge_constraint) (auto simp: graph_values_ok_def list_all_iff graph_edge_init_Inr)
  moreover have "component_graph_init g = Inr g" using assms by (simp add: graph_values_ok_def)
  ultimately show ?thesis
    by (simp add: component_graph_init_Inr normal_graph_def comp_def image_image)
qed

lemma normal_graph_build:
  assumes "graph_values_ok g" and "build_graph (cg_nodes g) (cg_edges g) (cg_constraints g) = Inr g"
  shows "build_graph (map normal_node (cg_nodes g)) (map normal_edge (cg_edges g))
      (map normal_constraint (cg_constraints g)) = Inr (normal_graph g)"
proof -
  note b = build_graph_Inr [OF assms(2)]
  have nodes: "sort_key (\<lambda>n. id_key (gn_id n)) (cg_nodes g) = cg_nodes g"
    "2 \<le> length (cg_nodes g) \<longrightarrow> list_all (\<lambda>n. printable (gn_id n)) (cg_nodes g)"
    using b(1) by (auto simp: sorted_ids_iff)
  then have 1: "sorted_ids gn_id (map normal_node (cg_nodes g)) = Inr (map normal_node (cg_nodes g))"
    by (simp add: sorted_ids_iff sort_key_map list_all_iff)
  have edges: "sort_key edge_sort_key (cg_edges g) = cg_edges g"
    "list_all (\<lambda>e. list_all (comparable_edges e) (cg_edges g)) (cg_edges g)"
    using sorted_edges_Inr(1,4) [OF b(2)] by simp_all
  then have 2: "sorted_edges (map normal_edge (cg_edges g)) = Inr (map normal_edge (cg_edges g))"
    by (simp add: sorted_edges_def sort_key_map list_all_iff)
  have "sort_key mc_id (cg_constraints g) = cg_constraints g" using b(3) by simp
  then have 3: "sort_key mc_id (map normal_constraint (cg_constraints g)) = map normal_constraint (cg_constraints g)"
    by (simp add: sort_key_map)
  have "normal_graph g = \<lparr>cg_nodes = map normal_node (cg_nodes g), cg_edges = map normal_edge (cg_edges g),
      cg_constraints = map normal_constraint (cg_constraints g), cg_version = GRAPH_SCHEMA_VERSION\<rparr>"
    using b(4) by (simp add: normal_graph_def component_graph_init_Inr)
  then show ?thesis using 1 2 3 normal_graph_init [OF assms(1)] by (simp add: build_graph_def)
qed

text \<open>Printing the normal form gives the same sorted document.\<close>

lemma normal_record:
  "node_record n = Inr v \<Longrightarrow> \<exists>w. node_record (normal_node n) = Inr w \<and> sort_json w = sort_json v"
  "edge_record e = Inr v \<Longrightarrow> \<exists>w. edge_record (normal_edge e) = Inr w \<and> sort_json w = sort_json v"
  "constraint_record c = Inr v \<Longrightarrow> \<exists>w. constraint_record (normal_constraint c) = Inr w \<and> sort_json w = sort_json v"
proof -
  show "node_record n = Inr v \<Longrightarrow> \<exists>w. node_record (normal_node n) = Inr w \<and> sort_json w = sort_json v"
    by (auto simp: node_record_def normal_node_def sort_attributes)
  show "edge_record e = Inr v \<Longrightarrow> \<exists>w. edge_record (normal_edge e) = Inr w \<and> sort_json w = sort_json v"
    by (auto simp: edge_record_def normal_edge_def sort_attributes)
  show "constraint_record c = Inr v \<Longrightarrow> \<exists>w. constraint_record (normal_constraint c) = Inr w \<and> sort_json w = sort_json v"
    by (auto simp: constraint_record_def normal_constraint_def sort_attributes)
qed

lemma normal_records:
  assumes "mapM_r f xs = Inr vs" and "\<And>x v. f x = Inr v \<Longrightarrow> \<exists>w. f (k x) = Inr w \<and> sort_json w = sort_json v"
  shows "\<exists>ws. mapM_r f (map k xs) = Inr ws \<and> map sort_json ws = map sort_json vs"
  using assms(1)
proof (induction xs arbitrary: vs)
  case (Cons x xs)
  then obtain u us where u: "f x = Inr u" "mapM_r f xs = Inr us" "vs = u # us" by auto
  then show ?case using Cons.IH [OF u(2)] assms(2) [OF u(1)] by force
qed simp

lemma normal_graph_record:
  assumes "graph_record g = Inr v"
  shows "\<exists>w. graph_record (normal_graph g) = Inr w \<and> sort_json w = sort_json v"
proof -
  from assms obtain ns es cs where r: "mapM_r node_record (cg_nodes g) = Inr ns"
    "mapM_r edge_record (cg_edges g) = Inr es" "mapM_r constraint_record (cg_constraints g) = Inr cs"
    and v: "v = JObj [(lit ''schema_version'', JInt (cg_version g)),
                (lit ''edge_semantics_version'', JInt EDGE_SEMANTICS_VERSION),
                (lit ''constraint_schema_version'', JInt CONSTRAINT_SCHEMA_VERSION),
                (lit ''nodes'', JList ns), (lit ''edges'', JList es), (lit ''constraints'', JList cs)]"
    by (auto simp: graph_record_def)
  obtain ns' where ns: "mapM_r node_record (map normal_node (cg_nodes g)) = Inr ns'" "map sort_json ns' = map sort_json ns"
    using normal_records [where k = normal_node, OF r(1) normal_record(1)] by blast
  obtain es' where es: "mapM_r edge_record (map normal_edge (cg_edges g)) = Inr es'" "map sort_json es' = map sort_json es"
    using normal_records [where k = normal_edge, OF r(2) normal_record(2)] by blast
  obtain cs' where cs: "mapM_r constraint_record (map normal_constraint (cg_constraints g)) = Inr cs'"
    "map sort_json cs' = map sort_json cs"
    using normal_records [where k = normal_constraint, OF r(3) normal_record(3)] by blast
  show ?thesis using ns es cs by (auto simp: graph_record_def normal_graph_def v)
qed

lemma js_graph_record:
  assumes rec: "graph_record g = Inr v" and ok: "graph_values_ok g"
    and build: "build_graph (cg_nodes g) (cg_edges g) (cg_constraints g) = Inr g"
  shows "js_graph (sort_json v) = Inr (normal_graph g)"
proof -
  from rec obtain ns es cs where r: "mapM_r node_record (cg_nodes g) = Inr ns"
    "mapM_r edge_record (cg_edges g) = Inr es" "mapM_r constraint_record (cg_constraints g) = Inr cs"
    and v: "v = JObj [(lit ''schema_version'', JInt (cg_version g)),
                (lit ''edge_semantics_version'', JInt EDGE_SEMANTICS_VERSION),
                (lit ''constraint_schema_version'', JInt CONSTRAINT_SCHEMA_VERSION),
                (lit ''nodes'', JList ns), (lit ''edges'', JList es), (lit ''constraints'', JList cs)]" (is "v = JObj ?kvs")
    by (auto simp: graph_record_def)
  have get: "json_get (sorted_object ?kvs) (lit ''schema_version'') = sort_json (JInt (cg_version g))"
    "json_get (sorted_object ?kvs) (lit ''edge_semantics_version'') = sort_json (JInt EDGE_SEMANTICS_VERSION)"
    "json_get (sorted_object ?kvs) (lit ''constraint_schema_version'') = sort_json (JInt CONSTRAINT_SCHEMA_VERSION)"
    "json_get (sorted_object ?kvs) (lit ''nodes'') = sort_json (JList ns)"
    "json_get (sorted_object ?kvs) (lit ''edges'') = sort_json (JList es)"
    "json_get (sorted_object ?kvs) (lit ''constraints'') = sort_json (JList cs)"
    by (rule sorted_object_get; simp)+
  have keys: "js_exact_keys (sorted_object ?kvs) [lit ''schema_version'', lit ''edge_semantics_version'',
              lit ''constraint_schema_version'', lit ''nodes'', lit ''edges'', lit ''constraints''] = Inr ()"
    by (rule js_exact_keys_sorted) simp
  have g: "component_graph_init g = Inr g" using ok by (simp add: graph_values_ok_def)
  have ids: "component_id_ok i" if "i \<in> gn_id ` set (cg_nodes g)" for i
    using that ok by (auto simp: graph_values_ok_def list_all_iff)
  have nodes: "mapM_r js_node (map sort_json ns) = Inr (map normal_node (cg_nodes g))"
    by (rule mapM_r_read [OF r(1)]) (use ok js_node_record in \<open>auto simp: graph_values_ok_def list_all_iff\<close>)
  have edges: "mapM_r js_edge (map sort_json es) = Inr (map normal_edge (cg_edges g))"
  proof (rule mapM_r_read [OF r(2)])
    fix e y assume e: "e \<in> set (cg_edges g)" and y: "edge_record e = Inr y"
    have "ge_source e \<in> gn_id ` set (cg_nodes g)" "ge_target e \<in> gn_id ` set (cg_nodes g)"
      using g e by (auto simp: component_graph_init_Inr)
    then show "js_edge (sort_json y) = Inr (normal_edge e)"
      using js_edge_record [OF y _ ids ids] ok e by (simp add: graph_values_ok_def list_all_iff)
  qed
  have constraints: "mapM_r js_constraint (map sort_json cs) = Inr (map normal_constraint (cg_constraints g))"
  proof (rule mapM_r_read [OF r(3)])
    fix c y assume c: "c \<in> set (cg_constraints g)" and y: "constraint_record c = Inr y"
    have "set (mc_members c) \<subseteq> gn_id ` set (cg_nodes g)"
      using g c by (auto simp: component_graph_init_Inr)
    then show "js_constraint (sort_json y) = Inr (normal_constraint c)"
      using js_constraint_record [OF y] ids ok c by (auto simp: graph_values_ok_def list_all_iff)
  qed
  have version: "cg_version g = GRAPH_SCHEMA_VERSION" using g by (simp add: component_graph_init_Inr)
  have normal: "\<lparr>cg_nodes = map normal_node (cg_nodes g), cg_edges = map normal_edge (cg_edges g),
      cg_constraints = map normal_constraint (cg_constraints g), cg_version = GRAPH_SCHEMA_VERSION\<rparr> = normal_graph g"
    using version by (simp add: normal_graph_def)
  obtain w where w: "graph_record (normal_graph g) = Inr w" using normal_graph_record [OF rec] by blast
  show ?thesis
    unfolding v js_graph_def js_mapping_sorted rbind_simps keys get
    by (simp add: version js_array_def nodes edges constraints normal normal_graph_init [OF ok]
        normal_graph_build [OF ok build] w del: mapM_r.simps)
qed

lemma load_dumped:
  assumes "persisted_record \<lparr>pg_graph = g, pg_provenance = p, pg_version = GRAPH_ARTIFACT_SCHEMA_VERSION\<rparr> = Inr v"
    and "graph_values_ok g" and "build_graph (cg_nodes g) (cg_edges g) (cg_constraints g) = Inr g"
    and "graph_provenance_init p = Inr p" and "loads serialized = Some (sort_json v)"
  shows "load_component_graph loads serialized
    = Inr \<lparr>pg_graph = normal_graph g, pg_provenance = p, pg_version = GRAPH_ARTIFACT_SCHEMA_VERSION\<rparr>"
proof -
  from assms(1) obtain w where w: "graph_record g = Inr w" and
    v: "v = JObj [(lit ''artifact_schema_version'', JInt GRAPH_ARTIFACT_SCHEMA_VERSION),
                (lit ''provenance'', provenance_record p), (lit ''graph'', w)]" (is "v = JObj ?kvs")
    by (auto simp: persisted_record_def)
  have get: "json_get (sorted_object ?kvs) (lit ''artifact_schema_version'') = sort_json (JInt GRAPH_ARTIFACT_SCHEMA_VERSION)"
    "json_get (sorted_object ?kvs) (lit ''provenance'') = sort_json (provenance_record p)"
    "json_get (sorted_object ?kvs) (lit ''graph'') = sort_json w"
    by (rule sorted_object_get; simp)+
  have keys: "js_exact_keys (sorted_object ?kvs)
      [lit ''artifact_schema_version'', lit ''provenance'', lit ''graph''] = Inr ()"
    by (rule js_exact_keys_sorted) simp
  show ?thesis
    unfolding load_component_graph_def assms(5) of_option_simps rbind_simps v js_mapping_sorted keys get
      js_provenance_record [OF assms(4)] js_graph_record [OF w assms(2,3)]
    by (simp add: persisted_graph_init_def)
qed

text \<open>
  C11. A dumped graph loads back: reading the document gives the canonical graph with the attributes of each
  record in key order, and the same provenance, and dumping what was read gives the same document.
\<close>
theorem graph_roundtrip:
  assumes "graph_values_ok g" and "graph_provenance_init p = Inr p"
    and "dump_component_graph g p = Inr doc" and "loads serialized = Some doc"
  shows "\<exists>c. build_graph (cg_nodes g) (cg_edges g) (cg_constraints g) = Inr c
    \<and> load_component_graph loads serialized
        = Inr \<lparr>pg_graph = normal_graph c, pg_provenance = p, pg_version = GRAPH_ARTIFACT_SCHEMA_VERSION\<rparr>
    \<and> dump_component_graph (normal_graph c) p = Inr doc"
proof -
  from assms(3) obtain c v where c: "build_graph (cg_nodes g) (cg_edges g) (cg_constraints g) = Inr c"
    and v: "persisted_record \<lparr>pg_graph = c, pg_provenance = p, pg_version = GRAPH_ARTIFACT_SCHEMA_VERSION\<rparr> = Inr v"
    and doc: "doc = sort_json v"
    by (auto simp: dump_component_graph_def persisted_graph_init_def canonical_json_def)
  note b = build_graph_Inr [OF c]
  have ok: "graph_values_ok c"
    using assms(1) b(4,5,6,7) by (simp add: graph_values_ok_def list_all_iff)
  have ids: "list_all (\<lambda>n. component_id_ok (gn_id n)) (cg_nodes g)"
    using assms(1) by (simp add: graph_values_ok_def list_all_iff)
  have self: "build_graph (cg_nodes c) (cg_edges c) (cg_constraints c) = Inr c"
    by (rule build_again [OF c ids])
  from v obtain w where w: "graph_record c = Inr w" by (auto simp: persisted_record_def)
  then obtain w' where w': "graph_record (normal_graph c) = Inr w'" "sort_json w' = sort_json w"
    using normal_graph_record by blast
  have "build_graph (cg_nodes (normal_graph c)) (cg_edges (normal_graph c)) (cg_constraints (normal_graph c))
      = Inr (normal_graph c)"
    using normal_graph_build [OF ok self] by (simp add: normal_graph_def)
  then have "dump_component_graph (normal_graph c) p = Inr doc"
    using v w w' doc
    by (auto simp: dump_component_graph_def persisted_graph_init_def canonical_json_def persisted_record_def)
  moreover have "load_component_graph loads serialized
      = Inr \<lparr>pg_graph = normal_graph c, pg_provenance = p, pg_version = GRAPH_ARTIFACT_SCHEMA_VERSION\<rparr>"
    by (rule load_dumped [OF v ok self assms(2)]) (simp add: assms(4) doc)
  ultimately show ?thesis using c by (intro exI [of _ c]) simp
qed

definition demo_provenance :: graph_provenance where
  "demo_provenance = \<lparr>gp_adapter_name = lit ''a'', gp_adapter_version = lit ''1'', gp_model_revision = lit ''r''\<rparr>"

lemma demo_dump:
  "\<exists>doc. dump_component_graph demo_graph demo_provenance = Inr doc"
proof -
  have "(case dump_component_graph demo_graph demo_provenance of Inl _ \<Rightarrow> False | Inr _ \<Rightarrow> True)" by code_simp
  then show ?thesis by (auto split: sum.splits)
qed

theorem graph_roundtrip_witness:
  "\<exists>doc c. dump_component_graph demo_graph demo_provenance = Inr doc
    \<and> load_component_graph Some doc = Inr \<lparr>pg_graph = normal_graph c, pg_provenance = demo_provenance, pg_version = 1\<rparr>"
proof -
  obtain doc where doc: "dump_component_graph demo_graph demo_provenance = Inr doc" using demo_dump by blast
  have "graph_values_ok demo_graph" "graph_provenance_init demo_provenance = Inr demo_provenance" by code_simp+
  from graph_roundtrip [OF this doc, of Some doc] doc show ?thesis
    by (auto simp: GRAPH_ARTIFACT_SCHEMA_VERSION_def)
qed

section \<open>Only canonical graphs load\<close>

lemma mapM_r_inject:
  assumes "mapM_r f xs = Inr vs" and "mapM_r f ys = Inr vs"
    and "\<And>x y v. x \<in> set xs \<Longrightarrow> y \<in> set ys \<Longrightarrow> f x = Inr v \<Longrightarrow> f y = Inr v \<Longrightarrow> x = y"
  shows "xs = ys"
  using assms
proof (induction xs arbitrary: vs ys)
  case Nil
  then show ?case by (cases ys) auto
next
  case (Cons x xs)
  then obtain v vs' y ys' where "f x = Inr v" "mapM_r f xs = Inr vs'" "ys = y # ys'" "f y = Inr v"
    "mapM_r f ys' = Inr vs'" by (cases ys) auto
  moreover from this have "xs = ys'" by (intro Cons.IH [of vs']) (use Cons.prems(3) in auto)
  ultimately show ?case using Cons.prems(3) by simp
qed

lemma graph_id_text_inject:
  "component_id_ok i \<Longrightarrow> component_id_ok j \<Longrightarrow> graph_id_text i = Inr s \<Longrightarrow> graph_id_text j = Inr s \<Longrightarrow> i = j"
  by (auto simp: graph_id_text_def intro: component_id_str_inject)

lemma attributes_json_inject: "attributes_json as = attributes_json bs \<Longrightarrow> as = bs"
proof -
  have p: "primitive_json v = primitive_json w \<Longrightarrow> v = w" for v w by (cases v; cases w) auto
  have "inj (\<lambda>(k, v). (k :: pystr, primitive_json v))" by (rule injI) (auto dest: p)
  then show "attributes_json as = attributes_json bs \<Longrightarrow> as = bs"
    by (simp add: attributes_json_def inj_map_eq_map)
qed

lemma record_inject:
  "node_record n = Inr v \<Longrightarrow> node_record m = Inr v \<Longrightarrow> component_id_ok (gn_id n) \<Longrightarrow> component_id_ok (gn_id m)
     \<Longrightarrow> n = m"
  "constraint_record c = Inr v \<Longrightarrow> constraint_record d = Inr v \<Longrightarrow> list_all component_id_ok (mc_members c)
     \<Longrightarrow> list_all component_id_ok (mc_members d) \<Longrightarrow> c = d"
  "edge_record e = Inr v \<Longrightarrow> edge_record f = Inr v \<Longrightarrow> component_id_ok (ge_source e) \<Longrightarrow> component_id_ok (ge_source f)
     \<Longrightarrow> component_id_ok (ge_target e) \<Longrightarrow> component_id_ok (ge_target f) \<Longrightarrow> e = f"
proof -
  show "node_record n = Inr v \<Longrightarrow> node_record m = Inr v \<Longrightarrow> component_id_ok (gn_id n) \<Longrightarrow> component_id_ok (gn_id m)
      \<Longrightarrow> n = m"
    by (cases n; cases m) (auto simp: node_record_def intro: attributes_json_inject graph_id_text_inject)
  have kind: "constraint_value a = constraint_value b \<Longrightarrow> a = b" for a b by (cases a; cases b) auto
  have members: "ms = ns" if "mapM_r graph_id_text ms = Inr ts" "mapM_r graph_id_text ns = Inr ts"
    "list_all component_id_ok ms" "list_all component_id_ok ns" for ms ns ts
    using that by (intro mapM_r_inject [OF that(1,2)]) (auto simp: list_all_iff intro: graph_id_text_inject)
  have jstr: "map JStr ts = map JStr us \<longleftrightarrow> ts = us" for ts us by (simp add: inj_map_eq_map inj_def)
  show "c = d" if "constraint_record c = Inr v" "constraint_record d = Inr v" "list_all component_id_ok (mc_members c)"
    "list_all component_id_ok (mc_members d)"
  proof -
    from that(1,2) obtain ts where ts: "mapM_r graph_id_text (mc_members c) = Inr ts"
      "mapM_r graph_id_text (mc_members d) = Inr ts"
      and rest: "mc_id c = mc_id d" "constraint_value (mc_kind c) = constraint_value (mc_kind d)"
        "mc_version c = mc_version d" "attributes_json (mc_parameters c) = attributes_json (mc_parameters d)"
      by (auto simp: constraint_record_def jstr)
    show ?thesis
      using members [OF ts that(3,4)] rest(1,3) kind [OF rest(2)] attributes_json_inject [OF rest(4)] by simp
  qed
  show "edge_record e = Inr v \<Longrightarrow> edge_record f = Inr v \<Longrightarrow> component_id_ok (ge_source e) \<Longrightarrow> component_id_ok (ge_source f)
      \<Longrightarrow> component_id_ok (ge_target e) \<Longrightarrow> component_id_ok (ge_target f) \<Longrightarrow> e = f"
    by (cases e; cases f) (auto simp: edge_record_def intro: attributes_json_inject graph_id_text_inject)
qed

lemma js_id_Inr: "js_id v = Inr i \<Longrightarrow> component_id_ok i"
  using parse_component_id_exact by (auto simp: js_id_def)

lemma js_ids_ok: "mapM_r js_id vs = Inr ms \<Longrightarrow> list_all component_id_ok ms"
  unfolding list_all_iff by (rule ballI, erule (1) mapM_r_memberD, erule js_id_Inr)

lemma js_parts_ok:
  "js_node v = Inr n \<Longrightarrow> graph_node_init n = Inr n \<and> component_id_ok (gn_id n)"
  "js_edge v = Inr e \<Longrightarrow> graph_edge_init e = Inr e \<and> component_id_ok (ge_source e) \<and> component_id_ok (ge_target e)"
  "js_constraint v = Inr c \<Longrightarrow> mutation_constraint_init c = Inr c \<and> list_all component_id_ok (mc_members c)"
proof -
  show "js_node v = Inr n \<Longrightarrow> graph_node_init n = Inr n \<and> component_id_ok (gn_id n)"
    by (auto simp: js_node_def graph_node_init_Inr dest: js_id_Inr)
  show "js_edge v = Inr e \<Longrightarrow> graph_edge_init e = Inr e \<and> component_id_ok (ge_source e) \<and> component_id_ok (ge_target e)"
    by (auto simp: js_edge_def graph_edge_init_Inr dest: js_id_Inr)
  show "js_constraint v = Inr c \<Longrightarrow> mutation_constraint_init c = Inr c \<and> list_all component_id_ok (mc_members c)"
    by (auto simp: js_constraint_def mutation_constraint_init_Inr dest: js_ids_ok)
qed

lemma js_graph_canonical:
  assumes "js_graph v = Inr g"
  shows "graph_values_ok g" and "build_graph (cg_nodes g) (cg_edges g) (cg_constraints g) = Inr g"
proof -
  from assms obtain nvs evs cvs canonical r where
    ns: "mapM_r js_node nvs = Inr (cg_nodes g)" and es: "mapM_r js_edge evs = Inr (cg_edges g)"
    and cs: "mapM_r js_constraint cvs = Inr (cg_constraints g)"
    and g: "component_graph_init g = Inr g"
    and c: "build_graph (cg_nodes g) (cg_edges g) (cg_constraints g) = Inr canonical"
    and r: "graph_record g = Inr r" "graph_record canonical = Inr r"
    unfolding js_graph_def by (elim rbind_InrE) (auto simp: component_graph_init_Inr)
  have n: "\<forall>n \<in> set (cg_nodes g). graph_node_init n = Inr n \<and> component_id_ok (gn_id n)"
    using js_parts_ok(1) by (auto elim: mapM_r_memberD [OF ns])
  have e: "\<forall>e \<in> set (cg_edges g). graph_edge_init e = Inr e \<and> component_id_ok (ge_source e) \<and> component_id_ok (ge_target e)"
    using js_parts_ok(2) by (auto elim: mapM_r_memberD [OF es])
  have k: "\<forall>c \<in> set (cg_constraints g). mutation_constraint_init c = Inr c \<and> list_all component_id_ok (mc_members c)"
    using js_parts_ok(3) by (auto elim: mapM_r_memberD [OF cs])
  show "graph_values_ok g" using n e k g by (simp add: graph_values_ok_def list_all_iff)
  note b = build_graph_Inr [OF c]
  have "cg_nodes g = cg_nodes canonical"
    using r n b(5) by (auto simp: graph_record_def intro!: mapM_r_inject [of node_record] record_inject(1))
  moreover have "cg_edges g = cg_edges canonical"
    using r e b(6) by (auto simp: graph_record_def intro!: mapM_r_inject [of edge_record] record_inject(3))
  moreover have "cg_constraints g = cg_constraints canonical"
    using r k b(7) by (auto simp: graph_record_def intro!: mapM_r_inject [of constraint_record] record_inject(2))
  moreover have "cg_version g = cg_version canonical" using g b(4) by (simp add: component_graph_init_Inr)
  ultimately show "build_graph (cg_nodes g) (cg_edges g) (cg_constraints g) = Inr g" using c by simp
qed

text \<open>
  Whatever document loads, the graph that is returned is canonical: each of its records passes its own
  constructor, building a graph from its records gives it back, and its provenance is complete.
\<close>
theorem loaded_graph_canonical:
  assumes "load_component_graph loads serialized = Inr p"
  shows "graph_values_ok (pg_graph p)
    \<and> build_graph (cg_nodes (pg_graph p)) (cg_edges (pg_graph p)) (cg_constraints (pg_graph p)) = Inr (pg_graph p)
    \<and> graph_provenance_init (pg_provenance p) = Inr (pg_provenance p)"
proof -
  from assms obtain v q g where "js_graph v = Inr g" "graph_provenance_init q = Inr q"
    "p = \<lparr>pg_graph = g, pg_provenance = q, pg_version = GRAPH_ARTIFACT_SCHEMA_VERSION\<rparr>"
    by (auto simp: load_component_graph_def persisted_graph_init_def js_provenance_def graph_provenance_init_def)
  then show ?thesis using js_graph_canonical by simp
qed

theorem loaded_graph_canonical_witness:
  "\<exists>doc p. load_component_graph Some doc = Inr p \<and> graph_values_ok (pg_graph p)"
proof -
  have "(case dump_component_graph demo_graph demo_provenance of Inl _ \<Rightarrow> False
      | Inr doc \<Rightarrow> (case load_component_graph Some doc of Inl _ \<Rightarrow> False | Inr _ \<Rightarrow> True))" by code_simp
  then obtain doc p where p: "load_component_graph Some doc = Inr p" by (auto split: sum.splits)
  from loaded_graph_canonical [OF p] p show ?thesis by blast
qed

end
