(* ===== verification/PyJsonText.thy ===== *)
theory PyJsonText
  imports PyJson PyNumerals PySha256 "HOL-Library.List_Lexorder"
begin

text \<open>
  The text of \<open>json.dumps(value, sort_keys=True, separators=(",", ":"))\<close>, all ASCII, or with
  \<open>ensure_ascii=False\<close> its Unicode form, and the SHA-256 of such a text, which is how the program names records by their content. \<open>None\<close> is a value that cannot
  be written (an integer beyond the digit limit) or that holds a float, whose shortest decimal form is
  not modelled.
\<close>

definition lower_hex :: "nat \<Rightarrow> nat" where
  "lower_hex d = (if d < 10 then 0x30 + d else 0x61 + (d - 10))"

definition unicode_escape :: "nat \<Rightarrow> pystr" where
  "unicode_escape c = [0x5C, 0x75, lower_hex (c div 4096 mod 16), lower_hex (c div 256 mod 16),
     lower_hex (c div 16 mod 16), lower_hex (c mod 16)]"

definition json_char :: "nat \<Rightarrow> pystr" where
  "json_char c =
     (if c = 0x22 then [0x5C, 0x22]
      else if c = 0x5C then [0x5C, 0x5C]
      else if c = 0x0A then [0x5C, 0x6E]
      else if c = 0x0D then [0x5C, 0x72]
      else if c = 0x09 then [0x5C, 0x74]
      else if c = 0x0C then [0x5C, 0x66]
      else if c = 0x08 then [0x5C, 0x62]
      else if 0x20 \<le> c \<and> c \<le> 0x7E then [c]
      else if c < 0x10000 then unicode_escape c
      else unicode_escape (0xD800 + (c - 0x10000) div 1024) @ unicode_escape (0xDC00 + (c - 0x10000) mod 1024))"

definition json_char_unicode :: "nat \<Rightarrow> pystr" where
  "json_char_unicode c = (if 0x7F \<le> c then [c] else json_char c)"

definition json_string :: "(nat \<Rightarrow> pystr) \<Rightarrow> pystr \<Rightarrow> pystr" where
  "json_string esc s = 0x22 # concat (map esc s) @ [0x22]"

fun all_some :: "'a option list \<Rightarrow> 'a list option" where
  "all_some [] = Some []"
| "all_some (x # xs) = (case x of None \<Rightarrow> None | Some y \<Rightarrow> map_option ((#) y) (all_some xs))"

definition comma_join :: "pystr list \<Rightarrow> pystr" where
  "comma_join ps = (case ps of [] \<Rightarrow> [] | p # rest \<Rightarrow> p @ concat (map ((#) 0x2C) rest))"

text \<open>\<open>esc\<close> writes the characters of strings.\<close>

fun json_text :: "(nat \<Rightarrow> pystr) \<Rightarrow> json \<Rightarrow> pystr option" where
  "json_text esc JNull = Some (lit ''null'')"
| "json_text esc (JBool b) = Some (if b then lit ''true'' else lit ''false'')"
| "json_text esc (JInt i) = py_str_int i"
| "json_text esc (JFloat _) = None"
| "json_text esc (JStr s) = Some (json_string esc s)"
| "json_text esc (JList vs) =
     map_option (\<lambda>ps. 0x5B # comma_join ps @ [0x5D]) (all_some (map (json_text esc) vs))"
| "json_text esc (JObj kvs) =
     map_option (\<lambda>kts. 0x7B # comma_join (map (\<lambda>(k, t). json_string esc k @ 0x3A # t) (sort_key fst kts)) @ [0x7D])
       (all_some (map (\<lambda>(k, v). map_option (Pair k) (json_text esc v)) kvs))"

definition json_dumps :: "json \<Rightarrow> pystr option" where
  "json_dumps = json_text json_char"

definition json_dumps_unicode :: "json \<Rightarrow> pystr option" where
  "json_dumps_unicode = json_text json_char_unicode"

definition content_digest :: "pystr \<Rightarrow> pystr" where
  "content_digest text = hexdigest (map of_nat text)"

section \<open>Values that can be written and encoded\<close>

text \<open>Integers within the digit limit can be written, and SQLite takes text that has a UTF-8 form.\<close>

fun json_writable :: "json \<Rightarrow> bool" where
  "json_writable (JInt i) = (py_str_int i \<noteq> None)"
| "json_writable (JList vs) = list_all json_writable vs"
| "json_writable (JObj kvs) = list_all (\<lambda>(_, v). json_writable v) kvs"
| "json_writable _ = True"

fun json_encodable :: "json \<Rightarrow> bool" where
  "json_encodable (JStr s) = (encode_utf8 s \<noteq> None)"
| "json_encodable (JList vs) = list_all json_encodable vs"
| "json_encodable (JObj kvs) = list_all (\<lambda>(k, v). encode_utf8 k \<noteq> None \<and> json_encodable v) kvs"
| "json_encodable _ = True"

end
