(* ===== verification/MutationContracts.thy ===== *)
theory MutationContracts
  imports GraphSchema PyJsonText
begin

text \<open>
  \<open>surgery/contracts.py\<close>: what a mutation request and its plan must satisfy before any transaction, their
  content identity, and the guard every apply passes.
\<close>

datatype contract_error =
    MutationContract pystr
  | ContractUnprintable
  | ContractEncoding

definition contract_fail :: "string \<Rightarrow> contract_error" where
  "contract_fail s = MutationContract (lit s)"

definition MUTATION_SCHEMA_VERSION :: int where
  "MUTATION_SCHEMA_VERSION = 1"

datatype mutation_kind = MASK | REMOVE | LOW_RANK | REQUANTIZE

fun mutation_value :: "mutation_kind \<Rightarrow> pystr" where
  "mutation_value MASK = lit ''mask''"
| "mutation_value REMOVE = lit ''remove''"
| "mutation_value LOW_RANK = lit ''low_rank''"
| "mutation_value REQUANTIZE = lit ''requantize''"

datatype transaction_state = PREPARED | APPLIED | COMMITTED | ROLLED_BACK

record mutation_compatibility =
  mt_supported :: bool
  mt_reason :: pystr
  mt_constraints :: "pystr list"

definition mutation_compatibility_init :: "mutation_compatibility \<Rightarrow> contract_error + mutation_compatibility" where
  "mutation_compatibility_init m =
     rbind (raise_if (mt_reason m = [] \<or> \<not> distinct (mt_constraints m))
              (contract_fail ''compatibility requires a reason and unique constraint keys'')) (\<lambda>_.
     Inr m)"

definition require_supported :: "mutation_compatibility \<Rightarrow> contract_error + unit" where
  "require_supported m = raise_if (\<not> mt_supported m) (MutationContract (mt_reason m))"

text \<open>Keys and values; the primitives are those of the graph schema.\<close>

record mutation_precondition =
  pc_key :: pystr
  pc_expected :: graph_primitive

definition mutation_precondition_init :: "mutation_precondition \<Rightarrow> contract_error + mutation_precondition" where
  "mutation_precondition_init p =
     rbind (raise_if (pc_key p = []) (contract_fail ''precondition keys must be non-empty'')) (\<lambda>_. Inr p)"

record mutation_delta =
  dl_parameters :: int
  dl_flops :: int
  dl_memory_bytes :: int
  dl_storage_bytes :: int

record mutation_request =
  mr_kind :: mutation_kind
  mr_targets :: "component_id list"
  mr_parameters :: attributes
  mr_version :: int

definition contract_sorted_ids :: "component_id list \<Rightarrow> contract_error + component_id list" where
  "contract_sorted_ids is' = except (sorted_ids (\<lambda>i. i) is') (\<lambda>_. ContractUnprintable)"

definition mutation_request_init :: "mutation_request \<Rightarrow> contract_error + mutation_request" where
  "mutation_request_init r =
     (let keys = map fst (mr_parameters r) in
      rbind (raise_if (mr_version r \<noteq> MUTATION_SCHEMA_VERSION)
               (contract_fail ''unsupported mutation schema version'')) (\<lambda>_.
      rbind (raise_if (mr_targets r = [])
               (contract_fail ''mutation targets must be non-empty and canonical'')) (\<lambda>_.
      rbind (contract_sorted_ids (mr_targets r)) (\<lambda>canonical.
      rbind (raise_if (canonical \<noteq> mr_targets r)
               (contract_fail ''mutation targets must be non-empty and canonical'')) (\<lambda>_.
      rbind (raise_if (\<not> distinct (mr_targets r)) (contract_fail ''mutation targets must be unique'')) (\<lambda>_.
      rbind (raise_if (list_ex (\<lambda>k. k = []) keys \<or> keys \<noteq> sort keys \<or> \<not> distinct keys)
               (contract_fail ''mutation parameters must have unique canonical keys'')) (\<lambda>_.
      Inr r)))))))"

definition request_record :: "mutation_request \<Rightarrow> contract_error + json" where
  "request_record r =
     rbind (except (mapM_r graph_id_text (mr_targets r)) (\<lambda>_. ContractUnprintable)) (\<lambda>targets.
     Inr (JObj [(lit ''schema_version'', JInt (mr_version r)), (lit ''kind'', JStr (mutation_value (mr_kind r))),
                (lit ''targets'', JList (map JStr targets)),
                (lit ''parameters'', attributes_json (mr_parameters r))]))"

text \<open>\<open>None\<close> of the text is a value that cannot be written (or a float, not modelled); of the bytes, a surrogate.\<close>

definition mutation_id :: "mutation_request \<Rightarrow> contract_error + pystr" where
  "mutation_id r =
     rbind (request_record r) (\<lambda>record.
     rbind (of_option ContractEncoding (json_dumps_unicode record)) (\<lambda>text.
     rbind (of_option ContractEncoding (encode_utf8 text)) (\<lambda>encoded.
     Inr (hexdigest encoded))))"

record mutation_plan =
  mp_request :: mutation_request
  mp_affected :: "component_id list"
  mp_preconditions :: "mutation_precondition list"
  mp_expected :: mutation_delta

definition mutation_plan_init :: "mutation_plan \<Rightarrow> contract_error + mutation_plan" where
  "mutation_plan_init p =
     (let keys = map pc_key (mp_preconditions p) in
      rbind (contract_sorted_ids (mp_affected p)) (\<lambda>canonical.
      rbind (raise_if (canonical \<noteq> mp_affected p)
               (contract_fail ''affected components must use canonical ordering'')) (\<lambda>_.
      rbind (raise_if (\<not> distinct (mp_affected p)) (contract_fail ''affected components must be unique'')) (\<lambda>_.
      rbind (raise_if (\<not> set (mr_targets (mp_request p)) \<subseteq> set (mp_affected p))
               (contract_fail ''every requested target must be affected'')) (\<lambda>_.
      rbind (raise_if (keys \<noteq> sort keys \<or> \<not> distinct keys)
               (contract_fail ''preconditions must have unique canonical keys'')) (\<lambda>_.
      Inr p))))))"

text \<open>The two attributes of a transaction that the guard reads.\<close>

definition require_safe_transaction :: "bool \<Rightarrow> transaction_state \<Rightarrow> contract_error + unit" where
  "require_safe_transaction owns_mutable_inputs state =
     raise_if (\<not> owns_mutable_inputs \<or> state \<noteq> PREPARED)
       (contract_fail ''mutation apply requires a prepared transaction that owns mutable inputs'')"

end
