(* ===== verification/MutationTransaction.thy ===== *)
theory MutationTransaction
  imports MutationContracts
begin

text \<open>
  \<open>surgery/transaction.py\<close>: exclusive in-memory transactions. The mutable state is a type \<open>'w\<close>; the targets
  own their snapshot and restore operations, which are parameters: a target is named by its key, reads the
  state into a snapshot or raises, and restores a snapshot or raises. The process-wide set of active owners
  is part of the state every operation passes on; one operation is one step of it.
\<close>

datatype 'x transaction_error =
    MutationTransaction string
  | IdentityEncoding
  | TargetRaised 'x
  | RestoreFailures "'x list"

text \<open>The operations of the targets: \<open>snapshot key\<close> and \<open>restore key value\<close>.\<close>

record ('w, 's, 'x) targets =
  tg_known :: "pystr \<Rightarrow> bool"
  tg_snapshot :: "pystr \<Rightarrow> 'w \<Rightarrow> 'w \<times> ('x + 's)"
  tg_restore :: "pystr \<Rightarrow> 's \<Rightarrow> 'w \<Rightarrow> 'w \<times> ('x + unit)"

record 's transaction =
  tx_owner :: nat
  tx_keys :: "pystr list"
  tx_id :: pystr
  tx_state :: transaction_state
  tx_snapshots :: "(pystr \<times> 's) list"
  tx_owns :: bool
  tx_entered :: bool

text \<open>\<open>uuid4().hex\<close> is a parameter.\<close>

definition transaction_init ::
  "('w, 's, 'x) targets \<Rightarrow> pystr \<Rightarrow> nat \<Rightarrow> pystr list \<Rightarrow> 'x transaction_error + 's transaction" where
  "transaction_init tg nonce owner changed =
     rbind (raise_if (changed = [] \<or> list_ex (\<lambda>k. k = []) changed)
              (MutationTransaction ''transaction requires non-empty changed target keys'')) (\<lambda>_.
     rbind (raise_if (\<not> distinct changed)
              (MutationTransaction ''changed target keys must be unique'')) (\<lambda>_.
     let canonical = sort changed in
     rbind (raise_if (list_ex (\<lambda>k. \<not> tg_known tg k) canonical)
              (MutationTransaction ''unknown changed targets'')) (\<lambda>_.
     let identity = decimal_digits owner @ lit '':'' @ join_text (lit '','') canonical @ lit '':'' @ nonce in
     rbind (of_option IdentityEncoding (encode_utf8 identity)) (\<lambda>encoded.
     Inr \<lparr>tx_owner = owner, tx_keys = canonical, tx_id = hexdigest encoded, tx_state = PREPARED,
          tx_snapshots = [], tx_owns = False, tx_entered = False\<rparr>))))"

section \<open>State\<close>

record ('w, 's) tx_world =
  tw_env :: 'w
  tw_active :: "nat set"
  tw_tx :: "'s transaction"

definition snapshot_count :: "('w, 's) tx_world \<Rightarrow> nat" where
  "snapshot_count w = length (tx_snapshots (tw_tx w))"

definition release_ownership :: "('w, 's) tx_world \<Rightarrow> ('w, 's) tx_world" where
  "release_ownership w =
     (if tx_owns (tw_tx w)
      then w\<lparr>tw_active := tw_active w - {tx_owner (tw_tx w)}, tw_tx := (tw_tx w)\<lparr>tx_owns := False\<rparr>\<rparr>
      else w)"

definition set_tx :: "('s transaction \<Rightarrow> 's transaction) \<Rightarrow> ('w, 's) tx_world \<Rightarrow> ('w, 's) tx_world" where
  "set_tx f w = w\<lparr>tw_tx := f (tw_tx w)\<rparr>"

fun take_snapshots ::
  "('w, 's, 'x) targets \<Rightarrow> pystr list \<Rightarrow> ('w, 's) tx_world \<Rightarrow> ('w, 's) tx_world \<times> ('x transaction_error + unit)" where
  "take_snapshots tg [] w = (w, Inr ())"
| "take_snapshots tg (k # ks) w =
     (case tg_snapshot tg k (tw_env w) of
        (env, Inl x) \<Rightarrow> (w\<lparr>tw_env := env\<rparr>, Inl (TargetRaised x))
      | (env, Inr s) \<Rightarrow>
          take_snapshots tg ks
            (set_tx (\<lambda>t. t\<lparr>tx_snapshots := tx_snapshots t @ [(k, s)]\<rparr>) (w\<lparr>tw_env := env\<rparr>)))"

definition enter ::
  "('w, 's, 'x) targets \<Rightarrow> ('w, 's) tx_world \<Rightarrow> ('w, 's) tx_world \<times> ('x transaction_error + unit)" where
  "enter tg w =
     (if tx_entered (tw_tx w) then (w, Inl (MutationTransaction ''transaction cannot be entered twice''))
      else if tx_owner (tw_tx w) \<in> tw_active w
      then (w, Inl (MutationTransaction ''nested or concurrent mutation transaction is forbidden''))
      else
        let w1 = set_tx (\<lambda>t. t\<lparr>tx_entered := True, tx_owns := True\<rparr>)
                   (w\<lparr>tw_active := insert (tx_owner (tw_tx w)) (tw_active w)\<rparr>) in
        (case take_snapshots tg (tx_keys (tw_tx w1)) w1 of
           (w2, Inl e) \<Rightarrow> (set_tx (\<lambda>t. t\<lparr>tx_snapshots := []\<rparr>) (release_ownership w2), Inl e)
         | (w2, Inr _) \<Rightarrow> (w2, Inr ())))"

definition mark_applied :: "('w, 's) tx_world \<Rightarrow> ('w, 's) tx_world \<times> ('x transaction_error + unit)" where
  "mark_applied w =
     (if \<not> tx_owns (tw_tx w) \<or> tx_state (tw_tx w) \<noteq> PREPARED
      then (w, Inl (MutationTransaction ''only an active prepared transaction can be marked applied''))
      else (set_tx (\<lambda>t. t\<lparr>tx_state := APPLIED\<rparr>) w, Inr ()))"

definition commit :: "('w, 's) tx_world \<Rightarrow> ('w, 's) tx_world \<times> ('x transaction_error + unit)" where
  "commit w =
     (if \<not> tx_owns (tw_tx w)
      then (w, Inl (MutationTransaction ''cannot commit a transaction without mutable ownership''))
      else if tx_state (tw_tx w) \<noteq> PREPARED \<and> tx_state (tw_tx w) \<noteq> APPLIED
      then (w, Inl (MutationTransaction ''cannot commit transaction in this state''))
      else (release_ownership (set_tx (\<lambda>t. t\<lparr>tx_state := COMMITTED, tx_snapshots := []\<rparr>) w), Inr ()))"

text \<open>The restore loop runs over all keys and collects the errors.\<close>

fun restore_all ::
  "('w, 's, 'x) targets \<Rightarrow> pystr list \<Rightarrow> (pystr \<times> 's) list \<Rightarrow> 'w \<Rightarrow> 'w \<times> 'x list" where
  "restore_all tg [] snaps env = (env, [])"
| "restore_all tg (k # ks) snaps env =
     (case map_of snaps k of
        None \<Rightarrow> restore_all tg ks snaps env
      | Some s \<Rightarrow>
          (case tg_restore tg k s env of
             (env', Inr _) \<Rightarrow> restore_all tg ks snaps env'
           | (env', Inl x) \<Rightarrow> (case restore_all tg ks snaps env' of (env'', xs) \<Rightarrow> (env'', x # xs))))"

definition rollback ::
  "('w, 's, 'x) targets \<Rightarrow> ('w, 's) tx_world \<Rightarrow> ('w, 's) tx_world \<times> ('x transaction_error + unit)" where
  "rollback tg w =
     (if tx_state (tw_tx w) = ROLLED_BACK then (w, Inr ())
      else if tx_state (tw_tx w) = COMMITTED
      then (w, Inl (MutationTransaction ''committed transactions cannot be rolled back''))
      else if \<not> tx_owns (tw_tx w)
      then (w, Inl (MutationTransaction ''cannot roll back a transaction without mutable ownership''))
      else
        (case restore_all tg (rev (tx_keys (tw_tx w))) (tx_snapshots (tw_tx w)) (tw_env w) of
           (env, errors) \<Rightarrow>
             (release_ownership (set_tx (\<lambda>t. t\<lparr>tx_snapshots := [], tx_state := ROLLED_BACK\<rparr>) (w\<lparr>tw_env := env\<rparr>)),
              if errors = [] then Inr () else Inl (RestoreFailures errors))))"

definition exit_tx ::
  "('w, 's, 'x) targets \<Rightarrow> ('w, 's) tx_world \<Rightarrow> ('w, 's) tx_world \<times> ('x transaction_error + unit)" where
  "exit_tx tg w =
     (if tx_state (tw_tx w) = PREPARED \<or> tx_state (tw_tx w) = APPLIED then rollback tg w
      else (release_ownership w, Inr ()))"

section \<open>Several transactions over one state\<close>

datatype 'w tx_event =
    Enter nat
  | MarkApplied nat
  | Commit nat
  | Rollback nat
  | Exit nat
  | Mutate "'w \<Rightarrow> 'w"

record ('w, 's) tx_system =
  sy_env :: 'w
  sy_active :: "nat set"
  sy_txs :: "'s transaction list"

text \<open>An operation of the transaction at index \<open>i\<close>; an error it raises leaves the state it reached.\<close>

definition at_tx ::
  "nat \<Rightarrow> (('w, 's) tx_world \<Rightarrow> ('w, 's) tx_world \<times> ('x transaction_error + unit))
     \<Rightarrow> ('w, 's) tx_system \<Rightarrow> ('w, 's) tx_system" where
  "at_tx i f y =
     (if i < length (sy_txs y) then
        (let w = fst (f \<lparr>tw_env = sy_env y, tw_active = sy_active y, tw_tx = sy_txs y ! i\<rparr>) in
         \<lparr>sy_env = tw_env w, sy_active = tw_active w, sy_txs = (sy_txs y)[i := tw_tx w]\<rparr>)
      else y)"

fun tx_step :: "('w, 's, 'x) targets \<Rightarrow> ('w, 's) tx_system \<Rightarrow> 'w tx_event \<Rightarrow> ('w, 's) tx_system" where
  "tx_step tg y (Enter i) = at_tx i (enter tg) y"
| "tx_step tg y (MarkApplied i) = at_tx i (mark_applied :: _ \<Rightarrow> _ \<times> ('x transaction_error + unit)) y"
| "tx_step tg y (Commit i) = at_tx i (commit :: _ \<Rightarrow> _ \<times> ('x transaction_error + unit)) y"
| "tx_step tg y (Rollback i) = at_tx i (rollback tg) y"
| "tx_step tg y (Exit i) = at_tx i (exit_tx tg) y"
| "tx_step tg y (Mutate f) = y\<lparr>sy_env := f (sy_env y)\<rparr>"

definition tx_run :: "('w, 's, 'x) targets \<Rightarrow> ('w, 's) tx_system \<Rightarrow> 'w tx_event list \<Rightarrow> ('w, 's) tx_system" where
  "tx_run tg y es = foldl (tx_step tg) y es"

subsection \<open>What one operation does to ownership\<close>

text \<open>Ownership changes in one of three ways: not at all, taken when free, or released.\<close>

definition tx_live :: "'s transaction \<Rightarrow> bool" where
  "tx_live t \<longleftrightarrow> (tx_owns t \<longrightarrow> tx_state t = PREPARED \<or> tx_state t = APPLIED)"

definition ownership_step :: "('w, 's) tx_world \<Rightarrow> ('w, 's) tx_world \<Rightarrow> bool" where
  "ownership_step w w' \<longleftrightarrow> tx_owner (tw_tx w') = tx_owner (tw_tx w) \<and> tx_live (tw_tx w')
     \<and> (tx_owns (tw_tx w') = tx_owns (tw_tx w) \<and> tw_active w' = tw_active w
        \<or> \<not> tx_owns (tw_tx w) \<and> tx_owns (tw_tx w') \<and> tx_owner (tw_tx w) \<notin> tw_active w
            \<and> tw_active w' = insert (tx_owner (tw_tx w)) (tw_active w)
        \<or> tx_owns (tw_tx w) \<and> \<not> tx_owns (tw_tx w') \<and> tw_active w' = tw_active w - {tx_owner (tw_tx w)})"

lemma take_snapshots_frame:
  "take_snapshots tg ks w = (w', r) \<Longrightarrow> tw_active w' = tw_active w \<and> tx_owner (tw_tx w') = tx_owner (tw_tx w)
     \<and> tx_owns (tw_tx w') = tx_owns (tw_tx w) \<and> tx_state (tw_tx w') = tx_state (tw_tx w)
     \<and> tx_keys (tw_tx w') = tx_keys (tw_tx w) \<and> tx_entered (tw_tx w') = tx_entered (tw_tx w)"
proof (induction tg ks w rule: take_snapshots.induct)
  case (2 tg k ks w)
  then show ?case by (auto simp: set_tx_def split: prod.splits sum.splits)
qed simp

definition tx_fresh :: "'s transaction \<Rightarrow> bool" where
  "tx_fresh t \<longleftrightarrow> \<not> tx_owns t \<and> \<not> tx_entered t \<and> tx_state t = PREPARED \<and> tx_snapshots t = []"

text \<open>A transaction that was not entered has done nothing, so it is still prepared.\<close>

definition tx_ok :: "'s transaction \<Rightarrow> bool" where
  "tx_ok t \<longleftrightarrow> tx_live t \<and> (\<not> tx_entered t \<longrightarrow> \<not> tx_owns t \<and> tx_state t = PREPARED)"

lemma enter_step:
  assumes "enter tg w = (w', r)" and "tx_ok (tw_tx w)"
  shows "ownership_step w w'" and "tx_ok (tw_tx w')"
proof -
  have "ownership_step w w' \<and> tx_ok (tw_tx w')"
  proof (cases "tx_entered (tw_tx w) \<or> tx_owner (tw_tx w) \<in> tw_active w")
    case True
    then show ?thesis using assms by (auto simp: enter_def ownership_step_def tx_ok_def split: if_splits)
  next
    case False
    let ?w1 = "set_tx (\<lambda>t. t\<lparr>tx_entered := True, tx_owns := True\<rparr>)
                   (w\<lparr>tw_active := insert (tx_owner (tw_tx w)) (tw_active w)\<rparr>)"
    obtain w2 r2 where snap: "take_snapshots tg (tx_keys (tw_tx ?w1)) ?w1 = (w2, r2)" by fastforce
    have w2: "tw_active w2 = insert (tx_owner (tw_tx w)) (tw_active w)" "tx_owner (tw_tx w2) = tx_owner (tw_tx w)"
      "tx_owns (tw_tx w2)" "tx_state (tw_tx w2) = PREPARED" "tx_entered (tw_tx w2)"
      using take_snapshots_frame [OF snap] assms(2) False by (auto simp: set_tx_def tx_ok_def)
    have w': "w' = (case r2 of Inl e \<Rightarrow> set_tx (\<lambda>t. t\<lparr>tx_snapshots := []\<rparr>) (release_ownership w2) | Inr _ \<Rightarrow> w2)"
      using assms(1) False snap by (auto simp: enter_def Let_def split: sum.splits)
    show ?thesis
    proof (cases r2)
      case (Inl e)
      then show ?thesis using w2 w' False assms(2)
        by (auto simp: ownership_step_def release_ownership_def set_tx_def tx_ok_def tx_live_def)
    next
      case (Inr u)
      then show ?thesis using w2 w' False assms(2)
        by (auto simp: ownership_step_def tx_ok_def tx_live_def)
    qed
  qed
  then show "ownership_step w w'" "tx_ok (tw_tx w')" by auto
qed

lemma mark_applied_step:
  "mark_applied w = (w', r) \<Longrightarrow> tx_ok (tw_tx w) \<Longrightarrow> ownership_step w w' \<and> tx_ok (tw_tx w')"
  by (auto simp: mark_applied_def set_tx_def ownership_step_def tx_ok_def tx_live_def split: if_splits)

lemma commit_step:
  "commit w = (w', r) \<Longrightarrow> tx_ok (tw_tx w) \<Longrightarrow> ownership_step w w' \<and> tx_ok (tw_tx w')"
  by (auto simp: commit_def set_tx_def release_ownership_def ownership_step_def tx_ok_def tx_live_def split: if_splits)

lemma rollback_step:
  "rollback tg w = (w', r) \<Longrightarrow> tx_ok (tw_tx w) \<Longrightarrow> ownership_step w w' \<and> tx_ok (tw_tx w')"
  by (auto simp: rollback_def set_tx_def release_ownership_def ownership_step_def tx_ok_def tx_live_def
      split: if_splits prod.splits)

lemma exit_step:
  assumes "exit_tx tg w = (w', r)" and "tx_ok (tw_tx w)"
  shows "ownership_step w w' \<and> tx_ok (tw_tx w')"
proof (cases "tx_state (tw_tx w) = PREPARED \<or> tx_state (tw_tx w) = APPLIED")
  case True
  then show ?thesis using assms rollback_step [of tg w w' r] by (simp add: exit_tx_def)
next
  case False
  then show ?thesis using assms
    by (auto simp: exit_tx_def release_ownership_def ownership_step_def tx_ok_def tx_live_def)
qed

subsection \<open>Ownership is exclusive\<close>

definition owning :: "'s transaction list \<Rightarrow> nat set" where
  "owning txs = {i. i < length txs \<and> tx_owns (txs ! i)}"

definition ownership_ok :: "('w, 's) tx_system \<Rightarrow> bool" where
  "ownership_ok y \<longleftrightarrow> list_all tx_ok (sy_txs y)
     \<and> inj_on (\<lambda>i. tx_owner (sy_txs y ! i)) (owning (sy_txs y))
     \<and> sy_active y = (\<lambda>i. tx_owner (sy_txs y ! i)) ` owning (sy_txs y)"

lemma at_tx_ok:
  assumes "ownership_ok y" and "\<And>w w' r. f w = (w', r) \<Longrightarrow> tx_ok (tw_tx w) \<Longrightarrow> ownership_step w w' \<and> tx_ok (tw_tx w')"
  shows "ownership_ok (at_tx i f y)"
proof (cases "i < length (sy_txs y)")
  case True
  let ?w = "\<lparr>tw_env = sy_env y, tw_active = sy_active y, tw_tx = sy_txs y ! i\<rparr>"
  obtain w' r where f: "f ?w = (w', r)" by fastforce
  have ok: "tx_ok (tw_tx ?w)" using assms(1) True by (simp add: ownership_ok_def list_all_length)
  have step: "ownership_step ?w w'" and ok': "tx_ok (tw_tx w')" using assms(2) [OF f ok] by auto
  let ?t = "sy_txs y ! i" and ?txs = "(sy_txs y)[i := tw_tx w']"
  have y': "at_tx i f y = \<lparr>sy_env = tw_env w', sy_active = tw_active w', sy_txs = ?txs\<rparr>"
    using True f by (simp add: at_tx_def Let_def)
  have owner: "tx_owner (?txs ! j) = tx_owner (sy_txs y ! j)" for j
    using step True by (cases "j = i") (simp_all add: ownership_step_def)
  have all: "list_all tx_ok ?txs"
    using assms(1) ok' True by (auto simp: ownership_ok_def list_all_length nth_list_update)
  have others: "owning ?txs - {i} = owning (sy_txs y) - {i}"
    by (auto simp: owning_def)
  have mem: "i \<in> owning ?txs \<longleftrightarrow> tx_owns (tw_tx w')" "i \<in> owning (sy_txs y) \<longleftrightarrow> tx_owns ?t"
    using True by (simp_all add: owning_def)
  let ?o = "\<lambda>j. tx_owner (sy_txs y ! j)"
  have inj: "inj_on ?o (owning (sy_txs y))" and act: "sy_active y = ?o ` owning (sy_txs y)"
    using assms(1) by (auto simp: ownership_ok_def)
  consider (same) "tx_owns (tw_tx w') = tx_owns ?t" "tw_active w' = sy_active y"
    | (take) "\<not> tx_owns ?t" "tx_owns (tw_tx w')" "?o i \<notin> sy_active y" "tw_active w' = insert (?o i) (sy_active y)"
    | (give) "tx_owns ?t" "\<not> tx_owns (tw_tx w')" "tw_active w' = sy_active y - {?o i}"
    using step by (auto simp: ownership_step_def)
  then have "inj_on ?o (owning ?txs) \<and> tw_active w' = ?o ` owning ?txs"
  proof cases
    case same
    then have "owning ?txs = owning (sy_txs y)" using others mem by blast
    then show ?thesis using same inj act by simp
  next
    case take
    then have eq: "owning ?txs = insert i (owning (sy_txs y))" using others mem by blast
    have "?o i \<notin> ?o ` (owning (sy_txs y) - {i})" using take(3) act by blast
    then show ?thesis using inj by (simp only: eq inj_on_insert take(4) act image_insert simp_thms)
  next
    case give
    then have eq: "owning ?txs = owning (sy_txs y) - {i}" using others mem by blast
    have "i \<in> owning (sy_txs y)" using mem(2) give(1) by simp
    then have "?o ` (owning (sy_txs y) - {i}) = ?o ` owning (sy_txs y) - {?o i}"
      by (subst inj_on_image_set_diff [OF inj]) auto
    moreover have "inj_on ?o (owning (sy_txs y) - {i})" by (rule inj_on_subset [OF inj]) blast
    ultimately show ?thesis by (simp only: eq give(3) act simp_thms)
  qed
  then show ?thesis using all owner by (simp add: y' ownership_ok_def)
next
  case False
  then show ?thesis using assms(1) by (simp add: at_tx_def)
qed

lemma tx_run_ok:
  assumes "ownership_ok y"
  shows "ownership_ok (tx_run tg y es)"
  using assms
proof (induction es arbitrary: y)
  case (Cons e es)
  have "ownership_ok (tx_step tg y e)"
  proof (cases e)
    case (Mutate f)
    then show ?thesis using Cons.prems by (simp add: ownership_ok_def)
  qed (use Cons.prems in \<open>auto intro!: at_tx_ok dest: enter_step mark_applied_step commit_step rollback_step exit_step\<close>)
  from Cons.IH [OF this] show ?case by (simp add: tx_run_def)
qed (simp add: tx_run_def)

text \<open>
  C12. Exclusive ownership: whatever the transactions over one process do, in any interleaving and whatever
  their targets raise, no two of them own the same object at once, and the set of active owners holds
  exactly the owners of the transactions that own one; so an owner is never left locked.
\<close>
theorem ownership_exclusive:
  assumes "list_all tx_fresh txs" and "y = tx_run tg \<lparr>sy_env = env, sy_active = {}, sy_txs = txs\<rparr> events"
  shows "(\<forall>i < length (sy_txs y). \<forall>j < length (sy_txs y). tx_owns (sy_txs y ! i) \<longrightarrow> tx_owns (sy_txs y ! j)
      \<longrightarrow> tx_owner (sy_txs y ! i) = tx_owner (sy_txs y ! j) \<longrightarrow> i = j)
    \<and> sy_active y = tx_owner ` {t \<in> set (sy_txs y). tx_owns t}"
proof -
  have "ownership_ok \<lparr>sy_env = env, sy_active = {}, sy_txs = txs\<rparr>"
  proof -
    have "owning txs = {}" using assms(1) by (auto simp: owning_def tx_fresh_def list_all_length)
    then show ?thesis using assms(1)
      by (simp add: ownership_ok_def tx_fresh_def tx_ok_def tx_live_def list_all_length)
  qed
  then have ok: "ownership_ok y" unfolding assms(2) by (rule tx_run_ok)
  have "(\<lambda>i. tx_owner (sy_txs y ! i)) ` owning (sy_txs y) = tx_owner ` {t \<in> set (sy_txs y). tx_owns t}"
    by (auto simp: owning_def in_set_conv_nth image_iff)
  then show ?thesis using ok by (auto simp: ownership_ok_def owning_def inj_on_def)
qed

section \<open>An uncommitted block is undone\<close>

text \<open>
  What a target promises, over a view of the state per key: a snapshot reads and changes no view, restoring
  it brings back the view of its key, and a restore touches the view of no other key even when it raises.
\<close>

definition faithful_targets :: "('w, 's, 'x) targets \<Rightarrow> (pystr \<Rightarrow> 'w \<Rightarrow> 'v) \<Rightarrow> bool" where
  "faithful_targets tg view \<longleftrightarrow>
     (\<forall>k w w' r. tg_snapshot tg k w = (w', r) \<longrightarrow> (\<forall>j. view j w' = view j w))
     \<and> (\<forall>k w w' s u u'. tg_snapshot tg k w = (w', Inr s) \<longrightarrow> tg_restore tg k s u = (u', Inr ())
          \<longrightarrow> view k u' = view k w)
     \<and> (\<forall>k s u u' r j. tg_restore tg k s u = (u', r) \<longrightarrow> j \<noteq> k \<longrightarrow> view j u' = view j u)"

text \<open>A snapshot that restores the view \<open>v\<close> of its key.\<close>

definition restores :: "('w, 's, 'x) targets \<Rightarrow> (pystr \<Rightarrow> 'w \<Rightarrow> 'v) \<Rightarrow> pystr \<Rightarrow> 's \<Rightarrow> 'v \<Rightarrow> bool" where
  "restores tg view k s v \<longleftrightarrow> (\<forall>u u'. tg_restore tg k s u = (u', Inr ()) \<longrightarrow> view k u' = v)"

lemma take_snapshots_restores:
  assumes "faithful_targets tg view" and "take_snapshots tg ks w = (w', Inr ())" and "distinct ks"
    and "\<forall>k \<in> set ks. map_of (tx_snapshots (tw_tx w)) k = None"
  shows "(\<forall>j. view j (tw_env w') = view j (tw_env w))
    \<and> (\<forall>k. k \<notin> set ks \<longrightarrow> map_of (tx_snapshots (tw_tx w')) k = map_of (tx_snapshots (tw_tx w)) k)
    \<and> (\<forall>k \<in> set ks. \<exists>s. map_of (tx_snapshots (tw_tx w')) k = Some s \<and> restores tg view k s (view k (tw_env w)))"
  using assms(2-4)
proof (induction ks arbitrary: w)
  case (Cons k ks)
  obtain env s where snap: "tg_snapshot tg k (tw_env w) = (env, Inr s)"
    and rest: "take_snapshots tg ks (set_tx (\<lambda>t. t\<lparr>tx_snapshots := tx_snapshots t @ [(k, s)]\<rparr>) (w\<lparr>tw_env := env\<rparr>))
      = (w', Inr ())"
    using Cons.prems(1) by (auto split: prod.splits sum.splits)
  let ?w = "set_tx (\<lambda>t. t\<lparr>tx_snapshots := tx_snapshots t @ [(k, s)]\<rparr>) (w\<lparr>tw_env := env\<rparr>)"
  have env: "view j env = view j (tw_env w)" for j
    using assms(1) snap unfolding faithful_targets_def by blast
  have s: "restores tg view k s (view k (tw_env w))"
    using assms(1) snap unfolding faithful_targets_def restores_def by blast
  have w: "tw_env ?w = env" "map_of (tx_snapshots (tw_tx ?w)) j
      = (case map_of (tx_snapshots (tw_tx w)) j of Some x \<Rightarrow> Some x | None \<Rightarrow> if j = k then Some s else None)" for j
    by (auto simp: set_tx_def map_add_def split: option.splits)
  have k: "k \<notin> set ks" "distinct ks" using Cons.prems(2) by auto
  have none: "\<forall>j \<in> set ks. map_of (tx_snapshots (tw_tx ?w)) j = None"
    using Cons.prems(3) k(1) by (auto simp: w)
  have IH: "\<forall>j. view j (tw_env w') = view j (tw_env ?w)"
    "\<forall>j. j \<notin> set ks \<longrightarrow> map_of (tx_snapshots (tw_tx w')) j = map_of (tx_snapshots (tw_tx ?w)) j"
    "\<forall>j \<in> set ks. \<exists>x. map_of (tx_snapshots (tw_tx w')) j = Some x \<and> restores tg view j x (view j (tw_env ?w))"
    using Cons.IH [OF rest k(2) none] by blast+
  have "map_of (tx_snapshots (tw_tx w')) k = Some s" using IH(2) k(1) Cons.prems(3) by (simp add: w)
  then show ?case using IH s by (auto simp: w env split: option.splits)
qed simp

lemma restore_all_views:
  assumes "faithful_targets tg view" and "restore_all tg ks snaps env = (env', errors)" and "distinct ks"
    and "\<forall>k \<in> set ks. \<exists>s. map_of snaps k = Some s \<and> restores tg view k s (v k)"
  shows "\<exists>failed. failed \<subseteq> set ks \<and> card failed = length errors
    \<and> (\<forall>k \<in> set ks - failed. view k env' = v k) \<and> (\<forall>j. j \<notin> set ks \<longrightarrow> view j env' = view j env)"
  using assms(2-4)
proof (induction ks arbitrary: env errors)
  case (Cons k ks)
  obtain s where s: "map_of snaps k = Some s" "restores tg view k s (v k)" using Cons.prems(3) by auto
  obtain env1 r where restore: "tg_restore tg k s env = (env1, r)" by fastforce
  obtain errors1 where rest: "restore_all tg ks snaps env1 = (env', errors1)"
    and errors: "errors = (case r of Inl x \<Rightarrow> x # errors1 | Inr _ \<Rightarrow> errors1)"
    using Cons.prems(1) s(1) restore by (auto split: sum.splits prod.splits)
  have k: "k \<notin> set ks" "distinct ks" using Cons.prems(2) by auto
  obtain failed where f: "failed \<subseteq> set ks" "card failed = length errors1"
    "\<forall>j \<in> set ks - failed. view j env' = v j" "\<forall>j. j \<notin> set ks \<longrightarrow> view j env' = view j env1"
    using Cons.IH [OF rest k(2)] Cons.prems(3) by auto
  have frame: "view j env1 = view j env" if "j \<noteq> k" for j
    using assms(1) restore that unfolding faithful_targets_def by blast
  show ?case
  proof (cases r)
    case (Inl x)
    have "finite failed" using f(1) finite_subset by blast
    moreover have "k \<notin> failed" using f(1) k(1) by blast
    ultimately have "card (insert k failed) = length errors" using f(2) errors Inl by simp
    then show ?thesis using f frame by (intro exI [of _ "insert k failed"]) auto
  next
    case (Inr u)
    have "view k env1 = v k" using s(2) restore Inr unfolding restores_def by simp
    then show ?thesis using f frame k(1) errors Inr by (intro exI [of _ failed]) auto
  qed
qed simp

text \<open>The body of a \<open>with\<close> block that does not end the transaction itself: mutations and the mark.\<close>

datatype 'w body_step = Change "'w \<Rightarrow> 'w" | Mark

fun do_body :: "('w, 's) tx_world \<Rightarrow> 'w body_step \<Rightarrow> ('w, 's) tx_world" where
  "do_body w (Change f) = w\<lparr>tw_env := f (tw_env w)\<rparr>"
| "do_body w Mark = fst (mark_applied w :: _ \<times> (unit transaction_error + unit))"

definition run_body :: "('w, 's) tx_world \<Rightarrow> 'w body_step list \<Rightarrow> ('w, 's) tx_world" where
  "run_body w steps = foldl do_body w steps"

definition restore_errors :: "'x transaction_error + unit \<Rightarrow> 'x list" where
  "restore_errors r = (case r of Inl (RestoreFailures xs) \<Rightarrow> xs | _ \<Rightarrow> [])"

lemma run_body_frame:
  "tx_state (tw_tx w) = PREPARED \<or> tx_state (tw_tx w) = APPLIED \<Longrightarrow>
     tw_active (run_body w steps) = tw_active w
     \<and> (tx_state (tw_tx (run_body w steps)) = PREPARED \<or> tx_state (tw_tx (run_body w steps)) = APPLIED)
     \<and> tx_owner (tw_tx (run_body w steps)) = tx_owner (tw_tx w) \<and> tx_owns (tw_tx (run_body w steps)) = tx_owns (tw_tx w)
     \<and> tx_keys (tw_tx (run_body w steps)) = tx_keys (tw_tx w)
     \<and> tx_snapshots (tw_tx (run_body w steps)) = tx_snapshots (tw_tx w)"
proof (induction steps arbitrary: w)
  case (Cons st steps)
  show ?case
  proof (cases st)
    case (Change f)
    then show ?thesis using Cons by (simp add: run_body_def)
  next
    case Mark
    let ?w = "fst (mark_applied w :: _ \<times> (unit transaction_error + unit))"
    have w: "tw_active ?w = tw_active w" "tx_state (tw_tx ?w) = PREPARED \<or> tx_state (tw_tx ?w) = APPLIED"
      "tx_owner (tw_tx ?w) = tx_owner (tw_tx w)" "tx_owns (tw_tx ?w) = tx_owns (tw_tx w)"
      "tx_keys (tw_tx ?w) = tx_keys (tw_tx w)" "tx_snapshots (tw_tx ?w) = tx_snapshots (tw_tx w)"
      using Cons.prems by (auto simp: mark_applied_def set_tx_def)
    show ?thesis using Cons.IH [OF w(2)] w Mark by (simp add: run_body_def)
  qed
qed (simp add: run_body_def)

lemma exit_rolls_back:
  assumes "exit_tx tg w = (w', r)" and "tx_state (tw_tx w) = PREPARED \<or> tx_state (tw_tx w) = APPLIED"
    and "tx_owns (tw_tx w)"
  shows "tx_state (tw_tx w') = ROLLED_BACK" and "\<not> tx_owns (tw_tx w')" and "tx_snapshots (tw_tx w') = []"
    and "tw_active w' = tw_active w - {tx_owner (tw_tx w)}"
    and "restore_all tg (rev (tx_keys (tw_tx w))) (tx_snapshots (tw_tx w)) (tw_env w) = (tw_env w', restore_errors r)"
    and "r = Inr () \<longleftrightarrow> restore_errors r = []"
  using assms
  by (auto simp: exit_tx_def rollback_def release_ownership_def set_tx_def restore_errors_def
      split: prod.splits if_splits)

text \<open>A block that was entered: what its transaction holds after any body.\<close>

lemma entered_block:
  assumes "faithful_targets tg view" and "transaction_init tg nonce owner changed = Inr t"
    and "enter tg \<lparr>tw_env = env, tw_active = active, tw_tx = t\<rparr> = (w, Inr ())" and "w1 = run_body w steps"
  shows "tx_state (tw_tx w1) = PREPARED \<or> tx_state (tw_tx w1) = APPLIED" and "tx_owns (tw_tx w1)"
    and "owner \<notin> active" and "tw_active w1 = insert owner active" and "tx_owner (tw_tx w1) = owner"
    and "distinct changed" and "tx_keys (tw_tx w1) = sort changed"
    and "\<forall>k \<in> set changed. \<exists>s. map_of (tx_snapshots (tw_tx w1)) k = Some s \<and> restores tg view k s (view k env)"
proof -
  from assms(2) have t: "distinct changed" "tx_owner t = owner" "tx_keys t = sort changed" "tx_state t = PREPARED"
    "tx_snapshots t = []" "\<not> tx_entered t"
    by (auto simp: transaction_init_def Let_def)
  let ?w1 = "\<lparr>tw_env = env, tw_active = insert owner active, tw_tx = t\<lparr>tx_entered := True, tx_owns := True\<rparr>\<rparr>"
  have free: "owner \<notin> active" and snap: "take_snapshots tg (sort changed) ?w1 = (w, Inr ())"
    using assms(3) t by (auto simp: enter_def set_tx_def Let_def split: if_splits prod.splits sum.splits)
  have w: "tw_active w = insert owner active" "tx_owner (tw_tx w) = owner" "tx_owns (tw_tx w)"
    "tx_state (tw_tx w) = PREPARED" "tx_keys (tw_tx w) = sort changed"
    using take_snapshots_frame [OF snap] t by simp_all
  have snaps: "\<forall>k \<in> set changed. \<exists>s. map_of (tx_snapshots (tw_tx w)) k = Some s \<and> restores tg view k s (view k env)"
    using take_snapshots_restores [OF assms(1) snap] t(1,5) by simp
  have "tx_state (tw_tx w) = PREPARED \<or> tx_state (tw_tx w) = APPLIED" using w(4) by simp
  note b = run_body_frame [OF this, of steps]
  show "tx_state (tw_tx w1) = PREPARED \<or> tx_state (tw_tx w1) = APPLIED" "tx_owns (tw_tx w1)" "owner \<notin> active"
    "tw_active w1 = insert owner active" "tx_owner (tw_tx w1) = owner" "distinct changed" "tx_keys (tw_tx w1) = sort changed"
    "\<forall>k \<in> set changed. \<exists>s. map_of (tx_snapshots (tw_tx w1)) k = Some s \<and> restores tg view k s (view k env)"
    using b w free t(1) snaps by (simp_all add: assms(4))
qed

lemma restored_block:
  assumes "faithful_targets tg view" and "distinct changed"
    and "restore_all tg (rev (sort changed)) snaps env1 = (env2, errors)"
    and "\<forall>k \<in> set changed. \<exists>s. map_of snaps k = Some s \<and> restores tg view k s (view k env)"
  shows "\<exists>failed. failed \<subseteq> set changed \<and> card failed = length errors
    \<and> (\<forall>k \<in> set changed - failed. view k env2 = view k env)
    \<and> (\<forall>j. j \<notin> set changed \<longrightarrow> view j env2 = view j env1)"
  using restore_all_views [OF assms(1,3), of "\<lambda>k. view k env"] assms(2,4) by simp

text \<open>
  C8. An uncommitted block is undone: after a transaction was entered, however its body changed the state,
  leaving it rolls it back, frees the owner and drops the snapshots. Every declared target is back at what
  it was before the block, except for as many as there are reported restore errors: one that cannot be
  restored keeps no other from being restored. Nothing else is touched by the rollback.
\<close>
theorem uncommitted_block_undone:
  assumes "faithful_targets tg view" and "transaction_init tg nonce owner changed = Inr t"
    and "enter tg \<lparr>tw_env = env, tw_active = active, tw_tx = t\<rparr> = (w, Inr ())"
    and "exit_tx tg (run_body w steps) = (w', r)"
  shows "tx_state (tw_tx w') = ROLLED_BACK \<and> \<not> tx_owns (tw_tx w') \<and> snapshot_count w' = 0 \<and> tw_active w' = active
    \<and> (\<exists>failed. failed \<subseteq> set changed \<and> card failed = length (restore_errors r)
        \<and> (\<forall>k \<in> set changed - failed. view k (tw_env w') = view k env)
        \<and> (\<forall>j. j \<notin> set changed \<longrightarrow> view j (tw_env w') = view j (tw_env (run_body w steps))))
    \<and> (r = Inr () \<longleftrightarrow> restore_errors r = [])"
proof -
  note w = entered_block [OF assms(1-3), of "run_body w steps" steps, OF refl]
  note e = exit_rolls_back [OF assms(4) w(1,2)]
  have "tw_active w' = active" using e(4) w(3-5) by simp
  then show ?thesis
    using e(1-3,6) restored_block [OF assms(1) w(6) e(5) [unfolded w(7)] w(8)] by (simp add: snapshot_count_def)
qed

section \<open>Two targets, one of which cannot be restored\<close>

definition demo_targets :: "(pystr \<Rightarrow> nat, nat, unit) targets" where
  "demo_targets = \<lparr>tg_known = (\<lambda>_. True), tg_snapshot = (\<lambda>k w. (w, Inr (w k))),
     tg_restore = (\<lambda>k s w. if k = [98] then (w, Inl ()) else (w(k := s), Inr ()))\<rparr>"

lemma demo_targets_faithful: "faithful_targets demo_targets (\<lambda>k w. w k)"
  by (auto simp: faithful_targets_def demo_targets_def split: if_splits)

definition demo_tx :: "nat transaction" where
  "demo_tx = \<lparr>tx_owner = 5, tx_keys = [[97], [98]],
     tx_id = hexdigest (map of_nat ([0x35, 0x3A, 97, 0x2C, 98, 0x3A] :: nat list)), tx_state = PREPARED,
     tx_snapshots = [], tx_owns = False, tx_entered = False\<rparr>"

lemma demo_tx_init: "transaction_init demo_targets [] 5 [[98], [97]] = Inr demo_tx"
proof -
  have "encode_utf8 (decimal_digits 5 @ lit '':'' @ join_text (lit '','') [[97], [98]] @ lit '':'' @ [])
      = Some (map of_nat ([0x35, 0x3A, 97, 0x2C, 98, 0x3A] :: nat list))" by code_simp
  then show ?thesis
    by (simp add: transaction_init_def demo_tx_def Let_def demo_targets_def)
qed

definition demo_env :: "pystr \<Rightarrow> nat" where
  "demo_env = (\<lambda>_. 1)"

theorem uncommitted_block_undone_witness:
  "\<exists>w w' r. enter demo_targets \<lparr>tw_env = demo_env, tw_active = {}, tw_tx = demo_tx\<rparr> = (w, Inr ())
    \<and> exit_tx demo_targets (run_body w [Change (\<lambda>_ _. 7), Mark]) = (w', r)
    \<and> tx_state (tw_tx w') = ROLLED_BACK \<and> tw_active w' = {} \<and> restore_errors r = [()]"
proof -
  define w where "w = fst (enter demo_targets \<lparr>tw_env = demo_env, tw_active = {}, tw_tx = demo_tx\<rparr>)"
  have enter: "enter demo_targets \<lparr>tw_env = demo_env, tw_active = {}, tw_tx = demo_tx\<rparr> = (w, Inr ())"
    by (simp add: w_def enter_def demo_tx_def set_tx_def demo_targets_def Let_def)
  obtain w' r where exit: "exit_tx demo_targets (run_body w [Change (\<lambda>_ _. 7), Mark]) = (w', r)" by fastforce
  have "restore_errors r = [()]"
    using exit by (auto simp: w_def enter_def demo_tx_def set_tx_def demo_targets_def Let_def run_body_def
        mark_applied_def exit_tx_def rollback_def restore_errors_def)
  with uncommitted_block_undone [OF demo_targets_faithful demo_tx_init enter exit] enter exit
  show ?thesis by blast
qed

theorem ownership_exclusive_witness:
  "sy_active (tx_run demo_targets \<lparr>sy_env = demo_env, sy_active = {}, sy_txs = [demo_tx, demo_tx]\<rparr> [Enter 0, Enter 1, Commit 1])
    = {5}"
proof -
  let ?y = "tx_run demo_targets \<lparr>sy_env = demo_env, sy_active = {}, sy_txs = [demo_tx, demo_tx]\<rparr> [Enter 0, Enter 1, Commit 1]"
  have "list_all tx_fresh [demo_tx, demo_tx]" by (simp add: tx_fresh_def demo_tx_def)
  note own = ownership_exclusive [OF this refl, of demo_targets demo_env "[Enter 0, Enter 1, Commit 1]"]
  have "map (\<lambda>t. (tx_owner t, tx_owns t)) (sy_txs ?y) = [(5, True), (5, False)]"
    by (simp add: tx_run_def at_tx_def enter_def commit_def demo_tx_def set_tx_def demo_targets_def Let_def)
  then have "tx_owner ` {t \<in> set (sy_txs ?y). tx_owns t} = {5}" by (cases "sy_txs ?y") (auto split: list.splits)
  with own show ?thesis by simp
qed

end
