(* ===== verification/WorkerScheduler.thy ===== *)
theory WorkerScheduler
  imports PyJsonText "HOL-Library.AList" "HOL-Library.Product_Lexorder"
begin

text \<open>
  \<open>experiments/worker_scheduler.py\<close>: validated worker profiles, task specifications named by the digest
  of their canonical JSON, and the in-process scheduler. Python dicts that are iterated are association
  lists in insertion order (\<open>AList.update\<close> keeps a key's place); the counters are maps. The token
  factory is a function of the number of tokens drawn so far. An operation that raises after it changed
  the scheduler returns the changed state with the error.
\<close>

datatype scheduler_error = SchedulerError string | SchedulerKey | SchedulerValue

datatype worker_operation = EVALUATE | MUTATE | PROFILE | PACKAGE

datatype worker_transport = LOCAL | EXPLICIT_REMOTE

datatype task_outcome = SUPPORTED | UNSUPPORTED | OUTCOME_FAILED | UNKNOWN

datatype task_state = QUEUED | TASK_RUNNING | COMPLETED | EXHAUSTED

fun operation_value :: "worker_operation \<Rightarrow> string" where
  "operation_value EVALUATE = ''evaluate''"
| "operation_value MUTATE = ''mutate''"
| "operation_value PROFILE = ''profile''"
| "operation_value PACKAGE = ''package''"

fun transport_value :: "worker_transport \<Rightarrow> string" where
  "transport_value LOCAL = ''local''"
| "transport_value EXPLICIT_REMOTE = ''explicit_remote''"

section \<open>Validation\<close>

definition check_text :: "pystr \<Rightarrow> scheduler_error + pystr" where
  "check_text v = rbind (raise_if (is_blank v) (SchedulerError ''must be non-empty text'')) (\<lambda>_. Inr v)"

definition check_digest :: "pystr \<Rightarrow> scheduler_error + pystr" where
  "check_digest v =
     rbind (check_text v) (\<lambda>text.
     rbind (raise_if (take 7 text \<noteq> lit ''sha256:'' \<or> length text \<noteq> 7 + 64)
              (SchedulerError ''must be a sha256 content digest'')) (\<lambda>_.
     rbind (raise_if (py_int16 (drop 7 text) = None)
              (SchedulerError ''must be a sha256 content digest'')) (\<lambda>_.
     Inr text)))"

lemma check_digest_hexdigest:
  "check_digest (lit ''sha256:'' @ hexdigest bs) = Inr (lit ''sha256:'' @ hexdigest bs)"
proof -
  have hex: "length (hexdigest bs) = 64" "list_all (\<lambda>c. hex_value c \<noteq> None) (hexdigest bs)"
    using hexdigest_is_hex64 [of bs] by (auto simp: is_hex64_def list_all_iff hex_value_def)
  have "hexdigest bs \<noteq> []" using hex(1) by auto
  then obtain n where n: "py_int16 (hexdigest bs) = Some n" using py_int16_hex [OF hex(2)] by blast
  have l: "length (lit ''sha256:'') = 7" "\<not> list_all is_py_space (lit ''sha256:'')"
    by (simp_all add: lit_def is_py_space_def)
  show ?thesis using n hex(1) l by (simp add: check_digest_def check_text_def is_blank_def)
qed

definition check_nonnegative :: "int \<Rightarrow> scheduler_error + unit" where
  "check_nonnegative v = raise_if (v < 0) (SchedulerError ''must be a non-negative integer'')"

definition check_positive :: "int \<Rightarrow> scheduler_error + unit" where
  "check_positive v = raise_if (v \<le> 0) (SchedulerError ''must be a positive integer'')"

record worker_capacity =
  wc_ram :: int
  wc_vram :: int
  wc_disk :: int
  wc_cpu :: int
  wc_gpu :: int

definition worker_capacity_init :: "worker_capacity \<Rightarrow> scheduler_error + worker_capacity" where
  "worker_capacity_init c =
     rbind (mapM_r check_nonnegative [wc_ram c, wc_vram c, wc_disk c, wc_cpu c, wc_gpu c]) (\<lambda>_.
     rbind (raise_if (wc_cpu c = 0) (SchedulerError ''worker must advertise a CPU core'')) (\<lambda>_.
     rbind (raise_if (wc_gpu c = 0 \<and> wc_vram c \<noteq> 0) (SchedulerError ''VRAM requires a GPU'')) (\<lambda>_.
     Inr c)))"

definition capacity_record :: "worker_capacity \<Rightarrow> json" where
  "capacity_record c = JObj [(lit ''ram_bytes'', JInt (wc_ram c)), (lit ''vram_bytes'', JInt (wc_vram c)),
     (lit ''disk_bytes'', JInt (wc_disk c)), (lit ''cpu_cores'', JInt (wc_cpu c)),
     (lit ''gpu_count'', JInt (wc_gpu c))]"

text \<open>The hardware inventory is the record it exports.\<close>

record worker_profile =
  wp_worker :: pystr
  wp_transport :: worker_transport
  wp_operations :: "worker_operation list"
  wp_capacity :: worker_capacity
  wp_hardware :: json
  wp_revision :: pystr
  wp_concurrency :: int
  wp_schema :: int

definition WORKER_SCHEDULER_SCHEMA_VERSION :: int where
  "WORKER_SCHEDULER_SCHEMA_VERSION = 1"

definition worker_profile_init :: "worker_profile \<Rightarrow> scheduler_error + worker_profile" where
  "worker_profile_init p =
     rbind (check_text (wp_worker p)) (\<lambda>_.
     rbind (check_text (wp_revision p)) (\<lambda>_.
     rbind (raise_if (wp_schema p \<noteq> WORKER_SCHEDULER_SCHEMA_VERSION)
              (SchedulerError ''unsupported worker profile schema'')) (\<lambda>_.
     rbind (check_positive (wp_concurrency p)) (\<lambda>_.
     rbind (raise_if (wp_operations p = []) (SchedulerError ''must advertise an operation'')) (\<lambda>_.
     rbind (raise_if (\<not> distinct (wp_operations p)) (SchedulerError ''operations must be unique'')) (\<lambda>_.
     rbind (raise_if (sort_key (\<lambda>x. lit (operation_value x)) (wp_operations p) \<noteq> wp_operations p)
              (SchedulerError ''operations must be canonically ordered'')) (\<lambda>_.
     Inr p)))))))"

definition profile_record :: "worker_profile \<Rightarrow> json" where
  "profile_record p = JObj [(lit ''schema_version'', JInt (wp_schema p)),
     (lit ''worker_id'', JStr (wp_worker p)),
     (lit ''transport'', JStr (lit (transport_value (wp_transport p)))),
     (lit ''operations'', JList (map (\<lambda>x. JStr (lit (operation_value x))) (wp_operations p))),
     (lit ''capacity'', capacity_record (wp_capacity p)),
     (lit ''hardware'', wp_hardware p),
     (lit ''worker_revision'', JStr (wp_revision p)),
     (lit ''max_concurrency'', JInt (wp_concurrency p))]"

definition profile_id :: "worker_profile \<Rightarrow> scheduler_error + pystr" where
  "profile_id p =
     rbind (of_option SchedulerValue (json_dumps (profile_record p))) (\<lambda>text.
     Inr (lit ''worker_profile_'' @ content_digest text))"

record worker_registration =
  rg_profile :: worker_profile
  rg_credential :: pystr
  rg_time :: int

definition worker_registration_init :: "worker_registration \<Rightarrow> scheduler_error + worker_registration" where
  "worker_registration_init g =
     rbind (check_digest (rg_credential g)) (\<lambda>_.
     rbind (check_nonnegative (rg_time g)) (\<lambda>_. Inr g))"

definition registration_record :: "worker_registration \<Rightarrow> scheduler_error + json" where
  "registration_record g =
     rbind (profile_id (rg_profile g)) (\<lambda>pid.
     Inr (JObj [(lit ''profile'', profile_record (rg_profile g)), (lit ''profile_id'', JStr pid),
       (lit ''credential_digest'', JStr (rg_credential g)), (lit ''registered_at_ns'', JInt (rg_time g))]))"

record content_input =
  ci_digest :: pystr
  ci_size :: int
  ci_role :: pystr

definition content_input_init :: "content_input \<Rightarrow> scheduler_error + content_input" where
  "content_input_init i =
     rbind (check_digest (ci_digest i)) (\<lambda>_.
     rbind (check_nonnegative (ci_size i)) (\<lambda>_.
     rbind (check_text (ci_role i)) (\<lambda>_. Inr i)))"

definition content_input_record :: "content_input \<Rightarrow> json" where
  "content_input_record i = JObj [(lit ''digest'', JStr (ci_digest i)),
     (lit ''size_bytes'', JInt (ci_size i)), (lit ''role'', JStr (ci_role i))]"

record task_spec =
  ts_campaign :: pystr
  ts_operation :: worker_operation
  ts_inputs :: "content_input list"
  ts_ram :: int
  ts_vram :: int
  ts_disk :: int
  ts_cpu :: int
  ts_priority :: int
  ts_seed :: int
  ts_max_attempts :: int

definition task_spec_init :: "task_spec \<Rightarrow> scheduler_error + task_spec" where
  "task_spec_init t =
     rbind (check_text (ts_campaign t)) (\<lambda>_.
     rbind (raise_if (ts_inputs t = []) (SchedulerError ''tasks require an input'')) (\<lambda>_.
     rbind (raise_if (\<not> distinct (map ci_digest (ts_inputs t)))
              (SchedulerError ''task inputs must have unique content digests'')) (\<lambda>_.
     rbind (mapM_r check_nonnegative [ts_ram t, ts_vram t, ts_disk t]) (\<lambda>_.
     rbind (check_positive (ts_cpu t)) (\<lambda>_.
     rbind (raise_if (ts_priority t < 0) (SchedulerError ''task priority must be non-negative'')) (\<lambda>_.
     rbind (check_nonnegative (ts_seed t)) (\<lambda>_.
     rbind (check_positive (ts_max_attempts t)) (\<lambda>_.
     Inr t))))))))"

definition task_record :: "task_spec \<Rightarrow> json" where
  "task_record t = JObj [(lit ''schema_version'', JInt WORKER_SCHEDULER_SCHEMA_VERSION),
     (lit ''campaign_id'', JStr (ts_campaign t)),
     (lit ''operation'', JStr (lit (operation_value (ts_operation t)))),
     (lit ''inputs'', JList (map content_input_record (ts_inputs t))),
     (lit ''ram_bytes'', JInt (ts_ram t)), (lit ''vram_bytes'', JInt (ts_vram t)),
     (lit ''disk_bytes'', JInt (ts_disk t)), (lit ''cpu_cores'', JInt (ts_cpu t)),
     (lit ''priority'', JInt (ts_priority t)), (lit ''seed'', JInt (ts_seed t)),
     (lit ''max_attempts'', JInt (ts_max_attempts t))]"

definition task_id :: "task_spec \<Rightarrow> scheduler_error + pystr" where
  "task_id t =
     rbind (of_option SchedulerValue (json_dumps (task_record t))) (\<lambda>text.
     Inr (lit ''worker_task_'' @ content_digest text))"

record campaign_budget =
  cb_tasks :: int
  cb_concurrent :: int

definition campaign_budget_init :: "campaign_budget \<Rightarrow> scheduler_error + campaign_budget" where
  "campaign_budget_init b =
     rbind (check_positive (cb_tasks b)) (\<lambda>_. rbind (check_positive (cb_concurrent b)) (\<lambda>_. Inr b))"

section \<open>Leases, assignments, results\<close>

record worker_lease =
  le_task :: pystr
  le_worker :: pystr
  le_token :: pystr
  le_attempt :: int
  le_acquired :: int
  le_heartbeat :: int
  le_expires :: int

definition worker_lease_expired :: "worker_lease \<Rightarrow> int \<Rightarrow> bool" where
  "worker_lease_expired l now \<longleftrightarrow> le_expires l \<le> now"

record task_result =
  tr_task :: pystr
  tr_outcome :: task_outcome
  tr_worker :: pystr
  tr_output :: "pystr option"
  tr_evidence :: "pystr list"

definition task_result_init :: "task_result \<Rightarrow> scheduler_error + task_result" where
  "task_result_init r =
     rbind (check_text (tr_task r)) (\<lambda>_.
     rbind (check_text (tr_worker r)) (\<lambda>_.
     rbind (raise_if (tr_outcome r = SUPPORTED \<and> tr_output r = None)
              (SchedulerError ''supported results require an output'')) (\<lambda>_.
     rbind (case tr_output r of None \<Rightarrow> Inr () | Some d \<Rightarrow> rbind (check_digest d) (\<lambda>_. Inr ())) (\<lambda>_.
     rbind (raise_if (tr_evidence r \<noteq> sort (remdups (tr_evidence r)))
              (SchedulerError ''result evidence must be sorted and unique'')) (\<lambda>_.
     Inr r)))))"

record worker_assignment =
  as_task :: pystr
  as_worker :: pystr
  as_lease :: worker_lease
  as_spec :: task_spec

record task_entry =
  te_task :: task_spec
  te_state :: task_state
  te_attempts :: int
  te_assignment :: "worker_assignment option"
  te_result :: "task_result option"

record scheduler =
  sc_duration :: int
  sc_workers :: "(pystr \<times> worker_registration) list"
  sc_tasks :: "(pystr \<times> task_entry) list"
  sc_budgets :: "pystr \<Rightarrow> campaign_budget option"
  sc_submitted :: "pystr \<Rightarrow> int option"
  sc_active :: "pystr \<Rightarrow> int option"
  sc_drawn :: nat

definition scheduler_init :: "int \<Rightarrow> scheduler_error + scheduler" where
  "scheduler_init duration =
     rbind (check_positive duration) (\<lambda>_.
     Inr \<lparr>sc_duration = duration, sc_workers = [], sc_tasks = [], sc_budgets = \<lambda>_. None,
          sc_submitted = \<lambda>_. None, sc_active = \<lambda>_. None, sc_drawn = 0\<rparr>)"

text \<open>\<open>counts.get(key, 0)\<close>.\<close>

definition get0 :: "(pystr \<Rightarrow> int option) \<Rightarrow> pystr \<Rightarrow> int" where
  "get0 m k = (case m k of None \<Rightarrow> 0 | Some v \<Rightarrow> v)"

section \<open>Registration and submission\<close>

definition register_worker ::
  "scheduler \<Rightarrow> worker_profile \<Rightarrow> pystr \<Rightarrow> int \<Rightarrow> scheduler_error + scheduler \<times> worker_registration" where
  "register_worker s p credential now =
     rbind (check_text credential) (\<lambda>_.
     rbind (check_nonnegative now) (\<lambda>_.
     rbind (of_option SchedulerValue (encode_utf8 credential)) (\<lambda>bs.
     let digest = lit ''sha256:'' @ hexdigest bs in
     rbind (raise_if (case map_of (sc_workers s) (wp_worker p) of
                None \<Rightarrow> False | Some existing \<Rightarrow> rg_credential existing \<noteq> digest)
              (SchedulerError ''worker registration credential mismatch'')) (\<lambda>_.
     rbind (worker_registration_init \<lparr>rg_profile = p, rg_credential = digest, rg_time = now\<rparr>) (\<lambda>g.
     Inr (s\<lparr>sc_workers := AList.update (wp_worker p) g (sc_workers s)\<rparr>, g))))))"

definition set_campaign_budget ::
  "scheduler \<Rightarrow> pystr \<Rightarrow> campaign_budget \<Rightarrow> scheduler_error + scheduler" where
  "set_campaign_budget s c b =
     rbind (check_text c) (\<lambda>_.
     rbind (raise_if (sc_budgets s c \<noteq> None \<and> sc_budgets s c \<noteq> Some b)
              (SchedulerError ''campaign budget cannot change after registration'')) (\<lambda>_.
     Inr (s\<lparr>sc_budgets := (sc_budgets s)(c \<mapsto> b)\<rparr>)))"

definition new_entry :: "task_spec \<Rightarrow> task_entry" where
  "new_entry t = \<lparr>te_task = t, te_state = QUEUED, te_attempts = 0, te_assignment = None, te_result = None\<rparr>"

definition submit_task :: "scheduler \<Rightarrow> task_spec \<Rightarrow> scheduler_error + scheduler \<times> pystr" where
  "submit_task s t =
     rbind (of_option (SchedulerError ''campaign budget must be registered before tasks'')
              (sc_budgets s (ts_campaign t))) (\<lambda>budget.
     rbind (task_id t) (\<lambda>k.
     case map_of (sc_tasks s) k of
       Some existing \<Rightarrow>
         rbind (raise_if (te_task existing \<noteq> t)
                  (SchedulerError ''task ID collision with different task content'')) (\<lambda>_. Inr (s, k))
     | None \<Rightarrow>
         let submitted = get0 (sc_submitted s) (ts_campaign t) in
         rbind (raise_if (cb_tasks budget \<le> submitted)
                  (SchedulerError ''campaign task budget exceeded'')) (\<lambda>_.
         Inr (s\<lparr>sc_tasks := AList.update k (new_entry t) (sc_tasks s),
                sc_submitted := (sc_submitted s)(ts_campaign t \<mapsto> submitted + 1)\<rparr>, k))))"

section \<open>Placement\<close>

text \<open>The running entries of a worker.\<close>

definition is_active :: "pystr \<Rightarrow> task_entry \<Rightarrow> bool" where
  "is_active w e \<longleftrightarrow> (case te_assignment e of None \<Rightarrow> False | Some a \<Rightarrow> as_worker a = w)
     \<and> te_state e = TASK_RUNNING"

definition active_entries :: "scheduler \<Rightarrow> pystr \<Rightarrow> task_entry list" where
  "active_entries s w = filter (is_active w) (map snd (sc_tasks s))"

text \<open>The four field pairs of the closing \<open>all(...)\<close>.\<close>

definition RESOURCE_FIELDS :: "((task_spec \<Rightarrow> int) \<times> (worker_capacity \<Rightarrow> int)) list" where
  "RESOURCE_FIELDS = [(ts_ram, wc_ram), (ts_vram, wc_vram), (ts_disk, wc_disk), (ts_cpu, wc_cpu)]"

definition worker_available :: "scheduler \<Rightarrow> worker_profile \<Rightarrow> task_spec \<Rightarrow> bool" where
  "worker_available s p t \<longleftrightarrow>
     (if ts_operation t \<notin> set (wp_operations p) then False
      else if wc_ram (wp_capacity p) < ts_ram t then False
      else if wc_vram (wp_capacity p) < ts_vram t then False
      else if wc_disk (wp_capacity p) < ts_disk t then False
      else if wc_cpu (wp_capacity p) < ts_cpu t then False
      else if 0 < ts_vram t \<and> wc_gpu (wp_capacity p) = 0 then False
      else
        let active = active_entries s (wp_worker p) in
        if wp_concurrency p \<le> int (length active) then False
        else list_all (\<lambda>(need, cap).
               sum_list (map (\<lambda>e. need (te_task e)) active) + need t \<le> cap (wp_capacity p)) RESOURCE_FIELDS)"

text \<open>The body of the loop of \<open>_reap_expired\<close> for one entry, with the campaign counters.\<close>

definition reap_entry ::
  "int \<Rightarrow> (pystr \<Rightarrow> int option) \<Rightarrow> task_entry \<Rightarrow> (pystr \<Rightarrow> int option) \<times> task_entry" where
  "reap_entry now active e =
     (case te_assignment e of
        None \<Rightarrow> (active, e)
      | Some a \<Rightarrow>
          if te_state e \<noteq> TASK_RUNNING then (active, e)
          else if \<not> worker_lease_expired (as_lease a) now then (active, e)
          else
            let campaign = ts_campaign (te_task e) in
            (active(campaign \<mapsto> max 0 (get0 active campaign - 1)),
             e\<lparr>te_assignment := None,
               te_state := (if ts_max_attempts (te_task e) \<le> te_attempts e then EXHAUSTED else QUEUED)\<rparr>))"

fun reap_entries ::
  "int \<Rightarrow> (pystr \<Rightarrow> int option) \<Rightarrow> (pystr \<times> task_entry) list
     \<Rightarrow> (pystr \<Rightarrow> int option) \<times> (pystr \<times> task_entry) list" where
  "reap_entries now active [] = (active, [])"
| "reap_entries now active ((k, e) # es) =
     (let (active', e') = reap_entry now active e;
          (active'', es') = reap_entries now active' es
      in (active'', (k, e') # es'))"

definition reap_expired :: "scheduler \<Rightarrow> int \<Rightarrow> scheduler" where
  "reap_expired s now =
     (let (active, tasks) = reap_entries now (sc_active s) (sc_tasks s) in
      s\<lparr>sc_tasks := tasks, sc_active := active\<rparr>)"

text \<open>
  Highest priority first, then by task ID. A task's ID is recomputed by the code; it is the key under
  which \<open>submit\<close> stored the task.
\<close>

definition queued_keys :: "scheduler \<Rightarrow> pystr list" where
  "queued_keys s = map fst (sort_key (\<lambda>(k, e). (- ts_priority (te_task e), k))
     (filter (\<lambda>(k, e). te_state e = QUEUED) (sc_tasks s)))"

definition sorted_profiles :: "scheduler \<Rightarrow> worker_profile list" where
  "sorted_profiles s = sort_key wp_worker (map (\<lambda>(k, g). rg_profile g) (sc_workers s))"

text \<open>The assignment of one task to a worker that can take it.\<close>

definition assign_task ::
  "scheduler \<Rightarrow> int \<Rightarrow> pystr \<Rightarrow> task_entry \<Rightarrow> worker_profile \<Rightarrow> pystr \<Rightarrow> scheduler \<times> worker_assignment" where
  "assign_task s now k e p token =
     (let attempts = te_attempts e + 1;
          lease = \<lparr>le_task = k, le_worker = wp_worker p, le_token = token, le_attempt = attempts,
                   le_acquired = now, le_heartbeat = now, le_expires = now + sc_duration s\<rparr>;
          a = \<lparr>as_task = k, as_worker = wp_worker p, as_lease = lease, as_spec = te_task e\<rparr>;
          campaign = ts_campaign (te_task e)
      in (s\<lparr>sc_tasks := AList.update k (e\<lparr>te_attempts := attempts, te_assignment := Some a,
              te_state := TASK_RUNNING\<rparr>) (sc_tasks s),
            sc_active := (sc_active s)(campaign \<mapsto> get0 (sc_active s) campaign + 1)\<rparr>, a))"

text \<open>The loop over the queued entries.\<close>

fun place_tasks ::
  "(nat \<Rightarrow> pystr) \<Rightarrow> worker_profile list \<Rightarrow> int \<Rightarrow> pystr list \<Rightarrow> scheduler \<Rightarrow> worker_assignment list
     \<Rightarrow> scheduler \<times> (scheduler_error + worker_assignment list)" where
  "place_tasks tok ps now [] s acc = (s, Inr acc)"
| "place_tasks tok ps now (k # ks) s acc =
     (case map_of (sc_tasks s) k of
        None \<Rightarrow> (s, Inl SchedulerKey)
      | Some e \<Rightarrow>
          (case sc_budgets s (ts_campaign (te_task e)) of
             None \<Rightarrow> (s, Inl SchedulerKey)
           | Some budget \<Rightarrow>
               if cb_concurrent budget \<le> get0 (sc_active s) (ts_campaign (te_task e))
               then place_tasks tok ps now ks s acc
               else
                 (case find (\<lambda>p. worker_available s p (te_task e)) ps of
                    None \<Rightarrow> place_tasks tok ps now ks s acc
                  | Some p \<Rightarrow>
                      let token = tok (sc_drawn s); s1 = s\<lparr>sc_drawn := Suc (sc_drawn s)\<rparr> in
                      (case check_text token of
                         Inl err \<Rightarrow> (s1, Inl err)
                       | Inr _ \<Rightarrow>
                           let (s2, a) = assign_task s1 now k e p token in
                           place_tasks tok ps now ks s2 (acc @ [a])))))"

definition schedule ::
  "(nat \<Rightarrow> pystr) \<Rightarrow> scheduler \<Rightarrow> int \<Rightarrow> scheduler \<times> (scheduler_error + worker_assignment list)" where
  "schedule tok s now =
     (case check_nonnegative now of
        Inl err \<Rightarrow> (s, Inl err)
      | Inr _ \<Rightarrow>
          let s' = reap_expired s now in
          place_tasks tok (sorted_profiles s') now (queued_keys s') s' [])"

section \<open>Heartbeats, results, reads\<close>

definition entry_for_token :: "scheduler \<Rightarrow> pystr \<Rightarrow> scheduler_error + pystr \<times> task_entry \<times> worker_assignment" where
  "entry_for_token s token =
     (case find (\<lambda>(k, e). case te_assignment e of None \<Rightarrow> False | Some a \<Rightarrow> le_token (as_lease a) = token)
             (sc_tasks s) of
        None \<Rightarrow> Inl (SchedulerError ''lease is not current'')
      | Some (k, e) \<Rightarrow> Inr (k, e, the (te_assignment e)))"

definition scheduler_heartbeat ::
  "scheduler \<Rightarrow> pystr \<Rightarrow> int \<Rightarrow> scheduler_error + scheduler \<times> worker_lease" where
  "scheduler_heartbeat s token now =
     rbind (check_text token) (\<lambda>_.
     rbind (check_nonnegative now) (\<lambda>_.
     rbind (entry_for_token s token) (\<lambda>(k, e, a).
     let lease = as_lease a in
     rbind (raise_if (worker_lease_expired lease now)
              (SchedulerError ''expired lease cannot heartbeat'')) (\<lambda>_.
     rbind (raise_if (now < le_heartbeat lease)
              (SchedulerError ''heartbeat timestamp moved backwards'')) (\<lambda>_.
     let renewed = lease\<lparr>le_heartbeat := now, le_expires := now + sc_duration s\<rparr> in
     Inr (s\<lparr>sc_tasks := AList.update k (e\<lparr>te_assignment := Some \<lparr>as_task = k,
            as_worker = le_worker lease, as_lease = renewed, as_spec = te_task e\<rparr>\<rparr>) (sc_tasks s)\<rparr>, renewed))))))"

definition scheduler_complete ::
  "scheduler \<Rightarrow> task_result \<Rightarrow> pystr \<Rightarrow> int \<Rightarrow> scheduler_error + scheduler \<times> task_result" where
  "scheduler_complete s r token now =
     rbind (check_nonnegative now) (\<lambda>_.
     rbind (of_option (SchedulerError ''unknown task result'') (map_of (sc_tasks s) (tr_task r))) (\<lambda>e.
     case te_result e of
       Some published \<Rightarrow>
         rbind (raise_if (published \<noteq> r) (SchedulerError ''task result was already published'')) (\<lambda>_.
         Inr (s, published))
     | None \<Rightarrow>
         (case te_assignment e of
            None \<Rightarrow> Inl (SchedulerError ''task has no active lease'')
          | Some a \<Rightarrow>
              rbind (raise_if (te_state e \<noteq> TASK_RUNNING) (SchedulerError ''task has no active lease'')) (\<lambda>_.
              rbind (raise_if (le_token (as_lease a) \<noteq> token) (SchedulerError ''lease is not current'')) (\<lambda>_.
              rbind (raise_if (worker_lease_expired (as_lease a) now)
                       (SchedulerError ''expired lease cannot complete'')) (\<lambda>_.
              rbind (raise_if (tr_worker r \<noteq> as_worker a)
                       (SchedulerError ''result worker does not own lease'')) (\<lambda>_.
              let campaign = ts_campaign (te_task e) in
              Inr (s\<lparr>sc_tasks := AList.update (tr_task r) (e\<lparr>te_result := Some r, te_assignment := None,
                       te_state := COMPLETED\<rparr>) (sc_tasks s),
                     sc_active := (sc_active s)(campaign \<mapsto> max 0 (get0 (sc_active s) campaign - 1))\<rparr>,
                   r))))))))"

definition task_snapshot :: "scheduler \<Rightarrow> pystr \<Rightarrow> scheduler_error + task_entry" where
  "task_snapshot s k = of_option (SchedulerError ''unknown task'') (map_of (sc_tasks s) k)"

definition registrations :: "scheduler \<Rightarrow> worker_registration list" where
  "registrations s = map snd (sort_key fst (sc_workers s))"

end
