(* ===== verification/WorkerSafety.thy ===== *)
theory WorkerSafety
  imports WorkerScheduler "HOL-Library.Multiset"
begin

text \<open>
  What the scheduler guarantees over every sequence of operations: the bookkeeping invariant (attempts,
  leases, campaign counters), the resource bounds of every worker, results published once by the holder
  of an unexpired lease, and that a round of scheduling leaves no placeable task queued.
\<close>

section \<open>Runs\<close>

datatype scheduler_op =
    RegisterWorker worker_profile pystr int
  | SetBudget pystr campaign_budget
  | SubmitTask task_spec
  | Schedule int
  | HeartbeatTask pystr int
  | CompleteTask task_result pystr int

text \<open>
  One call, its arguments constructed first; a call that raises leaves what it had changed, which is
  nothing but for \<open>schedule\<close>.
\<close>

definition after :: "scheduler \<Rightarrow> 'e + scheduler \<times> 'a \<Rightarrow> scheduler" where
  "after s r = (case r of Inl _ \<Rightarrow> s | Inr (s', _) \<Rightarrow> s')"

fun scheduler_step :: "(nat \<Rightarrow> pystr) \<Rightarrow> scheduler \<Rightarrow> scheduler_op \<Rightarrow> scheduler" where
  "scheduler_step tok s (RegisterWorker p credential now) =
     after s (rbind (worker_capacity_init (wp_capacity p)) (\<lambda>_.
       rbind (worker_profile_init p) (\<lambda>_. register_worker s p credential now)))"
| "scheduler_step tok s (SetBudget c b) =
     after s (rbind (campaign_budget_init b) (\<lambda>_.
       rbind (set_campaign_budget s c b) (\<lambda>s'. Inr (s', ()))))"
| "scheduler_step tok s (SubmitTask t) =
     after s (rbind (mapM_r content_input_init (ts_inputs t)) (\<lambda>_.
       rbind (task_spec_init t) (\<lambda>_. submit_task s t)))"
| "scheduler_step tok s (Schedule now) = fst (schedule tok s now)"
| "scheduler_step tok s (HeartbeatTask token now) = after s (scheduler_heartbeat s token now)"
| "scheduler_step tok s (CompleteTask r token now) =
     after s (rbind (task_result_init r) (\<lambda>_. scheduler_complete s r token now))"

definition scheduler_run :: "(nat \<Rightarrow> pystr) \<Rightarrow> scheduler \<Rightarrow> scheduler_op list \<Rightarrow> scheduler" where
  "scheduler_run tok s ops = foldl (scheduler_step tok) s ops"

section \<open>Totals over the task table\<close>

definition table_total :: "(task_entry \<Rightarrow> int) \<Rightarrow> (pystr \<times> task_entry) list \<Rightarrow> int" where
  "table_total g tasks = sum_list (map (\<lambda>(k, e). g e) tasks)"

definition running_in :: "pystr \<Rightarrow> task_entry \<Rightarrow> int" where
  "running_in c e = (if te_state e = TASK_RUNNING \<and> ts_campaign (te_task e) = c then 1 else 0)"

definition in_campaign :: "pystr \<Rightarrow> task_entry \<Rightarrow> int" where
  "in_campaign c e = (if ts_campaign (te_task e) = c then 1 else 0)"

definition load :: "pystr \<Rightarrow> (task_spec \<Rightarrow> int) \<Rightarrow> task_entry \<Rightarrow> int" where
  "load w need e = (if is_active w e then need (te_task e) else 0)"

lemma total_simps [simp]: "table_total g [] = 0" "table_total g ((k, e) # es) = g e + table_total g es"
  by (simp_all add: table_total_def)

lemma total_nonneg: "(\<And>k e. (k, e) \<in> set es \<Longrightarrow> 0 \<le> g e) \<Longrightarrow> 0 \<le> table_total g es"
  by (induction es) force+

lemma total_new: "map_of es k = None \<Longrightarrow> table_total g (AList.update k e es) = table_total g es + g e"
  by (induction es) (auto split: if_splits)

lemma total_update:
  "distinct (map fst es) \<Longrightarrow> map_of es k = Some e \<Longrightarrow>
     table_total g (AList.update k e' es) = table_total g es - g e + g e'"
proof (induction es)
  case (Cons x es)
  obtain k1 e1 where x: "x = (k1, e1)" by (cases x)
  show ?case
  proof (cases "k1 = k")
    case True
    with Cons.prems x show ?thesis by simp
  next
    case False
    with Cons x show ?thesis by simp
  qed
qed simp

lemma running_in_nonneg [simp]: "0 \<le> running_in c e"
  by (simp add: running_in_def)

lemma total_running_pos:
  assumes "(k, e) \<in> set es" and "te_state e = TASK_RUNNING"
  shows "1 \<le> table_total (running_in (ts_campaign (te_task e))) es"
  using assms(1)
proof (induction es)
  case (Cons x es)
  obtain k1 e1 where x: "x = (k1, e1)" by (cases x)
  have one: "running_in (ts_campaign (te_task e)) e = 1" using assms(2) by (simp add: running_in_def)
  have pos: "0 \<le> table_total (running_in (ts_campaign (te_task e))) es" by (rule total_nonneg) simp
  show ?case
  proof (cases "x = (k, e)")
    case True
    with pos one show ?thesis by simp
  next
    case False
    with Cons x show ?thesis by (auto intro: add_increasing)
  qed
qed simp

lemma active_total:
  "sum_list (map (\<lambda>e. need (te_task e)) (active_entries s w)) = table_total (load w need) (sc_tasks s)"
  "int (length (active_entries s w)) = table_total (load w (\<lambda>_. 1)) (sc_tasks s)"
proof -
  have "sum_list (map (\<lambda>e. need (te_task e)) (filter (is_active w) (map snd es))) = table_total (load w need) es"
    "int (length (filter (is_active w) (map snd es))) = table_total (load w (\<lambda>_. 1)) es" for es
    by (induction es) (auto simp: load_def)
  then show "sum_list (map (\<lambda>e. need (te_task e)) (active_entries s w)) = table_total (load w need) (sc_tasks s)"
    "int (length (active_entries s w)) = table_total (load w (\<lambda>_. 1)) (sc_tasks s)"
    by (simp_all add: active_entries_def)
qed

section \<open>The bookkeeping invariant\<close>

definition entry_ok :: "(pystr \<Rightarrow> campaign_budget option) \<Rightarrow> pystr \<Rightarrow> task_entry \<Rightarrow> bool" where
  "entry_ok budgets k e \<longleftrightarrow>
     task_id (te_task e) = Inr k \<and> task_spec_init (te_task e) = Inr (te_task e)
     \<and> budgets (ts_campaign (te_task e)) \<noteq> None
     \<and> 0 \<le> te_attempts e \<and> te_attempts e \<le> ts_max_attempts (te_task e)
     \<and> (te_state e = QUEUED \<longrightarrow> te_attempts e < ts_max_attempts (te_task e))
     \<and> (te_state e = EXHAUSTED \<longrightarrow> te_attempts e = ts_max_attempts (te_task e))
     \<and> (te_assignment e \<noteq> None \<longleftrightarrow> te_state e = TASK_RUNNING)
     \<and> (te_result e \<noteq> None \<longleftrightarrow> te_state e = COMPLETED)
     \<and> (\<forall>a. te_assignment e = Some a \<longrightarrow> as_task a = k \<and> as_spec a = te_task e
          \<and> le_task (as_lease a) = k \<and> le_worker (as_lease a) = as_worker a
          \<and> le_attempt (as_lease a) = te_attempts e)"

definition counters_ok :: "scheduler \<Rightarrow> bool" where
  "counters_ok s \<longleftrightarrow>
     (\<forall>c. get0 (sc_active s) c = table_total (running_in c) (sc_tasks s)
        \<and> get0 (sc_submitted s) c = table_total (in_campaign c) (sc_tasks s))
     \<and> (\<forall>c b. sc_budgets s c = Some b \<longrightarrow>
          get0 (sc_active s) c \<le> cb_concurrent b \<and> get0 (sc_submitted s) c \<le> cb_tasks b)"

definition table_sound :: "scheduler \<Rightarrow> bool" where
  "table_sound s \<longleftrightarrow> distinct (map fst (sc_tasks s))
     \<and> (\<forall>(k, e) \<in> set (sc_tasks s). entry_ok (sc_budgets s) k e)"

definition workers_known :: "scheduler \<Rightarrow> bool" where
  "workers_known s \<longleftrightarrow> distinct (map fst (sc_workers s))
     \<and> (\<forall>(w, g) \<in> set (sc_workers s). wp_worker (rg_profile g) = w
          \<and> worker_profile_init (rg_profile g) = Inr (rg_profile g)
          \<and> worker_capacity_init (wp_capacity (rg_profile g)) = Inr (wp_capacity (rg_profile g)))
     \<and> (\<forall>(k, e) \<in> set (sc_tasks s). \<forall>a. te_assignment e = Some a \<longrightarrow>
          as_worker a \<in> fst ` set (sc_workers s))"

definition scheduler_ok :: "scheduler \<Rightarrow> bool" where
  "scheduler_ok s \<longleftrightarrow> 0 < sc_duration s \<and> table_sound s \<and> counters_ok s \<and> workers_known s"

text \<open>Every worker's running tasks fit its profile.\<close>

definition fits :: "scheduler \<Rightarrow> worker_profile \<Rightarrow> bool" where
  "fits s p \<longleftrightarrow> int (length (active_entries s (wp_worker p))) \<le> wp_concurrency p
     \<and> list_all (\<lambda>(need, cap).
          sum_list (map (\<lambda>e. need (te_task e)) (active_entries s (wp_worker p))) \<le> cap (wp_capacity p))
        RESOURCE_FIELDS
     \<and> list_all (\<lambda>e. ts_operation (te_task e) \<in> set (wp_operations p)) (active_entries s (wp_worker p))"

definition capacity_ok :: "scheduler \<Rightarrow> bool" where
  "capacity_ok s \<longleftrightarrow> (\<forall>(w, g) \<in> set (sc_workers s). fits s (rg_profile g))"

lemma task_spec_needs:
  assumes "task_spec_init t = Inr t'" and "(need, cap) \<in> set RESOURCE_FIELDS"
  shows "0 \<le> need t"
  using assms by (auto simp: task_spec_init_def RESOURCE_FIELDS_def check_nonnegative_def check_positive_def
      mapM_r_Inr_iff)

lemma table_sound_entry: "table_sound s \<Longrightarrow> map_of (sc_tasks s) k = Some e \<Longrightarrow> entry_ok (sc_budgets s) k e"
  by (auto simp: table_sound_def dest: map_of_SomeD)

lemma set_update:
  "distinct (map fst es) \<Longrightarrow> set (AList.update k e es) = insert (k, e) {x \<in> set es. fst x \<noteq> k}"
proof (induction es)
  case (Cons x es)
  obtain k1 e1 where x: "x = (k1, e1)" by (cases x)
  have "fst y \<noteq> k1" if "y \<in> set es" for y using that Cons.prems x by auto
  with Cons x show ?case by auto
qed simp

section \<open>Reaping\<close>

definition reaped :: "int \<Rightarrow> task_entry \<Rightarrow> task_entry" where
  "reaped now e = snd (reap_entry now (\<lambda>_. None) e)"

lemma reap_entry_snd: "snd (reap_entry now active e) = reaped now e"
  by (simp add: reaped_def reap_entry_def Let_def split: option.splits)

lemma reaped_task [simp]: "te_task (reaped now e) = te_task e" "te_result (reaped now e) = te_result e"
    "te_attempts (reaped now e) = te_attempts e"
  by (simp_all add: reaped_def reap_entry_def Let_def split: option.splits)

lemma reap_entry_fst:
  assumes "te_state e = TASK_RUNNING \<Longrightarrow> 1 \<le> get0 active (ts_campaign (te_task e))"
  shows "get0 (fst (reap_entry now active e)) c
    = get0 active c - running_in c e + running_in c (reaped now e)"
  using assms by (auto simp: reaped_def reap_entry_def running_in_def get0_def Let_def split: option.splits)

lemma reaped_ok: "entry_ok b k e \<Longrightarrow> entry_ok b k (reaped now e)"
  by (auto simp: entry_ok_def reaped_def reap_entry_def Let_def split: option.splits)

lemma reaped_assignment: "te_assignment (reaped now e) = Some a \<Longrightarrow> te_assignment e = Some a"
  by (auto simp: reaped_def reap_entry_def Let_def split: option.splits if_splits)

lemma reaped_active: "is_active w (reaped now e) \<Longrightarrow> is_active w e"
  by (auto simp: is_active_def reaped_def reap_entry_def Let_def split: option.splits if_splits)

lemma reap_entries_fst_snd:
  "snd (reap_entries now active es) = map (\<lambda>(k, e). (k, reaped now e)) es"
proof (induction es arbitrary: active)
  case (Cons x es)
  then show ?case
    using reap_entry_snd [of now active "snd x"] by (cases x) (simp add: split_def)
qed simp

lemma reap_entries_active:
  assumes "\<forall>c. get0 active c = X c + table_total (running_in c) es" and "\<forall>c. 0 \<le> X c"
  shows "get0 (fst (reap_entries now active es)) c
    = X c + table_total (running_in c) (map (\<lambda>(k, e). (k, reaped now e)) es)"
  using assms
proof (induction es arbitrary: active X)
  case (Cons x es)
  obtain k e where x: "x = (k, e)" by (cases x)
  have one: "1 \<le> get0 active (ts_campaign (te_task e))" if "te_state e = TASK_RUNNING"
  proof -
    have "1 \<le> table_total (running_in (ts_campaign (te_task e))) (x # es)"
      using that x by (intro total_running_pos [of k e]) auto
    then show ?thesis using Cons.prems by (simp add: add_increasing)
  qed
  define Y where "Y c = X c + running_in c (reaped now e)" for c
  have "get0 (fst (reap_entry now active e)) c = Y c + table_total (running_in c) es" for c
    using reap_entry_fst [OF one] Cons.prems(1) x by (simp add: Y_def)
  moreover have "0 \<le> Y c" for c using Cons.prems(2) by (simp add: Y_def)
  ultimately have "get0 (fst (reap_entries now (fst (reap_entry now active e)) es)) c
      = Y c + table_total (running_in c) (map (\<lambda>(k, e). (k, reaped now e)) es)"
    by (intro Cons.IH) simp_all
  then show ?case using x by (simp add: Y_def split_def Let_def reap_entry_snd)
qed simp

lemma reap_expired_fields:
  "sc_tasks (reap_expired s now) = map (\<lambda>(k, e). (k, reaped now e)) (sc_tasks s)"
  "sc_workers (reap_expired s now) = sc_workers s" "sc_budgets (reap_expired s now) = sc_budgets s"
  "sc_submitted (reap_expired s now) = sc_submitted s" "sc_duration (reap_expired s now) = sc_duration s"
  "sc_drawn (reap_expired s now) = sc_drawn s"
  "sc_active (reap_expired s now) = fst (reap_entries now (sc_active s) (sc_tasks s))"
  using reap_entries_fst_snd [of now "sc_active s" "sc_tasks s"]
  by (simp_all add: reap_expired_def case_prod_beta)

lemma total_map_le:
  "(\<And>k e. (k, e) \<in> set es \<Longrightarrow> g (f e) \<le> g e) \<Longrightarrow> table_total g (map (\<lambda>(k, e). (k, f e)) es) \<le> table_total g es"
  by (induction es) (force intro: add_mono)+

lemma total_map_eq:
  "(\<And>k e. (k, e) \<in> set es \<Longrightarrow> g (f e) = g e) \<Longrightarrow> table_total g (map (\<lambda>(k, e). (k, f e)) es) = table_total g es"
  by (induction es) force+

lemma fst_entries [simp]: "fst \<circ> (\<lambda>(k, e). (k, f e)) = fst"
  by auto

lemma reap_expired_ok:
  assumes "scheduler_ok s"
  shows "scheduler_ok (reap_expired s now)"
proof -
  have t: "table_sound s" and c: "counters_ok s" and w: "workers_known s" and d: "0 < sc_duration s"
    using assms by (auto simp: scheduler_ok_def)
  have act: "get0 (sc_active (reap_expired s now)) c = table_total (running_in c) (sc_tasks (reap_expired s now))" for c
    using reap_entries_active [of "sc_active s" "\<lambda>_. 0" "sc_tasks s" now c] c
    by (simp add: reap_expired_fields counters_ok_def)
  have le: "table_total (running_in c) (sc_tasks (reap_expired s now)) \<le> table_total (running_in c) (sc_tasks s)" for c
    unfolding reap_expired_fields(1)
    by (rule total_map_le) (auto simp: running_in_def reaped_def reap_entry_def Let_def split: option.splits)
  have sub: "table_total (in_campaign c) (sc_tasks (reap_expired s now)) = table_total (in_campaign c) (sc_tasks s)" for c
    unfolding reap_expired_fields(1) by (rule total_map_eq) (simp add: in_campaign_def)
  have "counters_ok (reap_expired s now)"
    unfolding counters_ok_def
  proof (intro conjI allI impI)
    fix c
    show "get0 (sc_active (reap_expired s now)) c = table_total (running_in c) (sc_tasks (reap_expired s now))"
      by (rule act)
    show "get0 (sc_submitted (reap_expired s now)) c = table_total (in_campaign c) (sc_tasks (reap_expired s now))"
      using c by (simp add: counters_ok_def sub) (simp add: reap_expired_fields)
    fix b assume "sc_budgets (reap_expired s now) c = Some b"
    then have "get0 (sc_active s) c \<le> cb_concurrent b" "get0 (sc_submitted s) c \<le> cb_tasks b"
      using c by (auto simp: counters_ok_def reap_expired_fields(3))
    then show "get0 (sc_active (reap_expired s now)) c \<le> cb_concurrent b"
      "get0 (sc_submitted (reap_expired s now)) c \<le> cb_tasks b"
      using act [of c] le [of c] c by (auto simp: counters_ok_def reap_expired_fields(4))
  qed
  moreover have "table_sound (reap_expired s now)"
    using t by (auto simp: table_sound_def reap_expired_fields(1,3) intro: reaped_ok)
  moreover have "workers_known (reap_expired s now)"
    using w unfolding workers_known_def reap_expired_fields(1,2)
    by (auto dest!: reaped_assignment)
  ultimately show ?thesis using d by (simp add: scheduler_ok_def reap_expired_fields(5))
qed

lemma fits_iff:
  "fits s p \<longleftrightarrow> table_total (load (wp_worker p) (\<lambda>_. 1)) (sc_tasks s) \<le> wp_concurrency p
     \<and> (\<forall>(need, cap) \<in> set RESOURCE_FIELDS.
          table_total (load (wp_worker p) need) (sc_tasks s) \<le> cap (wp_capacity p))
     \<and> (\<forall>(k, e) \<in> set (sc_tasks s). is_active (wp_worker p) e
          \<longrightarrow> ts_operation (te_task e) \<in> set (wp_operations p))"
proof -
  have "list_all P (active_entries s w) \<longleftrightarrow> (\<forall>(k, e) \<in> set (sc_tasks s). is_active w e \<longrightarrow> P e)" for P w
    by (force simp: active_entries_def list_all_iff)
  then show ?thesis unfolding fits_def active_total by (simp add: list_all_iff)
qed

lemma fits_smaller:
  assumes "fits s p" and "table_total (load (wp_worker p) (\<lambda>_. 1)) (sc_tasks s')
      \<le> table_total (load (wp_worker p) (\<lambda>_. 1)) (sc_tasks s)"
    and "\<And>need cap. (need, cap) \<in> set RESOURCE_FIELDS \<Longrightarrow>
      table_total (load (wp_worker p) need) (sc_tasks s') \<le> table_total (load (wp_worker p) need) (sc_tasks s)"
    and "\<And>k e. (k, e) \<in> set (sc_tasks s') \<Longrightarrow> is_active (wp_worker p) e \<Longrightarrow>
      \<exists>k0 e0. (k0, e0) \<in> set (sc_tasks s) \<and> is_active (wp_worker p) e0 \<and> te_task e0 = te_task e"
  shows "fits s' p"
  unfolding fits_iff
proof (intro conjI ballI)
  show "table_total (load (wp_worker p) (\<lambda>_. 1)) (sc_tasks s') \<le> wp_concurrency p"
    using assms(1,2) by (simp add: fits_iff)
  fix x assume x: "x \<in> set RESOURCE_FIELDS"
  then show "case x of (need, cap) \<Rightarrow> table_total (load (wp_worker p) need) (sc_tasks s') \<le> cap (wp_capacity p)"
    using assms(1) assms(3) [of "fst x" "snd x"] by (force simp: fits_iff split: prod.splits)
next
  fix x assume "x \<in> set (sc_tasks s')"
  then show "case x of (k, e) \<Rightarrow> is_active (wp_worker p) e \<longrightarrow> ts_operation (te_task e) \<in> set (wp_operations p)"
    using assms(1) assms(4) [of "fst x" "snd x"] by (force simp: fits_iff split: prod.splits)
qed

lemma load_mono:
  assumes "is_active w e' \<Longrightarrow> is_active w e" and "te_task e' = te_task e" and "0 \<le> need (te_task e)"
  shows "load w need e' \<le> load w need e"
  using assms by (auto simp: load_def)

lemma entry_needs: "entry_ok b k e \<Longrightarrow> (need, cap) \<in> set RESOURCE_FIELDS \<Longrightarrow> 0 \<le> need (te_task e)"
  by (auto simp: entry_ok_def intro: task_spec_needs)

lemma reap_expired_fits:
  assumes "table_sound s" and "fits s p"
  shows "fits (reap_expired s now) p"
proof -
  have ok: "entry_ok (sc_budgets s) k e" if "(k, e) \<in> set (sc_tasks s)" for k e
    using assms(1) that by (auto simp: table_sound_def)
  have le: "table_total (load (wp_worker p) need) (sc_tasks (reap_expired s now))
      \<le> table_total (load (wp_worker p) need) (sc_tasks s)"
    if "\<And>k e. (k, e) \<in> set (sc_tasks s) \<Longrightarrow> 0 \<le> need (te_task e)" for need
    unfolding reap_expired_fields(1)
    by (rule total_map_le) (auto intro!: load_mono that dest: reaped_active)
  show ?thesis
  proof (rule fits_smaller [OF assms(2)])
    fix need cap assume "(need, cap) \<in> set RESOURCE_FIELDS"
    then show "table_total (load (wp_worker p) need) (sc_tasks (reap_expired s now))
        \<le> table_total (load (wp_worker p) need) (sc_tasks s)"
      by (intro le) (rule entry_needs [OF ok])
  next
    fix k e assume "(k, e) \<in> set (sc_tasks (reap_expired s now))" and a: "is_active (wp_worker p) e"
    then obtain e0 where "(k, e0) \<in> set (sc_tasks s)" "e = reaped now e0"
      by (auto simp: reap_expired_fields(1))
    then show "\<exists>k0 e0. (k0, e0) \<in> set (sc_tasks s) \<and> is_active (wp_worker p) e0 \<and> te_task e0 = te_task e"
      using reaped_active a by fastforce
  qed (rule le, simp)
qed

section \<open>Replacing one entry\<close>

lemma replace_entry_ok:
  assumes "scheduler_ok s" and e: "map_of (sc_tasks s) k = Some e"
    and e': "entry_ok (sc_budgets s) k e'" "te_task e' = te_task e"
    and act: "\<And>c. get0 active c = get0 (sc_active s) c - running_in c e + running_in c e'"
    and bound: "\<And>b. sc_budgets s (ts_campaign (te_task e)) = Some b
      \<Longrightarrow> get0 active (ts_campaign (te_task e)) \<le> cb_concurrent b"
    and worker: "\<And>a. te_assignment e' = Some a \<Longrightarrow> as_worker a \<in> fst ` set (sc_workers s)"
  shows "scheduler_ok (s\<lparr>sc_tasks := AList.update k e' (sc_tasks s), sc_active := active\<rparr>)"
proof -
  have t: "table_sound s" and c: "counters_ok s" and w: "workers_known s" and d: "0 < sc_duration s"
    using assms(1) by (auto simp: scheduler_ok_def)
  have dist: "distinct (map fst (sc_tasks s))" using t by (simp add: table_sound_def)
  note set = set_update [OF dist, of k e'] and tot = total_update [OF dist e, of _ e']
  have other: "running_in c e = running_in c e'" if "c \<noteq> ts_campaign (te_task e)" for c
    using that e'(2) by (simp add: running_in_def)
  have "counters_ok (s\<lparr>sc_tasks := AList.update k e' (sc_tasks s), sc_active := active\<rparr>)"
    unfolding counters_ok_def
  proof (intro conjI allI impI)
    fix c
    show "get0 (sc_active (s\<lparr>sc_tasks := AList.update k e' (sc_tasks s), sc_active := active\<rparr>)) c
        = table_total (running_in c) (sc_tasks (s\<lparr>sc_tasks := AList.update k e' (sc_tasks s), sc_active := active\<rparr>))"
      using c act [of c] by (simp add: counters_ok_def tot)
    show "get0 (sc_submitted (s\<lparr>sc_tasks := AList.update k e' (sc_tasks s), sc_active := active\<rparr>)) c
        = table_total (in_campaign c) (sc_tasks (s\<lparr>sc_tasks := AList.update k e' (sc_tasks s), sc_active := active\<rparr>))"
      using c e'(2) by (simp add: counters_ok_def tot in_campaign_def)
    fix b assume b: "sc_budgets (s\<lparr>sc_tasks := AList.update k e' (sc_tasks s), sc_active := active\<rparr>) c = Some b"
    show "get0 (sc_active (s\<lparr>sc_tasks := AList.update k e' (sc_tasks s), sc_active := active\<rparr>)) c \<le> cb_concurrent b"
      using b bound [of b] act [of c] other [of c] c
      by (cases "c = ts_campaign (te_task e)") (auto simp: counters_ok_def)
    show "get0 (sc_submitted (s\<lparr>sc_tasks := AList.update k e' (sc_tasks s), sc_active := active\<rparr>)) c \<le> cb_tasks b"
      using b c by (auto simp: counters_ok_def)
  qed
  moreover have "table_sound (s\<lparr>sc_tasks := AList.update k e' (sc_tasks s), sc_active := active\<rparr>)"
    using t e'(1) dist by (auto simp: table_sound_def set distinct_update)
  moreover have "workers_known (s\<lparr>sc_tasks := AList.update k e' (sc_tasks s), sc_active := active\<rparr>)"
    using w worker by (auto simp: workers_known_def set)
  ultimately show ?thesis using d by (simp add: scheduler_ok_def)
qed

lemma replace_entry_fits:
  assumes "table_sound s" and "map_of (sc_tasks s) k = Some e" and "te_task e' = te_task e"
    and "is_active (wp_worker p) e' \<Longrightarrow> is_active (wp_worker p) e" and "fits s p"
  shows "fits (s\<lparr>sc_tasks := AList.update k e' (sc_tasks s), sc_active := active\<rparr>) p"
proof -
  have dist: "distinct (map fst (sc_tasks s))" using assms(1) by (simp add: table_sound_def)
  have ok: "entry_ok (sc_budgets s) k e" using table_sound_entry assms(1,2) by blast
  have le: "table_total (load (wp_worker p) need) (AList.update k e' (sc_tasks s))
      \<le> table_total (load (wp_worker p) need) (sc_tasks s)" if "0 \<le> need (te_task e)" for need
    using load_mono [of "wp_worker p" e' e need] assms(3,4) that
    by (simp add: total_update [OF dist assms(2)])
  have mem: "(k, e) \<in> set (sc_tasks s)" using assms(2) by (rule map_of_SomeD)
  show ?thesis
  proof (rule fits_smaller [OF assms(5)])
    fix need cap assume "(need, cap) \<in> set RESOURCE_FIELDS"
    then show "table_total (load (wp_worker p) need) (sc_tasks (s\<lparr>sc_tasks := AList.update k e' (sc_tasks s), sc_active := active\<rparr>))
        \<le> table_total (load (wp_worker p) need) (sc_tasks s)"
      using le [of need] entry_needs [OF ok, of need cap] by simp
  next
    fix k1 e1
    assume "(k1, e1) \<in> set (sc_tasks (s\<lparr>sc_tasks := AList.update k e' (sc_tasks s), sc_active := active\<rparr>))"
      and "is_active (wp_worker p) e1"
    then show "\<exists>k0 e0. (k0, e0) \<in> set (sc_tasks s) \<and> is_active (wp_worker p) e0 \<and> te_task e0 = te_task e1"
      using mem assms(3,4) by (simp add: set_update [OF dist]) metis
  qed (use le [of "\<lambda>_. 1"] in simp)
qed

section \<open>Placing\<close>

lemma assign_task_ok:
  assumes "scheduler_ok s" and e: "map_of (sc_tasks s) k = Some e" and q: "te_state e = QUEUED"
    and b: "sc_budgets s (ts_campaign (te_task e)) = Some b"
      "get0 (sc_active s) (ts_campaign (te_task e)) < cb_concurrent b"
    and p: "wp_worker p \<in> fst ` set (sc_workers s)"
  shows "scheduler_ok (fst (assign_task s now k e p token))"
proof -
  have ok: "entry_ok (sc_budgets s) k e" using table_sound_entry e assms(1) by (auto simp: scheduler_ok_def)
  show ?thesis
    unfolding assign_task_def Let_def fst_conv
  proof (rule replace_entry_ok [OF assms(1) e])
    fix b' assume "sc_budgets s (ts_campaign (te_task e)) = Some b'"
    then show "get0 ((sc_active s)(ts_campaign (te_task e) \<mapsto> get0 (sc_active s) (ts_campaign (te_task e)) + 1))
        (ts_campaign (te_task e)) \<le> cb_concurrent b'"
      using b by (simp add: get0_def)
  qed (use ok q p in \<open>auto simp: entry_ok_def running_in_def get0_def\<close>)
qed

lemma assign_task_fits:
  assumes "scheduler_ok s" and e: "map_of (sc_tasks s) k = Some e" and q: "te_state e = QUEUED"
    and avail: "worker_available s p (te_task e)" and "fits s p0"
    and same: "wp_worker p0 = wp_worker p \<Longrightarrow> p0 = p"
  shows "fits (fst (assign_task s now k e p token)) p0"
proof -
  have t: "table_sound s" using assms(1) by (simp add: scheduler_ok_def)
  then have dist: "distinct (map fst (sc_tasks s))" by (simp add: table_sound_def)
  have idle: "\<not> is_active w e" for w using q by (simp add: is_active_def)
  show ?thesis
  proof (cases "p0 = p")
    case False
    show ?thesis
      unfolding assign_task_def Let_def fst_conv
      by (rule replace_entry_fits [OF t e _ _ assms(5)]) (use False same in \<open>auto simp: is_active_def\<close>)
  next
    case True
    have room: "ts_operation (te_task e) \<in> set (wp_operations p)"
      "int (length (active_entries s (wp_worker p))) < wp_concurrency p"
      "list_all (\<lambda>(need, cap). sum_list (map (\<lambda>e. need (te_task e)) (active_entries s (wp_worker p)))
         + need (te_task e) \<le> cap (wp_capacity p)) RESOURCE_FIELDS"
      using avail by (auto simp: worker_available_def Let_def split: if_splits)
    have l0: "load w need e = 0" for w need using idle by (simp add: load_def)
    have "fits (fst (assign_task s now k e p token)) p"
      unfolding fits_iff
    proof (intro conjI ballI)
      show "table_total (load (wp_worker p) (\<lambda>_. 1)) (sc_tasks (fst (assign_task s now k e p token)))
          \<le> wp_concurrency p"
        using room(2) by (simp add: assign_task_def Let_def total_update [OF dist e] l0 active_total)
          (simp add: load_def is_active_def)
      fix x assume x: "x \<in> set RESOURCE_FIELDS"
      then show "case x of (need, cap) \<Rightarrow> table_total (load (wp_worker p) need)
          (sc_tasks (fst (assign_task s now k e p token))) \<le> cap (wp_capacity p)"
        using room(3)
        by (auto simp: assign_task_def Let_def total_update [OF dist e] l0 active_total list_all_iff)
          (force simp: load_def is_active_def)
    next
      fix x assume "x \<in> set (sc_tasks (fst (assign_task s now k e p token)))"
      then show "case x of (k, e) \<Rightarrow> is_active (wp_worker p) e \<longrightarrow> ts_operation (te_task e) \<in> set (wp_operations p)"
        using room(1) assms(5) True by (auto simp: assign_task_def Let_def set_update [OF dist] fits_iff)
    qed
    then show ?thesis using True by simp
  qed
qed

text \<open>The profiles the loop runs over are those of the registered workers, one per worker.\<close>

definition profiles_of :: "scheduler \<Rightarrow> worker_profile list \<Rightarrow> bool" where
  "profiles_of s ps \<longleftrightarrow> set ps = rg_profile ` snd ` set (sc_workers s)"

lemma sorted_profiles_of: "profiles_of s (sorted_profiles s)"
  by (auto simp: profiles_of_def sorted_profiles_def image_iff split: prod.splits) force+

lemma profile_unique:
  assumes "workers_known s" and "profiles_of s ps" and "p \<in> set ps" and "p' \<in> set ps"
    and "wp_worker p' = wp_worker p"
  shows "p' = p" and "wp_worker p \<in> fst ` set (sc_workers s)"
proof -
  obtain w g w' g' where g: "(w, g) \<in> set (sc_workers s)" "p = rg_profile g"
    "(w', g') \<in> set (sc_workers s)" "p' = rg_profile g'"
    using assms(2-4) by (auto simp: profiles_of_def)
  then have "w = wp_worker p" "w' = wp_worker p'" using assms(1) by (auto simp: workers_known_def)
  then show "p' = p" "wp_worker p \<in> fst ` set (sc_workers s)"
    using g assms(1,5) by (auto simp: workers_known_def dest: eq_key_imp_eq_value intro: rev_image_eqI)
qed

definition queued_in :: "scheduler \<Rightarrow> pystr list \<Rightarrow> bool" where
  "queued_in s ks \<longleftrightarrow> distinct ks
     \<and> (\<forall>k \<in> set ks. \<exists>e. map_of (sc_tasks s) k = Some e \<and> te_state e = QUEUED)"

lemma queued_keys_in: "table_sound s \<Longrightarrow> queued_in s (queued_keys s)"
proof -
  assume t: "table_sound s"
  then have dist: "distinct (map fst (sc_tasks s))" by (simp add: table_sound_def)
  let ?q = "filter (\<lambda>(k, e). te_state e = QUEUED) (sc_tasks s)"
  have "distinct (map fst ?q)" using dist by (rule distinct_map_filter)
  moreover have "mset (queued_keys s) = mset (map fst ?q)"
    by (simp add: queued_keys_def)
  ultimately have "distinct (queued_keys s)" using mset_eq_imp_distinct_iff by metis
  moreover have "set (queued_keys s) = fst ` set ?q" by (simp add: queued_keys_def)
  ultimately show "queued_in s (queued_keys s)"
    using dist by (force simp: queued_in_def)
qed

text \<open>One placement of the loop: what a success or a skip has checked.\<close>

lemma find_Some_member: "find P xs = Some x \<Longrightarrow> x \<in> set xs \<and> P x"
  by (induction xs) (auto split: if_splits)

lemma find_None_iff2: "find P xs = None \<longleftrightarrow> (\<forall>x \<in> set xs. \<not> P x)"
  by (induction xs) auto

lemma assign_task_fields:
  "sc_workers (fst (assign_task s now k e p token)) = sc_workers s"
  "sc_budgets (fst (assign_task s now k e p token)) = sc_budgets s"
  "k' \<noteq> k \<Longrightarrow> map_of (sc_tasks (fst (assign_task s now k e p token))) k' = map_of (sc_tasks s) k'"
  by (simp_all add: assign_task_def Let_def update_conv')

text \<open>The drawn-token counter takes no part in any invariant.\<close>

lemma drawn_irrelevant [simp]:
  "scheduler_ok (s\<lparr>sc_drawn := n\<rparr>) = scheduler_ok s" "fits (s\<lparr>sc_drawn := n\<rparr>) p = fits s p"
  "capacity_ok (s\<lparr>sc_drawn := n\<rparr>) = capacity_ok s" "queued_in (s\<lparr>sc_drawn := n\<rparr>) ks = queued_in s ks"
  "profiles_of (s\<lparr>sc_drawn := n\<rparr>) ps = profiles_of s ps"
  "worker_available (s\<lparr>sc_drawn := n\<rparr>) p t = worker_available s p t"
  by (simp_all add: scheduler_ok_def table_sound_def counters_ok_def workers_known_def fits_def
      active_entries_def capacity_ok_def queued_in_def profiles_of_def worker_available_def)

lemma capacity_ok_profiles: "profiles_of s ps \<Longrightarrow> capacity_ok s \<longleftrightarrow> (\<forall>p \<in> set ps. fits s p)"
  by (auto simp: capacity_ok_def profiles_of_def)

lemma place_tasks_ok:
  assumes "scheduler_ok s" and "profiles_of s ps" and "queued_in s ks"
    and "place_tasks tok ps now ks s acc = (s', r)"
  shows "scheduler_ok s'" and "capacity_ok s \<Longrightarrow> capacity_ok s'" and "profiles_of s' ps"
    and "sc_budgets s' = sc_budgets s"
    and "r \<noteq> Inl SchedulerKey"
    and "k \<notin> set ks \<Longrightarrow> map_of (sc_tasks s') k = map_of (sc_tasks s) k"
proof -
  have "scheduler_ok s' \<and> (capacity_ok s \<longrightarrow> capacity_ok s') \<and> profiles_of s' ps
      \<and> sc_budgets s' = sc_budgets s \<and> r \<noteq> Inl SchedulerKey
      \<and> (k \<notin> set ks \<longrightarrow> map_of (sc_tasks s') k = map_of (sc_tasks s) k)"
    using assms
  proof (induction ks arbitrary: s acc)
    case (Cons k1 ks)
    have q: "distinct (k1 # ks)" using Cons.prems(3) by (simp add: queued_in_def)
    have rest: "queued_in s ks" using Cons.prems(3) by (simp add: queued_in_def)
    obtain e where e: "map_of (sc_tasks s) k1 = Some e" "te_state e = QUEUED"
      using Cons.prems(3) by (auto simp: queued_in_def)
    have "entry_ok (sc_budgets s) k1 e"
      using table_sound_entry e(1) Cons.prems(1) by (auto simp: scheduler_ok_def)
    then obtain b where b: "sc_budgets s (ts_campaign (te_task e)) = Some b" by (auto simp: entry_ok_def)
    show ?case
    proof (cases "cb_concurrent b \<le> get0 (sc_active s) (ts_campaign (te_task e))
        \<or> find (\<lambda>p. worker_available s p (te_task e)) ps = None")
      case True
      then have "place_tasks tok ps now ks s acc = (s', r)"
        using Cons.prems(4) e b by (auto split: if_splits)
      from Cons.IH [OF Cons.prems(1,2) rest this] show ?thesis by simp
    next
      case False
      then obtain p where p: "find (\<lambda>p. worker_available s p (te_task e)) ps = Some p" by auto
      let ?s1 = "s\<lparr>sc_drawn := Suc (sc_drawn s)\<rparr>"
      show ?thesis
      proof (cases "check_text (tok (sc_drawn s))")
        case (Inl err)
        then have "s' = ?s1" "r = Inl err" using Cons.prems(4) e b p False by (auto simp: Let_def)
        moreover have "err \<noteq> SchedulerKey" using Inl by (auto simp: check_text_def rbind_Inl_iff)
        ultimately show ?thesis using Cons.prems by simp
      next
        case (Inr u)
        let ?s2 = "fst (assign_task ?s1 now k1 e p (tok (sc_drawn s)))"
        have run: "place_tasks tok ps now ks ?s2 (acc @ [snd (assign_task ?s1 now k1 e p (tok (sc_drawn s)))])
            = (s', r)"
          using Cons.prems(4) e b p False Inr by (auto simp: Let_def split: prod.splits)
        have pin: "p \<in> set ps" and av: "worker_available s p (te_task e)"
          using find_Some_member [OF p] by auto
        have wk: "workers_known s" using Cons.prems(1) by (simp add: scheduler_ok_def)
        note uniq = profile_unique [OF wk Cons.prems(2)]
        have ok1: "scheduler_ok ?s1" using Cons.prems(1) by simp
        have ok2: "scheduler_ok ?s2"
          using uniq(2) [OF pin pin refl] False b e by (intro assign_task_ok [OF ok1]) auto
        have pr2: "profiles_of ?s2 ps"
          using Cons.prems(2) assign_task_fields(1) [of ?s1] by (simp add: profiles_of_def)
        have cap2: "capacity_ok ?s2" if cap: "capacity_ok s"
          unfolding capacity_ok_profiles [OF pr2]
        proof
          fix p0 assume p0: "p0 \<in> set ps"
          show "fits ?s2 p0"
            by (rule assign_task_fits [OF ok1])
              (use p0 pin av e cap uniq(1) [OF pin p0] capacity_ok_profiles [OF Cons.prems(2)] in auto)
        qed
        have q2: "queued_in ?s2 ks"
          unfolding queued_in_def
        proof (intro conjI ballI)
          show "distinct ks" using q by simp
          fix k' assume k': "k' \<in> set ks"
          then have "k' \<noteq> k1" using q by auto
          from assign_task_fields(3) [OF this, where s = ?s1] k' rest
          show "\<exists>e. map_of (sc_tasks ?s2) k' = Some e \<and> te_state e = QUEUED"
            by (simp add: queued_in_def)
        qed
        from Cons.IH [OF ok2 pr2 q2 run] cap2 assign_task_fields(1,2) [of ?s1]
          assign_task_fields(3) [where s = ?s1 and k = k1 and k' = k] show ?thesis
          by auto
      qed
    qed
  qed auto
  then show "scheduler_ok s'" "capacity_ok s \<Longrightarrow> capacity_ok s'" "profiles_of s' ps"
    "sc_budgets s' = sc_budgets s" "r \<noteq> Inl SchedulerKey"
    "k \<notin> set ks \<Longrightarrow> map_of (sc_tasks s') k = map_of (sc_tasks s) k" by blast+
qed

lemma schedule_ok:
  assumes "scheduler_ok s"
  shows "scheduler_ok (fst (schedule tok s now))"
    and "capacity_ok s \<Longrightarrow> capacity_ok (fst (schedule tok s now))"
    and "snd (schedule tok s now) \<noteq> Inl SchedulerKey"
proof -
  let ?s = "reap_expired s now"
  obtain s' r where run: "place_tasks tok (sorted_profiles ?s) now (queued_keys ?s) ?s [] = (s', r)"
    by fastforce
  have ok: "scheduler_ok ?s" by (rule reap_expired_ok [OF assms])
  then have q: "queued_in ?s (queued_keys ?s)" by (intro queued_keys_in) (simp add: scheduler_ok_def)
  have cap: "capacity_ok ?s" if "capacity_ok s"
    using that reap_expired_fits assms
    by (fastforce simp: capacity_ok_def reap_expired_fields(2) scheduler_ok_def)
  note place = place_tasks_ok [OF ok sorted_profiles_of q run]
  show "scheduler_ok (fst (schedule tok s now))"
    "capacity_ok s \<Longrightarrow> capacity_ok (fst (schedule tok s now))"
    "snd (schedule tok s now) \<noteq> Inl SchedulerKey"
    using place assms cap run
    by (auto simp: schedule_def Let_def check_nonnegative_def raise_if_def split: sum.splits if_splits)
qed

lemma place_tasks_keeps:
  "sc_workers (fst (place_tasks tok ps now ks s acc)) = sc_workers s
     \<and> sc_budgets (fst (place_tasks tok ps now ks s acc)) = sc_budgets s"
proof (induction ks arbitrary: s acc)
  case (Cons k ks)
  then show ?case
    by (auto simp: Let_def assign_task_def split: option.splits sum.splits)
qed simp

lemma schedule_keeps:
  "sc_workers (fst (schedule tok s now)) = sc_workers s \<and> sc_budgets (fst (schedule tok s now)) = sc_budgets s"
  using place_tasks_keeps [of tok _ now _ "reap_expired s now"]
  by (auto simp: schedule_def Let_def reap_expired_fields split: sum.splits)

section \<open>The other operations\<close>

lemma register_ok:
  assumes "scheduler_ok s" and "register_worker s p credential now = Inr (s', g)"
    and "worker_capacity_init (wp_capacity p) = Inr c'" and "worker_profile_init p = Inr p'"
  shows "scheduler_ok s'"
    and "sc_tasks s' = sc_tasks s" and "sc_workers s' = AList.update (wp_worker p) g (sc_workers s)"
    and "rg_profile g = p"
proof -
  from assms(2) have s': "s' = s\<lparr>sc_workers := AList.update (wp_worker p) g (sc_workers s)\<rparr>"
    and g: "rg_profile g = p"
    by (auto simp: register_worker_def worker_registration_init_def Let_def)
  show "sc_tasks s' = sc_tasks s" "sc_workers s' = AList.update (wp_worker p) g (sc_workers s)"
    "rg_profile g = p" using s' g by simp_all
  have "worker_capacity_init (wp_capacity p) = Inr (wp_capacity p)" "worker_profile_init p = Inr p"
    using assms(3,4) by (auto simp: worker_capacity_init_def worker_profile_init_def)
  moreover have w: "workers_known s" using assms(1) by (simp add: scheduler_ok_def)
  moreover have "fst ` set (AList.update (wp_worker p) g (sc_workers s))
      = insert (wp_worker p) (fst ` set (sc_workers s))"
    using dom_update [of "wp_worker p" g "sc_workers s"] by simp
  ultimately have "workers_known s'"
    using s' g set_update [of "sc_workers s" "wp_worker p" g]
    by (auto simp: workers_known_def distinct_update)
  moreover have "table_sound s' = table_sound s" "counters_ok s' = counters_ok s"
    using s' by (simp_all add: table_sound_def counters_ok_def)
  ultimately show "scheduler_ok s'" using assms(1) s' by (simp add: scheduler_ok_def)
qed

lemma set_budget_ok:
  assumes "scheduler_ok s" and "set_campaign_budget s c b = Inr s'" and "campaign_budget_init b = Inr b'"
  shows "scheduler_ok s'" and "sc_tasks s' = sc_tasks s" and "sc_workers s' = sc_workers s"
proof -
  from assms(2) have s': "s' = s\<lparr>sc_budgets := (sc_budgets s)(c \<mapsto> b)\<rparr>"
    and old: "sc_budgets s c = None \<or> sc_budgets s c = Some b"
    by (auto simp: set_campaign_budget_def)
  show "sc_tasks s' = sc_tasks s" "sc_workers s' = sc_workers s" using s' by simp_all
  have t: "table_sound s" and cs: "counters_ok s" using assms(1) by (auto simp: scheduler_ok_def)
  have "entry_ok (sc_budgets s') k e" if "entry_ok (sc_budgets s) k e" for k e
    using that s' by (auto simp: entry_ok_def)
  then have "table_sound s'" using t s' by (auto simp: table_sound_def)
  moreover have "counters_ok s'"
  proof (cases "sc_budgets s c = None")
    case False
    then have "s' = s" using old s' by (auto simp: fun_upd_idem)
    then show ?thesis using cs by simp
  next
    case True
    have none: "ts_campaign (te_task e) \<noteq> c" if "(k, e) \<in> set (sc_tasks s)" for k e
      using t that True by (auto simp: table_sound_def entry_ok_def)
    have zero: "table_total (running_in c) es = 0 \<and> table_total (in_campaign c) es = 0"
      if "\<forall>(k, e) \<in> set es. ts_campaign (te_task e) \<noteq> c" for es
      using that by (induction es) (auto simp: running_in_def in_campaign_def)
    have "get0 (sc_active s) c = 0" "get0 (sc_submitted s) c = 0"
      using cs zero [of "sc_tasks s"] none by (auto simp: counters_ok_def)
    moreover have "0 < cb_tasks b" "0 < cb_concurrent b"
      using assms(3) by (auto simp: campaign_budget_init_def check_positive_def)
    ultimately show ?thesis using cs s' by (auto simp: counters_ok_def)
  qed
  ultimately show "scheduler_ok s'" using assms(1) s' by (simp add: scheduler_ok_def workers_known_def)
qed

lemma submit_ok:
  assumes "scheduler_ok s" and "submit_task s t = Inr (s', k)" and "task_spec_init t = Inr t'"
  shows "scheduler_ok s'" and "sc_workers s' = sc_workers s" and "fits s p \<Longrightarrow> fits s' p"
    and "map_of (sc_tasks s) k' = Some e \<Longrightarrow> map_of (sc_tasks s') k' = Some e"
proof -
  have t': "task_spec_init t = Inr t" using assms(3) by (auto simp: task_spec_init_def)
  from assms(2) obtain b where b: "sc_budgets s (ts_campaign t) = Some b" and k: "task_id t = Inr k"
    by (auto simp: submit_task_def Let_def split: option.splits)
  have main: "scheduler_ok s' \<and> sc_workers s' = sc_workers s \<and> (fits s p \<longrightarrow> fits s' p)
      \<and> (map_of (sc_tasks s) k' = Some e \<longrightarrow> map_of (sc_tasks s') k' = Some e)"
  proof (cases "map_of (sc_tasks s) k")
    case (Some e0)
    then have "s' = s" using assms(2) b k by (auto simp: submit_task_def)
    then show ?thesis using assms(1) by simp
  next
    case None
    let ?n = "get0 (sc_submitted s) (ts_campaign t)"
    have s': "s' = s\<lparr>sc_tasks := AList.update k (new_entry t) (sc_tasks s),
        sc_submitted := (sc_submitted s)(ts_campaign t \<mapsto> ?n + 1)\<rparr>" and lt: "?n < cb_tasks b"
      using assms(2) b k None by (auto simp: submit_task_def Let_def)
    have t: "table_sound s" and cs: "counters_ok s" and w: "workers_known s"
      using assms(1) by (auto simp: scheduler_ok_def)
    then have dist: "distinct (map fst (sc_tasks s))" by (simp add: table_sound_def)
    have ok: "entry_ok (sc_budgets s) k (new_entry t)"
      using t' b k by (auto simp: entry_ok_def new_entry_def task_spec_init_def check_positive_def)
    have "table_sound s'"
      using t ok s' by (auto simp: table_sound_def set_update [OF dist] distinct_update)
    moreover have "counters_ok s'"
      using cs lt b s' by (auto simp: counters_ok_def total_new [OF None] get0_def running_in_def
          in_campaign_def new_entry_def)
    moreover have "workers_known s'"
      using w s' by (auto simp: workers_known_def set_update [OF dist] new_entry_def)
    moreover have "fits s' p" if "fits s p"
    proof (rule fits_smaller [OF that])
      fix k1 e1 assume "(k1, e1) \<in> set (sc_tasks s')" "is_active (wp_worker p) e1"
      then show "\<exists>k0 e0. (k0, e0) \<in> set (sc_tasks s) \<and> is_active (wp_worker p) e0 \<and> te_task e0 = te_task e1"
        using s' by (auto simp: set_update [OF dist] new_entry_def is_active_def)
    qed (simp_all add: s' total_new [OF None] load_def is_active_def new_entry_def)
    moreover have "map_of (sc_tasks s') k' = Some e" if "map_of (sc_tasks s) k' = Some e"
      using that None s' by (auto simp: update_conv')
    ultimately show ?thesis using assms(1) s' by (auto simp: scheduler_ok_def)
  qed
  then show "scheduler_ok s'" "sc_workers s' = sc_workers s" "fits s p \<Longrightarrow> fits s' p"
    "map_of (sc_tasks s) k' = Some e \<Longrightarrow> map_of (sc_tasks s') k' = Some e" by blast+
qed

lemma heartbeat_ok:
  assumes "scheduler_ok s" and "scheduler_heartbeat s token now = Inr (s', l)"
  shows "scheduler_ok s'" and "sc_workers s' = sc_workers s" and "fits s p \<Longrightarrow> fits s' p"
    and "\<exists>k e e'. map_of (sc_tasks s) k = Some e \<and> te_state e = TASK_RUNNING \<and> te_result e' = te_result e
      \<and> te_state e' = te_state e \<and> sc_tasks s' = AList.update k e' (sc_tasks s)"
proof -
  have t: "table_sound s" and w: "workers_known s" using assms(1) by (auto simp: scheduler_ok_def)
  then have dist: "distinct (map fst (sc_tasks s))" by (simp add: table_sound_def)
  from assms(2) obtain k e a where f: "find (\<lambda>(k, e). case te_assignment e of None \<Rightarrow> False
        | Some a \<Rightarrow> le_token (as_lease a) = token) (sc_tasks s) = Some (k, e)" and a: "a = the (te_assignment e)"
    and s': "s' = s\<lparr>sc_tasks := AList.update k (e\<lparr>te_assignment := Some \<lparr>as_task = k,
            as_worker = le_worker (as_lease a), as_lease = (as_lease a)\<lparr>le_heartbeat := now,
            le_expires := now + sc_duration s\<rparr>, as_spec = te_task e\<rparr>\<rparr>) (sc_tasks s)\<rparr>"
    by (auto simp: scheduler_heartbeat_def entry_for_token_def Let_def split: option.splits prod.splits)
  let ?e' = "e\<lparr>te_assignment := Some \<lparr>as_task = k, as_worker = le_worker (as_lease a),
      as_lease = (as_lease a)\<lparr>le_heartbeat := now, le_expires := now + sc_duration s\<rparr>, as_spec = te_task e\<rparr>\<rparr>"
  have mem: "(k, e) \<in> set (sc_tasks s)" and asg: "te_assignment e = Some a"
    using find_Some_member [OF f] a by (auto split: option.splits)
  then have e: "map_of (sc_tasks s) k = Some e" using dist by simp
  have ok: "entry_ok (sc_budgets s) k e" by (rule table_sound_entry [OF t e])
  have eq: "s' = s\<lparr>sc_tasks := AList.update k ?e' (sc_tasks s), sc_active := sc_active s\<rparr>" using s' by simp
  have same: "is_active w ?e' = is_active w e" for w using ok asg by (auto simp: is_active_def entry_ok_def)
  show "scheduler_ok s'"
    unfolding eq
  proof (rule replace_entry_ok [OF assms(1) e])
    fix b assume "sc_budgets s (ts_campaign (te_task e)) = Some b"
    then show "get0 (sc_active s) (ts_campaign (te_task e)) \<le> cb_concurrent b"
      using assms(1) by (auto simp: scheduler_ok_def counters_ok_def)
  next
    fix a' assume "te_assignment ?e' = Some a'"
    then show "as_worker a' \<in> fst ` set (sc_workers s)"
      using ok asg w mem by (fastforce simp: entry_ok_def workers_known_def)
  qed (use ok asg in \<open>auto simp: entry_ok_def running_in_def\<close>)
  show "sc_workers s' = sc_workers s" using s' by simp
  show "fits s' p" if "fits s p"
    unfolding eq by (rule replace_entry_fits [OF t e _ _ that]) (simp_all add: same)
  show "\<exists>k e e'. map_of (sc_tasks s) k = Some e \<and> te_state e = TASK_RUNNING \<and> te_result e' = te_result e
      \<and> te_state e' = te_state e \<and> sc_tasks s' = AList.update k e' (sc_tasks s)"
    using e s' ok asg by (intro exI [of _ k] exI [of _ e] exI [of _ ?e']) (simp add: entry_ok_def)
qed

text \<open>A completion either repeats the published result or publishes it from a live lease.\<close>

lemma complete_task_cases:
  assumes "scheduler_complete s r token now = Inr (s', r')"
  obtains (repeat) e where "map_of (sc_tasks s) (tr_task r) = Some e" "te_result e = Some r" "s' = s" "r' = r"
  | (publish) e a where "map_of (sc_tasks s) (tr_task r) = Some e" "te_result e = None"
      "te_state e = TASK_RUNNING" "te_assignment e = Some a" "le_token (as_lease a) = token"
      "now < le_expires (as_lease a)" "tr_worker r = as_worker a" "r' = r"
      "s' = s\<lparr>sc_tasks := AList.update (tr_task r) (e\<lparr>te_result := Some r, te_assignment := None,
                te_state := COMPLETED\<rparr>) (sc_tasks s),
              sc_active := (sc_active s)(ts_campaign (te_task e) \<mapsto>
                max 0 (get0 (sc_active s) (ts_campaign (te_task e)) - 1))\<rparr>"
  using assms
  by (auto simp: scheduler_complete_def Let_def worker_lease_expired_def not_le split: option.splits)

lemma complete_ok:
  assumes "scheduler_ok s" and "scheduler_complete s r token now = Inr (s', r')"
  shows "scheduler_ok s'" and "sc_workers s' = sc_workers s" and "fits s p \<Longrightarrow> fits s' p"
proof -
  have t: "table_sound s" using assms(1) by (simp add: scheduler_ok_def)
  have "scheduler_ok s' \<and> sc_workers s' = sc_workers s \<and> (fits s p \<longrightarrow> fits s' p)"
    using assms(2)
  proof (cases rule: complete_task_cases)
    case repeat
    then show ?thesis using assms(1) by simp
  next
    case (publish e a)
    have ok: "entry_ok (sc_budgets s) (tr_task r) e" by (rule table_sound_entry [OF t publish(1)])
    have pos: "1 \<le> get0 (sc_active s) (ts_campaign (te_task e))"
      using total_running_pos [OF map_of_SomeD [OF publish(1)] publish(3)] assms(1)
      by (simp add: scheduler_ok_def counters_ok_def)
    have "scheduler_ok s'"
      unfolding publish(9)
    proof (rule replace_entry_ok [OF assms(1) publish(1)])
      fix b assume "sc_budgets s (ts_campaign (te_task e)) = Some b"
      then have "get0 (sc_active s) (ts_campaign (te_task e)) \<le> cb_concurrent b"
        using assms(1) by (auto simp: scheduler_ok_def counters_ok_def)
      then show "get0 ((sc_active s)(ts_campaign (te_task e) \<mapsto>
          max 0 (get0 (sc_active s) (ts_campaign (te_task e)) - 1))) (ts_campaign (te_task e)) \<le> cb_concurrent b"
        using pos by (simp add: get0_def)
    qed (use ok publish(3) pos in \<open>auto simp: entry_ok_def running_in_def get0_def\<close>)
    moreover have "fits s' p" if "fits s p"
      unfolding publish(9)
      by (rule replace_entry_fits [OF t publish(1) _ _ that]) (simp_all add: is_active_def)
    ultimately show ?thesis using publish(9) by simp
  qed
  then show "scheduler_ok s'" "sc_workers s' = sc_workers s" "fits s p \<Longrightarrow> fits s' p" by blast+
qed

section \<open>Runs keep the invariants\<close>

lemma after_cases: "after s r = s \<or> (\<exists>s' x. r = Inr (s', x) \<and> after s r = s')"
  by (cases r) (auto simp: after_def)

lemma step_ok:
  assumes "scheduler_ok s"
  shows "scheduler_ok (scheduler_step tok s op)"
proof (cases op)
  case (RegisterWorker p credential now)
  then show ?thesis
    using assms register_ok(1) [OF assms]
    by (auto simp: after_def rbind_Inr_iff split: sum.splits)
next
  case (SetBudget c b)
  then show ?thesis
    using assms set_budget_ok(1) [OF assms] by (auto simp: after_def split: sum.splits)
next
  case (SubmitTask t)
  then show ?thesis
    using assms submit_ok(1) [OF assms] by (auto simp: after_def split: sum.splits)
next
  case (Schedule now)
  then show ?thesis using schedule_ok(1) [OF assms] by simp
next
  case (HeartbeatTask token now)
  then show ?thesis
    using assms heartbeat_ok(1) [OF assms] by (auto simp: after_def split: sum.splits)
next
  case (CompleteTask r token now)
  then show ?thesis
    using assms complete_ok(1) [OF assms] by (auto simp: after_def split: sum.splits)
qed

lemma run_snoc: "scheduler_run tok s (ops @ [op]) = scheduler_step tok (scheduler_run tok s ops) op"
  by (simp add: scheduler_run_def)

lemma init_ok:
  assumes "scheduler_init d = Inr s"
  shows "scheduler_ok s" "capacity_ok s" "sc_workers s = []"
  using assms
  by (auto simp: scheduler_init_def check_positive_def scheduler_ok_def table_sound_def counters_ok_def
      workers_known_def capacity_ok_def get0_def)

lemma run_ok: "scheduler_ok s \<Longrightarrow> scheduler_ok (scheduler_run tok s ops)"
  by (induction ops rule: rev_induct) (simp_all add: run_snoc step_ok, simp add: scheduler_run_def)

text \<open>
  C36. The scheduler's books always balance: in every state that any sequence of calls reaches, a task is
  stored under its content digest, holds a lease exactly while it runs and a result exactly once
  completed, is never attempted more often than allowed, and each campaign's counters are the true
  numbers of its running and submitted tasks and stay within its budget.
\<close>
theorem scheduler_books_balance:
  assumes "scheduler_init d = Inr s0" and "s = scheduler_run tok s0 ops"
  shows "(\<forall>k e. map_of (sc_tasks s) k = Some e \<longrightarrow>
      task_id (te_task e) = Inr k \<and> 0 \<le> te_attempts e \<and> te_attempts e \<le> ts_max_attempts (te_task e)
      \<and> (te_assignment e \<noteq> None \<longleftrightarrow> te_state e = TASK_RUNNING)
      \<and> (te_result e \<noteq> None \<longleftrightarrow> te_state e = COMPLETED)
      \<and> (te_state e = EXHAUSTED \<longrightarrow> te_attempts e = ts_max_attempts (te_task e)))
    \<and> (\<forall>c b. sc_budgets s c = Some b \<longrightarrow>
      get0 (sc_active s) c = int (length (filter (\<lambda>e. te_state e = TASK_RUNNING \<and> ts_campaign (te_task e) = c)
        (map snd (sc_tasks s))))
      \<and> get0 (sc_submitted s) c = int (length (filter (\<lambda>e. ts_campaign (te_task e) = c) (map snd (sc_tasks s))))
      \<and> get0 (sc_active s) c \<le> cb_concurrent b \<and> get0 (sc_submitted s) c \<le> cb_tasks b)"
proof -
  have ok: "scheduler_ok s" unfolding assms(2) by (rule run_ok [OF init_ok(1) [OF assms(1)]])
  have entry: "entry_ok (sc_budgets s) k e" if "map_of (sc_tasks s) k = Some e" for k e
    using ok that table_sound_entry by (auto simp: scheduler_ok_def)
  have count: "table_total (running_in c) es = int (length (filter (\<lambda>e. te_state e = TASK_RUNNING
        \<and> ts_campaign (te_task e) = c) (map snd es)))"
    "table_total (in_campaign c) es = int (length (filter (\<lambda>e. ts_campaign (te_task e) = c) (map snd es)))"
    for c and es :: "(pystr \<times> task_entry) list"
    by (induction es) (auto simp: running_in_def in_campaign_def)
  show ?thesis
    using ok entry by (auto simp: scheduler_ok_def counters_ok_def entry_ok_def count)
qed

section \<open>Resources\<close>

text \<open>A worker that registers again advertises the same profile.\<close>

definition stable_profiles :: "scheduler_op list \<Rightarrow> bool" where
  "stable_profiles ops \<longleftrightarrow>
     (\<forall>p \<in> set ops. \<forall>q \<in> set ops.
        case (p, q) of
          (RegisterWorker x _ _, RegisterWorker y _ _) \<Rightarrow> wp_worker x = wp_worker y \<longrightarrow> x = y
        | _ \<Rightarrow> True)"

lemma stable_profilesD:
  assumes "stable_profiles ops" and "RegisterWorker x c n \<in> set ops" and "RegisterWorker y c' n' \<in> set ops"
    and "wp_worker x = wp_worker y"
  shows "x = y"
  using bspec [OF bspec [OF assms(1) [unfolded stable_profiles_def] assms(2)] assms(3)] assms(4) by simp

definition registered_by :: "scheduler_op list \<Rightarrow> scheduler \<Rightarrow> bool" where
  "registered_by ops s \<longleftrightarrow>
     (\<forall>(w, g) \<in> set (sc_workers s). \<exists>credential now. RegisterWorker (rg_profile g) credential now \<in> set ops)"

lemma register_capacity:
  assumes ok: "scheduler_ok s" and cap: "capacity_ok s"
    and r: "register_worker s p credential now = Inr (s', g)"
    and valid: "worker_capacity_init (wp_capacity p) = Inr c'" "worker_profile_init p = Inr p'"
    and same: "\<And>g0. map_of (sc_workers s) (wp_worker p) = Some g0 \<Longrightarrow> rg_profile g0 = p"
  shows "capacity_ok s'"
proof -
  note reg = register_ok [OF ok r valid]
  have w: "workers_known s" using ok by (simp add: scheduler_ok_def)
  then have dist: "distinct (map fst (sc_workers s))" by (simp add: workers_known_def)
  have fits': "fits s' q = fits s q" for q
    using reg(2) by (simp add: fits_def active_entries_def)
  have "fits s p"
  proof (cases "map_of (sc_workers s) (wp_worker p)")
    case (Some g0)
    then show ?thesis using same cap by (fastforce simp: capacity_ok_def dest: map_of_SomeD)
  next
    case None
    then have "wp_worker p \<notin> fst ` set (sc_workers s)" by (simp add: map_of_eq_None_iff)
    then have idle: "active_entries s (wp_worker p) = []"
      using w by (force simp: active_entries_def filter_empty_conv is_active_def workers_known_def
          split: option.splits)
    show ?thesis
      using valid by (auto simp: fits_def idle RESOURCE_FIELDS_def worker_capacity_init_def
          worker_profile_init_def check_nonnegative_def check_positive_def)
  qed
  then show ?thesis
    using cap reg(3,4) by (auto simp: capacity_ok_def fits' set_update [OF dist])
qed

lemma step_capacity:
  assumes ok: "scheduler_ok s" and cap: "capacity_ok s" and reg: "registered_by ops s"
    and stable: "stable_profiles (ops @ [op])"
  shows "capacity_ok (scheduler_step tok s op)" and "registered_by (ops @ [op]) (scheduler_step tok s op)"
proof -
  have keep: "registered_by (ops @ [op]) s'" if "sc_workers s' = sc_workers s" for s'
    using reg that by (fastforce simp: registered_by_def)
  have fits: "capacity_ok s'" if "sc_workers s' = sc_workers s" "\<And>p. fits s p \<Longrightarrow> fits s' p" for s'
    using cap that by (auto simp: capacity_ok_def)
  have "capacity_ok (scheduler_step tok s op) \<and> registered_by (ops @ [op]) (scheduler_step tok s op)"
  proof (cases op)
    case (RegisterWorker p credential now)
    show ?thesis
    proof (cases "scheduler_step tok s op = s")
      case True
      then show ?thesis using cap keep [of s] by simp
    next
      case False
      then obtain c' p' s' g where v: "worker_capacity_init (wp_capacity p) = Inr c'"
        "worker_profile_init p = Inr p'" "register_worker s p credential now = Inr (s', g)"
        "scheduler_step tok s op = s'"
        using RegisterWorker by (auto simp: after_def split: sum.splits prod.splits)
      have w: "workers_known s" using ok by (simp add: scheduler_ok_def)
      have same: "rg_profile g0 = p" if g0: "map_of (sc_workers s) (wp_worker p) = Some g0" for g0
      proof -
        have mem: "(wp_worker p, g0) \<in> set (sc_workers s)" using g0 by (rule map_of_SomeD)
        then obtain c n where "RegisterWorker (rg_profile g0) c n \<in> set ops"
          using reg by (auto simp: registered_by_def)
        then have "RegisterWorker (rg_profile g0) c n \<in> set (ops @ [op])" by simp
        moreover have "RegisterWorker p credential now \<in> set (ops @ [op])" using RegisterWorker by simp
        moreover have "wp_worker (rg_profile g0) = wp_worker p" using w mem by (auto simp: workers_known_def)
        ultimately show ?thesis by (rule stable_profilesD [OF stable])
      qed
      have dist: "distinct (map fst (sc_workers s))" using w by (simp add: workers_known_def)
      have "\<exists>c n. RegisterWorker (rg_profile g') c n \<in> set (ops @ [op])" if entry: "(w, g') \<in> set (sc_workers s')" for w g'
      proof -
        consider "g' = g" | "(w, g') \<in> set (sc_workers s)"
          using entry register_ok(3) [OF ok v(3,1,2)] by (auto simp: set_update [OF dist])
        then show ?thesis
        proof cases
          case 1
          then have "RegisterWorker (rg_profile g') credential now \<in> set (ops @ [op])"
            using register_ok(4) [OF ok v(3,1,2)] RegisterWorker by simp
          then show ?thesis by blast
        next
          case 2
          then obtain c n where "RegisterWorker (rg_profile g') c n \<in> set ops"
            using reg unfolding registered_by_def by blast
          then have "RegisterWorker (rg_profile g') c n \<in> set (ops @ [op])" by simp
          then show ?thesis by blast
        qed
      qed
      then have "registered_by (ops @ [op]) s'" by (auto simp: registered_by_def)
      then show ?thesis
        using register_capacity [OF ok cap v(3,1,2) same] v(4) by simp
    qed
  next
    case (Schedule now)
    have "sc_workers (fst (schedule tok s now)) = sc_workers s"
      using schedule_keeps [of tok s now] by simp
    then show ?thesis using schedule_ok(2) [OF ok cap] keep Schedule by simp
  next
    case (SetBudget c b)
    then show ?thesis
      using cap keep fits set_budget_ok [OF ok]
      by (auto simp: after_def fits_def active_entries_def split: sum.splits)
  next
    case (SubmitTask t)
    then show ?thesis
      using cap keep fits submit_ok [OF ok] by (auto simp: after_def split: sum.splits)
  next
    case (HeartbeatTask token now)
    then show ?thesis
      using cap keep fits heartbeat_ok [OF ok] by (auto simp: after_def split: sum.splits)
  next
    case (CompleteTask r token now)
    then show ?thesis
      using cap keep fits complete_ok [OF ok] by (auto simp: after_def split: sum.splits)
  qed
  then show "capacity_ok (scheduler_step tok s op)" "registered_by (ops @ [op]) (scheduler_step tok s op)"
    by blast+
qed

text \<open>
  C2. No overcommitment: as long as workers register again only with the profile they had, every worker
  at every moment runs at most as many tasks as it advertised, their RAM, VRAM, disk and CPU demands sum
  to at most its capacity, and each is of an operation it supports.
\<close>
theorem workers_never_overcommitted:
  assumes "scheduler_init d = Inr s0" and "stable_profiles ops"
    and "(w, g) \<in> set (sc_workers (scheduler_run tok s0 ops))"
  shows "fits (scheduler_run tok s0 ops) (rg_profile g)"
proof -
  have "capacity_ok (scheduler_run tok s0 ops) \<and> registered_by ops (scheduler_run tok s0 ops)"
    using assms(2)
  proof (induction ops rule: rev_induct)
    case Nil
    then show ?case using init_ok [OF assms(1)] by (simp add: scheduler_run_def registered_by_def)
  next
    case (snoc op ops)
    have "stable_profiles ops" using snoc.prems by (auto simp: stable_profiles_def)
    then show ?case
      using step_capacity [OF run_ok [OF init_ok(1) [OF assms(1)]] _ _ snoc.prems] snoc.IH
      by (simp add: run_snoc)
  qed
  then show ?thesis using assms(3) by (auto simp: capacity_ok_def)
qed

section \<open>Results are published once\<close>

lemma place_tasks_assigned:
  "place_tasks tok ps now ks s acc = (s', Inr as) \<Longrightarrow> a \<in> set as \<Longrightarrow> a \<in> set acc \<or> as_task a \<in> set ks"
proof (induction ks arbitrary: s acc)
  case (Cons k ks)
  obtain e b where e: "map_of (sc_tasks s) k = Some e" "sc_budgets s (ts_campaign (te_task e)) = Some b"
    using Cons.prems(1) by (auto split: option.splits)
  show ?case
  proof (cases "cb_concurrent b \<le> get0 (sc_active s) (ts_campaign (te_task e))
      \<or> find (\<lambda>p. worker_available s p (te_task e)) ps = None")
    case True
    then have "place_tasks tok ps now ks s acc = (s', Inr as)"
      using Cons.prems(1) e by (auto split: if_splits)
    from Cons.IH [OF this Cons.prems(2)] show ?thesis by auto
  next
    case False
    then obtain p where p: "find (\<lambda>p. worker_available s p (te_task e)) ps = Some p" by auto
    let ?A = "assign_task (s\<lparr>sc_drawn := Suc (sc_drawn s)\<rparr>) now k e p (tok (sc_drawn s))"
    have "place_tasks tok ps now ks (fst ?A) (acc @ [snd ?A]) = (s', Inr as)"
      using Cons.prems(1) e p False by (auto simp: Let_def split: sum.splits prod.splits)
    from Cons.IH [OF this Cons.prems(2)] show ?thesis by (auto simp: assign_task_def Let_def)
  qed
qed simp

definition published :: "scheduler \<Rightarrow> task_result \<Rightarrow> bool" where
  "published s r \<longleftrightarrow> (\<exists>e. map_of (sc_tasks s) (tr_task r) = Some e \<and> te_result e = Some r)"

lemma published_completed:
  "scheduler_ok s \<Longrightarrow> map_of (sc_tasks s) k = Some e \<Longrightarrow> te_result e = Some r \<Longrightarrow> te_state e = COMPLETED"
  using table_sound_entry [of s k e] by (auto simp: scheduler_ok_def entry_ok_def)

lemma reap_map_of: "map_of (sc_tasks (reap_expired s now)) k = map_option (reaped now) (map_of (sc_tasks s) k)"
  unfolding reap_expired_fields(1) by (induction "sc_tasks s") (auto simp: map_of_map)

lemma published_not_queued:
  assumes "scheduler_ok s" and "published s r"
  shows "tr_task r \<notin> set (queued_keys (reap_expired s now))"
proof
  assume "tr_task r \<in> set (queued_keys (reap_expired s now))"
  moreover have ok: "scheduler_ok (reap_expired s now)" by (rule reap_expired_ok [OF assms(1)])
  ultimately obtain e where e: "map_of (sc_tasks (reap_expired s now)) (tr_task r) = Some e" "te_state e = QUEUED"
    using queued_keys_in [of "reap_expired s now"] by (auto simp: scheduler_ok_def queued_in_def)
  moreover from e assms(2) have "te_result e = Some r"
    by (auto simp: published_def reap_map_of)
  ultimately show False using published_completed [OF ok] by fastforce
qed

lemma schedule_published:
  assumes ok: "scheduler_ok s" and pub: "published s r"
  shows "published (fst (schedule tok s now)) r"
    and "snd (schedule tok s now) = Inr as \<Longrightarrow> a \<in> set as \<Longrightarrow> as_task a \<noteq> tr_task r"
proof -
  let ?s = "reap_expired s now"
  obtain s' res where run: "place_tasks tok (sorted_profiles ?s) now (queued_keys ?s) ?s [] = (s', res)"
    by fastforce
  have ok': "scheduler_ok ?s" by (rule reap_expired_ok [OF ok])
  then have q: "queued_in ?s (queued_keys ?s)" by (intro queued_keys_in) (simp add: scheduler_ok_def)
  have notin: "tr_task r \<notin> set (queued_keys ?s)" by (rule published_not_queued [OF ok pub])
  have "published ?s r" using pub by (auto simp: published_def reap_map_of)
  then have "published s' r"
    using place_tasks_ok(6) [OF ok' sorted_profiles_of q run notin] by (simp add: published_def)
  then show "published (fst (schedule tok s now)) r"
    using run pub by (auto simp: schedule_def Let_def check_nonnegative_def raise_if_def)
  show "as_task a \<noteq> tr_task r" if "snd (schedule tok s now) = Inr as" "a \<in> set as"
  proof -
    have "res = Inr as" using that(1) run
      by (auto simp: schedule_def Let_def check_nonnegative_def raise_if_def split: if_splits)
    then have "as_task a \<in> set (queued_keys ?s)"
      using place_tasks_assigned run that(2) by fastforce
    then show ?thesis using notin by auto
  qed
qed

lemma step_published:
  assumes ok: "scheduler_ok s" and pub: "published s r"
  shows "published (scheduler_step tok s op) r"
proof (cases op)
  case (RegisterWorker p credential now)
  then show ?thesis
    using pub by (auto simp: after_def published_def register_worker_def Let_def rbind_Inr_iff split: sum.splits)
next
  case (SetBudget c b)
  then show ?thesis
    using pub by (auto simp: after_def published_def set_campaign_budget_def rbind_Inr_iff split: sum.splits)
next
  case (SubmitTask t)
  then show ?thesis
    using pub submit_ok(4) [OF ok] by (fastforce simp: after_def published_def split: sum.splits)
next
  case (Schedule now)
  then show ?thesis using schedule_published(1) [OF ok pub] by simp
next
  case (HeartbeatTask token now)
  obtain e where e: "map_of (sc_tasks s) (tr_task r) = Some e" "te_result e = Some r"
    using pub by (auto simp: published_def)
  then have done_state: "te_state e = COMPLETED" using published_completed [OF ok] by blast
  show ?thesis
  proof (cases "scheduler_heartbeat s token now")
    case (Inr x)
    obtain s' l where x: "x = (s', l)" by (cases x)
    obtain k e0 e' where h: "map_of (sc_tasks s) k = Some e0" "te_state e0 = TASK_RUNNING"
      "sc_tasks s' = AList.update k e' (sc_tasks s)"
      using heartbeat_ok(4) [OF ok Inr [unfolded x]] by blast
    then have "k \<noteq> tr_task r" using e(1) done_state by auto
    then have "published s' r" using e h(3) by (simp add: published_def update_conv')
    then show ?thesis using HeartbeatTask Inr x by (simp add: after_def)
  qed (use HeartbeatTask pub in \<open>simp add: after_def\<close>)
next
  case (CompleteTask r2 token now)
  obtain e where e: "map_of (sc_tasks s) (tr_task r) = Some e" "te_result e = Some r"
    using pub by (auto simp: published_def)
  show ?thesis
  proof (cases "rbind (task_result_init r2) (\<lambda>_. scheduler_complete s r2 token now)")
    case (Inr x)
    obtain s' r' where x: "x = (s', r')" by (cases x)
    have "scheduler_complete s r2 token now = Inr (s', r')" using Inr x by (auto simp: rbind_Inr_iff)
    then have "published s' r"
    proof (cases rule: complete_task_cases)
      case repeat
      then show ?thesis using pub by simp
    next
      case (publish e2 a)
      then have "tr_task r2 \<noteq> tr_task r" using e by auto
      then show ?thesis using e publish(9) by (simp add: published_def update_conv')
    qed
    then show ?thesis using CompleteTask Inr x by (simp add: after_def)
  qed (use CompleteTask pub in \<open>simp add: after_def\<close>)
qed

lemma run_published:
  "scheduler_ok s \<Longrightarrow> published s r \<Longrightarrow> published (scheduler_run tok s ops) r"
  by (induction ops rule: rev_induct)
    (simp_all add: run_snoc step_published run_ok, simp add: scheduler_run_def)

text \<open>
  C35. A result is published once and for good: a completion that succeeds either repeats the published
  result or comes from the worker that holds the task's current, unexpired lease; whatever happens
  afterwards the task keeps this result, is never assigned again, and a completion is answered with the
  same result if it agrees and with an error if it does not.
\<close>
theorem results_published_once:
  assumes "scheduler_init d = Inr s0" and "s = scheduler_run tok s0 ops"
    and "scheduler_complete s r token now = Inr (s', r')" and "s2 = scheduler_run tok s' ops2"
  shows "(published s r \<and> s' = s \<or> (\<exists>e a. map_of (sc_tasks s) (tr_task r) = Some e \<and> te_result e = None
        \<and> te_assignment e = Some a \<and> le_token (as_lease a) = token \<and> now < le_expires (as_lease a)
        \<and> as_worker a = tr_worker r))
    \<and> published s2 r
    \<and> (\<forall>m as a. snd (schedule tok s2 m) = Inr as \<longrightarrow> a \<in> set as \<longrightarrow> as_task a \<noteq> tr_task r)
    \<and> (\<forall>r2 token2 m. tr_task r2 = tr_task r \<longrightarrow> 0 \<le> m \<longrightarrow>
        scheduler_complete s2 r2 token2 m
          = (if r2 = r then Inr (s2, r) else Inl (SchedulerError ''task result was already published'')))"
proof -
  have ok: "scheduler_ok s" unfolding assms(2) by (rule run_ok [OF init_ok(1) [OF assms(1)]])
  have ok': "scheduler_ok s'" by (rule complete_ok(1) [OF ok assms(3)])
  have ok2: "scheduler_ok s2" unfolding assms(4) by (rule run_ok [OF ok'])
  have first: "published s r \<and> s' = s \<or> (\<exists>e a. map_of (sc_tasks s) (tr_task r) = Some e \<and> te_result e = None
        \<and> te_assignment e = Some a \<and> le_token (as_lease a) = token \<and> now < le_expires (as_lease a)
        \<and> as_worker a = tr_worker r)" and pub': "published s' r"
    using assms(3) by (auto elim!: complete_task_cases simp: published_def update_conv')
  have pub2: "published s2 r" unfolding assms(4) by (rule run_published [OF ok' pub'])
  have "scheduler_complete s2 r2 token2 m
      = (if r2 = r then Inr (s2, r) else Inl (SchedulerError ''task result was already published''))"
    if "tr_task r2 = tr_task r" "0 \<le> m" for r2 token2 m
    using pub2 that by (auto simp: published_def scheduler_complete_def check_nonnegative_def rbind_raise_if)
  then show ?thesis using first pub2 schedule_published(2) [OF ok2 pub2] by blast
qed

section \<open>A round leaves nothing placeable behind\<close>

definition blocked :: "scheduler \<Rightarrow> worker_profile list \<Rightarrow> task_spec \<Rightarrow> bool" where
  "blocked s ps t \<longleftrightarrow>
     (\<exists>b. sc_budgets s (ts_campaign t) = Some b \<and> cb_concurrent b \<le> get0 (sc_active s) (ts_campaign t))
     \<or> (\<forall>p \<in> set ps. \<not> worker_available s p t)"

lemma worker_available_iff:
  "worker_available s p t \<longleftrightarrow> ts_operation t \<in> set (wp_operations p)
     \<and> (\<forall>(need, cap) \<in> set RESOURCE_FIELDS. need t \<le> cap (wp_capacity p)
          \<and> table_total (load (wp_worker p) need) (sc_tasks s) + need t \<le> cap (wp_capacity p))
     \<and> \<not> (0 < ts_vram t \<and> wc_gpu (wp_capacity p) = 0)
     \<and> table_total (load (wp_worker p) (\<lambda>_. 1)) (sc_tasks s) < wp_concurrency p"
  by (auto simp: worker_available_def Let_def RESOURCE_FIELDS_def active_total)

lemma assign_blocked:
  assumes ok: "scheduler_ok s" and e: "map_of (sc_tasks s) k = Some e" and q: "te_state e = QUEUED"
    and "blocked s ps t"
  shows "blocked (fst (assign_task s now k e p token)) ps t"
proof -
  let ?s = "fst (assign_task s now k e p token)"
  have t: "table_sound s" using ok by (simp add: scheduler_ok_def)
  then have dist: "distinct (map fst (sc_tasks s))" by (simp add: table_sound_def)
  have eok: "entry_ok (sc_budgets s) k e" by (rule table_sound_entry [OF t e])
  have l0: "load w need e = 0" for w need using q by (simp add: load_def is_active_def)
  have le: "table_total (load w need) (sc_tasks s) \<le> table_total (load w need) (sc_tasks ?s)"
    if "0 \<le> need (te_task e)" for w need
    using that by (simp add: assign_task_def Let_def total_update [OF dist e] l0) (simp add: load_def)
  have "worker_available s p' t" if av: "worker_available ?s p' t" for p'
    unfolding worker_available_iff
  proof (intro conjI ballI)
    fix x assume x: "x \<in> set RESOURCE_FIELDS"
    obtain need cap where xx: "x = (need, cap)" by (cases x)
    have "need t \<le> cap (wp_capacity p')
        \<and> table_total (load (wp_worker p') need) (sc_tasks ?s) + need t \<le> cap (wp_capacity p')"
      using av x xx unfolding worker_available_iff by blast
    then show "case x of (need, cap) \<Rightarrow> need t \<le> cap (wp_capacity p')
        \<and> table_total (load (wp_worker p') need) (sc_tasks s) + need t \<le> cap (wp_capacity p')"
      using le [of need "wp_worker p'"] entry_needs [OF eok] x xx by fastforce
  qed (use av le [of "\<lambda>_. 1" "wp_worker p'"] in \<open>auto simp: worker_available_iff\<close>)
  moreover have "get0 (sc_active s) c \<le> get0 (sc_active ?s) c" for c
    by (simp add: assign_task_def Let_def get0_def)
  ultimately show ?thesis
    using assms(4) assign_task_fields(2) [of s now k e p token] unfolding blocked_def
    by (metis order_trans)
qed

lemma place_tasks_blocked:
  assumes "scheduler_ok s" and "profiles_of s ps" and "queued_in s ks"
    and "place_tasks tok ps now ks s acc = (s', Inr as)"
  shows "blocked s ps t \<Longrightarrow> blocked s' ps t"
    and "k \<in> set ks \<Longrightarrow> map_of (sc_tasks s') k = Some e \<Longrightarrow> te_state e = QUEUED \<Longrightarrow> blocked s' ps (te_task e)"
proof -
  have "(blocked s ps t \<longrightarrow> blocked s' ps t)
      \<and> (k \<in> set ks \<longrightarrow> map_of (sc_tasks s') k = Some e \<longrightarrow> te_state e = QUEUED \<longrightarrow> blocked s' ps (te_task e))"
    using assms
  proof (induction ks arbitrary: s acc t)
    case (Cons k1 ks)
    have rest: "queued_in s ks" and k1: "k1 \<notin> set ks" using Cons.prems(3) by (auto simp: queued_in_def)
    obtain e1 where e1: "map_of (sc_tasks s) k1 = Some e1" "te_state e1 = QUEUED"
      using Cons.prems(3) by (auto simp: queued_in_def)
    obtain b where b: "sc_budgets s (ts_campaign (te_task e1)) = Some b"
      using table_sound_entry [OF _ e1(1)] Cons.prems(1) by (auto simp: scheduler_ok_def entry_ok_def)
    show ?case
    proof (cases "cb_concurrent b \<le> get0 (sc_active s) (ts_campaign (te_task e1))
        \<or> find (\<lambda>p. worker_available s p (te_task e1)) ps = None")
      case True
      then have run: "place_tasks tok ps now ks s acc = (s', Inr as)"
        using Cons.prems(4) e1 b by (auto split: if_splits)
      have bl: "blocked s ps (te_task e1)" using True b by (auto simp: blocked_def find_None_iff2)
      have same: "map_of (sc_tasks s') k1 = Some e1"
        using place_tasks_ok(6) [OF Cons.prems(1,2) rest run k1] e1 by simp
      from Cons.IH [OF Cons.prems(1,2) rest run] bl same show ?thesis by auto
    next
      case False
      then obtain p where p: "find (\<lambda>p. worker_available s p (te_task e1)) ps = Some p" by auto
      let ?s1 = "s\<lparr>sc_drawn := Suc (sc_drawn s)\<rparr>"
      let ?s2 = "fst (assign_task ?s1 now k1 e1 p (tok (sc_drawn s)))"
      have run: "place_tasks tok ps now ks ?s2 (acc @ [snd (assign_task ?s1 now k1 e1 p (tok (sc_drawn s)))])
          = (s', Inr as)"
        using Cons.prems(4) e1 b p False by (auto simp: Let_def split: sum.splits prod.splits)
      have ok1: "scheduler_ok ?s1" and wk: "workers_known s"
        using Cons.prems(1) by (simp, simp add: scheduler_ok_def)
      have pin: "p \<in> set ps" using find_Some_member [OF p] by simp
      have ok2: "scheduler_ok ?s2"
        using profile_unique(2) [OF wk Cons.prems(2) pin pin refl] False b e1
        by (intro assign_task_ok [OF ok1]) auto
      have pr2: "profiles_of ?s2 ps"
        using Cons.prems(2) assign_task_fields(1) [of ?s1] by (simp add: profiles_of_def)
      have q2: "queued_in ?s2 ks"
        unfolding queued_in_def
      proof (intro conjI ballI)
        show "distinct ks" using rest by (simp add: queued_in_def)
        fix k' assume k': "k' \<in> set ks"
        then have "k' \<noteq> k1" using k1 by auto
        from assign_task_fields(3) [OF this, where s = ?s1] k' rest
        show "\<exists>e. map_of (sc_tasks ?s2) k' = Some e \<and> te_state e = QUEUED" by (simp add: queued_in_def)
      qed
      have bl: "blocked ?s2 ps u" if "blocked s ps u" for u
        using that e1 by (intro assign_blocked [OF ok1]) (simp_all add: blocked_def)
      have "te_state e \<noteq> QUEUED" if "map_of (sc_tasks s') k1 = Some e"
        using that place_tasks_ok(6) [OF ok2 pr2 q2 run k1]
        by (auto simp: assign_task_def Let_def update_conv')
      then show ?thesis using Cons.IH [OF ok2 pr2 q2 run] bl by auto
    qed
  qed auto
  then show "blocked s ps t \<Longrightarrow> blocked s' ps t"
    "k \<in> set ks \<Longrightarrow> map_of (sc_tasks s') k = Some e \<Longrightarrow> te_state e = QUEUED \<Longrightarrow> blocked s' ps (te_task e)"
    by blast+
qed

text \<open>
  C37. Scheduling is work-conserving: after a round that returns, every task still queued belongs to a
  campaign that runs as many tasks as its budget allows, or no registered worker has room for it.
\<close>
theorem schedule_work_conserving:
  assumes "scheduler_init d = Inr s0" and "s = scheduler_run tok s0 ops"
    and "schedule tok s now = (s', Inr as)"
    and "map_of (sc_tasks s') k = Some e" and "te_state e = QUEUED"
  shows "(\<exists>b. sc_budgets s' (ts_campaign (te_task e)) = Some b
        \<and> cb_concurrent b \<le> get0 (sc_active s') (ts_campaign (te_task e)))
    \<or> (\<forall>(w, g) \<in> set (sc_workers s'). \<not> worker_available s' (rg_profile g) (te_task e))"
proof -
  let ?s = "reap_expired s now"
  have ok: "scheduler_ok ?s" unfolding assms(2) by (intro reap_expired_ok run_ok init_ok(1) [OF assms(1)])
  then have q: "queued_in ?s (queued_keys ?s)" by (intro queued_keys_in) (simp add: scheduler_ok_def)
  have run: "place_tasks tok (sorted_profiles ?s) now (queued_keys ?s) ?s [] = (s', Inr as)"
    using assms(3) by (auto simp: schedule_def Let_def split: sum.splits)
  have "k \<in> set (queued_keys ?s)"
  proof (rule ccontr)
    assume "k \<notin> set (queued_keys ?s)"
    moreover have "map_of (sc_tasks ?s) k = Some e"
      using calculation place_tasks_ok(6) [OF ok sorted_profiles_of q run] assms(4) by simp
    ultimately show False using assms(5) by (force simp: queued_keys_def dest: map_of_SomeD)
  qed
  from place_tasks_blocked(2) [OF ok sorted_profiles_of q run this assms(4,5)]
  have "blocked s' (sorted_profiles ?s) (te_task e)" .
  moreover have "profiles_of s' (sorted_profiles ?s)"
    by (rule place_tasks_ok(3) [OF ok sorted_profiles_of q run])
  ultimately show ?thesis by (auto simp: blocked_def profiles_of_def)
qed

section \<open>A concrete scheduler\<close>

definition demo_task :: task_spec where
  "demo_task = \<lparr>ts_campaign = [99], ts_operation = EVALUATE,
     ts_inputs = [\<lparr>ci_digest = lit ''sha256:'' @ replicate 64 0x30, ci_size = 1, ci_role = [114]\<rparr>],
     ts_ram = 2, ts_vram = 0, ts_disk = 0, ts_cpu = 1, ts_priority = 0, ts_seed = 0, ts_max_attempts = 1\<rparr>"

definition demo_key :: pystr where
  "demo_key = (case task_id demo_task of Inr k \<Rightarrow> k | Inl _ \<Rightarrow> [])"

definition demo_worker :: worker_profile where
  "demo_worker = \<lparr>wp_worker = [119], wp_transport = LOCAL, wp_operations = [EVALUATE],
     wp_capacity = \<lparr>wc_ram = 3, wc_vram = 0, wc_disk = 0, wc_cpu = 1, wc_gpu = 0\<rparr>, wp_hardware = JNull,
     wp_revision = [49], wp_concurrency = 2, wp_schema = 1\<rparr>"

definition demo_scheduler :: scheduler where
  "demo_scheduler = \<lparr>sc_duration = 10, sc_workers = [], sc_tasks = [], sc_budgets = \<lambda>_. None,
     sc_submitted = \<lambda>_. None, sc_active = \<lambda>_. None, sc_drawn = 0\<rparr>"

definition demo_tokens :: "nat \<Rightarrow> pystr" where
  "demo_tokens n = [116]"

definition demo_ops :: "scheduler_op list" where
  "demo_ops = [SetBudget [99] \<lparr>cb_tasks = 5, cb_concurrent = 1\<rparr>, SubmitTask demo_task]"

definition demo_result :: task_result where
  "demo_result = \<lparr>tr_task = demo_key, tr_outcome = UNKNOWN, tr_worker = [119], tr_output = None, tr_evidence = []\<rparr>"

lemma demo_task_id: "task_id demo_task = Inr demo_key"
proof -
  have "case json_dumps (task_record demo_task) of None \<Rightarrow> False | Some _ \<Rightarrow> True" by code_simp
  then show ?thesis by (auto simp: demo_key_def task_id_def split: option.splits)
qed

lemma demo_init: "scheduler_init 10 = Inr demo_scheduler"
  by (simp add: scheduler_init_def check_positive_def demo_scheduler_def)

lemma demo_valid:
  "mapM_r content_input_init (ts_inputs demo_task) = Inr (ts_inputs demo_task)"
  "task_spec_init demo_task = Inr demo_task" "worker_profile_init demo_worker = Inr demo_worker"
  "worker_capacity_init (wp_capacity demo_worker) = Inr (wp_capacity demo_worker)"
  by code_simp+

definition demo_submitted :: scheduler where
  "demo_submitted = demo_scheduler\<lparr>sc_tasks := [(demo_key, new_entry demo_task)],
     sc_budgets := [[99] \<mapsto> \<lparr>cb_tasks = 5, cb_concurrent = 1\<rparr>], sc_submitted := [[99] \<mapsto> 1]\<rparr>"

lemma demo_fields: "ts_campaign demo_task = [99]" "ts_max_attempts demo_task = 1"
  by (simp_all add: demo_task_def)

lemma demo_run: "scheduler_run demo_tokens demo_scheduler demo_ops = demo_submitted"
  by (simp add: scheduler_run_def demo_ops_def after_def campaign_budget_init_def check_positive_def
      set_campaign_budget_def check_text_def is_blank_def is_py_space_def demo_scheduler_def demo_valid
      submit_task_def demo_task_id demo_fields get0_def demo_submitted_def)


definition demo_registration :: worker_registration where
  "demo_registration = \<lparr>rg_profile = demo_worker, rg_credential = lit ''sha256:'' @ hexdigest [120], rg_time = 0\<rparr>"

definition demo_registered :: scheduler where
  "demo_registered = demo_submitted\<lparr>sc_workers := [([119], demo_registration)]\<rparr>"

definition demo_assignment :: worker_assignment where
  "demo_assignment = \<lparr>as_task = demo_key, as_worker = [119],
     as_lease = \<lparr>le_task = demo_key, le_worker = [119], le_token = [116], le_attempt = 1, le_acquired = 0,
       le_heartbeat = 0, le_expires = 10\<rparr>, as_spec = demo_task\<rparr>"

definition demo_scheduled :: scheduler where
  "demo_scheduled = demo_registered\<lparr>sc_tasks := [(demo_key, (new_entry demo_task)\<lparr>te_attempts := 1,
       te_assignment := Some demo_assignment, te_state := TASK_RUNNING\<rparr>)],
     sc_active := [[99] \<mapsto> 1], sc_drawn := 1\<rparr>"

definition demo_ops2 :: "scheduler_op list" where
  "demo_ops2 = demo_ops @ [RegisterWorker demo_worker [120] 0, Schedule 0]"

lemma demo_utf8: "encode_utf8 [120] = Some [120]"
  by code_simp

lemma demo_reap: "reap_expired demo_submitted 0 = demo_submitted" "reap_expired demo_registered 0 = demo_registered"
  by (simp_all add: reap_expired_def demo_submitted_def demo_registered_def demo_scheduler_def reap_entry_def
      new_entry_def)

lemma demo_queue: "queued_keys demo_submitted = [demo_key]" "queued_keys demo_registered = [demo_key]"
  "sorted_profiles demo_submitted = []" "sorted_profiles demo_registered = [demo_worker]"
  by (simp_all add: queued_keys_def demo_submitted_def demo_registered_def demo_scheduler_def
      new_entry_def sorted_profiles_def demo_registration_def)

lemma demo_available: "worker_available demo_registered demo_worker demo_task"
  by (simp add: worker_available_def active_entries_def demo_registered_def demo_submitted_def
      demo_scheduler_def new_entry_def is_active_def RESOURCE_FIELDS_def demo_worker_def demo_task_def)

lemma demo_schedule: "schedule demo_tokens demo_registered 0 = (demo_scheduled, Inr [demo_assignment])"
proof -
  have e: "map_of (sc_tasks demo_registered) demo_key = Some (new_entry demo_task)"
    "te_task (new_entry demo_task) = demo_task"
    and b: "sc_budgets demo_registered [99] = Some \<lparr>cb_tasks = 5, cb_concurrent = 1\<rparr>"
      "sc_active demo_registered = (\<lambda>_. None)" "sc_drawn demo_registered = 0"
    by (simp_all add: demo_registered_def demo_submitted_def demo_scheduler_def new_entry_def)
  show ?thesis
    by (simp add: schedule_def check_nonnegative_def demo_reap demo_queue e b demo_fields get0_def
        demo_available check_text_def is_blank_def is_py_space_def demo_tokens_def assign_task_def)
      (simp add: demo_scheduled_def demo_registered_def demo_submitted_def demo_scheduler_def
        demo_assignment_def new_entry_def demo_worker_def demo_fields Let_def)
qed

lemma demo_run2: "scheduler_run demo_tokens demo_scheduler demo_ops2 = demo_scheduled"
proof -
  have "register_worker demo_submitted demo_worker [120] 0 = Inr (demo_registered, demo_registration)"
    by (simp add: register_worker_def check_text_def is_blank_def is_py_space_def check_nonnegative_def
        demo_utf8 demo_submitted_def demo_scheduler_def worker_registration_init_def
        check_digest_hexdigest demo_registered_def demo_registration_def)
      (simp add: demo_worker_def Let_def)
  then have "scheduler_step demo_tokens demo_submitted (RegisterWorker demo_worker [120] 0) = demo_registered"
    by (simp add: after_def demo_valid)
  then show ?thesis
    using demo_run demo_schedule by (simp add: demo_ops2_def scheduler_run_def)
qed

theorem scheduler_books_balance_witness:
  "get0 (sc_active demo_scheduled) [99] = 1 \<and> get0 (sc_submitted demo_scheduled) [99] \<le> 5"
  using scheduler_books_balance [OF demo_init demo_run2 [symmetric]]
  by (simp add: demo_scheduled_def demo_registered_def demo_submitted_def demo_scheduler_def demo_fields
      new_entry_def)

theorem workers_never_overcommitted_witness:
  "fits demo_scheduled demo_worker \<and> active_entries demo_scheduled [119] \<noteq> []"
proof -
  have st: "stable_profiles demo_ops2" by (simp add: stable_profiles_def demo_ops2_def demo_ops_def)
  have mem: "([119], demo_registration) \<in> set (sc_workers (scheduler_run demo_tokens demo_scheduler demo_ops2))"
    by (simp add: demo_run2 demo_scheduled_def demo_registered_def)
  from workers_never_overcommitted [OF demo_init st mem] have "fits demo_scheduled demo_worker"
    by (simp add: demo_run2 demo_registration_def)
  moreover have "active_entries demo_scheduled [119] \<noteq> []"
    by (simp add: active_entries_def demo_scheduled_def is_active_def demo_assignment_def)
  ultimately show ?thesis by simp
qed

theorem results_published_once_witness:
  "\<exists>s'. scheduler_complete demo_scheduled demo_result [116] 5 = Inr (s', demo_result)
    \<and> published (scheduler_run demo_tokens s' [Schedule 20]) demo_result"
proof -
  obtain s' where c: "scheduler_complete demo_scheduled demo_result [116] 5 = Inr (s', demo_result)"
    by (simp add: scheduler_complete_def check_nonnegative_def demo_scheduled_def demo_result_def
        new_entry_def demo_assignment_def worker_lease_expired_def Let_def)
  from results_published_once [OF demo_init demo_run2 [symmetric] c refl] c show ?thesis by blast
qed

text \<open>A second worker, too small for the task.\<close>

definition demo_small :: worker_profile where
  "demo_small = demo_worker\<lparr>wp_capacity := \<lparr>wc_ram = 1, wc_vram = 0, wc_disk = 0, wc_cpu = 1, wc_gpu = 0\<rparr>\<rparr>"

definition demo_small_registered :: scheduler where
  "demo_small_registered = demo_submitted\<lparr>sc_workers := [([119], demo_registration\<lparr>rg_profile := demo_small\<rparr>)]\<rparr>"

lemma demo_small_run:
  "scheduler_run demo_tokens demo_scheduler (demo_ops @ [RegisterWorker demo_small [120] 0]) = demo_small_registered"
proof -
  have "worker_profile_init demo_small = Inr demo_small"
    "worker_capacity_init (wp_capacity demo_small) = Inr (wp_capacity demo_small)"
    by code_simp+
  moreover have "register_worker demo_submitted demo_small [120] 0
      = Inr (demo_small_registered, demo_registration\<lparr>rg_profile := demo_small\<rparr>)"
    by (simp add: register_worker_def check_text_def is_blank_def is_py_space_def check_nonnegative_def
        demo_utf8 demo_submitted_def demo_scheduler_def worker_registration_init_def
        check_digest_hexdigest demo_small_registered_def demo_registration_def)
      (simp add: demo_worker_def demo_small_def Let_def)
  ultimately show ?thesis
    using demo_run by (simp add: scheduler_run_def after_def)
qed

lemma demo_small_schedule: "schedule demo_tokens demo_small_registered 0 = (demo_small_registered, Inr [])"
proof -
  have reap: "reap_expired demo_small_registered 0 = demo_small_registered"
    by (simp add: reap_expired_def demo_submitted_def demo_small_registered_def demo_scheduler_def
        reap_entry_def new_entry_def)
  have q: "queued_keys demo_small_registered = [demo_key]" "sorted_profiles demo_small_registered = [demo_small]"
    by (simp_all add: queued_keys_def demo_submitted_def demo_small_registered_def demo_scheduler_def
        new_entry_def sorted_profiles_def demo_registration_def)
  have "\<not> worker_available demo_small_registered demo_small demo_task"
    by (simp add: worker_available_def demo_small_def demo_task_def)
  then show ?thesis
    by (simp add: schedule_def check_nonnegative_def reap q)
      (simp add: demo_small_registered_def demo_submitted_def demo_scheduler_def new_entry_def demo_fields
        get0_def)
qed

theorem schedule_work_conserving_witness:
  "sc_workers demo_small_registered = [([119], demo_registration\<lparr>rg_profile := demo_small\<rparr>)]
    \<and> \<not> worker_available demo_small_registered demo_small demo_task"
proof -
  have e: "map_of (sc_tasks demo_small_registered) demo_key = Some (new_entry demo_task)"
    "te_state (new_entry demo_task) = QUEUED" "te_task (new_entry demo_task) = demo_task"
    by (simp_all add: demo_small_registered_def demo_submitted_def new_entry_def)
  from schedule_work_conserving [OF demo_init demo_small_run [symmetric] demo_small_schedule e(1,2)]
  show ?thesis
    by (auto simp: e(3) demo_small_registered_def demo_submitted_def demo_scheduler_def demo_fields get0_def)
qed

text \<open>
  Registration itself does not protect running work: a worker that holds a lease may register again
  with a smaller profile, after which its running tasks exceed the capacity it advertises.
\<close>
theorem reregistration_overcommits:
  "\<exists>ops w g. (w, g) \<in> set (sc_workers (scheduler_run demo_tokens demo_scheduler ops))
     \<and> \<not> fits (scheduler_run demo_tokens demo_scheduler ops) (rg_profile g)"
proof -
  let ?s = "demo_scheduled\<lparr>sc_workers := [([119], demo_registration\<lparr>rg_profile := demo_small\<rparr>)]\<rparr>"
  have "worker_profile_init demo_small = Inr demo_small"
    "worker_capacity_init (wp_capacity demo_small) = Inr (wp_capacity demo_small)"
    by code_simp+
  moreover have "register_worker demo_scheduled demo_small [120] 0
      = Inr (?s, demo_registration\<lparr>rg_profile := demo_small\<rparr>)"
    by (simp add: register_worker_def check_text_def is_blank_def is_py_space_def check_nonnegative_def
        demo_utf8 demo_scheduled_def demo_registered_def demo_submitted_def demo_scheduler_def
        worker_registration_init_def check_digest_hexdigest demo_registration_def)
      (simp add: demo_worker_def demo_small_def Let_def)
  ultimately have run: "scheduler_run demo_tokens demo_scheduler (demo_ops2 @ [RegisterWorker demo_small [120] 0]) = ?s"
    using demo_run2 by (simp add: scheduler_run_def after_def)
  have "\<not> fits ?s demo_small"
    by (simp add: fits_def active_entries_def demo_scheduled_def is_active_def demo_assignment_def
        demo_small_def demo_worker_def RESOURCE_FIELDS_def new_entry_def demo_task_def)
  then show ?thesis
    unfolding run [symmetric]
    by (intro exI [of _ "demo_ops2 @ [RegisterWorker demo_small [120] 0]"] exI [of _ "[119]"]
        exI [of _ "demo_registration\<lparr>rg_profile := demo_small\<rparr>"]) (simp add: run)
qed

end
