(* ===== verification/SearchLifecycle.thy ===== *)
theory SearchLifecycle
  imports PyNumerals "HOL-Library.List_Lexorder" "HOL-Library.Multiset"
begin

text \<open>
  \<open>search/lifecycle.py\<close>, first half: the candidates of an architecture search, the budget that pays for
  their evaluations, the immutable snapshot that holds both, and the transitions of
  \<open>ArchitectureSearchLifecycle\<close>, each of which returns a new snapshot or raises. Every constructor call
  of the source, also those inside \<open>dataclasses.replace\<close>, runs its checks here. The lemmas give the
  invariants of every run that starts with \<open>create\<close>.
\<close>

section \<open>Records\<close>

text \<open>\<open>ArchitectureLifecycleError\<close>, and the plain \<open>ValueError\<close> of an unknown enum value.\<close>

datatype lifecycle_error = Lifecycle string | LifecycleValue

datatype lifecycle_stage = PREDICTED | RESERVED | MATERIALIZED | EVALUATED | ACCEPTED | REJECTED | FAILED

fun stage_value :: "lifecycle_stage \<Rightarrow> pystr" where
  "stage_value PREDICTED = lit ''predicted''"
| "stage_value RESERVED = lit ''reserved''"
| "stage_value MATERIALIZED = lit ''materialized''"
| "stage_value EVALUATED = lit ''evaluated''"
| "stage_value ACCEPTED = lit ''accepted''"
| "stage_value REJECTED = lit ''rejected''"
| "stage_value FAILED = lit ''failed''"

datatype evaluation_status = MEASURED | UNSUPPORTED | UNKNOWN | EVALUATION_FAILED

fun status_value :: "evaluation_status \<Rightarrow> pystr" where
  "status_value MEASURED = lit ''measured''"
| "status_value UNSUPPORTED = lit ''unsupported''"
| "status_value UNKNOWN = lit ''unknown''"
| "status_value EVALUATION_FAILED = lit ''failed''"

definition ARCHITECTURE_LIFECYCLE_SCHEMA_VERSION :: int where
  "ARCHITECTURE_LIFECYCLE_SCHEMA_VERSION = 1"

text \<open>\<open>value.startswith(p)\<close>.\<close>

definition starts_with :: "string \<Rightarrow> pystr \<Rightarrow> bool" where
  "starts_with p v \<longleftrightarrow> take (length p) v = lit p"

text \<open>\<open>_text\<close>.\<close>

definition lifecycle_text :: "pystr \<Rightarrow> lifecycle_error + pystr" where
  "lifecycle_text v = rbind (raise_if (is_blank v) (Lifecycle ''is required'')) (\<lambda>_. Inr v)"

text \<open>\<open>values == tuple(sorted(set(values)))\<close>.\<close>

definition canonical_ids :: "pystr list \<Rightarrow> bool" where
  "canonical_ids vs \<longleftrightarrow> vs = sort (remdups vs)"

record lifecycle_evidence =
  le_evaluation :: pystr
  le_status :: evaluation_status
  le_passed :: bool
  le_reason :: pystr
  le_cursor :: int

definition evidence_init :: "lifecycle_evidence \<Rightarrow> lifecycle_error + lifecycle_evidence" where
  "evidence_init e =
     rbind (raise_if (\<not> starts_with ''evaluation_'' (le_evaluation e))
              (Lifecycle ''evidence requires a canonical evaluation ID'')) (\<lambda>_.
     rbind (lifecycle_text (le_reason e)) (\<lambda>_.
     rbind (raise_if (le_cursor e < 0) (Lifecycle ''evidence arrival cursor cannot be negative'')) (\<lambda>_.
     rbind (raise_if (le_status e \<noteq> MEASURED \<and> le_passed e)
              (Lifecycle ''unsupported, unknown, and failed evidence cannot pass'')) (\<lambda>_.
     Inr e))))"

record lifecycle_candidate =
  lc_id :: pystr
  lc_architecture :: pystr
  lc_equivalence :: pystr
  lc_state :: pystr
  lc_parent :: pystr
  lc_predicted_only :: bool
  lc_stage :: lifecycle_stage
  lc_evidence :: "lifecycle_evidence option"

text \<open>\<open>evidence is not None and evidence.status is MEASURED and evidence.passed\<close>.\<close>

definition passing :: "lifecycle_evidence option \<Rightarrow> bool" where
  "passing e \<longleftrightarrow> (case e of None \<Rightarrow> False | Some v \<Rightarrow> le_status v = MEASURED \<and> le_passed v)"

definition candidate_init :: "lifecycle_candidate \<Rightarrow> lifecycle_error + lifecycle_candidate" where
  "candidate_init c =
     rbind (raise_if (\<not> starts_with ''architecture_candidate_'' (lc_id c))
              (Lifecycle ''lifecycle candidates require architecture candidate IDs'')) (\<lambda>_.
     rbind (raise_if (\<not> starts_with ''architecture_'' (lc_architecture c))
              (Lifecycle ''architecture identities must be canonical'')) (\<lambda>_.
     rbind (raise_if (\<not> starts_with ''equivalence_'' (lc_equivalence c))
              (Lifecycle ''equivalence identities must be canonical'')) (\<lambda>_.
     rbind (raise_if (\<not> starts_with ''state_'' (lc_state c))
              (Lifecycle ''lifecycle candidates require state IDs'')) (\<lambda>_.
     rbind (raise_if (\<not> starts_with ''checkpoint_'' (lc_parent c))
              (Lifecycle ''lifecycle candidates require accepted parents'')) (\<lambda>_.
     rbind (raise_if (lc_stage c = ACCEPTED \<and> lc_predicted_only c)
              (Lifecycle ''predicted-only candidates cannot be accepted'')) (\<lambda>_.
     rbind (raise_if (lc_stage c = ACCEPTED \<and> \<not> passing (lc_evidence c))
              (Lifecycle ''accepted candidates require passing measured evidence'')) (\<lambda>_.
     Inr c)))))))"

record lifecycle_budget =
  lb_limit :: int
  lb_reserved :: int
  lb_architectures :: "pystr list"
  lb_equivalences :: "pystr list"
  lb_disk :: int

definition charged_canonical :: "string \<Rightarrow> pystr list \<Rightarrow> bool" where
  "charged_canonical p vs \<longleftrightarrow> canonical_ids vs \<and> list_all (starts_with p) vs"

definition budget_init :: "lifecycle_budget \<Rightarrow> lifecycle_error + lifecycle_budget" where
  "budget_init b =
     rbind (raise_if (lb_limit b \<le> 0) (Lifecycle ''lifecycle evaluation limit must be positive'')) (\<lambda>_.
     rbind (raise_if (\<not> (0 \<le> lb_reserved b \<and> lb_reserved b \<le> lb_limit b))
              (Lifecycle ''lifecycle reservation count exceeds budget'')) (\<lambda>_.
     rbind (raise_if (\<not> charged_canonical ''architecture_'' (lb_architectures b))
              (Lifecycle ''charged architecture identities must be canonical'')) (\<lambda>_.
     rbind (raise_if (\<not> charged_canonical ''equivalence_'' (lb_equivalences b))
              (Lifecycle ''charged equivalence identities must be canonical'')) (\<lambda>_.
     rbind (raise_if (int (length (lb_architectures b)) \<noteq> lb_reserved b)
              (Lifecycle ''budget reservations and charged architectures disagree'')) (\<lambda>_.
     rbind (raise_if (lb_disk b < 0) (Lifecycle ''lifecycle disk usage cannot be negative'')) (\<lambda>_.
     Inr b))))))"

record search_snapshot =
  ss_search :: pystr
  ss_generation :: int
  ss_candidates :: "lifecycle_candidate list"
  ss_frontier :: "pystr list"
  ss_lineage :: "pystr list"
  ss_budget :: lifecycle_budget
  ss_decision :: int
  ss_evidence :: int
  ss_version :: int

text \<open>\<open>_candidate\<close>: the first candidate with the identity.\<close>

definition find_candidate :: "search_snapshot \<Rightarrow> pystr \<Rightarrow> lifecycle_error + lifecycle_candidate" where
  "find_candidate s i =
     of_option (Lifecycle ''candidate is not in this search'') (find (\<lambda>c. lc_id c = i) (ss_candidates s))"

definition snapshot_init :: "search_snapshot \<Rightarrow> lifecycle_error + search_snapshot" where
  "snapshot_init s =
     (let ids = map lc_id (ss_candidates s) in
      rbind (raise_if (\<not> starts_with ''search_'' (ss_search s) \<or> ss_generation s < 0)
               (Lifecycle ''search identity or generation is invalid'')) (\<lambda>_.
      rbind (raise_if (ss_version s \<noteq> ARCHITECTURE_LIFECYCLE_SCHEMA_VERSION)
               (Lifecycle ''unsupported architecture lifecycle schema'')) (\<lambda>_.
      rbind (raise_if (\<not> canonical_ids ids)
               (Lifecycle ''lifecycle candidates must be unique and canonical'')) (\<lambda>_.
      rbind (raise_if (\<not> canonical_ids (ss_frontier s))
               (Lifecycle ''frontier candidate IDs must be unique and canonical'')) (\<lambda>_.
      rbind (raise_if (\<not> list_all (\<lambda>i. i \<in> set ids) (ss_frontier s))
               (Lifecycle ''frontier references an unknown candidate'')) (\<lambda>_.
      rbind (raise_if (\<not> list_all (\<lambda>i. case find_candidate s i of Inr c \<Rightarrow> lc_stage c = ACCEPTED | Inl _ \<Rightarrow> False)
                 (ss_frontier s))
               (Lifecycle ''frontier can contain accepted candidates only'')) (\<lambda>_.
      rbind (raise_if (\<not> canonical_ids (ss_lineage s))
               (Lifecycle ''lineage checkpoint IDs must be unique and canonical'')) (\<lambda>_.
      rbind (raise_if (ss_lineage s = [] \<or> \<not> list_all (starts_with ''checkpoint_'') (ss_lineage s))
               (Lifecycle ''lifecycle requires accepted checkpoint lineage'')) (\<lambda>_.
      rbind (raise_if (\<not> list_all (\<lambda>c. lc_parent c \<in> set (ss_lineage s)) (ss_candidates s))
               (Lifecycle ''candidate parent is outside accepted lineage'')) (\<lambda>_.
      rbind (raise_if (ss_decision s < 0 \<or> ss_evidence s < 0)
               (Lifecycle ''lifecycle cursors cannot be negative'')) (\<lambda>_.
      Inr s)))))))))))"

section \<open>Transitions\<close>

definition lifecycle_create ::
  "pystr \<Rightarrow> lifecycle_candidate list \<Rightarrow> pystr \<Rightarrow> int \<Rightarrow> lifecycle_error + search_snapshot" where
  "lifecycle_create search candidates root limit =
     rbind (budget_init \<lparr>lb_limit = limit, lb_reserved = 0, lb_architectures = [], lb_equivalences = [],
              lb_disk = 0\<rparr>) (\<lambda>b.
     snapshot_init \<lparr>ss_search = search, ss_generation = 0, ss_candidates = sort_key lc_id candidates,
       ss_frontier = [], ss_lineage = [root], ss_budget = b, ss_decision = 0, ss_evidence = 0,
       ss_version = ARCHITECTURE_LIFECYCLE_SCHEMA_VERSION\<rparr>)"

text \<open>The candidates are rebuilt, and so checked, before the identity is looked for.\<close>

definition replace_candidate ::
  "search_snapshot \<Rightarrow> pystr \<Rightarrow> lifecycle_stage \<Rightarrow> lifecycle_evidence option \<Rightarrow> lifecycle_error + search_snapshot" where
  "replace_candidate s i stage evidence =
     rbind (mapM_r (\<lambda>c. if lc_id c = i
              then candidate_init (c\<lparr>lc_stage := stage,
                     lc_evidence := (if evidence = None then lc_evidence c else evidence)\<rparr>)
              else Inr c) (ss_candidates s)) (\<lambda>candidates.
     rbind (raise_if (list_all (\<lambda>c. lc_id c \<noteq> i) (ss_candidates s))
              (Lifecycle ''candidate is not in this search'')) (\<lambda>_.
     snapshot_init (s\<lparr>ss_generation := ss_generation s + 1, ss_candidates := candidates\<rparr>)))"

text \<open>A negative cursor cannot occur, and \<open>candidates[n:]\<close> beyond the end is empty, as \<open>drop\<close> is.\<close>

definition next_decision_ids :: "search_snapshot \<Rightarrow> int \<Rightarrow> lifecycle_error + pystr list" where
  "next_decision_ids s limit =
     rbind (raise_if (limit \<le> 0) (Lifecycle ''decision batch limit must be positive'')) (\<lambda>_.
     Inr (take (nat limit)
            (map lc_id (filter (\<lambda>c. lc_stage c = PREDICTED) (drop (nat (ss_decision s)) (ss_candidates s))))))"

text \<open>\<open>candidates[candidates.index(old)] = new\<close>.\<close>

fun replace_first :: "'a \<Rightarrow> 'a \<Rightarrow> 'a list \<Rightarrow> 'a list" where
  "replace_first old new [] = []"
| "replace_first old new (x # xs) = (if x = old then new # xs else x # replace_first old new xs)"

text \<open>One round of the loop of \<open>reserve\<close>.\<close>

definition reserve_one ::
  "lifecycle_budget \<times> lifecycle_candidate list \<Rightarrow> pystr \<Rightarrow> lifecycle_error + lifecycle_budget \<times> lifecycle_candidate list" where
  "reserve_one bc i =
     (let (b, cs) = bc in
      rbind (of_option (Lifecycle ''candidate is not in this search'') (find (\<lambda>c. lc_id c = i) cs)) (\<lambda>c.
      rbind (raise_if (lc_stage c \<noteq> PREDICTED) (Lifecycle ''only predicted candidates can be reserved'')) (\<lambda>_.
      rbind (raise_if (lc_architecture c \<in> set (lb_architectures b))
               (Lifecycle ''duplicate architecture cannot be charged twice'')) (\<lambda>_.
      rbind (raise_if (lc_equivalence c \<in> set (lb_equivalences b))
               (Lifecycle ''equivalent path cannot be charged twice'')) (\<lambda>_.
      rbind (raise_if (lb_limit b \<le> lb_reserved b)
               (Lifecycle ''architecture search evaluation budget is exhausted'')) (\<lambda>_.
      rbind (budget_init (b\<lparr>lb_reserved := lb_reserved b + 1,
               lb_architectures := sort (lb_architectures b @ [lc_architecture c]),
               lb_equivalences := sort (lb_equivalences b @ [lc_equivalence c])\<rparr>)) (\<lambda>b'.
      rbind (candidate_init (c\<lparr>lc_stage := RESERVED\<rparr>)) (\<lambda>c'.
      Inr (b', replace_first c c' cs)))))))))"

definition reserve :: "search_snapshot \<Rightarrow> pystr list \<Rightarrow> lifecycle_error + search_snapshot" where
  "reserve s ids =
     rbind (raise_if (\<not> canonical_ids ids) (Lifecycle ''reservation IDs must be unique and canonical'')) (\<lambda>_.
     rbind (foldM_r reserve_one (ss_budget s, ss_candidates s) ids) (\<lambda>(b, cs).
     snapshot_init (s\<lparr>ss_generation := ss_generation s + 1, ss_candidates := cs, ss_budget := b,
       ss_decision := ss_decision s + int (length ids)\<rparr>)))"

definition materialize :: "search_snapshot \<Rightarrow> pystr \<Rightarrow> lifecycle_error + search_snapshot" where
  "materialize s i =
     rbind (find_candidate s i) (\<lambda>c.
     rbind (raise_if (lc_stage c \<noteq> RESERVED) (Lifecycle ''only reserved candidates can materialize'')) (\<lambda>_.
     replace_candidate s i MATERIALIZED None))"

definition evaluate_candidate :: "search_snapshot \<Rightarrow> pystr \<Rightarrow> lifecycle_evidence \<Rightarrow> lifecycle_error + search_snapshot" where
  "evaluate_candidate s i e =
     rbind (find_candidate s i) (\<lambda>c.
     rbind (raise_if (lc_stage c \<noteq> MATERIALIZED) (Lifecycle ''only materialized candidates can be evaluated'')) (\<lambda>_.
     replace_candidate s i EVALUATED (Some e)))"

definition accept_candidate :: "search_snapshot \<Rightarrow> pystr \<Rightarrow> pystr \<Rightarrow> lifecycle_error + search_snapshot" where
  "accept_candidate s i checkpoint =
     rbind (find_candidate s i) (\<lambda>c.
     rbind (raise_if (lc_stage c \<noteq> EVALUATED \<or> lc_evidence c = None)
              (Lifecycle ''only evaluated candidates can be accepted'')) (\<lambda>_.
     rbind (raise_if (lc_predicted_only c) (Lifecycle ''predicted-only state cannot become accepted'')) (\<lambda>_.
     rbind (raise_if (\<not> passing (lc_evidence c)) (Lifecycle ''only passing measured evidence can be accepted'')) (\<lambda>_.
     rbind (raise_if (\<not> starts_with ''checkpoint_'' checkpoint)
              (Lifecycle ''accepted checkpoints must be canonical'')) (\<lambda>_.
     rbind (replace_candidate s i ACCEPTED None) (\<lambda>s'.
     snapshot_init (s'\<lparr>ss_frontier := sort (ss_frontier s @ [i]),
       ss_lineage := sort (ss_lineage s @ [checkpoint])\<rparr>)))))))"

definition reject_candidate :: "search_snapshot \<Rightarrow> pystr \<Rightarrow> lifecycle_error + search_snapshot" where
  "reject_candidate s i =
     rbind (find_candidate s i) (\<lambda>c.
     rbind (raise_if (lc_stage c \<noteq> EVALUATED) (Lifecycle ''only evaluated candidates can be rejected'')) (\<lambda>_.
     replace_candidate s i REJECTED None))"

definition fail_candidate :: "search_snapshot \<Rightarrow> pystr \<Rightarrow> pystr \<Rightarrow> lifecycle_error + search_snapshot" where
  "fail_candidate s i reason =
     rbind (find_candidate s i) (\<lambda>c.
     rbind (raise_if (lc_stage c \<notin> {RESERVED, MATERIALIZED, EVALUATED})
              (Lifecycle ''candidate stage cannot be marked failed'')) (\<lambda>_.
     rbind (lifecycle_text reason) (\<lambda>_.
     rbind (case lc_evidence c of
              Some e \<Rightarrow> Inr e
            | None \<Rightarrow> evidence_init \<lparr>le_evaluation = lit ''evaluation_failure'', le_status = EVALUATION_FAILED,
                le_passed = False, le_reason = reason, le_cursor = ss_evidence s\<rparr>) (\<lambda>e.
     replace_candidate s i FAILED (Some e)))))"

definition advance_evidence_cursor :: "search_snapshot \<Rightarrow> int \<Rightarrow> lifecycle_error + search_snapshot" where
  "advance_evidence_cursor s cursor =
     rbind (raise_if (cursor < ss_evidence s) (Lifecycle ''evidence cursor cannot move backwards'')) (\<lambda>_.
     snapshot_init (s\<lparr>ss_generation := ss_generation s + 1, ss_evidence := cursor\<rparr>))"

section \<open>Runs\<close>

text \<open>
  What the code around a lifecycle may call, in any order. Evidence is a constructed value, so its own
  checks come first. A call that raises leaves the lifecycle, which is immutable, as it was.
\<close>

datatype lifecycle_op =
    Reserve "pystr list"
  | Materialize pystr
  | Evaluate pystr lifecycle_evidence
  | Accept pystr pystr
  | Reject pystr
  | Fail pystr pystr
  | Advance int

fun lifecycle_step :: "search_snapshot \<Rightarrow> lifecycle_op \<Rightarrow> lifecycle_error + search_snapshot" where
  "lifecycle_step s (Reserve ids) = reserve s ids"
| "lifecycle_step s (Materialize i) = materialize s i"
| "lifecycle_step s (Evaluate i e) = rbind (evidence_init e) (\<lambda>e. evaluate_candidate s i e)"
| "lifecycle_step s (Accept i c) = accept_candidate s i c"
| "lifecycle_step s (Reject i) = reject_candidate s i"
| "lifecycle_step s (Fail i r) = fail_candidate s i r"
| "lifecycle_step s (Advance n) = advance_evidence_cursor s n"

definition lifecycle_try :: "search_snapshot \<Rightarrow> lifecycle_op \<Rightarrow> search_snapshot" where
  "lifecycle_try s op = (case lifecycle_step s op of Inr s' \<Rightarrow> s' | Inl _ \<Rightarrow> s)"

definition lifecycle_run :: "search_snapshot \<Rightarrow> lifecycle_op list \<Rightarrow> search_snapshot" where
  "lifecycle_run = foldl lifecycle_try"

section \<open>What the constructors promise\<close>

lemma canonical_ids_iff: "canonical_ids vs \<longleftrightarrow> sorted vs \<and> distinct vs"
proof
  assume "canonical_ids vs"
  then have "vs = sort (remdups vs)" by (simp add: canonical_ids_def)
  then show "sorted vs \<and> distinct vs" by (metis distinct_remdups distinct_sort sorted_sort)
qed (simp add: canonical_ids_def sorted_sort_id distinct_remdups_id)

definition budget_ok :: "lifecycle_budget \<Rightarrow> bool" where
  "budget_ok b \<longleftrightarrow> 0 < lb_limit b \<and> 0 \<le> lb_reserved b \<and> lb_reserved b \<le> lb_limit b
     \<and> charged_canonical ''architecture_'' (lb_architectures b)
     \<and> charged_canonical ''equivalence_'' (lb_equivalences b)
     \<and> int (length (lb_architectures b)) = lb_reserved b \<and> 0 \<le> lb_disk b"

lemma budget_init_iff: "budget_init b = Inr b' \<longleftrightarrow> b' = b \<and> budget_ok b"
  by (auto simp: budget_init_def budget_ok_def rbind_raise_if)

definition candidate_ok :: "lifecycle_candidate \<Rightarrow> bool" where
  "candidate_ok c \<longleftrightarrow> starts_with ''architecture_candidate_'' (lc_id c)
     \<and> starts_with ''architecture_'' (lc_architecture c) \<and> starts_with ''equivalence_'' (lc_equivalence c)
     \<and> starts_with ''state_'' (lc_state c) \<and> starts_with ''checkpoint_'' (lc_parent c)
     \<and> (lc_stage c = ACCEPTED \<longrightarrow> \<not> lc_predicted_only c \<and> passing (lc_evidence c))"

lemma candidate_init_iff: "candidate_init c = Inr c' \<longleftrightarrow> c' = c \<and> candidate_ok c"
  by (auto simp: candidate_init_def candidate_ok_def rbind_raise_if)

definition snapshot_ok :: "search_snapshot \<Rightarrow> bool" where
  "snapshot_ok s \<longleftrightarrow> starts_with ''search_'' (ss_search s) \<and> 0 \<le> ss_generation s
     \<and> ss_version s = ARCHITECTURE_LIFECYCLE_SCHEMA_VERSION
     \<and> canonical_ids (map lc_id (ss_candidates s)) \<and> canonical_ids (ss_frontier s)
     \<and> set (ss_frontier s) \<subseteq> lc_id ` {c \<in> set (ss_candidates s). lc_stage c = ACCEPTED}
     \<and> canonical_ids (ss_lineage s) \<and> ss_lineage s \<noteq> []
     \<and> list_all (starts_with ''checkpoint_'') (ss_lineage s)
     \<and> lc_parent ` set (ss_candidates s) \<subseteq> set (ss_lineage s)
     \<and> 0 \<le> ss_decision s \<and> 0 \<le> ss_evidence s"

lemma find_unique:
  assumes "distinct (map f cs)" and "c \<in> set cs"
  shows "find (\<lambda>d. f d = f c) cs = Some c"
  using assms
proof (induction cs)
  case (Cons x cs)
  then show ?case by (cases "x = c") (auto simp: rev_image_eqI)
qed simp

lemma find_candidate_iff:
  assumes "distinct (map lc_id (ss_candidates s))"
  shows "find_candidate s i = Inr c \<longleftrightarrow> c \<in> set (ss_candidates s) \<and> lc_id c = i"
proof
  assume "find_candidate s i = Inr c"
  then show "c \<in> set (ss_candidates s) \<and> lc_id c = i"
    by (auto simp: find_candidate_def find_Some_iff)
next
  assume "c \<in> set (ss_candidates s) \<and> lc_id c = i"
  then show "find_candidate s i = Inr c"
    using find_unique [OF assms, of c] by (auto simp: find_candidate_def)
qed

lemma frontier_check:
  assumes "distinct (map lc_id (ss_candidates s))"
  shows "(case find_candidate s i of Inr c \<Rightarrow> lc_stage c = ACCEPTED | Inl _ \<Rightarrow> False)
    \<longleftrightarrow> i \<in> lc_id ` {c \<in> set (ss_candidates s). lc_stage c = ACCEPTED}"
proof (cases "find_candidate s i")
  case (Inl e)
  then have "find_candidate s i \<noteq> Inr c" for c by simp
  then show ?thesis using find_candidate_iff [OF assms, of i] by (auto simp: Inl)
next
  case (Inr c)
  then have c: "d \<in> set (ss_candidates s) \<and> lc_id d = i \<longleftrightarrow> d = c" for d
    using find_candidate_iff [OF assms, of i d] by auto
  have "i \<in> lc_id ` {c \<in> set (ss_candidates s). lc_stage c = ACCEPTED}
      \<longleftrightarrow> (\<exists>d. (d \<in> set (ss_candidates s) \<and> lc_id d = i) \<and> lc_stage d = ACCEPTED)" by (auto simp: image_iff)
  also have "\<dots> \<longleftrightarrow> lc_stage c = ACCEPTED" unfolding c by simp
  finally have "i \<in> lc_id ` {c \<in> set (ss_candidates s). lc_stage c = ACCEPTED} \<longleftrightarrow> lc_stage c = ACCEPTED" .
  then show ?thesis by (simp add: Inr)
qed

lemma snapshot_init_iff: "snapshot_init s = Inr s' \<longleftrightarrow> s' = s \<and> snapshot_ok s"
proof (cases "canonical_ids (map lc_id (ss_candidates s))")
  case True
  then have dist: "distinct (map lc_id (ss_candidates s))" by (simp add: canonical_ids_iff)
  have parents: "list_all (\<lambda>c. lc_parent c \<in> set (ss_lineage s)) (ss_candidates s)
      \<longleftrightarrow> lc_parent ` set (ss_candidates s) \<subseteq> set (ss_lineage s)" by (auto simp: list_all_iff)
  have frontier: "list_all (\<lambda>i. i \<in> set (map lc_id (ss_candidates s))) (ss_frontier s)
      \<and> list_all (\<lambda>i. case find_candidate s i of Inr c \<Rightarrow> lc_stage c = ACCEPTED | Inl _ \<Rightarrow> False) (ss_frontier s)
      \<longleftrightarrow> set (ss_frontier s) \<subseteq> lc_id ` {c \<in> set (ss_candidates s). lc_stage c = ACCEPTED}"
    unfolding frontier_check [OF dist] by (auto simp: list_all_iff)
  have "snapshot_init s = Inr s' \<longleftrightarrow> starts_with ''search_'' (ss_search s) \<and> 0 \<le> ss_generation s
     \<and> ss_version s = ARCHITECTURE_LIFECYCLE_SCHEMA_VERSION
     \<and> canonical_ids (map lc_id (ss_candidates s)) \<and> canonical_ids (ss_frontier s)
     \<and> (list_all (\<lambda>i. i \<in> set (map lc_id (ss_candidates s))) (ss_frontier s)
      \<and> list_all (\<lambda>i. case find_candidate s i of Inr c \<Rightarrow> lc_stage c = ACCEPTED | Inl _ \<Rightarrow> False) (ss_frontier s))
     \<and> canonical_ids (ss_lineage s) \<and> ss_lineage s \<noteq> []
     \<and> list_all (starts_with ''checkpoint_'') (ss_lineage s)
     \<and> list_all (\<lambda>c. lc_parent c \<in> set (ss_lineage s)) (ss_candidates s)
     \<and> 0 \<le> ss_decision s \<and> 0 \<le> ss_evidence s \<and> s' = s"
    by (simp add: snapshot_init_def Let_def guard_Inr not_less eq_commute [of s s'])
  then show ?thesis unfolding frontier parents snapshot_ok_def by blast
next
  case False
  then show ?thesis by (auto simp: snapshot_init_def snapshot_ok_def Let_def rbind_raise_if)
qed

lemma snapshot_ids: "snapshot_ok s \<Longrightarrow> distinct (map lc_id (ss_candidates s))"
  by (simp add: snapshot_ok_def canonical_ids_iff)

section \<open>What a transition changes\<close>

text \<open>One candidate is exchanged, everything around it stays.\<close>

definition swapped :: "lifecycle_candidate \<Rightarrow> lifecycle_candidate \<Rightarrow> lifecycle_candidate list \<Rightarrow> lifecycle_candidate list \<Rightarrow> bool" where
  "swapped c c' cs cs' \<longleftrightarrow> (\<exists>xs ys. cs = xs @ c # ys \<and> cs' = xs @ c' # ys)"

lemma swappedE:
  assumes "swapped c c' cs cs'"
  obtains xs ys where "cs = xs @ c # ys" and "cs' = xs @ c' # ys"
  using assms by (auto simp: swapped_def)

lemma mapM_r_skip: "(\<And>x. x \<in> set xs \<Longrightarrow> f x = Inr x) \<Longrightarrow> mapM_r f xs = Inr xs"
  by (induction xs) simp_all

lemma replace_candidate_swaps:
  assumes "replace_candidate s i stage e = Inr s'" and "snapshot_ok s" and "find_candidate s i = Inr c"
    and "c' = c\<lparr>lc_stage := stage, lc_evidence := (if e = None then lc_evidence c else e)\<rparr>"
  shows "swapped c c' (ss_candidates s) (ss_candidates s') \<and> candidate_ok c' \<and> snapshot_ok s'
    \<and> s' = s\<lparr>ss_generation := ss_generation s + 1, ss_candidates := ss_candidates s'\<rparr>"
proof -
  let ?f = "\<lambda>d. if lc_id d = i then candidate_init (d\<lparr>lc_stage := stage,
    lc_evidence := (if e = None then lc_evidence d else e)\<rparr>) else Inr d"
  note dist = snapshot_ids [OF assms(2)]
  have c: "c \<in> set (ss_candidates s)" "lc_id c = i" using assms(3) find_candidate_iff [OF dist] by auto
  then obtain xs ys where split: "ss_candidates s = xs @ c # ys" by (auto simp: in_set_conv_decomp)
  from assms(1) obtain cs where cs: "mapM_r ?f (ss_candidates s) = Inr cs"
    and s': "s' = s\<lparr>ss_generation := ss_generation s + 1, ss_candidates := cs\<rparr>" "snapshot_ok s'"
    by (auto simp: replace_candidate_def guard_Inr snapshot_init_iff)
  have others: "?f d = Inr d" if "d \<in> set xs \<union> set ys" for d
    using that dist c(2) by (auto simp: split image_iff)
  from cs obtain us c2 vs where parts: "cs = us @ c2 # vs" "mapM_r ?f xs = Inr us" "?f c = Inr c2" "mapM_r ?f ys = Inr vs"
    unfolding split mapM_r_Inr_iff list_all2_append1 list_all2_Cons1 by blast
  have "us = xs" "vs = ys" using parts(2,4) mapM_r_skip [of xs ?f] mapM_r_skip [of ys ?f] others by simp_all
  moreover have "c2 = c'" "candidate_ok c'"
    using parts(3) c(2) assms(4) by (simp_all add: candidate_init_iff)
  ultimately show ?thesis using s' split parts(1) by (auto simp: swapped_def)
qed

text \<open>The stages a candidate can go through.\<close>

inductive stage_step :: "lifecycle_stage \<Rightarrow> lifecycle_stage \<Rightarrow> bool" where
  reserved: "stage_step PREDICTED RESERVED"
| materialized: "stage_step RESERVED MATERIALIZED"
| evaluated: "stage_step MATERIALIZED EVALUATED"
| accepted: "stage_step EVALUATED ACCEPTED"
| rejected: "stage_step EVALUATED REJECTED"
| failed: "st \<in> {RESERVED, MATERIALIZED, EVALUATED} \<Longrightarrow> stage_step st FAILED"

code_pred stage_step .

inductive_simps stage_step_simps [simp]:
  "stage_step PREDICTED st" "stage_step RESERVED st" "stage_step MATERIALIZED st" "stage_step EVALUATED st"
  "stage_step ACCEPTED st" "stage_step REJECTED st" "stage_step FAILED st"

definition identity_of :: "lifecycle_candidate \<Rightarrow> pystr \<times> pystr \<times> pystr \<times> pystr \<times> pystr \<times> bool" where
  "identity_of c = (lc_id c, lc_architecture c, lc_equivalence c, lc_state c, lc_parent c, lc_predicted_only c)"

text \<open>A single move of a candidate, with the evidence it has when it is evaluated or later.\<close>

definition candidate_move :: "lifecycle_candidate \<Rightarrow> lifecycle_candidate \<Rightarrow> bool" where
  "candidate_move c c' \<longleftrightarrow> identity_of c' = identity_of c \<and> stage_step (lc_stage c) (lc_stage c')
     \<and> candidate_ok c' \<and> (lc_stage c = EVALUATED \<and> lc_evidence c \<noteq> None \<longrightarrow> lc_evidence c' = lc_evidence c)"

text \<open>\<open>single s s'\<close>: one candidate moved and the budget, the lineage and the frontier stayed.\<close>

definition single :: "search_snapshot \<Rightarrow> search_snapshot \<Rightarrow> lifecycle_candidate \<Rightarrow> lifecycle_candidate \<Rightarrow> bool" where
  "single s s' c c' \<longleftrightarrow> swapped c c' (ss_candidates s) (ss_candidates s') \<and> candidate_move c c'
     \<and> snapshot_ok s' \<and> s' = s\<lparr>ss_generation := ss_generation s + 1, ss_candidates := ss_candidates s'\<rparr>"

lemma replace_candidate_single:
  assumes "replace_candidate s i stage e = Inr s'" and "snapshot_ok s" and "find_candidate s i = Inr c"
    and "stage_step (lc_stage c) stage"
    and "lc_stage c = EVALUATED \<Longrightarrow> lc_evidence c \<noteq> None \<Longrightarrow> e = None \<or> e = lc_evidence c"
  shows "single s s' c (c\<lparr>lc_stage := stage, lc_evidence := (if e = None then lc_evidence c else e)\<rparr>)"
  using replace_candidate_swaps [OF assms(1-3) refl] assms(4,5)
  by (auto simp: single_def candidate_move_def identity_of_def)

lemma materialize_single:
  assumes "materialize s i = Inr s'" and "snapshot_ok s"
  obtains c c' where "single s s' c c'" and "lc_stage c = RESERVED" and "lc_stage c' = MATERIALIZED"
  using assms replace_candidate_single [of s i MATERIALIZED None s']
  by (fastforce simp: materialize_def guard_Inr)

lemma evaluate_single:
  assumes "evaluate_candidate s i e = Inr s'" and "snapshot_ok s"
  obtains c c' where "single s s' c c'" and "lc_stage c = MATERIALIZED" and "lc_stage c' = EVALUATED"
  using assms replace_candidate_single [of s i EVALUATED "Some e" s']
  by (fastforce simp: evaluate_candidate_def guard_Inr)

lemma reject_single:
  assumes "reject_candidate s i = Inr s'" and "snapshot_ok s"
  obtains c c' where "single s s' c c'" and "lc_stage c = EVALUATED" and "lc_stage c' = REJECTED"
  using assms replace_candidate_single [of s i REJECTED None s']
  by (fastforce simp: reject_candidate_def guard_Inr)

lemma fail_single:
  assumes "fail_candidate s i reason = Inr s'" and "snapshot_ok s"
  obtains c c' where "single s s' c c'" and "lc_stage c \<in> {RESERVED, MATERIALIZED, EVALUATED}"
    and "lc_stage c' = FAILED"
proof -
  from assms(1) obtain c e where c: "find_candidate s i = Inr c" "lc_stage c \<in> {RESERVED, MATERIALIZED, EVALUATED}"
    and e: "\<And>v. lc_evidence c = Some v \<Longrightarrow> e = v" and r: "replace_candidate s i FAILED (Some e) = Inr s'"
    by (fastforce simp: fail_candidate_def guard_Inr split: option.splits)
  have "stage_step (lc_stage c) FAILED" by (rule stage_step.failed [OF c(2)])
  moreover have "Some e = None \<or> Some e = lc_evidence c" if "lc_evidence c \<noteq> None" using e that by auto
  ultimately show thesis
    using replace_candidate_single [OF r assms(2) c(1)] c(2) by (intro that) auto
qed

lemma replace_first_split:
  "c \<notin> set xs \<Longrightarrow> replace_first c c' (xs @ c # ys) = xs @ c' # ys"
  by (induction xs) auto

text \<open>A round of \<open>reserve\<close> moves one predicted candidate and charges its two identities.\<close>

lemma reserve_one_moves:
  assumes "reserve_one (b, cs) i = Inr (b', cs')" and "distinct (map lc_id cs)"
  obtains c c' where "swapped c c' cs cs'" and "candidate_move c c'" and "lc_id c = i"
    and "lc_stage c = PREDICTED" and "lc_stage c' = RESERVED"
    and "lc_architecture c \<notin> set (lb_architectures b)" and "lc_equivalence c \<notin> set (lb_equivalences b)"
    and "b' = b\<lparr>lb_reserved := lb_reserved b + 1,
           lb_architectures := sort (lb_architectures b @ [lc_architecture c]),
           lb_equivalences := sort (lb_equivalences b @ [lc_equivalence c])\<rparr>" and "budget_ok b'"
proof -
  from assms(1) obtain c where f: "find (\<lambda>c. lc_id c = i) cs = Some c"
    and g: "lc_stage c = PREDICTED" "lc_architecture c \<notin> set (lb_architectures b)" "lc_equivalence c \<notin> set (lb_equivalences b)"
    and b': "b' = b\<lparr>lb_reserved := lb_reserved b + 1,
           lb_architectures := sort (lb_architectures b @ [lc_architecture c]),
           lb_equivalences := sort (lb_equivalences b @ [lc_equivalence c])\<rparr>" "budget_ok b'"
    and cs': "candidate_ok (c\<lparr>lc_stage := RESERVED\<rparr>)" "cs' = replace_first c (c\<lparr>lc_stage := RESERVED\<rparr>) cs"
    by (auto simp: reserve_one_def guard_Inr budget_init_iff candidate_init_iff)
  from f have c: "c \<in> set cs" "lc_id c = i" by (auto simp: find_Some_iff)
  then obtain xs ys where split: "cs = xs @ c # ys" by (auto simp: in_set_conv_decomp)
  then have "c \<notin> set xs" using assms(2) by auto
  then have "swapped c (c\<lparr>lc_stage := RESERVED\<rparr>) cs cs'" unfolding swapped_def cs'(2) split by (auto simp: replace_first_split)
  then show thesis
    using g b' cs'(1) c(2) by (intro that [of c "c\<lparr>lc_stage := RESERVED\<rparr>"]) (simp_all add: candidate_move_def identity_of_def)
qed

lemma swapped_ids:
  assumes "swapped c c' cs cs'" and "candidate_move c c'"
  shows "map identity_of cs' = map identity_of cs"
  using assms by (auto simp: swapped_def candidate_move_def)

lemma same_ids: "map identity_of cs' = map identity_of cs \<Longrightarrow> map lc_id cs' = map lc_id cs"
  by (drule arg_cong [where f = "map fst"]) (simp add: identity_of_def comp_def)

section \<open>The budget\<close>

definition charged :: "lifecycle_candidate list \<Rightarrow> lifecycle_candidate list" where
  "charged = filter (\<lambda>c. lc_stage c \<noteq> PREDICTED)"

definition paid :: "lifecycle_budget \<Rightarrow> lifecycle_candidate list \<Rightarrow> bool" where
  "paid b cs \<longleftrightarrow> lb_reserved b = int (length (charged cs))
     \<and> lb_architectures b = sort (map lc_architecture (charged cs))
     \<and> lb_equivalences b = sort (map lc_equivalence (charged cs))"

lemma sort_mset_cong: "mset xs = mset ys \<Longrightarrow> sort xs = sort ys"
  by (metis properties_for_sort mset_sort sorted_sort)

lemma paid_after_reservation:
  assumes "paid b cs" and "swapped c c' cs cs'" and "candidate_move c c'"
    and "lc_stage c = PREDICTED" and "lc_stage c' = RESERVED"
  shows "paid (b\<lparr>lb_reserved := lb_reserved b + 1,
           lb_architectures := sort (lb_architectures b @ [lc_architecture c]),
           lb_equivalences := sort (lb_equivalences b @ [lc_equivalence c])\<rparr>) cs'"
proof -
  obtain xs ys where split: "cs = xs @ c # ys" "cs' = xs @ c' # ys" using assms(2) by (rule swappedE)
  have keys: "lc_architecture c' = lc_architecture c" "lc_equivalence c' = lc_equivalence c"
    using assms(3) by (simp_all add: candidate_move_def identity_of_def)
  show ?thesis
    using assms(1,4,5) unfolding paid_def charged_def split
    by (auto simp: keys intro!: sort_mset_cong)
qed

lemma paid_after_move:
  assumes "paid b cs" and "swapped c c' cs cs'" and "candidate_move c c'"
    and "lc_stage c \<noteq> PREDICTED" and "lc_stage c' \<noteq> PREDICTED"
  shows "paid b cs'"
  using assms by (auto simp: paid_def charged_def swapped_def candidate_move_def identity_of_def)

text \<open>What \<open>reserve\<close> does to each candidate.\<close>

definition reservation :: "lifecycle_candidate \<Rightarrow> lifecycle_candidate \<Rightarrow> bool" where
  "reservation c c' \<longleftrightarrow> c' = c \<or> (candidate_move c c' \<and> lc_stage c = PREDICTED \<and> lc_stage c' = RESERVED)"

lemma list_all2_swapped:
  assumes "swapped c c' cs cs'" and "R c c'" and "\<And>x. R x x"
  shows "list_all2 R cs cs'"
  using assms by (auto simp: swapped_def list_all2_append list.rel_refl)

lemma reservation_trans: "reservation a b \<Longrightarrow> reservation b c \<Longrightarrow> reservation a c"
  by (auto simp: reservation_def candidate_move_def)

lemma reserve_loop:
  assumes "foldM_r reserve_one (b, cs) ids = Inr (b', cs')" and "distinct (map lc_id cs)"
  shows "list_all2 reservation cs cs' \<and> (paid b cs \<longrightarrow> paid b' cs') \<and> (budget_ok b \<longrightarrow> budget_ok b')
    \<and> lb_limit b' = lb_limit b"
  using assms
proof (induction ids arbitrary: b cs)
  case Nil
  then show ?case by (simp add: reservation_def list.rel_refl)
next
  case (Cons i ids)
  from Cons.prems(1) obtain b1 cs1 where 1: "reserve_one (b, cs) i = Inr (b1, cs1)"
    and 2: "foldM_r reserve_one (b1, cs1) ids = Inr (b', cs')" by auto
  from 1 Cons.prems(2) obtain c c' where m: "swapped c c' cs cs1" "candidate_move c c'"
      "lc_stage c = PREDICTED" "lc_stage c' = RESERVED"
    and b1: "b1 = b\<lparr>lb_reserved := lb_reserved b + 1,
           lb_architectures := sort (lb_architectures b @ [lc_architecture c]),
           lb_equivalences := sort (lb_equivalences b @ [lc_equivalence c])\<rparr>" "budget_ok b1"
    by (rule reserve_one_moves)
  have "distinct (map lc_id cs1)" using same_ids [OF swapped_ids [OF m(1,2)]] Cons.prems(2) by simp
  moreover have "paid b1 cs1" if "paid b cs" unfolding b1(1) by (rule paid_after_reservation [OF that m])
  moreover have "list_all2 reservation cs cs1"
    by (rule list_all2_swapped [OF m(1)]) (use m in \<open>simp_all add: reservation_def\<close>)
  ultimately show ?case
    using Cons.IH [OF 2] b1 by (auto intro: list_all2_trans [OF reservation_trans])
qed

section \<open>The invariant of a run\<close>

definition accepted_ids :: "lifecycle_candidate list \<Rightarrow> pystr list" where
  "accepted_ids cs = map lc_id (filter (\<lambda>c. lc_stage c = ACCEPTED) cs)"

definition sound :: "pystr \<Rightarrow> int \<Rightarrow> search_snapshot \<Rightarrow> bool" where
  "sound root limit s \<longleftrightarrow> snapshot_ok s \<and> list_all candidate_ok (ss_candidates s)
     \<and> budget_ok (ss_budget s) \<and> lb_limit (ss_budget s) = limit \<and> paid (ss_budget s) (ss_candidates s)
     \<and> set (ss_frontier s) = set (accepted_ids (ss_candidates s)) \<and> root \<in> set (ss_lineage s)
     \<and> length (ss_lineage s) = Suc (length (accepted_ids (ss_candidates s)))"

lemma accepted_swap:
  assumes "swapped c c' cs cs'" and "lc_stage c \<noteq> ACCEPTED" and "lc_stage c' \<noteq> ACCEPTED"
  shows "accepted_ids cs' = accepted_ids cs"
  using assms by (auto simp: swapped_def accepted_ids_def)

lemma sound_single:
  assumes "sound root limit s" and "single s s' c c'" and "lc_stage c \<noteq> PREDICTED"
    and "lc_stage c' \<noteq> ACCEPTED"
  shows "sound root limit s'"
proof -
  from assms(2) have swap: "swapped c c' (ss_candidates s) (ss_candidates s')" and move: "candidate_move c c'"
    and ok: "snapshot_ok s'"
    and eq: "s' = s\<lparr>ss_generation := ss_generation s + 1, ss_candidates := ss_candidates s'\<rparr>"
    by (simp_all add: single_def)
  have step: "stage_step (lc_stage c) (lc_stage c')" using move by (simp add: candidate_move_def)
  have rest: "ss_budget s' = ss_budget s" "ss_frontier s' = ss_frontier s" "ss_lineage s' = ss_lineage s"
    by (subst eq, simp)+
  have "lc_stage c \<noteq> ACCEPTED" using step by (cases "lc_stage c") auto
  then have acc: "accepted_ids (ss_candidates s') = accepted_ids (ss_candidates s)"
    by (rule accepted_swap [OF swap _ assms(4)])
  have "lc_stage c' \<noteq> PREDICTED" using step by (cases "lc_stage c") auto
  then have "paid (ss_budget s) (ss_candidates s')"
    using assms(1,3) swap move by (blast intro: paid_after_move [of _ "ss_candidates s"] dest: sound_def [THEN iffD1])
  moreover have "list_all candidate_ok (ss_candidates s')"
    using assms(1) swap move by (auto simp: sound_def swapped_def candidate_move_def)
  ultimately show ?thesis using assms(1) ok by (simp add: sound_def rest acc)
qed

lemma sound_paid: "sound root limit s \<Longrightarrow> paid (ss_budget s) (ss_candidates s)"
  by (simp add: sound_def)

lemma sound_ok: "sound root limit s \<Longrightarrow> snapshot_ok s"
  by (simp add: sound_def)

lemma reserve_effect:
  assumes "reserve s ids = Inr s'" and "snapshot_ok s"
  shows "snapshot_ok s' \<and> list_all2 reservation (ss_candidates s) (ss_candidates s')
    \<and> (paid (ss_budget s) (ss_candidates s) \<longrightarrow> paid (ss_budget s') (ss_candidates s'))
    \<and> (budget_ok (ss_budget s) \<longrightarrow> budget_ok (ss_budget s')) \<and> lb_limit (ss_budget s') = lb_limit (ss_budget s)
    \<and> ss_frontier s' = ss_frontier s \<and> ss_lineage s' = ss_lineage s \<and> ss_evidence s' = ss_evidence s
    \<and> ss_generation s' = ss_generation s + 1 \<and> ss_decision s' = ss_decision s + int (length ids)"
proof -
  from assms(1) obtain b cs where loop: "foldM_r reserve_one (ss_budget s, ss_candidates s) ids = Inr (b, cs)"
    and s': "s' = s\<lparr>ss_generation := ss_generation s + 1, ss_candidates := cs, ss_budget := b,
       ss_decision := ss_decision s + int (length ids)\<rparr>" "snapshot_ok s'"
    by (auto simp: reserve_def guard_Inr snapshot_init_iff)
  show ?thesis using reserve_loop [OF loop snapshot_ids [OF assms(2)]] s' by simp
qed

lemma reserve_sound:
  assumes "sound root limit s" and "reserve s ids = Inr s'"
  shows "sound root limit s'"
proof -
  note r = reserve_effect [OF assms(2) sound_ok [OF assms(1)]]
  then have "list_all2 reservation (ss_candidates s) (ss_candidates s')" by simp
  then have "accepted_ids (ss_candidates s') = accepted_ids (ss_candidates s)
      \<and> (list_all candidate_ok (ss_candidates s) \<longrightarrow> list_all candidate_ok (ss_candidates s'))"
    by (induction rule: list_all2_induct) (auto simp: accepted_ids_def reservation_def candidate_move_def)
  with r assms(1) show ?thesis by (simp add: sound_def)
qed

lemma accept_effect:
  assumes "accept_candidate s i checkpoint = Inr s'" and "snapshot_ok s"
  obtains c c' s1 where "single s s1 c c'" and "lc_id c = i" and "lc_stage c = EVALUATED" and "lc_stage c' = ACCEPTED"
    and "s' = s1\<lparr>ss_frontier := sort (ss_frontier s @ [i]), ss_lineage := sort (ss_lineage s @ [checkpoint])\<rparr>"
    and "snapshot_ok s'"
proof -
  from assms(1) obtain c s1 where c: "find_candidate s i = Inr c" "lc_stage c = EVALUATED"
    and r: "replace_candidate s i ACCEPTED None = Inr s1"
    and s': "s' = s1\<lparr>ss_frontier := sort (ss_frontier s @ [i]), ss_lineage := sort (ss_lineage s @ [checkpoint])\<rparr>"
      "snapshot_ok s'"
    by (auto simp: accept_candidate_def guard_Inr snapshot_init_iff)
  have "lc_id c = i" using c(1) find_candidate_iff [OF snapshot_ids [OF assms(2)]] by simp
  moreover have "single s s1 c (c\<lparr>lc_stage := ACCEPTED, lc_evidence := (if None = (None :: lifecycle_evidence option)
      then lc_evidence c else None)\<rparr>)"
    by (rule replace_candidate_single [OF r assms(2) c(1)]) (simp_all add: c(2))
  ultimately show thesis using c(2) s' by (intro that [of s1 c "c\<lparr>lc_stage := ACCEPTED\<rparr>"]) simp_all
qed

lemma accept_sound:
  assumes "sound root limit s" and "accept_candidate s i checkpoint = Inr s'"
  shows "sound root limit s'"
proof -
  from assms(2) sound_ok [OF assms(1)]
  obtain c c' s1 where single: "single s s1 c c'" and c: "lc_id c = i" "lc_stage c = EVALUATED" "lc_stage c' = ACCEPTED"
    and s': "s' = s1\<lparr>ss_frontier := sort (ss_frontier s @ [i]), ss_lineage := sort (ss_lineage s @ [checkpoint])\<rparr>"
    and ok: "snapshot_ok s'"
    by (rule accept_effect)
  from single have swap: "swapped c c' (ss_candidates s) (ss_candidates s1)" and move: "candidate_move c c'"
    and s1: "s1 = s\<lparr>ss_generation := ss_generation s + 1, ss_candidates := ss_candidates s1\<rparr>"
    by (simp_all add: single_def)
  have cs: "ss_candidates s' = ss_candidates s1" "ss_budget s' = ss_budget s"
    unfolding s' by (simp, subst s1, simp)
  have "lc_id c' = i" using move c(1) by (simp add: candidate_move_def identity_of_def)
  then have acc: "set (accepted_ids (ss_candidates s1)) = insert i (set (accepted_ids (ss_candidates s)))
      \<and> length (accepted_ids (ss_candidates s1)) = Suc (length (accepted_ids (ss_candidates s)))"
    using swap c(2,3) by (elim swappedE) (simp add: accepted_ids_def)
  have "paid (ss_budget s) (ss_candidates s1)"
    by (rule paid_after_move [OF sound_paid [OF assms(1)] swap move]) (simp_all add: c)
  moreover have "list_all candidate_ok (ss_candidates s1)"
    using assms(1) swap move by (auto simp: sound_def swapped_def candidate_move_def)
  moreover have "set (ss_frontier s') = insert i (set (ss_frontier s))" "set (ss_lineage s') = insert checkpoint (set (ss_lineage s))"
    "length (ss_lineage s') = Suc (length (ss_lineage s))"
    by (simp_all add: s')
  ultimately show ?thesis using assms(1) ok acc by (simp add: sound_def cs)
qed

lemma step_sound:
  assumes "sound root limit s" and "lifecycle_step s op = Inr s'"
  shows "sound root limit s'"
proof -
  have ok: "snapshot_ok s" using assms(1) by (simp add: sound_def)
  show ?thesis
  proof (cases op)
    case (Reserve ids)
    with assms reserve_sound show ?thesis by simp
  next
    case (Materialize i)
    with assms(2) ok obtain c c' where "single s s' c c'" "lc_stage c = RESERVED" "lc_stage c' = MATERIALIZED"
      by (auto elim: materialize_single)
    with sound_single [OF assms(1)] show ?thesis by simp
  next
    case (Evaluate i e)
    with assms(2) obtain e' where "evaluate_candidate s i e' = Inr s'" by auto
    with ok obtain c c' where "single s s' c c'" "lc_stage c = MATERIALIZED" "lc_stage c' = EVALUATED"
      by (auto elim: evaluate_single)
    with sound_single [OF assms(1)] show ?thesis by simp
  next
    case (Accept i checkpoint)
    with assms accept_sound show ?thesis by simp
  next
    case (Reject i)
    with assms(2) ok obtain c c' where "single s s' c c'" "lc_stage c = EVALUATED" "lc_stage c' = REJECTED"
      by (auto elim: reject_single)
    with sound_single [OF assms(1)] show ?thesis by simp
  next
    case (Fail i r)
    with assms(2) ok obtain c c' where "single s s' c c'" "lc_stage c \<in> {RESERVED, MATERIALIZED, EVALUATED}"
      "lc_stage c' = FAILED" by (auto elim: fail_single)
    with sound_single [OF assms(1)] show ?thesis by auto
  next
    case (Advance n)
    with assms show ?thesis
      by (auto simp: advance_evidence_cursor_def guard_Inr snapshot_init_iff sound_def)
  qed
qed

lemma run_sound:
  "sound root limit s \<Longrightarrow> sound root limit (lifecycle_run s ops)"
proof (induction ops arbitrary: s)
  case (Cons op ops)
  have "sound root limit (lifecycle_try s op)"
    using Cons.prems step_sound [of root limit s op] by (auto simp: lifecycle_try_def split: sum.split)
  with Cons.IH show ?case by (simp add: lifecycle_run_def)
qed (simp add: lifecycle_run_def)

lemma create_sound:
  assumes "lifecycle_create search cs root limit = Inr s"
    and "list_all candidate_ok cs" and "list_all (\<lambda>c. lc_stage c = PREDICTED) cs"
  shows "sound root limit s"
proof -
  from assms(1) have s: "s = \<lparr>ss_search = search, ss_generation = 0, ss_candidates = sort_key lc_id cs,
       ss_frontier = [], ss_lineage = [root], ss_budget = \<lparr>lb_limit = limit, lb_reserved = 0,
         lb_architectures = [], lb_equivalences = [], lb_disk = 0\<rparr>, ss_decision = 0, ss_evidence = 0,
       ss_version = ARCHITECTURE_LIFECYCLE_SCHEMA_VERSION\<rparr>" and ok: "snapshot_ok s" "budget_ok (ss_budget s)"
    by (auto simp: lifecycle_create_def budget_init_iff snapshot_init_iff)
  have none: "filter (\<lambda>c. lc_stage c \<noteq> PREDICTED) (sort_key lc_id cs) = []"
    "filter (\<lambda>c. lc_stage c = ACCEPTED) (sort_key lc_id cs) = []"
    using assms(3) by (auto simp: filter_empty_conv list_all_iff)
  show ?thesis
    using ok assms(2) none unfolding sound_def paid_def charged_def accepted_ids_def
    by (simp add: s list_all_iff)
qed

section \<open>Candidates only advance\<close>

definition final_stage :: "lifecycle_stage \<Rightarrow> bool" where
  "final_stage st \<longleftrightarrow> st = ACCEPTED \<or> st = REJECTED \<or> st = FAILED"

text \<open>
  What may happen to a candidate over any number of calls: its identity stays, its stage goes forward,
  evidence once recorded stays, and in a final stage nothing changes any more.
\<close>

definition advances :: "lifecycle_candidate \<Rightarrow> lifecycle_candidate \<Rightarrow> bool" where
  "advances c c' \<longleftrightarrow> identity_of c' = identity_of c \<and> stage_step\<^sup>*\<^sup>* (lc_stage c) (lc_stage c')
     \<and> (lc_evidence c \<noteq> None \<and> (lc_stage c = EVALUATED \<or> final_stage (lc_stage c)) \<longrightarrow> lc_evidence c' = lc_evidence c)
     \<and> (final_stage (lc_stage c) \<longrightarrow> c' = c)"

lemma advances_refl: "advances c c"
  by (simp add: advances_def)

lemma stage_star_evaluated:
  "stage_step\<^sup>*\<^sup>* st st' \<Longrightarrow> st = EVALUATED \<or> final_stage st \<Longrightarrow> st' = EVALUATED \<or> final_stage st'"
  by (induction rule: rtranclp_induct) (auto simp: final_stage_def)

lemma advances_trans: "advances a b \<Longrightarrow> advances b c \<Longrightarrow> advances a c"
  unfolding advances_def using stage_star_evaluated [of "lc_stage a" "lc_stage b"]
  by (auto dest: rtranclp_trans)

lemma move_advances: "candidate_move c c' \<Longrightarrow> advances c c'"
  unfolding advances_def candidate_move_def final_stage_def
  by (cases "lc_stage c") auto

text \<open>What a call does to the candidates and to the counters of the snapshot.\<close>

definition progressed :: "search_snapshot \<Rightarrow> search_snapshot \<Rightarrow> bool" where
  "progressed s s' \<longleftrightarrow> snapshot_ok s' \<and> list_all2 advances (ss_candidates s) (ss_candidates s')
     \<and> set (ss_lineage s) \<subseteq> set (ss_lineage s') \<and> set (ss_frontier s) \<subseteq> set (ss_frontier s')
     \<and> ss_generation s \<le> ss_generation s' \<and> ss_decision s \<le> ss_decision s' \<and> ss_evidence s \<le> ss_evidence s'"

lemma progressed_refl: "snapshot_ok s \<Longrightarrow> progressed s s"
  by (simp add: progressed_def list.rel_refl advances_refl)

lemma progressed_trans: "progressed a b \<Longrightarrow> progressed b c \<Longrightarrow> progressed a c"
  by (auto simp: progressed_def intro: list_all2_trans [OF advances_trans])

lemma single_fields:
  assumes "single s s' c c'"
  shows "snapshot_ok s'" "list_all2 advances (ss_candidates s) (ss_candidates s')"
    "ss_generation s' = ss_generation s + 1" "ss_lineage s' = ss_lineage s" "ss_frontier s' = ss_frontier s"
    "ss_decision s' = ss_decision s" "ss_evidence s' = ss_evidence s"
proof -
  have eq: "s' = s\<lparr>ss_generation := ss_generation s + 1, ss_candidates := ss_candidates s'\<rparr>"
    using assms by (simp add: single_def)
  show "ss_generation s' = ss_generation s + 1" "ss_lineage s' = ss_lineage s" "ss_frontier s' = ss_frontier s"
    "ss_decision s' = ss_decision s" "ss_evidence s' = ss_evidence s"
    by (subst eq, simp)+
  show "snapshot_ok s'" using assms by (simp add: single_def)
  show "list_all2 advances (ss_candidates s) (ss_candidates s')"
    using assms by (auto simp: single_def intro: list_all2_swapped move_advances advances_refl)
qed

lemma single_progressed: "single s s' c c' \<Longrightarrow> progressed s s' \<and> ss_generation s' = ss_generation s + 1"
  using single_fields [of s s' c c'] by (simp add: progressed_def)

lemma step_progressed:
  assumes "lifecycle_step s op = Inr s'" and ok: "snapshot_ok s"
  shows "progressed s s' \<and> ss_generation s' = ss_generation s + 1"
proof (cases op)
  case (Reserve ids)
  with assms have "reserve s ids = Inr s'" by simp
  note r = reserve_effect [OF this ok]
  have "reservation c c' \<Longrightarrow> advances c c'" for c c'
    by (auto simp: reservation_def advances_refl move_advances)
  with r have "list_all2 advances (ss_candidates s) (ss_candidates s')" by (blast intro: list_all2_mono)
  with r show ?thesis by (simp add: progressed_def)
next
  case (Materialize i)
  with assms show ?thesis by (auto elim!: materialize_single dest: single_progressed)
next
  case (Evaluate i e)
  with assms(1) obtain e' where "evaluate_candidate s i e' = Inr s'" by auto
  with ok show ?thesis by (auto elim!: evaluate_single dest: single_progressed)
next
  case (Accept i checkpoint)
  with assms obtain c c' s1 where 1: "single s s1 c c'"
    and s': "s' = s1\<lparr>ss_frontier := sort (ss_frontier s @ [i]), ss_lineage := sort (ss_lineage s @ [checkpoint])\<rparr>"
    and "snapshot_ok s'" by (auto elim!: accept_effect)
  moreover have "set (ss_lineage s) \<subseteq> set (ss_lineage s')" "set (ss_frontier s) \<subseteq> set (ss_frontier s')"
    by (auto simp: s')
  ultimately show ?thesis using single_fields [OF 1] by (simp add: progressed_def)
next
  case (Reject i)
  with assms show ?thesis by (auto elim!: reject_single dest: single_progressed)
next
  case (Fail i r)
  with assms show ?thesis by (auto elim!: fail_single dest: single_progressed)
next
  case (Advance n)
  with assms show ?thesis
    by (auto simp: advance_evidence_cursor_def guard_Inr snapshot_init_iff progressed_def list.rel_refl advances_refl)
qed

lemma run_progressed:
  "snapshot_ok s \<Longrightarrow> progressed s (lifecycle_run s ops) \<and> ss_generation (lifecycle_run s ops) \<le> ss_generation s + int (length ops)"
proof (induction ops arbitrary: s)
  case Nil
  then show ?case by (simp add: lifecycle_run_def progressed_refl)
next
  case (Cons op ops)
  have 1: "progressed s (lifecycle_try s op) \<and> ss_generation (lifecycle_try s op) \<le> ss_generation s + 1"
    using step_progressed [OF _ Cons.prems, of op] progressed_refl [OF Cons.prems]
    by (auto simp: lifecycle_try_def split: sum.split)
  then have "snapshot_ok (lifecycle_try s op)" by (simp add: progressed_def)
  from Cons.IH [OF this] 1 show ?case
    by (auto simp: lifecycle_run_def intro: progressed_trans)
qed

section \<open>When a call succeeds\<close>

lemma swap_snapshot_ok:
  assumes "snapshot_ok s" and "swapped c c' (ss_candidates s) cs" and "identity_of c' = identity_of c"
    and "lc_stage c \<noteq> ACCEPTED" and "0 \<le> d"
  shows "snapshot_ok (s\<lparr>ss_generation := ss_generation s + 1, ss_candidates := cs, ss_budget := b, ss_decision := d\<rparr>)"
proof -
  obtain xs ys where split: "ss_candidates s = xs @ c # ys" "cs = xs @ c' # ys" using assms(2) by (rule swappedE)
  have keys: "lc_id c' = lc_id c" "lc_parent c' = lc_parent c" using assms(3) by (simp_all add: identity_of_def)
  have "lc_id ` {d \<in> set (ss_candidates s). lc_stage d = ACCEPTED} \<subseteq> lc_id ` {d \<in> set cs. lc_stage d = ACCEPTED}"
    using assms(4) by (auto simp: split)
  with assms(1,5) show ?thesis by (auto simp: snapshot_ok_def split keys)
qed

lemma replace_candidate_succeeds:
  assumes "snapshot_ok s" and "c \<in> set (ss_candidates s)" and "lc_stage c \<noteq> ACCEPTED"
    and "candidate_ok (c\<lparr>lc_stage := st, lc_evidence := (if e = None then lc_evidence c else e)\<rparr>)" (is "candidate_ok ?c")
  obtains s' where "replace_candidate s (lc_id c) st e = Inr s'" and "swapped c ?c (ss_candidates s) (ss_candidates s')"
    and "s' = s\<lparr>ss_generation := ss_generation s + 1, ss_candidates := ss_candidates s'\<rparr>"
proof -
  let ?f = "\<lambda>d. if lc_id d = lc_id c then candidate_init (d\<lparr>lc_stage := st,
    lc_evidence := (if e = None then lc_evidence d else e)\<rparr>) else Inr d"
  obtain xs ys where split: "ss_candidates s = xs @ c # ys" using assms(2) by (auto simp: in_set_conv_decomp)
  have "mapM_r ?f xs = Inr xs" "mapM_r ?f ys = Inr ys"
    using snapshot_ids [OF assms(1)] by (auto simp: split image_iff intro!: mapM_r_skip)
  moreover have "?f c = Inr ?c" using assms(4) by (simp add: candidate_init_iff)
  ultimately have m: "mapM_r ?f (ss_candidates s) = Inr (xs @ ?c # ys)"
    unfolding split mapM_r_Inr_iff by (intro list_all2_appendI list_all2_Cons [THEN iffD2] conjI) simp_all
  have swap: "swapped c ?c (ss_candidates s) (xs @ ?c # ys)" by (auto simp: swapped_def split)
  have "snapshot_ok (s\<lparr>ss_generation := ss_generation s + 1, ss_candidates := xs @ ?c # ys,
      ss_budget := ss_budget s, ss_decision := ss_decision s\<rparr>)"
    using assms(1) by (intro swap_snapshot_ok [OF assms(1) swap _ assms(3)]) (auto simp: identity_of_def snapshot_ok_def)
  then have ok: "snapshot_ok (s\<lparr>ss_generation := ss_generation s + 1, ss_candidates := xs @ ?c # ys\<rparr>)" by simp
  have "\<not> list_all (\<lambda>d. lc_id d \<noteq> lc_id c) (ss_candidates s)" by (simp add: split)
  with m ok have "replace_candidate s (lc_id c) st e
      = Inr (s\<lparr>ss_generation := ss_generation s + 1, ss_candidates := xs @ ?c # ys\<rparr>)"
    by (simp add: replace_candidate_def guard_Inr snapshot_init_iff)
  with swap show thesis
    by (intro that [of "s\<lparr>ss_generation := ss_generation s + 1, ss_candidates := xs @ ?c # ys\<rparr>"]) simp_all
qed

lemma replace_stage_succeeds:
  assumes "snapshot_ok s" and "c \<in> set (ss_candidates s)" and "lc_stage c \<noteq> ACCEPTED"
    and "candidate_ok (c\<lparr>lc_stage := st\<rparr>)"
  obtains s' where "replace_candidate s (lc_id c) st None = Inr s'"
    and "swapped c (c\<lparr>lc_stage := st\<rparr>) (ss_candidates s) (ss_candidates s')"
proof (rule replace_candidate_succeeds [OF assms(1-3), where st = st and e = None])
  show "candidate_ok (c\<lparr>lc_stage := st, lc_evidence := (if None = (None :: lifecycle_evidence option)
      then lc_evidence c else None)\<rparr>)" using assms(4) by simp
qed (use that in simp)

lemma sorted_snoc_canonical:
  "canonical_ids vs \<Longrightarrow> canonical_ids (sort (vs @ [v])) \<longleftrightarrow> v \<notin> set vs" for v :: pystr
  by (simp add: canonical_ids_iff)

lemma extend_snapshot_ok:
  assumes "snapshot_ok s" and "i \<notin> set (ss_frontier s)"
    and "i \<in> lc_id ` {d \<in> set (ss_candidates s). lc_stage d = ACCEPTED}"
    and "starts_with ''checkpoint_'' checkpoint" and "checkpoint \<notin> set (ss_lineage s)"
  shows "snapshot_ok (s\<lparr>ss_frontier := sort (ss_frontier s @ [i]), ss_lineage := sort (ss_lineage s @ [checkpoint])\<rparr>)"
    (is "snapshot_ok ?s")
proof -
  note parts = assms(1) [unfolded snapshot_ok_def]
  have 1: "set (ss_frontier ?s) \<subseteq> lc_id ` {d \<in> set (ss_candidates s). lc_stage d = ACCEPTED}"
    using parts assms(3) by simp
  have 2: "canonical_ids (ss_frontier ?s)" "canonical_ids (ss_lineage ?s)"
    using parts assms(2,5) by (simp_all add: sorted_snoc_canonical)
  have 3: "list_all (starts_with ''checkpoint_'') (ss_lineage ?s)"
    using parts assms(4) by (simp add: list_all_iff)
  have 4: "lc_parent ` set (ss_candidates s) \<subseteq> set (ss_lineage ?s)"
    using parts by (simp add: subset_insertI2)
  have 5: "ss_lineage ?s \<noteq> []" by (metis length_0_conv length_sort length_append_singleton nat.distinct(1)
      search_snapshot.select_convs(5) search_snapshot.update_convs(4,5) search_snapshot.surjective)
  show ?thesis using parts 1 2 3 4 5 by (simp add: snapshot_ok_def)
qed

lemma accept_exact:
  assumes "sound root limit s" and "c \<in> set (ss_candidates s)"
  shows "(\<exists>s'. accept_candidate s (lc_id c) checkpoint = Inr s')
    \<longleftrightarrow> lc_stage c = EVALUATED \<and> \<not> lc_predicted_only c \<and> passing (lc_evidence c)
        \<and> starts_with ''checkpoint_'' checkpoint \<and> checkpoint \<notin> set (ss_lineage s)"
proof
  note ok = sound_ok [OF assms(1)]
  have f: "find_candidate s (lc_id c) = Inr c" using assms(2) find_candidate_iff [OF snapshot_ids [OF ok]] by simp
  {
    assume "\<exists>s'. accept_candidate s (lc_id c) checkpoint = Inr s'"
    then obtain s' where s': "accept_candidate s (lc_id c) checkpoint = Inr s'" ..
    then obtain c1 c2 s1 where "s' = s1\<lparr>ss_frontier := sort (ss_frontier s @ [lc_id c]),
        ss_lineage := sort (ss_lineage s @ [checkpoint])\<rparr>" "snapshot_ok s'"
      using ok by (rule accept_effect)
    then have "canonical_ids (sort (ss_lineage s @ [checkpoint]))" by (simp add: snapshot_ok_def)
    then have "checkpoint \<notin> set (ss_lineage s)" by (simp add: canonical_ids_iff)
    then show "lc_stage c = EVALUATED \<and> \<not> lc_predicted_only c \<and> passing (lc_evidence c)
        \<and> starts_with ''checkpoint_'' checkpoint \<and> checkpoint \<notin> set (ss_lineage s)"
      using s' f by (auto simp: accept_candidate_def guard_Inr)
  next
    assume g: "lc_stage c = EVALUATED \<and> \<not> lc_predicted_only c \<and> passing (lc_evidence c)
        \<and> starts_with ''checkpoint_'' checkpoint \<and> checkpoint \<notin> set (ss_lineage s)"
    have "candidate_ok c" using assms by (simp add: sound_def list_all_iff)
    with g have cok: "candidate_ok (c\<lparr>lc_stage := ACCEPTED\<rparr>)" by (simp add: candidate_ok_def)
    have st: "lc_stage c \<noteq> ACCEPTED" using g by simp
    obtain s1 where r: "replace_candidate s (lc_id c) ACCEPTED None = Inr s1"
      and swap: "swapped c (c\<lparr>lc_stage := ACCEPTED\<rparr>) (ss_candidates s) (ss_candidates s1)"
      by (rule replace_stage_succeeds [OF ok assms(2) st cok])
    let ?s = "s1\<lparr>ss_frontier := sort (ss_frontier s @ [lc_id c]), ss_lineage := sort (ss_lineage s @ [checkpoint])\<rparr>"
    have single: "single s s1 c (c\<lparr>lc_stage := ACCEPTED, lc_evidence := (if None = (None :: lifecycle_evidence option)
      then lc_evidence c else None)\<rparr>)"
      by (rule replace_candidate_single [OF r ok f]) (simp_all add: g)
    have "lc_id c \<notin> set (ss_frontier s)"
      using assms g snapshot_ids [OF ok] by (auto simp: sound_def accepted_ids_def distinct_map dest: inj_onD)
    moreover have "lc_id c \<in> lc_id ` {d \<in> set (ss_candidates s1). lc_stage d = ACCEPTED}"
      using swap by (intro image_eqI [where x = "c\<lparr>lc_stage := ACCEPTED\<rparr>"]) (auto simp: swapped_def)
    moreover have "snapshot_ok s1" and fr: "ss_frontier s1 = ss_frontier s" and li: "ss_lineage s1 = ss_lineage s"
      by (rule single_fields [OF single])+
    ultimately have "snapshot_ok ?s"
      using extend_snapshot_ok [of s1 "lc_id c" checkpoint] g by simp
    with g f r show "\<exists>s'. accept_candidate s (lc_id c) checkpoint = Inr s'"
      by (auto simp: accept_candidate_def guard_Inr snapshot_init_iff passing_def split: option.splits)
  }
qed

lemma reserve_exact:
  assumes "sound root limit s" and "c \<in> set (ss_candidates s)"
  shows "(\<exists>s'. reserve s [lc_id c] = Inr s')
    \<longleftrightarrow> lc_stage c = PREDICTED \<and> lc_architecture c \<notin> set (lb_architectures (ss_budget s))
        \<and> lc_equivalence c \<notin> set (lb_equivalences (ss_budget s)) \<and> lb_reserved (ss_budget s) < limit"
proof -
  note ok = sound_ok [OF assms(1)]
  let ?b = "ss_budget s" and ?c = "c\<lparr>lc_stage := RESERVED\<rparr>"
  let ?b' = "?b\<lparr>lb_reserved := lb_reserved ?b + 1, lb_architectures := sort (lb_architectures ?b @ [lc_architecture c]),
    lb_equivalences := sort (lb_equivalences ?b @ [lc_equivalence c])\<rparr>"
  have lim: "lb_limit ?b = limit" and b: "budget_ok ?b" and c: "candidate_ok c"
    using assms by (simp_all add: sound_def list_all_iff)
  have f: "find (\<lambda>d. lc_id d = lc_id c) (ss_candidates s) = Some c"
    by (rule find_unique [OF snapshot_ids [OF ok] assms(2)])
  have one: "canonical_ids [lc_id c]" by (simp add: canonical_ids_iff)
  obtain xs ys where split: "ss_candidates s = xs @ c # ys" using assms(2) by (auto simp: in_set_conv_decomp)
  then have "c \<notin> set xs" using snapshot_ids [OF ok] by auto
  then have rep: "replace_first c ?c (ss_candidates s) = xs @ ?c # ys" by (simp add: split replace_first_split)
  have snap: "snapshot_ok (s\<lparr>ss_generation := ss_generation s + 1, ss_candidates := xs @ ?c # ys, ss_budget := ?b',
      ss_decision := ss_decision s + 1\<rparr>)" if "lc_stage c = PREDICTED"
    using that ok by (intro swap_snapshot_ok [of s c ?c]) (auto simp: swapped_def split identity_of_def snapshot_ok_def)
  have bud: "budget_ok ?b'" if "lc_architecture c \<notin> set (lb_architectures ?b)"
    "lc_equivalence c \<notin> set (lb_equivalences ?b)" "lb_reserved ?b < limit"
    using that b c lim by (auto simp: budget_ok_def charged_canonical_def sorted_snoc_canonical candidate_ok_def list_all_iff)
  have cand: "candidate_ok ?c" using c by (simp add: candidate_ok_def)
  show ?thesis
    using one f rep snap bud cand lim
    by (auto simp: reserve_def reserve_one_def guard_Inr budget_init_iff candidate_init_iff snapshot_init_iff
        rbind_Inr_iff split: option.splits)
qed

section \<open>Properties\<close>

text \<open>Two searches to evaluate the properties on.\<close>

definition demo_candidate :: "string \<Rightarrow> lifecycle_candidate" where
  "demo_candidate x = \<lparr>lc_id = lit (''architecture_candidate_'' @ x), lc_architecture = lit (''architecture_'' @ x),
     lc_equivalence = lit (''equivalence_'' @ x), lc_state = lit (''state_'' @ x),
     lc_parent = lit ''checkpoint_root'', lc_predicted_only = False, lc_stage = PREDICTED, lc_evidence = None\<rparr>"

definition demo_evidence :: lifecycle_evidence where
  "demo_evidence = \<lparr>le_evaluation = lit ''evaluation_1'', le_status = MEASURED, le_passed = True,
     le_reason = lit ''measured'', le_cursor = 0\<rparr>"

definition demo_search :: search_snapshot where
  "demo_search = (case lifecycle_create (lit ''search_1'') [demo_candidate ''b'', demo_candidate ''a'']
     (lit ''checkpoint_root'') 2 of Inr s \<Rightarrow> s)"

definition demo_ops :: "lifecycle_op list" where
  "demo_ops = (let a = lit ''architecture_candidate_a'' in
     [Reserve [a], Materialize a, Evaluate a demo_evidence, Accept a (lit ''checkpoint_1'')])"

lemma constructed_ok: "mapM_r candidate_init cs = Inr ds \<Longrightarrow> list_all candidate_ok cs"
  by (induction cs arbitrary: ds) (auto simp: candidate_init_iff)

lemma demo_created:
  "lifecycle_create (lit ''search_1'') [demo_candidate ''b'', demo_candidate ''a''] (lit ''checkpoint_root'') 2
     = Inr demo_search"
  "mapM_r candidate_init [demo_candidate ''b'', demo_candidate ''a''] = Inr [demo_candidate ''b'', demo_candidate ''a'']"
  "list_all (\<lambda>c. lc_stage c = PREDICTED) [demo_candidate ''b'', demo_candidate ''a'']"
  by code_simp+

lemma run_from_create:
  assumes "lifecycle_create search cs root limit = Inr s0" and "mapM_r candidate_init cs = Inr cs"
    and "list_all (\<lambda>c. lc_stage c = PREDICTED) cs"
  shows "sound root limit (lifecycle_run s0 ops)"
  by (rule run_sound [OF create_sound [OF assms(1) constructed_ok [OF assms(2)] assms(3)]])

text \<open>
  C30. In a search created from predicted candidates, after any calls: the budget counts exactly the
  candidates that left the predicted stage and lists exactly their architectures and equivalence classes,
  no architecture and no equivalence class was paid for twice, and the count never exceeds the limit. A
  single candidate can be reserved exactly when it is still predicted, neither of its identities has
  been charged, and an evaluation is left.
\<close>

theorem budget_exact:
  assumes "lifecycle_create search cs root limit = Inr s0" and "mapM_r candidate_init cs = Inr cs"
    and "list_all (\<lambda>c. lc_stage c = PREDICTED) cs"
    and "s = lifecycle_run s0 ops" and "paid_for = filter (\<lambda>c. lc_stage c \<noteq> PREDICTED) (ss_candidates s)"
  shows "lb_limit (ss_budget s) = limit \<and> lb_reserved (ss_budget s) = int (length paid_for)
    \<and> int (length paid_for) \<le> limit
    \<and> lb_architectures (ss_budget s) = sort (map lc_architecture paid_for)
    \<and> lb_equivalences (ss_budget s) = sort (map lc_equivalence paid_for)
    \<and> distinct (map lc_architecture paid_for) \<and> distinct (map lc_equivalence paid_for)
    \<and> (\<forall>c \<in> set (ss_candidates s). (\<exists>s'. reserve s [lc_id c] = Inr s')
         \<longleftrightarrow> lc_stage c = PREDICTED \<and> lc_architecture c \<notin> lc_architecture ` set paid_for
           \<and> lc_equivalence c \<notin> lc_equivalence ` set paid_for \<and> int (length paid_for) < limit)"
proof -
  have snd: "sound root limit s" using run_from_create [OF assms(1-3)] assms(4) by simp
  have b: "lb_reserved (ss_budget s) = int (length paid_for)"
    "lb_architectures (ss_budget s) = sort (map lc_architecture paid_for)"
    "lb_equivalences (ss_budget s) = sort (map lc_equivalence paid_for)"
    using sound_paid [OF snd] assms(5) by (simp_all add: paid_def charged_def)
  have ok: "lb_limit (ss_budget s) = limit" "lb_reserved (ss_budget s) \<le> lb_limit (ss_budget s)"
    "distinct (lb_architectures (ss_budget s))" "distinct (lb_equivalences (ss_budget s))"
    using snd by (simp_all add: sound_def budget_ok_def charged_canonical_def canonical_ids_iff)
  have "distinct (map lc_architecture paid_for)" "distinct (map lc_equivalence paid_for)"
    using ok(3,4) unfolding b by simp_all
  moreover have "(\<exists>s'. reserve s [lc_id c] = Inr s') \<longleftrightarrow> lc_stage c = PREDICTED
      \<and> lc_architecture c \<notin> lc_architecture ` set paid_for \<and> lc_equivalence c \<notin> lc_equivalence ` set paid_for
      \<and> int (length paid_for) < limit" if "c \<in> set (ss_candidates s)" for c
    using reserve_exact [OF snd that] by (simp add: b)
  ultimately show ?thesis using b ok by auto
qed

theorem budget_exact_witness:
  "lb_reserved (ss_budget (lifecycle_run demo_search demo_ops)) = 1
   \<and> map lc_stage (ss_candidates (lifecycle_run demo_search demo_ops)) = [ACCEPTED, PREDICTED]"
proof -
  have run: "map lc_stage (ss_candidates (lifecycle_run demo_search demo_ops)) = [ACCEPTED, PREDICTED]"
    "length (filter (\<lambda>c. lc_stage c \<noteq> PREDICTED) (ss_candidates (lifecycle_run demo_search demo_ops))) = 1"
    by code_simp+
  show ?thesis using budget_exact [OF demo_created refl refl, of demo_ops] run by simp
qed

text \<open>
  C31. The frontier of such a search is always exactly its accepted candidates; each of them passed a
  measured evaluation and was not predicted only; and the lineage holds the root and one checkpoint of
  its own per acceptance. A candidate can be accepted exactly when it was evaluated with passing measured
  evidence, was not predicted only, and the checkpoint is canonical and not in the lineage yet.
\<close>

theorem frontier_exact:
  assumes "lifecycle_create search cs root limit = Inr s0" and "mapM_r candidate_init cs = Inr cs"
    and "list_all (\<lambda>c. lc_stage c = PREDICTED) cs"
    and "s = lifecycle_run s0 ops" and "accepted = filter (\<lambda>c. lc_stage c = ACCEPTED) (ss_candidates s)"
  shows "set (ss_frontier s) = lc_id ` set accepted
    \<and> (\<forall>c \<in> set accepted. \<not> lc_predicted_only c \<and> passing (lc_evidence c))
    \<and> root \<in> set (ss_lineage s) \<and> distinct (ss_lineage s) \<and> length (ss_lineage s) = Suc (length accepted)
    \<and> (\<forall>c \<in> set (ss_candidates s). \<forall>checkpoint. (\<exists>s'. accept_candidate s (lc_id c) checkpoint = Inr s')
         \<longleftrightarrow> lc_stage c = EVALUATED \<and> \<not> lc_predicted_only c \<and> passing (lc_evidence c)
           \<and> starts_with ''checkpoint_'' checkpoint \<and> checkpoint \<notin> set (ss_lineage s))"
proof -
  have snd: "sound root limit s" using run_from_create [OF assms(1-3)] assms(4) by simp
  then have "set (ss_frontier s) = lc_id ` set accepted" "length (ss_lineage s) = Suc (length accepted)"
    "root \<in> set (ss_lineage s)" "distinct (ss_lineage s)" "list_all candidate_ok (ss_candidates s)"
    using assms(5) by (simp_all add: sound_def accepted_ids_def snapshot_ok_def canonical_ids_iff)
  moreover from this(5) have "\<forall>c \<in> set accepted. \<not> lc_predicted_only c \<and> passing (lc_evidence c)"
    using assms(5) by (auto simp: list_all_iff candidate_ok_def)
  ultimately show ?thesis using accept_exact [OF snd] by blast
qed

theorem frontier_exact_witness:
  "ss_frontier (lifecycle_run demo_search demo_ops) = [lit ''architecture_candidate_a'']
   \<and> length (ss_lineage (lifecycle_run demo_search demo_ops)) = 2"
proof -
  have run: "length (filter (\<lambda>c. lc_stage c = ACCEPTED) (ss_candidates (lifecycle_run demo_search demo_ops))) = 1"
    "ss_frontier (lifecycle_run demo_search demo_ops) = [lit ''architecture_candidate_a'']"
    by code_simp+
  show ?thesis using frontier_exact [OF demo_created refl refl, of demo_ops] run by simp
qed

text \<open>
  C32. From any snapshot that its constructor accepts, no call can lose what was measured: whatever is called, the
  result is again a snapshot its constructor accepts, with the same candidates in the same places, each of
  which kept its identity, moved only forward along the stages, kept from the evaluated stage on the evidence
  it was evaluated with (evidence given to a constructor before that stage may be replaced), and is frozen once accepted, rejected or failed; the lineage, the frontier, the generation and both
  cursors only grow.
\<close>

theorem stages_only_advance:
  assumes "snapshot_init s = Inr s" and "s' = lifecycle_run s ops"
  shows "snapshot_init s' = Inr s' \<and> list_all2 advances (ss_candidates s) (ss_candidates s')
    \<and> set (ss_lineage s) \<subseteq> set (ss_lineage s') \<and> set (ss_frontier s) \<subseteq> set (ss_frontier s')
    \<and> ss_generation s \<le> ss_generation s' \<and> ss_generation s' \<le> ss_generation s + int (length ops)
    \<and> ss_decision s \<le> ss_decision s' \<and> ss_evidence s \<le> ss_evidence s'"
  using run_progressed [of s ops] assms by (simp add: snapshot_init_iff progressed_def)

theorem stages_only_advance_witness:
  "list_all2 advances (ss_candidates demo_search) (ss_candidates (lifecycle_run demo_search demo_ops))
   \<and> ss_generation (lifecycle_run demo_search demo_ops) = 4"
proof -
  have "snapshot_init demo_search = Inr demo_search" "ss_generation (lifecycle_run demo_search demo_ops) = 4"
    by code_simp+
  then show ?thesis using stages_only_advance [OF _ refl, of demo_search demo_ops] by simp
qed

text \<open>
  A reservation that is not a prefix of what \<open>next_decision_ids\<close> returns moves the cursor past candidates
  that are still predicted, and they are never proposed again.
\<close>

lemma reservation_hides_candidate:
  "lifecycle_step demo_search (Reserve [lit ''architecture_candidate_b'']) = Inr (lifecycle_run demo_search
     [Reserve [lit ''architecture_candidate_b'']])
   \<and> map lc_stage (ss_candidates (lifecycle_run demo_search [Reserve [lit ''architecture_candidate_b'']]))
     = [PREDICTED, RESERVED]
   \<and> next_decision_ids (lifecycle_run demo_search [Reserve [lit ''architecture_candidate_b'']]) 2 = Inr []"
  by code_simp

end
