(* ===== verification/PyJsonParse.thy ===== *)
theory PyJsonParse
  imports PyJsonText PyFloat "HOL-Library.AList"
begin

text \<open>
  \<open>json.loads(text)\<close> of the standard library (its C scanner, strict): strings with their escapes and
  surrogate pairs, integers under the digit limit, floats rounded to binary64, the three constants it
  adds to JSON, and objects as dictionaries in which a repeated key keeps its place and its last value.
  The one thing not modelled is the interpreter's recursion limit on nested documents. The depth of the
  recursion is bounded by a fuel computed from the length of the text, which is always enough. The
  last section shows that a canonical document is what reading its text gives.
\<close>

section \<open>Scanning\<close>

text \<open>\<open>JSONDecodeError\<close>, and the \<open>ValueError\<close> of an integer with too many digits.\<close>

datatype json_error = JsonDecode | JsonDigits

definition is_json_space :: "nat \<Rightarrow> bool" where
  "is_json_space c \<longleftrightarrow> c = 0x20 \<or> c = 0x09 \<or> c = 0x0A \<or> c = 0x0D"

definition skip_space :: "pystr \<Rightarrow> pystr" where
  "skip_space = dropWhile is_json_space"

definition strip_prefix :: "pystr \<Rightarrow> pystr \<Rightarrow> pystr option" where
  "strip_prefix p s = (if take (length p) s = p then Some (drop (length p) s) else None)"

definition hex4 :: "nat \<Rightarrow> nat \<Rightarrow> nat \<Rightarrow> nat \<Rightarrow> nat option" where
  "hex4 a b c d =
     (case (hex_value a, hex_value b, hex_value c, hex_value d) of
        (Some w, Some x, Some y, Some z) \<Rightarrow> Some (w * 4096 + x * 256 + y * 16 + z)
      | _ \<Rightarrow> None)"

definition simple_escape :: "nat \<Rightarrow> nat option" where
  "simple_escape e =
     (if e = 0x22 \<or> e = 0x5C \<or> e = 0x2F then Some e
      else if e = 0x62 then Some 0x08
      else if e = 0x66 then Some 0x0C
      else if e = 0x6E then Some 0x0A
      else if e = 0x72 then Some 0x0D
      else if e = 0x74 then Some 0x09 else None)"

text \<open>The low half of a surrogate pair, if the text goes on with one.\<close>

definition low_surrogate :: "pystr \<Rightarrow> nat option" where
  "low_surrogate s =
     (case s of
        x # u # a # b # c # d # _ \<Rightarrow>
          if x = 0x5C \<and> u = 0x75
          then (case hex4 a b c d of
                  Some l \<Rightarrow> if 0xDC00 \<le> l \<and> l \<le> 0xDFFF then Some l else None
                | None \<Rightarrow> None)
          else None
      | _ \<Rightarrow> None)"

definition cons_char :: "nat \<Rightarrow> json_error + pystr \<times> pystr \<Rightarrow> json_error + pystr \<times> pystr" where
  "cons_char c r = rbind r (\<lambda>(x, rest). Inr (c # x, rest))"

text \<open>From behind the opening quote: the characters and what follows the closing quote.\<close>

fun scan_string :: "pystr \<Rightarrow> json_error + pystr \<times> pystr" where
  "scan_string [] = Inl JsonDecode"
| "scan_string (ch # r) =
     (if ch = 0x22 then Inr ([], r)
      else if ch < 0x20 then Inl JsonDecode
      else if ch \<noteq> 0x5C then cons_char ch (scan_string r)
      else
        (case r of
           [] \<Rightarrow> Inl JsonDecode
         | e # r1 \<Rightarrow>
             if e \<noteq> 0x75 then
               (case simple_escape e of
                  None \<Rightarrow> Inl JsonDecode
                | Some x \<Rightarrow> cons_char x (scan_string r1))
             else
               (case r1 of
                  a # b # c # d # r2 \<Rightarrow>
                    (case hex4 a b c d of
                       None \<Rightarrow> Inl JsonDecode
                     | Some u \<Rightarrow>
                         (case (if 0xD800 \<le> u \<and> u \<le> 0xDBFF then low_surrogate r2 else None) of
                            Some l \<Rightarrow>
                              cons_char (0x10000 + (u - 0xD800) * 1024 + (l - 0xDC00)) (scan_string (drop 6 r2))
                          | None \<Rightarrow> cons_char u (scan_string r2)))
                | _ \<Rightarrow> Inl JsonDecode)))"

text \<open>
  The binary64 pattern of \<open>m * 10 ^ e\<close>, correctly rounded. For a negative exponent the quotient is
  taken to more than 64 bits and its last bit says whether a remainder was left, which rounds like the
  exact value.
\<close>

definition decimal_magnitude :: "nat \<Rightarrow> int \<Rightarrow> nat" where
  "decimal_magnitude m e =
     (let r =
        (if 0 \<le> e then ieee_pack 52 1023 (m * 10 ^ nat e) 0
         else
           let k = 10 ^ nat (- e); s = 66 + bitlen k; n = m * 2 ^ s in
           ieee_pack 52 1023 (2 * (n div k) + (if n mod k = 0 then 0 else 1)) (- int s - 1))
      in min r (2047 * 2 ^ 52))"

definition json_float :: "bool \<Rightarrow> pystr \<Rightarrow> pystr \<Rightarrow> int \<Rightarrow> json" where
  "json_float negative whole frac e =
     JFloat ((if negative then 2 ^ 63 else 0)
       + decimal_magnitude (decimal_value (whole @ frac)) (e - int (length frac)))"

text \<open>The optional fraction and exponent behind the digits of a number.\<close>

definition scan_fraction :: "pystr \<Rightarrow> pystr option \<times> pystr" where
  "scan_fraction s =
     (case s of
        p # d # r \<Rightarrow>
          if p = 0x2E \<and> is_digit d then (Some (takeWhile is_digit (d # r)), dropWhile is_digit (d # r)) else (None, s)
      | _ \<Rightarrow> (None, s))"

definition scan_exponent :: "pystr \<Rightarrow> int option \<times> pystr" where
  "scan_exponent s =
     (case s of
        [] \<Rightarrow> (None, s)
      | x # r \<Rightarrow>
          let negative = (r \<noteq> [] \<and> hd r = 0x2D);
              ds = (if negative \<or> (r \<noteq> [] \<and> hd r = 0x2B) then tl r else r);
              value = int (decimal_value (takeWhile is_digit ds))
          in
          if (x = 0x65 \<or> x = 0x45) \<and> takeWhile is_digit ds \<noteq> []
          then (Some (if negative then - value else value), dropWhile is_digit ds)
          else (None, s))"

definition scan_number :: "bool \<Rightarrow> pystr \<Rightarrow> json_error + json \<times> pystr" where
  "scan_number negative s =
     (case s of
        [] \<Rightarrow> Inl JsonDecode
      | d # r \<Rightarrow>
          if \<not> is_digit d then Inl JsonDecode
          else
            let whole = (if d = 0x30 then [d] else takeWhile is_digit s);
                rest = drop (length whole) s;
                (frac, rest) = scan_fraction rest;
                (e, rest) = scan_exponent rest
            in
            if frac = None \<and> e = None
            then rbind (of_option JsonDigits (py_int_digits whole)) (\<lambda>i. Inr (JInt (if negative then - i else i), rest))
            else Inr (json_float negative whole (case frac of Some f \<Rightarrow> f | None \<Rightarrow> [])
                        (case e of Some x \<Rightarrow> x | None \<Rightarrow> 0), rest))"

definition JSON_CONSTANTS :: "(pystr \<times> json) list" where
  "JSON_CONSTANTS =
     [(lit ''null'', JNull), (lit ''true'', JBool True), (lit ''false'', JBool False),
      (lit ''NaN'', JFloat (2047 * 2 ^ 52 + 2 ^ 51)), (lit ''Infinity'', JFloat (2047 * 2 ^ 52)),
      (lit ''-Infinity'', JFloat (2 ^ 63 + 2047 * 2 ^ 52))]"

fun scan_constant :: "(pystr \<times> json) list \<Rightarrow> pystr \<Rightarrow> (json \<times> pystr) option" where
  "scan_constant [] s = None"
| "scan_constant ((p, v) # rest) s =
     (case strip_prefix p s of Some r \<Rightarrow> Some (v, r) | None \<Rightarrow> scan_constant rest s)"

definition json_scalar :: "pystr \<Rightarrow> json_error + json \<times> pystr" where
  "json_scalar s =
     (case scan_constant JSON_CONSTANTS s of
        Some x \<Rightarrow> Inr x
      | None \<Rightarrow> if s \<noteq> [] \<and> hd s = 0x2D then scan_number True (tl s) else scan_number False s)"

definition expect :: "nat \<Rightarrow> pystr \<Rightarrow> json_error + pystr" where
  "expect c s = (if s \<noteq> [] \<and> hd s = c then Inr (tl s) else Inl JsonDecode)"

text \<open>A key and its colon: from the opening quote to the value.\<close>

definition scan_key :: "pystr \<Rightarrow> json_error + pystr \<times> pystr" where
  "scan_key s =
     rbind (expect 0x22 s) (\<lambda>r.
     rbind (scan_string r) (\<lambda>(k, r).
     rbind (expect 0x3A (skip_space r)) (\<lambda>r.
     Inr (k, skip_space r))))"

section \<open>Values\<close>

fun json_value :: "nat \<Rightarrow> pystr \<Rightarrow> json_error + json \<times> pystr"
and json_members :: "nat \<Rightarrow> (pystr \<times> json) list \<Rightarrow> pystr \<Rightarrow> json_error + json \<times> pystr"
and json_elements :: "nat \<Rightarrow> json list \<Rightarrow> pystr \<Rightarrow> json_error + json \<times> pystr" where
  "json_value 0 s = Inl JsonDecode"
| "json_value (Suc n) s =
     (case s of
        [] \<Rightarrow> Inl JsonDecode
      | c # r \<Rightarrow>
          if c = 0x22 then rbind (scan_string r) (\<lambda>(x, r). Inr (JStr x, r))
          else if c = 0x7B then
            (case expect 0x7D (skip_space r) of
               Inr r \<Rightarrow> Inr (JObj [], r)
             | Inl _ \<Rightarrow> json_members n [] (skip_space r))
          else if c = 0x5B then
            (case expect 0x5D (skip_space r) of
               Inr r \<Rightarrow> Inr (JList [], r)
             | Inl _ \<Rightarrow> json_elements n [] (skip_space r))
          else json_scalar s)"
| "json_members 0 acc s = Inl JsonDecode"
| "json_members (Suc n) acc s =
     rbind (scan_key s) (\<lambda>(k, r).
     rbind (json_value n r) (\<lambda>(v, r).
     let r = skip_space r; acc = AList.update k v acc in
     case expect 0x7D r of
       Inr r \<Rightarrow> Inr (JObj acc, r)
     | Inl _ \<Rightarrow> rbind (expect 0x2C r) (\<lambda>r. json_members n acc (skip_space r))))"
| "json_elements 0 acc s = Inl JsonDecode"
| "json_elements (Suc n) acc s =
     rbind (json_value n s) (\<lambda>(v, r).
     let r = skip_space r; acc = acc @ [v] in
     case expect 0x5D r of
       Inr r \<Rightarrow> Inr (JList acc, r)
     | Inl _ \<Rightarrow> rbind (expect 0x2C r) (\<lambda>r. json_elements n acc (skip_space r)))"

definition json_loads :: "pystr \<Rightarrow> json_error + json" where
  "json_loads text =
     rbind (json_value (2 * length text + 1) (skip_space text)) (\<lambda>(v, r).
     if skip_space r = [] then Inr v else Inl JsonDecode)"


section \<open>Every scanner consumes its text\<close>

lemma skip_space_length: "length (skip_space s) \<le> length s"
  by (simp add: skip_space_def length_dropWhile_le)

lemma expect_length: "expect c s = Inr r \<Longrightarrow> length r < length s"
  by (cases s) (auto simp: expect_def split: if_splits)

lemma cons_char_Inr: "cons_char c r = Inr (x, rest) \<longleftrightarrow> (\<exists>y. x = c # y \<and> r = Inr (y, rest))"
  by (auto simp: cons_char_def rbind_Inr_iff)

lemma scan_string_length: "scan_string s = Inr (x, r) \<Longrightarrow> length r < length s"
proof (induction s arbitrary: x r rule: measure_induct_rule [where f = length])
  case (less s)
  have IH: "length r < length s" if "scan_string y = Inr (z, r)" and "length y < length s" for y z
    using less.IH [OF that(2,1)] that(2) by simp
  show ?case
    using less.prems
    by (cases s rule: scan_string.cases)
      (auto simp: cons_char_Inr split: if_splits list.splits option.splits dest!: IH)
qed

lemma scan_fraction_length: "length (snd (scan_fraction s)) \<le> length s"
  by (auto simp: scan_fraction_def split: list.splits intro: le_trans [OF length_dropWhile_le])

lemma scan_exponent_length: "length (snd (scan_exponent s)) \<le> length s"
proof (cases s)
  case (Cons x r)
  have "length (dropWhile is_digit ds) \<le> Suc (length r)" if "length ds \<le> length r" for ds
    using that length_dropWhile_le [of is_digit ds] by simp
  with Cons show ?thesis by (simp add: scan_exponent_def Let_def)
qed (simp add: scan_exponent_def)

lemma scan_number_length:
  assumes "scan_number negative s = Inr (v, r)"
  shows "length r < length s"
proof (cases s)
  case Nil
  with assms show ?thesis by (simp add: scan_number_def)
next
  case (Cons d t)
  define whole where "whole = (if d = 0x30 then [d] else takeWhile is_digit s)"
  have d: "is_digit d" using assms Cons by (auto simp: scan_number_def split: if_splits)
  then have "0 < length whole" using Cons by (simp add: whole_def)
  moreover obtain frac r1 where 1: "scan_fraction (drop (length whole) s) = (frac, r1)" by fastforce
  moreover obtain e r2 where 2: "scan_exponent r1 = (e, r2)" by fastforce
  moreover have "r = r2"
    using assms Cons d 1 2 unfolding scan_number_def whole_def [symmetric]
    by (auto simp: Let_def whole_def rbind_Inr_iff split: if_splits)
  ultimately show ?thesis
    using scan_fraction_length [of "drop (length whole) s"] scan_exponent_length [of r1] Cons
    by (simp flip: length_greater_0_conv)
qed

lemma json_scalar_length: "json_scalar s = Inr (v, r) \<Longrightarrow> length r < length s"
proof -
  have const: "scan_constant cs s = Some (v, r) \<Longrightarrow> list_all (\<lambda>(p, _). p \<noteq> []) cs \<Longrightarrow> length r < length s" for cs
    by (induction cs) (auto simp: strip_prefix_def split: if_splits, metis length_drop length_greater_0_conv
        diff_less length_0_conv take_eq_Nil)
  assume "json_scalar s = Inr (v, r)"
  then show ?thesis
    using const [of JSON_CONSTANTS] scan_number_length [of True "tl s" v r] scan_number_length [of False s v r]
    by (auto simp: json_scalar_def JSON_CONSTANTS_def lit_simps split: option.splits if_splits)
qed

lemma scan_key_length: "scan_key s = Inr (k, r) \<Longrightarrow> Suc (length r) < length s"
proof -
  assume "scan_key s = Inr (k, r)"
  then obtain r1 r2 r3 where 1: "expect 0x22 s = Inr r1" and 2: "scan_string r1 = Inr (k, r2)"
    and 3: "expect 0x3A (skip_space r2) = Inr r3" and r: "r = skip_space r3"
    by (auto simp: scan_key_def)
  show ?thesis
    using expect_length [OF 1] scan_string_length [OF 2] expect_length [OF 3]
      skip_space_length [of r2] skip_space_length [of r3] r by simp
qed

section \<open>The fuel is enough\<close>

lemma json_rest_shorter:
  "json_value n s = Inr (v, r) \<Longrightarrow> length r < length s"
  "json_members n acc s = Inr (v, r) \<Longrightarrow> length r < length s"
  "json_elements n bs s = Inr (v, r) \<Longrightarrow> length r < length s"
proof (induction n s and n acc s and n bs s arbitrary: v r and v r and v r
    rule: json_value_json_members_json_elements.induct)
  case (2 n s)
  show ?case
  proof (cases s)
    case (Cons c t)
    have tail: "length r < length (skip_space t) \<Longrightarrow> length r < Suc (length t)" for r :: pystr
      using skip_space_length [of t] by simp
    have mem: "json_members n [] (skip_space t) = Inr (v, r) \<Longrightarrow> length r < Suc (length t)" if "c = 0x7B" "expect 0x7D (skip_space t) = Inl e" for e
      using 2(1) [OF Cons _ that] that tail by simp
    have els: "json_elements n [] (skip_space t) = Inr (v, r) \<Longrightarrow> length r < Suc (length t)" if "c = 0x5B" "expect 0x5D (skip_space t) = Inl e" for e
      using 2(2) [OF Cons _ _ that] that tail by simp
    show ?thesis
      using 2(3) Cons
      by (auto split: if_splits sum.splits dest: scan_string_length expect_length mem els tail json_scalar_length)
  qed (use 2 in simp)
next
  case (4 n acc s)
  from 4(3) obtain k r1 w r2 where 1: "scan_key s = Inr (k, r1)" "json_value n r1 = Inr (w, r2)" by auto
  have 2: "length r2 < length r1" by (rule 4(1) [OF 1(1) refl 1(2)])
  have 3: "length r1 < length s" using scan_key_length [OF 1(1)] by simp
  note IH = 4(2) [OF 1(1) refl 1(2) refl refl refl]
  show ?case
  proof (cases "expect 0x7D (skip_space r2)")
    case (Inr r3)
    with 4(3) 1 2 3 show ?thesis
      using expect_length [OF Inr] skip_space_length [of r2] by (auto simp: Let_def)
  next
    case (Inl e)
    with 4(3) 1 obtain r3 where 5: "expect 0x2C (skip_space r2) = Inr r3"
      and "json_members n (AList.update k w acc) (skip_space r3) = Inr (v, r)" by (auto simp: Let_def)
    from IH [OF Inl 5 this(2)] show ?thesis
      using 2 3 expect_length [OF 5] skip_space_length [of r2] skip_space_length [of r3] by linarith
  qed
next
  case (6 n bs s)
  from 6(3) obtain w r2 where 1: "json_value n s = Inr (w, r2)" by auto
  have 2: "length r2 < length s" by (rule 6(1) [OF 1])
  note IH = 6(2) [OF 1 refl refl refl]
  show ?case
  proof (cases "expect 0x5D (skip_space r2)")
    case (Inr r3)
    with 6(3) 1 2 show ?thesis
      using expect_length [OF Inr] skip_space_length [of r2] by (auto simp: Let_def)
  next
    case (Inl e)
    with 6(3) 1 obtain r3 where 5: "expect 0x2C (skip_space r2) = Inr r3"
      and "json_elements n (bs @ [w]) (skip_space r3) = Inr (v, r)" by (auto simp: Let_def)
    from IH [OF Inl 5 this(2)] show ?thesis
      using 2 expect_length [OF 5] skip_space_length [of r2] skip_space_length [of r3] by linarith
  qed
qed simp_all

lemma json_more_fuel:
  "2 * length s + 1 \<le> n \<Longrightarrow> json_value (n + k) s = json_value n s"
  "2 * length s + 2 \<le> n \<Longrightarrow> json_members (n + k) acc s = json_members n acc s"
  "2 * length s + 2 \<le> n \<Longrightarrow> json_elements (n + k) bs s = json_elements n bs s"
proof (induction n s and n acc s and n bs s rule: json_value_json_members_json_elements.induct)
  case (2 n s)
  show ?case
  proof (cases s)
    case (Cons c t)
    have fuel: "2 * length (skip_space t) + 2 \<le> n" using 2(3) Cons skip_space_length [of t] by simp
    have "json_members (n + k) [] (skip_space t) = json_members n [] (skip_space t)"
      if "c = 0x7B" "expect 0x7D (skip_space t) = Inl e" for e
      using 2(1) [OF Cons _ that fuel] that by simp
    moreover have "json_elements (n + k) [] (skip_space t) = json_elements n [] (skip_space t)"
      if "c = 0x5B" "expect 0x5D (skip_space t) = Inl e" for e
      using 2(2) [OF Cons _ _ that fuel] that by simp
    ultimately show ?thesis using Cons by (auto split: sum.splits)
  qed simp
next
  case (4 n acc s)
  have step: "rbind (json_value (n + k) r) f = rbind (json_value n r) g"
    if "scan_key s = Inr (key, r)"
      and "\<And>w r2. json_value n r = Inr (w, r2) \<Longrightarrow> f (w, r2) = g (w, r2)"
    for key r and f g :: "json \<times> pystr \<Rightarrow> json_error + json \<times> pystr"
    using 4(1) [OF that(1) refl] 4(3) scan_key_length [OF that(1)] that(2)
    by (cases "json_value n r") auto
  have rest: "json_members (n + k) (AList.update key w acc) (skip_space r3)
      = json_members n (AList.update key w acc) (skip_space r3)"
    if "scan_key s = Inr (key, r)" and "json_value n r = Inr (w, r2)"
      and "expect 0x7D (skip_space r2) = Inl e" and "expect 0x2C (skip_space r2) = Inr r3" for key r w r2 e r3
    using 4(2) [OF that(1) refl that(2) refl refl refl that(3,4)] 4(3) scan_key_length [OF that(1)]
      json_rest_shorter(1) [OF that(2)] expect_length [OF that(4)] skip_space_length [of r2]
      skip_space_length [of r3] by simp
  show ?case
    by (auto intro!: rbind_cong [OF refl] step simp: Let_def rest split: sum.splits)
next
  case (6 n bs s)
  have step: "json_value (n + k) s = json_value n s" using 6(1,3) by simp
  have rest: "json_elements (n + k) (bs @ [w]) (skip_space r3) = json_elements n (bs @ [w]) (skip_space r3)"
    if "json_value n s = Inr (w, r2)" and "expect 0x5D (skip_space r2) = Inl e"
      and "expect 0x2C (skip_space r2) = Inr r3" for w r2 e r3
    using 6(2) [OF that(1) refl refl refl that(2,3)] 6(3) json_rest_shorter(1) [OF that(1)]
      expect_length [OF that(3)] skip_space_length [of r2] skip_space_length [of r3] by simp
  show ?case
    by (auto intro!: rbind_cong [OF refl] simp: step Let_def rest split: sum.splits)
qed simp_all

lemma json_loads_fuel:
  assumes "2 * length text + 1 \<le> n"
  shows "json_loads text = rbind (json_value n (skip_space text)) (\<lambda>(v, r).
     if skip_space r = [] then Inr v else Inl JsonDecode)"
  using json_more_fuel(1) [of "skip_space text" "2 * length text + 1" "n - (2 * length text + 1)"]
    assms skip_space_length [of "text"]
  by (simp add: json_loads_def)

section \<open>Reading a printed document\<close>

text \<open>Documents without floats whose objects have their keys in order: what canonical texts stand for.\<close>

fun json_plain :: "json \<Rightarrow> bool" where
  "json_plain (JFloat _) = False"
| "json_plain (JList vs) = list_all json_plain vs"
| "json_plain (JObj kvs) = (sorted_wrt (<) (map fst kvs) \<and> list_all (\<lambda>(_, v). json_plain v) kvs)"
| "json_plain _ = True"

definition ends_value :: "pystr \<Rightarrow> bool" where
  "ends_value rest \<longleftrightarrow> rest = [] \<or> hd rest = 0x2C \<or> hd rest = 0x5D \<or> hd rest = 0x7D"

lemma hex_value_lower [simp]: "d < 16 \<Longrightarrow> hex_value (lower_hex d) = Some d"
  by (auto simp: hex_value_def lower_hex_def)

lemma scan_json_char:
  "scan_string (json_char_unicode c @ r) = cons_char c (scan_string r)"
proof (cases "c < 0x20")
  case True
  have "hex4 (lower_hex (c div 4096 mod 16)) (lower_hex (c div 256 mod 16)) (lower_hex (c div 16 mod 16))
      (lower_hex (c mod 16)) = Some c"
    using True by (simp add: hex4_def)
  with True show ?thesis
    by (auto simp: json_char_unicode_def json_char_def unicode_escape_def simple_escape_def)
next
  case False
  then show ?thesis by (auto simp: json_char_unicode_def json_char_def simple_escape_def)
qed

lemma scan_json_string: "scan_string (concat (map json_char_unicode x) @ 0x22 # r) = Inr (x, r)"
  by (induction x) (simp_all add: scan_json_char cons_char_def)

lemma scan_number_whole:
  assumes "is_digit d" and "(if d = 0x30 then [d] else takeWhile is_digit (d # r)) = whole"
    and "scan_fraction (drop (length whole) (d # r)) = (None, rest)" and "scan_exponent rest = (None, rest)"
  shows "scan_number negative (d # r)
    = rbind (of_option JsonDigits (py_int_digits whole)) (\<lambda>i. Inr (JInt (if negative then - i else i), rest))"
  unfolding scan_number_def list.case Let_def assms(2,3) using assms(1,4) by simp

lemma scan_integer:
  assumes "py_str_int i = Some t" and "ends_value rest"
  shows "json_scalar (t @ rest) = Inr (JInt i, rest)"
proof -
  define ds where "ds = decimal_digits (nat \<bar>i\<bar>)"
  have ds: "is_numeral ds" "length ds \<le> MAX_STR_DIGITS" "t = (if i < 0 then 0x2D # ds else ds)"
    using assms(1) by (auto simp: py_str_int_def Let_def ds_def decimal_digits_numeral split: if_splits)
  then obtain d ds' where Cons: "ds = d # ds'" and digit: "is_digit d" by (cases ds) (auto simp: is_numeral_def)
  have tw: "takeWhile is_digit (ds @ rest) = ds"
    using ds(1) assms(2) by (cases rest) (auto simp: is_numeral_def list_all_iff takeWhile_append2 ends_value_def is_digit_def)
  have whole: "(if d = 0x30 then [d] else takeWhile is_digit (ds @ rest)) = ds"
    using ds(1) Cons tw by (auto simp: is_numeral_def)
  have frac: "scan_fraction rest = (None, rest)"
    using assms(2) by (auto simp: scan_fraction_def ends_value_def split: list.splits)
  have ex: "scan_exponent rest = (None, rest)"
    using assms(2) by (auto simp: scan_exponent_def ends_value_def Let_def split: list.splits)
  have split: "d # ds' @ rest = ds @ rest" by (simp add: Cons)
  have magnitude: "py_int_digits ds = Some \<bar>i\<bar>" using ds(2) by (simp add: py_int_digits_def) (simp add: ds_def)
  have number: "scan_number negative (d # ds' @ rest) = Inr (JInt (if negative then - \<bar>i\<bar> else \<bar>i\<bar>), rest)" for negative
    using scan_number_whole [OF digit, of "ds' @ rest" ds rest negative] whole frac ex
    unfolding split by (simp add: magnitude)
  have const: "scan_constant JSON_CONSTANTS (t @ rest) = None"
    using ds(3) Cons digit
    by (auto simp: JSON_CONSTANTS_def strip_prefix_def lit_simps is_digit_def take_Cons')
  show ?thesis
    using digit number [of "i < 0"] const unfolding json_scalar_def ds(3) Cons
    by (auto simp: is_digit_def split: if_splits)
qed

lemma json_text_hd:
  assumes "json_text esc v = Some t"
  obtains c r where "t = c # r" and "\<not> is_json_space c" and "c \<noteq> 0x5D" and "c \<noteq> 0x7D"
proof -
  have "t \<noteq> [] \<and> \<not> is_json_space (hd t) \<and> hd t \<noteq> 0x5D \<and> hd t \<noteq> 0x7D"
  proof (cases v)
    case (JInt i)
    obtain d ds where "decimal_digits (nat \<bar>i\<bar>) = d # ds" by (cases "decimal_digits (nat \<bar>i\<bar>)") auto
    moreover from this have "is_digit d"
      using decimal_digits_are_digits [of "nat \<bar>i\<bar>"] by (simp add: list_all_iff)
    moreover have "t = (if i < 0 then 0x2D # decimal_digits (nat \<bar>i\<bar>) else decimal_digits (nat \<bar>i\<bar>))"
      using assms JInt by (simp add: py_str_int_def Let_def split: if_splits)
    ultimately show ?thesis by (auto simp: is_json_space_def is_digit_def)
  qed (use assms in \<open>auto simp: lit_simps json_string_def is_json_space_def split: if_splits\<close>)
  then show thesis using that by (cases t) auto
qed

lemma skip_text: "json_text esc v = Some t \<Longrightarrow> skip_space (t @ r) = t @ r"
  by (erule json_text_hd) (simp add: skip_space_def)

lemma skip_space_Cons: "skip_space (c # r) = (if is_json_space c then skip_space r else c # r)"
  by (simp add: skip_space_def)

lemma skip_end: "ends_value r \<Longrightarrow> skip_space r = r"
  by (cases r) (auto simp: ends_value_def skip_space_def is_json_space_def)

lemma expect_text: "json_text esc v = Some t \<Longrightarrow> expect 0x5D (t @ r) = Inl JsonDecode"
  by (erule json_text_hd) (simp add: expect_def)

lemma comma_join_Cons: "comma_join (t # ts) = t @ (if ts = [] then [] else 0x2C # comma_join ts)"
  by (cases ts) (simp_all add: comma_join_def)

lemma all_some_Cons: "all_some (x # xs) = Some ys \<longleftrightarrow> (\<exists>z zs. x = Some z \<and> all_some xs = Some zs \<and> ys = z # zs)"
  by (auto split: option.splits)

text \<open>\<open>reads v\<close>: a value is read back from its text wherever that ends.\<close>

definition reads :: "json \<Rightarrow> bool" where
  "reads v \<longleftrightarrow> (\<forall>t rest n. json_text json_char_unicode v = Some t \<longrightarrow> ends_value rest
     \<longrightarrow> 2 * length (t @ rest) + 1 \<le> n \<longrightarrow> json_value n (t @ rest) = Inr (v, rest))"

lemma reads_textD:
  "reads v \<Longrightarrow> json_text json_char_unicode v = Some t \<Longrightarrow> ends_value rest
     \<Longrightarrow> 2 * length (t @ rest) + 1 \<le> n \<Longrightarrow> json_value n (t @ rest) = Inr (v, rest)"
  by (auto simp: reads_def)

lemma read_elements:
  assumes "list_all reads vs" and "all_some (map (json_text json_char_unicode) vs) = Some ts" and "vs \<noteq> []"
    and "2 * length (comma_join ts @ 0x5D # rest) + 2 \<le> n"
  shows "json_elements n bs (comma_join ts @ 0x5D # rest) = Inr (JList (bs @ vs), rest)"
  using assms
proof (induction vs arbitrary: ts n bs)
  case (Cons v vs)
  from Cons.prems(2) obtain t us where t: "json_text json_char_unicode v = Some t"
    and us: "all_some (map (json_text json_char_unicode) vs) = Some us" and ts: "ts = t # us"
    unfolding list.map all_some_Cons by blast
  from Cons.prems(4) obtain m where n: "n = Suc m" by (cases n) auto
  define rest' where "rest' = (if us = [] then 0x5D # rest else 0x2C # comma_join us @ 0x5D # rest)"
  have split: "comma_join ts @ 0x5D # rest = t @ rest'" by (simp add: ts comma_join_Cons rest'_def)
  have "ends_value rest'" by (simp add: rest'_def ends_value_def)
  moreover have "reads v" using Cons.prems(1) by simp
  moreover have "2 * length (t @ rest') + 1 \<le> m" using Cons.prems(4) unfolding split n by simp
  ultimately have v: "json_value m (t @ rest') = Inr (v, rest')" using t by (blast intro: reads_textD)
  show ?case
  proof (cases "vs = []")
    case True
    with us have "us = []" by simp
    with v True show ?thesis unfolding split n by (simp add: rest'_def skip_end ends_value_def expect_def)
  next
    case False
    then obtain v' vs' where vs: "vs = v' # vs'" by (cases vs) auto
    obtain t' us' where t': "json_text json_char_unicode v' = Some t'" "us = t' # us'"
      using us unfolding vs list.map all_some_Cons by blast
    have skip: "skip_space (comma_join us @ 0x5D # rest) = comma_join us @ 0x5D # rest"
      using skip_text [OF t'(1)] unfolding t'(2) comma_join_Cons by simp
    have fuel: "2 * length (comma_join us @ 0x5D # rest) + 2 \<le> m"
      using Cons.prems(4) unfolding split n rest'_def t'(2) by simp
    have "json_elements m (bs @ [v]) (comma_join us @ 0x5D # rest) = Inr (JList ((bs @ [v]) @ vs), rest)"
      using Cons.prems(1) by (intro Cons.IH us False fuel) simp
    moreover have "us \<noteq> []" using t'(2) by simp
    ultimately show ?thesis
      using v unfolding split n by (simp add: rest'_def skip_end ends_value_def expect_def skip)
  qed
qed simp

abbreviation member_text :: "pystr \<times> pystr \<Rightarrow> pystr" where
  "member_text \<equiv> \<lambda>(k, t). json_string json_char_unicode k @ 0x3A # t"

lemma update_fresh: "k \<notin> fst ` set acc \<Longrightarrow> AList.update k v acc = acc @ [(k, v)]"
  by (induction acc) auto

lemma scan_member_key:
  assumes "json_text json_char_unicode v = Some t"
  shows "scan_key (json_string json_char_unicode k @ 0x3A # t @ r) = Inr (k, t @ r)"
  by (simp add: scan_key_def json_string_def expect_def scan_json_string skip_text [OF assms]
      skip_space_Cons is_json_space_def)

lemma read_members:
  assumes "list_all (\<lambda>(_, v). reads v) kvs"
    and "all_some (map (\<lambda>(k, v). map_option (Pair k) (json_text json_char_unicode v)) kvs) = Some kts"
    and "kvs \<noteq> []" and "distinct (map fst (acc @ kvs))"
    and "2 * length (comma_join (map member_text kts) @ 0x7D # rest) + 2 \<le> n"
  shows "json_members n acc (comma_join (map member_text kts) @ 0x7D # rest) = Inr (JObj (acc @ kvs), rest)"
  using assms
proof (induction kvs arbitrary: kts n acc)
  case (Cons kv kvs)
  obtain k v where kv: "kv = (k, v)" by fastforce
  from Cons.prems(2) obtain t uts where t: "json_text json_char_unicode v = Some t"
    and uts: "all_some (map (\<lambda>(k, v). map_option (Pair k) (json_text json_char_unicode v)) kvs) = Some uts"
    and kts: "kts = (k, t) # uts"
    unfolding kv list.map all_some_Cons by auto
  from Cons.prems(5) obtain m where n: "n = Suc m" by (cases n) auto
  define rest' where "rest' = (if uts = [] then 0x7D # rest else 0x2C # comma_join (map member_text uts) @ 0x7D # rest)"
  have split: "comma_join (map member_text kts) @ 0x7D # rest = json_string json_char_unicode k @ 0x3A # t @ rest'"
    by (simp add: kts comma_join_Cons rest'_def)
  have "ends_value rest'" by (simp add: rest'_def ends_value_def)
  moreover have "reads v" using Cons.prems(1) by (simp add: kv)
  moreover have "2 * length (t @ rest') + 1 \<le> m" using Cons.prems(5) unfolding split n by simp
  ultimately have v: "json_value m (t @ rest') = Inr (v, rest')" using t by (blast intro: reads_textD)
  have fresh: "AList.update k v acc = acc @ [(k, v)]" using Cons.prems(4) by (intro update_fresh) (auto simp: kv)
  note step = scan_member_key [OF t] v fresh
  show ?case
  proof (cases "kvs = []")
    case True
    with uts have "uts = []" by simp
    with step True kv show ?thesis
      unfolding split n by (simp add: rest'_def skip_end ends_value_def expect_def)
  next
    case False
    then obtain kv' kvs' where kvs: "kvs = kv' # kvs'" by (cases kvs) auto
    obtain kt' uts' where uts': "uts = kt' # uts'" using uts unfolding kvs list.map all_some_Cons by blast
    have skip: "skip_space (comma_join (map member_text uts) @ 0x7D # rest) = comma_join (map member_text uts) @ 0x7D # rest"
      unfolding uts' list.map comma_join_Cons
      by (simp add: skip_space_def json_string_def is_json_space_def split: prod.splits)
    have fuel: "2 * length (comma_join (map member_text uts) @ 0x7D # rest) + 2 \<le> m"
      using Cons.prems(5) unfolding split n rest'_def uts' by simp
    have "json_members m (acc @ [(k, v)]) (comma_join (map member_text uts) @ 0x7D # rest)
        = Inr (JObj ((acc @ [(k, v)]) @ kvs), rest)"
      using Cons.prems(1,4) kv by (intro Cons.IH uts False fuel) simp_all
    moreover have "uts \<noteq> []" using uts' by simp
    ultimately show ?thesis
      using step kv unfolding split n by (simp add: rest'_def skip_end ends_value_def expect_def skip)
  qed
qed simp

lemma member_keys:
  "all_some (map (\<lambda>(k, v). map_option (Pair k) (f v)) kvs) = Some kts \<Longrightarrow> map fst kts = map fst kvs"
  by (induction kvs arbitrary: kts) (auto simp: all_some_Cons simp del: all_some.simps(2))

lemma sort_key_sorted: "sorted_wrt (<) (map f xs) \<Longrightarrow> sort_key f xs = xs"
  for f :: "'a \<Rightarrow> 'k::linorder"
  by (rule sort_key_id_if_sorted) (simp add: sorted_wrt_map strict_sorted_imp_sorted sorted_wrt_mono_rel [of _ "\<lambda>x y. f x < f y"])

lemma readsI:
  assumes "\<And>t rest m. json_text json_char_unicode v = Some t \<Longrightarrow> ends_value rest \<Longrightarrow> 2 * length (t @ rest) \<le> m
    \<Longrightarrow> json_value (Suc m) (t @ rest) = Inr (v, rest)"
  shows "reads v"
  unfolding reads_def
proof (intro allI impI)
  fix t rest n
  assume "json_text json_char_unicode v = Some t" "ends_value rest" "2 * length (t @ rest) + 1 \<le> n"
  then show "json_value n (t @ rest) = Inr (v, rest)" using assms [of t rest "n - 1"] by (cases n) auto
qed

lemma plain_reads: "json_plain v \<Longrightarrow> reads v"
proof (induction v)
  case JNull
  show ?case by (rule readsI) (auto simp: json_scalar_def JSON_CONSTANTS_def strip_prefix_def lit_simps)
next
  case (JBool b)
  show ?case
    by (rule readsI)
      (auto simp: json_scalar_def JSON_CONSTANTS_def strip_prefix_def lit_simps split: if_splits)
next
  case (JStr x)
  show ?case by (rule readsI) (auto simp: json_string_def scan_json_string)
next
  case (JInt i)
  show ?case
  proof (rule readsI)
    fix t rest m
    assume t: "json_text json_char_unicode (JInt i) = Some t" and e: "ends_value rest"
    have "hd t = 0x2D \<or> is_digit (hd t)" "t \<noteq> []"
      using t decimal_digits_are_digits [of "nat \<bar>i\<bar>"]
      by (auto simp: py_str_int_def Let_def list_all_iff hd_in_set split: if_splits)
    then obtain c r where "t = c # r" "c \<noteq> 0x22" "c \<noteq> 0x7B" "c \<noteq> 0x5B" by (cases t) (auto simp: is_digit_def)
    then show "json_value (Suc m) (t @ rest) = Inr (JInt i, rest)"
      using scan_integer [of i t rest] t e by simp
  qed
next
  case (JList vs)
  show ?case
  proof (rule readsI)
    fix t rest m
    assume t: "json_text json_char_unicode (JList vs) = Some t" and e: "ends_value rest"
      and m: "2 * length (t @ rest) \<le> m"
    from t obtain ts where ts: "all_some (map (json_text json_char_unicode) vs) = Some ts"
      and eq: "t = 0x5B # comma_join ts @ [0x5D]" by auto
    have all: "list_all reads vs" using JList by (auto simp: list_all_iff)
    show "json_value (Suc m) (t @ rest) = Inr (JList vs, rest)"
    proof (cases vs)
      case Nil
      with ts show ?thesis by (simp add: eq comma_join_def skip_space_Cons is_json_space_def expect_def)
    next
      case (Cons v vs')
      then obtain t1 ts' where t1: "json_text json_char_unicode v = Some t1" "ts = t1 # ts'"
        using ts unfolding Cons list.map all_some_Cons by blast
      have fuel: "2 * length (comma_join ts @ 0x5D # rest) + 2 \<le> m" using m unfolding eq by simp
      have ne: "vs \<noteq> []" by (simp add: Cons)
      have "skip_space (comma_join ts @ 0x5D # rest) = comma_join ts @ 0x5D # rest"
        and "expect 0x5D (comma_join ts @ 0x5D # rest) = Inl JsonDecode"
        using skip_text [OF t1(1)] expect_text [OF t1(1)] unfolding t1(2) comma_join_Cons by simp_all
      with read_elements [OF all ts ne fuel, of "[]"] show ?thesis by (simp add: eq)
    qed
  qed
next
  case (JObj kvs)
  show ?case
  proof (rule readsI)
    fix t rest m
    assume t: "json_text json_char_unicode (JObj kvs) = Some t" and e: "ends_value rest"
      and m: "2 * length (t @ rest) \<le> m"
    from t obtain kts where kts: "all_some (map (\<lambda>(k, v). map_option (Pair k) (json_text json_char_unicode v)) kvs) = Some kts"
      and eq: "t = 0x7B # comma_join (map member_text (sort_key fst kts)) @ [0x7D]" by auto
    have keys: "map fst kts = map fst kvs" by (rule member_keys [OF kts])
    have sorted: "sort_key fst kts = kts" using JObj.prems keys by (intro sort_key_sorted) simp
    have dist: "distinct (map fst ([] @ kvs))" using JObj.prems by (simp add: strict_sorted_iff)
    have all: "list_all (\<lambda>(_, v). reads v) kvs" using JObj by (fastforce simp: list_all_iff)
    show "json_value (Suc m) (t @ rest) = Inr (JObj kvs, rest)"
    proof (cases "kvs = []")
      case True
      with kts show ?thesis by (simp add: eq comma_join_def skip_space_Cons is_json_space_def expect_def)
    next
      case False
      then obtain k u kts' where "kts = (k, u) # kts'" using keys by (cases kts) auto
      then have "skip_space (comma_join (map member_text kts) @ 0x7D # rest) = comma_join (map member_text kts) @ 0x7D # rest"
        and "expect 0x7D (comma_join (map member_text kts) @ 0x7D # rest) = Inl JsonDecode"
        by (simp_all add: comma_join_Cons json_string_def skip_space_Cons is_json_space_def expect_def)
      moreover have "2 * length (comma_join (map member_text kts) @ 0x7D # rest) + 2 \<le> m"
        using m unfolding eq sorted by simp
      ultimately show ?thesis
        using read_members [OF all kts False dist, of rest m] by (simp add: eq sorted)
    qed
  qed
qed simp

theorem loads_dumps:
  assumes "json_plain v" and "json_dumps_unicode v = Some t"
  shows "json_loads t = Inr v"
proof -
  have t: "json_text json_char_unicode v = Some t" using assms(2) by (simp add: json_dumps_unicode_def)
  show ?thesis
    using reads_textD [OF plain_reads [OF assms(1)] t, of "[]"] skip_text [OF t, of "[]"]
    by (simp add: json_loads_def ends_value_def skip_space_def del: json_value.simps)
qed

end
