(* ===== verification/PyFloatOrder.thy ===== *)
theory PyFloatOrder
  imports PyFloat
begin

text \<open>
  Comparison and subtraction of Python floats (binary64 patterns, PyFloat). A comparison with a NaN is false;
  other patterns are ordered by their magnitude bits and sign, and \<open>f64_key_order\<close> shows that for finite
  floats this is the order of the numbers they stand for.
\<close>

section \<open>Comparison\<close>

definition f64_is_nan :: "nat \<Rightarrow> bool" where
  "f64_is_nan b \<longleftrightarrow> b div 2 ^ 52 mod 2 ^ 11 = 2047 \<and> b mod 2 ^ 52 \<noteq> 0"

definition f64_is_inf :: "nat \<Rightarrow> bool" where
  "f64_is_inf b \<longleftrightarrow> b div 2 ^ 52 mod 2 ^ 11 = 2047 \<and> b mod 2 ^ 52 = 0"

definition f64_finite :: "nat \<Rightarrow> bool" where
  "f64_finite b \<longleftrightarrow> b div 2 ^ 52 mod 2 ^ 11 \<noteq> 2047"

definition f64_negative :: "nat \<Rightarrow> bool" where
  "f64_negative b \<longleftrightarrow> b div 2 ^ 63 mod 2 = 1"

definition f64_key :: "nat \<Rightarrow> int" where
  "f64_key b = (if f64_negative b then - int (b mod 2 ^ 63) else int (b mod 2 ^ 63))"

definition f64_lt :: "nat \<Rightarrow> nat \<Rightarrow> bool" where
  "f64_lt a b \<longleftrightarrow> \<not> f64_is_nan a \<and> \<not> f64_is_nan b \<and> f64_key a < f64_key b"

definition f64_le :: "nat \<Rightarrow> nat \<Rightarrow> bool" where
  "f64_le a b \<longleftrightarrow> \<not> f64_is_nan a \<and> \<not> f64_is_nan b \<and> f64_key a \<le> f64_key b"

text \<open>\<open>a == b\<close>; the two zeros are equal.\<close>

definition f64_eq :: "nat \<Rightarrow> nat \<Rightarrow> bool" where
  "f64_eq a b \<longleftrightarrow> \<not> f64_is_nan a \<and> \<not> f64_is_nan b \<and> f64_key a = f64_key b"

lemma f64_finite_not_nan: "f64_finite b \<Longrightarrow> \<not> f64_is_nan b"
  by (simp add: f64_finite_def f64_is_nan_def)

lemma f64_le_trans: "f64_le a b \<Longrightarrow> f64_le b c \<Longrightarrow> f64_le a c"
  by (auto simp: f64_le_def)

lemma f64_lt_le_trans: "f64_lt a b \<Longrightarrow> f64_le b c \<Longrightarrow> f64_lt a c"
  by (auto simp: f64_le_def f64_lt_def)

lemma f64_le_lt_trans: "f64_le a b \<Longrightarrow> f64_lt b c \<Longrightarrow> f64_lt a c"
  by (auto simp: f64_le_def f64_lt_def)

lemma f64_lt_imp_le: "f64_lt a b \<Longrightarrow> f64_le a b"
  by (auto simp: f64_le_def f64_lt_def)

lemma f64_lt_irrefl: "\<not> f64_lt a a"
  by (auto simp: f64_lt_def)

lemma f64_not_lt: "\<not> f64_is_nan a \<Longrightarrow> \<not> f64_is_nan b \<Longrightarrow> \<not> f64_lt a b \<longleftrightarrow> f64_le b a"
  by (auto simp: f64_le_def f64_lt_def)

section \<open>The order is that of the numbers\<close>

text \<open>The value of a finite float times \<open>2 ^ 1074\<close>.\<close>

definition magnitude :: "nat \<Rightarrow> nat" where
  "magnitude n = ieee_mant 52 (n div 2 ^ 52) (n mod 2 ^ 52) * 2 ^ (max (n div 2 ^ 52) 1 - 1)"

definition f64_scaled :: "nat \<Rightarrow> int" where
  "f64_scaled b = (let v = int (magnitude (b mod 2 ^ 63)) in if f64_negative b then - v else v)"

lemma magnitude_Suc: "magnitude n < magnitude (Suc n)"
proof (cases "Suc (n mod 2 ^ 52) < 2 ^ 52")
  case True
  then have "Suc n mod 2 ^ 52 = Suc (n mod 2 ^ 52)" "Suc n div 2 ^ 52 = n div 2 ^ 52"
    using mod_Suc [of n "2 ^ 52"] div_Suc [of n "2 ^ 52"] by auto
  then show ?thesis by (simp add: magnitude_def ieee_mant_def)
next
  case False
  moreover have "n mod 2 ^ 52 < (2::nat) ^ 52" by simp
  ultimately have m: "Suc (n mod 2 ^ 52) = 2 ^ 52" by linarith
  then have s: "Suc n mod 2 ^ 52 = 0" "Suc n div 2 ^ 52 = Suc (n div 2 ^ 52)"
    using mod_Suc [of n "2 ^ 52"] div_Suc [of n "2 ^ 52"] by auto
  have m': "n mod 2 ^ 52 = 2 ^ 52 - 1" using m by simp
  show ?thesis
  proof (cases "n div 2 ^ 52")
    case 0
    then show ?thesis unfolding magnitude_def ieee_mant_def s m' by simp
  next
    case (Suc e)
    have "(2 ^ 52 - 1 + 2 ^ 52) * 2 ^ e < (0 + 2 ^ 52) * (2::nat) ^ Suc e" by simp
    then show ?thesis unfolding magnitude_def ieee_mant_def s m' Suc by simp
  qed
qed

lemma magnitude_less: "magnitude m < magnitude n \<longleftrightarrow> m < n"
  using lift_Suc_mono_less_iff [where f = magnitude, OF magnitude_Suc] .

lemma magnitude_le: "magnitude m \<le> magnitude n \<longleftrightarrow> m \<le> n"
  using magnitude_less by (meson not_le)

lemma magnitude_0: "magnitude 0 = 0"
  by (simp add: magnitude_def ieee_mant_def)

lemma magnitude_pos: "0 < magnitude n \<longleftrightarrow> 0 < n"
  using magnitude_less [of 0 n] by (simp add: magnitude_0)

lemma f64_key_order: "f64_scaled a \<le> f64_scaled b \<longleftrightarrow> f64_key a \<le> f64_key b"
proof -
  have z: "magnitude n = 0 \<longleftrightarrow> n = 0" for n using magnitude_pos [of n] by linarith
  have neg: "- int (magnitude m) \<le> int (magnitude n)" for m n by simp
  have pos: "int (magnitude m) \<le> - int (magnitude n) \<longleftrightarrow> int m \<le> - int n" for m n
    using z [of m] z [of n] by linarith
  show ?thesis
    by (cases "f64_negative a"; cases "f64_negative b")
      (simp_all only: f64_scaled_def f64_key_def Let_def if_True if_False neg pos neg_le_iff_le zle_int
        magnitude_le, simp_all)
qed

lemma f64_le_scaled: "\<not> f64_is_nan a \<Longrightarrow> \<not> f64_is_nan b \<Longrightarrow> f64_le a b \<longleftrightarrow> f64_scaled a \<le> f64_scaled b"
  by (simp add: f64_le_def f64_key_order)

lemma f64_lt_scaled: "\<not> f64_is_nan a \<Longrightarrow> \<not> f64_is_nan b \<Longrightarrow> f64_lt a b \<longleftrightarrow> f64_scaled a < f64_scaled b"
  using f64_key_order [of b a] by (auto simp: f64_lt_def)

section \<open>Subtraction\<close>

text \<open>\<open>a - b\<close>, rounded to nearest with ties to even; a NaN result is the default quiet NaN.\<close>

definition F64_NAN :: nat where
  "F64_NAN = 4095 * 2 ^ 51"

definition f64_sub :: "nat \<Rightarrow> nat \<Rightarrow> nat" where
  "f64_sub a b =
     (if f64_is_nan a \<or> f64_is_nan b \<or> (f64_is_inf a \<and> f64_is_inf b \<and> f64_negative a = f64_negative b) then F64_NAN
      else if f64_is_inf a then a
      else if f64_is_inf b then (if f64_negative b then 2047 * 2 ^ 52 else 4095 * 2 ^ 52)
      else let d = f64_scaled a - f64_scaled b;
               r = min (2047 * 2 ^ 52) (ieee_pack 52 1023 (nat \<bar>d\<bar>) (- 1074))
           in if d < 0 \<or> (d = 0 \<and> f64_negative a \<and> \<not> f64_negative b) then 2 ^ 63 + r else r)"

end
