(* ===== verification/IdentityJson.thy ===== *)
theory IdentityJson
  imports PyJsonParse PyFloatOrder
begin

text \<open>
  The canonical JSON of \<open>experiments/identity.py\<close>, without path aliases, which its callers here do not use:
  dictionaries with non-empty string keys, sorted, and no non-finite floats.
\<close>

section \<open>Canonical JSON\<close>

text \<open>\<open>ExperimentIdentityError\<close>, and the \<open>ValueError\<close> of a value \<open>json.dumps\<close> cannot write.\<close>

datatype identity_error = Identity string | IdentityText

function canonicalize_identity_value :: "json \<Rightarrow> identity_error + json" where
  "canonicalize_identity_value JNull = Inr JNull"
| "canonicalize_identity_value (JBool b) = Inr (JBool b)"
| "canonicalize_identity_value (JInt i) = Inr (JInt i)"
| "canonicalize_identity_value (JFloat b) =
     (if f64_finite b then Inr (JFloat b) else Inl (Identity ''identity inputs cannot contain non-finite floats''))"
| "canonicalize_identity_value (JStr s) = Inr (JStr s)"
| "canonicalize_identity_value (JObj kvs) =
     rbind (raise_if (list_ex (\<lambda>(k, _). k = []) kvs)
              (Identity ''identity mappings require non-empty string keys'')) (\<lambda>_.
     rbind (mapM_r (\<lambda>(k, v). rbind (canonicalize_identity_value v) (\<lambda>w. Inr (k, w))) (sort_key fst kvs))
       (\<lambda>items. Inr (JObj items)))"
| "canonicalize_identity_value (JList vs) =
     rbind (mapM_r canonicalize_identity_value vs) (\<lambda>ws. Inr (JList ws))"
  by pat_completeness auto
termination
proof (relation "measure size")
  fix kvs :: "(pystr \<times> json) list" and x k v
  assume "x \<in> set (sort_key fst kvs)" and "(k, v) = x"
  then have "(k, v) \<in> set kvs" by simp
  then show "(v, JObj kvs) \<in> measure size" by (induction kvs) auto
next
  fix vs and x :: json
  assume "x \<in> set vs"
  then show "(x, JList vs) \<in> measure size" by (induction vs) auto
qed simp

text \<open>What a canonical value is built from: no floats, and dictionaries, whose keys differ.\<close>

fun json_exact :: "json \<Rightarrow> bool" where
  "json_exact (JFloat _) = False"
| "json_exact (JList vs) = list_all json_exact vs"
| "json_exact (JObj kvs) = (distinct (map fst kvs) \<and> list_all (\<lambda>(_, v). json_exact v) kvs)"
| "json_exact _ = True"

definition canonical_identity_json :: "json \<Rightarrow> identity_error + pystr" where
  "canonical_identity_json v =
     rbind (canonicalize_identity_value v) (\<lambda>canonical.
     of_option IdentityText (json_dumps_unicode canonical))"

definition canonical_entry :: "pystr \<times> json \<Rightarrow> identity_error + pystr \<times> json" where
  "canonical_entry kv = rbind (canonicalize_identity_value (snd kv)) (\<lambda>w. Inr (fst kv, w))"

lemma canonicalize_object:
  "canonicalize_identity_value (JObj kvs) = Inr w
   \<longleftrightarrow> (\<exists>items. \<not> list_ex (\<lambda>(k, _). k = []) kvs \<and> w = JObj items
        \<and> list_all2 (\<lambda>kv kw. canonical_entry kv = Inr kw) (sort_key fst kvs) items)"
  unfolding mapM_r_Inr_iff [symmetric]
  by (auto simp: guard_Inr rbind_Inr_iff canonical_entry_def [abs_def] case_prod_beta')

lemma canonical_entry_key: "canonical_entry kv = Inr kw \<Longrightarrow> fst kw = fst kv"
  by (auto simp: canonical_entry_def)

lemma canonicalize_plain:
  "json_exact v \<Longrightarrow> canonicalize_identity_value v = Inr w \<Longrightarrow> json_plain w"
proof (induction v arbitrary: w)
  case (JList vs)
  from JList.prems obtain ws where w: "w = JList ws" and "list_all2 (\<lambda>v w. canonicalize_identity_value v = Inr w) vs ws"
    by (auto simp: mapM_r_Inr_iff)
  from this(2) JList.IH JList.prems(1) have "list_all json_plain ws"
    by (induction rule: list_all2_induct) (auto simp: list_all_iff)
  with w show ?case by simp
next
  case (JObj kvs)
  from JObj.prems(2) obtain items where w: "w = JObj items"
    and items: "list_all2 (\<lambda>kv kw. canonical_entry kv = Inr kw) (sort_key fst kvs) items"
    unfolding canonicalize_object by blast
  have "map fst items = map fst (sort_key fst kvs)"
    using items by (induction rule: list_all2_induct) (auto dest: canonical_entry_key)
  moreover have "sorted_wrt (<) (map fst (sort_key fst kvs))"
    using JObj.prems(1) by (simp add: strict_sorted_iff distinct_map)
  ultimately have keys: "sorted_wrt (<) (map fst items)" by simp
  have IH: "json_plain (snd kw)" if "kv \<in> set kvs" "canonical_entry kv = Inr kw" for kv kw
  proof -
    have "json_exact (snd kv)" using JObj.prems(1) that(1) by (auto simp: list_all_iff)
    moreover have "canonicalize_identity_value (snd kv) = Inr (snd kw)" using that(2) by (auto simp: canonical_entry_def)
    ultimately show ?thesis using JObj.IH [OF that(1), of "snd kv"] by (simp add: snds.simps prod_eq_iff)
  qed
  have "set (sort_key fst kvs) \<subseteq> set kvs" by simp
  with items have "list_all (\<lambda>(_, v). json_plain v) items"
    by (induction rule: list_all2_induct) (auto dest: IH simp: case_prod_beta)
  with w keys show ?case by simp
qed auto

lemma canonical_get:
  assumes "canonicalize_identity_value (JObj kvs) = Inr w" and "distinct (map fst kvs)"
  obtains items where "w = JObj items" and "json_keys items = fst ` set kvs"
    and "\<forall>kv \<in> set kvs. canonicalize_identity_value (snd kv) = Inr (json_get items (fst kv))"
proof -
  from assms(1) obtain items where w: "w = JObj items"
    and items: "list_all2 (\<lambda>kv kw. canonical_entry kv = Inr kw) (sort_key fst kvs) items"
    unfolding canonicalize_object by blast
  have keys: "map fst items = map fst (sort_key fst kvs)"
    using items by (induction rule: list_all2_induct) (auto dest: canonical_entry_key)
  then have dist: "distinct (map fst items)" using assms(2) by (simp add: distinct_map)
  show thesis
  proof
    show "w = JObj items" by (rule w)
    have "fst ` set items = set (map fst (sort_key fst kvs))" by (simp flip: keys)
    then show "json_keys items = fst ` set kvs" by (simp add: json_keys_def)
    show "\<forall>kv \<in> set kvs. canonicalize_identity_value (snd kv) = Inr (json_get items (fst kv))"
    proof
      fix kv assume "kv \<in> set kvs"
      then have "kv \<in> set (sort_key fst kvs)" by simp
      with items obtain kw where "kw \<in> set items" "canonical_entry kv = Inr kw"
        by (induction rule: list_all2_induct) auto
      then obtain x where "(fst kv, x) \<in> set items" "canonicalize_identity_value (snd kv) = Inr x"
        by (auto simp: canonical_entry_def)
      with dist show "canonicalize_identity_value (snd kv) = Inr (json_get items (fst kv))"
        by (simp add: json_get_def)
    qed
  qed
qed

end
