(* ===== verification/SearchStore.thy ===== *)
theory SearchStore
  imports SearchLifecycle IdentityJson
begin

text \<open>
  \<open>search/lifecycle.py\<close>, second half: the JSON records of lifecycle snapshots, their strict decoders, and
  \<open>ArchitectureSearchResumeStore\<close>, the two SQLite tables that keep every generation of every search with
  a digest. \<open>save\<close> reads the head of the search, checks the generation,
  and only then opens its transaction, so other processes may write in between; the traces below
  interleave the two halves of any number of saves. Floats do not occur in these records, and a text
  with one is outside the model.
\<close>

section \<open>Records of snapshots\<close>

definition evidence_record :: "lifecycle_evidence \<Rightarrow> json" where
  "evidence_record e =
     JObj [(lit ''evaluation_id'', JStr (le_evaluation e)), (lit ''status'', JStr (status_value (le_status e))),
           (lit ''passed'', JBool (le_passed e)), (lit ''reason'', JStr (le_reason e)),
           (lit ''arrival_cursor'', JInt (le_cursor e))]"

definition candidate_record :: "lifecycle_candidate \<Rightarrow> json" where
  "candidate_record c =
     JObj [(lit ''candidate_id'', JStr (lc_id c)), (lit ''architecture_id'', JStr (lc_architecture c)),
           (lit ''equivalence_id'', JStr (lc_equivalence c)), (lit ''state_id'', JStr (lc_state c)),
           (lit ''parent_checkpoint_id'', JStr (lc_parent c)), (lit ''predicted_only'', JBool (lc_predicted_only c)),
           (lit ''stage'', JStr (stage_value (lc_stage c))),
           (lit ''evidence'', case lc_evidence c of None \<Rightarrow> JNull | Some e \<Rightarrow> evidence_record e)]"

definition budget_record :: "lifecycle_budget \<Rightarrow> json" where
  "budget_record b =
     JObj [(lit ''evaluation_limit'', JInt (lb_limit b)), (lit ''evaluations_reserved'', JInt (lb_reserved b)),
           (lit ''charged_architecture_ids'', JList (map JStr (lb_architectures b))),
           (lit ''charged_equivalence_ids'', JList (map JStr (lb_equivalences b))),
           (lit ''disk_bytes_used'', JInt (lb_disk b))]"

definition snapshot_record :: "search_snapshot \<Rightarrow> json" where
  "snapshot_record s =
     JObj [(lit ''schema_version'', JInt (ss_version s)), (lit ''search_id'', JStr (ss_search s)),
           (lit ''generation'', JInt (ss_generation s)),
           (lit ''candidates'', JList (map candidate_record (ss_candidates s))),
           (lit ''frontier_candidate_ids'', JList (map JStr (ss_frontier s))),
           (lit ''lineage_checkpoint_ids'', JList (map JStr (ss_lineage s))),
           (lit ''budget'', budget_record (ss_budget s)), (lit ''decision_cursor'', JInt (ss_decision s)),
           (lit ''evidence_arrival_cursor'', JInt (ss_evidence s))]"

section \<open>Strict decoders\<close>

definition stored_mapping :: "json \<Rightarrow> lifecycle_error + (pystr \<times> json) list" where
  "stored_mapping v = of_option (Lifecycle ''stored value must be an object'') (json_obj v)"

definition stored_string :: "json \<Rightarrow> lifecycle_error + pystr" where
  "stored_string v = of_option (Lifecycle ''stored value must be text'') (json_str v)"

definition stored_integer :: "json \<Rightarrow> lifecycle_error + int" where
  "stored_integer v = of_option (Lifecycle ''stored value must be an integer'') (json_int v)"

definition stored_bool :: "json \<Rightarrow> lifecycle_error + bool" where
  "stored_bool v = (case v of JBool b \<Rightarrow> Inr b | _ \<Rightarrow> Inl (Lifecycle ''stored flag must be boolean''))"

definition exact_keys :: "(pystr \<times> json) list \<Rightarrow> string list \<Rightarrow> lifecycle_error + (pystr \<times> json) list" where
  "exact_keys r ks =
     rbind (raise_if (json_keys r \<noteq> lit ` set ks) (Lifecycle ''stored value has unknown or missing fields''))
       (\<lambda>_. Inr r)"

definition status_of :: "pystr \<Rightarrow> lifecycle_error + evaluation_status" where
  "status_of v = of_option LifecycleValue
     (find (\<lambda>x. status_value x = v) [MEASURED, UNSUPPORTED, UNKNOWN, EVALUATION_FAILED])"

definition stage_of :: "pystr \<Rightarrow> lifecycle_error + lifecycle_stage" where
  "stage_of v = of_option LifecycleValue
     (find (\<lambda>x. stage_value x = v) [PREDICTED, RESERVED, MATERIALIZED, EVALUATED, ACCEPTED, REJECTED, FAILED])"

definition evidence_from_record :: "json \<Rightarrow> lifecycle_error + lifecycle_evidence option" where
  "evidence_from_record v =
     (if v = JNull then Inr None
      else
        rbind (stored_mapping v) (\<lambda>m.
        rbind (exact_keys m [''evaluation_id'', ''status'', ''passed'', ''reason'', ''arrival_cursor'']) (\<lambda>r.
        rbind (stored_bool (json_get r (lit ''passed''))) (\<lambda>passed.
        rbind (stored_string (json_get r (lit ''evaluation_id''))) (\<lambda>evaluation.
        rbind (stored_string (json_get r (lit ''status''))) (\<lambda>name.
        rbind (status_of name) (\<lambda>status.
        rbind (stored_string (json_get r (lit ''reason''))) (\<lambda>reason.
        rbind (stored_integer (json_get r (lit ''arrival_cursor''))) (\<lambda>cursor.
        rbind (evidence_init \<lparr>le_evaluation = evaluation, le_status = status, le_passed = passed,
                 le_reason = reason, le_cursor = cursor\<rparr>) (\<lambda>e. Inr (Some e)))))))))))"

definition candidate_from_record :: "json \<Rightarrow> lifecycle_error + lifecycle_candidate" where
  "candidate_from_record v =
     rbind (stored_mapping v) (\<lambda>m.
     rbind (exact_keys m [''candidate_id'', ''architecture_id'', ''equivalence_id'', ''state_id'',
              ''parent_checkpoint_id'', ''predicted_only'', ''stage'', ''evidence'']) (\<lambda>r.
     rbind (stored_bool (json_get r (lit ''predicted_only''))) (\<lambda>predicted.
     rbind (stored_string (json_get r (lit ''candidate_id''))) (\<lambda>i.
     rbind (stored_string (json_get r (lit ''architecture_id''))) (\<lambda>architecture.
     rbind (stored_string (json_get r (lit ''equivalence_id''))) (\<lambda>equivalence.
     rbind (stored_string (json_get r (lit ''state_id''))) (\<lambda>state.
     rbind (stored_string (json_get r (lit ''parent_checkpoint_id''))) (\<lambda>checkpoint.
     rbind (stored_string (json_get r (lit ''stage''))) (\<lambda>name.
     rbind (stage_of name) (\<lambda>stage.
     rbind (evidence_from_record (json_get r (lit ''evidence''))) (\<lambda>evidence.
     candidate_init \<lparr>lc_id = i, lc_architecture = architecture, lc_equivalence = equivalence, lc_state = state,
       lc_parent = checkpoint, lc_predicted_only = predicted, lc_stage = stage, lc_evidence = evidence\<rparr>)))))))))))"

definition string_tuple :: "json \<Rightarrow> lifecycle_error + pystr list" where
  "string_tuple v =
     (case v of
        JList items \<Rightarrow> mapM_r (\<lambda>x. of_option (Lifecycle ''stored value must be a string list'') (json_str x)) items
      | _ \<Rightarrow> Inl (Lifecycle ''stored value must be a string list''))"

definition budget_from_record :: "json \<Rightarrow> lifecycle_error + lifecycle_budget" where
  "budget_from_record v =
     rbind (stored_mapping v) (\<lambda>m.
     rbind (exact_keys m [''evaluation_limit'', ''evaluations_reserved'', ''charged_architecture_ids'',
              ''charged_equivalence_ids'', ''disk_bytes_used'']) (\<lambda>r.
     rbind (stored_integer (json_get r (lit ''evaluation_limit''))) (\<lambda>limit.
     rbind (stored_integer (json_get r (lit ''evaluations_reserved''))) (\<lambda>reserved.
     rbind (string_tuple (json_get r (lit ''charged_architecture_ids''))) (\<lambda>architectures.
     rbind (string_tuple (json_get r (lit ''charged_equivalence_ids''))) (\<lambda>equivalences.
     rbind (stored_integer (json_get r (lit ''disk_bytes_used''))) (\<lambda>disk.
     budget_init \<lparr>lb_limit = limit, lb_reserved = reserved, lb_architectures = architectures,
       lb_equivalences = equivalences, lb_disk = disk\<rparr>)))))))"

definition snapshot_from_record :: "json \<Rightarrow> lifecycle_error + search_snapshot" where
  "snapshot_from_record v =
     rbind (stored_mapping v) (\<lambda>m.
     rbind (exact_keys m [''schema_version'', ''search_id'', ''generation'', ''candidates'',
              ''frontier_candidate_ids'', ''lineage_checkpoint_ids'', ''budget'', ''decision_cursor'',
              ''evidence_arrival_cursor'']) (\<lambda>r.
     rbind (of_option (Lifecycle ''stored lifecycle candidates must be a list'')
              (json_list (json_get r (lit ''candidates'')))) (\<lambda>raw.
     rbind (stored_string (json_get r (lit ''search_id''))) (\<lambda>search.
     rbind (stored_integer (json_get r (lit ''generation''))) (\<lambda>generation.
     rbind (mapM_r candidate_from_record raw) (\<lambda>candidates.
     rbind (string_tuple (json_get r (lit ''frontier_candidate_ids''))) (\<lambda>frontier.
     rbind (string_tuple (json_get r (lit ''lineage_checkpoint_ids''))) (\<lambda>lineage.
     rbind (budget_from_record (json_get r (lit ''budget''))) (\<lambda>budget.
     rbind (stored_integer (json_get r (lit ''decision_cursor''))) (\<lambda>decision.
     rbind (stored_integer (json_get r (lit ''evidence_arrival_cursor''))) (\<lambda>evidence.
     rbind (stored_integer (json_get r (lit ''schema_version''))) (\<lambda>version.
     snapshot_init \<lparr>ss_search = search, ss_generation = generation, ss_candidates = candidates,
       ss_frontier = frontier, ss_lineage = lineage, ss_budget = budget, ss_decision = decision,
       ss_evidence = evidence, ss_version = version\<rparr>))))))))))))"

section \<open>The store\<close>

text \<open>
  The rows of \<open>lifecycle_snapshots\<close> with their primary key (search, generation), and of \<open>lifecycle_heads\<close>
  with theirs (search). Errors of a statement end the transaction and leave the tables as they were.
\<close>

record lifecycle_store =
  sl_snapshots :: "((pystr \<times> int) \<times> pystr \<times> pystr) list"
  sl_heads :: "(pystr \<times> int) list"

definition empty_store :: lifecycle_store where
  "empty_store = \<lparr>sl_snapshots = [], sl_heads = []\<rparr>"

text \<open>The errors of \<open>encode\<close>, of an SQLite integer and of a primary key, and the two of \<open>json.loads\<close>.\<close>

datatype store_error =
    StoreLifecycle lifecycle_error | StoreIdentity identity_error | StoreEncoding | StoreOverflow
  | StoreIntegrity | StoreJson

definition store_failure :: "string \<Rightarrow> store_error" where
  "store_failure m = StoreLifecycle (Lifecycle m)"

text \<open>\<open>hashlib.sha256(payload.encode()).hexdigest()\<close>.\<close>

definition payload_digest :: "pystr \<Rightarrow> store_error + pystr" where
  "payload_digest payload = rbind (of_option StoreEncoding (encode_utf8 payload)) (\<lambda>bs. Inr (hexdigest bs))"

text \<open>A save that has passed its checks and not opened its transaction yet.\<close>

record pending_save =
  ps_snapshot :: search_snapshot
  ps_payload :: pystr
  ps_digest :: pystr
  ps_current :: "int option"

definition save_check ::
  "lifecycle_store \<Rightarrow> search_snapshot \<Rightarrow> int option \<Rightarrow> store_error + pending_save" where
  "save_check st s expected =
     rbind (except (canonical_identity_json (snapshot_record s)) StoreIdentity) (\<lambda>payload.
     rbind (payload_digest payload) (\<lambda>digest.
     let current = map_of (sl_heads st) (ss_search s) in
     rbind (raise_if (current \<noteq> expected) (store_failure ''stale lifecycle snapshot generation'')) (\<lambda>_.
     let required = (case current of None \<Rightarrow> 0 | Some g \<Rightarrow> g + 1) in
     rbind (raise_if (ss_generation s \<noteq> required) (store_failure ''next lifecycle generation must be'')) (\<lambda>_.
     Inr \<lparr>ps_snapshot = s, ps_payload = payload, ps_digest = digest, ps_current = current\<rparr>))))"

definition save_commit :: "lifecycle_store \<Rightarrow> pending_save \<Rightarrow> store_error + lifecycle_store" where
  "save_commit st p =
     (let i = ss_search (ps_snapshot p); g = ss_generation (ps_snapshot p) in
      rbind (raise_if (2 ^ 63 \<le> g) StoreOverflow) (\<lambda>_.
      rbind (raise_if (map_of (sl_snapshots st) (i, g) \<noteq> None) StoreIntegrity) (\<lambda>_.
      rbind (raise_if (ps_current p = None \<and> map_of (sl_heads st) i \<noteq> None) StoreIntegrity) (\<lambda>_.
      Inr \<lparr>sl_snapshots = sl_snapshots st @ [((i, g), ps_payload p, ps_digest p)],
           sl_heads = (if ps_current p = None then sl_heads st @ [(i, g)]
             else map (\<lambda>(j, h). if j = i then (j, g) else (j, h)) (sl_heads st))\<rparr>))))"

definition store_save ::
  "lifecycle_store \<Rightarrow> search_snapshot \<Rightarrow> int option \<Rightarrow> store_error + lifecycle_store" where
  "store_save st s expected = rbind (save_check st s expected) (save_commit st)"

definition load_latest :: "lifecycle_store \<Rightarrow> pystr \<Rightarrow> store_error + search_snapshot" where
  "load_latest st i =
     rbind (raise_if (encode_utf8 i = None) StoreEncoding) (\<lambda>_.
     rbind (of_option (store_failure ''search has no lifecycle snapshot'')
              (Option.bind (map_of (sl_heads st) i) (\<lambda>g. map_of (sl_snapshots st) (i, g)))) (\<lambda>(payload, digest).
     rbind (payload_digest payload) (\<lambda>actual.
     rbind (raise_if (actual \<noteq> digest) (store_failure ''lifecycle snapshot checksum mismatch'')) (\<lambda>_.
     rbind (except (json_loads payload) (\<lambda>e. case e of
              JsonDecode \<Rightarrow> store_failure ''lifecycle snapshot JSON is corrupt'' | JsonDigits \<Rightarrow> StoreJson)) (\<lambda>raw.
     except (snapshot_from_record raw) StoreLifecycle)))))"

section \<open>Interleaved saves\<close>

text \<open>
  Any number of processes: \<open>Check\<close> is the first half of a save, \<open>Commit n\<close> the transaction of the n-th save
  that waits for it. The log lists what was committed.
\<close>

datatype store_event = Check search_snapshot "int option" | Commit nat

record store_system =
  sy_store :: lifecycle_store
  sy_pending :: "pending_save list"
  sy_log :: "search_snapshot list"

definition store_start :: store_system where
  "store_start = \<lparr>sy_store = empty_store, sy_pending = [], sy_log = []\<rparr>"

fun store_event_step :: "store_system \<Rightarrow> store_event \<Rightarrow> store_system" where
  "store_event_step y (Check s expected) =
     (case save_check (sy_store y) s expected of
        Inl _ \<Rightarrow> y
      | Inr p \<Rightarrow> y\<lparr>sy_pending := sy_pending y @ [p]\<rparr>)"
| "store_event_step y (Commit n) =
     (if n < length (sy_pending y) then
        let p = sy_pending y ! n; rest = take n (sy_pending y) @ drop (Suc n) (sy_pending y) in
        (case save_commit (sy_store y) p of
           Inl _ \<Rightarrow> y\<lparr>sy_pending := rest\<rparr>
         | Inr st \<Rightarrow> \<lparr>sy_store = st, sy_pending = rest, sy_log = sy_log y @ [ps_snapshot p]\<rparr>)
      else y)"

definition store_run :: "store_event list \<Rightarrow> store_system" where
  "store_run = foldl store_event_step store_start"

section \<open>Records read back\<close>

lemma canonicalize_strings: "canonicalize_identity_value (JList (map JStr xs)) = Inr (JList (map JStr xs))"
proof -
  have "mapM_r canonicalize_identity_value (map JStr xs) = Inr (map JStr xs)" by (induction xs) simp_all
  then show ?thesis by simp
qed

lemma string_tuple_read: "string_tuple (JList (map JStr xs)) = Inr xs"
proof -
  have "mapM_r (\<lambda>x. of_option e (json_str x)) (map JStr xs) = Inr xs" for e :: lifecycle_error
    by (induction xs) simp_all
  then show ?thesis by (simp add: string_tuple_def)
qed

lemma status_read [simp]: "status_of (status_value x) = Inr x"
  by (cases x) (simp_all add: status_of_def lit_simps)

lemma stage_read [simp]: "stage_of (stage_value x) = Inr x"
  by (cases x) (simp_all add: stage_of_def lit_simps)

text \<open>A record rebuilt from its own fields.\<close>

lemma evidence_eta [simp]: "\<lparr>le_evaluation = le_evaluation e, le_status = le_status e, le_passed = le_passed e,
    le_reason = le_reason e, le_cursor = le_cursor e\<rparr> = e"
  by simp

lemma candidate_eta [simp]: "\<lparr>lc_id = lc_id c, lc_architecture = lc_architecture c, lc_equivalence = lc_equivalence c,
    lc_state = lc_state c, lc_parent = lc_parent c, lc_predicted_only = lc_predicted_only c, lc_stage = lc_stage c,
    lc_evidence = lc_evidence c\<rparr> = c"
  by simp

lemma budget_eta [simp]: "\<lparr>lb_limit = lb_limit b, lb_reserved = lb_reserved b, lb_architectures = lb_architectures b,
    lb_equivalences = lb_equivalences b, lb_disk = lb_disk b\<rparr> = b"
  by simp

lemma snapshot_eta [simp]: "\<lparr>ss_search = ss_search s, ss_generation = ss_generation s, ss_candidates = ss_candidates s,
    ss_frontier = ss_frontier s, ss_lineage = ss_lineage s, ss_budget = ss_budget s, ss_decision = ss_decision s,
    ss_evidence = ss_evidence s, ss_version = ss_version s\<rparr> = s"
  by simp

lemmas stored_simps = stored_mapping_def stored_string_def stored_integer_def stored_bool_def exact_keys_def

lemma evidence_reads:
  assumes "canonicalize_identity_value (evidence_record e) = Inr w" and "evidence_init e = Inr e"
  shows "evidence_from_record w = Inr (Some e)"
proof -
  let ?kvs = "[(lit ''evaluation_id'', JStr (le_evaluation e)),
        (lit ''status'', JStr (status_value (le_status e))), (lit ''passed'', JBool (le_passed e)),
        (lit ''reason'', JStr (le_reason e)), (lit ''arrival_cursor'', JInt (le_cursor e))]"
  have keys_differ: "distinct (map fst ?kvs)" by (simp add: lit_simps)
  obtain items where w: "w = JObj items" and keys: "json_keys items = fst ` set ?kvs"
    and get: "\<forall>kv \<in> set ?kvs. canonicalize_identity_value (snd kv) = Inr (json_get items (fst kv))"
    by (rule canonical_get [OF assms(1) [unfolded evidence_record_def] keys_differ])
  have fields: "json_get items (lit ''evaluation_id'') = JStr (le_evaluation e)"
    "json_get items (lit ''status'') = JStr (status_value (le_status e))"
    "json_get items (lit ''passed'') = JBool (le_passed e)" "json_get items (lit ''reason'') = JStr (le_reason e)"
    "json_get items (lit ''arrival_cursor'') = JInt (le_cursor e)"
    using get by (auto simp: canonicalize_strings simp del: canonicalize_identity_value.simps(7))
  show ?thesis
    using assms(2) by (simp add: evidence_from_record_def w stored_simps keys fields)
qed

lemma candidate_reads:
  assumes "canonicalize_identity_value (candidate_record c) = Inr w" and "candidate_init c = Inr c"
    and "\<And>e. lc_evidence c = Some e \<Longrightarrow> evidence_init e = Inr e"
  shows "candidate_from_record w = Inr c"
proof -
  let ?ev = "case lc_evidence c of None \<Rightarrow> JNull | Some e \<Rightarrow> evidence_record e"
  let ?kvs = "[(lit ''candidate_id'', JStr (lc_id c)), (lit ''architecture_id'', JStr (lc_architecture c)),
           (lit ''equivalence_id'', JStr (lc_equivalence c)), (lit ''state_id'', JStr (lc_state c)),
           (lit ''parent_checkpoint_id'', JStr (lc_parent c)), (lit ''predicted_only'', JBool (lc_predicted_only c)),
           (lit ''stage'', JStr (stage_value (lc_stage c))), (lit ''evidence'', ?ev)]"
  have keys_differ: "distinct (map fst ?kvs)" by (simp add: lit_simps)
  obtain items where w: "w = JObj items" and keys: "json_keys items = fst ` set ?kvs"
    and get: "\<forall>kv \<in> set ?kvs. canonicalize_identity_value (snd kv) = Inr (json_get items (fst kv))"
    by (rule canonical_get [OF assms(1) [unfolded candidate_record_def] keys_differ])
  have fields: "json_get items (lit ''candidate_id'') = JStr (lc_id c)"
    "json_get items (lit ''architecture_id'') = JStr (lc_architecture c)"
    "json_get items (lit ''equivalence_id'') = JStr (lc_equivalence c)"
    "json_get items (lit ''state_id'') = JStr (lc_state c)"
    "json_get items (lit ''parent_checkpoint_id'') = JStr (lc_parent c)"
    "json_get items (lit ''predicted_only'') = JBool (lc_predicted_only c)"
    "json_get items (lit ''stage'') = JStr (stage_value (lc_stage c))"
    using get by (auto simp: canonicalize_strings simp del: canonicalize_identity_value.simps(7))
  have ev: "canonicalize_identity_value ?ev = Inr (json_get items (lit ''evidence''))" using get by simp
  have "evidence_from_record (json_get items (lit ''evidence'')) = Inr (lc_evidence c)"
  proof (cases "lc_evidence c")
    case None
    with ev show ?thesis by (auto simp: evidence_from_record_def)
  next
    case (Some e)
    with ev evidence_reads [of e] assms(3) show ?thesis by simp
  qed
  then show ?thesis
    using assms(2) by (simp add: candidate_from_record_def w stored_simps keys fields)
qed

lemma budget_reads:
  assumes "canonicalize_identity_value (budget_record b) = Inr w" and "budget_init b = Inr b"
  shows "budget_from_record w = Inr b"
proof -
  let ?kvs = "[(lit ''evaluation_limit'', JInt (lb_limit b)), (lit ''evaluations_reserved'', JInt (lb_reserved b)),
           (lit ''charged_architecture_ids'', JList (map JStr (lb_architectures b))),
           (lit ''charged_equivalence_ids'', JList (map JStr (lb_equivalences b))),
           (lit ''disk_bytes_used'', JInt (lb_disk b))]"
  have keys_differ: "distinct (map fst ?kvs)" by (simp add: lit_simps)
  obtain items where w: "w = JObj items" and keys: "json_keys items = fst ` set ?kvs"
    and get: "\<forall>kv \<in> set ?kvs. canonicalize_identity_value (snd kv) = Inr (json_get items (fst kv))"
    by (rule canonical_get [OF assms(1) [unfolded budget_record_def] keys_differ])
  have fields: "json_get items (lit ''evaluation_limit'') = JInt (lb_limit b)"
    "json_get items (lit ''evaluations_reserved'') = JInt (lb_reserved b)"
    "json_get items (lit ''charged_architecture_ids'') = JList (map JStr (lb_architectures b))"
    "json_get items (lit ''charged_equivalence_ids'') = JList (map JStr (lb_equivalences b))"
    "json_get items (lit ''disk_bytes_used'') = JInt (lb_disk b)"
    using get by (auto simp: canonicalize_strings simp del: canonicalize_identity_value.simps(7))
  show ?thesis
    using assms(2) by (simp add: budget_from_record_def w stored_simps keys fields string_tuple_read)
qed

text \<open>A snapshot value: every record in it passed its constructor.\<close>

definition snapshot_constructed :: "search_snapshot \<Rightarrow> bool" where
  "snapshot_constructed s \<longleftrightarrow> snapshot_init s = Inr s \<and> budget_init (ss_budget s) = Inr (ss_budget s)
     \<and> list_all (\<lambda>c. candidate_init c = Inr c
          \<and> (case lc_evidence c of None \<Rightarrow> True | Some e \<Rightarrow> evidence_init e = Inr e)) (ss_candidates s)"

lemma candidates_read:
  assumes "mapM_r canonicalize_identity_value (map candidate_record cs) = Inr ws"
    and "list_all (\<lambda>c. candidate_init c = Inr c
          \<and> (case lc_evidence c of None \<Rightarrow> True | Some e \<Rightarrow> evidence_init e = Inr e)) cs"
  shows "mapM_r candidate_from_record ws = Inr cs"
  using assms
proof (induction cs arbitrary: ws)
  case (Cons c cs)
  then obtain v vs where "ws = v # vs" "canonicalize_identity_value (candidate_record c) = Inr v"
    "mapM_r canonicalize_identity_value (map candidate_record cs) = Inr vs" by (auto simp: rbind_Inr_iff)
  moreover from Cons.prems(2) have "candidate_init c = Inr c"
    and "\<And>e. lc_evidence c = Some e \<Longrightarrow> evidence_init e = Inr e" by (auto split: option.splits)
  ultimately show ?case using candidate_reads [of c v] Cons by simp
qed simp

lemma snapshot_reads:
  assumes "canonicalize_identity_value (snapshot_record s) = Inr w" and "snapshot_constructed s"
  shows "snapshot_from_record w = Inr s"
proof -
  let ?kvs = "[(lit ''schema_version'', JInt (ss_version s)), (lit ''search_id'', JStr (ss_search s)),
           (lit ''generation'', JInt (ss_generation s)),
           (lit ''candidates'', JList (map candidate_record (ss_candidates s))),
           (lit ''frontier_candidate_ids'', JList (map JStr (ss_frontier s))),
           (lit ''lineage_checkpoint_ids'', JList (map JStr (ss_lineage s))),
           (lit ''budget'', budget_record (ss_budget s)), (lit ''decision_cursor'', JInt (ss_decision s)),
           (lit ''evidence_arrival_cursor'', JInt (ss_evidence s))]"
  have keys_differ: "distinct (map fst ?kvs)" by (simp add: lit_simps)
  obtain items where w: "w = JObj items" and keys: "json_keys items = fst ` set ?kvs"
    and get: "\<forall>kv \<in> set ?kvs. canonicalize_identity_value (snd kv) = Inr (json_get items (fst kv))"
    by (rule canonical_get [OF assms(1) [unfolded snapshot_record_def] keys_differ])
  have fields: "json_get items (lit ''schema_version'') = JInt (ss_version s)"
    "json_get items (lit ''search_id'') = JStr (ss_search s)" "json_get items (lit ''generation'') = JInt (ss_generation s)"
    "json_get items (lit ''frontier_candidate_ids'') = JList (map JStr (ss_frontier s))"
    "json_get items (lit ''lineage_checkpoint_ids'') = JList (map JStr (ss_lineage s))"
    "json_get items (lit ''decision_cursor'') = JInt (ss_decision s)"
    "json_get items (lit ''evidence_arrival_cursor'') = JInt (ss_evidence s)"
    using get by (auto simp: canonicalize_strings simp del: canonicalize_identity_value.simps(7))
  have "canonicalize_identity_value (budget_record (ss_budget s)) = Inr (json_get items (lit ''budget''))"
    and c: "canonicalize_identity_value (JList (map candidate_record (ss_candidates s)))
      = Inr (json_get items (lit ''candidates''))"
    using get by (simp_all del: canonicalize_identity_value.simps(7))
  then have b: "budget_from_record (json_get items (lit ''budget'')) = Inr (ss_budget s)"
    using assms(2) by (simp add: budget_reads snapshot_constructed_def)
  from c obtain ws where ws': "mapM_r canonicalize_identity_value (map candidate_record (ss_candidates s)) = Inr ws"
    and "JList ws = json_get items (lit ''candidates'')" by auto
  from this(2) have ws: "json_get items (lit ''candidates'') = JList ws" by simp
  from ws' have "mapM_r candidate_from_record ws = Inr (ss_candidates s)"
    using assms(2) by (simp add: candidates_read snapshot_constructed_def)
  with assms(2) show ?thesis
    by (simp add: snapshot_from_record_def w stored_simps keys fields string_tuple_read b ws snapshot_constructed_def)
qed

lemma records_exact:
  "json_exact (evidence_record e)" "json_exact (candidate_record c)" "json_exact (budget_record b)"
  "json_exact (snapshot_record s)"
proof -
  show ev: "json_exact (evidence_record e)" for e by (simp add: evidence_record_def lit_simps)
  show c: "json_exact (candidate_record c)" for c
    by (simp add: candidate_record_def lit_simps ev split: option.split)
  have strings: "list_all json_exact (map JStr xs)" for xs by (induction xs) simp_all
  show b: "json_exact (budget_record b)" for b by (simp add: budget_record_def lit_simps strings)
  have cs: "list_all json_exact (map candidate_record cs)" for cs by (induction cs) (simp_all add: c)
  show "json_exact (snapshot_record s)"
    by (simp add: snapshot_record_def lit_simps strings cs b)
qed

text \<open>What is written is what is read.\<close>

lemma payload_reads:
  assumes "canonical_identity_json (snapshot_record s) = Inr payload" and "snapshot_constructed s"
  obtains raw where "json_loads payload = Inr raw" and "snapshot_from_record raw = Inr s"
proof -
  from assms(1) obtain raw where raw: "canonicalize_identity_value (snapshot_record s) = Inr raw"
    and "json_dumps_unicode raw = Some payload" by (auto simp: canonical_identity_json_def)
  then have "json_loads payload = Inr raw"
    by (intro loads_dumps) (auto intro: canonicalize_plain records_exact(4))
  moreover have "snapshot_from_record raw = Inr s" by (rule snapshot_reads [OF raw assms(2)])
  ultimately show thesis by (rule that)
qed

section \<open>The tables under interleaving\<close>

definition written :: "search_snapshot \<Rightarrow> pystr \<times> pystr \<Rightarrow> bool" where
  "written s row \<longleftrightarrow> canonical_identity_json (snapshot_record s) = Inr (fst row)
     \<and> payload_digest (fst row) = Inr (snd row)"

definition logged :: "pystr \<Rightarrow> search_snapshot list \<Rightarrow> search_snapshot list" where
  "logged i = filter (\<lambda>s. ss_search s = i)"

text \<open>
  The tables hold exactly the log: the n-th committed snapshot of a search is generation n, its row is
  what was written for it, and the head is the last.
\<close>

definition tables_match :: "lifecycle_store \<Rightarrow> search_snapshot list \<Rightarrow> bool" where
  "tables_match st log \<longleftrightarrow> (\<forall>i.
     map ss_generation (logged i log) = map int [0..<length (logged i log)]
     \<and> map_of (sl_heads st) i = (if logged i log = [] then None else Some (int (length (logged i log)) - 1))
     \<and> (\<forall>g. case map_of (sl_snapshots st) (i, g) of
          None \<Rightarrow> g < 0 \<or> int (length (logged i log)) \<le> g
        | Some row \<Rightarrow> 0 \<le> g \<and> g < int (length (logged i log)) \<and> written (logged i log ! nat g) row))"

definition save_waits :: "lifecycle_store \<Rightarrow> pending_save \<Rightarrow> bool" where
  "save_waits st p \<longleftrightarrow> written (ps_snapshot p) (ps_payload p, ps_digest p) \<and> snapshot_constructed (ps_snapshot p)
     \<and> (case ps_current p of
          None \<Rightarrow> ss_generation (ps_snapshot p) = 0
        | Some c \<Rightarrow> 0 \<le> c \<and> ss_generation (ps_snapshot p) = c + 1
            \<and> (\<exists>h. map_of (sl_heads st) (ss_search (ps_snapshot p)) = Some h \<and> c \<le> h))"

definition system_ok :: "store_system \<Rightarrow> bool" where
  "system_ok y \<longleftrightarrow> tables_match (sy_store y) (sy_log y) \<and> list_all snapshot_constructed (sy_log y)
     \<and> list_all (save_waits (sy_store y)) (sy_pending y)"

lemma tables_matchD:
  assumes "tables_match st log"
  shows "map ss_generation (logged i log) = map int [0..<length (logged i log)]"
    and "map_of (sl_heads st) i = (if logged i log = [] then None else Some (int (length (logged i log)) - 1))"
    and "map_of (sl_snapshots st) (i, g) = None \<longleftrightarrow> g < 0 \<or> int (length (logged i log)) \<le> g"
    and "map_of (sl_snapshots st) (i, g) = Some row \<Longrightarrow> written (logged i log ! nat g) row"
proof -
  note m = assms [unfolded tables_match_def, rule_format, of i]
  show "map ss_generation (logged i log) = map int [0..<length (logged i log)]"
    "map_of (sl_heads st) i = (if logged i log = [] then None else Some (int (length (logged i log)) - 1))"
    using m by blast+
  have "case map_of (sl_snapshots st) (i, g) of None \<Rightarrow> g < 0 \<or> int (length (logged i log)) \<le> g
      | Some row \<Rightarrow> 0 \<le> g \<and> g < int (length (logged i log)) \<and> written (logged i log ! nat g) row" using m by blast
  then show "map_of (sl_snapshots st) (i, g) = None \<longleftrightarrow> g < 0 \<or> int (length (logged i log)) \<le> g"
    "map_of (sl_snapshots st) (i, g) = Some row \<Longrightarrow> written (logged i log ! nat g) row"
    by (auto split: option.splits)
qed

text \<open>A save that waits is committed exactly when nobody else moved the head of its search.\<close>

lemma waiting_generation:
  assumes "tables_match st log" and "save_waits st p"
    and "map_of (sl_snapshots st) (ss_search (ps_snapshot p), ss_generation (ps_snapshot p)) = None"
  shows "ss_generation (ps_snapshot p) = int (length (logged (ss_search (ps_snapshot p)) log))"
    and "ps_current p = None \<longleftrightarrow> logged (ss_search (ps_snapshot p)) log = []"
proof -
  let ?l = "logged (ss_search (ps_snapshot p)) log"
  note m = tables_matchD [OF assms(1), of "ss_search (ps_snapshot p)"]
  from assms(3) have out: "ss_generation (ps_snapshot p) < 0 \<or> int (length ?l) \<le> ss_generation (ps_snapshot p)"
    by (simp add: m(3))
  have "ss_generation (ps_snapshot p) = int (length ?l) \<and> (ps_current p = None \<longleftrightarrow> ?l = [])"
  proof (cases "ps_current p")
    case None
    with out assms(2) show ?thesis by (simp add: save_waits_def)
  next
    case (Some c)
    with assms(2) obtain h where h: "0 \<le> c" "ss_generation (ps_snapshot p) = c + 1" "c \<le> h"
      "map_of (sl_heads st) (ss_search (ps_snapshot p)) = Some h" by (auto simp: save_waits_def)
    from h(4) have "?l \<noteq> []" "h = int (length ?l) - 1" by (auto simp: m(2) split: if_splits)
    with h out Some show ?thesis by simp
  qed
  then show "ss_generation (ps_snapshot p) = int (length ?l)" and "ps_current p = None \<longleftrightarrow> ?l = []" by simp_all
qed

lemma map_of_snoc: "map_of (xs @ [(k, v)]) j = (case map_of xs j of None \<Rightarrow> if j = k then Some v else None | x \<Rightarrow> x)"
  by (simp add: map_add_def split: option.split)

lemma map_of_replace:
  "map_of (map (\<lambda>(j, h). if j = i then (j, g) else (j, h)) xs) k
     = (if k = i \<and> map_of xs i \<noteq> None then Some g else map_of xs k)"
  by (induction xs) auto

lemma commit_matches:
  assumes "tables_match st log" and "save_waits st p" and "save_commit st p = Inr st'"
  shows "tables_match st' (log @ [ps_snapshot p])"
proof -
  let ?s = "ps_snapshot p"
  let ?i = "ss_search ?s" and ?g = "ss_generation ?s"
  from assms(3) have free: "map_of (sl_snapshots st) (?i, ?g) = None"
    and st': "sl_snapshots st' = sl_snapshots st @ [((?i, ?g), ps_payload p, ps_digest p)]"
      "sl_heads st' = (if ps_current p = None then sl_heads st @ [(?i, ?g)]
         else map (\<lambda>(j, h). if j = ?i then (j, ?g) else (j, h)) (sl_heads st))"
    by (auto simp: save_commit_def guard_Inr Let_def simp del: not_None_eq)
  note w = waiting_generation [OF assms(1,2) free]
  have row: "written ?s (ps_payload p, ps_digest p)" using assms(2) by (simp add: save_waits_def)
  show ?thesis
    unfolding tables_match_def
  proof
    fix i
    note m = tables_matchD [OF assms(1), of i]
    have l: "logged i (log @ [?s]) = (if i = ?i then logged i log @ [?s] else logged i log)" by (simp add: logged_def)
    have "map ss_generation (logged i (log @ [?s])) = map int [0..<length (logged i (log @ [?s]))]"
      using m(1) w(1) by (auto simp: l)
    moreover have "map_of (sl_heads st') i
        = (if logged i (log @ [?s]) = [] then None else Some (int (length (logged i (log @ [?s]))) - 1))"
      using m(2) w by (auto simp: l st'(2) map_of_snoc map_of_replace simp del: map_of_append split: option.split)
    moreover have "case map_of (sl_snapshots st') (i, g) of
          None \<Rightarrow> g < 0 \<or> int (length (logged i (log @ [?s]))) \<le> g
        | Some r \<Rightarrow> 0 \<le> g \<and> g < int (length (logged i (log @ [?s]))) \<and> written (logged i (log @ [?s]) ! nat g) r" for g
    proof (cases "map_of (sl_snapshots st) (i, g)")
      case None
      then have "g < 0 \<or> int (length (logged i log)) \<le> g" by (simp add: m(3))
      with None w(1) row show ?thesis unfolding l st'(1) map_of_snoc by (auto simp: nth_append)
    next
      case (Some r)
      then have "0 \<le> g" "g < int (length (logged i log))" using m(3) [of g] by auto
      with Some m(4) [OF Some] show ?thesis unfolding l st'(1) map_of_snoc by (auto simp: nth_append)
    qed
    ultimately show "map ss_generation (logged i (log @ [?s])) = map int [0..<length (logged i (log @ [?s]))]
        \<and> map_of (sl_heads st') i
          = (if logged i (log @ [?s]) = [] then None else Some (int (length (logged i (log @ [?s]))) - 1))
        \<and> (\<forall>g. case map_of (sl_snapshots st') (i, g) of
          None \<Rightarrow> g < 0 \<or> int (length (logged i (log @ [?s]))) \<le> g
        | Some r \<Rightarrow> 0 \<le> g \<and> g < int (length (logged i (log @ [?s]))) \<and> written (logged i (log @ [?s]) ! nat g) r)"
      by blast
  qed
qed

lemma commit_keeps_waiting:
  assumes "tables_match st log" and "save_waits st p" and "save_commit st p = Inr st'" and "save_waits st q"
  shows "save_waits st' q"
proof (cases "ps_current q")
  case None
  with assms(4) show ?thesis by (simp add: save_waits_def)
next
  case (Some c)
  let ?j = "ss_search (ps_snapshot q)"
  from Some assms(4) obtain h where h: "map_of (sl_heads st) ?j = Some h" "c \<le> h" by (auto simp: save_waits_def)
  have old: "h = int (length (logged ?j log)) - 1"
    using h(1) tables_matchD(2) [OF assms(1), of ?j] by (auto split: if_splits)
  note m = tables_matchD(2) [OF commit_matches [OF assms(1-3)], of ?j]
  have "length (logged ?j log) \<le> length (logged ?j (log @ [ps_snapshot p]))" by (simp add: logged_def)
  moreover have "logged ?j log \<noteq> []" using h(1) tables_matchD(2) [OF assms(1), of ?j] by (auto split: if_splits)
  then have "logged ?j (log @ [ps_snapshot p]) \<noteq> []" by (simp add: logged_def)
  ultimately have "\<exists>h'. map_of (sl_heads st') ?j = Some h' \<and> h \<le> h'" by (simp add: m old)
  with h(2) assms(4) Some show ?thesis by (auto simp: save_waits_def)
qed

lemma check_waits:
  assumes "tables_match st log" and "save_check st s expected = Inr p" and "snapshot_constructed s"
  shows "save_waits st p \<and> ps_snapshot p = s"
proof -
  from assms(2) have p: "ps_snapshot p = s" "ps_current p = map_of (sl_heads st) (ss_search s)"
    and w: "written s (ps_payload p, ps_digest p)"
    and g: "ss_generation s = (case map_of (sl_heads st) (ss_search s) of None \<Rightarrow> 0 | Some g \<Rightarrow> g + 1)"
    by (auto simp: save_check_def guard_Inr Let_def written_def)
  have "0 \<le> h" if "map_of (sl_heads st) (ss_search s) = Some h" for h
    using that tables_matchD(2) [OF assms(1), of "ss_search s"] by (cases "logged (ss_search s) log") auto
  with p w g assms(3) show ?thesis by (auto simp: save_waits_def split: option.splits)
qed

fun event_constructed :: "store_event \<Rightarrow> bool" where
  "event_constructed (Check s _) = snapshot_constructed s"
| "event_constructed (Commit _) = True"

lemma start_ok: "system_ok store_start"
  by (auto simp: system_ok_def tables_match_def store_start_def empty_store_def logged_def)

lemma event_keeps_ok:
  assumes "system_ok y" and "event_constructed e"
  shows "system_ok (store_event_step y e)"
proof (cases e)
  case (Check s expected)
  show ?thesis
  proof (cases "save_check (sy_store y) s expected")
    case (Inr p)
    with assms Check check_waits [of "sy_store y" "sy_log y", OF _ Inr] show ?thesis by (simp add: system_ok_def)
  qed (use assms Check in simp)
next
  case (Commit n)
  show ?thesis
  proof (cases "n < length (sy_pending y)")
    case True
    let ?p = "sy_pending y ! n" and ?rest = "take n (sy_pending y) @ drop (Suc n) (sy_pending y)"
    have ok: "tables_match (sy_store y) (sy_log y)" "list_all snapshot_constructed (sy_log y)"
      and all: "list_all (save_waits (sy_store y)) (sy_pending y)" using assms(1) by (simp_all add: system_ok_def)
    have "set ?rest \<subseteq> set (sy_pending y)" by (auto dest: in_set_takeD in_set_dropD)
    then have rest: "list_all (save_waits (sy_store y)) ?rest" using all by (auto simp: list_all_iff)
    have p: "save_waits (sy_store y) ?p" using all True by (simp add: list_all_iff)
    show ?thesis
    proof (cases "save_commit (sy_store y) ?p")
      case (Inl err)
      with Commit True ok rest show ?thesis by (simp add: system_ok_def Let_def)
    next
      case (Inr st)
      have "list_all (save_waits st) ?rest"
        using rest commit_keeps_waiting [OF ok(1) p Inr] by (auto simp: list_all_iff)
      moreover have "snapshot_constructed (ps_snapshot ?p)" using p by (simp add: save_waits_def)
      ultimately show ?thesis
        using Commit True ok commit_matches [OF ok(1) p Inr] Inr by (simp add: system_ok_def Let_def)
    qed
  qed (use assms Commit in simp)
qed

lemma store_run_ok: "list_all event_constructed es \<Longrightarrow> system_ok (store_run es)"
proof -
  have "system_ok y \<Longrightarrow> list_all event_constructed es \<Longrightarrow> system_ok (foldl store_event_step y es)" for y
    by (induction es arbitrary: y) (simp_all add: event_keeps_ok)
  then show "list_all event_constructed es \<Longrightarrow> system_ok (store_run es)" by (simp add: store_run_def start_ok)
qed

lemma load_logged:
  assumes "tables_match st log" and "list_all snapshot_constructed log" and "encode_utf8 i \<noteq> None"
  shows "load_latest st i = (if logged i log = [] then Inl (store_failure ''search has no lifecycle snapshot'')
    else Inr (last (logged i log)))"
proof (cases "logged i log = []")
  case True
  then have "map_of (sl_heads st) i = None" using tables_matchD(2) [OF assms(1), of i] by simp
  moreover obtain bs where "encode_utf8 i = Some bs" using assms(3) by blast
  ultimately show ?thesis using True by (simp add: load_latest_def)
next
  case False
  obtain bs where bs: "encode_utf8 i = Some bs" using assms(3) by blast
  let ?l = "logged i log" and ?g = "int (length (logged i log)) - 1"
  note m = tables_matchD [OF assms(1), of i]
  have head: "map_of (sl_heads st) i = Some ?g" using False by (simp add: m(2))
  have "0 \<le> ?g" using False by (cases ?l) simp_all
  then obtain payload digest where row: "map_of (sl_snapshots st) (i, ?g) = Some (payload, digest)"
    using m(3) [of ?g] by (cases "map_of (sl_snapshots st) (i, ?g)") auto
  have "?l ! nat ?g = last ?l" using False by (simp add: last_conv_nth nat_diff_distrib')
  with m(4) [OF row] have w: "written (last ?l) (payload, digest)" by simp
  have "last ?l \<in> set ?l" using False by simp
  then have s: "snapshot_constructed (last ?l)" using assms(2) by (auto simp: logged_def list_all_iff)
  obtain raw where "json_loads payload = Inr raw" "snapshot_from_record raw = Inr (last ?l)"
    using w s by (auto simp: written_def elim: payload_reads)
  with w head row False bs show ?thesis by (simp add: load_latest_def written_def rbind_raise_if)
qed

section \<open>Properties\<close>

text \<open>
  C28. Whatever the interleaving of any number of saves, each of which reads the head of its search before its
  transaction: the committed snapshots of a search are its generations 0, 1, 2, and so on, in order and
  once each; no stored generation is ever lost or replaced; and \<open>load_latest\<close> returns exactly the last
  committed snapshot, read back from its checksummed text field by field, or the error for a search
  that has none.
\<close>

theorem store_resumes_latest:
  assumes "list_all event_constructed es" and "y = store_run es"
    and "mine = filter (\<lambda>s. ss_search s = i) (sy_log y)"
  shows "map ss_generation mine = map int [0..<length mine]
    \<and> (\<forall>g. map_of (sl_snapshots (sy_store y)) (i, g) \<noteq> None \<longleftrightarrow> 0 \<le> g \<and> g < int (length mine))
    \<and> load_latest (sy_store y) i
      = (if encode_utf8 i = None then Inl StoreEncoding
         else if mine = [] then Inl (store_failure ''search has no lifecycle snapshot'') else Inr (last mine))"
proof -
  have ok: "tables_match (sy_store y) (sy_log y)" "list_all snapshot_constructed (sy_log y)"
    using store_run_ok [OF assms(1)] assms(2) by (simp_all add: system_ok_def)
  have mine: "mine = logged i (sy_log y)" by (simp add: assms(3) logged_def)
  have "map_of (sl_snapshots (sy_store y)) (i, g) \<noteq> None \<longleftrightarrow> 0 \<le> g \<and> g < int (length mine)" for g
    using tables_matchD(3) [OF ok(1), of i g] by (auto simp: mine simp del: not_None_eq)
  moreover have "load_latest (sy_store y) i = Inl StoreEncoding" if "encode_utf8 i = None"
    using that by (simp add: load_latest_def)
  ultimately show ?thesis
    using tables_matchD(1) [OF ok(1), of i] load_logged [OF ok, of i] by (simp add: mine)
qed

text \<open>A search with one candidate, saved by two processes at once: the second transaction fails.\<close>

definition small_search :: search_snapshot where
  "small_search = (case lifecycle_create (lit ''search_2'') [demo_candidate ''a''] (lit ''checkpoint_root'') 1
     of Inr s \<Rightarrow> s)"

definition racing_saves :: "store_event list" where
  "racing_saves = [Check small_search None, Check small_search None, Commit 0, Commit 0]"

lemma small_payload:
  "(case canonical_identity_json (snapshot_record small_search) of Inr p \<Rightarrow> encode_utf8 p \<noteq> None | Inl _ \<Rightarrow> False)"
  by code_simp

lemma small_constructed: "snapshot_constructed small_search" "ss_search small_search = lit ''search_2''"
  "ss_generation small_search = 0"
  by code_simp+

lemma racing_log: "sy_log (store_run racing_saves) = [small_search]"
proof -
  obtain payload bs where p: "canonical_identity_json (snapshot_record small_search) = Inr payload"
    "encode_utf8 payload = Some bs"
    using small_payload by (auto split: sum.splits)
  show ?thesis
    using small_constructed p
    by (simp add: store_run_def racing_saves_def store_start_def empty_store_def save_check_def save_commit_def
        payload_digest_def Let_def)
qed

theorem store_resumes_latest_witness:
  "load_latest (sy_store (store_run racing_saves)) (lit ''search_2'') = Inr small_search"
proof -
  have constructed: "list_all event_constructed racing_saves" by (simp add: racing_saves_def small_constructed)
  have "encode_utf8 (lit ''search_2'') \<noteq> None" by code_simp
  then show ?thesis
    using store_resumes_latest [OF constructed refl refl, of "lit ''search_2''"] racing_log small_constructed(2)
    by simp
qed

end
