(* ===== verification/SearchConstraints.thy ===== *)
theory SearchConstraints
  imports IdentityJson "HOL-Library.Multiset"
begin

text \<open>
  \<open>search/constraints.py\<close>: hard constraints over measured metrics and their evaluation. Floats are the bit
  patterns of PyFloat, compared as in PyFloatOrder. The decimal text of floats, and with it the identity of a
  constraint set, is not modelled.
\<close>

datatype constraint_error = Constraint string | ConstraintOverflow

section \<open>Constraints and observations\<close>

datatype constraint_metric =
  QUALITY_RETENTION | PERPLEXITY_DELTA | LATENCY_GAIN | PEAK_RAM | PEAK_VRAM | DISK

fun metric_value :: "constraint_metric \<Rightarrow> pystr" where
  "metric_value QUALITY_RETENTION = lit ''quality_retention''"
| "metric_value PERPLEXITY_DELTA = lit ''perplexity_delta''"
| "metric_value LATENCY_GAIN = lit ''latency_gain''"
| "metric_value PEAK_RAM = lit ''peak_ram''"
| "metric_value PEAK_VRAM = lit ''peak_vram''"
| "metric_value DISK = lit ''disk''"

datatype baseline_reference = IMMUTABLE_SOURCE | PARENT_CANDIDATE | ABSOLUTE

fun baseline_value :: "baseline_reference \<Rightarrow> pystr" where
  "baseline_value IMMUTABLE_SOURCE = lit ''immutable_source''"
| "baseline_value PARENT_CANDIDATE = lit ''parent_candidate''"
| "baseline_value ABSOLUTE = lit ''absolute''"

datatype comparison = MINIMUM | MAXIMUM

fun comparison_value :: "comparison \<Rightarrow> pystr" where
  "comparison_value MINIMUM = lit ''minimum''"
| "comparison_value MAXIMUM = lit ''maximum''"

fun metric_contract :: "constraint_metric \<Rightarrow> string \<times> comparison" where
  "metric_contract QUALITY_RETENTION = (''ratio'', MINIMUM)"
| "metric_contract PERPLEXITY_DELTA = (''perplexity_points'', MAXIMUM)"
| "metric_contract LATENCY_GAIN = (''ratio'', MINIMUM)"
| "metric_contract PEAK_RAM = (''bytes'', MAXIMUM)"
| "metric_contract PEAK_VRAM = (''bytes'', MAXIMUM)"
| "metric_contract DISK = (''bytes'', MAXIMUM)"

definition absolute_metric :: "constraint_metric \<Rightarrow> bool" where
  "absolute_metric m \<longleftrightarrow> m \<in> {PEAK_RAM, PEAK_VRAM, DISK}"

definition CONSTRAINT_SCHEMA_VERSION :: int where
  "CONSTRAINT_SCHEMA_VERSION = 1"

record optimization_constraint =
  oc_metric :: constraint_metric
  oc_threshold :: nat
  oc_baseline :: baseline_reference
  oc_version :: int

definition F64_ONE :: nat where
  "F64_ONE = 1023 * 2 ^ 52"

definition optimization_constraint_init :: "optimization_constraint \<Rightarrow> constraint_error + optimization_constraint" where
  "optimization_constraint_init c =
     rbind (raise_if (oc_version c \<noteq> CONSTRAINT_SCHEMA_VERSION) (Constraint ''unsupported constraint schema version'')) (\<lambda>_.
     rbind (raise_if (\<not> f64_finite (oc_threshold c) \<or> f64_lt (oc_threshold c) 0)
              (Constraint ''constraint thresholds must be finite and non-negative'')) (\<lambda>_.
     rbind (raise_if (oc_metric c = QUALITY_RETENTION \<and> f64_lt F64_ONE (oc_threshold c))
              (Constraint ''quality retention must be a ratio within [0, 1]'')) (\<lambda>_.
     rbind (raise_if (absolute_metric (oc_metric c) \<noteq> (oc_baseline c = ABSOLUTE))
              (Constraint ''resource constraints require absolute baselines and relative metrics require a model baseline'')) (\<lambda>_.
     Inr c))))"

definition constraint_unit :: "optimization_constraint \<Rightarrow> string" where
  "constraint_unit c = fst (metric_contract (oc_metric c))"

definition constraint_comparison :: "optimization_constraint \<Rightarrow> comparison" where
  "constraint_comparison c = snd (metric_contract (oc_metric c))"

definition optimization_constraint_record :: "optimization_constraint \<Rightarrow> json" where
  "optimization_constraint_record c = JObj [(lit ''schema_version'', JInt (oc_version c)),
     (lit ''metric'', JStr (metric_value (oc_metric c))),
     (lit ''comparison'', JStr (comparison_value (constraint_comparison c))),
     (lit ''threshold'', JFloat (oc_threshold c)), (lit ''unit'', JStr (lit (constraint_unit c))),
     (lit ''baseline'', JStr (baseline_value (oc_baseline c)))]"

record constraint_observation =
  ob_metric :: constraint_metric
  ob_value :: nat
  ob_baseline :: baseline_reference

definition constraint_observation_init :: "constraint_observation \<Rightarrow> constraint_error + constraint_observation" where
  "constraint_observation_init o' =
     rbind (raise_if (\<not> f64_finite (ob_value o')) (Constraint ''constraint observations must be finite'')) (\<lambda>_.
     rbind (raise_if (absolute_metric (ob_metric o') \<and> f64_lt (ob_value o') 0)
              (Constraint ''resource observations cannot be negative'')) (\<lambda>_. Inr o'))"

section \<open>Evaluation\<close>

record constraint_result =
  cr_constraint :: optimization_constraint
  cr_observed :: "nat option"
  cr_passed :: bool
  cr_reason :: "string option"

definition constraint_result_record :: "constraint_result \<Rightarrow> json" where
  "constraint_result_record r = JObj [(lit ''constraint'', optimization_constraint_record (cr_constraint r)),
     (lit ''observed'', case cr_observed r of None \<Rightarrow> JNull | Some v \<Rightarrow> JFloat v), (lit ''passed'', JBool (cr_passed r)),
     (lit ''reason'', case cr_reason r of None \<Rightarrow> JNull | Some s \<Rightarrow> JStr (lit s))]"

record constraint_evaluation =
  ce_passed :: bool
  ce_results :: "constraint_result list"

definition constraint_evaluation_record :: "constraint_evaluation \<Rightarrow> json" where
  "constraint_evaluation_record e = JObj [(lit ''passed'', JBool (ce_passed e)),
     (lit ''results'', JList (map constraint_result_record (ce_results e)))]"

datatype constraint_set = ConstraintSet (cs_constraints: "optimization_constraint list")

definition constraint_set_init :: "optimization_constraint list \<Rightarrow> constraint_error + constraint_set" where
  "constraint_set_init cs =
     rbind (raise_if (cs = []) (Constraint ''at least one hard constraint is required'')) (\<lambda>_.
     rbind (raise_if (\<not> distinct (map oc_metric cs)) (Constraint ''hard constraint metrics must be unique'')) (\<lambda>_.
     Inr (ConstraintSet (sort_key (\<lambda>c. metric_value (oc_metric c)) cs))))"

definition constraint_set_record :: "constraint_set \<Rightarrow> json" where
  "constraint_set_record s = JObj [(lit ''schema_version'', JInt CONSTRAINT_SCHEMA_VERSION),
     (lit ''constraints'', JList (map optimization_constraint_record (cs_constraints s)))]"

text \<open>The dictionary \<open>by_metric\<close>.\<close>

fun index_observations ::
  "constraint_observation list \<Rightarrow> (constraint_metric \<Rightarrow> constraint_observation option)
     \<Rightarrow> constraint_error + (constraint_metric \<Rightarrow> constraint_observation option)" where
  "index_observations [] d = Inr d"
| "index_observations (o' # os) d =
     (if d (ob_metric o') \<noteq> None then Inl (Constraint ''constraint observations must be unique by metric'')
      else index_observations os (d(ob_metric o' \<mapsto> o')))"

definition evaluate_constraint ::
  "(constraint_metric \<Rightarrow> constraint_observation option) \<Rightarrow> optimization_constraint \<Rightarrow> constraint_result" where
  "evaluate_constraint by_metric c =
     (case by_metric (oc_metric c) of
        None \<Rightarrow> \<lparr>cr_constraint = c, cr_observed = None, cr_passed = False, cr_reason = Some ''missing_observation''\<rparr>
      | Some current \<Rightarrow>
          if ob_baseline current \<noteq> oc_baseline c
          then \<lparr>cr_constraint = c, cr_observed = Some (ob_value current), cr_passed = False,
                cr_reason = Some ''baseline_mismatch''\<rparr>
          else let passed = (if constraint_comparison c = MINIMUM
                             then f64_le (oc_threshold c) (ob_value current)
                             else f64_le (ob_value current) (oc_threshold c))
               in \<lparr>cr_constraint = c, cr_observed = Some (ob_value current), cr_passed = passed,
                   cr_reason = (if passed then None else Some ''threshold_violation'')\<rparr>)"

definition evaluate_constraints ::
  "constraint_set \<Rightarrow> constraint_observation list \<Rightarrow> constraint_error + constraint_evaluation" where
  "evaluate_constraints s observations =
     rbind (index_observations observations (\<lambda>_. None)) (\<lambda>by_metric.
     let results = map (evaluate_constraint by_metric) (cs_constraints s) in
     Inr \<lparr>ce_passed = list_all cr_passed results, ce_results = results\<rparr>)"

text \<open>The fields of \<open>config.ConstraintConfig\<close>, validated there; byte counts are integers.\<close>

record constraint_config =
  cc_min_quality_retention_ratio :: nat
  cc_max_perplexity_delta :: "nat option"
  cc_min_latency_gain_ratio :: "nat option"
  cc_max_ram_bytes :: "int option"
  cc_max_vram_bytes :: "int option"
  cc_max_disk_bytes :: "int option"

definition config_constraint ::
  "constraint_metric \<Rightarrow> nat \<Rightarrow> baseline_reference \<Rightarrow> constraint_error + optimization_constraint" where
  "config_constraint metric threshold baseline = optimization_constraint_init
     \<lparr>oc_metric = metric, oc_threshold = threshold, oc_baseline = baseline, oc_version = CONSTRAINT_SCHEMA_VERSION\<rparr>"

definition optional_constraint ::
  "constraint_metric \<times> (constraint_error + nat) option \<times> baseline_reference
     \<Rightarrow> constraint_error + optimization_constraint list" where
  "optional_constraint entry = (case entry of (metric, v, baseline) \<Rightarrow> (case v of
       None \<Rightarrow> Inr []
     | Some threshold \<Rightarrow> rbind threshold (\<lambda>t. rbind (config_constraint metric t baseline) (\<lambda>c. Inr [c]))))"

definition float_of_bytes :: "int option \<Rightarrow> (constraint_error + nat) option" where
  "float_of_bytes v = map_option (\<lambda>n. of_option ConstraintOverflow (int_to_f64 n)) v"

definition constraints_from_config :: "constraint_config \<Rightarrow> constraint_error + constraint_set" where
  "constraints_from_config config =
     rbind (config_constraint QUALITY_RETENTION (cc_min_quality_retention_ratio config) IMMUTABLE_SOURCE) (\<lambda>quality.
     rbind (mapM_r optional_constraint
         [(PERPLEXITY_DELTA, map_option Inr (cc_max_perplexity_delta config), IMMUTABLE_SOURCE),
          (LATENCY_GAIN, map_option Inr (cc_min_latency_gain_ratio config), IMMUTABLE_SOURCE),
          (PEAK_RAM, float_of_bytes (cc_max_ram_bytes config), ABSOLUTE),
          (PEAK_VRAM, float_of_bytes (cc_max_vram_bytes config), ABSOLUTE),
          (DISK, float_of_bytes (cc_max_disk_bytes config), ABSOLUTE)]) (\<lambda>optional.
     constraint_set_init (quality # concat optional)))"

section \<open>What an evaluation decides\<close>

text \<open>An observation meets a constraint of its metric and baseline.\<close>

definition meets :: "constraint_observation \<Rightarrow> optimization_constraint \<Rightarrow> bool" where
  "meets o' c \<longleftrightarrow> ob_metric o' = oc_metric c \<and> ob_baseline o' = oc_baseline c
     \<and> (if constraint_comparison c = MINIMUM then f64_le (oc_threshold c) (ob_value o')
        else f64_le (ob_value o') (oc_threshold c))"

lemma index_observations_exact:
  "\<forall>o' \<in> set os. d (ob_metric o') = None \<Longrightarrow>
     (if distinct (map ob_metric os)
      then \<exists>d'. index_observations os d = Inr d'
        \<and> (\<forall>m. d' m = (case find (\<lambda>o'. ob_metric o' = m) os of None \<Rightarrow> d m | Some o' \<Rightarrow> Some o'))
      else \<exists>e. index_observations os d = Inl e)"
proof (induction os arbitrary: d)
  case (Cons o' os)
  show ?case
  proof (cases "ob_metric o' \<in> ob_metric ` set os")
    case True
    then obtain p where p: "p \<in> set os" "ob_metric p = ob_metric o'" by auto
    have "\<exists>e. index_observations xs D = Inl e" if "D (ob_metric p) \<noteq> None" "p \<in> set xs" for xs D
      using that by (induction xs arbitrary: D) auto
    then have "\<exists>e. index_observations os (d(ob_metric o' \<mapsto> o')) = Inl e" using p by simp
    with True Cons.prems show ?thesis by simp
  next
    case False
    then have other: "ob_metric x \<noteq> ob_metric o'" if "x \<in> set os" for x using that by (metis imageI)
    then have "\<forall>x \<in> set os. (d(ob_metric o' \<mapsto> o')) (ob_metric x) = None" using Cons.prems by simp
    note IH = Cons.IH [OF this]
    have none: "find (\<lambda>x. ob_metric x = ob_metric o') os = None"
      unfolding find_None_iff using other by blast
    show ?thesis
    proof (cases "distinct (map ob_metric os)")
      case True
      with IH obtain d' where d': "index_observations os (d(ob_metric o' \<mapsto> o')) = Inr d'"
        "\<forall>m. d' m = (case find (\<lambda>x. ob_metric x = m) os of
           None \<Rightarrow> (d(ob_metric o' \<mapsto> o')) m | Some x \<Rightarrow> Some x)" by auto
      have "d' m = (case find (\<lambda>x. ob_metric x = m) (o' # os) of None \<Rightarrow> d m | Some x \<Rightarrow> Some x)" for m
        using d'(2) none by (cases "m = ob_metric o'") (simp_all split: option.splits)
      with d'(1) True False Cons.prems show ?thesis by simp
    next
      case nd: False
      with IH Cons.prems show ?thesis by simp
    qed
  qed
qed simp

text \<open>
  Evaluating hard constraints: observations that repeat a metric are refused, and otherwise there is
  exactly one result for each constraint. The candidate passes exactly when every constraint is met by an
  observation of its own metric measured against its own baseline; a constraint without one fails, so
  missing evidence never passes, and the reasons name the failures and only those.
\<close>
theorem constraints_decided:
  assumes "constraint_set_init cs = Inr s"
  shows "if distinct (map ob_metric observations)
     then \<exists>e. evaluate_constraints s observations = Inr e
       \<and> mset (map cr_constraint (ce_results e)) = mset cs
       \<and> (ce_passed e \<longleftrightarrow> (\<forall>c \<in> set cs. \<exists>o' \<in> set observations. meets o' c))
       \<and> (\<forall>r \<in> set (ce_results e). (cr_passed r \<longleftrightarrow> (\<exists>o' \<in> set observations. meets o' (cr_constraint r)))
            \<and> (cr_passed r \<longleftrightarrow> cr_reason r = None)
            \<and> (cr_observed r = None \<longleftrightarrow> oc_metric (cr_constraint r) \<notin> ob_metric ` set observations))
     else \<exists>e. evaluate_constraints s observations = Inl e"
proof (cases "distinct (map ob_metric observations)")
  case True
  with index_observations_exact [of observations "\<lambda>_. None"] obtain d where
    d0: "index_observations observations (\<lambda>_. None) = Inr d"
    "\<forall>m. d m = (case find (\<lambda>o'. ob_metric o' = m) observations of None \<Rightarrow> None | Some o' \<Rightarrow> Some o')"
    by auto
  then have d: "index_observations observations (\<lambda>_. None) = Inr d"
    "\<And>m. d m = find (\<lambda>o'. ob_metric o' = m) observations" by (simp_all split: option.splits)
  have uniq: "o' = p" if "o' \<in> set observations" "p \<in> set observations" "ob_metric o' = ob_metric p" for o' p
    using that True by (auto simp: distinct_map inj_on_def)
  have s: "cs_constraints s = sort_key (\<lambda>c. metric_value (oc_metric c)) cs"
    using assms by (auto simp: constraint_set_init_def guard_Inr)
  let ?r = "evaluate_constraint d"
  have r: "cr_constraint (?r c) = c" "cr_passed (?r c) \<longleftrightarrow> (\<exists>o' \<in> set observations. meets o' c)"
    "cr_passed (?r c) \<longleftrightarrow> cr_reason (?r c) = None"
    "cr_observed (?r c) = None \<longleftrightarrow> oc_metric c \<notin> ob_metric ` set observations" for c
  proof -
    have "cr_constraint (?r c) = c \<and> (cr_passed (?r c) \<longleftrightarrow> (\<exists>o' \<in> set observations. meets o' c))
      \<and> (cr_passed (?r c) \<longleftrightarrow> cr_reason (?r c) = None)
      \<and> (cr_observed (?r c) = None \<longleftrightarrow> oc_metric c \<notin> ob_metric ` set observations)"
    proof (cases "d (oc_metric c)")
      case None
      then have "ob_metric x \<noteq> oc_metric c" if "x \<in> set observations" for x
        using that by (simp add: d(2) find_None_iff)
      then have "oc_metric c \<notin> ob_metric ` set observations" "\<not> (\<exists>x \<in> set observations. meets x c)"
        unfolding meets_def by (metis imageE, blast)
      with None show ?thesis by (simp add: evaluate_constraint_def)
    next
      case (Some p)
      then have p: "p \<in> set observations" "ob_metric p = oc_metric c" by (auto simp: d(2) find_Some_iff)
      have "(\<exists>o' \<in> set observations. meets o' c) \<longleftrightarrow> meets p c"
        using p uniq unfolding meets_def by metis
      moreover have "oc_metric c \<in> ob_metric ` set observations" using p by (metis imageI)
      moreover have "cr_constraint (?r c) = c \<and> (cr_passed (?r c) \<longleftrightarrow> meets p c)
          \<and> (cr_passed (?r c) \<longleftrightarrow> cr_reason (?r c) = None) \<and> cr_observed (?r c) \<noteq> None"
        using Some p(2) by (simp add: evaluate_constraint_def meets_def Let_def)
      ultimately show ?thesis by blast
    qed
    then show "cr_constraint (?r c) = c" "cr_passed (?r c) \<longleftrightarrow> (\<exists>o' \<in> set observations. meets o' c)"
      "cr_passed (?r c) \<longleftrightarrow> cr_reason (?r c) = None"
      "cr_observed (?r c) = None \<longleftrightarrow> oc_metric c \<notin> ob_metric ` set observations" by blast+
  qed
  have "map cr_constraint (map ?r (cs_constraints s)) = cs_constraints s" by (simp add: comp_def r(1))
  then have "mset (map cr_constraint (map ?r (cs_constraints s))) = mset cs" by (simp add: s)
  moreover have "evaluate_constraints s observations
      = Inr \<lparr>ce_passed = list_all cr_passed (map ?r (cs_constraints s)), ce_results = map ?r (cs_constraints s)\<rparr>"
    by (simp add: evaluate_constraints_def d(1) Let_def)
  ultimately show ?thesis using True r by (simp add: list_all_iff s multiset.map_comp)
next
  case False
  then show ?thesis using index_observations_exact [of observations "\<lambda>_. None"]
    by (auto simp: evaluate_constraints_def)
qed

text \<open>A quality floor of one half and a memory ceiling; the observations meet the floor only.\<close>

definition demo_limits :: "optimization_constraint list" where
  "demo_limits = [\<lparr>oc_metric = QUALITY_RETENTION, oc_threshold = 1022 * 2 ^ 52, oc_baseline = IMMUTABLE_SOURCE, oc_version = 1\<rparr>,
     \<lparr>oc_metric = PEAK_RAM, oc_threshold = 1030 * 2 ^ 52, oc_baseline = ABSOLUTE, oc_version = 1\<rparr>]"

definition demo_observations :: "constraint_observation list" where
  "demo_observations = [\<lparr>ob_metric = PEAK_RAM, ob_value = 1031 * 2 ^ 52, ob_baseline = ABSOLUTE\<rparr>,
     \<lparr>ob_metric = QUALITY_RETENTION, ob_value = 1023 * 2 ^ 52, ob_baseline = IMMUTABLE_SOURCE\<rparr>]"

theorem constraints_decided_witness:
  "\<exists>s e. constraint_set_init demo_limits = Inr s \<and> evaluate_constraints s demo_observations = Inr e
     \<and> map cr_reason (ce_results e) = [Some ''threshold_violation'', None]
     \<and> (ce_passed e \<longleftrightarrow> (\<forall>c \<in> set demo_limits. \<exists>o' \<in> set demo_observations. meets o' c))"
proof -
  let ?s = "ConstraintSet [demo_limits ! 1, demo_limits ! 0]"
  have eval: "f64_finite (1022 * 2 ^ 52)" "f64_finite (1030 * 2 ^ 52)" "\<not> f64_lt (1022 * 2 ^ 52) 0"
    "\<not> f64_lt (1030 * 2 ^ 52) 0" "\<not> f64_lt F64_ONE (1022 * 2 ^ 52)"
    "f64_le (1022 * 2 ^ 52) (1023 * 2 ^ 52)" "\<not> f64_le (1031 * 2 ^ 52) (1030 * 2 ^ 52)"
    by (simp_all add: f64_finite_def f64_lt_def f64_le_def f64_is_nan_def f64_key_def f64_negative_def F64_ONE_def)
  have "\<not> lit ''quality_retention'' \<le> lit ''peak_ram''" by code_simp
  then have s: "constraint_set_init demo_limits = Inr ?s"
    by (simp add: constraint_set_init_def demo_limits_def raise_if_def)
  obtain e where e: "evaluate_constraints ?s demo_observations = Inr e"
    "map cr_reason (ce_results e) = [Some ''threshold_violation'', None]"
    using eval by (simp add: evaluate_constraints_def evaluate_constraint_def demo_limits_def demo_observations_def
        constraint_comparison_def)
  have u: "distinct (map ob_metric demo_observations)" by (simp add: demo_observations_def)
  from constraints_decided [OF s, of demo_observations] u e(1)
  have "ce_passed e \<longleftrightarrow> (\<forall>c \<in> set demo_limits. \<exists>o' \<in> set demo_observations. meets o' c)" by simp
  with s e show ?thesis by (intro exI [of _ ?s] exI [of _ e] conjI)
qed

end
