(* ===== verification/SearchObjectives.thy ===== *)
theory SearchObjectives
  imports PyJson PyFloatOrder "HOL-Library.List_Lexorder"
begin

text \<open>
  \<open>search/objectives.py\<close> without scoring: the soft objectives of a search, their validation and canonical
  order, and how a configuration becomes objectives. Scores (\<open>math.fsum\<close> over float products) and the identity
  of an objective set, a hash of float text, are not modelled.
\<close>

datatype objective_error = Objective string

datatype optimize_metric = QUALITY | PERPLEXITY | PARAMETER_COUNT | LATENCY | MEMORY | DISK_SIZE

fun optimize_value :: "optimize_metric \<Rightarrow> pystr" where
  "optimize_value QUALITY = lit ''quality''"
| "optimize_value PERPLEXITY = lit ''perplexity''"
| "optimize_value PARAMETER_COUNT = lit ''parameter_count''"
| "optimize_value LATENCY = lit ''latency''"
| "optimize_value MEMORY = lit ''memory''"
| "optimize_value DISK_SIZE = lit ''disk_size''"

definition OPTIMIZE_METRICS :: "optimize_metric list" where
  "OPTIMIZE_METRICS = [QUALITY, PERPLEXITY, PARAMETER_COUNT, LATENCY, MEMORY, DISK_SIZE]"

datatype objective_direction = MAXIMIZE | MINIMIZE

fun direction_value :: "objective_direction \<Rightarrow> pystr" where
  "direction_value MAXIMIZE = lit ''maximize''"
| "direction_value MINIMIZE = lit ''minimize''"

datatype objective_normalization = IDENTITY | BASELINE_RATIO | MIN_MAX

fun normalization_value :: "objective_normalization \<Rightarrow> pystr" where
  "normalization_value IDENTITY = lit ''identity''"
| "normalization_value BASELINE_RATIO = lit ''baseline_ratio''"
| "normalization_value MIN_MAX = lit ''min_max''"

definition OBJECTIVE_SCHEMA_VERSION :: int where
  "OBJECTIVE_SCHEMA_VERSION = 1"

record objective_term =
  ot_metric :: optimize_metric
  ot_direction :: objective_direction
  ot_weight :: nat
  ot_normalization :: objective_normalization
  ot_minimum :: "nat option"
  ot_maximum :: "nat option"

definition ordered_bounds :: "objective_term \<Rightarrow> bool" where
  "ordered_bounds t =
     (case (ot_minimum t, ot_maximum t) of
        (Some lo, Some hi) \<Rightarrow> f64_finite lo \<and> f64_finite hi \<and> \<not> f64_le hi lo
      | _ \<Rightarrow> False)"

definition objective_term_init :: "objective_term \<Rightarrow> objective_error + objective_term" where
  "objective_term_init t =
     rbind (raise_if (\<not> f64_finite (ot_weight t) \<or> f64_le (ot_weight t) 0)
              (Objective ''objective weight must be finite and positive'')) (\<lambda>_.
     if ot_normalization t = MIN_MAX
     then rbind (raise_if (\<not> ordered_bounds t) (Objective ''min-max normalization requires ordered finite bounds''))
            (\<lambda>_. Inr t)
     else rbind (raise_if (ot_minimum t \<noteq> None \<or> ot_maximum t \<noteq> None)
              (Objective ''bounds are only valid for min-max normalization'')) (\<lambda>_. Inr t))"

definition json_float :: "nat option \<Rightarrow> json" where
  "json_float v = (case v of None \<Rightarrow> JNull | Some b \<Rightarrow> JFloat b)"

definition objective_term_record :: "objective_term \<Rightarrow> json" where
  "objective_term_record t =
     JObj [(lit ''metric'', JStr (optimize_value (ot_metric t))),
           (lit ''direction'', JStr (direction_value (ot_direction t))), (lit ''weight'', JFloat (ot_weight t)),
           (lit ''normalization'', JStr (normalization_value (ot_normalization t))),
           (lit ''minimum'', json_float (ot_minimum t)), (lit ''maximum'', json_float (ot_maximum t))]"

datatype objective_set = ObjectiveSet (os_terms: "objective_term list")

definition objective_set_init :: "objective_term list \<Rightarrow> objective_error + objective_set" where
  "objective_set_init terms =
     rbind (raise_if (terms = []) (Objective ''at least one soft objective is required'')) (\<lambda>_.
     rbind (raise_if (\<not> distinct (map ot_metric terms)) (Objective ''soft objective metrics must be unique'')) (\<lambda>_.
     Inr (ObjectiveSet (sort_key (\<lambda>t. optimize_value (ot_metric t)) terms))))"

definition objective_set_record :: "objective_set \<Rightarrow> json" where
  "objective_set_record s =
     JObj [(lit ''schema_version'', JInt OBJECTIVE_SCHEMA_VERSION),
           (lit ''terms'', JList (map objective_term_record (os_terms s)))]"

definition legacy_term :: "optimize_metric \<Rightarrow> objective_error + objective_term" where
  "legacy_term m = objective_term_init
     \<lparr>ot_metric = m, ot_direction = (if m = QUALITY then MAXIMIZE else MINIMIZE), ot_weight = 1023 * 2 ^ 52,
      ot_normalization = BASELINE_RATIO, ot_minimum = None, ot_maximum = None\<rparr>"

text \<open>The fields of \<open>config.ObjectiveConfig\<close> read here; a term configuration has the fields of a term.\<close>

record objective_config =
  oj_optimize :: "optimize_metric list"
  oj_terms :: "objective_term list option"

definition objectives_from_config :: "objective_config \<Rightarrow> objective_error + objective_set" where
  "objectives_from_config config =
     rbind (case oj_terms config of
              None \<Rightarrow> mapM_r legacy_term (oj_optimize config)
            | Some terms \<Rightarrow> mapM_r objective_term_init terms) objective_set_init"

section \<open>Facts\<close>

lemma optimize_value_inj: "optimize_value a = optimize_value b \<longleftrightarrow> a = b"
  by (cases a; cases b) (simp_all add: lit_simps)

lemma objective_set_terms:
  "objective_set_init terms = Inr s
   \<longleftrightarrow> terms \<noteq> [] \<and> distinct (map ot_metric terms)
     \<and> s = ObjectiveSet (sort_key (\<lambda>t. optimize_value (ot_metric t)) terms)"
  by (auto simp: objective_set_init_def guard_Inr)

text \<open>The legacy form of a configuration always gives objectives, one for each metric.\<close>

lemma legacy_config_accepted:
  assumes "oj_terms config = None" and "oj_optimize config \<noteq> []" and "distinct (oj_optimize config)"
  shows "\<exists>s. objectives_from_config config = Inr s \<and> ot_metric ` set (os_terms s) = set (oj_optimize config)"
proof -
  define built where "built m = \<lparr>ot_metric = m, ot_direction = (if m = QUALITY then MAXIMIZE else MINIMIZE),
    ot_weight = 1023 * 2 ^ 52, ot_normalization = BASELINE_RATIO, ot_minimum = None, ot_maximum = None\<rparr>" for m
  have w: "f64_finite (1023 * 2 ^ 52)" "\<not> f64_le (1023 * 2 ^ 52) 0"
    by (simp_all add: f64_finite_def f64_le_def f64_key_def f64_negative_def)
  have "legacy_term m = Inr (built m)" for m
    using w by (simp add: legacy_term_def objective_term_init_def built_def)
  then have "mapM_r legacy_term ms = Inr (map built ms)" for ms by (induction ms) simp_all
  moreover have "map ot_metric (map built ms) = ms" for ms by (induction ms) (simp_all add: built_def)
  ultimately show ?thesis
    using assms by (auto simp: objectives_from_config_def objective_set_init_def built_def image_image)
qed

end
