(* ===== verification/ParetoArchive.thy ===== *)
theory ParetoArchive
  imports SearchObjectives PyJsonText
begin

text \<open>
  \<open>search/pareto.py\<close>: candidates with noisy and missing objectives, conservative dominance by worst-case
  bounds, and the SQLite archive that keeps the frontier. A JSON column is kept as the value that reading its
  text gives, with the keys sorted as they are written. \<open>put\<close> reads the row of the candidate before its
  transaction opens, so the traces interleave the two halves of any number of puts. The rows are those
  \<open>put\<close> wrote: a number stored as a string, which \<open>float\<close> would parse, counts as corrupt.
\<close>

datatype pareto_error = Pareto string | ParetoDecode | ParetoEncoding | ParetoOverflow | ParetoIntegrity

section \<open>JSON values as they are stored and compared\<close>

text \<open>What reading the text of \<open>json.dumps(value, sort_keys=True)\<close> gives.\<close>

function stored_json :: "json \<Rightarrow> json" where
  "stored_json (JObj kvs) = JObj (map (\<lambda>(k, v). (k, stored_json v)) (sort_key fst kvs))"
| "stored_json (JList vs) = JList (map stored_json vs)"
| "stored_json JNull = JNull"
| "stored_json (JBool b) = JBool b"
| "stored_json (JInt i) = JInt i"
| "stored_json (JFloat b) = JFloat b"
| "stored_json (JStr s) = JStr s"
  by pat_completeness auto
termination
proof (relation "measure size")
  fix kvs :: "(pystr \<times> json) list" and x k v
  assume "x \<in> set (sort_key fst kvs)" and "(k, v) = x"
  then have "(k, v) \<in> set kvs" by simp
  then show "(v, JObj kvs) \<in> measure size" by (induction kvs) auto
next
  fix vs and x :: json
  assume "x \<in> set vs"
  then show "(x, JList vs) \<in> measure size" by (induction vs) auto
qed simp

text \<open>Python's \<open>==\<close>: numbers of any type by value, dictionaries without regard to order, a NaN never equal.\<close>

definition json_exact_number :: "json \<Rightarrow> int option" where
  "json_exact_number v =
     (case v of
        JBool b \<Rightarrow> Some (if b then 1 else 0)
      | JInt i \<Rightarrow> Some i
      | _ \<Rightarrow> None)"

definition number_equal :: "json \<Rightarrow> json \<Rightarrow> bool" where
  "number_equal v w =
     (case (v, w) of
        (JFloat a, JFloat b) \<Rightarrow> f64_eq a b
      | (JFloat a, _) \<Rightarrow> f64_finite a \<and> json_exact_number w \<noteq> None
          \<and> f64_scaled a = the (json_exact_number w) * 2 ^ 1074
      | (_, JFloat b) \<Rightarrow> f64_finite b \<and> json_exact_number v \<noteq> None
          \<and> f64_scaled b = the (json_exact_number v) * 2 ^ 1074
      | _ \<Rightarrow> json_exact_number v \<noteq> None \<and> json_exact_number v = json_exact_number w)"

function json_equal :: "json \<Rightarrow> json \<Rightarrow> bool" where
  "json_equal (JObj kvs) w =
     (case w of
        JObj lvs \<Rightarrow> length kvs = length lvs
          \<and> list_all (\<lambda>(k, v). case map_of lvs k of None \<Rightarrow> False | Some x \<Rightarrow> json_equal v x) kvs
      | _ \<Rightarrow> False)"
| "json_equal (JList vs) w =
     (case w of
        JList ws \<Rightarrow> length vs = length ws \<and> list_all (\<lambda>(v, x). json_equal v x) (zip vs ws)
      | _ \<Rightarrow> False)"
| "json_equal JNull w = (w = JNull)"
| "json_equal (JStr s) w = (w = JStr s)"
| "json_equal (JBool b) w = number_equal (JBool b) w"
| "json_equal (JInt i) w = number_equal (JInt i) w"
| "json_equal (JFloat b) w = number_equal (JFloat b) w"
  by pat_completeness auto
termination
proof (relation "measure (\<lambda>(v, _). size v)", goal_cases)
  case (2 kvs w lvs x k v y)
  then have "(k, v) \<in> set kvs" by simp
  then show ?case by (induction kvs) auto
next
  case (3 vs w ws x v y)
  then have "v \<in> set vs" by (metis set_zip_leftD)
  then show ?case by (induction vs) auto
qed simp

section \<open>Candidates\<close>

record pareto_value =
  pv_metric :: optimize_metric
  pv_estimate :: nat
  pv_low :: "nat option"
  pv_high :: "nat option"

definition pareto_value_init :: "pareto_value \<Rightarrow> pareto_error + pareto_value" where
  "pareto_value_init v =
     rbind (raise_if (\<not> f64_finite (pv_estimate v)) (Pareto ''objective estimates must be finite'')) (\<lambda>_.
     rbind (raise_if ((pv_low v \<noteq> None) \<noteq> (pv_high v \<noteq> None))
              (Pareto ''objective confidence bounds must be both present or absent'')) (\<lambda>_.
     rbind (raise_if (case (pv_low v, pv_high v) of
                        (Some lo, Some hi) \<Rightarrow> \<not> f64_finite lo \<or> \<not> f64_finite hi
                          \<or> \<not> (f64_le lo (pv_estimate v) \<and> f64_le (pv_estimate v) hi)
                      | _ \<Rightarrow> False)
              (Pareto ''objective confidence bounds must contain the estimate'')) (\<lambda>_. Inr v)))"

definition low_bound :: "pareto_value \<Rightarrow> nat" where
  "low_bound v = (case pv_low v of None \<Rightarrow> pv_estimate v | Some b \<Rightarrow> b)"

definition high_bound :: "pareto_value \<Rightarrow> nat" where
  "high_bound v = (case pv_high v of None \<Rightarrow> pv_estimate v | Some b \<Rightarrow> b)"

definition pareto_value_record :: "pareto_value \<Rightarrow> json" where
  "pareto_value_record v =
     JObj [(lit ''metric'', JStr (optimize_value (pv_metric v))), (lit ''estimate'', JFloat (pv_estimate v)),
           (lit ''confidence_low'', json_float (pv_low v)), (lit ''confidence_high'', json_float (pv_high v))]"

text \<open>The comparison of two values as dataclasses; their floats are finite.\<close>

definition bound_equal :: "nat option \<Rightarrow> nat option \<Rightarrow> bool" where
  "bound_equal a b = (case (a, b) of (None, None) \<Rightarrow> True | (Some x, Some y) \<Rightarrow> f64_eq x y | _ \<Rightarrow> False)"

definition value_equal :: "pareto_value \<Rightarrow> pareto_value \<Rightarrow> bool" where
  "value_equal v w \<longleftrightarrow> pv_metric v = pv_metric w \<and> f64_eq (pv_estimate v) (pv_estimate w)
     \<and> bound_equal (pv_low v) (pv_low w) \<and> bound_equal (pv_high v) (pv_high w)"

record pareto_candidate =
  pc_id :: pystr
  pc_objectives :: "pareto_value list"
  pc_payload :: json

definition pareto_candidate_init :: "pareto_candidate \<Rightarrow> pareto_error + pareto_candidate" where
  "pareto_candidate_init c =
     rbind (raise_if (is_blank (pc_id c)) (Pareto ''Pareto candidates require a non-empty ID'')) (\<lambda>_.
     rbind (raise_if (\<not> distinct (map pv_metric (pc_objectives c)))
              (Pareto ''candidate objective metrics must be unique'')) (\<lambda>_.
     rbind (raise_if (\<not> json_writable (pc_payload c)) (Pareto ''Pareto records must be canonical JSON values'')) (\<lambda>_.
     Inr (c\<lparr>pc_objectives := sort_key (\<lambda>v. optimize_value (pv_metric v)) (pc_objectives c)\<rparr>))))"

definition objectives_by_metric :: "pareto_candidate \<Rightarrow> optimize_metric \<Rightarrow> pareto_value option" where
  "objectives_by_metric c = map_of (rev (map (\<lambda>v. (pv_metric v, v)) (pc_objectives c)))"

section \<open>Conservative dominance\<close>

fun dominance_loop ::
  "(optimize_metric \<Rightarrow> pareto_value option) \<Rightarrow> (optimize_metric \<Rightarrow> pareto_value option)
     \<Rightarrow> bool \<Rightarrow> objective_term list \<Rightarrow> bool" where
  "dominance_loop left right strictly_better [] = strictly_better"
| "dominance_loop left right strictly_better (t # ts) =
     (case (left (ot_metric t), right (ot_metric t)) of
        (Some l, Some r) \<Rightarrow>
          if ot_direction t = MAXIMIZE then
            if f64_lt (low_bound l) (high_bound r) then False
            else dominance_loop left right (strictly_better \<or> f64_lt (high_bound r) (low_bound l)) ts
          else
            if f64_lt (low_bound r) (high_bound l) then False
            else dominance_loop left right (strictly_better \<or> f64_lt (high_bound l) (low_bound r)) ts
      | _ \<Rightarrow> False)"

definition conservatively_dominates :: "pareto_candidate \<Rightarrow> pareto_candidate \<Rightarrow> objective_set \<Rightarrow> bool" where
  "conservatively_dominates left right objectives =
     dominance_loop (objectives_by_metric left) (objectives_by_metric right) False (os_terms objectives)"

section \<open>The archive\<close>

text \<open>The singleton row of \<open>pareto_metadata\<close>, and the rows of \<open>pareto_candidates\<close> in the order of insertion.\<close>

record pareto_row =
  pr_id :: pystr
  pr_objectives :: json
  pr_payload :: json
  pr_frontier :: bool
  pr_sequence :: int

record pareto_archive =
  pa_metadata :: "(int \<times> pystr \<times> json) option"
  pa_rows :: "pareto_row list"

definition PARETO_ARCHIVE_SCHEMA_VERSION :: int where
  "PARETO_ARCHIVE_SCHEMA_VERSION = 1"

definition empty_archive :: pareto_archive where
  "empty_archive = \<lparr>pa_metadata = None, pa_rows = []\<rparr>"

text \<open>Opening: \<open>set_id\<close> is the identity of an objective record, a hash of its text.\<close>

definition open_archive ::
  "(json \<Rightarrow> pystr) \<Rightarrow> pareto_archive \<Rightarrow> objective_set \<Rightarrow> pareto_error + pareto_archive" where
  "open_archive set_id a objectives =
     (let i = set_id (objective_set_record objectives); text' = stored_json (objective_set_record objectives) in
      case pa_metadata a of
        None \<Rightarrow> Inr (a\<lparr>pa_metadata := Some (PARETO_ARCHIVE_SCHEMA_VERSION, i, text')\<rparr>)
      | Some (version, old_id, old) \<Rightarrow>
          if version \<noteq> PARETO_ARCHIVE_SCHEMA_VERSION \<or> old_id \<noteq> i \<or> old \<noteq> text'
          then Inl (Pareto ''archive objective definition or schema does not match'')
          else Inr a)"

definition read_field :: "(pystr \<times> json) list \<Rightarrow> string \<Rightarrow> pareto_error + json" where
  "read_field item k = of_option ParetoDecode (map_of item (lit k))"

definition read_float :: "json \<Rightarrow> pareto_error + nat" where
  "read_float v =
     (case v of
        JFloat b \<Rightarrow> Inr b
      | JInt i \<Rightarrow> of_option ParetoDecode (int_to_f64 i)
      | JBool b \<Rightarrow> Inr (if b then 1023 * 2 ^ 52 else 0)
      | _ \<Rightarrow> Inl ParetoDecode)"

definition read_bound :: "json \<Rightarrow> pareto_error + nat option" where
  "read_bound v = (if v = JNull then Inr None else rbind (read_float v) (\<lambda>b. Inr (Some b)))"

definition read_metric :: "json \<Rightarrow> pareto_error + optimize_metric" where
  "read_metric v = of_option ParetoDecode (find (\<lambda>m. JStr (optimize_value m) = v) OPTIMIZE_METRICS)"

definition read_value :: "json \<Rightarrow> pareto_error + pareto_value" where
  "read_value v =
     rbind (of_option ParetoDecode (json_obj v)) (\<lambda>item.
     rbind (read_field item ''metric'') (\<lambda>m. rbind (read_metric m) (\<lambda>metric.
     rbind (read_field item ''estimate'') (\<lambda>e. rbind (read_float e) (\<lambda>estimate.
     rbind (read_field item ''confidence_low'') (\<lambda>l. rbind (read_bound l) (\<lambda>low.
     rbind (read_field item ''confidence_high'') (\<lambda>h. rbind (read_bound h) (\<lambda>high.
     pareto_value_init \<lparr>pv_metric = metric, pv_estimate = estimate, pv_low = low, pv_high = high\<rparr>)))))))))"

definition candidate_from_row :: "pareto_row \<Rightarrow> pareto_error + pareto_candidate" where
  "candidate_from_row row =
     rbind (of_option ParetoDecode (json_list (pr_objectives row))) (\<lambda>items.
     rbind (mapM_r read_value items) (\<lambda>vs.
     rbind (raise_if (json_obj (pr_payload row) = None) (Pareto ''stored Pareto payload is not an object'')) (\<lambda>_.
     pareto_candidate_init \<lparr>pc_id = pr_id row, pc_objectives = vs, pc_payload = pr_payload row\<rparr>)))"

record pareto_entry =
  en_candidate :: pareto_candidate
  en_frontier :: bool
  en_sequence :: int

definition entry_of :: "pareto_row \<Rightarrow> pareto_error + pareto_entry" where
  "entry_of row = rbind (candidate_from_row row) (\<lambda>c.
     Inr \<lparr>en_candidate = c, en_frontier = pr_frontier row, en_sequence = pr_sequence row\<rparr>)"

definition archive_entries :: "bool \<Rightarrow> pareto_row list \<Rightarrow> pareto_error + pareto_entry list" where
  "archive_entries frontier_only rows =
     mapM_r entry_of (sort_key pr_id (filter (\<lambda>r. frontier_only \<longrightarrow> pr_frontier r) rows))"

definition validate_metrics :: "objective_set \<Rightarrow> pareto_candidate \<Rightarrow> pareto_error + unit" where
  "validate_metrics objectives c =
     raise_if (\<not> list_all (\<lambda>v. pv_metric v \<in> ot_metric ` set (os_terms objectives)) (pc_objectives c))
       (Pareto ''candidate contains objectives outside archive definition'')"

definition entry_dominated :: "objective_set \<Rightarrow> pareto_entry list \<Rightarrow> pareto_entry \<Rightarrow> bool" where
  "entry_dominated objectives entries entry =
     list_ex (\<lambda>other. pc_id (en_candidate other) \<noteq> pc_id (en_candidate entry)
       \<and> conservatively_dominates (en_candidate other) (en_candidate entry) objectives) entries"

definition set_frontier :: "pystr \<Rightarrow> bool \<Rightarrow> pareto_row list \<Rightarrow> pareto_row list" where
  "set_frontier i flag = map (\<lambda>r. if pr_id r = i then r\<lparr>pr_frontier := flag\<rparr> else r)"

definition recompute_frontier :: "objective_set \<Rightarrow> pareto_row list \<Rightarrow> pareto_error + pareto_row list" where
  "recompute_frontier objectives rows =
     rbind (archive_entries False rows) (\<lambda>entries.
     Inr (foldl (\<lambda>rs entry. set_frontier (pc_id (en_candidate entry)) (\<not> entry_dominated objectives entries entry) rs)
            rows entries))"

text \<open>A put that has read the row of its candidate: \<open>Some n\<close> inserts a new row with sequence number \<open>n\<close>.\<close>

record pending_put =
  pp_candidate :: pareto_candidate
  pp_objectives :: json
  pp_insert :: "int option"

definition next_sequence :: "pareto_row list \<Rightarrow> int" where
  "next_sequence rows = (case rows of [] \<Rightarrow> 1 | _ \<Rightarrow> Max (set (map pr_sequence rows)) + 1)"

definition completes :: "pareto_candidate \<Rightarrow> pareto_candidate \<Rightarrow> bool" where
  "completes c previous \<longleftrightarrow>
     json_equal (pc_payload previous) (pc_payload c)
     \<and> list_all (\<lambda>m. case objectives_by_metric previous m of
           None \<Rightarrow> True
         | Some v \<Rightarrow> (case objectives_by_metric c m of None \<Rightarrow> False | Some w \<Rightarrow> value_equal w v)) OPTIMIZE_METRICS"

definition put_check :: "objective_set \<Rightarrow> pareto_archive \<Rightarrow> pareto_candidate \<Rightarrow> pareto_error + pending_put" where
  "put_check objectives a c =
     rbind (validate_metrics objectives c) (\<lambda>_.
     let text' = stored_json (JList (map pareto_value_record (pc_objectives c))) in
     rbind (raise_if (encode_utf8 (pc_id c) = None) ParetoEncoding) (\<lambda>_.
     case find (\<lambda>r. pr_id r = pc_id c) (pa_rows a) of
       None \<Rightarrow> Inr \<lparr>pp_candidate = c, pp_objectives = text', pp_insert = Some (next_sequence (pa_rows a))\<rparr>
     | Some row \<Rightarrow>
         rbind (candidate_from_row row) (\<lambda>previous.
         rbind (raise_if (\<not> completes c previous)
                  (Pareto ''candidate updates may only fill previously missing objectives'')) (\<lambda>_.
         Inr \<lparr>pp_candidate = c, pp_objectives = text', pp_insert = None\<rparr>))))"

text \<open>The transaction: an error leaves the archive as it was.\<close>

definition put_commit :: "objective_set \<Rightarrow> pareto_archive \<Rightarrow> pending_put \<Rightarrow> pareto_error + pareto_archive" where
  "put_commit objectives a p =
     (let c = pp_candidate p in
      rbind (case pp_insert p of
          Some n \<Rightarrow>
            rbind (raise_if (\<not> json_encodable (pc_payload c)) ParetoEncoding) (\<lambda>_.
            rbind (raise_if (2 ^ 63 \<le> n) ParetoOverflow) (\<lambda>_.
            rbind (raise_if (pc_id c \<in> set (map pr_id (pa_rows a)) \<or> n \<in> set (map pr_sequence (pa_rows a)))
                     ParetoIntegrity) (\<lambda>_.
            Inr (pa_rows a @ [\<lparr>pr_id = pc_id c, pr_objectives = pp_objectives p, pr_payload = stored_json (pc_payload c),
                   pr_frontier = True, pr_sequence = n\<rparr>]))))
        | None \<Rightarrow>
            Inr (map (\<lambda>r. if pr_id r = pc_id c then r\<lparr>pr_objectives := pp_objectives p\<rparr> else r) (pa_rows a)))
        (\<lambda>rows.
      rbind (recompute_frontier objectives rows) (\<lambda>rows'. Inr (a\<lparr>pa_rows := rows'\<rparr>))))"

text \<open>\<open>put\<close> without interference, with its result: the entry of the candidate and the frontier.\<close>

definition pareto_put ::
  "objective_set \<Rightarrow> pareto_archive \<Rightarrow> pareto_candidate
     \<Rightarrow> pareto_error + pareto_archive \<times> pareto_entry \<times> pystr list" where
  "pareto_put objectives a c =
     rbind (put_check objectives a c) (\<lambda>p.
     rbind (put_commit objectives a p) (\<lambda>a'.
     rbind (archive_entries False (pa_rows a')) (\<lambda>entries.
     rbind (of_option ParetoDecode (find (\<lambda>e. pc_id (en_candidate e) = pc_id c) entries)) (\<lambda>entry.
     rbind (archive_entries True (pa_rows a')) (\<lambda>frontier.
     Inr (a', entry, map (\<lambda>e. pc_id (en_candidate e)) frontier))))))"

section \<open>Interleaved puts\<close>

datatype pareto_event = Look pareto_candidate | Write nat

record pareto_system =
  py_archive :: pareto_archive
  py_pending :: "pending_put list"

fun pareto_step :: "objective_set \<Rightarrow> pareto_system \<Rightarrow> pareto_event \<Rightarrow> pareto_system" where
  "pareto_step objectives y (Look c) =
     (case put_check objectives (py_archive y) c of
        Inl _ \<Rightarrow> y
      | Inr p \<Rightarrow> y\<lparr>py_pending := py_pending y @ [p]\<rparr>)"
| "pareto_step objectives y (Write n) =
     (if n < length (py_pending y) then
        let rest = take n (py_pending y) @ drop (Suc n) (py_pending y) in
        (case put_commit objectives (py_archive y) (py_pending y ! n) of
           Inl _ \<Rightarrow> y\<lparr>py_pending := rest\<rparr>
         | Inr a \<Rightarrow> \<lparr>py_archive = a, py_pending = rest\<rparr>)
      else y)"

definition pareto_run :: "objective_set \<Rightarrow> pareto_archive \<Rightarrow> pareto_event list \<Rightarrow> pareto_system" where
  "pareto_run objectives a = foldl (pareto_step objectives) \<lparr>py_archive = a, py_pending = []\<rparr>"

end
