(* ===== verification/ParetoFrontier.thy ===== *)
theory ParetoFrontier
  imports ParetoArchive "HOL-Library.Multiset"
begin

text \<open>
  What the Pareto archive guarantees: dominance is a strict partial order, every interleaving of puts leaves
  exactly the candidates that no other dominates on the frontier, a put on its own never loses evidence (two
  at once can), and the frontier does not depend on the order of arrival.
\<close>

section \<open>Dominance is a strict partial order\<close>

definition value_ok :: "pareto_value \<Rightarrow> bool" where
  "value_ok v \<longleftrightarrow> pareto_value_init v = Inr v"

text \<open>A candidate and its values as their constructors leave them.\<close>

definition candidate_ok :: "pareto_candidate \<Rightarrow> bool" where
  "candidate_ok c \<longleftrightarrow> pareto_candidate_init c = Inr c \<and> list_all value_ok (pc_objectives c)"

lemma value_bounds:
  assumes "value_ok v"
  shows "\<not> f64_is_nan (low_bound v)" "\<not> f64_is_nan (high_bound v)" "f64_le (low_bound v) (high_bound v)"
  using assms f64_le_trans
  by (auto simp: value_ok_def pareto_value_init_def guard_Inr low_bound_def high_bound_def f64_le_def
      f64_finite_not_nan split: option.splits)

lemma by_metric_member:
  assumes "objectives_by_metric c m = Some v"
  shows "v \<in> set (pc_objectives c)" "pv_metric v = m"
  using map_of_SomeD [OF assms [unfolded objectives_by_metric_def]] by auto

lemma by_metric_ok: "candidate_ok c \<Longrightarrow> objectives_by_metric c m = Some v \<Longrightarrow> value_ok v"
  using by_metric_member by (auto simp: candidate_ok_def list_all_iff)

text \<open>One objective: no worse, and better, in the worst case.\<close>

definition no_worse :: "objective_direction \<Rightarrow> pareto_value \<Rightarrow> pareto_value \<Rightarrow> bool" where
  "no_worse d l r \<longleftrightarrow> (if d = MAXIMIZE then \<not> f64_lt (low_bound l) (high_bound r)
                      else \<not> f64_lt (low_bound r) (high_bound l))"

definition better :: "objective_direction \<Rightarrow> pareto_value \<Rightarrow> pareto_value \<Rightarrow> bool" where
  "better d l r \<longleftrightarrow> (if d = MAXIMIZE then f64_lt (high_bound r) (low_bound l)
                    else f64_lt (high_bound l) (low_bound r))"

lemma no_worse_trans:
  assumes "value_ok l" "value_ok m" "value_ok r" "no_worse d l m" "no_worse d m r"
  shows "no_worse d l r"
proof -
  note [simp] = value_bounds(1,2) [OF assms(1)] value_bounds(1,2) [OF assms(2)] value_bounds(1,2) [OF assms(3)]
  show ?thesis
    using assms(4,5) value_bounds(3) [OF assms(2)]
    by (auto simp: no_worse_def f64_not_lt) (meson f64_le_trans)+
qed

lemma better_trans:
  assumes "value_ok l" "value_ok m" "value_ok r" "no_worse d l m" "no_worse d m r" "better d l m \<or> better d m r"
  shows "better d l r"
proof -
  note [simp] = value_bounds(1,2) [OF assms(1)] value_bounds(1,2) [OF assms(2)] value_bounds(1,2) [OF assms(3)]
  show ?thesis
    using assms(4,5,6) value_bounds(3) [OF assms(2)]
    by (auto simp: no_worse_def better_def f64_not_lt intro: f64_le_trans f64_le_lt_trans f64_lt_le_trans
        split: if_splits)
qed

lemma not_better_self: "value_ok v \<Longrightarrow> \<not> better d v v"
  using value_bounds [of v] f64_lt_le_trans f64_lt_irrefl by (auto simp: better_def)

lemma dominance_loop_iff:
  "dominance_loop left right b ts
   \<longleftrightarrow> (\<forall>t \<in> set ts. \<exists>l r. left (ot_metric t) = Some l \<and> right (ot_metric t) = Some r \<and> no_worse (ot_direction t) l r)
     \<and> (b \<or> (\<exists>t \<in> set ts. \<exists>l r. left (ot_metric t) = Some l \<and> right (ot_metric t) = Some r
               \<and> better (ot_direction t) l r))"
proof (induction ts arbitrary: b)
  case (Cons t ts)
  show ?case
  proof (cases "left (ot_metric t)"; cases "right (ot_metric t)")
    fix l r assume v: "left (ot_metric t) = Some l" "right (ot_metric t) = Some r"
    then have "dominance_loop left right b (t # ts) \<longleftrightarrow> no_worse (ot_direction t) l r
        \<and> dominance_loop left right (b \<or> better (ot_direction t) l r) ts"
      by (cases "ot_direction t") (simp_all add: no_worse_def better_def)
    with v show ?thesis unfolding Cons.IH by auto
  qed simp_all
qed simp

lemma dominates_iff:
  "conservatively_dominates left right objectives
   \<longleftrightarrow> (\<forall>t \<in> set (os_terms objectives). \<exists>l r. objectives_by_metric left (ot_metric t) = Some l
          \<and> objectives_by_metric right (ot_metric t) = Some r \<and> no_worse (ot_direction t) l r)
     \<and> (\<exists>t \<in> set (os_terms objectives). \<exists>l r. objectives_by_metric left (ot_metric t) = Some l
          \<and> objectives_by_metric right (ot_metric t) = Some r \<and> better (ot_direction t) l r)"
  by (simp add: conservatively_dominates_def dominance_loop_iff)

lemma dominates_irrefl: "candidate_ok c \<Longrightarrow> \<not> conservatively_dominates c c objectives"
  by (auto simp: dominates_iff dest: by_metric_ok not_better_self)

lemma dominates_trans:
  assumes ok: "candidate_ok a" "candidate_ok b" "candidate_ok c"
    and ab: "conservatively_dominates a b objectives" and bc: "conservatively_dominates b c objectives"
  shows "conservatively_dominates a c objectives"
proof -
  have term_values: "\<exists>u v w. objectives_by_metric a (ot_metric t) = Some u \<and> objectives_by_metric b (ot_metric t) = Some v
      \<and> objectives_by_metric c (ot_metric t) = Some w \<and> value_ok u \<and> value_ok v \<and> value_ok w
      \<and> no_worse (ot_direction t) u v \<and> no_worse (ot_direction t) v w" if "t \<in> set (os_terms objectives)" for t
  proof -
    from ab that obtain u v where uv: "objectives_by_metric a (ot_metric t) = Some u"
      "objectives_by_metric b (ot_metric t) = Some v" "no_worse (ot_direction t) u v" unfolding dominates_iff by blast
    from bc that uv(2) obtain w where "objectives_by_metric c (ot_metric t) = Some w" "no_worse (ot_direction t) v w"
      unfolding dominates_iff by force
    with uv show ?thesis using by_metric_ok ok by blast
  qed
  have "\<exists>t \<in> set (os_terms objectives). \<exists>u w. objectives_by_metric a (ot_metric t) = Some u
      \<and> objectives_by_metric c (ot_metric t) = Some w \<and> better (ot_direction t) u w"
  proof -
    from ab obtain t u v where t: "t \<in> set (os_terms objectives)" "objectives_by_metric a (ot_metric t) = Some u"
      "objectives_by_metric b (ot_metric t) = Some v" "better (ot_direction t) u v" unfolding dominates_iff by blast
    from term_values [OF t(1)] t obtain w where "objectives_by_metric c (ot_metric t) = Some w" "value_ok u" "value_ok v"
      "value_ok w" "no_worse (ot_direction t) u v" "no_worse (ot_direction t) v w" by auto
    with t better_trans [of u v w] show ?thesis by blast
  qed
  moreover have "\<exists>u w. objectives_by_metric a (ot_metric t) = Some u \<and> objectives_by_metric c (ot_metric t) = Some w
      \<and> no_worse (ot_direction t) u w" if "t \<in> set (os_terms objectives)" for t
    using term_values [OF that] no_worse_trans by blast
  ultimately show ?thesis unfolding dominates_iff by blast
qed

section \<open>Rows read back\<close>

lemma map_of_sort_key:
  assumes "distinct (map fst kvs)"
  shows "map_of (sort_key fst kvs) = map_of kvs"
proof
  fix k
  have "distinct (map fst (sort_key fst kvs))" using assms by (simp add: distinct_map)
  then have "map_of (sort_key fst kvs) k = Some v \<longleftrightarrow> map_of kvs k = Some v" for v
    using assms by (simp add: map_of_eq_Some_iff)
  then show "map_of (sort_key fst kvs) k = map_of kvs k" by (metis option.exhaust)
qed

lemma map_of_stored:
  assumes "distinct (map fst kvs)"
  shows "map_of (map (\<lambda>(k, v). (k, stored_json v)) (sort_key fst kvs)) k = map_option stored_json (map_of kvs k)"
  using assms by (simp add: map_of_map map_of_sort_key)

lemma metric_reads: "read_metric (JStr (optimize_value m)) = Inr m"
  by (cases m) (simp_all add: read_metric_def OPTIMIZE_METRICS_def lit_simps)

lemma bound_reads: "read_bound (stored_json (json_float b)) = Inr b"
  by (cases b) (simp_all add: read_bound_def json_float_def read_float_def)

lemma pareto_value_eta [simp]:
  "\<lparr>pv_metric = pv_metric v, pv_estimate = pv_estimate v, pv_low = pv_low v, pv_high = pv_high v\<rparr> = v"
  by simp

lemma value_reads:
  assumes "value_ok v"
  shows "read_value (stored_json (pareto_value_record v)) = Inr v"
proof -
  let ?kvs = "[(lit ''metric'', JStr (optimize_value (pv_metric v))), (lit ''estimate'', JFloat (pv_estimate v)),
    (lit ''confidence_low'', json_float (pv_low v)), (lit ''confidence_high'', json_float (pv_high v))]"
  define items where "items = map (\<lambda>(k, v). (k, stored_json v)) (sort_key fst ?kvs)"
  have d: "distinct (map fst ?kvs)" by (simp add: lit_simps)
  have get: "map_of items k = map_option stored_json (map_of ?kvs k)" for k
    unfolding items_def by (rule map_of_stored [OF d])
  have "read_field items ''metric'' = Inr (JStr (optimize_value (pv_metric v)))"
    "read_field items ''estimate'' = Inr (JFloat (pv_estimate v))"
    "read_field items ''confidence_low'' = Inr (stored_json (json_float (pv_low v)))"
    "read_field items ''confidence_high'' = Inr (stored_json (json_float (pv_high v)))"
    by (simp_all add: read_field_def get lit_simps)
  moreover have "stored_json (pareto_value_record v) = JObj items"
    by (simp only: pareto_value_record_def stored_json.simps items_def)
  ultimately show ?thesis
    using assms by (simp add: read_value_def metric_reads bound_reads read_float_def value_ok_def)
qed

lemma values_read:
  assumes "candidate_ok c"
  shows "mapM_r read_value (map stored_json (map pareto_value_record (pc_objectives c))) = Inr (pc_objectives c)"
proof -
  have "mapM_r read_value (map stored_json (map pareto_value_record vs)) = Inr vs" if "list_all value_ok vs" for vs
    using that by (induction vs) (simp_all add: value_reads)
  then show ?thesis using assms by (simp add: candidate_ok_def)
qed

lemma stored_candidate:
  assumes "candidate_from_row r = Inr d" and "candidate_ok c"
    and "pr_objectives r = stored_json (JList (map pareto_value_record (pc_objectives c)))"
  shows "pc_objectives d = pc_objectives c"
proof -
  from assms(2) have "sort_key (\<lambda>v. optimize_value (pv_metric v)) (pc_objectives c) = pc_objectives c"
    by (cases c) (auto simp: candidate_ok_def pareto_candidate_init_def guard_Inr)
  then show ?thesis
    using assms(1,3) values_read [OF assms(2)]
    by (auto simp: candidate_from_row_def guard_Inr pareto_candidate_init_def simp del: map_map)
qed

lemma row_payload: "candidate_from_row r = Inr d \<Longrightarrow> pc_payload d = pr_payload r"
  by (auto simp: candidate_from_row_def guard_Inr pareto_candidate_init_def)

section \<open>The frontier after a put\<close>

text \<open>A row that holds a candidate the constructors accept.\<close>

definition row_ok :: "pareto_row \<Rightarrow> bool" where
  "row_ok r \<longleftrightarrow> (\<exists>c. candidate_from_row r = Inr c \<and> candidate_ok c)"

abbreviation row_candidate :: "pareto_row \<Rightarrow> pareto_candidate" where
  "row_candidate r \<equiv> projr (candidate_from_row r)"

lemma read_value_ok: "read_value v = Inr w \<Longrightarrow> value_ok w"
  by (auto simp: read_value_def value_ok_def pareto_value_init_def guard_Inr)

lemma init_idem: "pareto_candidate_init c = Inr d \<Longrightarrow> pareto_candidate_init d = Inr d"
  by (cases c) (auto simp: pareto_candidate_init_def guard_Inr distinct_map inj_on_def sort_key_id_if_sorted)

lemma candidate_from_row_ok:
  assumes "candidate_from_row r = Inr c"
  shows "candidate_ok c" "pc_id c = pr_id r"
proof -
  from assms obtain items vs where vs: "mapM_r read_value items = Inr vs"
    and c: "pareto_candidate_init \<lparr>pc_id = pr_id r, pc_objectives = vs, pc_payload = pr_payload r\<rparr> = Inr c"
    by (auto simp: candidate_from_row_def guard_Inr)
  have "list_all value_ok vs"
    unfolding list_all_iff by (metis mapM_r_memberD [OF vs] read_value_ok)
  with c init_idem [OF c] show "candidate_ok c" "pc_id c = pr_id r"
    by (auto simp: candidate_ok_def pareto_candidate_init_def guard_Inr list_all_iff)
qed

lemma row_ok_iff: "row_ok r \<longleftrightarrow> (\<exists>c. candidate_from_row r = Inr c)"
  using candidate_from_row_ok by (auto simp: row_ok_def)

lemma row_candidate_eq: "row_ok r \<Longrightarrow> candidate_from_row r = Inr (row_candidate r)"
  by (auto simp: row_ok_def)

definition row_entry :: "pareto_row \<Rightarrow> pareto_entry" where
  "row_entry r = \<lparr>en_candidate = row_candidate r, en_frontier = pr_frontier r, en_sequence = pr_sequence r\<rparr>"

lemma row_entry_simps [simp]:
  "en_candidate (row_entry r) = row_candidate r" "en_frontier (row_entry r) = pr_frontier r"
  "en_sequence (row_entry r) = pr_sequence r"
  by (simp_all add: row_entry_def)

lemma row_candidate_id: "row_ok r \<Longrightarrow> pc_id (row_candidate r) = pr_id r"
  using candidate_from_row_ok(2) row_candidate_eq by blast

lemma row_flag [simp]:
  "candidate_from_row (r\<lparr>pr_frontier := b\<rparr>) = candidate_from_row r" "row_ok (r\<lparr>pr_frontier := b\<rparr>) = row_ok r"
  by (simp_all add: candidate_from_row_def row_ok_def)

lemma entries_read:
  assumes "list_all row_ok rows"
  shows "archive_entries b rows = Inr (map row_entry (sort_key pr_id (filter (\<lambda>r. b \<longrightarrow> pr_frontier r) rows)))"
proof -
  have *: "mapM_r entry_of rs = Inr (map row_entry rs)" if "list_all row_ok rs" for rs
    using that by (induction rs) (auto simp: entry_of_def row_entry_def row_ok_def)
  have "list_all row_ok (sort_key pr_id (filter (\<lambda>r. b \<longrightarrow> pr_frontier r) rows))"
    using assms by (auto simp: list_all_iff)
  from * [OF this] show ?thesis by (simp add: archive_entries_def)
qed

lemma entries_need_rows:
  assumes "archive_entries False rows = Inr es"
  shows "list_all row_ok rows"
proof -
  have *: "list_all row_ok rs" if "mapM_r entry_of rs = Inr xs" for rs xs
    using that by (induction rs arbitrary: xs) (auto simp: entry_of_def row_ok_iff)
  have "list_all row_ok (sort_key pr_id rows)" using assms by (intro *) (simp add: archive_entries_def)
  then show ?thesis by (simp add: list_all_iff)
qed

definition row_dominated :: "objective_set \<Rightarrow> pareto_row list \<Rightarrow> pareto_row \<Rightarrow> bool" where
  "row_dominated objectives rows r \<longleftrightarrow> (\<exists>q \<in> set rows. pr_id q \<noteq> pr_id r
     \<and> conservatively_dominates (row_candidate q) (row_candidate r) objectives)"

lemma entry_dominated_row:
  assumes "list_all row_ok rows" and "set es = row_entry ` set rows" and "row_ok r"
  shows "entry_dominated objectives es (row_entry r) = row_dominated objectives rows r"
  using assms by (auto simp: entry_dominated_def row_dominated_def list_ex_iff list_all_iff row_candidate_id)

lemma set_frontier_loop:
  assumes "distinct (map (\<lambda>r. pr_id r) es)"
  shows "foldl (\<lambda>rs e. set_frontier (pr_id e) (g e) rs) rows es
    = map (\<lambda>r. case find (\<lambda>e. pr_id e = pr_id r) es of None \<Rightarrow> r | Some e \<Rightarrow> r\<lparr>pr_frontier := g e\<rparr>) rows"
  using assms
proof (induction es arbitrary: rows)
  case (Cons e es)
  have "find (\<lambda>x. pr_id x = pr_id e) es = None" using Cons.prems unfolding find_None_iff by (auto, metis imageI)
  moreover have "foldl (\<lambda>rs e. set_frontier (pr_id e) (g e) rs) rows (e # es)
      = map (\<lambda>r. case find (\<lambda>e. pr_id e = pr_id r) es of None \<Rightarrow> r | Some e \<Rightarrow> r\<lparr>pr_frontier := g e\<rparr>)
          (set_frontier (pr_id e) (g e) rows)" using Cons.IH Cons.prems by simp
  ultimately show ?case by (simp add: set_frontier_def)
qed simp

lemma find_key: "distinct (map f xs) \<Longrightarrow> x \<in> set xs \<Longrightarrow> find (\<lambda>y. f y = f x) xs = Some x"
  by (induction xs) auto

lemma recompute_rows:
  assumes "list_all row_ok rows" and "distinct (map pr_id rows)"
  shows "recompute_frontier objectives rows = Inr (map (\<lambda>r. r\<lparr>pr_frontier := \<not> row_dominated objectives rows r\<rparr>) rows)"
proof -
  let ?s = "sort_key pr_id rows"
  let ?g = "\<lambda>r. \<not> row_dominated objectives rows r"
  have entries: "archive_entries False rows = Inr (map row_entry ?s)" using entries_read [OF assms(1)] by simp
  have ok: "\<forall>r \<in> set ?s. row_ok r" using assms(1) by (simp add: list_all_iff)
  have "foldl (\<lambda>rs e. set_frontier (pc_id (en_candidate e)) (\<not> entry_dominated objectives (map row_entry ?s) e) rs) rows
      (map row_entry rs) = foldl (\<lambda>rs r. set_frontier (pr_id r) (?g r) rs) rows rs" if "set rs \<subseteq> set ?s" for rs
    using that ok
    by (induction rs rule: rev_induct)
      (simp_all add: row_candidate_id entry_dominated_row [OF assms(1), of "map row_entry ?s"])
  from this [of ?s] have loop: "recompute_frontier objectives rows
      = Inr (foldl (\<lambda>rs r. set_frontier (pr_id r) (?g r) rs) rows ?s)"
    by (simp add: recompute_frontier_def entries)
  have d: "distinct (map pr_id ?s)" using assms(2) by (simp add: distinct_map)
  have found: "find (\<lambda>e. pr_id e = pr_id r) ?s = Some r" if "r \<in> set rows" for r
    using find_key [OF d] that by simp
  show ?thesis unfolding loop set_frontier_loop [OF d] by (simp add: found cong: map_cong)
qed

text \<open>The flags of the rows say which candidates no other dominates.\<close>

definition frontier_marked :: "objective_set \<Rightarrow> pareto_row list \<Rightarrow> bool" where
  "frontier_marked objectives rows \<longleftrightarrow> list_all row_ok rows \<and> distinct (map pr_id rows)
     \<and> distinct (map pr_sequence rows) \<and> (\<forall>r \<in> set rows. pr_frontier r = (\<not> row_dominated objectives rows r))"

lemma recompute_marks:
  assumes "recompute_frontier objectives rows = Inr rows'" and "distinct (map pr_id rows)"
    and "distinct (map pr_sequence rows)"
  shows "frontier_marked objectives rows'" "map row_candidate rows' = map row_candidate rows"
    "map pr_sequence rows' = map pr_sequence rows" "map pr_id rows' = map pr_id rows" "list_all row_ok rows"
proof -
  from assms(1) obtain es where "archive_entries False rows = Inr es" by (auto simp: recompute_frontier_def)
  then show ok: "list_all row_ok rows" by (rule entries_need_rows)
  let ?f = "\<lambda>r. r\<lparr>pr_frontier := \<not> row_dominated objectives rows r\<rparr>"
  have rows': "rows' = map ?f rows" using recompute_rows [OF ok assms(2)] assms(1) by simp
  have dom: "row_dominated objectives rows' (?f r) = row_dominated objectives rows r" for r
    by (auto simp: row_dominated_def rows')
  have ids: "map pr_id (map ?f rows) = map pr_id rows" "map pr_sequence (map ?f rows) = map pr_sequence rows"
    "map row_candidate (map ?f rows) = map row_candidate rows" by (simp_all add: comp_def)
  then show "map row_candidate rows' = map row_candidate rows" "map pr_sequence rows' = map pr_sequence rows"
    "map pr_id rows' = map pr_id rows" by (simp_all only: rows')
  have "list_all row_ok rows'" using ok by (simp add: rows' list_all_iff)
  moreover have "\<forall>r \<in> set rows'. pr_frontier r = (\<not> row_dominated objectives rows' r)"
    unfolding rows' using dom [unfolded rows'] by auto
  ultimately show "frontier_marked objectives rows'"
    unfolding frontier_marked_def using assms(2,3) ids by (simp only: rows')
qed

text \<open>The rows a put hands to the recomputation.\<close>

definition put_rows :: "pareto_archive \<Rightarrow> pending_put \<Rightarrow> pareto_row list" where
  "put_rows a p = (case pp_insert p of
     Some n \<Rightarrow> pa_rows a @ [\<lparr>pr_id = pc_id (pp_candidate p), pr_objectives = pp_objectives p,
       pr_payload = stored_json (pc_payload (pp_candidate p)), pr_frontier = True, pr_sequence = n\<rparr>]
   | None \<Rightarrow> map (\<lambda>r. if pr_id r = pc_id (pp_candidate p) then r\<lparr>pr_objectives := pp_objectives p\<rparr> else r) (pa_rows a))"

lemma commit_rows:
  assumes "put_commit objectives a p = Inr a'"
  shows "recompute_frontier objectives (put_rows a p) = Inr (pa_rows a')"
    "case pp_insert p of None \<Rightarrow> True | Some n \<Rightarrow> pc_id (pp_candidate p) \<notin> set (map pr_id (pa_rows a))
       \<and> n \<notin> set (map pr_sequence (pa_rows a)) \<and> json_encodable (pc_payload (pp_candidate p)) \<and> n < 2 ^ 63"
  using assms by (auto simp: put_commit_def put_rows_def guard_Inr Let_def split: option.splits)

lemma put_rows_distinct:
  assumes "put_commit objectives a p = Inr a'" and "distinct (map pr_id (pa_rows a))"
    and "distinct (map pr_sequence (pa_rows a))"
  shows "distinct (map pr_id (put_rows a p))" "distinct (map pr_sequence (put_rows a p))"
proof -
  have "map pr_id (map (\<lambda>r. if P r then r\<lparr>pr_objectives := x\<rparr> else r) rows) = map pr_id rows"
    "map pr_sequence (map (\<lambda>r. if P r then r\<lparr>pr_objectives := x\<rparr> else r) rows) = map pr_sequence rows"
    for P x and rows :: "pareto_row list" by (induction rows) auto
  then show "distinct (map pr_id (put_rows a p))" "distinct (map pr_sequence (put_rows a p))"
    using commit_rows(2) [OF assms(1)] assms(2,3)
    by (cases "pp_insert p"; simp add: put_rows_def del: map_map)+
qed

lemma commit_marks:
  assumes "put_commit objectives a p = Inr a'" and "frontier_marked objectives (pa_rows a)"
  shows "frontier_marked objectives (pa_rows a')"
proof (rule recompute_marks(1) [OF commit_rows(1) [OF assms(1)]])
  show "distinct (map pr_id (put_rows a p))" "distinct (map pr_sequence (put_rows a p))"
    using put_rows_distinct [OF assms(1)] assms(2) by (simp_all add: frontier_marked_def)
qed

lemma step_marks:
  "frontier_marked objectives (pa_rows (py_archive y))
   \<Longrightarrow> frontier_marked objectives (pa_rows (py_archive (pareto_step objectives y e)))"
  by (cases e) (auto simp: Let_def split: sum.splits dest: commit_marks)

lemma run_marks:
  assumes "frontier_marked objectives (pa_rows a)"
  shows "frontier_marked objectives (pa_rows (py_archive (pareto_run objectives a events)))"
  using assms by (induction events rule: rev_induct) (simp_all add: pareto_run_def step_marks)

lemma frontier_entries:
  assumes "frontier_marked objectives rows"
  shows "archive_entries False rows = Inr (map row_entry (sort_key pr_id rows))"
    "archive_entries True rows = Inr (filter en_frontier (map row_entry (sort_key pr_id rows)))"
proof -
  have ok: "list_all row_ok rows" using assms by (simp add: frontier_marked_def)
  show "archive_entries False rows = Inr (map row_entry (sort_key pr_id rows))"
    using entries_read [OF ok, of False] by simp
  have "filter en_frontier (map row_entry rs) = map row_entry (filter pr_frontier rs)" for rs
    by (induction rs) simp_all
  then show "archive_entries True rows = Inr (filter en_frontier (map row_entry (sort_key pr_id rows)))"
    using entries_read [OF ok, of True] by (simp add: filter_sort)
qed

lemma frontier_covers:
  assumes m: "frontier_marked objectives rows" and r: "r \<in> set rows"
  shows "pr_frontier r \<or> (\<exists>q \<in> set rows. pr_frontier q \<and> conservatively_dominates (row_candidate q) (row_candidate r) objectives)"
proof -
  let ?dom = "\<lambda>q r. conservatively_dominates (row_candidate q) (row_candidate r) objectives"
  have ok: "candidate_ok (row_candidate q)" if "q \<in> set rows" for q
    using m that row_candidate_eq candidate_from_row_ok(1) by (auto simp: frontier_marked_def list_all_iff)
  have tr: "?dom p r" if "p \<in> set rows" "q \<in> set rows" "r \<in> set rows" "?dom p q" "?dom q r" for p q r
    using dominates_trans ok that by blast
  have "\<forall>r \<in> set rows. card {q \<in> set rows. ?dom q r} = n \<longrightarrow> pr_frontier r \<or> (\<exists>q \<in> set rows. pr_frontier q \<and> ?dom q r)" for n
  proof (induction n rule: less_induct)
    case (less n)
    show ?case
    proof (intro ballI impI)
      fix r assume r: "r \<in> set rows" and n: "card {q \<in> set rows. ?dom q r} = n"
      show "pr_frontier r \<or> (\<exists>q \<in> set rows. pr_frontier q \<and> ?dom q r)"
      proof (cases "pr_frontier r")
        case False
        then obtain q where q: "q \<in> set rows" "?dom q r" using m r by (auto simp: frontier_marked_def row_dominated_def)
        have "{p \<in> set rows. ?dom p q} \<subseteq> {p \<in> set rows. ?dom p r}" using tr q r by blast
        moreover have "q \<notin> {p \<in> set rows. ?dom p q}" "q \<in> {p \<in> set rows. ?dom p r}"
          using q ok dominates_irrefl by simp_all
        ultimately have "{p \<in> set rows. ?dom p q} \<subset> {p \<in> set rows. ?dom p r}" by blast
        then have "card {p \<in> set rows. ?dom p q} < n" unfolding n [symmetric] by (rule psubset_card_mono [rotated]) simp
        with less q(1) have "pr_frontier q \<or> (\<exists>p \<in> set rows. pr_frontier p \<and> ?dom p q)" by blast
        then show ?thesis using q tr r by blast
      qed simp
    qed
  qed
  with r show ?thesis by blast
qed

section \<open>What the archive guarantees\<close>

text \<open>
  C19. Whatever puts run against an archive, in any interleaving of their two halves, failing ones included:
  every stored candidate reads back, an entry is on the frontier exactly when no other entry dominates it at
  its worst-case bounds, the frontier query returns just those, and every entry off the frontier is dominated
  by one on it. So a candidate with a missing objective stays, and the frontier of a filled archive is never empty.
\<close>
theorem pareto_frontier_exact:
  "\<exists>entries. archive_entries False (pa_rows (py_archive (pareto_run objectives (empty_archive\<lparr>pa_metadata := m\<rparr>) events))) = Inr entries
     \<and> archive_entries True (pa_rows (py_archive (pareto_run objectives (empty_archive\<lparr>pa_metadata := m\<rparr>) events)))
         = Inr (filter en_frontier entries)
     \<and> distinct (map (\<lambda>e. pc_id (en_candidate e)) entries) \<and> distinct (map en_sequence entries)
     \<and> (\<forall>e \<in> set entries. en_frontier e \<longleftrightarrow> \<not> entry_dominated objectives entries e)
     \<and> (\<forall>e \<in> set entries. en_frontier e \<or> (\<exists>f \<in> set entries. en_frontier f
           \<and> conservatively_dominates (en_candidate f) (en_candidate e) objectives))"
proof -
  let ?rows = "pa_rows (py_archive (pareto_run objectives (empty_archive\<lparr>pa_metadata := m\<rparr>) events))"
  let ?es = "map row_entry (sort_key pr_id ?rows)"
  have m: "frontier_marked objectives ?rows"
    by (rule run_marks) (simp add: empty_archive_def frontier_marked_def)
  then have ok: "list_all row_ok ?rows" by (simp add: frontier_marked_def)
  have "map (\<lambda>e. pc_id (en_candidate e)) ?es = map pr_id (sort_key pr_id ?rows)" "map en_sequence ?es = map pr_sequence (sort_key pr_id ?rows)"
    using ok by (simp_all add: row_candidate_id list_all_iff)
  then have "distinct (map (\<lambda>e. pc_id (en_candidate e)) ?es)" "distinct (map en_sequence ?es)"
    using m by (simp_all add: frontier_marked_def distinct_map del: map_map)
  moreover have "\<forall>e \<in> set ?es. en_frontier e \<longleftrightarrow> \<not> entry_dominated objectives ?es e"
    using m ok by (auto simp: frontier_marked_def list_all_iff entry_dominated_row [OF ok, of ?es])
  moreover have "\<forall>e \<in> set ?es. en_frontier e \<or> (\<exists>f \<in> set ?es. en_frontier f
      \<and> conservatively_dominates (en_candidate f) (en_candidate e) objectives)"
    using frontier_covers [OF m] by simp
  ultimately show ?thesis using frontier_entries [OF m] by blast
qed

definition demo_term :: "optimize_metric \<Rightarrow> objective_direction \<Rightarrow> objective_term" where
  "demo_term m d = \<lparr>ot_metric = m, ot_direction = d, ot_weight = 1023 * 2 ^ 52, ot_normalization = BASELINE_RATIO,
     ot_minimum = None, ot_maximum = None\<rparr>"

definition demo_objectives :: objective_set where
  "demo_objectives = ObjectiveSet [demo_term LATENCY MINIMIZE, demo_term QUALITY MAXIMIZE]"

definition demo_value :: "optimize_metric \<Rightarrow> nat \<Rightarrow> pareto_value" where
  "demo_value m b = \<lparr>pv_metric = m, pv_estimate = b, pv_low = None, pv_high = None\<rparr>"

definition demo_candidate :: "string \<Rightarrow> pareto_value list \<Rightarrow> pareto_candidate" where
  "demo_candidate i vs = \<lparr>pc_id = lit i, pc_objectives = vs, pc_payload = JObj []\<rparr>"

definition demo_puts :: "pareto_event list" where
  "demo_puts = [Look (demo_candidate ''fast'' [demo_value LATENCY 1, demo_value QUALITY 9]),
     Look (demo_candidate ''slow'' [demo_value LATENCY 2, demo_value QUALITY 9]), Write 0, Write 0,
     Look (demo_candidate ''slow'' [demo_value LATENCY 2, demo_value QUALITY 9]), Write 0]"

theorem pareto_frontier_exact_witness:
  "\<exists>entries. archive_entries False (pa_rows (py_archive (pareto_run demo_objectives empty_archive demo_puts))) = Inr entries
     \<and> map en_frontier entries = [True, False] \<and> (\<forall>e \<in> set entries. en_frontier e \<or> (\<exists>f \<in> set entries. en_frontier f
         \<and> conservatively_dominates (en_candidate f) (en_candidate e) demo_objectives))"
proof -
  have "(case archive_entries False (pa_rows (py_archive (pareto_run demo_objectives empty_archive demo_puts))) of
      Inr e \<Rightarrow> map en_frontier e = [True, False] | Inl _ \<Rightarrow> False)" by code_simp
  moreover have e: "empty_archive\<lparr>pa_metadata := None\<rparr> = empty_archive" by (simp add: empty_archive_def)
  ultimately show ?thesis
    using pareto_frontier_exact [of demo_objectives None demo_puts, unfolded e] by (auto split: sum.splits)
qed

lemma by_metric_Some:
  assumes "candidate_ok c" and "v \<in> set (pc_objectives c)"
  shows "objectives_by_metric c (pv_metric v) = Some v"
proof -
  have "distinct (map pv_metric (pc_objectives c))"
    using assms(1) by (auto simp: candidate_ok_def pareto_candidate_init_def guard_Inr)
  then have "distinct (map fst (rev (map (\<lambda>v. (pv_metric v, v)) (pc_objectives c))))"
    by (simp add: rev_map [symmetric] comp_def)
  then show ?thesis using assms(2) by (simp add: objectives_by_metric_def map_of_eq_Some_iff)
qed

lemma completes_values:
  assumes "completes c previous" and "candidate_ok previous" and "v \<in> set (pc_objectives previous)"
  shows "\<exists>w \<in> set (pc_objectives c). value_equal w v"
proof -
  have "pv_metric v \<in> set OPTIMIZE_METRICS" by (cases "pv_metric v") (simp_all add: OPTIMIZE_METRICS_def)
  with assms(1) by_metric_Some [OF assms(2,3)] have "case objectives_by_metric c (pv_metric v) of None \<Rightarrow> False
      | Some w \<Rightarrow> value_equal w v" by (fastforce simp: completes_def list_all_iff)
  then obtain w where "objectives_by_metric c (pv_metric v) = Some w" "value_equal w v" by (auto split: option.splits)
  then show ?thesis using by_metric_member(1) by blast
qed

lemma value_equal_refl: "value_ok v \<Longrightarrow> value_equal v v"
  by (auto simp: value_ok_def pareto_value_init_def guard_Inr value_equal_def bound_equal_def f64_eq_def f64_finite_not_nan
      split: option.splits)

lemma check_pending:
  assumes "put_check objectives a c = Inr p"
  shows "pp_candidate p = c" "pp_objectives p = stored_json (JList (map pareto_value_record (pc_objectives c)))"
    "pp_insert p = None \<Longrightarrow> find (\<lambda>r. pr_id r = pc_id c) (pa_rows a) = Some r
       \<Longrightarrow> \<exists>previous. candidate_from_row r = Inr previous \<and> completes c previous"
  using assms by (auto simp: put_check_def guard_Inr Let_def split: option.splits)

text \<open>The row that stands for \<open>r\<close> in the table a put hands on.\<close>

lemma put_row_kept:
  assumes m: "frontier_marked objectives (pa_rows a)" and c: "candidate_ok c"
    and p: "put_check objectives a c = Inr p" and a': "put_commit objectives a p = Inr a'" and r: "r \<in> set (pa_rows a)"
  shows "\<exists>q \<in> set (put_rows a p). pr_id q = pr_id r \<and> pr_sequence q = pr_sequence r
    \<and> pc_payload (row_candidate q) = pc_payload (row_candidate r)
    \<and> (pr_id r \<noteq> pc_id c \<longrightarrow> row_candidate q = row_candidate r)
    \<and> (\<forall>v \<in> set (pc_objectives (row_candidate r)). \<exists>w \<in> set (pc_objectives (row_candidate q)). value_equal w v)"
proof -
  note pend = check_pending [OF p]
  have ok: "row_ok r" using m r by (simp add: frontier_marked_def list_all_iff)
  have cand: "candidate_ok (row_candidate r)" using candidate_from_row_ok(1) row_candidate_eq [OF ok] by blast
  then have self: "\<exists>w \<in> set (pc_objectives (row_candidate r)). value_equal w v"
    if "v \<in> set (pc_objectives (row_candidate r))" for v
    using that value_equal_refl by (auto simp: candidate_ok_def list_all_iff)
  show ?thesis
  proof (cases "pp_insert p = None \<and> pr_id r = pc_id c")
    case True
    let ?q = "r\<lparr>pr_objectives := pp_objectives p\<rparr>"
    have d: "distinct (map pr_id (pa_rows a))" using m by (simp add: frontier_marked_def)
    have "find (\<lambda>x. pr_id x = pc_id c) (pa_rows a) = Some r" using find_key [OF d r] True by simp
    with pend(3) True have done': "completes c (row_candidate r)" by force
    have q: "?q \<in> set (put_rows a p)" using r True by (force simp: put_rows_def pend)
    moreover have "list_all row_ok (put_rows a p)"
      using recompute_marks(5) [OF commit_rows(1) [OF a'] put_rows_distinct [OF a']] m by (simp add: frontier_marked_def)
    ultimately have qok: "row_ok ?q" by (simp add: list_all_iff)
    have objs: "pc_objectives (row_candidate ?q) = pc_objectives c"
      by (rule stored_candidate [OF row_candidate_eq [OF qok] c]) (simp add: pend)
    have "pc_payload (row_candidate ?q) = pc_payload (row_candidate r)"
      using row_payload [OF row_candidate_eq [OF qok]] row_payload [OF row_candidate_eq [OF ok]] by simp
    with q objs True completes_values [OF done' cand] show ?thesis by (intro bexI [of _ ?q]) auto
  next
    case False
    then have "r \<in> set (put_rows a p)" using r by (force simp: put_rows_def pend split: option.splits)
    with self show ?thesis by blast
  qed
qed

lemma put_row_evidence:
  assumes m: "frontier_marked objectives (pa_rows a)" and c: "candidate_ok c"
    and p: "put_check objectives a c = Inr p" and a': "put_commit objectives a p = Inr a'" and r: "r \<in> set (pa_rows a)"
  shows "\<exists>r' \<in> set (pa_rows a'). pr_id r' = pr_id r \<and> pr_sequence r' = pr_sequence r
    \<and> pc_payload (row_candidate r') = pc_payload (row_candidate r)
    \<and> (pr_id r \<noteq> pc_id c \<longrightarrow> row_candidate r' = row_candidate r)
    \<and> (\<forall>v \<in> set (pc_objectives (row_candidate r)). \<exists>w \<in> set (pc_objectives (row_candidate r')). value_equal w v)"
proof -
  have d: "distinct (map pr_id (pa_rows a))" "distinct (map pr_sequence (pa_rows a))"
    using m by (simp_all add: frontier_marked_def)
  note same = recompute_marks(2,3,4) [OF commit_rows(1) [OF a'] put_rows_distinct [OF a' d]]
  from put_row_kept [OF assms] obtain i where i: "i < length (put_rows a p)"
    and q: "pr_id (put_rows a p ! i) = pr_id r" "pr_sequence (put_rows a p ! i) = pr_sequence r"
    "pc_payload (row_candidate (put_rows a p ! i)) = pc_payload (row_candidate r)"
    "pr_id r \<noteq> pc_id c \<longrightarrow> row_candidate (put_rows a p ! i) = row_candidate r"
    "\<forall>v \<in> set (pc_objectives (row_candidate r)).
       \<exists>w \<in> set (pc_objectives (row_candidate (put_rows a p ! i))). value_equal w v"
    unfolding in_set_conv_nth Bex_def by blast
  have l: "length (pa_rows a') = length (put_rows a p)" using same(3) by (metis length_map)
  have "row_candidate (pa_rows a' ! i) = row_candidate (put_rows a p ! i)"
    "pr_sequence (pa_rows a' ! i) = pr_sequence (put_rows a p ! i)" "pr_id (pa_rows a' ! i) = pr_id (put_rows a p ! i)"
    using same i l by (metis nth_map)+
  moreover have "pa_rows a' ! i \<in> set (pa_rows a')" using i l by simp
  ultimately show ?thesis using q by (intro bexI [of _ "pa_rows a' ! i"]) simp_all
qed

lemma put_splits:
  assumes "pareto_put objectives a c = Inr (a', entry, frontier)"
  obtains p entries front where "put_check objectives a c = Inr p" "put_commit objectives a p = Inr a'"
    "archive_entries False (pa_rows a') = Inr entries" "find (\<lambda>e. pc_id (en_candidate e) = pc_id c) entries = Some entry"
    "archive_entries True (pa_rows a') = Inr front" "frontier = map (\<lambda>e. pc_id (en_candidate e)) front"
  using assms by (auto simp: pareto_put_def)

text \<open>The written row of the candidate holds its objectives.\<close>

lemma put_row_written:
  assumes m: "frontier_marked objectives (pa_rows a)" and c: "candidate_ok c"
    and p: "put_check objectives a c = Inr p" and a': "put_commit objectives a p = Inr a'"
  shows "set (map pr_id (pa_rows a')) = insert (pc_id c) (set (map pr_id (pa_rows a)))"
    and "r \<in> set (pa_rows a') \<Longrightarrow> pr_id r = pc_id c \<Longrightarrow> pc_objectives (row_candidate r) = pc_objectives c"
proof -
  note pend = check_pending [OF p]
  have d: "distinct (map pr_id (pa_rows a))" "distinct (map pr_sequence (pa_rows a))"
    using m by (simp_all add: frontier_marked_def)
  note rec = recompute_marks [OF commit_rows(1) [OF a'] put_rows_distinct [OF a' d]]
  have "pp_insert p = None \<longleftrightarrow> find (\<lambda>r. pr_id r = pc_id c) (pa_rows a) \<noteq> None"
    using p by (auto simp: put_check_def guard_Inr Let_def split: option.splits)
  then have ins: "pp_insert p = None \<longleftrightarrow> pc_id c \<in> set (map pr_id (pa_rows a))"
    unfolding find_None_iff by (auto, metis imageI)
  have upd: "map pr_id (map (\<lambda>r. if pr_id r = i then r\<lparr>pr_objectives := x\<rparr> else r) rows) = map pr_id rows" for i x rows
    by (induction rows) auto
  have "set (map pr_id (put_rows a p)) = insert (pc_id c) (set (map pr_id (pa_rows a)))"
    using ins by (cases "pp_insert p") (auto simp only: put_rows_def pend option.case upd insert_absorb, auto)
  then show "set (map pr_id (pa_rows a')) = insert (pc_id c) (set (map pr_id (pa_rows a)))" using rec(4) by simp
  show "pc_objectives (row_candidate r) = pc_objectives c" if "r \<in> set (pa_rows a')" "pr_id r = pc_id c"
  proof -
    from that(1) obtain i where i: "i < length (pa_rows a')" "r = pa_rows a' ! i" by (auto simp: in_set_conv_nth)
    define q where "q = put_rows a p ! i"
    have l: "i < length (put_rows a p)" using i rec(4) by (metis length_map)
    have q: "pr_id q = pr_id r" "row_candidate q = row_candidate r" "q \<in> set (put_rows a p)"
      using i l rec(2,4) by (auto simp: q_def) (metis nth_map)+
    then have "row_ok q" using rec(5) by (simp add: list_all_iff)
    moreover have "pr_objectives q = stored_json (JList (map pareto_value_record (pc_objectives c)))"
    proof (cases "pp_insert p")
      case None
      then show ?thesis using q(1,3) that(2) by (auto simp: put_rows_def pend)
    next
      case (Some n)
      then have "q \<notin> set (pa_rows a)" using ins q(1) that(2) by (simp add: image_iff) metis
      then show ?thesis using q(3) Some by (simp add: put_rows_def pend)
    qed
    ultimately show ?thesis using stored_candidate [OF row_candidate_eq c] q(2) by metis
  qed
qed

text \<open>
  C29. A put without interference that returns: the entry it returns holds exactly the candidate's objectives,
  the frontier it returns is that of the archive, every candidate stored before keeps its sequence number and
  payload, other candidates keep everything, and no objective value ever recorded for a candidate is lost or
  changed; only missing ones are filled in.
\<close>
theorem put_keeps_evidence:
  assumes c: "candidate_ok c" and a: "a = py_archive (pareto_run objectives (empty_archive\<lparr>pa_metadata := m\<rparr>) events)"
    and put: "pareto_put objectives a c = Inr (a', entry, frontier)"
  shows "\<exists>old new. archive_entries False (pa_rows a) = Inr old \<and> archive_entries False (pa_rows a') = Inr new
     \<and> entry \<in> set new \<and> pc_id (en_candidate entry) = pc_id c \<and> pc_objectives (en_candidate entry) = pc_objectives c
     \<and> frontier = map (\<lambda>e. pc_id (en_candidate e)) (filter en_frontier new)
     \<and> (\<forall>e \<in> set old. \<exists>e' \<in> set new. pc_id (en_candidate e') = pc_id (en_candidate e) \<and> en_sequence e' = en_sequence e
          \<and> pc_payload (en_candidate e') = pc_payload (en_candidate e)
          \<and> (pc_id (en_candidate e) \<noteq> pc_id c \<longrightarrow> en_candidate e' = en_candidate e)
          \<and> (\<forall>v \<in> set (pc_objectives (en_candidate e)). \<exists>w \<in> set (pc_objectives (en_candidate e')). value_equal w v))"
proof -
  have old: "frontier_marked objectives (pa_rows a)"
    unfolding a by (rule run_marks) (simp add: empty_archive_def frontier_marked_def)
  obtain p entries front where p: "put_check objectives a c = Inr p" "put_commit objectives a p = Inr a'"
    and e: "archive_entries False (pa_rows a') = Inr entries" "find (\<lambda>e. pc_id (en_candidate e) = pc_id c) entries = Some entry"
    and f: "archive_entries True (pa_rows a') = Inr front" "frontier = map (\<lambda>e. pc_id (en_candidate e)) front"
    using put by (rule put_splits)
  have new: "frontier_marked objectives (pa_rows a')" using commit_marks [OF p(2) old] .
  note read_old = frontier_entries [OF old] and read_new = frontier_entries [OF new]
  have es: "entries = map row_entry (sort_key pr_id (pa_rows a'))" using e(1) read_new(1) by simp
  have ids: "pc_id (row_candidate r) = pr_id r" if "r \<in> set (pa_rows a) \<or> r \<in> set (pa_rows a')" for r
    using that old new by (auto simp: frontier_marked_def list_all_iff row_candidate_id)
  have entry: "entry \<in> set entries" "pc_id (en_candidate entry) = pc_id c"
    using e(2) by (auto simp: find_Some_iff in_set_conv_nth)
  then obtain r where r: "entry = row_entry r" "r \<in> set (pa_rows a')" by (auto simp: es)
  then have objs: "pc_objectives (en_candidate entry) = pc_objectives c"
    using put_row_written(2) [OF old c p r(2)] entry(2) ids by simp
  have front: "frontier = map (\<lambda>e. pc_id (en_candidate e)) (filter en_frontier entries)"
    using f read_new(2) es by simp
  have kept: "\<exists>e' \<in> set entries. pc_id (en_candidate e') = pc_id (en_candidate x) \<and> en_sequence e' = en_sequence x
      \<and> pc_payload (en_candidate e') = pc_payload (en_candidate x)
      \<and> (pc_id (en_candidate x) \<noteq> pc_id c \<longrightarrow> en_candidate e' = en_candidate x)
      \<and> (\<forall>v \<in> set (pc_objectives (en_candidate x)). \<exists>w \<in> set (pc_objectives (en_candidate e')). value_equal w v)"
    if "x \<in> set (map row_entry (sort_key pr_id (pa_rows a)))" for x
  proof -
    from that obtain q where q: "x = row_entry q" "q \<in> set (pa_rows a)" by auto
    from put_row_evidence [OF old c p q(2)] obtain r where "r \<in> set (pa_rows a')" "pr_id r = pr_id q"
      "pr_sequence r = pr_sequence q" "pc_payload (row_candidate r) = pc_payload (row_candidate q)"
      "pr_id q \<noteq> pc_id c \<longrightarrow> row_candidate r = row_candidate q"
      "\<forall>v \<in> set (pc_objectives (row_candidate q)). \<exists>w \<in> set (pc_objectives (row_candidate r)). value_equal w v" by blast
    then show ?thesis using q ids by (intro bexI [of _ "row_entry r"]) (simp_all add: es)
  qed
  show ?thesis
    using read_old(1) e(1) entry objs front kept by blast
qed

definition first_look :: pareto_candidate where
  "first_look = demo_candidate ''m'' [demo_value LATENCY 4]"

definition second_look :: pareto_candidate where
  "second_look = demo_candidate ''m'' [demo_value LATENCY 4, demo_value QUALITY 9]"

theorem put_keeps_evidence_witness:
  "\<exists>a' entry frontier new. pareto_put demo_objectives (py_archive (pareto_run demo_objectives empty_archive
        [Look first_look, Write 0])) second_look = Inr (a', entry, frontier)
     \<and> archive_entries False (pa_rows a') = Inr new \<and> entry \<in> set new
     \<and> pc_objectives (en_candidate entry) = pc_objectives second_look"
proof -
  let ?a = "py_archive (pareto_run demo_objectives empty_archive [Look first_look, Write 0])"
  have e: "empty_archive\<lparr>pa_metadata := None\<rparr> = empty_archive" by (simp add: empty_archive_def)
  have "(case pareto_put demo_objectives ?a second_look of Inr _ \<Rightarrow> True | Inl _ \<Rightarrow> False)" by code_simp
  then obtain x where x: "pareto_put demo_objectives ?a second_look = Inr x" by (auto split: sum.splits)
  obtain a' entry frontier where y: "x = (a', entry, frontier)" by (rule prod_cases3)
  note put = x [unfolded y]
  have ok: "candidate_ok second_look" by code_simp
  have a: "?a = py_archive (pareto_run demo_objectives (empty_archive\<lparr>pa_metadata := None\<rparr>) [Look first_look, Write 0])"
    by (simp only: e)
  from put_keeps_evidence [OF ok a put] obtain new where new: "archive_entries False (pa_rows a') = Inr new"
    "entry \<in> set new" "pc_objectives (en_candidate entry) = pc_objectives second_look" by (elim exE conjE)
  show ?thesis by (intro exI conjI) (rule put, rule new, rule new, rule new)
qed

text \<open>
  The reads of \<open>put\<close> are not part of its transaction: two processes that complete the same candidate from the
  same row both succeed, and the second one drops what the first recorded, which on its own it could not.
\<close>
definition recorded_metrics :: "pareto_event list \<Rightarrow> optimize_metric list list" where
  "recorded_metrics events =
     (case archive_entries False (pa_rows (py_archive (pareto_run demo_objectives empty_archive events))) of
        Inl _ \<Rightarrow> [] | Inr es \<Rightarrow> map (\<lambda>e. map pv_metric (pc_objectives (en_candidate e))) es)"

definition empty_look :: pareto_candidate where
  "empty_look = demo_candidate ''m'' []"

definition other_look :: pareto_candidate where
  "other_look = demo_candidate ''m'' [demo_value QUALITY 9]"

theorem concurrent_completions_lose_evidence:
  "recorded_metrics [Look empty_look, Write 0, Look first_look, Look other_look, Write 0] = [[LATENCY]]"
  "recorded_metrics [Look empty_look, Write 0, Look first_look, Look other_look, Write 0, Write 0] = [[QUALITY]]"
  "recorded_metrics [Look empty_look, Write 0, Look first_look, Write 0, Look other_look, Write 0] = [[LATENCY]]"
  by code_simp+

section \<open>The order of the puts\<close>

definition pareto_puts :: "objective_set \<Rightarrow> pareto_archive \<Rightarrow> pareto_candidate list \<Rightarrow> pareto_error + pareto_archive" where
  "pareto_puts objectives = foldM_r (\<lambda>a c. rbind (pareto_put objectives a c) (\<lambda>r. Inr (fst r)))"

definition frontier_ids :: "pareto_archive \<Rightarrow> pareto_error + pystr list" where
  "frontier_ids a = rbind (archive_entries True (pa_rows a)) (\<lambda>es. Inr (map (\<lambda>e. pc_id (en_candidate e)) es))"

text \<open>The candidate as its row gives it back.\<close>

definition as_stored :: "pareto_candidate \<Rightarrow> pareto_candidate" where
  "as_stored c = c\<lparr>pc_payload := stored_json (pc_payload c)\<rparr>"

lemma fresh_put:
  assumes m: "frontier_marked objectives (pa_rows a)" and c: "candidate_ok c"
    and put: "pareto_put objectives a c = Inr (a', r)" and fresh: "pc_id c \<notin> pc_id ` set (map row_candidate (pa_rows a))"
  shows "map row_candidate (pa_rows a') = map row_candidate (pa_rows a) @ [as_stored c]"
proof -
  obtain entry frontier where r: "r = (entry, frontier)" by (cases r)
  obtain p entries front where p: "put_check objectives a c = Inr p" "put_commit objectives a p = Inr a'"
    using put unfolding r by (rule put_splits)
  have d: "distinct (map pr_id (pa_rows a))" "distinct (map pr_sequence (pa_rows a))"
    and ok: "list_all row_ok (pa_rows a)" using m by (simp_all add: frontier_marked_def)
  note rec = recompute_marks [OF commit_rows(1) [OF p(2)] put_rows_distinct [OF p(2) d]]
  have "pr_id q \<noteq> pc_id c" if q: "q \<in> set (pa_rows a)" for q
  proof -
    have "pc_id (row_candidate q) = pr_id q" using row_candidate_id ok q by (simp add: list_all_iff)
    with fresh q show ?thesis by (metis image_eqI set_map)
  qed
  then have "find (\<lambda>r. pr_id r = pc_id c) (pa_rows a) = None" by (simp add: find_None_iff)
  then obtain n where n: "pp_insert p = Some n" using p(1) by (auto simp: put_check_def guard_Inr Let_def)
  define new where "new = \<lparr>pr_id = pc_id c, pr_objectives = pp_objectives p, pr_payload = stored_json (pc_payload c),
    pr_frontier = True, pr_sequence = n\<rparr>"
  have rows: "put_rows a p = pa_rows a @ [new]"
    by (simp add: put_rows_def n new_def check_pending(1) [OF p(1)])
  with rec(5) have "row_ok new" by simp
  note cand = row_candidate_eq [OF this]
  have "row_candidate new = as_stored c"
    using stored_candidate [OF cand c] row_payload [OF cand] candidate_from_row_ok(2) [OF cand]
    by (intro pareto_candidate.equality) (simp_all add: as_stored_def new_def check_pending(2) [OF p(1)])
  with rec(2) rows show ?thesis by simp
qed

lemma puts_rows:
  assumes "list_all candidate_ok cs" and "distinct (map pc_id cs)"
    and "pareto_puts objectives (empty_archive\<lparr>pa_metadata := m\<rparr>) cs = Inr a"
  shows "frontier_marked objectives (pa_rows a) \<and> map row_candidate (pa_rows a) = map as_stored cs"
  using assms
proof (induction cs arbitrary: a rule: rev_induct)
  case Nil
  then show ?case by (auto simp: pareto_puts_def empty_archive_def frontier_marked_def)
next
  case (snoc c cs)
  from snoc.prems(3) obtain b r where b: "pareto_puts objectives (empty_archive\<lparr>pa_metadata := m\<rparr>) cs = Inr b"
    and r: "pareto_put objectives b c = Inr (a, r)" by (auto simp: pareto_puts_def foldM_r_append)
  have IH: "frontier_marked objectives (pa_rows b)" "map row_candidate (pa_rows b) = map as_stored cs"
    using snoc.IH [OF _ _ b] snoc.prems by simp_all
  obtain entry frontier where e: "r = (entry, frontier)" by (cases r)
  obtain p where "put_commit objectives b p = Inr a" using r unfolding e by (rule put_splits)
  then have "frontier_marked objectives (pa_rows a)" using commit_marks IH(1) by blast
  moreover have "pc_id c \<notin> pc_id ` set (map row_candidate (pa_rows b))"
    unfolding IH(2) using snoc.prems(2) by (auto simp: as_stored_def)
  ultimately show ?case using fresh_put [OF IH(1) _ r] snoc.prems(1) IH(2) by simp
qed

lemma frontier_ids_sorted:
  assumes m: "frontier_marked objectives (pa_rows a)"
  shows "\<exists>ids. frontier_ids a = Inr ids \<and> sorted ids \<and> distinct ids
    \<and> set ids = {pc_id c | c. c \<in> set (map row_candidate (pa_rows a))
        \<and> \<not> (\<exists>b \<in> set (map row_candidate (pa_rows a)). pc_id b \<noteq> pc_id c \<and> conservatively_dominates b c objectives)}"
proof -
  let ?rows = "pa_rows a"
  let ?ids = "map pr_id (sort_key pr_id (filter pr_frontier ?rows))"
  have ok: "\<forall>r \<in> set ?rows. row_ok r" using m by (simp add: frontier_marked_def list_all_iff)
  have "frontier_ids a = Inr (map (\<lambda>e. pc_id (en_candidate e)) (map row_entry (sort_key pr_id (filter pr_frontier ?rows))))"
    using m entries_read [of ?rows True] by (simp add: frontier_ids_def frontier_marked_def)
  also have "\<dots> = Inr ?ids" using ok by (simp add: row_candidate_id)
  finally have "frontier_ids a = Inr ?ids" .
  moreover have "distinct ?ids"
    using m by (auto simp: frontier_marked_def distinct_map intro: inj_on_subset)
  moreover have "set ?ids = {pc_id c | c. c \<in> set (map row_candidate ?rows)
      \<and> \<not> (\<exists>b \<in> set (map row_candidate ?rows). pc_id b \<noteq> pc_id c \<and> conservatively_dominates b c objectives)}" (is "_ = ?S")
  proof -
    let ?P = "\<lambda>c. \<not> (\<exists>b \<in> set (map row_candidate ?rows). pc_id b \<noteq> pc_id c \<and> conservatively_dominates b c objectives)"
    have ids: "pc_id (row_candidate r) = pr_id r" if "r \<in> set ?rows" for r using ok that row_candidate_id by blast
    then have "pr_frontier r = ?P (row_candidate r)" if "r \<in> set ?rows" for r
      using m that by (simp add: frontier_marked_def row_dominated_def)
    then have "{r \<in> set ?rows. ?P (row_candidate r)} = {r \<in> set ?rows. pr_frontier r}" by blast
    moreover have "?S = (\<lambda>r. pc_id (row_candidate r)) ` {r \<in> set ?rows. ?P (row_candidate r)}" by auto
    ultimately have "?S = pr_id ` {r \<in> set ?rows. pr_frontier r}" using ids by (simp cong: image_cong_simp)
    then show ?thesis by simp
  qed
  ultimately show ?thesis by (intro exI [of _ ?ids]) (simp add: sorted_sort_key)
qed

text \<open>
  The frontier does not depend on the order in which different candidates arrive: two runs of puts over the
  same candidates that both return leave the same frontier.
\<close>
theorem frontier_ignores_arrival:
  assumes "list_all candidate_ok cs" and "distinct (map pc_id cs)" and "mset cs' = mset cs"
    and "pareto_puts objectives (empty_archive\<lparr>pa_metadata := m\<rparr>) cs = Inr a"
    and "pareto_puts objectives (empty_archive\<lparr>pa_metadata := m\<rparr>) cs' = Inr a'"
  shows "frontier_ids a' = frontier_ids a \<and> (\<exists>ids. frontier_ids a = Inr ids)"
proof -
  have s: "set cs' = set cs" using assms(3) by (metis set_mset_mset)
  then have ok': "list_all candidate_ok cs'" using assms(1) by (simp add: list_all_iff)
  have "mset (map pc_id cs') = mset (map pc_id cs)" using assms(3) by simp
  then have d': "distinct (map pc_id cs')" using assms(2) by (metis mset_eq_imp_distinct_iff)
  note rows = puts_rows [OF assms(1,2,4)] and rows' = puts_rows [OF ok' d' assms(5)]
  have same: "set (map row_candidate (pa_rows a')) = set (map row_candidate (pa_rows a))" using rows rows' s by simp
  obtain ids where ids: "frontier_ids a = Inr ids" "sorted ids" "distinct ids"
    "set ids = {pc_id c | c. c \<in> set (map row_candidate (pa_rows a))
        \<and> \<not> (\<exists>b \<in> set (map row_candidate (pa_rows a)). pc_id b \<noteq> pc_id c \<and> conservatively_dominates b c objectives)}"
    using frontier_ids_sorted [of objectives a] rows by blast
  obtain ids' where ids': "frontier_ids a' = Inr ids'" "sorted ids'" "distinct ids'"
    "set ids' = {pc_id c | c. c \<in> set (map row_candidate (pa_rows a'))
        \<and> \<not> (\<exists>b \<in> set (map row_candidate (pa_rows a')). pc_id b \<noteq> pc_id c \<and> conservatively_dominates b c objectives)}"
    using frontier_ids_sorted [of objectives a'] rows' by blast
  have "ids' = ids" using ids ids' unfolding same by (intro sorted_distinct_set_unique) simp_all
  then show ?thesis using ids(1) ids'(1) by simp
qed

definition fast_and_slow :: "pareto_candidate list" where
  "fast_and_slow = [demo_candidate ''fast'' [demo_value LATENCY 1, demo_value QUALITY 9],
     demo_candidate ''slow'' [demo_value LATENCY 2, demo_value QUALITY 9]]"

theorem frontier_ignores_arrival_witness:
  "\<exists>a a'. pareto_puts demo_objectives empty_archive fast_and_slow = Inr a
     \<and> pareto_puts demo_objectives empty_archive (rev fast_and_slow) = Inr a'
     \<and> frontier_ids a = Inr [lit ''fast''] \<and> frontier_ids a' = frontier_ids a"
proof -
  have e: "empty_archive\<lparr>pa_metadata := None\<rparr> = empty_archive" by (simp add: empty_archive_def)
  have "(case pareto_puts demo_objectives empty_archive fast_and_slow of Inr a \<Rightarrow> frontier_ids a = Inr [lit ''fast''] | Inl _ \<Rightarrow> False)"
    by code_simp
  then obtain a where a: "pareto_puts demo_objectives empty_archive fast_and_slow = Inr a" "frontier_ids a = Inr [lit ''fast'']"
    by (auto split: sum.splits)
  have "(case pareto_puts demo_objectives empty_archive (rev fast_and_slow) of Inr a \<Rightarrow> True | Inl _ \<Rightarrow> False)" by code_simp
  then obtain a' where a': "pareto_puts demo_objectives empty_archive (rev fast_and_slow) = Inr a'"
    by (auto split: sum.splits)
  have ok: "list_all candidate_ok fast_and_slow" "distinct (map pc_id fast_and_slow)" by code_simp+
  have "mset (rev fast_and_slow) = mset fast_and_slow" by simp
  from frontier_ignores_arrival [where m = None, unfolded e, OF ok this a(1) a'] a a' show ?thesis by blast
qed

end
