(* ===== verification/ExperimentIdentity.thy ===== *)
theory ExperimentIdentity
  imports IdentityJson
begin

text \<open>
  The derived identities of \<open>experiments/identity.py\<close> that hash no configuration: runs and candidates.
  An identity is a prefix and the SHA-256 of a canonical record; text that has no UTF-8 form raises.
\<close>

definition IDENTITY_SCHEMA_VERSION :: int where
  "IDENTITY_SCHEMA_VERSION = 1"

definition has_prefix :: "string \<Rightarrow> pystr \<Rightarrow> bool" where
  "has_prefix p s \<longleftrightarrow> take (length p) s = lit p"

definition identity_digest :: "string \<Rightarrow> json \<Rightarrow> identity_error + pystr" where
  "identity_digest namespace payload =
     rbind (canonical_identity_json payload) (\<lambda>text'.
     rbind (of_option IdentityText (encode_utf8 text')) (\<lambda>encoded.
     Inr (lit namespace @ 0x5F # hexdigest encoded)))"

definition derive_run_identity :: "pystr \<Rightarrow> pystr \<Rightarrow> identity_error + pystr" where
  "derive_run_identity experiment_id logical_run_key =
     rbind (raise_if (\<not> has_prefix ''exp_'' experiment_id \<or> logical_run_key = [])
              (Identity ''run identity requires an experiment ID and logical run key'')) (\<lambda>_.
     identity_digest ''run'' (JObj [(lit ''identity_schema_version'', JInt IDENTITY_SCHEMA_VERSION),
       (lit ''experiment_id'', JStr experiment_id), (lit ''logical_run_key'', JStr logical_run_key)]))"

definition derive_candidate_identity :: "pystr \<Rightarrow> pystr \<Rightarrow> identity_error + pystr" where
  "derive_candidate_identity run_id mutation =
     rbind (raise_if (\<not> has_prefix ''run_'' run_id \<or> mutation = [])
              (Identity ''candidate identity requires a run ID and mutation ID'')) (\<lambda>_.
     identity_digest ''cand'' (JObj [(lit ''identity_schema_version'', JInt IDENTITY_SCHEMA_VERSION),
       (lit ''run_id'', JStr run_id), (lit ''mutation_id'', JStr mutation)]))"

lemma derived_prefix:
  "derive_run_identity e k = Inr r \<Longrightarrow> has_prefix ''run_'' r"
  "derive_candidate_identity r' m = Inr c \<Longrightarrow> has_prefix ''cand_'' c"
  by (auto simp: derive_run_identity_def derive_candidate_identity_def identity_digest_def guard_Inr has_prefix_def lit_simps)

lemma ascii_encodes: "list_all (\<lambda>c. c < 128) s \<Longrightarrow> encode_utf8 s \<noteq> None"
  by (force simp: encode_utf8_def list_all_iff is_scalar_value_def is_surrogate_def is_code_point_def)

end
