(* ===== verification/CheckpointLineage.thy ===== *)
theory CheckpointLineage
  imports SearchConstraints MutationTransaction ExperimentIdentity
begin

text \<open>
  \<open>search/lineage.py\<close>: accepted checkpoints and keep/rollback decisions in SQLite, each decision together with
  the mutation transaction and the artifact lease of its candidate. \<open>decide\<close> reads before its database
  transaction opens, so it is split there. A text column of JSON is the value that reading it gives.
  Committing the database may fail, which each writing call has as a parameter; the lease is a state with
  the artifacts it names and a release that may raise.
\<close>

datatype 'x lineage_error =
    Lineage string
  | LineageIdentity identity_error
  | LineageEncoding
  | LineageTransaction "'x transaction_error"
  | LeaseRaised 'x
  | LineageIntegrity
  | LineageDatabase

datatype decision_kind = KEEP | ROLLBACK

fun decision_value :: "decision_kind \<Rightarrow> pystr" where
  "decision_value KEEP = lit ''keep''"
| "decision_value ROLLBACK = lit ''rollback''"

definition CHECKPOINT_LINEAGE_SCHEMA_VERSION :: int where
  "CHECKPOINT_LINEAGE_SCHEMA_VERSION = 1"

section \<open>Evidence, checkpoints, decisions\<close>

record measured_evidence =
  me_id :: pystr
  me_evaluation :: constraint_evaluation

definition measured_evidence_init :: "measured_evidence \<Rightarrow> 'x lineage_error + measured_evidence" where
  "measured_evidence_init e =
     rbind (raise_if (\<not> has_prefix ''evaluation_'' (me_id e)) (Lineage ''measured evidence requires an evaluation ID'')) (\<lambda>_.
     rbind (raise_if (ce_results (me_evaluation e) = []) (Lineage ''measured evidence requires constraint results'')) (\<lambda>_.
     Inr e))"

definition measured_evidence_record :: "measured_evidence \<Rightarrow> json" where
  "measured_evidence_record e =
     JObj [(lit ''evaluation_id'', JStr (me_id e)), (lit ''measured'', JBool True),
           (lit ''constraint_evaluation'', constraint_evaluation_record (me_evaluation e))]"

text \<open>\<open>canonical_identity_json\<close> of a value that may hold floats, as the value its text reads as.\<close>

definition canonical_document :: "json \<Rightarrow> 'x lineage_error + json" where
  "canonical_document v =
     rbind (except (canonicalize_identity_value v) LineageIdentity) (\<lambda>d.
     rbind (raise_if (\<not> json_writable d) (LineageIdentity IdentityText)) (\<lambda>_. Inr d))"

record accepted_checkpoint =
  ck_id :: pystr
  ck_parent :: "pystr option"
  ck_state :: pystr
  ck_digest :: pystr
  ck_evaluation :: pystr
  ck_evidence :: json

definition accepted_checkpoint_record :: "accepted_checkpoint \<Rightarrow> json" where
  "accepted_checkpoint_record c =
     JObj [(lit ''checkpoint_id'', JStr (ck_id c)),
           (lit ''parent_checkpoint_id'', case ck_parent c of None \<Rightarrow> JNull | Some p \<Rightarrow> JStr p),
           (lit ''state_id'', JStr (ck_state c)), (lit ''artifact_digest'', JStr (ck_digest c)),
           (lit ''evaluation_id'', JStr (ck_evaluation c)), (lit ''evidence'', ck_evidence c)]"

record lineage_decision =
  de_candidate :: pystr
  de_parent :: pystr
  de_state :: pystr
  de_kind :: decision_kind
  de_checkpoint :: "pystr option"
  de_evaluation :: pystr
  de_released :: "pystr list"

definition lineage_decision_record :: "lineage_decision \<Rightarrow> json" where
  "lineage_decision_record d =
     JObj [(lit ''candidate_id'', JStr (de_candidate d)), (lit ''parent_checkpoint_id'', JStr (de_parent d)),
           (lit ''candidate_state_id'', JStr (de_state d)), (lit ''kind'', JStr (decision_value (de_kind d))),
           (lit ''checkpoint_id'', case de_checkpoint d of None \<Rightarrow> JNull | Some c \<Rightarrow> JStr c),
           (lit ''evaluation_id'', JStr (de_evaluation d)),
           (lit ''released_artifact_ids'', JList (map JStr (de_released d)))]"

definition validate_identity :: "pystr \<Rightarrow> string \<Rightarrow> 'x lineage_error + unit" where
  "validate_identity v prefix =
     raise_if (\<not> has_prefix prefix v) (Lineage ''an identity requires its canonical prefix'')"

text \<open>Text of hexadecimal digits below \<open>a\<close> to \<open>f\<close> is its own lower case.\<close>

definition validate_digest :: "pystr \<Rightarrow> 'x lineage_error + unit" where
  "validate_digest v =
     rbind (raise_if (\<not> has_prefix ''sha256:'' v \<or> length v \<noteq> 71)
              (Lineage ''checkpoint artifacts require a SHA-256 digest'')) (\<lambda>_.
     raise_if (\<not> list_all (\<lambda>c. 48 \<le> c \<and> c \<le> 57 \<or> 97 \<le> c \<and> c \<le> 102) (drop 7 v))
       (Lineage ''checkpoint artifact digest is not canonical''))"

section \<open>The database\<close>

text \<open>The rows of \<open>lineage_decisions\<close>; the stored evidence and released artifacts are JSON.\<close>

record decision_row =
  dr_candidate :: pystr
  dr_parent :: pystr
  dr_state :: pystr
  dr_kind :: decision_kind
  dr_checkpoint :: "pystr option"
  dr_evaluation :: pystr
  dr_evidence :: json
  dr_released :: json

record lineage_db =
  ld_version :: "int option"
  ld_checkpoints :: "accepted_checkpoint list"
  ld_decisions :: "decision_row list"

definition empty_lineage :: lineage_db where
  "empty_lineage = \<lparr>ld_version = None, ld_checkpoints = [], ld_decisions = []\<rparr>"

definition open_lineage :: "lineage_db \<Rightarrow> 'x lineage_error + lineage_db" where
  "open_lineage db =
     (let version = (case ld_version db of None \<Rightarrow> 1 | Some v \<Rightarrow> v) in
      rbind (raise_if (version \<noteq> CHECKPOINT_LINEAGE_SCHEMA_VERSION)
               (Lineage ''checkpoint lineage schema is unsupported'')) (\<lambda>_.
      Inr (db\<lparr>ld_version := Some version\<rparr>)))"

text \<open>The constraints of \<open>accepted_checkpoints\<close>: keys, the unique state, the reference to the parent.\<close>

definition insert_checkpoint :: "accepted_checkpoint \<Rightarrow> lineage_db \<Rightarrow> 'x lineage_error + lineage_db" where
  "insert_checkpoint c db =
     rbind (raise_if (\<not> list_all (\<lambda>s. encode_utf8 s \<noteq> None)
                ([ck_id c] @ (case ck_parent c of None \<Rightarrow> [] | Some p \<Rightarrow> [p]) @ [ck_state c, ck_digest c, ck_evaluation c])
              \<or> \<not> json_encodable (ck_evidence c)) LineageEncoding) (\<lambda>_.
     rbind (raise_if (ck_id c \<in> set (map ck_id (ld_checkpoints db)) \<or> ck_state c \<in> set (map ck_state (ld_checkpoints db))
              \<or> (case ck_parent c of None \<Rightarrow> False | Some p \<Rightarrow> p \<notin> insert (ck_id c) (set (map ck_id (ld_checkpoints db)))))
              LineageIntegrity) (\<lambda>_.
     Inr (db\<lparr>ld_checkpoints := ld_checkpoints db @ [c]\<rparr>)))"

definition insert_decision :: "decision_row \<Rightarrow> lineage_db \<Rightarrow> 'x lineage_error + lineage_db" where
  "insert_decision d db =
     rbind (raise_if (\<not> list_all (\<lambda>s. encode_utf8 s \<noteq> None)
                ([dr_candidate d, dr_parent d, dr_state d]
                   @ (case dr_checkpoint d of None \<Rightarrow> [] | Some c \<Rightarrow> [c]) @ [dr_evaluation d])
              \<or> \<not> json_encodable (dr_evidence d) \<or> \<not> json_encodable (dr_released d)) LineageEncoding) (\<lambda>_.
     rbind (raise_if (dr_candidate d \<in> set (map dr_candidate (ld_decisions db))
              \<or> dr_state d \<in> set (map dr_state (ld_decisions db))
              \<or> dr_parent d \<notin> set (map ck_id (ld_checkpoints db))
              \<or> (case dr_checkpoint d of None \<Rightarrow> False | Some c \<Rightarrow> c \<notin> set (map ck_id (ld_checkpoints db)))
              \<or> (dr_kind d = KEEP) \<noteq> (dr_checkpoint d \<noteq> None)) LineageIntegrity) (\<lambda>_.
     Inr (db\<lparr>ld_decisions := ld_decisions db @ [d]\<rparr>)))"

definition checkpoint_from_row :: "accepted_checkpoint \<Rightarrow> 'x lineage_error + accepted_checkpoint" where
  "checkpoint_from_row c =
     rbind (raise_if (json_obj (ck_evidence c) = None) (Lineage ''stored checkpoint evidence is corrupt'')) (\<lambda>_. Inr c)"

definition require_search_root :: "lineage_db \<Rightarrow> pystr \<Rightarrow> 'x lineage_error + accepted_checkpoint" where
  "require_search_root db i =
     rbind (raise_if (encode_utf8 i = None) LineageEncoding) (\<lambda>_.
     rbind (of_option (Lineage ''search roots must be accepted checkpoints'')
              (find (\<lambda>c. ck_id c = i) (ld_checkpoints db))) checkpoint_from_row)"

definition checkpoints :: "lineage_db \<Rightarrow> 'x lineage_error + accepted_checkpoint list" where
  "checkpoints db = mapM_r checkpoint_from_row (sort_key ck_id (ld_checkpoints db))"

text \<open>\<open>saved\<close> tells whether the database commit succeeds; an error leaves the tables as they were.\<close>

definition finish_write :: "bool \<Rightarrow> 'x lineage_error + lineage_db \<Rightarrow> 'x lineage_error + lineage_db" where
  "finish_write saved r = rbind r (\<lambda>db. rbind (raise_if (\<not> saved) LineageDatabase) (\<lambda>_. Inr db))"

text \<open>\<open>except sqlite3.IntegrityError\<close>.\<close>

definition conflict :: "string \<Rightarrow> 'x lineage_error \<Rightarrow> 'x lineage_error" where
  "conflict message e = (case e of LineageIntegrity \<Rightarrow> Lineage message | _ \<Rightarrow> e)"

definition register_root ::
  "lineage_db \<Rightarrow> pystr \<Rightarrow> pystr \<Rightarrow> pystr \<Rightarrow> measured_evidence \<Rightarrow> bool
     \<Rightarrow> 'x lineage_error + lineage_db \<times> accepted_checkpoint" where
  "register_root db i state digest e saved =
     rbind (validate_identity i ''checkpoint_'') (\<lambda>_. rbind (validate_identity state ''state_'') (\<lambda>_.
     rbind (validate_digest digest) (\<lambda>_.
     rbind (raise_if (\<not> ce_passed (me_evaluation e)) (Lineage ''root checkpoint evidence must pass constraints'')) (\<lambda>_.
     rbind (canonical_document (measured_evidence_record e)) (\<lambda>evidence.
     rbind (except (finish_write saved (insert_checkpoint \<lparr>ck_id = i, ck_parent = None, ck_state = state, ck_digest = digest,
               ck_evaluation = me_id e, ck_evidence = evidence\<rparr> db))
       (conflict ''root checkpoint identity already exists'')) (\<lambda>db'.
     rbind (require_search_root db' i) (\<lambda>c. Inr (db', c))))))))"

section \<open>Deciding a candidate\<close>

definition checkpoint_id ::
  "pystr \<Rightarrow> pystr \<Rightarrow> pystr \<Rightarrow> pystr \<Rightarrow> pystr \<Rightarrow> 'x lineage_error + pystr" where
  "checkpoint_id root candidate state digest evaluation =
     rbind (except (canonical_identity_json (JObj [(lit ''parent_checkpoint_id'', JStr root),
         (lit ''candidate_id'', JStr candidate), (lit ''candidate_state_id'', JStr state),
         (lit ''artifact_digest'', JStr digest), (lit ''evaluation_id'', JStr evaluation)])) LineageIdentity) (\<lambda>payload.
     rbind (of_option LineageEncoding (encode_utf8 payload)) (\<lambda>encoded.
     Inr (lit ''checkpoint_'' @ hexdigest encoded)))"

record decision_request =
  dq_parent :: pystr
  dq_candidate :: pystr
  dq_state :: pystr
  dq_digest :: pystr
  dq_evidence :: measured_evidence

record ('l, 'x) lease_ops =
  ls_artifacts :: "'l \<Rightarrow> pystr list"
  ls_release :: "'l \<Rightarrow> 'l \<times> ('x + unit)"

text \<open>A decision that has read the database: its evidence and, when it passes, the new checkpoint.\<close>

record pending_decision =
  pd_request :: decision_request
  pd_evidence :: json
  pd_checkpoint :: "pystr option"

definition decide_check ::
  "lineage_db \<Rightarrow> 's transaction \<Rightarrow> decision_request \<Rightarrow> 'x lineage_error + pending_decision" where
  "decide_check db t q =
     rbind (require_search_root db (dq_parent q)) (\<lambda>_.
     rbind (validate_identity (dq_candidate q) ''candidate_'') (\<lambda>_.
     rbind (validate_identity (dq_state q) ''state_'') (\<lambda>_.
     rbind (validate_digest (dq_digest q)) (\<lambda>_.
     rbind (raise_if (tx_state t \<noteq> APPLIED \<or> \<not> tx_owns t)
              (Lineage ''lineage decisions require an applied owning transaction'')) (\<lambda>_.
     rbind (raise_if (encode_utf8 (dq_candidate q) = None \<or> encode_utf8 (dq_state q) = None) LineageEncoding) (\<lambda>_.
     rbind (raise_if (list_ex (\<lambda>d. dr_candidate d = dq_candidate q \<or> dr_state d = dq_state q) (ld_decisions db))
              (Lineage ''candidate lineage decision is immutable'')) (\<lambda>_.
     rbind (canonical_document (measured_evidence_record (dq_evidence q))) (\<lambda>evidence.
     if ce_passed (me_evaluation (dq_evidence q))
     then rbind (checkpoint_id (dq_parent q) (dq_candidate q) (dq_state q) (dq_digest q) (me_id (dq_evidence q))) (\<lambda>c.
            Inr \<lparr>pd_request = q, pd_evidence = evidence, pd_checkpoint = Some c\<rparr>)
     else Inr \<lparr>pd_request = q, pd_evidence = evidence, pd_checkpoint = None\<rparr>))))))))"

definition decision_of :: "pending_decision \<Rightarrow> decision_kind \<Rightarrow> pystr list \<Rightarrow> lineage_decision" where
  "decision_of p kind released = (let q = pd_request p in
     \<lparr>de_candidate = dq_candidate q, de_parent = dq_parent q, de_state = dq_state q, de_kind = kind,
      de_checkpoint = pd_checkpoint p, de_evaluation = me_id (dq_evidence q), de_released = released\<rparr>)"

definition decision_row_of :: "pending_decision \<Rightarrow> decision_kind \<Rightarrow> json \<Rightarrow> decision_row" where
  "decision_row_of p kind released = (let q = pd_request p in
     \<lparr>dr_candidate = dq_candidate q, dr_parent = dq_parent q, dr_state = dq_state q, dr_kind = kind,
      dr_checkpoint = pd_checkpoint p, dr_evaluation = me_id (dq_evidence q), dr_evidence = pd_evidence p,
      dr_released = released\<rparr>)"

definition checkpoint_of :: "pending_decision \<Rightarrow> pystr \<Rightarrow> accepted_checkpoint" where
  "checkpoint_of p c = (let q = pd_request p in
     \<lparr>ck_id = c, ck_parent = Some (dq_parent q), ck_state = dq_state q, ck_digest = dq_digest q,
      ck_evaluation = me_id (dq_evidence q), ck_evidence = pd_evidence p\<rparr>)"

text \<open>The two inserts of a kept candidate, before the transaction commits.\<close>

definition keep_rows :: "pending_decision \<Rightarrow> pystr \<Rightarrow> lineage_db \<Rightarrow> 'x lineage_error + lineage_db" where
  "keep_rows p c db =
     rbind (insert_checkpoint (checkpoint_of p c) db) (insert_decision (decision_row_of p KEEP (JList [])))"

definition write_keep ::
  "lineage_db \<Rightarrow> pending_decision \<Rightarrow> pystr \<Rightarrow> ('w, 's) tx_world \<Rightarrow> bool
     \<Rightarrow> ('w, 's) tx_world \<times> ('x lineage_error + lineage_db \<times> lineage_decision)" where
  "write_keep db p c w saved =
     (case keep_rows p c db of
        Inl e \<Rightarrow> (w, Inl (conflict ''accepted checkpoint lineage conflicts'' e))
      | Inr db' \<Rightarrow>
          (case commit w of
             (w', Inl e) \<Rightarrow> (w', Inl (LineageTransaction e))
           | (w', Inr _) \<Rightarrow>
               (w', rbind (raise_if (\<not> saved) LineageDatabase) (\<lambda>_. Inr (db', decision_of p KEEP [])))))"

definition write_rollback ::
  "('w, 's, 'x) targets \<Rightarrow> ('l, 'x) lease_ops \<Rightarrow> lineage_db \<Rightarrow> pending_decision \<Rightarrow> ('w, 's) tx_world \<Rightarrow> 'l \<Rightarrow> bool
     \<Rightarrow> ('w, 's) tx_world \<times> 'l \<times> ('x lineage_error + lineage_db \<times> lineage_decision)" where
  "write_rollback tg ls db p w lease saved =
     (case rollback tg w of
        (w', Inl e) \<Rightarrow> (w', lease, Inl (LineageTransaction e))
      | (w', Inr _) \<Rightarrow>
          let released = ls_artifacts ls lease in
          (case ls_release ls lease of
             (lease', Inl x) \<Rightarrow> (w', lease', Inl (LeaseRaised x))
           | (lease', Inr _) \<Rightarrow>
               (w', lease', rbind (canonical_document (JList (map JStr released))) (\<lambda>document.
                  rbind (finish_write saved (insert_decision (decision_row_of p ROLLBACK document) db)) (\<lambda>db'.
                  Inr (db', decision_of p ROLLBACK released))))))"

definition decide_write ::
  "('w, 's, 'x) targets \<Rightarrow> ('l, 'x) lease_ops \<Rightarrow> lineage_db \<Rightarrow> pending_decision \<Rightarrow> ('w, 's) tx_world \<Rightarrow> 'l \<Rightarrow> bool
     \<Rightarrow> ('w, 's) tx_world \<times> 'l \<times> ('x lineage_error + lineage_db \<times> lineage_decision)" where
  "decide_write tg ls db p w lease saved =
     (case pd_checkpoint p of
        Some c \<Rightarrow> (case write_keep db p c w saved of (w', r) \<Rightarrow> (w', lease, r))
      | None \<Rightarrow> write_rollback tg ls db p w lease saved)"

text \<open>\<open>decide\<close> when no other process writes between its reads and its transaction.\<close>

definition decide ::
  "('w, 's, 'x) targets \<Rightarrow> ('l, 'x) lease_ops \<Rightarrow> lineage_db \<Rightarrow> decision_request \<Rightarrow> ('w, 's) tx_world \<Rightarrow> 'l \<Rightarrow> bool
     \<Rightarrow> ('w, 's) tx_world \<times> 'l \<times> ('x lineage_error + lineage_db \<times> lineage_decision)" where
  "decide tg ls db q w lease saved =
     (case decide_check db (tw_tx w) q of
        Inl e \<Rightarrow> (w, lease, Inl e)
      | Inr p \<Rightarrow> decide_write tg ls db p w lease saved)"

section \<open>Interleaved decisions\<close>

text \<open>
  Processes share the database only: a step brings its own transaction, lease and database commit.
\<close>

datatype ('w, 's, 'l) lineage_event =
    RegisterRoot pystr pystr pystr measured_evidence bool
  | Read decision_request "'s transaction"
  | Write nat "('w, 's) tx_world" 'l bool

record lineage_system =
  ly_db :: lineage_db
  ly_pending :: "pending_decision list"

fun lineage_step ::
  "('w, 's, 'x) targets \<Rightarrow> ('l, 'x) lease_ops \<Rightarrow> lineage_system \<Rightarrow> ('w, 's, 'l) lineage_event \<Rightarrow> lineage_system" where
  "lineage_step tg ls y (RegisterRoot i state digest e saved) =
     (case register_root (ly_db y) i state digest e saved :: 'x lineage_error + lineage_db \<times> accepted_checkpoint of
        Inl _ \<Rightarrow> y
      | Inr (db, _) \<Rightarrow> y\<lparr>ly_db := db\<rparr>)"
| "lineage_step tg ls y (Read q t) =
     (case decide_check (ly_db y) t q :: 'x lineage_error + pending_decision of
        Inl _ \<Rightarrow> y
      | Inr p \<Rightarrow> y\<lparr>ly_pending := ly_pending y @ [p]\<rparr>)"
| "lineage_step tg ls y (Write n w lease saved) =
     (if n < length (ly_pending y) then
        let rest = take n (ly_pending y) @ drop (Suc n) (ly_pending y) in
        (case snd (snd (decide_write tg ls (ly_db y) (ly_pending y ! n) w lease saved)) of
           Inl _ \<Rightarrow> y\<lparr>ly_pending := rest\<rparr>
         | Inr (db, _) \<Rightarrow> \<lparr>ly_db = db, ly_pending = rest\<rparr>)
      else y)"

definition lineage_run ::
  "('w, 's, 'x) targets \<Rightarrow> ('l, 'x) lease_ops \<Rightarrow> lineage_db \<Rightarrow> ('w, 's, 'l) lineage_event list \<Rightarrow> lineage_system" where
  "lineage_run tg ls db = foldl (lineage_step tg ls) \<lparr>ly_db = db, ly_pending = []\<rparr>"

end
