(* ===== verification/LineageSafety.thy ===== *)
theory LineageSafety
  imports CheckpointLineage
begin

text \<open>
  What the lineage store of \<open>search/lineage.py\<close> guarantees: over every interleaving of registrations and
  decisions its checkpoints form a forest of accepted states with one decision behind each, and a single
  decision keeps the database and the mutation of the candidate together.
\<close>

section \<open>What the writes do\<close>

definition evidence_stored :: "measured_evidence \<Rightarrow> json \<Rightarrow> bool" where
  "evidence_stored e j \<longleftrightarrow> canonicalize_identity_value (measured_evidence_record e) = Inr j"

definition digest_ok :: "pystr \<Rightarrow> bool" where
  "digest_ok v \<longleftrightarrow> has_prefix ''sha256:'' v \<and> is_hex64 (drop 7 v)"

lemma validate_digest_ok: "validate_digest v = Inr u \<longleftrightarrow> digest_ok v"
  by (auto simp: validate_digest_def digest_ok_def is_hex64_def guard_Inr)

lemma canonical_document_Inr:
  "canonical_document v = Inr j \<Longrightarrow> canonicalize_identity_value v = Inr j"
  by (auto simp: canonical_document_def guard_Inr)

lemma insert_checkpoint_Inr:
  assumes "insert_checkpoint c db = Inr db'"
  shows "db' = db\<lparr>ld_checkpoints := ld_checkpoints db @ [c]\<rparr>" and "ck_id c \<notin> ck_id ` set (ld_checkpoints db)"
    and "ck_state c \<notin> ck_state ` set (ld_checkpoints db)"
  using assms by (auto simp: insert_checkpoint_def guard_Inr)

lemma insert_decision_Inr:
  assumes "insert_decision d db = Inr db'"
  shows "db' = db\<lparr>ld_decisions := ld_decisions db @ [d]\<rparr>"
    and "dr_candidate d \<notin> dr_candidate ` set (ld_decisions db)" and "dr_state d \<notin> dr_state ` set (ld_decisions db)"
  using assms by (auto simp: insert_decision_def guard_Inr)

lemma find_append_None: "find P xs = None \<Longrightarrow> find P (xs @ ys) = find P ys"
  by (induction xs) (simp_all split: if_splits)

lemma register_root_Inr:
  assumes "register_root db i state digest e saved = (Inr (db', c) :: 'x lineage_error + _)"
  shows "c = \<lparr>ck_id = i, ck_parent = None, ck_state = state, ck_digest = digest, ck_evaluation = me_id e,
      ck_evidence = ck_evidence c\<rparr>"
    and "db' = db\<lparr>ld_checkpoints := ld_checkpoints db @ [c]\<rparr>" and "saved"
    and "i \<notin> ck_id ` set (ld_checkpoints db)" and "state \<notin> ck_state ` set (ld_checkpoints db)"
    and "has_prefix ''checkpoint_'' i" and "has_prefix ''state_'' state" and "digest_ok digest"
    and "ce_passed (me_evaluation e)" and "evidence_stored e (ck_evidence c)"
proof -
  from assms obtain evidence where g: "has_prefix ''checkpoint_'' i" "has_prefix ''state_'' state" "digest_ok digest"
    "ce_passed (me_evaluation e)" "canonicalize_identity_value (measured_evidence_record e) = Inr evidence" "saved"
    and ins: "insert_checkpoint \<lparr>ck_id = i, ck_parent = None, ck_state = state, ck_digest = digest,
               ck_evaluation = me_id e, ck_evidence = evidence\<rparr> db = (Inr db' :: 'x lineage_error + _)"
    and c: "require_search_root db' i = (Inr c :: 'x lineage_error + _)"
    unfolding register_root_def finish_write_def
    by (auto simp: guard_Inr validate_identity_def validate_digest_ok elim!: rbind_InrE dest!: canonical_document_Inr)
  note ins = insert_checkpoint_Inr [OF ins]
  have "find (\<lambda>c. ck_id c = i) (ld_checkpoints db) = None" using ins(2) by (auto simp: find_None_iff image_iff)
  then have "find (\<lambda>c. ck_id c = i) (ld_checkpoints db')
      = Some \<lparr>ck_id = i, ck_parent = None, ck_state = state, ck_digest = digest,
               ck_evaluation = me_id e, ck_evidence = evidence\<rparr>"
    unfolding ins(1) by (simp add: find_append_None)
  with c have c: "c = \<lparr>ck_id = i, ck_parent = None, ck_state = state, ck_digest = digest,
               ck_evaluation = me_id e, ck_evidence = evidence\<rparr>"
    by (auto simp: require_search_root_def checkpoint_from_row_def guard_Inr)
  show "db' = db\<lparr>ld_checkpoints := ld_checkpoints db @ [c]\<rparr>" using ins(1) c by simp
  show "c = \<lparr>ck_id = i, ck_parent = None, ck_state = state, ck_digest = digest, ck_evaluation = me_id e,
      ck_evidence = ck_evidence c\<rparr>" "i \<notin> ck_id ` set (ld_checkpoints db)" "state \<notin> ck_state ` set (ld_checkpoints db)"
    "evidence_stored e (ck_evidence c)"
    using ins(2,3) g(5) by (simp_all add: c evidence_stored_def)
qed (use assms in \<open>auto simp: register_root_def finish_write_def guard_Inr validate_identity_def validate_digest_ok
      elim!: rbind_InrE\<close>)

text \<open>A pending decision, and what its write adds to the tables.\<close>

definition pending_sound :: "lineage_db \<Rightarrow> pending_decision \<Rightarrow> bool" where
  "pending_sound db p \<longleftrightarrow> dq_parent (pd_request p) \<in> ck_id ` set (ld_checkpoints db)
     \<and> has_prefix ''candidate_'' (dq_candidate (pd_request p)) \<and> has_prefix ''state_'' (dq_state (pd_request p))
     \<and> digest_ok (dq_digest (pd_request p)) \<and> evidence_stored (dq_evidence (pd_request p)) (pd_evidence p)
     \<and> (pd_checkpoint p \<noteq> None \<longleftrightarrow> ce_passed (me_evaluation (dq_evidence (pd_request p))))
     \<and> (\<forall>c. pd_checkpoint p = Some c \<longrightarrow> has_prefix ''checkpoint_'' c)"

lemma find_Some_image: "find (\<lambda>c. f c = i) xs = Some x \<Longrightarrow> i \<in> f ` set xs"
  by (auto simp: find_Some_iff)

lemma checkpoint_id_prefix: "checkpoint_id a b c d e = Inr i \<Longrightarrow> has_prefix ''checkpoint_'' i"
  by (auto simp: checkpoint_id_def has_prefix_def lit_simps)

lemma decide_check_sound:
  assumes "decide_check db t q = (Inr p :: 'x lineage_error + _)"
  shows "pending_sound db p" and "pd_request p = q" and "tx_state t = APPLIED" and "tx_owns t"
    and "dq_candidate q \<notin> dr_candidate ` set (ld_decisions db)" and "dq_state q \<notin> dr_state ` set (ld_decisions db)"
proof -
  from assms obtain r where "require_search_root db (dq_parent q) = (Inr r :: 'x lineage_error + _)"
    by (auto simp: decide_check_def)
  then have "dq_parent q \<in> ck_id ` set (ld_checkpoints db)"
    by (auto simp: require_search_root_def dest: find_Some_image)
  moreover have "pd_request p = q \<and> tx_state t = APPLIED \<and> tx_owns t
      \<and> dq_candidate q \<notin> dr_candidate ` set (ld_decisions db) \<and> dq_state q \<notin> dr_state ` set (ld_decisions db)
      \<and> has_prefix ''candidate_'' (dq_candidate q) \<and> has_prefix ''state_'' (dq_state q) \<and> digest_ok (dq_digest q)
      \<and> evidence_stored (dq_evidence q) (pd_evidence p)
      \<and> (pd_checkpoint p \<noteq> None \<longleftrightarrow> ce_passed (me_evaluation (dq_evidence q)))
      \<and> (\<forall>c. pd_checkpoint p = Some c \<longrightarrow> has_prefix ''checkpoint_'' c)"
    using assms unfolding decide_check_def
    by (auto simp: guard_Inr validate_identity_def validate_digest_ok evidence_stored_def list_ex_iff
        split: if_splits dest!: canonical_document_Inr checkpoint_id_prefix)
  ultimately show "pending_sound db p" "pd_request p = q" "tx_state t = APPLIED" "tx_owns t"
    "dq_candidate q \<notin> dr_candidate ` set (ld_decisions db)" "dq_state q \<notin> dr_state ` set (ld_decisions db)"
    by (simp_all add: pending_sound_def)
qed

definition kept_db :: "lineage_db \<Rightarrow> pending_decision \<Rightarrow> pystr \<Rightarrow> lineage_db" where
  "kept_db db p c = db\<lparr>ld_checkpoints := ld_checkpoints db @ [checkpoint_of p c],
     ld_decisions := ld_decisions db @ [decision_row_of p KEEP (JList [])]\<rparr>"

definition rolled_back_db :: "lineage_db \<Rightarrow> pending_decision \<Rightarrow> json \<Rightarrow> lineage_db" where
  "rolled_back_db db p released = db\<lparr>ld_decisions := ld_decisions db @ [decision_row_of p ROLLBACK released]\<rparr>"

definition undecided :: "lineage_db \<Rightarrow> pending_decision \<Rightarrow> bool" where
  "undecided db p \<longleftrightarrow> dq_candidate (pd_request p) \<notin> dr_candidate ` set (ld_decisions db)
     \<and> dq_state (pd_request p) \<notin> dr_state ` set (ld_decisions db)"

lemma decision_row_fields [simp]:
  "dr_candidate (decision_row_of p k r) = dq_candidate (pd_request p)"
  "dr_state (decision_row_of p k r) = dq_state (pd_request p)"
  "dr_parent (decision_row_of p k r) = dq_parent (pd_request p)" "dr_kind (decision_row_of p k r) = k"
  "dr_checkpoint (decision_row_of p k r) = pd_checkpoint p" "dr_evidence (decision_row_of p k r) = pd_evidence p"
  "dr_evaluation (decision_row_of p k r) = me_id (dq_evidence (pd_request p))" "dr_released (decision_row_of p k r) = r"
  by (simp_all add: decision_row_of_def Let_def)

lemma checkpoint_of_fields [simp]:
  "ck_id (checkpoint_of p c) = c" "ck_parent (checkpoint_of p c) = Some (dq_parent (pd_request p))"
  "ck_state (checkpoint_of p c) = dq_state (pd_request p)" "ck_digest (checkpoint_of p c) = dq_digest (pd_request p)"
  "ck_evidence (checkpoint_of p c) = pd_evidence p" "ck_evaluation (checkpoint_of p c) = me_id (dq_evidence (pd_request p))"
  by (simp_all add: checkpoint_of_def Let_def)

lemma keep_rows_Inr:
  assumes "keep_rows p c db = (Inr db' :: 'x lineage_error + _)"
  shows "db' = kept_db db p c" and "undecided db p" and "c \<notin> ck_id ` set (ld_checkpoints db)"
    and "dq_state (pd_request p) \<notin> ck_state ` set (ld_checkpoints db)"
proof -
  from assms obtain x where x: "insert_checkpoint (checkpoint_of p c) db = (Inr x :: 'x lineage_error + _)"
    "insert_decision (decision_row_of p KEEP (JList [])) x = (Inr db' :: 'x lineage_error + _)"
    by (auto simp: keep_rows_def)
  show "db' = kept_db db p c" "undecided db p" "c \<notin> ck_id ` set (ld_checkpoints db)"
    "dq_state (pd_request p) \<notin> ck_state ` set (ld_checkpoints db)"
    using insert_checkpoint_Inr [OF x(1)] insert_decision_Inr [OF x(2)] by (simp_all add: kept_db_def undecided_def)
qed

lemma write_keep_Inr:
  assumes "write_keep db p c w saved = (w', Inr (db', d) :: 'x lineage_error + _)"
  shows "keep_rows p c db = (Inr db' :: 'x lineage_error + _)"
    and "commit w = (w', Inr () :: 'x transaction_error + _)" and "saved" and "d = decision_of p KEEP []"
  using assms by (auto simp: write_keep_def guard_Inr split: sum.splits prod.splits)

lemma write_rollback_Inr:
  fixes tg :: "('w, 's, 'c) targets"
  assumes "write_rollback tg ls db p w lease saved = (w', lease', Inr (db', d))"
  shows "rollback tg w = (w', Inr ())" and "ls_release ls lease = (lease', Inr ())" and "saved"
    and "d = decision_of p ROLLBACK (ls_artifacts ls lease)" and "undecided db p" and "\<exists>j. db' = rolled_back_db db p j"
proof -
  show "rollback tg w = (w', Inr ())" "ls_release ls lease = (lease', Inr ())" "saved"
    "d = decision_of p ROLLBACK (ls_artifacts ls lease)"
    using assms by (auto simp: write_rollback_def guard_Inr Let_def finish_write_def split: sum.splits prod.splits)
  from assms obtain j where "insert_decision (decision_row_of p ROLLBACK j) db = (Inr db' :: 'c lineage_error + _)"
    by (auto simp: write_rollback_def guard_Inr Let_def finish_write_def split: sum.splits prod.splits)
  from insert_decision_Inr [OF this] show "undecided db p" "\<exists>j. db' = rolled_back_db db p j"
    by (auto simp: rolled_back_db_def undecided_def)
qed

lemma decide_write_Inr:
  fixes tg :: "('w, 's, 'x) targets"
  assumes "decide_write tg ls db p w lease saved = (w', lease', Inr (db', d))"
  shows "undecided db p"
    and "case pd_checkpoint p of
           Some c \<Rightarrow> db' = kept_db db p c \<and> c \<notin> ck_id ` set (ld_checkpoints db)
             \<and> dq_state (pd_request p) \<notin> ck_state ` set (ld_checkpoints db)
         | None \<Rightarrow> \<exists>j. db' = rolled_back_db db p j"
proof -
  have "undecided db p \<and> (case pd_checkpoint p of
           Some c \<Rightarrow> db' = kept_db db p c \<and> c \<notin> ck_id ` set (ld_checkpoints db)
             \<and> dq_state (pd_request p) \<notin> ck_state ` set (ld_checkpoints db)
         | None \<Rightarrow> \<exists>j. db' = rolled_back_db db p j)"
  proof (cases "pd_checkpoint p")
    case None
    then show ?thesis using assms write_rollback_Inr(5,6) [of tg ls db p w lease saved w' lease' db' d]
      by (simp add: decide_write_def)
  next
    case (Some c)
    then have "write_keep db p c w saved = (w', Inr (db', d) :: 'x lineage_error + _)"
      using assms by (simp add: decide_write_def split: prod.splits)
    from keep_rows_Inr [OF write_keep_Inr(1) [OF this]] Some show ?thesis by simp
  qed
  then show "undecided db p" "case pd_checkpoint p of
           Some c \<Rightarrow> db' = kept_db db p c \<and> c \<notin> ck_id ` set (ld_checkpoints db)
             \<and> dq_state (pd_request p) \<notin> ck_state ` set (ld_checkpoints db)
         | None \<Rightarrow> \<exists>j. db' = rolled_back_db db p j" by blast+
qed

section \<open>The lineage is a forest of accepted states\<close>

text \<open>Every parent stands before its children.\<close>

fun parents_before :: "pystr set \<Rightarrow> accepted_checkpoint list \<Rightarrow> bool" where
  "parents_before S [] = True"
| "parents_before S (c # cs) =
     ((case ck_parent c of None \<Rightarrow> True | Some p \<Rightarrow> p \<in> S) \<and> parents_before (insert (ck_id c) S) cs)"

lemma parents_before_append:
  "parents_before S (xs @ ys) \<longleftrightarrow> parents_before S xs \<and> parents_before (S \<union> ck_id ` set xs) ys"
  by (induction xs arbitrary: S) auto

definition parent_edges :: "accepted_checkpoint list \<Rightarrow> (pystr \<times> pystr) set" where
  "parent_edges cs = {(ck_id c, p) | c p. c \<in> set cs \<and> ck_parent c = Some p}"

definition checkpoint_sound :: "accepted_checkpoint \<Rightarrow> bool" where
  "checkpoint_sound c \<longleftrightarrow> has_prefix ''checkpoint_'' (ck_id c) \<and> has_prefix ''state_'' (ck_state c) \<and> digest_ok (ck_digest c)
     \<and> (\<exists>e. ce_passed (me_evaluation e) \<and> ck_evaluation c = me_id e \<and> evidence_stored e (ck_evidence c))"

definition decision_sound :: "accepted_checkpoint list \<Rightarrow> decision_row \<Rightarrow> bool" where
  "decision_sound cs d \<longleftrightarrow> dr_parent d \<in> ck_id ` set cs \<and> has_prefix ''candidate_'' (dr_candidate d)
     \<and> (case dr_kind d of
          KEEP \<Rightarrow> \<exists>c \<in> set cs. dr_checkpoint d = Some (ck_id c) \<and> ck_parent c = Some (dr_parent d)
            \<and> ck_state c = dr_state d \<and> ck_evaluation c = dr_evaluation d \<and> ck_evidence c = dr_evidence d
        | ROLLBACK \<Rightarrow> dr_checkpoint d = None \<and> (\<exists>e. \<not> ce_passed (me_evaluation e)
            \<and> dr_evaluation d = me_id e \<and> evidence_stored e (dr_evidence d)))"

definition lineage_ok :: "lineage_db \<Rightarrow> bool" where
  "lineage_ok db \<longleftrightarrow> distinct (map ck_id (ld_checkpoints db)) \<and> distinct (map ck_state (ld_checkpoints db))
     \<and> parents_before {} (ld_checkpoints db) \<and> list_all checkpoint_sound (ld_checkpoints db)
     \<and> distinct (map dr_candidate (ld_decisions db)) \<and> distinct (map dr_state (ld_decisions db))
     \<and> list_all (decision_sound (ld_checkpoints db)) (ld_decisions db)
     \<and> (\<forall>c \<in> set (ld_checkpoints db). ck_parent c \<noteq> None
          \<longrightarrow> (\<exists>d \<in> set (ld_decisions db). dr_kind d = KEEP \<and> dr_checkpoint d = Some (ck_id c)))"

lemma decision_sound_mono: "decision_sound cs d \<Longrightarrow> decision_sound (cs @ cs2) d"
  by (auto simp: decision_sound_def split: decision_kind.splits)

lemma lineage_ok_root:
  assumes "lineage_ok db" and "ck_parent c = None" and "checkpoint_sound c"
    and "ck_id c \<notin> ck_id ` set (ld_checkpoints db)" and "ck_state c \<notin> ck_state ` set (ld_checkpoints db)"
  shows "lineage_ok (db\<lparr>ld_checkpoints := ld_checkpoints db @ [c]\<rparr>)"
  using assms by (auto simp: lineage_ok_def parents_before_append list_all_iff intro: decision_sound_mono)

lemma lineage_ok_kept:
  assumes "lineage_ok db" and "pending_sound db p" and "pd_checkpoint p = Some c" and "undecided db p"
    and "c \<notin> ck_id ` set (ld_checkpoints db)" and "dq_state (pd_request p) \<notin> ck_state ` set (ld_checkpoints db)"
  shows "lineage_ok (kept_db db p c)"
proof -
  have "checkpoint_sound (checkpoint_of p c)"
    using assms(2,3) by (auto simp: checkpoint_sound_def pending_sound_def intro!: exI [of _ "dq_evidence (pd_request p)"])
  moreover have "decision_sound (ld_checkpoints db @ [checkpoint_of p c]) (decision_row_of p KEEP (JList []))"
    using assms(2,3) by (auto simp: decision_sound_def pending_sound_def)
  ultimately show ?thesis
    using assms unfolding lineage_ok_def kept_db_def
    by (auto simp: parents_before_append list_all_iff pending_sound_def undecided_def intro: decision_sound_mono)
qed

lemma lineage_ok_rolled_back:
  assumes "lineage_ok db" and "pending_sound db p" and "pd_checkpoint p = None" and "undecided db p"
  shows "lineage_ok (rolled_back_db db p j)"
proof -
  have "decision_sound (ld_checkpoints db) (decision_row_of p ROLLBACK j)"
    using assms(2,3) by (auto simp: decision_sound_def pending_sound_def)
  then show ?thesis
    using assms unfolding lineage_ok_def rolled_back_db_def
    by (auto simp: undecided_def)
qed

text \<open>A write leaves the rows that are there and appends.\<close>

definition extends_lineage :: "lineage_db \<Rightarrow> lineage_db \<Rightarrow> bool" where
  "extends_lineage db db' \<longleftrightarrow> (\<exists>cs ds. ld_checkpoints db' = ld_checkpoints db @ cs \<and> ld_decisions db' = ld_decisions db @ ds)"

lemma extends_lineage_refl [simp]: "extends_lineage db db"
  by (simp add: extends_lineage_def)

lemma extends_lineage_trans: "extends_lineage a b \<Longrightarrow> extends_lineage b c \<Longrightarrow> extends_lineage a c"
  by (auto simp: extends_lineage_def)

lemma pending_sound_extends: "pending_sound db p \<Longrightarrow> extends_lineage db db' \<Longrightarrow> pending_sound db' p"
  by (auto simp: pending_sound_def extends_lineage_def)

definition system_ok :: "lineage_system \<Rightarrow> bool" where
  "system_ok y \<longleftrightarrow> lineage_ok (ly_db y) \<and> list_all (pending_sound (ly_db y)) (ly_pending y)"

lemma lineage_step_ok:
  fixes tg :: "('w, 's, 'x) targets"
  assumes "system_ok y"
  shows "system_ok (lineage_step tg ls y e) \<and> extends_lineage (ly_db y) (ly_db (lineage_step tg ls y e))"
proof (cases e)
  case (RegisterRoot i state digest ev saved)
  show ?thesis
  proof (cases "register_root (ly_db y) i state digest ev saved :: 'x lineage_error + lineage_db \<times> accepted_checkpoint")
    case (Inr r)
    obtain db c where r: "r = (db, c)" by (cases r)
    note reg = register_root_Inr [OF Inr [unfolded r]]
    have c: "ck_parent c = None" "ck_id c = i" "ck_state c = state" "checkpoint_sound c"
      using reg(1,6-10) by (simp_all add: checkpoint_sound_def) (metis accepted_checkpoint.select_convs)+
    have ok: "lineage_ok db" unfolding reg(2)
      using assms c reg(4,5) by (intro lineage_ok_root) (auto simp: system_ok_def)
    have "extends_lineage (ly_db y) db" unfolding reg(2) by (simp add: extends_lineage_def)
    with ok assms Inr r RegisterRoot show ?thesis
      by (auto simp: system_ok_def list_all_iff intro: pending_sound_extends)
  qed (use assms RegisterRoot in simp)
next
  case (Read q t)
  show ?thesis
  proof (cases "decide_check (ly_db y) t q :: 'x lineage_error + pending_decision")
    case (Inr p)
    with assms Read decide_check_sound(1) [OF Inr] show ?thesis by (simp add: system_ok_def)
  qed (use assms Read in simp)
next
  case (Write n w lease saved)
  show ?thesis
  proof (cases "n < length (ly_pending y)")
    case True
    let ?p = "ly_pending y ! n" and ?rest = "take n (ly_pending y) @ drop (Suc n) (ly_pending y)"
    have p: "pending_sound (ly_db y) ?p" using assms True by (simp add: system_ok_def list_all_length)
    have rest: "list_all (pending_sound (ly_db y)) ?rest"
      using assms by (auto simp: system_ok_def list_all_iff dest: in_set_takeD in_set_dropD)
    obtain w' lease' r where run: "decide_write tg ls (ly_db y) ?p w lease saved = (w', lease', r)"
      by (rule prod_cases3)
    show ?thesis
    proof (cases r)
      case (Inl x)
      then show ?thesis using run Write True rest assms by (simp add: system_ok_def Let_def)
    next
      case (Inr d)
      obtain db d' where d: "d = (db, d')" by (cases d)
      note eff = decide_write_Inr [OF run [unfolded Inr d]]
      have "lineage_ok db \<and> extends_lineage (ly_db y) db"
      proof (cases "pd_checkpoint ?p")
        case None
        then obtain j where "db = rolled_back_db (ly_db y) ?p j" using eff(2) by auto
        then show ?thesis using lineage_ok_rolled_back [OF _ p None eff(1)] assms
          by (simp add: system_ok_def extends_lineage_def rolled_back_db_def)
      next
        case (Some c)
        then show ?thesis using lineage_ok_kept [OF _ p Some eff(1)] eff(2) assms
          by (simp add: system_ok_def extends_lineage_def kept_db_def)
      qed
      then show ?thesis using run Inr d Write True rest
        by (auto simp: system_ok_def Let_def list_all_iff intro: pending_sound_extends)
    qed
  qed (use assms Write in simp)
qed

lemma lineage_run_ok:
  fixes tg :: "('w, 's, 'x) targets"
  shows "system_ok y \<Longrightarrow> system_ok (foldl (lineage_step tg ls) y es)
    \<and> extends_lineage (ly_db y) (ly_db (foldl (lineage_step tg ls) y es))"
proof (induction es arbitrary: y)
  case (Cons e es)
  from lineage_step_ok [OF Cons.prems, of tg ls e] Cons.IH show ?case by (auto intro: extends_lineage_trans)
qed simp

lemma parents_edges_acyclic:
  "distinct (map ck_id cs) \<Longrightarrow> parents_before {} cs \<Longrightarrow> acyclic (parent_edges cs)"
proof (induction cs rule: rev_induct)
  case (snoc c cs)
  have IH: "acyclic (parent_edges cs)" using snoc by (simp add: parents_before_append)
  have into: "snd ` parent_edges cs \<subseteq> ck_id ` set cs"
  proof -
    have edges: "snd ` parent_edges (x # xs)
        = (case ck_parent x of None \<Rightarrow> {} | Some p \<Rightarrow> {p}) \<union> snd ` parent_edges xs" for x xs
      by (auto simp: parent_edges_def image_iff split: option.splits)
    have "parents_before S xs \<Longrightarrow> snd ` parent_edges xs \<subseteq> S \<union> ck_id ` set xs" for S xs
    proof (induction xs arbitrary: S)
      case (Cons x xs)
      from Cons.IH [of "insert (ck_id x) S"] Cons.prems show ?case
        unfolding edges by (auto split: option.splits)
    qed (simp add: parent_edges_def)
    from this [of "{}" cs] show ?thesis using snoc.prems(2) by (simp add: parents_before_append)
  qed
  show ?case
  proof (cases "ck_parent c")
    case None
    then have "parent_edges (cs @ [c]) = parent_edges cs" by (auto simp: parent_edges_def)
    then show ?thesis using IH by simp
  next
    case (Some p)
    then have p: "p \<in> ck_id ` set cs" using snoc.prems(2) by (simp add: parents_before_append)
    have e: "parent_edges (cs @ [c]) = insert (ck_id c, p) (parent_edges cs)"
      using Some by (auto simp: parent_edges_def)
    have "(p, ck_id c) \<notin> (parent_edges cs)\<^sup>*"
    proof
      assume "(p, ck_id c) \<in> (parent_edges cs)\<^sup>*"
      then have "p = ck_id c \<or> ck_id c \<in> snd ` parent_edges cs"
        by (cases rule: rtranclE) (auto intro: rev_image_eqI)
      moreover have "ck_id c \<notin> ck_id ` set cs" using snoc.prems(1) by simp
      ultimately show False using p into by blast
    qed
    then show ?thesis using IH e by (simp add: acyclic_insert)
  qed
qed (simp add: parent_edges_def acyclic_def)

lemma descends_from_root:
  "parents_before {} cs \<Longrightarrow> c \<in> set cs \<Longrightarrow> \<exists>r \<in> set cs. ck_parent r = None \<and> (ck_id c, ck_id r) \<in> (parent_edges cs)\<^sup>*"
proof (induction cs arbitrary: c rule: rev_induct)
  case (snoc x cs)
  have mono: "(parent_edges cs)\<^sup>* \<subseteq> (parent_edges (cs @ [x]))\<^sup>*"
    by (rule rtrancl_mono) (auto simp: parent_edges_def)
  have old: "\<exists>r \<in> set (cs @ [x]). ck_parent r = None \<and> (ck_id d, ck_id r) \<in> (parent_edges (cs @ [x]))\<^sup>*"
    if "d \<in> set cs" for d
    using snoc.IH [OF _ that] snoc.prems(1) mono by (auto simp: parents_before_append)
  show ?case
  proof (cases "c \<in> set cs \<or> ck_parent x = None")
    case True
    then show ?thesis using old snoc.prems(2) by fastforce
  next
    case False
    then obtain p where p: "ck_parent x = Some p" "c = x" using snoc.prems(2) by auto
    then obtain d where d: "d \<in> set cs" "p = ck_id d" using snoc.prems(1) by (auto simp: parents_before_append)
    have "(ck_id c, ck_id d) \<in> parent_edges (cs @ [x])" using p d by (auto simp: parent_edges_def)
    then show ?thesis using old [OF d(1)] by (meson converse_rtrancl_into_rtrancl)
  qed
qed simp

text \<open>
  C16. The lineage is a forest of accepted states: whatever roots and decisions processes write, in any
  interleaving and whatever fails, no checkpoint is its own ancestor and each descends from a root. Every
  checkpoint has passing evidence and an artifact digest, a state is accepted once, and each checkpoint with a
  parent is the result of exactly one decision to keep, with its parent, state and evidence. A candidate and
  a state are decided once; a candidate rolled back has failing evidence and its state never becomes a child.
  What is written stays: later histories only append.
\<close>
theorem lineage_forest:
  fixes tg :: "('w, 's, 'x) targets"
  assumes "db = ly_db (lineage_run tg ls empty_lineage events)"
    and "cs = ld_checkpoints db" and "ds = ld_decisions db"
  shows "acyclic (parent_edges cs) \<and> distinct (map ck_id cs) \<and> distinct (map ck_state cs)
    \<and> (\<forall>c \<in> set cs. checkpoint_sound c
         \<and> (\<exists>r \<in> set cs. ck_parent r = None \<and> (ck_id c, ck_id r) \<in> (parent_edges cs)\<^sup>*)
         \<and> (ck_parent c \<noteq> None \<longrightarrow> (\<exists>!d. d \<in> set ds \<and> dr_checkpoint d = Some (ck_id c))))
    \<and> distinct (map dr_candidate ds) \<and> distinct (map dr_state ds) \<and> (\<forall>d \<in> set ds. decision_sound cs d)
    \<and> (\<forall>d \<in> set ds. \<forall>c \<in> set cs. dr_kind d = ROLLBACK \<longrightarrow> ck_state c = dr_state d \<longrightarrow> ck_parent c = None)
    \<and> extends_lineage db (ly_db (lineage_run tg ls empty_lineage (events @ later)))"
proof -
  have start: "system_ok \<lparr>ly_db = empty_lineage, ly_pending = []\<rparr>"
    by (simp add: system_ok_def lineage_ok_def empty_lineage_def)
  have sys: "system_ok (lineage_run tg ls empty_lineage events)"
    using lineage_run_ok [OF start, of tg ls events] by (simp add: lineage_run_def)
  then have ok: "lineage_ok db" using assms(1) by (simp add: system_ok_def)
  have grows: "extends_lineage db (ly_db (lineage_run tg ls empty_lineage (events @ later)))"
    using lineage_run_ok [OF sys, of tg ls later] by (simp add: assms(1) lineage_run_def)
  have parts: "distinct (map ck_id cs)" "distinct (map ck_state cs)" "parents_before {} cs" "list_all checkpoint_sound cs"
    "distinct (map dr_candidate ds)" "distinct (map dr_state ds)" "list_all (decision_sound cs) ds"
    "\<forall>c \<in> set cs. ck_parent c \<noteq> None \<longrightarrow> (\<exists>d \<in> set ds. dr_kind d = KEEP \<and> dr_checkpoint d = Some (ck_id c))"
    using ok by (simp_all add: lineage_ok_def assms(2,3))
  have same_id: "c = c'" if "c \<in> set cs" "c' \<in> set cs" "ck_id c = ck_id c'" for c c'
    using that parts(1) by (auto simp: distinct_map inj_on_def)
  have kept: "ck_state c = dr_state d" if "c \<in> set cs" "d \<in> set ds" "dr_checkpoint d = Some (ck_id c)" for c d
  proof -
    have "decision_sound cs d" using parts(7) that(2) by (simp add: list_all_iff)
    with that(3) obtain c' where "c' \<in> set cs" "ck_id c' = ck_id c" "ck_state c' = dr_state d"
      by (auto simp: decision_sound_def split: decision_kind.splits)
    with same_id [OF that(1)] show ?thesis by metis
  qed
  have one: "d = d'" if "d \<in> set ds" "d' \<in> set ds" "dr_state d = dr_state d'" for d d'
    using that parts(6) by (auto simp: distinct_map inj_on_def)
  have unique: "\<exists>!d. d \<in> set ds \<and> dr_checkpoint d = Some (ck_id c)" if "c \<in> set cs" "ck_parent c \<noteq> None" for c
    using parts(8) that kept [OF that(1)] one by metis
  have rolled: "ck_parent c = None"
    if "d \<in> set ds" "c \<in> set cs" "dr_kind d = ROLLBACK" "ck_state c = dr_state d" for c d
  proof (rule ccontr)
    assume "ck_parent c \<noteq> None"
    with parts(8) that(2) obtain d' where d': "d' \<in> set ds" "dr_kind d' = KEEP" "dr_checkpoint d' = Some (ck_id c)" by blast
    then have "d' = d" using kept [OF that(2)] that(1,4) one by metis
    then show False using d'(2) that(3) by simp
  qed
  show ?thesis
    using parents_edges_acyclic [OF parts(1,3)] parts(1,2,4-7) descends_from_root [OF parts(3)] unique rolled grows
    by (simp add: list_all_iff)
qed

section \<open>What a decision does to its candidate\<close>

definition tx_committed :: "('w, 's) tx_world \<Rightarrow> nat set \<Rightarrow> ('w, 's) tx_world \<Rightarrow> bool" where
  "tx_committed w1 active w' \<longleftrightarrow> tx_state (tw_tx w') = COMMITTED \<and> \<not> tx_owns (tw_tx w') \<and> tw_active w' = active
     \<and> tw_env w' = tw_env w1"

text \<open>Rolled back: all changed targets are as at the start, but for \<open>n\<close> that could not be restored.\<close>

definition tx_undone ::
  "(pystr \<Rightarrow> 'w \<Rightarrow> 'v) \<Rightarrow> pystr list \<Rightarrow> 'w \<Rightarrow> nat set \<Rightarrow> ('w, 's) tx_world \<Rightarrow> nat \<Rightarrow> bool" where
  "tx_undone view changed env active w' n \<longleftrightarrow> tx_state (tw_tx w') = ROLLED_BACK \<and> \<not> tx_owns (tw_tx w')
     \<and> tw_active w' = active
     \<and> (\<exists>failed. failed \<subseteq> set changed \<and> card failed = n \<and> (\<forall>k \<in> set changed - failed. view k (tw_env w') = view k env))"

lemma rollback_undoes:
  assumes "faithful_targets tg view" and "transaction_init tg nonce owner changed = Inr t"
    and "enter tg \<lparr>tw_env = env, tw_active = active, tw_tx = t\<rparr> = (w, Inr ())" and "w1 = run_body w steps"
    and "rollback tg w1 = (w', r)"
  shows "tx_undone view changed env active w' (length (restore_errors r))" and "r = Inr () \<longleftrightarrow> restore_errors r = []"
proof -
  note w = entered_block [OF assms(1-4)]
  have "exit_tx tg w1 = (w', r)" using w(1) assms(5) by (auto simp: exit_tx_def)
  note e = exit_rolls_back [OF this w(1,2)]
  show "tx_undone view changed env active w' (length (restore_errors r))"
    using e(1,2,4) w(3-5) restored_block [OF assms(1) w(6) e(5) [unfolded w(7)] w(8)]
    by (auto simp: tx_undone_def)
  show "r = Inr () \<longleftrightarrow> restore_errors r = []" by (rule e(6))
qed

lemma commit_commits:
  assumes "tx_owns (tw_tx w1)" and "tx_state (tw_tx w1) = PREPARED \<or> tx_state (tw_tx w1) = APPLIED"
    and "owner \<notin> active" and "tw_active w1 = insert owner active" and "tx_owner (tw_tx w1) = owner"
  shows "\<exists>w'. commit w1 = (w', Inr ()) \<and> tx_committed w1 active w'"
  using assms by (auto simp: commit_def tx_committed_def release_ownership_def set_tx_def)

lemma decide_cases:
  fixes tg :: "('w, 's, 'x) targets"
  assumes "decide tg ls db q w1 lease saved = (w', lease', r)"
  obtains (refused) e where "w' = w1" "lease' = lease" "r = Inl e"
  | (decided) p where "decide_check db (tw_tx w1) q = (Inr p :: 'x lineage_error + _)"
      "decide_write tg ls db p w1 lease saved = (w', lease', r)"
  using assms unfolding decide_def
  by (cases "decide_check db (tw_tx w1) q :: 'x lineage_error + pending_decision") auto

lemma write_rollback_outcome:
  fixes tg :: "('w, 's, 'x) targets"
  assumes run: "write_rollback tg ls db p w lease saved = (w', lease', r)"
  shows "\<exists>r'. rollback tg w = (w', r')
    \<and> (case r of Inl e \<Rightarrow> True
       | Inr (db', d) \<Rightarrow> r' = Inr () \<and> ls_release ls lease = (lease', Inr ()) \<and> saved
           \<and> d = decision_of p ROLLBACK (ls_artifacts ls lease) \<and> (\<exists>j. db' = rolled_back_db db p j))"
proof -
  obtain w2 r' where r': "rollback tg w = (w2, r')" by fastforce
  have "w2 = w'"
    using run r' by (auto simp: write_rollback_def Let_def split: sum.splits prod.splits)
  then show ?thesis
    using write_rollback_Inr [of tg ls db p w lease saved w' lease'] run r' by (cases r) (fastforce split: prod.splits)+
qed

text \<open>
  C17. A decision keeps database and candidate together. Deciding over an entered transaction after any body:
  a decision that returns was saved and is a keep exactly for passing evidence. Then the transaction is
  committed with the state as the body left it, the lease is untouched, and exactly the checkpoint and its
  decision were added; otherwise every changed target is as it was, the lease is released and only the
  decision was added. A decision that raises changes no row. It leaves the transaction and the lease as they were; or,
  for failing evidence, the transaction already rolled back (but for targets whose restore raised), when a
  restore, the release of the lease, the insert of the decision or the commit of the database raises; or, for
  passing evidence, committed, when the commit of the database fails after it.
\<close>
theorem decision_outcome:
  fixes tg :: "('w, 's, 'x) targets"
  assumes block: "faithful_targets tg view" "transaction_init tg nonce owner changed = Inr t"
    "enter tg \<lparr>tw_env = env, tw_active = active, tw_tx = t\<rparr> = (w, Inr ())" "w1 = run_body w steps"
    and run: "decide tg ls db q w1 lease saved = (w', lease', r)"
    and passed: "passed \<longleftrightarrow> ce_passed (me_evaluation (dq_evidence q))"
  shows "case r of
      Inr (db', d) \<Rightarrow> saved \<and> de_state d = dq_state q \<and> de_candidate d = dq_candidate q
        \<and> (if passed
           then de_kind d = KEEP \<and> tx_committed w1 active w' \<and> lease' = lease
             \<and> (\<exists>c row. db' = db\<lparr>ld_checkpoints := ld_checkpoints db @ [c], ld_decisions := ld_decisions db @ [row]\<rparr>
                  \<and> ck_state c = dq_state q \<and> ck_parent c = Some (dq_parent q) \<and> de_checkpoint d = Some (ck_id c)
                  \<and> dr_kind row = KEEP \<and> dr_candidate row = dq_candidate q)
           else de_kind d = ROLLBACK \<and> tx_undone view changed env active w' 0
             \<and> ls_release ls lease = (lease', Inr ()) \<and> de_released d = ls_artifacts ls lease
             \<and> (\<exists>row. db' = db\<lparr>ld_decisions := ld_decisions db @ [row]\<rparr>
                  \<and> dr_kind row = ROLLBACK \<and> dr_candidate row = dq_candidate q))
    | Inl e \<Rightarrow> w' = w1 \<and> lease' = lease
        \<or> \<not> passed \<and> (\<exists>n. tx_undone view changed env active w' n)
        \<or> passed \<and> e = LineageDatabase \<and> \<not> saved \<and> tx_committed w1 active w' \<and> lease' = lease"
  using run
proof (cases rule: decide_cases)
  case (decided p)
  note check = decide_check_sound [OF decided(1)]
  note b = entered_block [OF block]
  have pc: "passed \<longleftrightarrow> pd_checkpoint p \<noteq> None" using check(1,2) passed by (simp add: pending_sound_def)
  show ?thesis
  proof (cases "pd_checkpoint p")
    case None
    then have wr: "write_rollback tg ls db p w1 lease saved = (w', lease', r)"
      using decided(2) by (simp add: decide_write_def)
    from write_rollback_outcome [OF wr] obtain r' where r': "rollback tg w1 = (w', r')"
      and out: "case r of Inl e \<Rightarrow> True
         | Inr (db', d) \<Rightarrow> r' = Inr () \<and> ls_release ls lease = (lease', Inr ()) \<and> saved
           \<and> d = decision_of p ROLLBACK (ls_artifacts ls lease) \<and> (\<exists>j. db' = rolled_back_db db p j)" by blast
    note undone = rollback_undoes [OF block r']
    show ?thesis
    proof (cases r)
      case (Inl e)
      then show ?thesis using pc None undone(1) by auto
    next
      case (Inr x)
      then show ?thesis using out pc None undone check(2)
        by (cases x) (auto simp: rolled_back_db_def decision_of_def Let_def)
    qed
  next
    case (Some c)
    obtain w2 where commit: "commit w1 = (w2, Inr () :: 'x transaction_error + _)" "tx_committed w1 active w2"
      using commit_commits [OF b(2,1,3-5)] by blast
    have wr: "write_keep db p c w1 saved = (w', r)" and lease: "lease' = lease"
      using decided(2) Some by (auto simp: decide_write_def split: prod.splits)
    show ?thesis
    proof (cases "keep_rows p c db :: 'x lineage_error + lineage_db")
      case (Inl e)
      with wr lease show ?thesis by (auto simp: write_keep_def)
    next
      case (Inr db')
      with wr lease commit Some pc check(2) keep_rows_Inr(1) [OF Inr] show ?thesis
        by (cases saved) (auto simp: write_keep_def decision_of_def kept_db_def Let_def 
              intro!: exI [of _ "checkpoint_of p c"] exI [of _ "decision_row_of p KEEP (JList [])"])
    qed
  qed
qed simp

section \<open>A root, a candidate kept and one rolled back\<close>

definition demo_evidence :: "bool \<Rightarrow> measured_evidence" where
  "demo_evidence passed = \<lparr>me_id = lit ''evaluation_1'', me_evaluation = \<lparr>ce_passed = passed, ce_results =
     [\<lparr>cr_constraint = \<lparr>oc_metric = DISK, oc_threshold = 9, oc_baseline = ABSOLUTE, oc_version = 1\<rparr>,
       cr_observed = Some 7, cr_passed = passed, cr_reason = None\<rparr>]\<rparr>\<rparr>"

definition demo_artifact :: pystr where
  "demo_artifact = lit ''sha256:'' @ replicate 64 48"

definition demo_request :: "bool \<Rightarrow> string \<Rightarrow> decision_request" where
  "demo_request passed i = \<lparr>dq_parent = lit ''checkpoint_0'', dq_candidate = lit ''candidate_'' @ lit i,
     dq_state = lit ''state_'' @ lit i, dq_digest = demo_artifact, dq_evidence = demo_evidence passed\<rparr>"

definition demo_lease :: "(nat, unit) lease_ops" where
  "demo_lease = \<lparr>ls_artifacts = (\<lambda>n. [lit ''a'']), ls_release = (\<lambda>n. (n + 1, Inr ()))\<rparr>"

definition free_targets :: "(pystr \<Rightarrow> nat, nat, unit) targets" where
  "free_targets = \<lparr>tg_known = (\<lambda>_. True), tg_snapshot = (\<lambda>k w. (w, Inr (w k))),
     tg_restore = (\<lambda>k s w. (w(k := s), Inr ()))\<rparr>"

lemma free_targets_faithful: "faithful_targets free_targets (\<lambda>k w. w k)"
  by (auto simp: faithful_targets_def free_targets_def split: if_splits)

definition applied_tx :: "nat transaction" where
  "applied_tx = \<lparr>tx_owner = 5, tx_keys = [[97]], tx_id = [], tx_state = APPLIED, tx_snapshots = [([97], 1)],
     tx_owns = True, tx_entered = True\<rparr>"

definition demo_world :: "(pystr \<Rightarrow> nat, nat) tx_world" where
  "demo_world = \<lparr>tw_env = (\<lambda>_. 7), tw_active = {5}, tw_tx = applied_tx\<rparr>"

definition root_event :: "(pystr \<Rightarrow> nat, nat, nat) lineage_event" where
  "root_event = RegisterRoot (lit ''checkpoint_0'') (lit ''state_0'') demo_artifact (demo_evidence True) True"

definition rollback_events :: "(pystr \<Rightarrow> nat, nat, nat) lineage_event list" where
  "rollback_events = [root_event, Read (demo_request False ''1'') applied_tx, Read (demo_request False ''1'') applied_tx,
     Write 0 demo_world 0 True, Write 0 demo_world 0 True]"

theorem lineage_forest_witness:
  "\<exists>cs ds. ld_checkpoints (ly_db (lineage_run free_targets demo_lease empty_lineage rollback_events)) = cs
     \<and> ld_decisions (ly_db (lineage_run free_targets demo_lease empty_lineage rollback_events)) = ds
     \<and> map ck_id cs = [lit ''checkpoint_0''] \<and> map dr_candidate ds = [lit ''candidate_1''] \<and> acyclic (parent_edges cs)
     \<and> (\<forall>d \<in> set ds. decision_sound cs d)"
proof -
  let ?db = "ly_db (lineage_run free_targets demo_lease empty_lineage rollback_events)"
  have "map ck_id (ld_checkpoints ?db) = [lit ''checkpoint_0''] \<and> map dr_candidate (ld_decisions ?db) = [lit ''candidate_1'']"
    by code_simp
  with lineage_forest [of ?db free_targets demo_lease rollback_events, OF refl refl refl] show ?thesis by simp
qed

text \<open>What the read half of a kept candidate gives; the hash of its checkpoint stays unevaluated.\<close>

definition demo_db :: lineage_db where
  "demo_db = ly_db (lineage_run free_targets demo_lease empty_lineage [root_event])"

lemma demo_keep:
  assumes t: "tx_state t = APPLIED" "tx_owns t"
  shows "\<exists>c p db'. decide_check demo_db t (demo_request True ''2'') = (Inr p :: unit lineage_error + _)
     \<and> pd_checkpoint p = Some c \<and> keep_rows p c demo_db = (Inr db' :: unit lineage_error + _)"
proof -
  let ?q = "demo_request True ''2''"
  let ?json = "JObj [(lit ''parent_checkpoint_id'', JStr (dq_parent ?q)),
         (lit ''candidate_id'', JStr (dq_candidate ?q)), (lit ''candidate_state_id'', JStr (dq_state ?q)),
         (lit ''artifact_digest'', JStr (dq_digest ?q)), (lit ''evaluation_id'', JStr (me_id (dq_evidence ?q)))]"
  have "case canonical_identity_json ?json of Inl _ \<Rightarrow> False | Inr text' \<Rightarrow> encode_utf8 text' \<noteq> None" by code_simp
  then obtain text' bs where bs: "canonical_identity_json ?json = Inr text'" "encode_utf8 text' = Some bs"
    by (auto split: sum.splits)
  let ?c = "lit ''checkpoint_'' @ hexdigest bs"
  have id: "checkpoint_id (dq_parent ?q) (dq_candidate ?q) (dq_state ?q) (dq_digest ?q) (me_id (dq_evidence ?q))
      = (Inr ?c :: unit lineage_error + _)"
    using bs by (simp add: checkpoint_id_def)
  have hex: "is_hex64 (hexdigest bs)" by (rule hexdigest_is_hex64)
  then have "list_all (\<lambda>c. c < 128) (hexdigest bs)" by (auto simp: is_hex64_def list_all_iff)
  then have enc: "encode_utf8 ?c \<noteq> None" by (intro ascii_encodes) (simp add: lit_simps)
  have new: "?c \<noteq> lit ''checkpoint_0''"
  proof
    assume "?c = lit ''checkpoint_0''"
    then have "length ?c = length (lit ''checkpoint_0'')" by (rule arg_cong)
    then show False using hex by (simp add: is_hex64_def lit_simps)
  qed
  have db: "map ck_id (ld_checkpoints demo_db) = [lit ''checkpoint_0'']" "map ck_state (ld_checkpoints demo_db) = [lit ''state_0'']"
    "ld_decisions demo_db = []" by code_simp+
  have "case canonical_document (measured_evidence_record (dq_evidence ?q)) :: unit lineage_error + json of
      Inr j \<Rightarrow> json_encodable j | Inl _ \<Rightarrow> False" by code_simp
  then obtain j where doc: "canonical_document (measured_evidence_record (dq_evidence ?q)) = (Inr j :: unit lineage_error + _)"
    "json_encodable j" by (auto split: sum.splits)
  let ?p = "\<lparr>pd_request = ?q, pd_evidence = j, pd_checkpoint = Some ?c\<rparr>"
  have ready: "case require_search_root demo_db (dq_parent ?q) :: unit lineage_error + accepted_checkpoint of Inl _ \<Rightarrow> False | Inr _ \<Rightarrow> True"
    "validate_identity (dq_candidate ?q) ''candidate_'' = (Inr () :: unit lineage_error + _)"
    "validate_identity (dq_state ?q) ''state_'' = (Inr () :: unit lineage_error + _)"
    "validate_digest (dq_digest ?q) = (Inr () :: unit lineage_error + _)"
    "ce_passed (me_evaluation (dq_evidence ?q))"
    by code_simp+
  have enc': "list_all (\<lambda>s. encode_utf8 s \<noteq> None)
      [dq_parent ?q, dq_candidate ?q, dq_state ?q, dq_digest ?q, me_id (dq_evidence ?q)]" by code_simp
  have fresh: "dq_state ?q \<noteq> lit ''state_0''" "dq_parent ?q = lit ''checkpoint_0''" by code_simp+
  from ready(1) obtain r where "require_search_root demo_db (dq_parent ?q) = (Inr r :: unit lineage_error + _)"
    by (auto split: sum.splits)
  then have "decide_check demo_db t ?q = (Inr ?p :: unit lineage_error + _)"
    using t ready(2-5) enc' db(3) doc(1) id by (simp add: decide_check_def del: not_None_eq)
  moreover obtain db' where "keep_rows ?p ?c demo_db = (Inr db' :: unit lineage_error + _)"
    using enc enc' doc(2) db new fresh
    by (simp add: keep_rows_def insert_checkpoint_def insert_decision_def del: set_map not_None_eq)
  ultimately show ?thesis by (intro exI [of _ ?c] exI [of _ ?p] exI [of _ db'] conjI) simp_all
qed

lemma demo_block:
  "\<exists>t w. transaction_init free_targets [] 5 [[97]] = Inr t
     \<and> enter free_targets \<lparr>tw_env = (\<lambda>_. 1), tw_active = {}, tw_tx = t\<rparr> = (w, Inr ())
     \<and> tx_state (tw_tx (run_body w [Change (\<lambda>_ _. 7), Mark])) = APPLIED"
proof -
  have "encode_utf8 (decimal_digits 5 @ lit '':'' @ join_text (lit '','') [[97]] @ lit '':'' @ []) \<noteq> None" by code_simp
  then obtain bs where bs: "encode_utf8 (decimal_digits 5 @ lit '':'' @ join_text (lit '','') [[97]] @ lit '':'' @ []) = Some bs"
    by blast
  let ?t = "\<lparr>tx_owner = 5, tx_keys = [[97]], tx_id = hexdigest bs, tx_state = PREPARED,
     tx_snapshots = [], tx_owns = False, tx_entered = False\<rparr> :: nat transaction"
  have "transaction_init free_targets [] 5 [[97]] = (Inr ?t :: unit transaction_error + _)"
    using bs by (simp add: transaction_init_def Let_def free_targets_def)
  moreover obtain w where w: "enter free_targets \<lparr>tw_env = (\<lambda>_. 1), tw_active = {}, tw_tx = ?t\<rparr> = (w, Inr ())"
    by (simp add: enter_def set_tx_def free_targets_def Let_def)
  moreover have "tx_state (tw_tx (run_body w [Change (\<lambda>_ _. 7), Mark])) = APPLIED"
    using w by (auto simp: enter_def set_tx_def free_targets_def Let_def run_body_def mark_applied_def)
  ultimately show ?thesis by (intro exI [of _ ?t] exI [of _ w] conjI) simp_all
qed

theorem decision_outcome_witness:
  "\<exists>w1 w' db' d. decide free_targets demo_lease demo_db (demo_request True ''2'') w1 0 True = (w', 0, Inr (db', d))
     \<and> de_kind d = KEEP \<and> tx_committed w1 {} w' \<and> length (ld_checkpoints db') = Suc (length (ld_checkpoints demo_db))"
proof -
  obtain t w where b: "transaction_init free_targets [] 5 [[97]] = Inr t"
    "enter free_targets \<lparr>tw_env = (\<lambda>_. 1), tw_active = {}, tw_tx = t\<rparr> = (w, Inr ())"
    "tx_state (tw_tx (run_body w [Change (\<lambda>_ _. 7), Mark])) = APPLIED"
    using demo_block by (elim exE conjE)
  let ?w1 = "run_body w [Change (\<lambda>_ _. 7), Mark]" and ?q = "demo_request True ''2''"
  note e = entered_block [OF free_targets_faithful b(1,2), of ?w1 "[Change (\<lambda>_ _. 7), Mark]", OF refl]
  obtain c p db' where k: "decide_check demo_db (tw_tx ?w1) ?q = (Inr p :: unit lineage_error + _)"
    "pd_checkpoint p = Some c" "keep_rows p c demo_db = (Inr db' :: unit lineage_error + _)"
    using demo_keep [OF b(3) e(2)] by (elim exE conjE)
  obtain w' where w': "commit ?w1 = (w', Inr () :: unit transaction_error + _)"
    using commit_commits [OF e(2,1,3-5)] by blast
  have run: "decide free_targets demo_lease demo_db ?q ?w1 0 True = (w', 0, Inr (db', decision_of p KEEP []))"
    using k w' by (simp add: decide_def decide_write_def write_keep_def)
  have passed: "True \<longleftrightarrow> ce_passed (me_evaluation (dq_evidence ?q))" by (simp add: demo_request_def demo_evidence_def)
  have out: "de_kind (decision_of p KEEP []) = KEEP \<and> tx_committed ?w1 {} w'
      \<and> length (ld_checkpoints db') = Suc (length (ld_checkpoints demo_db))"
    using decision_outcome [OF free_targets_faithful b(1,2) refl run passed] by auto
  show ?thesis
    by (rule exI [of _ ?w1], rule exI [of _ w'], rule exI [of _ db'], rule exI [of _ "decision_of p KEEP []"])
      (use run out in simp)
qed

text \<open>The exception: the transaction commits before the database does, so a failing database commit leaves it committed.\<close>

theorem unsaved_keep_is_committed:
  assumes "keep_rows p c db = (Inr db' :: 'x lineage_error + _)" and "tx_owns (tw_tx w)" and "tx_state (tw_tx w) = APPLIED"
  shows "\<exists>w'. write_keep db p c w False = (w', Inl LineageDatabase :: 'x lineage_error + _) \<and> tx_state (tw_tx w') = COMMITTED"
  using assms by (auto simp: write_keep_def commit_def release_ownership_def set_tx_def)

end
