(* ===== verification/TargetResolution.thy ===== *)
theory TargetResolution
  imports GraphValidation MutationContracts "HOL-Library.AList"
begin

text \<open>
  \<open>surgery/target_resolution.py\<close>: the closure of the requested targets under the constraints and coupled
  edges of a graph, with the reason each component is part of the mutation. A Python set is the list of
  its elements without repetition, a dictionary its association list in insertion order.
\<close>

datatype target_error =
    TargetResolution pystr
  | TargetContract contract_error
  | TargetUnprintable

definition target_fail :: "string \<Rightarrow> target_error" where
  "target_fail s = TargetResolution (lit s)"

text \<open>\<open>str(i)\<close>, \<open>sorted\<close> and \<open>tuple(sorted(set(xs)))\<close> with the error of this module.\<close>

definition target_text :: "component_id \<Rightarrow> target_error + pystr" where
  "target_text i = except (graph_id_text i) (\<lambda>_. TargetUnprintable)"

definition target_sorted :: "component_id list \<Rightarrow> target_error + component_id list" where
  "target_sorted is' = except (sorted_ids (\<lambda>i. i) is') (\<lambda>_. TargetUnprintable)"

definition canonical_texts :: "pystr list \<Rightarrow> pystr list" where
  "canonical_texts xs = sort (remdups xs)"

section \<open>Results\<close>

record resolved_target =
  rt_component :: component_id
  rt_requested :: bool
  rt_reasons :: "pystr list"

definition resolved_target_init :: "resolved_target \<Rightarrow> target_error + resolved_target" where
  "resolved_target_init t =
     rbind (raise_if (rt_reasons t = [] \<or> canonical_texts (rt_reasons t) \<noteq> rt_reasons t)
              (target_fail ''resolved target reasons must be non-empty, unique, and canonical'')) (\<lambda>_.
     Inr t)"

definition resolved_target_record :: "resolved_target \<Rightarrow> target_error + json" where
  "resolved_target_record t =
     rbind (target_text (rt_component t)) (\<lambda>i.
     Inr (JObj [(lit ''component_id'', JStr i), (lit ''requested'', JBool (rt_requested t)),
                (lit ''reasons'', JList (map JStr (rt_reasons t)))]))"

record resolved_targets =
  rr_request :: mutation_request
  rr_targets :: "resolved_target list"
  rr_constraint_ids :: "pystr list"

definition affected_components :: "resolved_targets \<Rightarrow> component_id list" where
  "affected_components r = map rt_component (rr_targets r)"

definition resolved_targets_init :: "resolved_targets \<Rightarrow> target_error + resolved_targets" where
  "resolved_targets_init r =
     (let ids = affected_components r in
      rbind (raise_if (ids = [])
               (target_fail ''resolved targets must be non-empty, unique, and canonical'')) (\<lambda>_.
      rbind (target_sorted ids) (\<lambda>canonical.
      rbind (raise_if (ids \<noteq> canonical \<or> \<not> distinct ids)
               (target_fail ''resolved targets must be non-empty, unique, and canonical'')) (\<lambda>_.
      rbind (raise_if (\<not> set (mr_targets (rr_request r)) \<subseteq> set ids)
               (target_fail ''resolved closure omitted a requested target'')) (\<lambda>_.
      rbind (raise_if (rr_constraint_ids r \<noteq> canonical_texts (rr_constraint_ids r))
               (target_fail ''constraint IDs must be unique and canonical'')) (\<lambda>_.
      Inr r))))))"

definition to_plan ::
  "resolved_targets \<Rightarrow> mutation_precondition list \<Rightarrow> mutation_delta \<Rightarrow> target_error + mutation_plan" where
  "to_plan r preconditions expected =
     except (mutation_plan_init \<lparr>mp_request = rr_request r, mp_affected = affected_components r,
               mp_preconditions = preconditions, mp_expected = expected\<rparr>) TargetContract"

definition resolved_targets_record :: "resolved_targets \<Rightarrow> target_error + json" where
  "resolved_targets_record r =
     rbind (except (mutation_id (rr_request r)) TargetContract) (\<lambda>identity.
     rbind (mapM_r resolved_target_record (rr_targets r)) (\<lambda>targets.
     Inr (JObj [(lit ''mutation_id'', JStr identity), (lit ''targets'', JList targets),
                (lit ''constraint_ids'', JList (map JStr (rr_constraint_ids r)))])))"

section \<open>The indexes of a resolver\<close>

text \<open>\<open>d.get(k, ())\<close> and \<open>d.setdefault(k, []).append(v)\<close>.\<close>

definition bucket :: "('k \<times> 'v list) list \<Rightarrow> 'k \<Rightarrow> 'v list" where
  "bucket d k = (case map_of d k of None \<Rightarrow> [] | Some vs \<Rightarrow> vs)"

definition push_bucket :: "'v \<Rightarrow> ('k \<times> 'v list) list \<Rightarrow> 'k \<Rightarrow> ('k \<times> 'v list) list" where
  "push_bucket v d k = AList.update k (bucket d k @ [v]) d"

definition index_by :: "('v \<Rightarrow> 'k list) \<Rightarrow> 'v list \<Rightarrow> ('k \<times> 'v list) list" where
  "index_by keys vs = foldl (\<lambda>d v. foldl (push_bucket v) d (keys v)) [] vs"

record target_resolver =
  tr_known :: "component_id set"
  tr_constraints :: "(component_id \<times> mutation_constraint list) list"
  tr_coupled :: "(component_id \<times> graph_edge list) list"

definition edge_ends :: "graph_edge \<Rightarrow> component_id list" where
  "edge_ends e = [ge_source e, ge_target e]"

definition raise_invalid_graph :: "validation_report \<Rightarrow> target_error + unit" where
  "raise_invalid_graph report =
     except (raise_for_errors report) (\<lambda>error. case error of
         Inl _ \<Rightarrow> TargetUnprintable
       | Inr (message, _) \<Rightarrow>
           TargetResolution (lit ''component graph is invalid for mutation planning: '' @ message))"

definition resolver_init ::
  "(graph_primitive \<Rightarrow> pystr) \<Rightarrow> component_graph \<Rightarrow> target_error + target_resolver" where
  "resolver_init repr g =
     rbind (except (validate_component_graph repr g) (\<lambda>_. TargetUnprintable)) (\<lambda>report.
     rbind (raise_invalid_graph report) (\<lambda>_.
     Inr \<lparr>tr_known = set (map gn_id (cg_nodes g)),
          tr_constraints = index_by mc_members (cg_constraints g),
          tr_coupled = index_by edge_ends (filter (\<lambda>e. ge_kind e = COUPLED) (cg_edges g))\<rparr>))"

section \<open>The worklist\<close>

record resolution =
  rs_closure :: "component_id list"
  rs_reasons :: "(component_id \<times> pystr list) list"
  rs_constraints :: "pystr list"
  rs_edges :: "(component_id \<times> component_id) list"
  rs_pending :: "component_id list"

text \<open>The two statements both inner loops run for each member or endpoint.\<close>

definition add_member :: "pystr \<Rightarrow> resolution \<Rightarrow> component_id \<Rightarrow> resolution" where
  "add_member reason s m =
     (let s1 = (if m \<in> set (rs_closure s) then s
                else s\<lparr>rs_closure := m # rs_closure s, rs_pending := rs_pending s @ [m]\<rparr>) in
      s1\<lparr>rs_reasons := AList.update m (List.insert reason (bucket (rs_reasons s) m)) (rs_reasons s)\<rparr>)"

definition constraint_reason :: "mutation_constraint \<Rightarrow> pystr" where
  "constraint_reason c = lit ''constraint:'' @ mc_id c @ lit '':'' @ constraint_value (mc_kind c)"

definition activate_constraint :: "resolution \<Rightarrow> mutation_constraint \<Rightarrow> resolution" where
  "activate_constraint s c =
     (if mc_id c \<in> set (rs_constraints s) then s
      else foldl (add_member (constraint_reason c)) (s\<lparr>rs_constraints := mc_id c # rs_constraints s\<rparr>) (mc_members c))"

definition edge_reason :: "graph_edge \<Rightarrow> target_error + pystr" where
  "edge_reason e =
     rbind (target_text (ge_source e)) (\<lambda>source.
     rbind (target_text (ge_target e)) (\<lambda>target.
     Inr (lit ''coupled:'' @ source @ lit '':'' @ target)))"

definition activate_edge :: "resolution \<Rightarrow> graph_edge \<Rightarrow> target_error + resolution" where
  "activate_edge s e =
     (if (ge_source e, ge_target e) \<in> set (rs_edges s) then Inr s
      else rbind (edge_reason e) (\<lambda>reason.
           Inr (foldl (add_member reason) (s\<lparr>rs_edges := (ge_source e, ge_target e) # rs_edges s\<rparr>) (edge_ends e))))"

definition visit :: "target_resolver \<Rightarrow> resolution \<Rightarrow> component_id \<Rightarrow> target_error + resolution" where
  "visit tr s component =
     foldM_r activate_edge (foldl activate_constraint s (bucket (tr_constraints tr) component))
       (bucket (tr_coupled tr) component)"

function resolve_loop :: "target_resolver \<Rightarrow> resolution \<Rightarrow> nat \<Rightarrow> target_error + resolution" where
  "resolve_loop tr s cursor =
     (if cursor < length (rs_pending s)
      then rbind (visit tr s (rs_pending s ! cursor)) (\<lambda>s'. resolve_loop tr s' (Suc cursor))
      else Inr s)"
  by pat_completeness auto

text \<open>
  Termination: a visit takes one entry off the pending part and adds only components that an index
  mentions and the closure does not yet hold.
\<close>

definition mentioned :: "target_resolver \<Rightarrow> component_id set" where
  "mentioned tr = (\<Union>(_, cs) \<in> set (tr_constraints tr). \<Union>c \<in> set cs. set (mc_members c))
     \<union> (\<Union>(_, es) \<in> set (tr_coupled tr). \<Union>e \<in> set es. set (edge_ends e))"

definition unseen :: "target_resolver \<Rightarrow> resolution \<Rightarrow> nat" where
  "unseen tr s = card (mentioned tr - set (rs_closure s))"

lemma finite_mentioned [simp]: "finite (mentioned tr)"
  by (auto simp: mentioned_def)

lemma bucket_mem: "v \<in> set (bucket d k) \<Longrightarrow> \<exists>vs. (k, vs) \<in> set d \<and> v \<in> set vs"
  by (cases "map_of d k") (auto simp: bucket_def dest: map_of_SomeD)

lemma bucket_mentioned:
  "c \<in> set (bucket (tr_constraints tr) i) \<Longrightarrow> set (mc_members c) \<subseteq> mentioned tr"
  "e \<in> set (bucket (tr_coupled tr) i) \<Longrightarrow> set (edge_ends e) \<subseteq> mentioned tr"
  by (auto simp: mentioned_def dest!: bucket_mem)

text \<open>Adding members keeps the sum of the pending entries and the unseen components.\<close>

definition weighs :: "target_resolver \<Rightarrow> resolution \<Rightarrow> nat" where
  "weighs tr s = length (rs_pending s) + unseen tr s"

definition extends :: "resolution \<Rightarrow> resolution \<Rightarrow> bool" where
  "extends s s' \<longleftrightarrow> (\<exists>new. rs_pending s' = rs_pending s @ new)"

lemma extends_refl [simp]: "extends s s"
  by (simp add: extends_def)

lemma extends_trans: "extends s t \<Longrightarrow> extends t u \<Longrightarrow> extends s u"
  by (auto simp: extends_def)

lemma add_member_weighs:
  assumes "m \<in> mentioned tr"
  shows "weighs tr (add_member reason s m) = weighs tr s \<and> extends s (add_member reason s m)"
proof (cases "m \<in> set (rs_closure s)")
  case False
  then have "m \<in> mentioned tr - set (rs_closure s)" using assms by simp
  then have "Suc (card (mentioned tr - set (rs_closure s) - {m})) = unseen tr s"
    unfolding unseen_def by (intro card_Suc_Diff1) simp_all
  then have "unseen tr s = Suc (card (mentioned tr - insert m (set (rs_closure s))))"
    unfolding Diff_insert [of "mentioned tr"] by (rule sym)
  moreover have "unseen tr (add_member reason s m) = card (mentioned tr - insert m (set (rs_closure s)))"
    using False by (simp add: add_member_def unseen_def)
  ultimately show ?thesis using False by (simp add: weighs_def extends_def add_member_def)
qed (simp add: weighs_def extends_def add_member_def unseen_def)

lemma add_members_weighs:
  "set ms \<subseteq> mentioned tr \<Longrightarrow> weighs tr (foldl (add_member reason) s ms) = weighs tr s
     \<and> extends s (foldl (add_member reason) s ms)"
proof (induction ms arbitrary: s)
  case (Cons m ms)
  let ?t = "add_member reason s m"
  have t: "weighs tr ?t = weighs tr s" "extends s ?t" using add_member_weighs [of m tr reason s] Cons.prems by simp_all
  have "weighs tr (foldl (add_member reason) ?t ms) = weighs tr ?t" "extends ?t (foldl (add_member reason) ?t ms)"
    using Cons.IH [of ?t] Cons.prems by simp_all
  with t show ?case by (simp add: extends_trans [of s ?t])
qed simp

lemma activate_constraints_weighs:
  "(\<forall>c \<in> set cs. set (mc_members c) \<subseteq> mentioned tr) \<Longrightarrow>
     weighs tr (foldl activate_constraint s cs) = weighs tr s \<and> extends s (foldl activate_constraint s cs)"
proof (induction cs arbitrary: s)
  case (Cons c cs)
  have "weighs tr (activate_constraint s c) = weighs tr s \<and> extends s (activate_constraint s c)"
    using add_members_weighs [of "mc_members c" tr "constraint_reason c"
        "s\<lparr>rs_constraints := mc_id c # rs_constraints s\<rparr>"] Cons.prems
    by (simp add: activate_constraint_def weighs_def unseen_def extends_def)
  then have t: "weighs tr (activate_constraint s c) = weighs tr s" "extends s (activate_constraint s c)" by simp_all
  from Cons.IH [of "activate_constraint s c"] Cons.prems t show ?case
    by (simp add: extends_trans [of s "activate_constraint s c"])
qed simp

lemma activate_edge_weighs:
  assumes "activate_edge s e = Inr s'" and "set (edge_ends e) \<subseteq> mentioned tr"
  shows "weighs tr s' = weighs tr s \<and> extends s s'"
  using assms add_members_weighs [of "edge_ends e" tr _ "s\<lparr>rs_edges := (ge_source e, ge_target e) # rs_edges s\<rparr>"]
  by (auto simp: activate_edge_def weighs_def unseen_def extends_def split: if_splits)

lemma visit_weighs:
  assumes "visit tr s i = Inr s'"
  shows "weighs tr s' = weighs tr s" and "extends s s'"
proof -
  let ?t = "foldl activate_constraint s (bucket (tr_constraints tr) i)"
  have t: "weighs tr ?t = weighs tr s \<and> extends s ?t"
    by (rule activate_constraints_weighs) (auto dest: bucket_mentioned)
  have step: "weighs tr u' = weighs tr s \<and> extends s u'"
    if u: "weighs tr u = weighs tr s \<and> extends s u" and e: "e \<in> set (bucket (tr_coupled tr) i)"
      and u': "activate_edge u e = Inr u'" for u e u'
    using activate_edge_weighs [OF u' bucket_mentioned(2) [OF e]] u extends_trans by auto
  have "weighs tr s' = weighs tr s \<and> extends s s'"
    by (rule foldM_r_invariant [where P = "\<lambda>u. weighs tr u = weighs tr s \<and> extends s u",
            OF assms [unfolded visit_def] t step])
  then show "weighs tr s' = weighs tr s" and "extends s s'" by simp_all
qed

termination resolve_loop
proof (relation "measure (\<lambda>(tr, s, cursor). weighs tr s - cursor)", goal_cases)
  case (2 tr s cursor s')
  then show ?case using visit_weighs(1) [of tr s _ s'] by (auto simp: weighs_def)
qed simp

declare resolve_loop.simps [simp del]

section \<open>Resolving a request\<close>

definition requested_reason :: "component_id \<Rightarrow> target_error + (component_id \<times> pystr list)" where
  "requested_reason t = rbind (target_text t) (\<lambda>s. Inr (t, [lit ''requested:'' @ s]))"

definition raise_missing :: "component_id list \<Rightarrow> target_error + unit" where
  "raise_missing missing =
     (if missing = [] then Inr ()
      else rbind (mapM_r target_text missing) (\<lambda>texts.
           Inl (TargetResolution (lit ''requested mutation targets are absent from the component graph: ''
                  @ join_text (lit '', '') texts))))"

text \<open>\<open>dict\<close> of the comprehension: a later entry for the same key replaces the earlier one.\<close>

definition start_resolution :: "mutation_request \<Rightarrow> target_error + resolution" where
  "start_resolution q =
     rbind (mapM_r requested_reason (mr_targets q)) (\<lambda>entries.
     Inr \<lparr>rs_closure = remdups (mr_targets q),
          rs_reasons = foldl (\<lambda>d (k, v). AList.update k v d) [] entries,
          rs_constraints = [], rs_edges = [], rs_pending = mr_targets q\<rparr>)"

definition resolved_target_of :: "mutation_request \<Rightarrow> resolution \<Rightarrow> component_id \<Rightarrow> target_error + resolved_target" where
  "resolved_target_of q s i =
     resolved_target_init \<lparr>rt_component = i, rt_requested = (i \<in> set (mr_targets q)),
       rt_reasons = sort (bucket (rs_reasons s) i)\<rparr>"

definition resolve :: "target_resolver \<Rightarrow> mutation_request \<Rightarrow> target_error + resolved_targets" where
  "resolve tr q =
     rbind (target_sorted (filter (\<lambda>i. i \<notin> tr_known tr) (remdups (mr_targets q)))) (\<lambda>missing.
     rbind (raise_missing missing) (\<lambda>_.
     rbind (start_resolution q) (\<lambda>s.
     rbind (resolve_loop tr s 0) (\<lambda>s.
     rbind (target_sorted (rs_closure s)) (\<lambda>closure.
     rbind (mapM_r (resolved_target_of q s) closure) (\<lambda>targets.
     resolved_targets_init \<lparr>rr_request = q, rr_targets = targets,
       rr_constraint_ids = sort (rs_constraints s)\<rparr>))))))"

definition resolve_mutation_targets ::
  "(graph_primitive \<Rightarrow> pystr) \<Rightarrow> mutation_request \<Rightarrow> component_graph \<Rightarrow> target_error + resolved_targets" where
  "resolve_mutation_targets repr q g = rbind (resolver_init repr g) (\<lambda>tr. resolve tr q)"

section \<open>The indexes hold exactly the records that mention a component\<close>

lemma bucket_update [simp]: "bucket (AList.update k vs d) j = (if j = k then vs else bucket d j)"
  by (simp add: bucket_def update_conv')

lemma push_buckets: "set (bucket (foldl (push_bucket v) d ks) k) = set (bucket d k) \<union> (if k \<in> set ks then {v} else {})"
  by (induction ks arbitrary: d) (auto simp: push_bucket_def)

lemma set_index_by: "set (bucket (index_by keys vs) k) = {v \<in> set vs. k \<in> set (keys v)}"
proof -
  have "set (bucket (foldl (\<lambda>d v. foldl (push_bucket v) d (keys v)) d vs) k)
      = set (bucket d k) \<union> {v \<in> set vs. k \<in> set (keys v)}" for d
    by (induction vs arbitrary: d) (auto simp: push_buckets)
  then show ?thesis by (simp add: index_by_def bucket_def)
qed

section \<open>What the worklist keeps\<close>

text \<open>Two components are linked when a constraint or a coupled edge mentions both.\<close>

definition linked :: "component_graph \<Rightarrow> (component_id \<times> component_id) set" where
  "linked g = {(a, b). (\<exists>c \<in> set (cg_constraints g). a \<in> set (mc_members c) \<and> b \<in> set (mc_members c))
     \<or> (\<exists>e \<in> set (cg_edges g). ge_kind e = COUPLED \<and> a \<in> set (edge_ends e) \<and> b \<in> set (edge_ends e))}"

definition requested_text :: "component_id \<Rightarrow> pystr" where
  "requested_text i = lit ''requested:'' @ id_key i"

definition coupled_text :: "component_id \<times> component_id \<Rightarrow> pystr" where
  "coupled_text k = lit ''coupled:'' @ id_key (fst k) @ lit '':'' @ id_key (snd k)"

text \<open>The reasons of a component, given the constraints and the coupled pairs in force.\<close>

definition reasons_of ::
  "component_id list \<Rightarrow> mutation_constraint set \<Rightarrow> (component_id \<times> component_id) set \<Rightarrow> component_id \<Rightarrow> pystr set" where
  "reasons_of ts cs es i = requested_text ` ({i} \<inter> set ts)
     \<union> constraint_reason ` {c \<in> cs. i \<in> set (mc_members c)}
     \<union> coupled_text ` {k \<in> es. i = fst k \<or> i = snd k}"

definition active_constraints :: "component_graph \<Rightarrow> resolution \<Rightarrow> mutation_constraint set" where
  "active_constraints g s = {c \<in> set (cg_constraints g). mc_id c \<in> set (rs_constraints s)}"

definition coupled_pairs :: "component_graph \<Rightarrow> (component_id \<times> component_id) set" where
  "coupled_pairs g = {(ge_source e, ge_target e) | e. e \<in> set (cg_edges g) \<and> ge_kind e = COUPLED}"

definition closure_ok :: "component_graph \<Rightarrow> component_id list \<Rightarrow> resolution \<Rightarrow> bool" where
  "closure_ok g ts s \<longleftrightarrow> distinct (rs_closure s) \<and> set (rs_closure s) = set (rs_pending s)
     \<and> set ts \<subseteq> set (rs_closure s) \<and> set (rs_closure s) \<subseteq> (linked g)\<^sup>* `` set ts"

definition active_ok :: "component_graph \<Rightarrow> resolution \<Rightarrow> bool" where
  "active_ok g s \<longleftrightarrow> distinct (rs_constraints s) \<and> set (rs_constraints s) \<subseteq> mc_id ` set (cg_constraints g)
     \<and> set (rs_edges s) \<subseteq> coupled_pairs g
     \<and> (\<forall>c \<in> active_constraints g s. mc_members c \<noteq> [] \<and> set (mc_members c) \<subseteq> set (rs_closure s))
     \<and> (\<forall>k \<in> set (rs_edges s). fst k \<in> set (rs_closure s) \<and> snd k \<in> set (rs_closure s))"

definition reasons_ok :: "component_graph \<Rightarrow> component_id list \<Rightarrow> resolution \<Rightarrow> bool" where
  "reasons_ok g ts s \<longleftrightarrow> (\<forall>i. distinct (bucket (rs_reasons s) i)
     \<and> set (bucket (rs_reasons s) i) = reasons_of ts (active_constraints g s) (set (rs_edges s)) i)"

text \<open>What adding the members of one constraint or edge does.\<close>

lemma add_member_simps [simp]:
  "set (rs_closure (add_member r s m)) = insert m (set (rs_closure s))"
  "rs_constraints (add_member r s m) = rs_constraints s"
  "rs_edges (add_member r s m) = rs_edges s"
  "bucket (rs_reasons (add_member r s m)) i
     = (if i = m then List.insert r (bucket (rs_reasons s) m) else bucket (rs_reasons s) i)"
  by (auto simp: add_member_def Let_def)

lemma add_member_closure:
  "distinct (rs_closure s) \<and> set (rs_closure s) = set (rs_pending s) \<Longrightarrow>
     distinct (rs_closure (add_member r s m)) \<and> set (rs_closure (add_member r s m)) = set (rs_pending (add_member r s m))"
  by (auto simp: add_member_def Let_def)

lemma add_members_simps [simp]:
  "set (rs_closure (foldl (add_member r) s ms)) = set ms \<union> set (rs_closure s)"
  "rs_constraints (foldl (add_member r) s ms) = rs_constraints s"
  "rs_edges (foldl (add_member r) s ms) = rs_edges s"
  "set (bucket (rs_reasons (foldl (add_member r) s ms)) i)
     = set (bucket (rs_reasons s) i) \<union> (if i \<in> set ms then {r} else {})"
  by (induction ms arbitrary: s) auto

lemma add_members_distinct:
  "\<forall>i. distinct (bucket (rs_reasons s) i) \<Longrightarrow> distinct (bucket (rs_reasons (foldl (add_member r) s ms)) i)"
  by (induction ms arbitrary: s) simp_all

lemma add_members_closure:
  "distinct (rs_closure s) \<and> set (rs_closure s) = set (rs_pending s) \<Longrightarrow>
     distinct (rs_closure (foldl (add_member r) s ms))
     \<and> set (rs_closure (foldl (add_member r) s ms)) = set (rs_pending (foldl (add_member r) s ms))"
  by (induction ms arbitrary: s) (simp_all add: add_member_closure del: add_member_simps)

definition sound_resolution :: "component_graph \<Rightarrow> component_id list \<Rightarrow> resolution \<Rightarrow> bool" where
  "sound_resolution g ts s \<longleftrightarrow> closure_ok g ts s \<and> active_ok g s \<and> reasons_ok g ts s"

text \<open>\<open>marked s s'\<close>: the bookkeeping of activated records may differ, the closure and the reasons do not.\<close>

lemma add_linked_members:
  assumes "closure_ok g ts s" and "rs_closure s' = rs_closure s" and "rs_pending s' = rs_pending s"
    and i: "i \<in> set (rs_closure s)" and ms: "\<And>m. m \<in> set ms \<Longrightarrow> (i, m) \<in> linked g"
  shows "closure_ok g ts (foldl (add_member r) s' ms)"
proof -
  have "distinct (rs_closure s') \<and> set (rs_closure s') = set (rs_pending s')"
    using assms(1-3) by (simp add: closure_ok_def)
  note add_members_closure [OF this, of r ms]
  moreover obtain t where "t \<in> set ts" "(t, i) \<in> (linked g)\<^sup>*"
    using i assms(1) unfolding closure_ok_def by blast
  then have "set ms \<subseteq> (linked g)\<^sup>* `` set ts" using ms by (auto intro: rtrancl_into_rtrancl)
  moreover have "set (rs_closure (foldl (add_member r) s' ms)) = set ms \<union> set (rs_closure s)"
    by (simp add: assms(2))
  ultimately show ?thesis using assms(1) unfolding closure_ok_def by blast
qed

lemma activate_constraint_sound:
  assumes sound: "sound_resolution g ts s" and c: "c \<in> set (cg_constraints g)" "i \<in> set (mc_members c)"
    and i: "i \<in> set (rs_closure s)" and ids: "inj_on mc_id (set (cg_constraints g))"
  shows "sound_resolution g ts (activate_constraint s c)" and "mc_id c \<in> set (rs_constraints (activate_constraint s c))"
proof -
  let ?s = "s\<lparr>rs_constraints := mc_id c # rs_constraints s\<rparr>"
  show "mc_id c \<in> set (rs_constraints (activate_constraint s c))" by (simp add: activate_constraint_def)
  show "sound_resolution g ts (activate_constraint s c)"
  proof (cases "mc_id c \<in> set (rs_constraints s)")
    case False
    let ?t = "foldl (add_member (constraint_reason c)) ?s (mc_members c)"
    have active: "active_constraints g ?t = insert c (active_constraints g s)"
      using c(1) ids by (auto simp: active_constraints_def inj_on_def)
    have "closure_ok g ts ?t"
      by (rule add_linked_members [where s = s and i = i]) (use sound i c in \<open>auto simp: sound_resolution_def linked_def\<close>)
    moreover have "active_ok g ?t"
      using sound False c unfolding sound_resolution_def active_ok_def active by auto
    moreover have "reasons_ok g ts ?t"
      using sound add_members_distinct [of ?s "constraint_reason c" "mc_members c"]
      unfolding sound_resolution_def reasons_ok_def active by (auto simp: reasons_of_def)
    ultimately show ?thesis using False by (simp add: activate_constraint_def sound_resolution_def)
  qed (use sound in \<open>simp add: activate_constraint_def\<close>)
qed

lemma target_text_Inr: "target_text i = Inr s \<longleftrightarrow> printable i \<and> s = id_key i"
  by (auto simp: target_text_def graph_id_text_def printable_def id_key_def split: sum.splits)

lemma activate_edge_sound:
  assumes sound: "sound_resolution g ts s" and e: "e \<in> set (cg_edges g)" "ge_kind e = COUPLED" "i \<in> set (edge_ends e)"
    and i: "i \<in> set (rs_closure s)" and s': "activate_edge s e = Inr s'"
  shows "sound_resolution g ts s'" and "(ge_source e, ge_target e) \<in> set (rs_edges s')"
proof -
  let ?k = "(ge_source e, ge_target e)"
  let ?s = "s\<lparr>rs_edges := ?k # rs_edges s\<rparr>" and ?r = "coupled_text ?k"
  let ?t = "foldl (add_member ?r) ?s (edge_ends e)"
  have "sound_resolution g ts s' \<and> ?k \<in> set (rs_edges s')"
  proof (cases "?k \<in> set (rs_edges s)")
    case False
    with s' have t: "s' = ?t" by (auto simp: activate_edge_def edge_reason_def target_text_Inr coupled_text_def)
    have active: "active_constraints g ?t = active_constraints g s" by (simp add: active_constraints_def)
    have "closure_ok g ts ?t"
      by (rule add_linked_members [where s = s and i = i]) (use sound i e in \<open>auto simp: sound_resolution_def linked_def\<close>)
    moreover have "active_ok g ?t"
      using sound e unfolding sound_resolution_def active_ok_def active
      by (auto simp: edge_ends_def coupled_pairs_def)
    moreover have "reasons_ok g ts ?t"
      using sound add_members_distinct [of ?s ?r "edge_ends e"]
      unfolding sound_resolution_def reasons_ok_def active by (auto simp: reasons_of_def edge_ends_def)
    ultimately show ?thesis by (simp add: t sound_resolution_def)
  qed (use sound s' in \<open>simp add: activate_edge_def\<close>)
  then show "sound_resolution g ts s'" and "?k \<in> set (rs_edges s')" by simp_all
qed

text \<open>A component is processed when every constraint and coupled edge that mentions it is activated.\<close>

definition processed :: "component_graph \<Rightarrow> resolution \<Rightarrow> component_id \<Rightarrow> bool" where
  "processed g s i \<longleftrightarrow> (\<forall>c \<in> set (cg_constraints g). i \<in> set (mc_members c) \<longrightarrow> mc_id c \<in> set (rs_constraints s))
     \<and> (\<forall>k \<in> coupled_pairs g. i = fst k \<or> i = snd k \<longrightarrow> k \<in> set (rs_edges s))"

definition grows :: "resolution \<Rightarrow> resolution \<Rightarrow> bool" where
  "grows s s' \<longleftrightarrow> set (rs_closure s) \<subseteq> set (rs_closure s') \<and> set (rs_constraints s) \<subseteq> set (rs_constraints s')
     \<and> set (rs_edges s) \<subseteq> set (rs_edges s')"

lemma grows_same [simp]: "grows s s"
  by (simp add: grows_def)

lemma grows_through: "grows s t \<Longrightarrow> grows t u \<Longrightarrow> grows s u"
  by (auto simp: grows_def)

lemma activate_constraint_grows: "grows s (activate_constraint s c)"
  by (auto simp: grows_def activate_constraint_def)

lemma activate_edge_grows: "activate_edge s e = Inr s' \<Longrightarrow> grows s s'"
  by (auto simp: grows_def activate_edge_def split: if_splits)

lemma processed_grows: "processed g s i \<Longrightarrow> grows s s' \<Longrightarrow> processed g s' i"
  unfolding processed_def grows_def by blast

lemma activate_constraints_sound:
  assumes "sound_resolution g ts s" and "i \<in> set (rs_closure s)" and ids: "inj_on mc_id (set (cg_constraints g))"
    and "\<forall>c \<in> set cs. c \<in> set (cg_constraints g) \<and> i \<in> set (mc_members c)"
  shows "sound_resolution g ts (foldl activate_constraint s cs) \<and> grows s (foldl activate_constraint s cs)
    \<and> mc_id ` set cs \<subseteq> set (rs_constraints (foldl activate_constraint s cs))"
  using assms(1,2,4)
proof (induction cs arbitrary: s)
  case (Cons c cs)
  let ?t = "activate_constraint s c"
  have c: "c \<in> set (cg_constraints g)" "i \<in> set (mc_members c)" using Cons.prems(3) by simp_all
  have t: "sound_resolution g ts ?t" "mc_id c \<in> set (rs_constraints ?t)"
    by (rule activate_constraint_sound [OF Cons.prems(1) c Cons.prems(2) ids])+
  have "i \<in> set (rs_closure ?t)" using Cons.prems(2) activate_constraint_grows [of s c] by (auto simp: grows_def)
  from Cons.IH [OF t(1) this] Cons.prems(3) t(2) activate_constraint_grows [of s c] show ?case
    by (auto simp: grows_def)
qed simp

lemma activate_edges_sound:
  assumes "foldM_r activate_edge s es = Inr s'" and "sound_resolution g ts s" and "i \<in> set (rs_closure s)"
    and "\<forall>e \<in> set es. e \<in> set (cg_edges g) \<and> ge_kind e = COUPLED \<and> i \<in> set (edge_ends e)"
  shows "sound_resolution g ts s' \<and> grows s s' \<and> (\<lambda>e. (ge_source e, ge_target e)) ` set es \<subseteq> set (rs_edges s')"
  using assms
proof (induction es arbitrary: s)
  case (Cons e es)
  from Cons.prems(1) obtain t where t: "activate_edge s e = Inr t" "foldM_r activate_edge t es = Inr s'" by auto
  have e: "e \<in> set (cg_edges g)" "ge_kind e = COUPLED" "i \<in> set (edge_ends e)" using Cons.prems(4) by simp_all
  note step = activate_edge_sound [OF Cons.prems(2) e Cons.prems(3) t(1)] activate_edge_grows [OF t(1)]
  then have "i \<in> set (rs_closure t)" using Cons.prems(3) by (auto simp: grows_def)
  from Cons.IH [OF t(2) step(1) this] Cons.prems(4) step(2,3) show ?case by (auto simp: grows_def)
qed simp

text \<open>The indexes a resolver holds for a graph.\<close>

definition indexes :: "component_graph \<Rightarrow> target_resolver \<Rightarrow> bool" where
  "indexes g tr \<longleftrightarrow> (\<forall>i. set (bucket (tr_constraints tr) i) = {c \<in> set (cg_constraints g). i \<in> set (mc_members c)}
     \<and> set (bucket (tr_coupled tr) i) = {e \<in> set (cg_edges g). ge_kind e = COUPLED \<and> i \<in> set (edge_ends e)})"

lemma visit_sound:
  assumes "indexes g tr" and "sound_resolution g ts s" and i: "i \<in> set (rs_closure s)"
    and ids: "inj_on mc_id (set (cg_constraints g))" and v: "visit tr s i = Inr s'"
  shows "sound_resolution g ts s'" and "grows s s'" and "processed g s' i"
proof -
  let ?t = "foldl activate_constraint s (bucket (tr_constraints tr) i)"
  have t: "sound_resolution g ts ?t" "grows s ?t"
    "mc_id ` {c \<in> set (cg_constraints g). i \<in> set (mc_members c)} \<subseteq> set (rs_constraints ?t)"
    using activate_constraints_sound [OF assms(2) i ids, of "bucket (tr_constraints tr) i"] assms(1)
    by (auto simp: indexes_def)
  have "i \<in> set (rs_closure ?t)" using t(2) i by (auto simp: grows_def)
  from activate_edges_sound [OF v [unfolded visit_def] t(1) this]
  have s': "sound_resolution g ts s'" "grows ?t s'"
    "(\<lambda>e. (ge_source e, ge_target e)) ` {e \<in> set (cg_edges g). ge_kind e = COUPLED \<and> i \<in> set (edge_ends e)}
       \<subseteq> set (rs_edges s')"
    using assms(1) by (simp_all add: indexes_def)
  show "sound_resolution g ts s'" by (rule s'(1))
  show "grows s s'" by (rule grows_through [OF t(2) s'(2)])
  have "mc_id c \<in> set (rs_constraints s')" if "c \<in> set (cg_constraints g)" "i \<in> set (mc_members c)" for c
    using t(3) s'(2) that unfolding grows_def by blast
  moreover have "k \<in> set (rs_edges s')" if "k \<in> coupled_pairs g" "i = fst k \<or> i = snd k" for k
    using s'(3) that by (auto simp: coupled_pairs_def edge_ends_def)
  ultimately show "processed g s' i" by (simp add: processed_def)
qed

lemma resolve_loop_sound:
  assumes "resolve_loop tr s cursor = Inr s'" and "indexes g tr" and "inj_on mc_id (set (cg_constraints g))"
    and "sound_resolution g ts s" and "\<forall>i \<in> set (take cursor (rs_pending s)). processed g s i"
  shows "sound_resolution g ts s' \<and> (\<forall>i \<in> set (rs_closure s'). processed g s' i)"
  using assms(1,2,4,5)
proof (induction tr s cursor rule: resolve_loop.induct)
  case (1 tr s cursor)
  note ix = 1(3) and sound = 1(4) and before = 1(5)
  show ?case
  proof (cases "cursor < length (rs_pending s)")
    case True
    let ?i = "rs_pending s ! cursor"
    from 1(2) True obtain t where t: "visit tr s ?i = Inr t" "resolve_loop tr t (Suc cursor) = Inr s'"
      by (auto simp: resolve_loop.simps [of tr s])
    have "?i \<in> set (rs_closure s)"
      using sound True by (simp add: sound_resolution_def closure_ok_def)
    note v = visit_sound [OF ix sound this assms(3) t(1)]
    obtain new where new: "rs_pending t = rs_pending s @ new"
      using visit_weighs(2) [OF t(1)] by (auto simp: extends_def)
    have "processed g t i" if "i \<in> set (take (Suc cursor) (rs_pending t))" for i
    proof -
      have "i \<in> set (take cursor (rs_pending s)) \<or> i = ?i"
        using that True by (auto simp: new take_Suc_conv_app_nth)
      then show ?thesis using before v(3) processed_grows [OF _ v(2)] by blast
    qed
    then show ?thesis using 1(1) [OF True t(1) t(2) ix v(1)] by blast
  next
    case False
    then have s': "s' = s" using 1(2) by (simp add: resolve_loop.simps [of tr s])
    have "set (rs_closure s) = set (rs_pending s)" using sound by (simp add: sound_resolution_def closure_ok_def)
    with False before have "\<forall>i \<in> set (rs_closure s). processed g s i" by simp
    with sound show ?thesis unfolding s' by blast
  qed
qed

text \<open>With printable endpoints no step of the loop raises.\<close>

lemma activate_edge_total: "printable (ge_source e) \<Longrightarrow> printable (ge_target e) \<Longrightarrow> \<exists>s'. activate_edge s e = Inr s'"
  by (auto simp: activate_edge_def edge_reason_def rbind_Inr_iff target_text_Inr)

lemma visit_total:
  assumes "indexes g tr" and "edges_printable (cg_edges g)"
  shows "\<exists>s'. visit tr s i = Inr s'"
proof -
  have "\<exists>s'. foldM_r activate_edge s es = Inr s'"
    if "\<forall>e \<in> set es. printable (ge_source e) \<and> printable (ge_target e)" for s es
    using that
  proof (induction es arbitrary: s)
    case (Cons e es)
    then obtain t where "activate_edge s e = Inr t" using activate_edge_total [of e s] by auto
    with Cons show ?case by simp
  qed simp
  with assms show ?thesis by (simp add: visit_def indexes_def edges_printable_def list_all_iff)
qed

lemma resolve_loop_total:
  assumes "indexes g tr" and "edges_printable (cg_edges g)"
  shows "\<exists>s'. resolve_loop tr s cursor = Inr s'"
  using assms(1)
proof (induction tr s cursor rule: resolve_loop.induct)
  case (1 tr s cursor)
  obtain t where "visit tr s (rs_pending s ! cursor) = Inr t" using visit_total [OF 1(2) assms(2)] by blast
  with 1 show ?case by (cases "cursor < length (rs_pending s)") (simp_all add: resolve_loop.simps [of tr s])
qed

section \<open>The start and the result\<close>

lemma start_reasons:
  "bucket (foldl (\<lambda>d (k, v). AList.update k v d) d (map (\<lambda>t. (t, [requested_text t])) ts)) i
     = (if i \<in> set ts then [requested_text i] else bucket d i)"
  by (induction ts arbitrary: d) auto

lemma start_sound:
  assumes "list_all printable (mr_targets q)"
  obtains s where "start_resolution q = Inr s" and "sound_resolution g (mr_targets q) s"
proof -
  let ?ts = "mr_targets q"
  have "mapM_r requested_reason ?ts = Inr (map (\<lambda>t. (t, [requested_text t])) ?ts)"
    using assms by (auto simp: mapM_r_Inr_iff list_all2_conv_all_nth list_all_length requested_reason_def
        rbind_Inr_iff target_text_Inr requested_text_def)
  moreover define s where "s = \<lparr>rs_closure = remdups ?ts,
    rs_reasons = foldl (\<lambda>d (k, v). AList.update k v d) [] (map (\<lambda>t. (t, [requested_text t])) ?ts),
    rs_constraints = [], rs_edges = [], rs_pending = ?ts\<rparr>"
  ultimately have s: "start_resolution q = Inr s" "rs_closure s = remdups ?ts" "rs_pending s = ?ts"
    "rs_constraints s = []" "rs_edges s = []"
    "rs_reasons s = foldl (\<lambda>d (k, v). AList.update k v d) [] (map (\<lambda>t. (t, [requested_text t])) ?ts)"
    by (simp_all add: start_resolution_def)
  have "bucket (rs_reasons s) i = (if i \<in> set ?ts then [requested_text i] else [])" for i
    unfolding s(6) start_reasons by (simp add: bucket_def)
  moreover have "closure_ok g ?ts s" using s(2,3) by (auto simp: closure_ok_def)
  ultimately have "sound_resolution g ?ts s"
    using s(4,5) by (auto simp: sound_resolution_def active_ok_def reasons_ok_def reasons_of_def active_constraints_def)
  with s(1) show ?thesis by (rule that)
qed

lemma canonical_sorted: "distinct xs \<Longrightarrow> canonical_texts (sort xs) = sort xs"
  by (simp add: canonical_texts_def distinct_remdups_id sorted_sort_id)

text \<open>What the loop ends with: the closure, and the constraints and edges that touch it.\<close>

lemma processed_closure:
  assumes "sound_resolution g ts s" and all: "\<forall>i \<in> set (rs_closure s). processed g s i"
  shows "set (rs_closure s) = (linked g)\<^sup>* `` set ts"
proof
  show "set (rs_closure s) \<subseteq> (linked g)\<^sup>* `` set ts" using assms(1) unfolding sound_resolution_def closure_ok_def by blast
  have ok: "active_ok g s" "set ts \<subseteq> set (rs_closure s)" using assms(1) unfolding sound_resolution_def closure_ok_def by blast+
  have step: "j \<in> set (rs_closure s)" if "i \<in> set (rs_closure s)" "(i, j) \<in> linked g" for i j
  proof -
    have pi: "processed g s i" using all that(1) by blast
    from that(2) consider
        (c) c where "c \<in> set (cg_constraints g)" "i \<in> set (mc_members c)" "j \<in> set (mc_members c)"
      | (e) e where "e \<in> set (cg_edges g)" "ge_kind e = COUPLED" "i \<in> set (edge_ends e)" "j \<in> set (edge_ends e)"
      unfolding linked_def by blast
    then show ?thesis
    proof cases
      case c
      then have "c \<in> active_constraints g s" using pi by (simp add: processed_def active_constraints_def)
      then show ?thesis using ok(1) c(3) unfolding active_ok_def by blast
    next
      case e
      then have "(ge_source e, ge_target e) \<in> set (rs_edges s)"
        using pi by (auto simp: processed_def coupled_pairs_def edge_ends_def)
      then show ?thesis using ok(1) e(4) unfolding active_ok_def by (auto simp: edge_ends_def)
    qed
  qed
  have "j \<in> set (rs_closure s)" if "(i, j) \<in> (linked g)\<^sup>*" "i \<in> set ts" for i j
    using that by (induction rule: rtrancl_induct) (use ok(2) step in blast)+
  then show "(linked g)\<^sup>* `` set ts \<subseteq> set (rs_closure s)" by blast
qed

lemma processed_reasons:
  assumes "sound_resolution g ts s" and "\<forall>i \<in> set (rs_closure s). processed g s i" and i: "i \<in> set (rs_closure s)"
  shows "set (bucket (rs_reasons s) i) = reasons_of ts (set (cg_constraints g)) (coupled_pairs g) i"
    and "bucket (rs_reasons s) i \<noteq> []"
proof -
  have pi: "processed g s i" using assms(2) i by blast
  have ok: "active_ok g s" "reasons_ok g ts s" using assms(1) by (simp_all add: sound_resolution_def)
  have "{c \<in> active_constraints g s. i \<in> set (mc_members c)} = {c \<in> set (cg_constraints g). i \<in> set (mc_members c)}"
    using pi by (auto simp: processed_def active_constraints_def)
  moreover have "{k \<in> set (rs_edges s). i = fst k \<or> i = snd k} = {k \<in> coupled_pairs g. i = fst k \<or> i = snd k}"
    using pi ok(1) unfolding processed_def active_ok_def by blast
  ultimately show eq: "set (bucket (rs_reasons s) i) = reasons_of ts (set (cg_constraints g)) (coupled_pairs g) i"
    using ok(2) unfolding reasons_ok_def reasons_of_def by simp
  obtain t where t: "t \<in> set ts" "(t, i) \<in> (linked g)\<^sup>*"
    using i assms(1) unfolding sound_resolution_def closure_ok_def by blast
  have "reasons_of ts (set (cg_constraints g)) (coupled_pairs g) i \<noteq> {}"
    using t(2)
  proof cases
    case base
    with t(1) show ?thesis by (auto simp: reasons_of_def)
  next
    case (step j)
    then show ?thesis unfolding linked_def reasons_of_def coupled_pairs_def edge_ends_def by fastforce
  qed
  with eq show "bucket (rs_reasons s) i \<noteq> []" by auto
qed

lemma processed_constraints:
  assumes "sound_resolution g ts s" and "\<forall>i \<in> set (rs_closure s). processed g s i"
  shows "set (rs_constraints s)
    = mc_id ` {c \<in> set (cg_constraints g). set (mc_members c) \<inter> set (rs_closure s) \<noteq> {}}"
proof -
  have ok: "active_ok g s" using assms(1) by (simp add: sound_resolution_def)
  have "\<exists>m. m \<in> set (mc_members c) \<inter> set (rs_closure s)" if "c \<in> active_constraints g s" for c
    using ok that unfolding active_ok_def by (metis Int_iff hd_in_set subsetD)
  moreover have "c \<in> active_constraints g s"
    if "c \<in> set (cg_constraints g)" "set (mc_members c) \<inter> set (rs_closure s) \<noteq> {}" for c
    using that assms(2) unfolding processed_def active_constraints_def by blast
  moreover have "c \<in> set (cg_constraints g)" if "c \<in> active_constraints g s" for c
    using that by (simp add: active_constraints_def)
  ultimately have "active_constraints g s = {c \<in> set (cg_constraints g). set (mc_members c) \<inter> set (rs_closure s) \<noteq> {}}"
    by (intro set_eqI iffI CollectI conjI) auto
  moreover have "set (rs_constraints s) = mc_id ` active_constraints g s"
    using ok unfolding active_ok_def active_constraints_def by auto
  ultimately show ?thesis by simp
qed

section \<open>The specification\<close>

text \<open>The complete and exact resolution of a request.\<close>

definition exact_resolution :: "component_graph \<Rightarrow> mutation_request \<Rightarrow> resolved_targets \<Rightarrow> bool" where
  "exact_resolution g q r \<longleftrightarrow> rr_request r = q
     \<and> set (affected_components r) = (linked g)\<^sup>* `` set (mr_targets q)
     \<and> distinct (affected_components r) \<and> sorted (map id_key (affected_components r))
     \<and> set (affected_components r) \<subseteq> gn_id ` set (cg_nodes g)
     \<and> (\<forall>t \<in> set (rr_targets r). (rt_requested t \<longleftrightarrow> rt_component t \<in> set (mr_targets q))
          \<and> set (rt_reasons t) = reasons_of (mr_targets q) (set (cg_constraints g)) (coupled_pairs g) (rt_component t))
     \<and> set (rr_constraint_ids r)
          = mc_id ` {c \<in> set (cg_constraints g). set (mc_members c) \<inter> set (affected_components r) \<noteq> {}}"

lemma target_sorted_total: "list_all printable is' \<Longrightarrow> target_sorted is' = Inr (sort_key id_key is')"
  by (simp add: target_sorted_def sorted_ids_total)

lemma closure_within:
  assumes "graph_consistent (cg_nodes g) (cg_edges g) (cg_constraints g)"
    and "set ts \<subseteq> gn_id ` set (cg_nodes g)"
  shows "(linked g)\<^sup>* `` set ts \<subseteq> gn_id ` set (cg_nodes g)"
proof -
  have "j \<in> gn_id ` set (cg_nodes g)" if "(i, j) \<in> linked g" for i j
    using that assms(1) unfolding linked_def graph_consistent_def edge_ends_def by auto
  note step = this
  have "j \<in> gn_id ` set (cg_nodes g)" if "(i, j) \<in> (linked g)\<^sup>*" "i \<in> set ts" for i j
    using that(1) by (cases rule: rtranclE) (use that(2) assms(2) step in blast)+
  then show ?thesis by blast
qed

lemma closure_printable:
  assumes "edges_printable (cg_edges g)" and "list_all (\<lambda>c. list_all printable (mc_members c)) (cg_constraints g)"
    and "list_all printable ts"
  shows "i \<in> (linked g)\<^sup>* `` set ts \<Longrightarrow> printable i"
proof -
  have "printable j" if "(i, j) \<in> linked g" for i j
    using that assms(1,2) unfolding linked_def edges_printable_def edge_ends_def list_all_iff by auto
  note step = this
  have "printable j" if "(i, j) \<in> (linked g)\<^sup>*" "i \<in> set ts" for i j
    using that(1) by (cases rule: rtranclE) (use that(2) assms(3) step in \<open>auto simp: list_all_iff\<close>)
  then show "i \<in> (linked g)\<^sup>* `` set ts \<Longrightarrow> printable i" by blast
qed

text \<open>A resolver exists exactly for a consistent graph.\<close>

definition printable_graph :: "component_graph \<Rightarrow> bool" where
  "printable_graph g \<longleftrightarrow> edges_printable (cg_edges g)
     \<and> list_all (\<lambda>c. list_all printable (mc_members c)) (cg_constraints g)"

lemma resolver_init_exact:
  assumes "printable_graph g"
  shows "if graph_consistent (cg_nodes g) (cg_edges g) (cg_constraints g)
     then \<exists>tr. resolver_init repr g = Inr tr \<and> indexes g tr \<and> tr_known tr = gn_id ` set (cg_nodes g)
     else \<exists>e. resolver_init repr g = Inl e"
proof -
  obtain report where report: "validate_component_graph repr g = Inr report"
    "report_valid report \<longleftrightarrow> graph_consistent (cg_nodes g) (cg_edges g) (cg_constraints g)"
    using validation_total [of "cg_edges g" "cg_constraints g" repr "cg_nodes g"] assms
    by (auto simp: printable_graph_def validate_component_graph_def)
  show ?thesis
  proof (cases "violations report = []")
    case True
    then have "graph_consistent (cg_nodes g) (cg_edges g) (cg_constraints g)" using report(2) by (simp add: report_valid_def)
    with True show ?thesis
      by (auto simp: resolver_init_def report(1) raise_invalid_graph_def raise_for_errors_def indexes_def set_index_by)
  next
    case False
    then have "\<not> graph_consistent (cg_nodes g) (cg_edges g) (cg_constraints g)" using report(2) by (simp add: report_valid_def)
    with False show ?thesis
      by (simp add: resolver_init_def report(1) raise_invalid_graph_def raise_for_errors_def)
  qed
qed

lemma raise_missing_Inl: "missing \<noteq> [] \<Longrightarrow> \<exists>e. raise_missing missing = Inl e"
  by (cases "mapM_r target_text missing") (simp_all add: raise_missing_def)

lemma resolve_missing:
  assumes "tr_known tr = K" and "\<not> set (mr_targets q) \<subseteq> K"
  shows "\<exists>e. resolve tr q = Inl e"
proof -
  let ?m = "filter (\<lambda>i. i \<notin> tr_known tr) (remdups (mr_targets q))"
  have ne: "?m \<noteq> []" using assms by (auto simp: filter_empty_conv)
  show ?thesis
  proof (cases "target_sorted ?m")
    case (Inr missing)
    then have "set missing = set ?m" by (auto simp: target_sorted_def dest: sorted_ids_Inr(3))
    with ne have "missing \<noteq> []" by (metis set_empty)
    with Inr raise_missing_Inl [of missing] show ?thesis by (auto simp: resolve_def)
  qed (simp add: resolve_def)
qed

lemma resolve_known:
  assumes g: "printable_graph g" "graph_consistent (cg_nodes g) (cg_edges g) (cg_constraints g)"
    and ids: "inj_on mc_id (set (cg_constraints g))"
    and q: "list_all printable (mr_targets q)" "mr_targets q \<noteq> []" "set (mr_targets q) \<subseteq> tr_known tr"
    and tr: "indexes g tr" "tr_known tr = gn_id ` set (cg_nodes g)"
  shows "\<exists>r. resolve tr q = Inr r \<and> exact_resolution g q r"
proof -
  let ?ts = "mr_targets q"
  obtain s0 where s0: "start_resolution q = Inr s0" "sound_resolution g ?ts s0" using start_sound [OF q(1)] by blast
  obtain s where s: "resolve_loop tr s0 0 = Inr s"
    using resolve_loop_total [OF tr(1)] g(1) unfolding printable_graph_def by blast
  have all: "sound_resolution g ?ts s" "\<forall>i \<in> set (rs_closure s). processed g s i"
    using resolve_loop_sound [OF s tr(1) ids s0(2)] by simp_all
  note closure = processed_closure [OF all]
  have dist: "distinct (rs_closure s)" "distinct (rs_constraints s)" "\<forall>i. distinct (bucket (rs_reasons s) i)"
    using all(1) by (simp_all add: sound_resolution_def closure_ok_def active_ok_def reasons_ok_def)
  define ids where "ids = sort_key id_key (rs_closure s)"
  define target where "target = (\<lambda>i. \<lparr>rt_component = i, rt_requested = (i \<in> set ?ts),
    rt_reasons = sort (bucket (rs_reasons s) i)\<rparr>)"
  define r where "r = \<lparr>rr_request = q, rr_targets = map target ids, rr_constraint_ids = sort (rs_constraints s)\<rparr>"
  have ids: "set ids = (linked g)\<^sup>* `` set ?ts" "distinct ids" "sorted (map id_key ids)" "set ids = set (rs_closure s)"
    using closure dist(1) by (simp_all add: ids_def)
  have printable: "list_all printable ids"
    using closure_printable [of g ?ts] g(1) q(1) ids(1) by (simp add: printable_graph_def list_all_iff)
  have affected: "affected_components r = ids"
    by (simp add: r_def affected_components_def target_def comp_def)
  have fields: "rr_request r = q" "rr_constraint_ids r = sort (rs_constraints s)" by (simp_all add: r_def)
  have sorted: "target_sorted (rs_closure s) = Inr ids" "target_sorted ids = Inr ids"
    using printable ids(4) by (simp_all add: target_sorted_total list_all_iff ids_def sorted_sort_id)
  have "resolved_target_of q s i = Inr (target i)" if "i \<in> set ids" for i
    using processed_reasons(2) [OF all, of i] that ids(4) dist(3)
    by (simp add: resolved_target_of_def resolved_target_init_def target_def canonical_sorted)
  then have targets: "mapM_r (resolved_target_of q s) ids = Inr (map target ids)"
    by (simp add: mapM_r_Inr_iff list_all2_conv_all_nth)
  have subset: "set ?ts \<subseteq> set ids" unfolding ids(1) by blast
  with q(2) have "ids \<noteq> []" by auto
  with subset have "resolved_targets_init r = Inr r"
    using sorted(2) ids(2) dist(2)
    by (simp add: resolved_targets_init_def affected Let_def fields canonical_sorted)
  moreover have "filter (\<lambda>i. i \<notin> tr_known tr) (remdups ?ts) = []" using q(3) by (auto simp: filter_empty_conv)
  ultimately have "resolve tr q = Inr r"
    using s0(1) s sorted(1) targets
    by (simp add: resolve_def raise_missing_def target_sorted_total r_def)
  moreover have "exact_resolution g q r"
    unfolding exact_resolution_def affected
  proof (intro conjI ballI)
    show "set ids \<subseteq> gn_id ` set (cg_nodes g)" unfolding ids(1) by (rule closure_within [OF g(2)]) (use q(3) tr(2) in simp)
    fix t assume "t \<in> set (rr_targets r)"
    then obtain i where i: "t = target i" "i \<in> set (rs_closure s)" using ids(4) by (auto simp: r_def)
    then show "rt_requested t \<longleftrightarrow> rt_component t \<in> set ?ts" by (simp add: target_def)
    show "set (rt_reasons t) = reasons_of ?ts (set (cg_constraints g)) (coupled_pairs g) (rt_component t)"
      using processed_reasons(1) [OF all i(2)] by (simp add: i(1) target_def)
  qed (use ids processed_constraints [OF all] in \<open>simp_all add: r_def\<close>)
  ultimately show ?thesis by blast
qed

text \<open>A success yields the plan of its request, unless the keys of the preconditions are not canonical.\<close>

definition plans_exactly :: "resolved_targets \<Rightarrow> bool" where
  "plans_exactly r \<longleftrightarrow> (\<forall>pcs d. to_plan r pcs d =
     (if sorted (map pc_key pcs) \<and> distinct (map pc_key pcs)
      then Inr \<lparr>mp_request = rr_request r, mp_affected = affected_components r, mp_preconditions = pcs, mp_expected = d\<rparr>
      else Inl (TargetContract (contract_fail ''preconditions must have unique canonical keys''))))"

lemma exact_resolution_plans:
  assumes "exact_resolution g q r" and g: "printable_graph g" and q: "list_all printable (mr_targets q)"
  shows "plans_exactly r"
proof -
  let ?ids = "affected_components r"
  have r: "rr_request r = q" "set ?ids = (linked g)\<^sup>* `` set (mr_targets q)" "distinct ?ids" "sorted (map id_key ?ids)"
    using assms(1) by (simp_all add: exact_resolution_def)
  have "list_all printable ?ids"
    using closure_printable [of g "mr_targets q"] g q r(2) by (simp add: printable_graph_def list_all_iff)
  then have sorted: "contract_sorted_ids ?ids = Inr ?ids"
    using sorted_ids_total [of "\<lambda>i. i" ?ids] r(4) by (simp add: contract_sorted_ids_def sort_key_id_if_sorted)
  have subset: "set (mr_targets q) \<subseteq> set ?ids" unfolding r(2) by blast
  have keys: "ks = sort ks \<longleftrightarrow> sorted ks" for ks :: "pystr list" by (metis sorted_sort sorted_sort_id)
  show ?thesis
    using sorted subset
    by (auto simp: plans_exactly_def to_plan_def mutation_plan_init_def Let_def r(1,3) rbind_raise_if keys)
qed

text \<open>
  C13. Target resolution: for a constructed graph and request with printable components, resolving never
  loops and never fails for another reason than an inconsistent graph or an unknown target. A success is
  complete and exact: the affected components are those reachable from the requested targets through
  shared constraints and coupled edges, once each in canonical order, all of them nodes of the graph; each
  names exactly the request, the constraints and the coupled edges that mention it; and the constraint
  identifiers are those of the constraints the closure touches. Its plan affects exactly these components
  and is refused only for preconditions whose keys are not canonical.
\<close>
theorem target_resolution_exact:
  assumes g: "component_graph_init g = Inr g" and printable: "printable_graph g"
    and q: "mutation_request_init q = Inr q" "list_all printable (mr_targets q)"
  shows "if graph_consistent (cg_nodes g) (cg_edges g) (cg_constraints g) \<and> set (mr_targets q) \<subseteq> gn_id ` set (cg_nodes g)
     then \<exists>r. resolve_mutation_targets repr q g = Inr r \<and> exact_resolution g q r \<and> plans_exactly r
     else \<exists>e. resolve_mutation_targets repr q g = Inl e"
proof (cases "graph_consistent (cg_nodes g) (cg_edges g) (cg_constraints g)")
  case True
  then obtain tr where tr: "resolver_init repr g = Inr tr" "indexes g tr" "tr_known tr = gn_id ` set (cg_nodes g)"
    using resolver_init_exact [OF printable, of repr] by auto
  have ids: "inj_on mc_id (set (cg_constraints g))" using g by (simp add: component_graph_init_Inr distinct_map)
  have ne: "mr_targets q \<noteq> []" using q(1) by (auto simp: mutation_request_init_def Let_def rbind_raise_if split: if_splits)
  show ?thesis
  proof (cases "set (mr_targets q) \<subseteq> gn_id ` set (cg_nodes g)")
    case known: True
    then obtain r where "resolve tr q = Inr r" "exact_resolution g q r"
      using resolve_known [OF printable True ids q(2) ne _ tr(2,3)] tr(3) by auto
    with True known exact_resolution_plans [OF _ printable q(2), of r] show ?thesis
      by (auto simp: resolve_mutation_targets_def tr(1))
  qed (use resolve_missing [OF tr(3), of q] True in \<open>simp add: resolve_mutation_targets_def tr(1)\<close>)
next
  case False
  then show ?thesis using resolver_init_exact [OF printable, of repr] by (auto simp: resolve_mutation_targets_def)
qed

text \<open>Three projections: the first is coupled to the second, the second and third share a constraint.\<close>

definition target_demo_id :: "string \<Rightarrow> component_id" where
  "target_demo_id s = ComponentId [Name (lit ''model''), Name (lit s)]"

definition target_demo_edge :: "edge_kind \<Rightarrow> string \<Rightarrow> string \<Rightarrow> attributes \<Rightarrow> graph_edge" where
  "target_demo_edge k a b attrs = \<lparr>ge_source = target_demo_id a, ge_target = target_demo_id b, ge_kind = k,
     ge_version = 1, ge_attributes = attrs\<rparr>"

definition target_demo_graph :: component_graph where
  "target_demo_graph = \<lparr>
     cg_nodes = map (\<lambda>s. \<lparr>gn_id = target_demo_id s, gn_kind = lit ''linear'', gn_attributes = []\<rparr>)
       [''k'', ''q'', ''v'', ''w''],
     cg_edges = [target_demo_edge CONSTRAINED ''q'' ''v'' [(lit ''constraint_id'', PStr (lit ''heads''))],
       target_demo_edge COUPLED ''k'' ''q'' [], target_demo_edge COUPLED ''q'' ''v'' []],
     cg_constraints = [\<lparr>mc_id = lit ''heads'', mc_kind = SAME_HEAD_SET,
       mc_members = [target_demo_id ''q'', target_demo_id ''v''], mc_version = 1, mc_parameters = []\<rparr>],
     cg_version = 1\<rparr>"

definition target_demo_request :: mutation_request where
  "target_demo_request = \<lparr>mr_kind = REMOVE, mr_targets = [target_demo_id ''k''], mr_parameters = [], mr_version = 1\<rparr>"

lemma target_demo_runs:
  "(case resolve_mutation_targets (\<lambda>_. []) target_demo_request target_demo_graph of
      Inl _ \<Rightarrow> False
    | Inr r \<Rightarrow> affected_components r = map target_demo_id [''k'', ''q'', ''v'']
        \<and> rr_constraint_ids r = [lit ''heads'']
        \<and> map rt_reasons (rr_targets r) = map (map lit)
            [[''coupled:model.k:model.q'', ''requested:model.k''],
             [''constraint:heads:same_head_set'', ''coupled:model.k:model.q'', ''coupled:model.q:model.v''],
             [''constraint:heads:same_head_set'', ''coupled:model.q:model.v'']])"
  by code_simp

theorem target_resolution_exact_witness:
  "\<exists>r. resolve_mutation_targets (\<lambda>_. []) target_demo_request target_demo_graph = Inr r
     \<and> exact_resolution target_demo_graph target_demo_request r \<and> plans_exactly r"
proof -
  have "component_graph_init target_demo_graph = Inr target_demo_graph" "printable_graph target_demo_graph"
    "mutation_request_init target_demo_request = Inr target_demo_request"
    "list_all printable (mr_targets target_demo_request)"
    by code_simp+
  from target_resolution_exact [OF this, of "\<lambda>_. []"] target_demo_runs show ?thesis
    by (auto split: if_splits)
qed

end
