(* ===== verification/PyHeap.thy ===== *)
theory PyHeap
  imports Prelude "HOL-Library.Multiset"
begin

text \<open>
  The functions of \<open>heapq\<close> as the source uses them: a list in heap order, \<open>heappush\<close> and \<open>heapreplace\<close> with
  the moves of \<open>_siftdown\<close> and \<open>_siftup\<close>. The interface \<open>min_queue\<close> is what a client relies on; keeping the
  best entries seen so far is proved over it once.
\<close>

section \<open>The list operations\<close>

text \<open>Elements compare by a key. Moving the hole of the original is swapping its item along.\<close>

definition exchange :: "nat \<Rightarrow> nat \<Rightarrow> 'a list \<Rightarrow> 'a list" where
  "exchange i j xs = xs[i := xs ! j, j := xs ! i]"

fun siftdown :: "('a \<Rightarrow> 'k::linorder) \<Rightarrow> 'a list \<Rightarrow> nat \<Rightarrow> 'a list" where
  "siftdown key xs pos =
     (if 0 < pos \<and> key (xs ! pos) < key (xs ! ((pos - 1) div 2))
      then siftdown key (exchange pos ((pos - 1) div 2) xs) ((pos - 1) div 2) else xs)"

declare siftdown.simps [simp del]

definition smaller_child :: "('a \<Rightarrow> 'k::linorder) \<Rightarrow> 'a list \<Rightarrow> nat \<Rightarrow> nat" where
  "smaller_child key xs pos =
     (let c = 2 * pos + 1 in
      if c + 1 < length xs \<and> \<not> key (xs ! c) < key (xs ! (c + 1)) then c + 1 else c)"

lemma length_exchange [simp]: "length (exchange i j xs) = length xs"
  by (simp add: exchange_def)

lemma smaller_child_bounds: "pos < smaller_child key xs pos" "smaller_child key xs pos \<le> 2 * pos + 2"
  "2 * pos + 1 < length xs \<Longrightarrow> smaller_child key xs pos < length xs"
  by (auto simp: smaller_child_def Let_def)

text \<open>The loop of \<open>_siftup\<close> down to a leaf, with the position it ends at.\<close>

function sift_to_leaf :: "('a \<Rightarrow> 'k::linorder) \<Rightarrow> 'a list \<Rightarrow> nat \<Rightarrow> 'a list \<times> nat" where
  "sift_to_leaf key xs pos =
     (if 2 * pos + 1 < length xs
      then sift_to_leaf key (exchange pos (smaller_child key xs pos) xs) (smaller_child key xs pos)
      else (xs, pos))"
  by pat_completeness auto
termination
proof (relation "measure (\<lambda>(_, xs, pos). length xs - pos)", goal_cases)
  case (2 key xs pos)
  then show ?case using smaller_child_bounds(1) [of pos key xs] smaller_child_bounds(3) [of pos xs key] by simp
qed simp

declare sift_to_leaf.simps [simp del]

definition heappush :: "('a \<Rightarrow> 'k::linorder) \<Rightarrow> 'a \<Rightarrow> 'a list \<Rightarrow> 'a list" where
  "heappush key x xs = siftdown key (xs @ [x]) (length xs)"

definition heapreplace :: "('a \<Rightarrow> 'k::linorder) \<Rightarrow> 'a \<Rightarrow> 'a list \<Rightarrow> 'a list" where
  "heapreplace key x xs = (case sift_to_leaf key (xs[0 := x]) 0 of (ys, pos) \<Rightarrow> siftdown key ys pos)"

section \<open>Heap order\<close>

definition heap_at :: "('a \<Rightarrow> 'k::linorder) \<Rightarrow> 'a list \<Rightarrow> nat \<Rightarrow> bool" where
  "heap_at key xs i \<longleftrightarrow> key (xs ! ((i - 1) div 2)) \<le> key (xs ! i)"

definition is_heap :: "('a \<Rightarrow> 'k::linorder) \<Rightarrow> 'a list \<Rightarrow> bool" where
  "is_heap key xs \<longleftrightarrow> (\<forall>i. 0 < i \<and> i < length xs \<longrightarrow> heap_at key xs i)"

text \<open>Heap order but for the item at \<open>pos\<close>, whose parent is below its children.\<close>

definition heap_above :: "('a \<Rightarrow> 'k::linorder) \<Rightarrow> 'a list \<Rightarrow> nat \<Rightarrow> bool" where
  "heap_above key xs pos \<longleftrightarrow> pos < length xs
     \<and> (\<forall>i. 0 < i \<and> i < length xs \<and> i \<noteq> pos \<longrightarrow> heap_at key xs i)
     \<and> (\<forall>i. 0 < i \<and> i < length xs \<and> (i - 1) div 2 = pos \<and> 0 < pos \<longrightarrow> key (xs ! ((pos - 1) div 2)) \<le> key (xs ! i))"

text \<open>Heap order but for the item at \<open>pos\<close> on both sides.\<close>

definition heap_around :: "('a \<Rightarrow> 'k::linorder) \<Rightarrow> 'a list \<Rightarrow> nat \<Rightarrow> bool" where
  "heap_around key xs pos \<longleftrightarrow> pos < length xs
     \<and> (\<forall>i. 0 < i \<and> i < length xs \<and> i \<noteq> pos \<and> (i - 1) div 2 \<noteq> pos \<longrightarrow> heap_at key xs i)
     \<and> (\<forall>i. 0 < i \<and> i < length xs \<and> (i - 1) div 2 = pos \<and> 0 < pos \<longrightarrow> key (xs ! ((pos - 1) div 2)) \<le> key (xs ! i))"

lemma nth_exchange:
  "i < length xs \<Longrightarrow> j < length xs \<Longrightarrow> k < length xs
   \<Longrightarrow> exchange i j xs ! k = (if k = j then xs ! i else if k = i then xs ! j else xs ! k)"
  by (auto simp: exchange_def nth_list_update)

lemma mset_exchange: "i < length xs \<Longrightarrow> j < length xs \<Longrightarrow> mset (exchange i j xs) = mset xs"
  unfolding exchange_def by (rule mset_swap)

lemma siftdown_step:
  assumes h: "heap_above key xs pos" and pos: "0 < pos" and lt: "key (xs ! pos) < key (xs ! ((pos - 1) div 2))"
  shows "heap_above key (exchange pos ((pos - 1) div 2) xs) ((pos - 1) div 2)"
proof -
  define p where "p = (pos - 1) div 2"
  have b: "p < pos" "pos < length xs" using h pos by (auto simp: p_def heap_above_def)
  then have pl: "p < length xs" by simp
  note ex = nth_exchange [OF b(2) pl]
  have p: "(pos - Suc 0) div 2 = p" by (simp add: p_def)
  have order: "key (xs ! ((i - 1) div 2)) \<le> key (xs ! i)" if "0 < i" "i < length xs" "i \<noteq> pos" for i
    using h that by (auto simp: heap_above_def heap_at_def)
  have kids: "key (xs ! p) \<le> key (xs ! i)" if "0 < i" "i < length xs" "(i - 1) div 2 = pos" for i
    using h that pos by (auto simp: heap_above_def p_def)
  have half: "(i - 1) div 2 < length xs" if "i < length xs" for i using that by simp
  have lt': "key (xs ! pos) < key (xs ! p)" using lt by (simp add: p_def)
  have 1: "heap_at key (exchange pos p xs) i" if i: "0 < i" "i < length xs" "i \<noteq> p" for i
  proof (cases "i = pos")
    case True
    then show ?thesis using lt' b pl by (simp add: heap_at_def ex p less_imp_le)
  next
    case False
    show ?thesis
    proof (cases "(i - 1) div 2 = pos")
      case True
      then show ?thesis using kids [of i] i False pl b by (simp add: heap_at_def ex)
    next
      case other: False
      then show ?thesis using order [of i] i False b pl half [of i] lt' by (auto simp: heap_at_def ex)
    qed
  qed
  have 2: "key (exchange pos p xs ! ((p - 1) div 2)) \<le> key (exchange pos p xs ! i)"
    if i: "0 < i" "i < length xs" "(i - 1) div 2 = p" "0 < p" for i
  proof -
    have g: "(p - 1) div 2 < p" using i(4) by linarith
    have "key (xs ! ((p - 1) div 2)) \<le> key (xs ! p)" using order [of p] i(4) b pl by simp
    moreover have "key (xs ! p) \<le> key (xs ! i)" if "i \<noteq> pos" using order [of i] i that by simp
    moreover have "i \<noteq> p" using i by linarith
    ultimately show ?thesis using g b pl i by (auto simp: ex)
  qed
  show ?thesis unfolding heap_above_def p_def [symmetric] length_exchange using 1 2 pl by blast
qed

lemma siftdown_heap:
  assumes "heap_above key xs pos"
  shows "is_heap key (siftdown key xs pos) \<and> mset (siftdown key xs pos) = mset xs"
  using assms
proof (induction key xs pos rule: siftdown.induct)
  case (1 key xs pos)
  show ?case
  proof (cases "0 < pos \<and> key (xs ! pos) < key (xs ! ((pos - 1) div 2))")
    case True
    moreover have "pos < length xs" "(pos - 1) div 2 < length xs" using 1(2) by (auto simp: heap_above_def)
    ultimately show ?thesis
      using 1(1) siftdown_step [OF 1(2)] by (simp add: siftdown.simps [of key xs pos] mset_exchange)
  next
    case False
    then have "is_heap key xs" using 1(2) by (auto simp: is_heap_def heap_above_def heap_at_def not_less)
    moreover have "siftdown key xs pos = xs" unfolding siftdown.simps [of key xs pos] using False by (rule if_not_P)
    ultimately show ?thesis by simp
  qed
qed

lemma sift_step:
  assumes h: "heap_around key xs pos" and c: "2 * pos + 1 < length xs"
  shows "heap_around key (exchange pos (smaller_child key xs pos) xs) (smaller_child key xs pos)"
proof -
  define m where "m = smaller_child key xs pos"
  have m: "m < length xs" "pos < m" "(m - 1) div 2 = pos"
    using c by (auto simp: m_def smaller_child_def Let_def)
  have pl: "pos < length xs" using m by simp
  note ex = nth_exchange [OF pl m(1)]
  have small: "key (xs ! m) \<le> key (xs ! i)" if "0 < i" "i < length xs" "(i - 1) div 2 = pos" for i
  proof -
    have "i = 2 * pos + 1 \<or> i = 2 * pos + 2" using that by linarith
    then show ?thesis using that by (auto simp: m_def smaller_child_def Let_def)
  qed
  have order: "key (xs ! ((i - 1) div 2)) \<le> key (xs ! i)" if "0 < i" "i < length xs" "i \<noteq> pos" "(i - 1) div 2 \<noteq> pos" for i
    using h that by (auto simp: heap_around_def heap_at_def)
  have half: "(i - 1) div 2 < length xs" if "i < length xs" for i using that by simp
  have top: "key (xs ! ((pos - 1) div 2)) \<le> key (xs ! m)" if "0 < pos" using h that m by (auto simp: heap_around_def)
  have 1: "heap_at key (exchange pos m xs) i" if i: "0 < i" "i < length xs" "i \<noteq> m" "(i - 1) div 2 \<noteq> m" for i
  proof (cases "i = pos")
    case True
    then have "(pos - 1) div 2 \<noteq> pos" using i(1) by linarith
    then show ?thesis using top True i half [of i] m by (simp add: heap_at_def ex)
  next
    case False
    then show ?thesis using order [of i] small [of i] i half [of i] m pl by (auto simp: heap_at_def ex)
  qed
  have 2: "key (exchange pos m xs ! ((m - 1) div 2)) \<le> key (exchange pos m xs ! i)"
    if i: "0 < i" "i < length xs" "(i - 1) div 2 = m" for i
  proof -
    have "i \<noteq> pos" "i \<noteq> m" using i m by linarith+
    moreover have "key (xs ! m) \<le> key (xs ! i)" using order [of i] i m \<open>i \<noteq> pos\<close> by simp
    ultimately show ?thesis using i m pl by (simp add: ex)
  qed
  show ?thesis unfolding heap_around_def m_def [symmetric] length_exchange using 1 2 m(1) by blast
qed

lemma sift_to_leaf_heap:
  assumes "heap_around key xs pos" and "sift_to_leaf key xs pos = (ys, q)"
  shows "heap_above key ys q \<and> mset ys = mset xs"
  using assms
proof (induction key xs pos rule: sift_to_leaf.induct)
  case (1 key xs pos)
  show ?case
  proof (cases "2 * pos + 1 < length xs")
    case True
    then have "sift_to_leaf key (exchange pos (smaller_child key xs pos) xs) (smaller_child key xs pos) = (ys, q)"
      using 1(3) by (simp add: sift_to_leaf.simps [of key xs pos])
    with 1(1) [OF True sift_step [OF 1(2) True]] True show ?thesis
      using smaller_child_bounds(3) [OF True, of key] by (simp add: mset_exchange)
  next
    case False
    then have leaf: "ys = xs" "q = pos" using 1(3) by (simp_all add: sift_to_leaf.simps [of key xs pos])
    have "(i - 1) div 2 \<noteq> pos" if "0 < i" "i < length xs" for i using that False by linarith
    with 1(2) leaf show ?thesis by (auto simp: heap_around_def heap_above_def)
  qed
qed

lemma heappush_heap:
  assumes "is_heap key xs"
  shows "is_heap key (heappush key x xs) \<and> mset (heappush key x xs) = add_mset x (mset xs)"
proof -
  have half: "(i - 1) div 2 < length xs" if "0 < i" "i < Suc (length xs)" for i using that by linarith
  have "heap_above key (xs @ [x]) (length xs)"
    using assms half by (auto simp: heap_above_def is_heap_def heap_at_def nth_append)
  from siftdown_heap [OF this] show ?thesis by (simp add: heappush_def)
qed

lemma heapreplace_heap:
  assumes "is_heap key xs" and "xs \<noteq> []"
  shows "is_heap key (heapreplace key x xs) \<and> mset (heapreplace key x xs) = add_mset x (mset xs - {#xs ! 0#})"
proof -
  obtain ys q where s: "sift_to_leaf key (xs[0 := x]) 0 = (ys, q)" by (cases "sift_to_leaf key (xs[0 := x]) 0")
  have "heap_around key (xs[0 := x]) 0"
    using assms by (auto simp: heap_around_def is_heap_def heap_at_def nth_list_update)
  note h = sift_to_leaf_heap [OF this s]
  have "mset (xs[0 := x]) = add_mset x (mset xs - {#xs ! 0#})" using assms(2) by (cases xs) auto
  with h siftdown_heap [of key ys q] show ?thesis by (simp add: heapreplace_def s)
qed

lemma heap_least:
  assumes "is_heap key xs" and "i < length xs"
  shows "key (xs ! 0) \<le> key (xs ! i)"
  using assms(2)
proof (induction i rule: less_induct)
  case (less i)
  show ?case
  proof (cases "i = 0")
    case False
    then have "(i - 1) div 2 < i" by linarith
    with less have "key (xs ! 0) \<le> key (xs ! ((i - 1) div 2))" by simp
    moreover have "heap_at key xs i" using assms(1) less.prems False by (simp add: is_heap_def)
    ultimately show ?thesis by (simp add: heap_at_def)
  qed simp
qed

section \<open>The interface, and keeping the best entries\<close>

text \<open>\<open>K\<close> holds the \<open>n\<close> entries of \<open>M\<close> with the greatest keys (all of them when there are fewer).\<close>

definition greatest :: "('a \<Rightarrow> 'k::linorder) \<Rightarrow> nat \<Rightarrow> 'a multiset \<Rightarrow> 'a multiset \<Rightarrow> bool" where
  "greatest key n K M \<longleftrightarrow> K \<subseteq># M \<and> size K = min n (size M) \<and> (\<forall>x \<in># K. \<forall>y \<in># M - K. key y \<le> key x)"

locale min_queue =
  fixes key :: "'a \<Rightarrow> 'k::linorder" and invar :: "'q \<Rightarrow> bool" and contents :: "'q \<Rightarrow> 'a multiset"
    and least :: "'q \<Rightarrow> 'a" and push :: "'a \<Rightarrow> 'q \<Rightarrow> 'q" and replace :: "'a \<Rightarrow> 'q \<Rightarrow> 'q"
  assumes least_in: "invar q \<Longrightarrow> contents q \<noteq> {#} \<Longrightarrow> least q \<in># contents q"
    and least_le: "invar q \<Longrightarrow> x \<in># contents q \<Longrightarrow> key (least q) \<le> key x"
    and push_law: "invar q \<Longrightarrow> invar (push x q) \<and> contents (push x q) = add_mset x (contents q)"
    and replace_law: "invar q \<Longrightarrow> contents q \<noteq> {#}
      \<Longrightarrow> invar (replace x q) \<and> contents (replace x q) = add_mset x (contents q - {#least q#})"
begin

definition offer :: "nat \<Rightarrow> 'q \<Rightarrow> 'a \<Rightarrow> 'q" where
  "offer n q x = (if size (contents q) < n then push x q else if key (least q) < key x then replace x q else q)"

lemma offer_keeps:
  assumes q: "invar q" and n: "0 < n" and g: "greatest key n (contents q) M"
  shows "invar (offer n q x) \<and> greatest key n (contents (offer n q x)) (add_mset x M)"
proof (cases "size (contents q) < n")
  case True
  then have "size (contents q) = size M" using g by (simp add: greatest_def min_def split: if_splits)
  then have "contents q = M" using g mset_subset_size [of "contents q" M] by (auto simp: greatest_def subset_mset.le_less)
  then show ?thesis using True push_law [OF q, of x] by (simp add: offer_def greatest_def)
next
  case full: False
  then have size: "size (contents q) = n" "n \<le> size M" using g by (auto simp: greatest_def min_def split: if_splits)
  then have ne: "contents q \<noteq> {#}" using n by auto
  have sub: "contents q \<subseteq># M" and best: "\<And>a y. a \<in># contents q \<Longrightarrow> y \<in># M - contents q \<Longrightarrow> key y \<le> key a"
    using g by (auto simp: greatest_def)
  note l = least_in [OF q ne] and le = least_le [OF q]
  show ?thesis
  proof (cases "key (least q) < key x")
    case True
    let ?K = "contents q - {#least q#}"
    have rest: "M - ?K = add_mset (least q) (M - contents q)"
    proof (rule multiset_eqI)
      fix a
      have "count (contents q) a \<le> count M a" using sub by (simp add: mset_subset_eq_count)
      moreover have "0 < count (contents q) (least q)" using l by simp
      ultimately show "count (M - ?K) a = count (add_mset (least q) (M - contents q)) a" by (cases "a = least q") auto
    qed
    have "key y \<le> key a" if "a \<in># add_mset x ?K" "y \<in># add_mset (least q) (M - contents q)" for a y
    proof -
      have y: "y = least q \<or> y \<in># M - contents q" using that(2) by auto
      then have "key y \<le> key (least q)" using best [OF l] by auto
      moreover have "a = x \<or> a \<in># contents q" using that(1) by (auto dest: in_diffD)
      ultimately show ?thesis using True y best le by auto
    qed
    moreover have "?K \<subseteq># M" using sub by (meson diff_subset_eq_self subset_mset.order_trans)
    moreover have "size (add_mset x ?K) = n" using size n l by (simp add: size_Diff_singleton)
    ultimately have "greatest key n (add_mset x ?K) (add_mset x M)"
      using size rest unfolding greatest_def by simp
    then show ?thesis using True full replace_law [OF q ne, of x] by (simp add: offer_def)
  next
    case False
    have "add_mset x M - contents q = add_mset x (M - contents q)"
    proof (rule multiset_eqI)
      fix a
      have "count (contents q) a \<le> count M a" using sub by (simp add: mset_subset_eq_count)
      then show "count (add_mset x M - contents q) a = count (add_mset x (M - contents q)) a" by (cases "a = x") auto
    qed
    then have "key y \<le> key a" if "a \<in># contents q" "y \<in># add_mset x M - contents q" for a y
      using that best le [of a] False by auto
    moreover have "contents q \<subseteq># add_mset x M" using sub by (auto simp: subseteq_mset_def le_SucI)
    ultimately show ?thesis using False full size q by (simp add: offer_def greatest_def)
  qed
qed

lemma offers_keep_greatest:
  assumes "invar q" and "0 < n" and "greatest key n (contents q) M"
  shows "invar (foldl (offer n) q xs) \<and> greatest key n (contents (foldl (offer n) q xs)) (M + mset xs)"
  using assms
proof (induction xs arbitrary: q M)
  case (Cons x xs)
  from offer_keeps [OF Cons.prems, of x]
  have "invar (offer n q x)" "greatest key n (contents (offer n q x)) (add_mset x M)" by blast+
  from Cons.IH [OF this(1) Cons.prems(2) this(2)] show ?case by simp
qed simp

end

interpretation heap_list: min_queue key "is_heap key" mset "\<lambda>xs. xs ! 0" "heappush key" "heapreplace key"
proof unfold_locales
  fix q :: "'a list" and x
  show "is_heap key q \<Longrightarrow> mset q \<noteq> {#} \<Longrightarrow> q ! 0 \<in># mset q" by simp
  show "is_heap key q \<Longrightarrow> x \<in># mset q \<Longrightarrow> key (q ! 0) \<le> key x" using heap_least [of key q] by (auto simp: in_set_conv_nth)
  show "is_heap key q \<Longrightarrow> is_heap key (heappush key x q) \<and> mset (heappush key x q) = add_mset x (mset q)"
    by (rule heappush_heap)
  show "is_heap key q \<Longrightarrow> mset q \<noteq> {#}
      \<Longrightarrow> is_heap key (heapreplace key x q) \<and> mset (heapreplace key x q) = add_mset x (mset q - {#q ! 0#})"
    by (rule heapreplace_heap) simp_all
qed

section \<open>The greatest entries are determined\<close>

lemma greatest_unique:
  assumes "greatest key n K (mset xs)" and "greatest key n L (mset xs)" and d: "distinct (map key xs)"
  shows "K = L"
proof (rule ccontr)
  assume "K \<noteq> L"
  have sub: "K \<subseteq># mset xs" "L \<subseteq># mset xs" and size: "size K = size L" using assms(1,2) by (simp_all add: greatest_def)
  have once: "count K a \<le> 1" "count L a \<le> 1" for a
  proof -
    have "distinct xs" using d by (simp add: distinct_map)
    then have "count (mset xs) a \<le> 1" using distinct_count_atmost_1 [of xs] by (simp split: if_splits)
    then show "count K a \<le> 1" "count L a \<le> 1"
      using sub mset_subset_eq_count [of K "mset xs" a] mset_subset_eq_count [of L "mset xs" a] by simp_all
  qed
  have "\<not> K \<subseteq># L" "\<not> L \<subseteq># K" using \<open>K \<noteq> L\<close> size mset_subset_size by (fastforce simp: subset_mset.le_less)+
  then obtain x y where xy: "count L x < count K x" "count K y < count L y"
    unfolding subseteq_mset_def by (meson not_le)
  have x: "x \<in># K" "x \<notin># L" and y: "y \<in># L" "y \<notin># K"
    using xy once(1) [of x] once(2) [of y] by (auto simp: not_in_iff simp flip: count_greater_zero_iff)
  have xM: "x \<in> set xs" "y \<in> set xs" using sub x y by (auto dest: mset_subset_eqD)
  then have "y \<in># mset xs - K" "x \<in># mset xs - L" using x(2) y(2) by (simp_all add: in_diff_count not_in_iff)
  then have "key y \<le> key x" "key x \<le> key y" using assms(1,2) x(1) y(1) by (auto simp: greatest_def)
  then have "x = y" using d xM by (auto simp: distinct_map inj_on_def)
  with x y show False by simp
qed

end
