(* ===== verification/CandidateEnumeration.thy ===== *)
theory CandidateEnumeration
  imports TargetResolution ExperimentIdentity PyHeap
begin

text \<open>
  \<open>experiments/candidates.py\<close>: the single-target masks of a graph, filtered, ranked by a seeded hash and bounded
  with a heap, resolved to their coupled closures and counted, with a reason for every node left out. A
  \<open>Counter\<close> is its association list in insertion order.
\<close>

datatype enumeration_error =
    Enumeration string | EnumGraph graph_error | EnumTarget target_error | EnumContract contract_error
  | EnumIdentity identity_error | EnumText

section \<open>Scopes, filters and configuration\<close>

datatype candidate_scope = ATTENTION_HEAD | MLP_CHANNEL | COMPONENT | TRANSFORMER_LAYER | LOW_RANK_SCOPE

fun scope_value :: "candidate_scope \<Rightarrow> pystr" where
  "scope_value ATTENTION_HEAD = lit ''head''"
| "scope_value MLP_CHANNEL = lit ''channel''"
| "scope_value COMPONENT = lit ''component''"
| "scope_value TRANSFORMER_LAYER = lit ''layer''"
| "scope_value LOW_RANK_SCOPE = lit ''low_rank''"

definition CANDIDATE_ENUMERATOR_VERSION :: string where
  "CANDIDATE_ENUMERATOR_VERSION = ''1''"

definition MAX_ENUMERATED_CANDIDATES :: int where
  "MAX_ENUMERATED_CANDIDATES = 100000"

definition COMPONENT_KINDS :: "pystr list" where
  "COMPONENT_KINDS = map lit [''attention'', ''projection'', ''mlp'', ''embedding'', ''normalization'', ''moe_expert'', ''moe_router'']"

definition SCOPE_BY_LOGICAL_KIND :: "(pystr \<times> candidate_scope) list" where
  "SCOPE_BY_LOGICAL_KIND = [(lit ''attention_head'', ATTENTION_HEAD), (lit ''mlp_channel'', MLP_CHANNEL),
     (lit ''transformer_layer'', TRANSFORMER_LAYER)]"

record candidate_filter =
  cf_scopes :: "candidate_scope list"
  cf_include_kinds :: "pystr list"
  cf_exclude_kinds :: "pystr list"
  cf_include_prefixes :: "component_id list"
  cf_exclude_prefixes :: "component_id list"
  cf_layers :: "int list"

definition check_kinds :: "string \<Rightarrow> pystr list \<Rightarrow> enumeration_error + unit" where
  "check_kinds message kinds = raise_if ([] \<in> set kinds \<or> \<not> distinct kinds) (Enumeration message)"

definition candidate_filter_init :: "candidate_filter \<Rightarrow> enumeration_error + candidate_filter" where
  "candidate_filter_init f =
     rbind (raise_if (cf_scopes f = [] \<or> \<not> distinct (cf_scopes f))
              (Enumeration ''candidate scopes must be non-empty and unique'')) (\<lambda>_.
     rbind (check_kinds ''include kinds must be non-empty and unique'' (cf_include_kinds f)) (\<lambda>_.
     rbind (check_kinds ''exclude kinds must be non-empty and unique'' (cf_exclude_kinds f)) (\<lambda>_.
     rbind (raise_if (set (cf_include_kinds f) \<inter> set (cf_exclude_kinds f) \<noteq> {})
              (Enumeration ''candidate include/exclude kinds cannot overlap'')) (\<lambda>_.
     rbind (raise_if (\<not> distinct (cf_include_prefixes f)) (Enumeration ''include prefixes must be unique'')) (\<lambda>_.
     rbind (raise_if (\<not> distinct (cf_exclude_prefixes f)) (Enumeration ''exclude prefixes must be unique'')) (\<lambda>_.
     rbind (raise_if (cf_layers f \<noteq> sort (remdups (cf_layers f)))
              (Enumeration ''layer indices must be unique and canonical'')) (\<lambda>_.
     rbind (raise_if (list_ex (\<lambda>i. i < 0) (cf_layers f)) (Enumeration ''layer indices cannot be negative'')) (\<lambda>_.
     Inr f))))))))"

record enumerator_config =
  ec_seed :: int
  ec_filters :: candidate_filter
  ec_max :: "int option"

definition enumerator_config_init :: "enumerator_config \<Rightarrow> enumeration_error + enumerator_config" where
  "enumerator_config_init c =
     rbind (raise_if (ec_seed c < 0 \<or> 2 ^ 64 \<le> ec_seed c)
              (Enumeration ''candidate seed must be an unsigned 64-bit integer'')) (\<lambda>_.
     rbind (raise_if (case ec_max c of None \<Rightarrow> False | Some n \<Rightarrow> n \<le> 0)
              (Enumeration ''max_candidates must be positive when set'')) (\<lambda>_.
     rbind (raise_if (case ec_max c of None \<Rightarrow> False | Some n \<Rightarrow> MAX_ENUMERATED_CANDIDATES < n)
              (Enumeration ''max_candidates cannot exceed 100000'')) (\<lambda>_. Inr c)))"

section \<open>Candidates and reports\<close>

record mutation_candidate =
  ca_id :: pystr
  ca_scope :: candidate_scope
  ca_component :: component_id
  ca_kind :: pystr
  ca_layer :: "int option"
  ca_request :: mutation_request
  ca_affected :: "component_id list"
  ca_constraints :: "pystr list"

definition mutation_candidate_init :: "mutation_candidate \<Rightarrow> enumeration_error + mutation_candidate" where
  "mutation_candidate_init c =
     rbind (raise_if (\<not> has_prefix ''cand_'' (ca_id c))
              (Enumeration ''candidate identity must use the canonical cand_ prefix'')) (\<lambda>_.
     rbind (raise_if (mr_targets (ca_request c) \<noteq> [ca_component c])
              (Enumeration ''enumerated candidates require exactly one requested target'')) (\<lambda>_.
     rbind (raise_if (ca_component c \<notin> set (ca_affected c))
              (Enumeration ''candidate coupling closure omitted its requested target'')) (\<lambda>_. Inr c)))"

definition enum_text :: "component_id \<Rightarrow> enumeration_error + pystr" where
  "enum_text i = except (graph_id_text i) EnumGraph"

definition mutation_candidate_record :: "mutation_candidate \<Rightarrow> enumeration_error + json" where
  "mutation_candidate_record c =
     rbind (enum_text (ca_component c)) (\<lambda>component.
     rbind (except (mutation_id (ca_request c)) EnumContract) (\<lambda>mutation.
     rbind (except (request_record (ca_request c)) EnumContract) (\<lambda>request.
     rbind (mapM_r enum_text (ca_affected c)) (\<lambda>affected.
     Inr (JObj [(lit ''candidate_id'', JStr (ca_id c)), (lit ''scope'', JStr (scope_value (ca_scope c))),
                (lit ''component_id'', JStr component), (lit ''node_kind'', JStr (ca_kind c)),
                (lit ''layer_index'', case ca_layer c of None \<Rightarrow> JNull | Some i \<Rightarrow> JInt i),
                (lit ''mutation_id'', JStr mutation), (lit ''request'', request),
                (lit ''affected_components'', JList (map JStr affected)),
                (lit ''constraint_ids'', JList (map JStr (ca_constraints c)))])))))"

type_synonym exclusion = "pystr \<times> nat"

definition exclusion_init :: "exclusion \<Rightarrow> enumeration_error + exclusion" where
  "exclusion_init x =
     rbind (raise_if (fst x = [] \<or> snd x = 0)
              (Enumeration ''candidate exclusion counts require reason and count'')) (\<lambda>_. Inr x)"

record enumeration_report =
  er_version :: string
  er_seed :: int
  er_nodes :: nat
  er_eligible :: nat
  er_candidates :: "mutation_candidate list"
  er_exclusions :: "exclusion list"

definition enumeration_report_init :: "enumeration_report \<Rightarrow> enumeration_error + enumeration_report" where
  "enumeration_report_init r =
     (let ids = map ca_id (er_candidates r); reasons = map fst (er_exclusions r) in
      rbind (raise_if (er_version r \<noteq> CANDIDATE_ENUMERATOR_VERSION)
               (Enumeration ''unsupported candidate enumerator version'')) (\<lambda>_.
      rbind (raise_if (\<not> distinct ids) (Enumeration ''enumerated candidate IDs must be unique'')) (\<lambda>_.
      rbind (raise_if (reasons \<noteq> sort reasons \<or> \<not> distinct reasons)
               (Enumeration ''candidate exclusions must be unique and canonical'')) (\<lambda>_. Inr r))))"

definition enumeration_report_record :: "enumeration_report \<Rightarrow> enumeration_error + json" where
  "enumeration_report_record r =
     rbind (mapM_r mutation_candidate_record (er_candidates r)) (\<lambda>candidates.
     Inr (JObj [(lit ''version'', JStr (lit (er_version r))), (lit ''seed'', JInt (er_seed r)),
                (lit ''graph_node_count'', JInt (int (er_nodes r))), (lit ''eligible_count'', JInt (int (er_eligible r))),
                (lit ''candidate_count'', JInt (int (length (er_candidates r)))), (lit ''candidates'', JList candidates),
                (lit ''exclusions'', JList (map (\<lambda>(reason, count).
                   JObj [(lit ''reason'', JStr reason), (lit ''count'', JInt (int count))]) (er_exclusions r)))]))"

section \<open>What a node offers\<close>

record pre_candidate =
  pk_scope :: candidate_scope
  pk_node :: graph_node
  pk_layer :: "int option"
  pk_request :: mutation_request

definition scope_for_node :: "graph_node \<Rightarrow> candidate_scope option" where
  "scope_for_node n =
     (case map_of SCOPE_BY_LOGICAL_KIND (gn_kind n) of
        Some s \<Rightarrow> Some s
      | None \<Rightarrow> if gn_kind n \<in> set COMPONENT_KINDS then Some COMPONENT else None)"

definition index_attribute :: "graph_node \<Rightarrow> string \<Rightarrow> int option" where
  "index_attribute n key =
     (case map_of (rev (gn_attributes n)) (lit key) of
        Some (PInt i) \<Rightarrow> if 0 \<le> i then Some i else None
      | _ \<Rightarrow> None)"

fun layer_segment :: "segment list \<Rightarrow> int option" where
  "layer_segment (g # h # gs) =
     (case (g, h) of
        (Name s, Index i) \<Rightarrow> if s = lit ''layers'' \<and> 0 \<le> i then Some i else layer_segment (h # gs)
      | _ \<Rightarrow> layer_segment (h # gs))"
| "layer_segment _ = None"

definition layer_index :: "graph_node \<Rightarrow> int option" where
  "layer_index n =
     (case index_attribute n ''layer_index'' of Some i \<Rightarrow> Some i | None \<Rightarrow> layer_segment (segments (gn_id n)))"

definition is_under :: "component_id \<Rightarrow> component_id \<Rightarrow> bool" where
  "is_under i prefix \<longleftrightarrow> take (length (segments prefix)) (segments i) = segments prefix"

definition filter_reason :: "graph_node \<Rightarrow> candidate_scope \<Rightarrow> int option \<Rightarrow> candidate_filter \<Rightarrow> pystr option" where
  "filter_reason n scope layer f =
     (if scope \<notin> set (cf_scopes f) then Some (lit ''filtered-scope:'' @ scope_value scope)
      else if cf_include_kinds f \<noteq> [] \<and> gn_kind n \<notin> set (cf_include_kinds f)
      then Some (lit ''filtered-kind:'' @ gn_kind n)
      else if gn_kind n \<in> set (cf_exclude_kinds f) then Some (lit ''filtered-kind:'' @ gn_kind n)
      else if cf_include_prefixes f \<noteq> [] \<and> \<not> list_ex (is_under (gn_id n)) (cf_include_prefixes f)
      then Some (lit ''filtered-prefix'')
      else if list_ex (is_under (gn_id n)) (cf_exclude_prefixes f) then Some (lit ''filtered-prefix'')
      else if cf_layers f \<noteq> [] \<and> (case layer of None \<Rightarrow> True | Some i \<Rightarrow> i \<notin> set (cf_layers f))
      then Some (lit ''filtered-layer'')
      else None)"

definition request_parameters :: "graph_node \<Rightarrow> candidate_scope \<Rightarrow> int option \<Rightarrow> attributes option" where
  "request_parameters n scope layer =
     (let base = (lit ''candidate_scope'', PStr (scope_value scope)) in
      case scope of
        ATTENTION_HEAD \<Rightarrow>
          (case (index_attribute n ''head_index'', layer) of
             (Some i, Some l) \<Rightarrow> Some [base, (lit ''head_index'', PInt i), (lit ''layer_index'', PInt l)]
           | _ \<Rightarrow> None)
      | MLP_CHANNEL \<Rightarrow>
          (case (index_attribute n ''channel_index'', layer) of
             (Some i, Some l) \<Rightarrow> Some [base, (lit ''channel_index'', PInt i), (lit ''layer_index'', PInt l)]
           | _ \<Rightarrow> None)
      | TRANSFORMER_LAYER \<Rightarrow>
          (case layer of Some l \<Rightarrow> Some [base, (lit ''layer_index'', PInt l)] | None \<Rightarrow> None)
      | _ \<Rightarrow> Some [base])"

definition request_for_node ::
  "graph_node \<Rightarrow> candidate_scope \<Rightarrow> int option \<Rightarrow> enumeration_error + mutation_request option" where
  "request_for_node n scope layer =
     (case request_parameters n scope layer of
        None \<Rightarrow> Inr None
      | Some parameters \<Rightarrow>
          rbind (except (mutation_request_init \<lparr>mr_kind = MASK, mr_targets = [gn_id n],
                   mr_parameters = sort_key fst parameters, mr_version = MUTATION_SCHEMA_VERSION\<rparr>) EnumContract)
            (\<lambda>request. Inr (Some request)))"

section \<open>Ranking and bounded selection\<close>

text \<open>\<open>int.from_bytes(hashlib.sha256(payload).digest(), "big")\<close>.\<close>

definition digest_int :: "bytes \<Rightarrow> int" where
  "digest_int bs = foldl (\<lambda>a w. a * 2 ^ 32 + uint w) 0 (sha256 bs)"

definition rank_of :: "int \<Rightarrow> mutation_request \<Rightarrow> enumeration_error + int \<times> int" where
  "rank_of seed request =
     rbind (except (mutation_id request) EnumContract) (\<lambda>identity.
     rbind (of_option EnumText (py_str_int seed)) (\<lambda>digits.
     rbind (of_option EnumText (py_int16 identity)) (\<lambda>mutation.
     Inr (digest_int (map of_nat (digits @ 0x3A # identity)), mutation))))"

text \<open>Entries carry their negated rank, so the least entry of the heap is the worst one.\<close>

record ranked_candidate =
  rk_negative_rank :: int
  rk_negative_mutation :: int
  rk_candidate :: pre_candidate

definition rank_key :: "ranked_candidate \<Rightarrow> int \<times> int" where
  "rank_key e = (rk_negative_rank e, rk_negative_mutation e)"

definition ranked :: "int \<Rightarrow> pre_candidate \<Rightarrow> enumeration_error + ranked_candidate" where
  "ranked seed c =
     rbind (rank_of seed (pk_request c)) (\<lambda>(rank, mutation).
     Inr \<lparr>rk_negative_rank = - rank, rk_negative_mutation = - mutation, rk_candidate = c\<rparr>)"

definition keep_bounded :: "int option \<Rightarrow> ranked_candidate list \<Rightarrow> ranked_candidate \<Rightarrow> ranked_candidate list" where
  "keep_bounded maximum items entry =
     (case maximum of
        None \<Rightarrow> items @ [entry]
      | Some n \<Rightarrow>
          if int (length items) < n then heappush rank_key entry items
          else if rank_key (items ! 0) < rank_key entry then heapreplace rank_key entry items
          else items)"

definition select_bounded ::
  "ranked_candidate list \<Rightarrow> pre_candidate \<Rightarrow> int \<Rightarrow> int option \<Rightarrow> enumeration_error + ranked_candidate list" where
  "select_bounded items c seed maximum = rbind (ranked seed c) (\<lambda>entry. Inr (keep_bounded maximum items entry))"

definition selected_candidates :: "ranked_candidate list \<Rightarrow> pre_candidate list" where
  "selected_candidates selected =
     map rk_candidate (sort_key (\<lambda>e. (- rk_negative_rank e, - rk_negative_mutation e)) selected)"

section \<open>Enumeration\<close>

definition count_reason :: "pystr \<Rightarrow> nat \<Rightarrow> exclusion list \<Rightarrow> exclusion list" where
  "count_reason reason n d = AList.update reason ((case map_of d reason of None \<Rightarrow> 0 | Some m \<Rightarrow> m) + n) d"

record scan_state =
  sc_exclusions :: "exclusion list"
  sc_selected :: "ranked_candidate list"
  sc_eligible :: nat

definition exclude :: "pystr \<Rightarrow> scan_state \<Rightarrow> scan_state" where
  "exclude reason s = s\<lparr>sc_exclusions := count_reason reason 1 (sc_exclusions s)\<rparr>"

definition scan_node :: "enumerator_config \<Rightarrow> scan_state \<Rightarrow> graph_node \<Rightarrow> enumeration_error + scan_state" where
  "scan_node config s n =
     (case scope_for_node n of
        None \<Rightarrow> Inr (exclude (lit ''unsupported-kind:'' @ gn_kind n) s)
      | Some scope \<Rightarrow>
          let layer = layer_index n in
          (case filter_reason n scope layer (ec_filters config) of
             Some reason \<Rightarrow> Inr (exclude reason s)
           | None \<Rightarrow>
               rbind (request_for_node n scope layer) (\<lambda>request.
               case request of
                 None \<Rightarrow> Inr (exclude (lit ''invalid-metadata:'' @ scope_value scope) s)
               | Some q \<Rightarrow>
                   rbind (select_bounded (sc_selected s) \<lparr>pk_scope = scope, pk_node = n, pk_layer = layer, pk_request = q\<rparr>
                            (ec_seed config) (ec_max config)) (\<lambda>selected.
                   Inr (s\<lparr>sc_selected := selected, sc_eligible := sc_eligible s + 1\<rparr>)))))"

definition scan_nodes :: "enumerator_config \<Rightarrow> graph_node list \<Rightarrow> enumeration_error + scan_state" where
  "scan_nodes config nodes = foldM_r (scan_node config) \<lparr>sc_exclusions = [], sc_selected = [], sc_eligible = 0\<rparr> nodes"

definition sampled_out :: "enumerator_config \<Rightarrow> scan_state \<Rightarrow> exclusion list" where
  "sampled_out config s =
     (if ec_max config \<noteq> None \<and> length (sc_selected s) < sc_eligible s
      then count_reason (lit ''sampled-out'') (sc_eligible s - length (sc_selected s)) (sc_exclusions s)
      else sc_exclusions s)"

definition plan_candidate ::
  "target_resolver \<Rightarrow> pystr \<Rightarrow> exclusion list \<times> mutation_candidate list \<Rightarrow> pre_candidate
     \<Rightarrow> enumeration_error + exclusion list \<times> mutation_candidate list" where
  "plan_candidate tr run_id s p =
     (case resolve tr (pk_request p) of
        Inl (TargetResolution _) \<Rightarrow> Inr (count_reason (lit ''planner-rejected:'' @ scope_value (pk_scope p)) 1 (fst s), snd s)
      | Inl e \<Rightarrow> Inl (EnumTarget e)
      | Inr r \<Rightarrow>
          rbind (except (mutation_id (pk_request p)) EnumContract) (\<lambda>mutation.
          rbind (except (derive_candidate_identity run_id mutation) EnumIdentity) (\<lambda>identity.
          rbind (mutation_candidate_init \<lparr>ca_id = identity, ca_scope = pk_scope p, ca_component = gn_id (pk_node p),
                   ca_kind = gn_kind (pk_node p), ca_layer = pk_layer p, ca_request = pk_request p,
                   ca_affected = affected_components r, ca_constraints = rr_constraint_ids r\<rparr>) (\<lambda>c.
          Inr (fst s, snd s @ [c])))))"

definition enumerate_mutation_candidates ::
  "(graph_primitive \<Rightarrow> pystr) \<Rightarrow> component_graph \<Rightarrow> pystr \<Rightarrow> enumerator_config
     \<Rightarrow> enumeration_error + enumeration_report" where
  "enumerate_mutation_candidates repr g run_id config =
     rbind (raise_if (\<not> has_prefix ''run_'' run_id) (Enumeration ''candidate enumeration requires a canonical run ID'')) (\<lambda>_.
     rbind (except (build_graph (cg_nodes g) (cg_edges g) (cg_constraints g)) EnumGraph) (\<lambda>canonical.
     rbind (except (resolver_init repr canonical) EnumTarget) (\<lambda>tr.
     rbind (scan_nodes config (cg_nodes canonical)) (\<lambda>s.
     rbind (foldM_r (plan_candidate tr run_id) (sampled_out config s, []) (selected_candidates (sc_selected s)))
       (\<lambda>(exclusions, candidates).
     rbind (mapM_r exclusion_init (filter (\<lambda>x. 0 < snd x) (sort_key fst exclusions))) (\<lambda>counts.
     enumeration_report_init \<lparr>er_version = CANDIDATE_ENUMERATOR_VERSION, er_seed = ec_seed config,
       er_nodes = length (cg_nodes canonical), er_eligible = sc_eligible s, er_candidates = candidates,
       er_exclusions = counts\<rparr>))))))"

end
