(* ===== verification/CandidateSampling.thy ===== *)
theory CandidateSampling
  imports CandidateEnumeration
begin

text \<open>
  What an enumeration reports: a bounded sample is a prefix of the full enumeration, every node of the graph
  is a candidate or counted under a reason, and the candidates are those the filters and the planner accept.
\<close>

section \<open>The heap keeps the best ranks\<close>

abbreviation worst_last :: "ranked_candidate \<Rightarrow> int \<times> int" where
  "worst_last e \<equiv> (- rk_negative_rank e, - rk_negative_mutation e)"

lemma worst_last_le: "worst_last e \<le> worst_last f \<longleftrightarrow> rank_key f \<le> rank_key e"
  by (auto simp: rank_key_def less_eq_prod_def)

lemma worst_last_eq: "worst_last e = worst_last f \<longleftrightarrow> rank_key e = rank_key f"
  by (auto simp: rank_key_def)

lemma keep_bounded_offer:
  "keep_bounded (Some (int n)) = min_queue.offer rank_key mset (\<lambda>xs. xs ! 0) (heappush rank_key) (heapreplace rank_key) n"
  by (intro ext) (simp add: keep_bounded_def heap_list.offer_def)

lemma kept_greatest:
  "0 < n \<Longrightarrow> greatest rank_key n (mset (foldl (keep_bounded (Some (int n))) [] es)) (mset es)"
  using heap_list.offers_keep_greatest [of rank_key "[]" n "{#}" es]
  by (simp add: keep_bounded_offer is_heap_def greatest_def)

lemma best_prefix: "greatest rank_key n (mset (take n (sort_key worst_last es))) (mset es)"
proof -
  let ?s = "sort_key worst_last es"
  have m: "mset es = mset (take n ?s) + mset (drop n ?s)"
    by (metis append_take_drop_id mset_append mset_sort)
  have sorted: "sorted_wrt (\<lambda>a b. worst_last a \<le> worst_last b) (take n ?s @ drop n ?s)"
    using sorted_sort_key [of worst_last es] unfolding sorted_map append_take_drop_id .
  have "rank_key y \<le> rank_key x" if "x \<in> set (take n ?s)" "y \<in> set (drop n ?s)" for x y
    using sorted that worst_last_le unfolding sorted_wrt_append by blast
  moreover have "length ?s = length es" by simp
  ultimately show ?thesis by (simp add: greatest_def m)
qed

text \<open>Sorted, a bounded selection is the beginning of the unbounded one.\<close>

lemma bounded_selection:
  assumes n: "0 < n" and d: "distinct (map rank_key es)"
  shows "sort_key worst_last (foldl (keep_bounded (Some (int n))) [] es) = take n (sort_key worst_last es)"
proof (rule sort_key_inj_key_eq)
  show m: "mset (foldl (keep_bounded (Some (int n))) [] es) = mset (take n (sort_key worst_last es))"
    by (rule greatest_unique [OF kept_greatest [OF n] best_prefix d])
  have "set (take n (sort_key worst_last es)) \<subseteq> set es" by (metis set_take_subset set_sort)
  then show "inj_on worst_last (set (foldl (keep_bounded (Some (int n))) [] es))"
    using d unfolding mset_eq_setD [OF m] by (auto simp: inj_on_def distinct_map rank_key_def)
  show "sorted (map worst_last (take n (sort_key worst_last es)))"
    by (simp add: sorted_sort_key sorted_wrt_take flip: take_map)
qed

definition kept :: "int option \<Rightarrow> ranked_candidate list \<Rightarrow> ranked_candidate list" where
  "kept maximum es = foldl (keep_bounded maximum) [] es"

lemma kept_all: "kept None es = es"
  unfolding kept_def by (induction es rule: rev_induct) (simp_all add: keep_bounded_def)

lemma kept_bounds:
  assumes "\<And>n. maximum = Some n \<Longrightarrow> 0 < n"
  shows "length (kept maximum es) = (case maximum of None \<Rightarrow> length es | Some n \<Rightarrow> min (nat n) (length es))"
    "set (kept maximum es) \<subseteq> set es"
proof -
  have "mset (kept maximum es) \<subseteq># mset es
      \<and> size (mset (kept maximum es)) = (case maximum of None \<Rightarrow> length es | Some n \<Rightarrow> min (nat n) (length es))"
  proof (cases maximum)
    case (Some n)
    then have "0 < nat n" "int (nat n) = n" using assms [of n] by simp_all
    with kept_greatest [of "nat n" es] show ?thesis using Some by (simp add: greatest_def kept_def)
  qed (simp add: kept_all)
  then show "length (kept maximum es) = (case maximum of None \<Rightarrow> length es | Some n \<Rightarrow> min (nat n) (length es))"
    "set (kept maximum es) \<subseteq> set es" by (auto dest: mset_subset_eqD)
qed

section \<open>A bounded scan is an unbounded one with the heap at the end\<close>

definition unbounded :: "enumerator_config \<Rightarrow> enumerator_config" where
  "unbounded config = config\<lparr>ec_max := None\<rparr>"

definition bound_scan :: "int option \<Rightarrow> scan_state \<Rightarrow> scan_state" where
  "bound_scan maximum s = s\<lparr>sc_selected := kept maximum (sc_selected s)\<rparr>"

lemma scan_node_bounded:
  "scan_node config (bound_scan (ec_max config) s) n
   = rbind (scan_node (unbounded config) s n) (\<lambda>t. Inr (bound_scan (ec_max config) t))"
proof (cases "scope_for_node n")
  case None
  then show ?thesis by (simp add: scan_node_def bound_scan_def exclude_def)
next
  case (Some scope)
  show ?thesis
  proof (cases "filter_reason n scope (layer_index n) (ec_filters config)")
    case None
    show ?thesis
    proof (cases "request_for_node n scope (layer_index n)")
      case (Inr q)
      show ?thesis
      proof (cases q)
        case (Some q')
        let ?p = "\<lparr>pk_scope = scope, pk_node = n, pk_layer = layer_index n, pk_request = q'\<rparr>"
        show ?thesis
          using \<open>scope_for_node n = Some scope\<close> None Inr Some
          by (cases "ranked (ec_seed config) ?p")
            (simp_all add: scan_node_def select_bounded_def bound_scan_def unbounded_def kept_def keep_bounded_def [of None])
      qed (use Some None Inr in \<open>simp add: scan_node_def bound_scan_def exclude_def unbounded_def\<close>)
    qed (use Some None in \<open>simp add: scan_node_def unbounded_def\<close>)
  qed (use Some in \<open>simp add: scan_node_def bound_scan_def exclude_def unbounded_def\<close>)
qed

lemma scan_bounded:
  "scan_nodes config nodes = rbind (scan_nodes (unbounded config) nodes) (\<lambda>s. Inr (bound_scan (ec_max config) s))"
proof -
  have "foldM_r (scan_node config) (bound_scan (ec_max config) s) nodes
      = rbind (foldM_r (scan_node (unbounded config)) s nodes) (\<lambda>s. Inr (bound_scan (ec_max config) s))" for s
  proof (induction nodes arbitrary: s)
    case (Cons n nodes)
    show ?case
      by (cases "scan_node (unbounded config) s n") (simp_all add: scan_node_bounded Cons.IH)
  qed simp
  from this [of "\<lparr>sc_exclusions = [], sc_selected = [], sc_eligible = 0\<rparr>"] show ?thesis
    by (simp add: scan_nodes_def bound_scan_def kept_def)
qed

section \<open>Counting\<close>

definition total :: "exclusion list \<Rightarrow> nat" where
  "total d = sum_list (map snd d)"

lemma counts_update:
  assumes "distinct (map fst d)"
  shows "total (AList.update k n d) + (case map_of d k of None \<Rightarrow> 0 | Some m \<Rightarrow> m) = total d + n"
  using assms
proof (induction d)
  case (Cons x d)
  have "map_of d k = None" if "fst x = k" using Cons.prems that by (auto simp: map_of_eq_None_iff)
  with Cons show ?case by (cases x) (auto simp: total_def)
qed (simp add: total_def)

lemma total_count [simp]: "distinct (map fst d) \<Longrightarrow> total (count_reason k n d) = total d + n"
  using counts_update [of d k "(case map_of d k of None \<Rightarrow> 0 | Some m \<Rightarrow> m) + n"] by (simp add: count_reason_def)

text \<open>Counters have one entry for a reason, and no empty reason.\<close>

definition reasons_ok :: "exclusion list \<Rightarrow> bool" where
  "reasons_ok d \<longleftrightarrow> distinct (map fst d) \<and> [] \<notin> fst ` set d"

lemma reasons_total [simp]: "reasons_ok d \<Longrightarrow> total (count_reason k n d) = total d + n"
  by (simp add: reasons_ok_def)

lemma reasons_count [simp]: "reasons_ok d \<Longrightarrow> k \<noteq> [] \<Longrightarrow> reasons_ok (count_reason k n d)"
  by (simp add: reasons_ok_def count_reason_def distinct_update dom_update)

lemma prefixed_reason [simp]: "lit (c # cs) @ s \<noteq> []" "lit (c # cs) \<noteq> []"
  by (simp_all add: lit_simps)

lemma filter_reason_given: "filter_reason n scope layer f = Some r \<Longrightarrow> r \<noteq> []"
  by (auto simp: filter_reason_def split: if_splits)

text \<open>What an unbounded scan keeps of a node.\<close>

definition offered :: "candidate_filter \<Rightarrow> graph_node set \<Rightarrow> pre_candidate \<Rightarrow> bool" where
  "offered f nodes p \<longleftrightarrow> pk_node p \<in> nodes \<and> scope_for_node (pk_node p) = Some (pk_scope p)
     \<and> pk_layer p = layer_index (pk_node p) \<and> filter_reason (pk_node p) (pk_scope p) (pk_layer p) f = None
     \<and> mr_targets (pk_request p) = [gn_id (pk_node p)]"

definition scan_ok :: "candidate_filter \<Rightarrow> graph_node list \<Rightarrow> scan_state \<Rightarrow> bool" where
  "scan_ok f nodes s \<longleftrightarrow> reasons_ok (sc_exclusions s) \<and> total (sc_exclusions s) + sc_eligible s = length nodes
     \<and> sc_eligible s = length (sc_selected s) \<and> (\<forall>e \<in> set (sc_selected s). offered f (set nodes) (rk_candidate e))"

lemma offered_more: "offered f A p \<Longrightarrow> A \<subseteq> B \<Longrightarrow> offered f B p"
  by (auto simp: offered_def)

lemma scan_exclude:
  "scan_ok f nodes s \<Longrightarrow> reason \<noteq> [] \<Longrightarrow> scan_ok f (nodes @ [n]) (exclude reason s)"
  by (auto simp: scan_ok_def exclude_def intro: offered_more)

lemma scan_node_ok:
  assumes s: "scan_ok (ec_filters config) nodes s" and t: "scan_node (unbounded config) s n = Inr t"
  shows "scan_ok (ec_filters config) (nodes @ [n]) t"
proof (cases "scope_for_node n")
  case None
  then show ?thesis using t scan_exclude [OF s] by (auto simp: scan_node_def)
next
  case (Some scope)
  show ?thesis
  proof (cases "filter_reason n scope (layer_index n) (ec_filters config)")
    case None
    from t Some None obtain q where q: "request_for_node n scope (layer_index n) = Inr q"
      by (auto simp: scan_node_def unbounded_def Let_def)
    show ?thesis
    proof (cases q)
      case None
      with q t Some \<open>filter_reason n scope _ _ = None\<close> scan_exclude [OF s] show ?thesis
        by (auto simp: scan_node_def unbounded_def)
    next
      case (Some q')
      then have target: "mr_targets q' = [gn_id n]"
        using q by (auto simp: request_for_node_def mutation_request_init_def Let_def guard_Inr split: option.splits)
      let ?p = "\<lparr>pk_scope = scope, pk_node = n, pk_layer = layer_index n, pk_request = q'\<rparr>"
      from t \<open>scope_for_node n = Some scope\<close> \<open>filter_reason n scope _ _ = None\<close> q Some obtain e
        where e: "ranked (ec_seed config) ?p = Inr e" "t = s\<lparr>sc_selected := sc_selected s @ [e], sc_eligible := sc_eligible s + 1\<rparr>"
        by (auto simp: scan_node_def unbounded_def select_bounded_def keep_bounded_def)
      have "rk_candidate e = ?p" using e(1) by (auto simp: ranked_def)
      then have "offered (ec_filters config) (set (nodes @ [n])) (rk_candidate e)"
        using target \<open>scope_for_node n = Some scope\<close> \<open>filter_reason n scope _ _ = None\<close> by (simp add: offered_def)
      with s e(2) show ?thesis by (auto simp: scan_ok_def intro: offered_more)
    qed
  next
    case (Some reason)
    then show ?thesis using t \<open>scope_for_node n = Some scope\<close> scan_exclude [OF s filter_reason_given [OF Some]] by (auto simp: scan_node_def unbounded_def)
  qed
qed

lemma scan_nodes_ok:
  "scan_nodes (unbounded config) nodes = Inr s \<Longrightarrow> scan_ok (ec_filters config) nodes s"
proof (induction nodes arbitrary: s rule: rev_induct)
  case Nil
  then show ?case by (auto simp: scan_nodes_def scan_ok_def total_def reasons_ok_def)
next
  case (snoc n nodes)
  from snoc.prems obtain t where "scan_nodes (unbounded config) nodes = Inr t" "scan_node (unbounded config) t n = Inr s"
    by (auto simp: scan_nodes_def foldM_r_append)
  with snoc.IH scan_node_ok show ?case by blast
qed

section \<open>Planning the selected candidates\<close>

text \<open>What becomes of one selected candidate; \<open>None\<close> is a rejection by the planner.\<close>

definition planned :: "target_resolver \<Rightarrow> pystr \<Rightarrow> pre_candidate \<Rightarrow> enumeration_error + mutation_candidate option" where
  "planned tr run_id p = rbind (plan_candidate tr run_id ([], []) p) (\<lambda>(_, cs).
     Inr (case cs of [] \<Rightarrow> None | c # _ \<Rightarrow> Some c))"

lemma plan_candidate_planned:
  "plan_candidate tr run_id s p = rbind (planned tr run_id p) (\<lambda>r. Inr (case r of
     None \<Rightarrow> (count_reason (lit ''planner-rejected:'' @ scope_value (pk_scope p)) 1 (fst s), snd s)
   | Some c \<Rightarrow> (fst s, snd s @ [c])))"
proof (cases "resolve tr (pk_request p)")
  case (Inl e)
  then show ?thesis by (cases e) (simp_all add: plan_candidate_def planned_def)
next
  case (Inr r)
  show ?thesis
  proof (cases "mutation_id (pk_request p)")
    case id: (Inr m)
    show ?thesis
    proof (cases "derive_candidate_identity run_id m")
      case (Inr i)
      then show ?thesis
        using id \<open>resolve tr (pk_request p) = Inr r\<close>
        by (cases "mutation_candidate_init \<lparr>ca_id = i, ca_scope = pk_scope p, ca_component = gn_id (pk_node p),
                   ca_kind = gn_kind (pk_node p), ca_layer = pk_layer p, ca_request = pk_request p,
                   ca_affected = affected_components r, ca_constraints = rr_constraint_ids r\<rparr>")
          (simp_all add: plan_candidate_def planned_def)
    qed (use id Inr in \<open>simp add: plan_candidate_def planned_def\<close>)
  qed (use Inr in \<open>simp add: plan_candidate_def planned_def\<close>)
qed

definition accepted :: "'a option list \<Rightarrow> 'a list" where
  "accepted = List.map_filter (\<lambda>x. x)"

lemma accepted_simps [simp]:
  "accepted [] = []" "accepted (xs @ ys) = accepted xs @ accepted ys"
  "accepted (None # xs) = accepted xs" "accepted (Some c # xs) = c # accepted xs"
  by (auto simp: accepted_def map_filter_def split: option.splits)

lemma accepted_short: "length (accepted xs) \<le> length xs"
  unfolding accepted_def map_filter_def by (simp add: le_trans [OF length_filter_le])

lemma plan_loop:
  assumes "foldM_r (plan_candidate tr run_id) (ex, []) ps = Inr (ex', cs)"
  shows "\<exists>rs. mapM_r (planned tr run_id) ps = Inr rs \<and> cs = accepted rs"
  using assms
proof (induction ps arbitrary: ex' cs rule: rev_induct)
  case (snoc p ps)
  from snoc.prems obtain s where s: "foldM_r (plan_candidate tr run_id) (ex, []) ps = Inr s"
    and t: "plan_candidate tr run_id s p = Inr (ex', cs)" by (auto simp: foldM_r_append)
  from snoc.IH [of "fst s" "snd s"] s obtain rs where rs: "mapM_r (planned tr run_id) ps = Inr rs" "snd s = accepted rs"
    by auto
  from t obtain r where r: "planned tr run_id p = Inr r" "cs = snd s @ (case r of None \<Rightarrow> [] | Some c \<Rightarrow> [c])"
    by (auto simp: plan_candidate_planned split: option.splits)
  have "mapM_r (planned tr run_id) (ps @ [p]) = Inr (rs @ [r])"
    using rs(1) r(1) by (simp add: mapM_r_Inr_iff list_all2_appendI)
  then show ?case using rs(2) r(2) by (intro exI [of _ "rs @ [r]"]) (simp split: option.split)
qed simp

lemma plan_loop_total:
  assumes "mapM_r (planned tr run_id) ps = Inr rs"
  shows "\<exists>ex'. foldM_r (plan_candidate tr run_id) (ex, cs) ps = Inr (ex', cs @ accepted rs)"
  using assms
proof (induction ps arbitrary: ex cs rs)
  case (Cons p ps)
  then obtain r rs' where r: "planned tr run_id p = Inr r" "mapM_r (planned tr run_id) ps = Inr rs'" "rs = r # rs'" by auto
  note IH = Cons.IH [OF r(2)]
  show ?case
  proof (cases r)
    case None
    from IH [of "count_reason (lit ''planner-rejected:'' @ scope_value (pk_scope p)) 1 ex" cs] r None show ?thesis
      by (simp add: plan_candidate_planned [of tr run_id _ p])
  next
    case (Some c)
    from IH [of ex "cs @ [c]"] r Some show ?thesis by (simp add: plan_candidate_planned [of tr run_id _ p])
  qed
qed simp

lemma plan_counts:
  assumes "foldM_r (plan_candidate tr run_id) (ex, []) ps = Inr (ex', cs)" and "reasons_ok ex"
  shows "total ex' + length cs = total ex + length ps \<and> reasons_ok ex'"
  using assms(1)
proof (induction ps arbitrary: ex' cs rule: rev_induct)
  case Nil
  then show ?case using assms(2) by simp
next
  case (snoc p ps)
  from snoc.prems obtain s where s: "foldM_r (plan_candidate tr run_id) (ex, []) ps = Inr s"
    and t: "plan_candidate tr run_id s p = Inr (ex', cs)" by (auto simp: foldM_r_append)
  from snoc.IH [of "fst s" "snd s"] s have IH: "total (fst s) + length (snd s) = total ex + length ps"
    "reasons_ok (fst s)" by simp_all
  from t obtain r where "planned tr run_id p = Inr r" "(ex', cs) = (case r of
       None \<Rightarrow> (count_reason (lit ''planner-rejected:'' @ scope_value (pk_scope p)) 1 (fst s), snd s)
     | Some c \<Rightarrow> (fst s, snd s @ [c]))" by (auto simp: plan_candidate_planned)
  with IH show ?case by (cases r) auto
qed

lemma planned_fields:
  assumes "planned tr run_id p = Inr (Some c)"
  obtains r where "resolve tr (pk_request p) = Inr r" "ca_affected c = affected_components r"
    "ca_constraints c = rr_constraint_ids r" "ca_component c = gn_id (pk_node p)" "ca_scope c = pk_scope p"
    "ca_layer c = pk_layer p" "ca_request c = pk_request p" "mutation_candidate_init c = Inr c"
proof -
  from assms obtain ex cs where cs: "plan_candidate tr run_id ([], []) p = Inr (ex, c # cs)"
    by (auto simp: planned_def split: list.splits)
  obtain r where r: "resolve tr (pk_request p) = Inr r"
  proof (cases "resolve tr (pk_request p)")
    case (Inl e)
    with cs show ?thesis by (cases e) (simp_all add: plan_candidate_def)
  qed
  from cs that [OF r] show ?thesis
    by (auto simp: plan_candidate_def r guard_Inr mutation_candidate_init_def)
qed

section \<open>The report\<close>

lemma report_init_exact: "enumeration_report_init r = Inr r' \<Longrightarrow> r' = r \<and> distinct (map ca_id (er_candidates r))"
  by (auto simp: enumeration_report_init_def Let_def guard_Inr)

lemma exclusions_checked:
  assumes "mapM_r exclusion_init xs = Inr ys"
  shows "ys = xs" "\<forall>x \<in> set xs. 0 < snd x"
  using assms by (induction xs arbitrary: ys) (auto simp: exclusion_init_def guard_Inr)

text \<open>The parts of an enumeration that returned.\<close>

lemma enumeration_parts:
  assumes "enumerate_mutation_candidates repr g run_id config = Inr r"
  obtains canonical tr s ex cs where "build_graph (cg_nodes g) (cg_edges g) (cg_constraints g) = Inr canonical"
    "resolver_init repr canonical = Inr tr" "scan_nodes (unbounded config) (cg_nodes canonical) = Inr s"
    "foldM_r (plan_candidate tr run_id) (sampled_out config (bound_scan (ec_max config) s), [])
       (selected_candidates (kept (ec_max config) (sc_selected s))) = Inr (ex, cs)"
    "er_exclusions r = filter (\<lambda>x. 0 < snd x) (sort_key fst ex)" "er_candidates r = cs"
    "er_nodes r = length (cg_nodes canonical)" "er_eligible r = sc_eligible s" "distinct (map ca_id cs)"
    "\<forall>x \<in> set (er_exclusions r). 0 < snd x" "has_prefix ''run_'' run_id"
proof -
  from assms obtain canonical tr s ex cs counts where
    *: "build_graph (cg_nodes g) (cg_edges g) (cg_constraints g) = Inr canonical" "resolver_init repr canonical = Inr tr"
      "scan_nodes config (cg_nodes canonical) = Inr s" "has_prefix ''run_'' run_id"
      "foldM_r (plan_candidate tr run_id) (sampled_out config s, []) (selected_candidates (sc_selected s)) = Inr (ex, cs)"
      "mapM_r exclusion_init (filter (\<lambda>x. 0 < snd x) (sort_key fst ex)) = Inr counts"
      "enumeration_report_init \<lparr>er_version = CANDIDATE_ENUMERATOR_VERSION, er_seed = ec_seed config,
        er_nodes = length (cg_nodes canonical), er_eligible = sc_eligible s, er_candidates = cs,
        er_exclusions = counts\<rparr> = Inr r"
    by (auto simp: enumerate_mutation_candidates_def guard_Inr)
  from *(3) obtain s0 where s0: "scan_nodes (unbounded config) (cg_nodes canonical) = Inr s0" "s = bound_scan (ec_max config) s0"
    by (auto simp: scan_bounded [of config])
  have b: "sc_selected s = kept (ec_max config) (sc_selected s0)" "sc_eligible s = sc_eligible s0"
    by (simp_all add: s0(2) bound_scan_def)
  note counts = exclusions_checked [OF *(6)]
  note r = report_init_exact [OF *(7)]
  show ?thesis
  proof (rule that [OF *(1,2) s0(1)])
    show "foldM_r (plan_candidate tr run_id) (sampled_out config (bound_scan (ec_max config) s0), [])
      (selected_candidates (kept (ec_max config) (sc_selected s0))) = Inr (ex, cs)"
      using *(5) by (simp only: b(1) s0(2) [symmetric])
    note r' = conjunct1 [OF r]
    show "er_exclusions r = filter (\<lambda>x. 0 < snd x) (sort_key fst ex)" unfolding r' by (simp only: enumeration_report.simps counts(1))
    show "er_candidates r = cs" "er_nodes r = length (cg_nodes canonical)" unfolding r' by (simp_all only: enumeration_report.simps)
    show "er_eligible r = sc_eligible s0" unfolding r' by (simp only: enumeration_report.simps b(2))
    show "distinct (map ca_id cs)" using conjunct2 [OF r] by (simp only: enumeration_report.simps)
    show "\<forall>x \<in> set (er_exclusions r). 0 < snd x" unfolding r' using counts by (simp only: enumeration_report.simps)
  qed (rule *(4))
qed

lemma total_filter: "total (filter (\<lambda>x. 0 < snd x) (sort_key fst d)) = total d"
proof -
  have "total (filter (\<lambda>x. 0 < snd x) d) = total d" for d by (induction d) (auto simp: total_def)
  moreover have "total (sort_key fst d) = total d"
    unfolding total_def sum_mset_sum_list [symmetric] by simp
  ultimately show ?thesis by simp
qed

lemma fills_up: "a \<le> min m l \<Longrightarrow> b \<le> l - m \<Longrightarrow> a + b = l \<Longrightarrow> a = min m (l::nat)"
  by linarith

lemma max_positive: "enumerator_config_init config = Inr config \<Longrightarrow> ec_max config = Some n \<Longrightarrow> 0 < n"
  by (auto simp: enumerator_config_init_def guard_Inr)

text \<open>
  C27. An enumeration that returns accounts for every node of the graph: the candidates and the counted
  exclusions add up to the nodes, no count is zero, candidate identities differ, and a configured maximum
  bounds the candidates. Each candidate is a node of the graph with a supported kind that passes every filter,
  and its affected components and constraints are those target resolution gives for masking it alone.
\<close>
theorem report_accounts_for_nodes:
  assumes config: "enumerator_config_init config = Inr config"
    and run: "enumerate_mutation_candidates repr g run_id config = Inr r"
  shows "er_nodes r = length (cg_nodes g)
    \<and> length (er_candidates r) + sum_list (map snd (er_exclusions r)) = er_nodes r
    \<and> (\<forall>x \<in> set (er_exclusions r). 0 < snd x) \<and> distinct (map ca_id (er_candidates r))
    \<and> (\<forall>n. ec_max config = Some n \<longrightarrow> int (length (er_candidates r)) \<le> n)
    \<and> (\<forall>c \<in> set (er_candidates r).
         (\<exists>n \<in> set (cg_nodes g). gn_id n = ca_component c \<and> scope_for_node n = Some (ca_scope c)
            \<and> filter_reason n (ca_scope c) (layer_index n) (ec_filters config) = None)
         \<and> mr_targets (ca_request c) = [ca_component c]
         \<and> (\<exists>canonical t. build_graph (cg_nodes g) (cg_edges g) (cg_constraints g) = Inr canonical
              \<and> resolve_mutation_targets repr (ca_request c) canonical = Inr t
              \<and> ca_affected c = affected_components t \<and> ca_constraints c = rr_constraint_ids t))"
proof -
  obtain canonical tr s ex cs where parts: "build_graph (cg_nodes g) (cg_edges g) (cg_constraints g) = Inr canonical"
    "resolver_init repr canonical = Inr tr" "scan_nodes (unbounded config) (cg_nodes canonical) = Inr s"
    "foldM_r (plan_candidate tr run_id) (sampled_out config (bound_scan (ec_max config) s), [])
       (selected_candidates (kept (ec_max config) (sc_selected s))) = Inr (ex, cs)"
    "er_exclusions r = filter (\<lambda>x. 0 < snd x) (sort_key fst ex)" "er_candidates r = cs"
    "er_nodes r = length (cg_nodes canonical)" "er_eligible r = sc_eligible s" "distinct (map ca_id cs)"
    "\<forall>x \<in> set (er_exclusions r). 0 < snd x"
    using run by (rule enumeration_parts)
  note scan = scan_nodes_ok [OF parts(3), unfolded scan_ok_def]
  let ?K = "kept (ec_max config) (sc_selected s)"
  let ?ps = "selected_candidates ?K"
  have nodes: "mset (cg_nodes canonical) = mset (cg_nodes g)" by (rule sorted_ids_Inr [OF build_graph_Inr(1) [OF parts(1)]])
  have K: "length ?K = (case ec_max config of None \<Rightarrow> length (sc_selected s) | Some n \<Rightarrow> min (nat n) (length (sc_selected s)))"
    "set ?K \<subseteq> set (sc_selected s)"
    using kept_bounds max_positive [OF config] by blast+
  have ps: "length ?ps = length ?K" "set ?ps = rk_candidate ` set ?K" by (simp_all add: selected_candidates_def)
  have "total (sampled_out config (bound_scan (ec_max config) s)) + length ?K = total (sc_exclusions s) + sc_eligible s
      \<and> reasons_ok (sampled_out config (bound_scan (ec_max config) s))"
    using scan K(1) by (auto simp: sampled_out_def bound_scan_def kept_all split: option.splits)
  with plan_counts [OF parts(4)] ps(1) scan have "total ex + length cs = length (cg_nodes canonical)" by simp
  then have sum: "length cs + sum_list (map snd (er_exclusions r)) = er_nodes r"
    using total_filter [of ex] unfolding total_def parts(5) parts(7) by simp
  obtain rs where rs: "mapM_r (planned tr run_id) ?ps = Inr rs" "cs = accepted rs" using plan_loop [OF parts(4)] by blast
  have "length cs \<le> length rs" unfolding rs(2) by (rule accepted_short)
  then have "length cs \<le> length ?K" using mapM_r_length [OF rs(1)] ps(1) by simp
  then have bound: "int (length cs) \<le> n" if "ec_max config = Some n" for n
    using that K(1) max_positive [OF config that] by (simp add: le_nat_iff)
  have source: "(\<exists>n \<in> set (cg_nodes g). gn_id n = ca_component c \<and> scope_for_node n = Some (ca_scope c)
        \<and> filter_reason n (ca_scope c) (layer_index n) (ec_filters config) = None)
      \<and> mr_targets (ca_request c) = [ca_component c]
      \<and> (\<exists>t. resolve_mutation_targets repr (ca_request c) canonical = Inr t
           \<and> ca_affected c = affected_components t \<and> ca_constraints c = rr_constraint_ids t)" if c: "c \<in> set cs" for c
  proof -
    have "Some c \<in> set rs" using c unfolding rs(2) by (auto simp: accepted_def map_filter_def)
    then obtain p where p: "p \<in> set ?ps" "planned tr run_id p = Inr (Some c)" using mapM_r_memberD [OF rs(1)] by metis
    have "offered (ec_filters config) (set (cg_nodes canonical)) p" using p(1) ps(2) K(2) scan by auto
    then have off: "pk_node p \<in> set (cg_nodes g)" "scope_for_node (pk_node p) = Some (pk_scope p)"
      "pk_layer p = layer_index (pk_node p)" "filter_reason (pk_node p) (pk_scope p) (pk_layer p) (ec_filters config) = None"
      "mr_targets (pk_request p) = [gn_id (pk_node p)]"
      unfolding offered_def mset_eq_setD [OF nodes] by blast+
    from p(2) obtain t where t: "resolve tr (pk_request p) = Inr t" "ca_affected c = affected_components t"
      "ca_constraints c = rr_constraint_ids t" "ca_component c = gn_id (pk_node p)" "ca_scope c = pk_scope p"
      "ca_request c = pk_request p" by (rule planned_fields)
    have "resolve_mutation_targets repr (ca_request c) canonical = Inr t"
      by (simp add: resolve_mutation_targets_def parts(2) t(1,6))
    then show ?thesis using off t(2-6) by (intro conjI bexI [of _ "pk_node p"] exI [of _ t]) simp_all
  qed
  have "er_nodes r = length (cg_nodes g)" using parts(7) nodes by (metis size_mset)
  then show ?thesis using sum parts(6,9,10) bound source parts(1) by simp
qed

text \<open>
  C26. A bounded enumeration is a prefix of the full one. When the ranks of the eligible nodes differ and the full
  enumeration returns, the enumeration with a maximum returns as well, and its candidates are the first ones of
  the full enumeration, in the same order: all of them up to the first \<open>n\<close> by rank, less those the planner rejects.
\<close>
theorem sample_is_prefix:
  assumes config: "enumerator_config_init config = Inr config" and n: "ec_max config = Some n"
    and full: "enumerate_mutation_candidates repr g run_id (unbounded config) = Inr r"
    and ranks: "\<And>canonical s. build_graph (cg_nodes g) (cg_edges g) (cg_constraints g) = Inr canonical
      \<Longrightarrow> scan_nodes (unbounded config) (cg_nodes canonical) = Inr s \<Longrightarrow> distinct (map rank_key (sc_selected s))"
  shows "\<exists>r' k. enumerate_mutation_candidates repr g run_id config = Inr r' \<and> er_candidates r' = take k (er_candidates r)
    \<and> k \<le> nat n \<and> (length (er_candidates r) = er_eligible r \<longrightarrow> k = min (nat n) (er_eligible r)) \<and> er_eligible r' = er_eligible r"
proof -
  have unb: "unbounded (unbounded config) = unbounded config" "ec_max (unbounded config) = None" by (simp_all add: unbounded_def)
  obtain canonical tr s ex cs where parts: "build_graph (cg_nodes g) (cg_edges g) (cg_constraints g) = Inr canonical"
    "resolver_init repr canonical = Inr tr" "scan_nodes (unbounded config) (cg_nodes canonical) = Inr s"
    "foldM_r (plan_candidate tr run_id) (sampled_out (unbounded config) (bound_scan None s), [])
       (selected_candidates (kept None (sc_selected s))) = Inr (ex, cs)"
    "er_candidates r = cs" "er_eligible r = sc_eligible s" "distinct (map ca_id cs)" "has_prefix ''run_'' run_id"
    using enumeration_parts [OF full] unfolding unb by metis
  have pos: "0 < n" using max_positive [OF config n] .
  let ?es = "sc_selected s"
  have "selected_candidates (kept (Some n) ?es) = take (nat n) (selected_candidates ?es)"
    using bounded_selection [of "nat n" ?es] ranks [OF parts(1,3)] pos
    by (simp add: selected_candidates_def kept_def take_map)
  moreover obtain rs where rs: "mapM_r (planned tr run_id) (selected_candidates ?es) = Inr rs" "cs = accepted rs"
    using plan_loop [OF parts(4)] by (auto simp: kept_all)
  moreover have "mapM_r (planned tr run_id) (take (nat n) (selected_candidates ?es)) = Inr (take (nat n) rs)"
    using rs(1) by (simp add: mapM_r_Inr_iff list_all2_takeI)
  ultimately have "mapM_r (planned tr run_id) (selected_candidates (kept (Some n) ?es)) = Inr (take (nat n) rs)" by simp
  from plan_loop_total [OF this, of "sampled_out config (bound_scan (Some n) s)" "[]"] obtain ex' where
    plan: "foldM_r (plan_candidate tr run_id) (sampled_out config (bound_scan (Some n) s), [])
      (selected_candidates (kept (Some n) ?es)) = Inr (ex', accepted (take (nat n) rs))" by auto
  let ?m = "nat n"
  let ?cs = "accepted (take ?m rs)"
  have all: "accepted rs = ?cs @ accepted (drop ?m rs)" by (metis accepted_simps(2) append_take_drop_id)
  have len: "length rs = sc_eligible s" using mapM_r_length [OF rs(1)] scan_nodes_ok [OF parts(3)]
    by (simp add: selected_candidates_def scan_ok_def)
  have k: "length ?cs \<le> ?m" using accepted_short [of "take ?m rs"] by simp
  have exact: "length ?cs = min ?m (sc_eligible s)" if "length cs = sc_eligible s"
  proof -
    have "length ?cs + length (accepted (drop ?m rs)) = length rs" using that rs(2) all len by simp
    moreover have "length ?cs \<le> min ?m (length rs)" "length (accepted (drop ?m rs)) \<le> length rs - ?m"
      using accepted_short [of "take ?m rs"] accepted_short [of "drop ?m rs"] by simp_all
    ultimately show ?thesis using fills_up unfolding len [symmetric] by blast
  qed
  have ok: "reasons_ok (sampled_out config (bound_scan (Some n) s))"
    using scan_nodes_ok [OF parts(3)] by (simp add: sampled_out_def bound_scan_def scan_ok_def)
  then have ex': "reasons_ok ex'" using plan_counts [OF plan] by blast
  let ?counts = "filter (\<lambda>x. 0 < snd x) (sort_key fst ex')"
  have "\<forall>x \<in> set ?counts. exclusion_init x = Inr x"
    using ex' by (auto simp: exclusion_init_def reasons_ok_def image_iff)
  then have counts: "mapM_r exclusion_init ?counts = Inr ?counts"
    by (simp add: mapM_r_Inr_iff list_all2_same)
  let ?r = "\<lparr>er_version = CANDIDATE_ENUMERATOR_VERSION, er_seed = ec_seed config,
    er_nodes = length (cg_nodes canonical), er_eligible = sc_eligible s, er_candidates = ?cs, er_exclusions = ?counts\<rparr>"
  have "distinct (map ca_id ?cs)" using parts(7) rs(2) all by simp
  moreover have "distinct (map fst (sort_key fst ex'))" using ex' by (simp add: reasons_ok_def distinct_map)
  then have "distinct (map fst ?counts)" by (rule distinct_map_filter)
  moreover have "sorted (map fst ?counts)" by (rule sorted_filter) (rule sorted_sort_key)
  ultimately have "enumeration_report_init ?r = Inr ?r" by (simp add: enumeration_report_init_def Let_def sorted_sort_id)
  then have "enumerate_mutation_candidates repr g run_id config = Inr ?r"
    using parts(1,2,3,8) plan counts n
    by (simp add: enumerate_mutation_candidates_def scan_bounded [of config] bound_scan_def)
  moreover have "?cs = take (length ?cs) (er_candidates r)" using parts(5) rs(2) all by simp
  ultimately show ?thesis using k exact parts(5,6) by (intro exI [of _ ?r] exI [of _ "length ?cs"]) simp
qed

section \<open>A graph of two nodes\<close>

text \<open>One projection and one node of a kind that is not supported; the hashes stay symbolic.\<close>

definition sample_node :: "string \<Rightarrow> string \<Rightarrow> graph_node" where
  "sample_node s k = \<lparr>gn_id = target_demo_id s, gn_kind = lit k, gn_attributes = []\<rparr>"

definition sample_graph :: component_graph where
  "sample_graph = \<lparr>cg_nodes = [sample_node ''k'' ''projection'', sample_node ''w'' ''tokenizer''],
     cg_edges = [], cg_constraints = [], cg_version = 1\<rparr>"

definition sample_config :: "int option \<Rightarrow> enumerator_config" where
  "sample_config m = \<lparr>ec_seed = 7, ec_filters = \<lparr>cf_scopes = [COMPONENT], cf_include_kinds = [], cf_exclude_kinds = [],
     cf_include_prefixes = [], cf_exclude_prefixes = [], cf_layers = []\<rparr>, ec_max = m\<rparr>"

definition sample_request :: mutation_request where
  "sample_request = \<lparr>mr_kind = MASK, mr_targets = [target_demo_id ''k''],
     mr_parameters = [(lit ''candidate_scope'', PStr (lit ''component''))], mr_version = 1\<rparr>"

lemma hex64_chars:
  assumes "is_hex64 m"
  shows "m \<noteq> []" "list_all (\<lambda>c. hex_value c \<noteq> None) m" "list_all (\<lambda>c. c < 128) m" "concat (map json_char_unicode m) = m"
proof -
  have "48 \<le> c \<and> c \<le> 57 \<or> 97 \<le> c \<and> c \<le> 102" if "c \<in> set m" for c using assms that by (simp add: is_hex64_def list_all_iff)
  then show "list_all (\<lambda>c. hex_value c \<noteq> None) m" "list_all (\<lambda>c. c < 128) m"
    by (force simp: list_all_iff hex_value_def)+
  have "json_char_unicode c = [c]" if "c \<in> set m" for c
    using \<open>c \<in> set m \<Longrightarrow> 48 \<le> c \<and> c \<le> 57 \<or> 97 \<le> c \<and> c \<le> 102\<close> [OF that] by (auto simp: json_char_unicode_def json_char_def)
  then show "concat (map json_char_unicode m) = m" by (induction m) auto
  show "m \<noteq> []" using assms by (auto simp: is_hex64_def)
qed

lemma sample_mutation: "\<exists>m. mutation_id sample_request = Inr m \<and> is_hex64 m"
proof -
  have "(case request_record sample_request of Inl _ \<Rightarrow> False | Inr j \<Rightarrow>
      (case json_dumps_unicode j of None \<Rightarrow> False | Some t \<Rightarrow> encode_utf8 t \<noteq> None))" by code_simp
  then show ?thesis by (auto simp: mutation_id_def hexdigest_is_hex64 split: sum.splits option.splits)
qed

lemma sample_identity:
  assumes m: "is_hex64 m"
  shows "\<exists>i. derive_candidate_identity (lit ''run_0'') m = Inr i"
proof -
  let ?p = "JObj [(lit ''identity_schema_version'', JInt IDENTITY_SCHEMA_VERSION),
     (lit ''run_id'', JStr (lit ''run_0'')), (lit ''mutation_id'', JStr m)]"
  have c: "canonicalize_identity_value ?p = Inr (JObj [(lit ''identity_schema_version'', JInt 1), (lit ''mutation_id'', JStr m),
     (lit ''run_id'', JStr (lit ''run_0''))])"
    by (simp add: IDENTITY_SCHEMA_VERSION_def lit_simps)
  have "py_str_int 1 = Some (lit ''1'')" by code_simp
  then obtain t where t: "json_dumps_unicode (JObj [(lit ''identity_schema_version'', JInt 1), (lit ''mutation_id'', JStr m),
     (lit ''run_id'', JStr (lit ''run_0''))]) = Some t" "list_all (\<lambda>c. c < 128) t"
    using hex64_chars(3,4) [OF m]
    by (simp add: json_dumps_unicode_def json_string_def comma_join_def lit_simps json_char_unicode_def json_char_def)
  then obtain e where "encode_utf8 t = Some e" using ascii_encodes by blast
  then show ?thesis
    using c t(1) hex64_chars(1) [OF m]
    by (simp add: derive_candidate_identity_def identity_digest_def canonical_identity_json_def has_prefix_def lit_simps
        del: canonicalize_identity_value.simps)
qed

lemma sample_facts:
  "build_graph (cg_nodes sample_graph) (cg_edges sample_graph) (cg_constraints sample_graph) = Inr sample_graph"
  "enumerator_config_init (sample_config (Some 1)) = Inr (sample_config (Some 1))"
  "scope_for_node (sample_node ''k'' ''projection'') = Some COMPONENT" "scope_for_node (sample_node ''w'' ''tokenizer'') = None"
  "layer_index (sample_node ''k'' ''projection'') = None"
  "filter_reason (sample_node ''k'' ''projection'') COMPONENT None (ec_filters (sample_config m)) = None"
  "request_for_node (sample_node ''k'' ''projection'') COMPONENT None = Inr (Some sample_request)"
  "case resolver_init (\<lambda>_. []) sample_graph of Inl _ \<Rightarrow> False | Inr tr \<Rightarrow>
     (case resolve tr sample_request of Inl _ \<Rightarrow> False | Inr t \<Rightarrow> affected_components t = [target_demo_id ''k''])"
  by (code_simp, code_simp, code_simp, code_simp, code_simp, simp add: sample_config_def filter_reason_def, code_simp, code_simp)

lemma sample_scan:
  "\<exists>e. scan_nodes (sample_config m) (cg_nodes sample_graph) = Inr \<lparr>sc_exclusions = [(lit ''unsupported-kind:tokenizer'', 1)],
     sc_selected = keep_bounded m [] e, sc_eligible = 1\<rparr> \<and> pk_request (rk_candidate e) = sample_request
     \<and> pk_node (rk_candidate e) = sample_node ''k'' ''projection''"
proof -
  obtain i where i: "mutation_id sample_request = Inr i" "is_hex64 i" using sample_mutation by blast
  obtain n where n: "py_int16 i = Some n" using py_int16_hex hex64_chars(1,2) [OF i(2)] by blast
  have seven: "py_str_int 7 = Some (lit ''7'')" by code_simp
  let ?p = "\<lparr>pk_scope = COMPONENT, pk_node = sample_node ''k'' ''projection'', pk_layer = None, pk_request = sample_request\<rparr>"
  obtain e where e: "ranked 7 ?p = Inr e" "rk_candidate e = ?p"
    using i(1) n seven by (simp add: ranked_def rank_of_def)
  have c: "ec_seed (sample_config m) = 7" "ec_max (sample_config m) = m" by (simp_all add: sample_config_def)
  have nodes: "cg_nodes sample_graph = [sample_node ''k'' ''projection'', sample_node ''w'' ''tokenizer'']"
    by (simp add: sample_graph_def)
  have "scan_nodes (sample_config m) (cg_nodes sample_graph) = Inr \<lparr>sc_exclusions = [(lit ''unsupported-kind:tokenizer'', 1)],
     sc_selected = keep_bounded m [] e, sc_eligible = 1\<rparr>"
    unfolding nodes using e(1)
    by (simp add: scan_nodes_def scan_node_def sample_facts c select_bounded_def exclude_def count_reason_def)
      (simp add: sample_node_def lit_simps)
  with e(2) show ?thesis by (intro exI [of _ e]) simp
qed

lemma sample_runs:
  assumes m: "m = None \<or> m = Some 1"
  shows "\<exists>r. enumerate_mutation_candidates (\<lambda>_. []) sample_graph (lit ''run_0'') (sample_config m) = Inr r
    \<and> map ca_component (er_candidates r) = [target_demo_id ''k''] \<and> er_eligible r = 1
    \<and> er_exclusions r = [(lit ''unsupported-kind:tokenizer'', 1)]"
proof -
  obtain e where scan: "scan_nodes (sample_config m) (cg_nodes sample_graph) = Inr \<lparr>sc_exclusions =
     [(lit ''unsupported-kind:tokenizer'', 1)], sc_selected = keep_bounded m [] e, sc_eligible = 1\<rparr>"
    "pk_request (rk_candidate e) = sample_request" "pk_node (rk_candidate e) = sample_node ''k'' ''projection''"
    using sample_scan by blast
  have keep: "keep_bounded m [] e = [e]" using m by (auto simp: keep_bounded_def heappush_def siftdown.simps)
  from sample_facts(8) obtain tr t where tr: "resolver_init (\<lambda>_. []) sample_graph = Inr tr"
    "resolve tr sample_request = Inr t" "affected_components t = [target_demo_id ''k'']" by (auto split: sum.splits)
  obtain i where i: "mutation_id sample_request = Inr i" "is_hex64 i" using sample_mutation by blast
  obtain c where c: "derive_candidate_identity (lit ''run_0'') i = Inr c" using sample_identity [OF i(2)] by blast
  let ?c = "\<lparr>ca_id = c, ca_scope = pk_scope (rk_candidate e), ca_component = target_demo_id ''k'',
    ca_kind = lit ''projection'', ca_layer = pk_layer (rk_candidate e), ca_request = sample_request,
    ca_affected = [target_demo_id ''k''], ca_constraints = rr_constraint_ids t\<rparr>"
  have node: "gn_id (sample_node ''k'' ''projection'') = target_demo_id ''k''" "gn_kind (sample_node ''k'' ''projection'') = lit ''projection''"
    by (simp_all add: sample_node_def)
  have "mutation_candidate_init ?c = Inr ?c"
    using derived_prefix(2) [OF c] by (simp add: mutation_candidate_init_def sample_request_def)
  then have plan: "plan_candidate tr (lit ''run_0'') (x, []) (rk_candidate e) = Inr (x, [?c])" for x
    using tr i(1) c scan(2,3) by (simp add: plan_candidate_def node)
  let ?x = "[(lit ''unsupported-kind:tokenizer'', 1 :: nat)]"
  have s: "sampled_out (sample_config m) \<lparr>sc_exclusions = ?x, sc_selected = [e], sc_eligible = 1\<rparr> = ?x"
    by (simp add: sampled_out_def)
  have x: "exclusion_init (lit ''unsupported-kind:tokenizer'', 1) = Inr (lit ''unsupported-kind:tokenizer'', 1)"
    by (simp add: exclusion_init_def lit_simps)
  have run: "has_prefix ''run_'' (lit ''run_0'')" by code_simp
  show ?thesis
    using sample_facts(1) tr(1) scan(1) plan run
    by (simp add: enumerate_mutation_candidates_def keep s [unfolded One_nat_def] x [unfolded One_nat_def]
        selected_candidates_def enumeration_report_init_def CANDIDATE_ENUMERATOR_VERSION_def)
qed

theorem report_accounts_for_nodes_witness:
  "\<exists>r. enumerate_mutation_candidates (\<lambda>_. []) sample_graph (lit ''run_0'') (sample_config (Some 1)) = Inr r
     \<and> length (er_candidates r) = 1 \<and> length (er_candidates r) + sum_list (map snd (er_exclusions r)) = length (cg_nodes sample_graph)"
proof -
  obtain r where r: "enumerate_mutation_candidates (\<lambda>_. []) sample_graph (lit ''run_0'') (sample_config (Some 1)) = Inr r"
    "map ca_component (er_candidates r) = [target_demo_id ''k'']" 
    using sample_runs [of "Some 1", OF disjI2 [OF refl]] by (elim exE conjE)
  have "length (er_candidates r) = length (map ca_component (er_candidates r))" by simp
  also have "\<dots> = 1" unfolding r(2) by simp
  finally have one: "length (er_candidates r) = 1" .
  have "er_nodes r = length (cg_nodes sample_graph)"
    "length (er_candidates r) + sum_list (map snd (er_exclusions r)) = er_nodes r"
    using report_accounts_for_nodes [OF sample_facts(2) r(1)] by blast+
  with r(1) one show ?thesis by (intro exI [of _ r]) simp
qed

theorem sample_is_prefix_witness:
  "\<exists>r r' k. enumerate_mutation_candidates (\<lambda>_. []) sample_graph (lit ''run_0'') (unbounded (sample_config (Some 1))) = Inr r
     \<and> enumerate_mutation_candidates (\<lambda>_. []) sample_graph (lit ''run_0'') (sample_config (Some 1)) = Inr r'
     \<and> er_candidates r \<noteq> [] \<and> er_candidates r' = take k (er_candidates r)"
proof -
  have u: "unbounded (sample_config (Some 1)) = sample_config None" by (simp add: unbounded_def sample_config_def)
  obtain r where r: "enumerate_mutation_candidates (\<lambda>_. []) sample_graph (lit ''run_0'') (unbounded (sample_config (Some 1))) = Inr r"
    "map ca_component (er_candidates r) = [target_demo_id ''k'']" 
    using sample_runs [of None, OF disjI1 [OF refl]] unfolding u by (elim exE conjE)
  have ranks: "distinct (map rank_key (sc_selected s))"
    if "build_graph (cg_nodes sample_graph) (cg_edges sample_graph) (cg_constraints sample_graph) = Inr canonical"
      "scan_nodes (unbounded (sample_config (Some 1))) (cg_nodes canonical) = Inr s" for canonical s
    using that sample_scan [of None] by (auto simp: sample_facts(1) u keep_bounded_def)
  have "ec_max (sample_config (Some 1)) = Some 1" by (simp add: sample_config_def)
  note config_max = this
  have "\<exists>r' k. enumerate_mutation_candidates (\<lambda>_. []) sample_graph (lit ''run_0'') (sample_config (Some 1)) = Inr r'
      \<and> er_candidates r' = take k (er_candidates r) \<and> k \<le> nat 1
      \<and> (length (er_candidates r) = er_eligible r \<longrightarrow> k = min (nat 1) (er_eligible r)) \<and> er_eligible r' = er_eligible r"
    by (rule sample_is_prefix [OF sample_facts(2) config_max r(1)]) (rule ranks)
  then obtain r' k where
    "enumerate_mutation_candidates (\<lambda>_. []) sample_graph (lit ''run_0'') (sample_config (Some 1)) = Inr r'"
    "er_candidates r' = take k (er_candidates r)" by (elim exE conjE)
  moreover have "er_candidates r \<noteq> []" using r(2) by (cases "er_candidates r") simp_all
  ultimately show ?thesis using r(1) by (intro exI conjI)
qed

end
