(* ===== verification/GpuCleanup.thy ===== *)
theory GpuCleanup
  imports GraphRemap PyJsonText
begin

text \<open>
  \<open>experiments/gpu_cleanup.py\<close>: the boundary that owns the resources of one attempt and releases them.
  Everything the boundary calls (clean-up functions, the CUDA provider, the memory probe, the collector)
  is an action on a world: it changes the world and returns a value or raises. The actions do not call
  back into the boundary.
\<close>

section \<open>Exceptions and actions\<close>

text \<open>\<open>isinstance(e, MemoryError)\<close>, the name and module of the type, \<open>str(e)\<close>, and the added notes.\<close>

record py_exception =
  ex_memory :: bool
  ex_type :: pystr
  ex_module :: pystr
  ex_text :: pystr
  ex_notes :: "pystr list"

type_synonym ('w, 'a) action = "'w \<Rightarrow> 'w \<times> (py_exception + 'a)"

definition abind :: "('w, 'a) action \<Rightarrow> ('a \<Rightarrow> ('w, 'b) action) \<Rightarrow> ('w, 'b) action" where
  "abind m f w = (case m w of (w', Inl e) \<Rightarrow> (w', Inl e) | (w', Inr x) \<Rightarrow> f x w')"

definition areturn :: "py_exception + 'a \<Rightarrow> ('w, 'a) action" where
  "areturn r w = (w, r)"

definition cleanup_error :: "pystr \<Rightarrow> py_exception" where
  "cleanup_error m = \<lparr>ex_memory = False, ex_type = lit ''GPUCleanupError'',
     ex_module = lit ''modelsurgeon.experiments.gpu_cleanup'', ex_text = m, ex_notes = []\<rparr>"

definition cleanup_fail :: "string \<Rightarrow> py_exception" where
  "cleanup_fail s = cleanup_error (lit s)"

section \<open>Reports\<close>

definition GPU_CLEANUP_VERSION :: pystr where
  "GPU_CLEANUP_VERSION = lit ''1''"

record memory_snapshot =
  ms_rss_bytes :: "int option"
  ms_allocated_bytes :: "int option"
  ms_reserved_bytes :: "int option"

definition memory_snapshot_init :: "memory_snapshot \<Rightarrow> py_exception + memory_snapshot" where
  "memory_snapshot_init m =
     rbind (raise_if (list_ex (\<lambda>v. case v of None \<Rightarrow> False | Some n \<Rightarrow> n < 0)
                [ms_rss_bytes m, ms_allocated_bytes m, ms_reserved_bytes m])
              (cleanup_fail ''cleanup memory snapshots cannot contain negative values'')) (\<lambda>_. Inr m)"

record cleanup_failure =
  cf_resource :: pystr
  cf_exception_type :: pystr
  cf_message :: pystr

definition cleanup_failure_init :: "cleanup_failure \<Rightarrow> py_exception + cleanup_failure" where
  "cleanup_failure_init f =
     rbind (raise_if (cf_resource f = [] \<or> cf_exception_type f = [])
              (cleanup_fail ''cleanup failures require resource and exception type'')) (\<lambda>_. Inr f)"

definition cleanup_failure_record :: "cleanup_failure \<Rightarrow> json" where
  "cleanup_failure_record f = JObj [(lit ''resource'', JStr (cf_resource f)),
     (lit ''exception_type'', JStr (cf_exception_type f)), (lit ''message'', JStr (cf_message f))]"

record cleanup_report =
  cr_version :: pystr
  cr_released :: "pystr list"
  cr_failures :: "cleanup_failure list"
  cr_gc_collected :: int
  cr_before :: memory_snapshot
  cr_after :: memory_snapshot
  cr_cuda_cleared :: bool

definition cleanup_report_init :: "cleanup_report \<Rightarrow> py_exception + cleanup_report" where
  "cleanup_report_init r =
     rbind (raise_if (cr_version r \<noteq> GPU_CLEANUP_VERSION)
              (cleanup_error (lit ''unsupported GPU cleanup report version '' @ cr_version r))) (\<lambda>_.
     rbind (raise_if (\<not> distinct (cr_released r)) (cleanup_fail ''cleanup report resource names must be unique'')) (\<lambda>_.
     rbind (raise_if (cr_gc_collected r < 0) (cleanup_fail ''GC collected count cannot be negative'')) (\<lambda>_. Inr r)))"

definition retained_rss_bytes :: "cleanup_report \<Rightarrow> int option" where
  "retained_rss_bytes r = ms_rss_bytes (cr_after r)"

definition retained_cuda_allocated_bytes :: "cleanup_report \<Rightarrow> int option" where
  "retained_cuda_allocated_bytes r = ms_allocated_bytes (cr_after r)"

definition retained_cuda_reserved_bytes :: "cleanup_report \<Rightarrow> int option" where
  "retained_cuda_reserved_bytes r = ms_reserved_bytes (cr_after r)"

definition optional_int_json :: "int option \<Rightarrow> json" where
  "optional_int_json v = (case v of None \<Rightarrow> JNull | Some n \<Rightarrow> JInt n)"

definition memory_snapshot_record :: "memory_snapshot \<Rightarrow> json" where
  "memory_snapshot_record m = JObj [(lit ''rss_bytes'', optional_int_json (ms_rss_bytes m)),
     (lit ''cuda_allocated_bytes'', optional_int_json (ms_allocated_bytes m)),
     (lit ''cuda_reserved_bytes'', optional_int_json (ms_reserved_bytes m))]"

definition cleanup_report_record :: "cleanup_report \<Rightarrow> json" where
  "cleanup_report_record r = JObj [(lit ''version'', JStr (cr_version r)),
     (lit ''released_resources'', JList (map JStr (cr_released r))),
     (lit ''failures'', JList (map cleanup_failure_record (cr_failures r))),
     (lit ''gc_collected'', JInt (cr_gc_collected r)),
     (lit ''before'', memory_snapshot_record (cr_before r)),
     (lit ''after'', memory_snapshot_record (cr_after r)),
     (lit ''cuda_cache_cleared'', JBool (cr_cuda_cleared r))]"

section \<open>The boundary\<close>

record 'w cuda_provider =
  cu_allocated_bytes :: "('w, int) action"
  cu_reserved_bytes :: "('w, int) action"
  cu_empty_cache :: "('w, unit) action"
  cu_synchronize :: "('w, unit) action"

record ('w, 'v) owned_resource =
  or_name :: pystr
  or_value :: "'v option"
  or_cleanup :: "('w, unit) action option"

record ('w, 'v) cleanup_boundary =
  cb_cuda :: "'w cuda_provider option"
  cb_rss_probe :: "('w, int option) action"
  cb_collect_garbage :: "('w, int) action"
  cb_resources :: "('w, 'v) owned_resource list"
  cb_names :: "pystr list"
  cb_cleaned :: bool
  cb_last_report :: "cleanup_report option"

definition boundary_init ::
  "'w cuda_provider option \<Rightarrow> ('w, int option) action \<Rightarrow> ('w, int) action \<Rightarrow> ('w, 'v) cleanup_boundary" where
  "boundary_init cuda rss_probe collect_garbage =
     \<lparr>cb_cuda = cuda, cb_rss_probe = rss_probe, cb_collect_garbage = collect_garbage,
      cb_resources = [], cb_names = [], cb_cleaned = False, cb_last_report = None\<rparr>"

definition boundary_enter :: "('w, 'v) cleanup_boundary \<Rightarrow> py_exception + unit" where
  "boundary_enter b = raise_if (cb_cleaned b) (cleanup_fail ''cleanup boundary cannot be reused after release'')"

text \<open>The message for a repeated name quotes it with \<open>repr\<close>; only its kind is kept.\<close>

definition own ::
  "('w, 'v) cleanup_boundary \<Rightarrow> pystr \<Rightarrow> 'v \<Rightarrow> ('w, unit) action option
     \<Rightarrow> py_exception + ('w, 'v) cleanup_boundary" where
  "own b name v cleanup =
     rbind (raise_if (cb_cleaned b) (cleanup_fail ''cannot register resources after cleanup'')) (\<lambda>_.
     rbind (raise_if (name = []) (cleanup_fail ''owned resource name is required'')) (\<lambda>_.
     rbind (raise_if (name \<in> set (cb_names b)) (cleanup_fail ''duplicate owned resource name'')) (\<lambda>_.
     Inr (b\<lparr>cb_names := name # cb_names b,
            cb_resources := cb_resources b @ [\<lparr>or_name = name, or_value = Some v, or_cleanup = cleanup\<rparr>]\<rparr>))))"

text \<open>
  The four named registrations. \<open>closer\<close> is the bound \<open>close\<close> or \<open>clear\<close> method of the object, when it
  has a callable one.
\<close>

definition or_else :: "'a option \<Rightarrow> 'a option \<Rightarrow> 'a option" where
  "or_else x y = (case x of None \<Rightarrow> y | Some a \<Rightarrow> Some a)"

definition own_model where
  "own_model b v cleanup = own b (lit ''model'') v cleanup"

definition own_hooks where
  "own_hooks b v cleanup closer = own b (lit ''hooks'') v (or_else cleanup closer)"

definition own_gradients where
  "own_gradients b v cleanup closer = own b (lit ''gradients'') v (or_else cleanup closer)"

definition own_cache where
  "own_cache b v cleanup closer = own b (lit ''cache'') v (or_else cleanup closer)"

definition memory_probe :: "('w, 'v) cleanup_boundary \<Rightarrow> ('w, memory_snapshot) action" where
  "memory_probe b =
     abind (case cb_cuda b of
         None \<Rightarrow> areturn (Inr (None, None))
       | Some cuda \<Rightarrow> abind (cu_allocated_bytes cuda) (\<lambda>allocated.
           abind (cu_reserved_bytes cuda) (\<lambda>reserved. areturn (Inr (Some allocated, Some reserved))))) (\<lambda>(allocated, reserved).
     abind (cb_rss_probe b) (\<lambda>rss.
     areturn (memory_snapshot_init
       \<lparr>ms_rss_bytes = rss, ms_allocated_bytes = allocated, ms_reserved_bytes = reserved\<rparr>)))"

text \<open>\<open>except BaseException as error: failures.append(CleanupFailure(...))\<close>.\<close>

definition record_failure ::
  "pystr \<Rightarrow> py_exception + 'a \<Rightarrow> cleanup_failure list \<Rightarrow> py_exception + cleanup_failure list" where
  "record_failure name outcome failures = (case outcome of
       Inr _ \<Rightarrow> Inr failures
     | Inl error \<Rightarrow> rbind (cleanup_failure_init
         \<lparr>cf_resource = name, cf_exception_type = ex_type error, cf_message = ex_text error\<rparr>) (\<lambda>f.
         Inr (failures @ [f])))"

definition run_cleanup :: "('w, 'v) owned_resource \<Rightarrow> ('w, unit) action" where
  "run_cleanup r = (case or_cleanup r of None \<Rightarrow> areturn (Inr ()) | Some f \<Rightarrow> f)"

text \<open>The loop over \<open>reversed(self._resources)\<close>; it returns the resources with their values dropped.\<close>

fun release_all ::
  "('w, 'v) owned_resource list \<Rightarrow> cleanup_failure list \<Rightarrow> pystr list \<Rightarrow> 'w
     \<Rightarrow> 'w \<times> ('w, 'v) owned_resource list \<times> (py_exception + cleanup_failure list \<times> pystr list)" where
  "release_all [] failures released w = (w, [], Inr (failures, released))"
| "release_all (r # rs) failures released w =
     (let (w1, outcome) = run_cleanup r w in
      case record_failure (or_name r) outcome failures of
        Inl e \<Rightarrow> (w1, r # rs, Inl e)
      | Inr failures' \<Rightarrow>
          let (w2, rs', result) = release_all rs failures' (released @ [or_name r]) w1 in
          (w2, r\<lparr>or_value := None\<rparr> # rs', result))"

text \<open>The CUDA block: whether the cache was cleared, or the error raised on the way.\<close>

definition clear_cuda :: "'w cuda_provider option \<Rightarrow> ('w, bool) action" where
  "clear_cuda cuda = (case cuda of
       None \<Rightarrow> areturn (Inr False)
     | Some c \<Rightarrow> abind (cu_synchronize c) (\<lambda>_. abind (cu_empty_cache c) (\<lambda>_.
         abind (cu_synchronize c) (\<lambda>_. areturn (Inr True)))))"

text \<open>What follows the loop, on the emptied boundary; the resources and names are gone whatever fails here.\<close>

definition finish_cleanup ::
  "('w, 'v) cleanup_boundary \<Rightarrow> memory_snapshot \<Rightarrow> cleanup_failure list \<Rightarrow> pystr list \<Rightarrow> ('w, cleanup_report) action" where
  "finish_cleanup b before failures released w =
     (let (w1, collected) = cb_collect_garbage b w in
      case record_failure (lit ''python-gc'') collected failures of
        Inl e \<Rightarrow> (w1, Inl e)
      | Inr failures1 \<Rightarrow>
          let (w2, cleared) = clear_cuda (cb_cuda b) w1 in
          case record_failure (lit ''cuda-cache'') cleared failures1 of
            Inl e \<Rightarrow> (w2, Inl e)
          | Inr failures2 \<Rightarrow>
              abind (memory_probe b) (\<lambda>after. areturn (cleanup_report_init
                \<lparr>cr_version = GPU_CLEANUP_VERSION, cr_released = released, cr_failures = failures2,
                 cr_gc_collected = (case collected of Inl _ \<Rightarrow> 0 | Inr n \<Rightarrow> n),
                 cr_before = before, cr_after = after,
                 cr_cuda_cleared = (case cleared of Inl _ \<Rightarrow> False | Inr c \<Rightarrow> c)\<rparr>)) w2)"

definition cleanup ::
  "('w, 'v) cleanup_boundary \<Rightarrow> 'w \<Rightarrow> ('w, 'v) cleanup_boundary \<times> 'w \<times> (py_exception + cleanup_report)" where
  "cleanup b w =
     (if cb_cleaned b
      then (b, w, of_option (cleanup_fail ''cleanup boundary is inconsistent'') (cb_last_report b))
      else case memory_probe b w of
          (w1, Inl e) \<Rightarrow> (b, w1, Inl e)
        | (w1, Inr before) \<Rightarrow> (case release_all (rev (cb_resources b)) [] [] w1 of
            (w2, rs, Inl e) \<Rightarrow> (b\<lparr>cb_resources := rev rs\<rparr>, w2, Inl e)
          | (w2, _, Inr (failures, released)) \<Rightarrow>
              let b1 = b\<lparr>cb_resources := [], cb_names := []\<rparr> in
              (case finish_cleanup b1 before failures released w2 of
                 (w3, Inl e) \<Rightarrow> (b1, w3, Inl e)
               | (w3, Inr report) \<Rightarrow> (b1\<lparr>cb_last_report := Some report, cb_cleaned := True\<rparr>, w3, Inr report))))"

text \<open>\<open>__exit__\<close>: \<open>Inl\<close> is an error it raises itself, \<open>Inr\<close> the exception of the body, with its note.\<close>

definition failure_text :: "cleanup_failure \<Rightarrow> pystr" where
  "failure_text f = cf_resource f @ lit '': '' @ cf_exception_type f @ lit '': '' @ cf_message f"

definition boundary_exit ::
  "('w, 'v) cleanup_boundary \<Rightarrow> py_exception option \<Rightarrow> 'w
     \<Rightarrow> ('w, 'v) cleanup_boundary \<times> 'w \<times> (py_exception + py_exception option)" where
  "boundary_exit b exc w = (case cleanup b w of
       (b1, w1, Inl e) \<Rightarrow> (b1, w1, Inl e)
     | (b1, w1, Inr report) \<Rightarrow> (b1, w1,
         if cr_failures report = [] then Inr exc
         else case exc of
             None \<Rightarrow> Inl (cleanup_error (lit ''one or more experiment resources failed cleanup: ''
                       @ join_text (lit ''; '') (map failure_text (cr_failures report))))
           | Some e \<Rightarrow> Inr (Some (e\<lparr>ex_notes := ex_notes e @ [lit ''ModelSurgeon cleanup failures: ''
                       @ join_text (lit ''; '') (map cf_resource (cr_failures report))]\<rparr>))))"

text \<open>\<open>with boundary: value = body(boundary)\<close>.\<close>

definition with_boundary ::
  "(('w, 'v) cleanup_boundary \<Rightarrow> 'w \<Rightarrow> ('w, 'v) cleanup_boundary \<times> 'w \<times> (py_exception + 'a))
     \<Rightarrow> ('w, 'v) cleanup_boundary \<Rightarrow> 'w \<Rightarrow> ('w, 'v) cleanup_boundary \<times> 'w \<times> (py_exception + 'a)" where
  "with_boundary body b w = (case boundary_enter b of
       Inl e \<Rightarrow> (b, w, Inl e)
     | Inr _ \<Rightarrow> (case body b w of (b1, w1, result) \<Rightarrow>
         (case boundary_exit b1 (case result of Inl e \<Rightarrow> Some e | Inr _ \<Rightarrow> None) w1 of
            (b2, w2, Inl e) \<Rightarrow> (b2, w2, Inl e)
          | (b2, w2, Inr (Some e)) \<Rightarrow> (b2, w2, Inl e)
          | (b2, w2, Inr None) \<Rightarrow> (b2, w2, result))))"

section \<open>Ownership\<close>

text \<open>Names are unique, and a released boundary holds nothing but its report.\<close>

definition boundary_ok :: "('w, 'v) cleanup_boundary \<Rightarrow> bool" where
  "boundary_ok b \<longleftrightarrow> distinct (map or_name (cb_resources b)) \<and> set (cb_names b) = set (map or_name (cb_resources b))
     \<and> [] \<notin> set (cb_names b) \<and> (cb_cleaned b \<longleftrightarrow> cb_last_report b \<noteq> None)
     \<and> (cb_cleaned b \<longrightarrow> cb_resources b = [])"

lemma boundary_init_ok [simp]: "boundary_ok (boundary_init cuda rss gc)"
  by (simp add: boundary_ok_def boundary_init_def)

lemma own_Inr:
  "own b name v f = Inr b' \<longleftrightarrow> \<not> cb_cleaned b \<and> name \<noteq> [] \<and> name \<notin> set (cb_names b)
     \<and> b' = b\<lparr>cb_names := name # cb_names b,
          cb_resources := cb_resources b @ [\<lparr>or_name = name, or_value = Some v, or_cleanup = f\<rparr>]\<rparr>"
  by (auto simp: own_def guard_Inr)

lemma own_ok: "boundary_ok b \<Longrightarrow> own b name v f = Inr b' \<Longrightarrow> boundary_ok b'"
  by (auto simp: own_Inr boundary_ok_def)

section \<open>Releasing\<close>

text \<open>The world after every clean-up has run once, and those that raise when their turn comes.\<close>

definition run_all :: "('w, 'v) owned_resource list \<Rightarrow> 'w \<Rightarrow> 'w" where
  "run_all rs w = fold (\<lambda>r w. fst (run_cleanup r w)) rs w"

fun failures_of :: "('w, 'v) owned_resource list \<Rightarrow> 'w \<Rightarrow> cleanup_failure list" where
  "failures_of [] w = []"
| "failures_of (r # rs) w =
     (case snd (run_cleanup r w) of
        Inl e \<Rightarrow> [\<lparr>cf_resource = or_name r, cf_exception_type = ex_type e, cf_message = ex_text e\<rparr>]
      | Inr _ \<Rightarrow> []) @ failures_of rs (fst (run_cleanup r w))"

text \<open>Exceptions have a type name; a boundary's actions raise such exceptions only.\<close>

definition raises_named :: "('w, 'a) action \<Rightarrow> bool" where
  "raises_named f \<longleftrightarrow> (\<forall>w e. snd (f w) = Inl e \<longrightarrow> ex_type e \<noteq> [])"

definition named_boundary :: "('w, 'v) cleanup_boundary \<Rightarrow> bool" where
  "named_boundary b \<longleftrightarrow> (\<forall>r \<in> set (cb_resources b). raises_named (run_cleanup r))
     \<and> raises_named (cb_collect_garbage b) \<and> raises_named (clear_cuda (cb_cuda b))"

lemma record_failure_Inl:
  "name \<noteq> [] \<Longrightarrow> ex_type e \<noteq> [] \<Longrightarrow> record_failure name (Inl e) fs
     = Inr (fs @ [\<lparr>cf_resource = name, cf_exception_type = ex_type e, cf_message = ex_text e\<rparr>])"
  by (simp add: record_failure_def cleanup_failure_init_def)

lemma record_failure_Inr [simp]: "record_failure name (Inr x) fs = Inr fs"
  by (simp add: record_failure_def)

lemma release_all_runs:
  assumes "\<forall>r \<in> set rs. or_name r \<noteq> [] \<and> raises_named (run_cleanup r)"
  shows "\<exists>rs'. release_all rs fs released w
    = (run_all rs w, rs', Inr (fs @ failures_of rs w, released @ map or_name rs))"
  using assms
proof (induction rs arbitrary: fs released w)
  case (Cons r rs)
  obtain w1 outcome where run: "run_cleanup r w = (w1, outcome)" by force
  let ?new = "case outcome of Inl e \<Rightarrow> [\<lparr>cf_resource = or_name r, cf_exception_type = ex_type e, cf_message = ex_text e\<rparr>]
    | Inr _ \<Rightarrow> []"
  have named: "ex_type e \<noteq> []" if "outcome = Inl e" for e
    using Cons.prems that run unfolding raises_named_def by (metis list.set_intros(1) snd_conv)
  have "record_failure (or_name r) outcome fs = Inr (fs @ ?new)"
    using Cons.prems named by (cases outcome) (simp_all add: record_failure_Inl)
  moreover obtain rs' where "release_all rs (fs @ ?new) (released @ [or_name r]) w1
      = (run_all rs w1, rs', Inr ((fs @ ?new) @ failures_of rs w1, (released @ [or_name r]) @ map or_name rs))"
    using Cons.IH [of "fs @ ?new" "released @ [or_name r]" w1] Cons.prems by auto
  ultimately show ?case by (simp add: run run_all_def)
qed (simp add: run_all_def)

text \<open>Clean-up failures of the collector and the CUDA cache, in the order they are tried.\<close>

definition step_failure :: "string \<Rightarrow> py_exception + 'a \<Rightarrow> cleanup_failure list" where
  "step_failure name outcome = (case outcome of
       Inl e \<Rightarrow> [\<lparr>cf_resource = lit name, cf_exception_type = ex_type e, cf_message = ex_text e\<rparr>]
     | Inr _ \<Rightarrow> [])"

lemma record_step:
  "raises_named f \<Longrightarrow> name \<noteq> [] \<Longrightarrow> record_failure (lit name) (snd (f w)) fs = Inr (fs @ step_failure name (snd (f w)))"
  by (cases "snd (f w)")
    (auto simp: raises_named_def step_failure_def lit_def intro!: record_failure_Inl [unfolded lit_def])

lemma finish_cleanup_runs:
  fixes b :: "('w, 'v) cleanup_boundary"
  assumes "raises_named (cb_collect_garbage b)" and "raises_named (clear_cuda (cb_cuda b))"
  shows "\<exists>w1 w2 collected cleared. cb_collect_garbage b w = (w1, collected) \<and> clear_cuda (cb_cuda b) w1 = (w2, cleared)
    \<and> finish_cleanup b before fs released w = abind (memory_probe b) (\<lambda>after. areturn (cleanup_report_init
        \<lparr>cr_version = GPU_CLEANUP_VERSION, cr_released = released,
         cr_failures = fs @ step_failure ''python-gc'' collected @ step_failure ''cuda-cache'' cleared,
         cr_gc_collected = (case collected of Inl _ \<Rightarrow> 0 | Inr n \<Rightarrow> n), cr_before = before, cr_after = after,
         cr_cuda_cleared = (case cleared of Inl _ \<Rightarrow> False | Inr c \<Rightarrow> c)\<rparr>)) w2"
proof -
  obtain w1 collected where gc: "cb_collect_garbage b w = (w1, collected)" by force
  obtain w2 cleared where cuda: "clear_cuda (cb_cuda b) w1 = (w2, cleared)" by force
  have r1: "record_failure (lit ''python-gc'') collected fs = Inr (fs @ step_failure ''python-gc'' collected)"
    using record_step [OF assms(1), of "''python-gc''" w fs] gc by simp
  have r2: "record_failure (lit ''cuda-cache'') cleared fs' = Inr (fs' @ step_failure ''cuda-cache'' cleared)" for fs'
    using record_step [OF assms(2), of "''cuda-cache''" w1 fs'] cuda by simp
  show ?thesis by (intro exI [of _ w1] exI [of _ w2] exI [of _ collected] exI [of _ cleared])
      (simp add: finish_cleanup_def gc cuda r1 r2)
qed

lemma memory_probe_cong [simp]:
  "memory_probe (b\<lparr>cb_resources := rs, cb_names := ns\<rparr>) = memory_probe b"
  by (simp add: memory_probe_def fun_eq_iff)

text \<open>The released boundary, and the report when there is one.\<close>

definition releases ::
  "('w, 'v) cleanup_boundary \<Rightarrow> 'w \<Rightarrow> memory_snapshot \<Rightarrow> ('w, 'v) cleanup_boundary \<Rightarrow> 'w \<Rightarrow> py_exception + cleanup_report \<Rightarrow> bool"
where
  "releases b w1 before b' w' result \<longleftrightarrow>
     cb_resources b' = [] \<and> cb_names b' = [] \<and> boundary_ok b'
     \<and> (let owned = rev (cb_resources b);
            (w2, collected) = cb_collect_garbage b (run_all owned w1);
            (w3, cleared) = clear_cuda (cb_cuda b) w2
        in w' = fst (memory_probe b w3)
         \<and> (case result of
              Inl _ \<Rightarrow> \<not> cb_cleaned b'
            | Inr report \<Rightarrow> cr_released report = map or_name owned \<and> cr_before report = before
                \<and> cr_failures report = failures_of owned w1
                    @ step_failure ''python-gc'' collected @ step_failure ''cuda-cache'' cleared
                \<and> cr_cuda_cleared report = (cleared = Inr True)
                \<and> (\<forall>w. cleanup b' w = (b', w, Inr report))))"


text \<open>A value passes the boundary only when every step succeeded; an exception passes it with its notes.\<close>

lemma with_boundary_value:
  assumes "with_boundary body b w = (b', w', Inr v)"
  shows "\<exists>b1 w1. body b w = (b1, w1, Inr v)" and "\<exists>report. cb_last_report b' = Some report \<and> cr_failures report = []"
proof -
  have kept: "cb_last_report b2 = Some report" if "cleanup b1 w1 = (b2, w2, Inr report)" for b1 w1 b2 w2 report
    using that by (auto simp: cleanup_def Let_def split: if_splits prod.splits sum.splits)
  show "\<exists>b1 w1. body b w = (b1, w1, Inr v)" and "\<exists>report. cb_last_report b' = Some report \<and> cr_failures report = []"
    using assms by (auto simp: with_boundary_def boundary_exit_def
        split: sum.splits prod.splits option.splits if_splits dest!: kept)
qed

section \<open>A run\<close>

text \<open>A world that logs: the hooks fail to close, the CUDA cache cannot be emptied.\<close>

definition log_as :: "nat \<Rightarrow> py_exception + 'a \<Rightarrow> (nat list, 'a) action" where
  "log_as n r w = (w @ [n], r)"

definition demo_exception :: "string \<Rightarrow> py_exception" where
  "demo_exception s = \<lparr>ex_memory = False, ex_type = lit ''RuntimeError'', ex_module = lit ''builtins'',
     ex_text = lit s, ex_notes = []\<rparr>"

definition demo_cuda :: "nat list cuda_provider" where
  "demo_cuda = \<lparr>cu_allocated_bytes = log_as 1 (Inr 100), cu_reserved_bytes = log_as 2 (Inr 200),
     cu_empty_cache = log_as 3 (Inl (demo_exception ''driver'')), cu_synchronize = log_as 4 (Inr ())\<rparr>"

definition demo_boundary :: "(nat list, nat) cleanup_boundary" where
  "demo_boundary = \<lparr>cb_cuda = Some demo_cuda, cb_rss_probe = log_as 5 (Inr None), cb_collect_garbage = log_as 6 (Inr 7),
     cb_resources = [\<lparr>or_name = lit ''model'', or_value = Some 0, or_cleanup = Some (log_as 8 (Inr ()))\<rparr>,
       \<lparr>or_name = lit ''hooks'', or_value = Some 1, or_cleanup = Some (log_as 9 (Inl (demo_exception ''closed'')))\<rparr>],
     cb_names = [lit ''hooks'', lit ''model''], cb_cleaned = False, cb_last_report = None\<rparr>"

lemma demo_boundary_owns:
  "rbind (own_model (boundary_init (Some demo_cuda) (log_as 5 (Inr None)) (log_as 6 (Inr 7))) 0 (Some (log_as 8 (Inr ()))))
     (\<lambda>b. own_hooks b 1 (Some (log_as 9 (Inl (demo_exception ''closed'')))) None) = Inr demo_boundary"
  by (simp add: own_model_def own_hooks_def own_def boundary_init_def or_else_def demo_boundary_def lit_simps raise_if_def)

lemma demo_cleanup:
  "(case cleanup demo_boundary [] of (b, w, Inr r) \<Rightarrow>
       w = [1, 2, 5, 9, 8, 6, 4, 3, 1, 2, 5] \<and> cr_released r = [lit ''hooks'', lit ''model'']
       \<and> map cf_resource (cr_failures r) = [lit ''hooks'', lit ''cuda-cache''] \<and> cr_gc_collected r = 7
     | _ \<Rightarrow> False)"
  by code_simp


end
