(* ===== verification/OomRecovery.thy ===== *)
theory OomRecovery
  imports GpuCleanup ExperimentStates
begin

text \<open>
  \<open>experiments/oom_recovery.py\<close>: one stage of a candidate is attempted, and attempted again with less
  memory after each out-of-memory failure, until it succeeds, the retries are used up or nothing is left to
  reduce. The world of the callbacks holds the experiment store, so an operation or a heartbeat may
  change it too.
\<close>

datatype oom_error =
    OomRecovery pystr
  | OomState state_error
  | OomRaised py_exception
  | OomUnprintable

definition oom_fail :: "string \<Rightarrow> oom_error" where
  "oom_fail s = OomRecovery (lit s)"

definition OOM_RECOVERY_VERSION :: pystr where
  "OOM_RECOVERY_VERSION = lit ''1''"

datatype oom_kind = CUDA | HOST

fun oom_kind_value :: "oom_kind \<Rightarrow> pystr" where
  "oom_kind_value CUDA = lit ''cuda''"
| "oom_kind_value HOST = lit ''host''"

datatype oom_action = REDUCE_BATCH | REDUCE_CHUNK | ENABLE_OFFLOAD

fun oom_action_value :: "oom_action \<Rightarrow> pystr" where
  "oom_action_value REDUCE_BATCH = lit ''reduce_batch''"
| "oom_action_value REDUCE_CHUNK = lit ''reduce_chunk''"
| "oom_action_value ENABLE_OFFLOAD = lit ''enable_offload''"

section \<open>Records\<close>

record oom_config =
  oc_batch_size :: int
  oc_chunk_size :: int
  oc_offload :: bool

definition oom_config_init :: "oom_config \<Rightarrow> oom_error + oom_config" where
  "oom_config_init c =
     rbind (raise_if (oc_batch_size c \<le> 0) (oom_fail ''batch_size must be a positive integer'')) (\<lambda>_.
     rbind (raise_if (oc_chunk_size c \<le> 0) (oom_fail ''chunk_size must be a positive integer'')) (\<lambda>_. Inr c))"

definition oom_config_record :: "oom_config \<Rightarrow> json" where
  "oom_config_record c = JObj [(lit ''batch_size'', JInt (oc_batch_size c)),
     (lit ''chunk_size'', JInt (oc_chunk_size c)), (lit ''offload_enabled'', JBool (oc_offload c))]"

record oom_policy =
  op_max_retries :: int
  op_min_batch_size :: int
  op_min_chunk_size :: int
  op_allow_offload :: bool

definition oom_policy_init :: "oom_policy \<Rightarrow> oom_error + oom_policy" where
  "oom_policy_init p =
     rbind (raise_if (op_max_retries p < 0) (oom_fail ''max_retries must be a non-negative integer'')) (\<lambda>_.
     rbind (raise_if (op_min_batch_size p \<le> 0) (oom_fail ''min_batch_size must be a positive integer'')) (\<lambda>_.
     rbind (raise_if (op_min_chunk_size p \<le> 0) (oom_fail ''min_chunk_size must be a positive integer'')) (\<lambda>_.
     Inr p)))"

record oom_event =
  oe_attempt :: nat
  oe_kind :: oom_kind
  oe_exception_type :: pystr
  oe_action :: "oom_action option"
  oe_before :: oom_config
  oe_after :: "oom_config option"

definition oom_event_init :: "oom_event \<Rightarrow> oom_error + oom_event" where
  "oom_event_init e =
     rbind (raise_if (oe_attempt e = 0 \<or> oe_exception_type e = [])
              (oom_fail ''OOM recovery events require an attempt and exception type'')) (\<lambda>_.
     rbind (raise_if ((oe_action e = None) \<noteq> (oe_after e = None))
              (oom_fail ''OOM recovery action and adapted config must be recorded together'')) (\<lambda>_. Inr e))"

definition oom_event_record :: "oom_event \<Rightarrow> json" where
  "oom_event_record e = JObj [(lit ''attempt'', JInt (int (oe_attempt e))),
     (lit ''kind'', JStr (oom_kind_value (oe_kind e))), (lit ''exception_type'', JStr (oe_exception_type e)),
     (lit ''action'', case oe_action e of None \<Rightarrow> JNull | Some a \<Rightarrow> JStr (oom_action_value a)),
     (lit ''before'', oom_config_record (oe_before e)),
     (lit ''after'', case oe_after e of None \<Rightarrow> JNull | Some c \<Rightarrow> oom_config_record c)]"

record 'v oom_result =
  or_version :: pystr
  or_succeeded :: bool
  or_attempts :: nat
  or_result :: "'v option"
  or_final_config :: oom_config
  or_events :: "oom_event list"
  or_reports :: "cleanup_report list"
  or_exhausted :: "oom_kind option"

definition oom_result_init :: "'v oom_result \<Rightarrow> oom_error + 'v oom_result" where
  "oom_result_init r =
     rbind (raise_if (or_version r \<noteq> OOM_RECOVERY_VERSION)
              (OomRecovery (lit ''unsupported OOM recovery version '' @ or_version r))) (\<lambda>_.
     rbind (raise_if (or_attempts r = 0) (oom_fail ''OOM recovery must record at least one attempt'')) (\<lambda>_.
     rbind (raise_if (or_succeeded r = (or_exhausted r \<noteq> None))
              (oom_fail ''OOM recovery success/exhaustion fields are inconsistent'')) (\<lambda>_.
     rbind (raise_if (length (or_reports r) \<noteq> or_attempts r)
              (oom_fail ''each OOM recovery attempt must record one cleanup report'')) (\<lambda>_. Inr r))))"

definition oom_result_record :: "'v oom_result \<Rightarrow> json" where
  "oom_result_record r = JObj [(lit ''version'', JStr (or_version r)), (lit ''succeeded'', JBool (or_succeeded r)),
     (lit ''attempts'', JInt (int (or_attempts r))), (lit ''final_config'', oom_config_record (or_final_config r)),
     (lit ''events'', JList (map oom_event_record (or_events r))),
     (lit ''cleanup_reports'', JList (map cleanup_report_record (or_reports r))),
     (lit ''exhausted_kind'', case or_exhausted r of None \<Rightarrow> JNull | Some k \<Rightarrow> JStr (oom_kind_value k))]"

section \<open>Classification\<close>

text \<open>
  \<open>str.lower\<close> on the characters that can match: the markers are ASCII and hold none of the letters to
  which a character beyond ASCII is lowered on its own (\<open>k\<close>), nor an \<open>i\<close> at their end.
\<close>

definition ascii_lower :: "pystr \<Rightarrow> pystr" where
  "ascii_lower s = map (\<lambda>c. if 0x41 \<le> c \<and> c \<le> 0x5A then c + 0x20 else c) s"

fun has_text :: "pystr \<Rightarrow> pystr \<Rightarrow> bool" where
  "has_text m [] \<longleftrightarrow> m = []"
| "has_text m (c # cs) \<longleftrightarrow> take (length m) (c # cs) = m \<or> has_text m cs"

definition CUDA_MARKERS :: "pystr list" where
  "CUDA_MARKERS = map lit [''cuda out of memory'', ''cuda error: out of memory'',
     ''cublas_status_alloc_failed'', ''cudnn_status_alloc_failed'']"

definition HOST_MARKERS :: "pystr list" where
  "HOST_MARKERS = map lit [''cannot allocate memory'', ''failed to allocate memory'', ''memory allocation failed'']"

definition classify_oom :: "py_exception \<Rightarrow> oom_kind option" where
  "classify_oom error =
     (let exception_name = ascii_lower (ex_type error); module_name = ascii_lower (ex_module error);
          message = ascii_lower (ex_text error)
      in if ex_memory error then Some HOST
         else if list_ex (\<lambda>m. has_text m message) CUDA_MARKERS then Some CUDA
         else if has_text (lit ''outofmemory'') exception_name
                 \<and> (has_text (lit ''torch'') module_name \<or> has_text (lit ''cuda'') message) then Some CUDA
         else if list_ex (\<lambda>m. has_text m message) HOST_MARKERS then Some HOST
         else None)"

section \<open>Adaptation\<close>

definition halve :: "int \<Rightarrow> int \<Rightarrow> int" where
  "halve v minimum = max minimum ((v + 1) div 2)"

definition validate_policy_for_config :: "oom_config \<Rightarrow> oom_policy \<Rightarrow> oom_error + unit" where
  "validate_policy_for_config c p =
     rbind (raise_if (op_min_batch_size p > oc_batch_size c)
              (oom_fail ''min_batch_size cannot exceed the initial batch size'')) (\<lambda>_.
     raise_if (op_min_chunk_size p > oc_chunk_size c)
       (oom_fail ''min_chunk_size cannot exceed the initial chunk size''))"

definition adapt_oom_config :: "oom_config \<Rightarrow> oom_policy \<Rightarrow> oom_error + (oom_action \<times> oom_config) option" where
  "adapt_oom_config c p =
     rbind (validate_policy_for_config c p) (\<lambda>_.
     if oc_batch_size c > op_min_batch_size p then
       rbind (oom_config_init (c\<lparr>oc_batch_size := halve (oc_batch_size c) (op_min_batch_size p)\<rparr>)) (\<lambda>adapted.
       Inr (Some (REDUCE_BATCH, adapted)))
     else if oc_chunk_size c > op_min_chunk_size p then
       rbind (oom_config_init (c\<lparr>oc_chunk_size := halve (oc_chunk_size c) (op_min_chunk_size p)\<rparr>)) (\<lambda>adapted.
       Inr (Some (REDUCE_CHUNK, adapted)))
     else if op_allow_offload p \<and> \<not> oc_offload c then
       rbind (oom_config_init (c\<lparr>oc_offload := True\<rparr>)) (\<lambda>adapted. Inr (Some (ENABLE_OFFLOAD, adapted)))
     else Inr None)"

section \<open>The loop\<close>

definition int_text :: "int \<Rightarrow> oom_error + pystr" where
  "int_text n = of_option OomUnprintable (py_str_int n)"

definition oom_detail :: "string \<Rightarrow> nat \<Rightarrow> oom_kind \<Rightarrow> oom_config \<Rightarrow> oom_action option \<Rightarrow> oom_error + pystr" where
  "oom_detail prefix attempt kind c action =
     rbind (int_text (int attempt)) (\<lambda>a.
     rbind (int_text (oc_batch_size c)) (\<lambda>b.
     rbind (int_text (oc_chunk_size c)) (\<lambda>k.
     Inr (join_text (lit '':'') ([lit prefix, lit ''attempt='' @ a, lit ''kind='' @ oom_kind_value kind,
        lit ''batch='' @ b, lit ''chunk='' @ k, lit ''offload='' @ lit (if oc_offload c then ''1'' else ''0'')]
        @ (case action of None \<Rightarrow> [] | Some x \<Rightarrow> [lit ''action='' @ oom_action_value x]))))))"

text \<open>
  The arguments of a run. An operation gets the configuration and the boundary and returns the boundary
  with what it registered.
\<close>

type_synonym 'x world = "store \<times> 'x"

type_synonym ('x, 'r) boundary = "('x world, 'r) cleanup_boundary"

record ('x, 'r, 'v) oom_run =
  ru_candidate :: pystr
  ru_stage :: work_stage
  ru_policy :: oom_policy
  ru_cleanup_factory :: "('x world, ('x, 'r) boundary) action"
  ru_operation :: "oom_config \<Rightarrow> ('x, 'r) boundary \<Rightarrow> 'x world \<Rightarrow> ('x, 'r) boundary \<times> 'x world \<times> (py_exception + 'v)"
  ru_classifier :: "py_exception \<Rightarrow> oom_kind option"
  ru_heartbeat :: "('x world, unit) action option"

record oom_loop_state =
  ol_config :: oom_config
  ol_events :: "oom_event list"
  ol_reports :: "cleanup_report list"
  ol_attempt :: nat

datatype 'v loop_end = Finished "'v oom_result" | Again oom_loop_state

definition heartbeat :: "('x, 'r, 'v) oom_run \<Rightarrow> ('x world, unit) action" where
  "heartbeat run = (case ru_heartbeat run of None \<Rightarrow> areturn (Inr ()) | Some f \<Rightarrow> f)"

definition change_state :: "('x, 'r, 'v) oom_run \<Rightarrow> candidate_state \<Rightarrow> oom_error + pystr \<Rightarrow> 'x world \<Rightarrow> oom_error + 'x world" where
  "change_state run target detail w =
     rbind detail (\<lambda>d.
     rbind (except (transition_from (fst w) (fst w) (ru_candidate run) target (Some d)) OomState) (\<lambda>(s, _).
     Inr (s, snd w)))"

definition exhausted ::
  "('x, 'r, 'v) oom_run \<Rightarrow> oom_loop_state \<Rightarrow> oom_kind \<Rightarrow> py_exception \<Rightarrow> 'x world \<Rightarrow> 'x world \<times> (oom_error + 'v loop_end)" where
  "exhausted run l kind error w =
     (case oom_event_init \<lparr>oe_attempt = ol_attempt l, oe_kind = kind, oe_exception_type = ex_type error,
             oe_action = None, oe_before = ol_config l, oe_after = None\<rparr> of
        Inl e \<Rightarrow> (w, Inl e)
      | Inr event \<Rightarrow>
         (case change_state run FAILED (oom_detail ''oom-exhausted'' (ol_attempt l) kind (ol_config l) None) w of
            Inl e \<Rightarrow> (w, Inl e)
          | Inr w1 \<Rightarrow> (w1, rbind (oom_result_init
              \<lparr>or_version = OOM_RECOVERY_VERSION, or_succeeded = False, or_attempts = ol_attempt l, or_result = None,
               or_final_config = ol_config l, or_events = ol_events l @ [event], or_reports = ol_reports l,
               or_exhausted = Some kind\<rparr>) (\<lambda>r. Inr (Finished r)))))"

definition retry ::
  "('x, 'r, 'v) oom_run \<Rightarrow> oom_loop_state \<Rightarrow> oom_kind \<Rightarrow> py_exception \<Rightarrow> oom_action \<Rightarrow> oom_config \<Rightarrow> 'x world
     \<Rightarrow> 'x world \<times> (oom_error + 'v loop_end)" where
  "retry run l kind error action adapted w =
     (case oom_event_init \<lparr>oe_attempt = ol_attempt l, oe_kind = kind, oe_exception_type = ex_type error,
             oe_action = Some action, oe_before = ol_config l, oe_after = Some adapted\<rparr> of
        Inl e \<Rightarrow> (w, Inl e)
      | Inr event \<Rightarrow> (case heartbeat run w of
            (w1, Inl e) \<Rightarrow> (w1, Inl (OomRaised e))
          | (w1, Inr _) \<Rightarrow>
             (case change_state run (required_state (ru_stage run))
                     (oom_detail ''oom-retry'' (ol_attempt l) kind adapted (Some action)) w1 of
                Inl e \<Rightarrow> (w1, Inl e)
              | Inr w2 \<Rightarrow> (w2, Inr (Again (l\<lparr>ol_events := ol_events l @ [event], ol_config := adapted\<rparr>))))))"

text \<open>The handler of \<open>except BaseException as error\<close>; the report of the boundary is the one it left.\<close>

definition handle_failure ::
  "('x, 'r, 'v) oom_run \<Rightarrow> oom_loop_state \<Rightarrow> cleanup_report option \<Rightarrow> py_exception \<Rightarrow> 'x world
     \<Rightarrow> 'x world \<times> (oom_error + 'v loop_end)" where
  "handle_failure run l last_report error w = (case last_report of
       None \<Rightarrow> (w, Inl (oom_fail ''attempt cleanup did not produce a report''))
     | Some report \<Rightarrow>
        let l1 = l\<lparr>ol_reports := ol_reports l @ [report]\<rparr> in
        (case ru_classifier run error of
           None \<Rightarrow> (w, Inl (OomRaised error))
         | Some kind \<Rightarrow>
            (case change_state run RECOVERABLE_OOM (oom_detail ''oom'' (ol_attempt l) kind (ol_config l) None) w of
               Inl e \<Rightarrow> (w, Inl e)
             | Inr w1 \<Rightarrow> (case adapt_oom_config (ol_config l) (ru_policy run) of
                  Inl e \<Rightarrow> (w1, Inl e)
                | Inr adaptation \<Rightarrow>
                   (if \<not> int (length (ol_events l)) < op_max_retries (ru_policy run) then exhausted run l1 kind error w1
                    else case adaptation of
                        None \<Rightarrow> exhausted run l1 kind error w1
                      | Some (action, adapted) \<Rightarrow> retry run l1 kind error action adapted w1)))))"

definition handle_success ::
  "oom_loop_state \<Rightarrow> cleanup_report option \<Rightarrow> 'v \<Rightarrow> oom_error + 'v loop_end" where
  "handle_success l last_report v = (case last_report of
       None \<Rightarrow> Inl (oom_fail ''successful attempt cleanup did not produce a report'')
     | Some report \<Rightarrow> rbind (oom_result_init
         \<lparr>or_version = OOM_RECOVERY_VERSION, or_succeeded = True, or_attempts = ol_attempt l, or_result = Some v,
          or_final_config = ol_config l, or_events = ol_events l, or_reports = ol_reports l @ [report],
          or_exhausted = None\<rparr>) (\<lambda>r. Inr (Finished r)))"

definition attempt_once ::
  "('x, 'r, 'v) oom_run \<Rightarrow> oom_loop_state \<Rightarrow> 'x world \<Rightarrow> 'x world \<times> (oom_error + 'v loop_end)" where
  "attempt_once run l0 w =
     (let l = l0\<lparr>ol_attempt := ol_attempt l0 + 1\<rparr> in
      case heartbeat run w of
        (w1, Inl e) \<Rightarrow> (w1, Inl (OomRaised e))
      | (w1, Inr _) \<Rightarrow> (case ru_cleanup_factory run w1 of
            (w2, Inl e) \<Rightarrow> (w2, Inl (OomRaised e))
          | (w2, Inr b) \<Rightarrow> (case with_boundary (ru_operation run (ol_config l)) b w2 of
                (b', w3, Inl error) \<Rightarrow> handle_failure run l (cb_last_report b') error w3
              | (b', w3, Inr v) \<Rightarrow> (w3, handle_success l (cb_last_report b') v))))"

lemma retry_Again:
  "retry run l kind error action adapted w = (w', Inr (Again l')) \<Longrightarrow>
     (\<exists>event. ol_events l' = ol_events l @ [event])"
  by (auto simp: retry_def split: sum.splits prod.splits)

lemma exhausted_not_Again: "exhausted run l kind error w \<noteq> (w', Inr (Again l'))"
  by (auto simp: exhausted_def split: sum.splits)

lemma attempt_Again:
  assumes "attempt_once run l w = (w', Inr (Again l'))"
  shows "int (length (ol_events l)) < op_max_retries (ru_policy run)" and "length (ol_events l') = Suc (length (ol_events l))"
  using assms
  by (auto simp: attempt_once_def handle_failure_def handle_success_def Let_def exhausted_not_Again
      split: sum.splits prod.splits option.splits if_splits dest!: retry_Again)

text \<open>Every further attempt records one more event, and there are at most \<open>max_retries\<close> of those.\<close>

function oom_loop ::
  "('x, 'r, 'v) oom_run \<Rightarrow> oom_loop_state \<Rightarrow> 'x world \<Rightarrow> 'x world \<times> (oom_error + 'v oom_result)" where
  "oom_loop run l w = (case attempt_once run l w of
       (w', Inl e) \<Rightarrow> (w', Inl e)
     | (w', Inr (Finished r)) \<Rightarrow> (w', Inr r)
     | (w', Inr (Again l')) \<Rightarrow> oom_loop run l' w')"
  by pat_completeness auto

termination oom_loop
  by (relation "measure (\<lambda>(run, l, w). nat (op_max_retries (ru_policy run) - int (length (ol_events l))))")
    (auto dest: attempt_Again [OF sym])

declare oom_loop.simps [simp del]

definition run_with_oom_recovery ::
  "('x, 'r, 'v) oom_run \<Rightarrow> oom_config \<Rightarrow> 'x world \<Rightarrow> 'x world \<times> (oom_error + 'v oom_result)" where
  "run_with_oom_recovery run initial w =
     (case current_state (fst w) (ru_candidate run) of
        Inl e \<Rightarrow> (w, Inl (OomState e))
      | Inr current \<Rightarrow>
         (if current \<noteq> Some (required_state (ru_stage run))
          then (w, Inl (OomState (StateError ''OOM recovery requires the active state of its stage'')))
          else case validate_policy_for_config initial (ru_policy run) of
              Inl e \<Rightarrow> (w, Inl e)
            | Inr _ \<Rightarrow> oom_loop run
                \<lparr>ol_config = initial, ol_events = [], ol_reports = [], ol_attempt = 0\<rparr> w))"

section \<open>What an adaptation does\<close>

text \<open>Exactly one of the three reductions, in this order; \<open>None\<close> when nothing is left to reduce.\<close>

definition at_least :: "oom_policy \<Rightarrow> oom_config \<Rightarrow> bool" where
  "at_least p c \<longleftrightarrow> op_min_batch_size p \<le> oc_batch_size c \<and> op_min_chunk_size p \<le> oc_chunk_size c"

definition reduces :: "oom_policy \<Rightarrow> oom_config \<Rightarrow> oom_action \<Rightarrow> oom_config \<Rightarrow> bool" where
  "reduces p c action d \<longleftrightarrow> at_least p d \<and> (case action of
       REDUCE_BATCH \<Rightarrow> oc_batch_size d < oc_batch_size c \<and> oc_batch_size c \<le> 2 * oc_batch_size d
         \<and> d = c\<lparr>oc_batch_size := oc_batch_size d\<rparr>
     | REDUCE_CHUNK \<Rightarrow> oc_batch_size c = op_min_batch_size p
         \<and> oc_chunk_size d < oc_chunk_size c \<and> oc_chunk_size c \<le> 2 * oc_chunk_size d
         \<and> d = c\<lparr>oc_chunk_size := oc_chunk_size d\<rparr>
     | ENABLE_OFFLOAD \<Rightarrow> oc_batch_size c = op_min_batch_size p \<and> oc_chunk_size c = op_min_chunk_size p
         \<and> op_allow_offload p \<and> \<not> oc_offload c \<and> d = c\<lparr>oc_offload := True\<rparr>)"

definition irreducible :: "oom_policy \<Rightarrow> oom_config \<Rightarrow> bool" where
  "irreducible p c \<longleftrightarrow> oc_batch_size c = op_min_batch_size p \<and> oc_chunk_size c = op_min_chunk_size p
     \<and> (op_allow_offload p \<longrightarrow> oc_offload c)"

lemma oom_policy_init_Inr:
  "oom_policy_init p = Inr q \<longleftrightarrow> q = p \<and> 0 \<le> op_max_retries p \<and> 0 < op_min_batch_size p \<and> 0 < op_min_chunk_size p"
  by (auto simp: oom_policy_init_def guard_Inr)

lemma validate_policy_Inr [simp]: "validate_policy_for_config c p = Inr u \<longleftrightarrow> at_least p c"
  by (auto simp: validate_policy_for_config_def guard_Inr at_least_def)

lemma adapt_exact:
  assumes p: "oom_policy_init p = Inr p" and c: "at_least p c"
  shows "case adapt_oom_config c p of
      Inl _ \<Rightarrow> False
    | Inr None \<Rightarrow> irreducible p c
    | Inr (Some (action, d)) \<Rightarrow> reduces p c action d"
proof -
  have pos: "0 < op_min_batch_size p" "0 < op_min_chunk_size p" using p by (simp_all add: oom_policy_init_Inr)
  have le: "op_min_batch_size p \<le> oc_batch_size c" "op_min_chunk_size p \<le> oc_chunk_size c"
    using c by (simp_all add: at_least_def)
  show ?thesis
    using pos le by (auto simp: adapt_oom_config_def validate_policy_for_config_def oom_config_init_def raise_if_def
        halve_def reduces_def irreducible_def at_least_def)
qed

text \<open>A bound on the number of reductions that does not depend on the retries.\<close>

definition reducible :: "oom_policy \<Rightarrow> oom_config \<Rightarrow> nat" where
  "reducible p c = nat (oc_batch_size c - op_min_batch_size p) + nat (oc_chunk_size c - op_min_chunk_size p)
     + (if oc_offload c then 0 else 1)"

lemma reduces_reducible: "reduces p c action d \<Longrightarrow> reducible p d < reducible p c"
  by (cases c; cases d; cases action) (auto simp: reduces_def reducible_def at_least_def)

section \<open>The record of a run\<close>

text \<open>The events lead from one configuration to the next; only the last may record no adaptation.\<close>

fun leads :: "oom_policy \<Rightarrow> oom_config \<Rightarrow> oom_event list \<Rightarrow> oom_config \<Rightarrow> bool" where
  "leads p c [] d \<longleftrightarrow> c = d"
| "leads p c (e # es) d \<longleftrightarrow> oe_before e = c
     \<and> (case (oe_action e, oe_after e) of
          (Some action, Some c') \<Rightarrow> reduces p c action c' \<and> leads p c' es d
        | (None, None) \<Rightarrow> es = [] \<and> c = d
        | _ \<Rightarrow> False)"

definition retried :: "oom_event list \<Rightarrow> bool" where
  "retried es \<longleftrightarrow> (\<forall>e \<in> set es. oe_after e \<noteq> None)"

lemma leads_snoc:
  "leads p c es d \<Longrightarrow> retried es \<Longrightarrow> leads p c (es @ [e]) d' \<longleftrightarrow> leads p d [e] d'"
  by (induction es arbitrary: c) (auto simp: retried_def split: option.splits)

lemma leads_reducible:
  "leads p c es d \<Longrightarrow> retried es \<Longrightarrow> length es + reducible p d \<le> reducible p c"
proof (induction es arbitrary: c)
  case (Cons e es)
  then obtain action c' where "reduces p c action c'" "leads p c' es d" "retried es"
    by (auto simp: retried_def split: option.splits)
  with Cons.IH [of c'] reduces_reducible [of p c action c'] show ?case by simp
qed simp

text \<open>What the loop keeps.\<close>

definition loop_ok :: "oom_policy \<Rightarrow> oom_config \<Rightarrow> oom_loop_state \<Rightarrow> bool" where
  "loop_ok p initial l \<longleftrightarrow> at_least p (ol_config l) \<and> leads p initial (ol_events l) (ol_config l)
     \<and> retried (ol_events l) \<and> map oe_attempt (ol_events l) = [1..<Suc (length (ol_events l))]
     \<and> ol_attempt l = length (ol_events l) \<and> length (ol_reports l) = length (ol_events l)
     \<and> int (length (ol_events l)) \<le> op_max_retries p"

text \<open>The three ways an attempt ends without an error.\<close>

lemma attempt_once_cases:
  assumes "attempt_once run l w = (w', Inr fin)"
  obtains (success) report v where "fin = Finished \<lparr>or_version = OOM_RECOVERY_VERSION, or_succeeded = True,
        or_attempts = ol_attempt l + 1, or_result = Some v, or_final_config = ol_config l, or_events = ol_events l,
        or_reports = ol_reports l @ [report], or_exhausted = None\<rparr>"
        "length (ol_reports l) = ol_attempt l"
    | (failure) report kind name adaptation where
        "adapt_oom_config (ol_config l) (ru_policy run) = Inr adaptation"
        "\<not> int (length (ol_events l)) < op_max_retries (ru_policy run) \<or> adaptation = None"
        "fin = Finished \<lparr>or_version = OOM_RECOVERY_VERSION, or_succeeded = False,
           or_attempts = ol_attempt l + 1, or_result = None, or_final_config = ol_config l,
           or_events = ol_events l @ [\<lparr>oe_attempt = ol_attempt l + 1, oe_kind = kind, oe_exception_type = name,
             oe_action = None, oe_before = ol_config l, oe_after = None\<rparr>],
           or_reports = ol_reports l @ [report], or_exhausted = Some kind\<rparr>"
        "length (ol_reports l) = ol_attempt l"
    | (again) report kind name action adapted where
        "adapt_oom_config (ol_config l) (ru_policy run) = Inr (Some (action, adapted))"
        "int (length (ol_events l)) < op_max_retries (ru_policy run)"
        "fin = Again (l\<lparr>ol_attempt := ol_attempt l + 1, ol_reports := ol_reports l @ [report],
           ol_events := ol_events l @ [\<lparr>oe_attempt = ol_attempt l + 1, oe_kind = kind,
             oe_exception_type = name, oe_action = Some action, oe_before = ol_config l, oe_after = Some adapted\<rparr>],
           ol_config := adapted\<rparr>)"
  using assms
  by (auto simp: attempt_once_def handle_failure_def handle_success_def exhausted_def retry_def Let_def
      oom_event_init_def oom_result_init_def guard_Inr
      split: sum.splits prod.splits option.splits if_splits)

lemma loop_ok_again:
  assumes p: "oom_policy_init (ru_policy run) = Inr (ru_policy run)" and ok: "loop_ok (ru_policy run) initial l"
    and step: "attempt_once run l w = (w', Inr (Again l'))"
  shows "loop_ok (ru_policy run) initial l'"
  using step
proof (cases rule: attempt_once_cases)
  case (again report kind name action adapted)
  let ?p = "ru_policy run"
  have l: "at_least ?p (ol_config l)" "leads ?p initial (ol_events l) (ol_config l)" "retried (ol_events l)"
    "map oe_attempt (ol_events l) = [1..<Suc (length (ol_events l))]" "ol_attempt l = length (ol_events l)"
    "length (ol_reports l) = length (ol_events l)"
    using ok by (simp_all add: loop_ok_def)
  have r: "reduces ?p (ol_config l) action adapted" using adapt_exact [OF p l(1)] again(1) by simp
  then have "at_least ?p adapted" by (simp add: reduces_def)
  moreover have "leads ?p initial (ol_events l') adapted"
    using leads_snoc [OF l(2,3)] r again(3) by simp
  ultimately show ?thesis
    using l again(2,3) by (simp add: loop_ok_def retried_def)
qed simp_all

definition recovery_record :: "oom_policy \<Rightarrow> oom_config \<Rightarrow> 'v oom_result \<Rightarrow> bool" where
  "recovery_record p initial r \<longleftrightarrow>
     1 \<le> or_attempts r \<and> int (or_attempts r) \<le> op_max_retries p + 1 \<and> or_attempts r \<le> 1 + reducible p initial
     \<and> length (or_reports r) = or_attempts r
     \<and> leads p initial (or_events r) (or_final_config r) \<and> at_least p (or_final_config r)
     \<and> map oe_attempt (or_events r) = [1..<Suc (length (or_events r))]
     \<and> (if or_succeeded r
        then or_result r \<noteq> None \<and> or_exhausted r = None \<and> Suc (length (or_events r)) = or_attempts r
          \<and> retried (or_events r)
        else or_result r = None \<and> or_exhausted r \<noteq> None \<and> length (or_events r) = or_attempts r
          \<and> oe_after (last (or_events r)) = None
          \<and> (int (or_attempts r) = op_max_retries p + 1 \<or> irreducible p (or_final_config r)))"

lemma loop_ok_finished:
  assumes p: "oom_policy_init (ru_policy run) = Inr (ru_policy run)" and ok: "loop_ok (ru_policy run) initial l"
    and step: "attempt_once run l w = (w', Inr (Finished r))"
  shows "recovery_record (ru_policy run) initial r"
proof -
  let ?p = "ru_policy run"
  have l: "at_least ?p (ol_config l)" "leads ?p initial (ol_events l) (ol_config l)" "retried (ol_events l)"
    "map oe_attempt (ol_events l) = [1..<Suc (length (ol_events l))]" "ol_attempt l = length (ol_events l)"
    "length (ol_reports l) = length (ol_events l)" "int (length (ol_events l)) \<le> op_max_retries ?p"
    using ok by (simp_all add: loop_ok_def)
  have few: "length (ol_events l) \<le> reducible ?p initial" using leads_reducible [OF l(2,3)] by simp
  from step show ?thesis
  proof (cases rule: attempt_once_cases)
    case (success report v)
    then show ?thesis using l few by (simp add: recovery_record_def)
  next
    case (failure report kind name adaptation)
    have "adaptation = None \<Longrightarrow> irreducible ?p (ol_config l)" using adapt_exact [OF p l(1)] failure(1) by simp
    moreover have "leads ?p initial (or_events r) (ol_config l)" using leads_snoc [OF l(2,3)] failure(3) by simp
    ultimately show ?thesis using failure(2,3) l few by (auto simp: recovery_record_def)
  qed simp
qed

lemma oom_loop_record:
  assumes "oom_loop run l w = (w', Inr r)" and "oom_policy_init (ru_policy run) = Inr (ru_policy run)"
    and "loop_ok (ru_policy run) initial l"
  shows "recovery_record (ru_policy run) initial r"
  using assms
proof (induction run l w rule: oom_loop.induct)
  case (1 run l w)
  obtain w1 res where once: "attempt_once run l w = (w1, res)" using prod.exhaust by blast
  note loop = 1(2) [unfolded oom_loop.simps [of run l w] once]
  show ?case
  proof (cases res)
    case (Inr fin)
    then show ?thesis
    proof (cases fin)
      case (Finished r')
      with Inr once loop have "attempt_once run l w = (w1, Inr (Finished r))" by simp
      then show ?thesis by (rule loop_ok_finished [OF 1(3,4)])
    next
      case (Again l')
      with Inr once have again: "attempt_once run l w = (w1, Inr (Again l'))" by simp
      show ?thesis
        using loop Inr Again 1(1) [OF again [symmetric] refl refl] 1(3) loop_ok_again [OF 1(3,4) again] by simp
    qed
  qed (use loop in simp)
qed

text \<open>
  C14. Out-of-memory recovery always ends, after at most \<open>max_retries + 1\<close> attempts and never more than
  there is memory to give back, whatever the operation, the clean-up and the classifier do. A result
  lists every attempt: the configurations lead from the initial one to the final one, each a strict
  reduction by at most one half that stays above the minima, in the order batch, chunk, offload; each
  attempt has one clean-up report; and recovery gives up only when the retries are used up or nothing is
  left to reduce.
\<close>
theorem oom_recovery_bounded:
  assumes policy: "oom_policy_init (ru_policy run) = Inr (ru_policy run)"
    and result: "run_with_oom_recovery run initial w = (w', Inr r)"
  shows "recovery_record (ru_policy run) initial r"
proof -
  from result obtain w0 where config: "at_least (ru_policy run) initial"
    and loop: "oom_loop run \<lparr>ol_config = initial, ol_events = [], ol_reports = [], ol_attempt = 0\<rparr> w = (w', Inr r)"
    unfolding run_with_oom_recovery_def by (auto split: sum.splits if_splits)
  have "0 \<le> op_max_retries (ru_policy run)" using policy by (simp add: oom_policy_init_Inr)
  with config have "loop_ok (ru_policy run) initial \<lparr>ol_config = initial, ol_events = [], ol_reports = [], ol_attempt = 0\<rparr>"
    by (simp add: loop_ok_def retried_def)
  from oom_loop_record [OF loop policy this] show ?thesis .
qed

section \<open>The history of the candidate\<close>

definition in_state :: "('x, 'r, 'v) oom_run \<Rightarrow> 'x world \<Rightarrow> candidate_state list \<Rightarrow> bool" where
  "in_state run w xs \<longleftrightarrow> well_formed (fst w) \<and> ru_candidate run \<in> set (st_candidates (fst w))
     \<and> states_of (fst w) (ru_candidate run) = xs"

text \<open>The callbacks may change the store, but not the history of this candidate, which it holds the lease of.\<close>

definition keeps_history :: "('x, 'r, 'v) oom_run \<Rightarrow> 'x world \<Rightarrow> 'x world \<Rightarrow> bool" where
  "keeps_history run w w' \<longleftrightarrow> (\<forall>xs. in_state run w xs \<longrightarrow> in_state run w' xs)"

definition quiet :: "('x, 'r, 'v) oom_run \<Rightarrow> bool" where
  "quiet run \<longleftrightarrow> (\<forall>w. keeps_history run w (fst (heartbeat run w)))
     \<and> (\<forall>w. keeps_history run w (fst (ru_cleanup_factory run w)))
     \<and> (\<forall>config w w2 b. ru_cleanup_factory run w = (w2, Inr b) \<longrightarrow>
          keeps_history run w2 (fst (snd (with_boundary (ru_operation run config) b w2))))"

lemma quietD:
  assumes "quiet run" and "in_state run w xs"
  shows "heartbeat run w = (w1, r1) \<Longrightarrow> in_state run w1 xs"
    and "ru_cleanup_factory run w = (w2, r2) \<Longrightarrow> in_state run w2 xs"
    and "ru_cleanup_factory run w = (w2, Inr b) \<Longrightarrow> with_boundary (ru_operation run config) b w2 = (b3, w3, r3)
      \<Longrightarrow> in_state run w3 xs"
  using assms unfolding quiet_def keeps_history_def by (metis fst_conv snd_conv)+

lemma oom_detail_nonempty: "prefix \<noteq> [] \<Longrightarrow> oom_detail prefix attempt kind c action = Inr d \<Longrightarrow> d \<noteq> []"
  by (cases prefix) (auto simp: oom_detail_def lit_simps)

lemma oom_detail_Inl: "oom_detail prefix attempt kind c action = Inl e \<Longrightarrow> e = OomUnprintable"
  by (auto simp: oom_detail_def int_text_def of_option_def rbind_Inl_iff split: option.splits)

text \<open>An allowed change of state is made; only a detail that cannot be printed prevents it.\<close>

lemma change_state_in:
  assumes w: "in_state run w xs" and xs: "xs \<noteq> []" and ok: "check_transition xs t = Inr x" and prefix: "prefix \<noteq> []"
  shows "case change_state run t (oom_detail prefix attempt kind c action) w of
      Inl e \<Rightarrow> e = OomUnprintable
    | Inr w' \<Rightarrow> in_state run w' (xs @ [t])"
proof (cases "oom_detail prefix attempt kind c action")
  case (Inl e)
  then show ?thesis using oom_detail_Inl [OF Inl] by (simp add: change_state_def)
next
  case (Inr d)
  have st: "well_formed (fst w)" "ru_candidate run \<in> set (st_candidates (fst w))"
    "states_of (fst w) (ru_candidate run) = xs" using w by (simp_all add: in_state_def)
  have "Some d \<noteq> Some []" using oom_detail_nonempty [OF prefix Inr] by simp
  from transition_accepted [OF st xs ok this] show ?thesis
    by (auto simp: change_state_def Inr in_state_def)
qed

lemma oom_transitions:
  assumes "xs \<noteq> []" and "last xs = required_state stage"
  shows "\<exists>x. check_transition xs RECOVERABLE_OOM = Inr x"
    and "\<exists>x. check_transition (xs @ [RECOVERABLE_OOM]) FAILED = Inr x"
    and "\<exists>x. check_transition (xs @ [RECOVERABLE_OOM]) (required_state stage) = Inr x"
proof -
  have "active_stage_before_recovery xs = Inr stage" using assms by (rule working_state_active)
  then show "\<exists>x. check_transition xs RECOVERABLE_OOM = Inr x"
    and "\<exists>x. check_transition (xs @ [RECOVERABLE_OOM]) FAILED = Inr x"
    and "\<exists>x. check_transition (xs @ [RECOVERABLE_OOM]) (required_state stage) = Inr x"
    using assms by (cases stage; simp add: check_transition_def Let_def required_state_def)+
qed

definition after_attempt ::
  "('x, 'r, 'v) oom_run \<Rightarrow> candidate_state list \<Rightarrow> 'x world \<times> (oom_error + 'v loop_end) \<Rightarrow> bool" where
  "after_attempt run xs outcome = (case outcome of
       (w', Inl e) \<Rightarrow> (\<forall>x. e \<noteq> OomState x) \<and> (in_state run w' xs \<or> in_state run w' (xs @ [RECOVERABLE_OOM]))
     | (w', Inr (Finished r)) \<Rightarrow> in_state run w' (xs @ (if or_succeeded r then [] else [RECOVERABLE_OOM, FAILED]))
     | (w', Inr (Again _)) \<Rightarrow> in_state run w' (xs @ [RECOVERABLE_OOM, required_state (ru_stage run)]))"

lemma oom_event_Inl: "oom_event_init e = Inl x \<Longrightarrow> \<exists>m. x = OomRecovery m"
  by (auto simp: oom_event_init_def oom_fail_def rbind_Inl_iff)

lemma retry_after:
  assumes q: "quiet run" and xs: "xs \<noteq> []" "last xs = required_state (ru_stage run)"
    and w: "in_state run w (xs @ [RECOVERABLE_OOM])"
  shows "after_attempt run xs (retry run l kind error action adapted w)"
proof -
  obtain w1 r1 where hb: "heartbeat run w = (w1, r1)" using prod.exhaust by blast
  note w1 = quietD(1) [OF q w hb]
  obtain x where "check_transition (xs @ [RECOVERABLE_OOM]) (required_state (ru_stage run)) = Inr x"
    using oom_transitions(3) [OF xs] by blast
  note change = change_state_in [OF w1 _ this, of "''oom-retry''" "ol_attempt l" kind adapted "Some action"]
  show ?thesis
    using w w1 change oom_event_Inl
    by (auto simp: after_attempt_def retry_def hb split: sum.splits)
qed

lemma exhausted_after:
  assumes xs: "xs \<noteq> []" "last xs = required_state (ru_stage run)" and w: "in_state run w (xs @ [RECOVERABLE_OOM])"
    and l: "length (ol_reports l) = ol_attempt l" "ol_attempt l \<noteq> 0"
  shows "after_attempt run xs (exhausted run l kind error w)"
proof -
  obtain x where "check_transition (xs @ [RECOVERABLE_OOM]) FAILED = Inr x" using oom_transitions(2) [OF xs] by blast
  note change = change_state_in [OF w _ this, of "''oom-exhausted''" "ol_attempt l" kind "ol_config l" None]
  show ?thesis
    using w change oom_event_Inl l
    by (auto simp: after_attempt_def exhausted_def oom_result_init_def split: sum.splits)
qed

lemma adapt_Inl [simp]: "adapt_oom_config c p \<noteq> Inl (OomState x)"
  by (auto simp: adapt_oom_config_def validate_policy_for_config_def oom_config_init_def oom_fail_def rbind_Inl_iff
      split: if_splits)

lemma failure_after:
  assumes q: "quiet run" and xs: "xs \<noteq> []" "last xs = required_state (ru_stage run)" and w: "in_state run w xs"
    and l: "Suc (length (ol_reports l)) = ol_attempt l"
  shows "after_attempt run xs (handle_failure run l last_report error w)"
proof (cases "last_report = None \<or> ru_classifier run error = None")
  case True
  then show ?thesis using w by (auto simp: after_attempt_def handle_failure_def oom_fail_def Let_def split: option.splits)
next
  case False
  then obtain report kind where some: "last_report = Some report" "ru_classifier run error = Some kind" by auto
  let ?l1 = "l\<lparr>ol_reports := ol_reports l @ [report]\<rparr>"
  let ?change = "change_state run RECOVERABLE_OOM (oom_detail ''oom'' (ol_attempt l) kind (ol_config l) None) w"
  obtain x where "check_transition xs RECOVERABLE_OOM = Inr x" using oom_transitions(1) [OF xs] by blast
  note change = change_state_in [OF w xs(1) this, of "''oom''" "ol_attempt l" kind "ol_config l" None]
  show ?thesis
  proof (cases ?change)
    case (Inl e)
    with change w some show ?thesis by (simp add: after_attempt_def handle_failure_def Let_def)
  next
    case (Inr w1)
    with change have w1: "in_state run w1 (xs @ [RECOVERABLE_OOM])" by simp
    have l1: "length (ol_reports ?l1) = ol_attempt ?l1" "ol_attempt ?l1 \<noteq> 0" using l by simp_all
    show ?thesis
      using exhausted_after [OF xs w1 l1, of kind error] retry_after [OF q xs w1, of ?l1 kind error] w1
      by (auto simp: handle_failure_def Let_def some Inr after_attempt_def [of run xs "(w1, Inl e)" for e]
          split: sum.splits option.splits)
  qed
qed

lemma attempt_after:
  assumes q: "quiet run" and xs: "xs \<noteq> []" "last xs = required_state (ru_stage run)" and w: "in_state run w xs"
    and l: "length (ol_reports l) = ol_attempt l"
  shows "after_attempt run xs (attempt_once run l w)"
proof -
  let ?l = "l\<lparr>ol_attempt := ol_attempt l + 1\<rparr>"
  obtain w1 r1 where hb: "heartbeat run w = (w1, r1)" using prod.exhaust by blast
  obtain w2 r2 where cf: "ru_cleanup_factory run w1 = (w2, r2)" using prod.exhaust by blast
  note w1 = quietD(1) [OF q w hb] and w2 = quietD(2) [OF q quietD(1) [OF q w hb] cf]
  show ?thesis
  proof (cases r1)
    case (Inl e)
    with w1 show ?thesis by (simp add: attempt_once_def after_attempt_def hb)
  next
    case r1: (Inr u)
    show ?thesis
    proof (cases r2)
      case (Inl e)
      with w2 r1 show ?thesis by (simp add: attempt_once_def after_attempt_def hb cf)
    next
      case (Inr b)
      obtain b' w3 res where wb: "with_boundary (ru_operation run (ol_config l)) b w2 = (b', w3, res)"
        using prod.exhaust by metis
      note w3 = quietD(3) [OF q w1 cf [unfolded Inr] wb]
      have "after_attempt run xs (handle_failure run ?l report error w3)" for report error
        by (rule failure_after [OF q xs w3]) (simp add: l)
      with w3 l show ?thesis
        by (cases res) (auto simp: attempt_once_def hb cf r1 Inr wb Let_def handle_success_def oom_result_init_def oom_fail_def
            after_attempt_def [of run xs "(w3, r)" for r] split: option.splits)
    qed
  qed
qed

definition oom_cycles :: "('x, 'r, 'v) oom_run \<Rightarrow> nat \<Rightarrow> candidate_state list" where
  "oom_cycles run n = concat (replicate n [RECOVERABLE_OOM, required_state (ru_stage run)])"

lemma oom_cycles_Suc: "oom_cycles run (Suc n) = RECOVERABLE_OOM # required_state (ru_stage run) # oom_cycles run n"
  by (simp add: oom_cycles_def)

text \<open>How the history of the candidate ends, given the attempts made before.\<close>

definition after_recovery ::
  "('x, 'r, 'v) oom_run \<Rightarrow> candidate_state list \<Rightarrow> nat \<Rightarrow> 'x world \<times> (oom_error + 'v oom_result) \<Rightarrow> bool" where
  "after_recovery run xs made outcome = (case outcome of
       (w', Inl e) \<Rightarrow> (\<forall>x. e \<noteq> OomState x)
         \<and> (\<exists>n. in_state run w' (xs @ oom_cycles run n) \<or> in_state run w' (xs @ oom_cycles run n @ [RECOVERABLE_OOM]))
     | (w', Inr r) \<Rightarrow> made < or_attempts r
         \<and> in_state run w' (xs @ oom_cycles run (or_attempts r - Suc made)
              @ (if or_succeeded r then [] else [RECOVERABLE_OOM, FAILED])))"

lemma after_recovery_again:
  assumes "after_recovery run (xs @ [RECOVERABLE_OOM, required_state (ru_stage run)]) (Suc made) outcome"
  shows "after_recovery run xs made outcome"
proof (cases outcome)
  case (Pair w' res)
  show ?thesis
  proof (cases res)
    case (Inl e)
    with assms Pair obtain n where
      "in_state run w' (xs @ oom_cycles run (Suc n)) \<or> in_state run w' (xs @ oom_cycles run (Suc n) @ [RECOVERABLE_OOM])"
      "\<forall>x. e \<noteq> OomState x"
      by (auto simp: after_recovery_def oom_cycles_Suc)
    with Pair Inl show ?thesis unfolding after_recovery_def by auto
  next
    case (Inr r)
    with assms Pair have "Suc made < or_attempts r"
      "in_state run w' (xs @ oom_cycles run (Suc (or_attempts r - Suc (Suc made)))
         @ (if or_succeeded r then [] else [RECOVERABLE_OOM, FAILED]))"
      by (simp_all add: after_recovery_def oom_cycles_Suc)
    moreover from this(1) have "Suc (or_attempts r - Suc (Suc made)) = or_attempts r - Suc made" by simp
    ultimately show ?thesis using Pair Inr by (simp add: after_recovery_def)
  qed
qed

lemma oom_loop_after:
  assumes "quiet run" and "xs \<noteq> []" and "last xs = required_state (ru_stage run)" and "in_state run w xs"
    and "length (ol_reports l) = ol_attempt l"
  shows "after_recovery run xs (ol_attempt l) (oom_loop run l w)"
  using assms
proof (induction run l w arbitrary: xs rule: oom_loop.induct)
  case (1 run l w)
  note after = attempt_after [OF 1(2-6)]
  obtain w1 res where once: "attempt_once run l w = (w1, res)" using prod.exhaust by blast
  show ?case
  proof (cases res)
    case (Inl e)
    have "\<exists>n. in_state run w1 (xs @ oom_cycles run n) \<or> in_state run w1 (xs @ oom_cycles run n @ [RECOVERABLE_OOM])"
      using after by (intro exI [of _ 0]) (simp add: once Inl after_attempt_def oom_cycles_def)
    then show ?thesis
      using after by (simp add: oom_loop.simps [of run l w] once Inl after_recovery_def after_attempt_def)
  next
    case (Inr fin)
    then show ?thesis
    proof (cases fin)
      case (Finished r)
      have "or_attempts r = Suc (ol_attempt l)"
        using once unfolding Inr Finished by (cases rule: attempt_once_cases) simp_all
      then show ?thesis
        using after by (simp add: oom_loop.simps [of run l w] once Inr Finished after_recovery_def after_attempt_def
            oom_cycles_def)
    next
      case (Again l')
      with Inr once have again: "attempt_once run l w = (w1, Inr (Again l'))" by simp
      then have l': "ol_attempt l' = Suc (ol_attempt l)" "length (ol_reports l') = ol_attempt l'"
        using 1(6) by (cases rule: attempt_once_cases; simp)+
      have "in_state run w1 (xs @ [RECOVERABLE_OOM, required_state (ru_stage run)])"
        using after by (simp add: again after_attempt_def)
      from 1(1) [OF again [symmetric] refl refl 1(2) _ _ this l'(2)] l'(1)
      have "after_recovery run (xs @ [RECOVERABLE_OOM, required_state (ru_stage run)]) (Suc (ol_attempt l)) (oom_loop run l' w1)"
        by simp
      then show ?thesis
        by (simp add: oom_loop.simps [of run l w] again after_recovery_again)
    qed
  qed
qed

text \<open>
  C25. The history of a candidate under recovery, as long as the callbacks leave it alone: a run that
  starts in the active state of its stage never meets a refused transition. A success adds one
  out-of-memory event and one return to the stage for every attempt but the last and ends in the stage's
  state; exhaustion adds one more event and \<open>failed\<close>. An error raised on the way leaves the candidate in
  its stage or in \<open>recoverable-oom\<close>, from where the recovery plan resumes the same stage. A run that
  starts in another state is refused and changes nothing.
\<close>
theorem oom_recovery_history:
  assumes quiet: "quiet run" and w: "in_state run w xs"
  shows "if xs \<noteq> [] \<and> last xs = required_state (ru_stage run)
     then after_recovery run xs 0 (run_with_oom_recovery run initial w)
     else \<exists>x. run_with_oom_recovery run initial w = (w, Inl (OomState x))"
proof -
  have "history (fst w) (ru_candidate run) = Inr xs"
    using w history_well_formed by (auto simp: in_state_def)
  then have current: "current_state (fst w) (ru_candidate run) = Inr (if xs = [] then None else Some (last xs))"
    by (simp add: current_state_def)
  show ?thesis
  proof (cases "xs \<noteq> [] \<and> last xs = required_state (ru_stage run)")
    case True
    show ?thesis
    proof (cases "validate_policy_for_config initial (ru_policy run)")
      case (Inl e)
      then have "\<forall>x. e \<noteq> OomState x" by (auto simp: validate_policy_for_config_def oom_fail_def rbind_Inl_iff)
      moreover have "in_state run w (xs @ oom_cycles run 0)" using w by (simp add: oom_cycles_def)
      ultimately have "after_recovery run xs 0 (w, Inl e)" unfolding after_recovery_def by auto
      with True current Inl show ?thesis by (simp add: run_with_oom_recovery_def)
    next
      case (Inr u)
      have "after_recovery run xs 0 (oom_loop run
          \<lparr>ol_config = initial, ol_events = [], ol_reports = [], ol_attempt = 0\<rparr> w)"
        using oom_loop_after [OF quiet _ _ w, of "\<lparr>ol_config = initial, ol_events = [], ol_reports = [], ol_attempt = 0\<rparr>"]
          True by simp
      with True current Inr show ?thesis by (simp add: run_with_oom_recovery_def del: validate_policy_Inr)
    qed
  qed (use current in \<open>auto simp: run_with_oom_recovery_def\<close>)
qed

section \<open>A run\<close>

text \<open>An operation that needs a batch of at most two; it has no resources to release.\<close>

definition demo_oom :: py_exception where
  "demo_oom = \<lparr>ex_memory = False, ex_type = lit ''OutOfMemoryError'', ex_module = lit ''torch'',
     ex_text = lit ''CUDA out of memory.'', ex_notes = []\<rparr>"

definition demo_run :: "int \<Rightarrow> (unit, unit, int) oom_run" where
  "demo_run retries = \<lparr>ru_candidate = [99], ru_stage = MUTATION,
     ru_policy = \<lparr>op_max_retries = retries, op_min_batch_size = 1, op_min_chunk_size = 4, op_allow_offload = True\<rparr>,
     ru_cleanup_factory = (\<lambda>w. (w, Inr (boundary_init None (\<lambda>w. (w, Inr None)) (\<lambda>w. (w, Inr 0))))),
     ru_operation = (\<lambda>config b w. (b, w, if 2 < oc_batch_size config then Inl demo_oom else Inr (oc_batch_size config))),
     ru_classifier = classify_oom, ru_heartbeat = None\<rparr>"

definition demo_config :: oom_config where
  "demo_config = \<lparr>oc_batch_size = 8, oc_chunk_size = 4, oc_offload = False\<rparr>"

definition demo_running :: "unit world" where
  "demo_running = (step_to demo_planned demo_planned RUNNING, ())"

lemma demo_quiet: "quiet (demo_run retries)"
  by (auto simp: quiet_def keeps_history_def demo_run_def heartbeat_def areturn_def with_boundary_def boundary_enter_def
      boundary_exit_def boundary_init_def cleanup_def memory_probe_def abind_def memory_snapshot_init_def
      finish_cleanup_def record_failure_def clear_cuda_def cleanup_report_init_def Let_def raise_if_def in_state_def
      split: sum.splits option.splits)

lemma demo_in_state: "in_state (demo_run retries) demo_running [PLANNED, RUNNING]"
  using demo_running_store by (simp add: in_state_def demo_run_def demo_running_def)

lemma demo_recovers:
  "(case run_with_oom_recovery (demo_run 3) demo_config demo_running of
      (w, Inr r) \<Rightarrow> or_result r = Some 2 \<and> or_attempts r = 3 \<and> map oe_action (or_events r) = [Some REDUCE_BATCH, Some REDUCE_BATCH]
    | _ \<Rightarrow> False)"
  "(case run_with_oom_recovery (demo_run 1) demo_config demo_running of
      (w, Inr r) \<Rightarrow> \<not> or_succeeded r \<and> or_attempts r = 2 | _ \<Rightarrow> False)"
  by code_simp+

theorem oom_recovery_bounded_witness:
  "\<exists>w' r. run_with_oom_recovery (demo_run 3) demo_config demo_running = (w', Inr r)
     \<and> recovery_record (ru_policy (demo_run 3)) demo_config r"
proof -
  obtain w' r where "run_with_oom_recovery (demo_run 3) demo_config demo_running = (w', Inr r)"
    using demo_recovers(1) by (auto split: prod.splits sum.splits)
  moreover have "oom_policy_init (ru_policy (demo_run 3)) = Inr (ru_policy (demo_run 3))"
    by (simp add: oom_policy_init_Inr demo_run_def)
  ultimately show ?thesis using oom_recovery_bounded by blast
qed

theorem oom_recovery_history_witness:
  "after_recovery (demo_run 1) [PLANNED, RUNNING] 0 (run_with_oom_recovery (demo_run 1) demo_config demo_running)"
  using oom_recovery_history [OF demo_quiet demo_in_state, of 1 demo_config]
  by (simp add: demo_run_def required_state_def)

end
