(* ===== verification/ResourceBudget.thy ===== *)
theory ResourceBudget
  imports GpuCleanup ExperimentStates PyFloatOrder
begin

text \<open>
  \<open>experiments/resource_budget.py\<close> over the records of \<open>experiments/hardware.py\<close>: ceilings of a stage, the
  check of its estimate, and the guard that measures the stage and interrupts its candidate when a ceiling
  is passed. Byte counts are integers, seconds are floats (bit patterns). What the host reports is an action
  on the world of the operation, which also holds the experiment store; how a number prints in a message is
  a parameter.
\<close>

section \<open>Hardware\<close>

record cpu_inventory =
  ci_architecture :: pystr
  ci_processor :: pystr
  ci_logical_cores :: "int option"

record memory_inventory =
  mi_total_bytes :: "int option"
  mi_available_bytes :: "int option"

record disk_inventory =
  di_path :: pystr
  di_total_bytes :: int
  di_free_bytes :: int

record gpu_device_inventory =
  gd_index :: int
  gd_name :: pystr
  gd_total_memory_bytes :: "int option"
  gd_compute_capability :: "pystr option"

record cuda_inventory =
  cu_available :: bool
  cu_compiled_version :: "pystr option"
  cu_driver_versions :: "pystr list"
  cu_devices :: "gpu_device_inventory list"

record software_inventory =
  si_python_version :: pystr
  si_python_implementation :: pystr
  si_modelsurgeon_version :: "pystr option"
  si_pytorch_version :: "pystr option"

record hardware_inventory =
  hi_os_name :: pystr
  hi_os_release :: pystr
  hi_os_version :: pystr
  hi_cpu :: cpu_inventory
  hi_memory :: memory_inventory
  hi_disk :: disk_inventory
  hi_cuda :: cuda_inventory
  hi_software :: software_inventory
  hi_warnings :: "pystr list"
  hi_version :: int

definition json_int_option :: "int option \<Rightarrow> json" where
  "json_int_option v = (case v of None \<Rightarrow> JNull | Some i \<Rightarrow> JInt i)"

definition json_str_option :: "pystr option \<Rightarrow> json" where
  "json_str_option v = (case v of None \<Rightarrow> JNull | Some s \<Rightarrow> JStr s)"

definition cpu_record :: "cpu_inventory \<Rightarrow> json" where
  "cpu_record c = JObj [(lit ''architecture'', JStr (ci_architecture c)), (lit ''processor'', JStr (ci_processor c)),
     (lit ''logical_cores'', json_int_option (ci_logical_cores c))]"

definition memory_record :: "memory_inventory \<Rightarrow> json" where
  "memory_record m = JObj [(lit ''total_bytes'', json_int_option (mi_total_bytes m)),
     (lit ''available_bytes'', json_int_option (mi_available_bytes m))]"

definition disk_record :: "disk_inventory \<Rightarrow> json" where
  "disk_record d = JObj [(lit ''path'', JStr (di_path d)), (lit ''total_bytes'', JInt (di_total_bytes d)),
     (lit ''free_bytes'', JInt (di_free_bytes d))]"

definition gpu_device_record :: "gpu_device_inventory \<Rightarrow> json" where
  "gpu_device_record g = JObj [(lit ''index'', JInt (gd_index g)), (lit ''name'', JStr (gd_name g)),
     (lit ''total_memory_bytes'', json_int_option (gd_total_memory_bytes g)),
     (lit ''compute_capability'', json_str_option (gd_compute_capability g))]"

definition cuda_record :: "cuda_inventory \<Rightarrow> json" where
  "cuda_record c = JObj [(lit ''available'', JBool (cu_available c)),
     (lit ''compiled_version'', json_str_option (cu_compiled_version c)),
     (lit ''driver_versions'', JList (map JStr (cu_driver_versions c))),
     (lit ''devices'', JList (map gpu_device_record (cu_devices c)))]"

definition software_record :: "software_inventory \<Rightarrow> json" where
  "software_record s = JObj [(lit ''python_version'', JStr (si_python_version s)),
     (lit ''python_implementation'', JStr (si_python_implementation s)),
     (lit ''modelsurgeon_version'', json_str_option (si_modelsurgeon_version s)),
     (lit ''pytorch_version'', json_str_option (si_pytorch_version s))]"

definition hardware_record :: "hardware_inventory \<Rightarrow> json" where
  "hardware_record h = JObj [(lit ''schema_version'', JInt (hi_version h)),
     (lit ''os'', JObj [(lit ''name'', JStr (hi_os_name h)), (lit ''release'', JStr (hi_os_release h)),
        (lit ''version'', JStr (hi_os_version h))]),
     (lit ''cpu'', cpu_record (hi_cpu h)), (lit ''memory'', memory_record (hi_memory h)),
     (lit ''disk'', disk_record (hi_disk h)), (lit ''cuda'', cuda_record (hi_cuda h)),
     (lit ''software'', software_record (hi_software h)), (lit ''warnings'', JList (map JStr (hi_warnings h)))]"

section \<open>Budgets, estimates, snapshots\<close>

datatype resource_kind = RAM | VRAM | DISK_SPACE | RUNTIME

fun resource_value :: "resource_kind \<Rightarrow> pystr" where
  "resource_value RAM = lit ''ram''"
| "resource_value VRAM = lit ''vram''"
| "resource_value DISK_SPACE = lit ''disk''"
| "resource_value RUNTIME = lit ''runtime''"

text \<open>A limit or an observation is a Python integer or a float.\<close>

datatype quantity = Bytes int | Seconds nat

fun quantity_json :: "quantity \<Rightarrow> json" where
  "quantity_json (Bytes n) = JInt n"
| "quantity_json (Seconds b) = JFloat b"

record budget_violation =
  bv_stage :: pystr
  bv_resource :: resource_kind
  bv_limit :: quantity
  bv_observed :: quantity

definition budget_violation_record :: "budget_violation \<Rightarrow> json" where
  "budget_violation_record v = JObj [(lit ''stage'', JStr (bv_stage v)), (lit ''resource'', JStr (resource_value (bv_resource v))),
     (lit ''limit'', quantity_json (bv_limit v)), (lit ''observed'', quantity_json (bv_observed v))]"

datatype budget_error =
    Budget string
  | Exceeded budget_violation
  | BudgetState state_error
  | BudgetRaised py_exception

record stage_budget =
  sb_ram :: "int option"
  sb_vram :: "int option"
  sb_disk :: "int option"
  sb_runtime :: "nat option"

definition not_positive :: "int option \<Rightarrow> bool" where
  "not_positive v = (case v of None \<Rightarrow> False | Some n \<Rightarrow> n \<le> 0)"

definition stage_budget_init :: "stage_budget \<Rightarrow> budget_error + stage_budget" where
  "stage_budget_init b =
     rbind (raise_if (not_positive (sb_ram b)) (Budget ''max_ram_bytes must be positive when set'')) (\<lambda>_.
     rbind (raise_if (not_positive (sb_vram b)) (Budget ''max_vram_bytes must be positive when set'')) (\<lambda>_.
     rbind (raise_if (not_positive (sb_disk b)) (Budget ''max_disk_bytes must be positive when set'')) (\<lambda>_.
     rbind (raise_if (case sb_runtime b of None \<Rightarrow> False | Some s \<Rightarrow> f64_le s 0)
              (Budget ''max_runtime_seconds must be positive when set'')) (\<lambda>_. Inr b))))"

record stage_estimate =
  es_ram :: int
  es_vram :: int
  es_disk :: int
  es_runtime :: "nat option"

definition stage_estimate_init :: "stage_estimate \<Rightarrow> budget_error + stage_estimate" where
  "stage_estimate_init e =
     rbind (raise_if (es_ram e < 0) (Budget ''ram_bytes must be non-negative'')) (\<lambda>_.
     rbind (raise_if (es_vram e < 0) (Budget ''vram_bytes must be non-negative'')) (\<lambda>_.
     rbind (raise_if (es_disk e < 0) (Budget ''disk_bytes must be non-negative'')) (\<lambda>_.
     rbind (raise_if (case es_runtime e of None \<Rightarrow> False | Some s \<Rightarrow> f64_lt s 0)
              (Budget ''runtime_seconds must be non-negative when known'')) (\<lambda>_. Inr e))))"

record resource_snapshot =
  sn_rss :: "int option"
  sn_vram :: "int option"
  sn_free :: int
  sn_seconds :: nat

definition resource_snapshot_init :: "resource_snapshot \<Rightarrow> budget_error + resource_snapshot" where
  "resource_snapshot_init s =
     rbind (raise_if (list_ex (\<lambda>v. case v of None \<Rightarrow> False | Some n \<Rightarrow> n < 0) [sn_rss s, sn_vram s])
              (Budget ''resource snapshot memory values cannot be negative'')) (\<lambda>_.
     rbind (raise_if (sn_free s < 0 \<or> f64_lt (sn_seconds s) 0)
              (Budget ''resource snapshot disk/time values cannot be negative'')) (\<lambda>_. Inr s))"

text \<open>
  \<open>HostResourceProbe\<close>: what the process, the CUDA provider (allocated and reserved bytes), the disk and the
  clock report.
\<close>

record host_readings =
  hr_rss :: "int option"
  hr_cuda :: "(int \<times> int) option"
  hr_free :: int
  hr_monotonic :: nat

definition host_snapshot :: "host_readings \<Rightarrow> budget_error + resource_snapshot" where
  "host_snapshot r = resource_snapshot_init
     \<lparr>sn_rss = hr_rss r, sn_vram = map_option (\<lambda>(allocated, reserved). max allocated reserved) (hr_cuda r),
      sn_free = hr_free r, sn_seconds = hr_monotonic r\<rparr>"

definition probe_snapshot :: "('w, host_readings) action \<Rightarrow> 'w \<Rightarrow> 'w \<times> (budget_error + resource_snapshot)" where
  "probe_snapshot probe w = (case probe w of
       (w', Inl e) \<Rightarrow> (w', Inl (BudgetRaised e))
     | (w', Inr r) \<Rightarrow> (w', host_snapshot r))"

section \<open>The check of an estimate\<close>

definition violation :: "pystr \<Rightarrow> resource_kind \<Rightarrow> quantity \<Rightarrow> quantity \<Rightarrow> budget_error" where
  "violation stage kind limit observed =
     Exceeded \<lparr>bv_stage = stage, bv_resource = kind, bv_limit = limit, bv_observed = observed\<rparr>"

text \<open>\<open>if limit is not None and observed > limit: _raise_preflight(...)\<close>.\<close>

definition over_bytes :: "pystr \<Rightarrow> resource_kind \<Rightarrow> int option \<Rightarrow> int \<Rightarrow> budget_error + unit" where
  "over_bytes stage kind limit observed = (case limit of
       None \<Rightarrow> Inr ()
     | Some n \<Rightarrow> raise_if (n < observed) (violation stage kind (Bytes n) (Bytes observed)))"

definition over_seconds :: "pystr \<Rightarrow> nat option \<Rightarrow> nat option \<Rightarrow> budget_error + unit" where
  "over_seconds stage limit observed = (case (limit, observed) of
       (Some n, Some s) \<Rightarrow> raise_if (f64_lt n s) (violation stage RUNTIME (Seconds n) (Seconds s))
     | _ \<Rightarrow> Inr ())"

definition known_vram :: "hardware_inventory \<Rightarrow> int option" where
  "known_vram h = (let known = List.map_filter gd_total_memory_bytes (cu_devices (hi_cuda h)) in
     if known = [] then None else Some (sum_list known))"

definition preflight_resource_budget ::
  "pystr \<Rightarrow> stage_budget \<Rightarrow> hardware_inventory \<Rightarrow> stage_estimate \<Rightarrow> budget_error + unit" where
  "preflight_resource_budget stage b h e =
     rbind (raise_if (stage = []) (Budget ''resource budget stage name is required'')) (\<lambda>_.
     rbind (over_bytes stage RAM (sb_ram b) (es_ram e)) (\<lambda>_.
     rbind (over_bytes stage RAM (mi_available_bytes (hi_memory h)) (es_ram e)) (\<lambda>_.
     rbind (if 0 < es_vram e \<or> sb_vram b \<noteq> None then
              rbind (raise_if (\<not> cu_available (hi_cuda h))
                       (Budget ''VRAM budget requested on a CPU-only hardware inventory'')) (\<lambda>_.
              rbind (over_bytes stage VRAM (sb_vram b) (es_vram e)) (\<lambda>_.
              over_bytes stage VRAM (known_vram h) (es_vram e)))
            else Inr ()) (\<lambda>_.
     rbind (over_bytes stage DISK_SPACE (sb_disk b) (es_disk e)) (\<lambda>_.
     rbind (over_bytes stage DISK_SPACE (Some (di_free_bytes (hi_disk h))) (es_disk e)) (\<lambda>_.
     over_seconds stage (sb_runtime b) (es_runtime e)))))))"

section \<open>The guard\<close>

record budget_guard =
  bg_stage :: pystr
  bg_budget :: stage_budget
  bg_inventory :: hardware_inventory
  bg_estimate :: stage_estimate
  bg_baseline :: "resource_snapshot option"

definition guard_init ::
  "pystr \<Rightarrow> stage_budget \<Rightarrow> hardware_inventory \<Rightarrow> stage_estimate \<Rightarrow> budget_error + budget_guard" where
  "guard_init stage b h e =
     rbind (raise_if (stage = []) (Budget ''resource budget stage name is required'')) (\<lambda>_.
     Inr \<lparr>bg_stage = stage, bg_budget = b, bg_inventory = h, bg_estimate = e, bg_baseline = None\<rparr>)"

definition guard_enter ::
  "('w, host_readings) action \<Rightarrow> budget_guard \<Rightarrow> 'w \<Rightarrow> budget_guard \<times> 'w \<times> (budget_error + unit)" where
  "guard_enter probe g w =
     (case preflight_resource_budget (bg_stage g) (bg_budget g) (bg_inventory g) (bg_estimate g) of
        Inl e \<Rightarrow> (g, w, Inl e)
      | Inr _ \<Rightarrow> (case probe_snapshot probe w of
            (w', Inl e) \<Rightarrow> (g, w', Inl e)
          | (w', Inr baseline) \<Rightarrow>
              if sb_ram (bg_budget g) \<noteq> None \<and> sn_rss baseline = None
              then (g, w', Inl (Budget ''RAM budget cannot be monitored on this host''))
              else if sb_vram (bg_budget g) \<noteq> None \<and> sn_vram baseline = None
              then (g, w', Inl (Budget ''VRAM budget requires a live CUDA memory provider''))
              else (g\<lparr>bg_baseline := Some baseline\<rparr>, w', Inr ())))"

text \<open>What a stage used since its baseline.\<close>

definition used_since :: "int \<Rightarrow> int \<Rightarrow> int" where
  "used_since before now = max 0 (now - before)"

definition over_memory ::
  "pystr \<Rightarrow> resource_kind \<Rightarrow> string \<Rightarrow> int option \<Rightarrow> int option \<Rightarrow> int option \<Rightarrow> budget_error + unit" where
  "over_memory stage kind unobservable limit before now = (case limit of
       None \<Rightarrow> Inr ()
     | Some n \<Rightarrow> (case (now, before) of
           (Some current, Some baseline) \<Rightarrow> over_bytes stage kind (Some n) (used_since baseline current)
         | _ \<Rightarrow> Inl (Budget unobservable)))"

definition check_snapshot :: "budget_guard \<Rightarrow> resource_snapshot \<Rightarrow> resource_snapshot \<Rightarrow> budget_error + resource_snapshot" where
  "check_snapshot g baseline current =
     (let stage = bg_stage g; b = bg_budget g in
      rbind (raise_if (f64_lt (sn_seconds current) (sn_seconds baseline))
               (Budget ''resource probe monotonic clock moved backwards'')) (\<lambda>_.
      rbind (over_memory stage RAM ''RAM budget became unobservable'' (sb_ram b) (sn_rss baseline) (sn_rss current)) (\<lambda>_.
      rbind (over_memory stage VRAM ''VRAM budget became unobservable'' (sb_vram b) (sn_vram baseline) (sn_vram current)) (\<lambda>_.
      rbind (over_bytes stage DISK_SPACE (sb_disk b) (used_since (sn_free current) (sn_free baseline))) (\<lambda>_.
      rbind (over_seconds stage (sb_runtime b) (Some (f64_sub (sn_seconds current) (sn_seconds baseline)))) (\<lambda>_.
      Inr current))))))"

definition guard_check ::
  "('w, host_readings) action \<Rightarrow> budget_guard \<Rightarrow> 'w \<Rightarrow> 'w \<times> (budget_error + resource_snapshot)" where
  "guard_check probe g w = (case bg_baseline g of
       None \<Rightarrow> (w, Inl (Budget ''resource budget guard is not active''))
     | Some baseline \<Rightarrow> (case probe_snapshot probe w of
           (w', Inl e) \<Rightarrow> (w', Inl e)
         | (w', Inr current) \<Rightarrow> (w', check_snapshot g baseline current)))"

text \<open>\<open>__exit__\<close> without an exception; with one it only ends the guard.\<close>

definition guard_exit ::
  "('w, host_readings) action \<Rightarrow> budget_guard \<Rightarrow> 'w \<Rightarrow> budget_guard \<times> 'w \<times> (budget_error + unit)" where
  "guard_exit probe g w = (case guard_check probe g w of
       (w', Inl e) \<Rightarrow> (g, w', Inl e)
     | (w', Inr _) \<Rightarrow> (g\<lparr>bg_baseline := None\<rparr>, w', Inr ()))"

type_synonym ('w, 'v) budgeted = "budget_guard \<Rightarrow> 'w \<Rightarrow> budget_guard \<times> 'w \<times> (budget_error + 'v)"

text \<open>\<open>with guard: return operation(guard)\<close>.\<close>

definition with_guard :: "('w, host_readings) action \<Rightarrow> ('w, 'v) budgeted \<Rightarrow> ('w, 'v) budgeted" where
  "with_guard probe operation g w = (case guard_enter probe g w of
       (g1, w1, Inl e) \<Rightarrow> (g1, w1, Inl e)
     | (g1, w1, Inr _) \<Rightarrow> (case operation g1 w1 of
           (g2, w2, Inl e) \<Rightarrow> (g2\<lparr>bg_baseline := None\<rparr>, w2, Inl e)
         | (g2, w2, Inr v) \<Rightarrow> (case guard_exit probe g2 w2 of
               (g3, w3, Inl e) \<Rightarrow> (g3, w3, Inl e)
             | (g3, w3, Inr _) \<Rightarrow> (g3, w3, Inr v))))"

section \<open>A budgeted stage\<close>

definition exhausted_detail :: "(quantity \<Rightarrow> pystr) \<Rightarrow> budget_violation \<Rightarrow> pystr" where
  "exhausted_detail general v = lit ''resource-exhausted:'' @ resource_value (bv_resource v) @ lit '':''
     @ general (bv_observed v) @ lit ''>'' @ general (bv_limit v)"

definition run_budgeted_stage ::
  "(quantity \<Rightarrow> pystr) \<Rightarrow> (store \<times> 'x, host_readings) action \<Rightarrow> (store \<times> 'x, 'v) budgeted
     \<Rightarrow> pystr \<Rightarrow> work_stage \<Rightarrow> (store \<times> 'x, 'v) budgeted" where
  "run_budgeted_stage general probe operation candidate stage g w =
     (case current_state (fst w) candidate of
        Inl e \<Rightarrow> (g, w, Inl (BudgetState e))
      | Inr current \<Rightarrow>
          if current \<noteq> Some (required_state stage)
          then (g, w, Inl (BudgetState (StateError ''budgeted stage requires another state'')))
          else (case with_guard probe operation g w of
              (g', w', Inl (Exceeded v)) \<Rightarrow>
                (case transition_from (fst w') (fst w') candidate INTERRUPTED (Some (exhausted_detail general v)) of
                   Inl e \<Rightarrow> (g', w', Inl (BudgetState e))
                 | Inr (s, _) \<Rightarrow> (g', (s, snd w'), Inl (Exceeded v)))
            | r \<Rightarrow> r))"

section \<open>What a guarded stage used\<close>

definition within_limit :: "int option \<Rightarrow> int option \<Rightarrow> int option \<Rightarrow> bool" where
  "within_limit limit before now \<longleftrightarrow>
     (\<forall>n. limit = Some n \<longrightarrow> (\<exists>x y. before = Some x \<and> now = Some y \<and> max 0 (y - x) \<le> n))"

definition within_budget :: "stage_budget \<Rightarrow> resource_snapshot \<Rightarrow> resource_snapshot \<Rightarrow> bool" where
  "within_budget b base cur \<longleftrightarrow> within_limit (sb_ram b) (sn_rss base) (sn_rss cur)
     \<and> within_limit (sb_vram b) (sn_vram base) (sn_vram cur)
     \<and> (\<forall>n. sb_disk b = Some n \<longrightarrow> max 0 (sn_free base - sn_free cur) \<le> n)
     \<and> (\<forall>n. sb_runtime b = Some n \<longrightarrow> \<not> f64_lt n (f64_sub (sn_seconds cur) (sn_seconds base)))"

lemma over_bytes_Inr: "over_bytes stage kind limit observed = Inr u \<longleftrightarrow> (\<forall>n. limit = Some n \<longrightarrow> observed \<le> n)"
  by (auto simp: over_bytes_def split: option.splits)

lemma over_seconds_Inr:
  "over_seconds stage limit observed = Inr u \<longleftrightarrow> (\<forall>n s. limit = Some n \<longrightarrow> observed = Some s \<longrightarrow> \<not> f64_lt n s)"
  by (auto simp: over_seconds_def split: option.splits)

lemma over_memory_Inr: "over_memory stage kind m limit before now = Inr u \<longleftrightarrow> within_limit limit before now"
  by (auto simp: over_memory_def within_limit_def over_bytes_Inr used_since_def split: option.splits)

lemma check_snapshot_Inr:
  "check_snapshot g base cur = Inr s
   \<longleftrightarrow> s = cur \<and> \<not> f64_lt (sn_seconds cur) (sn_seconds base) \<and> within_budget (bg_budget g) base cur"
  by (auto simp: check_snapshot_def Let_def guard_Inr rbind_Inr_iff over_memory_Inr over_bytes_Inr over_seconds_Inr
      within_budget_def used_since_def)

text \<open>What an estimate has to fit in: the ceilings, and what the host is known to have.\<close>

definition estimate_fits :: "stage_budget \<Rightarrow> hardware_inventory \<Rightarrow> stage_estimate \<Rightarrow> bool" where
  "estimate_fits b h e \<longleftrightarrow>
     (\<forall>n. sb_ram b = Some n \<or> mi_available_bytes (hi_memory h) = Some n \<longrightarrow> es_ram e \<le> n)
     \<and> (0 < es_vram e \<or> sb_vram b \<noteq> None \<longrightarrow> cu_available (hi_cuda h)
          \<and> (\<forall>n. sb_vram b = Some n \<or> known_vram h = Some n \<longrightarrow> es_vram e \<le> n))
     \<and> (\<forall>n. sb_disk b = Some n \<or> n = di_free_bytes (hi_disk h) \<longrightarrow> es_disk e \<le> n)
     \<and> (\<forall>n s. sb_runtime b = Some n \<longrightarrow> es_runtime e = Some s \<longrightarrow> \<not> f64_lt n s)"

lemma preflight_exact:
  "preflight_resource_budget stage b h e = Inr u \<longleftrightarrow> stage \<noteq> [] \<and> estimate_fits b h e"
  unfolding preflight_resource_budget_def estimate_fits_def
  by (auto simp: guard_Inr rbind_Inr_iff over_bytes_Inr over_seconds_Inr)

lemma guard_enter_Inr:
  "guard_enter probe g w = (g1, w1, Inr u)
   \<longleftrightarrow> bg_stage g \<noteq> [] \<and> estimate_fits (bg_budget g) (bg_inventory g) (bg_estimate g)
     \<and> (\<exists>base. probe_snapshot probe w = (w1, Inr base) \<and> g1 = g\<lparr>bg_baseline := Some base\<rparr>
          \<and> (sb_ram (bg_budget g) \<noteq> None \<longrightarrow> sn_rss base \<noteq> None) \<and> (sb_vram (bg_budget g) \<noteq> None \<longrightarrow> sn_vram base \<noteq> None))"
proof (cases "preflight_resource_budget (bg_stage g) (bg_budget g) (bg_inventory g) (bg_estimate g)")
  case (Inl e)
  then have "\<not> (bg_stage g \<noteq> [] \<and> estimate_fits (bg_budget g) (bg_inventory g) (bg_estimate g))"
    using preflight_exact by (metis Inl_Inr_False)
  with Inl show ?thesis by (auto simp: guard_enter_def)
next
  case (Inr x)
  then have "bg_stage g \<noteq> [] \<and> estimate_fits (bg_budget g) (bg_inventory g) (bg_estimate g)"
    by (simp add: preflight_exact)
  with Inr show ?thesis by (auto simp: guard_enter_def split: sum.splits prod.splits if_splits)
qed

lemma guard_exit_Inr:
  "guard_exit probe g w = (g3, w3, Inr u)
   \<longleftrightarrow> g3 = g\<lparr>bg_baseline := None\<rparr> \<and> (\<exists>base cur. bg_baseline g = Some base \<and> probe_snapshot probe w = (w3, Inr cur)
        \<and> \<not> f64_lt (sn_seconds cur) (sn_seconds base) \<and> within_budget (bg_budget g) base cur)"
proof -
  have no: "check_snapshot g base cur = Inl e
      \<Longrightarrow> f64_lt (sn_seconds cur) (sn_seconds base) \<or> \<not> within_budget (bg_budget g) base cur" for base cur e
    using check_snapshot_Inr [of g base cur cur] by fastforce
  then show ?thesis
    by (auto simp: guard_exit_def guard_check_def check_snapshot_Inr split: sum.splits prod.splits option.splits dest: no)
qed

lemma with_guard_Inr:
  "with_guard probe operation g w = (g', w', Inr v)
   \<longleftrightarrow> (\<exists>g1 w1 g2 w2. guard_enter probe g w = (g1, w1, Inr ()) \<and> operation g1 w1 = (g2, w2, Inr v)
        \<and> guard_exit probe g2 w2 = (g', w', Inr ()))"
  by (auto simp: with_guard_def split: sum.splits prod.splits)

text \<open>
  C20. A budgeted stage returns exactly when it is within its budget. With an operation that only checks the
  guard: the stage returns a value if and only if its candidate is in the state of the stage, its estimate
  fits the ceilings and the host, the operation returns that value from the baseline the guard took, and at
  the exit the clock has not gone back and the memory, the disk space and the time used since the baseline
  are observable and no more than their ceilings. Then the guard is ended.
\<close>
theorem budgeted_stage_exact:
  assumes keeps: "\<forall>g w. fst (operation g w) = g"
  shows "run_budgeted_stage general probe operation candidate stage g w = (g', w', Inr v)
    \<longleftrightarrow> current_state (fst w) candidate = Inr (Some (required_state stage)) \<and> g' = g\<lparr>bg_baseline := None\<rparr>
      \<and> bg_stage g \<noteq> [] \<and> estimate_fits (bg_budget g) (bg_inventory g) (bg_estimate g)
      \<and> (\<exists>base cur w1 w2. probe_snapshot probe w = (w1, Inr base)
          \<and> operation (g\<lparr>bg_baseline := Some base\<rparr>) w1 = (g\<lparr>bg_baseline := Some base\<rparr>, w2, Inr v)
          \<and> probe_snapshot probe w2 = (w', Inr cur)
          \<and> \<not> f64_lt (sn_seconds cur) (sn_seconds base) \<and> within_budget (bg_budget g) base cur)"
proof -
  have "run_budgeted_stage general probe operation candidate stage g w = (g', w', Inr v)
    \<longleftrightarrow> current_state (fst w) candidate = Inr (Some (required_state stage))
      \<and> with_guard probe operation g w = (g', w', Inr v)"
    by (auto simp: run_budgeted_stage_def split: sum.splits prod.splits budget_error.splits)
  moreover have "with_guard probe operation g w = (g', w', Inr v)
    \<longleftrightarrow> g' = g\<lparr>bg_baseline := None\<rparr> \<and> bg_stage g \<noteq> [] \<and> estimate_fits (bg_budget g) (bg_inventory g) (bg_estimate g)
      \<and> (\<exists>base cur w1 w2. probe_snapshot probe w = (w1, Inr base)
          \<and> operation (g\<lparr>bg_baseline := Some base\<rparr>) w1 = (g\<lparr>bg_baseline := Some base\<rparr>, w2, Inr v)
          \<and> probe_snapshot probe w2 = (w', Inr cur)
          \<and> \<not> f64_lt (sn_seconds cur) (sn_seconds base) \<and> within_budget (bg_budget g) base cur)"
    unfolding with_guard_Inr guard_enter_Inr guard_exit_Inr
    using keeps by (fastforce dest: arg_cong [of _ _ fst] simp: within_budget_def within_limit_def)
  ultimately show ?thesis by simp
qed

section \<open>The history of the candidate\<close>

definition in_history :: "pystr \<Rightarrow> store \<times> 'x \<Rightarrow> candidate_state list \<Rightarrow> bool" where
  "in_history c w xs \<longleftrightarrow> well_formed (fst w) \<and> c \<in> set (st_candidates (fst w)) \<and> states_of (fst w) c = xs"

text \<open>The operation and the probe may change the store, but not the history of this candidate.\<close>

definition leaves_candidate ::
  "pystr \<Rightarrow> (store \<times> 'x, host_readings) action \<Rightarrow> (store \<times> 'x, 'v) budgeted \<Rightarrow> bool" where
  "leaves_candidate c probe operation \<longleftrightarrow>
     (\<forall>w xs. in_history c w xs \<longrightarrow> in_history c (fst (probe w)) xs)
     \<and> (\<forall>g w xs. in_history c w xs \<longrightarrow> in_history c (fst (snd (operation g w))) xs)"

lemma leaves_probe:
  assumes "leaves_candidate c probe operation" and "in_history c w xs" and "probe_snapshot probe w = (w', r)"
  shows "in_history c w' xs"
proof -
  have "w' = fst (probe w)" using assms(3) by (auto simp: probe_snapshot_def split: sum.splits prod.splits)
  then show ?thesis using assms(1,2) unfolding leaves_candidate_def by blast
qed

lemma leaves_operation:
  assumes "leaves_candidate c probe operation" and "in_history c w xs" and "operation g w = (g', w', r)"
  shows "in_history c w' xs"
  using assms unfolding leaves_candidate_def by (metis fst_conv snd_conv)

lemma with_guard_history:
  assumes q: "leaves_candidate c probe operation" and w: "in_history c w xs" and run: "with_guard probe operation g w = (g', w', r)"
  shows "in_history c w' xs"
proof -
  obtain g1 w1 r1 where enter: "guard_enter probe g w = (g1, w1, r1)" by (rule prod_cases3)
  have w1: "in_history c w1 xs"
    using enter w leaves_probe [OF q w] by (auto simp: guard_enter_def split: sum.splits prod.splits if_splits)
  obtain g2 w2 r2 where op: "operation g1 w1 = (g2, w2, r2)" by (rule prod_cases3)
  have w2: "in_history c w2 xs" by (rule leaves_operation [OF q w1 op])
  obtain g3 w3 r3 where exit: "guard_exit probe g2 w2 = (g3, w3, r3)" by (rule prod_cases3)
  have w3: "in_history c w3 xs"
    using exit w2 leaves_probe [OF q w2] by (auto simp: guard_exit_def guard_check_def split: sum.splits prod.splits option.splits)
  show ?thesis
    using run enter op exit w1 w2 w3 by (cases r1; cases r2; cases r3) (auto simp: with_guard_def)
qed

text \<open>
  C21. Exhaustion is a resumable interruption. A budgeted stage of a candidate in another state is refused and
  changes nothing. Otherwise, as long as the operation and the probe leave the candidate's history alone, a
  stage that passes a ceiling (before, during or at its end) adds exactly one \<open>interrupted\<close> event, from which
  the recovery plan resumes the same stage; every other outcome leaves the history as it was.
\<close>
theorem exhaustion_interrupts:
  assumes q: "leaves_candidate candidate probe operation" and w: "in_history candidate w xs"
    and run: "run_budgeted_stage general probe operation candidate stage g w = (g', w', r)"
  shows "if xs \<noteq> [] \<and> last xs = required_state stage
     then (case r of
         Inl (Exceeded v) \<Rightarrow> in_history candidate w' (xs @ [INTERRUPTED])
           \<and> (\<exists>p. plan_recovery (fst w') candidate = Inr p \<and> rp_stage p = Some stage \<and> rp_resume p \<and> \<not> rp_terminal p)
       | _ \<Rightarrow> in_history candidate w' xs)
     else (\<exists>e. (g', w', r) = (g, w, Inl (BudgetState e)))"
proof -
  have hist: "history (fst w) candidate = Inr xs"
    using w history_well_formed by (auto simp: in_history_def)
  show ?thesis
  proof (cases "xs \<noteq> [] \<and> last xs = required_state stage")
    case True
    obtain g2 w2 r2 where guarded: "with_guard probe operation g w = (g2, w2, r2)" by (rule prod_cases3)
    have w2: "in_history candidate w2 xs" by (rule with_guard_history [OF q w guarded])
    have run2: "(g', w', r) = (case (g2, w2, r2) of
              (g', w', Inl (Exceeded v)) \<Rightarrow>
                (case transition_from (fst w') (fst w') candidate INTERRUPTED (Some (exhausted_detail general v)) of
                   Inl e \<Rightarrow> (g', w', Inl (BudgetState e))
                 | Inr (s, _) \<Rightarrow> (g', (s, snd w'), Inl (Exceeded v)))
            | r \<Rightarrow> r)"
      using run hist True guarded by (simp add: run_budgeted_stage_def current_state_def)
    show ?thesis
    proof (cases "\<exists>v. r2 = Inl (Exceeded v)")
      case False
      then have "(g', w', r) = (g2, w2, r2)" using run2 by (auto split: sum.splits budget_error.splits)
      with True False w2 show ?thesis by (auto split: sum.splits budget_error.splits)
    next
      case exceeded: True
      then obtain v where v: "r2 = Inl (Exceeded v)" ..
      obtain ys where xs: "xs = ys @ [required_state stage]" using True by (metis append_butlast_last_id)
      have ok: "check_transition xs INTERRUPTED = Inr (required_state stage)"
        by (cases stage) (simp_all add: xs check_transition_def Let_def required_state_def)
      have d: "Some (exhausted_detail general v) \<noteq> Some []" by (simp add: exhausted_detail_def lit_simps)
      from transition_accepted [OF _ _ _ _ ok d, of "fst w2" candidate] w2 True obtain s e where
        tr: "transition_from (fst w2) (fst w2) candidate INTERRUPTED (Some (exhausted_detail general v)) = Inr (s, e)"
          "well_formed s" "candidate \<in> set (st_candidates s)" "states_of s candidate = xs @ [INTERRUPTED]"
        by (auto simp: in_history_def)
      have out: "w' = (s, snd w2)" "r = Inl (Exceeded v)" using run2 v tr(1) by simp_all
      have "history s candidate = Inr (xs @ [INTERRUPTED])" using history_well_formed [OF tr(2), of candidate] tr(4) by simp
      then have "\<exists>p. plan_recovery s candidate = Inr p \<and> rp_stage p = Some stage \<and> rp_resume p \<and> \<not> rp_terminal p"
        using working_state_active [of xs stage] True by (simp add: plan_recovery_def Let_def)
      with out tr(2-4) True show ?thesis by (simp add: in_history_def)
    qed
  next
    case False
    then have "current_state (fst w) candidate \<noteq> Inr (Some (required_state stage))"
      using hist by (auto simp: current_state_def)
    with run hist False show ?thesis by (auto simp: run_budgeted_stage_def current_state_def)
  qed
qed

section \<open>A stage within its budget and one that exceeds it\<close>

text \<open>The world counts the bytes in use; an operation allocates \<open>n\<close> of them.\<close>

definition demo_probe :: "(store \<times> int, host_readings) action" where
  "demo_probe w = (w, Inr \<lparr>hr_rss = Some (snd w), hr_cuda = None, hr_free = 100, hr_monotonic = 0\<rparr>)"

definition demo_allocate :: "int \<Rightarrow> (store \<times> int, int) budgeted" where
  "demo_allocate n g w = (g, (fst w, snd w + n), Inr n)"

definition demo_hardware :: hardware_inventory where
  "demo_hardware = \<lparr>hi_os_name = [], hi_os_release = [], hi_os_version = [],
     hi_cpu = \<lparr>ci_architecture = [], ci_processor = [], ci_logical_cores = None\<rparr>,
     hi_memory = \<lparr>mi_total_bytes = Some 64, mi_available_bytes = Some 32\<rparr>,
     hi_disk = \<lparr>di_path = [], di_total_bytes = 100, di_free_bytes = 100\<rparr>,
     hi_cuda = \<lparr>cu_available = False, cu_compiled_version = None, cu_driver_versions = [], cu_devices = []\<rparr>,
     hi_software = \<lparr>si_python_version = [], si_python_implementation = [], si_modelsurgeon_version = None,
       si_pytorch_version = None\<rparr>, hi_warnings = [], hi_version = 1\<rparr>"

definition demo_guard :: budget_guard where
  "demo_guard = \<lparr>bg_stage = lit ''mutation'', bg_budget = \<lparr>sb_ram = Some 10, sb_vram = None, sb_disk = Some 4, sb_runtime = None\<rparr>,
     bg_inventory = demo_hardware, bg_estimate = \<lparr>es_ram = 8, es_vram = 0, es_disk = 0, es_runtime = None\<rparr>,
     bg_baseline = None\<rparr>"

definition demo_stage :: "int \<Rightarrow> budget_guard \<times> (store \<times> int) \<times> (budget_error + int)" where
  "demo_stage n = run_budgeted_stage (\<lambda>_. []) demo_probe (demo_allocate n) [99] MUTATION demo_guard
     (step_to demo_planned demo_planned RUNNING, 20)"

lemma demo_stage_runs:
  "(case demo_stage 7 of (_, w, Inr v) \<Rightarrow> v = 7 \<and> snd w = 27 | _ \<Rightarrow> False)"
  "(case demo_stage 11 of (_, w, Inl (Exceeded v)) \<Rightarrow> bv_resource v = RAM \<and> bv_observed v = Bytes 11 | _ \<Rightarrow> False)"
  by code_simp+

lemma demo_keeps: "\<forall>g w. fst (demo_allocate n g w) = g"
  by (simp add: demo_allocate_def)

theorem budgeted_stage_exact_witness:
  "\<exists>g' w' base cur. demo_stage 7 = (g', w', Inr 7) \<and> g' = demo_guard \<and> within_budget (bg_budget demo_guard) base cur"
proof -
  obtain g' w' where run: "demo_stage 7 = (g', w', Inr 7)"
    using demo_stage_runs(1) by (auto split: prod.splits sum.splits)
  from iffD1 [OF budgeted_stage_exact [OF demo_keeps] run [unfolded demo_stage_def]] obtain base cur where
    "g' = demo_guard\<lparr>bg_baseline := None\<rparr>" "within_budget (bg_budget demo_guard) base cur"
    by (elim exE conjE)
  with run show ?thesis by (auto simp: demo_guard_def)
qed

theorem exhaustion_interrupts_witness:
  "\<exists>g' w' v. demo_stage 11 = (g', w', Inl (Exceeded v)) \<and> in_history [99] w' [PLANNED, RUNNING, INTERRUPTED]"
proof -
  obtain g' w' v where run: "demo_stage 11 = (g', w', Inl (Exceeded v))"
    using demo_stage_runs(2) by (auto split: prod.splits sum.splits budget_error.splits)
  have q: "leaves_candidate [99] demo_probe (demo_allocate 11)"
    by (simp add: leaves_candidate_def demo_probe_def demo_allocate_def in_history_def)
  have w: "in_history [99] (step_to demo_planned demo_planned RUNNING, 20 :: int) [PLANNED, RUNNING]"
    using demo_running_store by (simp add: in_history_def)
  from exhaustion_interrupts [OF q w run [unfolded demo_stage_def]] run show ?thesis
    by (auto simp: required_state_def)
qed

text \<open>A limit that is not a number passes the constructor and is never exceeded.\<close>

lemma nan_runtime_unbounded:
  assumes "f64_is_nan n"
  shows "stage_budget_init \<lparr>sb_ram = None, sb_vram = None, sb_disk = None, sb_runtime = Some n\<rparr>
      = Inr \<lparr>sb_ram = None, sb_vram = None, sb_disk = None, sb_runtime = Some n\<rparr>"
    and "within_budget \<lparr>sb_ram = None, sb_vram = None, sb_disk = None, sb_runtime = Some n\<rparr> base cur"
  using assms by (simp_all add: stage_budget_init_def not_positive_def f64_le_def f64_lt_def within_budget_def within_limit_def)

text \<open>A check that fails at the exit leaves the guard active.\<close>

lemma failed_exit_keeps_guard: "guard_exit probe g w = (g', w', Inl e) \<Longrightarrow> g' = g"
  by (auto simp: guard_exit_def split: prod.splits sum.splits)

end
