(* ===== verification/PyDivide.thy ===== *)
theory PyDivide
  imports Prelude "HOL-Library.Log_Nat"
begin

text \<open>
  \<open>math.ceil(a / b)\<close> for integers: \<open>/\<close> gives the binary64 number nearest to the quotient, ties to even, and
  raises where that is too large; rounding up afterwards is exact. Numbers are integers times a power of two.
\<close>

definition round_half_even :: "int \<Rightarrow> int \<Rightarrow> int" where
  "round_half_even n d = (let q = n div d; r = n mod d in
     if 2 * r < d \<or> (2 * r = d \<and> even q) then q else q + 1)"

text \<open>The exponent of the last of the 53 bits of \<open>a / b\<close>, not below that of the subnormal numbers.\<close>

definition leading_exponent :: "int \<Rightarrow> int \<Rightarrow> int" where
  "leading_exponent a b = (let s = bitlen a - bitlen b in
     if b * 2 ^ nat s \<le> a * 2 ^ nat (- s) then s else s - 1)"

definition float_exponent :: "int \<Rightarrow> int \<Rightarrow> int" where
  "float_exponent a b = max (leading_exponent a b - 52) (- 1074)"

definition ceil_true_divide :: "int \<Rightarrow> int \<Rightarrow> int option" where
  "ceil_true_divide a b =
     (if a = 0 then Some 0
      else let e = float_exponent a b;
               q = round_half_even (a * 2 ^ nat (- e)) (b * 2 ^ nat e)
           in if 2 ^ 1024 \<le> q * 2 ^ nat e then None
              else if 0 \<le> e then Some (q * 2 ^ nat e)
              else Some (- ((- q) div 2 ^ nat (- e))))"

lemma div_between: "0 < d \<Longrightarrow> m * d \<le> x \<Longrightarrow> x < (m + 1) * d \<Longrightarrow> x div d = m" for d :: int
  by (rule int_div_pos_eq [of x d m "x - m * d"]) (simp_all add: algebra_simps)

lemma round_half_even_gt: "0 < d \<Longrightarrow> (2 * m + 1) * d < 2 * n \<Longrightarrow> m < round_half_even n d"
proof -
  assume d: "0 < d" and n: "(2 * m + 1) * d < 2 * n"
  have nd: "n = n div d * d + n mod d" by simp
  have "m * d \<le> n" using n d by (simp add: algebra_simps)
  then have "m \<le> n div d" using zdiv_mono1 [of "m * d" n d] d by simp
  moreover have "d < 2 * (n mod d)" if "n div d = m" using n nd that by (simp add: algebra_simps)
  ultimately show ?thesis by (cases "n div d = m") (auto simp: round_half_even_def Let_def)
qed

lemma round_half_even_le: "0 < d \<Longrightarrow> n \<le> m * d \<Longrightarrow> round_half_even n d \<le> m"
proof -
  assume d: "0 < d" and n: "n \<le> m * d"
  have le: "n div d \<le> m" using zdiv_mono1 [OF n d] d by simp
  have "n mod d = 0" if "n div d = m"
  proof -
    have "n = m * d + n mod d" using that div_mult_mod_eq [of n d] by simp
    then show ?thesis using n pos_mod_sign [OF d, of n] by linarith
  qed
  then show ?thesis using le d by (cases "n div d = m") (auto simp: round_half_even_def Let_def)
qed

lemma leading_exponent_le:
  assumes "0 < a" and "0 < b"
  shows "b * 2 ^ nat (leading_exponent a b) \<le> a * 2 ^ nat (- leading_exponent a b)"
proof (cases "b * 2 ^ nat (bitlen a - bitlen b) \<le> a * 2 ^ nat (- (bitlen a - bitlen b))")
  case True
  then show ?thesis by (simp add: leading_exponent_def Let_def)
next
  case False
  let ?s = "bitlen a - bitlen b"
  have l: "leading_exponent a b = ?s - 1" using False by (simp add: leading_exponent_def Let_def)
  have a: "2 ^ nat (bitlen a - 1) \<le> a" and b: "b < 2 ^ nat (bitlen b)"
    using bitlen_bounds assms by blast+
  have pos: "0 < bitlen a" "0 < bitlen b"
    using assms bitlen_nonneg [of a] bitlen_nonneg [of b] bitlen_eq_zero_iff [of a] bitlen_eq_zero_iff [of b] by linarith+
  show ?thesis
  proof (cases "1 \<le> ?s")
    case True
    have "b * 2 ^ nat (?s - 1) \<le> 2 ^ nat (bitlen b) * 2 ^ nat (?s - 1)" using b by simp
    also have "\<dots> = 2 ^ nat (bitlen a - 1)" using True pos by (simp flip: power_add nat_add_distrib add: algebra_simps)
    finally show ?thesis using a True by (simp add: l)
  next
    case False
    have "b \<le> 2 ^ nat (bitlen a - 1) * 2 ^ nat (1 - ?s)"
      using b False pos by (simp flip: power_add nat_add_distrib add: algebra_simps)
    also have "\<dots> \<le> a * 2 ^ nat (1 - ?s)" using a by simp
    finally show ?thesis using False by (simp add: l)
  qed
qed

text \<open>Below \<open>2 ^ 53\<close> the result is the exact quotient rounded up.\<close>

lemma ceil_true_divide_exact:
  assumes a: "0 \<le> a" "a < 2 ^ 53" and b: "0 < b" "b < 2 ^ 53"
  shows "ceil_true_divide a b = Some (- ((- a) div b))"
proof (cases "a = 0")
  case False
  then have a0: "0 < a" using a(1) by simp
  let ?l = "leading_exponent a b"
  have bits: "bitlen a \<le> 53" "bitlen b \<le> 53" "0 < bitlen a" "0 < bitlen b"
    using a b a0 bitlen_le_iff_power [of a 53] bitlen_le_iff_power [of b 53] bitlen_nonneg [of a] bitlen_nonneg [of b]
      bitlen_eq_zero_iff [of a] bitlen_eq_zero_iff [of b] by auto
  have l: "?l \<le> 52" "- 53 \<le> ?l" using bits by (auto simp: leading_exponent_def Let_def)
  define k where "k = nat (52 - ?l)"
  have e: "float_exponent a b = - int k" using l by (simp add: float_exponent_def k_def)
  have small: "b < 2 ^ Suc k"
  proof -
    have le: "b * 2 ^ nat ?l \<le> a * 2 ^ nat (- ?l)" by (rule leading_exponent_le [OF a0 b(1)])
    show ?thesis
    proof (cases "0 \<le> ?l")
      case True
      then have "b * 2 ^ nat ?l < 2 ^ 53" using le a(2) by simp
      also have "(2 :: int) ^ 53 = 2 ^ Suc k * 2 ^ nat ?l"
        using True l by (simp flip: power_add add: k_def nat_diff_distrib del: power_Suc)
      finally show ?thesis by simp
    next
      case False
      then have "b \<le> a * 2 ^ nat (- ?l)" using le by simp
      also have "\<dots> < 2 ^ 53 * 2 ^ nat (- ?l)" using a(2) by simp
      also have "\<dots> = 2 ^ (53 + nat (- ?l))" by (simp only: power_add)
      also have "53 + nat (- ?l) = Suc k" using False by (simp add: k_def)
      finally show ?thesis .
    qed
  qed
  let ?q = "round_half_even (a * 2 ^ k) b" and ?n = "a div b"
  have bounds: "?n * b \<le> a" "a < (?n + 1) * b"
    using div_mult_mod_eq [of a b] pos_mod_sign [OF b(1), of a] pos_mod_bound [OF b(1), of a]
    unfolding distrib_right by linarith+
  have up: "?q \<le> (?n + 1) * 2 ^ k"
  proof (rule round_half_even_le [OF b(1)])
    have "a * 2 ^ k \<le> (?n + 1) * b * 2 ^ k" using bounds(2) by (intro mult_right_mono) simp_all
    then show "a * 2 ^ k \<le> (?n + 1) * 2 ^ k * b" by (simp add: ac_simps)
  qed
  have result: "ceil_true_divide a b = Some (- ((- ?q) div 2 ^ k))"
  proof -
    have "?n + 1 \<le> 2 ^ 53" using zdiv_mono2 [of a 1 b] a b by simp
    then have "(?n + 1) * 2 ^ k \<le> 2 ^ 53 * 2 ^ k" by (intro mult_right_mono) simp_all
    also have "\<dots> = (2 :: int) ^ (53 + k)" by (simp add: power_add)
    also have "\<dots> < 2 ^ 1024" using l by (intro power_strict_increasing) (simp_all add: k_def)
    finally have "?q < 2 ^ 1024" using up by (rule le_less_trans [rotated])
    then show ?thesis using False by (simp add: ceil_true_divide_def Let_def e)
  qed
  show ?thesis
  proof (cases "a = ?n * b")
    case True
    have "?q = ?n * 2 ^ k" by (subst True) (use b(1) in \<open>simp add: round_half_even_def Let_def algebra_simps\<close>)
    moreover have "(- a) div b = - ?n" by (subst True) (use b(1) in \<open>simp flip: mult_minus_left\<close>)
    moreover have "- (?n * 2 ^ k) div 2 ^ k = - ?n" by (simp flip: mult_minus_left)
    ultimately show ?thesis using result by simp
  next
    case False
    have "(2 * (?n * 2 ^ k) + 1) * b < 2 * (a * 2 ^ k)"
    proof -
      have "1 \<le> a - ?n * b" using False bounds(1) by simp
      then have "2 ^ Suc k * 1 \<le> 2 ^ Suc k * (a - ?n * b)" by (intro mult_left_mono) simp_all
      then show ?thesis using small by (simp add: algebra_simps)
    qed
    then have "?n * 2 ^ k < ?q" by (rule round_half_even_gt [OF b(1)])
    then have "(- ?q) div 2 ^ k = - (?n + 1)" using up by (intro div_between) (simp_all add: algebra_simps)
    moreover have "(- a) div b = - (?n + 1)"
      using bounds False b(1) by (intro div_between) (simp_all add: algebra_simps)
    ultimately show ?thesis using result by simp
  qed
qed (simp add: ceil_true_divide_def)

text \<open>Above, the quotient may be rounded down to an integer first.\<close>

lemma ceil_true_divide_inexact: "ceil_true_divide (2 ^ 53 + 1) 1 = Some (2 ^ 53)"
  by (simp add: ceil_true_divide_def float_exponent_def leading_exponent_def round_half_even_def Let_def
      compute_bitlen compute_floorlog)

end
