(* ===== verification/BatchPlanner.thy ===== *)
theory BatchPlanner
  imports ResourceBudget IdentityJson PyDivide
begin

text \<open>
  \<open>experiments/batch_planner.py\<close>: the next contiguous batch of calibration samples that fits the configured
  sizes and the resource budget, the adaptation of the memory model to measured usage, and the cursor that
  resumes at an exact sample boundary of one manifest.
\<close>

datatype batch_error =
    BatchPlanning string
  | BatchIdentity identity_error
  | BatchEncoding
  | BatchBudget budget_error
  | BatchOverflow

definition CALIBRATION_BATCH_PLANNER_VERSION :: pystr where
  "CALIBRATION_BATCH_PLANNER_VERSION = lit ''1''"

text \<open>What the planner reads of a tokenized sample.\<close>

record calibration_sample =
  sm_id :: pystr
  sm_content :: pystr
  sm_tokens :: "int list"

section \<open>Records\<close>

record batch_memory_model =
  bm_fixed_ram :: int
  bm_ram_per_sample :: int
  bm_ram_per_token :: int
  bm_fixed_vram :: int
  bm_vram_per_sample :: int
  bm_vram_per_token :: int

definition batch_memory_model_init :: "batch_memory_model \<Rightarrow> batch_error + batch_memory_model" where
  "batch_memory_model_init m =
     rbind (raise_if (list_ex (\<lambda>v. v < 0) [bm_fixed_ram m, bm_ram_per_sample m, bm_ram_per_token m,
                bm_fixed_vram m, bm_vram_per_sample m, bm_vram_per_token m])
              (BatchPlanning ''batch memory model values must be non-negative'')) (\<lambda>_. Inr m)"

definition batch_estimate :: "batch_memory_model \<Rightarrow> int \<Rightarrow> int \<Rightarrow> batch_error + stage_estimate" where
  "batch_estimate m samples tokens =
     rbind (raise_if (samples \<le> 0 \<or> tokens \<le> 0)
              (BatchPlanning ''batch memory estimates require positive sample and token counts'')) (\<lambda>_.
     except (stage_estimate_init
       \<lparr>es_ram = bm_fixed_ram m + samples * bm_ram_per_sample m + tokens * bm_ram_per_token m,
        es_vram = bm_fixed_vram m + samples * bm_vram_per_sample m + tokens * bm_vram_per_token m,
        es_disk = 0, es_runtime = None\<rparr>) BatchBudget)"

definition batch_memory_model_record :: "batch_memory_model \<Rightarrow> json" where
  "batch_memory_model_record m = JObj [(lit ''fixed_ram_bytes'', JInt (bm_fixed_ram m)),
     (lit ''ram_bytes_per_sample'', JInt (bm_ram_per_sample m)), (lit ''ram_bytes_per_token'', JInt (bm_ram_per_token m)),
     (lit ''fixed_vram_bytes'', JInt (bm_fixed_vram m)), (lit ''vram_bytes_per_sample'', JInt (bm_vram_per_sample m)),
     (lit ''vram_bytes_per_token'', JInt (bm_vram_per_token m))]"

record batch_config =
  bf_max_size :: int
  bf_max_tokens :: int
  bf_budget :: stage_budget
  bf_memory :: batch_memory_model
  bf_min_size :: int

definition batch_config_init :: "batch_config \<Rightarrow> batch_error + batch_config" where
  "batch_config_init c =
     rbind (raise_if (bf_max_size c \<le> 0) (BatchPlanning ''max_batch_size must be a positive integer'')) (\<lambda>_.
     rbind (raise_if (bf_max_tokens c \<le> 0) (BatchPlanning ''max_batch_tokens must be a positive integer'')) (\<lambda>_.
     rbind (raise_if (bf_min_size c \<le> 0) (BatchPlanning ''min_batch_size must be a positive integer'')) (\<lambda>_.
     rbind (raise_if (bf_max_size c < bf_min_size c) (BatchPlanning ''minimum batch size cannot exceed maximum'')) (\<lambda>_.
     Inr c))))"

record batch_cursor =
  bc_digest :: pystr
  bc_next :: int

definition batch_cursor_init :: "batch_cursor \<Rightarrow> batch_error + batch_cursor" where
  "batch_cursor_init c =
     rbind (raise_if (\<not> is_hex64 (bc_digest c)) (BatchPlanning ''batch cursor requires a SHA-256 manifest digest'')) (\<lambda>_.
     rbind (raise_if (bc_next c < 0) (BatchPlanning ''batch cursor sample index cannot be negative'')) (\<lambda>_. Inr c))"

definition batch_cursor_record :: "batch_cursor \<Rightarrow> json" where
  "batch_cursor_record c = JObj [(lit ''manifest_digest'', JStr (bc_digest c)), (lit ''next_sample_index'', JInt (bc_next c))]"

record batch_observation =
  bo_digest :: pystr
  bo_start :: int
  bo_end :: int
  bo_tokens :: int
  bo_ram_baseline :: "int option"
  bo_ram_peak :: "int option"
  bo_vram_baseline :: "int option"
  bo_vram_peak :: "int option"
  bo_exhausted :: "resource_kind option"

definition check_telemetry :: "string \<Rightarrow> string \<Rightarrow> int option \<Rightarrow> int option \<Rightarrow> batch_error + unit" where
  "check_telemetry unpaired unordered baseline peak =
     rbind (raise_if ((baseline = None) \<noteq> (peak = None)) (BatchPlanning unpaired)) (\<lambda>_.
     raise_if (case baseline of None \<Rightarrow> False
               | Some b \<Rightarrow> b < 0 \<or> (case peak of None \<Rightarrow> True | Some p \<Rightarrow> p < b)) (BatchPlanning unordered))"

definition batch_observation_init :: "batch_observation \<Rightarrow> batch_error + batch_observation" where
  "batch_observation_init b =
     rbind (batch_cursor_init \<lparr>bc_digest = bo_digest b, bc_next = bo_start b\<rparr>) (\<lambda>_.
     rbind (raise_if (bo_end b \<le> bo_start b) (BatchPlanning ''batch observation requires a non-empty sample range'')) (\<lambda>_.
     rbind (raise_if (bo_tokens b \<le> 0) (BatchPlanning ''batch observation requires a positive token count'')) (\<lambda>_.
     rbind (check_telemetry ''RAM telemetry requires both baseline and peak bytes''
              ''RAM telemetry peak must be at least its non-negative baseline'' (bo_ram_baseline b) (bo_ram_peak b)) (\<lambda>_.
     rbind (check_telemetry ''VRAM telemetry requires both baseline and peak bytes''
              ''VRAM telemetry peak must be at least its non-negative baseline'' (bo_vram_baseline b) (bo_vram_peak b)) (\<lambda>_.
     rbind (raise_if (bo_exhausted b \<notin> {None, Some RAM, Some VRAM})
              (BatchPlanning ''batch adaptation only accepts RAM or VRAM exhaustion observations'')) (\<lambda>_. Inr b))))))"

definition observed_samples :: "batch_observation \<Rightarrow> int" where
  "observed_samples b = bo_end b - bo_start b"

record calibration_batch =
  ba_start :: int
  ba_end :: int
  ba_ids :: "pystr list"
  ba_tokens :: int
  ba_ram :: int
  ba_vram :: int

definition calibration_batch_init :: "calibration_batch \<Rightarrow> batch_error + calibration_batch" where
  "calibration_batch_init b =
     rbind (raise_if (ba_start b < 0 \<or> ba_end b \<le> ba_start b) (BatchPlanning ''calibration batch requires a non-empty range'')) (\<lambda>_.
     rbind (raise_if (ba_end b - ba_start b \<noteq> int (length (ba_ids b)))
              (BatchPlanning ''calibration batch range and sample IDs disagree'')) (\<lambda>_.
     rbind (raise_if (\<not> distinct (ba_ids b) \<or> list_ex (\<lambda>i. i = []) (ba_ids b))
              (BatchPlanning ''calibration batch sample IDs must be unique'')) (\<lambda>_.
     rbind (raise_if (ba_tokens b \<le> 0) (BatchPlanning ''calibration batch token count must be positive'')) (\<lambda>_.
     rbind (raise_if (ba_ram b < 0 \<or> ba_vram b < 0)
              (BatchPlanning ''calibration batch memory estimates cannot be negative'')) (\<lambda>_. Inr b)))))"

definition calibration_batch_record :: "calibration_batch \<Rightarrow> json" where
  "calibration_batch_record b = JObj [(lit ''start_index'', JInt (ba_start b)), (lit ''end_index'', JInt (ba_end b)),
     (lit ''sample_ids'', JList (map JStr (ba_ids b))), (lit ''token_count'', JInt (ba_tokens b)),
     (lit ''estimated_ram_bytes'', JInt (ba_ram b)), (lit ''estimated_vram_bytes'', JInt (ba_vram b))]"

record batch_plan =
  bp_digest :: pystr
  bp_cursor :: batch_cursor
  bp_next_cursor :: batch_cursor
  bp_batch :: "calibration_batch option"
  bp_effective :: int
  bp_memory :: batch_memory_model
  bp_version :: pystr

definition batch_plan_init :: "batch_plan \<Rightarrow> batch_error + batch_plan" where
  "batch_plan_init p =
     rbind (raise_if (bp_version p \<noteq> CALIBRATION_BATCH_PLANNER_VERSION)
              (BatchPlanning ''unsupported calibration batch planner version'')) (\<lambda>_.
     rbind (raise_if (bc_digest (bp_cursor p) \<noteq> bp_digest p) (BatchPlanning ''batch plan cursor does not match manifest'')) (\<lambda>_.
     rbind (raise_if (bc_digest (bp_next_cursor p) \<noteq> bp_digest p)
              (BatchPlanning ''batch plan next cursor does not match manifest'')) (\<lambda>_.
     rbind (raise_if (bp_effective p \<le> 0) (BatchPlanning ''effective batch size must be positive'')) (\<lambda>_.
     rbind (raise_if (bc_next (bp_next_cursor p)
                \<noteq> (case bp_batch p of None \<Rightarrow> bc_next (bp_cursor p) | Some b \<Rightarrow> ba_end b))
              (BatchPlanning ''batch plan next cursor is not an exact boundary'')) (\<lambda>_.
     rbind (raise_if (case bp_batch p of None \<Rightarrow> False | Some b \<Rightarrow> ba_start b \<noteq> bc_next (bp_cursor p))
              (BatchPlanning ''batch does not start at the resume cursor'')) (\<lambda>_. Inr p))))))"

definition plan_complete :: "batch_plan \<Rightarrow> bool" where
  "plan_complete p \<longleftrightarrow> bp_batch p = None"

definition batch_plan_record :: "batch_plan \<Rightarrow> json" where
  "batch_plan_record p = JObj [(lit ''version'', JStr (bp_version p)), (lit ''manifest_digest'', JStr (bp_digest p)),
     (lit ''cursor'', batch_cursor_record (bp_cursor p)), (lit ''next_cursor'', batch_cursor_record (bp_next_cursor p)),
     (lit ''complete'', JBool (plan_complete p)), (lit ''effective_max_batch_size'', JInt (bp_effective p)),
     (lit ''memory_model'', batch_memory_model_record (bp_memory p)),
     (lit ''batch'', case bp_batch p of None \<Rightarrow> JNull | Some b \<Rightarrow> calibration_batch_record b)]"

section \<open>The manifest\<close>

definition sample_record :: "calibration_sample \<Rightarrow> json" where
  "sample_record s = JObj [(lit ''sample_id'', JStr (sm_id s)), (lit ''content_sha256'', JStr (sm_content s)),
     (lit ''input_ids'', JList (map JInt (sm_tokens s)))]"

fun check_samples :: "calibration_sample list \<Rightarrow> pystr set \<Rightarrow> batch_error + json list" where
  "check_samples [] seen = Inr []"
| "check_samples (s # ss) seen =
     rbind (raise_if (sm_id s = [] \<or> sm_id s \<in> seen)
              (BatchPlanning ''calibration batching requires unique non-empty sample IDs'')) (\<lambda>_.
     rbind (raise_if (sm_content s = []) (BatchPlanning ''calibration sample content digest is required'')) (\<lambda>_.
     rbind (raise_if (sm_tokens s = []) (BatchPlanning ''calibration sample has no tokens and cannot be batched'')) (\<lambda>_.
     rbind (check_samples ss (insert (sm_id s) seen)) (\<lambda>payload. Inr (sample_record s # payload)))))"

definition calibration_manifest_digest :: "calibration_sample list \<Rightarrow> batch_error + pystr" where
  "calibration_manifest_digest samples =
     rbind (check_samples samples {}) (\<lambda>payload.
     rbind (except (canonical_identity_json (JList payload)) BatchIdentity) (\<lambda>text'.
     rbind (of_option BatchEncoding (encode_utf8 text')) (\<lambda>encoded. Inr (hexdigest encoded))))"

section \<open>Adaptation\<close>

definition variable_bytes :: "int \<Rightarrow> int \<Rightarrow> int \<Rightarrow> int \<Rightarrow> int \<Rightarrow> int" where
  "variable_bytes baseline peak fixed per_sample samples = max 0 (peak - baseline - fixed - per_sample * samples)"

definition measured_per_token ::
  "int option \<Rightarrow> int option \<Rightarrow> int \<Rightarrow> int \<Rightarrow> int \<Rightarrow> int \<Rightarrow> batch_error + int option" where
  "measured_per_token baseline peak fixed per_sample samples tokens = (case (baseline, peak) of
       (Some b, Some p) \<Rightarrow> rbind (of_option BatchOverflow
           (ceil_true_divide (variable_bytes b p fixed per_sample samples) tokens)) (\<lambda>n. Inr (Some n))
     | _ \<Rightarrow> Inr None)"

definition raise_to :: "int \<Rightarrow> int option \<Rightarrow> int" where
  "raise_to n measured = (case measured of None \<Rightarrow> n | Some v \<Rightarrow> max n v)"

definition adapt_step :: "batch_memory_model \<Rightarrow> pystr \<Rightarrow> int \<times> int \<Rightarrow> batch_observation \<Rightarrow> batch_error + int \<times> int" where
  "adapt_step m digest rates b =
     rbind (raise_if (bo_digest b \<noteq> digest)
              (BatchPlanning ''batch telemetry belongs to a different calibration manifest'')) (\<lambda>_.
     rbind (measured_per_token (bo_ram_baseline b) (bo_ram_peak b) (bm_fixed_ram m) (bm_ram_per_sample m)
              (observed_samples b) (bo_tokens b)) (\<lambda>ram.
     rbind (measured_per_token (bo_vram_baseline b) (bo_vram_peak b) (bm_fixed_vram m) (bm_vram_per_sample m)
              (observed_samples b) (bo_tokens b)) (\<lambda>vram.
     Inr (raise_to (fst rates) ram, raise_to (snd rates) vram))))"

definition adapt_calibration_memory_model ::
  "batch_memory_model \<Rightarrow> batch_observation list \<Rightarrow> pystr \<Rightarrow> batch_error + batch_memory_model" where
  "adapt_calibration_memory_model m observations digest =
     rbind (foldM_r (adapt_step m digest) (bm_ram_per_token m, bm_vram_per_token m) observations) (\<lambda>(ram, vram).
     batch_memory_model_init (m\<lparr>bm_ram_per_token := ram, bm_vram_per_token := vram\<rparr>))"

definition effective_batch_size :: "batch_config \<Rightarrow> batch_observation list \<Rightarrow> batch_error + int" where
  "effective_batch_size c observations =
     (if observations \<noteq> [] \<and> bo_exhausted (last observations) \<noteq> None then
        let failed = observed_samples (last observations) in
        rbind (raise_if (failed \<le> bf_min_size c)
                 (BatchPlanning ''memory exhaustion occurred at the configured minimum batch size'')) (\<lambda>_.
        Inr (max (bf_min_size c) (min (bf_max_size c) (max (bf_min_size c) (failed div 2)))))
      else Inr (max (bf_min_size c) (bf_max_size c)))"

section \<open>Planning\<close>

definition batch_preflight :: "batch_config \<Rightarrow> hardware_inventory \<Rightarrow> stage_estimate \<Rightarrow> budget_error + unit" where
  "batch_preflight c h e = preflight_resource_budget (lit ''calibration-batch'') (bf_budget c) h e"

definition fits_resources :: "batch_config \<Rightarrow> hardware_inventory \<Rightarrow> stage_estimate \<Rightarrow> batch_error + bool" where
  "fits_resources c h e = (case batch_preflight c h e of
       Inr _ \<Rightarrow> Inr True
     | Inl (Exceeded _) \<Rightarrow> Inr False
     | Inl x \<Rightarrow> Inl (BatchBudget x))"

definition token_total :: "calibration_sample list \<Rightarrow> int" where
  "token_total ss = sum_list (map (\<lambda>s. int (length (sm_tokens s))) ss)"

definition sample_range :: "calibration_sample list \<Rightarrow> int \<Rightarrow> int \<Rightarrow> calibration_sample list" where
  "sample_range samples i j = take (nat (j - i)) (drop (nat i) samples)"

fun validate_observations ::
  "calibration_sample list \<Rightarrow> batch_cursor \<Rightarrow> pystr \<Rightarrow> batch_observation list \<Rightarrow> batch_error + unit" where
  "validate_observations samples cursor digest [] = Inr ()"
| "validate_observations samples cursor digest (b # bs) =
     rbind (raise_if (bo_digest b \<noteq> digest)
              (BatchPlanning ''batch telemetry belongs to a different calibration manifest'')) (\<lambda>_.
     rbind (raise_if (int (length samples) < bo_end b)
              (BatchPlanning ''batch telemetry sample range exceeds the calibration manifest'')) (\<lambda>_.
     rbind (raise_if (bo_tokens b \<noteq> token_total (sample_range samples (bo_start b) (bo_end b)))
              (BatchPlanning ''batch telemetry token count does not match its manifest sample range'')) (\<lambda>_.
     rbind (raise_if (\<not> bo_end b \<le> bc_next cursor \<and> \<not> (bs = [] \<and> bo_exhausted b \<noteq> None \<and> bo_start b = bc_next cursor))
              (BatchPlanning ''batch telemetry is ahead of the resume cursor without a current failed batch'')) (\<lambda>_.
     validate_observations samples cursor digest bs))))"

text \<open>The loop of \<open>plan_next\<close>; its first list is what is left from the cursor on.\<close>

record batch_selection =
  se_ids :: "pystr list"
  se_tokens :: int
  se_estimate :: "stage_estimate option"

fun select_batch ::
  "batch_config \<Rightarrow> hardware_inventory \<Rightarrow> batch_memory_model \<Rightarrow> int \<Rightarrow> calibration_sample list \<Rightarrow> batch_selection
     \<Rightarrow> batch_error + batch_selection" where
  "select_batch c h m effective [] sel = Inr sel"
| "select_batch c h m effective (s # ss) sel =
     (if effective \<le> int (length (se_ids sel)) then Inr sel
      else
        let proposed = se_tokens sel + int (length (sm_tokens s)) in
        if bf_max_tokens c < proposed then
          rbind (raise_if (se_ids sel = []) (BatchPlanning ''sample exceeds max_batch_tokens'')) (\<lambda>_. Inr sel)
        else
          rbind (batch_estimate m (int (length (se_ids sel)) + 1) proposed) (\<lambda>e.
          rbind (fits_resources c h e) (\<lambda>fits.
          if \<not> fits then
            (if se_ids sel = [] then
               rbind (except (batch_preflight c h e) BatchBudget) (\<lambda>_.
               Inl (BatchPlanning ''unreachable: resource preflight accepted a batch rejected by planning''))
             else Inr sel)
          else select_batch c h m effective ss
                 \<lparr>se_ids = se_ids sel @ [sm_id s], se_tokens = proposed, se_estimate = Some e\<rparr>)))"

definition plan_next ::
  "batch_config \<Rightarrow> hardware_inventory \<Rightarrow> calibration_sample list \<Rightarrow> batch_cursor option \<Rightarrow> batch_observation list
     \<Rightarrow> batch_error + batch_plan" where
  "plan_next c h samples cursor observations =
     rbind (calibration_manifest_digest samples) (\<lambda>digest.
     rbind (case cursor of None \<Rightarrow> batch_cursor_init \<lparr>bc_digest = digest, bc_next = 0\<rparr> | Some x \<Rightarrow> Inr x) (\<lambda>resolved.
     rbind (raise_if (bc_digest resolved \<noteq> digest)
              (BatchPlanning ''resume cursor belongs to a different calibration manifest'')) (\<lambda>_.
     rbind (raise_if (int (length samples) < bc_next resolved)
              (BatchPlanning ''resume cursor is beyond the calibration manifest'')) (\<lambda>_.
     rbind (validate_observations samples resolved digest observations) (\<lambda>_.
     rbind (adapt_calibration_memory_model (bf_memory c) observations digest) (\<lambda>m.
     rbind (effective_batch_size c observations) (\<lambda>effective.
     let start = bc_next resolved;
         plan = (\<lambda>next' batch. batch_plan_init \<lparr>bp_digest = digest, bp_cursor = resolved, bp_next_cursor = next',
                   bp_batch = batch, bp_effective = effective, bp_memory = m,
                   bp_version = CALIBRATION_BATCH_PLANNER_VERSION\<rparr>) in
     if start = int (length samples) then plan resolved None
     else
       rbind (select_batch c h m effective (drop (nat start) samples) \<lparr>se_ids = [], se_tokens = 0, se_estimate = None\<rparr>)
         (\<lambda>sel.
       case se_estimate sel of
         None \<Rightarrow> Inl (BatchPlanning ''batch planner could not select a bounded sample'')
       | Some e \<Rightarrow>
           rbind (raise_if (se_ids sel = []) (BatchPlanning ''batch planner could not select a bounded sample'')) (\<lambda>_.
           rbind (calibration_batch_init \<lparr>ba_start = start, ba_end = start + int (length (se_ids sel)),
                    ba_ids = se_ids sel, ba_tokens = se_tokens sel, ba_ram = es_ram e, ba_vram = es_vram e\<rparr>) (\<lambda>batch.
           rbind (batch_cursor_init \<lparr>bc_digest = digest, bc_next = start + int (length (se_ids sel))\<rparr>) (\<lambda>next'.
           plan next' (Some batch))))))))))))"

end
