(* ===== verification/BatchCoverage.thy ===== *)
theory BatchCoverage
  imports BatchPlanner
begin

text \<open>
  What the planner of \<open>experiments/batch_planner.py\<close> guarantees: every batch is the longest one that fits,
  the batches of a calibration cover its samples once and in order, and the adapted model accounts for what
  was measured.
\<close>

section \<open>One batch\<close>

definition batch_fits :: "batch_config \<Rightarrow> hardware_inventory \<Rightarrow> batch_memory_model \<Rightarrow> int \<Rightarrow> int \<Rightarrow> bool" where
  "batch_fits c h m n t \<longleftrightarrow> t \<le> bf_max_tokens c
     \<and> (\<exists>e. batch_estimate m n t = Inr e \<and> estimate_fits (bf_budget c) h e)"

lemma batch_preflight_Inr: "batch_preflight c h e = Inr u \<longleftrightarrow> estimate_fits (bf_budget c) h e"
  by (simp add: batch_preflight_def preflight_exact lit_simps)

lemma fits_resources_Inr: "fits_resources c h e = Inr b \<Longrightarrow> b \<longleftrightarrow> estimate_fits (bf_budget c) h e"
  using batch_preflight_Inr [of c h e "()"]
  by (auto simp: fits_resources_def split: sum.splits budget_error.splits)

lemma token_total_simps [simp]:
  "token_total [] = 0" "token_total (s # ss) = int (length (sm_tokens s)) + token_total ss"
  "token_total (xs @ ys) = token_total xs + token_total ys"
  by (simp_all add: token_total_def)

definition selected :: "batch_config \<Rightarrow> hardware_inventory \<Rightarrow> batch_memory_model \<Rightarrow> int \<Rightarrow> batch_selection \<Rightarrow> bool" where
  "selected c h m effective sel \<longleftrightarrow> (let n = int (length (se_ids sel)); t = se_tokens sel in
     if se_ids sel = [] then t = 0 \<and> se_estimate sel = None
     else n \<le> effective \<and> t \<le> bf_max_tokens c
       \<and> (\<exists>e. se_estimate sel = Some e \<and> batch_estimate m n t = Inr e \<and> estimate_fits (bf_budget c) h e))"

lemma select_batch_longest:
  assumes "select_batch c h m effective ss sel0 = Inr sel" and "selected c h m effective sel0"
  shows "\<exists>taken rest. ss = taken @ rest \<and> se_ids sel = se_ids sel0 @ map sm_id taken
    \<and> se_tokens sel = se_tokens sel0 + token_total taken \<and> selected c h m effective sel
    \<and> (rest = [] \<or> effective \<le> int (length (se_ids sel))
       \<or> \<not> batch_fits c h m (int (length (se_ids sel)) + 1) (se_tokens sel + int (length (sm_tokens (hd rest)))))"
  using assms
proof (induction c h m effective ss sel0 rule: select_batch.induct)
  case (2 c h m effective s ss sel0)
  let ?t = "se_tokens sel0 + int (length (sm_tokens s))" and ?n = "int (length (se_ids sel0)) + 1"
  show ?case
  proof (cases "effective \<le> int (length (se_ids sel0)) \<or> bf_max_tokens c < ?t")
    case True
    then have "sel = sel0" using "2.prems"(1) by (auto simp: Let_def split: if_splits)
    moreover have "bf_max_tokens c < ?t \<Longrightarrow> \<not> batch_fits c h m ?n ?t" by (simp add: batch_fits_def)
    ultimately show ?thesis using True "2.prems"(2)
      by (intro exI [of _ "[]"] exI [of _ "s # ss"]) auto
  next
    case False
    then obtain e fits where e: "batch_estimate m ?n ?t = Inr e" and fits: "fits_resources c h e = Inr fits"
      using "2.prems"(1) by (auto simp: Let_def)
    show ?thesis
    proof (cases fits)
      case no: False
      then have "sel = sel0" using "2.prems"(1) False e fits by (auto simp: Let_def split: if_splits)
      moreover have "\<not> batch_fits c h m ?n ?t" using fits_resources_Inr [OF fits] no e by (simp add: batch_fits_def)
      ultimately show ?thesis using "2.prems"(2)
        by (intro exI [of _ "[]"] exI [of _ "s # ss"]) auto
    next
      case True
      let ?sel = "\<lparr>se_ids = se_ids sel0 @ [sm_id s], se_tokens = ?t, se_estimate = Some e\<rparr>"
      have run: "select_batch c h m effective ss ?sel = Inr sel" using "2.prems"(1) False e fits True by (simp add: Let_def)
      have ok: "selected c h m effective ?sel"
        using False e fits_resources_Inr [OF fits] True by (simp add: selected_def Let_def ac_simps)
      from False True e fits "2.IH" [OF _ refl _ e fits _ run ok] obtain taken rest where
        "ss = taken @ rest" "se_ids sel = se_ids ?sel @ map sm_id taken"
        "se_tokens sel = se_tokens ?sel + token_total taken" "selected c h m effective sel"
        "rest = [] \<or> effective \<le> int (length (se_ids sel))
         \<or> \<not> batch_fits c h m (int (length (se_ids sel)) + 1) (se_tokens sel + int (length (sm_tokens (hd rest))))"
        by auto
      then show ?thesis by (intro exI [of _ "s # taken"] exI [of _ rest]) simp
    qed
  qed
qed auto

lemma effective_batch_size_Inr:
  assumes "effective_batch_size c observations = Inr n" and "batch_config_init c = Inr c"
  shows "0 < n" and "n \<le> bf_max_size c"
    and "observations \<noteq> [] \<Longrightarrow> bo_exhausted (last observations) \<noteq> None \<Longrightarrow> n < observed_samples (last observations)"
  using assms by (auto simp: effective_batch_size_def batch_config_init_def guard_Inr Let_def split: if_splits)

definition planned_batch ::
  "batch_config \<Rightarrow> hardware_inventory \<Rightarrow> calibration_sample list \<Rightarrow> batch_plan \<Rightarrow> calibration_batch
     \<Rightarrow> calibration_sample list \<Rightarrow> calibration_sample list \<Rightarrow> bool" where
  "planned_batch c h samples p b taken rest \<longleftrightarrow> (let i = bc_next (bp_cursor p); k = int (length taken) in
     bp_batch p = Some b \<and> drop (nat i) samples = taken @ rest \<and> taken \<noteq> []
     \<and> ba_start b = i \<and> ba_end b = i + k \<and> ba_ids b = map sm_id taken \<and> ba_tokens b = token_total taken
     \<and> bp_next_cursor p = \<lparr>bc_digest = bc_digest (bp_cursor p), bc_next = i + k\<rparr>
     \<and> k \<le> bp_effective p \<and> batch_fits c h (bp_memory p) k (token_total taken)
     \<and> (rest = [] \<or> bp_effective p \<le> k
        \<or> \<not> batch_fits c h (bp_memory p) (k + 1) (token_total taken + int (length (sm_tokens (hd rest))))))"

lemma plan_next_cases:
  assumes cursor: "batch_cursor_init cur = Inr cur"
    and plan: "plan_next c h samples (Some cur) observations = Inr p"
  shows "calibration_manifest_digest samples = Inr (bc_digest cur)
    \<and> effective_batch_size c observations = Inr (bp_effective p)
    \<and> 0 \<le> bc_next cur \<and> bc_next cur \<le> int (length samples) \<and> bp_cursor p = cur
    \<and> (if bc_next cur = int (length samples) then bp_batch p = None \<and> bp_next_cursor p = cur
       else \<exists>b taken rest. planned_batch c h samples p b taken rest)"
proof -
  have start: "0 \<le> bc_next cur" using cursor by (simp add: batch_cursor_init_def guard_Inr)
  let ?plan = "\<lambda>m n next' batch. \<lparr>bp_digest = bc_digest cur, bp_cursor = cur, bp_next_cursor = next', bp_batch = batch,
             bp_effective = n, bp_memory = m, bp_version = CALIBRATION_BATCH_PLANNER_VERSION\<rparr>"
  note run = plan [unfolded plan_next_def]
  have digest: "calibration_manifest_digest samples = Inr (bc_digest cur)" and le: "bc_next cur \<le> int (length samples)"
    using run by (auto simp: guard_Inr rbind_Inr_iff)
  show ?thesis
  proof (cases "bc_next cur = int (length samples)")
    case True
    then obtain m n where "effective_batch_size c observations = Inr n" "p = ?plan m n cur None"
      using run by (auto simp: guard_Inr Let_def rbind_Inr_iff batch_plan_init_def)
    then show ?thesis using True le digest by simp
  next
    case False
    then obtain m n sel e where n: "effective_batch_size c observations = Inr n"
      and sel: "select_batch c h m n (drop (nat (bc_next cur)) samples)
              \<lparr>se_ids = [], se_tokens = 0, se_estimate = None\<rparr> = Inr sel" "se_estimate sel = Some e" "se_ids sel \<noteq> []"
      and p: "p = ?plan m n \<lparr>bc_digest = bc_digest cur, bc_next = bc_next cur + int (length (se_ids sel))\<rparr>
           (Some \<lparr>ba_start = bc_next cur, ba_end = bc_next cur + int (length (se_ids sel)), ba_ids = se_ids sel,
               ba_tokens = se_tokens sel, ba_ram = es_ram e, ba_vram = es_vram e\<rparr>)"
      using run digest
      by (auto simp: guard_Inr Let_def rbind_Inr_iff calibration_batch_init_def batch_cursor_init_def batch_plan_init_def
          split: option.splits)
    have "selected c h m n \<lparr>se_ids = [], se_tokens = 0, se_estimate = None\<rparr>" by (simp add: selected_def)
    from select_batch_longest [OF sel(1) this] obtain taken left where
      parts: "drop (nat (bc_next cur)) samples = taken @ left" "se_ids sel = map sm_id taken"
        "se_tokens sel = token_total taken" "selected c h m n sel"
      and longest: "left = [] \<or> n \<le> int (length (se_ids sel))
         \<or> \<not> batch_fits c h m (int (length (se_ids sel)) + 1) (se_tokens sel + int (length (sm_tokens (hd left))))"
      by auto
    have "int (length taken) \<le> n" "batch_fits c h m (int (length taken)) (token_total taken)"
      using parts(2-4) sel(2,3) by (auto simp: selected_def Let_def batch_fits_def)
    then have "planned_batch c h samples p (the (bp_batch p)) taken left"
      using parts(1-3) longest sel(3) by (simp add: p planned_batch_def)
    then have "\<exists>b taken rest. planned_batch c h samples p b taken rest" by blast
    then show ?thesis using False digest n le start by (simp add: p)
  qed
qed

section \<open>Planning can go on\<close>

lemma check_samples_Inr:
  "check_samples ss seen = Inr payload \<Longrightarrow> distinct (map sm_id ss) \<and> sm_id ` set ss \<inter> seen = {}
     \<and> (\<forall>s \<in> set ss. sm_id s \<noteq> [] \<and> sm_tokens s \<noteq> [])"
  by (induction ss seen arbitrary: payload rule: check_samples.induct) (auto simp: guard_Inr rbind_Inr_iff)

lemma manifest_samples:
  assumes "calibration_manifest_digest ss = Inr d"
  shows "distinct (map sm_id ss)" and "\<And>s. s \<in> set ss \<Longrightarrow> sm_id s \<noteq> [] \<and> sm_tokens s \<noteq> []" and "is_hex64 d"
proof -
  obtain payload encoded where "check_samples ss {} = Inr payload" and d: "d = hexdigest encoded"
    using assms by (auto simp: calibration_manifest_digest_def rbind_Inr_iff)
  from check_samples_Inr [OF this(1)]
  show "distinct (map sm_id ss)" "\<And>s. s \<in> set ss \<Longrightarrow> sm_id s \<noteq> [] \<and> sm_tokens s \<noteq> []" by auto
  show "is_hex64 d" unfolding d by (rule hexdigest_is_hex64)
qed

lemma batch_memory_model_init_Inr:
  "batch_memory_model_init m = Inr m' \<longleftrightarrow> m' = m \<and> (\<forall>v \<in> {bm_fixed_ram m, bm_ram_per_sample m, bm_ram_per_token m,
     bm_fixed_vram m, bm_vram_per_sample m, bm_vram_per_token m}. 0 \<le> v)"
  by (auto simp: batch_memory_model_init_def guard_Inr not_less)

lemma batch_estimate_runs:
  assumes "batch_memory_model_init m = Inr m" and "0 < n" and "0 < t"
  shows "batch_estimate m n t = Inr
      \<lparr>es_ram = bm_fixed_ram m + n * bm_ram_per_sample m + t * bm_ram_per_token m,
       es_vram = bm_fixed_vram m + n * bm_vram_per_sample m + t * bm_vram_per_token m, es_disk = 0, es_runtime = None\<rparr>"
  using assms by (simp add: batch_memory_model_init_Inr batch_estimate_def stage_estimate_init_def not_less raise_if_def)

text \<open>A batch may ask for device memory only where there is a device; then being too large is the only refusal.\<close>

definition device_ready :: "batch_config \<Rightarrow> hardware_inventory \<Rightarrow> batch_memory_model \<Rightarrow> bool" where
  "device_ready c h m \<longleftrightarrow> cu_available (hi_cuda h) \<or> (sb_vram (bf_budget c) = None
     \<and> bm_fixed_vram m = 0 \<and> bm_vram_per_sample m = 0 \<and> bm_vram_per_token m = 0)"

lemma fits_resources_runs:
  assumes "cu_available (hi_cuda h) \<or> (sb_vram (bf_budget c) = None \<and> es_vram e = 0)"
  shows "fits_resources c h e = Inr (estimate_fits (bf_budget c) h e)"
proof (cases "batch_preflight c h e")
  case (Inr u)
  then show ?thesis using batch_preflight_Inr [of c h e u] by (simp add: fits_resources_def)
next
  case (Inl x)
  moreover have "\<exists>v. x = Exceeded v"
    using Inl assms unfolding batch_preflight_def preflight_resource_budget_def
    by (auto simp: lit_simps over_bytes_def over_seconds_def violation_def raise_if_def split: option.splits if_splits)
  moreover have "\<not> estimate_fits (bf_budget c) h e" using Inl batch_preflight_Inr [of c h e "()"] by simp
  ultimately show ?thesis by (auto simp: fits_resources_def)
qed

lemma batch_fits_device_ready:
  assumes "batch_fits c h m n t" and "batch_memory_model_init m = Inr m" and "0 < n" and "0 < t"
  shows "device_ready c h m"
proof -
  have *: "bm_fixed_vram m + n * bm_vram_per_sample m + t * bm_vram_per_token m \<le> 0 \<Longrightarrow>
      bm_fixed_vram m = 0 \<and> bm_vram_per_sample m = 0 \<and> bm_vram_per_token m = 0"
  proof -
    assume le: "bm_fixed_vram m + n * bm_vram_per_sample m + t * bm_vram_per_token m \<le> 0"
    have "0 \<le> bm_fixed_vram m" "0 \<le> n * bm_vram_per_sample m" "0 \<le> t * bm_vram_per_token m"
      using assms(2-4) by (simp_all add: batch_memory_model_init_Inr)
    with le have "bm_fixed_vram m = 0" "n * bm_vram_per_sample m = 0" "t * bm_vram_per_token m = 0" by linarith+
    with assms(3,4) show ?thesis by simp
  qed
  show ?thesis
    using assms(1) batch_estimate_runs [OF assms(2-4)] *
    by (auto simp: batch_fits_def estimate_fits_def device_ready_def not_less)
qed

lemma select_batch_goes_on:
  assumes "batch_memory_model_init m = Inr m" and "device_ready c h m"
    and "\<forall>s \<in> set ss. sm_tokens s \<noteq> []" and "se_ids sel \<noteq> []" and "0 \<le> se_tokens sel" and "se_estimate sel \<noteq> None"
  shows "\<exists>sel'. select_batch c h m effective ss sel = Inr sel' \<and> se_ids sel' \<noteq> [] \<and> se_estimate sel' \<noteq> None"
  using assms
proof (induction c h m effective ss sel rule: select_batch.induct)
  case (2 c h m effective s ss sel)
  let ?t = "se_tokens sel + int (length (sm_tokens s))" and ?n = "int (length (se_ids sel)) + 1"
  have t: "0 < ?t" using "2.prems"(3,5) by (simp add: pos_add_strict add_nonneg_pos)
  obtain e where e: "batch_estimate m ?n ?t = Inr e" and v: "es_vram e = bm_fixed_vram m + ?n * bm_vram_per_sample m + ?t * bm_vram_per_token m"
    using batch_estimate_runs [OF "2.prems"(1) _ t, of ?n] by simp
  have fits: "fits_resources c h e = Inr (estimate_fits (bf_budget c) h e)"
    using "2.prems"(2) v by (intro fits_resources_runs) (auto simp: device_ready_def)
  show ?case
  proof (cases "int (length (se_ids sel)) < effective \<and> ?t \<le> bf_max_tokens c \<and> estimate_fits (bf_budget c) h e")
    case True
    then show ?thesis using "2.IH" [OF _ refl _ e fits] "2.prems" t e fits by (simp add: Let_def)
  next
    case False
    then show ?thesis using e fits "2.prems"(4,6) by (auto simp: Let_def raise_if_def)
  qed
qed simp

lemma select_batch_starts:
  assumes m: "batch_memory_model_init m = Inr m" and tokens: "\<forall>s \<in> set ss. sm_tokens s \<noteq> []" and "ss \<noteq> []"
    and "0 < effective" and first: "batch_fits c h m 1 (int (length (sm_tokens (hd ss))))"
  shows "\<exists>sel. select_batch c h m effective ss \<lparr>se_ids = [], se_tokens = 0, se_estimate = None\<rparr> = Inr sel
    \<and> se_ids sel \<noteq> [] \<and> se_estimate sel \<noteq> None"
proof -
  obtain s ss' where ss: "ss = s # ss'" using assms(3) by (cases ss) auto
  let ?t = "int (length (sm_tokens s))"
  have t: "0 < ?t" using tokens ss by simp
  obtain e where e: "batch_estimate m 1 ?t = Inr e" "estimate_fits (bf_budget c) h e" "?t \<le> bf_max_tokens c"
    using first ss by (auto simp: batch_fits_def)
  have ready: "device_ready c h m" using batch_fits_device_ready [OF first m] t ss by simp
  have "es_vram e = bm_fixed_vram m + 1 * bm_vram_per_sample m + ?t * bm_vram_per_token m"
    using batch_estimate_runs [OF m _ t, of 1] e(1) by auto
  then have "fits_resources c h e = Inr True"
    using ready e(2) fits_resources_runs [of h c e] by (auto simp: device_ready_def)
  moreover have "\<exists>sel. select_batch c h m effective ss' \<lparr>se_ids = [sm_id s], se_tokens = ?t, se_estimate = Some e\<rparr> = Inr sel
    \<and> se_ids sel \<noteq> [] \<and> se_estimate sel \<noteq> None"
    using select_batch_goes_on [OF m ready, of ss'] tokens ss by simp
  ultimately show ?thesis using e(1,3) assms(4) by (simp add: ss Let_def)
qed

lemma plan_next_runs:
  assumes config: "batch_config_init c = Inr c" and m: "batch_memory_model_init (bf_memory c) = Inr (bf_memory c)"
    and cursor: "batch_cursor_init cur = Inr cur" "calibration_manifest_digest ss = Inr (bc_digest cur)"
      "bc_next cur \<le> int (length ss)"
    and fits: "\<forall>s \<in> set (drop (nat (bc_next cur)) ss). batch_fits c h (bf_memory c) 1 (int (length (sm_tokens s)))"
  shows "\<exists>p. plan_next c h ss (Some cur) [] = Inr p"
proof -
  note ok = manifest_samples [OF cursor(2)]
  have start: "0 \<le> bc_next cur" using cursor(1) by (simp add: batch_cursor_init_def guard_Inr)
  obtain n where n: "effective_batch_size c [] = Inr n" "0 < n"
    using config by (auto simp: effective_batch_size_def batch_config_init_def guard_Inr)
  have adapt: "adapt_calibration_memory_model (bf_memory c) [] d = Inr (bf_memory c)" for d
    using m by (simp add: adapt_calibration_memory_model_def)
  show ?thesis
  proof (cases "bc_next cur = int (length ss)")
    case True
    then show ?thesis using cursor n adapt
      by (simp add: plan_next_def Let_def batch_plan_init_def raise_if_def)
  next
    case False
    let ?left = "drop (nat (bc_next cur)) ss" and ?sel0 = "\<lparr>se_ids = [], se_tokens = 0, se_estimate = None\<rparr>"
    have left: "?left \<noteq> []" "\<forall>s \<in> set ?left. sm_tokens s \<noteq> []" using False cursor(3) start ok(2) by (auto dest: in_set_dropD)
    then obtain sel e where sel: "select_batch c h (bf_memory c) n ?left ?sel0 = Inr sel" "se_ids sel \<noteq> []" "se_estimate sel = Some e"
      using select_batch_starts [OF m left(2,1) n(2)] bspec [OF fits hd_in_set [OF left(1)]] by blast
    have "selected c h (bf_memory c) n ?sel0" by (simp add: selected_def)
    from select_batch_longest [OF sel(1) this] obtain taken rest where
      taken: "?left = taken @ rest" "se_ids sel = map sm_id taken" "se_tokens sel = token_total taken"
        "batch_estimate (bf_memory c) (int (length taken)) (token_total taken) = Inr e"
      using sel(2,3) by (auto simp: selected_def Let_def)
    have "ss = take (nat (bc_next cur)) ss @ taken @ rest" using taken(1) by (metis append_take_drop_id)
    then have "distinct (map sm_id taken)" "\<forall>s \<in> set taken. sm_id s \<noteq> []"
      using ok(1,2) by (metis distinct_append map_append, metis Un_iff set_append)
    moreover have "0 < token_total taken \<and> 0 \<le> es_ram e \<and> 0 \<le> es_vram e"
      using taken(4) by (auto simp: batch_estimate_def stage_estimate_init_def guard_Inr)
    ultimately have "calibration_batch_init \<lparr>ba_start = bc_next cur, ba_end = bc_next cur + int (length (se_ids sel)),
        ba_ids = se_ids sel, ba_tokens = se_tokens sel, ba_ram = es_ram e, ba_vram = es_vram e\<rparr>
      = Inr \<lparr>ba_start = bc_next cur, ba_end = bc_next cur + int (length (se_ids sel)),
        ba_ids = se_ids sel, ba_tokens = se_tokens sel, ba_ram = es_ram e, ba_vram = es_vram e\<rparr>"
      using taken(2,3) sel(2) start by (auto simp: calibration_batch_init_def guard_Inr list_ex_iff)
    then show ?thesis using False cursor start n adapt sel ok(3)
      by (simp add: plan_next_def Let_def batch_plan_init_def batch_cursor_init_def raise_if_def)
  qed
qed

section \<open>Calibrations\<close>

text \<open>
  A calibration starts at the first sample and takes the batches planned from its cursor; a batch that fails is
  planned again with more observations. The last argument lists the samples taken so far.
\<close>

inductive calibrated ::
  "batch_config \<Rightarrow> hardware_inventory \<Rightarrow> calibration_sample list \<Rightarrow> batch_cursor \<Rightarrow> pystr list \<Rightarrow> bool"
  for c h ss where
  begun: "plan_next c h ss None observations = Inr p \<Longrightarrow> calibrated c h ss (bp_cursor p) []"
| taken: "calibrated c h ss cur ids \<Longrightarrow> plan_next c h ss (Some cur) observations = Inr p \<Longrightarrow> bp_batch p = Some b
    \<Longrightarrow> calibrated c h ss (bp_next_cursor p) (ids @ ba_ids b)"

lemma calibrated_prefix:
  assumes "calibrated c h ss cur ids"
  shows "batch_cursor_init cur = Inr cur \<and> calibration_manifest_digest ss = Inr (bc_digest cur)
    \<and> bc_next cur \<le> int (length ss) \<and> ids = map sm_id (take (nat (bc_next cur)) ss)"
  using assms
proof induction
  case (begun observations p)
  then obtain digest where digest: "calibration_manifest_digest ss = Inr digest" "is_hex64 digest"
      "plan_next c h ss (Some \<lparr>bc_digest = digest, bc_next = 0\<rparr>) observations = Inr p"
    by (auto simp: plan_next_def rbind_Inr_iff batch_cursor_init_def guard_Inr)
  then have cursor: "batch_cursor_init \<lparr>bc_digest = digest, bc_next = 0\<rparr> = Inr \<lparr>bc_digest = digest, bc_next = 0\<rparr>"
    by (simp add: batch_cursor_init_def raise_if_def)
  show ?case using plan_next_cases [OF cursor digest(3)] cursor digest(1) by simp
next
  case (taken cur ids observations p b)
  from taken.IH have cursor: "batch_cursor_init cur = Inr cur" by simp
  note cases = plan_next_cases [OF cursor taken.hyps(2)]
  with taken.hyps(3) have "bc_next cur \<noteq> int (length ss)" by auto
  with cases obtain b' xs rest where planned: "planned_batch c h ss p b' xs rest" by auto
  from cases have cur: "bp_cursor p = cur" by simp
  note b = planned [unfolded planned_batch_def cur Let_def]
  have start: "0 \<le> bc_next cur" "bc_next cur \<le> int (length ss)" using cases by simp_all
  then have "take (nat (bc_next cur) + length xs) ss = take (nat (bc_next cur)) ss @ xs"
    using b by (simp add: take_add)
  moreover have "nat (bc_next cur) + length xs \<le> length ss"
    using arg_cong [of _ _ length, OF conjunct1 [OF conjunct2 [OF b]]] start by simp
  ultimately show ?case using b taken.IH taken.hyps(3) start
    by (auto simp: nat_add_distrib batch_cursor_init_def guard_Inr)
qed

definition demo_config :: batch_config where
  "demo_config = \<lparr>bf_max_size = 2, bf_max_tokens = 6,
     bf_budget = \<lparr>sb_ram = Some 20, sb_vram = None, sb_disk = None, sb_runtime = None\<rparr>,
     bf_memory = \<lparr>bm_fixed_ram = 1, bm_ram_per_sample = 1, bm_ram_per_token = 1,
       bm_fixed_vram = 0, bm_vram_per_sample = 0, bm_vram_per_token = 0\<rparr>, bf_min_size = 1\<rparr>"

definition demo_samples :: "calibration_sample list" where
  "demo_samples = [\<lparr>sm_id = lit ''a'', sm_content = lit ''x'', sm_tokens = [1, 2]\<rparr>,
     \<lparr>sm_id = lit ''b'', sm_content = lit ''y'', sm_tokens = [3]\<rparr>,
     \<lparr>sm_id = lit ''c'', sm_content = lit ''z'', sm_tokens = [4, 5, 6, 7]\<rparr>]"

text \<open>The first batch failed with its memory exhausted.\<close>

definition demo_failed :: "pystr \<Rightarrow> batch_observation" where
  "demo_failed digest = \<lparr>bo_digest = digest, bo_start = 0, bo_end = 2, bo_tokens = 3, bo_ram_baseline = None,
     bo_ram_peak = None, bo_vram_baseline = None, bo_vram_peak = None, bo_exhausted = Some RAM\<rparr>"

lemma demo_digest: "\<exists>d. calibration_manifest_digest demo_samples = Inr d"
proof -
  have "case check_samples demo_samples {} of Inl _ \<Rightarrow> False | Inr payload \<Rightarrow>
      (case canonical_identity_json (JList payload) of Inl _ \<Rightarrow> False | Inr text' \<Rightarrow> encode_utf8 text' \<noteq> None)"
    by code_simp
  then show ?thesis by (auto simp: calibration_manifest_digest_def split: sum.splits)
qed

lemma demo_selections:
  "select_batch demo_config demo_hardware (bf_memory demo_config) 2 demo_samples
     \<lparr>se_ids = [], se_tokens = 0, se_estimate = None\<rparr>
   = Inr \<lparr>se_ids = [lit ''a'', lit ''b''], se_tokens = 3,
       se_estimate = Some \<lparr>es_ram = 6, es_vram = 0, es_disk = 0, es_runtime = None\<rparr>\<rparr>"
  "select_batch demo_config demo_hardware (bf_memory demo_config) 1 demo_samples
     \<lparr>se_ids = [], se_tokens = 0, se_estimate = None\<rparr>
   = Inr \<lparr>se_ids = [lit ''a''], se_tokens = 2,
       se_estimate = Some \<lparr>es_ram = 4, es_vram = 0, es_disk = 0, es_runtime = None\<rparr>\<rparr>"
  by code_simp+

lemma demo_config_ok: "batch_config_init demo_config = Inr demo_config"
    "batch_memory_model_init (bf_memory demo_config) = Inr (bf_memory demo_config)"
    "length demo_samples = 3" "token_total (sample_range demo_samples 0 2) = 3"
  by code_simp+

lemma demo_planning:
  assumes d: "calibration_manifest_digest demo_samples = Inr d" and cur: "cur = \<lparr>bc_digest = d, bc_next = 0\<rparr>"
  shows "\<exists>p b. plan_next demo_config demo_hardware demo_samples (Some cur) [] = Inr p \<and> bp_batch p = Some b
      \<and> bp_cursor p = cur \<and> ba_ids b = [lit ''a'', lit ''b''] \<and> bc_next (bp_next_cursor p) = 2"
    and "\<exists>p b. plan_next demo_config demo_hardware demo_samples (Some cur) [demo_failed d] = Inr p
      \<and> bp_batch p = Some b \<and> ba_ids b = [lit ''a'']"
proof -
  have n: "effective_batch_size demo_config [] = Inr 2" "effective_batch_size demo_config [demo_failed d] = Inr 1"
    by (simp_all add: effective_batch_size_def demo_config_def demo_failed_def observed_samples_def raise_if_def)
  have m: "adapt_calibration_memory_model (bf_memory demo_config) [] d = Inr (bf_memory demo_config)"
    "adapt_calibration_memory_model (bf_memory demo_config) [demo_failed d] d = Inr (bf_memory demo_config)"
    using demo_config_ok(2)
    by (simp_all add: adapt_calibration_memory_model_def adapt_step_def measured_per_token_def demo_failed_def raise_to_def raise_if_def)
  have v: "validate_observations demo_samples cur d [demo_failed d] = Inr ()"
    using demo_config_ok(3,4) cur by (simp add: demo_failed_def raise_if_def)
  note defs = plan_next_def batch_plan_init_def batch_cursor_init_def calibration_batch_init_def raise_if_def lit_simps
  show "\<exists>p b. plan_next demo_config demo_hardware demo_samples (Some cur) [] = Inr p \<and> bp_batch p = Some b
      \<and> bp_cursor p = cur \<and> ba_ids b = [lit ''a'', lit ''b''] \<and> bc_next (bp_next_cursor p) = 2"
    using d cur n(1) m(1) demo_selections(1) demo_config_ok(3) manifest_samples(3) [OF d] by (simp add: defs)
  show "\<exists>p b. plan_next demo_config demo_hardware demo_samples (Some cur) [demo_failed d] = Inr p
      \<and> bp_batch p = Some b \<and> ba_ids b = [lit ''a'']"
    using d cur n(2) m(2) v demo_selections(2) demo_config_ok(3) manifest_samples(3) [OF d] by (simp add: defs)
qed

text \<open>
  C22. A calibration takes every sample exactly once and in order, whatever is observed on the way. What it has
  taken is always the samples before its cursor, none twice; a batch moves the cursor on; and when a plan is
  complete every sample was taken. While each remaining sample fits alone under the configured memory model,
  planning without observations never fails; with observations it may fail, at the minimum batch size or
  because the adapted model is larger.
\<close>
theorem calibration_covers_once:
  assumes config: "batch_config_init c = Inr c" and model: "batch_memory_model_init (bf_memory c) = Inr (bf_memory c)"
    and run: "calibrated c h ss cur ids"
  shows "ids = map sm_id (take (nat (bc_next cur)) ss) \<and> distinct ids
    \<and> (\<forall>observations p. plan_next c h ss (Some cur) observations = Inr p \<longrightarrow>
        (if plan_complete p then ids = map sm_id ss
         else bc_next cur < bc_next (bp_next_cursor p) \<and> bc_next (bp_next_cursor p) \<le> int (length ss)))
    \<and> ((\<forall>s \<in> set (drop (nat (bc_next cur)) ss). batch_fits c h (bf_memory c) 1 (int (length (sm_tokens s))))
        \<longrightarrow> (\<exists>p. plan_next c h ss (Some cur) [] = Inr p))"
proof -
  note prefix = calibrated_prefix [OF run]
  then have cursor: "batch_cursor_init cur = Inr cur" "calibration_manifest_digest ss = Inr (bc_digest cur)"
    and ids: "ids = map sm_id (take (nat (bc_next cur)) ss)" by simp_all
  have "distinct ids" using manifest_samples(1) [OF cursor(2)] ids by (simp add: take_map [symmetric])
  moreover have "if plan_complete p then ids = map sm_id ss
      else bc_next cur < bc_next (bp_next_cursor p) \<and> bc_next (bp_next_cursor p) \<le> int (length ss)"
    if plan: "plan_next c h ss (Some cur) observations = Inr p" for observations p
  proof (cases "bc_next cur = int (length ss)")
    case True
    then show ?thesis using plan_next_cases [OF cursor(1) plan] ids by (simp add: plan_complete_def)
  next
    case False
    with plan_next_cases [OF cursor(1) plan] obtain b xs rest where
      planned: "planned_batch c h ss p b xs rest" and cur: "bp_cursor p = cur" "0 \<le> bc_next cur" "bc_next cur \<le> int (length ss)"
      by auto
    note b = planned [unfolded planned_batch_def cur(1) Let_def]
    have "int (length ss) = bc_next cur + int (length xs) + int (length rest)"
      using arg_cong [of _ _ length, OF conjunct1 [OF conjunct2 [OF b]]] cur(2,3) by simp
    then show ?thesis using b by (simp add: plan_complete_def)
  qed
  moreover note plan_next_runs [OF config model cursor]
  ultimately show ?thesis using ids prefix by blast
qed

theorem calibration_covers_once_witness:
  "\<exists>cur ids. calibrated demo_config demo_hardware demo_samples cur ids \<and> ids = [lit ''a'', lit ''b'']
     \<and> ids = map sm_id (take (nat (bc_next cur)) demo_samples) \<and> distinct ids"
proof -
  obtain d where d: "calibration_manifest_digest demo_samples = Inr d" using demo_digest by blast
  let ?cur = "\<lparr>bc_digest = d, bc_next = 0\<rparr>"
  obtain p b where p: "plan_next demo_config demo_hardware demo_samples (Some ?cur) [] = Inr p" "bp_batch p = Some b"
    "bp_cursor p = ?cur" "ba_ids b = [lit ''a'', lit ''b'']"
    using demo_planning(1) [OF d refl] by blast
  have "plan_next demo_config demo_hardware demo_samples None [] = Inr p"
    using p(1) d manifest_samples(3) [OF d] by (simp add: plan_next_def batch_cursor_init_def raise_if_def)
  from calibrated.taken [OF calibrated.begun [OF this, unfolded p(3)] p(1,2)] p(4)
  have run: "calibrated demo_config demo_hardware demo_samples (bp_next_cursor p) [lit ''a'', lit ''b'']" by simp
  note covers = calibration_covers_once [OF demo_config_ok(1,2) run]
  show ?thesis
    using run conjunct1 [OF covers] conjunct1 [OF conjunct2 [OF covers]]
    by (intro exI [of _ "bp_next_cursor p"] exI [of _ "[lit ''a'', lit ''b'']"] conjI refl)
qed

text \<open>
  C23. The next batch is the longest one that fits. A plan that is returned is complete exactly when its cursor
  is at the end. Otherwise its batch starts at the cursor, ends where the next cursor is, and lists the samples
  between in order with their tokens; it is not empty, stays within the sizes and the token limit, and its
  estimate fits the budget and the host; and it ends only at the last sample, at the size in effect, or
  because one more sample would not fit. After memory was exhausted the size in effect is smaller than the
  batch that failed.
\<close>
theorem next_batch_longest:
  assumes config: "batch_config_init c = Inr c" and cursor: "batch_cursor_init cur = Inr cur"
    and plan: "plan_next c h samples (Some cur) observations = Inr p"
  shows "bp_cursor p = cur \<and> (plan_complete p \<longleftrightarrow> bc_next cur = int (length samples))
    \<and> bp_effective p \<le> bf_max_size c
    \<and> (observations \<noteq> [] \<and> bo_exhausted (last observations) \<noteq> None \<longrightarrow> bp_effective p < observed_samples (last observations))
    \<and> (\<forall>b. bp_batch p = Some b \<longrightarrow>
        ba_start b = bc_next cur \<and> ba_end b = bc_next (bp_next_cursor p) \<and> ba_start b < ba_end b
        \<and> ba_end b \<le> int (length samples) \<and> ba_end b - ba_start b \<le> bp_effective p
        \<and> ba_ids b = map sm_id (sample_range samples (ba_start b) (ba_end b))
        \<and> ba_tokens b = token_total (sample_range samples (ba_start b) (ba_end b))
        \<and> batch_fits c h (bp_memory p) (ba_end b - ba_start b) (ba_tokens b)
        \<and> (ba_end b = int (length samples) \<or> ba_end b - ba_start b = bp_effective p
           \<or> \<not> batch_fits c h (bp_memory p) (ba_end b - ba_start b + 1)
                (ba_tokens b + int (length (sm_tokens (samples ! nat (ba_end b)))))))"
proof -
  note cases = plan_next_cases [OF cursor plan]
  note eff = effective_batch_size_Inr [OF _ config, of observations "bp_effective p"]
  show ?thesis
  proof (cases "bc_next cur = int (length samples)")
    case True
    then show ?thesis using cases eff by (simp add: plan_complete_def)
  next
    case False
    with cases obtain b taken left where planned: "planned_batch c h samples p b taken left" by auto
    from cases have cur: "bp_cursor p = cur" by simp
    note b = planned [unfolded planned_batch_def cur Let_def]
    from b have parts: "drop (nat (bc_next cur)) samples = taken @ left" by simp
    have start: "0 \<le> bc_next cur" "bc_next cur \<le> int (length samples)" using cases by simp_all
    let ?i = "nat (bc_next cur)"
    have len: "length samples = ?i + length taken + length left"
      using arg_cong [OF parts, of length] start by simp
    have range: "sample_range samples (bc_next cur) (bc_next cur + int (length taken)) = taken"
      using parts by (simp add: sample_range_def)
    have next_sample: "hd left = samples ! (?i + length taken)" if "left \<noteq> []"
    proof -
      have "drop (?i + length taken) samples = drop (length taken) (drop ?i samples)" by (simp add: add.commute)
      then have "drop (?i + length taken) samples = left" using parts by simp
      with that len show ?thesis by (metis hd_drop_conv_nth drop_eq_Nil not_le)
    qed
    have "nat (bc_next cur + int (length taken)) = ?i + length taken" using start by (simp add: nat_add_distrib)
    moreover have "left = [] \<longleftrightarrow> bc_next cur + int (length taken) = int (length samples)" using len start by auto
    ultimately show ?thesis
      using False cases eff b range next_sample len start
      by (auto simp: plan_complete_def)
  qed
qed

theorem next_batch_longest_witness:
  "\<exists>d p b. plan_next demo_config demo_hardware demo_samples (Some \<lparr>bc_digest = d, bc_next = 0\<rparr>) [demo_failed d] = Inr p
     \<and> bp_batch p = Some b \<and> ba_ids b = [lit ''a''] \<and> bp_effective p < 2 \<and> ba_start b < ba_end b"
proof -
  obtain d where d: "calibration_manifest_digest demo_samples = Inr d" using demo_digest by blast
  let ?cur = "\<lparr>bc_digest = d, bc_next = 0\<rparr>"
  obtain p b where p: "plan_next demo_config demo_hardware demo_samples (Some ?cur) [demo_failed d] = Inr p"
    "bp_batch p = Some b" "ba_ids b = [lit ''a'']"
    using demo_planning(2) [OF d refl] by blast
  have cur: "batch_cursor_init ?cur = Inr ?cur" using manifest_samples(3) [OF d] by (simp add: batch_cursor_init_def raise_if_def)
  have "bp_effective p < 2 \<and> ba_start b < ba_end b"
    using next_batch_longest [OF demo_config_ok(1) cur p(1)] p(2) by (simp add: demo_failed_def observed_samples_def)
  with p show ?thesis by blast
qed

section \<open>Adaptation\<close>

lemma measured_per_token_covers:
  assumes "0 \<le> fixed" and "0 \<le> per_sample" and "0 < samples" and "peak - base < 2 ^ 53" and "0 < tokens" and "tokens < 2 ^ 53"
  shows "\<exists>n. measured_per_token (Some base) (Some peak) fixed per_sample samples tokens = Inr (Some n)
    \<and> (\<forall>rate. n \<le> rate \<longrightarrow> peak - base \<le> fixed + samples * per_sample + tokens * rate)"
proof -
  let ?v = "variable_bytes base peak fixed per_sample samples"
  let ?n = "- ((- ?v) div tokens)"
  have "0 \<le> per_sample * samples" using assms(2,3) by simp
  then have "0 \<le> ?v" "?v < 2 ^ 53" using assms(1,4) by (auto simp: variable_bytes_def)
  then have "measured_per_token (Some base) (Some peak) fixed per_sample samples tokens = Inr (Some ?n)"
    using ceil_true_divide_exact [of ?v tokens] assms(5,6) by (simp add: measured_per_token_def)
  moreover have "(- ?v) div tokens * tokens \<le> - ?v"
    using div_mult_mod_eq [of "- ?v" tokens] pos_mod_sign [OF assms(5), of "- ?v"] by linarith
  then have "?v \<le> tokens * ?n" by (simp add: mult.commute)
  moreover have "tokens * ?n \<le> tokens * rate" if "?n \<le> rate" for rate
    using that assms(5) by (intro mult_left_mono) simp_all
  moreover have "peak - base \<le> fixed + samples * per_sample + ?v" by (simp add: variable_bytes_def mult.commute)
  ultimately show ?thesis by fastforce
qed

definition measured_rates :: "batch_memory_model \<Rightarrow> batch_observation \<Rightarrow> (batch_error + int option) \<times> (batch_error + int option)" where
  "measured_rates m b =
     (measured_per_token (bo_ram_baseline b) (bo_ram_peak b) (bm_fixed_ram m) (bm_ram_per_sample m) (observed_samples b) (bo_tokens b),
      measured_per_token (bo_vram_baseline b) (bo_vram_peak b) (bm_fixed_vram m) (bm_vram_per_sample m) (observed_samples b) (bo_tokens b))"

definition rates_cover :: "batch_memory_model \<Rightarrow> int \<times> int \<Rightarrow> batch_observation \<Rightarrow> bool" where
  "rates_cover m rates b \<longleftrightarrow> (\<forall>n. fst (measured_rates m b) = Inr (Some n) \<longrightarrow> n \<le> fst rates)
     \<and> (\<forall>n. snd (measured_rates m b) = Inr (Some n) \<longrightarrow> n \<le> snd rates)"

lemma rates_cover_mono: "rates_cover m r b \<Longrightarrow> fst r \<le> fst r' \<Longrightarrow> snd r \<le> snd r' \<Longrightarrow> rates_cover m r' b"
  unfolding rates_cover_def by (meson order_trans)

lemma adapt_step_Inr:
  "adapt_step m d rates b = Inr r \<Longrightarrow> fst rates \<le> fst r \<and> snd rates \<le> snd r \<and> rates_cover m r b"
proof -
  assume "adapt_step m d rates b = Inr r"
  then obtain ram vram where "measured_rates m b = (Inr ram, Inr vram)" "r = (raise_to (fst rates) ram, raise_to (snd rates) vram)"
    by (auto simp: adapt_step_def guard_Inr rbind_Inr_iff measured_rates_def)
  then show ?thesis by (cases ram; cases vram) (simp_all add: rates_cover_def raise_to_def)
qed

lemma adapt_steps:
  assumes "foldM_r (adapt_step m d) rates bs = Inr r"
  shows "fst rates \<le> fst r \<and> snd rates \<le> snd r \<and> (\<forall>b \<in> set bs. rates_cover m r b)"
  using assms
proof (induction bs arbitrary: rates)
  case (Cons b bs)
  then obtain r1 where r1: "adapt_step m d rates b = Inr r1" "foldM_r (adapt_step m d) r1 bs = Inr r"
    by (auto simp: rbind_Inr_iff)
  note now = adapt_step_Inr [OF r1(1)] and later = Cons.IH [OF r1(2)]
  then have "rates_cover m r b" using rates_cover_mono [of m r1 b r] by simp
  with now later show ?case by simp
qed simp

text \<open>
  C24. The adapted model accounts for what was measured. Adaptation changes the two rates per token only and
  never lowers them, and for each observed batch whose usage and tokens are below 2 to the 53rd the adapted
  model estimates at least the memory the batch used above its baseline.
\<close>
theorem adapted_model_covers:
  assumes adapted: "adapt_calibration_memory_model m observations d = Inr m'"
    and b: "b \<in> set observations" "batch_observation_init b = Inr b" "bo_tokens b < 2 ^ 53"
  shows "m' = m\<lparr>bm_ram_per_token := bm_ram_per_token m', bm_vram_per_token := bm_vram_per_token m'\<rparr>
    \<and> bm_ram_per_token m \<le> bm_ram_per_token m' \<and> bm_vram_per_token m \<le> bm_vram_per_token m'
    \<and> (\<exists>e. batch_estimate m' (observed_samples b) (bo_tokens b) = Inr e
        \<and> (\<forall>base peak. bo_ram_baseline b = Some base \<and> bo_ram_peak b = Some peak \<and> peak - base < 2 ^ 53
             \<longrightarrow> peak - base \<le> es_ram e)
        \<and> (\<forall>base peak. bo_vram_baseline b = Some base \<and> bo_vram_peak b = Some peak \<and> peak - base < 2 ^ 53
             \<longrightarrow> peak - base \<le> es_vram e))"
proof -
  obtain rates where steps: "foldM_r (adapt_step m d) (bm_ram_per_token m, bm_vram_per_token m) observations = Inr rates"
    and m': "batch_memory_model_init (m\<lparr>bm_ram_per_token := fst rates, bm_vram_per_token := snd rates\<rparr>) = Inr m'"
    using adapted by (auto simp: adapt_calibration_memory_model_def rbind_Inr_iff)
  then have eq: "m' = m\<lparr>bm_ram_per_token := fst rates, bm_vram_per_token := snd rates\<rparr>"
    and valid: "batch_memory_model_init m' = Inr m'" by (auto simp: batch_memory_model_init_Inr)
  then have sizes: "0 \<le> bm_fixed_ram m" "0 \<le> bm_ram_per_sample m" "0 \<le> bm_fixed_vram m" "0 \<le> bm_vram_per_sample m"
    by (simp_all add: batch_memory_model_init_Inr)
  have pos: "0 < observed_samples b" "0 < bo_tokens b"
    using b(2) by (auto simp: batch_observation_init_def guard_Inr rbind_Inr_iff observed_samples_def)
  have up: "bm_ram_per_token m \<le> fst rates" "bm_vram_per_token m \<le> snd rates" and cover: "rates_cover m rates b"
    using adapt_steps [OF steps] b(1) by simp_all
  note covers = measured_per_token_covers [OF _ _ pos(1) _ pos(2) b(3)]
  have ram: "peak - base \<le> bm_fixed_ram m + observed_samples b * bm_ram_per_sample m + bo_tokens b * fst rates"
    if "bo_ram_baseline b = Some base" "bo_ram_peak b = Some peak" "peak - base < 2 ^ 53" for base peak
    using covers [OF sizes(1,2) that(3)] cover that(1,2) by (auto simp: rates_cover_def measured_rates_def)
  have vram: "peak - base \<le> bm_fixed_vram m + observed_samples b * bm_vram_per_sample m + bo_tokens b * snd rates"
    if "bo_vram_baseline b = Some base" "bo_vram_peak b = Some peak" "peak - base < 2 ^ 53" for base peak
    using covers [OF sizes(3,4) that(3)] cover that(1,2) by (auto simp: rates_cover_def measured_rates_def)
  have rates: "bm_ram_per_token m' = fst rates" "bm_vram_per_token m' = snd rates" by (simp_all add: eq)
  let ?e = "\<lparr>es_ram = bm_fixed_ram m' + observed_samples b * bm_ram_per_sample m' + bo_tokens b * bm_ram_per_token m',
     es_vram = bm_fixed_vram m' + observed_samples b * bm_vram_per_sample m' + bo_tokens b * bm_vram_per_token m',
     es_disk = 0, es_runtime = None\<rparr>"
  have "batch_estimate m' (observed_samples b) (bo_tokens b) = Inr ?e" by (rule batch_estimate_runs [OF valid pos])
  moreover have "\<forall>base peak. bo_ram_baseline b = Some base \<and> bo_ram_peak b = Some peak \<and> peak - base < 2 ^ 53
      \<longrightarrow> peak - base \<le> es_ram ?e"
    using ram by (simp add: eq)
  moreover have "\<forall>base peak. bo_vram_baseline b = Some base \<and> bo_vram_peak b = Some peak \<and> peak - base < 2 ^ 53
      \<longrightarrow> peak - base \<le> es_vram ?e"
    using vram by (simp add: eq)
  moreover have "m' = m\<lparr>bm_ram_per_token := bm_ram_per_token m', bm_vram_per_token := bm_vram_per_token m'\<rparr>"
    unfolding rates by (rule eq)
  ultimately show ?thesis using up unfolding rates by blast
qed

text \<open>A batch of two samples and five tokens that used twenty bytes raises the rate of the demonstration model to four.\<close>

definition demo_measured :: batch_observation where
  "demo_measured = \<lparr>bo_digest = replicate 64 48, bo_start = 0, bo_end = 2, bo_tokens = 5, bo_ram_baseline = Some 10,
     bo_ram_peak = Some 30, bo_vram_baseline = None, bo_vram_peak = None, bo_exhausted = None\<rparr>"

theorem adapted_model_covers_witness:
  "\<exists>m' e. adapt_calibration_memory_model (bf_memory demo_config) [demo_measured] (bo_digest demo_measured) = Inr m'
     \<and> bm_ram_per_token m' = 4 \<and> batch_estimate m' 2 5 = Inr e \<and> 20 \<le> es_ram e"
proof -
  have "ceil_true_divide 17 5 = Some 4" using ceil_true_divide_exact [of 17 5] by simp
  then have "\<exists>m'. adapt_calibration_memory_model (bf_memory demo_config) [demo_measured] (bo_digest demo_measured) = Inr m'
      \<and> bm_ram_per_token m' = 4"
    by (simp add: adapt_calibration_memory_model_def adapt_step_def measured_per_token_def variable_bytes_def raise_to_def
        demo_measured_def demo_config_def observed_samples_def batch_memory_model_init_def raise_if_def)
  then obtain m' where m': "adapt_calibration_memory_model (bf_memory demo_config) [demo_measured] (bo_digest demo_measured) = Inr m'"
    "bm_ram_per_token m' = 4" by blast
  have ok: "batch_observation_init demo_measured = Inr demo_measured" "demo_measured \<in> set [demo_measured]"
    "bo_tokens demo_measured < 2 ^ 53"
    by (simp_all add: batch_observation_init_def batch_cursor_init_def check_telemetry_def demo_measured_def
        raise_if_def is_hex64_def list_all_iff)
  from adapted_model_covers [OF m'(1) ok(2,1,3)] obtain e where
    "batch_estimate m' (observed_samples demo_measured) (bo_tokens demo_measured) = Inr e"
    "\<forall>base peak. bo_ram_baseline demo_measured = Some base \<and> bo_ram_peak demo_measured = Some peak \<and> peak - base < 2 ^ 53
       \<longrightarrow> peak - base \<le> es_ram e"
    by (elim conjE exE)
  then have "batch_estimate m' 2 5 = Inr e \<and> 20 \<le> es_ram e" by (simp add: demo_measured_def observed_samples_def)
  with m' show ?thesis by blast
qed

end
