(* ===== verification/MutationSequence.thy ===== *)
theory MutationSequence
  imports IdentityJson MutationContracts
begin

text \<open>
  \<open>search/sequence.py\<close>: sequences of mutation plans, each compiled for one state of the sequence and
  carrying the identity remap of the components it affects; what a state remembers, how a step extends
  it, and its two identities.
\<close>

datatype sequence_error =
    MutationSequence pystr
  | SequenceRemap remap_error
  | SequenceContract contract_error
  | SequenceIdentity identity_error
  | SequenceUnprintable
  | SequenceEncoding

definition sequence_fail :: "string \<Rightarrow> sequence_error" where
  "sequence_fail s = MutationSequence (lit s)"

definition MUTATION_SEQUENCE_SCHEMA_VERSION :: int where
  "MUTATION_SEQUENCE_SCHEMA_VERSION = 1"

text \<open>\<open>tuple(sorted(set(values)))\<close>, \<open>str\<close> and the two hashed texts.\<close>

definition sorted_set :: "component_id list \<Rightarrow> sequence_error + component_id list" where
  "sorted_set is' = except (sorted_ids (\<lambda>i. i) (remdups is')) (\<lambda>_. SequenceUnprintable)"

definition sequence_texts :: "component_id list \<Rightarrow> sequence_error + pystr list" where
  "sequence_texts is' = except (mapM_r graph_id_text is') (\<lambda>_. SequenceUnprintable)"

definition sequence_digest :: "string \<Rightarrow> json \<Rightarrow> sequence_error + pystr" where
  "sequence_digest prefix v =
     rbind (except (canonical_identity_json v) SequenceIdentity) (\<lambda>text.
     rbind (of_option SequenceEncoding (encode_utf8 text)) (\<lambda>encoded.
     Inr (lit prefix @ hexdigest encoded)))"

definition delta_sum :: "mutation_delta \<Rightarrow> mutation_delta \<Rightarrow> mutation_delta" where
  "delta_sum a b = \<lparr>dl_parameters = dl_parameters a + dl_parameters b, dl_flops = dl_flops a + dl_flops b,
     dl_memory_bytes = dl_memory_bytes a + dl_memory_bytes b, dl_storage_bytes = dl_storage_bytes a + dl_storage_bytes b\<rparr>"

definition delta_zero :: mutation_delta where
  "delta_zero = \<lparr>dl_parameters = 0, dl_flops = 0, dl_memory_bytes = 0, dl_storage_bytes = 0\<rparr>"

definition delta_json :: "mutation_delta \<Rightarrow> json" where
  "delta_json d = JObj [(lit ''parameters'', JInt (dl_parameters d)), (lit ''flops'', JInt (dl_flops d)),
     (lit ''memory_bytes'', JInt (dl_memory_bytes d)), (lit ''storage_bytes'', JInt (dl_storage_bytes d))]"

section \<open>Steps\<close>

record sequence_step =
  sp_source_state_id :: pystr
  sp_plan :: mutation_plan
  sp_remap :: identity_remap
  sp_proof :: "pystr option"

definition sequence_step_init :: "sequence_step \<Rightarrow> sequence_error + sequence_step" where
  "sequence_step_init s =
     rbind (raise_if (take 6 (sp_source_state_id s) \<noteq> lit ''state_'')
              (sequence_fail ''sequence plans require their source state ID'')) (\<lambda>_.
     rbind (raise_if (case sp_proof s of None \<Rightarrow> False | Some p \<Rightarrow> is_blank p)
              (sequence_fail ''commutativity proof names cannot be blank'')) (\<lambda>_.
     rbind (raise_if (remap_dom (sp_remap s) \<noteq> set (mp_affected (sp_plan s)))
              (sequence_fail ''sequence identity remap must cover exactly the affected components'')) (\<lambda>_.
     Inr s)))"

definition step_mutation_id :: "sequence_step \<Rightarrow> sequence_error + pystr" where
  "step_mutation_id s = except (mutation_id (mp_request (sp_plan s))) SequenceContract"

definition retained_only :: "sequence_step \<Rightarrow> bool" where
  "retained_only s \<longleftrightarrow> list_all (\<lambda>m. im_targets m = [im_source m]) (mappings (sp_remap s))"

definition sequence_step_record :: "sequence_step \<Rightarrow> sequence_error + json" where
  "sequence_step_record s =
     rbind (step_mutation_id s) (\<lambda>identity.
     rbind (sequence_texts (mp_affected (sp_plan s))) (\<lambda>affected.
     rbind (except (remap_to_record (sp_remap s)) SequenceRemap) (\<lambda>remap.
     Inr (JObj [(lit ''source_state_id'', JStr (sp_source_state_id s)), (lit ''mutation_id'', JStr identity),
                (lit ''affected_components'', JList (map JStr affected)),
                (lit ''expected_delta'', delta_json (mp_expected (sp_plan s))), (lit ''identity_remap'', remap),
                (lit ''commutativity_proof'', case sp_proof s of None \<Rightarrow> JNull | Some p \<Rightarrow> JStr p)]))))"

section \<open>States\<close>

record sequence_state =
  sq_root :: "component_id list"
  sq_active :: "component_id list"
  sq_invalidated :: "component_id list"
  sq_root_to_current :: identity_remap
  sq_steps :: "sequence_step list"
  sq_delta :: mutation_delta
  sq_version :: int

definition require_canonical :: "string \<Rightarrow> component_id list \<Rightarrow> sequence_error + unit" where
  "require_canonical name values =
     rbind (sorted_set values) (\<lambda>canonical.
     raise_if (values \<noteq> canonical) (MutationSequence (lit name @ lit '' component identities must be canonical'')))"

definition sequence_state_init :: "sequence_state \<Rightarrow> sequence_error + sequence_state" where
  "sequence_state_init s =
     rbind (raise_if (sq_version s \<noteq> MUTATION_SEQUENCE_SCHEMA_VERSION)
              (sequence_fail ''unsupported mutation sequence schema'')) (\<lambda>_.
     rbind (require_canonical ''root'' (sq_root s)) (\<lambda>_.
     rbind (require_canonical ''active'' (sq_active s)) (\<lambda>_.
     rbind (require_canonical ''invalidated'' (sq_invalidated s)) (\<lambda>_.
     rbind (raise_if (sq_root s = [] \<or> sq_active s = [])
              (sequence_fail ''mutation sequences require non-empty model states'')) (\<lambda>_.
     rbind (raise_if (set (sq_active s) \<inter> set (sq_invalidated s) \<noteq> {})
              (sequence_fail ''active and invalidated component identities must be disjoint'')) (\<lambda>_.
     rbind (raise_if (remap_dom (sq_root_to_current s) \<noteq> set (sq_root s))
              (sequence_fail ''root remap must cover every original component'')) (\<lambda>_.
     Inr s)))))))"

definition sequence_initial :: "component_id list \<Rightarrow> sequence_error + sequence_state" where
  "sequence_initial components =
     rbind (sorted_set components) (\<lambda>canonical.
     rbind (raise_if (canonical \<noteq> components)
              (sequence_fail ''initial components must be unique and canonical'')) (\<lambda>_.
     rbind (except (retained_remap canonical (lit ''sequence root'')) SequenceRemap) (\<lambda>remap.
     sequence_state_init \<lparr>sq_root = canonical, sq_active = canonical, sq_invalidated = [],
       sq_root_to_current = remap, sq_steps = [], sq_delta = delta_zero,
       sq_version = MUTATION_SEQUENCE_SCHEMA_VERSION\<rparr>)))"

definition sequence_record :: "sequence_state \<Rightarrow> sequence_error + json" where
  "sequence_record s =
     rbind (sequence_texts (sq_root s)) (\<lambda>root.
     rbind (sequence_texts (sq_active s)) (\<lambda>active.
     rbind (sequence_texts (sq_invalidated s)) (\<lambda>invalidated.
     rbind (except (remap_to_record (sq_root_to_current s)) SequenceRemap) (\<lambda>remap.
     rbind (mapM_r sequence_step_record (sq_steps s)) (\<lambda>steps.
     Inr (JObj [(lit ''schema_version'', JInt (sq_version s)), (lit ''root_components'', JList (map JStr root)),
                (lit ''active_components'', JList (map JStr active)),
                (lit ''invalidated_components'', JList (map JStr invalidated)),
                (lit ''root_to_current'', remap), (lit ''steps'', JList steps),
                (lit ''cumulative_delta'', delta_json (sq_delta s))]))))))"

definition state_id :: "sequence_state \<Rightarrow> sequence_error + pystr" where
  "state_id s = rbind (sequence_record s) (sequence_digest ''state_'')"

section \<open>Equivalence of sequences\<close>

fun pairwise_disjoint :: "'a list list \<Rightarrow> bool" where
  "pairwise_disjoint [] \<longleftrightarrow> True"
| "pairwise_disjoint (xs # xss) \<longleftrightarrow> list_all (\<lambda>ys. set xs \<inter> set ys = {}) xss \<and> pairwise_disjoint xss"

definition proven_commutative :: "sequence_state \<Rightarrow> bool" where
  "proven_commutative s \<longleftrightarrow> (case sq_steps s of
       [] \<Rightarrow> False
     | first # _ \<Rightarrow> 2 \<le> length (sq_steps s) \<and> sp_proof first \<noteq> None
         \<and> list_all (\<lambda>step. sp_proof step = sp_proof first \<and> retained_only step) (sq_steps s)
         \<and> pairwise_disjoint (map (\<lambda>step. mp_affected (sp_plan step)) (sq_steps s)))"

definition equivalence_rule :: "sequence_state \<Rightarrow> pystr" where
  "equivalence_rule s =
     (if proven_commutative s
      then lit ''commutative:'' @ (case sp_proof (hd (sq_steps s)) of None \<Rightarrow> [] | Some p \<Rightarrow> p)
      else lit ''ordered'')"

definition equivalence_id :: "sequence_state \<Rightarrow> sequence_error + pystr" where
  "equivalence_id s =
     rbind (mapM_r step_mutation_id (sq_steps s)) (\<lambda>ids.
     rbind (sequence_texts (sq_root s)) (\<lambda>root.
     sequence_digest ''sequence_'' (JObj [(lit ''schema_version'', JInt (sq_version s)),
       (lit ''root_components'', JList (map JStr root)), (lit ''equivalence_rule'', JStr (equivalence_rule s)),
       (lit ''mutation_ids'', JList (map JStr (if proven_commutative s then sort ids else ids)))])))"

section \<open>Extending a sequence\<close>

text \<open>The default argument of \<open>explicit.get\<close> is constructed for every component.\<close>

definition expanded_mapping :: "identity_remap \<Rightarrow> component_id \<Rightarrow> remap_error + identity_mapping" where
  "expanded_mapping remap c =
     rbind (identity_mapping_init
         \<lparr>im_source = c, im_targets = [c], im_reason = lit ''unaffected sequence component''\<rparr>) (\<lambda>unaffected.
     Inr (case by_source remap c of Some m \<Rightarrow> m | None \<Rightarrow> unaffected))"

definition expand_remap :: "component_id list \<Rightarrow> identity_remap \<Rightarrow> remap_error + identity_remap" where
  "expand_remap active remap = rbind (mapM_r (expanded_mapping remap) active) build_remap"

definition remap_targets :: "identity_remap \<Rightarrow> component_id list" where
  "remap_targets r = remdups (concat (map im_targets (mappings r)))"

definition raise_reused :: "component_id list \<Rightarrow> sequence_error + unit" where
  "raise_reused reused =
     (if reused = [] then Inr ()
      else rbind (sorted_set reused) (\<lambda>ordered.
           rbind (sequence_texts ordered) (\<lambda>texts.
           Inl (MutationSequence (lit ''invalidated component identities cannot be reused: ''
                  @ join_text (lit '', '') texts)))))"

definition extend :: "sequence_state \<Rightarrow> sequence_step \<Rightarrow> sequence_error + sequence_state" where
  "extend s step =
     rbind (state_id s) (\<lambda>here.
     rbind (raise_if (sp_source_state_id step \<noteq> here)
              (sequence_fail ''sequence mutation plan was compiled for a stale state'')) (\<lambda>_.
     rbind (raise_if (\<not> set (mp_affected (sp_plan step)) \<subseteq> set (sq_active s))
              (sequence_fail ''mutation plan affects inactive or unknown components'')) (\<lambda>_.
     rbind (except (expand_remap (sq_active s) (sp_remap step)) SequenceRemap) (\<lambda>expanded.
     let targets = remap_targets expanded in
     rbind (raise_reused (filter (\<lambda>t. t \<in> set (sq_invalidated s)) targets)) (\<lambda>_.
     rbind (sorted_set targets) (\<lambda>new_active.
     rbind (raise_if (new_active = [])
              (sequence_fail ''a mutation sequence cannot remove the entire model state'')) (\<lambda>_.
     rbind (sorted_set (sq_invalidated s @ filter (\<lambda>c. c \<notin> set targets) (sq_active s))) (\<lambda>invalidated.
     rbind (except (compose_remap (sq_root_to_current s) expanded) SequenceRemap) (\<lambda>composed.
     sequence_state_init \<lparr>sq_root = sq_root s, sq_active = new_active, sq_invalidated = invalidated,
       sq_root_to_current = composed, sq_steps = sq_steps s @ [step],
       sq_delta = delta_sum (sq_delta s) (mp_expected (sp_plan step)),
       sq_version = MUTATION_SEQUENCE_SCHEMA_VERSION\<rparr>)))))))))"

section \<open>What one extension does\<close>

text \<open>Constructed steps; and the relation on components a step stands for.\<close>

definition step_ok :: "sequence_step \<Rightarrow> bool" where
  "step_ok step \<longleftrightarrow> sequence_step_init step = Inr step \<and> remap_ok (sp_remap step)"

definition step_rel :: "sequence_step \<Rightarrow> component_id set \<Rightarrow> (component_id \<times> component_id) set" where
  "step_rel step active = {(c, t). c \<in> active
     \<and> (if c \<in> remap_dom (sp_remap step) then (c, t) \<in> remap_rel (sp_remap step) else t = c)}"

lemma sorted_set_Inr:
  assumes "sorted_set xs = Inr ys"
  shows "set ys = set xs \<and> distinct ys"
proof -
  have "sorted_ids (\<lambda>i. i) (remdups xs) = Inr ys" using assms by (simp add: sorted_set_def)
  note ys = sorted_ids_Inr(2,3) [OF this]
  show ?thesis using ys(2) mset_eq_imp_distinct_iff [OF ys(1)] by simp
qed

lemma require_canonical_distinct: "require_canonical name xs = Inr u \<Longrightarrow> distinct xs"
  by (auto simp: require_canonical_def dest: sorted_set_Inr)

lemma sequence_state_init_Inr:
  assumes "sequence_state_init s = Inr s'"
  shows "s' = s" and "distinct (sq_active s)" and "sq_active s \<noteq> []"
    and "set (sq_active s) \<inter> set (sq_invalidated s) = {}" and "remap_dom (sq_root_to_current s) = set (sq_root s)"
  using assms by (auto simp: sequence_state_init_def guard_Inr dest: require_canonical_distinct)

lemma expanded_mapping_Inr:
  assumes "expanded_mapping r c = Inr m" and "remap_ok r"
  shows "im_source m = c" and "identity_mapping_init m = Inr m"
    and "t \<in> set (im_targets m) \<longleftrightarrow> (if c \<in> remap_dom r then (c, t) \<in> remap_rel r else t = c)"
proof -
  let ?u = "\<lparr>im_source = c, im_targets = [c], im_reason = lit ''unaffected sequence component''\<rparr>"
  have u: "identity_mapping_init ?u = Inr ?u" and m: "m = (case by_source r c of Some m \<Rightarrow> m | None \<Rightarrow> ?u)"
    using assms(1) by (auto simp: expanded_mapping_def dest: identity_mapping_init_Inr [THEN iffD1])
  have "im_source m = c \<and> identity_mapping_init m = Inr m
      \<and> (t \<in> set (im_targets m) \<longleftrightarrow> (if c \<in> remap_dom r then (c, t) \<in> remap_rel r else t = c))"
  proof (cases "by_source r c")
    case None
    with m u show ?thesis by (simp add: by_source_None)
  next
    case (Some n)
    then have "n \<in> set (mappings r) \<and> im_source n = c" by (simp add: by_source_iff [OF assms(2)])
    moreover have "c \<in> remap_dom r" using Some by_source_None [of r c] by simp
    ultimately have "n \<in> set (mappings r) \<and> im_source n = c" "c \<in> remap_dom r" by simp_all
    with m Some assms(2) show ?thesis
      by (auto simp: remap_ok_iff list_all_iff remap_rel_by_source [OF assms(2)])
  qed
  then show "im_source m = c" and "identity_mapping_init m = Inr m"
    and "t \<in> set (im_targets m) \<longleftrightarrow> (if c \<in> remap_dom r then (c, t) \<in> remap_rel r else t = c)" by simp_all
qed

lemma expand_remap_Inr:
  assumes "expand_remap active (sp_remap step) = Inr expanded" and "remap_ok (sp_remap step)"
  shows "remap_ok expanded" and "remap_dom expanded = set active" and "remap_rel expanded = step_rel step (set active)"
proof -
  from assms(1) obtain ms where ms: "mapM_r (expanded_mapping (sp_remap step)) active = Inr ms"
    and build: "build_remap ms = Inr expanded"
    by (auto simp: expand_remap_def)
  note b = build_remap_Inr [OF build]
  have sets: "set (mappings expanded) = set ms" using b(1) by (metis set_mset_mset)
  have each: "list_all2 (\<lambda>c m. expanded_mapping (sp_remap step) c = Inr m) active ms"
    using ms by (simp add: mapM_r_Inr_iff)
  have fwd: "\<exists>m \<in> set ms. expanded_mapping (sp_remap step) c = Inr m" if "c \<in> set active" for c
    using each that by (auto simp: list_all2_conv_all_nth in_set_conv_nth)
  have bwd: "\<exists>c \<in> set active. expanded_mapping (sp_remap step) c = Inr m" if "m \<in> set ms" for m
    using each that by (auto simp: list_all2_conv_all_nth in_set_conv_nth) (metis nth_mem)
  show "remap_ok expanded"
    using b(3) bwd expanded_mapping_Inr(2) [OF _ assms(2)] unfolding remap_ok_def list_all_iff sets by blast
  show "remap_dom expanded = set active"
    using fwd bwd expanded_mapping_Inr(1) [OF _ assms(2)] unfolding remap_dom_def sets by (auto simp: image_iff) metis+
  show "remap_rel expanded = step_rel step (set active)"
  proof (intro set_eqI iffI)
    fix p assume "p \<in> remap_rel expanded"
    then obtain m t where m: "m \<in> set ms" "t \<in> set (im_targets m)" "p = (im_source m, t)"
      unfolding remap_rel_def sets by blast
    with bwd obtain c where c: "c \<in> set active" "expanded_mapping (sp_remap step) c = Inr m" by blast
    show "p \<in> step_rel step (set active)"
      using m c expanded_mapping_Inr(1,3) [OF c(2) assms(2)] by (simp add: step_rel_def)
  next
    fix p assume "p \<in> step_rel step (set active)"
    then obtain c t where p: "p = (c, t)" "c \<in> set active"
      "if c \<in> remap_dom (sp_remap step) then (c, t) \<in> remap_rel (sp_remap step) else t = c"
      by (auto simp: step_rel_def)
    with fwd obtain m where m: "m \<in> set ms" "expanded_mapping (sp_remap step) c = Inr m" by blast
    show "p \<in> remap_rel expanded"
      using p m expanded_mapping_Inr(1,3) [OF m(2) assms(2)] unfolding remap_rel_def sets by auto
  qed
qed

lemma set_remap_targets: "set (remap_targets r) = Range (remap_rel r)"
  by (auto simp: remap_targets_def remap_rel_def)

text \<open>The invariant of a state that was reached by extensions.\<close>

definition sequence_ok :: "sequence_state \<Rightarrow> bool" where
  "sequence_ok s \<longleftrightarrow> remap_ok (sq_root_to_current s) \<and> remap_dom (sq_root_to_current s) = set (sq_root s)
     \<and> Range (remap_rel (sq_root_to_current s)) = set (sq_active s) \<and> sq_active s \<noteq> []
     \<and> set (sq_active s) \<inter> set (sq_invalidated s) = {}"

definition moves :: "sequence_state \<Rightarrow> sequence_step \<Rightarrow> sequence_state \<Rightarrow> bool" where
  "moves s step s' \<longleftrightarrow> (let R = step_rel step (set (sq_active s)) in
     state_id s = Inr (sp_source_state_id step) \<and> remap_dom (sp_remap step) \<subseteq> set (sq_active s)
     \<and> sq_root s' = sq_root s \<and> set (sq_active s') = Range R
     \<and> set (sq_invalidated s') = set (sq_invalidated s) \<union> (set (sq_active s) - Range R)
     \<and> Range R \<inter> set (sq_invalidated s) = {}
     \<and> remap_rel (sq_root_to_current s') = remap_rel (sq_root_to_current s) O R
     \<and> sq_steps s' = sq_steps s @ [step] \<and> sq_delta s' = delta_sum (sq_delta s) (mp_expected (sp_plan step))
     \<and> sq_version s' = MUTATION_SEQUENCE_SCHEMA_VERSION)"

lemma raise_reused_Inr [simp]: "raise_reused xs = Inr u \<longleftrightarrow> xs = []"
  by (auto simp: raise_reused_def)

lemma extend_exact:
  assumes ok: "sequence_ok s" and step: "step_ok step" and run: "extend s step = Inr s'"
  shows "moves s step s' \<and> sequence_ok s'"
proof -
  let ?A = "set (sq_active s)" and ?I = "set (sq_invalidated s)"
  let ?R = "step_rel step ?A"
  from run obtain expanded new_active invalidated composed where
    here: "state_id s = Inr (sp_source_state_id step)" "set (mp_affected (sp_plan step)) \<subseteq> ?A"
    and expanded: "expand_remap (sq_active s) (sp_remap step) = Inr expanded"
    and reused: "filter (\<lambda>t. t \<in> ?I) (remap_targets expanded) = []"
    and active: "sorted_set (remap_targets expanded) = Inr new_active"
    and inval: "sorted_set (sq_invalidated s @ filter (\<lambda>c. c \<notin> set (remap_targets expanded)) (sq_active s)) = Inr invalidated"
    and composed: "compose_remap (sq_root_to_current s) expanded = Inr composed"
    and init: "sequence_state_init \<lparr>sq_root = sq_root s, sq_active = new_active, sq_invalidated = invalidated,
       sq_root_to_current = composed, sq_steps = sq_steps s @ [step],
       sq_delta = delta_sum (sq_delta s) (mp_expected (sp_plan step)),
       sq_version = MUTATION_SEQUENCE_SCHEMA_VERSION\<rparr> = Inr s'"
    by (auto simp: extend_def Let_def guard_Inr)
  have rok: "remap_ok (sp_remap step)" and dom: "remap_dom (sp_remap step) = set (mp_affected (sp_plan step))"
    using step by (auto simp: step_ok_def sequence_step_init_def guard_Inr)
  note e = expand_remap_Inr [OF expanded rok]
  have targets: "set (remap_targets expanded) = Range ?R" by (simp add: set_remap_targets e(3))
  have root: "remap_ok (sq_root_to_current s)" "Range (remap_rel (sq_root_to_current s)) = ?A"
    using ok by (simp_all add: sequence_ok_def)
  note c = compose_rel [OF composed root(1) e(1)]
  note init' = sequence_state_init_Inr [OF init]
  have act: "set new_active = Range ?R" using sorted_set_Inr [OF active] targets by simp
  have inv: "set invalidated = ?I \<union> (?A - Range ?R)" using sorted_set_Inr [OF inval] targets by auto
  have disj: "Range ?R \<inter> ?I = {}" using reused targets by (auto simp: filter_empty_conv)
  have "moves s step s'"
    using here dom act inv disj c(2) by (simp add: moves_def Let_def init'(1) e(3))
  moreover have "Range (remap_rel (sq_root_to_current s) O ?R) = Range ?R"
  proof -
    have "Domain ?R \<subseteq> ?A" by (auto simp: step_rel_def)
    with root(2) show ?thesis by blast
  qed
  then have "sequence_ok s'"
    using init' c(2) act compose_remap_Inr(1) [OF composed root(1)] by (simp add: sequence_ok_def e(3))
  ultimately show ?thesis by blast
qed

lemma sorted_set_empty: "sorted_set [] = Inr []"
  by (simp add: sorted_set_def sorted_ids_iff)

lemma retained_remap_Inr:
  assumes "retained_remap cs reason = Inr r"
  shows "remap_ok r" and "remap_dom r = set cs" and "remap_rel r = Id_on (set cs)"
proof -
  from assms obtain ms where ms: "list_all2 (\<lambda>c m. identity_mapping_init
      \<lparr>im_source = c, im_targets = [c], im_reason = reason\<rparr> = Inr m) cs ms" and build: "build_remap ms = Inr r"
    by (auto simp: retained_remap_def mapM_r_Inr_iff)
  have "list_all2 (\<lambda>c m. m = \<lparr>im_source = c, im_targets = [c], im_reason = reason\<rparr> \<and> identity_mapping_init m = Inr m) cs ms"
    using ms by (rule list_all2_mono) (auto simp: identity_mapping_init_Inr)
  then have m: "ms = map (\<lambda>c. \<lparr>im_source = c, im_targets = [c], im_reason = reason\<rparr>) cs"
    "\<forall>m \<in> set ms. identity_mapping_init m = Inr m"
    by (induction rule: list_all2_induct) simp_all
  note b = build_remap_Inr [OF build]
  have sets: "set (mappings r) = set ms" using b(1) by (metis set_mset_mset)
  show "remap_ok r" using b(3) m(2) unfolding remap_ok_def list_all_iff sets by blast
  show "remap_dom r = set cs" "remap_rel r = Id_on (set cs)"
    unfolding remap_dom_def remap_rel_def sets m(1) by (force simp: image_iff Id_on_def)+
qed

lemma sequence_initial_exact:
  assumes "sequence_initial cs = Inr s"
  shows "sequence_ok s" and "sq_root s = cs" and "sq_active s = cs" and "sq_invalidated s = []"
    and "sq_steps s = []" and "sq_delta s = delta_zero" and "remap_rel (sq_root_to_current s) = Id_on (set cs)"
    and "sq_version s = MUTATION_SEQUENCE_SCHEMA_VERSION"
proof -
  from assms obtain remap where remap: "retained_remap cs (lit ''sequence root'') = Inr remap"
    and init: "sequence_state_init \<lparr>sq_root = cs, sq_active = cs, sq_invalidated = [], sq_root_to_current = remap,
       sq_steps = [], sq_delta = delta_zero, sq_version = MUTATION_SEQUENCE_SCHEMA_VERSION\<rparr> = Inr s"
    by (auto simp: sequence_initial_def guard_Inr)
  note i = sequence_state_init_Inr [OF init] and r = retained_remap_Inr [OF remap]
  show "sequence_ok s" using i r by (auto simp: sequence_ok_def)
  show "sq_root s = cs" "sq_active s = cs" "sq_invalidated s = []" "sq_steps s = []" "sq_delta s = delta_zero"
    "remap_rel (sq_root_to_current s) = Id_on (set cs)" "sq_version s = MUTATION_SEQUENCE_SCHEMA_VERSION"
    using r(3) by (simp_all add: i(1))
qed

section \<open>Sequences of extensions\<close>

fun path_rel :: "component_id set \<Rightarrow> sequence_step list \<Rightarrow> (component_id \<times> component_id) set" where
  "path_rel A [] = Id_on A"
| "path_rel A (step # steps) = step_rel step A O path_rel (Range (step_rel step A)) steps"

definition expected_deltas :: "sequence_step list \<Rightarrow> mutation_delta list" where
  "expected_deltas steps = map (\<lambda>step. mp_expected (sp_plan step)) steps"

definition keeps_identities :: "sequence_state \<Rightarrow> sequence_state \<Rightarrow> bool" where
  "keeps_identities s s' \<longleftrightarrow> set (sq_invalidated s) \<subseteq> set (sq_invalidated s')
     \<and> set (sq_active s) \<subseteq> set (sq_active s') \<union> set (sq_invalidated s')"

lemma keeps_identities_trans: "keeps_identities s t \<Longrightarrow> keeps_identities t u \<Longrightarrow> keeps_identities s u"
  by (auto simp: keeps_identities_def)

lemma moves_keeps: "moves s step s' \<Longrightarrow> keeps_identities s s'"
  by (auto simp: moves_def Let_def keeps_identities_def)

lemma Id_on_relcomp: "Domain R \<subseteq> A \<Longrightarrow> Id_on A O R = R"
  by auto

lemma relcomp_Id_on: "Range R \<subseteq> A \<Longrightarrow> R O Id_on A = R"
  by auto

lemma path_rel_Domain: "Domain (path_rel A steps) \<subseteq> A"
  by (cases steps) (auto simp: step_rel_def)

lemma run_exact:
  assumes "foldM_r extend s steps = Inr s'" and "sequence_ok s" and "list_all step_ok steps"
  shows "sequence_ok s'" and "keeps_identities s s'" and "sq_root s' = sq_root s" and "sq_steps s' = sq_steps s @ steps"
    and "sq_delta s' = foldl delta_sum (sq_delta s) (expected_deltas steps)"
    and "remap_rel (sq_root_to_current s') = remap_rel (sq_root_to_current s) O path_rel (set (sq_active s)) steps"
    and "sq_version s = MUTATION_SEQUENCE_SCHEMA_VERSION \<Longrightarrow> sq_version s' = MUTATION_SEQUENCE_SCHEMA_VERSION"
proof -
  have "sequence_ok s' \<and> keeps_identities s s' \<and> sq_root s' = sq_root s \<and> sq_steps s' = sq_steps s @ steps
    \<and> sq_delta s' = foldl delta_sum (sq_delta s) (expected_deltas steps)
    \<and> remap_rel (sq_root_to_current s') = remap_rel (sq_root_to_current s) O path_rel (set (sq_active s)) steps
    \<and> (sq_version s = MUTATION_SEQUENCE_SCHEMA_VERSION \<longrightarrow> sq_version s' = MUTATION_SEQUENCE_SCHEMA_VERSION)"
    using assms
  proof (induction steps arbitrary: s)
    case Nil
    then have "Range (remap_rel (sq_root_to_current s)) = set (sq_active s)" by (simp add: sequence_ok_def)
    then have "remap_rel (sq_root_to_current s) O Id_on (set (sq_active s)) = remap_rel (sq_root_to_current s)"
      by (simp add: relcomp_Id_on)
    with Nil show ?case by (simp add: keeps_identities_def expected_deltas_def)
  next
    case (Cons step steps)
    then obtain t where t: "extend s step = Inr t" "foldM_r extend t steps = Inr s'" by auto
    have m: "moves s step t" "sequence_ok t" using extend_exact [OF Cons.prems(2) _ t(1)] Cons.prems(3) by simp_all
    note IH = Cons.IH [OF t(2) m(2)]
    show ?case
      using IH Cons.prems(3) m(1) keeps_identities_trans [OF moves_keeps [OF m(1)]]
      by (simp add: moves_def Let_def expected_deltas_def O_assoc)
  qed
  then show "sequence_ok s'" and "keeps_identities s s'" and "sq_root s' = sq_root s" and "sq_steps s' = sq_steps s @ steps"
    and "sq_delta s' = foldl delta_sum (sq_delta s) (expected_deltas steps)"
    and "remap_rel (sq_root_to_current s') = remap_rel (sq_root_to_current s) O path_rel (set (sq_active s)) steps"
    and "sq_version s = MUTATION_SEQUENCE_SCHEMA_VERSION \<Longrightarrow> sq_version s' = MUTATION_SEQUENCE_SCHEMA_VERSION"
    by simp_all
qed

text \<open>Steps that retain every component they affect change no identity.\<close>

lemma retained_step_rel:
  assumes "retained_only step" and "remap_dom (sp_remap step) \<subseteq> A"
  shows "step_rel step A = Id_on A"
proof -
  have "(c, t) \<in> remap_rel (sp_remap step) \<longleftrightarrow> c \<in> remap_dom (sp_remap step) \<and> t = c" for c t
    using assms(1) by (force simp: retained_only_def list_all_iff remap_rel_def remap_dom_def)
  with assms(2) show ?thesis by (auto simp: step_rel_def Id_on_def)
qed

lemma retained_run:
  assumes "foldM_r extend s steps = Inr s'" and "sequence_ok s" and "list_all step_ok steps" and "list_all retained_only steps"
  shows "set (sq_active s') = set (sq_active s) \<and> set (sq_invalidated s') = set (sq_invalidated s)"
  using assms
proof (induction steps arbitrary: s)
  case (Cons step steps)
  then obtain t where t: "extend s step = Inr t" "foldM_r extend t steps = Inr s'" by auto
  have m: "moves s step t" "sequence_ok t" using extend_exact [OF Cons.prems(2) _ t(1)] Cons.prems(3) by simp_all
  then have "step_rel step (set (sq_active s)) = Id_on (set (sq_active s))"
    using Cons.prems(4) by (intro retained_step_rel) (simp_all add: moves_def Let_def)
  with m(1) have "set (sq_active t) = set (sq_active s) \<and> set (sq_invalidated t) = set (sq_invalidated s)"
    by (simp add: moves_def Let_def)
  with Cons.IH [OF t(2) m(2)] Cons.prems(3,4) show ?case by simp
qed simp

text \<open>
  C15. Sequences of mutations are safe for identities. However far a sequence is extended: every accepted
  step was compiled for exactly the state it extends; the root remap relates each original component to
  exactly the components the steps lead it to, one after the other, and reaches every active component;
  the cumulative change is the sum of the steps' expected changes; and an identity that was active once is
  active or invalidated ever after, stays invalidated once it is, and an invalidated identity never
  becomes active again. Steps that only retain components leave exactly the original ones active.
\<close>
theorem sequence_identities_safe:
  assumes "sequence_initial cs = Inr s0" and "list_all step_ok (before @ after)"
    and "foldM_r extend s0 before = Inr s1" and "foldM_r extend s1 after = Inr s2"
  shows "sequence_ok s2 \<and> sq_root s2 = cs \<and> sq_steps s2 = before @ after
    \<and> sq_delta s2 = foldl delta_sum delta_zero (expected_deltas (before @ after))
    \<and> remap_rel (sq_root_to_current s2) = path_rel (set cs) (before @ after)
    \<and> (\<forall>step rest. after = step # rest \<longrightarrow> state_id s1 = Inr (sp_source_state_id step))
    \<and> set (sq_invalidated s1) \<subseteq> set (sq_invalidated s2)
    \<and> set (sq_active s1) \<subseteq> set (sq_active s2) \<union> set (sq_invalidated s2)
    \<and> set (sq_active s2) \<inter> set (sq_invalidated s1) = {}
    \<and> (list_all retained_only (before @ after) \<longrightarrow> set (sq_active s2) = set cs \<and> sq_invalidated s2 = [])"
proof -
  note i = sequence_initial_exact [OF assms(1)]
  have steps: "list_all step_ok before" "list_all step_ok after" using assms(2) by simp_all
  have whole: "foldM_r extend s0 (before @ after) = Inr s2" using assms(3,4) by (simp add: foldM_r_append)
  note r1 = run_exact [OF assms(3) i(1) steps(1)]
  note r2 = run_exact [OF assms(4) r1(1) steps(2)]
  note r = run_exact [OF whole i(1) assms(2)]
  have path: "remap_rel (sq_root_to_current s2) = path_rel (set cs) (before @ after)"
    using r(6) i(3,7) by (simp add: Id_on_relcomp [OF path_rel_Domain])
  have "state_id s1 = Inr (sp_source_state_id step)" if "after = step # rest" for step rest
    using assms(4) that by (auto simp: extend_def guard_Inr)
  moreover have "set (sq_active s2) = set cs \<and> sq_invalidated s2 = []" if "list_all retained_only (before @ after)"
    using retained_run [OF whole i(1) assms(2) that] i(3,4) by simp
  moreover have "set (sq_active s2) \<inter> set (sq_invalidated s2) = {}" using r(1) by (simp add: sequence_ok_def)
  ultimately show ?thesis
    using r(1,3,4,5) path i(2,5,6) r2(2) by (simp add: keeps_identities_def) blast
qed

section \<open>Equivalent sequences\<close>

lemma sorted_wrt_middle:
  assumes sym: "\<And>a b. P a b = P b a"
  shows "sorted_wrt P (as @ x # bs) \<longleftrightarrow> (\<forall>y \<in> set (as @ bs). P x y) \<and> sorted_wrt P (as @ bs)"
  using sym by (auto simp: sorted_wrt_append)

lemma sorted_wrt_permuted:
  assumes sym: "\<And>a b. P a b = P b a" and "mset xs = mset ys"
  shows "sorted_wrt P xs \<longleftrightarrow> sorted_wrt P ys"
  using assms(2)
proof (induction xs arbitrary: ys)
  case (Cons x xs)
  then have "x \<in> set ys" by (metis list.set_intros(1) mset_eq_setD)
  then obtain as bs where ys: "ys = as @ x # bs" by (metis split_list)
  then have m: "mset xs = mset (as @ bs)" using Cons.prems by simp
  then have "set xs = set (as @ bs)" by (rule mset_eq_setD)
  then show ?case using Cons.IH [OF m] sorted_wrt_middle [where P = P, OF sym] by (simp add: ys)
qed simp

lemma pairwise_disjoint_sorted: "pairwise_disjoint xss \<longleftrightarrow> sorted_wrt (\<lambda>xs ys. set xs \<inter> set ys = {}) xss"
  by (induction xss) (auto simp: list_all_iff)

lemma pairwise_disjoint_permuted: "mset xss = mset yss \<Longrightarrow> pairwise_disjoint xss = pairwise_disjoint yss"
  unfolding pairwise_disjoint_sorted by (rule sorted_wrt_permuted) auto

lemma mapM_r_sorted:
  fixes f :: "'a \<Rightarrow> 'e + 'b :: linorder"
  assumes "mset xs = mset ys" and "mapM_r f xs = Inr vs"
  shows "\<exists>ws. mapM_r f ys = Inr ws \<and> sort ws = sort vs"
proof -
  define g where "g = (\<lambda>x. case f x of Inr y \<Rightarrow> y | Inl _ \<Rightarrow> undefined)"
  have "list_all2 (\<lambda>x v. f x = Inr v) xs vs" using assms(2) by (simp add: mapM_r_Inr_iff)
  then have vs: "vs = map g xs" "\<forall>x \<in> set xs. f x = Inr (g x)"
    by (induction rule: list_all2_induct) (auto simp: g_def)
  have "\<forall>y \<in> set ys. f y = Inr (g y)" using vs(2) mset_eq_setD [OF assms(1)] by simp
  then have "mapM_r f ys = Inr (map g ys)" by (simp add: mapM_r_Inr_iff list_all2_conv_all_nth)
  moreover have "mset (map g ys) = mset (map g xs)" using assms(1) by simp
  then have "sort (map g ys) = sort (map g xs)" by (metis sorted_list_of_multiset_mset)
  ultimately show ?thesis by (simp add: vs(1))
qed

lemma proven_commutative_permuted:
  assumes "proven_commutative s" and "mset (sq_steps s') = mset (sq_steps s)"
  shows "proven_commutative s'" and "equivalence_rule s' = equivalence_rule s"
proof -
  obtain first rest where s: "sq_steps s = first # rest" using assms(1) by (cases "sq_steps s") (auto simp: proven_commutative_def)
  then obtain first' rest' where s': "sq_steps s' = first' # rest'" using assms(2) by (cases "sq_steps s'") auto
  have same: "set (sq_steps s') = set (sq_steps s)" and len: "length (sq_steps s') = length (sq_steps s)"
    using assms(2) by (metis mset_eq_setD, metis size_mset)
  have all: "\<forall>step \<in> set (sq_steps s). sp_proof step = sp_proof first \<and> retained_only step"
    using assms(1) s by (auto simp: proven_commutative_def list_all_iff)
  have first': "sp_proof first' = sp_proof first" using all same s' by (metis list.set_intros(1))
  let ?affected = "\<lambda>steps. map (\<lambda>step. mp_affected (sp_plan step)) steps"
  have "mset (?affected (sq_steps s')) = mset (?affected (sq_steps s))" using assms(2) by simp
  moreover have "pairwise_disjoint (?affected (sq_steps s))" using assms(1) by (simp add: proven_commutative_def s)
  ultimately have disjoint: "pairwise_disjoint (?affected (sq_steps s'))" using pairwise_disjoint_permuted by blast
  have "2 \<le> length (sq_steps s)" "sp_proof first \<noteq> None" using assms(1) by (simp_all add: proven_commutative_def s)
  then have "2 \<le> length (sq_steps s')" "sp_proof first' \<noteq> None" by (simp_all add: len first')
  moreover have "list_all (\<lambda>step. sp_proof step = sp_proof first' \<and> retained_only step) (sq_steps s')"
    using all by (simp add: list_all_iff same first')
  ultimately show "proven_commutative s'" using disjoint by (simp add: proven_commutative_def s')
  with assms(1) show "equivalence_rule s' = equivalence_rule s"
    by (simp add: equivalence_rule_def s s' first')
qed

text \<open>
  The equivalence identity forgets the order exactly where it may: when every step of a sequence
  retains its components, names the same commutativity proof and affects components no other step
  affects, any reordering of the steps is recognized as commutative too and has the same equivalence
  identity (or neither has one, because an identity cannot be written).
\<close>
theorem equivalence_ignores_order:
  assumes "proven_commutative s" and "mset (sq_steps s') = mset (sq_steps s)"
    and "sq_root s' = sq_root s" and "sq_version s' = sq_version s"
  shows "proven_commutative s' \<and> (case equivalence_id s of
      Inl _ \<Rightarrow> \<exists>e. equivalence_id s' = Inl e
    | Inr i \<Rightarrow> equivalence_id s' = Inr i)"
proof -
  note p = proven_commutative_permuted [OF assms(1,2)]
  show ?thesis
  proof (cases "mapM_r step_mutation_id (sq_steps s)")
    case (Inr ids)
    with mapM_r_sorted [OF assms(2) [symmetric]] obtain ids' where
      "mapM_r step_mutation_id (sq_steps s') = Inr ids'" "sort ids' = sort ids" by blast
    then have "equivalence_id s' = equivalence_id s"
      using Inr p assms by (simp add: equivalence_id_def)
    with p(1) show ?thesis by (auto split: sum.splits)
  next
    case (Inl e)
    have "\<exists>e. mapM_r step_mutation_id (sq_steps s') = Inl e"
      using mapM_r_sorted [OF assms(2), of step_mutation_id] Inl
      by (cases "mapM_r step_mutation_id (sq_steps s')") auto
    with Inl p(1) show ?thesis by (auto simp: equivalence_id_def)
  qed
qed

section \<open>A sequence\<close>

text \<open>A model with one child, which the first step removes. The digests are not evaluated.\<close>

definition demo_mutation :: "component_id \<Rightarrow> mutation_plan" where
  "demo_mutation c = \<lparr>mp_request = \<lparr>mr_kind = REMOVE, mr_targets = [c], mr_parameters = [], mr_version = 1\<rparr>,
     mp_affected = [c], mp_preconditions = [],
     mp_expected = \<lparr>dl_parameters = -64, dl_flops = 0, dl_memory_bytes = -256, dl_storage_bytes = -128\<rparr>\<rparr>"

definition demo_step :: "pystr \<Rightarrow> component_id \<Rightarrow> component_id list \<Rightarrow> sequence_step" where
  "demo_step source c targets = \<lparr>sp_source_state_id = source, sp_plan = demo_mutation c,
     sp_remap = Remap [\<lparr>im_source = c, im_targets = targets, im_reason = lit ''step''\<rparr>], sp_proof = Some (lit ''p'')\<rparr>"

definition demo_start :: sequence_state where
  "demo_start = (let cs = [demo_root, demo_child] in
     \<lparr>sq_root = cs, sq_active = cs, sq_invalidated = [],
      sq_root_to_current = Remap (map (\<lambda>c. \<lparr>im_source = c, im_targets = [c], im_reason = lit ''sequence root''\<rparr>) cs),
      sq_steps = [], sq_delta = delta_zero, sq_version = 1\<rparr>)"

lemma demo_start_initial: "sequence_initial [demo_root, demo_child] = Inr demo_start"
  by code_simp

lemma demo_start_id: "\<exists>source. state_id demo_start = Inr source \<and> take 6 source = lit ''state_''"
proof -
  have "(case sequence_record demo_start of Inl _ \<Rightarrow> False | Inr v \<Rightarrow> (case canonical_identity_json v of
      Inl _ \<Rightarrow> False | Inr t \<Rightarrow> (case encode_utf8 t of None \<Rightarrow> False | Some _ \<Rightarrow> True)))" by code_simp
  then obtain v t encoded where "sequence_record demo_start = Inr v" "canonical_identity_json v = Inr t"
    "encode_utf8 t = Some encoded" by (auto split: sum.splits option.splits)
  then show ?thesis by (simp add: state_id_def sequence_digest_def lit_def)
qed

lemma demo_step_ok: "take 6 source = lit ''state_'' \<Longrightarrow> targets \<in> {[], [c]} \<Longrightarrow> step_ok (demo_step source c targets)"
  by (auto simp: step_ok_def sequence_step_init_def demo_step_def demo_mutation_def remap_dom_def remap_ok_iff
      identity_mapping_init_Inr sorted_by_id_def lit_simps is_blank_def is_py_space_def raise_if_def)

lemma demo_extends:
  assumes "state_id demo_start = Inr source"
  shows "\<exists>s2. extend demo_start (demo_step source demo_child []) = Inr s2 \<and> sq_invalidated s2 = [demo_child]"
proof -
  let ?keep = "\<lparr>im_source = demo_root, im_targets = [demo_root], im_reason = lit ''unaffected sequence component''\<rparr>"
  let ?drop = "\<lparr>im_source = demo_child, im_targets = [], im_reason = lit ''step''\<rparr>"
  let ?composed = "Remap [\<lparr>im_source = demo_root, im_targets = [demo_root],
      im_reason = lit ''sequence root -> unaffected sequence component''\<rparr>,
    \<lparr>im_source = demo_child, im_targets = [], im_reason = lit ''sequence root -> step''\<rparr>]"
  have parts: "expand_remap (sq_active demo_start) (Remap [?drop]) = Inr (Remap [?keep, ?drop])"
    "remap_targets (Remap [?keep, ?drop]) = [demo_root]" "sq_invalidated demo_start = []"
    "sorted_set [demo_root] = Inr [demo_root]" "sorted_set [demo_child] = Inr [demo_child]"
    "filter (\<lambda>c. c \<notin> set [demo_root]) (sq_active demo_start) = [demo_child]"
    "compose_remap (sq_root_to_current demo_start) (Remap [?keep, ?drop]) = Inr ?composed"
    "list_ex (\<lambda>c. c = demo_child) (sq_active demo_start)"
    by code_simp+
  let ?s2 = "\<lambda>step. \<lparr>sq_root = sq_root demo_start, sq_active = [demo_root], sq_invalidated = [demo_child],
     sq_root_to_current = ?composed, sq_steps = [step], sq_delta = mp_expected (demo_mutation demo_child),
     sq_version = MUTATION_SEQUENCE_SCHEMA_VERSION\<rparr>"
  have "sequence_state_init (?s2 (demo_step [] demo_child [])) = Inr (?s2 (demo_step [] demo_child []))" by code_simp
  then have init: "sequence_state_init (?s2 step) = Inr (?s2 step)" for step
    by (simp add: sequence_state_init_def rbind_Inr_iff)
  have fields: "sp_source_state_id (demo_step source demo_child []) = source"
    "sp_plan (demo_step source demo_child []) = demo_mutation demo_child"
    "sp_remap (demo_step source demo_child []) = Remap [?drop]" "mp_affected (demo_mutation demo_child) = [demo_child]"
    by (simp_all add: demo_step_def demo_mutation_def)
  have "demo_child \<in> set (sq_active demo_start)" using parts(8) by (simp add: list_ex_iff)
  moreover have "sq_steps demo_start = []" "delta_sum (sq_delta demo_start) (mp_expected (demo_mutation demo_child))
      = mp_expected (demo_mutation demo_child)"
    by code_simp+
  ultimately have "extend demo_start (demo_step source demo_child []) = Inr (?s2 (demo_step source demo_child []))"
    using parts(1-7) init [of "demo_step source demo_child []"] assms fields
    by (simp add: extend_def Let_def raise_reused_def)
  then show ?thesis by simp
qed

theorem sequence_identities_safe_witness:
  "\<exists>step s2. extend demo_start step = Inr s2 \<and> sq_invalidated s2 = [demo_child]
     \<and> remap_rel (sq_root_to_current s2) = path_rel {demo_root, demo_child} [step]"
proof -
  obtain source where source: "state_id demo_start = Inr source" "take 6 source = lit ''state_''"
    using demo_start_id by blast
  let ?step = "demo_step source demo_child []"
  have "\<exists>s2. extend demo_start ?step = Inr s2 \<and> sq_invalidated s2 = [demo_child]"
    by (rule demo_extends [OF source(1)])
  then obtain s2 where s2: "extend demo_start ?step = Inr s2" "sq_invalidated s2 = [demo_child]" by blast
  have "list_all step_ok ([] @ [?step])" using demo_step_ok [OF source(2), of "[]"] by simp
  from sequence_identities_safe [OF demo_start_initial this, of demo_start s2] s2 show ?thesis
    by (intro exI [of _ ?step] exI [of _ s2]) simp
qed

theorem equivalence_ignores_order_witness:
  "\<exists>s. let s' = s\<lparr>sq_steps := rev (sq_steps s)\<rparr> in length (sq_steps s) = 2 \<and> proven_commutative s'
     \<and> (case equivalence_id s of Inl _ \<Rightarrow> \<exists>e. equivalence_id s' = Inl e | Inr i \<Rightarrow> equivalence_id s' = Inr i)"
proof -
  let ?s = "demo_start\<lparr>sq_steps := [demo_step [] demo_root [demo_root], demo_step [] demo_child [demo_child]]\<rparr>"
  have "proven_commutative ?s" by code_simp
  from equivalence_ignores_order [OF this,
      of "demo_start\<lparr>sq_steps := [demo_step [] demo_child [demo_child], demo_step [] demo_root [demo_root]]\<rparr>"]
  show ?thesis by (intro exI [of _ ?s]) (simp add: Let_def)
qed

end
