(* ===== verification/Spec2Isabelle.thy ===== *)
theory Spec2Isabelle
  imports GgufRoundtrip GgufDisk GgufReader GgufPublish GgufRecovery ExperimentStates WorkQueue MigrationSafety GraphRemap GraphBuilder GraphSerialization MutationTransaction WorkerSafety SearchStore SearchConstraints ParetoFrontier LineageSafety CandidateSampling TargetResolution OomRecovery ResourceBudget BatchCoverage MutationSequence
begin

text \<open>
  This development models the part of ModelSurgeon (the Python package src/src/modelsurgeon) that decides
  whether files, graphs, experiments and searches stay consistent, and proves what makes it correct. It is
  a shallow embedding: a function of the source is a function here, a raised exception is the left value
  of a sum (Prelude: \<open>rbind\<close>, \<open>raise_if\<close>, \<open>except\<close>), state is passed explicitly, a dataclass is a record whose
  \<open>__post_init__\<close> is an \<open>_init\<close> function, an enum is a datatype with its values. Definitions compute, so the
  witnesses evaluate them.

  \<^bold>\<open>The parts and how they interact.\<close>
  The program takes a model apart into components, edits tensors, and runs searches over many edits with
  persistent, resumable experiments. Four groups of it are modelled.

  \<^enum> GGUF files (adapters/gguf). container.py parses a file; disk.py checks capacity; writer.py plans and
    publishes a new file; resume.py does the same with a checkpoint after each tensor; tensor_reader.py and
    direct_copy.py hand out payload bytes; quantization.py holds the block layouts all of them count with.
    The writers call the parser on what they staged before they publish it.
  \<^enum> Component graphs (graph). component_id.py names components; schema.py defines the graph; builder.py builds
    it from discovery records and calls validation.py; serialization.py stores it; remapping.py
    renames components across surgery stages.
  \<^enum> Surgery (surgery). contracts.py checks requests and plans against a graph identity; target_resolution.py
    closes the requested targets under the constraints and coupled edges of a graph and plans over the
    result; transaction.py runs one exclusive mutation of live targets with snapshots and rollback.
  \<^enum> Experiments and search (experiments, search). state_machine.py and queue.py share the metadata database
    (store.py): state events and work leases of candidates. worker_scheduler.py places tasks on workers.
    oom_recovery.py runs one stage of a candidate inside the clean-up boundaries of gpu_cleanup.py and moves
    the state machine as it retries. sequence.py chains mutation plans over identity remaps.
    lifecycle.py moves architecture candidates from prediction to acceptance and stores every generation
    of a search, in the canonical JSON of identity.py. candidates.py enumerates the masks of a graph: it scans
    the canonical graph of builder and schema, ranks the requests of contracts.py by SHA-256, keeps the best in a
    heap and plans them with target_resolution.py. constraints.py decides hard limits, objectives.py holds the
    soft terms, and pareto.py keeps an archive of measured candidates and its frontier over those terms.
    lineage.py decides a candidate from its constraint evidence and commits or rolls back its mutation
    transaction with the decision. resource_budget.py runs a stage under ceilings checked against the
    hardware inventory and interrupts the candidate's state machine when one is passed; batch_planner.py sizes
    calibration batches with the preflight of that module. migrations.py upgrades the metadata database under its
    checksummed ledger.

  \<^bold>\<open>Theories.\<close>
  \<^item> Prelude: results, loops that stop at the first error, slices, masks. PyText (str and UTF-8), PyFloat and PyFloatOrder (binary64
    and binary32, their order and subtraction), PyStruct (struct formats), PyDivide (math.ceil of
    a quotient in binary64), PyNumerals (decimal and hexadecimal integer text, whitespace),
    PySha256 (hashlib.sha256), PyJson, PyJsonText (json.dumps), PyJsonParse (json.loads, with the round trip
    \<open>loads_dumps\<close>), PyFiles (files under a schedule of faults),
    PyHeap (heapq, with the locale \<open>min_queue\<close> and its interpretation \<open>heap_list\<close>): the standard library as the source uses it.
  \<^item> GgufQuant: quantization.py. Layout constructors, the pinned tables, axis-edit plans, the codec registry.
  \<^item> GgufContainer: container.py. The cursor, values, metadata and descriptor loops, placement, overlap check.
  \<^item> GgufDisk: disk.py. GgufWriter: planning in writer.py. GgufRoundtrip: a planned file within the
    parser's limits and with its quantization declared parses back to its plan
    (locale \<open>cursor_codec\<close>, one interpretation per encoder and reader pair). GgufReader: tensor_reader.py,
    direct_copy.py.
  \<^item> GgufPublish: \<open>write_gguf_transactionally\<close> of writer.py over PyFiles. GgufResume: resume.py. GgufRecovery: every
    history of interrupted runs and discards leaves the destination absent or complete, and a run without
    faults publishes the same bytes from staging and manifest that are both there or both absent.
  \<^item> GraphComponentId: component_id.py. GraphRemap: remapping.py. GraphSchema: schema.py. GraphCycles: the two-pass
    component search of validation.py over any node type (locale \<open>graph_search\<close>). GraphValidation: validation.py,
    with the interpretation \<open>component_search\<close>. GraphBuilder: builder.py. GraphSerialization: serialization.py.
  \<^item> MutationContracts: contracts.py. TargetResolution: target_resolution.py. MutationTransaction: transaction.py.
  \<^item> ExperimentStates: state_machine.py over the event table. WorkQueue: queue.py over the lease table.
    WorkerScheduler: worker_scheduler.py. WorkerSafety: what it guarantees over every sequence of calls.
  \<^item> GpuCleanup: gpu_cleanup.py. OomRecovery: oom_recovery.py, over ExperimentStates and GpuCleanup.
  \<^item> IdentityJson: the canonical JSON of identity.py. ExperimentIdentity: the run and candidate identities of
    identity.py. CandidateEnumeration: candidates.py. CandidateSampling: what its reports account for, and that a
    bounded enumeration is a prefix of the full one (over the laws of \<open>min_queue\<close>). MutationSequence: sequence.py, over GraphRemap.
  \<^item> SearchLifecycle: the records and transitions of lifecycle.py. SearchStore: its JSON records, decoders and
    SQLite store. SearchConstraints: constraints.py. SearchObjectives: objectives.py and the configuration it reads.
    ParetoArchive: pareto.py, with \<open>put\<close> split in its read and its transaction. ParetoFrontier: what the archive
    guarantees over every interleaving of puts. CheckpointLineage: lineage.py, over SearchConstraints and
    MutationTransaction. LineageSafety: the forest of accepted checkpoints and the outcome of a decision.
  \<^item> ResourceBudget: resource_budget.py and the records of hardware.py, over ExperimentStates.
  \<^item> BatchPlanner: batch_planner.py, over ResourceBudget and IdentityJson. BatchCoverage: the longest batch that fits,
    the samples of a calibration covered once, and the adapted memory model.
  \<^item> Migrations: migrations.py, the runner as a machine over ledger and tables. MigrationSafety: ledger and tables agree under
    every interleaving and fault, a call alone succeeds exactly on recognised ledgers, and the race of two openers.

  \<^bold>\<open>State and operations.\<close>
  A file system is a map from paths to contents with a clock and a schedule that says for each call
  whether it works, raises, or is the last thing the process does; the lemmas quantify over all schedules.
  A database table is the list of its rows with its key and check constraints written out; an error leaves
  the transaction's tables as they were. Where the source reads outside its transaction (the state
  machine, the lifecycle store, the Pareto archive) a call is split in two steps, and traces interleave the steps of any number
  of processes. Module-level mutable state (the set of locked owners) is part of the state passed.
  A hashlib object is the bytes it was fed; \<open>hexdigest\<close> is the real SHA-256, and no proof assumes that it has no
  collisions. Strings are lists of code points, so lone surrogates and the errors of encoding them occur.

  \<^bold>\<open>Groups of lemmas.\<close>
  Constructors: what each \<open>_init\<close> accepts (\<open>_iff\<close> lemmas). Preservation: one lemma per operation and invariant,
  lifted to runs by induction. Exactness: an operation succeeds exactly under its guards. Round trips: writer and
  parser, dump and load, print and parse. Refinement and equivalence: identity remaps against relational
  composition, the cycle search against the transitive closure, graph building against its canonical form.
  Crash safety: invariants of every prefix of an operation under every fault.

  \<^bold>\<open>Bounds and fuel.\<close>
  Loops are structural recursions or have a proved measure (the stack search of GraphCycles, the climb to an
  existing directory, the sifting of PyHeap, chains of remap targets, the worklist of TargetResolution, the retries of OomRecovery).
  \<open>migration_alone\<close> counts the steps of a call, three more than its migrations, which \<open>migration_exact\<close> shows to be
  enough. The only other fuel is that of \<open>json_loads\<close>: two units per
  character of the text and one more, which \<open>json_loads_fuel\<close> shows to be enough for every text, since each
  call but the step from an array to its element consumes a character. Machine integers keep their width
  where the source depends on it: struct formats, 64-bit file offsets, SQLite integers.

  \<^bold>\<open>Parameters.\<close>
  The operating system (which paths exist, free space and devices), random tokens, clocks, the targets of a
  mutation transaction (their documented snapshot and restore behaviour is the hypothesis \<open>faithful_targets\<close>),
  the callbacks of a recovery run, of a budgeted stage and of a clean-up boundary (actions on a world that may raise; the
  hypotheses \<open>quiet\<close> and \<open>leaves_candidate\<close> say they leave the candidate's history alone), whether a database commit
  succeeds, the lease of a candidate's artifacts, what an SQL statement of a migration does, how a number prints in a message, \<open>repr\<close> of records in messages, \<open>json.loads\<close> in GraphSerialization, whose documents may hold floats,
  and the identity of an objective set in ParetoArchive, a hash of such a document.

  \<^bold>\<open>Not modelled.\<close>
  Texts of error messages beyond the one that tells errors apart, where nothing reads them. The decimal
  text of floats (shortest representation), so documents with floats stay values. The interpreter's recursion
  limit and memory. Mapping files into memory is reading them. In quantization.py the floating-point
  error measure, in identity.py path aliases and the experiment identity, in objectives.py the weighted score (it
  divides floats) and its identity, in constraints.py the identity of a set, in store.py everything but
  the two tables above, in migrations.py the SQL texts of the registry. Outside these files: the numeric codecs, adapters, features, learned models and studies
  drive numpy, torch, scikit-learn, pyarrow or subprocesses, which are not part of the source; the command line,
  conversation and reporting packages are orchestration and record validation over the parts above;
  the remaining pure planning code of experiments, search and surgery is left for later work.
\<close>

end
